(* ===== verification/Prelude.thy ===== *)
theory Prelude
  imports Main "HOL-Library.Word" "HOL-Library.More_List" "HOL-Library.Monad_Syntax"
begin

unbundle bit_operations_syntax

text \<open>
  The shared vocabulary of the development: the machine types of the i386 kernel,
  C strings and C byte buffers, the "first index that satisfies a test" loop that every
  table of the kernel uses (file nodes, descriptors, tasks, mounts, variables), and the
  automation collections the component theories extend.

  Conventions. A C string is a \<open>string\<close>: the characters before the terminating NUL.
  A zero-initialised static array is the list of the bytes written so far; the bytes
  beyond it are 0, and a length bound on the list is the statement that no write left
  the array. A C index that is \<open>-1\<close> when there is none is an \<open>option\<close>. A function of
  the kernel that may fail to return (a spin lock, a walk along parent links) has an
  \<open>option\<close> result in which \<open>None\<close> is "does not return".
\<close>

section \<open>Machine types\<close>

type_synonym u8 = "8 word"
type_synonym u16 = "16 word"
type_synonym u32 = "32 word"
type_synonym u64 = "64 word"
type_synonym cstring = string

abbreviation NUL :: char where
  "NUL \<equiv> CHR 0x00"

named_theorems kernel_simps "functional facts of the kernel's operations"
named_theorems kernel_inv "preservation facts: an operation keeps its component's invariant"

section \<open>Scanning a table for the first index that satisfies a test\<close>

text \<open>
  \<open>scan P i n\<close> is the loop \<open>for (k = i; k < i + n; k++) if (P(k)) return k; return -1;\<close>
\<close>

fun scan :: "(nat \<Rightarrow> bool) \<Rightarrow> nat \<Rightarrow> nat \<Rightarrow> nat option" where
  "scan P i 0 = None"
| "scan P i (Suc n) = (if P i then Some i else scan P (Suc i) n)"

lemma scan_SomeD:
  "scan P i n = Some k \<Longrightarrow> i \<le> k \<and> k < i + n \<and> P k \<and> (\<forall>j. i \<le> j \<longrightarrow> j < k \<longrightarrow> \<not> P j)"
proof (induction P i n rule: scan.induct)
  case (2 P i n)
  show ?case
  proof (cases "P i")
    case True
    with "2.prems" show ?thesis by simp
  next
    case False
    with "2.prems" have "scan P (Suc i) n = Some k" by simp
    with False "2.IH" have k: "Suc i \<le> k" "k < Suc i + n" "P k"
      "\<forall>j. Suc i \<le> j \<longrightarrow> j < k \<longrightarrow> \<not> P j" by auto
    have "\<not> P j" if "i \<le> j" "j < k" for j
      using that False k(4) by (cases "i = j") auto
    with k show ?thesis by simp
  qed
qed simp

lemma scan_None_iff: "scan P i n = None \<longleftrightarrow> (\<forall>k. i \<le> k \<longrightarrow> k < i + n \<longrightarrow> \<not> P k)"
proof (induction P i n rule: scan.induct)
  case (2 P i n)
  then show ?case
    by (auto simp: Suc_le_eq) (metis add_Suc_right add_Suc_shift le_neq_implies_less)
qed simp

lemma scan_cong:
  "(\<And>k. i \<le> k \<Longrightarrow> k < i + n \<Longrightarrow> P k = Q k) \<Longrightarrow> scan P i n = scan Q i n"
  by (induction P i n rule: scan.induct) auto

lemma scan_SomeI:
  assumes "i \<le> k" "k < i + n" "P k" "\<And>j. i \<le> j \<Longrightarrow> j < k \<Longrightarrow> \<not> P j"
  shows "scan P i n = Some k"
proof (cases "scan P i n")
  case None
  with assms show ?thesis by (auto simp: scan_None_iff)
next
  case (Some m)
  then have "i \<le> m" "m < i + n" "P m" "\<forall>j. i \<le> j \<longrightarrow> j < m \<longrightarrow> \<not> P j"
    by (auto dest: scan_SomeD)
  with assms have "m = k" by (meson linorder_neqE_nat)
  with Some show ?thesis by simp
qed

text \<open>When at most one index can satisfy the test, the scan finds that one.\<close>

lemma scan_unique:
  assumes "i \<le> k" "k < i + n" "P k"
    and unique: "\<And>j. i \<le> j \<Longrightarrow> j < i + n \<Longrightarrow> P j \<Longrightarrow> j = k"
  shows "scan P i n = Some k"
proof (rule scan_SomeI)
  show "\<not> P j" if "i \<le> j" "j < k" for j
    using unique [of j] that \<open>k < i + n\<close> by auto
qed (fact assms(1-3))+

section \<open>Machine words\<close>

text \<open>A word below half its range reads the same signed and unsigned.\<close>

lemma sint_small:
  assumes "unat (w :: u32) < 2 ^ 31"
  shows "sint w = int (unat w)"
proof -
  have "int (unat w) < int (2 ^ 31)" using assms by (simp only: of_nat_less_iff)
  then have "int (unat w) < 2 ^ 31" by simp
  then have u: "uint w < 2 ^ 31" by (simp only: uint_nat)
  have "sint w = uint w"
  proof -
    have "- (2 ^ 31) \<le> uint w" by (rule order_trans [of _ 0]) simp_all
    with u show ?thesis using signed_take_bit_int_eq_self [of 31 "uint w"] by (simp add: sint_uint)
  qed
  then show ?thesis by (simp only: uint_nat)
qed

section \<open>Byte buffers\<close>

text \<open>
  \<open>blit z buf off bs\<close> stores the bytes \<open>bs\<close> at offset \<open>off\<close> of an array initialised with
  \<open>z\<close> whose written prefix is \<open>buf\<close>; \<open>nth_default z\<close> reads it.
\<close>

definition blit :: "'a \<Rightarrow> 'a list \<Rightarrow> nat \<Rightarrow> 'a list \<Rightarrow> 'a list" where
  "blit z buf off bs =
     take off buf @ replicate (off - length buf) z @ bs @ drop (off + length bs) buf"

lemma length_blit [simp]: "length (blit z buf off bs) = max (length buf) (off + length bs)"
  by (simp add: blit_def)

lemma nth_default_blit:
  "nth_default z (blit z buf off bs) i =
     (if off \<le> i \<and> i < off + length bs then bs ! (i - off) else nth_default z buf i)"
  by (auto simp: blit_def nth_default_def nth_append min_def)

lemma take_blit_0 [simp]: "take (length bs) (blit z buf 0 bs) = bs"
  by (simp add: blit_def)

section \<open>Loops over memory\<close>

text \<open>
  Memory that a loop writes cell by cell is a function from addresses; two nested
  loops over the rows and columns of a rectangle that is stored row by row are one loop
  over its cells, and a copy towards lower addresses that runs upwards reads every cell
  before it is overwritten.
\<close>

lemma fold_rows:
  "fold (\<lambda>y. fold (\<lambda>x. g (y * w + x)) [0..<w]) [0..<h] = fold g [0..<h * w]"
proof (induction h)
  case (Suc h)
  have row: "fold (\<lambda>x. g (h * w + x)) [0..<w] = fold g [h * w..<h * w + w]"
  proof -
    have "[h * w..<h * w + w] = map (\<lambda>x. h * w + x) [0..<w]"
      by (simp add: add.commute map_add_upt)
    then show ?thesis by (simp add: fold_map comp_def)
  qed
  have upto: "[0..<Suc h * w] = [0..<h * w] @ [h * w..<h * w + w]"
    using upt_add_eq_append [of 0 "h * w" w] by (simp add: add.commute)
  show ?case by (simp add: Suc.IH row upto del: mult_Suc)
qed simp

lemma fold_fill:
  "fold (\<lambda>i m. m(b + i := v)) [0..<n] m k = (if b \<le> k \<and> k < b + n then v else m k)"
  by (induction n) auto

lemma fold_copy_down:
  "fold (\<lambda>i m. m(i := m (i + d))) [0..<n] m k = (if k < n then m (k + d) else m k)"
proof (induction n arbitrary: k)
  case (Suc n)
  show ?case using Suc.IH [of k] Suc.IH [of "n + d"] by (simp del: fun_upd_apply add: fun_upd_def)
qed simp

end
