(* ===== verification/Font.thy ===== *)
theory Font
  imports Prelude
begin

text \<open>
  The built-in 8x16 font of \<open>src/src/gfx.c\<close>. The C table uses designated initialisers:
  the glyphs it does not name (the control characters, the blank and 127) are 16 zero
  rows. The lemmas show that every byte has a glyph of 16 rows, so that the glyph loops
  of the framebuffer console read inside the table.
\<close>

definition font8x16_rows :: "(nat \<times> u8 list) list" where
  "font8x16_rows = [
    (33, [0x0, 0x0, 0x18, 0x3c, 0x3c, 0x18, 0x18, 0x18, 0x18, 0x0, 0x18, 0x18, 0x0, 0x0, 0x0, 0x0]),
    (34, [0x0, 0x66, 0x66, 0x66, 0x24, 0x0, 0x0, 0x0, 0x0, 0x0, 0x0, 0x0, 0x0, 0x0, 0x0, 0x0]),
    (35, [0x0, 0x0, 0x6c, 0x6c, 0xfe, 0x6c, 0x6c, 0xfe, 0x6c, 0x6c, 0x0, 0x0, 0x0, 0x0, 0x0, 0x0]),
    (36, [0x18, 0x18, 0x7c, 0xc6, 0xc0, 0x7c, 0x6, 0xc6, 0x7c, 0x18, 0x18, 0x0, 0x0, 0x0, 0x0, 0x0]),
    (37, [0x0, 0x0, 0x0, 0xc2, 0xc6, 0xc, 0x18, 0x30, 0x60, 0xc6, 0x86, 0x0, 0x0, 0x0, 0x0, 0x0]),
    (38, [0x0, 0x0, 0x38, 0x6c, 0x6c, 0x38, 0x76, 0xdc, 0xcc, 0xcc, 0x76, 0x0, 0x0, 0x0, 0x0, 0x0]),
    (39, [0x0, 0x30, 0x30, 0x30, 0x60, 0x0, 0x0, 0x0, 0x0, 0x0, 0x0, 0x0, 0x0, 0x0, 0x0, 0x0]),
    (40, [0x0, 0x0, 0xc, 0x18, 0x30, 0x30, 0x30, 0x30, 0x30, 0x18, 0xc, 0x0, 0x0, 0x0, 0x0, 0x0]),
    (41, [0x0, 0x0, 0x30, 0x18, 0xc, 0xc, 0xc, 0xc, 0xc, 0x18, 0x30, 0x0, 0x0, 0x0, 0x0, 0x0]),
    (42, [0x0, 0x0, 0x0, 0x66, 0x3c, 0xff, 0x3c, 0x66, 0x0, 0x0, 0x0, 0x0, 0x0, 0x0, 0x0, 0x0]),
    (43, [0x0, 0x0, 0x0, 0x18, 0x18, 0x7e, 0x18, 0x18, 0x0, 0x0, 0x0, 0x0, 0x0, 0x0, 0x0, 0x0]),
    (44, [0x0, 0x0, 0x0, 0x0, 0x0, 0x0, 0x0, 0x0, 0x0, 0x18, 0x18, 0x30, 0x0, 0x0, 0x0, 0x0]),
    (45, [0x0, 0x0, 0x0, 0x0, 0x0, 0x7e, 0x0, 0x0, 0x0, 0x0, 0x0, 0x0, 0x0, 0x0, 0x0, 0x0]),
    (46, [0x0, 0x0, 0x0, 0x0, 0x0, 0x0, 0x0, 0x0, 0x0, 0x18, 0x18, 0x0, 0x0, 0x0, 0x0, 0x0]),
    (47, [0x0, 0x0, 0x2, 0x6, 0xc, 0x18, 0x30, 0x60, 0xc0, 0x80, 0x0, 0x0, 0x0, 0x0, 0x0, 0x0]),
    (48, [0x0, 0x0, 0x7c, 0xc6, 0xce, 0xde, 0xf6, 0xe6, 0xc6, 0xc6, 0x7c, 0x0, 0x0, 0x0, 0x0, 0x0]),
    (49, [0x0, 0x0, 0x18, 0x38, 0x78, 0x18, 0x18, 0x18, 0x18, 0x18, 0x7e, 0x0, 0x0, 0x0, 0x0, 0x0]),
    (50, [0x0, 0x0, 0x7c, 0xc6, 0x6, 0xc, 0x18, 0x30, 0x60, 0xc6, 0xfe, 0x0, 0x0, 0x0, 0x0, 0x0]),
    (51, [0x0, 0x0, 0x7c, 0xc6, 0x6, 0x6, 0x3c, 0x6, 0x6, 0xc6, 0x7c, 0x0, 0x0, 0x0, 0x0, 0x0]),
    (52, [0x0, 0x0, 0xc, 0x1c, 0x3c, 0x6c, 0xcc, 0xfe, 0xc, 0xc, 0x1e, 0x0, 0x0, 0x0, 0x0, 0x0]),
    (53, [0x0, 0x0, 0xfe, 0xc0, 0xc0, 0xc0, 0xfc, 0x6, 0x6, 0xc6, 0x7c, 0x0, 0x0, 0x0, 0x0, 0x0]),
    (54, [0x0, 0x0, 0x38, 0x60, 0xc0, 0xc0, 0xfc, 0xc6, 0xc6, 0xc6, 0x7c, 0x0, 0x0, 0x0, 0x0, 0x0]),
    (55, [0x0, 0x0, 0xfe, 0xc6, 0x6, 0xc, 0x18, 0x30, 0x30, 0x30, 0x30, 0x0, 0x0, 0x0, 0x0, 0x0]),
    (56, [0x0, 0x0, 0x7c, 0xc6, 0xc6, 0xc6, 0x7c, 0xc6, 0xc6, 0xc6, 0x7c, 0x0, 0x0, 0x0, 0x0, 0x0]),
    (57, [0x0, 0x0, 0x7c, 0xc6, 0xc6, 0xc6, 0x7e, 0x6, 0x6, 0xc, 0x78, 0x0, 0x0, 0x0, 0x0, 0x0]),
    (58, [0x0, 0x0, 0x0, 0x18, 0x18, 0x0, 0x0, 0x0, 0x18, 0x18, 0x0, 0x0, 0x0, 0x0, 0x0, 0x0]),
    (59, [0x0, 0x0, 0x0, 0x18, 0x18, 0x0, 0x0, 0x0, 0x18, 0x18, 0x30, 0x0, 0x0, 0x0, 0x0, 0x0]),
    (60, [0x0, 0x0, 0x6, 0xc, 0x18, 0x30, 0x60, 0x30, 0x18, 0xc, 0x6, 0x0, 0x0, 0x0, 0x0, 0x0]),
    (61, [0x0, 0x0, 0x0, 0x0, 0x7e, 0x0, 0x0, 0x7e, 0x0, 0x0, 0x0, 0x0, 0x0, 0x0, 0x0, 0x0]),
    (62, [0x0, 0x0, 0x60, 0x30, 0x18, 0xc, 0x6, 0xc, 0x18, 0x30, 0x60, 0x0, 0x0, 0x0, 0x0, 0x0]),
    (63, [0x0, 0x0, 0x7c, 0xc6, 0xc, 0x18, 0x18, 0x18, 0x0, 0x18, 0x18, 0x0, 0x0, 0x0, 0x0, 0x0]),
    (64, [0x0, 0x0, 0x7c, 0xc6, 0xc6, 0xde, 0xde, 0xde, 0xdc, 0xc0, 0x7c, 0x0, 0x0, 0x0, 0x0, 0x0]),
    (65, [0x0, 0x0, 0x10, 0x38, 0x6c, 0xc6, 0xc6, 0xfe, 0xc6, 0xc6, 0xc6, 0x0, 0x0, 0x0, 0x0, 0x0]),
    (66, [0x0, 0x0, 0xfc, 0x66, 0x66, 0x66, 0x7c, 0x66, 0x66, 0x66, 0xfc, 0x0, 0x0, 0x0, 0x0, 0x0]),
    (67, [0x0, 0x0, 0x3c, 0x66, 0xc0, 0xc0, 0xc0, 0xc0, 0xc0, 0x66, 0x3c, 0x0, 0x0, 0x0, 0x0, 0x0]),
    (68, [0x0, 0x0, 0xf8, 0x6c, 0x66, 0x66, 0x66, 0x66, 0x66, 0x6c, 0xf8, 0x0, 0x0, 0x0, 0x0, 0x0]),
    (69, [0x0, 0x0, 0xfe, 0x62, 0x60, 0x68, 0x78, 0x68, 0x60, 0x62, 0xfe, 0x0, 0x0, 0x0, 0x0, 0x0]),
    (70, [0x0, 0x0, 0xfe, 0x62, 0x60, 0x68, 0x78, 0x68, 0x60, 0x60, 0xf0, 0x0, 0x0, 0x0, 0x0, 0x0]),
    (71, [0x0, 0x0, 0x3c, 0x66, 0xc0, 0xc0, 0xce, 0xc6, 0xc6, 0x66, 0x3c, 0x0, 0x0, 0x0, 0x0, 0x0]),
    (72, [0x0, 0x0, 0xc6, 0xc6, 0xc6, 0xc6, 0xfe, 0xc6, 0xc6, 0xc6, 0xc6, 0x0, 0x0, 0x0, 0x0, 0x0]),
    (73, [0x0, 0x0, 0x3c, 0x18, 0x18, 0x18, 0x18, 0x18, 0x18, 0x18, 0x3c, 0x0, 0x0, 0x0, 0x0, 0x0]),
    (74, [0x0, 0x0, 0x1e, 0xc, 0xc, 0xc, 0xc, 0xc, 0xcc, 0xcc, 0x78, 0x0, 0x0, 0x0, 0x0, 0x0]),
    (75, [0x0, 0x0, 0xe6, 0x66, 0x6c, 0x6c, 0x78, 0x6c, 0x6c, 0x66, 0xe6, 0x0, 0x0, 0x0, 0x0, 0x0]),
    (76, [0x0, 0x0, 0xf0, 0x60, 0x60, 0x60, 0x60, 0x60, 0x62, 0x66, 0xfe, 0x0, 0x0, 0x0, 0x0, 0x0]),
    (77, [0x0, 0x0, 0xc6, 0xee, 0xfe, 0xfe, 0xd6, 0xc6, 0xc6, 0xc6, 0xc6, 0x0, 0x0, 0x0, 0x0, 0x0]),
    (78, [0x0, 0x0, 0xc6, 0xe6, 0xf6, 0xfe, 0xde, 0xce, 0xc6, 0xc6, 0xc6, 0x0, 0x0, 0x0, 0x0, 0x0]),
    (79, [0x0, 0x0, 0x7c, 0xc6, 0xc6, 0xc6, 0xc6, 0xc6, 0xc6, 0xc6, 0x7c, 0x0, 0x0, 0x0, 0x0, 0x0]),
    (80, [0x0, 0x0, 0xfc, 0x66, 0x66, 0x66, 0x7c, 0x60, 0x60, 0x60, 0xf0, 0x0, 0x0, 0x0, 0x0, 0x0]),
    (81, [0x0, 0x0, 0x7c, 0xc6, 0xc6, 0xc6, 0xc6, 0xd6, 0xde, 0x7c, 0xc, 0xe, 0x0, 0x0, 0x0, 0x0]),
    (82, [0x0, 0x0, 0xfc, 0x66, 0x66, 0x66, 0x7c, 0x6c, 0x66, 0x66, 0xe6, 0x0, 0x0, 0x0, 0x0, 0x0]),
    (83, [0x0, 0x0, 0x7c, 0xc6, 0xc0, 0x60, 0x38, 0xc, 0x6, 0xc6, 0x7c, 0x0, 0x0, 0x0, 0x0, 0x0]),
    (84, [0x0, 0x0, 0x7e, 0x7e, 0x5a, 0x18, 0x18, 0x18, 0x18, 0x18, 0x3c, 0x0, 0x0, 0x0, 0x0, 0x0]),
    (85, [0x0, 0x0, 0xc6, 0xc6, 0xc6, 0xc6, 0xc6, 0xc6, 0xc6, 0xc6, 0x7c, 0x0, 0x0, 0x0, 0x0, 0x0]),
    (86, [0x0, 0x0, 0xc6, 0xc6, 0xc6, 0xc6, 0xc6, 0xc6, 0x6c, 0x38, 0x10, 0x0, 0x0, 0x0, 0x0, 0x0]),
    (87, [0x0, 0x0, 0xc6, 0xc6, 0xc6, 0xc6, 0xd6, 0xd6, 0xfe, 0xee, 0xc6, 0x0, 0x0, 0x0, 0x0, 0x0]),
    (88, [0x0, 0x0, 0xc6, 0xc6, 0x6c, 0x38, 0x38, 0x38, 0x6c, 0xc6, 0xc6, 0x0, 0x0, 0x0, 0x0, 0x0]),
    (89, [0x0, 0x0, 0x66, 0x66, 0x66, 0x66, 0x3c, 0x18, 0x18, 0x18, 0x3c, 0x0, 0x0, 0x0, 0x0, 0x0]),
    (90, [0x0, 0x0, 0xfe, 0xc6, 0x8c, 0x18, 0x30, 0x60, 0xc2, 0xc6, 0xfe, 0x0, 0x0, 0x0, 0x0, 0x0]),
    (91, [0x0, 0x0, 0x3c, 0x30, 0x30, 0x30, 0x30, 0x30, 0x30, 0x30, 0x3c, 0x0, 0x0, 0x0, 0x0, 0x0]),
    (92, [0x0, 0x0, 0x80, 0xc0, 0x60, 0x30, 0x18, 0xc, 0x6, 0x2, 0x0, 0x0, 0x0, 0x0, 0x0, 0x0]),
    (93, [0x0, 0x0, 0x3c, 0xc, 0xc, 0xc, 0xc, 0xc, 0xc, 0xc, 0x3c, 0x0, 0x0, 0x0, 0x0, 0x0]),
    (94, [0x10, 0x38, 0x6c, 0xc6, 0x0, 0x0, 0x0, 0x0, 0x0, 0x0, 0x0, 0x0, 0x0, 0x0, 0x0, 0x0]),
    (95, [0x0, 0x0, 0x0, 0x0, 0x0, 0x0, 0x0, 0x0, 0x0, 0x0, 0x0, 0x0, 0x0, 0xfe, 0x0, 0x0]),
    (96, [0x0, 0x30, 0x18, 0xc, 0x0, 0x0, 0x0, 0x0, 0x0, 0x0, 0x0, 0x0, 0x0, 0x0, 0x0, 0x0]),
    (97, [0x0, 0x0, 0x0, 0x0, 0x0, 0x78, 0xc, 0x7c, 0xcc, 0xcc, 0x76, 0x0, 0x0, 0x0, 0x0, 0x0]),
    (98, [0x0, 0x0, 0xe0, 0x60, 0x60, 0x7c, 0x66, 0x66, 0x66, 0x66, 0xdc, 0x0, 0x0, 0x0, 0x0, 0x0]),
    (99, [0x0, 0x0, 0x0, 0x0, 0x0, 0x7c, 0xc6, 0xc0, 0xc0, 0xc6, 0x7c, 0x0, 0x0, 0x0, 0x0, 0x0]),
    (100, [0x0, 0x0, 0x1c, 0xc, 0xc, 0x7c, 0xcc, 0xcc, 0xcc, 0xcc, 0x76, 0x0, 0x0, 0x0, 0x0, 0x0]),
    (101, [0x0, 0x0, 0x0, 0x0, 0x0, 0x7c, 0xc6, 0xfe, 0xc0, 0xc6, 0x7c, 0x0, 0x0, 0x0, 0x0, 0x0]),
    (102, [0x0, 0x0, 0x1c, 0x36, 0x30, 0x78, 0x30, 0x30, 0x30, 0x30, 0x78, 0x0, 0x0, 0x0, 0x0, 0x0]),
    (103, [0x0, 0x0, 0x0, 0x0, 0x0, 0x76, 0xcc, 0xcc, 0xcc, 0x7c, 0xc, 0xcc, 0x78, 0x0, 0x0, 0x0]),
    (104, [0x0, 0x0, 0xe0, 0x60, 0x60, 0x6c, 0x76, 0x66, 0x66, 0x66, 0xe6, 0x0, 0x0, 0x0, 0x0, 0x0]),
    (105, [0x0, 0x0, 0x18, 0x18, 0x0, 0x38, 0x18, 0x18, 0x18, 0x18, 0x3c, 0x0, 0x0, 0x0, 0x0, 0x0]),
    (106, [0x0, 0x0, 0x6, 0x6, 0x0, 0xe, 0x6, 0x6, 0x6, 0x6, 0x66, 0x66, 0x3c, 0x0, 0x0, 0x0]),
    (107, [0x0, 0x0, 0xe0, 0x60, 0x60, 0x66, 0x6c, 0x78, 0x6c, 0x66, 0xe6, 0x0, 0x0, 0x0, 0x0, 0x0]),
    (108, [0x0, 0x0, 0x38, 0x18, 0x18, 0x18, 0x18, 0x18, 0x18, 0x18, 0x3c, 0x0, 0x0, 0x0, 0x0, 0x0]),
    (109, [0x0, 0x0, 0x0, 0x0, 0x0, 0xec, 0xfe, 0xd6, 0xd6, 0xd6, 0xc6, 0x0, 0x0, 0x0, 0x0, 0x0]),
    (110, [0x0, 0x0, 0x0, 0x0, 0x0, 0xdc, 0x66, 0x66, 0x66, 0x66, 0x66, 0x0, 0x0, 0x0, 0x0, 0x0]),
    (111, [0x0, 0x0, 0x0, 0x0, 0x0, 0x7c, 0xc6, 0xc6, 0xc6, 0xc6, 0x7c, 0x0, 0x0, 0x0, 0x0, 0x0]),
    (112, [0x0, 0x0, 0x0, 0x0, 0x0, 0xdc, 0x66, 0x66, 0x66, 0x7c, 0x60, 0x60, 0xf0, 0x0, 0x0, 0x0]),
    (113, [0x0, 0x0, 0x0, 0x0, 0x0, 0x76, 0xcc, 0xcc, 0xcc, 0x7c, 0xc, 0xc, 0x1e, 0x0, 0x0, 0x0]),
    (114, [0x0, 0x0, 0x0, 0x0, 0x0, 0xdc, 0x76, 0x60, 0x60, 0x60, 0xf0, 0x0, 0x0, 0x0, 0x0, 0x0]),
    (115, [0x0, 0x0, 0x0, 0x0, 0x0, 0x7c, 0xc6, 0x70, 0x1c, 0xc6, 0x7c, 0x0, 0x0, 0x0, 0x0, 0x0]),
    (116, [0x0, 0x0, 0x10, 0x30, 0x30, 0xfc, 0x30, 0x30, 0x30, 0x36, 0x1c, 0x0, 0x0, 0x0, 0x0, 0x0]),
    (117, [0x0, 0x0, 0x0, 0x0, 0x0, 0xcc, 0xcc, 0xcc, 0xcc, 0xcc, 0x76, 0x0, 0x0, 0x0, 0x0, 0x0]),
    (118, [0x0, 0x0, 0x0, 0x0, 0x0, 0xc6, 0xc6, 0xc6, 0x6c, 0x38, 0x10, 0x0, 0x0, 0x0, 0x0, 0x0]),
    (119, [0x0, 0x0, 0x0, 0x0, 0x0, 0xc6, 0xc6, 0xd6, 0xd6, 0xfe, 0x6c, 0x0, 0x0, 0x0, 0x0, 0x0]),
    (120, [0x0, 0x0, 0x0, 0x0, 0x0, 0xc6, 0x6c, 0x38, 0x38, 0x6c, 0xc6, 0x0, 0x0, 0x0, 0x0, 0x0]),
    (121, [0x0, 0x0, 0x0, 0x0, 0x0, 0xc6, 0xc6, 0xc6, 0xc6, 0x7e, 0x6, 0xc, 0xf8, 0x0, 0x0, 0x0]),
    (122, [0x0, 0x0, 0x0, 0x0, 0x0, 0xfe, 0x8c, 0x18, 0x30, 0x62, 0xfe, 0x0, 0x0, 0x0, 0x0, 0x0]),
    (123, [0x0, 0x0, 0xe, 0x18, 0x18, 0x18, 0x70, 0x18, 0x18, 0x18, 0xe, 0x0, 0x0, 0x0, 0x0, 0x0]),
    (124, [0x0, 0x0, 0x18, 0x18, 0x18, 0x18, 0x0, 0x18, 0x18, 0x18, 0x18, 0x0, 0x0, 0x0, 0x0, 0x0]),
    (125, [0x0, 0x0, 0x70, 0x18, 0x18, 0x18, 0xe, 0x18, 0x18, 0x18, 0x70, 0x0, 0x0, 0x0, 0x0, 0x0]),
    (126, [0x0, 0x0, 0x76, 0xdc, 0x0, 0x0, 0x0, 0x0, 0x0, 0x0, 0x0, 0x0, 0x0, 0x0, 0x0, 0x0])]"

definition font8x16 :: "nat \<Rightarrow> u8 list" where
  "font8x16 c = (case map_of font8x16_rows c of None \<Rightarrow> replicate 16 0 | Some g \<Rightarrow> g)"

definition gfx_font_glyph :: "char \<Rightarrow> u8 list" where
  "gfx_font_glyph c =
     (let n = (of_char c :: nat) in font8x16 (if n \<ge> 128 then of_char CHR ''?'' else n))"

lemma font8x16_rows_16: "list_all (\<lambda>(c, g). length g = 16) font8x16_rows"
  by (simp add: font8x16_rows_def)

lemma length_font8x16 [simp]: "length (font8x16 c) = 16"
proof (cases "map_of font8x16_rows c")
  case (Some g)
  then have "(c, g) \<in> set font8x16_rows" by (rule map_of_SomeD)
  with font8x16_rows_16 Some show ?thesis by (auto simp: font8x16_def list_all_iff)
qed (simp add: font8x16_def)

lemma length_gfx_font_glyph [simp]: "length (gfx_font_glyph c) = 16"
  by (simp add: gfx_font_glyph_def Let_def)

end
