(* ===== verification/Raster.thy ===== *)
theory Raster
  imports Prelude
begin

text \<open>
  The interface of a pixel surface: what plotting one pixel promises, and what every
  client that draws by plotting (rectangles, glyphs, lines) may conclude from it. The
  framebuffer of \<open>src/src/vbe.c\<close> and the 320x200 plane of \<open>src/src/gfx.c\<close> both provide it.
\<close>

text \<open>The C conversion \<open>(unsigned)x\<close> of an \<open>int\<close>.\<close>

definition as_unsigned :: "int \<Rightarrow> nat" where
  "as_unsigned x = nat (x mod 2 ^ 32)"

lemma as_unsigned_int [simp]: "n < 2 ^ 32 \<Longrightarrow> as_unsigned (int n) = n"
  by (simp add: as_unsigned_def)

lemma as_unsigned_nonneg: "0 \<le> x \<Longrightarrow> x < 2 ^ 32 \<Longrightarrow> as_unsigned x = nat x"
  by (simp add: as_unsigned_def)

lemma as_unsigned_neg: "x < 0 \<Longrightarrow> - (2 ^ 31) \<le> x \<Longrightarrow> as_unsigned x \<ge> 2 ^ 31"
proof -
  assume x: "x < 0" "- (2 ^ 31) \<le> x"
  have "x mod 2 ^ 32 = (x + 2 ^ 32) mod 2 ^ 32" by simp
  also have "\<dots> = x + 2 ^ 32" using x by (intro mod_pos_pos_trivial) simp_all
  finally show ?thesis using x by (simp add: as_unsigned_def)
qed

text \<open>
  \<open>cols s\<close> and \<open>rows s\<close> are the size of the visible surface (0 when it is switched off),
  \<open>cell s k\<close> the memory behind it, of which only the cells below \<open>rows s * cols s\<close> are
  visible.
\<close>

locale raster =
  fixes cols :: "'s \<Rightarrow> nat"
    and rows :: "'s \<Rightarrow> nat"
    and cell :: "'s \<Rightarrow> nat \<Rightarrow> 'c"
    and put :: "int \<Rightarrow> int \<Rightarrow> 'c \<Rightarrow> 's \<Rightarrow> 's"
  assumes cols_put: "cols (put x y c s) = cols s"
    and rows_put: "rows (put x y c s) = rows s"
    and cell_put: "cell (put x y c s) k =
          (if as_unsigned x < cols s \<and> as_unsigned y < rows s
              \<and> k = as_unsigned y * cols s + as_unsigned x
           then c else cell s k)"
begin

definition hits :: "'s \<Rightarrow> int \<Rightarrow> int \<Rightarrow> nat \<Rightarrow> bool" where
  "hits s x y k \<longleftrightarrow> as_unsigned x < cols s \<and> as_unsigned y < rows s
     \<and> k = as_unsigned y * cols s + as_unsigned x"

lemma hits_visible: "hits s x y k \<Longrightarrow> k < rows s * cols s"
proof -
  assume "hits s x y k"
  then have x: "as_unsigned x < cols s" and y: "Suc (as_unsigned y) \<le> rows s"
    and k: "k = as_unsigned y * cols s + as_unsigned x"
    by (auto simp: hits_def)
  have "k < Suc (as_unsigned y) * cols s" using x k by simp
  also have "\<dots> \<le> rows s * cols s" using y by (rule mult_le_mono1)
  finally show ?thesis .
qed

text \<open>Any sequence of plots, each with its own place and colour.\<close>

definition plots :: "(int \<times> int \<times> 'c) list \<Rightarrow> 's \<Rightarrow> 's" where
  "plots ps s = fold (\<lambda>(x, y, c). put x y c) ps s"

lemma plots_Nil [simp]: "plots [] s = s"
  by (simp add: plots_def)

lemma plots_Cons [simp]: "plots ((x, y, c) # ps) s = plots ps (put x y c s)"
  by (simp add: plots_def)

lemma plots_size [simp]: "cols (plots ps s) = cols s" "rows (plots ps s) = rows s"
  by (induction ps arbitrary: s) (auto simp: cols_put rows_put)

lemma hits_plots [simp]: "hits (plots ps s) x y k = hits s x y k"
  by (simp add: hits_def)

text \<open>The last plot that hits a cell decides its colour.\<close>

lemma cell_plots:
  "cell (plots ps s) k =
     (case find (\<lambda>(x, y, c). hits s x y k) (rev ps) of None \<Rightarrow> cell s k | Some (x, y, c) \<Rightarrow> c)"
proof (induction ps rule: rev_induct)
  case (snoc p ps)
  obtain x y c where p: "p = (x, y, c)" by (cases p)
  have "plots (ps @ [p]) s = put x y c (plots ps s)" by (simp add: plots_def p)
  then show ?case
    using snoc.IH by (simp add: p cell_put hits_def)
qed simp

lemma cell_plots_invisible: "rows s * cols s \<le> k \<Longrightarrow> cell (plots ps s) k = cell s k"
proof -
  assume "rows s * cols s \<le> k"
  then have "find (\<lambda>(x, y, c). hits s x y k) (rev ps) = None"
    using hits_visible [of s _ _ k] by (fastforce simp: find_None_iff)
  then show ?thesis by (simp add: cell_plots)
qed

text \<open>A block of pixels drawn row by row; \<open>col i j\<close> is the colour in column \<open>i\<close>, row \<open>j\<close>.\<close>

definition block :: "int \<Rightarrow> int \<Rightarrow> nat \<Rightarrow> nat \<Rightarrow> (nat \<Rightarrow> nat \<Rightarrow> 'c) \<Rightarrow> (int \<times> int \<times> 'c) list" where
  "block x y w h col =
     concat (map (\<lambda>j. map (\<lambda>i. (x + int i, y + int j, col i j)) [0..<w]) [0..<h])"

lemma fold_block:
  "fold (\<lambda>j. fold (\<lambda>i. put (x + int i) (y + int j) (col i j)) [0..<w]) [0..<h] s =
     plots (block x y w h col) s"
proof -
  have row: "fold (\<lambda>(x, y, c). put x y c) (map (\<lambda>i. (x + int i, y + int j, col i j)) is) =
      fold (\<lambda>i. put (x + int i) (y + int j) (col i j)) is" for j "is"
    by (simp add: fold_map comp_def)
  have "plots (concat (map (\<lambda>j. map (\<lambda>i. (x + int i, y + int j, col i j)) [0..<w]) js)) s =
      fold (\<lambda>j. fold (\<lambda>i. put (x + int i) (y + int j) (col i j)) [0..<w]) js s" for js
    by (induction js arbitrary: s) (simp_all add: plots_def row)
  then show ?thesis by (simp add: block_def)
qed

lemma hits_pixel:
  "px < cols s \<Longrightarrow> py < rows s \<Longrightarrow>
   hits s x y (py * cols s + px) \<longleftrightarrow> as_unsigned x = px \<and> as_unsigned y = py"
proof -
  assume p: "px < cols s" "py < rows s"
  have "as_unsigned y = py \<and> as_unsigned x = px"
    if "as_unsigned x < cols s" "py * cols s + px = as_unsigned y * cols s + as_unsigned x"
  proof -
    have "py = (py * cols s + px) div cols s" using p(1) by simp
    also have "\<dots> = as_unsigned y" using that by simp
    finally show ?thesis using that(2) by simp
  qed
  with p show ?thesis by (auto simp: hits_def)
qed

text \<open>
  A block paints exactly the visible pixels inside it. Its corner may lie left of or above the surface, whose pixels then
  have coordinates that are non-negative \<open>int\<close>s.
\<close>

lemma unsigned_coordinate:
  assumes "as_unsigned v = p" "- (2 ^ 31) \<le> v" "v < 2 ^ 31" "0 \<le> v \<or> p < 2 ^ 31"
  shows "v = int p"
  using assms as_unsigned_nonneg [of v] as_unsigned_neg [of v] by (cases "0 \<le> v") auto

lemma cell_block_int:
  assumes p: "px < cols s" "py < rows s" and sg: "0 \<le> x \<or> px < 2 ^ 31" "0 \<le> y \<or> py < 2 ^ 31"
    and room: "- (2 ^ 31) \<le> x" "x + int w \<le> 2 ^ 31" "- (2 ^ 31) \<le> y" "y + int h \<le> 2 ^ 31"
  shows "cell (plots (block x y w h col) s) (py * cols s + px) =
     (if x \<le> int px \<and> int px < x + int w \<and> y \<le> int py \<and> int py < y + int h then col (nat (int px - x)) (nat (int py - y))
      else cell s (py * cols s + px))"
proof -
  let ?k = "py * cols s + px" and ?ps = "block x y w h col"
  let ?hit = "\<lambda>(x, y, c). hits s x y ?k"
  let ?in = "x \<le> int px \<and> int px < x + int w \<and> y \<le> int py \<and> int py < y + int h"
  let ?q = "(int px, int py, col (nat (int px - x)) (nat (int py - y)))"
  have mem: "?in \<and> q = ?q" if q1: "q \<in> set ?ps" and q2: "?hit q" for q
  proof -
    obtain i j where ij: "i < w" "j < h" and q: "q = (x + int i, y + int j, col i j)"
      using q1 by (auto simp: block_def)
    have "as_unsigned (x + int i) = px" "as_unsigned (y + int j) = py"
      using q2 by (simp_all add: q hits_pixel [OF p])
    then have "x + int i = int px" "y + int j = int py"
      using ij room sg by (auto intro!: unsigned_coordinate)
    moreover from this have "nat (int px - x) = i" "nat (int py - y) = j" by linarith+
    ultimately show ?thesis using ij q by auto
  qed
  show ?thesis
  proof (cases "find ?hit (rev ?ps)")
    case None
    then have no: "\<not> ?hit q" if "q \<in> set ?ps" for q
      using that by (auto simp: find_None_iff)
    have "\<not> ?in"
    proof
      assume inside: ?in
      have "(x + int (nat (int px - x)), y + int (nat (int py - y)), col (nat (int px - x)) (nat (int py - y))) \<in> set ?ps"
        using inside unfolding block_def by (auto intro!: bexI [of _ "nat (int py - y)"] image_eqI [of _ _ "nat (int px - x)"])
      with inside have "?q \<in> set ?ps" by simp
      moreover have "px < 2 ^ 32" "py < 2 ^ 32" using inside room by simp_all
      ultimately show False using no [of ?q] by (simp add: hits_pixel [OF p])
    qed
    then show ?thesis using None by (auto simp: cell_plots)
  next
    case (Some q)
    then have "q \<in> set ?ps" "?hit q"
      by (auto simp: find_Some_iff) (metis nth_mem set_rev length_rev)+
    then have "?in \<and> q = ?q" by (rule mem)
    then show ?thesis using Some by (simp add: cell_plots)
  qed
qed

lemma cell_block:
  assumes "px < cols s" "py < rows s" and room: "x + w \<le> 2 ^ 31" "y + h \<le> 2 ^ 31"
  shows "cell (plots (block (int x) (int y) w h col) s) (py * cols s + px) =
     (if x \<le> px \<and> px < x + w \<and> y \<le> py \<and> py < y + h then col (px - x) (py - y)
      else cell s (py * cols s + px))"
proof -
  have "int x + int w \<le> 2 ^ 31" "int y + int h \<le> 2 ^ 31" using room by auto
  then have "cell (plots (block (int x) (int y) w h col) s) (py * cols s + px) =
     (if int x \<le> int px \<and> int px < int x + int w \<and> int y \<le> int py \<and> int py < int y + int h
      then col (nat (int px - int x)) (nat (int py - int y)) else cell s (py * cols s + px))"
    by (intro cell_block_int [OF assms(1,2)]) simp_all
  moreover have "int x \<le> int px \<and> int px < int x + int w \<and> int y \<le> int py \<and> int py < int y + int h
      \<longleftrightarrow> x \<le> px \<and> px < x + w \<and> y \<le> py \<and> py < y + h" by linarith
  ultimately show ?thesis by (simp add: nat_diff_distrib)
qed

end

end
