(* ===== verification/Vbe.thy ===== *)
theory Vbe
  imports Raster
begin

text \<open>
  The Bochs VBE framebuffer of \<open>src/src/vbe.c\<close>: probing the DISPI interface, setting and
  leaving a mode, and drawing into the linear framebuffer. What the adapter and the PCI
  bus answer is the parameter \<open>dispi\<close>; every write to a DISPI register is kept, in order,
  in \<open>dispi_log\<close>. \<open>vram\<close> is the memory the linear framebuffer shows, indexed by pixels. The
  lemmas show which modes can be active and that no drawing routine changes a pixel
  outside the screen.
\<close>

section \<open>State and hardware\<close>

record vbe_info =
  lfb :: u32
  width :: nat
  height :: nat
  bpp :: nat
  pitch :: nat
  active :: bool

record vbe =
  g_vbe :: vbe_info
  g_probed :: bool
  g_dispi_ok :: bool
  dispi_log :: "(u16 \<times> u16) list"
  vram :: "nat \<Rightarrow> u32"

text \<open>
  The answers of the hardware: the ID register after ID5 was written to it, BAR0 of the
  device 1234:1111 and of the first display controller when they exist, and the XRES,
  YRES and ENABLE registers after a mode was programmed.
\<close>

record dispi =
  id_readback :: u16
  bochs_bar0 :: "u32 option"
  display_bar0 :: "u32 option"
  mode_readback :: "u16 \<Rightarrow> u16 \<Rightarrow> u16 \<times> u16 \<times> u16"

definition VBE_DISPI_INDEX_ID :: u16 where "VBE_DISPI_INDEX_ID = 0x0"
definition VBE_DISPI_INDEX_ENABLE :: u16 where "VBE_DISPI_INDEX_ENABLE = 0x4"
definition VBE_DISPI_ENABLED :: u16 where "VBE_DISPI_ENABLED = 0x01"
definition VBE_DISPI_LFB_ENABLED :: u16 where "VBE_DISPI_LFB_ENABLED = 0x40"
definition VBE_DISPI_ID0 :: u16 where "VBE_DISPI_ID0 = 0xB0C0"
definition VBE_DISPI_ID5 :: u16 where "VBE_DISPI_ID5 = 0xB0C5"

section \<open>Operations\<close>

definition dispi_write :: "u16 \<Rightarrow> u16 \<Rightarrow> vbe \<Rightarrow> vbe" where
  "dispi_write index v s = s\<lparr>dispi_log := dispi_log s @ [(index, v)]\<rparr>"

definition bar_of :: "u32 option \<Rightarrow> u32" where
  "bar_of b = (case b of None \<Rightarrow> 0 | Some bar \<Rightarrow> bar AND NOT 0xF)"

definition find_lfb_pci :: "dispi \<Rightarrow> u32" where
  "find_lfb_pci hw =
     (if bar_of (bochs_bar0 hw) \<noteq> 0 then bar_of (bochs_bar0 hw) else bar_of (display_bar0 hw))"

definition vbe_probe :: "dispi \<Rightarrow> vbe \<Rightarrow> bool \<times> vbe" where
  "vbe_probe hw s =
     (let s = s\<lparr>g_vbe := \<lparr>lfb = 0, width = 0, height = 0, bpp = 32, pitch = 0, active = False\<rparr>,
                g_dispi_ok := False, g_probed := True\<rparr>;
          s = dispi_write VBE_DISPI_INDEX_ID VBE_DISPI_ID5 s
      in if id_readback hw < VBE_DISPI_ID0 \<or> id_readback hw > VBE_DISPI_ID5 then (False, s)
         else let s = s\<lparr>g_vbe := (g_vbe s)\<lparr>lfb := find_lfb_pci hw\<rparr>\<rparr>
              in if lfb (g_vbe s) = 0 then (False, s) else (True, s\<lparr>g_dispi_ok := True\<rparr>))"

definition mode_size :: "int \<Rightarrow> nat \<times> nat" where
  "mode_size mode_id =
     (if mode_id = 0 then (640, 480) else if mode_id = 1 then (800, 600)
      else if mode_id = 2 then (1024, 768) else (800, 600))"

definition program_mode :: "u16 \<Rightarrow> u16 \<Rightarrow> vbe \<Rightarrow> vbe" where
  "program_mode w h s =
     fold (\<lambda>(i, v). dispi_write i v)
       [(VBE_DISPI_INDEX_ENABLE, 0), (0x1, w), (0x2, h), (0x3, 32), (0x6, w), (0x7, h),
        (0x8, 0), (0x9, 0),
        (VBE_DISPI_INDEX_ENABLE, VBE_DISPI_ENABLED OR VBE_DISPI_LFB_ENABLED)] s"

text \<open>The second half of \<open>vbe_set_mode\<close>, once the adapter is known to be there.\<close>

definition switch_mode :: "dispi \<Rightarrow> nat \<Rightarrow> nat \<Rightarrow> vbe \<Rightarrow> int \<times> vbe" where
  "switch_mode hw w h s =
     (let s = program_mode (of_nat w) (of_nat h) s;
          (rw, rh, en) = mode_readback hw (of_nat w) (of_nat h)
      in if rw \<noteq> of_nat w \<or> rh \<noteq> of_nat h \<or> en AND VBE_DISPI_ENABLED = 0
         then let s = dispi_write VBE_DISPI_INDEX_ENABLE 0 s
              in (-1, s\<lparr>g_vbe := (g_vbe s)\<lparr>active := False\<rparr>\<rparr>)
         else (0, s\<lparr>g_vbe := (g_vbe s)\<lparr>width := w, height := h, bpp := 32, pitch := w * 4,
                                        active := True\<rparr>\<rparr>))"

definition vbe_set_mode :: "dispi \<Rightarrow> int \<Rightarrow> vbe \<Rightarrow> int \<times> vbe" where
  "vbe_set_mode hw mode_id s =
     (let (w, h) = mode_size mode_id;
          (fail, s) = (if \<not> g_probed s
                       then (let (r, s) = vbe_probe hw s in (\<not> r, s)) else (False, s))
      in if fail then (-1, s)
         else let (fail, s) = (if \<not> g_dispi_ok s
                               then (let (r, s) = vbe_probe hw s in (\<not> r, s)) else (False, s))
              in if fail then (-1, s)
                 else let s = (if lfb (g_vbe s) = 0
                               then s\<lparr>g_vbe := (g_vbe s)\<lparr>lfb := find_lfb_pci hw\<rparr>\<rparr> else s)
                      in if lfb (g_vbe s) = 0 \<or> \<not> g_dispi_ok s then (-1, s)
                         else switch_mode hw w h s)"

definition vbe_disable :: "vbe \<Rightarrow> vbe" where
  "vbe_disable s =
     (let s = (if g_dispi_ok s then dispi_write VBE_DISPI_INDEX_ENABLE 0 s else s)
      in s\<lparr>g_vbe := (g_vbe s)\<lparr>active := False\<rparr>\<rparr>)"

definition vbe_is_active :: "vbe \<Rightarrow> bool" where
  "vbe_is_active s = active (g_vbe s)"

definition vbe_clear :: "u32 \<Rightarrow> vbe \<Rightarrow> vbe" where
  "vbe_clear color s =
     (if \<not> active (g_vbe s) \<or> lfb (g_vbe s) = 0 then s
      else s\<lparr>vram := fold (\<lambda>i m. m(i := color)) [0..<width (g_vbe s) * height (g_vbe s)] (vram s)\<rparr>)"

definition vbe_putpixel :: "int \<Rightarrow> int \<Rightarrow> u32 \<Rightarrow> vbe \<Rightarrow> vbe" where
  "vbe_putpixel x y color s =
     (if \<not> active (g_vbe s) \<or> lfb (g_vbe s) = 0 then s
      else if as_unsigned x \<ge> width (g_vbe s) \<or> as_unsigned y \<ge> height (g_vbe s) then s
      else s\<lparr>vram := (vram s)(as_unsigned y * width (g_vbe s) + as_unsigned x := color)\<rparr>)"

definition vbe_fill_rect :: "int \<Rightarrow> int \<Rightarrow> int \<Rightarrow> int \<Rightarrow> u32 \<Rightarrow> vbe \<Rightarrow> vbe" where
  "vbe_fill_rect x y w h color s =
     (if w \<le> 0 \<or> h \<le> 0 \<or> \<not> active (g_vbe s) then s
      else fold (\<lambda>j s. if as_unsigned (y + int j) \<ge> height (g_vbe s) then s
                       else fold (\<lambda>i s. if as_unsigned (x + int i) \<ge> width (g_vbe s) then s
                                        else vbe_putpixel (x + int i) (y + int j) color s)
                              [0..<nat w] s)
             [0..<nat h] s)"

definition vbe_rgb :: "u8 \<Rightarrow> u8 \<Rightarrow> u8 \<Rightarrow> u32" where
  "vbe_rgb r g b = push_bit 16 (ucast r) OR push_bit 8 (ucast g) OR ucast b"

section \<open>Modes\<close>

text \<open>An active adapter shows one of the three modes through a framebuffer address.\<close>

definition vbe_ok :: "vbe \<Rightarrow> bool" where
  "vbe_ok s \<longleftrightarrow> (active (g_vbe s) \<longrightarrow>
     lfb (g_vbe s) \<noteq> 0 \<and> g_dispi_ok s \<and> g_probed s
     \<and> (width (g_vbe s), height (g_vbe s)) \<in> {(640, 480), (800, 600), (1024, 768)}
     \<and> pitch (g_vbe s) = width (g_vbe s) * 4 \<and> bpp (g_vbe s) = 32)"

lemma g_vbe_dispi_write [simp]:
  "g_vbe (dispi_write i v s) = g_vbe s" "g_dispi_ok (dispi_write i v s) = g_dispi_ok s"
  "g_probed (dispi_write i v s) = g_probed s" "vram (dispi_write i v s) = vram s"
  "dispi_log (dispi_write i v s) = dispi_log s @ [(i, v)]"
  by (simp_all add: dispi_write_def)

lemma g_vbe_program_mode [simp]:
  "g_vbe (program_mode w h s) = g_vbe s" "g_dispi_ok (program_mode w h s) = g_dispi_ok s"
  "g_probed (program_mode w h s) = g_probed s" "vram (program_mode w h s) = vram s"
  by (simp_all add: program_mode_def)

lemma vbe_probe_ok: "vbe_ok (snd (vbe_probe hw s))" "\<not> active (g_vbe (snd (vbe_probe hw s)))"
  by (simp_all add: vbe_probe_def vbe_ok_def Let_def)

lemma vbe_probe_vram [simp]: "vram (snd (vbe_probe hw s)) = vram s"
  by (simp add: vbe_probe_def Let_def)

lemma mode_size_cases: "mode_size m \<in> {(640, 480), (800, 600), (1024, 768)}"
  by (simp add: mode_size_def)

lemma switch_mode_ok:
  assumes "(w, h) \<in> {(640, 480), (800, 600), (1024, 768)}" "lfb (g_vbe s) \<noteq> 0"
    "g_dispi_ok s" "g_probed s"
  shows "vbe_ok (snd (switch_mode hw w h s))"
    "fst (switch_mode hw w h s) = 0 \<Longrightarrow>
       active (g_vbe (snd (switch_mode hw w h s))) \<and> width (g_vbe (snd (switch_mode hw w h s))) = w
       \<and> height (g_vbe (snd (switch_mode hw w h s))) = h"
    "fst (switch_mode hw w h s) = 0 \<or>
       fst (switch_mode hw w h s) = -1 \<and> \<not> active (g_vbe (snd (switch_mode hw w h s)))"
  using assms by (auto simp: switch_mode_def vbe_ok_def Let_def split: prod.splits)

lemma vbe_probe_True:
  "vbe_probe hw s = (True, s') \<Longrightarrow> g_dispi_ok s' \<and> g_probed s' \<and> lfb (g_vbe s') \<noteq> 0"
  by (auto simp: vbe_probe_def Let_def split: if_splits)

text \<open>
  \<open>vbe_set_mode\<close> fails, leaving an adapter that is off or as it was, or it switches on a
  state whose adapter has answered.
\<close>

lemma vbe_set_mode_cases:
  "(\<exists>s0. vbe_set_mode hw m s = (-1, s0)
      \<and> (vbe_ok s \<longrightarrow> vbe_ok s0) \<and> vram s0 = vram s \<and> \<not> active (g_vbe s0))
   \<or> (\<exists>s0. vbe_set_mode hw m s = switch_mode hw (fst (mode_size m)) (snd (mode_size m)) s0
      \<and> lfb (g_vbe s0) \<noteq> 0 \<and> g_dispi_ok s0 \<and> g_probed s0 \<and> vram s0 = vram s)
   \<or> (\<exists>s0. vbe_set_mode hw m s = (-1, s0) \<and> \<not> vbe_ok s)"
proof -
  obtain w h where m: "mode_size m = (w, h)" by (cases "mode_size m")
  obtain r1 s1 where p: "vbe_probe hw s = (r1, s1)" by (cases "vbe_probe hw s")
  have p1: "vbe_ok s1" "\<not> active (g_vbe s1)" "vram s1 = vram s"
    using vbe_probe_ok [of hw s] vbe_probe_vram [of hw s] by (simp_all add: p)
  show ?thesis
  proof (cases "g_probed s \<and> g_dispi_ok s")
    case True
    then show ?thesis
      by (auto simp: vbe_set_mode_def m Let_def vbe_ok_def)
  next
    case False
    show ?thesis
    proof (cases r1)
      case r1: True
      with p have "g_dispi_ok s1" "g_probed s1" "lfb (g_vbe s1) \<noteq> 0"
        using vbe_probe_True [of hw s s1] by simp_all
      with False r1 p1 show ?thesis by (auto simp: vbe_set_mode_def m p Let_def)
    next
      case r1: False
      with False p1 show ?thesis by (auto simp: vbe_set_mode_def m p Let_def)
    qed
  qed
qed

lemma vram_switch_mode [simp]: "vram (snd (switch_mode hw w h s)) = vram s"
  by (simp add: switch_mode_def Let_def split: prod.splits)

lemma vbe_set_mode_ok:
  assumes "vbe_ok s"
  shows "vbe_ok (snd (vbe_set_mode hw m s)) \<and> vram (snd (vbe_set_mode hw m s)) = vram s
    \<and> (case vbe_set_mode hw m s of (r, s') \<Rightarrow>
         r = 0 \<and> active (g_vbe s') \<and> (width (g_vbe s'), height (g_vbe s')) = mode_size m
         \<or> r = -1 \<and> \<not> active (g_vbe s'))"
  using vbe_set_mode_cases [of hw m s]
proof (elim disjE exE conjE)
  fix s0
  let ?r = "switch_mode hw (fst (mode_size m)) (snd (mode_size m)) s0"
  assume eq: "vbe_set_mode hw m s = ?r" and s0: "vram s0 = vram s"
    "lfb (g_vbe s0) \<noteq> 0" "g_dispi_ok s0" "g_probed s0"
  have "(fst (mode_size m), snd (mode_size m)) \<in> {(640, 480), (800, 600), (1024, 768)}"
    using mode_size_cases [of m] by simp
  from switch_mode_ok [OF this s0(2-4), of hw] s0(1) show ?thesis
    by (auto simp: eq split: prod.splits)
qed (use assms in auto)

lemma vbe_disable_ok: "vbe_ok (vbe_disable s)" "\<not> active (g_vbe (vbe_disable s))"
  by (simp_all add: vbe_disable_def vbe_ok_def Let_def)

section \<open>Drawing\<close>

definition vbe_on :: "vbe \<Rightarrow> bool" where
  "vbe_on s \<longleftrightarrow> active (g_vbe s) \<and> lfb (g_vbe s) \<noteq> 0"

definition vbe_cols :: "vbe \<Rightarrow> nat" where
  "vbe_cols s = (if vbe_on s then width (g_vbe s) else 0)"

definition vbe_rows :: "vbe \<Rightarrow> nat" where
  "vbe_rows s = (if vbe_on s then height (g_vbe s) else 0)"

lemma vbe_putpixel_info [simp]:
  "g_vbe (vbe_putpixel x y c s) = g_vbe s" "g_dispi_ok (vbe_putpixel x y c s) = g_dispi_ok s"
  "g_probed (vbe_putpixel x y c s) = g_probed s"
  "dispi_log (vbe_putpixel x y c s) = dispi_log s"
  by (simp_all add: vbe_putpixel_def)

interpretation fb: raster vbe_cols vbe_rows vram vbe_putpixel
proof unfold_locales
  fix x y c s k
  show "vbe_cols (vbe_putpixel x y c s) = vbe_cols s" "vbe_rows (vbe_putpixel x y c s) = vbe_rows s"
    by (simp_all add: vbe_cols_def vbe_rows_def vbe_on_def)
  show "vram (vbe_putpixel x y c s) k =
      (if as_unsigned x < vbe_cols s \<and> as_unsigned y < vbe_rows s
          \<and> k = as_unsigned y * vbe_cols s + as_unsigned x then c else vram s k)"
    by (auto simp: vbe_putpixel_def vbe_cols_def vbe_rows_def vbe_on_def)
qed

lemma plots_info [simp]:
  "g_vbe (fb.plots ps s) = g_vbe s" "g_dispi_ok (fb.plots ps s) = g_dispi_ok s"
  "g_probed (fb.plots ps s) = g_probed s" "dispi_log (fb.plots ps s) = dispi_log s"
  by (induction ps arbitrary: s) auto

lemma vbe_putpixel_skip:
  "as_unsigned x \<ge> width (g_vbe s) \<or> as_unsigned y \<ge> height (g_vbe s) \<Longrightarrow> vbe_putpixel x y c s = s"
  by (auto simp: vbe_putpixel_def)

text \<open>The clipping of \<open>vbe_fill_rect\<close> repeats that of \<open>vbe_putpixel\<close>.\<close>

lemma vbe_fill_rect_plots:
  "vbe_fill_rect x y w h c s =
     (if active (g_vbe s) then fb.plots (fb.block x y (nat w) (nat h) (\<lambda>i j. c)) s else s)"
proof -
  have inner: "fold (\<lambda>i s. if as_unsigned (x + int i) \<ge> width (g_vbe s) then s
        else vbe_putpixel (x + int i) yy c s) is s =
      fold (\<lambda>i. vbe_putpixel (x + int i) yy c) is s" for yy "is" s
    by (induction "is" arbitrary: s) (simp_all add: vbe_putpixel_skip)
  have skip: "fold (\<lambda>i. vbe_putpixel (x + int i) yy c) is s = s"
    if "as_unsigned yy \<ge> height (g_vbe s)" for yy "is" s
    using that by (induction "is" arbitrary: s) (simp_all add: vbe_putpixel_skip)
  have outer: "fold (\<lambda>j s. if as_unsigned (y + int j) \<ge> height (g_vbe s) then s
        else fold (\<lambda>i. vbe_putpixel (x + int i) (y + int j) c) [0..<nat w] s) js s =
      fold (\<lambda>j. fold (\<lambda>i. vbe_putpixel (x + int i) (y + int j) c) [0..<nat w]) js s" for js s
    by (induction js arbitrary: s) (simp_all add: skip)
  have none: "fb.block x y 0 h' (\<lambda>i j. c) = []" for h'
    by (simp add: fb.block_def)
  have none': "fb.block x y w' 0 (\<lambda>i j. c) = []" for w'
    by (simp add: fb.block_def)
  show ?thesis
    by (auto simp: vbe_fill_rect_def inner outer fb.fold_block none none' cong: if_cong)
qed

lemma vbe_fill_rect_info [simp]:
  "g_vbe (vbe_fill_rect x y w h c s) = g_vbe s"
  "g_dispi_ok (vbe_fill_rect x y w h c s) = g_dispi_ok s"
  "g_probed (vbe_fill_rect x y w h c s) = g_probed s"
  "dispi_log (vbe_fill_rect x y w h c s) = dispi_log s"
  by (simp_all add: vbe_fill_rect_plots)

lemma vbe_clear_info [simp]:
  "g_vbe (vbe_clear c s) = g_vbe s" "g_dispi_ok (vbe_clear c s) = g_dispi_ok s"
  "g_probed (vbe_clear c s) = g_probed s" "dispi_log (vbe_clear c s) = dispi_log s"
  by (simp_all add: vbe_clear_def)

lemma vbe_ok_cong:
  "g_vbe s' = g_vbe s \<Longrightarrow> g_dispi_ok s' = g_dispi_ok s \<Longrightarrow> g_probed s' = g_probed s \<Longrightarrow>
   vbe_ok s' = vbe_ok s"
  by (simp add: vbe_ok_def)

lemma vram_vbe_clear:
  "vram (vbe_clear c s) k = (if vbe_on s \<and> k < width (g_vbe s) * height (g_vbe s) then c else vram s k)"
  using fold_fill [of 0 c] by (simp add: vbe_clear_def vbe_on_def)

text \<open>No drawing routine changes the memory behind the visible screen.\<close>

lemma vram_outside:
  assumes "width (g_vbe s) * height (g_vbe s) \<le> k"
  shows "vram (vbe_putpixel x y c s) k = vram s k"
    "vram (vbe_fill_rect x y w h c s) k = vram s k"
    "vram (vbe_clear c s) k = vram s k"
    "vram (fb.plots ps s) k = vram s k"
proof -
  have room: "vbe_rows s * vbe_cols s \<le> k"
    using assms by (simp add: vbe_rows_def vbe_cols_def mult.commute)
  show plots: "vram (fb.plots ps s) k = vram s k" for ps
    by (rule fb.cell_plots_invisible [OF room])
  show "vram (vbe_putpixel x y c s) k = vram s k"
    using plots [of "[(x, y, c)]"] by simp
  show "vram (vbe_fill_rect x y w h c s) k = vram s k"
    by (simp add: vbe_fill_rect_plots plots)
  show "vram (vbe_clear c s) k = vram s k"
    using assms by (simp add: vram_vbe_clear)
qed

end
