(* ===== verification/Terminal.thy ===== *)
theory Terminal
  imports Font Vbe
begin

text \<open>
  The terminal of \<open>src/src/vga.c\<close>: the 80x25 text screen at 0xB8000 or, in framebuffer mode,
  8x16 glyphs drawn through \<open>vbe.c\<close>; the cursor, scrolling and line wrapping, and the
  number formatting every shell command uses. Every character also goes to the serial
  port (\<open>src/src/serial.c\<close>), whose output is kept as \<open>serial_out\<close>: the UART is taken to
  become ready. The CRTC cursor registers are the fields \<open>crtc_cursor\<close> and \<open>cursor_shape\<close>.
  The lemmas show that no operation writes outside the 2000 cells or the visible pixels or
  moves the cursor off the screen, what scrolling and drawing a glyph do to the screen,
  and that the formatted numbers read back as the values they print.
\<close>

section \<open>State\<close>

definition VGA_TEXT_W :: nat where "VGA_TEXT_W = 80"
definition VGA_TEXT_H :: nat where "VGA_TEXT_H = 25"
definition FONT_W :: nat where "FONT_W = 8"
definition FONT_H :: nat where "FONT_H = 16"

record terminal =
  terminal_row :: nat
  terminal_column :: nat
  terminal_color :: u8
  terminal_buffer :: "nat \<Rightarrow> u16"
  fb_mode :: bool
  term_cols :: nat
  term_rows :: nat
  fb_fg :: u32
  fb_bg :: u32
  crtc_cursor :: u16
  cursor_shape :: "u8 \<times> u8"
  video :: vbe
  serial_out :: string

definition vga_entry_color :: "u8 \<Rightarrow> u8 \<Rightarrow> u8" where
  "vga_entry_color fg bg = fg OR push_bit 4 bg"

definition vga_entry :: "char \<Rightarrow> u8 \<Rightarrow> u16" where
  "vga_entry uc color = (of_char uc :: u16) OR push_bit 8 (ucast color)"

definition serial_putchar :: "char \<Rightarrow> terminal \<Rightarrow> terminal" where
  "serial_putchar c t =
     (let t = (if c = CHR 0x0A then t\<lparr>serial_out := serial_out t @ [CHR 0x0D]\<rparr> else t)
      in t\<lparr>serial_out := serial_out t @ [c]\<rparr>)"

fun serial_write :: "cstring \<Rightarrow> terminal \<Rightarrow> terminal" where
  "serial_write [] t = t"
| "serial_write (c # cs) t = serial_write cs (serial_putchar c t)"

section \<open>Operations\<close>

definition hw_cursor :: "nat \<Rightarrow> nat \<Rightarrow> terminal \<Rightarrow> terminal" where
  "hw_cursor x y t =
     (if fb_mode t then t else t\<lparr>crtc_cursor := of_nat (y * VGA_TEXT_W + x)\<rparr>)"

definition color_map :: "u32 list" where
  "color_map =
     [0x000000, 0x0000AA, 0x00AA00, 0x00AAAA, 0xAA0000, 0xAA00AA, 0xAA5500, 0xAAAAAA,
      0x555555, 0x5555FF, 0x55FF55, 0x55FFFF, 0xFF5555, 0xFF55FF, 0xFFFF55, 0xFFFFFF]"

definition terminal_setcolor :: "u8 \<Rightarrow> terminal \<Rightarrow> terminal" where
  "terminal_setcolor color t =
     t\<lparr>terminal_color := color, fb_fg := color_map ! unat (color AND 0xF),
       fb_bg := color_map ! unat (drop_bit 4 color AND 0xF)\<rparr>"

definition fb_draw_glyph :: "nat \<Rightarrow> nat \<Rightarrow> char \<Rightarrow> u32 \<Rightarrow> u32 \<Rightarrow> terminal \<Rightarrow> terminal" where
  "fb_draw_glyph cx cy ch fg bg t =
     (if \<not> active (g_vbe (video t)) \<or> lfb (g_vbe (video t)) = 0 then t
      else if cx \<ge> term_cols t \<or> cy \<ge> term_rows t then t
      else t\<lparr>video :=
             fold (\<lambda>row. fold (\<lambda>col.
                 vbe_putpixel (int (cx * FONT_W) + int col) (int (cy * FONT_H) + int row)
                   (if (gfx_font_glyph ch ! row) AND drop_bit col 0x80 \<noteq> 0 then fg else bg))
               [0..<FONT_W]) [0..<FONT_H] (video t)\<rparr>)"

definition fb_fill_cell :: "nat \<Rightarrow> nat \<Rightarrow> u32 \<Rightarrow> terminal \<Rightarrow> terminal" where
  "fb_fill_cell cx cy color t =
     (if \<not> active (g_vbe (video t)) then t
      else t\<lparr>video := vbe_fill_rect (int (cx * FONT_W)) (int (cy * FONT_H))
                        (int FONT_W) (int FONT_H) color (video t)\<rparr>)"

definition fb_draw_cursor :: "terminal \<Rightarrow> terminal" where
  "fb_draw_cursor t =
     (if \<not> fb_mode t \<or> \<not> active (g_vbe (video t)) then t
      else t\<lparr>video := vbe_fill_rect (int (terminal_column t * FONT_W))
                        (int (terminal_row t * FONT_H + FONT_H - 2)) (int FONT_W) 2
                        (fb_fg t) (video t)\<rparr>)"

text \<open>The last step of every operation that moves the cursor.\<close>

definition update_cursor :: "terminal \<Rightarrow> terminal" where
  "update_cursor t =
     (if fb_mode t then fb_draw_cursor t else hw_cursor (terminal_column t) (terminal_row t) t)"

definition terminal_putentryat :: "char \<Rightarrow> u8 \<Rightarrow> nat \<Rightarrow> nat \<Rightarrow> terminal \<Rightarrow> terminal" where
  "terminal_putentryat c color x y t =
     (if fb_mode t then fb_draw_glyph x y c (fb_fg t) (fb_bg t) t
      else t\<lparr>terminal_buffer :=
               (terminal_buffer t)(y * VGA_TEXT_W + x := vga_entry c color)\<rparr>)"

definition scroll_fb :: "terminal \<Rightarrow> vbe \<Rightarrow> nat \<Rightarrow> u32" where
  "scroll_fb t v =
     (let wid = width (g_vbe v);
          line_px = FONT_H * wid;
          rows_px = (term_rows t - 1) * FONT_H * wid;
          last = term_rows t * FONT_H * wid;
          fb = fold (\<lambda>i fb. fb(i := fb (i + line_px))) [0..<rows_px] (vram v)
      in fold (\<lambda>i fb. fb(i := fb_bg t)) [rows_px..<min last (wid * height (g_vbe v))] fb)"

definition scroll_text :: "terminal \<Rightarrow> nat \<Rightarrow> u16" where
  "scroll_text t =
     (let b = fold (\<lambda>y. fold (\<lambda>x b.
                  b((y - 1) * VGA_TEXT_W + x := b (y * VGA_TEXT_W + x))) [0..<VGA_TEXT_W])
                [1..<VGA_TEXT_H] (terminal_buffer t)
      in fold (\<lambda>x b. b((VGA_TEXT_H - 1) * VGA_TEXT_W + x := vga_entry CHR '' '' (terminal_color t)))
           [0..<VGA_TEXT_W] b)"

definition terminal_scroll :: "terminal \<Rightarrow> terminal" where
  "terminal_scroll t =
     (if fb_mode t
      then (if \<not> active (g_vbe (video t)) \<or> lfb (g_vbe (video t)) = 0 then t
            else t\<lparr>video := (video t)\<lparr>vram := scroll_fb t (video t)\<rparr>,
                   terminal_row := term_rows t - 1\<rparr>)
      else t\<lparr>terminal_buffer := scroll_text t, terminal_row := VGA_TEXT_H - 1\<rparr>)"

definition terminal_show_cursor :: "terminal \<Rightarrow> terminal" where
  "terminal_show_cursor t =
     (if fb_mode t then fb_draw_cursor t
      else hw_cursor (terminal_column t) (terminal_row t) (t\<lparr>cursor_shape := (13, 14)\<rparr>))"

definition terminal_hide_cursor :: "terminal \<Rightarrow> terminal" where
  "terminal_hide_cursor t =
     (if fb_mode t then t else t\<lparr>cursor_shape := (0x20, snd (cursor_shape t))\<rparr>)"

definition terminal_initialize :: "terminal \<Rightarrow> terminal" where
  "terminal_initialize t =
     (let t = t\<lparr>terminal_row := 0, terminal_column := 0, terminal_color := vga_entry_color 10 0,
                fb_fg := 0x55FF55, fb_bg := 0x000000\<rparr>
      in if fb_mode t \<and> vbe_is_active (video t)
         then let t = t\<lparr>video := vbe_clear (fb_bg t) (video t)\<rparr>;
                  cols = width (g_vbe (video t)) div FONT_W;
                  rows = height (g_vbe (video t)) div FONT_H
              in t\<lparr>term_cols := (if cols < 40 then 40 else cols),
                   term_rows := (if rows < 15 then 15 else rows)\<rparr>
         else let t = t\<lparr>fb_mode := False, term_cols := VGA_TEXT_W, term_rows := VGA_TEXT_H\<rparr>;
                  t = t\<lparr>terminal_buffer :=
                        fold (\<lambda>y. fold (\<lambda>x b. b(y * VGA_TEXT_W + x :=
                                  vga_entry CHR '' '' (terminal_color t))) [0..<VGA_TEXT_W])
                          [0..<VGA_TEXT_H] (terminal_buffer t)\<rparr>;
                  t = terminal_show_cursor t
              in hw_cursor (terminal_column t) (terminal_row t) t)"

definition terminal_enable_fb :: "dispi \<Rightarrow> int \<Rightarrow> terminal \<Rightarrow> int \<times> terminal" where
  "terminal_enable_fb hw vbe_mode_id t =
     (let v = snd (vbe_probe hw (video t));
          (r, v) = vbe_set_mode hw vbe_mode_id v
      in if r \<noteq> 0 then (-1, t\<lparr>video := v\<rparr>)
         else (0, t\<lparr>fb_mode := True, term_cols := width (g_vbe v) div FONT_W,
                    term_rows := height (g_vbe v) div FONT_H, terminal_row := 0,
                    terminal_column := 0, video := vbe_clear (fb_bg t) v\<rparr>))"

definition terminal_disable_fb :: "terminal \<Rightarrow> terminal" where
  "terminal_disable_fb t =
     (if \<not> fb_mode t then t
      else t\<lparr>fb_mode := False, video := vbe_disable (video t), term_cols := VGA_TEXT_W,
             term_rows := VGA_TEXT_H, terminal_row := 0, terminal_column := 0\<rparr>)"

text \<open>The three branches of \<open>terminal_putchar\<close>: line feed, carriage return, any other
  character; the row may then be one too low, which the scroll repairs.\<close>

definition place_char :: "char \<Rightarrow> terminal \<Rightarrow> terminal" where
  "place_char c t =
     (if c = CHR 0x0A
      then let t = (if fb_mode t
                    then fb_fill_cell (terminal_column t) (terminal_row t) (fb_bg t) t else t)
           in t\<lparr>terminal_column := 0, terminal_row := terminal_row t + 1\<rparr>
      else if c = CHR 0x0D then t\<lparr>terminal_column := 0\<rparr>
      else let t = terminal_putentryat c (terminal_color t)
                     (terminal_column t) (terminal_row t) t;
               t = t\<lparr>terminal_column := terminal_column t + 1\<rparr>
           in if terminal_column t = term_cols t
              then t\<lparr>terminal_column := 0, terminal_row := terminal_row t + 1\<rparr>
              else t)"

definition terminal_putchar :: "char \<Rightarrow> terminal \<Rightarrow> terminal" where
  "terminal_putchar c t =
     (let t = place_char c (serial_putchar c t);
          t = (if terminal_row t \<ge> term_rows t then terminal_scroll t else t)
      in update_cursor t)"

definition terminal_backspace :: "terminal \<Rightarrow> terminal" where
  "terminal_backspace t =
     (let t = (if terminal_column t > 0
               then let t = t\<lparr>terminal_column := terminal_column t - 1\<rparr>
                    in update_cursor (terminal_putentryat CHR '' '' (terminal_color t)
                         (terminal_column t) (terminal_row t) t)
               else t)
      in serial_putchar CHR 0x08 (serial_putchar CHR '' '' (serial_putchar CHR 0x08 t)))"

definition terminal_get_cursor :: "terminal \<Rightarrow> nat \<times> nat" where
  "terminal_get_cursor t = (terminal_column t, terminal_row t)"

text \<open>Before the cursor leaves a cell of the framebuffer, that cell is blanked.\<close>

definition leave_cell :: "terminal \<Rightarrow> terminal" where
  "leave_cell t =
     (if fb_mode t then fb_fill_cell (terminal_column t) (terminal_row t) (fb_bg t) t else t)"

definition terminal_set_cursor :: "nat \<Rightarrow> nat \<Rightarrow> terminal \<Rightarrow> terminal" where
  "terminal_set_cursor x y t =
     (let x = (if x \<ge> term_cols t then term_cols t - 1 else x);
          y = (if y \<ge> term_rows t then term_rows t - 1 else y);
          t = leave_cell t
      in update_cursor (t\<lparr>terminal_column := x, terminal_row := y\<rparr>))"

fun move_left_loop :: "nat \<Rightarrow> terminal \<Rightarrow> terminal" where
  "move_left_loop 0 t = t"
| "move_left_loop (Suc n) t =
     (if terminal_column t > 0
      then let t = leave_cell t
           in move_left_loop n (t\<lparr>terminal_column := terminal_column t - 1\<rparr>) else t)"

definition terminal_move_left :: "nat \<Rightarrow> terminal \<Rightarrow> terminal" where
  "terminal_move_left n t = update_cursor (move_left_loop n t)"

fun move_right_loop :: "nat \<Rightarrow> terminal \<Rightarrow> terminal" where
  "move_right_loop 0 t = t"
| "move_right_loop (Suc n) t =
     (if terminal_column t < term_cols t - 1
      then let t = leave_cell t
           in move_right_loop n (t\<lparr>terminal_column := terminal_column t + 1\<rparr>) else t)"

definition terminal_move_right :: "nat \<Rightarrow> terminal \<Rightarrow> terminal" where
  "terminal_move_right n t = update_cursor (move_right_loop n t)"

definition terminal_putchar_at_cursor :: "char \<Rightarrow> terminal \<Rightarrow> terminal" where
  "terminal_putchar_at_cursor c t =
     terminal_putentryat c (terminal_color t) (terminal_column t) (terminal_row t) t"

fun terminal_writestring :: "cstring \<Rightarrow> terminal \<Rightarrow> terminal" where
  "terminal_writestring [] t = t"
| "terminal_writestring (c # cs) t = terminal_writestring cs (terminal_putchar c t)"

section \<open>Number formatting\<close>

definition digit_char :: "nat \<Rightarrow> char" where
  "digit_char d = char_of (48 + d)"

text \<open>The digit loop of \<open>terminal_write_uint\<close>: \<open>i\<close> is the number of free places left in
  the buffer, \<open>acc\<close> the digits already stored behind them.\<close>

fun uint_digits :: "nat \<Rightarrow> nat \<Rightarrow> string \<Rightarrow> string" where
  "uint_digits i value acc =
     (if value > 0 \<and> i > 0
      then uint_digits (i - 1) (value div 10) (digit_char (value mod 10) # acc) else acc)"

declare uint_digits.simps [simp del]

definition uint_text :: "u32 \<Rightarrow> string" where
  "uint_text value = (if value = 0 then ''0'' else uint_digits 10 (unat value) [])"

definition int_text :: "u32 \<Rightarrow> string" where
  "int_text value =
     (if sint value < 0 then ''-'' @ uint_text (word_of_int (- sint value)) else uint_text value)"

fun hex_digits_of :: "nat \<Rightarrow> u32 \<Rightarrow> string \<Rightarrow> string" where
  "hex_digits_of 0 value acc = acc"
| "hex_digits_of (Suc n) value acc =
     hex_digits_of n (drop_bit 4 value) ((''0123456789ABCDEF'' ! unat (value AND 0xF)) # acc)"

definition hex_text :: "u32 \<Rightarrow> string" where
  "hex_text value = ''0x'' @ hex_digits_of 8 value []"

definition terminal_write_uint :: "u32 \<Rightarrow> terminal \<Rightarrow> terminal" where
  "terminal_write_uint value = terminal_writestring (uint_text value)"

definition terminal_write_int :: "u32 \<Rightarrow> terminal \<Rightarrow> terminal" where
  "terminal_write_int value = terminal_writestring (int_text value)"

definition terminal_write_hex :: "u32 \<Rightarrow> terminal \<Rightarrow> terminal" where
  "terminal_write_hex value = terminal_writestring (hex_text value)"

section \<open>The terminal stays on the screen\<close>

text \<open>
  The cursor is on the screen, and the size of the screen is that of the mode: 80x25, or
  as many 8x16 cells as the active framebuffer has.
\<close>

definition terminal_ok :: "terminal \<Rightarrow> bool" where
  "terminal_ok t \<longleftrightarrow> vbe_ok (video t)
     \<and> terminal_row t < term_rows t \<and> terminal_column t < term_cols t
     \<and> (if fb_mode t
        then active (g_vbe (video t)) \<and> term_cols t = width (g_vbe (video t)) div FONT_W
             \<and> term_rows t = height (g_vbe (video t)) div FONT_H
        else term_cols t = VGA_TEXT_W \<and> term_rows t = VGA_TEXT_H)"

text \<open>What every operation leaves alone: the memory outside the two screens.\<close>

definition frame_kept :: "terminal \<Rightarrow> terminal \<Rightarrow> bool" where
  "frame_kept t t' \<longleftrightarrow>
     (\<forall>k \<ge> VGA_TEXT_H * VGA_TEXT_W. terminal_buffer t' k = terminal_buffer t k)
     \<and> (\<forall>k \<ge> width (g_vbe (video t)) * height (g_vbe (video t)). vram (video t') k = vram (video t) k)
     \<and> g_vbe (video t') = g_vbe (video t) \<and> fb_mode t' = fb_mode t
     \<and> term_cols t' = term_cols t \<and> term_rows t' = term_rows t"

lemmas terminal_dims = VGA_TEXT_W_def VGA_TEXT_H_def FONT_W_def FONT_H_def

lemma frame_kept_refl [simp]: "frame_kept t t"
  by (simp add: frame_kept_def)

lemma frame_kept_trans: "frame_kept t u \<Longrightarrow> frame_kept u v \<Longrightarrow> frame_kept t v"
  by (simp add: frame_kept_def)

text \<open>
  A drawing step changes neither the cursor nor the size of the screen: with the frame
  this is what carries the invariant through it.
\<close>

definition draw_step :: "terminal \<Rightarrow> terminal \<Rightarrow> bool" where
  "draw_step t t' \<longleftrightarrow> frame_kept t t' \<and> (vbe_ok (video t) \<longrightarrow> vbe_ok (video t'))
     \<and> terminal_row t' = terminal_row t \<and> terminal_column t' = terminal_column t"

lemma draw_step_ok: "draw_step t t' \<Longrightarrow> terminal_ok t \<Longrightarrow> terminal_ok t'"
  by (auto simp: draw_step_def frame_kept_def terminal_ok_def)

lemma draw_step_frame: "draw_step t t' \<Longrightarrow> frame_kept t t'"
  by (simp add: draw_step_def)

lemma draw_step_refl [simp]: "draw_step t t"
  by (simp add: draw_step_def)

lemma draw_step_trans: "draw_step t u \<Longrightarrow> draw_step u v \<Longrightarrow> draw_step t v"
  by (auto simp: draw_step_def intro: frame_kept_trans)

lemma draw_step_video:
  assumes "g_vbe v = g_vbe (video t)" "g_dispi_ok v = g_dispi_ok (video t)"
    "g_probed v = g_probed (video t)"
    "\<And>k. width (g_vbe (video t)) * height (g_vbe (video t)) \<le> k \<Longrightarrow> vram v k = vram (video t) k"
  shows "draw_step t (t\<lparr>video := v\<rparr>)"
  using assms vbe_ok_cong [of v "video t"] by (simp add: draw_step_def frame_kept_def)

lemma fb_draw_glyph_plots:
  "fb_draw_glyph cx cy ch fg bg t =
     (if \<not> active (g_vbe (video t)) \<or> lfb (g_vbe (video t)) = 0 \<or> cx \<ge> term_cols t \<or> cy \<ge> term_rows t
      then t
      else t\<lparr>video := fb.plots (fb.block (int (cx * FONT_W)) (int (cy * FONT_H)) FONT_W FONT_H
               (\<lambda>col row. if (gfx_font_glyph ch ! row) AND drop_bit col 0x80 \<noteq> 0 then fg else bg))
             (video t)\<rparr>)"
  by (simp add: fb_draw_glyph_def fb.fold_block [symmetric])

lemma draw_steps:
  "draw_step t (serial_putchar c t)" "draw_step t (hw_cursor x y t)"
  "draw_step t (fb_draw_glyph cx cy ch fg bg t)" "draw_step t (fb_fill_cell cx cy col t)"
  "draw_step t (fb_draw_cursor t)" "draw_step t (update_cursor t)" "draw_step t (leave_cell t)"
  "draw_step t (terminal_setcolor color t)" "draw_step t (terminal_show_cursor t)"
  "draw_step t (terminal_hide_cursor t)"
proof -
  show "draw_step t (serial_putchar c t)"
    by (simp add: serial_putchar_def draw_step_def frame_kept_def Let_def)
  show hw: "draw_step t (hw_cursor x y t)" for x y t
    by (simp add: hw_cursor_def draw_step_def frame_kept_def)
  show "draw_step t (fb_draw_glyph cx cy ch fg bg t)"
    by (simp add: fb_draw_glyph_plots draw_step_video vram_outside)
  show fill: "draw_step t (fb_fill_cell cx cy col t)" for cx cy col
    by (simp add: fb_fill_cell_def draw_step_video vram_outside)
  show cur: "draw_step t (fb_draw_cursor t)" for t
    by (simp add: fb_draw_cursor_def draw_step_video vram_outside)
  show "draw_step t (update_cursor t)" by (simp add: update_cursor_def hw cur)
  show "draw_step t (leave_cell t)" by (simp add: leave_cell_def fill)
  show "draw_step t (terminal_setcolor color t)"
    by (simp add: terminal_setcolor_def draw_step_def frame_kept_def)
  have "draw_step t (t\<lparr>cursor_shape := s\<rparr>)" for s by (simp add: draw_step_def frame_kept_def)
  then show "draw_step t (terminal_show_cursor t)" "draw_step t (terminal_hide_cursor t)"
    using cur by (auto simp: terminal_show_cursor_def terminal_hide_cursor_def
        intro: draw_step_trans [OF _ hw])
qed

lemma terminal_putentryat_step:
  assumes "terminal_ok t" "x < term_cols t" "y < term_rows t"
  shows "draw_step t (terminal_putentryat c color x y t)"
proof (cases "fb_mode t")
  case False
  with assms have "y * VGA_TEXT_W + x < VGA_TEXT_H * VGA_TEXT_W"
    by (simp add: terminal_ok_def terminal_dims)
  with False show ?thesis
    by (auto simp: terminal_putentryat_def draw_step_def frame_kept_def)
qed (simp add: terminal_putentryat_def draw_steps)

section \<open>Scrolling\<close>

lemma scroll_text_effect:
  "scroll_text t k =
     (if k < (VGA_TEXT_H - 1) * VGA_TEXT_W then terminal_buffer t (k + VGA_TEXT_W)
      else if k < VGA_TEXT_H * VGA_TEXT_W then vga_entry CHR '' '' (terminal_color t)
      else terminal_buffer t k)"
proof -
  have rows: "fold (\<lambda>y. fold (\<lambda>x b. b((y - 1) * VGA_TEXT_W + x := b (y * VGA_TEXT_W + x)))
        [0..<VGA_TEXT_W]) [1..<VGA_TEXT_H] b =
      fold (\<lambda>i b. b(i := b (i + VGA_TEXT_W))) [0..<(VGA_TEXT_H - 1) * VGA_TEXT_W] b" for b :: "nat \<Rightarrow> u16"
  proof -
    have "[1..<VGA_TEXT_H] = map Suc [0..<VGA_TEXT_H - 1]"
      by (simp add: map_Suc_upt VGA_TEXT_H_def)
    then show ?thesis
      using fold_rows [of "\<lambda>i (b :: nat \<Rightarrow> u16). b(i := b (i + VGA_TEXT_W))" VGA_TEXT_W "VGA_TEXT_H - 1"]
      by (simp add: fold_map comp_def ac_simps)
  qed
  show ?thesis
    unfolding scroll_text_def rows Let_def
    using fold_copy_down [of VGA_TEXT_W "(VGA_TEXT_H - 1) * VGA_TEXT_W" "terminal_buffer t" k]
    by (simp add: fold_fill terminal_dims)
qed

lemma scroll_fb_effect:
  assumes "term_rows t * FONT_H \<le> height (g_vbe v)"
  shows "scroll_fb t v k =
     (let wid = width (g_vbe v) in
      if k < (term_rows t - 1) * FONT_H * wid then vram v (k + FONT_H * wid)
      else if k < term_rows t * FONT_H * wid then fb_bg t else vram v k)"
proof -
  let ?w = "width (g_vbe v)" and ?n = "(term_rows t - 1) * FONT_H * width (g_vbe v)"
  let ?e = "term_rows t * FONT_H * width (g_vbe v)"
  have "?e \<le> ?w * height (g_vbe v)" using assms by (simp add: mult.commute mult_le_mono2)
  then have m: "min ?e (?w * height (g_vbe v)) = ?e" by simp
  have le: "?n \<le> ?e" by (simp add: mult_le_mono1)
  have "fold (\<lambda>i fb. fb(i := fb_bg t)) [?n..<?e] f k = (if ?n \<le> k \<and> k < ?e then fb_bg t else f k)" for f
  proof -
    have "[?n..<?e] = map (\<lambda>i. ?n + i) [0..<?e - ?n]"
      using le by (simp add: map_add_upt add.commute)
    then show ?thesis using le by (simp add: fold_map comp_def fold_fill)
  qed
  then show ?thesis
    using le by (simp add: scroll_fb_def m Let_def fold_copy_down)
qed

text \<open>
  After the cursor moved below the last row, scrolling puts it back on the last row and
  changes nothing outside the screen.
\<close>

lemma fb_fits: "terminal_ok t \<Longrightarrow> fb_mode t \<Longrightarrow>
  lfb (g_vbe (video t)) \<noteq> 0 \<and> 0 < term_rows t \<and> 0 < term_cols t
  \<and> term_rows t * FONT_H \<le> height (g_vbe (video t)) \<and> term_cols t * FONT_W \<le> width (g_vbe (video t))
  \<and> width (g_vbe (video t)) \<le> 1024 \<and> height (g_vbe (video t)) \<le> 768"
  by (auto simp: terminal_ok_def vbe_ok_def terminal_dims)

text \<open>The state between the write and the scroll: the cursor may be one row too low.\<close>

definition below_ok :: "terminal \<Rightarrow> bool" where
  "below_ok t \<longleftrightarrow> (\<exists>r < term_rows t. terminal_ok (t\<lparr>terminal_row := r\<rparr>))"

lemma terminal_scroll_ok:
  assumes "below_ok t"
  shows "terminal_ok (terminal_scroll t) \<and> frame_kept t (terminal_scroll t)"
proof -
  obtain r where ok: "terminal_ok (t\<lparr>terminal_row := r\<rparr>)" using assms by (auto simp: below_ok_def)
  show ?thesis
  proof (cases "fb_mode t")
    case True
    let ?v = "video t"
    have fit: "term_rows t * FONT_H \<le> height (g_vbe ?v)" "lfb (g_vbe ?v) \<noteq> 0" "0 < term_rows t"
      using fb_fits [OF ok] True by simp_all
    have act: "active (g_vbe ?v)" using ok True by (simp add: terminal_ok_def)
    have kept: "scroll_fb t ?v k = vram ?v k" if "width (g_vbe ?v) * height (g_vbe ?v) \<le> k" for k
    proof -
      have "term_rows t * FONT_H * width (g_vbe ?v) \<le> k"
        using fit(1) that by (metis mult.commute mult_le_mono2 order_trans)
      moreover have "(term_rows t - 1) * FONT_H * width (g_vbe ?v) \<le> term_rows t * FONT_H * width (g_vbe ?v)"
        by (simp add: mult_le_mono1)
      ultimately have "\<not> k < term_rows t * FONT_H * width (g_vbe ?v)"
        "\<not> k < (term_rows t - 1) * FONT_H * width (g_vbe ?v)" by linarith+
      then show ?thesis using scroll_fb_effect [OF fit(1), of k] by (simp add: Let_def)
    qed
    have ok': "vbe_ok (?v\<lparr>vram := m\<rparr>) = vbe_ok ?v" for m by (rule vbe_ok_cong) simp_all
    show ?thesis
      using True act fit(2,3) ok kept ok'
      by (simp add: terminal_scroll_def terminal_ok_def frame_kept_def)
  next
    case False
    with ok show ?thesis
      by (simp add: terminal_scroll_def terminal_ok_def frame_kept_def scroll_text_effect terminal_dims)
  qed
qed

lemma below_okI:
  "terminal_ok t \<Longrightarrow> c < term_cols t \<Longrightarrow>
   below_ok (t\<lparr>terminal_column := c, terminal_row := r\<rparr>)"
  by (auto simp: below_ok_def terminal_ok_def)

lemma scroll_if_needed:
  assumes "below_ok t"
  shows "terminal_ok (if terminal_row t \<ge> term_rows t then terminal_scroll t else t)
    \<and> frame_kept t (if terminal_row t \<ge> term_rows t then terminal_scroll t else t)"
  using terminal_scroll_ok [OF assms] assms by (auto simp: below_ok_def terminal_ok_def)

section \<open>Every operation keeps the screen\<close>

definition keeps_screen :: "(terminal \<Rightarrow> terminal) \<Rightarrow> bool" where
  "keeps_screen f \<longleftrightarrow> (\<forall>t. terminal_ok t \<longrightarrow> terminal_ok (f t) \<and> frame_kept t (f t))"

lemma keeps_screenI:
  "(\<And>t. terminal_ok t \<Longrightarrow> terminal_ok (f t) \<and> frame_kept t (f t)) \<Longrightarrow> keeps_screen f"
  by (simp add: keeps_screen_def)

lemma keeps_screenD: "keeps_screen f \<Longrightarrow> terminal_ok t \<Longrightarrow> terminal_ok (f t) \<and> frame_kept t (f t)"
  by (simp add: keeps_screen_def)

lemma keeps_screen_step: "(\<And>t. terminal_ok t \<Longrightarrow> draw_step t (f t)) \<Longrightarrow> keeps_screen f"
  by (rule keeps_screenI) (blast intro: draw_step_ok draw_step_frame)

lemma keeps_screen_comp: "keeps_screen f \<Longrightarrow> keeps_screen g \<Longrightarrow> keeps_screen (\<lambda>t. g (f t))"
  by (rule keeps_screenI) (blast dest: keeps_screenD intro: frame_kept_trans)

lemma frame_kept_cursor [simp]:
  "frame_kept t (t'\<lparr>terminal_column := c\<rparr>) = frame_kept t t'"
  "frame_kept t (t'\<lparr>terminal_row := r\<rparr>) = frame_kept t t'"
  "frame_kept (t\<lparr>terminal_column := c\<rparr>) t' = frame_kept t t'"
  by (simp_all add: frame_kept_def)

lemma place_char_below:
  assumes ok: "terminal_ok t"
  shows "below_ok (place_char c t) \<and> frame_kept t (place_char c t)"
proof -
  have pos: "0 < term_cols t" "terminal_column t < term_cols t" "terminal_row t < term_rows t"
    using ok by (auto simp: terminal_ok_def)
  have below: "below_ok (u\<lparr>terminal_column := cc, terminal_row := r\<rparr>) \<and> frame_kept t u"
    if "draw_step t u" "cc < term_cols t" for u cc r
    using that draw_step_ok [OF that(1) ok] by (simp add: below_okI draw_step_def frame_kept_def)
  have same: "u\<lparr>terminal_column := cc\<rparr> = u\<lparr>terminal_column := cc, terminal_row := terminal_row u\<rparr>" for u cc
    by simp
  let ?e = "terminal_putentryat c (terminal_color t) (terminal_column t) (terminal_row t) t"
  have e: "draw_step t ?e" by (rule terminal_putentryat_step [OF ok pos(2,3)])
  then have ecol: "terminal_column ?e = terminal_column t" "term_cols ?e = term_cols t"
    by (simp_all add: draw_step_def frame_kept_def)
  consider "c = CHR 0x0A" | "c = CHR 0x0D" | "c \<noteq> CHR 0x0A" "c \<noteq> CHR 0x0D" by blast
  then show ?thesis
  proof cases
    case 1
    then show ?thesis
      using below [OF draw_steps(4) pos(1)] below [OF draw_step_refl pos(1)] by (simp add: place_char_def Let_def)
  next
    case 2
    then show ?thesis
      using below [OF draw_step_refl pos(1), of "terminal_row t"] by (simp add: place_char_def)
  next
    case 3
    show ?thesis
      using below [OF e pos(1)] below [OF e, of "Suc (terminal_column t)" "terminal_row ?e"] 3 pos(2)
      by (auto simp: place_char_def Let_def ecol)
  qed
qed

lemma terminal_putchar_keeps: "keeps_screen (terminal_putchar c)"
proof (rule keeps_screenI)
  fix t assume "terminal_ok t"
  then have ok: "terminal_ok (serial_putchar c t)" and f1: "frame_kept t (serial_putchar c t)"
    using draw_steps(1) draw_step_ok draw_step_frame by blast+
  note b = place_char_below [OF ok, of c]
  let ?p = "place_char c (serial_putchar c t)"
  let ?s = "if terminal_row ?p \<ge> term_rows ?p then terminal_scroll ?p else ?p"
  have s: "terminal_ok ?s" "frame_kept ?p ?s"
    using scroll_if_needed [OF conjunct1 [OF b]] by blast+
  have f2: "frame_kept (serial_putchar c t) ?s" by (rule frame_kept_trans [OF conjunct2 [OF b] s(2)])
  have "terminal_ok (update_cursor ?s) \<and> frame_kept (serial_putchar c t) (update_cursor ?s)"
    using draw_step_ok [OF draw_steps(6) s(1)] frame_kept_trans [OF f2 draw_step_frame [OF draw_steps(6)]]
    by blast
  then have "terminal_ok (terminal_putchar c t) \<and> frame_kept (serial_putchar c t) (terminal_putchar c t)"
    by (simp only: terminal_putchar_def Let_def)
  with f1 show "terminal_ok (terminal_putchar c t) \<and> frame_kept t (terminal_putchar c t)"
    using frame_kept_trans by blast
qed

lemma terminal_writestring_keeps: "keeps_screen (terminal_writestring s)"
proof (induction s)
  case Nil
  show ?case by (simp add: keeps_screen_def)
next
  case (Cons c s)
  from keeps_screen_comp [OF terminal_putchar_keeps [of c] Cons.IH] show ?case by simp
qed

lemma terminal_backspace_keeps: "keeps_screen terminal_backspace"
proof (rule keeps_screenI)
  fix t assume ok: "terminal_ok t"
  define u where "u = t\<lparr>terminal_column := terminal_column t - 1\<rparr>"
  have u: "terminal_ok u" "frame_kept t u" using ok by (auto simp: u_def terminal_ok_def)
  let ?e = "terminal_putentryat CHR '' '' (terminal_color u) (terminal_column u) (terminal_row u) u"
  have "draw_step u ?e" using u(1) by (intro terminal_putentryat_step) (auto simp: terminal_ok_def)
  then have "draw_step u (update_cursor ?e)" using draw_steps(6) draw_step_trans by blast
  then have e: "terminal_ok (update_cursor ?e)" "frame_kept t (update_cursor ?e)"
    using u draw_step_ok draw_step_frame frame_kept_trans by blast+
  have ser: "draw_step v (serial_putchar a (serial_putchar b (serial_putchar a v)))" for v a b
    using draw_steps(1) draw_step_trans by blast
  show "terminal_ok (terminal_backspace t) \<and> frame_kept t (terminal_backspace t)"
    using e ok ser [THEN draw_step_ok] ser [THEN draw_step_frame] frame_kept_trans
    by (auto simp: terminal_backspace_def Let_def u_def)
qed

lemma terminal_set_cursor_keeps: "keeps_screen (terminal_set_cursor x y)"
proof (rule keeps_screenI)
  fix t assume ok: "terminal_ok t"
  define x' where "x' = (if x \<ge> term_cols t then term_cols t - 1 else x)"
  define y' where "y' = (if y \<ge> term_rows t then term_rows t - 1 else y)"
  let ?u = "(leave_cell t)\<lparr>terminal_column := x', terminal_row := y'\<rparr>"
  have l: "terminal_ok (leave_cell t)" "frame_kept t (leave_cell t)"
    using draw_steps(7) draw_step_ok draw_step_frame ok by blast+
  have "x' < term_cols t" "y' < term_rows t"
    using ok by (auto simp: x'_def y'_def terminal_ok_def)
  with l have "terminal_ok ?u" "frame_kept t ?u"
    by (auto simp: terminal_ok_def frame_kept_def)
  with draw_steps(6) show "terminal_ok (terminal_set_cursor x y t) \<and> frame_kept t (terminal_set_cursor x y t)"
    unfolding terminal_set_cursor_def Let_def x'_def [symmetric] y'_def [symmetric]
    using draw_step_ok draw_step_frame frame_kept_trans by blast
qed

lemma leave_cell_keeps: "keeps_screen leave_cell"
  by (rule keeps_screen_step) (rule draw_steps)

lemma update_cursor_keeps: "keeps_screen update_cursor"
  by (rule keeps_screen_step) (rule draw_steps)

lemma move_left_loop_keeps: "keeps_screen (move_left_loop n)"
proof (rule keeps_screenI)
  fix t assume "terminal_ok t"
  then show "terminal_ok (move_left_loop n t) \<and> frame_kept t (move_left_loop n t)"
  proof (induction n t rule: move_left_loop.induct)
    case (2 n t)
    let ?u = "(leave_cell t)\<lparr>terminal_column := terminal_column (leave_cell t) - 1\<rparr>"
    have u: "terminal_ok ?u" "frame_kept t ?u"
      using keeps_screenD [OF leave_cell_keeps "2.prems"] by (auto simp: terminal_ok_def)
    show ?case
      using "2.IH" u "2.prems" frame_kept_trans [OF u(2)] by (simp add: Let_def)
  qed simp
qed

lemma move_right_loop_keeps: "keeps_screen (move_right_loop n)"
proof (rule keeps_screenI)
  fix t assume "terminal_ok t"
  then show "terminal_ok (move_right_loop n t) \<and> frame_kept t (move_right_loop n t)"
  proof (induction n t rule: move_right_loop.induct)
    case (2 n t)
    let ?u = "(leave_cell t)\<lparr>terminal_column := terminal_column (leave_cell t) + 1\<rparr>"
    have l: "terminal_ok (leave_cell t)" "frame_kept t (leave_cell t)" "draw_step t (leave_cell t)"
      using keeps_screenD [OF leave_cell_keeps "2.prems"] draw_steps(7) by auto
    have u: "frame_kept t ?u \<and> (terminal_column t < term_cols t - 1 \<longrightarrow> terminal_ok ?u)"
      using l by (auto simp: terminal_ok_def draw_step_def frame_kept_def)
    show ?case
      using "2.IH" u "2.prems" frame_kept_trans [OF conjunct1 [OF u]] by (simp add: Let_def)
  qed simp
qed

text \<open>The operations a client calls, and what a sequence of calls does.\<close>

datatype terminal_call =
  Putchar char | Writestring string | Backspace | SetColor u8 | SetCursor nat nat
  | MoveLeft nat | MoveRight nat | PutcharAtCursor char | ShowCursor | HideCursor

primrec run_call :: "terminal_call \<Rightarrow> terminal \<Rightarrow> terminal" where
  "run_call (Putchar c) = terminal_putchar c"
| "run_call (Writestring s) = terminal_writestring s"
| "run_call Backspace = terminal_backspace"
| "run_call (SetColor c) = terminal_setcolor c"
| "run_call (SetCursor x y) = terminal_set_cursor x y"
| "run_call (MoveLeft n) = terminal_move_left n"
| "run_call (MoveRight n) = terminal_move_right n"
| "run_call (PutcharAtCursor c) = terminal_putchar_at_cursor c"
| "run_call ShowCursor = terminal_show_cursor"
| "run_call HideCursor = terminal_hide_cursor"

lemma run_call_keeps: "keeps_screen (run_call op)"
proof (cases op)
  case (MoveLeft n)
  with keeps_screen_comp [OF move_left_loop_keeps [of n] update_cursor_keeps] show ?thesis
    by (simp add: terminal_move_left_def [abs_def])
next
  case (MoveRight n)
  with keeps_screen_comp [OF move_right_loop_keeps [of n] update_cursor_keeps] show ?thesis
    by (simp add: terminal_move_right_def [abs_def])
next
  case (PutcharAtCursor c)
  have "keeps_screen (terminal_putchar_at_cursor c)"
    by (rule keeps_screen_step)
      (auto simp: terminal_putchar_at_cursor_def terminal_ok_def intro!: terminal_putentryat_step)
  with PutcharAtCursor show ?thesis by simp
qed (simp_all add: terminal_putchar_keeps terminal_writestring_keeps terminal_backspace_keeps
    terminal_set_cursor_keeps keeps_screen_step draw_steps)

lemma run_calls_keep: "keeps_screen (fold run_call ops)"
proof (induction ops)
  case Nil
  show ?case by (simp add: keeps_screen_def)
next
  case (Cons op ops)
  from keeps_screen_comp [OF run_call_keeps [of op] Cons.IH] show ?case
    by (simp add: comp_def)
qed

lemma terminal_initialize_ok: "vbe_ok (video t) \<Longrightarrow> terminal_ok (terminal_initialize t)"
  using vbe_ok_cong [of "vbe_clear 0 (video t)" "video t"]
  by (auto simp: terminal_initialize_def terminal_ok_def terminal_show_cursor_def hw_cursor_def
      vbe_is_active_def terminal_dims Let_def vbe_ok_def)

lemma terminal_enable_fb_ok:
  assumes ok: "terminal_ok t" and en: "terminal_enable_fb hw m t = (r, t')"
  shows "r = 0 \<and> terminal_ok t' \<and> fb_mode t'
          \<and> (term_cols t', term_rows t') = (fst (mode_size m) div FONT_W, snd (mode_size m) div FONT_H)
      \<or> r = -1 \<and> (\<not> fb_mode t \<longrightarrow> terminal_ok t')"
proof -
  define v0 where "v0 = snd (vbe_probe hw (video t))"
  obtain q v where sm: "vbe_set_mode hw m v0 = (q, v)" by (cases "vbe_set_mode hw m v0")
  have v: "vbe_ok v" "q = 0 \<and> active (g_vbe v) \<and> (width (g_vbe v), height (g_vbe v)) = mode_size m
      \<or> q = -1 \<and> \<not> active (g_vbe v)"
    using vbe_set_mode_ok [of v0 hw m] vbe_probe_ok(1) [of hw "video t"] sm by (simp_all add: v0_def)
  show ?thesis
  proof (cases "q = 0")
    case True
    with v have size: "active (g_vbe v)" "width (g_vbe v) = fst (mode_size m)"
      "height (g_vbe v) = snd (mode_size m)" by (auto simp: prod_eq_iff)
    have "0 < width (g_vbe v) div FONT_W" "0 < height (g_vbe v) div FONT_H"
      using mode_size_cases [of m] by (auto simp: size terminal_dims)
    then show ?thesis
      using en True v(1) size vbe_ok_cong [of "vbe_clear (fb_bg t) v" v]
      by (auto simp: terminal_enable_fb_def v0_def [symmetric] sm Let_def terminal_ok_def)
  next
    case False
    then show ?thesis
      using en ok v by (auto simp: terminal_enable_fb_def v0_def [symmetric] sm Let_def terminal_ok_def)
  qed
qed

lemma terminal_disable_fb_ok: "terminal_ok t \<Longrightarrow> terminal_ok (terminal_disable_fb t)"
  by (cases "fb_mode t") (simp_all add: terminal_disable_fb_def terminal_ok_def vbe_disable_ok
      VGA_TEXT_W_def VGA_TEXT_H_def)

section \<open>Serial output\<close>

text \<open>What a terminal at the other end of the line receives for a character.\<close>

definition crlf :: "char \<Rightarrow> string" where
  "crlf c = (if c = CHR 0x0A then [CHR 0x0D, c] else [c])"

lemma serial_out_serial_putchar [simp]: "serial_out (serial_putchar c t) = serial_out t @ crlf c"
  by (simp add: serial_putchar_def crlf_def Let_def)

lemma serial_out_same [simp]:
  "serial_out (update_cursor t) = serial_out t" "serial_out (terminal_scroll t) = serial_out t"
  "serial_out (terminal_putentryat c color x y t) = serial_out t"
  "serial_out (fb_fill_cell x y col t) = serial_out t"
  by (simp_all add: update_cursor_def fb_draw_cursor_def hw_cursor_def terminal_scroll_def
      terminal_putentryat_def fb_draw_glyph_def fb_fill_cell_def)

lemma serial_out_place_char [simp]: "serial_out (place_char c t) = serial_out t"
  by (simp add: place_char_def Let_def)

lemma serial_out_putchar: "serial_out (terminal_putchar c t) = serial_out t @ crlf c"
  by (simp add: terminal_putchar_def Let_def)

lemma serial_out_writestring:
  "serial_out (terminal_writestring s t) = serial_out t @ concat (map crlf s)"
  by (induction s t rule: terminal_writestring.induct) (simp_all add: serial_out_putchar)

lemma serial_write_writestring:
  "serial_out (serial_write s t) = serial_out (terminal_writestring s t)"
proof -
  have "serial_out (serial_write s t) = serial_out t @ concat (map crlf s)"
    by (induction s t rule: serial_write.induct) simp_all
  then show ?thesis by (simp add: serial_out_writestring)
qed

section \<open>Printed numbers read back\<close>

text \<open>The value of a string of decimal digits.\<close>

definition char_digit :: "char \<Rightarrow> nat" where
  "char_digit c = of_char c - 48"

definition dec_value :: "string \<Rightarrow> nat" where
  "dec_value s = foldl (\<lambda>v c. v * 10 + char_digit c) 0 s"

definition is_digit :: "char \<Rightarrow> bool" where
  "is_digit c \<longleftrightarrow> 48 \<le> (of_char c :: nat) \<and> (of_char c :: nat) \<le> 57"

lemma of_char_digit_char [simp]: "d < 10 \<Longrightarrow> (of_char (digit_char d) :: nat) = 48 + d"
  by (simp add: digit_char_def)

lemma char_digit_digit_char [simp]: "d < 10 \<Longrightarrow> char_digit (digit_char d) = d"
  by (simp add: char_digit_def)

lemma is_digit_digit_char [simp]: "d < 10 \<Longrightarrow> is_digit (digit_char d)"
  by (simp add: is_digit_def)

lemma foldl_dec_shift:
  "foldl (\<lambda>v c. v * 10 + char_digit c) a s = a * 10 ^ length s + dec_value s"
proof (induction s arbitrary: a)
  case Nil
  then show ?case by (simp add: dec_value_def)
next
  case (Cons c s)
  show ?case
    using Cons.IH [of "a * 10 + char_digit c"] Cons.IH [of "char_digit c"]
    by (simp add: dec_value_def algebra_simps)
qed

lemma dec_value_Cons: "dec_value (c # s) = char_digit c * 10 ^ length s + dec_value s"
  using foldl_dec_shift [of "char_digit c" s] by (simp add: dec_value_def)

lemma dec_value_step:
  "r < 10 \<Longrightarrow> q * 10 ^ Suc (length acc) + dec_value (digit_char r # acc) =
     (q * 10 + r) * 10 ^ length acc + dec_value acc"
  by (simp add: dec_value_Cons algebra_simps)

lemma uint_digits_value:
  "v < 10 ^ i \<Longrightarrow>
   dec_value (uint_digits i v acc) = v * 10 ^ length acc + dec_value acc"
proof (induction i v acc rule: uint_digits.induct)
  case (1 i v acc)
  show ?case
  proof (cases "v > 0 \<and> i > 0")
    case True
    then obtain j where i: "i = Suc j" by (cases i) auto
    with "1.prems" have "v div 10 < 10 ^ j" by (simp add: less_mult_imp_div_less mult.commute)
    with "1.IH" True i have "dec_value (uint_digits i v acc) =
        v div 10 * 10 ^ Suc (length acc) + dec_value (digit_char (v mod 10) # acc)"
      by (subst uint_digits.simps) simp
    also have "\<dots> = (v div 10 * 10 + v mod 10) * 10 ^ length acc + dec_value acc"
      by (rule dec_value_step) simp
    finally show ?thesis by simp
  next
    case False
    with "1.prems" have "v = 0" by (cases i) auto
    then show ?thesis by (subst uint_digits.simps) simp
  qed
qed

lemma uint_digits_all_digits:
  "list_all is_digit acc \<Longrightarrow> list_all is_digit (uint_digits i v acc)"
proof (induction i v acc rule: uint_digits.induct)
  case (1 i v acc)
  then show ?case by (subst uint_digits.simps) simp
qed

lemma uint_digits_nonempty: "v > 0 \<Longrightarrow> i > 0 \<or> acc \<noteq> [] \<Longrightarrow> uint_digits i v acc \<noteq> []"
proof (induction i v acc rule: uint_digits.induct)
  case (1 i v acc)
  show ?case
  proof (cases "i > 0 \<and> v div 10 > 0")
    case True
    with "1" show ?thesis by (subst uint_digits.simps) simp
  next
    case False
    with "1.prems" show ?thesis
      by (cases "i > 0") (auto simp: uint_digits.simps [of i] uint_digits.simps [of 0]
          uint_digits.simps [of _ 0])
  qed
qed

lemma unat_u32_dec: "unat (w :: u32) < 10 ^ 10"
proof -
  have "unat w < 2 ^ 32" using unsigned_less [of w] by simp
  also have "\<dots> < (10::nat) ^ 10" by simp
  finally show ?thesis .
qed

lemma uint_text_value: "dec_value (uint_text w) = unat w"
  using uint_digits_value [OF unat_u32_dec [of w], of "[]"]
  by (simp add: uint_text_def dec_value_def char_digit_def)

lemma uint_text_digits: "list_all is_digit (uint_text w)"
  by (simp add: uint_text_def uint_digits_all_digits is_digit_def)

lemma uint_text_nonempty: "uint_text w \<noteq> []"
  using uint_digits_nonempty [of "unat w" 10 "[]"]
  by (simp add: uint_text_def unat_gt_0)


lemma crlf_digits: "list_all is_digit s \<Longrightarrow> concat (map crlf s) = s"
  by (induction s) (auto simp: crlf_def is_digit_def)

text \<open>The value a reader gives to a printed integer.\<close>

definition int_value :: "string \<Rightarrow> int" where
  "int_value s = (case s of [] \<Rightarrow> 0
     | c # cs \<Rightarrow> if c = CHR ''-'' then - int (dec_value cs) else int (dec_value s))"

lemma int_value_digits: "list_all is_digit s \<Longrightarrow> int_value s = int (dec_value s)"
  by (cases s) (auto simp: int_value_def is_digit_def dec_value_def)

lemma int_text_value: "int_value (int_text w) = sint w"
proof (cases "sint w < 0")
  case True
  have "- (2 ^ 31) \<le> sint w" using sint_greater_eq [of w] by simp
  moreover have "uint (word_of_int k :: u32) = k" if "0 \<le> k" "k \<le> 2 ^ 31" for k
    using that by (simp add: unsigned_of_int take_bit_int_eq_self_iff)
  ultimately have "int (unat (word_of_int (- sint w) :: u32)) = - sint w"
    using True by (simp only: uint_nat [symmetric])
  with True show ?thesis by (simp add: int_text_def int_value_def uint_text_value)
next
  case False
  then have "int (unat w) = sint w"
    using sint_less [of w] by (simp add: uint_nat [symmetric] uint_sint take_bit_int_eq_self_iff)
  moreover have "int_text w = uint_text w" using False by (simp only: int_text_def if_False)
  ultimately show ?thesis by (simp add: int_value_digits uint_text_digits uint_text_value)
qed

end
