(* ===== verification/Calc.thy ===== *)
theory Calc
  imports Terminal
begin

text \<open>
  The calculator of \<open>src/src/calc.c\<close>: a recursive-descent evaluator over the characters
  of the expression. \<open>long\<close> is the 32-bit word with wrap-around; the result \<open>None\<close> is the
  processor fault of a signed division that overflows. The six mutually recursive
  functions are the four parsing functions and the \<open>for (;;)\<close> loops of two of them; they
  terminate because every call consumes a character or goes to a tighter level.
\<close>

section \<open>Definitions\<close>

record calc_parser =
  pos :: cstring
  err :: bool

type_synonym 'a run = "('a \<times> calc_parser) option"

definition skip_spaces :: "calc_parser \<Rightarrow> calc_parser" where
  "skip_spaces pr = pr\<lparr>pos := dropWhile (\<lambda>c. c = CHR '' '' \<or> c = CHR 0x09) (pos pr)\<rparr>"

text \<open>The character under the read position, NUL at the end.\<close>

definition peek :: "calc_parser \<Rightarrow> char" where
  "peek pr = (case pos pr of [] \<Rightarrow> NUL | c # _ \<Rightarrow> c)"

definition advance :: "calc_parser \<Rightarrow> calc_parser" where
  "advance pr = pr\<lparr>pos := tl (pos pr)\<rparr>"

definition fail :: "calc_parser \<Rightarrow> calc_parser" where
  "fail pr = pr\<lparr>err := True\<rparr>"

function ipow_loop :: "u32 \<Rightarrow> u32 \<Rightarrow> u32 \<Rightarrow> u32" where
  "ipow_loop base expo result =
     (if sint expo > 0
      then ipow_loop (base * base) (drop_bit 1 expo) (if expo AND 1 \<noteq> 0 then result * base else result)
      else result)"
  by pat_completeness auto
termination
proof (relation "measure (\<lambda>(base, expo, result). unat expo)", goal_cases)
  case (2 base expo result)
  then have "expo \<noteq> 0" by auto
  then have "unat expo \<noteq> 0" by (simp add: unat_eq_zero)
  moreover have "unat (drop_bit 1 expo) = unat expo div 2"
    by (simp only: unat_drop_bit_eq) (simp add: drop_bit_eq_div)
  ultimately show ?case by simp
qed simp

declare ipow_loop.simps [simp del]

definition ipow :: "u32 \<Rightarrow> u32 \<Rightarrow> calc_parser \<Rightarrow> u32 \<times> calc_parser" where
  "ipow base expo pr = (if sint expo < 0 then (0, fail pr) else (ipow_loop base expo 1, pr))"

fun number_loop :: "u32 \<Rightarrow> cstring \<Rightarrow> u32 \<times> cstring" where
  "number_loop v (c # cs) =
     (if is_digit c then number_loop (v * 10 + of_nat (char_digit c)) cs else (v, c # cs))"
| "number_loop v [] = (v, [])"

text \<open>Signed division truncates; dividing the least value by -1 faults.\<close>

definition sdiv32 :: "u32 \<Rightarrow> u32 \<Rightarrow> u32 option" where
  "sdiv32 a b =
     (if sint a = - (2 ^ 31) \<and> sint b = -1 then None
      else Some (word_of_int (sgn (sint a) * sgn (sint b) * (\<bar>sint a\<bar> div \<bar>sint b\<bar>))))"

function (sequential) parse_factor :: "calc_parser \<Rightarrow> u32 run"
  and parse_power :: "calc_parser \<Rightarrow> u32 run"
  and parse_term :: "calc_parser \<Rightarrow> u32 run"
  and term_loop :: "u32 \<Rightarrow> calc_parser \<Rightarrow> u32 run"
  and parse_expr :: "calc_parser \<Rightarrow> u32 run"
  and expr_loop :: "u32 \<Rightarrow> calc_parser \<Rightarrow> u32 run"
where
  "parse_factor pr0 =
     (let pr = skip_spaces pr0 in
      if peek pr = CHR ''-'' then do { (v, pr) \<leftarrow> parse_factor (advance pr); Some (- v, pr) }
      else if peek pr = CHR ''+'' then parse_factor (advance pr)
      else if peek pr = CHR ''('' then do {
        (v, pr) \<leftarrow> parse_expr (advance pr);
        let pr = skip_spaces pr;
        if peek pr \<noteq> CHR '')'' then Some (0, fail pr) else Some (v, advance pr)
      }
      else if \<not> is_digit (peek pr) then Some (0, fail pr)
      else let (v, cs) = number_loop 0 (pos pr) in Some (v, pr\<lparr>pos := cs\<rparr>))"
| "parse_power pr = do {
     (base, pr) \<leftarrow> parse_factor pr;
     let pr = skip_spaces pr;
     if peek pr = CHR ''^'' then do {
       (expo, pr) \<leftarrow> parse_power (advance pr);
       Some (ipow base expo pr)
     }
     else Some (base, pr)
   }"
| "parse_term pr = do { (v, pr) \<leftarrow> parse_power pr; term_loop v pr }"
| "term_loop v pr0 =
     (let pr = skip_spaces pr0 in
      if peek pr = CHR ''*'' then do {
        (rhs, pr) \<leftarrow> parse_power (advance pr);
        term_loop (v * rhs) pr
      }
      else if peek pr = CHR ''/'' then do {
        (rhs, pr) \<leftarrow> parse_power (advance pr);
        if rhs = 0 then Some (0, fail pr)
        else do { q \<leftarrow> sdiv32 v rhs; term_loop q pr }
      }
      else Some (v, pr))"
| "parse_expr pr = do { (v, pr) \<leftarrow> parse_term pr; expr_loop v pr }"
| "expr_loop v pr0 =
     (let pr = skip_spaces pr0 in
      if peek pr = CHR ''+'' then do {
        (rhs, pr) \<leftarrow> parse_term (advance pr);
        expr_loop (v + rhs) pr
      }
      else if peek pr = CHR ''-'' then do {
        (rhs, pr) \<leftarrow> parse_term (advance pr);
        expr_loop (v - rhs) pr
      }
      else Some (v, pr))"
  by pat_completeness auto

abbreviation plen :: "calc_parser \<Rightarrow> nat" where
  "plen pr \<equiv> length (pos pr)"

lemma plen_skip: "plen (skip_spaces pr) \<le> plen pr"
  by (simp add: skip_spaces_def length_dropWhile_le)

lemma plen_fail [simp]: "plen (fail pr) = plen pr"
  by (simp add: fail_def)

lemma plen_advance: "peek pr \<noteq> NUL \<Longrightarrow> plen (advance pr) < plen pr"
  by (auto simp: peek_def advance_def split: list.splits)

lemma plen_advance_le: "plen (advance pr) \<le> plen pr"
  by (simp add: advance_def)

lemma plen_ipow [simp]: "plen (snd (ipow b e pr)) = plen pr"
  by (simp add: ipow_def)

lemma number_loop_length: "length (snd (number_loop v cs)) \<le> length cs"
  by (induction v cs rule: number_loop.induct) (auto intro: le_SucI)

lemma plen_peek: "peek (skip_spaces pr) = c \<Longrightarrow> c \<noteq> NUL \<Longrightarrow> plen (advance (skip_spaces pr)) < plen pr"
  using plen_advance [of "skip_spaces pr"] plen_skip [of pr] by auto

lemma parse_length_dom:
  "parse_factor_parse_power_parse_term_term_loop_parse_expr_expr_loop_dom (Inl (Inl pr)) \<Longrightarrow>
     (\<forall>v pr'. parse_factor pr = Some (v, pr') \<longrightarrow> plen pr' \<le> plen pr)"
  "parse_factor_parse_power_parse_term_term_loop_parse_expr_expr_loop_dom (Inl (Inr (Inl pr))) \<Longrightarrow>
     (\<forall>v pr'. parse_power pr = Some (v, pr') \<longrightarrow> plen pr' \<le> plen pr)"
  "parse_factor_parse_power_parse_term_term_loop_parse_expr_expr_loop_dom (Inl (Inr (Inr pr))) \<Longrightarrow>
     (\<forall>v pr'. parse_term pr = Some (v, pr') \<longrightarrow> plen pr' \<le> plen pr)"
  "parse_factor_parse_power_parse_term_term_loop_parse_expr_expr_loop_dom (Inr (Inl (x, pr))) \<Longrightarrow>
     (\<forall>v pr'. term_loop x pr = Some (v, pr') \<longrightarrow> plen pr' \<le> plen pr)"
  "parse_factor_parse_power_parse_term_term_loop_parse_expr_expr_loop_dom (Inr (Inr (Inl pr))) \<Longrightarrow>
     (\<forall>v pr'. parse_expr pr = Some (v, pr') \<longrightarrow> plen pr' \<le> plen pr)"
  "parse_factor_parse_power_parse_term_term_loop_parse_expr_expr_loop_dom (Inr (Inr (Inr (x, pr)))) \<Longrightarrow>
     (\<forall>v pr'. expr_loop x pr = Some (v, pr') \<longrightarrow> plen pr' \<le> plen pr)"
proof (induction rule: parse_factor_parse_power_parse_term_term_loop_parse_expr_expr_loop.pinduct)
  case (1 pr0)
  have num: "length (snd (number_loop 0 (pos (skip_spaces pr0)))) \<le> plen pr0"
    using number_loop_length [of 0 "pos (skip_spaces pr0)"] plen_skip [of pr0] by linarith
  have close: "plen (advance (skip_spaces pr)) \<le> plen pr" for pr
    using plen_skip [of pr] plen_advance_le [of "skip_spaces pr"] by linarith
  show ?case
    using 1 plen_peek [of pr0] num
    by (fastforce simp: parse_factor.psimps Let_def case_prod_beta plen_skip
        intro: le_trans [OF close] le_trans [OF plen_skip] split: Option.bind_splits if_splits)
next
  case (2 pr)
  have ip: "ipow b e pr = (v, pr') \<Longrightarrow> plen pr' = plen pr" for b e v pr pr'
    using plen_ipow [of b e pr] by simp
  show ?case
    using 2
    by (fastforce simp: parse_power.psimps Let_def dest!: ip dest: plen_peek
        intro: le_trans [OF plen_skip] split: Option.bind_splits if_splits)
next
  case (3 pr)
  then show ?case by (fastforce simp add: parse_term.psimps split: Option.bind_splits)
next
  case (4 v pr0)
  have "plen (skip_spaces pr0) \<le> plen pr0" by (rule plen_skip)
  with 4 plen_peek [of pr0] show ?case
    by (fastforce simp: term_loop.psimps Let_def split: Option.bind_splits if_splits)
next
  case (5 pr)
  then show ?case by (fastforce simp add: parse_expr.psimps split: Option.bind_splits)
next
  case (6 v pr0)
  have "plen (skip_spaces pr0) \<le> plen pr0" by (rule plen_skip)
  with 6 plen_peek [of pr0] show ?case
    by (fastforce simp: expr_loop.psimps Let_def split: Option.bind_splits if_splits)
qed

termination parse_factor
proof (relation "measure (case_sum (case_sum (\<lambda>pr. 4 * plen pr)
      (case_sum (\<lambda>pr. 4 * plen pr + 1) (\<lambda>pr. 4 * plen pr + 2)))
      (case_sum (\<lambda>(v, pr). 4 * plen pr + 1)
        (case_sum (\<lambda>pr. 4 * plen pr + 3) (\<lambda>(v, pr). 4 * plen pr + 1))))")
qed (auto dest!: parse_length_dom [rule_format] dest: plen_peek)

declare parse_factor.simps [simp del] parse_power.simps [simp del] parse_term.simps [simp del]
  term_loop.simps [simp del] parse_expr.simps [simp del] expr_loop.simps [simp del]

definition calc_eval :: "cstring \<Rightarrow> (u32 \<times> bool) option" where
  "calc_eval expr = do {
     (result, pr) \<leftarrow> parse_expr \<lparr>pos = expr, err = False\<rparr>;
     let pr = skip_spaces pr;
     Some (result, if peek pr \<noteq> NUL then True else err pr)
   }"

section \<open>Exponentiation\<close>

lemma bit_and_1: "expo AND 1 \<noteq> 0 \<longleftrightarrow> odd (unat (expo :: u32))"
  by (simp add: and_one_eq even_iff_mod_2_eq_zero unat_eq_zero [symmetric] unat_mod)

lemma ipow_loop_power: "0 \<le> sint expo \<Longrightarrow> ipow_loop base expo result = result * base ^ unat expo"
proof (induction base expo result rule: ipow_loop.induct)
  case (1 base expo result)
  show ?case
  proof (cases "0 < sint expo")
    case True
    have half: "unat (drop_bit 1 expo) = unat expo div 2"
      by (simp only: unat_drop_bit_eq) (simp add: drop_bit_eq_div)
    have "unat expo < 2 ^ 32" by (rule order_less_le_trans [OF unsigned_less]) simp
    then have "unat (drop_bit 1 expo) < 2 ^ 31" using half by simp
    then have "0 \<le> sint (drop_bit 1 expo)" by (simp add: sint_small)
    then have "ipow_loop base expo result =
        (if expo AND 1 \<noteq> 0 then result * base else result) * (base * base) ^ (unat expo div 2)"
      using 1(1) [OF True] True half by (subst ipow_loop.simps) simp
    also have "\<dots> = result * base ^ unat expo"
    proof (cases "odd (unat expo)")
      case True
      then have "unat expo = Suc (unat expo div 2 + unat expo div 2)" by presburger
      then have "base ^ unat expo = base * (base * base) ^ (unat expo div 2)"
        by (metis power_Suc power_add power_mult_distrib)
      with True show ?thesis unfolding bit_and_1 by (simp add: mult.assoc)
    next
      case False
      then have "unat expo = unat expo div 2 + unat expo div 2" by presburger
      then have "base ^ unat expo = (base * base) ^ (unat expo div 2)"
        by (metis power_add power_mult_distrib)
      with False show ?thesis unfolding bit_and_1 by simp
    qed
    finally show ?thesis .
  next
    case False
    with 1(2) have "sint expo = 0" by simp
    then have "expo = 0" by (intro signed_word_eqI) simp
    then show ?thesis by (subst ipow_loop.simps) simp
  qed
qed

section \<open>The error flag is sticky\<close>

lemma err_simps [simp]:
  "err (skip_spaces pr) = err pr" "err (advance pr) = err pr" "err (fail pr)"
  by (simp_all add: skip_spaces_def advance_def fail_def)

lemma err_ipow: "ipow b e pr = (v, pr') \<Longrightarrow> err pr \<Longrightarrow> err pr'"
  by (auto simp: ipow_def split: if_splits)

lemma err_sticky:
  "\<forall>v pr'. err pr \<longrightarrow> parse_factor pr = Some (v, pr') \<longrightarrow> err pr'"
  "\<forall>v pr'. err pr \<longrightarrow> parse_power pr = Some (v, pr') \<longrightarrow> err pr'"
  "\<forall>v pr'. err pr \<longrightarrow> parse_term pr = Some (v, pr') \<longrightarrow> err pr'"
  "\<forall>v pr'. err pr \<longrightarrow> term_loop x pr = Some (v, pr') \<longrightarrow> err pr'"
  "\<forall>v pr'. err pr \<longrightarrow> parse_expr pr = Some (v, pr') \<longrightarrow> err pr'"
  "\<forall>v pr'. err pr \<longrightarrow> expr_loop x pr = Some (v, pr') \<longrightarrow> err pr'"
proof (induction rule: parse_factor_parse_power_parse_term_term_loop_parse_expr_expr_loop.induct)
  case (1 pr0)
  then show ?case
    by (fastforce simp: parse_factor.simps [of pr0] Let_def case_prod_beta split: Option.bind_splits if_splits)
next
  case (2 pr)
  show ?case
  proof (intro allI impI)
    fix v pr'
    assume e: "err pr" and p: "parse_power pr = Some (v, pr')"
    then obtain b pr1 where f: "parse_factor pr = Some (b, pr1)"
      by (auto simp: parse_power.simps [of pr] split: Option.bind_splits)
    then have "err (skip_spaces pr1)" using 2(1) e by simp
    then show "err pr'"
      using p f 2(2) [OF f refl refl]
      by (auto simp: parse_power.simps [of pr] Let_def ipow_def split: Option.bind_splits if_splits)
  qed
next
  case (3 pr)
  show ?case
  proof (intro allI impI)
    fix v pr'
    assume e: "err pr" and p: "parse_term pr = Some (v, pr')"
    then obtain r pr1 where r: "parse_power pr = Some (r, pr1)" "term_loop r pr1 = Some (v, pr')"
      by (auto simp: parse_term.simps [of pr] split: Option.bind_splits)
    then show "err pr'" using 3(1) [rule_format, OF e] 3(2) [OF r(1) refl, rule_format] by blast
  qed
next
  case (4 x pr0)
  show ?case
  proof (intro allI impI)
    fix v pr'
    assume e: "err pr0" and p: "term_loop x pr0 = Some (v, pr')"
    let ?pr = "skip_spaces pr0"
    consider "peek ?pr = CHR ''*''" | "peek ?pr \<noteq> CHR ''*''" "peek ?pr = CHR ''/''"
      | "peek ?pr \<noteq> CHR ''*''" "peek ?pr \<noteq> CHR ''/''" by blast
    then show "err pr'"
    proof cases
      case 1
      then obtain r pr1 where r: "parse_power (advance ?pr) = Some (r, pr1)" "term_loop (x * r) pr1 = Some (v, pr')"
        using p by (auto simp: term_loop.simps [of x pr0] Let_def split: Option.bind_splits)
      have "err pr1" using 4(1) [OF refl 1, rule_format, OF _ r(1)] e by simp
      then show ?thesis using 4(2) [OF refl 1 r(1) refl, rule_format, OF _ r(2)] by simp
    next
      case 2
      then obtain r pr1 where r: "parse_power (advance ?pr) = Some (r, pr1)"
        "if r = 0 then (v, pr') = (0, fail pr1) else \<exists>q. sdiv32 x r = Some q \<and> term_loop q pr1 = Some (v, pr')"
        using p by (auto simp: term_loop.simps [of x pr0] Let_def split: Option.bind_splits if_splits)
      have "err pr1" using 4(3) [OF refl 2, rule_format, OF _ r(1)] e by simp
      then show ?thesis
        using r(2) 4(4) [OF refl 2 r(1) refl, rule_format] by (auto split: if_splits)
    next
      case 3
      then show ?thesis using p e by (auto simp: term_loop.simps [of x pr0] Let_def)
    qed
  qed
next
  case (5 pr)
  show ?case
  proof (intro allI impI)
    fix v pr'
    assume e: "err pr" and p: "parse_expr pr = Some (v, pr')"
    then obtain r pr1 where r: "parse_term pr = Some (r, pr1)" "expr_loop r pr1 = Some (v, pr')"
      by (auto simp: parse_expr.simps [of pr] split: Option.bind_splits)
    then show "err pr'" using 5(1) [rule_format, OF e] 5(2) [OF r(1) refl, rule_format] by blast
  qed
next
  case (6 x pr0)
  show ?case
  proof (intro allI impI)
    fix v pr'
    assume e: "err pr0" and p: "expr_loop x pr0 = Some (v, pr')"
    let ?pr = "skip_spaces pr0"
    consider "peek ?pr = CHR ''+''" | "peek ?pr \<noteq> CHR ''+''" "peek ?pr = CHR ''-''"
      | "peek ?pr \<noteq> CHR ''+''" "peek ?pr \<noteq> CHR ''-''" by blast
    then show "err pr'"
    proof cases
      case 1
      then obtain r pr1 where r: "parse_term (advance ?pr) = Some (r, pr1)" "expr_loop (x + r) pr1 = Some (v, pr')"
        using p by (auto simp: expr_loop.simps [of x pr0] Let_def split: Option.bind_splits)
      have "err pr1" using 6(1) [OF refl 1, rule_format, OF _ r(1)] e by simp
      then show ?thesis using 6(2) [OF refl 1 r(1) refl, rule_format, OF _ r(2)] by simp
    next
      case 2
      then obtain r pr1 where r: "parse_term (advance ?pr) = Some (r, pr1)" "expr_loop (x - r) pr1 = Some (v, pr')"
        using p by (auto simp: expr_loop.simps [of x pr0] Let_def split: Option.bind_splits)
      have "err pr1" using 6(3) [OF refl 2, rule_format, OF _ r(1)] e by simp
      then show ?thesis using 6(4) [OF refl 2 r(1) refl, rule_format, OF _ r(2)] by simp
    next
      case 3
      then show ?thesis using p e by (auto simp: expr_loop.simps [of x pr0] Let_def)
    qed
  qed
qed

section \<open>Expressions and how they print\<close>

datatype aexp = Num u32 | Neg aexp | Add aexp aexp | Sub aexp aexp | Mul aexp aexp | Div aexp aexp | Pow aexp aexp

text \<open>The value of an expression in 32-bit arithmetic; \<open>None\<close> for a division by zero or
  a division that overflows, and for a negative exponent.\<close>

fun eval :: "aexp \<Rightarrow> u32 option" where
  "eval (Num n) = Some n"
| "eval (Neg a) = map_option uminus (eval a)"
| "eval (Add a b) = do { x \<leftarrow> eval a; y \<leftarrow> eval b; Some (x + y) }"
| "eval (Sub a b) = do { x \<leftarrow> eval a; y \<leftarrow> eval b; Some (x - y) }"
| "eval (Mul a b) = do { x \<leftarrow> eval a; y \<leftarrow> eval b; Some (x * y) }"
| "eval (Div a b) = do { x \<leftarrow> eval a; y \<leftarrow> eval b; if y = 0 then None else sdiv32 x y }"
| "eval (Pow a b) = do { x \<leftarrow> eval a; y \<leftarrow> eval b; if sint y < 0 then None else Some (x ^ unat y) }"

definition paren :: "bool \<Rightarrow> cstring \<Rightarrow> cstring" where
  "paren b s = (if b then CHR ''('' # s @ [CHR '')''] else s)"

text \<open>Printing with the fewest parentheses: levels 0 (sum), 1 (product), 2 (power), 3 (factor).\<close>

fun print :: "nat \<Rightarrow> aexp \<Rightarrow> cstring" where
  "print l (Num n) = uint_text n"
| "print l (Neg a) = CHR ''-'' # print 3 a"
| "print l (Add a b) = paren (l > 0) (print 0 a @ CHR ''+'' # print 1 b)"
| "print l (Sub a b) = paren (l > 0) (print 0 a @ CHR ''-'' # print 1 b)"
| "print l (Mul a b) = paren (l > 1) (print 1 a @ CHR ''*'' # print 2 b)"
| "print l (Div a b) = paren (l > 1) (print 1 a @ CHR ''/'' # print 2 b)"
| "print l (Pow a b) = paren (l > 2) (print 3 a @ CHR ''^'' # print 2 b)"

section \<open>Parsing what was printed\<close>

definition stops :: "cstring \<Rightarrow> cstring \<Rightarrow> bool" where
  "stops cs rest \<longleftrightarrow> rest = [] \<or> hd rest \<in> set cs"

abbreviation at :: "cstring \<Rightarrow> bool \<Rightarrow> calc_parser" where
  "at s e \<equiv> \<lparr>pos = s, err = e\<rparr>"

lemma skip_at: "stops '')+-*/^'' s \<Longrightarrow> skip_spaces (at s e) = at s e"
  by (cases s) (auto simp: stops_def skip_spaces_def)

lemma peek_at [simp]: "peek (at [] e) = NUL" "peek (at (c # s) e) = c"
  by (simp_all add: peek_def)

lemma advance_at [simp]: "advance (at (c # s) e) = at s e"
  by (simp add: advance_def)

definition erring :: "'a run \<Rightarrow> bool" where
  "erring out \<longleftrightarrow> (\<forall>v pr'. out = Some (v, pr') \<longrightarrow> err pr')"

definition agrees :: "u32 run \<Rightarrow> u32 option \<Rightarrow> (u32 \<Rightarrow> u32 run) \<Rightarrow> bool" where
  "agrees out val k \<longleftrightarrow> (case val of Some v \<Rightarrow> out = k v | None \<Rightarrow> erring out)"

lemma erring_sticky:
  "err pr \<Longrightarrow> erring (term_loop v pr)" "err pr \<Longrightarrow> erring (expr_loop v pr)"
  unfolding erring_def using err_sticky(4) [of pr v] err_sticky(6) [of pr v] by blast+

lemma erring_bind:
  "erring m \<Longrightarrow> (\<And>v pr. err pr \<Longrightarrow> erring (k (v, pr))) \<Longrightarrow> erring (m \<bind> k)"
  by (cases m) (auto simp: erring_def)

lemma term_stops: "stops '')+-'' s \<Longrightarrow> term_loop v (at s e) = Some (v, at s e)"
  by (subst term_loop.simps, cases s) (auto simp: stops_def skip_at Let_def)

lemma expr_stops: "stops '')'' s \<Longrightarrow> expr_loop v (at s e) = Some (v, at s e)"
  by (subst expr_loop.simps, cases s) (auto simp: stops_def skip_at Let_def)

lemma number_loop_digits:
  "(\<forall>c \<in> set ds. is_digit c) \<Longrightarrow> stops '')+-*/^'' rest \<Longrightarrow>
   number_loop v (ds @ rest) = (v * 10 ^ length ds + of_nat (dec_value ds), rest)"
proof (induction ds arbitrary: v)
  case Nil
  then show ?case by (cases rest) (auto simp: stops_def is_digit_def dec_value_def)
next
  case (Cons d ds)
  have "dec_value (d # ds) = char_digit d * 10 ^ length ds + dec_value ds"
    using foldl_dec_shift [of "char_digit d" ds] by (simp add: dec_value_def)
  with Cons show ?case by (simp add: algebra_simps)
qed

text \<open>What it means that a parsing function reads a string as a value.\<close>

definition reads_factor :: "cstring \<Rightarrow> u32 option \<Rightarrow> bool" where
  "reads_factor s val \<longleftrightarrow> (\<forall>rest e. stops '')+-*/^'' rest \<longrightarrow>
     agrees (parse_factor (at (s @ rest) e)) val (\<lambda>v. Some (v, at rest e)))"

definition reads_power :: "cstring \<Rightarrow> u32 option \<Rightarrow> bool" where
  "reads_power s val \<longleftrightarrow> (\<forall>rest e. stops '')+-*/'' rest \<longrightarrow>
     agrees (parse_power (at (s @ rest) e)) val (\<lambda>v. Some (v, at rest e)))"

definition reads_term :: "cstring \<Rightarrow> u32 option \<Rightarrow> bool" where
  "reads_term s val \<longleftrightarrow> (\<forall>rest e. stops '')+-*/'' rest \<longrightarrow>
     agrees (parse_term (at (s @ rest) e)) val (\<lambda>v. term_loop v (at rest e)))"

definition reads_expr :: "cstring \<Rightarrow> u32 option \<Rightarrow> bool" where
  "reads_expr s val \<longleftrightarrow> (\<forall>rest e. stops '')+-'' rest \<longrightarrow>
     agrees (parse_expr (at (s @ rest) e)) val (\<lambda>v. expr_loop v (at rest e)))"

lemma stops_mono: "stops cs s \<Longrightarrow> set cs \<subseteq> set ds \<Longrightarrow> stops ds s"
  by (auto simp: stops_def)

lemma stops_Cons [simp]: "stops cs (c # s) \<longleftrightarrow> c \<in> set cs"
  by (simp add: stops_def)

lemma erring_Some [simp]: "erring (Some (v, pr)) \<longleftrightarrow> err pr"
  by (auto simp: erring_def)

lemma agrees_bind:
  assumes "agrees m val (\<lambda>v. Some (v, pr))"
    and "\<And>v. val = Some v \<Longrightarrow> agrees (k (v, pr)) (g v) c"
    and "\<And>v pr. err pr \<Longrightarrow> erring (k (v, pr))"
  shows "agrees (m \<bind> k) (val \<bind> g) c"
  using assms by (cases val) (auto simp: agrees_def intro: erring_bind)

text \<open>\<open>parse_power\<close> after its first factor.\<close>

definition power_tail :: "u32 \<times> calc_parser \<Rightarrow> u32 run" where
  "power_tail = (\<lambda>(base, pr). if peek (skip_spaces pr) = CHR ''^''
     then parse_power (advance (skip_spaces pr)) \<bind> (\<lambda>(expo, pr). Some (ipow base expo pr))
     else Some (base, skip_spaces pr))"

lemma parse_power_eq: "parse_power pr = parse_factor pr \<bind> power_tail"
  by (subst parse_power.simps) (simp add: power_tail_def Let_def)

lemma erring_power: "err pr \<Longrightarrow> erring (parse_power pr)" "err pr \<Longrightarrow> erring (parse_term pr)"
  unfolding erring_def using err_sticky(2) [of pr] err_sticky(3) [of pr] by blast+

lemma erring_ipow: "err pr \<Longrightarrow> erring (Some (ipow b e pr))"
  by (simp add: ipow_def)

lemma erring_power_tail: "err pr \<Longrightarrow> erring (power_tail (v, pr))"
  by (auto simp: power_tail_def intro!: erring_bind erring_power erring_ipow)

lemma reads_factor_power:
  assumes "reads_factor s val"
  shows "reads_power s val"
  unfolding reads_power_def
proof (intro allI impI)
  fix rest e
  assume st: "stops '')+-*/'' rest"
  have st': "stops '')+-*/^'' rest" using st by (rule stops_mono) auto
  have "peek (at rest e) \<noteq> CHR ''^''" using st by (cases rest) auto
  then have tail: "power_tail (v, at rest e) = Some (v, at rest e)" for v
    by (simp add: power_tail_def skip_at [OF st'])
  have "agrees (parse_factor (at (s @ rest) e) \<bind> power_tail) (val \<bind> Some) (\<lambda>v. Some (v, at rest e))"
    using assms st' by (intro agrees_bind) (auto simp: reads_factor_def agrees_def tail erring_power_tail)
  then show "agrees (parse_power (at (s @ rest) e)) val (\<lambda>v. Some (v, at rest e))"
    by (simp add: parse_power_eq)
qed

lemma reads_power_term:
  assumes "reads_power s val"
  shows "reads_term s val"
  unfolding reads_term_def
proof (intro allI impI)
  fix rest e
  assume st: "stops '')+-*/'' rest"
  have "agrees (parse_power (at (s @ rest) e) \<bind> (\<lambda>(v, pr). term_loop v pr)) (val \<bind> Some)
      (\<lambda>v. term_loop v (at rest e))"
    using assms st by (intro agrees_bind) (auto simp: reads_power_def agrees_def erring_sticky)
  then show "agrees (parse_term (at (s @ rest) e)) val (\<lambda>v. term_loop v (at rest e))"
    by (simp add: parse_term.simps)
qed

lemma reads_term_at:
  assumes "reads_term s val" "stops '')+-'' rest"
  shows "agrees (parse_term (at (s @ rest) e)) val (\<lambda>v. Some (v, at rest e))"
proof -
  have "stops '')+-*/'' rest" using assms(2) by (rule stops_mono) auto
  with assms show ?thesis by (auto simp: reads_term_def agrees_def term_stops split: option.splits)
qed

lemma reads_term_expr:
  assumes "reads_term s val"
  shows "reads_expr s val"
  unfolding reads_expr_def
proof (intro allI impI)
  fix rest e
  assume st: "stops '')+-'' rest"
  have "agrees (parse_term (at (s @ rest) e) \<bind> (\<lambda>(v, pr). expr_loop v pr)) (val \<bind> Some)
      (\<lambda>v. expr_loop v (at rest e))"
    using reads_term_at [OF assms st] by (intro agrees_bind) (auto simp: agrees_def erring_sticky)
  then show "agrees (parse_expr (at (s @ rest) e)) val (\<lambda>v. expr_loop v (at rest e))"
    by (simp add: parse_expr.simps)
qed

lemma reads_paren:
  assumes "reads_expr s val"
  shows "reads_factor (CHR ''('' # s @ [CHR '')'']) val"
  unfolding reads_factor_def
proof (intro allI impI)
  fix rest e
  let ?k = "\<lambda>(v, pr). if peek (skip_spaces pr) \<noteq> CHR '')'' then Some (0 :: u32, fail (skip_spaces pr))
    else Some (v, advance (skip_spaces pr))"
  have sp: "skip_spaces (at (CHR ''('' # t) e) = at (CHR ''('' # t) e" for t by (simp add: skip_spaces_def)
  have "agrees (parse_expr (at (s @ CHR '')'' # rest) e)) val (\<lambda>v. expr_loop v (at (CHR '')'' # rest) e))"
    using assms by (simp add: reads_expr_def)
  then have "agrees (parse_expr (at (s @ CHR '')'' # rest) e) \<bind> ?k) (val \<bind> Some) (\<lambda>v. Some (v, at rest e))"
    by (intro agrees_bind [where pr = "at (CHR '')'' # rest) e"]) (auto simp: expr_stops agrees_def skip_at)
  then show "agrees (parse_factor (at ((CHR ''('' # s @ [CHR '')'']) @ rest) e)) val (\<lambda>v. Some (v, at rest e))"
    by (subst parse_factor.simps) (simp add: sp Let_def)
qed

lemma skip_not_space: "c \<noteq> CHR '' '' \<Longrightarrow> c \<noteq> CHR 0x09 \<Longrightarrow> skip_spaces (at (c # s) e) = at (c # s) e"
  by (simp add: skip_spaces_def)

lemma reads_Num: "reads_factor (uint_text n) (Some n)"
  unfolding reads_factor_def
proof (intro allI impI)
  fix rest e
  assume st: "stops '')+-*/^'' rest"
  obtain d ds where ds: "uint_text n = d # ds" using uint_text_nonempty by (cases "uint_text n") auto
  have dig: "is_digit d" "\<forall>c \<in> set (d # ds). is_digit c"
    using uint_text_digits [of n] ds by (auto simp: list_all_iff)
  have "skip_spaces (at (d # t) e) = at (d # t) e" for t
    using dig(1) by (intro skip_not_space) (auto simp: is_digit_def)
  moreover have "d \<noteq> CHR ''-''" "d \<noteq> CHR ''+''" "d \<noteq> CHR ''(''" using dig(1) by (auto simp: is_digit_def)
  moreover have "number_loop 0 (d # ds @ rest) = (n, rest)"
    using number_loop_digits [OF dig(2) st, of 0] uint_text_value [of n] ds by simp
  ultimately show "agrees (parse_factor (at (uint_text n @ rest) e)) (Some n) (\<lambda>v. Some (v, at rest e))"
    using dig(1) by (subst parse_factor.simps) (simp add: ds agrees_def Let_def)
qed

lemma reads_Neg:
  assumes "reads_factor s val"
  shows "reads_factor (CHR ''-'' # s) (map_option uminus val)"
  unfolding reads_factor_def
proof (intro allI impI)
  fix rest e
  assume st: "stops '')+-*/^'' rest"
  have "agrees (parse_factor (at (s @ rest) e) \<bind> (\<lambda>(v, pr). Some (- v, pr))) (val \<bind> (\<lambda>v. Some (- v)))
      (\<lambda>v. Some (v, at rest e))"
    using assms st by (intro agrees_bind) (auto simp: reads_factor_def agrees_def)
  then show "agrees (parse_factor (at ((CHR ''-'' # s) @ rest) e)) (map_option uminus val) (\<lambda>v. Some (v, at rest e))"
    by (subst parse_factor.simps) (simp add: skip_not_space Let_def map_conv_bind_option comp_def)
qed

lemma agrees_trans:
  assumes "agrees out val F" "\<And>v. agrees (F v) (g v) c"
  shows "agrees out (val \<bind> g) c"
  using assms by (cases val) (auto simp: agrees_def)

text \<open>A sum or a product is read by one more round of the loop behind its left operand.\<close>

lemma reads_sum:
  assumes s: "reads_expr s a" and t: "reads_term t b"
    and c: "c \<in> {CHR ''+'', CHR ''-''}" and f: "f = (if c = CHR ''+'' then (+) else (-))"
  shows "reads_expr (s @ c # t) (do { x \<leftarrow> a; y \<leftarrow> b; Some (f x y) })"
  unfolding reads_expr_def
proof (intro allI impI)
  fix rest e
  assume st: "stops '')+-'' rest"
  have "agrees (parse_expr (at (s @ c # t @ rest) e)) a (\<lambda>x. expr_loop x (at (c # t @ rest) e))"
    using s c by (auto simp: reads_expr_def)
  moreover have "agrees (expr_loop x (at (c # t @ rest) e)) (do { y \<leftarrow> b; Some (f x y) })
      (\<lambda>v. expr_loop v (at rest e))" for x
  proof -
    have "expr_loop x (at (c # t @ rest) e) =
        parse_term (at (t @ rest) e) \<bind> (\<lambda>(rhs, pr). expr_loop (f x rhs) pr)"
      using c f by (subst expr_loop.simps) (auto simp: skip_not_space Let_def)
    moreover have "agrees (parse_term (at (t @ rest) e) \<bind> (\<lambda>(rhs, pr). expr_loop (f x rhs) pr))
        (do { y \<leftarrow> b; Some (f x y) }) (\<lambda>v. expr_loop v (at rest e))"
      using reads_term_at [OF t st] by (intro agrees_bind) (auto simp: agrees_def erring_sticky)
    ultimately show ?thesis by simp
  qed
  ultimately show "agrees (parse_expr (at ((s @ c # t) @ rest) e)) (do { x \<leftarrow> a; y \<leftarrow> b; Some (f x y) })
      (\<lambda>v. expr_loop v (at rest e))"
    using agrees_trans by simp
qed

lemma reads_Mul:
  assumes s: "reads_term s a" and t: "reads_power t b"
  shows "reads_term (s @ CHR ''*'' # t) (do { x \<leftarrow> a; y \<leftarrow> b; Some (x * y) })"
  unfolding reads_term_def
proof (intro allI impI)
  fix rest e
  assume st: "stops '')+-*/'' rest"
  have "agrees (parse_term (at (s @ CHR ''*'' # t @ rest) e)) a (\<lambda>x. term_loop x (at (CHR ''*'' # t @ rest) e))"
    using s by (simp add: reads_term_def)
  moreover have "agrees (term_loop x (at (CHR ''*'' # t @ rest) e)) (do { y \<leftarrow> b; Some (x * y) })
      (\<lambda>v. term_loop v (at rest e))" for x
  proof -
    have "agrees (parse_power (at (t @ rest) e) \<bind> (\<lambda>(rhs, pr). term_loop (x * rhs) pr))
        (do { y \<leftarrow> b; Some (x * y) }) (\<lambda>v. term_loop v (at rest e))"
      using t st by (intro agrees_bind) (auto simp: reads_power_def agrees_def erring_sticky)
    then show ?thesis by (subst term_loop.simps) (simp add: skip_not_space Let_def)
  qed
  ultimately show "agrees (parse_term (at ((s @ CHR ''*'' # t) @ rest) e)) (do { x \<leftarrow> a; y \<leftarrow> b; Some (x * y) })
      (\<lambda>v. term_loop v (at rest e))"
    using agrees_trans by simp
qed

lemma reads_Div:
  assumes s: "reads_term s a" and t: "reads_power t b"
  shows "reads_term (s @ CHR ''/'' # t) (do { x \<leftarrow> a; y \<leftarrow> b; if y = 0 then None else sdiv32 x y })"
  unfolding reads_term_def
proof (intro allI impI)
  fix rest e
  assume st: "stops '')+-*/'' rest"
  let ?k = "\<lambda>x (rhs, pr). if rhs = 0 then Some (0, fail pr) else sdiv32 x rhs \<bind> (\<lambda>q. term_loop q pr)"
  have "agrees (parse_term (at (s @ CHR ''/'' # t @ rest) e)) a (\<lambda>x. term_loop x (at (CHR ''/'' # t @ rest) e))"
    using s by (simp add: reads_term_def)
  moreover have "agrees (term_loop x (at (CHR ''/'' # t @ rest) e))
      (do { y \<leftarrow> b; if y = 0 then None else sdiv32 x y }) (\<lambda>v. term_loop v (at rest e))" for x
  proof -
    have "erring (sdiv32 x r \<bind> (\<lambda>q. term_loop q pr))" if "err pr" for r pr
      using that erring_sticky(1) by (cases "sdiv32 x r") (auto simp: erring_def)
    moreover have "agrees (sdiv32 x y \<bind> (\<lambda>q. term_loop q (at rest e))) (sdiv32 x y) (\<lambda>v. term_loop v (at rest e))" for y
      by (cases "sdiv32 x y") (auto simp: agrees_def erring_def)
    ultimately have "agrees (parse_power (at (t @ rest) e) \<bind> ?k x)
        (do { y \<leftarrow> b; if y = 0 then None else sdiv32 x y }) (\<lambda>v. term_loop v (at rest e))"
      using t st by (intro agrees_bind [where pr = "at rest e"]) (auto simp: reads_power_def, simp add: agrees_def)
    then show ?thesis by (subst term_loop.simps) (simp add: skip_not_space Let_def)
  qed
  ultimately show "agrees (parse_term (at ((s @ CHR ''/'' # t) @ rest) e))
      (do { x \<leftarrow> a; y \<leftarrow> b; if y = 0 then None else sdiv32 x y }) (\<lambda>v. term_loop v (at rest e))"
    using agrees_trans by simp
qed

lemma reads_Pow:
  assumes s: "reads_factor s a" and t: "reads_power t b"
  shows "reads_power (s @ CHR ''^'' # t)
    (do { x \<leftarrow> a; y \<leftarrow> b; if sint y < 0 then None else Some (x ^ unat y) })"
  unfolding reads_power_def
proof (intro allI impI)
  fix rest e
  assume st: "stops '')+-*/'' rest"
  have tail: "agrees (power_tail (x, at (CHR ''^'' # t @ rest) e))
      (do { y \<leftarrow> b; if sint y < 0 then None else Some (x ^ unat y) }) (\<lambda>v. Some (v, at rest e))" for x
  proof -
    have "agrees (Some (ipow x y (at rest e))) (if sint y < 0 then None else Some (x ^ unat y))
        (\<lambda>v. Some (v, at rest e))" for y
      using ipow_loop_power [of y x 1] by (simp add: agrees_def ipow_def)
    then have "agrees (parse_power (at (t @ rest) e) \<bind> (\<lambda>(y, pr). Some (ipow x y pr)))
        (do { y \<leftarrow> b; if sint y < 0 then None else Some (x ^ unat y) }) (\<lambda>v. Some (v, at rest e))"
      using t st by (intro agrees_bind [where pr = "at rest e"]) (auto simp: reads_power_def intro: erring_ipow)
    then show ?thesis by (simp add: power_tail_def skip_not_space)
  qed
  have "agrees (parse_factor (at (s @ CHR ''^'' # t @ rest) e)) a (\<lambda>v. Some (v, at (CHR ''^'' # t @ rest) e))"
    using s by (simp add: reads_factor_def)
  then have "agrees (parse_factor (at (s @ CHR ''^'' # t @ rest) e) \<bind> power_tail)
      (do { x \<leftarrow> a; y \<leftarrow> b; if sint y < 0 then None else Some (x ^ unat y) }) (\<lambda>v. Some (v, at rest e))"
    by (rule agrees_bind) (simp_all add: tail erring_power_tail)
  then show "agrees (parse_power (at ((s @ CHR ''^'' # t) @ rest) e))
      (do { x \<leftarrow> a; y \<leftarrow> b; if sint y < 0 then None else Some (x ^ unat y) }) (\<lambda>v. Some (v, at rest e))"
    by (simp add: parse_power_eq)
qed

lemmas reads_up = reads_factor_power reads_power_term reads_term_expr

lemma paren_False [simp]: "paren False s = s"
  by (simp add: paren_def)

lemma reads_closed:
  assumes "reads_expr s val"
  shows "reads_factor (paren True s) val \<and> reads_power (paren True s) val \<and> reads_term (paren True s) val"
  using reads_paren [OF assms] reads_up by (simp add: paren_def)

lemma print_reads:
  "reads_factor (print 3 e) (eval e) \<and> reads_power (print 2 e) (eval e)
   \<and> reads_term (print 1 e) (eval e) \<and> reads_expr (print 0 e) (eval e)"
proof (induction e)
  case (Num n)
  then show ?case using reads_Num [of n] reads_up by simp
next
  case (Neg e)
  then show ?case using reads_Neg [of "print 3 e" "eval e"] reads_up by simp
next
  case (Add a b)
  then have "reads_expr (print 0 (Add a b)) (eval (Add a b))"
    using reads_sum [of "print 0 a" "eval a" "print 1 b" "eval b" "CHR ''+''"] by simp
  then show ?case using reads_closed reads_up by (simp del: One_nat_def)
next
  case (Sub a b)
  then have "reads_expr (print 0 (Sub a b)) (eval (Sub a b))"
    using reads_sum [of "print 0 a" "eval a" "print 1 b" "eval b" "CHR ''-''"] by simp
  then show ?case using reads_closed reads_up by (simp del: One_nat_def)
next
  case (Mul a b)
  then have "reads_term (print 1 (Mul a b)) (eval (Mul a b))"
    using reads_Mul [of "print 1 a" "eval a" "print 2 b" "eval b"] by simp
  then show ?case using reads_closed reads_up by (simp del: One_nat_def)
next
  case (Div a b)
  then have "reads_term (print 1 (Div a b)) (eval (Div a b))"
    using reads_Div [of "print 1 a" "eval a" "print 2 b" "eval b"] by simp
  then show ?case using reads_closed reads_up by (simp del: One_nat_def)
next
  case (Pow a b)
  then have "reads_power (print 2 (Pow a b)) (eval (Pow a b))"
    using reads_Pow [of "print 3 a" "eval a" "print 2 b" "eval b"] by simp
  then show ?case using reads_closed reads_up by (simp del: One_nat_def)
qed

lemma skip_end: "skip_spaces (at [] e) = at [] e"
  by (simp add: skip_spaces_def)

lemma calc_eval_print: "calc_eval (print 0 e) = Some (v, False) \<longleftrightarrow> eval e = Some v"
proof -
  have "agrees (parse_expr (at (print 0 e) False)) (eval e) (\<lambda>v. Some (v, at [] False))"
    using print_reads [of e] expr_stops [of "[]"] unfolding reads_expr_def
    by (auto simp: stops_def agrees_def split: option.splits dest: spec [of _ "[]"])
  then show ?thesis
    by (cases "eval e") (auto simp: calc_eval_def agrees_def erring_def skip_end Let_def
        split: Option.bind_splits if_splits)
qed

section \<open>Properties\<close>

text \<open>C8. The calculator is correct: for every expression over numbers, unary minus,
  the five operators and parentheses, printed with the fewest parentheses that the
  precedences and the right-associative power allow, \<open>calc_eval\<close> reports the value \<open>v\<close>
  without an error exactly when the expression has the value \<open>v\<close> in 32-bit arithmetic;
  a division by zero, an overflowing division or a negative exponent anywhere in it is
  never reported as a success.\<close>

theorem calc_eval_correct: "calc_eval (print 0 e) = Some (v, False) \<longleftrightarrow> eval e = Some v"
  by (rule calc_eval_print)

text \<open>Dividing the least 32-bit value by -1 is not caught by the division-by-zero
  test: the division faults and \<open>calc_eval\<close> does not return.\<close>

theorem calc_eval_faults: "calc_eval ''2147483648/(-1)'' = None"
  by code_simp

end
