(* ===== verification/Stores.thy ===== *)
theory Stores
  imports Prelude
begin

text \<open>
  The interface of a named store: a component that keeps values under names, with a
  \<open>put\<close> that may refuse and a \<open>get\<close>. The RAM file system (files of the current
  directory), the FAT32 root directory and the variable table of the script language
  provide it; what their clients rely on is proved here once.
\<close>

locale named_store =
  fixes invar :: "'s \<Rightarrow> bool"
    and put :: "'k \<Rightarrow> 'v \<Rightarrow> 's \<Rightarrow> 's option"
    and get :: "'k \<Rightarrow> 's \<Rightarrow> 'v option"
  assumes put_invar: "invar s \<Longrightarrow> put k v s = Some s' \<Longrightarrow> invar s'"
    and get_put: "invar s \<Longrightarrow> put k v s = Some s' \<Longrightarrow>
      get k' s' = (if k' = k then Some v else get k' s)"
begin

lemma get_put_same: "invar s \<Longrightarrow> put k v s = Some s' \<Longrightarrow> get k s' = Some v"
  by (simp add: get_put)

lemma get_put_other: "invar s \<Longrightarrow> put k v s = Some s' \<Longrightarrow> k' \<noteq> k \<Longrightarrow> get k' s' = get k' s"
  by (simp add: get_put)

text \<open>A sequence of stores, stopping at the first refusal.\<close>

fun put_all :: "('k \<times> 'v) list \<Rightarrow> 's \<Rightarrow> 's option" where
  "put_all [] s = Some s"
| "put_all ((k, v) # kvs) s = (case put k v s of None \<Rightarrow> None | Some s' \<Rightarrow> put_all kvs s')"

lemma put_all_invar: "invar s \<Longrightarrow> put_all kvs s = Some s' \<Longrightarrow> invar s'"
  by (induction kvs s rule: put_all.induct) (auto split: option.splits intro: put_invar)

text \<open>The last value stored under a name is the one read.\<close>

lemma get_put_all:
  "invar s \<Longrightarrow> put_all kvs s = Some s' \<Longrightarrow>
   get k s' = (case map_of (rev kvs) k of Some v \<Rightarrow> Some v | None \<Rightarrow> get k s)"
proof (induction kvs s rule: put_all.induct)
  case (2 k' v kvs s)
  then obtain s1 where s1: "put k' v s = Some s1" "put_all kvs s1 = Some s'"
    by (auto split: option.splits)
  with "2.prems" have "get k s' = (case map_of (rev kvs) k of Some v \<Rightarrow> Some v | None \<Rightarrow> get k s1)"
    by (intro "2.IH") (auto intro: put_invar)
  with s1 "2.prems"(1) show ?case
    by (auto simp: map_add_def get_put split: option.splits)
qed simp

end

end
