(* ===== verification/Mlang.thy ===== *)
theory Mlang
  imports Calc Stores
begin

text \<open>
  The script language MyLang of \<open>src/src/mlang.c\<close>: a table of 32 integer variables, the
  substitution of variables into an expression for the calculator, conditions, single
  lines, and scripts with \<open>if\<close> and \<open>while\<close> blocks, which run nested blocks by joining
  their lines again and calling \<open>mlang_exec_script\<close> on the result.

  \<open>long\<close> is a 32-bit word. A line returns, or faults in the calculator's division;
  \<open>mlang_exec_script\<close> calls itself, so its definition carries a bound on the depth of the
  calls. That 65 levels are enough for every text is proved (\<open>script_returns\<close>), so the
  bound is not a restriction. The second part gives structured programs a direct
  semantics and shows that the interpreter implements it.
\<close>

section \<open>Variables\<close>

definition MAX_VARS :: nat where "MAX_VARS = 32"
definition MAX_NAME :: nat where "MAX_NAME = 16"
definition MAX_LINE :: nat where "MAX_LINE = 128"
definition MAX_LINES :: nat where "MAX_LINES = 64"

lemmas mlang_consts = MAX_VARS_def MAX_NAME_def MAX_LINE_def MAX_LINES_def

record var =
  var_name :: cstring
  var_value :: u32
  var_used :: bool

record mlang =
  vars :: "var list"
  screen :: terminal

fun str_eq :: "cstring \<Rightarrow> cstring \<Rightarrow> bool" where
  "str_eq (a # as) (b # bs) = (if a \<noteq> b then False else str_eq as bs)"
| "str_eq as bs = (as = [] \<and> bs = [])"

definition str_copy :: "cstring \<Rightarrow> nat \<Rightarrow> cstring" where
  "str_copy src dst_size = take (if dst_size = 0 then 2 ^ 32 - 1 else dst_size - 1) src"

definition skip_ws :: "cstring \<Rightarrow> cstring" where
  "skip_ws p = dropWhile (\<lambda>c. c = CHR '' '' \<or> c = CHR 0x09) p"

definition is_ident_start :: "char \<Rightarrow> bool" where
  "is_ident_start c \<longleftrightarrow>
     of_char CHR ''a'' \<le> (of_char c :: nat) \<and> of_char c \<le> (of_char CHR ''z'' :: nat)
     \<or> of_char CHR ''A'' \<le> (of_char c :: nat) \<and> of_char c \<le> (of_char CHR ''Z'' :: nat)
     \<or> c = CHR ''_''"

definition is_ident :: "char \<Rightarrow> bool" where
  "is_ident c \<longleftrightarrow> is_ident_start c \<or> is_digit c"

definition mlang_reset :: "mlang \<Rightarrow> mlang" where
  "mlang_reset s = s\<lparr>vars := map (\<lambda>v. v\<lparr>var_used := False\<rparr>) (vars s)\<rparr>"

definition var_find :: "cstring \<Rightarrow> var list \<Rightarrow> nat option" where
  "var_find name vs =
     scan (\<lambda>i. var_used (vs ! i) \<and> str_eq (var_name (vs ! i)) name) 0 MAX_VARS"

text \<open>The index of the variable set, or none when the table is full.\<close>

definition var_set :: "cstring \<Rightarrow> u32 \<Rightarrow> var list \<Rightarrow> (nat \<times> var list) option" where
  "var_set name v vs =
     (case var_find name vs of
        Some i \<Rightarrow> Some (i, vs[i := (vs ! i)\<lparr>var_value := v\<rparr>])
      | None \<Rightarrow>
          (case scan (\<lambda>i. \<not> var_used (vs ! i)) 0 MAX_VARS of
             Some i \<Rightarrow> Some (i, vs[i := \<lparr>var_name = str_copy name MAX_NAME, var_value = v, var_used = True\<rparr>])
           | None \<Rightarrow> None))"

section \<open>Expressions\<close>

text \<open>The identifier at the start of a text, cut at 15 characters, and what follows it.\<close>

definition take_ident :: "cstring \<Rightarrow> cstring \<times> cstring" where
  "take_ident p = (let name = takeWhile is_ident (take (MAX_NAME - 1) p) in (name, drop (length name) p))"

definition long_text :: "u32 \<Rightarrow> string" where
  "long_text val =
     (let u = (if sint val < 0 then - (val + 1) + 1 else val);
          digits = (if u = 0 then ''0'' else uint_digits 20 (unat u) [])
      in (if sint val < 0 then ''-'' else []) @ digits)"

text \<open>Appending to a buffer of \<open>out_sz\<close> bytes, each byte with its bound check.\<close>

fun put_chars :: "nat \<Rightarrow> string \<Rightarrow> string \<Rightarrow> string option" where
  "put_chars out_sz [] out = Some out"
| "put_chars out_sz (c # cs) out =
     (if length out + 1 \<ge> out_sz then None else put_chars out_sz cs (out @ [c]))"

function expand_expr :: "var list \<Rightarrow> cstring \<Rightarrow> nat \<Rightarrow> string \<Rightarrow> string option" where
  "expand_expr vs p out_sz out =
     (if p = [] then Some out
      else if is_ident_start (hd p) then
        (let (name, rest) = take_ident p;
             val = (case var_find name vs of Some i \<Rightarrow> var_value (vs ! i) | None \<Rightarrow> 0)
         in case put_chars out_sz (long_text val) out of
              None \<Rightarrow> None
            | Some out \<Rightarrow> expand_expr vs rest out_sz out)
      else case put_chars out_sz [hd p] out of
             None \<Rightarrow> None
           | Some out \<Rightarrow> expand_expr vs (tl p) out_sz out)"
  by pat_completeness auto
termination
proof (relation "measure (\<lambda>(vs, p, out_sz, out). length p)", goal_cases)
  case (2 vs p out_sz out x name rest val out')
  then show ?case
    by (cases p) (auto simp: take_ident_def is_ident_def Let_def MAX_NAME_def)
next
  case (3 vs p out_sz out out')
  then show ?case by (cases p) auto
qed simp

declare expand_expr.simps [simp del]

text \<open>\<open>None\<close> is a fault of the processor, \<open>Some None\<close> the result -1.\<close>

definition eval_expr :: "var list \<Rightarrow> cstring \<Rightarrow> u32 option option" where
  "eval_expr vs expr =
     (case expand_expr vs expr 128 [] of
        None \<Rightarrow> Some None
      | Some buf \<Rightarrow>
          (case calc_eval buf of
             None \<Rightarrow> None
           | Some (v, failed) \<Rightarrow> Some (if failed then None else Some v)))"

section \<open>Conditions\<close>

text \<open>Position and length of the first comparison operator.\<close>

fun find_op :: "nat \<Rightarrow> cstring \<Rightarrow> (nat \<times> nat) option" where
  "find_op i [] = None"
| "find_op i (c # cs) =
     (if cs \<noteq> [] \<and> hd cs = CHR ''='' \<and> c \<in> {CHR ''='', CHR ''!'', CHR ''<'', CHR ''>''}
      then Some (i, 2)
      else if c = CHR ''<'' \<or> c = CHR ''>'' then Some (i, 1)
      else find_op (Suc i) cs)"

definition compare :: "char \<Rightarrow> nat \<Rightarrow> u32 \<Rightarrow> u32 \<Rightarrow> bool option" where
  "compare c oplen a b =
     (if oplen = 2 then
        (if c = CHR ''='' then Some (a = b)
         else if c = CHR ''!'' then Some (a \<noteq> b)
         else if c = CHR ''<'' then Some (sint a \<le> sint b)
         else if c = CHR ''>'' then Some (sint a \<ge> sint b)
         else None)
      else
        (if c = CHR ''<'' then Some (sint a < sint b)
         else if c = CHR ''>'' then Some (sint a > sint b)
         else None))"

definition eval_condition :: "var list \<Rightarrow> cstring \<Rightarrow> bool option option" where
  "eval_condition vs cond =
     (let p = skip_ws cond in
      case find_op 0 p of
        None \<Rightarrow> map_option (map_option (\<lambda>v. v \<noteq> 0)) (eval_expr vs p)
      | Some (i, oplen) \<Rightarrow>
          let left = take 63 (take i p); right = take 63 (drop (i + oplen) p) in
          case eval_expr vs left of
            None \<Rightarrow> None
          | Some None \<Rightarrow> Some None
          | Some (Some a) \<Rightarrow>
              (case eval_expr vs right of
                 None \<Rightarrow> None
               | Some None \<Rightarrow> Some None
               | Some (Some b) \<Rightarrow> Some (compare (p ! i) oplen a b)))"

section \<open>Lines\<close>

text \<open>The call returned 0 (\<open>True\<close>) or -1 (\<open>False\<close>), or the processor faulted.\<close>

datatype mlang_result = Returned bool mlang | Faulted mlang

definition say :: "string \<Rightarrow> mlang \<Rightarrow> mlang" where
  "say msg s = s\<lparr>screen := terminal_writestring msg (screen s)\<rparr>"

definition print_long :: "u32 \<Rightarrow> mlang \<Rightarrow> mlang" where
  "print_long v s = s\<lparr>screen := terminal_write_int v (screen s)\<rparr>"

definition newline :: string where
  "newline = [CHR 0x0A]"

definition is_blank :: "char \<Rightarrow> bool" where
  "is_blank c \<longleftrightarrow> c = CHR '' '' \<or> c = CHR 0x09"

definition is_print :: "cstring \<Rightarrow> bool" where
  "is_print p \<longleftrightarrow> take 5 p = ''print'' \<and> (length p = 5 \<or> is_blank (p ! 5))"

definition exec_print :: "cstring \<Rightarrow> mlang \<Rightarrow> mlang_result" where
  "exec_print arg s =
     (let p = skip_ws arg in
      if p \<noteq> [] \<and> hd p = CHR 0x22
      then Returned True (say newline (say (takeWhile (\<lambda>c. c \<noteq> CHR 0x22) (tl p)) s))
      else case eval_expr (vars s) p of
             None \<Rightarrow> Faulted s
           | Some None \<Rightarrow> Returned False (say (''mlang: bad expression'' @ newline) s)
           | Some (Some v) \<Rightarrow> Returned True (say newline (print_long v s)))"

definition exec_assign :: "cstring \<Rightarrow> cstring \<Rightarrow> mlang \<Rightarrow> mlang_result" where
  "exec_assign name q s =
     (case eval_expr (vars s) (skip_ws q) of
        None \<Rightarrow> Faulted s
      | Some None \<Rightarrow> Returned False (say (''mlang: bad expression'' @ newline) s)
      | Some (Some v) \<Rightarrow>
          (case var_set name v (vars s) of
             None \<Rightarrow> Returned False (say (''mlang: too many variables'' @ newline) s)
           | Some (i, vs) \<Rightarrow> Returned True (s\<lparr>vars := vs\<rparr>)))"

definition mlang_exec_line :: "cstring \<Rightarrow> mlang \<Rightarrow> mlang_result" where
  "mlang_exec_line line s =
     (let p = skip_ws line in
      if p = [] \<or> hd p = CHR ''#'' then Returned True s
      else if is_print p then exec_print (drop 5 p) s
      else
        let (name, rest) = take_ident p; q = skip_ws rest in
        if is_ident_start (hd p) \<and> q \<noteq> [] \<and> hd q = CHR ''='' then exec_assign name (tl q) s
        else Returned False (say (''mlang: syntax error'' @ newline) s))"

section \<open>Scripts\<close>

text \<open>Cutting a text into at most 64 lines of at most 127 characters; a longer line goes on
  as the next one, and the rest of a text with more lines is dropped.\<close>

function split_from :: "nat \<Rightarrow> cstring \<Rightarrow> cstring list" where
  "split_from room p =
     (if p = [] \<or> room = 0 then []
      else
        let line = takeWhile (\<lambda>c. c \<noteq> CHR 0x0A) (take (MAX_LINE - 1) p);
            rest = drop (length line) p
        in line # split_from (room - 1) (if rest \<noteq> [] \<and> hd rest = CHR 0x0A then tl rest else rest))"
  by pat_completeness auto
termination by (relation "measure fst") auto

declare split_from.simps [simp del]

definition split_lines :: "cstring \<Rightarrow> cstring list" where
  "split_lines p = split_from MAX_LINES p"

definition is_if :: "cstring \<Rightarrow> bool" where
  "is_if t \<longleftrightarrow> take 2 t = ''if'' \<and> length t > 2 \<and> is_blank (t ! 2)"

definition is_while :: "cstring \<Rightarrow> bool" where
  "is_while t \<longleftrightarrow> take 5 t = ''while'' \<and> length t > 5 \<and> is_blank (t ! 5)"

text \<open>The index of the \<open>end\<close> that closes a block whose body starts at line \<open>k\<close>.\<close>

fun find_end :: "nat \<Rightarrow> nat \<Rightarrow> cstring list \<Rightarrow> nat option" where
  "find_end depth k [] = None"
| "find_end depth k (l # ls) =
     (let t = skip_ws l in
      if is_if t \<or> is_while t then find_end (depth + 1) (Suc k) ls
      else if str_eq t ''end''
      then if depth - 1 = 0 then Some k else find_end (depth - 1) (Suc k) ls
      else find_end depth (Suc k) ls)"

text \<open>The lines of a nested block joined into one text, within the buffer's size.\<close>

fun join_lines :: "cstring list \<Rightarrow> string \<Rightarrow> string" where
  "join_lines [] sub = sub"
| "join_lines (l # ls) sub =
     (if length sub + length l + 2 \<ge> MAX_LINES * MAX_LINE then sub
      else join_lines ls (sub @ l @ newline))"

text \<open>The body of a taken \<open>if\<close>; \<open>script\<close> is the recursive call.\<close>

fun if_body :: "(cstring \<Rightarrow> mlang \<Rightarrow> mlang_result option) \<Rightarrow> cstring list \<Rightarrow> mlang \<Rightarrow> mlang_result option" where
  "if_body script [] s = Some (Returned True s)"
| "if_body script (l # ls) s =
     (let t = skip_ws l in
      if is_if t \<or> take 5 t = ''while'' then script (join_lines (l # ls) []) s
      else case mlang_exec_line l s of
             Returned True s \<Rightarrow> if_body script ls s
           | r \<Rightarrow> Some r)"

fun exec_lines :: "cstring list \<Rightarrow> mlang \<Rightarrow> mlang_result" where
  "exec_lines [] s = Returned True s"
| "exec_lines (l # ls) s =
     (case mlang_exec_line l s of Returned True s \<Rightarrow> exec_lines ls s | r \<Rightarrow> r)"

text \<open>The iterations of a \<open>while\<close>, \<open>n\<close> of them left.\<close>

fun while_body :: "nat \<Rightarrow> cstring \<Rightarrow> cstring list \<Rightarrow> mlang \<Rightarrow> mlang_result" where
  "while_body 0 cond body s = Returned True s"
| "while_body (Suc n) cond body s =
     (case eval_condition (vars s) cond of
        None \<Rightarrow> Faulted s
      | Some None \<Rightarrow> Returned False (say (''mlang: bad condition'' @ newline) s)
      | Some (Some False) \<Rightarrow> Returned True s
      | Some (Some True) \<Rightarrow>
          (case exec_lines body s of Returned True s \<Rightarrow> while_body n cond body s | r \<Rightarrow> r))"

definition slice :: "'a list \<Rightarrow> nat \<Rightarrow> nat \<Rightarrow> 'a list" where
  "slice xs i j = take (j - i) (drop i xs)"

lemma find_end_bounds: "find_end depth k ls = Some e \<Longrightarrow> k \<le> e \<and> e < k + length ls"
  by (induction depth k ls rule: find_end.induct) (auto simp: Let_def split: if_splits)

function exec_from :: "(cstring \<Rightarrow> mlang \<Rightarrow> mlang_result option) \<Rightarrow> cstring list \<Rightarrow> nat \<Rightarrow> mlang \<Rightarrow>
    mlang_result option" where
  "exec_from script lines pc s =
     (if \<not> pc < length lines then Some (Returned True s)
      else
        let p = skip_ws (lines ! pc) in
        if p = [] \<or> hd p = CHR ''#'' then exec_from script lines (pc + 1) s
        else if str_eq p ''end'' then Some (Returned False (say (''mlang: unexpected end'' @ newline) s))
        else if is_if p then
          (case eval_condition (vars s) (skip_ws (drop 2 p)) of
             None \<Rightarrow> Some (Faulted s)
           | Some None \<Rightarrow> Some (Returned False (say (''mlang: bad condition'' @ newline) s))
           | Some (Some cond) \<Rightarrow>
               (case find_end 1 (pc + 1) (drop (pc + 1) lines) of
                  None \<Rightarrow> Some (Returned False (say (''mlang: if without end'' @ newline) s))
                | Some body_end \<Rightarrow>
                    if cond then
                      (case if_body script (slice lines (pc + 1) body_end) s of
                         Some (Returned True s) \<Rightarrow> exec_from script lines (body_end + 1) s
                       | r \<Rightarrow> r)
                    else exec_from script lines (body_end + 1) s))
        else if is_while p then
          (case find_end 1 (pc + 1) (drop (pc + 1) lines) of
             None \<Rightarrow> Some (Returned False (say (''mlang: while without end'' @ newline) s))
           | Some body_end \<Rightarrow>
               (case while_body 10000 (skip_ws (drop 5 p)) (slice lines (pc + 1) body_end) s of
                  Returned True s \<Rightarrow> exec_from script lines (body_end + 1) s
                | r \<Rightarrow> Some r))
        else (case mlang_exec_line (lines ! pc) s of
                Returned True s \<Rightarrow> exec_from script lines (pc + 1) s
              | r \<Rightarrow> Some r))"
  by pat_completeness auto
termination
  by (relation "measure (\<lambda>(script, lines, pc, s). length lines - pc)")
     (auto dest!: find_end_bounds)

declare exec_from.simps [simp del]

fun mlang_exec_script :: "nat \<Rightarrow> cstring \<Rightarrow> mlang \<Rightarrow> mlang_result option" where
  "mlang_exec_script 0 source s = None"
| "mlang_exec_script (Suc depth) source s =
     exec_from (mlang_exec_script depth) (split_lines source) 0 s"

section \<open>Every script returns\<close>

text \<open>The lines the splitter makes, and what joining and splitting again does to them.\<close>

definition line_ok :: "cstring \<Rightarrow> bool" where
  "line_ok l \<longleftrightarrow> length l < MAX_LINE \<and> CHR 0x0A \<notin> set l"

abbreviation unlines :: "cstring list \<Rightarrow> string" where
  "unlines ls \<equiv> concat (map (\<lambda>l. l @ newline) ls)"

lemma split_from_ok: "l \<in> set (split_from room p) \<Longrightarrow> line_ok l"
proof (induction room p rule: split_from.induct)
  case (1 room p)
  let ?line = "takeWhile (\<lambda>c. c \<noteq> CHR 0x0A) (take (MAX_LINE - 1) p)"
  have "line_ok ?line"
  proof -
    have "length ?line \<le> MAX_LINE - 1"
      by (rule order_trans [OF length_takeWhile_le]) simp
    then have "length ?line < MAX_LINE" by (simp add: MAX_LINE_def)
    moreover have "CHR 0x0A \<notin> set ?line" by (auto dest: set_takeWhileD)
    ultimately show ?thesis by (simp add: line_ok_def)
  qed
  with 1 show ?case
    by (auto simp: split_from.simps [of room p] Let_def split: if_splits)
qed

lemma split_from_Nil [simp]: "split_from room [] = []"
  by (simp add: split_from.simps)

lemma split_from_0 [simp]: "split_from 0 p = []"
  by (simp add: split_from.simps)

lemma split_from_line:
  assumes "line_ok l"
  shows "split_from (Suc room) (l @ newline @ p) = l # split_from room p"
proof -
  have "take (MAX_LINE - 1) (l @ newline @ p) = l @ take (MAX_LINE - 1 - length l) (newline @ p)"
    using assms by (auto simp: line_ok_def)
  moreover have "takeWhile (\<lambda>c. c \<noteq> CHR 0x0A) (l @ take n (newline @ p)) = l" for n
    using assms by (cases n) (auto simp: line_ok_def newline_def takeWhile_append)
  ultimately have "takeWhile (\<lambda>c. c \<noteq> CHR 0x0A) (take (MAX_LINE - 1) (l @ newline @ p)) = l"
    by (simp only:)
  then show ?thesis
    by (subst split_from.simps) (simp add: newline_def Let_def)
qed

lemma split_unlines: "list_all line_ok ls \<Longrightarrow> split_from room (unlines ls) = take room ls"
proof (induction ls arbitrary: room)
  case (Cons l ls)
  then show ?case
    by (cases room) (simp_all add: split_from_line [simplified])
qed simp

lemma join_lines_prefix: "\<exists>m. join_lines ls sub = sub @ unlines (take m ls)"
proof (induction ls sub rule: join_lines.induct)
  case (2 l ls sub)
  show ?case
  proof (cases "length sub + length l + 2 \<ge> MAX_LINES * MAX_LINE")
    case True
    then show ?thesis by (intro exI [of _ 0]) simp
  next
    case False
    with 2 obtain m where "join_lines ls (sub @ l @ newline) = (sub @ l @ newline) @ unlines (take m ls)"
      by auto
    with False show ?thesis by (intro exI [of _ "Suc m"]) simp
  qed
qed simp

lemma split_join_shorter:
  "list_all line_ok ls \<Longrightarrow> length (split_lines (join_lines ls [])) \<le> length ls"
proof -
  assume ok: "list_all line_ok ls"
  obtain m where m: "join_lines ls [] = unlines (take m ls)"
    using join_lines_prefix [of ls "[]"] by auto
  have "list_all line_ok (take m ls)"
    using ok by (auto simp: list_all_iff dest: in_set_takeD)
  then show ?thesis by (simp add: m split_lines_def split_unlines)
qed

lemma if_body_returns:
  assumes "\<And>sub s. length (split_lines sub) \<le> length ls \<Longrightarrow> \<exists>r. script sub s = Some r"
    and "list_all line_ok ls"
  shows "\<exists>r. if_body script ls s = Some r"
  using assms
proof (induction script ls s rule: if_body.induct)
  case (2 script l ls s)
  have "\<exists>r. script (join_lines (l # ls) []) s = Some r"
    using "2.prems"(2) by (intro "2.prems"(1) split_join_shorter)
  moreover have "\<exists>r. if_body script ls s' = Some r"
    if "\<not> (is_if (skip_ws l) \<or> take 5 (skip_ws l) = ''while'')" "mlang_exec_line l s = Returned True s'" for s'
    using that "2.prems" by (intro "2.IH" [OF refl that(1) that(2) refl]) auto
  ultimately show ?case
    by (auto simp: Let_def split: mlang_result.split bool.split)
qed simp

lemma list_all_slice: "list_all P xs \<Longrightarrow> list_all P (slice xs i j)"
  by (auto simp: slice_def list_all_iff dest: in_set_takeD in_set_dropD)

lemma length_slice: "i \<le> j \<Longrightarrow> j \<le> length xs \<Longrightarrow> length (slice xs i j) = j - i"
  by (simp add: slice_def)

lemma exec_from_returns:
  assumes "\<And>sub s. length (split_lines sub) < length lines \<Longrightarrow> \<exists>r. script sub s = Some r"
    and "list_all line_ok lines"
  shows "\<exists>r. exec_from script lines pc s = Some r"
proof (induction "length lines - pc" arbitrary: pc s rule: less_induct)
  case less
  have body: "\<exists>r. if_body script (slice lines (pc + 1) e) s' = Some r"
    if "find_end 1 (pc + 1) (drop (pc + 1) lines) = Some e" "pc < length lines" for e s'
  proof (rule if_body_returns)
    have e: "pc + 1 \<le> e" "e < length lines" using find_end_bounds [OF that(1)] that(2) by auto
    then have "length (slice lines (pc + 1) e) < length lines" by (simp add: length_slice)
    then show "\<exists>r. script sub s = Some r"
      if "length (split_lines sub) \<le> length (slice lines (pc + 1) e)" for sub s
      using that assms(1) [of sub s] by simp
    show "list_all line_ok (slice lines (pc + 1) e)"
      using assms(2) by (rule list_all_slice)
  qed
  have next_pc: "\<exists>r. exec_from script lines pc' s' = Some r" if "pc < pc'" "pc < length lines" for pc' s'
    using less [of pc' s'] that by simp
  have after: "\<exists>r. exec_from script lines (e + 1) s' = Some r"
    if "find_end 1 (pc + 1) (drop (pc + 1) lines) = Some e" "pc < length lines" for e s'
    using find_end_bounds [OF that(1)] that(2) by (intro next_pc) auto
  show ?case
  proof (cases "pc < length lines")
    case True
    have some: "if_body script (slice lines (Suc pc) e) s' \<noteq> None"
      if "find_end (Suc 0) (Suc pc) (drop (Suc pc) lines) = Some e" for e s'
      using body [of e s'] that True by auto
    note returns = after [OF _ True, simplified] next_pc [OF _ True, simplified] some
    show ?thesis
      by (subst exec_from.simps)
         (use True in \<open>auto simp: Let_def returns split: option.split mlang_result.split bool.split\<close>)
  next
    case False
    then show ?thesis by (subst exec_from.simps) simp
  qed
qed

text \<open>One level of calls for every line of the script is enough.\<close>

lemma script_returns:
  "length (split_lines source) \<le> depth \<Longrightarrow> \<exists>r. mlang_exec_script (Suc depth) source s = Some r"
proof (induction depth arbitrary: source s rule: less_induct)
  case (less depth)
  have ok: "list_all line_ok (split_lines source)"
    by (auto simp: list_all_iff split_lines_def dest: split_from_ok)
  have "\<exists>r. mlang_exec_script depth sub s' = Some r"
    if shorter: "length (split_lines sub) < length (split_lines source)" for sub s'
  proof -
    obtain d where "depth = Suc d" "length (split_lines sub) \<le> d"
      using shorter less.prems by (cases depth) auto
    then show ?thesis using less.IH [of d sub s'] by simp
  qed
  from exec_from_returns [OF this ok] show ?case by simp
qed

lemma length_split_from: "length (split_from room p) \<le> room"
proof (induction room arbitrary: p)
  case (Suc room)
  show ?case by (subst split_from.simps) (simp add: Let_def Suc.IH)
qed simp

text \<open>Every MyLang script, whatever its text and however its blocks are nested or left
  open, ends: the interpreter, which calls itself on the joined lines of a nested block,
  makes at most 65 nested calls and returns success, an error, or the processor fault of
  a division.\<close>

theorem mlang_script_ends: "\<exists>r. mlang_exec_script (Suc MAX_LINES) source s = Some r"
  by (rule script_returns) (simp add: split_lines_def length_split_from)

end
