(* ===== verification/Mlang_Sem.thy ===== *)
theory Mlang_Sem
  imports Mlang
begin

text \<open>
  What MyLang scripts mean. The variable table is a named store; structured programs (lines,
  \<open>if\<close> blocks nested to any depth, \<open>while\<close> blocks of simple lines) have a direct semantics
  by recursion on the program, and the interpreter of \<open>src/src/mlang.c\<close>, which searches
  for the matching \<open>end\<close> and runs nested blocks on a joined copy of their lines,
  implements it on the text of every such program that fits the 64 lines.
\<close>

section \<open>The variable table is a named store\<close>

lemma mlang_str_eq [simp]: "Mlang.str_eq a b = (a = b)"
  by (induction a b rule: Mlang.str_eq.induct) auto

definition var_put :: "cstring \<Rightarrow> u32 \<Rightarrow> var list \<Rightarrow> var list option" where
  "var_put name v vs = (if length name < MAX_NAME then map_option snd (var_set name v vs) else None)"

definition var_get :: "cstring \<Rightarrow> var list \<Rightarrow> u32 option" where
  "var_get name vs = map_option (\<lambda>i. var_value (vs ! i)) (var_find name vs)"

lemma var_find_SomeD:
  "var_find name vs = Some i \<Longrightarrow> i < MAX_VARS \<and> var_used (vs ! i) \<and> var_name (vs ! i) = name"
  by (auto simp: var_find_def dest: scan_SomeD)

lemma var_find_put_value:
  assumes "length vs = MAX_VARS" "i < MAX_VARS"
  shows "var_find name (vs[i := (vs ! i)\<lparr>var_value := v\<rparr>]) = var_find name vs"
  unfolding var_find_def using assms by (intro scan_cong) (simp add: nth_list_update)

lemma var_find_new:
  assumes "length vs = MAX_VARS" "i < MAX_VARS" "\<not> var_used (vs ! i)" "var_find name vs = None"
  shows "var_find name' (vs[i := \<lparr>var_name = name, var_value = v, var_used = True\<rparr>]) =
    (if name' = name then Some i else var_find name' vs)"
proof (cases "name' = name")
  case True
  have "\<not> (var_used (vs ! j) \<and> var_name (vs ! j) = name)" if "j < MAX_VARS" for j
    using assms(4) that by (auto simp: var_find_def scan_None_iff)
  with assms(1,2) True show ?thesis
    unfolding var_find_def by (subst scan_unique [of 0 i]) (auto simp: nth_list_update split: if_splits)
next
  case False
  with assms show ?thesis
    unfolding var_find_def by (simp, intro scan_cong) (auto simp: nth_list_update)
qed

interpretation variables: named_store "\<lambda>vs. length vs = MAX_VARS" var_put var_get
proof
  fix vs vs' :: "var list" and name v
  assume vs: "length vs = MAX_VARS" and put: "var_put name v vs = Some vs'"
  then show "length vs' = MAX_VARS"
    by (auto simp: var_put_def var_set_def split: if_splits option.splits)
  fix name'
  from put have name: "str_copy name MAX_NAME = name"
    by (auto simp: var_put_def str_copy_def split: if_splits)
  show "var_get name' vs' = (if name' = name then Some v else var_get name' vs)"
  proof (cases "var_find name vs")
    case (Some i)
    then have i: "i < MAX_VARS" "var_name (vs ! i) = name" by (auto dest: var_find_SomeD)
    from Some put have vs': "vs' = vs[i := (vs ! i)\<lparr>var_value := v\<rparr>]"
      by (auto simp: var_put_def var_set_def split: if_splits)
    have "var_find name' vs \<noteq> Some i" if "name' \<noteq> name"
      using that i by (auto dest: var_find_SomeD)
    with Some vs i(1) show ?thesis
      by (cases "var_find name' vs")
         (auto simp: var_get_def vs' var_find_put_value nth_list_update dest: var_find_SomeD)
  next
    case None
    with put name obtain i where i: "i < MAX_VARS" "\<not> var_used (vs ! i)"
      and vs': "vs' = vs[i := \<lparr>var_name = name, var_value = v, var_used = True\<rparr>]"
      by (auto simp: var_put_def var_set_def split: if_splits option.splits dest!: scan_SomeD)
    with None vs show ?thesis
      by (cases "var_find name' vs")
         (auto simp: var_get_def vs' var_find_new nth_list_update dest: var_find_SomeD)
  qed
qed

section \<open>Structured programs\<close>

datatype stmt = Line cstring | If cstring "stmt list" | While cstring "cstring list"

fun print_stmt :: "stmt \<Rightarrow> cstring list" where
  "print_stmt (Line l) = [l]"
| "print_stmt (If h b) = h # concat (map print_stmt b) @ [''end'']"
| "print_stmt (While h ls) = h # ls @ [''end'']"

abbreviation print_prog :: "stmt list \<Rightarrow> cstring list" where
  "print_prog b \<equiv> concat (map print_stmt b)"

definition simple :: "cstring \<Rightarrow> bool" where
  "simple l \<longleftrightarrow> line_ok l \<and> \<not> is_if (skip_ws l) \<and> \<not> is_while (skip_ws l) \<and> skip_ws l \<noteq> ''end''"

fun wf_stmt :: "stmt \<Rightarrow> bool" where
  "wf_stmt (Line l) = simple l"
| "wf_stmt (If h b) = (line_ok h \<and> is_if (skip_ws h) \<and> list_all wf_stmt b)"
| "wf_stmt (While h ls) = (line_ok h \<and> is_while (skip_ws h) \<and> list_all simple ls)"

text \<open>\<open>if\<close> runs its body when its condition holds, \<open>while\<close> runs it while the condition holds,
  at most 10000 times; an error or a fault ends the program.\<close>

fun run_stmt :: "stmt \<Rightarrow> mlang \<Rightarrow> mlang_result"
  and run_prog :: "stmt list \<Rightarrow> mlang \<Rightarrow> mlang_result" where
  "run_stmt (Line l) s = mlang_exec_line l s"
| "run_stmt (If h b) s =
     (case eval_condition (vars s) (skip_ws (drop 2 (skip_ws h))) of
        None \<Rightarrow> Faulted s
      | Some None \<Rightarrow> Returned False (say (''mlang: bad condition'' @ newline) s)
      | Some (Some cond) \<Rightarrow> if cond then run_prog b s else Returned True s)"
| "run_stmt (While h ls) s = while_body 10000 (skip_ws (drop 5 (skip_ws h))) ls s"
| "run_prog [] s = Returned True s"
| "run_prog (st # b) s = (case run_stmt st s of Returned True s \<Rightarrow> run_prog b s | r \<Rightarrow> r)"

section \<open>Matching ends\<close>

lemma skip_ws_end [simp]: "skip_ws ''end'' = ''end''"
  by (simp add: skip_ws_def)

lemma end_no_header [simp]: "\<not> is_if ''end''" "\<not> is_while ''end''"
  by (simp_all add: is_if_def is_while_def)

lemma find_end_simple:
  "list_all simple ls \<Longrightarrow> find_end d k (ls @ rest) = find_end d (k + length ls) rest"
  by (induction ls arbitrary: k) (auto simp: simple_def Let_def)

lemma header_not_end: "is_if t \<or> is_while t \<Longrightarrow> t \<noteq> ''end'' \<and> t \<noteq> []"
  by (auto simp: is_if_def is_while_def)

lemma find_end_skip:
  "wf_stmt st \<Longrightarrow> find_end (Suc d) k (print_stmt st @ rest) = find_end (Suc d) (k + length (print_stmt st)) rest"
proof (induction st arbitrary: d k rest)
  case (If h b)
  have body: "find_end (Suc d') k' (print_prog b' @ rest') = find_end (Suc d') (k' + length (print_prog b')) rest'"
    if "set b' \<subseteq> set b" for b' d' k' rest'
    using that
  proof (induction b' arbitrary: k')
    case (Cons st b')
    then have "st \<in> set b" by simp
    with If have "find_end (Suc d') k'' (print_stmt st @ r) = find_end (Suc d') (k'' + length (print_stmt st)) r" for k'' r
      by (auto simp: list_all_iff)
    with Cons show ?case by (simp add: add.assoc)
  qed simp
  from If.prems body [of b] show ?case by (simp add: Let_def)
qed (auto simp: simple_def Let_def find_end_simple)

lemma find_end_prog:
  "list_all wf_stmt b \<Longrightarrow> find_end (Suc d) k (print_prog b @ rest) = find_end (Suc d) (k + length (print_prog b)) rest"
  by (induction b arbitrary: k) (simp_all add: find_end_skip add.assoc)

lemma find_end_block: "list_all wf_stmt b \<Longrightarrow> find_end 1 k (print_prog b @ ''end'' # rest) = Some (k + length (print_prog b))"
  using find_end_prog [of b 0 k "''end'' # rest"] by simp

lemma find_end_lines: "list_all simple ls \<Longrightarrow> find_end 1 k (ls @ ''end'' # rest) = Some (k + length ls)"
  by (simp add: find_end_simple)

section \<open>Joining lines\<close>

lemma line_ok_stmt: "wf_stmt st \<Longrightarrow> list_all line_ok (print_stmt st)"
  by (induction st) (auto simp: simple_def list_all_iff line_ok_def MAX_LINE_def)

lemma line_ok_prog: "list_all wf_stmt b \<Longrightarrow> list_all line_ok (print_prog b)"
  using line_ok_stmt by (auto simp: list_all_iff)

lemma length_unlines: "list_all line_ok ls \<Longrightarrow> length (unlines ls) \<le> MAX_LINE * length ls"
  by (induction ls) (auto simp: line_ok_def newline_def MAX_LINE_def)

lemma join_lines_fits:
  "length sub + length (unlines ls) + 1 < MAX_LINES * MAX_LINE \<Longrightarrow> join_lines ls sub = sub @ unlines ls"
  by (induction ls sub rule: join_lines.induct) (auto simp: newline_def)

lemma join_prog:
  assumes "list_all wf_stmt b" "length (print_prog b) < MAX_LINES"
  shows "join_lines (print_prog b) [] = unlines (print_prog b)"
proof -
  have "length (unlines (print_prog b)) \<le> MAX_LINE * length (print_prog b)"
    using assms(1) by (intro length_unlines line_ok_prog)
  with assms(2) have "length (unlines (print_prog b)) + 1 < MAX_LINES * MAX_LINE"
    by (simp add: mlang_consts)
  then show ?thesis by (subst join_lines_fits) auto
qed

section \<open>The interpreter implements the semantics\<close>

text \<open>\<open>script\<close> runs programs of fewer than \<open>n\<close> lines correctly.\<close>

definition runs_below :: "(cstring \<Rightarrow> mlang \<Rightarrow> mlang_result option) \<Rightarrow> nat \<Rightarrow> bool" where
  "runs_below script n \<longleftrightarrow> (\<forall>b s. list_all wf_stmt b \<longrightarrow> length (print_prog b) < n \<longrightarrow>
     script (unlines (print_prog b)) s = Some (run_prog b s))"

lemma runs_belowD:
  "runs_below script n \<Longrightarrow> list_all wf_stmt b \<Longrightarrow> length (print_prog b) < n \<Longrightarrow>
   script (unlines (print_prog b)) s = Some (run_prog b s)"
  by (simp add: runs_below_def)

lemma print_stmt_head: "wf_stmt st \<Longrightarrow> \<exists>l ls. print_stmt st = l # ls \<and>
   (\<not> (is_if (skip_ws l) \<or> take 5 (skip_ws l) = ''while'') \<longrightarrow> st = Line l \<and> ls = [])"
  by (cases st) (auto simp: is_while_def)

lemma if_body_prog:
  assumes "runs_below script n" "n \<le> MAX_LINES"
  shows "list_all wf_stmt b \<Longrightarrow> length (print_prog b) < n \<Longrightarrow>
    if_body script (print_prog b) s = Some (run_prog b s)"
proof (induction b arbitrary: s)
  case (Cons st b)
  obtain l ls where head: "print_stmt st = l # ls"
    and plain: "\<not> (is_if (skip_ws l) \<or> take 5 (skip_ws l) = ''while'') \<longrightarrow> st = Line l \<and> ls = []"
    using print_stmt_head [of st] Cons.prems by auto
  show ?case
  proof (cases "is_if (skip_ws l) \<or> take 5 (skip_ws l) = ''while''")
    case True
    have "join_lines (print_prog (st # b)) [] = unlines (print_prog (st # b))"
      using Cons.prems assms(2) by (intro join_prog) auto
    with True head have "if_body script (print_prog (st # b)) s = script (unlines (print_prog (st # b))) s"
      by (simp add: Let_def)
    with runs_belowD [OF assms(1) Cons.prems] show ?thesis by simp
  next
    case False
    with plain Cons.prems Cons.IH show ?thesis
      by (auto simp: Let_def split: mlang_result.split bool.split)
  qed
qed simp

text \<open>The first statement of the rest of a program, as the line loop meets it.\<close>

lemma slice_middle: "slice (pre @ h # body @ rest) (Suc (length pre)) (Suc (length pre + length body)) = body"
  by (simp add: slice_def)

lemma exec_from_stmt:
  assumes "runs_below script (length lines)" "length lines \<le> MAX_LINES" "wf_stmt st"
    and lines: "lines = pre @ print_stmt st @ rest"
  shows "exec_from script lines (length pre) s =
    (case run_stmt st s of
       Returned True s \<Rightarrow> exec_from script lines (length (pre @ print_stmt st)) s
     | r \<Rightarrow> Some r)"
proof (cases st)
  case (Line l)
  with assms(3) lines show ?thesis
    by (subst exec_from.simps)
       (auto simp: Let_def simple_def mlang_exec_line_def [of l] split: mlang_result.split bool.split)
next
  case (If h b)
  with assms(3) have h: "is_if (skip_ws h)" "list_all wf_stmt b" by auto
  have shape: "lines = pre @ h # print_prog b @ ''end'' # rest" using If lines by simp
  have "length (print_prog b) < length lines" using shape by simp
  with if_body_prog [OF assms(1,2) h(2)]
  have body: "if_body script (print_prog b) s = Some (run_prog b s)" by simp
  have fin: "find_end (Suc 0) (Suc (length pre)) (print_prog b @ ''end'' # rest) = Some (Suc (length pre + length (print_prog b)))"
    using find_end_block [OF h(2)] by simp
  have not_while: "hd (skip_ws h) \<noteq> CHR ''#''"
    using h(1) by (cases "skip_ws h") (auto simp: is_if_def)
  from h header_not_end [of "skip_ws h"] body fin not_while show ?thesis
    by (subst exec_from.simps)
       (simp add: If shape Let_def slice_middle split: option.split mlang_result.split bool.split)
next
  case (While h ls)
  with assms(3) have h: "is_while (skip_ws h)" "list_all simple ls" by auto
  have shape: "lines = pre @ h # ls @ ''end'' # rest" using While lines by simp
  have fin: "find_end (Suc 0) (Suc (length pre)) (ls @ ''end'' # rest) = Some (Suc (length pre + length ls))"
    using find_end_lines [OF h(2)] by simp
  have not_if: "\<not> is_if (skip_ws h)" "hd (skip_ws h) \<noteq> CHR ''#''"
    using h(1) by (cases "skip_ws h"; auto simp: is_if_def is_while_def)+
  from h header_not_end [of "skip_ws h"] fin not_if show ?thesis
    by (subst exec_from.simps)
       (simp add: While shape Let_def slice_middle split: option.split mlang_result.split bool.split
          del: while_body.simps)
qed

lemma exec_from_prog:
  assumes "runs_below script (length lines)" "length lines \<le> MAX_LINES"
  shows "list_all wf_stmt b \<Longrightarrow> lines = pre @ print_prog b \<Longrightarrow>
    exec_from script lines (length pre) s = Some (run_prog b s)"
proof (induction b arbitrary: pre s)
  case Nil
  then show ?case by (subst exec_from.simps) simp
next
  case (Cons st b)
  have "exec_from script lines (length (pre @ print_stmt st)) s' = Some (run_prog b s')" for s'
    using Cons.prems by (intro Cons.IH) auto
  with exec_from_stmt [OF assms, of st pre "print_prog b" s] Cons.prems show ?case
    by (auto split: mlang_result.split bool.split)
qed

lemma script_runs_prog: "n \<le> Suc MAX_LINES \<Longrightarrow> runs_below (mlang_exec_script n) n"
proof (induction n)
  case 0
  show ?case by (simp add: runs_below_def)
next
  case (Suc n)
  show ?case
    unfolding runs_below_def
  proof (intro allI impI)
    fix b s
    assume b: "list_all wf_stmt b" "length (print_prog b) < Suc n"
    have lines: "split_lines (unlines (print_prog b)) = print_prog b"
      using b Suc.prems by (simp add: split_lines_def split_unlines line_ok_prog)
    have "runs_below (mlang_exec_script n) (length (print_prog b))"
      using Suc b by (auto simp: runs_below_def)
    from exec_from_prog [OF this, of b "[]" s] b Suc.prems
    show "mlang_exec_script (Suc n) (unlines (print_prog b)) s = Some (run_prog b s)"
      by (simp add: lines)
  qed
qed

section \<open>Properties\<close>


definition countdown :: "stmt list" where
  "countdown = [Line ''x = 2'', While ''while x > 0'' [''print x'', ''x = x - 1''],
     If ''if x == 0'' [Line ''y = 7'', If ''  if y > 3'' [Line ''print y''], Line ''# done'']]"


lemma ident_not_blank: "is_ident_start c \<Longrightarrow> c \<noteq> CHR '' '' \<and> c \<noteq> CHR 0x09 \<and> c \<noteq> CHR ''#''"
  by (auto simp: is_ident_start_def)

lemma take_ident_name:
  assumes "list_all is_ident name" "length name < MAX_NAME" "rest = [] \<or> \<not> is_ident (hd rest)"
  shows "take_ident (name @ rest) = (name, rest)"
proof -
  have "take (MAX_NAME - 1) (name @ rest) = name @ take (MAX_NAME - 1 - length name) rest"
    using assms(2) by auto
  moreover have "takeWhile is_ident (name @ take n rest) = name" for n
    using assms(1,3) by (cases n; cases rest) (auto simp: list_all_iff takeWhile_append)
  ultimately show ?thesis by (simp add: take_ident_def Let_def del: take_append)
qed

lemma is_print_name:
  assumes "is_print (name @ '' = '' @ e)" "list_all is_ident name"
  shows "name = ''print''"
proof (rule linorder_cases [of "length name" 5])
  assume short: "length name < 5"
  then obtain n where n: "5 - length name = Suc n" by (cases "5 - length name") auto
  have "take 5 (name @ '' = '' @ e) = name @ take (5 - length name) ('' = '' @ e)" using short by simp
  then have "CHR '' '' \<in> set (take 5 (name @ '' = '' @ e))" by (simp add: n)
  with assms(1) show ?thesis by (simp add: is_print_def del: take_append)
next
  assume "length name = 5"
  with assms(1) show ?thesis by (simp add: is_print_def)
next
  assume long: "5 < length name"
  then have "is_ident (name ! 5)" using assms(2) by (simp add: list_all_length)
  moreover have "is_blank (name ! 5)" using long assms(1) by (simp add: is_print_def nth_append)
  ultimately show ?thesis by (auto simp: is_blank_def is_ident_def is_ident_start_def is_digit_def)
qed

lemma exec_line_assign:
  assumes "is_ident_start c" "list_all is_ident cs" "length (c # cs) < MAX_NAME" "c # cs \<noteq> ''print''"
  shows "mlang_exec_line ((c # cs) @ '' = '' @ e) s = exec_assign (c # cs) ('' '' @ e) s"
proof -
  have "skip_ws ((c # cs) @ '' = '' @ e) = (c # cs) @ '' = '' @ e"
    using ident_not_blank [OF assms(1)] by (simp add: skip_ws_def)
  moreover have "take_ident ((c # cs) @ '' = '' @ e) = (c # cs, '' = '' @ e)"
    using assms by (intro take_ident_name) (auto simp: is_ident_def is_ident_start_def is_digit_def)
  moreover have "skip_ws ('' = '' @ e) = ''= '' @ e" by (simp add: skip_ws_def)
  moreover have "\<not> is_print ((c # cs) @ '' = '' @ e)"
    using is_print_name [of "c # cs" e] assms by (auto simp: is_ident_def)
  ultimately show ?thesis
    using assms(1) ident_not_blank [OF assms(1)] by (simp add: mlang_exec_line_def)
qed

text \<open>An assignment line stores the value of its expression: afterwards the variable reads
  as that value and every other variable and the screen are unchanged; it is refused, with
  the variables unchanged, exactly when the variable is new and all 32 places are taken.\<close>

theorem mlang_assign_stores:
  assumes "length (vars s) = MAX_VARS" "is_ident_start c" "list_all is_ident cs" "length (c # cs) < MAX_NAME"
    and "c # cs \<noteq> ''print''" "eval_expr (vars s) (skip_ws e) = Some (Some v)"
  shows "if var_get (c # cs) (vars s) = None \<and> (\<forall>i < MAX_VARS. var_used (vars s ! i))
    then \<exists>s'. mlang_exec_line ((c # cs) @ '' = '' @ e) s = Returned False s' \<and> vars s' = vars s
    else \<exists>s'. mlang_exec_line ((c # cs) @ '' = '' @ e) s = Returned True s' \<and> screen s' = screen s
        \<and> length (vars s') = MAX_VARS
        \<and> (\<forall>x. var_get x (vars s') = (if x = c # cs then Some v else var_get x (vars s)))"
proof -
  let ?name = "c # cs"
  have ev: "eval_expr (vars s) (skip_ws ('' '' @ e)) = Some (Some v)"
    using assms(6) by (simp add: skip_ws_def)
  have full: "var_set ?name v (vars s) = None \<longleftrightarrow>
      var_get ?name (vars s) = None \<and> (\<forall>i < MAX_VARS. var_used (vars s ! i))"
    by (cases "scan (\<lambda>i. \<not> var_used (vars s ! i)) 0 MAX_VARS")
       (auto simp: var_set_def var_get_def scan_None_iff split: option.splits dest!: scan_SomeD)
  show ?thesis
  proof (cases "var_set ?name v (vars s)")
    case None
    with full ev show ?thesis
      by (simp only: exec_line_assign [OF assms(2-5)]) (simp add: exec_assign_def say_def)
  next
    case (Some r)
    obtain i vs where r: "r = (i, vs)" by (cases r)
    have put: "var_put ?name v (vars s) = Some vs" using Some r assms(4) by (simp add: var_put_def)
    have "mlang_exec_line (?name @ '' = '' @ e) s = Returned True (s\<lparr>vars := vs\<rparr>)"
      using ev Some r by (simp only: exec_line_assign [OF assms(2-5)]) (simp add: exec_assign_def)
    moreover have "length vs = MAX_VARS" using assms(1) put by (rule variables.put_invar)
    moreover have "var_get x vs = (if x = ?name then Some v else var_get x (vars s))" for x
      using assms(1) put by (rule variables.get_put)
    ultimately show ?thesis using full Some by auto
  qed
qed

text \<open>The table at boot and after \<open>mlang_reset\<close>, with a fresh variable assigned.\<close>

definition no_vars :: "var list" where
  "no_vars = replicate MAX_VARS \<lparr>var_name = [], var_value = 0, var_used = False\<rparr>"

theorem mlang_assign_stores_witness:
  "\<forall>t. \<exists>s'. mlang_exec_line ''x1 = 5'' \<lparr>vars = no_vars, screen = t\<rparr> = Returned True s'
     \<and> screen s' = t \<and> var_get ''x1'' (vars s') = Some 5 \<and> var_get ''y'' (vars s') = None"
proof
  fix t
  let ?s = "\<lparr>vars = no_vars, screen = t\<rparr>" and ?line = "(CHR ''x'' # ''1'') @ '' = '' @ ''5''"
  have len: "length no_vars = MAX_VARS" by (simp add: no_vars_def)
  have ev: "eval_expr no_vars ''5'' = Some (Some 5)"
    by (simp add: eval_expr_def expand_expr.simps is_ident_start_def calc_eval_def
        parse_expr.simps parse_term.simps parse_power.simps parse_factor.simps expr_loop.simps term_loop.simps
        skip_spaces_def peek_def Let_def is_digit_def char_digit_def)
  have get: "var_get x no_vars = None" for x
    by (simp add: var_get_def var_find_def no_vars_def scan_None_iff)
  have "\<not> var_used (no_vars ! 0)" "0 < MAX_VARS"
    by (simp_all add: no_vars_def MAX_VARS_def)
  then have free: "\<not> (var_get (CHR ''x'' # ''1'') (vars ?s) = None \<and> (\<forall>i<MAX_VARS. var_used (vars ?s ! i)))"
    by auto
  have "\<exists>s'. mlang_exec_line ?line ?s = Returned True s' \<and> screen s' = screen ?s
      \<and> length (vars s') = MAX_VARS
      \<and> (\<forall>x. var_get x (vars s') = (if x = CHR ''x'' # ''1'' then Some 5 else var_get x (vars ?s)))"
    by (rule mlang_assign_stores [of ?s "CHR ''x''" "''1''" "''5''" 5, unfolded if_not_P [OF free]])
       (simp_all add: len ev is_ident_start_def is_ident_def is_digit_def MAX_NAME_def skip_ws_def)
  then show "\<exists>s'. mlang_exec_line ''x1 = 5'' ?s = Returned True s'
     \<and> screen s' = t \<and> var_get ''x1'' (vars s') = Some 5 \<and> var_get ''y'' (vars s') = None"
    by (auto simp: get)
qed

end
