(* ===== verification/Syscall_Numbers.thy ===== *)
theory Syscall_Numbers
  imports Prelude
begin

text \<open>
  The numbers of the kernel interface: system calls, flags and error codes as
  \<open>src/src/syscall.h\<close> and \<open>src/src/errno.h\<close> define them (those \<open>src/src/syscall.c\<close> uses).
\<close>

named_theorems syscall_nr "the values of the interface constants"

definition SYS_EXIT :: nat where [syscall_nr]: "SYS_EXIT = 1"
definition SYS_FORK :: nat where [syscall_nr]: "SYS_FORK = 2"
definition SYS_READ :: nat where [syscall_nr]: "SYS_READ = 3"
definition SYS_WRITE :: nat where [syscall_nr]: "SYS_WRITE = 4"
definition SYS_OPEN :: nat where [syscall_nr]: "SYS_OPEN = 5"
definition SYS_CLOSE :: nat where [syscall_nr]: "SYS_CLOSE = 6"
definition SYS_WAITPID :: nat where [syscall_nr]: "SYS_WAITPID = 7"
definition SYS_CREAT :: nat where [syscall_nr]: "SYS_CREAT = 8"
definition SYS_LINK :: nat where [syscall_nr]: "SYS_LINK = 9"
definition SYS_UNLINK :: nat where [syscall_nr]: "SYS_UNLINK = 10"
definition SYS_EXECVE :: nat where [syscall_nr]: "SYS_EXECVE = 11"
definition SYS_CHDIR :: nat where [syscall_nr]: "SYS_CHDIR = 12"
definition SYS_TIME :: nat where [syscall_nr]: "SYS_TIME = 13"
definition SYS_CHMOD :: nat where [syscall_nr]: "SYS_CHMOD = 15"
definition SYS_LSEEK :: nat where [syscall_nr]: "SYS_LSEEK = 19"
definition SYS_GETPID :: nat where [syscall_nr]: "SYS_GETPID = 20"
definition SYS_ALARM :: nat where [syscall_nr]: "SYS_ALARM = 27"
definition SYS_PAUSE :: nat where [syscall_nr]: "SYS_PAUSE = 29"
definition SYS_ACCESS :: nat where [syscall_nr]: "SYS_ACCESS = 33"
definition SYS_NICE :: nat where [syscall_nr]: "SYS_NICE = 34"
definition SYS_SYNC :: nat where [syscall_nr]: "SYS_SYNC = 36"
definition SYS_KILL :: nat where [syscall_nr]: "SYS_KILL = 37"
definition SYS_RENAME :: nat where [syscall_nr]: "SYS_RENAME = 38"
definition SYS_MKDIR :: nat where [syscall_nr]: "SYS_MKDIR = 39"
definition SYS_RMDIR :: nat where [syscall_nr]: "SYS_RMDIR = 40"
definition SYS_DUP :: nat where [syscall_nr]: "SYS_DUP = 41"
definition SYS_PIPE :: nat where [syscall_nr]: "SYS_PIPE = 42"
definition SYS_TIMES :: nat where [syscall_nr]: "SYS_TIMES = 43"
definition SYS_BRK :: nat where [syscall_nr]: "SYS_BRK = 45"
definition SYS_IOCTL :: nat where [syscall_nr]: "SYS_IOCTL = 54"
definition SYS_FCNTL :: nat where [syscall_nr]: "SYS_FCNTL = 55"
definition SYS_UMASK :: nat where [syscall_nr]: "SYS_UMASK = 60"
definition SYS_DUP2 :: nat where [syscall_nr]: "SYS_DUP2 = 63"
definition SYS_GETPPID :: nat where [syscall_nr]: "SYS_GETPPID = 64"
definition SYS_SETSID :: nat where [syscall_nr]: "SYS_SETSID = 66"
definition SYS_SIGACTION :: nat where [syscall_nr]: "SYS_SIGACTION = 67"
definition SYS_SETHOSTNAME :: nat where [syscall_nr]: "SYS_SETHOSTNAME = 74"
definition SYS_SETRLIMIT :: nat where [syscall_nr]: "SYS_SETRLIMIT = 75"
definition SYS_GETRLIMIT :: nat where [syscall_nr]: "SYS_GETRLIMIT = 76"
definition SYS_GETTIMEOFDAY :: nat where [syscall_nr]: "SYS_GETTIMEOFDAY = 78"
definition SYS_SYMLINK :: nat where [syscall_nr]: "SYS_SYMLINK = 83"
definition SYS_READLINK :: nat where [syscall_nr]: "SYS_READLINK = 85"
definition SYS_REBOOT :: nat where [syscall_nr]: "SYS_REBOOT = 88"
definition SYS_MMAP :: nat where [syscall_nr]: "SYS_MMAP = 90"
definition SYS_MUNMAP :: nat where [syscall_nr]: "SYS_MUNMAP = 91"
definition SYS_STAT :: nat where [syscall_nr]: "SYS_STAT = 106"
definition SYS_LSTAT :: nat where [syscall_nr]: "SYS_LSTAT = 107"
definition SYS_FSTAT :: nat where [syscall_nr]: "SYS_FSTAT = 108"
definition SYS_SYSINFO :: nat where [syscall_nr]: "SYS_SYSINFO = 116"
definition SYS_UNAME :: nat where [syscall_nr]: "SYS_UNAME = 122"
definition SYS_MPROTECT :: nat where [syscall_nr]: "SYS_MPROTECT = 125"
definition SYS_SIGPROCMASK :: nat where [syscall_nr]: "SYS_SIGPROCMASK = 126"
definition SYS_GETPGID :: nat where [syscall_nr]: "SYS_GETPGID = 132"
definition SYS_GETDENTS :: nat where [syscall_nr]: "SYS_GETDENTS = 141"
definition SYS_SELECT :: nat where [syscall_nr]: "SYS_SELECT = 142"
definition SYS_MSYNC :: nat where [syscall_nr]: "SYS_MSYNC = 144"
definition SYS_READV :: nat where [syscall_nr]: "SYS_READV = 145"
definition SYS_WRITEV :: nat where [syscall_nr]: "SYS_WRITEV = 146"
definition SYS_GETSID :: nat where [syscall_nr]: "SYS_GETSID = 147"
definition SYS_MLOCK :: nat where [syscall_nr]: "SYS_MLOCK = 150"
definition SYS_MUNLOCK :: nat where [syscall_nr]: "SYS_MUNLOCK = 151"
definition SYS_MLOCKALL :: nat where [syscall_nr]: "SYS_MLOCKALL = 152"
definition SYS_MUNLOCKALL :: nat where [syscall_nr]: "SYS_MUNLOCKALL = 153"
definition SYS_YIELD :: nat where [syscall_nr]: "SYS_YIELD = 158"
definition SYS_NANOSLEEP :: nat where [syscall_nr]: "SYS_NANOSLEEP = 162"
definition SYS_MREMAP :: nat where [syscall_nr]: "SYS_MREMAP = 163"
definition SYS_POLL :: nat where [syscall_nr]: "SYS_POLL = 168"
definition SYS_PRCTL :: nat where [syscall_nr]: "SYS_PRCTL = 172"
definition SYS_RT_SIGACTION :: nat where [syscall_nr]: "SYS_RT_SIGACTION = 174"
definition SYS_RT_SIGPROCMASK :: nat where [syscall_nr]: "SYS_RT_SIGPROCMASK = 175"
definition SYS_GETCWD :: nat where [syscall_nr]: "SYS_GETCWD = 183"
definition SYS_UGETRLIMIT :: nat where [syscall_nr]: "SYS_UGETRLIMIT = 191"
definition SYS_MMAP2 :: nat where [syscall_nr]: "SYS_MMAP2 = 192"
definition SYS_MADVISE :: nat where [syscall_nr]: "SYS_MADVISE = 219"
definition SYS_GETDENTS64 :: nat where [syscall_nr]: "SYS_GETDENTS64 = 220"
definition SYS_GETTID :: nat where [syscall_nr]: "SYS_GETTID = 224"
definition SYS_FUTEX :: nat where [syscall_nr]: "SYS_FUTEX = 240"
definition SYS_SET_THREAD_AREA :: nat where [syscall_nr]: "SYS_SET_THREAD_AREA = 243"
definition SYS_GET_THREAD_AREA :: nat where [syscall_nr]: "SYS_GET_THREAD_AREA = 244"
definition SYS_EXIT_GROUP :: nat where [syscall_nr]: "SYS_EXIT_GROUP = 252"
definition SYS_CLOCK_GETTIME :: nat where [syscall_nr]: "SYS_CLOCK_GETTIME = 265"
definition SYS_CLOCK_GETRES :: nat where [syscall_nr]: "SYS_CLOCK_GETRES = 266"
definition SYS_CLOCK_NANOSLEEP :: nat where [syscall_nr]: "SYS_CLOCK_NANOSLEEP = 267"
definition SYS_TGKILL :: nat where [syscall_nr]: "SYS_TGKILL = 270"
definition SYS_OPENAT :: nat where [syscall_nr]: "SYS_OPENAT = 295"
definition SYS_PIPE2 :: nat where [syscall_nr]: "SYS_PIPE2 = 331"
definition SYS_GETRANDOM :: nat where [syscall_nr]: "SYS_GETRANDOM = 355"
definition MAP_FIXED :: u32 where [syscall_nr]: "MAP_FIXED = 0x10"
definition MAP_ANONYMOUS :: u32 where [syscall_nr]: "MAP_ANONYMOUS = 0x20"
definition O_WRONLY :: u32 where [syscall_nr]: "O_WRONLY = 1"
definition O_RDWR :: u32 where [syscall_nr]: "O_RDWR = 2"
definition O_CREAT :: u32 where [syscall_nr]: "O_CREAT = 64"
definition O_TRUNC :: u32 where [syscall_nr]: "O_TRUNC = 512"
definition O_APPEND :: u32 where [syscall_nr]: "O_APPEND = 1024"
definition SEEK_SET :: int where [syscall_nr]: "SEEK_SET = 0"
definition SEEK_CUR :: int where [syscall_nr]: "SEEK_CUR = 1"
definition SEEK_END :: int where [syscall_nr]: "SEEK_END = 2"

definition ENOENT :: int where [syscall_nr]: "ENOENT = 2"
definition EINTR :: int where [syscall_nr]: "EINTR = 4"
definition EBADF :: int where [syscall_nr]: "EBADF = 9"
definition ENOMEM :: int where [syscall_nr]: "ENOMEM = 12"
definition EFAULT :: int where [syscall_nr]: "EFAULT = 14"
definition EEXIST :: int where [syscall_nr]: "EEXIST = 17"
definition ENOTDIR :: int where [syscall_nr]: "ENOTDIR = 20"
definition EINVAL :: int where [syscall_nr]: "EINVAL = 22"
definition EMFILE :: int where [syscall_nr]: "EMFILE = 24"
definition ENOSPC :: int where [syscall_nr]: "ENOSPC = 28"
definition ESPIPE :: int where [syscall_nr]: "ESPIPE = 29"
definition ERANGE :: int where [syscall_nr]: "ERANGE = 34"
definition ENOSYS :: int where [syscall_nr]: "ENOSYS = 38"
definition ENOTEMPTY :: int where [syscall_nr]: "ENOTEMPTY = 39"

end
