(* ===== verification/Umem.thy ===== *)
theory Umem
  imports Prelude
begin

text \<open>
  The memory a user program shares with the kernel: a byte per 32-bit address. A C string
  at an address is read up to its NUL; a string without one is read for ever, which is
  \<open>None\<close>. Words are stored with the low byte first.
\<close>

type_synonym umem = "u32 \<Rightarrow> u8"

definition byte_of :: "char \<Rightarrow> u8" where
  "byte_of c = of_nat (of_char c)"

definition char_of_byte :: "u8 \<Rightarrow> char" where
  "char_of_byte b = char_of (unat b)"

partial_function (option) cstr :: "umem \<Rightarrow> u32 \<Rightarrow> cstring option" where
  "cstr m a = (if m a = 0 then Some []
     else do { s \<leftarrow> cstr m (a + 1); Some (char_of_byte (m a) # s) })"

primrec store_bytes :: "u32 \<Rightarrow> u8 list \<Rightarrow> umem \<Rightarrow> umem" where
  "store_bytes a [] m = m"
| "store_bytes a (b # bs) m = store_bytes (a + 1) bs (m(a := b))"

definition st16 :: "u32 \<Rightarrow> u16 \<Rightarrow> umem \<Rightarrow> umem" where
  "st16 a v = store_bytes a [ucast v, ucast (drop_bit 8 v)]"

definition st32 :: "u32 \<Rightarrow> u32 \<Rightarrow> umem \<Rightarrow> umem" where
  "st32 a v = store_bytes a
     [ucast v, ucast (drop_bit 8 v), ucast (drop_bit 16 v), ucast (drop_bit 24 v)]"

definition ld32 :: "umem \<Rightarrow> u32 \<Rightarrow> u32" where
  "ld32 m a = ucast (m a) OR push_bit 8 (ucast (m (a + 1))) OR push_bit 16 (ucast (m (a + 2)))
     OR push_bit 24 (ucast (m (a + 3)))"

definition load_bytes :: "umem \<Rightarrow> u32 \<Rightarrow> nat \<Rightarrow> u8 list" where
  "load_bytes m a n = map (\<lambda>i. m (a + of_nat i)) [0..<n]"

text \<open>The C conversion of an \<open>int\<close> result that may have overflowed.\<close>

definition as_int :: "int \<Rightarrow> int" where
  "as_int x = sint (word_of_int x :: u32)"

lemma as_int_id: "- (2 ^ 31) \<le> x \<Longrightarrow> x < 2 ^ 31 \<Longrightarrow> as_int x = x"
  by (simp add: as_int_def sint_uint unsigned_of_int signed_take_bit_take_bit signed_take_bit_int_eq_self)

lemma char_of_byte_of [simp]: "char_of_byte (byte_of c) = c"
proof -
  have "(of_char c :: nat) < 256" by (rule nat_of_char_less_256)
  then show ?thesis
    by (simp add: byte_of_def char_of_byte_def unsigned_of_nat take_bit_nat_eq_self)
qed

lemma byte_of_char_of [simp]: "byte_of (char_of_byte b) = b"
proof -
  have "unat b < 256" using unsigned_less [of b] by simp
  then show ?thesis by (simp add: byte_of_def char_of_byte_def of_char_of)
qed

lemma store_bytes_other:
  "(\<And>i. i < length bs \<Longrightarrow> x \<noteq> a + of_nat i) \<Longrightarrow> store_bytes a bs m x = m x"
proof (induction bs arbitrary: a m)
  case (Cons b bs)
  have "x \<noteq> a" using Cons.prems [of 0] by simp
  moreover have "x \<noteq> a + 1 + of_nat i" if "i < length bs" for i
    using Cons.prems [of "Suc i"] that by (simp add: add.assoc)
  ultimately show ?case using Cons.IH [of "a + 1"] by simp
qed simp

lemma store_bytes_nth:
  "length bs \<le> 2 ^ 32 \<Longrightarrow> i < length bs \<Longrightarrow> store_bytes a bs m (a + of_nat i) = bs ! i"
proof (induction bs arbitrary: a m i)
  case (Cons b bs)
  show ?case
  proof (cases i)
    case 0
    have "a \<noteq> a + 1 + of_nat j" if "j < length bs" for j
    proof
      assume "a = a + 1 + of_nat j"
      then have "(of_nat (Suc j) :: u32) = 0" by (simp add: add.assoc)
      then have "2 ^ 32 dvd Suc j" by (simp add: word_of_nat_eq_0_iff del: of_nat_Suc)
      with that Cons.prems(1) show False by (auto dest!: dvd_imp_le)
    qed
    then have "store_bytes (a + 1) bs (m(a := b)) a = (m(a := b)) a" by (intro store_bytes_other)
    with 0 show ?thesis by simp
  next
    case (Suc j)
    with Cons.IH [of j "a + 1" "m(a := b)"] Cons.prems show ?thesis by (simp add: add.assoc del: fun_upd_apply)
  qed
qed simp

lemma load_store_bytes: "length bs \<le> 2 ^ 32 \<Longrightarrow> load_bytes (store_bytes a bs m) a (length bs) = bs"
  by (rule nth_equalityI) (simp_all add: load_bytes_def store_bytes_nth)

end
