(* ===== verification/Interrupts.thy ===== *)
theory Interrupts
  imports Terminal
begin

text \<open>
  Descriptor tables and interrupt controllers: \<open>src/src/idt.c\<close>, \<open>src/src/gdt.c\<close> and
  \<open>src/src/irq.c\<close>. The addresses of the assembler stubs and of the static tables are
  arguments. The two 8259 controllers are modelled as their data sheet describes them: a
  write of ICW1 to the command port starts an initialisation in which the next three
  writes to the data port are not mask writes but the vector base and two more words.
\<close>

section \<open>The interrupt descriptor table\<close>

record idt_entry =
  base_low :: u16
  sel :: u16
  always0 :: u8
  flags :: u8
  base_high :: u16

definition IDT_ENTRIES :: nat where "IDT_ENTRIES = 256"

definition idt_set_gate :: "nat \<Rightarrow> u32 \<Rightarrow> u16 \<Rightarrow> u8 \<Rightarrow> idt_entry list \<Rightarrow> idt_entry list" where
  "idt_set_gate num handler s f idt =
     idt[num := \<lparr>base_low = ucast (handler AND 0xFFFF), sel = s, always0 = 0, flags = f,
                 base_high = ucast (drop_bit 16 handler AND 0xFFFF)\<rparr>]"

definition idt_init :: "idt_entry list \<Rightarrow> idt_entry list" where
  "idt_init idt = fold (\<lambda>i. idt_set_gate i 0 0 0) [0..<IDT_ENTRIES] idt"

definition IDT_FLAGS :: u8 where "IDT_FLAGS = 0x8E"
definition IDT_FLAGS_USER :: u8 where "IDT_FLAGS_USER = 0xEE"

definition isr_install :: "(nat \<Rightarrow> u32) \<Rightarrow> idt_entry list \<Rightarrow> idt_entry list" where
  "isr_install isr idt =
     idt_set_gate 128 (isr 128) 0x08 IDT_FLAGS_USER
       (fold (\<lambda>i. idt_set_gate i (isr i) 0x08 IDT_FLAGS) [0..<20] idt)"

text \<open>The address a gate leads to, as the processor puts it together.\<close>

definition gate_target :: "idt_entry \<Rightarrow> u32" where
  "gate_target g = push_bit 16 (ucast (base_high g)) OR ucast (base_low g)"

section \<open>The global descriptor table\<close>

record gdt_entry =
  limit_low :: u16
  gbase_low :: u16
  base_middle :: u8
  access :: u8
  granularity :: u8
  gbase_high :: u8

record tss_entry =
  esp0 :: u32
  ss0 :: u32
  iomap_base :: u16

definition gdt_set_gate :: "nat \<Rightarrow> u32 \<Rightarrow> u32 \<Rightarrow> u8 \<Rightarrow> u8 \<Rightarrow> gdt_entry list \<Rightarrow> gdt_entry list" where
  "gdt_set_gate num base limit acc gran gdt =
     gdt[num := \<lparr>limit_low = ucast (limit AND 0xFFFF), gbase_low = ucast (base AND 0xFFFF),
                 base_middle = ucast (drop_bit 16 base AND 0xFF), access = acc,
                 granularity = ucast (drop_bit 16 limit AND 0x0F) OR (gran AND 0xF0),
                 gbase_high = ucast (drop_bit 24 base AND 0xFF)\<rparr>]"

text \<open>\<open>sizeof(struct tss_entry)\<close> is 104; the fields that are not set are zero.\<close>

definition write_tss :: "nat \<Rightarrow> u32 \<Rightarrow> u32 \<Rightarrow> u32 \<Rightarrow> gdt_entry list \<Rightarrow> gdt_entry list \<times> tss_entry" where
  "write_tss num tss_addr s0 e0 gdt =
     (gdt_set_gate num tss_addr (104 - 1) 0xE9 0x00 gdt, \<lparr>esp0 = e0, ss0 = s0, iomap_base = 104\<rparr>)"

definition tss_set_kernel_stack :: "u32 \<Rightarrow> tss_entry \<Rightarrow> tss_entry" where
  "tss_set_kernel_stack e0 tss = tss\<lparr>esp0 := e0\<rparr>"

definition gdt_install :: "u32 \<Rightarrow> u32 \<Rightarrow> gdt_entry list \<Rightarrow> gdt_entry list \<times> tss_entry" where
  "gdt_install tss_addr kstack gdt =
     (let gdt = gdt_set_gate 0 0 0 0 0 gdt;
          gdt = gdt_set_gate 1 0 0xFFFFFFFF 0x9A 0xCF gdt;
          gdt = gdt_set_gate 2 0 0xFFFFFFFF 0x92 0xCF gdt;
          gdt = gdt_set_gate 3 0 0xFFFFFFFF 0xFA 0xCF gdt;
          gdt = gdt_set_gate 4 0 0xFFFFFFFF 0xF2 0xCF gdt
      in write_tss 5 tss_addr 0x10 (kstack + 8192) gdt)"

definition seg_base :: "gdt_entry \<Rightarrow> u32" where
  "seg_base g = push_bit 24 (ucast (gbase_high g)) OR push_bit 16 (ucast (base_middle g)) OR ucast (gbase_low g)"

definition seg_limit :: "gdt_entry \<Rightarrow> u32" where
  "seg_limit g = push_bit 16 (ucast (granularity g AND 0x0F)) OR ucast (limit_low g)"

section \<open>The interrupt controllers\<close>

record chip =
  imr :: u8
  init_left :: nat
  vector_base :: u8
  eois :: nat

record pics =
  pic1 :: chip
  pic2 :: chip

definition chip_command :: "u8 \<Rightarrow> chip \<Rightarrow> chip" where
  "chip_command v c =
     (if bit v 4 then c\<lparr>init_left := 3\<rparr> else if v = 0x20 then c\<lparr>eois := eois c + 1\<rparr> else c)"

definition chip_data :: "u8 \<Rightarrow> chip \<Rightarrow> chip" where
  "chip_data v c =
     (if init_left c = 3 then c\<lparr>vector_base := v, init_left := 2\<rparr>
      else if init_left c > 0 then c\<lparr>init_left := init_left c - 1\<rparr>
      else c\<lparr>imr := v\<rparr>)"

definition PIC1_COMMAND :: u16 where "PIC1_COMMAND = 0x20"
definition PIC1_DATA :: u16 where "PIC1_DATA = 0x21"
definition PIC2_COMMAND :: u16 where "PIC2_COMMAND = 0xA0"
definition PIC2_DATA :: u16 where "PIC2_DATA = 0xA1"
definition PIC_EOI :: u8 where "PIC_EOI = 0x20"

definition outb :: "u16 \<Rightarrow> u8 \<Rightarrow> pics \<Rightarrow> pics" where
  "outb port v p =
     (if port = PIC1_COMMAND then p\<lparr>pic1 := chip_command v (pic1 p)\<rparr>
      else if port = PIC1_DATA then p\<lparr>pic1 := chip_data v (pic1 p)\<rparr>
      else if port = PIC2_COMMAND then p\<lparr>pic2 := chip_command v (pic2 p)\<rparr>
      else if port = PIC2_DATA then p\<lparr>pic2 := chip_data v (pic2 p)\<rparr>
      else p)"

definition inb :: "u16 \<Rightarrow> pics \<Rightarrow> u8" where
  "inb port p = (if port = PIC1_DATA then imr (pic1 p) else if port = PIC2_DATA then imr (pic2 p) else 0)"

definition io_wait :: "pics \<Rightarrow> pics" where
  "io_wait p = outb 0x80 0 p"

definition pic_remap :: "pics \<Rightarrow> pics" where
  "pic_remap p =
     (let mask1 = inb PIC1_DATA p; mask2 = inb PIC2_DATA p;
          p = io_wait (outb PIC1_COMMAND (0x10 OR 0x01) p);
          p = io_wait (outb PIC2_COMMAND (0x10 OR 0x01) p);
          p = io_wait (outb PIC1_DATA 0x20 p);
          p = io_wait (outb PIC2_DATA 0x28 p);
          p = io_wait (outb PIC1_DATA 0x04 p);
          p = io_wait (outb PIC2_DATA 0x02 p);
          p = io_wait (outb PIC1_DATA 0x01 p);
          p = io_wait (outb PIC2_DATA 0x01 p);
          p = outb PIC1_DATA mask1 p
      in outb PIC2_DATA mask2 p)"

definition pic_init_masks :: "pics \<Rightarrow> pics" where
  "pic_init_masks p = outb PIC2_DATA 0xFF (outb PIC1_DATA 0xFF p)"

definition irq_mask :: "nat \<Rightarrow> pics \<Rightarrow> pics" where
  "irq_mask irq p =
     (let (port, b) = (if irq < 8 then (PIC1_DATA, irq) else (PIC2_DATA, irq - 8))
      in outb port (inb port p OR push_bit b 1) p)"

definition irq_unmask :: "nat \<Rightarrow> pics \<Rightarrow> pics" where
  "irq_unmask irq p =
     (let (port, b, p) =
        (if irq < 8 then (PIC1_DATA, irq, p)
         else (PIC2_DATA, irq - 8, outb PIC1_DATA (inb PIC1_DATA p AND NOT (push_bit 2 1)) p))
      in outb port (inb port p AND NOT (push_bit b 1)) p)"

definition irq_get_mask :: "pics \<Rightarrow> u16" where
  "irq_get_mask p = ucast (inb PIC1_DATA p) OR push_bit 8 (ucast (inb PIC2_DATA p))"

definition pic_send_eoi :: "nat \<Rightarrow> pics \<Rightarrow> pics" where
  "pic_send_eoi irq p =
     (let p = (if irq \<ge> 8 then outb PIC2_COMMAND PIC_EOI p else p) in outb PIC1_COMMAND PIC_EOI p)"

definition irq_install :: "(nat \<Rightarrow> u32) \<Rightarrow> idt_entry list \<Rightarrow> pics \<Rightarrow> idt_entry list \<times> pics" where
  "irq_install irq idt p =
     (let p = pic_init_masks (pic_remap p)
      in (fold (\<lambda>i. idt_set_gate (32 + i) (irq i) 0x08 IDT_FLAGS) [0..<16] idt, p))"

section \<open>Dispatch\<close>

text \<open>A handler is a function on the state of the drivers; an empty slot is a null pointer.\<close>

definition irq_register_handler :: "nat \<Rightarrow> 'h \<Rightarrow> 'h option list \<Rightarrow> 'h option list" where
  "irq_register_handler irq h hs = hs[irq := Some h]"

definition irq_handler :: "('m \<Rightarrow> 'm) option list \<Rightarrow> nat \<Rightarrow> 'm \<times> pics \<Rightarrow> 'm \<times> pics" where
  "irq_handler hs int_no = (\<lambda>(m, p).
     if int_no < 32 \<or> int_no - 32 > 15 then (m, p)
     else let irq_num = int_no - 32;
              m = (case hs ! irq_num of Some h \<Rightarrow> h m | None \<Rightarrow> m)
          in (m, pic_send_eoi irq_num p))"

definition exception_messages :: "cstring list" where
  "exception_messages =
     [''Division By Zero'', ''Debug'', ''Non Maskable Interrupt'', ''Breakpoint'',
      ''Overflow'', ''Bound Range Exceeded'', ''Invalid Opcode'', ''Device Not Available'',
      ''Double Fault'', ''Coprocessor Segment Overrun'', ''Invalid TSS'', ''Segment Not Present'',
      ''Stack-Segment Fault'', ''General Protection Fault'', ''Page Fault'', ''Reserved'',
      ''x87 Floating-Point Exception'', ''Alignment Check'', ''Machine Check'',
      ''SIMD Floating-Point Exception'']"

text \<open>
  \<open>isr_handler\<close> either passes the registers to the system-call handler or prints the
  exception and halts: \<open>Inl\<close> the state of the resumed program, \<open>Inr\<close> the last screen.
\<close>

definition isr_handler :: "('s \<Rightarrow> 's) \<Rightarrow> u32 \<Rightarrow> u32 \<Rightarrow> 's \<Rightarrow> terminal \<Rightarrow> 's + terminal" where
  "isr_handler syscall_handler int_no err_code s t =
     (if int_no = 128 then Inl (syscall_handler s)
      else Inr
        (let t = terminal_writestring ([CHR 0x0A] @ ''[EXCEPTION] '') t;
             t = terminal_writestring
                   (if unat int_no < 20 then exception_messages ! unat int_no else ''Unknown'') t;
             t = terminal_writestring '' (int '' t;
             t = terminal_write_uint int_no t;
             t = terminal_writestring '', err '' t;
             t = terminal_write_uint err_code t
         in terminal_writestring ('') -- system halted'' @ [CHR 0x0A]) t))"


section \<open>Gates\<close>

lemma split_halves: "push_bit 16 (ucast (ucast (drop_bit 16 h AND 0xFFFF) :: u16)) OR ucast (ucast (h AND 0xFFFF) :: u16) = (h :: u32)"
proof -
  have m: "(0xFFFF :: u32) = mask 16" by (simp add: mask_eq_exp_minus_1)
  show ?thesis unfolding m by (rule bit_eqI) (auto simp: bit_simps)
qed

lemma gate_roundtrip:
  assumes "num < length idt"
  shows "gate_target (idt_set_gate num h s f idt ! num) = h" "flags (idt_set_gate num h s f idt ! num) = f"
    "sel (idt_set_gate num h s f idt ! num) = s"
  using assms split_halves [of h] by (simp_all add: idt_set_gate_def gate_target_def)

lemma idt_set_gate_other [simp]: "i \<noteq> num \<Longrightarrow> idt_set_gate num h s f idt ! i = idt ! i"
  by (simp add: idt_set_gate_def)

lemma idt_set_gate_length [simp]: "length (idt_set_gate num h s f idt) = length idt"
  by (simp add: idt_set_gate_def)

text \<open>A run of gates set in a loop.\<close>

definition gate :: "u32 \<Rightarrow> u16 \<Rightarrow> u8 \<Rightarrow> idt_entry" where
  "gate h s f = \<lparr>base_low = ucast (h AND 0xFFFF), sel = s, always0 = 0, flags = f,
     base_high = ucast (drop_bit 16 h AND 0xFFFF)\<rparr>"

lemma idt_set_gate_upd: "idt_set_gate num h s f idt = idt[num := gate h s f]"
  by (simp add: idt_set_gate_def gate_def)

lemma set_gates_length [simp]:
  "length (fold (\<lambda>i. idt_set_gate (b + i) (h i) s f) xs idt) = length idt"
  by (induction xs arbitrary: idt) simp_all

lemma set_gates_nth:
  "k < length idt \<Longrightarrow>
   fold (\<lambda>i. idt_set_gate (b + i) (h i) s f) [0..<n] idt ! k =
     (if b \<le> k \<and> k < b + n then gate (h (k - b)) s f else idt ! k)"
proof (induction n)
  case (Suc n)
  then show ?case by (cases "k = b + n") (auto simp: idt_set_gate_upd [of "b + n"])
qed auto

lemma gate_target_gate [simp]: "gate_target (gate h s f) = h" "flags (gate h s f) = f" "sel (gate h s f) = s"
  using split_halves [of h] by (simp_all add: gate_def gate_target_def)

section \<open>Masks\<close>

definition pics_ready :: "pics \<Rightarrow> bool" where
  "pics_ready p \<longleftrightarrow> init_left (pic1 p) = 0 \<and> init_left (pic2 p) = 0"

lemmas pic_ports = PIC1_COMMAND_def PIC1_DATA_def PIC2_COMMAND_def PIC2_DATA_def PIC_EOI_def

lemma bit_irq_mask: "bit (irq_get_mask p) k \<longleftrightarrow> (if k < 8 then bit (imr (pic1 p)) k else bit (imr (pic2 p)) (k - 8))"
  by (auto simp: irq_get_mask_def inb_def pic_ports bit_simps dest: bit_imp_le_length)

lemma bit_clear: "bit (m AND NOT (push_bit b 1)) k \<longleftrightarrow> bit (m :: u8) k \<and> k \<noteq> b"
  by (auto simp: bit_simps bit_1_iff dest: bit_imp_le_length)

lemma bit_set: "b < 8 \<Longrightarrow> bit (m OR push_bit b 1) k \<longleftrightarrow> bit (m :: u8) k \<or> k = b"
  by (auto simp: bit_simps bit_1_iff)

lemma irq_unmask_chips:
  assumes "pics_ready p"
  shows "irq_unmask irq p =
    (if irq < 8 then p\<lparr>pic1 := (pic1 p)\<lparr>imr := imr (pic1 p) AND NOT (push_bit irq 1)\<rparr>\<rparr>
     else p\<lparr>pic1 := (pic1 p)\<lparr>imr := imr (pic1 p) AND NOT (push_bit 2 1)\<rparr>,
            pic2 := (pic2 p)\<lparr>imr := imr (pic2 p) AND NOT (push_bit (irq - 8) 1)\<rparr>\<rparr>)"
  using assms by (simp add: irq_unmask_def pics_ready_def outb_def inb_def chip_data_def pic_ports)

lemma irq_mask_chips:
  assumes "pics_ready p"
  shows "irq_mask irq p =
    (if irq < 8 then p\<lparr>pic1 := (pic1 p)\<lparr>imr := imr (pic1 p) OR push_bit irq 1\<rparr>\<rparr>
     else p\<lparr>pic2 := (pic2 p)\<lparr>imr := imr (pic2 p) OR push_bit (irq - 8) 1\<rparr>\<rparr>)"
  using assms by (simp add: irq_mask_def pics_ready_def outb_def inb_def chip_data_def pic_ports)

lemma outb_ports:
  "outb PIC1_COMMAND v p = p\<lparr>pic1 := chip_command v (pic1 p)\<rparr>"
  "outb PIC1_DATA v p = p\<lparr>pic1 := chip_data v (pic1 p)\<rparr>"
  "outb PIC2_COMMAND v p = p\<lparr>pic2 := chip_command v (pic2 p)\<rparr>"
  "outb PIC2_DATA v p = p\<lparr>pic2 := chip_data v (pic2 p)\<rparr>"
  "io_wait p = p" "inb PIC1_DATA p = imr (pic1 p)" "inb PIC2_DATA p = imr (pic2 p)"
  by (simp_all add: outb_def inb_def io_wait_def pic_ports)

lemma chip_initialise:
  "bit v 4 \<Longrightarrow> chip_data m (chip_data d (chip_data c (chip_data b (chip_command v x)))) =
     x\<lparr>vector_base := b, init_left := 0, imr := m\<rparr>"
  by (simp add: chip_command_def chip_data_def)

lemma pic_remap_effect:
  "pic_remap p = p\<lparr>pic1 := (pic1 p)\<lparr>vector_base := 0x20, init_left := 0\<rparr>,
     pic2 := (pic2 p)\<lparr>vector_base := 0x28, init_left := 0\<rparr>\<rparr>"
proof -
  have "bit (0x10 OR 0x01 :: u8) 4" by code_simp
  from chip_initialise [OF this] show ?thesis
    unfolding pic_remap_def Let_def outb_ports by (cases p; cases "pic1 p"; cases "pic2 p") simp
qed

section \<open>Properties\<close>

text \<open>The interrupt table after \<open>idt_init\<close>, \<open>isr_install\<close> and \<open>irq_install\<close>: the vectors 0
  to 19 lead to the exception stubs, 32 to 47 to the sixteen interrupt stubs and 128 to the
  system-call stub; the addresses survive being split over two fields. Of all vectors only
  128 has privilege level 3 in its flags, so user programs can raise no other, and every
  other vector is not present.\<close>

theorem interrupt_table:
  assumes "length idt = IDT_ENTRIES" "k < IDT_ENTRIES"
    "idt' = fst (irq_install irq (isr_install isr (idt_init idt)) p)"
  shows "gate_target (idt' ! k) =
      (if k < 20 \<or> k = 128 then isr k else if 32 \<le> k \<and> k < 48 then irq (k - 32) else 0)
    \<and> flags (idt' ! k) = (if k = 128 then IDT_FLAGS_USER
        else if k < 20 \<or> 32 \<le> k \<and> k < 48 then IDT_FLAGS else 0)"
proof -
  have init: "idt_init idt ! k = gate 0 0 0" "length (idt_init idt) = IDT_ENTRIES"
    using set_gates_nth [of k idt 0 "\<lambda>_. 0" 0 0 IDT_ENTRIES] set_gates_length [of 0 "\<lambda>_. 0" 0 0 "[0..<IDT_ENTRIES]" idt] assms
    by (simp_all add: idt_init_def)
  let ?j = "isr_install isr (idt_init idt)"
  have isr: "?j ! k = (if k = 128 then gate (isr 128) 8 IDT_FLAGS_USER
      else if k < 20 then gate (isr k) 8 IDT_FLAGS else gate 0 0 0)" "length ?j = IDT_ENTRIES"
    using set_gates_nth [of k "idt_init idt" 0 isr 8 IDT_FLAGS 20] set_gates_length [of 0 isr 8 IDT_FLAGS "[0..<20]" "idt_init idt"]
      init assms(2)
    by (simp_all add: isr_install_def idt_set_gate_upd [of 128] nth_list_update del: upt_rec_numeral)
  have "idt' ! k = (if 32 \<le> k \<and> k < 48 then gate (irq (k - 32)) 8 IDT_FLAGS else ?j ! k)"
    using set_gates_nth [of k ?j 32 irq 8 IDT_FLAGS 16] isr(2) assms(2,3)
    by (simp add: irq_install_def Let_def del: upt_rec_numeral)
  with isr(1) show ?thesis by auto
qed

definition zero_idt :: "idt_entry list" where
  "zero_idt = replicate IDT_ENTRIES \<lparr>base_low = 0, sel = 0, always0 = 0, flags = 0, base_high = 0\<rparr>"

definition zero_pics :: pics where
  "zero_pics = \<lparr>pic1 = \<lparr>imr = 0, init_left = 0, vector_base = 0, eois = 0\<rparr>,
     pic2 = \<lparr>imr = 0, init_left = 0, vector_base = 0, eois = 0\<rparr>\<rparr>"

theorem interrupt_table_witness:
  "gate_target (fst (irq_install (\<lambda>i. 0x100200 + of_nat i) (isr_install (\<lambda>i. 0x100000 + of_nat i) (idt_init zero_idt))
     zero_pics) ! 33) = 0x100201"
  using interrupt_table [of zero_idt 33 _ "\<lambda>i. 0x100200 + of_nat i" "\<lambda>i. 0x100000 + of_nat i" zero_pics, OF _ _ refl]
  by (simp add: zero_idt_def IDT_ENTRIES_def)

text \<open>After \<open>irq_install\<close> the controllers deliver IRQ 0 to 7 at the vectors 32 to 39 and
  IRQ 8 to 15 at 40 to 47, clear of the exceptions, and every line is masked; from then on
  \<open>irq_unmask\<close> and \<open>irq_mask\<close> change exactly the line they name, except that unmasking a line
  of the second controller also opens the cascade line 2.\<close>

theorem irq_masks:
  assumes "q = snd (irq_install irq idt p)" "i < 16" "j < 16" "pics_ready r"
  shows "vector_base (pic1 q) = 0x20 \<and> vector_base (pic2 q) = 0x28 \<and> pics_ready q
    \<and> bit (irq_get_mask q) j
    \<and> (bit (irq_get_mask (irq_unmask i r)) j \<longleftrightarrow> bit (irq_get_mask r) j \<and> j \<noteq> i \<and> \<not> (i \<ge> 8 \<and> j = 2))
    \<and> (bit (irq_get_mask (irq_mask i r)) j \<longleftrightarrow> bit (irq_get_mask r) j \<or> j = i)
    \<and> pics_ready (irq_unmask i r) \<and> pics_ready (irq_mask i r)"
proof -
  have ones: "bit (0xFF :: u8) k" if "k < 8" for k
  proof -
    have "(0xFF :: u8) = mask 8" by (simp add: mask_eq_exp_minus_1)
    then show ?thesis using that by (simp only: bit_mask_iff) (simp add: possible_bit_def)
  qed
  have "q = p\<lparr>pic1 := (pic1 p)\<lparr>vector_base := 0x20, init_left := 0, imr := 0xFF\<rparr>,
     pic2 := (pic2 p)\<lparr>vector_base := 0x28, init_left := 0, imr := 0xFF\<rparr>\<rparr>"
    using assms(1) by (simp add: irq_install_def Let_def pic_remap_effect pic_init_masks_def outb_def chip_data_def pic_ports)
  then have "vector_base (pic1 q) = 0x20 \<and> vector_base (pic2 q) = 0x28 \<and> pics_ready q \<and> bit (irq_get_mask q) j"
    using ones [of j] ones [of "j - 8"] assms(3) by (cases "j < 8") (simp_all add: pics_ready_def bit_irq_mask)
  moreover have "bit (irq_get_mask (irq_unmask i r)) j \<longleftrightarrow> bit (irq_get_mask r) j \<and> j \<noteq> i \<and> \<not> (i \<ge> 8 \<and> j = 2)"
    using assms(2,3) by (auto simp: bit_irq_mask irq_unmask_chips [OF assms(4)] bit_clear simp del: push_bit_of_1)
  moreover have "bit (irq_get_mask (irq_mask i r)) j \<longleftrightarrow> bit (irq_get_mask r) j \<or> j = i"
    using assms(2,3) by (auto simp: bit_irq_mask irq_mask_chips [OF assms(4)] bit_set simp del: push_bit_of_1)
  moreover have "pics_ready (irq_unmask i r) \<and> pics_ready (irq_mask i r)"
    using assms(4) by (simp add: irq_unmask_chips [OF assms(4)] irq_mask_chips [OF assms(4)] pics_ready_def)
  ultimately show ?thesis by blast
qed

theorem irq_masks_witness:
  "\<not> bit (irq_get_mask (irq_unmask 12 zero_pics)) 2 \<and> bit (irq_get_mask (irq_mask 1 zero_pics)) 1"
  using irq_masks [OF refl, of 12 2 zero_pics "\<lambda>_. 0" zero_idt zero_pics]
    irq_masks [OF refl, of 1 1 zero_pics "\<lambda>_. 0" zero_idt zero_pics]
  by (simp add: pics_ready_def zero_pics_def)

text \<open>The segments after \<open>gdt_install\<close>: code and data segments for the kernel (privilege
  level 0) and for user programs (level 3), all flat over the 4 GB address space, and a task
  state segment whose descriptor holds the address and size of the task state, with the
  kernel stack in it.\<close>

theorem gdt_segments:
  assumes "length gdt = 6" "(gdt', tss) = gdt_install tss_addr kstack gdt"
  shows "map seg_base gdt' = [0, 0, 0, 0, 0, tss_addr]
    \<and> map seg_limit gdt' = [0, 0xFFFFF, 0xFFFFF, 0xFFFFF, 0xFFFFF, 103]
    \<and> map access gdt' = [0, 0x9A, 0x92, 0xFA, 0xF2, 0xE9]
    \<and> esp0 tss = kstack + 8192 \<and> ss0 tss = 0x10"
proof -
  obtain a b c d e f where gdt: "gdt = [a, b, c, d, e, f]"
    using assms(1) by (auto simp: length_Suc_conv eval_nat_numeral)
  have m: "(0xFFFF :: u32) = mask 16" "(0xFF :: u32) = mask 8" by (simp_all add: mask_eq_exp_minus_1)
  have base: "push_bit 24 (ucast (ucast (drop_bit 24 h AND 0xFF) :: u8)) OR push_bit 16 (ucast (ucast (drop_bit 16 h AND 0xFF) :: u8))
      OR ucast (ucast (h AND 0xFFFF) :: u16) = h" for h :: u32
    unfolding m
    apply (rule bit_eqI)
    subgoal for n by (cases "n < 24") (auto simp: bit_simps)
    done
  show ?thesis
    using assms(2) base [of tss_addr]
    by (simp add: gdt gdt_install_def write_tss_def gdt_set_gate_def seg_base_def seg_limit_def Let_def)
qed

definition zero_gdt :: "gdt_entry list" where
  "zero_gdt = replicate 6 \<lparr>limit_low = 0, gbase_low = 0, base_middle = 0, access = 0, granularity = 0, gbase_high = 0\<rparr>"

theorem gdt_segments_witness:
  "esp0 (snd (gdt_install 0x108000 0x109000 zero_gdt)) = 0x10B000"
  using gdt_segments [of zero_gdt _ _ "0x108000" "0x109000", OF _ prod.collapse]
  by (simp add: zero_gdt_def)

end
