(* ===== verification/Allocators.thy ===== *)
theory Allocators
  imports Prelude
begin

text \<open>
  The interface of a memory allocator that hands out regions of a heap: the kernel heap
  (\<open>kmalloc\<close>, \<open>kfree\<close>) and the user heap (\<open>malloc\<close>, \<open>free\<close>) provide it, the scheduler
  relies on it for its stacks. A region is its first address and its length; the null
  pointer 0 is the refusal.
\<close>

definition disjoint_regions :: "nat \<times> nat \<Rightarrow> nat \<times> nat \<Rightarrow> bool" where
  "disjoint_regions x y \<longleftrightarrow> fst x + snd x \<le> fst y \<or> fst y + snd y \<le> fst x"

locale region_allocator =
  fixes invar :: "'s \<Rightarrow> bool"
    and regions :: "'s \<Rightarrow> (nat \<times> nat) set"
    and alloc :: "nat \<Rightarrow> 's \<Rightarrow> (nat \<times> 's) option"
    and release :: "nat \<Rightarrow> 's \<Rightarrow> 's option"
    and limit :: nat
  assumes alloc_returns: "invar s \<Longrightarrow> n \<le> limit \<Longrightarrow> \<exists>p s'. alloc n s = Some (p, s') \<and> invar s'"
    and alloc_refused: "invar s \<Longrightarrow> n \<le> limit \<Longrightarrow> alloc n s = Some (0, s') \<Longrightarrow> regions s' = regions s"
    and alloc_granted: "invar s \<Longrightarrow> alloc n s = Some (p, s') \<Longrightarrow> p \<noteq> 0 \<Longrightarrow> n \<le> limit \<Longrightarrow>
      \<exists>m \<ge> n. regions s' = insert (p, m) (regions s) \<and> (\<forall>x \<in> regions s. disjoint_regions (p, m) x)"
    and regions_disjoint: "invar s \<Longrightarrow> x \<in> regions s \<Longrightarrow> y \<in> regions s \<Longrightarrow> x \<noteq> y \<Longrightarrow>
      disjoint_regions x y"
    and release_region: "invar s \<Longrightarrow> (p, m) \<in> regions s \<Longrightarrow>
      \<exists>s'. release p s = Some s' \<and> invar s' \<and> regions s' = regions s - {(p, m)}"
begin

text \<open>A region stays allocated, at the same place and length, until it is released.\<close>

lemma alloc_keeps:
  "invar s \<Longrightarrow> alloc n s = Some (p, s') \<Longrightarrow> n \<le> limit \<Longrightarrow> regions s \<subseteq> regions s'"
  using alloc_refused [of s n s'] alloc_granted [of s n p s'] by (cases "p = 0") auto

fun alloc_all :: "nat list \<Rightarrow> 's \<Rightarrow> (nat list \<times> 's) option" where
  "alloc_all [] s = Some ([], s)"
| "alloc_all (n # ns) s = do {
     (p, s) \<leftarrow> alloc n s;
     (ps, s) \<leftarrow> alloc_all ns s;
     Some (p # ps, s)
   }"

lemma alloc_all_returns:
  "invar s \<Longrightarrow> \<forall>n \<in> set ns. n \<le> limit \<Longrightarrow> \<exists>ps s'. alloc_all ns s = Some (ps, s') \<and> invar s' \<and> length ps = length ns"
proof (induction ns arbitrary: s)
  case (Cons n ns)
  obtain p s1 where s1: "alloc n s = Some (p, s1)" "invar s1"
    using alloc_returns [OF Cons.prems(1), of n] Cons.prems(2) by auto
  with Cons.IH [OF s1(2)] Cons.prems(2) show ?case by auto
qed simp

text \<open>A granted region is inside the heap's regions at the end of any further requests.\<close>

lemma alloc_all_keeps:
  "invar s \<Longrightarrow> alloc_all ns s = Some (ps, s') \<Longrightarrow> \<forall>n \<in> set ns. n \<le> limit \<Longrightarrow> regions s \<subseteq> regions s'"
proof (induction ns arbitrary: s ps)
  case (Cons n ns)
  then obtain p qs s1 where s1: "alloc n s = Some (p, s1)" "alloc_all ns s1 = Some (qs, s')"
    by (auto simp: bind_eq_Some_conv)
  have "invar s1" using alloc_returns [OF Cons.prems(1), of n] s1(1) Cons.prems(3) by auto
  with Cons s1 alloc_keeps [OF Cons.prems(1) s1(1)] show ?case by auto
qed simp

end

end
