(* ===== verification/Kmalloc.thy ===== *)
theory Kmalloc
  imports Allocators
begin

text \<open>
  The first-fit kernel heap of \<open>src/src/kmalloc.c\<close>: block headers linked through memory
  in the window 0x200000 to 0x300000, with splitting and coalescing. \<open>size_t\<close> values are
  natural numbers below \<open>2 ^ 32\<close> with the wrap-around written out. The headers are a map
  from addresses, so a loop follows the \<open>next\<close> pointers through memory as the code does;
  \<open>None\<close> is the result of a loop that would not return or of reading a header where there
  is none. The bytes of the payloads are \<open>bytes\<close>.
\<close>

section \<open>State and operations\<close>

definition KHEAP_START :: nat where "KHEAP_START = 0x200000"
definition KHEAP_SIZE :: nat where "KHEAP_SIZE = 0x100000"
definition ALIGN :: nat where "ALIGN = 8"
definition HDR :: nat where "HDR = 12"

abbreviation wrap32 :: "nat \<Rightarrow> nat" where
  "wrap32 n \<equiv> n mod 2 ^ 32"

record kblock =
  bsize :: nat
  bfree :: bool
  bnext :: nat

record kheap =
  hdrs :: "nat \<rightharpoonup> kblock"
  head :: nat
  heap_used :: nat
  bytes :: "nat \<Rightarrow> u8"

definition align_up :: "nat \<Rightarrow> nat" where
  "align_up n = wrap32 (n + (ALIGN - 1)) div ALIGN * ALIGN"

definition hdr_of :: "nat \<Rightarrow> nat" where
  "hdr_of ptr = wrap32 (ptr + (2 ^ 32 - HDR))"

definition kmalloc_init :: "kheap \<Rightarrow> kheap" where
  "kmalloc_init s =
     s\<lparr>head := KHEAP_START,
       hdrs := (hdrs s)(KHEAP_START \<mapsto> \<lparr>bsize = KHEAP_SIZE - HDR, bfree = True, bnext = 0\<rparr>),
       heap_used := 0\<rparr>"

definition split_block :: "nat \<Rightarrow> nat \<Rightarrow> (nat \<rightharpoonup> kblock) \<Rightarrow> (nat \<rightharpoonup> kblock) option" where
  "split_block b sz m = do {
     blk \<leftarrow> m b;
     let total = wrap32 (HDR + bsize blk);
     let need = wrap32 (HDR + sz);
     if total < wrap32 (need + HDR + ALIGN) then Some m
     else do {
       let n = wrap32 (b + need);
       let m = m(n \<mapsto> \<lparr>bsize = bsize blk - sz - HDR, bfree = True, bnext = bnext blk\<rparr>);
       Some (m(b \<mapsto> blk\<lparr>bsize := sz, bnext := n\<rparr>))
     }
   }"

partial_function (option) coalesce_loop :: "(nat \<rightharpoonup> kblock) \<Rightarrow> nat \<Rightarrow> (nat \<rightharpoonup> kblock) option" where
  "coalesce_loop m b =
     (if b = 0 then Some m
      else do {
        blk \<leftarrow> m b;
        if bnext blk = 0 then Some m
        else do {
          nx \<leftarrow> m (bnext blk);
          if bfree blk \<and> bfree nx
          then coalesce_loop (m(b \<mapsto> blk\<lparr>bsize := wrap32 (bsize blk + (HDR + bsize nx)),
                                          bnext := bnext nx\<rparr>)) b
          else coalesce_loop m (bnext blk)
        }
      })"

definition coalesce :: "kheap \<Rightarrow> kheap option" where
  "coalesce s = do { m \<leftarrow> coalesce_loop (hdrs s) (head s); Some (s\<lparr>hdrs := m\<rparr>) }"

partial_function (option) kmalloc_loop :: "kheap \<Rightarrow> nat \<Rightarrow> nat \<Rightarrow> (nat \<times> kheap) option" where
  "kmalloc_loop s sz b =
     (if b = 0 then Some (0, s)
      else do {
        blk \<leftarrow> hdrs s b;
        if bfree blk \<and> bsize blk \<ge> sz
        then do {
          m \<leftarrow> split_block b sz (hdrs s);
          blk \<leftarrow> m b;
          Some (b + HDR, s\<lparr>hdrs := m(b \<mapsto> blk\<lparr>bfree := False\<rparr>),
                             heap_used := wrap32 (heap_used s + bsize blk)\<rparr>)
        }
        else kmalloc_loop s sz (bnext blk)
      })"

definition kmalloc :: "nat \<Rightarrow> kheap \<Rightarrow> (nat \<times> kheap) option" where
  "kmalloc sz s = (if sz = 0 then Some (0, s) else kmalloc_loop s (align_up sz) (head s))"

definition kfree :: "nat \<Rightarrow> kheap \<Rightarrow> kheap option" where
  "kfree ptr s =
     (if ptr = 0 then Some s
      else do {
        let b = hdr_of ptr;
        blk \<leftarrow> hdrs s b;
        if bfree blk then Some s
        else coalesce (s\<lparr>heap_used := (if heap_used s \<ge> bsize blk then heap_used s - bsize blk else 0),
                         hdrs := (hdrs s)(b \<mapsto> blk\<lparr>bfree := True\<rparr>)\<rparr>)
      })"

definition copy_loop :: "nat \<Rightarrow> nat \<Rightarrow> nat \<Rightarrow> (nat \<Rightarrow> u8) \<Rightarrow> nat \<Rightarrow> u8" where
  "copy_loop dst src k mem = fold (\<lambda>i mem. mem(dst + i := mem (src + i))) [0..<k] mem"

definition krealloc :: "nat \<Rightarrow> nat \<Rightarrow> kheap \<Rightarrow> (nat \<times> kheap) option" where
  "krealloc ptr sz s =
     (if ptr = 0 then kmalloc sz s
      else if sz = 0 then do { s \<leftarrow> kfree ptr s; Some (0, s) }
      else do {
        blk \<leftarrow> hdrs s (hdr_of ptr);
        if bsize blk \<ge> sz then Some (ptr, s)
        else do {
          (n, s) \<leftarrow> kmalloc sz s;
          if n = 0 then Some (0, s)
          else do {
            blk \<leftarrow> hdrs s (hdr_of ptr);
            let s = s\<lparr>bytes := copy_loop n ptr (bsize blk) (bytes s)\<rparr>;
            s \<leftarrow> kfree ptr s;
            Some (n, s)
          }
        }
      })"

partial_function (option) free_total :: "(nat \<rightharpoonup> kblock) \<Rightarrow> nat \<Rightarrow> nat \<Rightarrow> nat option" where
  "free_total m b f =
     (if b = 0 then Some f
      else do {
        blk \<leftarrow> m b;
        free_total m (bnext blk) (if bfree blk then wrap32 (f + bsize blk) else f)
      })"

definition kmalloc_stats :: "kheap \<Rightarrow> (nat \<times> nat \<times> nat) option" where
  "kmalloc_stats s = do {
     f \<leftarrow> free_total (hdrs s) (head s) 0;
     Some (heap_used s, KHEAP_SIZE, f)
   }"

section \<open>The heap as a list of blocks\<close>

text \<open>
  The abstract heap is the list of its blocks in address order: first address, payload
  size, free or not. \<open>chain\<close> says that the headers linked from a pointer are these
  blocks; \<open>tiles\<close> that they lie end to end.
\<close>

type_synonym ablock = "nat \<times> nat \<times> bool"

abbreviation first_addr :: "ablock list \<Rightarrow> nat" where
  "first_addr bs \<equiv> (case bs of [] \<Rightarrow> 0 | (a, _, _) # _ \<Rightarrow> a)"

fun chain :: "(nat \<rightharpoonup> kblock) \<Rightarrow> ablock list \<Rightarrow> bool" where
  "chain m [] = True"
| "chain m ((a, n, f) # bs) =
     (m a = Some \<lparr>bsize = n, bfree = f, bnext = first_addr bs\<rparr> \<and> chain m bs)"

fun tiles :: "nat \<Rightarrow> ablock list \<Rightarrow> nat \<Rightarrow> bool" where
  "tiles a [] e = (a = e)"
| "tiles a ((b, n, f) # bs) e = (b = a \<and> tiles (a + HDR + n) bs e)"

definition used_bytes :: "ablock list \<Rightarrow> nat" where
  "used_bytes bs = sum_list (map (\<lambda>(a, n, f). if f then 0 else n) bs)"

definition free_bytes :: "ablock list \<Rightarrow> nat" where
  "free_bytes bs = sum_list (map (\<lambda>(a, n, f). if f then n else 0) bs)"

fun coalesced :: "ablock list \<Rightarrow> bool" where
  "coalesced ((a, n, f) # (b, k, g) # bs) = (\<not> (f \<and> g) \<and> coalesced ((b, k, g) # bs))"
| "coalesced _ = True"

definition heap_ok :: "kheap \<Rightarrow> ablock list \<Rightarrow> bool" where
  "heap_ok s bs \<longleftrightarrow> bs \<noteq> [] \<and> head s = first_addr bs \<and> chain (hdrs s) bs
     \<and> tiles KHEAP_START bs (KHEAP_START + KHEAP_SIZE) \<and> heap_used s = used_bytes bs
     \<and> coalesced bs"

fun acoalesce :: "ablock list \<Rightarrow> ablock list" where
  "acoalesce ((a, n, f) # (b, k, g) # bs) =
     (if f \<and> g then acoalesce ((a, n + (HDR + k), True) # bs)
      else (a, n, f) # acoalesce ((b, k, g) # bs))"
| "acoalesce [x] = [x]"
| "acoalesce [] = []"

definition asplit :: "nat \<Rightarrow> nat \<Rightarrow> nat \<Rightarrow> ablock list" where
  "asplit a n sz =
     (if HDR + n < HDR + sz + HDR + ALIGN then [(a, n, False)]
      else [(a, sz, False), (a + HDR + sz, n - sz - HDR, True)])"

fun aalloc :: "nat \<Rightarrow> ablock list \<Rightarrow> ablock list" where
  "aalloc sz [] = []"
| "aalloc sz ((a, n, f) # bs) =
     (if f \<and> n \<ge> sz then asplit a n sz @ bs else (a, n, f) # aalloc sz bs)"

fun afree :: "nat \<Rightarrow> ablock list \<Rightarrow> ablock list" where
  "afree a [] = []"
| "afree a ((b, n, f) # bs) = (if b = a then (b, n, True) # bs else (b, n, f) # afree a bs)"


section \<open>The block list and the headers in memory\<close>

lemmas kmalloc_consts [simp] = KHEAP_START_def KHEAP_SIZE_def ALIGN_def HDR_def

lemma tiles_le: "tiles a bs e \<Longrightarrow> a \<le> e"
  by (induction a bs e rule: tiles.induct) auto

lemma tiles_bounds:
  "tiles a bs e \<Longrightarrow> (b, n, f) \<in> set bs \<Longrightarrow> a \<le> b \<and> b + 12 + n \<le> e"
  by (induction a bs e rule: tiles.induct) (auto dest: tiles_le)

lemma tiles_first: "tiles a bs e \<Longrightarrow> bs \<noteq> [] \<Longrightarrow> first_addr bs = a"
  by (cases bs) auto

lemma chain_upd:
  "tiles a bs e \<Longrightarrow> x < a \<or> e \<le> x \<Longrightarrow> chain (m(x := v)) bs = chain m bs"
  by (induction a bs e rule: tiles.induct) (auto dest: tiles_le)

lemma chain_cong:
  "tiles a bs e \<Longrightarrow> (\<And>x. a \<le> x \<Longrightarrow> x < e \<Longrightarrow> m' x = m x) \<Longrightarrow> chain m' bs = chain m bs"
proof (induction a bs e rule: tiles.induct)
  case (2 a b n f bs e)
  then have t: "b = a" "tiles (a + 12 + n) bs e" by auto
  have "chain m' bs = chain m bs" using t by (intro 2(1)) (auto intro: 2(3))
  moreover have "m' a = m a" using tiles_le [OF t(2)] by (intro 2(3)) auto
  ultimately show ?case using t by simp
qed simp

abbreviation fits :: "nat \<Rightarrow> ablock \<Rightarrow> bool" where
  "fits sz \<equiv> \<lambda>(a, n, f). f \<and> sz \<le> n"

lemma find_fits: "find (fits sz) bs = Some x \<Longrightarrow> x \<in> set bs"
  by (metis find_Some_iff nth_mem)

definition grant :: "nat \<Rightarrow> nat \<Rightarrow> nat \<Rightarrow> nat \<Rightarrow> (nat \<rightharpoonup> kblock) \<Rightarrow> (nat \<rightharpoonup> kblock)" where
  "grant a n sz nx m =
     (if n < sz + 20 then m(a \<mapsto> \<lparr>bsize = n, bfree = False, bnext = nx\<rparr>)
      else m(a + 12 + sz \<mapsto> \<lparr>bsize = n - sz - 12, bfree = True, bnext = nx\<rparr>,
             a \<mapsto> \<lparr>bsize = sz, bfree = False, bnext = a + 12 + sz\<rparr>))"

definition granted_size :: "nat \<Rightarrow> nat \<Rightarrow> nat" where
  "granted_size n sz = (if n < sz + 20 then n else sz)"

lemma split_block_grant:
  assumes "m a = Some \<lparr>bsize = n, bfree = True, bnext = nx\<rparr>" "sz \<le> n" "a + 12 + n < 2 ^ 32 - 64"
  shows "\<exists>m' blk. split_block a sz m = Some m' \<and> m' a = Some blk
    \<and> m'(a \<mapsto> blk\<lparr>bfree := False\<rparr>) = grant a n sz nx m \<and> bsize blk = granted_size n sz"
  using assms by (cases "n < sz + 20") (simp_all add: split_block_def grant_def granted_size_def Let_def add_ac)

lemma kmalloc_loop_spec:
  assumes "chain (hdrs s) bs" "tiles a bs e" "0 < a" "e < 2 ^ 32 - 64"
  shows "case find (fits sz) bs of
      None \<Rightarrow> kmalloc_loop s sz (first_addr bs) = Some (0, s)
    | Some (b, n, f) \<Rightarrow> \<exists>nx. hdrs s b = Some \<lparr>bsize = n, bfree = True, bnext = nx\<rparr>
        \<and> kmalloc_loop s sz (first_addr bs) =
            Some (b + 12, s\<lparr>hdrs := grant b n sz nx (hdrs s),
                            heap_used := wrap32 (heap_used s + granted_size n sz)\<rparr>)"
  using assms
proof (induction a bs e rule: tiles.induct)
  case (1 a e)
  then show ?case by (simp add: kmalloc_loop.simps)
next
  case (2 a b n f bs e)
  then have t: "b = a" "tiles (a + 12 + n) bs e" by auto
  note le = tiles_le [OF t(2)]
  have blk: "hdrs s a = Some \<lparr>bsize = n, bfree = f, bnext = first_addr bs\<rparr>" and c: "chain (hdrs s) bs"
    using 2(2) t by auto
  show ?case
  proof (cases "f \<and> sz \<le> n")
    case True
    then have "\<exists>m' blk. split_block a sz (hdrs s) = Some m' \<and> m' a = Some blk
        \<and> m'(a \<mapsto> blk\<lparr>bfree := False\<rparr>) = grant a n sz (first_addr bs) (hdrs s) \<and> bsize blk = granted_size n sz"
      using blk le 2 by (intro split_block_grant) auto
    then obtain m' blk' where "split_block a sz (hdrs s) = Some m'" "m' a = Some blk'"
      "m'(a \<mapsto> blk'\<lparr>bfree := False\<rparr>) = grant a n sz (first_addr bs) (hdrs s)" "bsize blk' = granted_size n sz"
      by blast
    with True show ?thesis using blk t 2(4) by (simp add: kmalloc_loop.simps)
  next
    case False
    have "0 < a + 12 + n" by simp
    then show ?thesis using False 2(1) c t 2(4,5) blk
      by (auto simp: kmalloc_loop.simps [of s sz a] split: option.splits)
  qed
qed

lemma chain_grant:
  assumes "chain m bs" "tiles a bs e" "find (fits sz) bs = Some (b, n, f)"
    "m b = Some \<lparr>bsize = n, bfree = True, bnext = nx\<rparr>"
  shows "chain (grant b n sz nx m) (aalloc sz bs)"
  using assms
proof (induction a bs e rule: tiles.induct)
  case (2 a c k g bs e)
  then have t: "c = a" "tiles (a + 12 + k) bs e" by auto
  show ?case
  proof (cases "g \<and> sz \<le> k")
    case True
    then have "b = a" "n = k" "nx = first_addr bs" using 2 t by auto
    moreover have "chain (grant a k sz (first_addr bs) m) bs"
      using 2(2) t by (simp add: grant_def chain_upd [OF t(2)] del: fun_upd_apply)
    moreover have "\<not> k < sz + 20 \<Longrightarrow> bs \<noteq> [] \<Longrightarrow> first_addr bs \<noteq> a" using tiles_first [OF t(2)] by simp
    ultimately show ?thesis using True 2(2) t by (simp add: asplit_def) (simp add: grant_def)
  next
    case False
    then have fnd: "find (fits sz) bs = Some (b, n, f)" using 2(4) by auto
    then have "(b, n, f) \<in> set bs" by (rule find_fits)
    from tiles_bounds [OF t(2) this] have "a \<noteq> b" "a \<noteq> b + 12 + sz" by auto
    then have "grant b n sz nx m a = m a" by (simp add: grant_def)
    moreover have "first_addr (aalloc sz bs) = first_addr bs"
      by (cases bs) (auto simp: asplit_def)
    moreover have "chain (grant b n sz nx m) (aalloc sz bs)" using 2(1,2,5) t fnd by auto
    ultimately show ?thesis using False 2(2) t by auto
  qed
qed simp

lemma tiles_append: "tiles a (xs @ ys) e \<longleftrightarrow> (\<exists>b. tiles a xs b \<and> tiles b ys e)"
  by (induction a xs e rule: tiles.induct) (auto simp: add.assoc)

lemma tiles_aalloc: "tiles a bs e \<Longrightarrow> tiles a (aalloc sz bs) e"
  by (induction a bs e rule: tiles.induct) (auto simp: asplit_def add_ac)

text \<open>What the block list says about the memory handed out.\<close>

definition used_regions :: "ablock list \<Rightarrow> (nat \<times> nat) set" where
  "used_regions bs = {(a + 12, n) | a n. (a, n, False) \<in> set bs}"

lemma used_regions_simps [simp]:
  "used_regions [] = {}"
  "used_regions ((a, n, f) # bs) = (if f then used_regions bs else insert (a + 12, n) (used_regions bs))"
  by (auto simp: used_regions_def)

lemma used_regions_mem: "(a + 12, n) \<in> used_regions bs \<longleftrightarrow> (a, n, False) \<in> set bs"
  by (auto simp: used_regions_def)

lemma used_bytes_simps [simp]:
  "used_bytes [] = 0"
  "used_bytes ((a, n, f) # bs) = (if f then 0 else n) + used_bytes bs"
  by (auto simp: used_bytes_def)

lemma free_bytes_simps [simp]:
  "free_bytes [] = 0"
  "free_bytes ((a, n, f) # bs) = (if f then n else 0) + free_bytes bs"
  by (auto simp: free_bytes_def)

lemma aalloc_regions:
  "find (fits sz) bs = Some (b, n, f) \<Longrightarrow>
   used_regions (aalloc sz bs) = insert (b + 12, granted_size n sz) (used_regions bs)"
  by (induction sz bs rule: aalloc.induct) (auto simp: asplit_def granted_size_def split: if_splits)

lemma aalloc_used:
  "find (fits sz) bs = Some (b, n, f) \<Longrightarrow>
   used_bytes (aalloc sz bs) = used_bytes bs + granted_size n sz"
  by (induction sz bs rule: aalloc.induct) (auto simp: asplit_def granted_size_def split: if_splits)

lemma tiles_account:
  "tiles a bs e \<Longrightarrow> e = a + used_bytes bs + free_bytes bs + 12 * length bs"
  by (induction a bs e rule: tiles.induct) (auto dest: tiles_le)

lemma tiles_disjoint:
  "tiles a bs e \<Longrightarrow> (b, n, f) \<in> set bs \<Longrightarrow> (c, k, g) \<in> set bs \<Longrightarrow> (b, n, f) \<noteq> (c, k, g) \<Longrightarrow>
   b + 12 + n \<le> c \<or> c + 12 + k \<le> b"
  by (induction a bs e rule: tiles.induct) (auto dest: tiles_bounds)

lemma coalesced_Cons_used [simp]: "coalesced ((a, n, False) # bs) = coalesced bs"
  by (cases bs) auto

lemma coalesced_Cons_free:
  "coalesced ((a, n, True) # bs) \<longleftrightarrow> coalesced bs \<and> (case bs of [] \<Rightarrow> True | (b, k, g) # _ \<Rightarrow> \<not> g)"
  by (cases bs) auto

lemma coalesced_aalloc: "coalesced bs \<Longrightarrow> coalesced (aalloc sz bs)"
proof (induction bs)
  case (Cons x bs)
  obtain a n f where x: "x = (a, n, f)" by (cases x)
  show ?case
    using Cons unfolding x
    by (cases f; cases bs) (auto simp: coalesced_Cons_free asplit_def split: list.splits)
qed simp

text \<open>\<open>coalesce\<close> joins every run of adjacent free blocks and changes nothing else.\<close>

lemma tiles_acoalesce: "tiles a bs e \<Longrightarrow> tiles a (acoalesce bs) e"
  by (induction bs arbitrary: a rule: acoalesce.induct) (auto simp: add_ac)

lemma acoalesce_used [simp]: "used_bytes (acoalesce bs) = used_bytes bs"
  by (induction bs rule: acoalesce.induct) auto

lemma acoalesce_regions [simp]: "used_regions (acoalesce bs) = used_regions bs"
  by (induction bs rule: acoalesce.induct) auto

lemma acoalesce_first [simp]: "first_addr (acoalesce bs) = first_addr bs"
  by (induction bs rule: acoalesce.induct) auto

lemma acoalesce_empty [simp]: "acoalesce bs = [] \<longleftrightarrow> bs = []"
  by (induction bs rule: acoalesce.induct) auto

lemma acoalesce_hd: "\<exists>k bs'. acoalesce ((a, n, f) # bs) = (a, k, f) # bs'"
  by (induction "(a, n, f) # bs" arbitrary: n bs rule: acoalesce.induct) auto

lemma coalesced_acoalesce: "coalesced (acoalesce bs)"
proof (induction bs rule: acoalesce.induct)
  case (1 a n f b k g bs)
  then show ?case using acoalesce_hd [of b k g bs] by auto
qed auto

lemma coalesce_loop_spec:
  assumes "chain m bs" "tiles a bs e" "0 < a" "e < 2 ^ 32" "bs \<noteq> []"
  shows "\<exists>m'. coalesce_loop m a = Some m' \<and> chain m' (acoalesce bs)
    \<and> (\<forall>x. x < a \<longrightarrow> m' x = m x)"
  using assms
proof (induction bs arbitrary: a m rule: acoalesce.induct)
  case (1 b n f c k g bs)
  then have t: "b = a" "c = a + 12 + n" "tiles (a + 24 + n + k) bs e" by (auto simp: add_ac)
  note le = tiles_le [OF t(3)]
  have ma: "m a = Some \<lparr>bsize = n, bfree = f, bnext = c\<rparr>"
    and mc: "m c = Some \<lparr>bsize = k, bfree = g, bnext = first_addr bs\<rparr>"
    and ch: "chain m bs" using 1(3) t by simp_all
  show ?case
  proof (cases "f \<and> g")
    case True
    let ?m = "m(a \<mapsto> \<lparr>bsize = n + (12 + k), bfree = True, bnext = first_addr bs\<rparr>)"
    have loop: "coalesce_loop m a = coalesce_loop ?m a"
      using ma mc 1(5,6) t le True by (subst coalesce_loop.simps) simp
    have c: "chain ?m ((b, n + (HDR + k), True) # bs)"
      using t ch by (simp add: chain_upd [OF t(3)] del: fun_upd_apply) simp
    have tl: "tiles a ((b, n + (HDR + k), True) # bs) e" using t by (simp add: add_ac)
    obtain m' where "coalesce_loop ?m a = Some m'" "chain m' (acoalesce ((b, n + (HDR + k), True) # bs))"
      "\<forall>x. x < a \<longrightarrow> m' x = ?m x"
      using 1(1) [OF True c tl 1(5,6)] by blast
    with loop show ?thesis using True by (intro exI [of _ m']) simp
  next
    case False
    have loop: "coalesce_loop m a = coalesce_loop m c"
      using ma mc 1(5) t False by (subst coalesce_loop.simps) auto
    have "chain m ((c, k, g) # bs)" using mc ch by simp
    moreover have "tiles c ((c, k, g) # bs) e" using t by (simp add: add_ac)
    ultimately obtain m' where m': "coalesce_loop m c = Some m'" "chain m' (acoalesce ((c, k, g) # bs))"
      "\<forall>x. x < c \<longrightarrow> m' x = m x"
      using 1(2) [OF False _ _ _ 1(6), of m c] t 1(5) by auto
    then have "m' a = m a" using t by simp
    then show ?thesis using loop m' t ma False by auto
  qed
next
  case (2 x)
  then show ?case by (cases x) (auto simp: coalesce_loop.simps)
qed simp

lemma afree_empty [simp]: "afree a bs = [] \<longleftrightarrow> bs = []"
  by (cases bs) (auto split: if_splits)

lemma afree_first [simp]: "first_addr (afree a bs) = first_addr bs"
  by (cases bs) (auto split: if_splits)

lemma tiles_afree: "tiles a bs e \<Longrightarrow> tiles a (afree b bs) e"
  by (induction a bs e rule: tiles.induct) auto

lemma chain_afree:
  assumes "chain m bs" "tiles a bs e" "m b = Some blk"
  shows "chain (m(b \<mapsto> blk\<lparr>bfree := True\<rparr>)) (afree b bs)"
  using assms
proof (induction a bs e rule: tiles.induct)
  case (2 a c n f bs e)
  then have t: "c = a" "tiles (a + 12 + n) bs e" by auto
  have ch: "chain m bs" using 2(2) by simp
  show ?case
  proof (cases "b = a")
    case True
    have "chain (m(a \<mapsto> blk\<lparr>bfree := True\<rparr>)) bs" using ch by (simp add: chain_upd [OF t(2)] del: fun_upd_apply)
    moreover have "blk = \<lparr>bsize = n, bfree = f, bnext = first_addr bs\<rparr>" using 2(2,4) t True by simp
    ultimately show ?thesis unfolding t(1) True by (simp del: fun_upd_apply add: fun_upd_same)
  next
    case False
    have "chain (m(b \<mapsto> blk\<lparr>bfree := True\<rparr>)) (afree b bs)" using 2(1) ch t 2(4) by (simp del: fun_upd_apply)
    then show ?thesis using 2(2,4) t False by (simp del: fun_upd_apply add: fun_upd_other)
  qed
qed simp

lemma afree_used:
  "tiles a bs e \<Longrightarrow> (b, n, False) \<in> set bs \<Longrightarrow> used_bytes bs = used_bytes (afree b bs) + n"
  by (induction a bs e rule: tiles.induct) (auto dest: tiles_bounds)

lemma afree_regions:
  "tiles a bs e \<Longrightarrow> (b, n, False) \<in> set bs \<Longrightarrow> used_regions (afree b bs) = used_regions bs - {(b + 12, n)}"
proof (induction a bs e rule: tiles.induct)
  case (2 a c k f bs e)
  then have t: "c = a" "tiles (a + 12 + k) bs e" by auto
  have "(a + 12, k) \<notin> used_regions bs"
    using tiles_bounds [OF t(2), of a k False] by (auto simp: used_regions_def)
  moreover have "b \<noteq> a \<Longrightarrow> (b, n, False) \<in> set bs" using 2 t by auto
  moreover have "b = a \<Longrightarrow> n = k \<and> \<not> f" using 2(3) t tiles_bounds [OF t(2), of b n False] by auto
  ultimately show ?case using 2(1) t by (cases "b = a"; cases f) (simp_all add: insert_Diff_if)
qed simp

lemma chain_lookup:
  "chain m bs \<Longrightarrow> (b, n, f) \<in> set bs \<Longrightarrow> \<exists>nx. m b = Some \<lparr>bsize = n, bfree = f, bnext = nx\<rparr>"
  by (induction bs) auto

lemma hdr_of_payload [simp]: "a < 2 ^ 32 \<Longrightarrow> hdr_of (a + 12) = a"
proof -
  assume "a < 2 ^ 32"
  then have "hdr_of (a + 12) = (a + 2 ^ 32) mod 2 ^ 32" by (simp add: hdr_of_def)
  also have "\<dots> = a" using \<open>a < 2 ^ 32\<close> by simp
  finally show ?thesis .
qed


section \<open>What the operations do\<close>

lemma heap_okD:
  assumes "heap_ok s bs"
  shows "bs \<noteq> []" "head s = 0x200000" "chain (hdrs s) bs" "tiles 0x200000 bs 0x300000"
    "heap_used s = used_bytes bs" "coalesced bs" "first_addr bs = 0x200000"
  using assms tiles_first [of "0x200000" bs] by (auto simp: heap_ok_def)

lemma heap_okI:
  "bs \<noteq> [] \<Longrightarrow> head s = 0x200000 \<Longrightarrow> chain (hdrs s) bs \<Longrightarrow> tiles 0x200000 bs 0x300000 \<Longrightarrow>
   heap_used s = used_bytes bs \<Longrightarrow> coalesced bs \<Longrightarrow> heap_ok s bs"
  using tiles_first [of "0x200000" bs] by (simp add: heap_ok_def)

lemma heap_ok_used_le: "heap_ok s bs \<Longrightarrow> used_bytes bs \<le> 0x100000"
  using tiles_account [OF heap_okD(4)] by fastforce

lemma heap_ok_block:
  "heap_ok s bs \<Longrightarrow> (b, n, f) \<in> set bs \<Longrightarrow> 0x200000 \<le> b \<and> b + 12 + n \<le> 0x300000"
  using tiles_bounds [OF heap_okD(4)] by blast

lemma kmalloc_init_ok: "heap_ok (kmalloc_init s) [(0x200000, 0xFFFF4, True)]"
  by (simp add: heap_ok_def kmalloc_init_def)

lemma align_up_ge: "n \<le> 2 ^ 32 - 8 \<Longrightarrow> n \<le> align_up n"
  by (simp add: align_up_def)

lemma aalloc_empty [simp]: "aalloc sz bs = [] \<longleftrightarrow> bs = []"
  by (induction sz bs rule: aalloc.induct) (auto simp: asplit_def)

lemma kmalloc_refines:
  assumes ok: "heap_ok s bs" and n: "0 < n"
  shows "case find (fits (align_up n)) bs of
      None \<Rightarrow> kmalloc n s = Some (0, s)
    | Some (b, k, f) \<Rightarrow> \<exists>s'. kmalloc n s = Some (b + 12, s') \<and> heap_ok s' (aalloc (align_up n) bs)
        \<and> bytes s' = bytes s"
proof (cases "find (fits (align_up n)) bs")
  case None
  with n kmalloc_loop_spec [OF heap_okD(3) [OF ok] heap_okD(4) [OF ok], of "align_up n"] show ?thesis
    using heap_okD [OF ok] by (simp add: kmalloc_def)
next
  case (Some x)
  obtain b k f where x: "x = (b, k, f)" by (cases x)
  note d = heap_okD [OF ok]
  obtain nx where nx: "hdrs s b = Some \<lparr>bsize = k, bfree = True, bnext = nx\<rparr>"
    and loop: "kmalloc_loop s (align_up n) 0x200000 =
      Some (b + 12, s\<lparr>hdrs := grant b k (align_up n) nx (hdrs s),
                      heap_used := wrap32 (heap_used s + granted_size k (align_up n))\<rparr>)"
    using kmalloc_loop_spec [OF d(3,4), of "align_up n"] Some x d(7) by auto
  let ?s = "s\<lparr>hdrs := grant b k (align_up n) nx (hdrs s),
              heap_used := wrap32 (heap_used s + granted_size k (align_up n))\<rparr>"
  have "used_bytes (aalloc (align_up n) bs) \<le> 0x100000"
    using tiles_account [OF tiles_aalloc [OF d(4)], of "align_up n"] by simp
  then have "heap_ok ?s (aalloc (align_up n) bs)"
    using d tiles_aalloc [OF d(4)] chain_grant [OF d(3,4) Some [unfolded x] nx]
      coalesced_aalloc [OF d(6)] aalloc_used [OF Some [unfolded x]]
    by (intro heap_okI) simp_all
  with loop d n Some x show ?thesis by (simp add: kmalloc_def)
qed

lemma kfree_refines:
  assumes ok: "heap_ok s bs" and b: "(b, n, False) \<in> set bs"
  shows "\<exists>s'. kfree (b + 12) s = Some s' \<and> heap_ok s' (acoalesce (afree b bs)) \<and> bytes s' = bytes s"
proof -
  note d = heap_okD [OF ok]
  have bb: "b < 2 ^ 32" using heap_ok_block [OF ok b] by simp
  obtain nx where blk: "hdrs s b = Some \<lparr>bsize = n, bfree = False, bnext = nx\<rparr>"
    using chain_lookup [OF d(3) b] by blast
  let ?m = "(hdrs s)(b \<mapsto> \<lparr>bsize = n, bfree = True, bnext = nx\<rparr>)"
  have "chain ?m (afree b bs)" using chain_afree [OF d(3,4) blk] by simp
  then obtain m' where m': "coalesce_loop ?m 0x200000 = Some m'" "chain m' (acoalesce (afree b bs))"
    using coalesce_loop_spec [OF _ tiles_afree [OF d(4)], of ?m b] d(1) by auto
  have u: "used_bytes bs = used_bytes (afree b bs) + n" by (rule afree_used [OF d(4) b])
  let ?s = "s\<lparr>heap_used := used_bytes (afree b bs), hdrs := m'\<rparr>"
  have "kfree (b + 12) s = Some ?s"
    using blk m'(1) d u hdr_of_payload [OF bb] by (simp add: kfree_def coalesce_def)
  moreover have "heap_ok ?s (acoalesce (afree b bs))"
    using d m'(2) tiles_acoalesce [OF tiles_afree [OF d(4)]] coalesced_acoalesce
    by (intro heap_okI) simp_all
  ultimately show ?thesis by auto
qed

lemma kfree_free_block:
  assumes "heap_ok s bs" "(b, n, True) \<in> set bs"
  shows "kfree (b + 12) s = Some s"
  using chain_lookup [OF heap_okD(3) [OF assms(1)] assms(2)] heap_ok_block [OF assms]
  by (auto simp: kfree_def)

lemma free_total_spec:
  "chain m bs \<Longrightarrow> tiles a bs e \<Longrightarrow> 0 < a \<Longrightarrow> x + free_bytes bs < 2 ^ 32 \<Longrightarrow>
   free_total m (first_addr bs) x = Some (x + free_bytes bs)"
proof (induction a bs e arbitrary: x rule: tiles.induct)
  case (2 a b n f bs e)
  then show ?case by (subst free_total.simps) (auto simp: add_ac)
qed (simp add: free_total.simps)

lemma kmalloc_stats_spec:
  assumes "heap_ok s bs"
  shows "kmalloc_stats s = Some (used_bytes bs, KHEAP_SIZE, free_bytes bs)"
    "used_bytes bs + free_bytes bs + HDR * length bs = KHEAP_SIZE"
  using free_total_spec [of "hdrs s" bs "0x200000" "0x300000" 0] heap_okD [OF assms]
    tiles_account [OF heap_okD(4) [OF assms]]
  by (simp_all add: kmalloc_stats_def)


section \<open>The heap provides the allocator interface\<close>

primrec blocks_from :: "nat \<Rightarrow> (nat \<rightharpoonup> kblock) \<Rightarrow> nat \<Rightarrow> ablock list" where
  "blocks_from 0 m b = []"
| "blocks_from (Suc k) m b =
     (if b = 0 then []
      else case m b of None \<Rightarrow> []
        | Some blk \<Rightarrow> (b, bsize blk, bfree blk) # blocks_from k m (bnext blk))"

definition kblocks :: "kheap \<Rightarrow> ablock list" where
  "kblocks s = blocks_from (KHEAP_SIZE div HDR) (hdrs s) (head s)"

definition kheap_inv :: "kheap \<Rightarrow> bool" where
  "kheap_inv s \<longleftrightarrow> heap_ok s (kblocks s)"

definition kregions :: "kheap \<Rightarrow> (nat \<times> nat) set" where
  "kregions s = used_regions (kblocks s)"

lemma blocks_from_chain:
  "chain m bs \<Longrightarrow> tiles a bs e \<Longrightarrow> 0 < a \<Longrightarrow> length bs \<le> k \<Longrightarrow> blocks_from k m (first_addr bs) = bs"
proof (induction bs arbitrary: k a)
  case (Cons x bs)
  then show ?case by (cases x; cases k) auto
next
  case Nil
  then show ?case by (cases k) auto
qed

lemma heap_ok_kblocks: "heap_ok s bs \<Longrightarrow> kblocks s = bs"
  using blocks_from_chain [of "hdrs s" bs "0x200000" "0x300000" "KHEAP_SIZE div HDR"]
    heap_okD [of s bs] tiles_account [of "0x200000" bs "0x300000"]
  by (simp add: kblocks_def)

lemma kheap_inv_iff: "kheap_inv s \<longleftrightarrow> (\<exists>bs. heap_ok s bs)"
  using heap_ok_kblocks by (auto simp: kheap_inv_def)

lemma kregions_ok: "heap_ok s bs \<Longrightarrow> kregions s = used_regions bs"
  by (simp add: kregions_def heap_ok_kblocks)

lemma heap_ok_disjoint:
  assumes "heap_ok s bs" "x \<in> used_regions bs" "y \<in> used_regions bs" "x \<noteq> y"
  shows "disjoint_regions x y"
  using assms(2-4) tiles_disjoint [OF heap_okD(4) [OF assms(1)]]
  by (fastforce simp: used_regions_def disjoint_regions_def)

lemma kmalloc_zero [simp]: "kmalloc 0 s = Some (0, s)"
  by (simp add: kmalloc_def)

lemma kmalloc_cases:
  assumes "heap_ok s bs"
  obtains (refused) "kmalloc n s = Some (0, s)"
  | (granted) b k f s' where "kmalloc n s = Some (b + 12, s')" "find (fits (align_up n)) bs = Some (b, k, f)"
      "heap_ok s' (aalloc (align_up n) bs)" "0 < n" "bytes s' = bytes s"
proof (cases "n = 0")
  case True
  then show ?thesis by (auto intro: refused)
next
  case False
  then show ?thesis
    using kmalloc_refines [OF assms, of n] refused granted
    by (cases "find (fits (align_up n)) bs") auto
qed

lemma granted_fresh:
  assumes ok: "heap_ok s bs" and f: "find (fits sz) bs = Some (b, k, f)"
  shows "granted_size k sz \<ge> sz"
    and "x \<in> used_regions bs \<Longrightarrow> disjoint_regions (b + 12, granted_size k sz) x"
proof -
  have mem: "(b, k, f) \<in> set bs" and fit: "f" "sz \<le> k"
    using find_fits [OF f] f by (auto simp: find_Some_iff)
  show le: "granted_size k sz \<ge> sz" using fit by (simp add: granted_size_def)
  assume "x \<in> used_regions bs"
  then obtain a n where x: "x = (a + 12, n)" "(a, n, False) \<in> set bs" by (auto simp: used_regions_def)
  have "granted_size k sz \<le> k" using fit by (simp add: granted_size_def)
  with tiles_disjoint [OF heap_okD(4) [OF ok] mem x(2)] fit x(1)
  show "disjoint_regions (b + 12, granted_size k sz) x" by (auto simp: disjoint_regions_def)
qed

interpretation kh: region_allocator kheap_inv kregions kmalloc kfree "2 ^ 32 - 8"
proof
  fix s n
  assume "kheap_inv s"
  then obtain bs where ok: "heap_ok s bs" by (auto simp: kheap_inv_iff)
  then show "\<exists>p s'. kmalloc n s = Some (p, s') \<and> kheap_inv s'"
    using ok by (cases rule: kmalloc_cases [where n = n]) (auto simp: kheap_inv_iff)
next
  fix s n s'
  assume "kheap_inv s" and k: "kmalloc n s = Some (0, s')"
  then obtain bs where ok: "heap_ok s bs" by (auto simp: kheap_inv_iff)
  from this k show "kregions s' = kregions s"
    by (cases rule: kmalloc_cases [where n = n]) auto
next
  fix s n p s'
  assume "kheap_inv s" and k: "kmalloc n s = Some (p, s')" and p: "p \<noteq> 0" and n: "n \<le> 2 ^ 32 - 8"
  then obtain bs where ok: "heap_ok s bs" by (auto simp: kheap_inv_iff)
  from this show "\<exists>m \<ge> n. kregions s' = insert (p, m) (kregions s) \<and> (\<forall>x \<in> kregions s. disjoint_regions (p, m) x)"
  proof (cases rule: kmalloc_cases [where n = n])
    case (granted b j f s2)
    then show ?thesis
      using k granted_fresh [OF ok granted(2)] align_up_ge [OF n] aalloc_regions [OF granted(2)]
      by (intro exI [of _ "granted_size j (align_up n)"]) (auto simp: kregions_ok [OF ok] kregions_ok [OF granted(3)])
  qed (use k p in simp)
next
  fix s x y
  assume "kheap_inv s" "x \<in> kregions s" "y \<in> kregions s" "x \<noteq> y"
  then show "disjoint_regions x y" using heap_ok_disjoint by (auto simp: kheap_inv_def kregions_def)
next
  fix s p m
  assume "kheap_inv s" and r: "(p, m) \<in> kregions s"
  then obtain bs where ok: "heap_ok s bs" by (auto simp: kheap_inv_iff)
  with r obtain b where b: "p = b + 12" "(b, m, False) \<in> set bs" by (auto simp: kregions_ok used_regions_def)
  obtain s' where "kfree p s = Some s'" "heap_ok s' (acoalesce (afree b bs))"
    using kfree_refines [OF ok b(2)] b(1) by auto
  then show "\<exists>s'. kfree p s = Some s' \<and> kheap_inv s' \<and> kregions s' = kregions s - {(p, m)}"
    using afree_regions [OF heap_okD(4) [OF ok] b(2)] b(1)
    by (auto simp: kheap_inv_iff kregions_ok [OF ok] kregions_ok)
qed

section \<open>Resizing\<close>

lemma copy_loop_other:
  "a < dst \<or> dst + k \<le> a \<Longrightarrow> copy_loop dst src k mem a = mem a"
  by (induction k) (auto simp: copy_loop_def)

lemma copy_loop_copies:
  "disjoint_regions (dst, k) (src, k) \<Longrightarrow> i < k \<Longrightarrow> copy_loop dst src k mem (dst + i) = mem (src + i)"
proof (induction k)
  case (Suc k)
  have "disjoint_regions (dst, k) (src, k)" using Suc.prems(1) by (auto simp: disjoint_regions_def)
  moreover have "copy_loop dst src k mem (src + k) = mem (src + k)"
    using Suc.prems(1) by (intro copy_loop_other) (auto simp: disjoint_regions_def)
  ultimately show ?case using Suc by (cases "i = k") (auto simp: copy_loop_def)
qed simp

lemma krealloc_moves:
  assumes ok: "heap_ok s bs" and b: "(b, n, False) \<in> set bs" and sz: "n < sz" "sz \<le> 2 ^ 32 - 8"
  shows "krealloc (b + 12) sz s = Some (0, s) \<or>
    (\<exists>p m s'. krealloc (b + 12) sz s = Some (p, s') \<and> kheap_inv s' \<and> sz \<le> m
      \<and> kregions s' = insert (p, m) (kregions s - {(b + 12, n)})
      \<and> (\<forall>i < n. bytes s' (p + i) = bytes s (b + 12 + i)))"
proof -
  have bb: "b < 2 ^ 32" using heap_ok_block [OF ok b] by simp
  obtain nx where blk: "hdrs s b = Some \<lparr>bsize = n, bfree = False, bnext = nx\<rparr>"
    using chain_lookup [OF heap_okD(3) [OF ok] b] by blast
  have reg: "(b + 12, n) \<in> kregions s" using b by (auto simp: kregions_ok [OF ok] used_regions_def)
  from ok show ?thesis
  proof (cases rule: kmalloc_cases [where n = sz])
    case refused
    then show ?thesis using blk bb sz by (simp add: krealloc_def)
  next
    case (granted c k f s2)
    let ?m = "granted_size k (align_up sz)" and ?p = "c + 12"
    note fresh = granted_fresh [OF ok granted(2)]
    have regs: "kregions s2 = insert (?p, ?m) (kregions s)"
      using aalloc_regions [OF granted(2)] by (simp add: kregions_ok [OF ok] kregions_ok [OF granted(3)])
    have dis: "disjoint_regions (?p, ?m) (b + 12, n)" using fresh(2) reg by (simp add: kregions_ok [OF ok])
    have szm: "sz \<le> ?m" using fresh(1) align_up_ge [OF sz(2)] by linarith
    have blk2: "(b, n, False) \<in> set (aalloc (align_up sz) bs)"
      using regs reg by (simp add: kregions_ok [OF granted(3)] used_regions_mem [symmetric])
    obtain nx2 where nx2: "hdrs s2 b = Some \<lparr>bsize = n, bfree = False, bnext = nx2\<rparr>"
      using chain_lookup [OF heap_okD(3) [OF granted(3)] blk2] by blast
    let ?s = "s2\<lparr>bytes := copy_loop ?p (b + 12) n (bytes s2)\<rparr>"
    have ok2: "heap_ok ?s (aalloc (align_up sz) bs)" using granted(3) by (simp add: heap_ok_def)
    obtain s3 where s3: "kfree (b + 12) ?s = Some s3" "heap_ok s3 (acoalesce (afree b (aalloc (align_up sz) bs)))"
      "bytes s3 = bytes ?s"
      using kfree_refines [OF ok2 blk2] by blast
    have "krealloc (b + 12) sz s = Some (?p, s3)"
      using blk bb sz granted(1) nx2 s3(1) by (simp add: krealloc_def)
    moreover have "(?p, ?m) \<noteq> (b + 12, n)" using szm sz by auto
    then have "kregions s3 = insert (?p, ?m) (kregions s - {(b + 12, n)})"
      using afree_regions [OF heap_okD(4) [OF ok2] blk2] regs
      by (auto simp: kregions_ok [OF s3(2)] kregions_ok [OF granted(3), symmetric])
    moreover have "disjoint_regions (?p, n) (b + 12, n)" using dis szm sz by (auto simp: disjoint_regions_def)
    then have "\<forall>i < n. bytes s3 (?p + i) = bytes s (b + 12 + i)"
      using copy_loop_copies [of ?p n "b + 12"] s3(3) granted(5) by simp
    ultimately show ?thesis using szm s3(2) by (auto simp: kheap_inv_iff)
  qed
qed

lemma krealloc_other:
  assumes "heap_ok s bs" "(b, n, False) \<in> set bs"
  shows "0 < sz \<Longrightarrow> sz \<le> n \<Longrightarrow> krealloc (b + 12) sz s = Some (b + 12, s)"
    and "krealloc 0 sz s = kmalloc sz s"
    and "krealloc (b + 12) 0 s = map_option (Pair 0) (kfree (b + 12) s)"
  using chain_lookup [OF heap_okD(3) [OF assms(1)] assms(2)] heap_ok_block [OF assms]
  by (auto simp: krealloc_def split: Option.bind_splits)

text \<open>When everything has been released the heap is one free block again.\<close>

lemma all_released:
  assumes ok: "heap_ok s bs" and none: "used_regions bs = {}"
  shows "bs = [(0x200000, 0xFFFF4, True)]"
proof -
  note d = heap_okD [OF ok]
  obtain a n f bs' where bs: "bs = (a, n, f) # bs'" using d(1) by (cases bs) auto
  have "bs' = []"
    using d(6) none bs by (cases bs') (auto split: if_splits)
  with d(4) bs none show ?thesis by (auto split: if_splits)
qed


section \<open>Properties\<close>

definition zero_kheap :: kheap where
  "zero_kheap = \<lparr>hdrs = Map.empty, head = 0, heap_used = 0, bytes = (\<lambda>_. 0)\<rparr>"

lemma kheap_inv_init: "kheap_inv (kmalloc_init s)"
  using kmalloc_init_ok by (auto simp: kheap_inv_iff)

lemma kblocks_init: "kblocks (kmalloc_init s) = [(0x200000, 0xFFFF4, True)]"
  by (rule heap_ok_kblocks [OF kmalloc_init_ok])

lemma kmalloc_spec:
  assumes "kheap_inv s" "0 < n" "n \<le> 2 ^ 32 - 8"
  shows "\<exists>p s'. kmalloc n s = Some (p, s') \<and> kheap_inv s'
    \<and> (if \<exists>(a, k, f) \<in> set (kblocks s). f \<and> align_up n \<le> k
       then p \<noteq> 0 \<and> (\<exists>m \<ge> n. kregions s' = insert (p, m) (kregions s)
              \<and> (\<forall>x \<in> kregions s. disjoint_regions (p, m) x))
       else p = 0 \<and> s' = s)"
proof (cases "find (fits (align_up n)) (kblocks s)")
  case None
  then have "\<not> (\<exists>(a, k, f) \<in> set (kblocks s). f \<and> align_up n \<le> k)" by (auto simp: find_None_iff)
  with None show ?thesis
    using kmalloc_refines [OF assms(1) [unfolded kheap_inv_def] assms(2)] assms(1) by simp
next
  case (Some x)
  obtain b k f where x: "x = (b, k, f)" by (cases x)
  have "\<exists>(a, k, f) \<in> set (kblocks s). f \<and> align_up n \<le> k"
    using Some find_None_iff [of "fits (align_up n)" "kblocks s"] by fastforce
  moreover obtain s' where s': "kmalloc n s = Some (b + 12, s')" "kheap_inv s'"
    using kmalloc_refines [OF assms(1) [unfolded kheap_inv_def] assms(2)] Some x
    by (auto simp: kheap_inv_iff)
  ultimately show ?thesis using kh.alloc_granted [OF assms(1) s'(1) _ assms(3)] by auto
qed

lemma kmalloc_first:
  assumes "0 < n" "n \<le> 4096"
  obtains p m s where "kmalloc n (kmalloc_init zero_kheap) = Some (p, s)" "kheap_inv s" "p \<noteq> 0" "n \<le> m"
    "kregions s = {(p, m)}"
proof -
  have "align_up n \<le> 0xFFFF4" using assms by (simp add: align_up_def)
  moreover have "kregions (kmalloc_init zero_kheap) = {}" by (simp add: kregions_def kblocks_init)
  ultimately show ?thesis
    using kmalloc_spec [OF kheap_inv_init, of n zero_kheap] assms that by (auto simp: kblocks_init)
qed

text \<open>C6. \<open>kmalloc\<close> on a well-formed heap (headers linked in address order that tile the
  heap window, no two adjacent free blocks, exact accounting) always returns. It either
  refuses with a null pointer, which it does exactly when no free block holds the aligned
  size, leaving the heap as it was; or it hands out a region of at least the size asked
  for, disjoint from every region in use, that is now the only additional region. The
  heap stays well formed.\<close>

theorem kmalloc_correct:
  assumes "kheap_inv s" "0 < n" "n \<le> 2 ^ 32 - 8"
  shows "\<exists>p s'. kmalloc n s = Some (p, s') \<and> kheap_inv s'
    \<and> (if \<exists>(a, k, f) \<in> set (kblocks s). f \<and> align_up n \<le> k
       then p \<noteq> 0 \<and> (\<exists>m \<ge> n. kregions s' = insert (p, m) (kregions s)
              \<and> (\<forall>x \<in> kregions s. disjoint_regions (p, m) x))
       else p = 0 \<and> s' = s)"
  by (rule kmalloc_spec [OF assms])

theorem kmalloc_correct_witness:
  "kheap_inv (kmalloc_init zero_kheap) \<and>
   (\<exists>p s'. kmalloc 4096 (kmalloc_init zero_kheap) = Some (p, s') \<and> p \<noteq> 0
      \<and> (\<exists>m \<ge> 4096. kregions s' = {(p, m)}))"
proof -
  have "align_up 4096 = 4096" by (simp add: align_up_def)
  moreover have "kregions (kmalloc_init zero_kheap) = {}" by (simp add: kregions_def kblocks_init)
  ultimately show ?thesis
    using kmalloc_correct [OF kheap_inv_init, of 4096 zero_kheap] kheap_inv_init by (auto simp: kblocks_init)
qed

text \<open>C7. \<open>kfree\<close> of a region in use returns, takes exactly that region away, keeps the
  heap well formed, and joins free neighbours, so that no two adjacent blocks are free;
  when the last region is released the heap is one free block again.\<close>

theorem kfree_correct:
  assumes "kheap_inv s" "(p, m) \<in> kregions s"
  shows "\<exists>s'. kfree p s = Some s' \<and> kheap_inv s' \<and> kregions s' = kregions s - {(p, m)}
    \<and> coalesced (kblocks s')
    \<and> (kregions s = {(p, m)} \<longrightarrow> kblocks s' = [(KHEAP_START, KHEAP_SIZE - HDR, True)])"
  using kh.release_region [OF assms] all_released
  by (auto simp: kheap_inv_def kregions_def dest: heap_okD(6))

theorem kfree_correct_witness:
  "\<exists>p s s'. kmalloc 100 (kmalloc_init zero_kheap) = Some (p, s) \<and> kfree p s = Some s'
     \<and> kblocks s' = [(KHEAP_START, KHEAP_SIZE - HDR, True)]"
proof -
  obtain p s m where s: "kmalloc 100 (kmalloc_init zero_kheap) = Some (p, s)" "kheap_inv s" "kregions s = {(p, m)}"
    by (rule kmalloc_first [of 100]) auto
  with kfree_correct [OF s(2), of p m] show ?thesis by auto
qed

text \<open>Regions handed out by earlier requests are neither moved nor resized by later
  requests, and no two regions in use ever overlap.\<close>

theorem kmalloc_sequence:
  assumes "kheap_inv s" "kh.alloc_all ns s = Some (ps, s')" "\<forall>n \<in> set ns. n \<le> 2 ^ 32 - 8"
  shows "kregions s \<subseteq> kregions s' \<and> kheap_inv s'
    \<and> (\<forall>x \<in> kregions s'. \<forall>y \<in> kregions s'. x \<noteq> y \<longrightarrow> disjoint_regions x y)"
proof -
  have "kheap_inv s'" using kh.alloc_all_returns [OF assms(1,3)] assms(2) by auto
  with kh.alloc_all_keeps [OF assms] kh.regions_disjoint show ?thesis by blast
qed

theorem kmalloc_sequence_witness:
  "\<exists>ps s'. kh.alloc_all [16, 24, 4096] (kmalloc_init zero_kheap) = Some (ps, s') \<and> length ps = 3 \<and> kheap_inv s'"
proof -
  obtain ps s' where s': "kh.alloc_all [16, 24, 4096] (kmalloc_init zero_kheap) = Some (ps, s')" "length ps = 3"
    using kh.alloc_all_returns [OF kheap_inv_init, of "[16, 24, 4096]"] by force
  then show ?thesis using kmalloc_sequence [OF kheap_inv_init s'(1)] by auto
qed

text \<open>\<open>krealloc\<close> to a larger size either refuses and changes nothing, or moves the
  region: the old one is released, a region of at least the new size is in use instead,
  and it starts with the bytes of the old one.\<close>

theorem krealloc_correct:
  assumes "kheap_inv s" "(p, n) \<in> kregions s" "n < sz" "sz \<le> 2 ^ 32 - 8"
  shows "krealloc p sz s = Some (0, s) \<or>
    (\<exists>q m s'. krealloc p sz s = Some (q, s') \<and> kheap_inv s' \<and> sz \<le> m
      \<and> kregions s' = insert (q, m) (kregions s - {(p, n)})
      \<and> (\<forall>i < n. bytes s' (q + i) = bytes s (p + i)))"
proof -
  obtain b where "p = b + 12" "(b, n, False) \<in> set (kblocks s)"
    using assms(2) by (auto simp: kregions_def used_regions_def)
  with krealloc_moves [OF assms(1) [unfolded kheap_inv_def] this(2) assms(3,4)] show ?thesis by blast
qed

theorem krealloc_correct_witness:
  "\<exists>p m s. kmalloc 8 (kmalloc_init zero_kheap) = Some (p, s) \<and> kregions s = {(p, m)} \<and>
     (krealloc p (m + 1) s = Some (0, s) \<or>
      (\<exists>q k s'. krealloc p (m + 1) s = Some (q, s') \<and> kheap_inv s' \<and> kregions s' = {(q, k)}))"
proof -
  obtain p s m where s: "kmalloc 8 (kmalloc_init zero_kheap) = Some (p, s)" "kheap_inv s" "kregions s = {(p, m)}"
    by (rule kmalloc_first [of 8]) auto
  then have "(p, m) \<in> used_regions (kblocks s)" by (simp add: kregions_def)
  then have "m \<le> 0x300000"
    using heap_ok_block [OF s(2) [unfolded kheap_inv_def]] by (fastforce simp: used_regions_def)
  with krealloc_correct [OF s(2), of p m "m + 1"] s show ?thesis by fastforce
qed

text \<open>\<open>kmalloc_stats\<close> reports the bytes in use and the free bytes exactly: with the
  12-byte headers they add up to the size of the heap.\<close>

theorem kmalloc_stats_correct:
  assumes "kheap_inv s"
  shows "\<exists>used free. kmalloc_stats s = Some (used, KHEAP_SIZE, free)
    \<and> used + free + HDR * length (kblocks s) = KHEAP_SIZE
    \<and> used = used_bytes (kblocks s) \<and> free = free_bytes (kblocks s)"
  using kmalloc_stats_spec [OF assms [unfolded kheap_inv_def]] by simp

theorem kmalloc_stats_correct_witness:
  "kmalloc_stats (kmalloc_init zero_kheap) = Some (0, KHEAP_SIZE, KHEAP_SIZE - HDR)"
  using kmalloc_stats_correct [OF kheap_inv_init, of zero_kheap] by (simp add: kblocks_init)

text \<open>A request of more than \<open>2 ^ 32 - 8\<close> bytes wraps to size 0 in \<open>align_up\<close> and is
  granted: the caller gets a non-null pointer to a region of length 0.\<close>

theorem kmalloc_wraps:
  assumes "2 ^ 32 - 8 < n" "n < 2 ^ 32"
  shows "align_up n = 0 \<and> (\<exists>s'. kmalloc n (kmalloc_init zero_kheap) = Some (0x20000C, s')
     \<and> kregions s' = {(0x20000C, 0)})"
proof -
  have a: "align_up n = 0"
  proof -
    have "(n + 7) mod 2 ^ 32 = n + 7 - 2 ^ 32" using assms by (simp add: mod_if)
    then show ?thesis using assms by (simp add: align_up_def)
  qed
  with kmalloc_refines [OF kmalloc_init_ok, of n zero_kheap] assms show ?thesis
    by (auto simp: kregions_ok asplit_def)
qed

theorem kmalloc_wraps_witness:
  "\<exists>s'. kmalloc 0xFFFFFFFF (kmalloc_init zero_kheap) = Some (0x20000C, s') \<and> kregions s' = {(0x20000C, 0)}"
  using kmalloc_wraps [of "0xFFFFFFFF"] by simp

end
