(* ===== verification/Sched.thy ===== *)
theory Sched
  imports Kmalloc Terminal
begin

text \<open>
  The round-robin scheduler of \<open>src/src/sched.c\<close> with the stack switch of
  \<open>src/src/context_switch.s\<close>, and the tick of \<open>src/src/timer.c\<close>. A task pointer is an index of
  the task table. The processor is its stack pointer, the address it continues at and its
  interrupt flag; stack words are a memory of their own. The code of an operation behind a
  stack switch belongs to the task that is resumed, so an operation ends with the switch.
  The address of \<open>task_bootstrap\<close> is an argument.
\<close>

section \<open>State\<close>

definition SCHED_MAX_TASKS :: nat where "SCHED_MAX_TASKS = 8"
definition SCHED_STACK_SIZE :: nat where "SCHED_STACK_SIZE = 4096"

datatype task_state = TASK_FREE | TASK_READY | TASK_RUNNING | TASK_BLOCKED | TASK_ZOMBIE

record task =
  tid :: nat
  tstate :: task_state
  tname :: cstring
  sp :: nat
  stack_base :: nat
  entry :: u32
  targ :: u32
  ticks_ran :: u32

record sched =
  tasks :: "task list"
  current :: "nat option"
  sched_enabled :: bool
  ticks_slice :: nat
  g_worker_counter :: u32
  heap :: kheap
  stack_mem :: "nat \<Rightarrow> u32"
  esp :: nat
  eip :: u32
  if_flag :: bool

definition upd_task :: "nat \<Rightarrow> (task \<Rightarrow> task) \<Rightarrow> sched \<Rightarrow> sched" where
  "upd_task i f s = s\<lparr>tasks := (tasks s)[i := f (tasks s ! i)]\<rparr>"

section \<open>Operations\<close>

definition str_copy16 :: "cstring \<Rightarrow> cstring" where
  "str_copy16 str = take 15 str"

definition sched_init :: "sched \<Rightarrow> sched" where
  "sched_init s =
     (let ts = map (\<lambda>(i, t). t\<lparr>tstate := TASK_FREE, tid := i, sp := 0, stack_base := 0, ticks_ran := 0,
                              tname := []\<rparr>) (enumerate 0 (tasks s));
          s = s\<lparr>tasks := ts, current := Some 0\<rparr>;
          s = upd_task 0 (\<lambda>t. t\<lparr>tstate := TASK_RUNNING, tname := str_copy16 ''shell'', entry := 0, targ := 0,
                               stack_base := 0, sp := 0\<rparr>) s
      in s\<lparr>sched_enabled := True, ticks_slice := 0, g_worker_counter := 0\<rparr>)"

definition pick_next :: "sched \<Rightarrow> nat option" where
  "pick_next s =
     (let start = (case current s of Some c \<Rightarrow> tid (tasks s ! c) | None \<Rightarrow> 0) in
      case scan (\<lambda>i. tstate (tasks s ! ((start + i) mod SCHED_MAX_TASKS)) = TASK_READY) 1 SCHED_MAX_TASKS of
        Some i \<Rightarrow> Some ((start + i) mod SCHED_MAX_TASKS)
      | None \<Rightarrow> current s)"

text \<open>
  \<open>pusha\<close> stores eight registers below the return address, \<open>popa\<close> and \<open>ret\<close> take nine words
  off the new stack.
\<close>

definition context_switch :: "nat \<Rightarrow> nat \<Rightarrow> sched \<Rightarrow> sched" where
  "context_switch prev new_sp s =
     (let s = upd_task prev (\<lambda>t. t\<lparr>sp := esp s - 32\<rparr>) s
      in s\<lparr>esp := new_sp + 36, eip := stack_mem s (new_sp + 32)\<rparr>)"

text \<open>The switch common to \<open>schedule\<close> and \<open>sched_on_tick\<close>, and whether there was one.\<close>

definition switch_to :: "nat \<Rightarrow> nat \<Rightarrow> sched \<Rightarrow> sched" where
  "switch_to prev next s =
     (let s = (if tstate (tasks s ! prev) = TASK_RUNNING
               then upd_task prev (\<lambda>t. t\<lparr>tstate := TASK_READY\<rparr>) s else s);
          s = upd_task next (\<lambda>t. t\<lparr>tstate := TASK_RUNNING\<rparr>) s
      in s\<lparr>current := Some next\<rparr>)"

definition schedule :: "sched \<Rightarrow> bool \<times> sched" where
  "schedule s =
     (case current s of
        None \<Rightarrow> (False, s)
      | Some cur \<Rightarrow>
          if \<not> sched_enabled s then (False, s)
          else case pick_next s of
            None \<Rightarrow> (False, s)
          | Some next \<Rightarrow>
              if next = cur then (False, s)
              else let s = (switch_to cur next s)\<lparr>ticks_slice := 0\<rparr>
                   in (True, context_switch cur (sp (tasks s ! next)) s))"

definition init_stack :: "nat \<Rightarrow> u32 \<Rightarrow> (nat \<Rightarrow> u32) \<Rightarrow> nat \<times> (nat \<Rightarrow> u32)" where
  "init_stack stack bootstrap mem =
     (let top = (stack + SCHED_STACK_SIZE) div 16 * 16;
          mem = mem(top - 4 := bootstrap);
          mem = fold (\<lambda>k mem. mem(top - 4 - 4 * k := 0)) [1..<9] mem
      in (top - 36, mem))"

definition sched_spawn :: "u32 \<Rightarrow> cstring option \<Rightarrow> u32 \<Rightarrow> u32 \<Rightarrow> sched \<Rightarrow> (int \<times> sched) option" where
  "sched_spawn bootstrap name entr arg s =
     (case scan (\<lambda>i. tstate (tasks s ! i) = TASK_FREE) 1 (SCHED_MAX_TASKS - 1) of
        None \<Rightarrow> Some (-1, s)
      | Some i \<Rightarrow> do {
          (stack, h) \<leftarrow> kmalloc SCHED_STACK_SIZE (heap s);
          let s = s\<lparr>heap := h\<rparr>;
          if stack = 0 then Some (-1, s)
          else do {
            let (spv, mem) = init_stack stack bootstrap (stack_mem s);
            let s = upd_task i (\<lambda>t. t\<lparr>stack_base := stack, entry := entr, targ := arg, ticks_ran := 0,
                tname := str_copy16 (case name of Some n \<Rightarrow> n | None \<Rightarrow> ''task''), sp := spv,
                tstate := TASK_READY\<rparr>) s;
            Some (int (tid (tasks s ! i)), s\<lparr>stack_mem := mem\<rparr>)
          }
        })"

definition sched_yield :: "sched \<Rightarrow> sched" where
  "sched_yield s =
     (if \<not> sched_enabled s then s
      else let (switched, s) = schedule (s\<lparr>if_flag := False\<rparr>)
           in if switched then s else s\<lparr>if_flag := True\<rparr>)"

definition sched_on_tick :: "sched \<Rightarrow> sched" where
  "sched_on_tick s =
     (case current s of
        None \<Rightarrow> s
      | Some cur \<Rightarrow>
          if \<not> sched_enabled s then s
          else let s = upd_task cur (\<lambda>t. t\<lparr>ticks_ran := ticks_ran t + 1\<rparr>) s;
                   s = s\<lparr>ticks_slice := ticks_slice s + 1\<rparr>
               in if ticks_slice s \<ge> 10
                  then let s = s\<lparr>ticks_slice := 0\<rparr> in
                    case pick_next s of
                      None \<Rightarrow> s
                    | Some next \<Rightarrow>
                        if next = cur then s
                        else let s = switch_to cur next s
                             in context_switch cur (sp (tasks s ! next)) s
                  else s)"

text \<open>The task that exits: \<open>current\<close> is never null here (its \<open>id\<close> is read unchecked).\<close>

definition sched_exit :: "sched \<Rightarrow> sched option" where
  "sched_exit s = do {
     cur \<leftarrow> current s;
     let s = s\<lparr>if_flag := False\<rparr>;
     if tid (tasks s ! cur) = 0 then Some (s\<lparr>if_flag := True\<rparr>)
     else do {
       let s = upd_task cur (\<lambda>t. t\<lparr>tstate := TASK_FREE, stack_base := 0\<rparr>) s;
       let next = (case pick_next s of Some n \<Rightarrow> n | None \<Rightarrow> 0);
       let s = upd_task next (\<lambda>t. t\<lparr>tstate := TASK_RUNNING\<rparr>) (s\<lparr>current := Some next\<rparr>);
       Some (context_switch cur (sp (tasks s ! next)) s)
     }
   }"

definition sched_task_count :: "sched \<Rightarrow> nat" where
  "sched_task_count s = length (filter (\<lambda>i. tstate (tasks s ! i) \<noteq> TASK_FREE) [0..<SCHED_MAX_TASKS])"

definition state_text :: "task_state \<Rightarrow> cstring" where
  "state_text st =
     (case st of TASK_READY \<Rightarrow> ''READY  '' | TASK_RUNNING \<Rightarrow> ''RUN    '' | TASK_BLOCKED \<Rightarrow> ''BLOCK  ''
      | TASK_ZOMBIE \<Rightarrow> ''ZOMBIE '' | _ \<Rightarrow> ''?      '')"

definition sched_list :: "sched \<Rightarrow> terminal \<Rightarrow> terminal" where
  "sched_list s t =
     (let t = terminal_writestring (''ID  STATE    TICKS  NAME'' @ [CHR 0x0A]) t;
          t = fold (\<lambda>i t.
                if tstate (tasks s ! i) = TASK_FREE then t
                else let tk = tasks s ! i;
                         t = terminal_write_uint (of_nat (tid tk)) t;
                         t = terminal_writestring ''   '' t;
                         t = terminal_writestring (state_text (tstate tk)) t;
                         t = terminal_write_uint (ticks_ran tk) t;
                         t = terminal_writestring ''  '' t;
                         t = terminal_writestring (tname tk) t;
                         t = (if current s = Some i then terminal_writestring '' *'' t else t)
                     in terminal_putchar (CHR 0x0A) t) [0..<SCHED_MAX_TASKS] t;
          t = terminal_writestring ''worker counter: '' t;
          t = terminal_write_uint (g_worker_counter s) t
      in terminal_putchar (CHR 0x0A) t)"


section \<open>The invariant\<close>

text \<open>
  One task is running and it is the current one; the others are ready or free, and task 0,
  the shell, is never free. Every live task but the shell has a stack of its own from the
  kernel heap.
\<close>

definition live_task :: "sched \<Rightarrow> nat \<Rightarrow> bool" where
  "live_task s i \<longleftrightarrow> 0 < i \<and> i < SCHED_MAX_TASKS \<and> tstate (tasks s ! i) \<noteq> TASK_FREE"

definition stacks_ok :: "sched \<Rightarrow> bool" where
  "stacks_ok s \<longleftrightarrow> kheap_inv (heap s)
     \<and> (\<forall>i. live_task s i \<longrightarrow> (\<exists>m \<ge> SCHED_STACK_SIZE. (stack_base (tasks s ! i), m) \<in> kregions (heap s)))
     \<and> (\<forall>i j. live_task s i \<longrightarrow> live_task s j \<longrightarrow> stack_base (tasks s ! i) = stack_base (tasks s ! j) \<longrightarrow> i = j)"

definition table_shape :: "sched \<Rightarrow> bool" where
  "table_shape s \<longleftrightarrow> length (tasks s) = SCHED_MAX_TASKS \<and> (\<forall>i < SCHED_MAX_TASKS. tid (tasks s ! i) = i)"

definition states_ok :: "sched \<Rightarrow> bool" where
  "states_ok s \<longleftrightarrow> (\<exists>c. current s = Some c \<and> c < SCHED_MAX_TASKS
     \<and> (\<forall>i < SCHED_MAX_TASKS. tstate (tasks s ! i) = TASK_RUNNING \<longleftrightarrow> i = c)
     \<and> (\<forall>i < SCHED_MAX_TASKS. tstate (tasks s ! i) \<in> {TASK_FREE, TASK_READY, TASK_RUNNING}))
     \<and> tstate (tasks s ! 0) \<noteq> TASK_FREE"

definition sched_ok :: "sched \<Rightarrow> bool" where
  "sched_ok s \<longleftrightarrow> sched_enabled s \<and> ticks_slice s < 10 \<and> table_shape s \<and> states_ok s \<and> stacks_ok s"

lemma sched_okD:
  assumes "sched_ok s"
  shows "sched_enabled s" "ticks_slice s < 10" "table_shape s" "states_ok s" "stacks_ok s"
  using assms by (simp_all add: sched_ok_def)

lemma table_shapeD:
  assumes "table_shape s"
  shows "length (tasks s) = SCHED_MAX_TASKS" "\<And>i. i < SCHED_MAX_TASKS \<Longrightarrow> tid (tasks s ! i) = i"
  using assms by (simp_all add: table_shape_def)

lemma states_okE:
  assumes "states_ok s"
  obtains c where "current s = Some c" "c < SCHED_MAX_TASKS"
    "\<And>i. i < SCHED_MAX_TASKS \<Longrightarrow> tstate (tasks s ! i) = TASK_RUNNING \<longleftrightarrow> i = c"
    "\<And>i. i < SCHED_MAX_TASKS \<Longrightarrow> tstate (tasks s ! i) \<in> {TASK_FREE, TASK_READY, TASK_RUNNING}"
    "tstate (tasks s ! 0) \<noteq> TASK_FREE"
  using assms unfolding states_ok_def by blast

lemma states_okI:
  assumes "current s = Some c" "c < SCHED_MAX_TASKS"
    "\<And>i. i < SCHED_MAX_TASKS \<Longrightarrow> tstate (tasks s ! i) = TASK_RUNNING \<longleftrightarrow> i = c"
    "\<And>i. i < SCHED_MAX_TASKS \<Longrightarrow> tstate (tasks s ! i) \<in> {TASK_FREE, TASK_READY, TASK_RUNNING}"
    "tstate (tasks s ! 0) \<noteq> TASK_FREE"
  shows "states_ok s"
  using assms unfolding states_ok_def by blast

section \<open>Choosing the next task\<close>

abbreviation ready :: "sched \<Rightarrow> nat \<Rightarrow> bool" where
  "ready s i \<equiv> i < SCHED_MAX_TASKS \<and> tstate (tasks s ! i) = TASK_READY"

text \<open>How many steps forward around the table task \<open>i\<close> is from task \<open>c\<close>.\<close>

definition ahead :: "nat \<Rightarrow> nat \<Rightarrow> nat" where
  "ahead c i = (i + SCHED_MAX_TASKS - c) mod SCHED_MAX_TASKS"

lemma pick_next_ready:
  assumes shape: "table_shape s" and c: "current s = Some c" "c < SCHED_MAX_TASKS"
    and i: "ready s i" "i \<noteq> c"
  obtains n where "pick_next s = Some n" "ready s n" "ahead c n \<le> ahead c i"
proof -
  let ?P = "\<lambda>k. tstate (tasks s ! ((c + k) mod SCHED_MAX_TASKS)) = TASK_READY"
  have start: "tid (tasks s ! c) = c" using table_shapeD(2) [OF shape c(2)] .
  have idx: "(c + ahead c i) mod SCHED_MAX_TASKS = i"
    using c i by (auto simp: ahead_def SCHED_MAX_TASKS_def mod_if)
  have pos: "1 \<le> ahead c i" "ahead c i < SCHED_MAX_TASKS"
    using c i by (auto simp: ahead_def SCHED_MAX_TASKS_def mod_if split: if_splits)
  have "?P (ahead c i)" using idx i by simp
  then obtain k where k: "scan ?P 1 SCHED_MAX_TASKS = Some k"
    using pos scan_None_iff [of ?P 1 SCHED_MAX_TASKS] by (cases "scan ?P 1 SCHED_MAX_TASKS") auto
  have sk: "1 \<le> k" "?P k" "k \<le> ahead c i"
    using scan_SomeD [OF k] \<open>?P (ahead c i)\<close> pos by (auto simp: not_le [symmetric])
  let ?n = "(c + k) mod SCHED_MAX_TASKS"
  have "ahead c ?n = k"
    using c sk pos by (auto simp: ahead_def SCHED_MAX_TASKS_def mod_if split: if_splits)
  moreover have "pick_next s = Some ?n" using k c start by (simp add: pick_next_def Let_def)
  moreover have "?n < SCHED_MAX_TASKS" by (simp add: SCHED_MAX_TASKS_def)
  ultimately show thesis using sk that [of ?n] by simp
qed

lemma pick_next_self:
  assumes "table_shape s" "current s = Some c" "c < SCHED_MAX_TASKS" "\<forall>i. ready s i \<longrightarrow> i = c" "\<not> ready s c"
  shows "pick_next s = Some c"
proof -
  have "scan (\<lambda>k. tstate (tasks s ! ((c + k) mod SCHED_MAX_TASKS)) = TASK_READY) 1 SCHED_MAX_TASKS = None"
  proof -
    have "tstate (tasks s ! (x mod SCHED_MAX_TASKS)) \<noteq> TASK_READY" for x
      using assms(4,5) by (metis SCHED_MAX_TASKS_def mod_less_divisor zero_less_numeral)
    then show ?thesis by (simp add: scan_None_iff)
  qed
  then show ?thesis using assms table_shapeD(2) [OF assms(1,3)] by (simp add: pick_next_def Let_def)
qed

lemma pick_next_cases:
  assumes shape: "table_shape s" and st: "states_ok s" and c: "current s = Some c"
  obtains (same) "pick_next s = Some c" "\<forall>i. \<not> ready s i"
  | (other) n where "pick_next s = Some n" "ready s n" "n \<noteq> c" "\<And>i. ready s i \<Longrightarrow> ahead c n \<le> ahead c i"
proof -
  have c8: "c < SCHED_MAX_TASKS" and run: "tstate (tasks s ! c) = TASK_RUNNING"
    using st c by (auto elim!: states_okE)
  show thesis
  proof (cases "\<exists>i. ready s i")
    case True
    then obtain i where i: "ready s i" by blast
    then have "i \<noteq> c" using run by auto
    from pick_next_ready [OF shape c c8 i this] obtain n where n: "pick_next s = Some n" "ready s n" by blast
    have "n \<noteq> c" using n run by auto
    moreover have "ahead c n \<le> ahead c j" if j: "ready s j" for j
    proof -
      have "j \<noteq> c" using j run by auto
      from pick_next_ready [OF shape c c8 j this] n show ?thesis by auto
    qed
    ultimately show thesis using n other by blast
  next
    case False
    then show thesis using pick_next_self [OF shape c c8] same by blast
  qed
qed


section \<open>What a switch does\<close>

lemma upd_task_simps [simp]:
  "length (tasks (upd_task i f s)) = length (tasks s)" "current (upd_task i f s) = current s"
  "sched_enabled (upd_task i f s) = sched_enabled s" "ticks_slice (upd_task i f s) = ticks_slice s"
  "heap (upd_task i f s) = heap s" "esp (upd_task i f s) = esp s" "eip (upd_task i f s) = eip s"
  "stack_mem (upd_task i f s) = stack_mem s" "if_flag (upd_task i f s) = if_flag s"
  by (simp_all add: upd_task_def)

lemma upd_task_nth:
  "k < length (tasks s) \<Longrightarrow> tasks (upd_task i f s) ! k = (if k = i then f (tasks s ! k) else tasks s ! k)"
  by (simp add: upd_task_def nth_list_update)

lemma context_switch_simps [simp]:
  "length (tasks (context_switch p x s)) = length (tasks s)" "current (context_switch p x s) = current s"
  "sched_enabled (context_switch p x s) = sched_enabled s" "ticks_slice (context_switch p x s) = ticks_slice s"
  "heap (context_switch p x s) = heap s" "if_flag (context_switch p x s) = if_flag s"
  "esp (context_switch p x s) = x + 36" "eip (context_switch p x s) = stack_mem s (x + 32)"
  "stack_mem (context_switch p x s) = stack_mem s"
  by (simp_all add: context_switch_def Let_def)

lemma context_switch_nth:
  "k < length (tasks s) \<Longrightarrow>
   tasks (context_switch p x s) ! k = (if k = p then (tasks s ! k)\<lparr>sp := esp s - 32\<rparr> else tasks s ! k)"
  by (simp add: context_switch_def Let_def upd_task_nth)

lemma switch_to_simps [simp]:
  "length (tasks (switch_to p n s)) = length (tasks s)" "current (switch_to p n s) = Some n"
  "sched_enabled (switch_to p n s) = sched_enabled s" "ticks_slice (switch_to p n s) = ticks_slice s"
  "heap (switch_to p n s) = heap s" "esp (switch_to p n s) = esp s" "if_flag (switch_to p n s) = if_flag s"
  "stack_mem (switch_to p n s) = stack_mem s"
  by (simp_all add: switch_to_def Let_def)

lemma switch_to_nth:
  assumes "k < length (tasks s)" "p < length (tasks s)"
  shows "tasks (switch_to p n s) ! k = (tasks s ! k)\<lparr>tstate :=
     (if k = n then TASK_RUNNING else if k = p \<and> tstate (tasks s ! p) = TASK_RUNNING then TASK_READY
      else tstate (tasks s ! k))\<rparr>"
  using assms by (cases "k = n"; cases "k = p") (simp_all add: switch_to_def Let_def upd_task_nth)

text \<open>\<open>same_tasks\<close>: the tables agree in everything the invariant needs but the states.\<close>

definition same_tasks :: "sched \<Rightarrow> sched \<Rightarrow> bool" where
  "same_tasks s s' \<longleftrightarrow> heap s' = heap s \<and> length (tasks s') = length (tasks s)
     \<and> (\<forall>i < length (tasks s). tid (tasks s' ! i) = tid (tasks s ! i)
          \<and> stack_base (tasks s' ! i) = stack_base (tasks s ! i))"

lemma same_tasks_shape: "same_tasks s s' \<Longrightarrow> table_shape s \<Longrightarrow> table_shape s'"
  by (simp add: same_tasks_def table_shape_def)

lemma same_tasks_stacks:
  assumes same: "same_tasks s s'" and shape: "table_shape s" and ok: "stacks_ok s"
    and live: "\<And>i. live_task s' i \<Longrightarrow> live_task s i"
  shows "stacks_ok s'"
proof -
  have sb: "stack_base (tasks s' ! i) = stack_base (tasks s ! i)" if "live_task s' i" for i
    using same that shape by (simp add: same_tasks_def live_task_def table_shape_def)
  have h: "heap s' = heap s" using same by (simp add: same_tasks_def)
  show ?thesis
    unfolding stacks_ok_def h
  proof (intro conjI allI impI)
    show "kheap_inv (heap s)" using ok by (simp add: stacks_ok_def)
  next
    fix i assume i: "live_task s' i"
    then show "\<exists>m\<ge>SCHED_STACK_SIZE. (stack_base (tasks s' ! i), m) \<in> kregions (heap s)"
      using ok live [OF i] sb [OF i] by (simp add: stacks_ok_def)
  next
    fix i j assume "live_task s' i" "live_task s' j" "stack_base (tasks s' ! i) = stack_base (tasks s' ! j)"
    then show "i = j" using ok live sb unfolding stacks_ok_def by metis
  qed
qed

text \<open>\<open>handover s n s'\<close>: the processor went from the current task to the ready task \<open>n\<close>.\<close>

definition handover :: "sched \<Rightarrow> nat \<Rightarrow> sched \<Rightarrow> bool" where
  "handover s n s' \<longleftrightarrow> (\<exists>c. current s = Some c \<and> current s' = Some n \<and> same_tasks s s'
     \<and> sched_enabled s' = sched_enabled s \<and> ticks_slice s' = 0
     \<and> eip s' = stack_mem s (sp (tasks s ! n) + 32) \<and> esp s' = sp (tasks s ! n) + 36
     \<and> stack_mem s' = stack_mem s \<and> sp (tasks s' ! c) = esp s - 32
     \<and> (\<forall>i < SCHED_MAX_TASKS. i \<noteq> c \<longrightarrow> sp (tasks s' ! i) = sp (tasks s ! i))
     \<and> (\<forall>i < SCHED_MAX_TASKS. tstate (tasks s' ! i) =
          (if i = n then TASK_RUNNING else if i = c then TASK_READY else tstate (tasks s ! i))))"

lemma switch_handover:
  assumes shape: "table_shape s" and st: "states_ok s" and c: "current s = Some c"
    and n: "n < SCHED_MAX_TASKS" "n \<noteq> c" and z: "ticks_slice s = 0"
  shows "handover s n (context_switch c (sp (tasks (switch_to c n s) ! n)) (switch_to c n s))"
proof -
  have c8: "c < SCHED_MAX_TASKS" and run: "tstate (tasks s ! c) = TASK_RUNNING"
    using st c by (auto elim!: states_okE)
  note len = table_shapeD(1) [OF shape]
  note nth = context_switch_nth [of _ "switch_to c n s"] switch_to_nth [of _ s c n]
  show ?thesis
    unfolding handover_def same_tasks_def
    using c c8 run n z len by (intro exI [of _ c]) (auto simp: nth)
qed

lemma handover_ok:
  assumes ok: "sched_ok s" and n: "ready s n" and h: "handover s n s'"
  shows "sched_ok s'"
proof -
  note d = sched_okD [OF ok]
  obtain c where c: "current s = Some c" "current s' = Some n" and same: "same_tasks s s'"
    and misc: "sched_enabled s'" "ticks_slice s' = 0"
    and st: "\<And>i. i < SCHED_MAX_TASKS \<Longrightarrow> tstate (tasks s' ! i) =
          (if i = n then TASK_RUNNING else if i = c then TASK_READY else tstate (tasks s ! i))"
    using h d(1) unfolding handover_def by blast
  have old: "\<And>i. i < SCHED_MAX_TASKS \<Longrightarrow> tstate (tasks s ! i) = TASK_RUNNING \<longleftrightarrow> i = c"
    "\<And>i. i < SCHED_MAX_TASKS \<Longrightarrow> tstate (tasks s ! i) \<in> {TASK_FREE, TASK_READY, TASK_RUNNING}"
    "tstate (tasks s ! 0) \<noteq> TASK_FREE" "c < SCHED_MAX_TASKS"
    using d(4) c(1) by (auto elim!: states_okE)
  have "0 < SCHED_MAX_TASKS" by (simp add: SCHED_MAX_TASKS_def)
  then have "states_ok s'"
    unfolding states_ok_def using c(2) n old st by (intro conjI exI [of _ n]) auto
  moreover have "stacks_ok s'"
  proof (rule same_tasks_stacks [OF same d(3,5)])
    fix i assume "live_task s' i"
    then show "live_task s i" using n st [of i] old(1) [of i] by (auto simp: live_task_def split: if_splits)
  qed
  ultimately show ?thesis
    using misc same_tasks_shape [OF same d(3)] by (simp add: sched_ok_def)
qed

lemma sched_ok_flags [simp]:
  "sched_ok (s\<lparr>if_flag := b\<rparr>) = sched_ok s" "table_shape (s\<lparr>if_flag := b\<rparr>) = table_shape s"
  "states_ok (s\<lparr>if_flag := b\<rparr>) = states_ok s" "pick_next (s\<lparr>if_flag := b\<rparr>) = pick_next s"
  by (simp_all add: sched_ok_def table_shape_def states_ok_def stacks_ok_def live_task_def pick_next_def
      cong: option.case_cong)

lemma sched_ok_slice [simp]:
  "table_shape (s\<lparr>ticks_slice := b\<rparr>) = table_shape s" "states_ok (s\<lparr>ticks_slice := b\<rparr>) = states_ok s"
  "stacks_ok (s\<lparr>ticks_slice := b\<rparr>) = stacks_ok s" "pick_next (s\<lparr>ticks_slice := b\<rparr>) = pick_next s"
  by (simp_all add: table_shape_def states_ok_def stacks_ok_def live_task_def pick_next_def
      cong: option.case_cong)


lemma handover_flags: "handover (s\<lparr>if_flag := b, ticks_slice := k\<rparr>) n s' = handover s n s'"
  by (simp add: handover_def same_tasks_def cong: if_cong)

lemma yield_cases:
  assumes ok: "sched_ok s" and c: "current s = Some c"
  obtains (stays) "sched_yield s = s\<lparr>if_flag := True\<rparr>" "\<forall>i. \<not> ready s i"
  | (switches) n where "ready s n" "n \<noteq> c" "\<And>i. ready s i \<Longrightarrow> ahead c n \<le> ahead c i"
      "handover s n (sched_yield s)" "\<not> if_flag (sched_yield s)"
proof -
  note d = sched_okD [OF ok]
  let ?s = "s\<lparr>if_flag := False, ticks_slice := 0\<rparr>"
  show thesis
    using d(3,4) c
  proof (cases rule: pick_next_cases)
    case same
    then have "sched_yield s = s\<lparr>if_flag := True\<rparr>"
      using d(1) c by (simp add: sched_yield_def schedule_def)
    with same show thesis using stays by blast
  next
    case (other n)
    have sw: "(switch_to c n (s\<lparr>if_flag := False\<rparr>))\<lparr>ticks_slice := 0\<rparr> = switch_to c n ?s"
      by (simp add: switch_to_def upd_task_def Let_def)
    have y: "sched_yield s = context_switch c (sp (tasks (switch_to c n ?s) ! n)) (switch_to c n ?s)"
      using other d(1) c by (simp add: sched_yield_def schedule_def sw [symmetric] Let_def)
    have "handover ?s n (sched_yield s)"
      unfolding y using other c d by (intro switch_handover) simp_all
    then have "handover s n (sched_yield s)" by (simp only: handover_flags)
    with other y show thesis using switches by simp
  qed
qed

lemma sched_yield_ok: "sched_ok s \<Longrightarrow> sched_ok (sched_yield s)"
proof -
  assume ok: "sched_ok s"
  obtain c where c: "current s = Some c" using sched_okD(4) [OF ok] by (auto elim!: states_okE)
  from ok c show ?thesis
    by (cases rule: yield_cases) (auto simp: ok intro: handover_ok [OF ok])
qed

lemma tick_charge_ok:
  assumes "sched_ok s" "k < 10"
  shows "sched_ok ((upd_task c (\<lambda>t. t\<lparr>ticks_ran := x t\<rparr>) s)\<lparr>ticks_slice := k\<rparr>)"
proof -
  let ?s = "(upd_task c (\<lambda>t. t\<lparr>ticks_ran := x t\<rparr>) s)\<lparr>ticks_slice := k\<rparr>"
  note d = sched_okD [OF assms(1)]
  have nth: "tstate (tasks ?s ! i) = tstate (tasks s ! i)" "tid (tasks ?s ! i) = tid (tasks s ! i)"
    "stack_base (tasks ?s ! i) = stack_base (tasks s ! i)" if "i < SCHED_MAX_TASKS" for i
    using that table_shapeD(1) [OF d(3)] by (simp_all add: upd_task_nth)
  have same: "same_tasks s ?s" using nth table_shapeD(1) [OF d(3)] by (simp add: same_tasks_def)
  have z: "0 < SCHED_MAX_TASKS" by (simp add: SCHED_MAX_TASKS_def)
  have "states_ok ?s" using d(4) nth z by (simp add: states_ok_def cong: conj_cong)
  moreover have "stacks_ok ?s"
    by (rule same_tasks_stacks [OF same d(3,5)]) (use nth in \<open>auto simp: live_task_def\<close>)
  ultimately show ?thesis
    using d assms(2) same_tasks_shape [OF same d(3)] by (simp add: sched_ok_def)
qed

lemma sched_on_tick_ok:
  assumes ok: "sched_ok s"
  shows "sched_ok (sched_on_tick s)"
proof -
  note d = sched_okD [OF ok]
  obtain c where c: "current s = Some c" using d(4) by (auto elim!: states_okE)
  let ?u = "upd_task c (\<lambda>t. t\<lparr>ticks_ran := ticks_ran t + 1\<rparr>) s"
  show ?thesis
  proof (cases "ticks_slice s + 1 \<ge> 10")
    case True
    let ?s = "?u\<lparr>ticks_slice := 0\<rparr>"
    have oks: "sched_ok ?s" by (rule tick_charge_ok [OF ok]) simp
    have cs: "current ?s = Some c" using c by simp
    have s: "sched_on_tick s = (case pick_next ?s of None \<Rightarrow> ?s
        | Some n \<Rightarrow> if n = c then ?s else context_switch c (sp (tasks (switch_to c n ?s) ! n)) (switch_to c n ?s))"
      using True c d(1) by (simp add: sched_on_tick_def Let_def split: option.split)
    show ?thesis
      using sched_okD(3,4) [OF oks] cs
    proof (cases rule: pick_next_cases)
      case same
      with s oks show ?thesis by simp
    next
      case (other n)
      have "handover ?s n (context_switch c (sp (tasks (switch_to c n ?s) ! n)) (switch_to c n ?s))"
        using sched_okD(3,4) [OF oks] cs other by (intro switch_handover) simp_all
      with s other handover_ok [OF oks other(2)] show ?thesis by simp
    qed
  next
    case False
    then have "sched_on_tick s = ?u\<lparr>ticks_slice := ticks_slice s + 1\<rparr>"
      using c d(1) by (simp add: sched_on_tick_def Let_def)
    then show ?thesis using tick_charge_ok [OF ok, of "ticks_slice s + 1"] False by simp
  qed
qed


section \<open>Starting and leaving\<close>

lemma stacks_okD:
  assumes "stacks_ok s"
  shows "kheap_inv (heap s)"
    "\<And>i. live_task s i \<Longrightarrow> \<exists>m \<ge> SCHED_STACK_SIZE. (stack_base (tasks s ! i), m) \<in> kregions (heap s)"
    "\<And>i j. live_task s i \<Longrightarrow> live_task s j \<Longrightarrow> stack_base (tasks s ! i) = stack_base (tasks s ! j) \<Longrightarrow> i = j"
  using assms unfolding stacks_ok_def by blast+

lemma sched_init_ok:
  assumes len: "length (tasks s) = SCHED_MAX_TASKS" and heap: "kheap_inv (heap s)"
  shows "sched_ok (sched_init s)"
proof -
  let ?s = "sched_init s"
  have z: "0 < SCHED_MAX_TASKS" by (simp add: SCHED_MAX_TASKS_def)
  have nth: "tstate (tasks ?s ! i) = (if i = 0 then TASK_RUNNING else TASK_FREE) \<and> tid (tasks ?s ! i) = i"
    if "i < SCHED_MAX_TASKS" for i
    using that len by (simp add: sched_init_def Let_def upd_task_nth nth_enumerate_eq)
  have "table_shape ?s" using nth len by (simp add: table_shape_def sched_init_def Let_def)
  moreover have "states_ok ?s" using nth z by (auto simp: states_ok_def) (auto simp: sched_init_def Let_def)
  moreover have "stacks_ok ?s" using nth heap by (auto simp: stacks_ok_def live_task_def) (auto simp: sched_init_def Let_def)
  ultimately show ?thesis by (simp add: sched_ok_def) (simp add: sched_init_def Let_def)
qed

lemma init_stack_bounds:
  assumes "init_stack stack bootstrap mem = (p, mem')" "16 \<le> stack"
  shows "stack \<le> p" "p + 36 \<le> stack + SCHED_STACK_SIZE" "mem' (p + 32) = bootstrap" "(p + 36) mod 16 = 0"
    "\<And>a. a < stack \<or> stack + SCHED_STACK_SIZE \<le> a \<Longrightarrow> mem' a = mem a"
proof -
  let ?top = "(stack + SCHED_STACK_SIZE) div 16 * 16"
  have p: "p = ?top - 36"
    and mem': "mem' = fold (\<lambda>k mem. mem(?top - 4 - 4 * k := 0)) [1..<9] (mem(?top - 4 := bootstrap))"
    using assms(1) by (auto simp: init_stack_def Let_def simp del: upt_rec_numeral)
  have top: "stack + SCHED_STACK_SIZE - 15 \<le> ?top" "?top \<le> stack + SCHED_STACK_SIZE"
    by (simp_all add: div_times_less_eq_dividend)
  then show b: "stack \<le> p" "p + 36 \<le> stack + SCHED_STACK_SIZE"
    using p by (simp_all add: SCHED_STACK_SIZE_def)
  have t: "?top = p + 36" using p top by (simp add: SCHED_STACK_SIZE_def)
  have range: "[1..<9] = [1, 2, 3, 4, 5, 6, 7, 8 :: nat]" by code_simp
  note mem'' = mem' [unfolded t range]
  show "mem' (p + 32) = bootstrap" unfolding mem'' by simp
  show "(p + 36) mod 16 = 0" unfolding t [symmetric] by simp
  fix a assume "a < stack \<or> stack + SCHED_STACK_SIZE \<le> a"
  then have "a < p \<or> p + 36 \<le> a" using b by linarith
  then show "mem' a = mem a" unfolding mem'' by auto
qed

text \<open>What \<open>sched_spawn\<close> returns, case by case.\<close>

lemma sched_spawn_cases:
  assumes ok: "sched_ok s"
  obtains (full) "sched_spawn b name e a s = Some (-1, s)" "\<forall>i. 0 < i \<longrightarrow> i < SCHED_MAX_TASKS \<longrightarrow> live_task s i"
  | (no_memory) h where "sched_spawn b name e a s = Some (-1, s\<lparr>heap := h\<rparr>)" "kheap_inv h" "kregions h = kregions (heap s)"
  | (spawned) i stack m spv s' where "sched_spawn b name e a s = Some (int i, s')" "0 < i" "i < SCHED_MAX_TASKS"
      "\<not> live_task s i" "SCHED_STACK_SIZE \<le> m" "kheap_inv (heap s')"
      "kregions (heap s') = insert (stack, m) (kregions (heap s))"
      "\<forall>r \<in> kregions (heap s). disjoint_regions (stack, m) r" "16 \<le> stack"
      "init_stack stack b (stack_mem s) = (spv, stack_mem s')"
      "s' = (upd_task i (\<lambda>t. t\<lparr>stack_base := stack, entry := e, targ := a, ticks_ran := 0,
                tname := str_copy16 (case name of Some n \<Rightarrow> n | None \<Rightarrow> ''task''), sp := spv,
                tstate := TASK_READY\<rparr>) s)\<lparr>heap := heap s', stack_mem := stack_mem s'\<rparr>"
proof (cases "scan (\<lambda>i. tstate (tasks s ! i) = TASK_FREE) 1 (SCHED_MAX_TASKS - 1)")
  case None
  then have "\<forall>i. 0 < i \<longrightarrow> i < SCHED_MAX_TASKS \<longrightarrow> live_task s i"
    by (auto simp: scan_None_iff live_task_def SCHED_MAX_TASKS_def)
  with None show thesis using full by (simp add: sched_spawn_def)
next
  case (Some i)
  have i: "0 < i" "i < SCHED_MAX_TASKS" "tstate (tasks s ! i) = TASK_FREE"
    using scan_SomeD [OF Some] by (auto simp: SCHED_MAX_TASKS_def)
  have inv: "kheap_inv (heap s)" using stacks_okD(1) [OF sched_okD(5) [OF ok]] .
  have fits: "SCHED_STACK_SIZE \<le> 2 ^ 32 - 8" by (simp add: SCHED_STACK_SIZE_def)
  obtain stack h where k: "kmalloc SCHED_STACK_SIZE (heap s) = Some (stack, h)" "kheap_inv h"
    using kh.alloc_returns [OF inv fits] by blast
  show thesis
  proof (cases "stack = 0")
    case True
    then have "kregions h = kregions (heap s)" using kh.alloc_refused [OF inv fits] k by simp
    then show thesis using no_memory [of h] Some k True by (simp add: sched_spawn_def)
  next
    case False
    from kh.alloc_granted [OF inv k(1) False fits] obtain m where m: "SCHED_STACK_SIZE \<le> m"
      "kregions h = insert (stack, m) (kregions (heap s))" "\<forall>r \<in> kregions (heap s). disjoint_regions (stack, m) r"
      by blast
    have "(stack, m) \<in> used_regions (kblocks h)" using m(2) by (simp add: kregions_def)
    then obtain bl where "stack = bl + 12" "(bl, m, False) \<in> set (kblocks h)" by (auto simp: used_regions_def)
    then have big: "16 \<le> stack" using heap_ok_block [of h "kblocks h" bl m False] k(2) by (simp add: kheap_inv_def)
    obtain spv mem where im: "init_stack stack b (stack_mem s) = (spv, mem)" by fastforce
    let ?s' = "(upd_task i (\<lambda>t. t\<lparr>stack_base := stack, entry := e, targ := a, ticks_ran := 0,
                tname := str_copy16 (case name of Some n \<Rightarrow> n | None \<Rightarrow> ''task''), sp := spv,
                tstate := TASK_READY\<rparr>) s)\<lparr>heap := h, stack_mem := mem\<rparr>"
    have shape: "table_shape s" using sched_okD(3) [OF ok] .
    have "sched_spawn b name e a s = Some (int i, ?s')"
      using Some k False im i table_shapeD [OF shape]
      by (simp add: sched_spawn_def Let_def upd_task_def)
    moreover have "\<not> live_task s i" using i by (simp add: live_task_def)
    ultimately show thesis using spawned [of i ?s' m stack spv] i m big k(2) im by simp
  qed
qed

lemma sched_spawn_ok:
  assumes ok: "sched_ok s"
  shows "\<exists>r s'. sched_spawn b name e a s = Some (r, s') \<and> sched_ok s'"
proof -
  note d = sched_okD [OF ok]
  from ok show ?thesis
  proof (cases rule: sched_spawn_cases [where b = b and name = name and e = e and a = a])
    case full
    then show ?thesis using ok by simp
  next
    case (no_memory h)
    have "sched_ok (s\<lparr>heap := h\<rparr>)"
      using d no_memory by (simp add: sched_ok_def table_shape_def states_ok_def stacks_ok_def live_task_def)
    then show ?thesis using no_memory by simp
  next
    case (spawned i stack m spv s')
    note shape = table_shapeD [OF d(3)]
    have nth: "tasks s' ! k = (if k = i then tasks s' ! i else tasks s ! k)"
      "tstate (tasks s' ! i) = TASK_READY" "stack_base (tasks s' ! i) = stack" "tid (tasks s' ! i) = i"
      if "k < SCHED_MAX_TASKS" for k
      using spawned(3) shape that by (subst spawned(11), simp add: upd_task_nth)+
    have misc: "current s' = current s" "length (tasks s') = length (tasks s)" "sched_enabled s' = sched_enabled s"
      "ticks_slice s' = ticks_slice s"
      by (subst spawned(11), simp)+
    have i0: "0 < SCHED_MAX_TASKS" by (simp add: SCHED_MAX_TASKS_def)
    have idle: "tstate (tasks s ! i) = TASK_FREE" using spawned by (simp add: live_task_def)
    have live: "live_task s' k \<longleftrightarrow> k = i \<or> live_task s k" for k
      using nth(1) [of k] nth(2) [OF i0] spawned(2,3) by (cases "k = i") (auto simp: live_task_def)
    have fresh: "stack_base (tasks s ! k) \<noteq> stack" if lv: "live_task s k" for k
    proof
      assume "stack_base (tasks s ! k) = stack"
      then obtain m' where "(stack, m') \<in> kregions (heap s)" "SCHED_STACK_SIZE \<le> m'"
        using stacks_okD(2) [OF d(5) lv] by auto
      then show False using spawned(5,8) by (auto simp: disjoint_regions_def SCHED_STACK_SIZE_def)
    qed
    have st: "tstate (tasks s' ! k) = (if k = i then TASK_READY else tstate (tasks s ! k))" if "k < SCHED_MAX_TASKS" for k
      using nth(1) [OF that] nth(2) [OF i0] by (cases "k = i") simp_all
    have "states_ok s'"
      using d(4)
    proof (rule states_okE)
      fix c
      assume c: "current s = Some c" "c < SCHED_MAX_TASKS"
        "\<And>i. i < SCHED_MAX_TASKS \<Longrightarrow> tstate (tasks s ! i) = TASK_RUNNING \<longleftrightarrow> i = c"
        "\<And>i. i < SCHED_MAX_TASKS \<Longrightarrow> tstate (tasks s ! i) \<in> {TASK_FREE, TASK_READY, TASK_RUNNING}"
        "tstate (tasks s ! 0) \<noteq> TASK_FREE"
      have "i \<noteq> c" using c(3) [OF spawned(3)] idle by auto
      show "states_ok s'"
      proof (rule states_okI [of s' c])
        fix k assume k: "k < SCHED_MAX_TASKS"
        show "tstate (tasks s' ! k) = TASK_RUNNING \<longleftrightarrow> k = c" using st [OF k] c(3) [OF k] \<open>i \<noteq> c\<close> by auto
        show "tstate (tasks s' ! k) \<in> {TASK_FREE, TASK_READY, TASK_RUNNING}" using st [OF k] c(4) [OF k] by auto
      qed (use c(1,2,5) misc(1) st [OF i0] spawned(2) in auto)
    qed
    moreover have tids: "tid (tasks s' ! k) = k" and sb: "stack_base (tasks s' ! k) = (if k = i then stack else stack_base (tasks s ! k))"
      if "k < SCHED_MAX_TASKS" for k
      using nth(1) [OF that] nth(3,4) [OF i0] shape(2) [OF that] by (cases "k = i", simp, simp)+
    have "table_shape s'" using shape(1) misc(2) tids by (simp add: table_shape_def)
    moreover have "stacks_ok s'"
      unfolding stacks_ok_def
    proof (intro conjI allI impI)
      show "kheap_inv (heap s')" by (rule spawned(6))
    next
      fix k assume k: "live_task s' k"
      then have "k < SCHED_MAX_TASKS" by (simp add: live_task_def)
      then show "\<exists>m\<ge>SCHED_STACK_SIZE. (stack_base (tasks s' ! k), m) \<in> kregions (heap s')"
        using k live [of k] sb [of k] spawned(5,7) stacks_okD(2) [OF d(5), of k] by (cases "k = i") auto
    next
      fix j k assume jk: "live_task s' j" "live_task s' k" "stack_base (tasks s' ! j) = stack_base (tasks s' ! k)"
      then have "j < SCHED_MAX_TASKS" "k < SCHED_MAX_TASKS" by (simp_all add: live_task_def)
      then show "j = k"
        using jk live [of j] live [of k] sb [of j] sb [of k] fresh [of j] fresh [of k]
          stacks_okD(3) [OF d(5), of j k] by (cases "j = i"; cases "k = i") auto
    qed
    ultimately show ?thesis using spawned(1) misc d(1,2) by (auto simp: sched_ok_def)
  qed
qed


lemma sched_exit_shell:
  assumes "sched_ok s" "current s = Some 0"
  shows "sched_exit s = Some (s\<lparr>if_flag := True\<rparr>)"
  using assms table_shapeD(2) [OF sched_okD(3) [OF assms(1)], of 0]
  by (simp add: sched_exit_def SCHED_MAX_TASKS_def)

text \<open>A task other than the shell that exits: another ready task runs, and the exited
  task's slot is free.\<close>

lemma sched_exit_task:
  assumes ok: "sched_ok s" and c: "current s = Some c" "c \<noteq> 0"
  shows "\<exists>n s'. sched_exit s = Some s' \<and> sched_ok s' \<and> ready s n \<and> current s' = Some n \<and> \<not> live_task s' c
    \<and> heap s' = heap s \<and> \<not> if_flag s' \<and> eip s' = stack_mem s (sp (tasks s ! n) + 32)
    \<and> (\<forall>i. live_task s' i \<longleftrightarrow> live_task s i \<and> i \<noteq> c)
    \<and> (\<forall>i. live_task s' i \<longrightarrow> stack_base (tasks s' ! i) = stack_base (tasks s ! i))"
proof -
  note d = sched_okD [OF ok]
  note shape = table_shapeD [OF d(3)]
  obtain c8: "c < SCHED_MAX_TASKS"
    and run: "\<And>i. i < SCHED_MAX_TASKS \<Longrightarrow> tstate (tasks s ! i) = TASK_RUNNING \<longleftrightarrow> i = c"
    and three: "\<And>i. i < SCHED_MAX_TASKS \<Longrightarrow> tstate (tasks s ! i) \<in> {TASK_FREE, TASK_READY, TASK_RUNNING}"
    and sh: "tstate (tasks s ! 0) \<noteq> TASK_FREE"
    using d(4) c(1) by (auto elim!: states_okE)
  have z: "0 < SCHED_MAX_TASKS" by (simp add: SCHED_MAX_TASKS_def)
  have ready0: "ready s 0" using run [OF z] three [OF z] sh c(2) z by auto
  let ?s1 = "upd_task c (\<lambda>t. t\<lparr>tstate := TASK_FREE, stack_base := 0\<rparr>) (s\<lparr>if_flag := False\<rparr>)"
  have nth1: "tasks ?s1 ! k = (if k = c then (tasks s ! c)\<lparr>tstate := TASK_FREE, stack_base := 0\<rparr> else tasks s ! k)"
    if "k < SCHED_MAX_TASKS" for k using that shape(1) by (simp add: upd_task_nth)
  have shape1: "table_shape ?s1" using shape nth1 by (simp add: table_shape_def)
  have r1: "ready ?s1 k \<longleftrightarrow> ready s k" for k using nth1 [of k] run [of c] c8 by (auto split: if_splits)
  have cur1: "current ?s1 = Some c" using c(1) by simp
  have "ready ?s1 0" using ready0 r1 [of 0] by blast
  from pick_next_ready [OF shape1 cur1 c8 this c(2) [symmetric]]
  obtain n where n: "pick_next ?s1 = Some n" "ready ?s1 n" by blast
  have rn: "ready s n" using n(2) r1 [of n] by blast
  then have nc: "n \<noteq> c" "n < SCHED_MAX_TASKS" using run [of c] c8 by auto
  let ?s2 = "upd_task n (\<lambda>t. t\<lparr>tstate := TASK_RUNNING\<rparr>) (?s1\<lparr>current := Some n\<rparr>)"
  define s' where "s' = context_switch c (sp (tasks ?s2 ! n)) ?s2"
  have e: "sched_exit s = Some s'"
    using c n(1) shape(2) [OF c8] by (simp add: sched_exit_def Let_def s'_def)
  have misc: "current s' = Some n" "heap s' = heap s" "\<not> if_flag s'" "length (tasks s') = length (tasks s)"
    "sched_enabled s'" "ticks_slice s' < 10"
    using d(1,2) by (simp_all add: s'_def)
  have eip: "eip s' = stack_mem s (sp (tasks s ! n) + 32)"
    using nc shape(1) nth1 [of n] by (simp add: s'_def upd_task_nth)
  have nth: "tstate (tasks s' ! k) = (if k = n then TASK_RUNNING else if k = c then TASK_FREE else tstate (tasks s ! k))"
    "k \<noteq> c \<Longrightarrow> stack_base (tasks s' ! k) = stack_base (tasks s ! k)" "tid (tasks s' ! k) = k"
    if "k < SCHED_MAX_TASKS" for k
    using that nc shape(1) shape(2) [OF that] nth1 [OF that]
    by (auto simp: s'_def context_switch_nth upd_task_nth)
  have live: "live_task s' i \<longleftrightarrow> live_task s i \<and> i \<noteq> c" for i
    using nth(1) [of i] nc rn c8 by (cases "i = n"; cases "i = c") (auto simp: live_task_def)
  have "states_ok s'"
  proof (rule states_okI [of s' n])
    fix k assume k: "k < SCHED_MAX_TASKS"
    show "tstate (tasks s' ! k) = TASK_RUNNING \<longleftrightarrow> k = n" using nth(1) [OF k] run [OF k] by auto
    show "tstate (tasks s' ! k) \<in> {TASK_FREE, TASK_READY, TASK_RUNNING}" using nth(1) [OF k] three [OF k] by auto
  qed (use misc(1) nc nth(1) [OF z] sh c(2) in auto)
  moreover have "table_shape s'" using shape(1) misc(4) nth(3) by (simp add: table_shape_def)
  moreover have sb: "stack_base (tasks s' ! i) = stack_base (tasks s ! i)" if "live_task s' i" for i
    using that live [of i] nth(2) [of i] by (auto simp: live_task_def)
  have "stacks_ok s'"
    unfolding stacks_ok_def misc(2)
  proof (intro conjI allI impI)
    fix i assume i: "live_task s' i"
    then show "\<exists>m\<ge>SCHED_STACK_SIZE. (stack_base (tasks s' ! i), m) \<in> kregions (heap s)"
      using stacks_okD(2) [OF d(5), of i] live [of i] sb [OF i] by simp
  next
    fix i j assume "live_task s' i" "live_task s' j" "stack_base (tasks s' ! i) = stack_base (tasks s' ! j)"
    then show "i = j" using stacks_okD(3) [OF d(5), of i j] live sb by simp
  qed (rule stacks_okD(1) [OF d(5)])
  ultimately have "sched_ok s'" using misc(5,6) by (simp add: sched_ok_def)
  then show ?thesis using e rn live sb misc(1-3) eip by (intro exI [of _ n] exI [of _ s']) blast
qed

section \<open>Runs of the scheduler\<close>

text \<open>What can happen: the running task spawns a task, yields or exits, or the timer ticks.\<close>

inductive sched_step :: "u32 \<Rightarrow> sched \<Rightarrow> sched \<Rightarrow> bool" for bootstrap where
  spawn: "sched_spawn bootstrap name e a s = Some (r, s') \<Longrightarrow> sched_step bootstrap s s'"
| yield: "sched_step bootstrap s (sched_yield s)"
| tick: "sched_step bootstrap s (sched_on_tick s)"
| exit: "sched_exit s = Some s' \<Longrightarrow> sched_step bootstrap s s'"

lemma sched_exit_ok: "sched_ok s \<Longrightarrow> sched_exit s = Some s' \<Longrightarrow> sched_ok s'"
proof -
  assume ok: "sched_ok s" and e: "sched_exit s = Some s'"
  obtain c where c: "current s = Some c" using sched_okD(4) [OF ok] by (auto elim!: states_okE)
  show "sched_ok s'"
  proof (cases "c = 0")
    case True
    then show ?thesis using sched_exit_shell [OF ok] c e ok by auto
  next
    case False
    then show ?thesis using sched_exit_task [OF ok c] e by auto
  qed
qed

lemma sched_step_ok: "sched_step b s s' \<Longrightarrow> sched_ok s \<Longrightarrow> sched_ok s'"
proof (induction rule: sched_step.induct)
  case (spawn name e a s r s')
  then show ?case using sched_spawn_ok [of s b name e a] by auto
qed (auto intro: sched_yield_ok sched_on_tick_ok sched_exit_ok)

lemma sched_run_ok: "(sched_step b)\<^sup>*\<^sup>* s s' \<Longrightarrow> sched_ok s \<Longrightarrow> sched_ok s'"
  by (induction rule: rtranclp_induct) (auto intro: sched_step_ok)

section \<open>Round robin\<close>

lemma ahead_through:
  assumes "c < SCHED_MAX_TASKS" "n < SCHED_MAX_TASKS" "i < SCHED_MAX_TASKS" "n \<noteq> c"
    "ahead c n \<le> ahead c i"
  shows "ahead n i < ahead c i"
  using assms by (auto simp: ahead_def SCHED_MAX_TASKS_def mod_if split: if_splits)

lemma yield_reaches:
  assumes "sched_ok s" "current s = Some c" "ready s i"
  shows "\<exists>k. 1 \<le> k \<and> k \<le> ahead c i \<and> current ((sched_yield ^^ k) s) = Some i"
  using assms
proof (induction "ahead c i" arbitrary: s c rule: less_induct)
  case less
  have c8: "c < SCHED_MAX_TASKS" using sched_okD(4) [OF less.prems(1)] less.prems(2) by (auto elim!: states_okE)
  from less.prems(1,2) show ?case
  proof (cases rule: yield_cases)
    case stays
    then show ?thesis using less.prems(3) by blast
  next
    case (switches n)
    let ?s = "sched_yield s"
    have h: "current ?s = Some n"
      "i < SCHED_MAX_TASKS \<Longrightarrow> i \<noteq> n \<Longrightarrow> i \<noteq> c \<Longrightarrow> tstate (tasks ?s ! i) = tstate (tasks s ! i)"
      using switches(4) less.prems(2) by (auto simp: handover_def)
    have le: "ahead c n \<le> ahead c i" using switches(3) [OF less.prems(3)] .
    have closer: "ahead n i < ahead c i"
      using ahead_through [OF c8 _ _ switches(2) le] switches(1) less.prems(3) by simp
    show ?thesis
    proof (cases "n = i")
      case True
      then show ?thesis using h(1) closer by (intro exI [of _ 1]) auto
    next
      case False
      have "tstate (tasks s ! c) = TASK_RUNNING"
        using sched_okD(4) [OF less.prems(1)] less.prems(2) by (auto elim!: states_okE)
      then have "i \<noteq> c" using less.prems(3) by auto
      then have "ready ?s i" using False h(2) less.prems(3) by simp
      from less.hyps [OF closer sched_yield_ok [OF less.prems(1)] h(1) this]
      obtain k where "1 \<le> k" "k \<le> ahead n i" "current ((sched_yield ^^ k) ?s) = Some i" by blast
      then show ?thesis using closer by (intro exI [of _ "Suc k"]) (simp add: funpow_swap1)
    qed
  qed
qed


section \<open>Properties\<close>

definition zero_task :: task where
  "zero_task = \<lparr>tid = 0, tstate = TASK_FREE, tname = [], sp = 0, stack_base = 0, entry = 0, targ = 0, ticks_ran = 0\<rparr>"

definition boot_sched :: sched where
  "boot_sched = sched_init \<lparr>tasks = replicate SCHED_MAX_TASKS zero_task, current = None, sched_enabled = False,
     ticks_slice = 0, g_worker_counter = 0, heap = kmalloc_init zero_kheap, stack_mem = (\<lambda>_. 0),
     esp = 0x9000, eip = 0, if_flag = True\<rparr>"

lemma boot_sched_ok: "sched_ok boot_sched"
  unfolding boot_sched_def by (rule sched_init_ok) (simp_all add: kheap_inv_init)

lemma boot_sched_current: "current boot_sched = Some 0"
  by (simp add: boot_sched_def sched_init_def Let_def)

text \<open>C11. In every run of spawns, yields, timer ticks and exits exactly one task is running
  and it is the current one, all others are ready or free, the shell is never lost, and
  every live task but the shell has a stack of at least 4096 bytes of its own from the
  kernel heap, disjoint from the stacks of the others.\<close>

theorem sched_invariant:
  assumes "sched_ok s" "(sched_step b)\<^sup>*\<^sup>* s s'"
  shows "sched_ok s' \<and> (\<exists>c. current s' = Some c \<and> (\<forall>i < SCHED_MAX_TASKS. tstate (tasks s' ! i) = TASK_RUNNING \<longleftrightarrow> i = c))
    \<and> (\<forall>i j. live_task s' i \<longrightarrow> live_task s' j \<longrightarrow> i \<noteq> j \<longrightarrow>
         disjoint_regions (stack_base (tasks s' ! i), SCHED_STACK_SIZE) (stack_base (tasks s' ! j), SCHED_STACK_SIZE))"
proof -
  have ok: "sched_ok s'" by (rule sched_run_ok [OF assms(2,1)])
  have "disjoint_regions (stack_base (tasks s' ! i), SCHED_STACK_SIZE) (stack_base (tasks s' ! j), SCHED_STACK_SIZE)"
    if ij: "live_task s' i" "live_task s' j" "i \<noteq> j" for i j
  proof -
    note d = stacks_okD [OF sched_okD(5) [OF ok]]
    obtain m k where "(stack_base (tasks s' ! i), m) \<in> kregions (heap s')" "SCHED_STACK_SIZE \<le> m"
      "(stack_base (tasks s' ! j), k) \<in> kregions (heap s')" "SCHED_STACK_SIZE \<le> k"
      using d(2) ij by blast
    with kh.regions_disjoint [OF d(1)] d(3) [OF ij(1,2)] ij(3) show ?thesis
      by (fastforce simp: disjoint_regions_def)
  qed
  moreover have "\<exists>c. current s' = Some c \<and> (\<forall>i < SCHED_MAX_TASKS. tstate (tasks s' ! i) = TASK_RUNNING \<longleftrightarrow> i = c)"
    using sched_okD(4) [OF ok] by (auto simp: states_ok_def)
  ultimately show ?thesis using ok by blast
qed

theorem sched_invariant_witness:
  "sched_ok (sched_on_tick (sched_yield boot_sched))"
proof -
  have "(sched_step 0)\<^sup>*\<^sup>* boot_sched (sched_on_tick (sched_yield boot_sched))"
    by (rule rtranclp.rtrancl_into_rtrancl [OF r_into_rtranclp]) (rule sched_step.yield, rule sched_step.tick)
  from sched_invariant [OF boot_sched_ok this] show ?thesis by blast
qed

text \<open>C12. Round robin: a task that is ready gets the processor after at most seven yields
  of the tasks that run, whichever they are.\<close>

theorem sched_round_robin:
  assumes "sched_ok s" "i < SCHED_MAX_TASKS" "tstate (tasks s ! i) = TASK_READY"
  shows "\<exists>k. 1 \<le> k \<and> k < SCHED_MAX_TASKS \<and> current ((sched_yield ^^ k) s) = Some i"
proof -
  obtain c where c: "current s = Some c" using sched_okD(4) [OF assms(1)] by (auto elim!: states_okE)
  have "ahead c i < SCHED_MAX_TASKS" by (simp add: ahead_def SCHED_MAX_TASKS_def)
  with yield_reaches [OF assms(1) c] assms(2,3) show ?thesis by fastforce
qed

text \<open>A spawned task, ready to run.\<close>

lemma boot_spawn:
  obtains i s where "sched_spawn b (Some ''worker'') 1 0 boot_sched = Some (int i, s)" "sched_ok s"
    "i < SCHED_MAX_TASKS" "tstate (tasks s ! i) = TASK_READY" "0 < i"
    "stack_mem s (sp (tasks s ! i) + 32) = b" "current s = Some 0" "\<not> live_task boot_sched i"
    "live_task s i" "\<And>k. live_task s k \<Longrightarrow> k = i"
proof -
  note d = sched_okD [OF boot_sched_ok]
  have none: "\<not> live_task boot_sched k" for k
    by (auto simp: live_task_def boot_sched_def sched_init_def Let_def upd_task_def SCHED_MAX_TASKS_def nth_enumerate_eq
        nth_list_update)
  have heap: "heap boot_sched = kmalloc_init zero_kheap" by (simp add: boot_sched_def sched_init_def Let_def)
  from boot_sched_ok show thesis
  proof (cases rule: sched_spawn_cases [where b = b and name = "Some ''worker''" and e = 1 and a = 0])
    case full
    then show thesis using none [of 1] by (simp add: SCHED_MAX_TASKS_def)
  next
    case (no_memory h)
    obtain p m s1 where "kmalloc 4096 (kmalloc_init zero_kheap) = Some (p, s1)" "p \<noteq> 0"
      by (rule kmalloc_first [of 4096]) auto
    then have k: "kmalloc SCHED_STACK_SIZE (heap boot_sched) = Some (p, s1)" "p \<noteq> 0"
      by (simp_all add: heap SCHED_STACK_SIZE_def)
    have "sched_spawn b (Some ''worker'') 1 0 boot_sched \<noteq> Some (-1, s)" for s
      using k none [of 1] scan_None_iff [of "\<lambda>i. tstate (tasks boot_sched ! i) = TASK_FREE" 1 "SCHED_MAX_TASKS - 1"]
      by (auto simp: sched_spawn_def Let_def live_task_def SCHED_MAX_TASKS_def split: option.splits prod.splits)
    then show thesis using no_memory by blast
  next
    case (spawned i stack m spv s')
    have ok: "sched_ok s'" using sched_spawn_ok [OF boot_sched_ok, of b "Some ''worker''" 1 0] spawned(1) by auto
    have nth: "tasks s' ! k = (if k = i then tasks s' ! i else tasks boot_sched ! k)"
      "tstate (tasks s' ! i) = TASK_READY" "sp (tasks s' ! i) = spv"
      if "k < SCHED_MAX_TASKS" for k
      using spawned(3) table_shapeD(1) [OF d(3)] that by (subst spawned(11), simp add: upd_task_nth)+
    have "stack_mem s' (spv + 32) = b" using init_stack_bounds(3) [OF spawned(10,9)] .
    moreover have "current s' = Some 0" by (subst spawned(11)) (simp add: boot_sched_current)
    moreover have "live_task s' k \<Longrightarrow> k = i" for k
      using nth(1) [of k] none [of k] by (cases "k = i") (auto simp: live_task_def)
    ultimately show thesis
      using that [OF spawned(1) ok spawned(3)] nth(2,3) [OF spawned(3)] spawned(2-4) by (simp add: live_task_def)
  qed
qed

theorem sched_round_robin_witness:
  "\<exists>i s k. sched_spawn 0x104000 (Some ''worker'') 1 0 boot_sched = Some (int i, s)
     \<and> current ((sched_yield ^^ k) s) = Some i"
proof (rule boot_spawn [of "0x104000"])
  fix i s
  assume "sched_spawn 0x104000 (Some ''worker'') 1 0 boot_sched = Some (int i, s)" "sched_ok s"
    "i < SCHED_MAX_TASKS" "tstate (tasks s ! i) = TASK_READY"
  with sched_round_robin [of s i] show ?thesis by blast
qed

text \<open>\<open>sched_spawn\<close> always returns. It either fails with -1, or gives the task a slot that
  was free, a fresh stack inside which the initial stack pointer lies, aligned to 16 bytes,
  and an initial frame from which the first switch to the task continues at
  \<open>task_bootstrap\<close>; nothing outside the new stack is written.\<close>

theorem sched_spawn_correct:
  assumes "sched_ok s"
  shows "\<exists>r s'. sched_spawn b name e a s = Some (r, s') \<and> sched_ok s' \<and> (r = -1 \<or> (\<exists>i. r = int i \<and> \<not> live_task s i
    \<and> live_task s' i \<and> tstate (tasks s' ! i) = TASK_READY \<and> entry (tasks s' ! i) = e
    \<and> stack_base (tasks s' ! i) \<le> sp (tasks s' ! i)
    \<and> sp (tasks s' ! i) + 36 \<le> stack_base (tasks s' ! i) + SCHED_STACK_SIZE \<and> (sp (tasks s' ! i) + 36) mod 16 = 0
    \<and> stack_mem s' (sp (tasks s' ! i) + 32) = b
    \<and> (\<forall>x. x < stack_base (tasks s' ! i) \<or> stack_base (tasks s' ! i) + SCHED_STACK_SIZE \<le> x
          \<longrightarrow> stack_mem s' x = stack_mem s x)))"
proof -
  obtain r s' where rs: "sched_spawn b name e a s = Some (r, s')" "sched_ok s'"
    using sched_spawn_ok [OF assms] by blast
  from assms show ?thesis
  proof (cases rule: sched_spawn_cases [where b = b and name = name and e = e and a = a])
    case (spawned i stack m spv s2)
    then have s2: "s' = s2" "r = int i" using rs by auto
    have t: "tasks s' ! i = (tasks s ! i)\<lparr>stack_base := stack, entry := e, targ := a, ticks_ran := 0,
                tname := str_copy16 (case name of Some n \<Rightarrow> n | None \<Rightarrow> ''task''), sp := spv, tstate := TASK_READY\<rparr>"
      unfolding s2(1) by (subst spawned(11)) (use spawned(3) table_shapeD(1) [OF sched_okD(3) [OF assms]] in \<open>simp add: upd_task_nth\<close>)
    from init_stack_bounds [OF spawned(10,9)] spawned(2-4) t rs s2 show ?thesis
      by (intro exI [of _ r] exI [of _ s'] conjI disjI2 exI [of _ i]) (auto simp: live_task_def)
  qed (use rs in auto)
qed

theorem sched_spawn_correct_witness:
  "\<exists>r s'. sched_spawn 0x104000 None 1 0 boot_sched = Some (r, s') \<and> sched_ok s'"
  using sched_spawn_correct [OF boot_sched_ok, of "0x104000" None 1 0] by blast

text \<open>A freshly spawned task that gets the processor by a yield starts at
  \<open>task_bootstrap\<close> with interrupts disabled: the \<open>sti\<close> behind the switch is executed only by
  a task that had itself yielded before, so the timer cannot preempt a new task until it
  yields.\<close>

theorem fresh_task_interrupts_off:
  assumes "sched_ok s" "pick_next s = Some i" "current s \<noteq> Some i" "stack_mem s (sp (tasks s ! i) + 32) = b"
  shows "current (sched_yield s) = Some i \<and> eip (sched_yield s) = b \<and> \<not> if_flag (sched_yield s)"
proof -
  obtain c where c: "current s = Some c" using sched_okD(4) [OF assms(1)] by (auto elim!: states_okE)
  note d = sched_okD [OF assms(1)]
  let ?s = "s\<lparr>if_flag := False, ticks_slice := 0\<rparr>"
  have i8: "i < SCHED_MAX_TASKS"
    using d(3,4) c
  proof (cases rule: pick_next_cases)
    case same
    then show ?thesis using assms(2,3) c by simp
  next
    case (other n)
    then show ?thesis using assms(2) by simp
  qed
  have sw: "(switch_to c i (s\<lparr>if_flag := False\<rparr>))\<lparr>ticks_slice := 0\<rparr> = switch_to c i ?s"
    by (simp add: switch_to_def upd_task_def Let_def)
  have y: "sched_yield s = context_switch c (sp (tasks (switch_to c i ?s) ! i)) (switch_to c i ?s)"
    using assms c d(1) by (simp add: sched_yield_def schedule_def sw [symmetric] Let_def)
  have "handover ?s i (sched_yield s)"
    unfolding y using assms c d i8 by (intro switch_handover) simp_all
  then have "current (sched_yield s) = Some i \<and> eip (sched_yield s) = b"
    using assms(4) unfolding handover_def by auto
  moreover have "\<not> if_flag (sched_yield s)" unfolding y by simp
  ultimately show ?thesis by blast
qed

theorem fresh_task_interrupts_off_witness:
  "\<exists>i s. sched_spawn 0x104000 (Some ''worker'') 1 0 boot_sched = Some (int i, s)
     \<and> eip (sched_yield s) = 0x104000 \<and> \<not> if_flag (sched_yield s)"
proof (rule boot_spawn [of "0x104000"])
  fix i s
  assume s: "sched_spawn 0x104000 (Some ''worker'') 1 0 boot_sched = Some (int i, s)" "sched_ok s"
    "i < SCHED_MAX_TASKS" "tstate (tasks s ! i) = TASK_READY" "0 < i"
    "stack_mem s (sp (tasks s ! i) + 32) = 0x104000" "current s = Some 0" and only: "\<And>k. live_task s k \<Longrightarrow> k = i"
  note d = sched_okD [OF s(2)]
  have "pick_next s = Some i"
    using d(3,4) s(7)
  proof (cases rule: pick_next_cases)
    case same
    then show ?thesis using s(3,4) by blast
  next
    case (other n)
    then have "live_task s n" using s(7) by (auto simp: live_task_def)
    then show ?thesis using other only by auto
  qed
  with fresh_task_interrupts_off [OF s(2) this _ s(6)] s show ?thesis by auto
qed

text \<open>A task that exits hands the processor to a ready task and frees its slot, but its
  stack stays allocated: the heap is unchanged although no live task owns the region any
  more.\<close>

theorem sched_exit_leaks:
  assumes "sched_ok s" "current s = Some c" "c \<noteq> 0"
  shows "\<exists>n s' m. sched_exit s = Some s' \<and> sched_ok s' \<and> current s' = Some n \<and> tstate (tasks s ! n) = TASK_READY
    \<and> \<not> live_task s' c \<and> (stack_base (tasks s ! c), m) \<in> kregions (heap s')
    \<and> (\<forall>i. live_task s' i \<longrightarrow> stack_base (tasks s' ! i) \<noteq> stack_base (tasks s ! c))"
proof -
  note d = sched_okD [OF assms(1)]
  obtain n s' where s': "sched_exit s = Some s'" "sched_ok s'" "ready s n" "current s' = Some n" "\<not> live_task s' c"
    "heap s' = heap s" "\<And>i. live_task s' i \<longleftrightarrow> live_task s i \<and> i \<noteq> c"
    "\<And>i. live_task s' i \<Longrightarrow> stack_base (tasks s' ! i) = stack_base (tasks s ! i)"
    using sched_exit_task [OF assms] by auto
  have c: "live_task s c"
    using d(4) assms(2,3) by (auto elim!: states_okE simp: live_task_def)
  obtain m where "(stack_base (tasks s ! c), m) \<in> kregions (heap s)" using stacks_okD(2) [OF d(5) c] by blast
  moreover have "stack_base (tasks s' ! i) \<noteq> stack_base (tasks s ! c)" if "live_task s' i" for i
    using s'(7) [of i] s'(8) [OF that] that stacks_okD(3) [OF d(5), of i c] c by auto
  ultimately show ?thesis using s'(1-6) by (intro exI [of _ n] exI [of _ s'] exI [of _ m]) auto
qed

theorem sched_exit_leaks_witness:
  "\<exists>i s n s' m. sched_spawn 0x104000 (Some ''worker'') 1 0 boot_sched = Some (int i, s)
     \<and> current (sched_yield s) = Some i \<and> sched_exit (sched_yield s) = Some s' \<and> current s' = Some n
     \<and> (stack_base (tasks (sched_yield s) ! i), m) \<in> kregions (heap s')"
proof (rule boot_spawn [of "0x104000"])
  fix i s
  assume s: "sched_spawn 0x104000 (Some ''worker'') 1 0 boot_sched = Some (int i, s)" "sched_ok s"
    "i < SCHED_MAX_TASKS" "tstate (tasks s ! i) = TASK_READY" "0 < i"
    "current s = Some 0" and only: "\<And>k. live_task s k \<Longrightarrow> k = i"
  have "current (sched_yield s) = Some i"
    using s(2,6)
  proof (cases rule: yield_cases)
    case stays
    then show ?thesis using s(3,4) by blast
  next
    case (switches n)
    then have "live_task s n" by (auto simp: live_task_def)
    then show ?thesis using switches only by (auto simp: handover_def)
  qed
  with sched_exit_leaks [OF sched_yield_ok [OF s(2)] this] s show ?thesis by auto
qed

end
