(* ===== verification/Timer.thy ===== *)
theory Timer
  imports Interrupts Sched
begin

text \<open>
  The interval timer of \<open>src/src/timer.c\<close>: programming the PIT, the tick that drives the
  scheduler, and the sleep loop. The bytes written to the PIT are kept in order. The tick
  counter is changed by interrupts while \<open>timer_sleep_ms\<close> reads it, so the values of its
  successive reads are an argument of the loop.
\<close>

section \<open>State and operations\<close>

definition PIT_CHANNEL0 :: u16 where "PIT_CHANNEL0 = 0x40"
definition PIT_COMMAND :: u16 where "PIT_COMMAND = 0x43"
definition PIT_BASE_HZ :: u32 where "PIT_BASE_HZ = 1193182"

record timer =
  g_ticks :: u32
  g_hz :: u32
  pit_writes :: "(u16 \<times> u8) list"

definition timer_callback :: "timer \<times> sched \<Rightarrow> timer \<times> sched" where
  "timer_callback = (\<lambda>(t, s). (t\<lparr>g_ticks := g_ticks t + 1\<rparr>, sched_on_tick s))"

definition timer_divisor :: "u32 \<Rightarrow> u32" where
  "timer_divisor hz =
     (let divisor = PIT_BASE_HZ div hz;
          divisor = (if divisor < 1 then 1 else divisor)
      in if divisor > 65535 then 65535 else divisor)"

definition timer_init ::
    "u32 \<Rightarrow> timer \<Rightarrow> (timer \<times> sched \<Rightarrow> timer \<times> sched) option list \<Rightarrow> pics
     \<Rightarrow> timer \<times> (timer \<times> sched \<Rightarrow> timer \<times> sched) option list \<times> pics" where
  "timer_init hz t handlers p =
     (let hz = (if hz = 0 then 100 else hz);
          hz = (if hz > 1000 then 1000 else hz);
          divisor = timer_divisor hz;
          t = t\<lparr>pit_writes := pit_writes t @
                 [(PIT_COMMAND, 0x36), (PIT_CHANNEL0, ucast (divisor AND 0xFF)),
                  (PIT_CHANNEL0, ucast (drop_bit 8 divisor AND 0xFF))]\<rparr>;
          t = t\<lparr>g_ticks := 0, g_hz := hz\<rparr>
      in (t, irq_register_handler 0 timer_callback handlers, irq_unmask 0 p))"

text \<open>
  \<open>sleep_loop lim tk start need n spins\<close> is the \<open>while\<close> loop of \<open>timer_sleep_ms\<close>, whose limit is 1000 spins: \<open>tk n\<close> is the
  next value read from the counter. It ends in \<open>Slept n\<close> when the condition fails at read
  \<open>n\<close>, or in \<open>Busy\<close> when the counter never moved and \<open>timer_busy_ms\<close> waits instead.
\<close>

datatype sleep_end = Slept nat | Busy

partial_function (option) sleep_loop ::
    "nat \<Rightarrow> (nat \<Rightarrow> u32) \<Rightarrow> u32 \<Rightarrow> u32 \<Rightarrow> nat \<Rightarrow> nat \<Rightarrow> sleep_end option" where
  "sleep_loop lim tk start need n spins =
     (if tk n - start < need
      then if tk (n + 1) = start
           then if spins + 1 > lim then Some Busy else sleep_loop lim tk start need (n + 2) (spins + 1)
           else sleep_loop lim tk start need (n + 2) spins
      else Some (Slept n))"

definition sleep_need :: "u32 \<Rightarrow> u32 \<Rightarrow> u32" where
  "sleep_need hz ms = (let need = (hz * ms) div 1000 in if need = 0 then 1 else need)"

definition timer_sleep_ms :: "(nat \<Rightarrow> u32) \<Rightarrow> u32 \<Rightarrow> timer \<Rightarrow> sleep_end option" where
  "timer_sleep_ms tk ms t = sleep_loop 1000 tk (tk 0) (sleep_need (g_hz t) ms) 1 0"

definition timer_ticks :: "timer \<Rightarrow> u32" where
  "timer_ticks t = g_ticks t"

definition timer_hz :: "timer \<Rightarrow> u32" where
  "timer_hz t = g_hz t"

section \<open>Programming\<close>

lemma timer_divisor_bounds: "1 \<le> timer_divisor hz" "timer_divisor hz \<le> 65535"
  by (auto simp: timer_divisor_def Let_def word_le_nat_alt word_less_nat_alt)

text \<open>The divisor the PIT puts together from the two bytes it was sent.\<close>

definition pit_divisor :: "(u16 \<times> u8) list \<Rightarrow> u32" where
  "pit_divisor ws = (case rev ws of (_, hi) # (_, lo) # _ \<Rightarrow> push_bit 8 (ucast hi) OR ucast lo | _ \<Rightarrow> 0)"

lemma join_bytes:
  assumes "(d :: u32) \<le> 65535"
  shows "push_bit 8 (ucast (ucast (drop_bit 8 d AND 0xFF) :: u8)) OR (ucast (ucast (d AND 0xFF) :: u8) :: u32) = d"
proof (rule bit_word_eqI)
  fix n assume n: "n < LENGTH(32)"
  have ff: "(0xFF :: u32) = mask 8" by (simp add: mask_eq_exp_minus_1)
  have "take_bit 16 d = d"
    using assms by (simp add: word_unat_eq_iff unsigned_take_bit_eq take_bit_nat_eq_self word_le_nat_alt)
  then have "bit d n \<Longrightarrow> n < 16" by (metis bit_take_bit_iff)
  then show "bit (push_bit 8 (ucast (ucast (drop_bit 8 d AND 0xFF) :: u8)) OR
      (ucast (ucast (d AND 0xFF) :: u8) :: u32)) n = bit d n"
    using n by (auto simp: ff bit_simps)
qed

text \<open>\<open>timer_init\<close> programs the PIT in mode 3 with a divisor that fits its 16 bits, and that
  is the quotient of the base clock and the requested rate (100 for 0, at most 1000) for
  every rate from 19 on; it resets the counter, installs the tick handler and lets only
  line 0 through. Below 19 Hz the divisor is cut to 65535, a rate of about 18 Hz, while
  \<open>timer_hz\<close> keeps reporting the requested one.\<close>

theorem timer_init_programs:
  assumes hs: "length handlers = 16" and ready: "pics_ready p"
    and res: "timer_init hz t handlers p = (t', handlers', p')"
  defines "rate \<equiv> (if hz = 0 then 100 else min hz 1000)"
  shows "pit_divisor (pit_writes t') = (if rate < 19 then 65535 else PIT_BASE_HZ div rate)
    \<and> g_ticks t' = 0 \<and> timer_hz t' = rate \<and> handlers' ! 0 = Some timer_callback
    \<and> (\<forall>j. bit (irq_get_mask p') j \<longleftrightarrow> bit (irq_get_mask p) j \<and> j \<noteq> 0)"
proof -
  have rate: "(if (if hz = 0 then 100 else hz) > 1000 then 1000 else if hz = 0 then 100 else hz) = rate"
    by (auto simp: rate_def min_def)
  have pos: "1 \<le> unat rate" "unat rate \<le> 1000"
    using unat_eq_0 [of hz] by (auto simp: rate_def min_def word_le_nat_alt not_le)
  have q: "unat (PIT_BASE_HZ div rate) = 1193182 div unat rate"
    by (simp add: PIT_BASE_HZ_def unat_div)
  have d: "timer_divisor rate = (if rate < 19 then 65535 else PIT_BASE_HZ div rate)"
  proof -
    have "1193182 div unat rate \<ge> 1"
      using pos by (simp add: div_greater_zero_iff Suc_le_eq)
    moreover have "65535 < 1193182 div unat rate \<longleftrightarrow> unat rate < 19"
    proof -
      have "65535 < x \<longleftrightarrow> 65536 \<le> x" for x :: nat by arith
      moreover have "65536 \<le> 1193182 div unat rate \<longleftrightarrow> 65536 * unat rate \<le> 1193182"
        using pos by (simp add: less_eq_div_iff_mult_less_eq)
      moreover have "65536 * unat rate \<le> 1193182 \<longleftrightarrow> unat rate < 19"
        by (cases "unat rate < 19") linarith+
      ultimately show ?thesis by blast
    qed
    ultimately show ?thesis
      by (simp add: timer_divisor_def Let_def word_less_nat_alt q)
  qed
  have w: "pit_writes t' = pit_writes t @ [(PIT_COMMAND, 0x36),
      (PIT_CHANNEL0, ucast (timer_divisor rate AND 0xFF)),
      (PIT_CHANNEL0, ucast (drop_bit 8 (timer_divisor rate) AND 0xFF))]"
    "g_ticks t' = 0" "g_hz t' = rate" "handlers' = irq_register_handler 0 timer_callback handlers"
    "p' = irq_unmask 0 p"
    using res by (auto simp: timer_init_def Let_def rate)
  have "pit_divisor (pit_writes t') = timer_divisor rate"
    using join_bytes [OF timer_divisor_bounds(2) [of rate]] by (simp add: pit_divisor_def w(1))
  moreover have "handlers' ! 0 = Some timer_callback"
    using hs by (simp add: w irq_register_handler_def)
  moreover have "bit (irq_get_mask p') j \<longleftrightarrow> bit (irq_get_mask p) j \<and> j \<noteq> 0" for j
    by (auto simp: w(5) bit_irq_mask irq_unmask_chips [OF ready] bit_simps)
  ultimately show ?thesis using w by (simp add: d timer_hz_def)
qed

definition zero_timer :: timer where
  "zero_timer = \<lparr>g_ticks = 0, g_hz = 100, pit_writes = []\<rparr>"

lemma timer_init_programs_witness:
  "pics_ready zero_pics \<and> timer_hz (fst (timer_init 100 zero_timer (replicate 16 None) zero_pics)) = 100
   \<and> pit_divisor (pit_writes (fst (timer_init 100 zero_timer (replicate 16 None) zero_pics))) = 11931
   \<and> timer_hz (fst (timer_init 5 zero_timer (replicate 16 None) zero_pics)) = 5
   \<and> pit_divisor (pit_writes (fst (timer_init 5 zero_timer (replicate 16 None) zero_pics))) = 65535"
proof -
  have p: "pics_ready zero_pics" by (simp add: pics_ready_def zero_pics_def)
  have eq: "x = (fst x, fst (snd x), snd (snd x))" for x :: "'a \<times> 'b \<times> 'c" by simp
  show ?thesis
    using timer_init_programs [OF _ p eq, of "replicate 16 None" 100 zero_timer]
      timer_init_programs [OF _ p eq, of "replicate 16 None" 5 zero_timer] p
    by (simp add: PIT_BASE_HZ_def)
qed

section \<open>Sleeping\<close>

text \<open>The invariant of the loop: as long as the counter has not moved, every round so far
  counted a spin.\<close>

lemma sleep_loop_returns:
  assumes reads: "\<And>k. tk k - start = of_nat (f k)" and mono: "mono f"
    and small: "\<And>k. f k < 2 ^ 32" and far: "unat need \<le> f far"
    and inv: "spins \<le> lim" "odd n" "f (n - 1) = 0 \<Longrightarrow> n = 2 * spins + 1"
  shows "\<exists>r. sleep_loop lim tk start need n spins = Some r
    \<and> (case r of Slept m \<Rightarrow> unat need \<le> f m | Busy \<Rightarrow> f (2 * lim + 2) = 0)"
  using inv
proof (induction "far - n" arbitrary: n spins rule: less_induct)
  case less
  have cond: "tk k - start < need \<longleftrightarrow> f k < unat need" for k
    using small [of k] by (simp add: reads word_less_nat_alt unsigned_of_nat take_bit_nat_eq_self)
  have eq: "tk k = start \<longleftrightarrow> f k = 0" for k
  proof -
    have "tk k = start \<longleftrightarrow> (of_nat (f k) :: u32) = 0" using reads [of k] by (simp flip: reads)
    then show ?thesis using small [of k] by (simp add: word_unat_eq_iff unsigned_of_nat take_bit_nat_eq_self)
  qed
  show ?case
  proof (cases "f n < unat need")
    case False
    then show ?thesis by (subst sleep_loop.simps) (simp add: cond)
  next
    case True
    then have "n < far" using far mono by (meson linorder_not_less monoD order_trans)
    then have dec: "far - (n + 2) < far - n" by simp
    have prev: "f (n + 1) = 0 \<Longrightarrow> n = 2 * spins + 1"
      using less.prems(3) monoD [OF mono, of "n - 1" "n + 1"] by simp
    show ?thesis
    proof (cases "f (n + 1) = 0")
      case zero: True
      show ?thesis
      proof (cases "spins = lim")
        case True
        with prev [OF zero] zero have "f (2 * lim + 2) = 0" by simp
        with True \<open>f n < unat need\<close> zero show ?thesis
          by (subst sleep_loop.simps) (simp add: cond eq)
      next
        case False
        then have "\<exists>r. sleep_loop lim tk start need (n + 2) (spins + 1) = Some r
            \<and> (case r of Slept m \<Rightarrow> unat need \<le> f m | Busy \<Rightarrow> f (2 * lim + 2) = 0)"
          using less.prems(1,2) prev [OF zero] by (intro less.hyps [OF dec]) simp_all
        with False less.prems(1) \<open>f n < unat need\<close> zero show ?thesis
          by (subst sleep_loop.simps) (simp add: cond eq)
      qed
    next
      case False
      then have "\<exists>r. sleep_loop lim tk start need (n + 2) spins = Some r
          \<and> (case r of Slept m \<Rightarrow> unat need \<le> f m | Busy \<Rightarrow> f (2 * lim + 2) = 0)"
        using less.prems(1,2) by (intro less.hyps [OF dec]) simp_all
      with False \<open>f n < unat need\<close> show ?thesis
        by (subst sleep_loop.simps) (simp add: cond eq)
    qed
  qed
qed

text \<open>When the counter advances far enough between the reads (and is read before it has
  gone once around), \<open>timer_sleep_ms\<close> returns, and unless it fell back to busy waiting
  because the counter stood still, the requested number of ticks has passed.\<close>

theorem timer_sleep_returns:
  assumes reads: "\<And>k. tk k = tk 0 + of_nat (f k)" and mono: "mono f"
    and small: "\<And>k. f k < 2 ^ 32" and far: "unat (sleep_need (g_hz t) ms) \<le> f far"
  shows "\<exists>r. timer_sleep_ms tk ms t = Some r
    \<and> (case r of Slept n \<Rightarrow> unat (sleep_need (g_hz t) ms) \<le> f n | Busy \<Rightarrow> f 2002 = 0)"
proof -
  have "tk k - tk 0 = of_nat (f k)" for k using reads [of k] by (metis add_diff_cancel_left')
  from sleep_loop_returns [OF this mono small far, of 0 1000 1] show ?thesis
    by (simp add: timer_sleep_ms_def cong: sleep_end.case_cong)
qed

lemma timer_sleep_returns_witness:
  "\<exists>r. timer_sleep_ms (\<lambda>k. of_nat (min k 500)) 1000 zero_timer = Some r
    \<and> (case r of Slept n \<Rightarrow> 100 \<le> min n 500 | Busy \<Rightarrow> min 2002 500 = (0::nat))"
proof -
  have "mono (\<lambda>k :: nat. min k 500)" by (auto intro!: monoI)
  moreover have need: "unat (sleep_need (g_hz zero_timer) 1000) = 100"
    by (simp add: sleep_need_def zero_timer_def)
  moreover have "min k 500 < 2 ^ 32" for k :: nat by (simp add: min_def)
  ultimately show ?thesis
    using timer_sleep_returns [of "\<lambda>k. of_nat (min k 500)" "\<lambda>k. min k 500" zero_timer 1000 500]
    by (simp cong: sleep_end.case_cong)
qed

end
