(* ===== verification/Locks.thy ===== *)
theory Locks
  imports Prelude
begin

text \<open>
  The uniprocessor atomics and the spin lock of \<open>src/src/atomic.h\<close>, and the nestable
  critical section of \<open>src/src/fs.c\<close> (\<open>fs_lock\<close>, \<open>fs_unlock\<close>) that disables interrupts
  and takes the spin lock at the outermost level. The lemmas show that the lock never
  spins on a consistent lock state, and that every lock/unlock pair gives the state back.
\<close>

section \<open>Atomics\<close>

text \<open>
  Each atomic returns its result and the new content of the cell. The instruction is
  indivisible, so it is one function.
\<close>

definition atomic_xchg :: "u32 \<Rightarrow> u32 \<Rightarrow> u32 \<times> u32" where
  "atomic_xchg cell val = (cell, val)"

definition atomic_cas :: "u32 \<Rightarrow> u32 \<Rightarrow> u32 \<Rightarrow> bool \<times> u32" where
  "atomic_cas cell expected desired =
     (if cell = expected then (True, desired) else (False, cell))"

definition atomic_store :: "u32 \<Rightarrow> u32 \<Rightarrow> u32" where
  "atomic_store cell val = val"

definition atomic_load :: "u32 \<Rightarrow> u32" where
  "atomic_load cell = cell"

section \<open>The spin lock\<close>

definition spin_init :: "u32" where
  "spin_init = 0"

partial_function (option) spin_lock :: "u32 \<Rightarrow> u32 option" where
  "spin_lock l = (let (old, l') = atomic_xchg l 1 in if old \<noteq> 0 then spin_lock l' else Some l')"

definition spin_unlock :: "u32 \<Rightarrow> u32" where
  "spin_unlock l = atomic_store l 0"

lemma spin_lock_free [simp]: "spin_lock 0 = Some 1"
  by (subst spin_lock.simps) (simp add: atomic_xchg_def)

lemma spin_lock_acquires:
  assumes "spin_lock l = Some r"
  shows "l = 0 \<and> r = 1"
proof (rule spin_lock.raw_induct [where P = "\<lambda>l r. l = 0 \<and> r = 1", OF _ assms])
  fix f :: "u32 \<Rightarrow> u32 option" and l r
  assume IH: "\<And>l r. f l = Some r \<Longrightarrow> l = 0 \<and> r = 1"
    and eq: "(let (old, l') = atomic_xchg l 1 in if old \<noteq> 0 then f l' else Some l') = Some r"
  show "l = 0 \<and> r = 1"
    using eq IH [of 1 r] by (auto simp: atomic_xchg_def split: if_splits)
qed

text \<open>Taking a lock that is held, with nobody left to release it, never returns.\<close>

lemma spin_lock_held: "l \<noteq> 0 \<Longrightarrow> spin_lock l = None"
  using spin_lock_acquires by (cases "spin_lock l") auto

lemma spin_unlock_eq [simp]: "spin_unlock l = 0"
  by (simp add: spin_unlock_def atomic_store_def)

section \<open>The nestable file-system lock\<close>

text \<open>
  \<open>eflags_if\<close> is the interrupt flag of the processor, which \<open>cli\<close> and \<open>sti\<close> change and
  \<open>pushf\<close> reads at bit 9 (0x200).
\<close>

record fs_lk =
  fs_spinlock :: u32
  fs_lock_depth :: int
  fs_if_was_on :: u32
  eflags_if :: bool

definition eflags :: "fs_lk \<Rightarrow> u32" where
  "eflags l = (if eflags_if l then 0x202 else 0x002)"

definition fs_lock :: "fs_lk \<Rightarrow> fs_lk option" where
  "fs_lock l =
     (let flags = eflags l; l = l\<lparr>eflags_if := False\<rparr> in
      if fs_lock_depth l = 0
      then do {
        sp \<leftarrow> spin_lock (fs_spinlock l);
        Some (l\<lparr>fs_if_was_on := flags AND 0x200, fs_spinlock := sp,
                fs_lock_depth := fs_lock_depth l + 1\<rparr>)
      }
      else Some (l\<lparr>fs_lock_depth := fs_lock_depth l + 1\<rparr>))"

definition fs_unlock :: "fs_lk \<Rightarrow> fs_lk" where
  "fs_unlock l =
     (if fs_lock_depth l \<le> 0 then l
      else let l = l\<lparr>fs_lock_depth := fs_lock_depth l - 1\<rparr> in
        if fs_lock_depth l = 0
        then let l = l\<lparr>fs_spinlock := spin_unlock (fs_spinlock l)\<rparr> in
          if fs_if_was_on l \<noteq> 0 then l\<lparr>eflags_if := True\<rparr> else l
        else l)"

definition fs_lk_init :: "fs_lk \<Rightarrow> fs_lk" where
  "fs_lk_init l = l\<lparr>fs_lock_depth := 0, fs_spinlock := spin_init\<rparr>"

text \<open>
  The consistent lock states: the spin lock is held exactly inside a critical section,
  and interrupts are off there.
\<close>

definition lk_ok :: "fs_lk \<Rightarrow> bool" where
  "lk_ok l \<longleftrightarrow> 0 \<le> fs_lock_depth l \<and> (fs_spinlock l = 0 \<longleftrightarrow> fs_lock_depth l = 0)
     \<and> (0 < fs_lock_depth l \<longrightarrow> \<not> eflags_if l)"

definition lk_free :: "fs_lk \<Rightarrow> bool" where
  "lk_free l \<longleftrightarrow> lk_ok l \<and> fs_lock_depth l = 0"

lemma eflags_if_bit: "eflags l AND 0x200 = (if eflags_if l then 0x200 else 0)"
  by (simp add: eflags_def)

lemma lk_ok_init: "lk_free (fs_lk_init l)"
  by (simp add: lk_free_def lk_ok_def fs_lk_init_def spin_init_def)

lemma fs_lock_returns:
  assumes "lk_ok l"
  shows "\<exists>l'. fs_lock l = Some l' \<and> lk_ok l' \<and> \<not> eflags_if l'
    \<and> fs_lock_depth l' = fs_lock_depth l + 1
    \<and> fs_unlock l' = l\<lparr>fs_if_was_on := fs_if_was_on l'\<rparr>"
proof (cases "fs_lock_depth l = 0")
  case True
  with assms have "fs_spinlock l = 0" by (simp add: lk_ok_def)
  with True show ?thesis
    by (cases l) (auto simp: fs_lock_def fs_unlock_def lk_ok_def eflags_if_bit split: if_splits)
next
  case False
  with assms have "0 < fs_lock_depth l" "\<not> eflags_if l" "fs_spinlock l \<noteq> 0"
    by (auto simp: lk_ok_def)
  then show ?thesis
    by (cases l) (auto simp: fs_lock_def fs_unlock_def lk_ok_def)
qed

lemma lk_ok_if_was_on [simp]: "lk_ok (l\<lparr>fs_if_was_on := x\<rparr>) = lk_ok l"
  by (simp add: lk_ok_def)

lemma lk_free_if_was_on [simp]: "lk_free (l\<lparr>fs_if_was_on := x\<rparr>) = lk_free l"
  by (simp add: lk_free_def)

text \<open>Two lock states that differ at most in the saved interrupt flag, which is dead
  outside a critical section.\<close>

definition lk_same :: "fs_lk \<Rightarrow> fs_lk \<Rightarrow> bool" where
  "lk_same l l' \<longleftrightarrow> (\<exists>x. l' = l\<lparr>fs_if_was_on := x\<rparr>)"

lemma lk_same_refl [simp, intro]: "lk_same l l"
  unfolding lk_same_def by (rule exI [of _ "fs_if_was_on l"]) simp

lemma lk_same_trans [trans]: "lk_same a b \<Longrightarrow> lk_same b c \<Longrightarrow> lk_same a c"
  by (auto simp: lk_same_def)

lemma lk_same_iff:
  "lk_same l l' \<longleftrightarrow> fs_spinlock l' = fs_spinlock l \<and> fs_lock_depth l' = fs_lock_depth l
     \<and> eflags_if l' = eflags_if l"
  by (cases l; cases l') (auto simp: lk_same_def)

lemma lk_same_ok: "lk_same l l' \<Longrightarrow> lk_ok l' = lk_ok l"
  by (auto simp: lk_same_def)

lemma lk_same_free: "lk_same l l' \<Longrightarrow> lk_free l' = lk_free l"
  by (auto simp: lk_same_def)

text \<open>A lock/unlock pair: it returns, and gives back the depth, the spin lock and the
  interrupt flag.\<close>

lemma fs_lock_unlock:
  assumes "lk_ok l"
  obtains l' where "fs_lock l = Some l'" "lk_ok l'" "lk_same l (fs_unlock l')"
  using fs_lock_returns [OF assms] by (auto simp: lk_same_def)

end
