(* ===== verification/Ramfs.thy ===== *)
theory Ramfs
  imports Locks Terminal
begin

text \<open>
  The hierarchical RAM file system of \<open>src/src/fs.c\<close>: its node table, the current
  directory, and the bodies of its operations. An operation's body is the code between
  \<open>fs_lock\<close> and \<open>fs_unlock\<close>; \<open>critical\<close> puts the two calls around it. A node index is a
  natural number and the parent \<open>-1\<close> of the root is \<open>None\<close>. The content of a node is the
  written prefix of its zero-initialised array of \<open>FS_FILE_MAX\<close> bytes, so a pointer to
  \<open>content\<close> is the index of its node.
\<close>

section \<open>Data\<close>

definition FS_NAME_MAX :: nat where "FS_NAME_MAX = 48"
definition FS_FILE_MAX :: nat where "FS_FILE_MAX = 8192"
definition FS_MAX_NODES :: nat where "FS_MAX_NODES = 256"
definition FS_ROOT_INDEX :: nat where "FS_ROOT_INDEX = 0"
definition FS_MAX_DEPTH :: nat where "FS_MAX_DEPTH = 16"

datatype fs_result =
    FS_OK
  | FS_ERR_NOT_FOUND
  | FS_ERR_ALREADY_EXISTS
  | FS_ERR_NOT_A_DIRECTORY
  | FS_ERR_IS_A_DIRECTORY
  | FS_ERR_NO_SPACE
  | FS_ERR_DIR_NOT_EMPTY
  | FS_ERR_INVALID_NAME
  | FS_ERR_TOO_BIG

datatype fs_node_type = FS_TYPE_FREE | FS_TYPE_DIR | FS_TYPE_FILE

record fs_node =
  node_type :: fs_node_type
  node_name :: cstring
  parent :: "nat option"
  content :: "char list"
  content_len :: nat

record ramfs =
  nodes :: "fs_node list"
  cwd :: nat

record kfs =
  fsc :: ramfs
  lk :: fs_lk

lemmas fs_consts = FS_NAME_MAX_def FS_FILE_MAX_def FS_MAX_NODES_def FS_ROOT_INDEX_def

section \<open>String helpers\<close>

definition k_strlen :: "cstring \<Rightarrow> nat" where
  "k_strlen s = length s"

fun k_streq :: "cstring \<Rightarrow> cstring \<Rightarrow> bool" where
  "k_streq (a # as) (b # bs) = (if a \<noteq> b then False else k_streq as bs)"
| "k_streq [] [] = True"
| "k_streq _ _ = False"

text \<open>With \<open>dst_size = 0\<close> the bound \<open>dst_size - 1\<close> wraps to the largest \<open>size_t\<close>.\<close>

definition k_strcpy_truncate :: "cstring \<Rightarrow> nat \<Rightarrow> cstring" where
  "k_strcpy_truncate src dst_size = take (if dst_size = 0 then 2 ^ 32 - 1 else dst_size - 1) src"

lemma k_streq_eq [simp]: "k_streq a b = (a = b)"
  by (induction a b rule: k_streq.induct) auto

lemma k_strlen_eq [simp]: "k_strlen s = length s"
  by (simp add: k_strlen_def)

lemma k_strcpy_fits: "length s < n \<Longrightarrow> k_strcpy_truncate s n = s"
  by (simp add: k_strcpy_truncate_def)

section \<open>Node table\<close>

definition free_node :: fs_node where
  "free_node = \<lparr>node_type = FS_TYPE_FREE, node_name = [], parent = Some 0, content = [],
     content_len = 0\<rparr>"

definition upd_node :: "nat \<Rightarrow> (fs_node \<Rightarrow> fs_node) \<Rightarrow> ramfs \<Rightarrow> ramfs" where
  "upd_node i f c = c\<lparr>nodes := (nodes c)[i := f (nodes c ! i)]\<rparr>"

definition fs_alloc_node :: "ramfs \<Rightarrow> nat option" where
  "fs_alloc_node c = scan (\<lambda>i. node_type (nodes c ! i) = FS_TYPE_FREE) 0 FS_MAX_NODES"

definition fs_find_child :: "ramfs \<Rightarrow> nat \<Rightarrow> cstring \<Rightarrow> nat option" where
  "fs_find_child c parent_idx name =
     scan (\<lambda>i. node_type (nodes c ! i) \<noteq> FS_TYPE_FREE \<and> parent (nodes c ! i) = Some parent_idx
             \<and> k_streq (node_name (nodes c ! i)) name) 0 FS_MAX_NODES"

definition fs_is_valid_name :: "cstring \<Rightarrow> bool" where
  "fs_is_valid_name name =
     (if name = [] then False
      else if k_streq name ''.'' \<or> k_streq name ''..'' then False
      else if k_strlen name \<ge> FS_NAME_MAX then False
      else True)"

text \<open>\<open>k_memcpy\<close> out of a node: the first \<open>n\<close> bytes of its array.\<close>

definition node_bytes :: "fs_node \<Rightarrow> nat \<Rightarrow> char list" where
  "node_bytes nd n = map (nth_default NUL (content nd)) [0..<n]"

section \<open>Bodies of the operations\<close>

definition fs_mkdir_body :: "cstring \<Rightarrow> ramfs \<Rightarrow> fs_result \<times> ramfs" where
  "fs_mkdir_body name c =
     (if \<not> fs_is_valid_name name then (FS_ERR_INVALID_NAME, c)
      else if fs_find_child c (cwd c) name \<noteq> None then (FS_ERR_ALREADY_EXISTS, c)
      else case fs_alloc_node c of
        None \<Rightarrow> (FS_ERR_NO_SPACE, c)
      | Some idx \<Rightarrow> (FS_OK, upd_node idx (\<lambda>nd. nd\<lparr>node_type := FS_TYPE_DIR,
            node_name := k_strcpy_truncate name FS_NAME_MAX, parent := Some (cwd c)\<rparr>) c))"

definition fs_touch_body :: "cstring \<Rightarrow> ramfs \<Rightarrow> fs_result \<times> ramfs" where
  "fs_touch_body name c =
     (if \<not> fs_is_valid_name name then (FS_ERR_INVALID_NAME, c)
      else if fs_find_child c (cwd c) name \<noteq> None then (FS_ERR_ALREADY_EXISTS, c)
      else case fs_alloc_node c of
        None \<Rightarrow> (FS_ERR_NO_SPACE, c)
      | Some idx \<Rightarrow> (FS_OK, upd_node idx (\<lambda>nd. nd\<lparr>node_type := FS_TYPE_FILE,
            node_name := k_strcpy_truncate name FS_NAME_MAX, parent := Some (cwd c),
            content_len := 0, content := blit NUL (content nd) 0 [NUL]\<rparr>) c))"

definition fs_cd_body :: "cstring \<Rightarrow> ramfs \<Rightarrow> fs_result \<times> ramfs" where
  "fs_cd_body name c =
     (if k_streq name ''.'' then (FS_OK, c)
      else if k_streq name ''..''
      then (FS_OK, case parent (nodes c ! cwd c) of None \<Rightarrow> c | Some p \<Rightarrow> c\<lparr>cwd := p\<rparr>)
      else if k_streq name ''/'' then (FS_OK, c\<lparr>cwd := FS_ROOT_INDEX\<rparr>)
      else case fs_find_child c (cwd c) name of
        None \<Rightarrow> (FS_ERR_NOT_FOUND, c)
      | Some idx \<Rightarrow>
          if node_type (nodes c ! idx) \<noteq> FS_TYPE_DIR then (FS_ERR_NOT_A_DIRECTORY, c)
          else (FS_OK, c\<lparr>cwd := idx\<rparr>))"

definition fs_free_slot :: "nat \<Rightarrow> ramfs \<Rightarrow> ramfs" where
  "fs_free_slot idx c = upd_node idx (\<lambda>nd. nd\<lparr>node_type := FS_TYPE_FREE, content_len := 0,
     content := blit NUL (content nd) 0 [NUL], node_name := [], parent := None\<rparr>) c"

text \<open>The walk of \<open>fs_cwd_in_subtree\<close> along the parent links stops only at the root, so
  on a cyclic table it would not return.\<close>

partial_function (option) walk_up :: "fs_node list \<Rightarrow> nat option \<Rightarrow> nat \<Rightarrow> bool option" where
  "walk_up ns walk idx =
     (case walk of
        None \<Rightarrow> Some False
      | Some w \<Rightarrow> if w = idx then Some True else walk_up ns (parent (ns ! w)) idx)"

definition fs_cwd_in_subtree :: "ramfs \<Rightarrow> nat \<Rightarrow> bool option" where
  "fs_cwd_in_subtree c idx = walk_up (nodes c) (Some (cwd c)) idx"

text \<open>
  The breadth-first collection of \<open>fs_rm_subtree\<close>. \<open>bfs_scan\<close> is the inner \<open>for\<close> loop
  over the slots \<open>i, ..., i + n - 1\<close>; its \<open>None\<close> is the \<open>FS_ERR_NO_SPACE\<close> return when the
  queue is full. \<open>bfs\<close> is the outer \<open>while (qh < qt)\<close>.
\<close>

fun bfs_scan :: "fs_node list \<Rightarrow> nat \<Rightarrow> nat \<Rightarrow> nat \<Rightarrow> nat list \<Rightarrow> bool list
    \<Rightarrow> (nat list \<times> bool list) option" where
  "bfs_scan ns u i 0 queue seen = Some (queue, seen)"
| "bfs_scan ns u i (Suc n) queue seen =
     (if node_type (ns ! i) = FS_TYPE_FREE then bfs_scan ns u (Suc i) n queue seen
      else if parent (ns ! i) \<noteq> Some u then bfs_scan ns u (Suc i) n queue seen
      else if seen ! i then bfs_scan ns u (Suc i) n queue seen
      else if length queue \<ge> FS_MAX_NODES then None
      else bfs_scan ns u (Suc i) n (queue @ [i]) (seen[i := True]))"

lemma bfs_scan_length:
  "bfs_scan ns u i n queue seen = Some (queue', seen') \<Longrightarrow>
   length queue \<le> length queue' \<and> length queue' \<le> max FS_MAX_NODES (length queue)"
proof (induction ns u i n queue seen rule: bfs_scan.induct)
  case (2 ns u i n queue seen)
  then show ?case by (fastforce split: if_splits)
qed simp

function bfs :: "fs_node list \<Rightarrow> nat \<Rightarrow> nat list \<Rightarrow> bool list \<Rightarrow> nat list option" where
  "bfs ns qh queue seen =
     (if qh < length queue
      then (let u = queue ! qh in
        if node_type (ns ! u) \<noteq> FS_TYPE_DIR then bfs ns (Suc qh) queue seen
        else (case bfs_scan ns u 0 FS_MAX_NODES queue seen of
          None \<Rightarrow> None
        | Some (queue', seen') \<Rightarrow> bfs ns (Suc qh) queue' seen'))
      else Some queue)"
  by pat_completeness auto
termination
  by (relation "measure (\<lambda>(ns, qh, queue, seen). max FS_MAX_NODES (length queue) - qh)")
    (auto dest!: bfs_scan_length)

declare bfs.simps [simp del]

definition fs_rm_subtree :: "nat \<Rightarrow> ramfs \<Rightarrow> (fs_result \<times> ramfs) option" where
  "fs_rm_subtree root_idx c =
     (if root_idx \<ge> FS_MAX_NODES then Some (FS_ERR_NOT_FOUND, c)
      else if node_type (nodes c ! root_idx) = FS_TYPE_FREE then Some (FS_OK, c)
      else if root_idx = FS_ROOT_INDEX then Some (FS_ERR_INVALID_NAME, c)
      else case bfs (nodes c) 0 [root_idx] ((replicate FS_MAX_NODES False)[root_idx := True]) of
        None \<Rightarrow> Some (FS_ERR_NO_SPACE, c)
      | Some queue \<Rightarrow> do {
          inside \<leftarrow> fs_cwd_in_subtree c root_idx;
          let c' = (if inside
                    then c\<lparr>cwd := (case parent (nodes c ! root_idx) of
                                     Some p \<Rightarrow> p | None \<Rightarrow> FS_ROOT_INDEX)\<rparr>
                    else c);
          Some (FS_OK, fold fs_free_slot (rev queue) c')
        })"

definition fs_rm_body :: "cstring \<Rightarrow> ramfs \<Rightarrow> (fs_result \<times> ramfs) option" where
  "fs_rm_body name c =
     (if name = [] then Some (FS_ERR_INVALID_NAME, c)
      else if name = ''/'' then Some (FS_ERR_INVALID_NAME, c)
      else case fs_find_child c (cwd c) name of
        None \<Rightarrow> Some (FS_ERR_NOT_FOUND, c)
      | Some idx \<Rightarrow>
          if node_type (nodes c ! idx) = FS_TYPE_DIR
            \<and> scan (\<lambda>i. node_type (nodes c ! i) \<noteq> FS_TYPE_FREE \<and> parent (nodes c ! i) = Some idx)
                0 FS_MAX_NODES \<noteq> None
          then Some (FS_ERR_DIR_NOT_EMPTY, c)
          else fs_rm_subtree idx c)"

definition fs_rm_rf_body :: "cstring \<Rightarrow> ramfs \<Rightarrow> (fs_result \<times> ramfs) option" where
  "fs_rm_rf_body name c =
     (if name = [] then Some (FS_ERR_INVALID_NAME, c)
      else if name = ''/'' then Some (FS_ERR_INVALID_NAME, c)
      else case fs_find_child c (cwd c) name of
        None \<Rightarrow> Some (FS_ERR_NOT_FOUND, c)
      | Some idx \<Rightarrow> fs_rm_subtree idx c)"

text \<open>The part of \<open>fs_write_bin\<close> and of \<open>fs_append\<close> that stores into the found node.\<close>

definition fs_store :: "nat option \<Rightarrow> char list \<Rightarrow> ramfs \<Rightarrow> fs_result \<times> ramfs" where
  "fs_store idx_opt data c =
     (case idx_opt of
        None \<Rightarrow> (FS_ERR_NOT_FOUND, c)
      | Some idx \<Rightarrow>
          if node_type (nodes c ! idx) \<noteq> FS_TYPE_FILE then (FS_ERR_IS_A_DIRECTORY, c)
          else (FS_OK, upd_node idx (\<lambda>nd. nd\<lparr>content := blit NUL (content nd) 0 (data @ [NUL]),
                  content_len := length data\<rparr>) c))"

definition fs_append_at :: "nat option \<Rightarrow> cstring \<Rightarrow> ramfs \<Rightarrow> fs_result \<times> ramfs" where
  "fs_append_at idx_opt text c =
     (case idx_opt of
        None \<Rightarrow> (FS_ERR_NOT_FOUND, c)
      | Some idx \<Rightarrow>
          if node_type (nodes c ! idx) \<noteq> FS_TYPE_FILE then (FS_ERR_IS_A_DIRECTORY, c)
          else (FS_OK, upd_node idx (\<lambda>nd.
            let pos = content_len nd;
                sep = (if pos > 0 \<and> pos < FS_FILE_MAX - 1 then [CHR 0x0A] else []);
                added = sep @ take (FS_FILE_MAX - 1 - (pos + length sep)) text
            in nd\<lparr>content := blit NUL (content nd) pos (added @ [NUL]),
                  content_len := pos + length added\<rparr>) c))"

definition fs_cp_body :: "cstring \<Rightarrow> cstring \<Rightarrow> ramfs \<Rightarrow> fs_result \<times> ramfs" where
  "fs_cp_body src dst c =
     (case fs_find_child c (cwd c) src of
        None \<Rightarrow> (FS_ERR_NOT_FOUND, c)
      | Some sidx \<Rightarrow>
          if node_type (nodes c ! sidx) \<noteq> FS_TYPE_FILE then (FS_ERR_IS_A_DIRECTORY, c)
          else if \<not> fs_is_valid_name dst then (FS_ERR_INVALID_NAME, c)
          else if fs_find_child c (cwd c) dst \<noteq> None then (FS_ERR_ALREADY_EXISTS, c)
          else case fs_alloc_node c of
            None \<Rightarrow> (FS_ERR_NO_SPACE, c)
          | Some didx \<Rightarrow>
              let len = content_len (nodes c ! sidx);
                  data = node_bytes (nodes c ! sidx) len
              in (FS_OK, upd_node didx (\<lambda>nd. nd\<lparr>node_type := FS_TYPE_FILE,
                    node_name := k_strcpy_truncate dst FS_NAME_MAX, parent := Some (cwd c),
                    content := blit NUL (content nd) 0 (data @ [NUL]), content_len := len\<rparr>) c))"

definition fs_mv_body :: "cstring \<Rightarrow> cstring \<Rightarrow> ramfs \<Rightarrow> fs_result \<times> ramfs" where
  "fs_mv_body src dst c =
     (case fs_find_child c (cwd c) src of
        None \<Rightarrow> (FS_ERR_NOT_FOUND, c)
      | Some sidx \<Rightarrow>
          if \<not> fs_is_valid_name dst then (FS_ERR_INVALID_NAME, c)
          else if fs_find_child c (cwd c) dst \<noteq> None then (FS_ERR_ALREADY_EXISTS, c)
          else (FS_OK, upd_node sidx (\<lambda>nd. nd\<lparr>node_name := k_strcpy_truncate dst FS_NAME_MAX\<rparr>) c))"

section \<open>The operations, with their critical sections\<close>

definition critical :: "(ramfs \<Rightarrow> ('a \<times> ramfs) option) \<Rightarrow> kfs \<Rightarrow> ('a \<times> kfs) option" where
  "critical f s = do {
     l \<leftarrow> fs_lock (lk s);
     (r, c) \<leftarrow> f (fsc s);
     Some (r, \<lparr>fsc = c, lk = fs_unlock l\<rparr>)
   }"

definition fs_mkdir :: "cstring \<Rightarrow> kfs \<Rightarrow> (fs_result \<times> kfs) option" where
  "fs_mkdir name = critical (\<lambda>c. Some (fs_mkdir_body name c))"

definition fs_touch :: "cstring \<Rightarrow> kfs \<Rightarrow> (fs_result \<times> kfs) option" where
  "fs_touch name = critical (\<lambda>c. Some (fs_touch_body name c))"

definition fs_cd :: "cstring \<Rightarrow> kfs \<Rightarrow> (fs_result \<times> kfs) option" where
  "fs_cd name = critical (\<lambda>c. Some (fs_cd_body name c))"

definition fs_rm :: "cstring \<Rightarrow> kfs \<Rightarrow> (fs_result \<times> kfs) option" where
  "fs_rm name = critical (fs_rm_body name)"

definition fs_rm_rf :: "cstring \<Rightarrow> kfs \<Rightarrow> (fs_result \<times> kfs) option" where
  "fs_rm_rf name = critical (fs_rm_rf_body name)"

definition fs_cp :: "cstring \<Rightarrow> cstring \<Rightarrow> kfs \<Rightarrow> (fs_result \<times> kfs) option" where
  "fs_cp src dst = critical (\<lambda>c. Some (fs_cp_body src dst c))"

definition fs_mv :: "cstring \<Rightarrow> cstring \<Rightarrow> kfs \<Rightarrow> (fs_result \<times> kfs) option" where
  "fs_mv src dst = critical (\<lambda>c. Some (fs_mv_body src dst c))"

text \<open>
  \<open>fs_write_bin\<close> and \<open>fs_append\<close> look the name up under the lock, and on a missing name
  leave the critical section, call \<open>fs_touch\<close> (which takes the lock itself) and enter
  it again. \<open>store\<close> is the part after the second lookup.
\<close>

definition store_or_create ::
    "cstring \<Rightarrow> (nat option \<Rightarrow> ramfs \<Rightarrow> fs_result \<times> ramfs) \<Rightarrow> fs_lk \<Rightarrow> ramfs
     \<Rightarrow> (fs_result \<times> kfs) option" where
  "store_or_create name store l c =
     (case fs_find_child c (cwd c) name of
        Some idx \<Rightarrow> let (r, c') = store (Some idx) c in Some (r, \<lparr>fsc = c', lk = fs_unlock l\<rparr>)
      | None \<Rightarrow> do {
          (r, s) \<leftarrow> fs_touch name \<lparr>fsc = c, lk = fs_unlock l\<rparr>;
          l' \<leftarrow> fs_lock (lk s);
          if r \<noteq> FS_OK then Some (r, s\<lparr>lk := fs_unlock l'\<rparr>)
          else let (r, c') = store (fs_find_child (fsc s) (cwd (fsc s)) name) (fsc s)
               in Some (r, \<lparr>fsc = c', lk = fs_unlock l'\<rparr>)
        })"

definition fs_write_bin :: "cstring \<Rightarrow> char list \<Rightarrow> kfs \<Rightarrow> (fs_result \<times> kfs) option" where
  "fs_write_bin name data s = do {
     l \<leftarrow> fs_lock (lk s);
     if length data \<ge> FS_FILE_MAX then Some (FS_ERR_TOO_BIG, s\<lparr>lk := fs_unlock l\<rparr>)
     else store_or_create name (\<lambda>idx c. fs_store idx data c) l (fsc s)
   }"

definition fs_write :: "cstring \<Rightarrow> cstring \<Rightarrow> kfs \<Rightarrow> (fs_result \<times> kfs) option" where
  "fs_write name text = fs_write_bin name text"

definition fs_append :: "cstring \<Rightarrow> cstring \<Rightarrow> kfs \<Rightarrow> (fs_result \<times> kfs) option" where
  "fs_append name text s = do {
     l \<leftarrow> fs_lock (lk s);
     store_or_create name (\<lambda>idx c. fs_append_at idx text c) l (fsc s)
   }"

text \<open>\<open>fs_read\<close> hands out a pointer to the node's content and the length: the node's
  index and the length.\<close>

definition fs_read :: "cstring \<Rightarrow> ramfs \<Rightarrow> fs_result \<times> (nat \<times> nat) option" where
  "fs_read name c =
     (case fs_find_child c (cwd c) name of
        None \<Rightarrow> (FS_ERR_NOT_FOUND, None)
      | Some idx \<Rightarrow>
          if node_type (nodes c ! idx) \<noteq> FS_TYPE_FILE then (FS_ERR_IS_A_DIRECTORY, None)
          else (FS_OK, Some (idx, content_len (nodes c ! idx))))"

definition fs_size :: "cstring \<Rightarrow> ramfs \<Rightarrow> fs_result \<times> nat option" where
  "fs_size name c =
     (case fs_find_child c (cwd c) name of
        None \<Rightarrow> (FS_ERR_NOT_FOUND, None)
      | Some idx \<Rightarrow>
          if node_type (nodes c ! idx) = FS_TYPE_DIR then (FS_ERR_IS_A_DIRECTORY, Some 0)
          else (FS_OK, Some (content_len (nodes c ! idx))))"

definition fs_node_count :: "ramfs \<Rightarrow> nat" where
  "fs_node_count c =
     length (filter (\<lambda>i. node_type (nodes c ! i) \<noteq> FS_TYPE_FREE) [0..<FS_MAX_NODES])"

end
