(* ===== verification/Ramfs_Inv.thy ===== *)
theory Ramfs_Inv
  imports Ramfs
begin

text \<open>
  The well-formedness invariant of the RAM file system and its preservation by the
  operations that create, rename and write nodes: every live node but the root hangs
  below a live directory, the parent links lead to the root, siblings have different
  names, names are valid, and no content array is written out of its bounds.
\<close>

section \<open>The invariant\<close>

definition live :: "ramfs \<Rightarrow> nat \<Rightarrow> bool" where
  "live c i \<longleftrightarrow> i < FS_MAX_NODES \<and> node_type (nodes c ! i) \<noteq> FS_TYPE_FREE"

definition dir :: "ramfs \<Rightarrow> nat \<Rightarrow> bool" where
  "dir c i \<longleftrightarrow> i < FS_MAX_NODES \<and> node_type (nodes c ! i) = FS_TYPE_DIR"

text \<open>A node is rooted when its chain of parent links is finite.\<close>

inductive rooted :: "fs_node list \<Rightarrow> nat \<Rightarrow> bool" for ns where
  rooted_top: "parent (ns ! i) = None \<Longrightarrow> rooted ns i"
| rooted_step: "parent (ns ! i) = Some p \<Longrightarrow> rooted ns p \<Longrightarrow> rooted ns i"

definition node_ok :: "fs_node \<Rightarrow> bool" where
  "node_ok nd \<longleftrightarrow> length (content nd) \<le> FS_FILE_MAX
     \<and> (node_type nd = FS_TYPE_FILE \<longrightarrow> content_len nd < length (content nd))"

definition fs_inv :: "ramfs \<Rightarrow> bool" where
  "fs_inv c \<longleftrightarrow> length (nodes c) = FS_MAX_NODES
     \<and> dir c FS_ROOT_INDEX \<and> parent (nodes c ! FS_ROOT_INDEX) = None
     \<and> dir c (cwd c)
     \<and> (\<forall>i. live c i \<longrightarrow> i \<noteq> FS_ROOT_INDEX \<longrightarrow> (\<exists>p. parent (nodes c ! i) = Some p \<and> dir c p))
     \<and> (\<forall>i. live c i \<longrightarrow> rooted (nodes c) i)
     \<and> (\<forall>i j. live c i \<longrightarrow> live c j \<longrightarrow> parent (nodes c ! i) = parent (nodes c ! j) \<longrightarrow>
          node_name (nodes c ! i) = node_name (nodes c ! j) \<longrightarrow> i = j)
     \<and> (\<forall>i. live c i \<longrightarrow> i \<noteq> FS_ROOT_INDEX \<longrightarrow> fs_is_valid_name (node_name (nodes c ! i)))
     \<and> (\<forall>i < FS_MAX_NODES. node_ok (nodes c ! i))"

lemma fs_invD:
  assumes "fs_inv c"
  shows fs_inv_len: "length (nodes c) = FS_MAX_NODES"
    and fs_inv_root: "dir c FS_ROOT_INDEX"
    and fs_inv_root_parent: "parent (nodes c ! FS_ROOT_INDEX) = None"
    and fs_inv_cwd: "dir c (cwd c)"
    and fs_inv_parent: "\<And>i. live c i \<Longrightarrow> i \<noteq> FS_ROOT_INDEX \<Longrightarrow>
          \<exists>p. parent (nodes c ! i) = Some p \<and> dir c p"
    and fs_inv_rooted: "\<And>i. live c i \<Longrightarrow> rooted (nodes c) i"
    and fs_inv_unique: "\<And>i j. live c i \<Longrightarrow> live c j \<Longrightarrow>
          parent (nodes c ! i) = parent (nodes c ! j) \<Longrightarrow>
          node_name (nodes c ! i) = node_name (nodes c ! j) \<Longrightarrow> i = j"
    and fs_inv_name: "\<And>i. live c i \<Longrightarrow> i \<noteq> FS_ROOT_INDEX \<Longrightarrow>
          fs_is_valid_name (node_name (nodes c ! i))"
    and fs_inv_node: "\<And>i. i < FS_MAX_NODES \<Longrightarrow> node_ok (nodes c ! i)"
  using assms unfolding fs_inv_def by blast+

lemma fs_invI:
  assumes "length (nodes c) = FS_MAX_NODES" "dir c FS_ROOT_INDEX"
    "parent (nodes c ! FS_ROOT_INDEX) = None" "dir c (cwd c)"
    "\<And>i. live c i \<Longrightarrow> i \<noteq> FS_ROOT_INDEX \<Longrightarrow> \<exists>p. parent (nodes c ! i) = Some p \<and> dir c p"
    "\<And>i. live c i \<Longrightarrow> rooted (nodes c) i"
    "\<And>i j. live c i \<Longrightarrow> live c j \<Longrightarrow> parent (nodes c ! i) = parent (nodes c ! j) \<Longrightarrow>
       node_name (nodes c ! i) = node_name (nodes c ! j) \<Longrightarrow> i = j"
    "\<And>i. live c i \<Longrightarrow> i \<noteq> FS_ROOT_INDEX \<Longrightarrow> fs_is_valid_name (node_name (nodes c ! i))"
    "\<And>i. i < FS_MAX_NODES \<Longrightarrow> node_ok (nodes c ! i)"
  shows "fs_inv c"
  using assms unfolding fs_inv_def by blast

lemma dir_live: "dir c i \<Longrightarrow> live c i"
  by (simp add: dir_def live_def)

lemma live_lt: "live c i \<Longrightarrow> i < FS_MAX_NODES"
  by (simp add: live_def)

lemma live_parent_dir: "fs_inv c \<Longrightarrow> live c i \<Longrightarrow> parent (nodes c ! i) = Some p \<Longrightarrow> dir c p"
  using fs_inv_parent fs_inv_root_parent by fastforce

section \<open>Lookup and allocation\<close>

lemma find_child_Some:
  assumes "fs_inv c"
  shows "fs_find_child c d n = Some i \<longleftrightarrow>
     live c i \<and> parent (nodes c ! i) = Some d \<and> node_name (nodes c ! i) = n"
proof
  assume "fs_find_child c d n = Some i"
  then show "live c i \<and> parent (nodes c ! i) = Some d \<and> node_name (nodes c ! i) = n"
    by (auto simp: fs_find_child_def live_def dest: scan_SomeD)
next
  assume "live c i \<and> parent (nodes c ! i) = Some d \<and> node_name (nodes c ! i) = n"
  then show "fs_find_child c d n = Some i"
    unfolding fs_find_child_def
    by (intro scan_unique) (use fs_inv_unique [OF assms] in \<open>auto simp: live_def\<close>)
qed

lemma find_child_None:
  "fs_find_child c d n = None \<longleftrightarrow>
     (\<forall>i. live c i \<longrightarrow> parent (nodes c ! i) = Some d \<longrightarrow> node_name (nodes c ! i) \<noteq> n)"
  by (auto simp: fs_find_child_def scan_None_iff live_def)

lemma alloc_Some: "fs_alloc_node c = Some i \<Longrightarrow> i < FS_MAX_NODES \<and> \<not> live c i"
  by (auto simp: fs_alloc_node_def live_def dest: scan_SomeD)

lemma alloc_None: "fs_alloc_node c = None \<longleftrightarrow> (\<forall>i < FS_MAX_NODES. live c i)"
  by (auto simp: fs_alloc_node_def scan_None_iff live_def)

lemma valid_name_iff:
  "fs_is_valid_name n \<longleftrightarrow> n \<noteq> [] \<and> n \<noteq> ''.'' \<and> n \<noteq> ''..'' \<and> length n < FS_NAME_MAX"
  by (auto simp: fs_is_valid_name_def)

lemma valid_name_copied: "fs_is_valid_name n \<Longrightarrow> k_strcpy_truncate n FS_NAME_MAX = n"
  by (simp add: valid_name_iff k_strcpy_fits)

section \<open>Creating a node\<close>

abbreviation set_node :: "nat \<Rightarrow> fs_node \<Rightarrow> ramfs \<Rightarrow> ramfs" where
  "set_node i nd c \<equiv> c\<lparr>nodes := (nodes c)[i := nd]\<rparr>"

lemma upd_node_set: "upd_node i f c = set_node i (f (nodes c ! i)) c"
  by (simp add: upd_node_def)

text \<open>A table that agrees on the live nodes keeps their chains.\<close>

lemma rooted_agree:
  assumes "rooted (nodes c) i" "fs_inv c" "live c i"
    and agree: "\<And>k. live c k \<Longrightarrow> P k \<Longrightarrow> parent (ns ! k) = parent (nodes c ! k)"
    and closed: "\<And>k p. live c k \<Longrightarrow> P k \<Longrightarrow> parent (nodes c ! k) = Some p \<Longrightarrow> P p"
    and "P i"
  shows "rooted ns i"
  using assms(1,3,6)
proof (induction rule: rooted.induct)
  case (rooted_top i)
  then show ?case using agree by (auto intro: rooted.rooted_top)
next
  case (rooted_step i p)
  then have "live c p" using live_parent_dir [OF assms(2)] dir_live by blast
  with rooted_step have "rooted ns p" using closed by blast
  with rooted_step show ?case using agree by (auto intro: rooted.rooted_step)
qed

lemma fs_inv_create:
  assumes inv: "fs_inv c" and free: "idx < FS_MAX_NODES" "\<not> live c idx"
    and fresh: "fs_find_child c (cwd c) (node_name nd) = None"
    and name: "fs_is_valid_name (node_name nd)"
    and nd: "node_type nd \<noteq> FS_TYPE_FREE" "parent nd = Some (cwd c)" "node_ok nd"
  shows "fs_inv (set_node idx nd c)"
proof -
  let ?c = "set_node idx nd c"
  have len: "length (nodes c) = FS_MAX_NODES" using inv by (rule fs_inv_len)
  have nth: "nodes ?c ! k = (if k = idx then nd else nodes c ! k)" if "k < FS_MAX_NODES" for k
    using that free len by (simp add: nth_list_update)
  have live: "live ?c k \<longleftrightarrow> live c k \<or> k = idx" for k
    using nth [of k] nd(1) free by (auto simp: live_def split: if_splits)
  have dir: "dir c k \<Longrightarrow> dir ?c k" for k
    using nth [of k] free dir_live [of c k] by (auto simp: dir_def)
  have ne: "live c k \<Longrightarrow> k \<noteq> idx" for k using free by blast
  have old: "live c k \<Longrightarrow> nodes ?c ! k = nodes c ! k" for k
    using nth [of k] ne live_lt by (auto simp: live_def)
  have new: "nodes ?c ! idx = nd" using nth [OF free(1)] by simp
  have root: "live c FS_ROOT_INDEX" using fs_inv_root [OF inv] by (rule dir_live)
  have rooted: "rooted (nodes ?c) k" if "live c k" for k
    by (rule rooted_agree [where P = "\<lambda>_. True", OF fs_inv_rooted [OF inv that] inv that])
      (use old in auto)
  have cwd: "live c (cwd c)" using fs_inv_cwd [OF inv] by (rule dir_live)
  have rooted_new: "rooted (nodes ?c) idx"
    by (rule rooted.rooted_step [of _ _ "cwd c"]) (use new nd rooted cwd in auto)
  show ?thesis
  proof (rule fs_invI)
    show "i = j" if "live ?c i" "live ?c j" "parent (nodes ?c ! i) = parent (nodes ?c ! j)"
      "node_name (nodes ?c ! i) = node_name (nodes ?c ! j)" for i j
      using that fresh fs_inv_unique [OF inv, of i j] new nd(2) old live
      by (cases "i = idx"; cases "j = idx") (auto simp: find_child_None)
    show "\<exists>p. parent (nodes ?c ! i) = Some p \<and> dir ?c p"
      if "live ?c i" "i \<noteq> FS_ROOT_INDEX" for i
      using that fs_inv_parent [OF inv, of i] new nd(2) old live dir fs_inv_cwd [OF inv]
      by (cases "i = idx") auto
    show "fs_is_valid_name (node_name (nodes ?c ! i))"
      if "live ?c i" "i \<noteq> FS_ROOT_INDEX" for i
      using that fs_inv_name [OF inv, of i] name new old live by (cases "i = idx") auto
    show "node_ok (nodes ?c ! i)" if "i < FS_MAX_NODES" for i
      using that fs_inv_node [OF inv, of i] nd(3) nth by auto
    show "rooted (nodes ?c) i" if "live ?c i" for i
      using that live rooted rooted_new by blast
  qed (use len dir fs_inv_root [OF inv] fs_inv_cwd [OF inv] fs_inv_root_parent [OF inv]
      old [OF root] in simp_all)
qed

text \<open>What a lookup returns after a creation.\<close>

lemma find_child_create:
  assumes inv: "fs_inv c" and free: "idx < FS_MAX_NODES" "\<not> live c idx"
    and fresh: "fs_find_child c (cwd c) (node_name nd) = None"
    and name: "fs_is_valid_name (node_name nd)"
    and nd: "node_type nd \<noteq> FS_TYPE_FREE" "parent nd = Some (cwd c)" "node_ok nd"
  shows "fs_find_child (set_node idx nd c) d n =
    (if d = cwd c \<and> n = node_name nd then Some idx else fs_find_child c d n)"
proof -
  have inv': "fs_inv (set_node idx nd c)" using assms by (rule fs_inv_create)
  have len: "length (nodes c) = FS_MAX_NODES" using inv by (rule fs_inv_len)
  have live: "live (set_node idx nd c) k \<longleftrightarrow> live c k \<or> k = idx" for k
    using nd(1) free len by (auto simp: live_def nth_list_update)
  have old: "k \<noteq> idx \<Longrightarrow> nodes (set_node idx nd c) ! k = nodes c ! k" for k
    by simp
  have new: "nodes (set_node idx nd c) ! idx = nd" using free len by simp
  show ?thesis
  proof (cases "d = cwd c \<and> n = node_name nd")
    case True
    then show ?thesis using find_child_Some [OF inv'] live new nd(2) by auto
  next
    case False
    have "fs_find_child (set_node idx nd c) d n = Some i \<longleftrightarrow> fs_find_child c d n = Some i" for i
      unfolding find_child_Some [OF inv'] find_child_Some [OF inv]
      using live old new nd(2) free(2) False by (cases "i = idx") auto
    then have "fs_find_child (set_node idx nd c) d n = fs_find_child c d n"
      by (metis option.exhaust)
    with False show ?thesis by auto
  qed
qed

section \<open>Changing a node in place\<close>

lemma fs_inv_modify:
  assumes inv: "fs_inv c" and idx: "live c idx"
    and nd: "node_type nd = node_type (nodes c ! idx)" "parent nd = parent (nodes c ! idx)"
      "node_ok nd"
    and name: "node_name nd = node_name (nodes c ! idx) \<or>
      idx \<noteq> FS_ROOT_INDEX \<and> fs_is_valid_name (node_name nd) \<and>
      (\<forall>d. parent nd = Some d \<longrightarrow> fs_find_child c d (node_name nd) = None)"
  shows "fs_inv (set_node idx nd c)"
proof -
  let ?c = "set_node idx nd c"
  have len: "length (nodes c) = FS_MAX_NODES" using inv by (rule fs_inv_len)
  have lt: "idx < FS_MAX_NODES" using idx by (rule live_lt)
  have nth: "nodes ?c ! k = (if k = idx then nd else nodes c ! k)" if "k < FS_MAX_NODES" for k
    using that lt len by (simp add: nth_list_update)
  have same: "node_type (nodes ?c ! k) = node_type (nodes c ! k)"
    "parent (nodes ?c ! k) = parent (nodes c ! k)" if "k < FS_MAX_NODES" for k
    using nth [OF that] nd by auto
  have live: "live ?c k \<longleftrightarrow> live c k" and dir: "dir ?c k \<longleftrightarrow> dir c k" for k
    using same [of k] by (auto simp: live_def dir_def)
  have rooted: "rooted (nodes ?c) k" if "live c k" for k
    by (rule rooted_agree [where P = "\<lambda>_. True", OF fs_inv_rooted [OF inv that] inv that])
      (use same live_lt in \<open>auto simp: live_def\<close>)
  have name_new: "live c j \<Longrightarrow> j \<noteq> idx \<Longrightarrow> parent (nodes c ! j) = parent (nodes c ! idx) \<Longrightarrow>
      node_name (nodes c ! j) \<noteq> node_name nd" for j
    using name fs_inv_unique [OF inv, of j idx] idx fs_inv_parent [OF inv, of idx] nd(2)
    by (auto simp: find_child_None)
  show ?thesis
  proof (rule fs_invI)
    show "i = j" if "live ?c i" "live ?c j" "parent (nodes ?c ! i) = parent (nodes ?c ! j)"
      "node_name (nodes ?c ! i) = node_name (nodes ?c ! j)" for i j
      using that fs_inv_unique [OF inv, of i j] name_new [of i] name_new [of j] nth [of i] nth [of j]
        nd(2) live live_lt by (cases "i = idx"; cases "j = idx") (auto simp: live_def)
    show "fs_is_valid_name (node_name (nodes ?c ! i))"
      if "live ?c i" "i \<noteq> FS_ROOT_INDEX" for i
      using that fs_inv_name [OF inv, of i] name nth [of i] live live_lt [of c i]
      by (cases "i = idx") auto
    show "node_ok (nodes ?c ! i)" if "i < FS_MAX_NODES" for i
      using that fs_inv_node [OF inv, of i] nd(3) nth by auto
    show "rooted (nodes ?c) i" if "live ?c i" for i
      using that live rooted by blast
    show "\<exists>p. parent (nodes ?c ! i) = Some p \<and> dir ?c p"
      if "live ?c i" "i \<noteq> FS_ROOT_INDEX" for i
      using that fs_inv_parent [OF inv, of i] live dir same(2) [OF live_lt [of c i]] by auto
    show "parent (nodes ?c ! FS_ROOT_INDEX) = None"
      using same(2) [of FS_ROOT_INDEX] fs_inv_root_parent [OF inv] by (simp add: fs_consts)
  qed (use len dir fs_inv_root [OF inv] fs_inv_cwd [OF inv] in simp_all)
qed

section \<open>The creating and writing operations keep the invariant\<close>

lemma node_ok_blit:
  "length data < FS_FILE_MAX \<Longrightarrow> length (content nd) \<le> FS_FILE_MAX \<Longrightarrow>
   node_ok (nd\<lparr>content := blit NUL (content nd) 0 (data @ [NUL]), content_len := length data\<rparr>)"
  by (simp add: node_ok_def less_max_iff_disj)

lemma node_ok_content: "node_ok nd \<Longrightarrow> length (content nd) \<le> FS_FILE_MAX"
  by (simp add: node_ok_def)

lemma fs_mkdir_body_inv [kernel_inv]: "fs_inv c \<Longrightarrow> fs_inv (snd (fs_mkdir_body n c))"
  using fs_inv_node [of c]
  by (auto simp: fs_mkdir_body_def upd_node_set valid_name_copied node_ok_def
      split: option.splits dest!: alloc_Some intro!: fs_inv_create)

lemma fs_touch_body_inv [kernel_inv]: "fs_inv c \<Longrightarrow> fs_inv (snd (fs_touch_body n c))"
  using fs_inv_node [of c]
  by (auto simp: fs_touch_body_def upd_node_set valid_name_copied node_ok_def
      FS_FILE_MAX_def split: option.splits dest!: alloc_Some intro!: fs_inv_create)

lemma fs_inv_cwd_update: "fs_inv c \<Longrightarrow> dir c d \<Longrightarrow> fs_inv (c\<lparr>cwd := d\<rparr>)"
  by (simp add: fs_inv_def live_def dir_def)

lemma fs_cd_body_inv [kernel_inv]:
  assumes inv: "fs_inv c"
  shows "fs_inv (snd (fs_cd_body n c))"
proof -
  have up: "dir c p" if "parent (nodes c ! cwd c) = Some p" for p
    using live_parent_dir [OF inv dir_live [OF fs_inv_cwd [OF inv]] that] .
  have down: "dir c i" if "fs_find_child c (cwd c) n = Some i"
    "node_type (nodes c ! i) = FS_TYPE_DIR" for i
    using that find_child_Some [OF inv] by (auto simp: live_def dir_def)
  show ?thesis
    using inv up down fs_inv_root [OF inv]
    by (auto simp: fs_cd_body_def intro: fs_inv_cwd_update split: option.splits)
qed

lemma fs_store_inv [kernel_inv]:
  assumes inv: "fs_inv c" and idx: "\<And>i. idx = Some i \<Longrightarrow> live c i"
    and len: "length data < FS_FILE_MAX"
  shows "fs_inv (snd (fs_store idx data c))"
proof (cases idx)
  case (Some i)
  then have "live c i" by (rule idx)
  then have "length (content (nodes c ! i)) \<le> FS_FILE_MAX"
    using fs_inv_node [OF inv live_lt] by (simp add: node_ok_def)
  with Some \<open>live c i\<close> show ?thesis
    using inv len by (auto simp: fs_store_def upd_node_set intro!: fs_inv_modify node_ok_blit)
qed (simp add: fs_store_def inv)

lemma fs_append_at_inv [kernel_inv]:
  assumes inv: "fs_inv c" and idx: "\<And>i. idx = Some i \<Longrightarrow> live c i"
  shows "fs_inv (snd (fs_append_at idx text c))"
proof (cases idx)
  case (Some i)
  then have "live c i" by (rule idx)
  then have "node_ok (nodes c ! i)" using fs_inv_node [OF inv live_lt] by blast
  with Some \<open>live c i\<close> show ?thesis
    using inv
    by (auto simp: fs_append_at_def upd_node_set Let_def node_ok_def fs_consts
        intro!: fs_inv_modify)
qed (simp add: fs_append_at_def inv)

lemma fs_cp_body_inv [kernel_inv]:
  assumes inv: "fs_inv c"
  shows "fs_inv (snd (fs_cp_body src dst c))"
proof -
  have "content_len (nodes c ! i) < FS_FILE_MAX"
    if "live c i" "node_type (nodes c ! i) = FS_TYPE_FILE" for i
    using fs_inv_node [OF inv live_lt [OF that(1)]] that(2) by (simp add: node_ok_def)
  then show ?thesis
    using inv fs_inv_node [OF inv]
    by (auto simp: fs_cp_body_def upd_node_set valid_name_copied node_ok_def node_bytes_def
        find_child_Some find_child_None less_max_iff_disj Suc_le_eq Let_def
        split: option.splits dest!: alloc_Some intro!: fs_inv_create)
qed

lemma fs_mv_body_inv [kernel_inv]:
  assumes inv: "fs_inv c"
  shows "fs_inv (snd (fs_mv_body src dst c))"
proof -
  have "i \<noteq> FS_ROOT_INDEX" if "parent (nodes c ! i) = Some d" for i d
    using that fs_inv_root_parent [OF inv] by auto
  then show ?thesis
    using inv fs_inv_node [OF inv]
    by (auto simp: fs_mv_body_def upd_node_set valid_name_copied node_ok_def live_lt
        find_child_Some find_child_None split: option.splits intro!: fs_inv_modify)
qed

end
