(* ===== verification/Ramfs_Tree.thy ===== *)
theory Ramfs_Tree
  imports Ramfs_Inv
begin

text \<open>
  Subtree deletion (\<open>fs_rm_subtree\<close> of \<open>src/src/fs.c\<close>): the breadth-first queue holds
  exactly the live descendants of the deleted node, the walk from the current directory
  returns, and after the slots are freed the file system is well formed again and
  everything outside the subtree is untouched.
\<close>

section \<open>The parent relation\<close>

definition par :: "fs_node list \<Rightarrow> nat \<Rightarrow> nat \<Rightarrow> bool" where
  "par ns a b \<longleftrightarrow> parent (ns ! a) = Some b"

definition subtree :: "ramfs \<Rightarrow> nat \<Rightarrow> nat set" where
  "subtree c r = {i. live c i \<and> (par (nodes c))\<^sup>*\<^sup>* i r}"

lemma par_det: "par ns a b \<Longrightarrow> par ns a b' \<Longrightarrow> b = b'"
  by (simp add: par_def)

lemma rooted_acyclic: "rooted ns i \<Longrightarrow> \<not> (par ns)\<^sup>+\<^sup>+ i i"
proof (induction rule: rooted.induct)
  case (rooted_top i)
  then show ?case by (auto simp: par_def dest: tranclpD)
next
  case (rooted_step i p)
  show ?case
  proof
    assume "(par ns)\<^sup>+\<^sup>+ i i"
    then obtain y where "par ns i y" "(par ns)\<^sup>*\<^sup>* y i" by (blast dest: tranclpD)
    moreover have "par ns i p" using rooted_step by (simp add: par_def)
    ultimately have "(par ns)\<^sup>*\<^sup>* p i" "par ns i p" by (auto dest: par_det)
    then have "(par ns)\<^sup>+\<^sup>+ p p" by (rule rtranclp_into_tranclp1)
    with rooted_step.IH show False by simp
  qed
qed

lemma walk_up_returns: "rooted ns i \<Longrightarrow> walk_up ns (Some i) idx = Some ((par ns)\<^sup>*\<^sup>* i idx)"
proof (induction rule: rooted.induct)
  case (rooted_top i)
  have "(par ns)\<^sup>*\<^sup>* i idx \<longleftrightarrow> i = idx"
    using rooted_top by (auto simp: par_def elim: converse_rtranclpE)
  then show ?case
    using rooted_top by (simp add: walk_up.simps [of ns "Some i"] walk_up.simps [of ns None])
next
  case (rooted_step i p)
  have "(par ns)\<^sup>*\<^sup>* i idx \<longleftrightarrow> i = idx \<or> (par ns)\<^sup>*\<^sup>* p idx"
    using rooted_step.hyps
    by (auto simp: par_def elim: converse_rtranclpE intro: converse_rtranclp_into_rtranclp)
  then show ?case
    using rooted_step by (simp add: walk_up.simps [of ns "Some i"])
qed

lemma cwd_in_subtree_iff:
  "fs_inv c \<Longrightarrow> fs_cwd_in_subtree c r = Some (cwd c \<in> subtree c r)"
  using walk_up_returns [OF fs_inv_rooted [OF _ dir_live [OF fs_inv_cwd]]]
    dir_live [OF fs_inv_cwd]
  by (simp add: fs_cwd_in_subtree_def subtree_def)

lemma subtree_child:
  "fs_inv c \<Longrightarrow> live c i \<Longrightarrow> parent (nodes c ! i) = Some p \<Longrightarrow> p \<in> subtree c r \<Longrightarrow> i \<in> subtree c r"
  by (auto simp: subtree_def par_def intro: converse_rtranclp_into_rtranclp)

lemma root_notin_subtree:
  assumes "fs_inv c" "r \<noteq> FS_ROOT_INDEX"
  shows "FS_ROOT_INDEX \<notin> subtree c r"
  using assms fs_inv_root_parent [OF assms(1)]
  by (auto simp: subtree_def par_def elim: converse_rtranclpE)

lemma parent_notin_subtree:
  assumes "fs_inv c" "live c r" "parent (nodes c ! r) = Some p"
  shows "p \<notin> subtree c r"
proof
  assume "p \<in> subtree c r"
  moreover have "par (nodes c) r p" using assms(3) by (simp add: par_def)
  ultimately have "(par (nodes c))\<^sup>+\<^sup>+ r r"
    by (auto simp: subtree_def intro: rtranclp_into_tranclp2)
  with rooted_acyclic [OF fs_inv_rooted [OF assms(1,2)]] show False by simp
qed

section \<open>The breadth-first collection\<close>

definition seen_ok :: "nat list \<Rightarrow> bool list \<Rightarrow> bool" where
  "seen_ok queue seen \<longleftrightarrow> distinct queue \<and> set queue \<subseteq> {..<FS_MAX_NODES}
     \<and> length seen = FS_MAX_NODES \<and> (\<forall>k < FS_MAX_NODES. seen ! k = (k \<in> set queue))"

lemma seen_ok_length: "seen_ok queue seen \<Longrightarrow> length queue \<le> FS_MAX_NODES"
  unfolding seen_ok_def
  by (metis card_lessThan card_mono distinct_card finite_lessThan)

lemma seen_ok_room:
  assumes "seen_ok queue seen" "i < FS_MAX_NODES" "i \<notin> set queue"
  shows "length queue < FS_MAX_NODES"
proof -
  have "insert i (set queue) \<subseteq> {..<FS_MAX_NODES}" using assms by (auto simp: seen_ok_def)
  then have "card (insert i (set queue)) \<le> FS_MAX_NODES"
    by (metis card_lessThan card_mono finite_lessThan)
  then show ?thesis using assms by (simp add: seen_ok_def distinct_card)
qed

lemma seen_ok_snoc:
  "seen_ok queue seen \<Longrightarrow> i < FS_MAX_NODES \<Longrightarrow> i \<notin> set queue \<Longrightarrow>
   seen_ok (queue @ [i]) (seen[i := True])"
  by (auto simp: seen_ok_def nth_list_update)

abbreviation child_of :: "fs_node list \<Rightarrow> nat \<Rightarrow> nat \<Rightarrow> bool" where
  "child_of ns u k \<equiv> node_type (ns ! k) \<noteq> FS_TYPE_FREE \<and> parent (ns ! k) = Some u"

text \<open>The inner loop never overflows the queue and appends the unseen children in order.\<close>

lemma bfs_scan_eq:
  assumes "seen_ok queue seen" "i + n \<le> FS_MAX_NODES"
  shows "\<exists>seen'. bfs_scan ns u i n queue seen =
       Some (queue @ filter (\<lambda>k. child_of ns u k \<and> k \<notin> set queue) [i..<i + n], seen')
     \<and> seen_ok (queue @ filter (\<lambda>k. child_of ns u k \<and> k \<notin> set queue) [i..<i + n]) seen'"
  using assms
proof (induction ns u i n queue seen rule: bfs_scan.induct)
  case (1 ns u i queue seen)
  then show ?case by simp
next
  case (2 ns u i n queue seen)
  have i: "i < FS_MAX_NODES" and seen: "seen ! i = (i \<in> set queue)"
    using "2.prems" by (auto simp: seen_ok_def)
  have upt: "[i..<i + Suc n] = i # [Suc i..<Suc i + n]" by (simp add: upt_rec)
  show ?case
  proof (cases "child_of ns u i \<and> i \<notin> set queue")
    case True
    have eq: "filter (\<lambda>k. node_type (ns ! k) \<noteq> FS_TYPE_FREE \<and> parent (ns ! k) = Some u
          \<and> k \<noteq> i \<and> k \<notin> set queue) [Suc i..<Suc (i + n)] =
        filter (\<lambda>k. node_type (ns ! k) \<noteq> FS_TYPE_FREE \<and> parent (ns ! k) = Some u
          \<and> k \<notin> set queue) [Suc i..<Suc (i + n)]"
      by (rule filter_cong) auto
    have room: "length queue < FS_MAX_NODES"
      using seen_ok_room [OF "2.prems"(1) i] True by simp
    have "seen_ok (queue @ [i]) (seen[i := True])"
      using seen_ok_snoc [OF "2.prems"(1) i] True by simp
    with "2.IH"(4) True room seen "2.prems"(2) show ?thesis
      unfolding upt by (simp add: not_le eq del: upt_Suc)
  next
    case False
    then show ?thesis
      using "2.IH"(1-3) "2.prems" seen unfolding upt by (auto simp del: upt_Suc)
  qed
qed

definition bfs_inv :: "ramfs \<Rightarrow> nat \<Rightarrow> nat \<Rightarrow> nat list \<Rightarrow> bool list \<Rightarrow> bool" where
  "bfs_inv c r qh queue seen \<longleftrightarrow> seen_ok queue seen \<and> r \<in> set queue
     \<and> set queue \<subseteq> subtree c r \<and> qh \<le> length queue
     \<and> (\<forall>j < qh. \<forall>k. live c k \<longrightarrow> parent (nodes c ! k) = Some (queue ! j) \<longrightarrow> k \<in> set queue)"

lemma bfs_inv_step:
  assumes inv: "fs_inv c" and q: "bfs_inv c r qh queue seen" "qh < length queue"
    and scan: "bfs_scan (nodes c) (queue ! qh) 0 FS_MAX_NODES queue seen = Some (queue', seen')"
  shows "bfs_inv c r (Suc qh) queue' seen'"
proof -
  let ?new = "filter (\<lambda>k. child_of (nodes c) (queue ! qh) k \<and> k \<notin> set queue) [0..<FS_MAX_NODES]"
  have q': "queue' = queue @ ?new" and ok: "seen_ok queue' seen'"
    using bfs_scan_eq [of queue seen 0 FS_MAX_NODES "nodes c" "queue ! qh"] scan q
    by (auto simp: bfs_inv_def)
  have "queue ! qh \<in> subtree c r" using q by (auto simp: bfs_inv_def)
  then have "set ?new \<subseteq> subtree c r"
    using subtree_child [OF inv] by (auto simp: live_def)
  moreover have "k \<in> set queue'"
    if "j < Suc qh" "live c k" "parent (nodes c ! k) = Some (queue' ! j)" for j k
  proof (cases "j = qh")
    case True
    with that q(2) show ?thesis by (auto simp: q' nth_append live_def)
  next
    case False
    with that(1) have "j < qh" by simp
    with that q show ?thesis by (auto simp: q' nth_append bfs_inv_def)
  qed
  ultimately show ?thesis using q ok by (auto simp: bfs_inv_def q')
qed

lemma bfs_inv_skip:
  assumes inv: "fs_inv c" and q: "bfs_inv c r qh queue seen" "qh < length queue"
    and not_dir: "node_type (nodes c ! (queue ! qh)) \<noteq> FS_TYPE_DIR"
  shows "bfs_inv c r (Suc qh) queue seen"
proof -
  have "parent (nodes c ! k) \<noteq> Some (queue ! qh)" if "live c k" for k
    using live_parent_dir [OF inv that] not_dir by (auto simp: dir_def)
  with q show ?thesis by (auto simp: bfs_inv_def less_Suc_eq)
qed

lemma bfs_collects:
  assumes inv: "fs_inv c"
  shows "bfs_inv c r qh queue seen \<Longrightarrow>
    \<exists>queue'. bfs (nodes c) qh queue seen = Some queue' \<and> distinct queue'
      \<and> set queue' = subtree c r"
proof (induction "nodes c" qh queue seen rule: bfs.induct)
  case (1 qh queue seen)
  show ?case
  proof (cases "qh < length queue")
    case more: True
    show ?thesis
    proof (cases "node_type (nodes c ! (queue ! qh)) = FS_TYPE_DIR")
      case True
      obtain queue' seen' where s: "bfs_scan (nodes c) (queue ! qh) 0 FS_MAX_NODES queue seen
          = Some (queue', seen')"
        using bfs_scan_eq [of queue seen 0 FS_MAX_NODES "nodes c" "queue ! qh"] "1.prems"
        by (auto simp: bfs_inv_def)
      have "bfs_inv c r (Suc qh) queue' seen'"
        using bfs_inv_step [OF inv "1.prems" more s] .
      with "1.hyps"(2) [OF more refl] True s show ?thesis
        by (subst bfs.simps) (simp add: more)
    next
      case False
      with "1.hyps"(1) [OF more refl] bfs_inv_skip [OF inv "1.prems" more] show ?thesis
        by (subst bfs.simps) (simp add: more)
    qed
  next
    case False
    have closed: "k \<in> set queue" if "live c k" "parent (nodes c ! k) = Some u" "u \<in> set queue" for k u
      using that "1.prems" False by (auto simp: bfs_inv_def in_set_conv_nth)
    have "k \<in> set queue" if "(par (nodes c))\<^sup>*\<^sup>* k r" "live c k" for k
      using that
    proof (induction rule: converse_rtranclp_induct)
      case base
      then show ?case using "1.prems" by (simp add: bfs_inv_def)
    next
      case (step k p)
      then have "live c p"
        using live_parent_dir [OF inv, of k p] by (auto simp: par_def intro: dir_live)
      with step show ?case using closed by (auto simp: par_def)
    qed
    then have "set queue = subtree c r"
      using "1.prems" by (auto simp: bfs_inv_def subtree_def)
    then show ?thesis using False "1.prems"
      by (subst bfs.simps) (simp add: bfs_inv_def seen_ok_def)
  qed
qed

lemma bfs_subtree:
  assumes "fs_inv c" "live c r"
  shows "\<exists>queue. bfs (nodes c) 0 [r] ((replicate FS_MAX_NODES False)[r := True]) = Some queue
    \<and> distinct queue \<and> set queue = subtree c r"
proof (rule bfs_collects [OF assms(1)])
  show "bfs_inv c r 0 [r] ((replicate FS_MAX_NODES False)[r := True])"
    using assms(2)
    by (auto simp: bfs_inv_def seen_ok_def subtree_def live_lt nth_list_update)
qed

section \<open>Freeing the slots\<close>

definition freed :: "fs_node \<Rightarrow> fs_node" where
  "freed nd = nd\<lparr>node_type := FS_TYPE_FREE, content_len := 0,
     content := blit NUL (content nd) 0 [NUL], node_name := [], parent := None\<rparr>"

lemma fs_free_slot_eq: "fs_free_slot i c = set_node i (freed (nodes c ! i)) c"
  by (simp add: fs_free_slot_def upd_node_set freed_def)

lemma fold_free_slots:
  "distinct xs \<Longrightarrow> set xs \<subseteq> {..<length (nodes c)} \<Longrightarrow>
   length (nodes (fold fs_free_slot xs c)) = length (nodes c)
   \<and> cwd (fold fs_free_slot xs c) = cwd c
   \<and> (\<forall>k < length (nodes c). nodes (fold fs_free_slot xs c) ! k =
       (if k \<in> set xs then freed (nodes c ! k) else nodes c ! k))"
proof (induction xs arbitrary: c)
  case (Cons x xs)
  then show ?case
    using Cons.IH [of "fs_free_slot x c"]
    by (auto simp: fs_free_slot_eq nth_list_update)
qed simp

text \<open>
  The effect of \<open>fs_rm_subtree\<close> on a live node that is not the root: it returns, it frees
  exactly the subtree, and it moves the current directory out of the subtree.
\<close>

lemma rm_subtree_effect:
  assumes inv: "fs_inv c" and r: "live c r" "r \<noteq> FS_ROOT_INDEX"
  shows "\<exists>c'. fs_rm_subtree r c = Some (FS_OK, c')
    \<and> length (nodes c') = FS_MAX_NODES
    \<and> (\<forall>k < FS_MAX_NODES. nodes c' ! k =
         (if k \<in> subtree c r then freed (nodes c ! k) else nodes c ! k))
    \<and> Some (cwd c') = (if cwd c \<in> subtree c r then parent (nodes c ! r) else Some (cwd c))"
proof -
  obtain queue where queue: "bfs (nodes c) 0 [r] ((replicate FS_MAX_NODES False)[r := True]) =
      Some queue" "distinct queue" "set queue = subtree c r"
    using bfs_subtree [OF inv r(1)] by blast
  obtain p where p: "parent (nodes c ! r) = Some p" using fs_inv_parent [OF inv r] by blast
  let ?c1 = "if cwd c \<in> subtree c r then c\<lparr>cwd := p\<rparr> else c"
  have "fs_rm_subtree r c = Some (FS_OK, fold fs_free_slot (rev queue) ?c1)"
    using r queue p cwd_in_subtree_iff [OF inv, of r]
    by (simp add: fs_rm_subtree_def live_def Let_def not_le)
  moreover have "set (rev queue) \<subseteq> {..<length (nodes ?c1)}"
    using queue(3) fs_inv_len [OF inv] live_lt by (auto simp: subtree_def)
  note fold_free_slots [OF _ this]
  ultimately show ?thesis
    using queue(2,3) p fs_inv_len [OF inv] by (auto split: if_splits)
qed

lemma freed_simps [simp]:
  "node_type (freed nd) = FS_TYPE_FREE" "node_ok nd \<Longrightarrow> node_ok (freed nd)"
  by (simp_all add: freed_def node_ok_def FS_FILE_MAX_def)

lemma rm_subtree_inv:
  assumes inv: "fs_inv c" and r: "live c r" "r \<noteq> FS_ROOT_INDEX"
    and rm: "fs_rm_subtree r c = Some (FS_OK, c')"
  shows "fs_inv c'"
proof -
  let ?S = "subtree c r"
  obtain p where p: "parent (nodes c ! r) = Some p" "dir c p" using fs_inv_parent [OF inv r] by blast
  have len: "length (nodes c') = FS_MAX_NODES"
    and nth: "k < FS_MAX_NODES \<Longrightarrow> nodes c' ! k =
      (if k \<in> ?S then freed (nodes c ! k) else nodes c ! k)"
    and cwd: "cwd c' = (if cwd c \<in> ?S then p else cwd c)" for k
    using rm_subtree_effect [OF inv r] rm p by (auto split: if_splits)
  have live: "live c' k \<longleftrightarrow> live c k \<and> k \<notin> ?S" for k
    using nth [of k] by (auto simp: live_def split: if_splits)
  have old: "nodes c' ! k = nodes c ! k" if "live c' k" for k
    using nth [OF live_lt [OF that]] that live by simp
  have dir: "dir c' k \<longleftrightarrow> dir c k \<and> k \<notin> ?S" for k
    using nth [of k] by (auto simp: dir_def split: if_splits)
  have up: "q \<notin> ?S" if "live c k" "k \<notin> ?S" "parent (nodes c ! k) = Some q" for k q
    using subtree_child [OF inv that(1,3)] that(2) by blast
  have rooted: "rooted (nodes c') k" if "live c' k" for k
    by (rule rooted_agree [where P = "\<lambda>k. k \<notin> ?S", OF fs_inv_rooted [OF inv] inv])
      (use that live old up in auto)
  have root: "FS_ROOT_INDEX \<notin> ?S" using root_notin_subtree [OF inv r(2)] .
  show ?thesis
  proof (rule fs_invI)
    show "dir c' FS_ROOT_INDEX" using dir root fs_inv_root [OF inv] by simp
    then show "parent (nodes c' ! FS_ROOT_INDEX) = None"
      using old [OF dir_live] fs_inv_root_parent [OF inv] by simp
    show "dir c' (cwd c')"
      using dir cwd p(2) parent_notin_subtree [OF inv r(1) p(1)] fs_inv_cwd [OF inv] by simp
    show "\<exists>q. parent (nodes c' ! i) = Some q \<and> dir c' q"
      if "live c' i" "i \<noteq> FS_ROOT_INDEX" for i
      using that live old [OF that(1)] fs_inv_parent [OF inv, of i] up [of i] dir by auto
    show "i = j" if "live c' i" "live c' j" "parent (nodes c' ! i) = parent (nodes c' ! j)"
      "node_name (nodes c' ! i) = node_name (nodes c' ! j)" for i j
      using that live old fs_inv_unique [OF inv, of i j] by auto
    show "fs_is_valid_name (node_name (nodes c' ! i))"
      if "live c' i" "i \<noteq> FS_ROOT_INDEX" for i
      using that live old fs_inv_name [OF inv, of i] by auto
    show "node_ok (nodes c' ! i)" if "i < FS_MAX_NODES" for i
      using nth [OF that] fs_inv_node [OF inv that] by simp
  qed (fact len rooted)+
qed

section \<open>The deleting operations\<close>

lemma find_child_not_root:
  "fs_inv c \<Longrightarrow> fs_find_child c d n = Some i \<Longrightarrow> live c i \<and> i \<noteq> FS_ROOT_INDEX"
  using fs_inv_root_parent by (fastforce simp: find_child_Some)

lemma fs_rm_rf_body_inv [kernel_inv]:
  assumes "fs_inv c"
  shows "\<exists>r c'. fs_rm_rf_body n c = Some (r, c') \<and> fs_inv c'"
proof (cases "fs_find_child c (cwd c) n")
  case (Some i)
  note i = find_child_not_root [OF assms Some]
  obtain c' where "fs_rm_subtree i c = Some (FS_OK, c')" "fs_inv c'"
    using rm_subtree_effect [OF assms] rm_subtree_inv [OF assms] i by blast
  with Some assms show ?thesis by (simp add: fs_rm_rf_body_def)
qed (use assms in \<open>simp add: fs_rm_rf_body_def\<close>)

lemma fs_rm_body_inv [kernel_inv]:
  assumes "fs_inv c"
  shows "\<exists>r c'. fs_rm_body n c = Some (r, c') \<and> fs_inv c'"
proof (cases "fs_find_child c (cwd c) n")
  case (Some i)
  note i = find_child_not_root [OF assms Some]
  obtain c' where "fs_rm_subtree i c = Some (FS_OK, c')" "fs_inv c'"
    using rm_subtree_effect [OF assms] rm_subtree_inv [OF assms] i by blast
  with Some assms show ?thesis by (auto simp: fs_rm_body_def)
qed (use assms in \<open>simp add: fs_rm_body_def\<close>)

end
