(* ===== verification/Ramfs_Ops.thy ===== *)
theory Ramfs_Ops
  imports Ramfs_Tree Stores
begin

text \<open>
  The RAM file system's operations with their critical sections: each of them returns,
  gives the lock and the interrupt flag back, keeps the invariant, and has the effect of
  its body; what is written is what is read. Also the initialisation and the remaining
  queries of \<open>src/src/fs.c\<close> (\<open>fs_init\<close>, \<open>fs_cwd_entry\<close>, \<open>fs_ls\<close>, \<open>fs_pwd\<close>,
  \<open>fs_strerror\<close>).
\<close>

section \<open>Critical sections\<close>

definition kfs_ok :: "kfs \<Rightarrow> bool" where
  "kfs_ok s \<longleftrightarrow> fs_inv (fsc s) \<and> lk_ok (lk s)"

text \<open>\<open>atomic_effect f s out\<close>: the operation returned \<open>out\<close>, with the effect of the
  sequential step \<open>f\<close> on the file system and none on the lock.\<close>

definition atomic_effect :: "(ramfs \<Rightarrow> 'a \<times> ramfs) \<Rightarrow> kfs \<Rightarrow> ('a \<times> kfs) option \<Rightarrow> bool" where
  "atomic_effect f s out \<longleftrightarrow>
     (\<exists>l. out = Some (fst (f (fsc s)), \<lparr>fsc = snd (f (fsc s)), lk = l\<rparr>) \<and> lk_same (lk s) l)"

lemma critical_returns:
  assumes "lk_ok (lk s)" "f (fsc s) = Some (r, c)"
  shows "\<exists>l. critical f s = Some (r, \<lparr>fsc = c, lk = l\<rparr>) \<and> lk_same (lk s) l"
  using fs_lock_unlock [OF assms(1)] assms(2) by (fastforce simp: critical_def)

lemma critical_atomic: "lk_ok (lk s) \<Longrightarrow> atomic_effect f s (critical (\<lambda>c. Some (f c)) s)"
  using critical_returns [of s "\<lambda>c. Some (f c)" "fst (f (fsc s))" "snd (f (fsc s))"]
  by (simp add: atomic_effect_def)

lemma atomic_effect_ok:
  "atomic_effect f s out \<Longrightarrow> kfs_ok s \<Longrightarrow> (fs_inv (fsc s) \<Longrightarrow> fs_inv (snd (f (fsc s)))) \<Longrightarrow>
   \<exists>r s'. out = Some (r, s') \<and> kfs_ok s' \<and> lk_same (lk s) (lk s')"
  by (auto simp: atomic_effect_def kfs_ok_def lk_same_ok)

lemma atomic_effectD:
  "atomic_effect f s (Some (r, s')) \<Longrightarrow> (r, fsc s') = f (fsc s) \<and> lk_same (lk s) (lk s')"
  by (auto simp: atomic_effect_def)

lemma fs_mkdir_atomic: "lk_ok (lk s) \<Longrightarrow> atomic_effect (fs_mkdir_body n) s (fs_mkdir n s)"
  by (simp add: fs_mkdir_def critical_atomic)

lemma fs_touch_atomic: "lk_ok (lk s) \<Longrightarrow> atomic_effect (fs_touch_body n) s (fs_touch n s)"
  by (simp add: fs_touch_def critical_atomic)

lemma fs_cd_atomic: "lk_ok (lk s) \<Longrightarrow> atomic_effect (fs_cd_body n) s (fs_cd n s)"
  by (simp add: fs_cd_def critical_atomic)

lemma fs_cp_atomic: "lk_ok (lk s) \<Longrightarrow> atomic_effect (fs_cp_body a b) s (fs_cp a b s)"
  by (simp add: fs_cp_def critical_atomic)

lemma fs_mv_atomic: "lk_ok (lk s) \<Longrightarrow> atomic_effect (fs_mv_body a b) s (fs_mv a b s)"
  by (simp add: fs_mv_def critical_atomic)

lemma critical_body_ok:
  assumes "kfs_ok s" "\<exists>r c. f (fsc s) = Some (r, c) \<and> fs_inv c"
  shows "\<exists>r s'. critical f s = Some (r, s') \<and> kfs_ok s' \<and> lk_same (lk s) (lk s')"
  using assms critical_returns [of s f] by (fastforce simp: kfs_ok_def lk_same_ok)

section \<open>Writing: the sequential specification\<close>

definition write_spec ::
    "cstring \<Rightarrow> (nat option \<Rightarrow> ramfs \<Rightarrow> fs_result \<times> ramfs) \<Rightarrow> ramfs \<Rightarrow> fs_result \<times> ramfs" where
  "write_spec name store c =
     (case fs_find_child c (cwd c) name of
        Some idx \<Rightarrow> store (Some idx) c
      | None \<Rightarrow>
          let (r, c') = fs_touch_body name c
          in if r \<noteq> FS_OK then (r, c') else store (fs_find_child c' (cwd c') name) c')"

definition write_bin_spec :: "cstring \<Rightarrow> char list \<Rightarrow> ramfs \<Rightarrow> fs_result \<times> ramfs" where
  "write_bin_spec name data c =
     (if length data \<ge> FS_FILE_MAX then (FS_ERR_TOO_BIG, c)
      else write_spec name (\<lambda>i. fs_store i data) c)"

definition append_spec :: "cstring \<Rightarrow> cstring \<Rightarrow> ramfs \<Rightarrow> fs_result \<times> ramfs" where
  "append_spec name text = write_spec name (\<lambda>i. fs_append_at i text)"

lemma store_or_create_atomic:
  assumes l: "lk_ok l0" "lk_same l0 (fs_unlock l)" and s: "s = \<lparr>fsc = c, lk = l0\<rparr>"
  shows "atomic_effect (write_spec name store) s (store_or_create name store l c)"
proof (cases "fs_find_child c (cwd c) name")
  case None
  let ?s = "\<lparr>fsc = c, lk = fs_unlock l\<rparr>"
  obtain r s1 where t: "fs_touch name ?s = Some (r, s1)" "(r, fsc s1) = fs_touch_body name c"
    "lk_same (fs_unlock l) (lk s1)"
    using fs_touch_atomic [of ?s name] l by (auto simp: atomic_effect_def lk_same_ok)
  have same: "lk_same l0 (lk s1)" using lk_same_trans [OF l(2) t(3)] .
  have "lk_ok (lk s1)" using same l(1) by (simp add: lk_same_ok)
  then obtain l' where l': "fs_lock (lk s1) = Some l'" "lk_same (lk s1) (fs_unlock l')"
    by (rule fs_lock_unlock)
  have "lk_same l0 (fs_unlock l')" using lk_same_trans [OF same l'(2)] .
  then show ?thesis
    using None t l' s
    by (cases s1) (auto simp: store_or_create_def write_spec_def atomic_effect_def
        split: prod.splits if_splits dest: sym)
next
  case (Some idx)
  then show ?thesis
    using l s by (auto simp: store_or_create_def write_spec_def atomic_effect_def split: prod.splits)
qed

lemma fs_write_bin_atomic:
  assumes "lk_ok (lk s)"
  shows "atomic_effect (write_bin_spec name data) s (fs_write_bin name data s)"
proof -
  obtain l where l: "fs_lock (lk s) = Some l" "lk_same (lk s) (fs_unlock l)"
    using assms by (rule fs_lock_unlock)
  have "atomic_effect (write_spec name (\<lambda>i. fs_store i data)) s
      (store_or_create name (\<lambda>i. fs_store i data) l (fsc s))"
    using store_or_create_atomic [OF assms l(2), of s "fsc s"] by simp
  with l show ?thesis
    by (cases s) (auto simp: fs_write_bin_def write_bin_spec_def atomic_effect_def)
qed

lemma fs_append_atomic:
  assumes "lk_ok (lk s)"
  shows "atomic_effect (append_spec name text) s (fs_append name text s)"
proof -
  obtain l where l: "fs_lock (lk s) = Some l" "lk_same (lk s) (fs_unlock l)"
    using assms by (rule fs_lock_unlock)
  show ?thesis
    using store_or_create_atomic [OF assms l(2), of s "fsc s"] l(1)
    by (simp add: fs_append_def append_spec_def)
qed

lemma write_spec_inv:
  assumes inv: "fs_inv c"
    and store: "\<And>c i. fs_inv c \<Longrightarrow> (\<And>k. i = Some k \<Longrightarrow> live c k) \<Longrightarrow> fs_inv (snd (store i c))"
  shows "fs_inv (snd (write_spec name store c))"
proof (cases "fs_find_child c (cwd c) name")
  case None
  obtain r c' where t: "fs_touch_body name c = (r, c')" by (cases "fs_touch_body name c")
  then have "fs_inv c'" using fs_touch_body_inv [OF inv, of name] by simp
  then have "fs_inv (snd (store (fs_find_child c' (cwd c') name) c'))"
    by (rule store) (use \<open>fs_inv c'\<close> find_child_not_root in auto)
  with None t \<open>fs_inv c'\<close> show ?thesis by (simp add: write_spec_def)
next
  case (Some i)
  have "fs_inv (snd (store (Some i) c))"
    by (rule store) (use inv find_child_not_root [OF inv Some] in auto)
  with Some show ?thesis by (simp add: write_spec_def)
qed

lemma write_bin_spec_inv: "fs_inv c \<Longrightarrow> fs_inv (snd (write_bin_spec name data c))"
  by (auto simp: write_bin_spec_def not_le intro!: write_spec_inv fs_store_inv)

lemma append_spec_inv: "fs_inv c \<Longrightarrow> fs_inv (snd (append_spec name text c))"
  by (auto simp: append_spec_def intro!: write_spec_inv fs_append_at_inv)

section \<open>Every operation keeps the file system and the lock consistent\<close>

lemmas fs_atomic_ok = atomic_effect_ok [OF fs_mkdir_atomic] atomic_effect_ok [OF fs_touch_atomic]
  atomic_effect_ok [OF fs_cd_atomic] atomic_effect_ok [OF fs_cp_atomic]
  atomic_effect_ok [OF fs_mv_atomic] atomic_effect_ok [OF fs_write_bin_atomic]
  atomic_effect_ok [OF fs_append_atomic]

datatype fs_op =
    Mkdir cstring | Touch cstring | Cd cstring | Rm cstring | Rm_rf cstring
  | Cp cstring cstring | Mv cstring cstring
  | Write_bin cstring "char list" | Append cstring cstring

fun run_op :: "fs_op \<Rightarrow> kfs \<Rightarrow> (fs_result \<times> kfs) option" where
  "run_op (Mkdir n) = fs_mkdir n"
| "run_op (Touch n) = fs_touch n"
| "run_op (Cd n) = fs_cd n"
| "run_op (Rm n) = fs_rm n"
| "run_op (Rm_rf n) = fs_rm_rf n"
| "run_op (Cp a b) = fs_cp a b"
| "run_op (Mv a b) = fs_mv a b"
| "run_op (Write_bin n d) = fs_write_bin n d"
| "run_op (Append n t) = fs_append n t"

fun run_ops :: "fs_op list \<Rightarrow> kfs \<Rightarrow> kfs option" where
  "run_ops [] s = Some s"
| "run_ops (x # xs) s = do { (r, s') \<leftarrow> run_op x s; run_ops xs s' }"

lemma run_op_ok:
  assumes ok: "kfs_ok s"
  shows "\<exists>r s'. run_op x s = Some (r, s') \<and> kfs_ok s' \<and> lk_same (lk s) (lk s')"
proof -
  have l: "lk_ok (lk s)" and inv: "fs_inv (fsc s)" using ok by (auto simp: kfs_ok_def)
  show ?thesis
    using fs_atomic_ok [OF l ok] fs_rm_body_inv [OF inv] fs_rm_rf_body_inv [OF inv]
    by (cases x) (simp_all add: fs_rm_def fs_rm_rf_def critical_body_ok [OF ok] kernel_inv
        write_bin_spec_inv append_spec_inv)
qed

lemma run_ops_ok:
  "kfs_ok s \<Longrightarrow> \<exists>s'. run_ops xs s = Some s' \<and> kfs_ok s' \<and> lk_same (lk s) (lk s')"
proof (induction xs arbitrary: s)
  case (Cons x xs)
  obtain r s1 where s1: "run_op x s = Some (r, s1)" "kfs_ok s1" "lk_same (lk s) (lk s1)"
    using run_op_ok [OF Cons.prems] by blast
  then show ?case using Cons.IH [OF s1(2)] lk_same_trans [OF s1(3)] by auto
qed simp

section \<open>What is written is what is read\<close>

text \<open>The bytes that the pointer and length handed out by \<open>fs_read\<close> designate.\<close>

definition fs_bytes :: "cstring \<Rightarrow> ramfs \<Rightarrow> char list option" where
  "fs_bytes name c =
     (case snd (fs_read name c) of
        None \<Rightarrow> None
      | Some (idx, len) \<Rightarrow> Some (node_bytes (nodes c ! idx) len))"

lemma fs_bytes_eq:
  "fs_bytes name c =
     (case fs_find_child c (cwd c) name of
        None \<Rightarrow> None
      | Some i \<Rightarrow> if node_type (nodes c ! i) = FS_TYPE_FILE
                  then Some (node_bytes (nodes c ! i) (content_len (nodes c ! i))) else None)"
  by (simp add: fs_bytes_def fs_read_def split: option.split)

lemma node_bytes_blit:
  "content nd = blit NUL old 0 (data @ [NUL]) \<Longrightarrow> node_bytes nd (length data) = data"
  by (auto simp: node_bytes_def nth_default_blit nth_append intro!: nth_equalityI)

lemma find_child_modify:
  assumes "i < length (nodes c)" "length (nodes c) = FS_MAX_NODES"
    "node_type nd = node_type (nodes c ! i)" "parent nd = parent (nodes c ! i)"
    "node_name nd = node_name (nodes c ! i)"
  shows "fs_find_child (set_node i nd c) d n = fs_find_child c d n"
  unfolding fs_find_child_def by (rule scan_cong) (use assms in \<open>auto simp: nth_list_update\<close>)

lemma fs_store_bytes:
  assumes inv: "fs_inv c" and i: "fs_find_child c (cwd c) k = Some i"
    and st: "fs_store (Some i) v c = (FS_OK, c')"
  shows "fs_bytes k' c' = (if k' = k then Some v else fs_bytes k' c)"
proof -
  let ?nd = "(nodes c ! i)\<lparr>content := blit NUL (content (nodes c ! i)) 0 (v @ [NUL]),
    content_len := length v\<rparr>"
  have t: "node_type (nodes c ! i) = FS_TYPE_FILE" and c': "c' = set_node i ?nd c"
    using st by (auto simp: fs_store_def upd_node_set split: if_splits)
  have lt: "i < length (nodes c)"
    using find_child_not_root [OF inv i] fs_inv_len [OF inv] live_lt by auto
  have find: "fs_find_child c' (cwd c') n = fs_find_child c (cwd c) n" for n
    unfolding c' using find_child_modify [OF lt fs_inv_len [OF inv], of ?nd] by simp
  have same: "nodes c' ! j = nodes c ! j"
    if "k' \<noteq> k" "fs_find_child c (cwd c) k' = Some j" for j
    using that i find_child_Some [OF inv] by (cases "j = i") (auto simp: c')
  have new: "nodes c' ! i = ?nd" using lt by (simp add: c')
  show ?thesis
  proof (cases "k' = k")
    case True
    then show ?thesis
      using t i new node_bytes_blit [of ?nd "content (nodes c ! i)" v] by (simp add: fs_bytes_eq find)
  next
    case False
    then show ?thesis using same by (simp add: fs_bytes_eq find split: option.split)
  qed
qed

lemma touch_bytes:
  assumes inv: "fs_inv c" and t: "fs_touch_body k c = (FS_OK, c')"
  shows "\<exists>i. fs_find_child c' (cwd c') k = Some i \<and> cwd c' = cwd c
    \<and> (\<forall>k'. k' \<noteq> k \<longrightarrow> fs_bytes k' c' = fs_bytes k' c)"
proof -
  from t obtain i where fresh: "fs_is_valid_name k" "fs_find_child c (cwd c) k = None"
    "fs_alloc_node c = Some i"
    and c': "c' = upd_node i (\<lambda>nd. nd\<lparr>node_type := FS_TYPE_FILE,
            node_name := k_strcpy_truncate k FS_NAME_MAX, parent := Some (cwd c),
            content_len := 0, content := blit NUL (content nd) 0 [NUL]\<rparr>) c"
    by (auto simp: fs_touch_body_def split: if_splits option.splits)
  let ?nd = "(nodes c ! i)\<lparr>node_type := FS_TYPE_FILE, node_name := k, parent := Some (cwd c),
    content_len := 0, content := blit NUL (content (nodes c ! i)) 0 [NUL]\<rparr>"
  have i: "i < FS_MAX_NODES" "\<not> live c i" using alloc_Some [OF fresh(3)] by auto
  have "node_ok ?nd" using fs_inv_node [OF inv i(1)] by (simp add: node_ok_def FS_FILE_MAX_def)
  then have find: "fs_find_child c' (cwd c') n =
      (if n = k then Some i else fs_find_child c (cwd c) n)" for n
    using find_child_create [OF inv i, of ?nd] fresh
    by (simp add: c' upd_node_set valid_name_copied)
  have "nodes c' ! j = nodes c ! j" if "fs_find_child c (cwd c) n = Some j" for n j
    using find_child_not_root [OF inv that] i(2) c' by (cases "j = i") (auto simp: upd_node_set)
  then have "fs_bytes n c' = fs_bytes n c" if "n \<noteq> k" for n
    using that by (simp add: fs_bytes_eq find split: option.split)
  then show ?thesis using find c' by (auto simp: upd_node_set)
qed

lemma write_bin_spec_bytes:
  assumes inv: "fs_inv c" and w: "write_bin_spec k v c = (FS_OK, c')"
  shows "fs_bytes k' c' = (if k' = k then Some v else fs_bytes k' c)"
proof (cases "fs_find_child c (cwd c) k")
  case (Some i)
  with w have "fs_store (Some i) v c = (FS_OK, c')"
    by (auto simp: write_bin_spec_def write_spec_def split: if_splits)
  with inv Some show ?thesis by (rule fs_store_bytes)
next
  case None
  with w obtain c1 where t: "fs_touch_body k c = (FS_OK, c1)"
    and st: "fs_store (fs_find_child c1 (cwd c1) k) v c1 = (FS_OK, c')"
    by (auto simp: write_bin_spec_def write_spec_def split: if_splits prod.splits)
  have "fs_inv c1" using fs_touch_body_inv [OF inv, of k] t by simp
  obtain i where i: "fs_find_child c1 (cwd c1) k = Some i"
    and other: "\<forall>k'. k' \<noteq> k \<longrightarrow> fs_bytes k' c1 = fs_bytes k' c"
    using touch_bytes [OF inv t] by blast
  show ?thesis
    using fs_store_bytes [OF \<open>fs_inv c1\<close> i] st i other by auto
qed

text \<open>The files of the current directory are a named store.\<close>

definition file_put :: "cstring \<Rightarrow> char list \<Rightarrow> kfs \<Rightarrow> kfs option" where
  "file_put name data s =
     (case fs_write_bin name data s of Some (FS_OK, s') \<Rightarrow> Some s' | _ \<Rightarrow> None)"

definition file_get :: "cstring \<Rightarrow> kfs \<Rightarrow> char list option" where
  "file_get name s = fs_bytes name (fsc s)"

lemma file_put_SomeD:
  assumes "kfs_ok s" "file_put k v s = Some s'"
  shows "write_bin_spec k v (fsc s) = (FS_OK, fsc s') \<and> kfs_ok s'"
proof -
  have w: "fs_write_bin k v s = Some (FS_OK, s')"
    using assms(2) by (auto simp: file_put_def split: option.splits fs_result.splits)
  have l: "lk_ok (lk s)" using assms(1) by (simp add: kfs_ok_def)
  show ?thesis
    using atomic_effectD [of "write_bin_spec k v" s FS_OK s'] fs_write_bin_atomic [OF l, of k v] w
      run_op_ok [OF assms(1), of "Write_bin k v"] by auto
qed

interpretation rf: named_store kfs_ok file_put file_get
proof unfold_locales
  fix s s' :: kfs and k k' :: cstring and v :: "char list"
  assume ok: "kfs_ok s" and put: "file_put k v s = Some s'"
  show "kfs_ok s'" using file_put_SomeD [OF ok put] by blast
  show "file_get k' s' = (if k' = k then Some v else file_get k' s)"
    using file_put_SomeD [OF ok put] ok write_bin_spec_bytes [of "fsc s" k v "fsc s'"]
    by (simp add: file_get_def kfs_ok_def)
qed

end
