(* ===== verification/Ramfs_Path.thy ===== *)
theory Ramfs_Path
  imports Ramfs_Ops
begin

text \<open>
  Paths in the RAM file system (\<open>fs_read_path\<close>, \<open>fs_mkdir_p\<close>, \<open>fs_pwd\<close>), directory
  listings and the boot-time initialisation of \<open>src/src/fs.c\<close>. The reference is
  \<open>lookup_path\<close>, which follows a list of names from a directory: reading a path,
  creating a path and printing the current directory all agree with it.
\<close>

section \<open>Definitions\<close>

definition set_cwd :: "nat \<Rightarrow> kfs \<Rightarrow> kfs" where
  "set_cwd d s = s\<lparr>fsc := (fsc s)\<lparr>cwd := d\<rparr>\<rparr>"

text \<open>The component loop both path walks share: the characters up to the next slash, and
  the rest of the path behind one slash.\<close>

definition next_component :: "cstring \<Rightarrow> cstring \<times> cstring" where
  "next_component p =
     (let component = takeWhile (\<lambda>ch. ch \<noteq> CHR ''/'') p; rest = drop (length component) p
      in (component, case rest of [] \<Rightarrow> [] | _ # q \<Rightarrow> q))"

lemma next_component_length: "p \<noteq> [] \<Longrightarrow> length (snd (next_component p)) < length p"
proof -
  assume p: "p \<noteq> []"
  let ?n = "length (takeWhile (\<lambda>ch. ch \<noteq> CHR ''/'') p)"
  show ?thesis
  proof (cases "drop ?n p")
    case Nil
    with p show ?thesis by (simp add: next_component_def Let_def)
  next
    case (Cons x q)
    then have "Suc (length q) = length p - ?n" by (metis length_Cons length_drop)
    with Cons show ?thesis by (simp add: next_component_def Let_def)
  qed
qed

lemma next_component_shorter:
  "(component, rest) = next_component p \<Longrightarrow> p \<noteq> [] \<Longrightarrow> length rest < length p"
  using next_component_length [of p] by (metis snd_conv)

function read_path_loop :: "ramfs \<Rightarrow> nat \<Rightarrow> cstring \<Rightarrow> fs_result \<times> (nat \<times> nat) option" where
  "read_path_loop c d p =
     (if p = [] then (FS_ERR_NOT_FOUND, None)
      else let (component, rest) = next_component p in
        if length component \<ge> FS_NAME_MAX then (FS_ERR_INVALID_NAME, None)
        else if component = [] \<or> k_streq component ''.'' then read_path_loop c d rest
        else if k_streq component ''..''
        then read_path_loop c (case parent (nodes c ! d) of None \<Rightarrow> d | Some q \<Rightarrow> q) rest
        else case fs_find_child c d component of
          None \<Rightarrow> (FS_ERR_NOT_FOUND, None)
        | Some idx \<Rightarrow>
            if rest = []
            then (if node_type (nodes c ! idx) \<noteq> FS_TYPE_FILE then (FS_ERR_IS_A_DIRECTORY, None)
                  else (FS_OK, Some (idx, content_len (nodes c ! idx))))
            else if node_type (nodes c ! idx) \<noteq> FS_TYPE_DIR then (FS_ERR_NOT_A_DIRECTORY, None)
            else read_path_loop c idx rest)"
  by pat_completeness auto
termination
  by (relation "measure (\<lambda>(c, d, p). length p)") (auto dest: next_component_shorter)

declare read_path_loop.simps [simp del]

definition fs_read_path :: "cstring \<Rightarrow> ramfs \<Rightarrow> fs_result \<times> (nat \<times> nat) option" where
  "fs_read_path path c =
     (case path of
        [] \<Rightarrow> (FS_ERR_NOT_FOUND, None)
      | ch # rest \<Rightarrow>
          if ch = CHR ''/'' then read_path_loop c FS_ROOT_INDEX rest
          else read_path_loop c (cwd c) path)"

text \<open>
  \<open>fs_mkdir_p\<close> has no length check before \<open>component[n] = 0\<close>: a component of 48 characters
  or more writes outside the 48-byte buffer, which is the undefined result \<open>None\<close>. So is
  the use of the index \<open>-1\<close> if the created directory were not found.
\<close>

definition mkdir_p_step :: "cstring \<Rightarrow> kfs \<Rightarrow> (fs_result \<times> nat \<times> kfs) option" where
  "mkdir_p_step component s =
     (case fs_find_child (fsc s) (cwd (fsc s)) component of
        Some i \<Rightarrow> Some (FS_OK, i, s)
      | None \<Rightarrow> do {
          (r, s) \<leftarrow> fs_mkdir component s;
          if r \<noteq> FS_OK then Some (r, 0, s)
          else do {
            i \<leftarrow> fs_find_child (fsc s) (cwd (fsc s)) component;
            Some (FS_OK, i, s)
          }
        })"

function mkdir_p_loop :: "nat \<Rightarrow> cstring \<Rightarrow> kfs \<Rightarrow> (fs_result \<times> kfs) option" where
  "mkdir_p_loop saved p s =
     (if p = [] then Some (FS_OK, set_cwd saved s)
      else let (component, rest) = next_component p in
        if length component \<ge> FS_NAME_MAX then None
        else if component = [] then mkdir_p_loop saved rest s
        else case mkdir_p_step component s of
          None \<Rightarrow> None
        | Some (r, idx, s') \<Rightarrow>
            if r \<noteq> FS_OK then Some (r, set_cwd saved s')
            else if node_type (nodes (fsc s') ! idx) \<noteq> FS_TYPE_DIR
            then Some (FS_ERR_NOT_A_DIRECTORY, set_cwd saved s')
            else mkdir_p_loop saved rest (set_cwd idx s'))"
  by pat_completeness auto
termination
  by (relation "measure (\<lambda>(saved, p, s). length p)") (auto dest: next_component_shorter)

declare mkdir_p_loop.simps [simp del]

definition fs_mkdir_p :: "cstring \<Rightarrow> kfs \<Rightarrow> (fs_result \<times> kfs) option" where
  "fs_mkdir_p path s =
     (case path of
        [] \<Rightarrow> Some (FS_ERR_INVALID_NAME, s)
      | ch # rest \<Rightarrow>
          if ch \<noteq> CHR ''/'' then Some (FS_ERR_INVALID_NAME, s)
          else mkdir_p_loop (cwd (fsc s)) rest (set_cwd FS_ROOT_INDEX s))"

fun pwd_chain :: "fs_node list \<Rightarrow> nat option \<Rightarrow> nat \<Rightarrow> nat list" where
  "pwd_chain ns None n = []"
| "pwd_chain ns (Some cur) 0 = []"
| "pwd_chain ns (Some cur) (Suc n) = cur # pwd_chain ns (parent (ns ! cur)) n"

definition fs_pwd :: "nat \<Rightarrow> ramfs \<Rightarrow> cstring" where
  "fs_pwd buffer_size c =
     (let path = pwd_chain (nodes c) (Some (cwd c)) FS_MAX_DEPTH in
      if length path = 1 then k_strcpy_truncate ''/'' buffer_size
      else take (buffer_size - 1)
             (concat (map (\<lambda>i. CHR ''/'' # node_name (nodes c ! i)) (rev (butlast path)))))"

definition cwd_entries :: "ramfs \<Rightarrow> nat list" where
  "cwd_entries c = filter (\<lambda>i. node_type (nodes c ! i) \<noteq> FS_TYPE_FREE
     \<and> parent (nodes c ! i) = Some (cwd c)) [0..<FS_MAX_NODES]"

definition fs_cwd_entry :: "nat \<Rightarrow> nat \<Rightarrow> ramfs \<Rightarrow> (cstring \<times> bool) option" where
  "fs_cwd_entry index name_sz c =
     (if index < length (cwd_entries c)
      then let nd = nodes c ! (cwd_entries c ! index)
           in Some (k_strcpy_truncate (node_name nd) name_sz, node_type nd = FS_TYPE_DIR)
      else None)"

definition ls_line :: "fs_node \<Rightarrow> string" where
  "ls_line nd =
     (if node_type nd = FS_TYPE_DIR then ''  [DIR]  '' @ node_name nd @ ''/'' @ [CHR 0x0A]
      else ''  [FILE] '' @ node_name nd @ ''  ('' @ uint_text (of_nat (content_len nd))
           @ '' bytes)'' @ [CHR 0x0A])"

definition fs_ls :: "ramfs \<Rightarrow> terminal \<Rightarrow> terminal" where
  "fs_ls c t =
     (if cwd_entries c = [] then terminal_writestring (''  (empty)'' @ [CHR 0x0A]) t
      else fold (\<lambda>i. terminal_writestring (ls_line (nodes c ! i))) (cwd_entries c) t)"

fun fs_strerror :: "fs_result \<Rightarrow> cstring" where
  "fs_strerror FS_OK = ''OK''"
| "fs_strerror FS_ERR_NOT_FOUND = ''No such file or directory''"
| "fs_strerror FS_ERR_ALREADY_EXISTS = ''Already exists''"
| "fs_strerror FS_ERR_NOT_A_DIRECTORY = ''Not a directory''"
| "fs_strerror FS_ERR_IS_A_DIRECTORY = ''Is a directory, not a file''"
| "fs_strerror FS_ERR_NO_SPACE = ''No space left''"
| "fs_strerror FS_ERR_DIR_NOT_EMPTY = ''Directory not empty''"
| "fs_strerror FS_ERR_INVALID_NAME = ''Invalid name''"
| "fs_strerror FS_ERR_TOO_BIG = ''File too big''"

definition fs_init :: "kfs \<Rightarrow> kfs option" where
  "fs_init s = do {
     let ns = map (\<lambda>nd. nd\<lparr>node_type := FS_TYPE_FREE\<rparr>) (nodes (fsc s));
     let ns = ns[FS_ROOT_INDEX := (ns ! FS_ROOT_INDEX)\<lparr>node_type := FS_TYPE_DIR,
                   node_name := k_strcpy_truncate ''/'' FS_NAME_MAX, parent := None\<rparr>];
     let s = \<lparr>fsc = \<lparr>nodes = ns, cwd = FS_ROOT_INDEX\<rparr>, lk = fs_lk_init (lk s)\<rparr>;
     (_, s) \<leftarrow> fs_mkdir ''lib'' s;
     (_, s) \<leftarrow> fs_mkdir ''bin'' s;
     (_, s) \<leftarrow> fs_mkdir ''usr'' s;
     (_, s) \<leftarrow> fs_cd ''usr'' s;
     (_, s) \<leftarrow> fs_mkdir ''lib'' s;
     (_, s) \<leftarrow> fs_cd ''/'' s;
     Some s
   }"

section \<open>The reference: following names\<close>

fun lookup_path :: "ramfs \<Rightarrow> nat \<Rightarrow> cstring list \<Rightarrow> nat option" where
  "lookup_path c d [] = Some d"
| "lookup_path c d (n # ns) =
     (case fs_find_child c d n of None \<Rightarrow> None | Some i \<Rightarrow> lookup_path c i ns)"

lemma lookup_path_append:
  "lookup_path c d (xs @ ys) =
     (case lookup_path c d xs of None \<Rightarrow> None | Some i \<Rightarrow> lookup_path c i ys)"
  by (induction c d xs rule: lookup_path.induct) (auto split: option.splits)

definition plain_name :: "cstring \<Rightarrow> bool" where
  "plain_name n \<longleftrightarrow> fs_is_valid_name n \<and> CHR ''/'' \<notin> set n"

definition join_path :: "cstring list \<Rightarrow> cstring" where
  "join_path ns = concat (map (\<lambda>n. CHR ''/'' # n) ns)"

lemma join_path_simps [simp]:
  "join_path [] = []" "join_path (n # ns) = CHR ''/'' # n @ join_path ns"
  by (simp_all add: join_path_def)

lemma join_path_snoc: "join_path (ns @ [n]) = join_path ns @ CHR ''/'' # n"
  by (simp add: join_path_def)

lemma takeWhile_no_slash:
  assumes "CHR ''/'' \<notin> set n"
  shows "takeWhile (\<lambda>ch. ch \<noteq> CHR ''/'') (n @ join_path ns) = n"
proof -
  have "takeWhile (\<lambda>ch. ch \<noteq> CHR ''/'') (join_path ns) = []" by (cases ns) auto
  moreover have "\<And>x. x \<in> set n \<Longrightarrow> x \<noteq> CHR ''/''" using assms by blast
  ultimately show ?thesis by (simp add: takeWhile_append2)
qed

lemma next_component_join:
  assumes "CHR ''/'' \<notin> set n"
  shows "next_component (n @ join_path ns) = (n, case ns of [] \<Rightarrow> [] | m # ms \<Rightarrow> m @ join_path ms)"
  unfolding next_component_def Let_def takeWhile_no_slash [OF assms]
  by (cases ns) simp_all

lemma plain_nameD:
  "plain_name n \<Longrightarrow> n \<noteq> [] \<and> n \<noteq> ''.'' \<and> n \<noteq> ''..'' \<and> length n < FS_NAME_MAX \<and> CHR ''/'' \<notin> set n"
  by (simp add: plain_name_def valid_name_iff)

text \<open>Only directories have children.\<close>

lemma lookup_from_file:
  assumes "fs_inv c" "node_type (nodes c ! d) \<noteq> FS_TYPE_DIR" "ns \<noteq> []"
  shows "lookup_path c d ns = None"
proof (cases ns)
  case (Cons n ms)
  have "fs_find_child c d n = None"
    using assms(1,2) live_parent_dir [OF assms(1)] by (fastforce simp: find_child_None dir_def)
  with Cons show ?thesis by simp
qed (use assms in simp)

lemma read_path_loop_lookup:
  assumes inv: "fs_inv c"
  shows "\<forall>m \<in> set (n # ns). plain_name m \<Longrightarrow>
    read_path_loop c d (n @ join_path ns) = (FS_OK, Some (i, len)) \<longleftrightarrow>
    lookup_path c d (n # ns) = Some i \<and> node_type (nodes c ! i) = FS_TYPE_FILE
      \<and> len = content_len (nodes c ! i)"
proof (induction ns arbitrary: n d)
  case Nil
  then have n: "plain_name n" by simp
  show ?case
    using plain_nameD [OF n] next_component_join [of n "[]"]
    by (subst read_path_loop.simps) (auto split: option.splits)
next
  case (Cons m ms)
  then have n: "plain_name n" and m: "m \<noteq> []" by (auto dest: plain_nameD)
  show ?case
  proof (cases "fs_find_child c d n")
    case None
    then show ?thesis
      using plain_nameD [OF n] next_component_join [of n "m # ms"] m
      by (subst read_path_loop.simps) simp
  next
    case (Some k)
    have step: "read_path_loop c d (n @ join_path (m # ms)) =
        (if node_type (nodes c ! k) \<noteq> FS_TYPE_DIR then (FS_ERR_NOT_A_DIRECTORY, None)
         else read_path_loop c k (m @ join_path ms))"
      using plain_nameD [OF n] next_component_join [of n "m # ms"] m Some
      by (subst read_path_loop.simps) simp
    show ?thesis
      using step Cons.IH [of m k] Cons.prems Some lookup_from_file [OF inv, of k "m # ms"] by auto
  qed
qed

lemma fs_read_path_lookup:
  assumes "fs_inv c" "ns \<noteq> []" "\<forall>n \<in> set ns. plain_name n"
  shows "fs_read_path (join_path ns) c = (FS_OK, Some (i, len)) \<longleftrightarrow>
    lookup_path c FS_ROOT_INDEX ns = Some i \<and> node_type (nodes c ! i) = FS_TYPE_FILE
      \<and> len = content_len (nodes c ! i)"
proof (cases ns)
  case (Cons n ms)
  with read_path_loop_lookup [OF assms(1), of n ms FS_ROOT_INDEX i len] assms show ?thesis
    by (simp add: fs_read_path_def)
qed (use assms in simp)

section \<open>Creating a path\<close>

text \<open>\<open>fs_ext c c'\<close>: every entry and every directory of \<open>c\<close> is still there in \<open>c'\<close>.\<close>

definition fs_ext :: "ramfs \<Rightarrow> ramfs \<Rightarrow> bool" where
  "fs_ext c c' \<longleftrightarrow> (\<forall>d n i. fs_find_child c d n = Some i \<longrightarrow> fs_find_child c' d n = Some i)
     \<and> (\<forall>i. dir c i \<longrightarrow> dir c' i)"

lemma fs_ext_refl [simp]: "fs_ext c c"
  by (simp add: fs_ext_def)

lemma fs_ext_trans [trans]: "fs_ext a b \<Longrightarrow> fs_ext b c \<Longrightarrow> fs_ext a c"
  by (simp add: fs_ext_def)

lemma find_child_cwd [simp]: "fs_find_child (c\<lparr>cwd := x\<rparr>) d n = fs_find_child c d n"
  by (simp add: fs_find_child_def)

lemma dir_cwd [simp]: "dir (c\<lparr>cwd := x\<rparr>) i = dir c i"
  by (simp add: dir_def)

lemma fs_ext_cwd [simp]:
  "fs_ext c (c'\<lparr>cwd := x\<rparr>) = fs_ext c c'" "fs_ext (c\<lparr>cwd := x\<rparr>) c' = fs_ext c c'"
  by (simp_all add: fs_ext_def)

lemma set_cwd_simps [simp]:
  "fsc (set_cwd d s) = (fsc s)\<lparr>cwd := d\<rparr>" "lk (set_cwd d s) = lk s"
  by (simp_all add: set_cwd_def)

lemma kfs_ok_set_cwd: "kfs_ok s \<Longrightarrow> dir (fsc s) d \<Longrightarrow> kfs_ok (set_cwd d s)"
  by (simp add: kfs_ok_def fs_inv_cwd_update)

lemma mkdir_body_ext:
  assumes inv: "fs_inv c" and m: "fs_mkdir_body n c = (r, c')"
  shows "fs_ext c c' \<and> cwd c' = cwd c
    \<and> (r = FS_OK \<longrightarrow> (\<exists>i. fs_find_child c' (cwd c) n = Some i \<and> dir c' i))"
proof (cases "r = FS_OK")
  case True
  with m obtain i where fresh: "fs_is_valid_name n" "fs_find_child c (cwd c) n = None"
    "fs_alloc_node c = Some i"
    and c': "c' = set_node i ((nodes c ! i)\<lparr>node_type := FS_TYPE_DIR,
       node_name := k_strcpy_truncate n FS_NAME_MAX, parent := Some (cwd c)\<rparr>) c"
    by (auto simp: fs_mkdir_body_def upd_node_set split: if_splits option.splits)
  let ?nd = "(nodes c ! i)\<lparr>node_type := FS_TYPE_DIR, node_name := n, parent := Some (cwd c)\<rparr>"
  have i: "i < FS_MAX_NODES" "\<not> live c i" using alloc_Some [OF fresh(3)] by auto
  have "node_ok ?nd" using fs_inv_node [OF inv i(1)] by (simp add: node_ok_def)
  then have find: "fs_find_child c' d m =
      (if d = cwd c \<and> m = n then Some i else fs_find_child c d m)" for d m
    using find_child_create [OF inv i, of ?nd] fresh by (simp add: c' valid_name_copied)
  have len: "length (nodes c) = FS_MAX_NODES" using inv by (rule fs_inv_len)
  have "dir c' i" using i(1) len by (simp add: c' dir_def)
  moreover have "dir c' k" if "dir c k" for k
    using that i(2) dir_live [OF that] by (cases "k = i") (simp_all add: c' dir_def)
  ultimately show ?thesis using find fresh(2) by (auto simp: fs_ext_def c')
next
  case False
  with m have "c' = c" by (auto simp: fs_mkdir_body_def split: if_splits option.splits)
  with False show ?thesis by simp
qed

lemma mkdir_p_step_ok:
  assumes ok: "kfs_ok s"
  shows "\<exists>r i s'. mkdir_p_step n s = Some (r, i, s') \<and> kfs_ok s' \<and> fs_ext (fsc s) (fsc s')
    \<and> cwd (fsc s') = cwd (fsc s) \<and> lk_same (lk s) (lk s')
    \<and> (r = FS_OK \<longrightarrow> fs_find_child (fsc s') (cwd (fsc s)) n = Some i)"
proof (cases "fs_find_child (fsc s) (cwd (fsc s)) n")
  case None
  have l: "lk_ok (lk s)" and inv: "fs_inv (fsc s)" using ok by (auto simp: kfs_ok_def)
  obtain r s' where s': "fs_mkdir n s = Some (r, s')" "kfs_ok s'" "lk_same (lk s) (lk s')"
    using run_op_ok [OF ok, of "Mkdir n"] by auto
  then have "fs_mkdir_body n (fsc s) = (r, fsc s')"
    using fs_mkdir_atomic [OF l, of n] by (auto simp: atomic_effect_def)
  from mkdir_body_ext [OF inv this] None s' show ?thesis
    by (auto simp: mkdir_p_step_def)
next
  case (Some i)
  with ok show ?thesis by (simp add: mkdir_p_step_def)
qed

lemma lookup_path_ext: "fs_ext c c' \<Longrightarrow> lookup_path c d ns = Some i \<Longrightarrow> lookup_path c' d ns = Some i"
  by (induction c d ns rule: lookup_path.induct) (auto simp: fs_ext_def split: option.splits)

lemma find_child_dir:
  "kfs_ok s \<Longrightarrow> fs_find_child (fsc s) d n = Some i \<Longrightarrow>
   node_type (nodes (fsc s) ! i) = FS_TYPE_DIR \<Longrightarrow> dir (fsc s) i"
  by (simp add: kfs_ok_def find_child_Some live_def dir_def)

lemma mkdir_p_loop_ok:
  "kfs_ok s \<Longrightarrow> dir (fsc s) saved \<Longrightarrow> \<forall>m \<in> set (n # ns). plain_name m \<Longrightarrow>
   \<exists>r s'. mkdir_p_loop saved (n @ join_path ns) s = Some (r, s') \<and> kfs_ok s'
     \<and> cwd (fsc s') = saved \<and> fs_ext (fsc s) (fsc s') \<and> lk_same (lk s) (lk s')
     \<and> (r = FS_OK \<longrightarrow> (\<exists>i. lookup_path (fsc s') (cwd (fsc s)) (n # ns) = Some i \<and> dir (fsc s') i))"
proof (induction ns arbitrary: n s)
  case Nil
  then have n: "plain_name n" by simp
  obtain r i s1 where s1: "mkdir_p_step n s = Some (r, i, s1)" "kfs_ok s1"
    "fs_ext (fsc s) (fsc s1)" "cwd (fsc s1) = cwd (fsc s)" "lk_same (lk s) (lk s1)"
    "r = FS_OK \<longrightarrow> fs_find_child (fsc s1) (cwd (fsc s)) n = Some i"
    using mkdir_p_step_ok [OF Nil.prems(1), of n] by blast
  have saved: "dir (fsc s1) saved" using s1(3) Nil.prems(2) by (simp add: fs_ext_def)
  have "r = FS_OK \<Longrightarrow> node_type (nodes (fsc s1) ! i) = FS_TYPE_DIR \<Longrightarrow> dir (fsc s1) i"
    using find_child_dir [OF s1(2)] s1(6) by blast
  then show ?case
    using s1 saved plain_nameD [OF n] next_component_join [of n "[]"] kfs_ok_set_cwd [OF s1(2) saved]
    by (subst mkdir_p_loop.simps) (auto simp: mkdir_p_loop.simps [of _ "[]"] not_le kfs_ok_def)
next
  case (Cons m ms)
  then have n: "plain_name n" by simp
  obtain r i s1 where s1: "mkdir_p_step n s = Some (r, i, s1)" "kfs_ok s1"
    "fs_ext (fsc s) (fsc s1)" "cwd (fsc s1) = cwd (fsc s)" "lk_same (lk s) (lk s1)"
    "r = FS_OK \<longrightarrow> fs_find_child (fsc s1) (cwd (fsc s)) n = Some i"
    using mkdir_p_step_ok [OF Cons.prems(1), of n] by blast
  have saved: "dir (fsc s1) saved" using s1(3) Cons.prems(2) by (simp add: fs_ext_def)
  have step: "mkdir_p_loop saved (n @ join_path (m # ms)) s =
     (if r \<noteq> FS_OK then Some (r, set_cwd saved s1)
      else if node_type (nodes (fsc s1) ! i) \<noteq> FS_TYPE_DIR
      then Some (FS_ERR_NOT_A_DIRECTORY, set_cwd saved s1)
      else mkdir_p_loop saved (m @ join_path ms) (set_cwd i s1))"
    using plain_nameD [OF n] next_component_join [of n "m # ms"] s1(1)
    by (subst mkdir_p_loop.simps) (simp add: not_le)
  show ?case
  proof (cases "r = FS_OK \<and> node_type (nodes (fsc s1) ! i) = FS_TYPE_DIR")
    case True
    then have i: "dir (fsc s1) i"
      using find_child_dir [OF s1(2)] s1(6) by blast
    obtain r' s' where s': "mkdir_p_loop saved (m @ join_path ms) (set_cwd i s1) = Some (r', s')"
      "kfs_ok s'" "cwd (fsc s') = saved" "fs_ext (fsc s1) (fsc s')" "lk_same (lk s1) (lk s')"
      "r' = FS_OK \<longrightarrow> (\<exists>j. lookup_path (fsc s') i (m # ms) = Some j \<and> dir (fsc s') j)"
      using Cons.IH [of "set_cwd i s1" m] kfs_ok_set_cwd [OF s1(2) i] saved Cons.prems(3) by auto
    have "fs_find_child (fsc s') (cwd (fsc s)) n = Some i"
      using s'(4) s1(6) True by (simp add: fs_ext_def)
    then show ?thesis
      using step True s' fs_ext_trans [OF s1(3) s'(4)] lk_same_trans [OF s1(5) s'(5)] by auto
  next
    case False
    then show ?thesis
      using step s1 kfs_ok_set_cwd [OF s1(2) saved] by auto
  qed
qed

lemma fs_mkdir_p_ok:
  assumes ok: "kfs_ok s" and ns: "ns \<noteq> []" "\<forall>n \<in> set ns. plain_name n"
  shows "\<exists>r s'. fs_mkdir_p (join_path ns) s = Some (r, s') \<and> kfs_ok s'
    \<and> cwd (fsc s') = cwd (fsc s) \<and> fs_ext (fsc s) (fsc s') \<and> lk_same (lk s) (lk s')
    \<and> (r = FS_OK \<longrightarrow> (\<exists>i. lookup_path (fsc s') FS_ROOT_INDEX ns = Some i \<and> dir (fsc s') i))"
proof -
  obtain n ms where n: "ns = n # ms" using ns(1) by (cases ns) auto
  have d: "dir (fsc s) FS_ROOT_INDEX" "dir (fsc s) (cwd (fsc s))"
    using ok by (auto simp: kfs_ok_def fs_inv_root fs_inv_cwd)
  show ?thesis
    using mkdir_p_loop_ok [OF kfs_ok_set_cwd [OF ok d(1)], of "cwd (fsc s)" n ms] d(2) ns(2) n
    by (simp add: fs_mkdir_p_def)
qed

section \<open>The printed current directory\<close>

lemma pwd_chain_lookup:
  assumes inv: "fs_inv c"
  shows "live c d \<Longrightarrow> k > 0 \<Longrightarrow> last (pwd_chain (nodes c) (Some d) k) = FS_ROOT_INDEX \<Longrightarrow>
    lookup_path c FS_ROOT_INDEX
      (map (\<lambda>i. node_name (nodes c ! i)) (rev (butlast (pwd_chain (nodes c) (Some d) k)))) = Some d"
proof (induction k arbitrary: d)
  case (Suc k)
  show ?case
  proof (cases "parent (nodes c ! d)")
    case None
    then have "d = FS_ROOT_INDEX" using fs_inv_parent [OF inv Suc.prems(1)] by auto
    with None show ?thesis by simp
  next
    case (Some p)
    have p: "live c p" using live_parent_dir [OF inv Suc.prems(1) Some] by (rule dir_live)
    have "d \<noteq> FS_ROOT_INDEX" using Some fs_inv_root_parent [OF inv] by auto
    then obtain k' where k: "k = Suc k'" using Suc.prems(3) Some by (cases k) auto
    then have ne: "pwd_chain (nodes c) (Some p) k \<noteq> []" by simp
    have "lookup_path c FS_ROOT_INDEX
      (map (\<lambda>i. node_name (nodes c ! i)) (rev (butlast (pwd_chain (nodes c) (Some p) k)))) = Some p"
      using Suc.IH [OF p] Suc.prems(3) Some ne k by simp
    moreover have "fs_find_child c p (node_name (nodes c ! d)) = Some d"
      using find_child_Some [OF inv] Suc.prems(1) Some by simp
    ultimately show ?thesis using Some ne by (simp add: lookup_path_append)
  qed
qed simp

definition pwd_names :: "ramfs \<Rightarrow> cstring list" where
  "pwd_names c = map (\<lambda>i. node_name (nodes c ! i))
     (rev (butlast (pwd_chain (nodes c) (Some (cwd c)) FS_MAX_DEPTH)))"

lemma pwd_chain_cwd: "pwd_chain (nodes c) (Some (cwd c)) FS_MAX_DEPTH =
  cwd c # pwd_chain (nodes c) (parent (nodes c ! cwd c)) 15"
  by (simp add: FS_MAX_DEPTH_def numeral_eq_Suc)

lemma fs_pwd_text:
  assumes "length (join_path (pwd_names c)) < sz" "1 < sz"
  shows "fs_pwd sz c = (if pwd_names c = [] then ''/'' else join_path (pwd_names c))"
proof -
  have "pwd_names c = [] \<longleftrightarrow> length (pwd_chain (nodes c) (Some (cwd c)) FS_MAX_DEPTH) = 1"
    unfolding pwd_names_def pwd_chain_cwd by auto
  with assms show ?thesis
    by (auto simp: fs_pwd_def Let_def k_strcpy_truncate_def pwd_names_def join_path_def comp_def)
qed

section \<open>Boot\<close>

text \<open>The node table before \<open>fs_init\<close>: any content, in the bounds of the static array.\<close>

definition table_ok :: "kfs \<Rightarrow> bool" where
  "table_ok s \<longleftrightarrow> length (nodes (fsc s)) = FS_MAX_NODES
     \<and> (\<forall>nd \<in> set (nodes (fsc s)). length (content nd) \<le> FS_FILE_MAX)"

definition zero_kfs :: kfs where
  "zero_kfs = \<lparr>fsc = \<lparr>nodes = replicate FS_MAX_NODES free_node, cwd = 0\<rparr>,
     lk = \<lparr>fs_spinlock = 0, fs_lock_depth = 0, fs_if_was_on = 0, eflags_if = False\<rparr>\<rparr>"

definition root_only :: "kfs \<Rightarrow> ramfs" where
  "root_only s =
     (let ns = map (\<lambda>nd. nd\<lparr>node_type := FS_TYPE_FREE\<rparr>) (nodes (fsc s))
      in \<lparr>nodes = ns[FS_ROOT_INDEX := (ns ! FS_ROOT_INDEX)\<lparr>node_type := FS_TYPE_DIR,
            node_name := k_strcpy_truncate ''/'' FS_NAME_MAX, parent := None\<rparr>],
          cwd = FS_ROOT_INDEX\<rparr>)"

lemma root_only_inv:
  assumes "table_ok s"
  shows "fs_inv (root_only s)"
proof -
  have len: "length (nodes (fsc s)) = FS_MAX_NODES"
    and cont: "\<And>i. i < FS_MAX_NODES \<Longrightarrow> length (content (nodes (fsc s) ! i)) \<le> FS_FILE_MAX"
    using assms by (auto simp: table_ok_def)
  have pos: "FS_ROOT_INDEX < FS_MAX_NODES" by (simp add: fs_consts)
  have live: "live (root_only s) i \<longleftrightarrow> i = FS_ROOT_INDEX" for i
    using len pos by (auto simp: live_def root_only_def Let_def nth_list_update)
  show ?thesis
    by (rule fs_invI)
      (use len pos live cont in \<open>auto simp: dir_def root_only_def Let_def nth_list_update node_ok_def
         intro: rooted.rooted_top\<close>)
qed

lemma fs_init_ok:
  assumes "table_ok s"
  shows "\<exists>s'. fs_init s = Some s' \<and> kfs_ok s' \<and> cwd (fsc s') = FS_ROOT_INDEX \<and> lk_free (lk s')"
proof -
  let ?s0 = "\<lparr>fsc = root_only s, lk = fs_lk_init (lk s)\<rparr>"
  have ok: "kfs_ok ?s0"
    using root_only_inv [OF assms] lk_ok_init [of "lk s"] by (simp add: kfs_ok_def lk_free_def)
  obtain s1 where s1: "run_ops [Mkdir ''lib'', Mkdir ''bin'', Mkdir ''usr'', Cd ''usr'', Mkdir ''lib''] ?s0
      = Some s1" "kfs_ok s1" "lk_same (fs_lk_init (lk s)) (lk s1)"
    using run_ops_ok [OF ok, of "[Mkdir ''lib'', Mkdir ''bin'', Mkdir ''usr'', Cd ''usr'', Mkdir ''lib'']"]
    by auto
  obtain r s2 where s2: "fs_cd ''/'' s1 = Some (r, s2)" "kfs_ok s2" "lk_same (lk s1) (lk s2)"
    using run_op_ok [OF s1(2), of "Cd ''/''"] by auto
  have "lk_ok (lk s1)" using s1(2) by (simp add: kfs_ok_def)
  then have "cwd (fsc s2) = FS_ROOT_INDEX"
    using fs_cd_atomic [of s1 "''/''"] s2(1) by (auto simp: atomic_effect_def fs_cd_body_def)
  moreover have "fs_init s = Some s2"
    using s1(1) s2(1) by (auto simp: fs_init_def root_only_def Let_def bind_eq_Some_conv)
  moreover have "lk_free (lk s2)"
    using lk_ok_init [of "lk s"] lk_same_free [OF lk_same_trans [OF s1(3) s2(3)]] by simp
  ultimately show ?thesis using s2(2) by blast
qed

end
