(* ===== verification/Syscall.thy ===== *)
theory Syscall
  imports Syscall_Numbers Umem Timer Ramfs_Path
begin

text \<open>
  The system calls of \<open>src/src/syscall.c\<close>: the descriptor table, the program break and the
  \<open>mmap\<close> arena, the calls on the RAM file system, time, names and the dispatcher
  \<open>syscall_handler\<close>. The state holds the components the calls use: the RAM file system,
  the terminal, the timer and the scheduler (with the kernel heap). A pointer argument is
  an address of the user memory, 0 the null pointer; the descriptor's \<open>data\<close> pointer is the
  node whose content it points into. A program's pointers are taken to lead to its own
  memory: the kernel's tables are not part of \<open>umem\<close>. A result is \<open>None\<close> when the call does
  not return, because a string argument has no end or a lock is never free.
\<close>

section \<open>State\<close>

definition USER_HEAP_BASE :: u32 where "USER_HEAP_BASE = 0x500000"
definition USER_HEAP_MAX :: u32 where "USER_HEAP_MAX = 0x600000"
definition MMAP_BASE :: u32 where "MMAP_BASE = 0x01000000"
definition MMAP_END :: u32 where "MMAP_END = 0x02000000"
definition PAGE_SIZE :: u32 where "PAGE_SIZE = 4096"
definition FD_MAX :: nat where "FD_MAX = 32"

datatype fd_type = FD_NONE | FD_CONSOLE | FD_RAMFILE

record fd_entry =
  ftype :: fd_type
  used :: bool
  data :: "nat option"
  len :: nat
  pos :: nat
  writable :: bool
  fname :: cstring

record sys =
  umem :: umem
  fds :: "fd_entry list"
  user_brk :: u32
  mmap_bump :: u32
  g_umask :: u32
  tls_base :: u32
  g_hostname :: cstring
  rng :: u32
  g_exit_code :: int
  g_have_jmp :: bool
  rfs :: kfs
  tty :: terminal
  tmr :: timer
  sch :: sched

definition tls_entry :: u32 where "tls_entry = 6"
definition g_boot_epoch :: u32 where "g_boot_epoch = 1700000000"

abbreviation poke :: "(umem \<Rightarrow> umem) \<Rightarrow> sys \<Rightarrow> sys" where
  "poke f s \<equiv> s\<lparr>umem := f (umem s)\<rparr>"

definition upd_fd :: "nat \<Rightarrow> (fd_entry \<Rightarrow> fd_entry) \<Rightarrow> sys \<Rightarrow> sys" where
  "upd_fd i f s = s\<lparr>fds := (fds s)[i := f (fds s ! i)]\<rparr>"

section \<open>Descriptors\<close>

definition user_heap_reset :: "sys \<Rightarrow> sys" where
  "user_heap_reset s = s\<lparr>user_brk := USER_HEAP_BASE, mmap_bump := MMAP_BASE\<rparr>"

definition fd_table_reset :: "sys \<Rightarrow> sys" where
  "fd_table_reset s =
     (let s = fold (\<lambda>i. upd_fd i (\<lambda>f. f\<lparr>used := False, ftype := FD_NONE, data := None, len := 0,
                                       pos := 0, writable := False, fname := []\<rparr>)) [0..<FD_MAX] s
      in fold (\<lambda>i. upd_fd i (\<lambda>f. f\<lparr>used := True, ftype := FD_CONSOLE, writable := (i \<noteq> 0)\<rparr>)) [0..<3] s)"

definition fd_alloc :: "sys \<Rightarrow> nat option" where
  "fd_alloc s = scan (\<lambda>i. \<not> used (fds s ! i)) 3 (FD_MAX - 3)"

definition name_copy :: "cstring \<Rightarrow> nat \<Rightarrow> cstring" where
  "name_copy str n = take (n - 1) str"

definition bad_fd :: "int \<Rightarrow> sys \<Rightarrow> bool" where
  "bad_fd fd s \<longleftrightarrow> fd < 0 \<or> fd \<ge> int FD_MAX \<or> \<not> used (fds s ! nat fd)"

definition sys_write :: "int \<Rightarrow> u32 \<Rightarrow> int \<Rightarrow> sys \<Rightarrow> int \<times> sys" where
  "sys_write fd buf count s =
     (if count < 0 then (- EINVAL, s)
      else if buf = 0 then (- EFAULT, s)
      else if bad_fd fd s then (- EBADF, s)
      else if ftype (fds s ! nat fd) = FD_CONSOLE
      then (count, s\<lparr>tty := fold (\<lambda>i. terminal_putchar (char_of_byte (umem s (buf + of_nat i))))
                              [0..<nat count] (tty s)\<rparr>)
      else (- EBADF, s))"

text \<open>The bytes behind a descriptor: the content of its node as it is now.\<close>

definition fd_byte :: "sys \<Rightarrow> fd_entry \<Rightarrow> nat \<Rightarrow> u8" where
  "fd_byte s f i = (case data f of None \<Rightarrow> 0
     | Some n \<Rightarrow> byte_of (nth_default NUL (content (nodes (fsc (rfs s)) ! n)) i))"

text \<open>\<open>len - pos\<close> is computed in \<open>size_t\<close>.\<close>

definition fd_left :: "fd_entry \<Rightarrow> nat" where
  "fd_left f = (len f + 2 ^ 32 - pos f) mod 2 ^ 32"

definition sys_read :: "int \<Rightarrow> u32 \<Rightarrow> int \<Rightarrow> sys \<Rightarrow> int \<times> sys" where
  "sys_read fd buf count s =
     (if count < 0 then (- EINVAL, s)
      else if buf = 0 then (- EFAULT, s)
      else if bad_fd fd s then (- EBADF, s)
      else let f = fds s ! nat fd in
        if ftype f = FD_CONSOLE then (0, s)
        else if ftype f = FD_RAMFILE
        then let n = (if nat count > fd_left f then fd_left f else nat count);
                 s = poke (store_bytes buf (map (\<lambda>i. fd_byte s f (pos f + i)) [0..<n])) s
             in (int n, upd_fd (nat fd) (\<lambda>f. f\<lparr>pos := pos f + n\<rparr>) s)
        else (- EBADF, s))"

text \<open>The part of \<open>sys_open\<close> behind the lookup.\<close>

definition open_node :: "cstring \<Rightarrow> u32 \<Rightarrow> nat \<Rightarrow> nat \<Rightarrow> sys \<Rightarrow> int \<times> sys" where
  "open_node path flgs node n s =
     (case fd_alloc s of
        None \<Rightarrow> (- EMFILE, s)
      | Some fd \<Rightarrow>
          (int fd, upd_fd fd (\<lambda>f. f\<lparr>used := True, ftype := FD_RAMFILE, data := Some node, len := n,
             pos := (if flgs AND O_APPEND \<noteq> 0 then n else 0),
             writable := (flgs AND (O_WRONLY OR O_RDWR) \<noteq> 0),
             fname := name_copy path 48\<rparr>) s))"

definition sys_open :: "u32 \<Rightarrow> u32 \<Rightarrow> sys \<Rightarrow> (int \<times> sys) option" where
  "sys_open pathp flgs s =
     (if pathp = 0 then Some (- ENOENT, s)
      else do {
        path \<leftarrow> cstr (umem s) pathp;
        if path = [] then Some (- ENOENT, s)
        else case fs_read path (fsc (rfs s)) of
          (FS_OK, Some (node, n)) \<Rightarrow> Some (open_node path flgs node n s)
        | _ \<Rightarrow>
            if flgs AND O_CREAT \<noteq> 0
            then do {
              (r, k) \<leftarrow> fs_touch path (rfs s);
              (r, k) \<leftarrow> (if r \<noteq> FS_OK then fs_write path [] k else Some (r, k));
              let s = s\<lparr>rfs := k\<rparr>;
              if r \<noteq> FS_OK then Some (- ENOENT, s)
              else case fs_read path (fsc k) of
                (FS_OK, Some (node, n)) \<Rightarrow> Some (open_node path flgs node n s)
              | _ \<Rightarrow> Some (- ENOENT, s)
            }
            else Some (- ENOENT, s)
      })"

definition sys_close :: "int \<Rightarrow> sys \<Rightarrow> int \<times> sys" where
  "sys_close fd s =
     (if fd < 3 \<or> fd \<ge> int FD_MAX \<or> \<not> used (fds s ! nat fd) then (- EBADF, s)
      else (0, upd_fd (nat fd) (\<lambda>f. f\<lparr>used := False, ftype := FD_NONE\<rparr>) s))"

definition seek_base :: "int \<Rightarrow> fd_entry \<Rightarrow> int option" where
  "seek_base whence f =
     (if whence = SEEK_SET then Some 0
      else if whence = SEEK_CUR then Some (int (pos f))
      else if whence = SEEK_END then Some (int (len f)) else None)"

definition sys_lseek :: "int \<Rightarrow> int \<Rightarrow> int \<Rightarrow> sys \<Rightarrow> int \<times> sys" where
  "sys_lseek fd offset whence s =
     (if bad_fd fd s then (- EBADF, s)
      else let f = fds s ! nat fd in
        if ftype f \<noteq> FD_RAMFILE then (- ESPIPE, s)
        else case seek_base whence f of
            None \<Rightarrow> (- EINVAL, s)
          | Some b \<Rightarrow>
              let neu = as_int (b + offset) in
              if neu < 0 then (- EINVAL, s)
              else let neu = (if nat neu > len f then int (len f) else neu)
                   in (neu, upd_fd (nat fd) (\<lambda>f. f\<lparr>pos := nat neu\<rparr>) s))"

definition sys_dup :: "int \<Rightarrow> sys \<Rightarrow> int \<times> sys" where
  "sys_dup fd s =
     (if bad_fd fd s then (- EBADF, s)
      else case fd_alloc s of
        None \<Rightarrow> (- EMFILE, s)
      | Some n \<Rightarrow> (int n, upd_fd n (\<lambda>_. (fds s ! nat fd)\<lparr>used := True\<rparr>) s))"

definition sys_dup2 :: "int \<Rightarrow> int \<Rightarrow> sys \<Rightarrow> int \<times> sys" where
  "sys_dup2 oldfd newfd s =
     (if bad_fd oldfd s then (- EBADF, s)
      else if newfd < 0 \<or> newfd \<ge> int FD_MAX then (- EBADF, s)
      else if oldfd = newfd then (newfd, s)
      else let s = (if used (fds s ! nat newfd) \<and> newfd \<ge> 3
                    then upd_fd (nat newfd) (\<lambda>f. f\<lparr>used := False\<rparr>) s else s)
           in (newfd, upd_fd (nat newfd) (\<lambda>_. (fds s ! nat oldfd)\<lparr>used := True\<rparr>) s))"

definition sys_brk :: "u32 \<Rightarrow> sys \<Rightarrow> u32 \<times> sys" where
  "sys_brk new_brk s =
     (if new_brk = 0 then (user_brk s, s)
      else if new_brk < USER_HEAP_BASE \<or> new_brk > USER_HEAP_MAX then (user_brk s, s)
      else (new_brk, s\<lparr>user_brk := new_brk\<rparr>))"

section \<open>Calls on the file system\<close>

text \<open>A call that hands one path to a file-system operation and translates its result.\<close>

definition path_call ::
    "u32 \<Rightarrow> (cstring \<Rightarrow> kfs \<Rightarrow> (fs_result \<times> kfs) option) \<Rightarrow> (fs_result \<Rightarrow> int) \<Rightarrow> sys
     \<Rightarrow> (int \<times> sys) option" where
  "path_call pathp f err s =
     (if pathp = 0 then Some (- EFAULT, s)
      else do {
        path \<leftarrow> cstr (umem s) pathp;
        (r, k) \<leftarrow> f path (rfs s);
        Some (err r, s\<lparr>rfs := k\<rparr>)
      })"

definition chdir_err :: "fs_result \<Rightarrow> int" where
  "chdir_err r = (if r = FS_OK then 0 else if r = FS_ERR_NOT_FOUND then - ENOENT
     else if r = FS_ERR_NOT_A_DIRECTORY then - ENOTDIR else - EINVAL)"

definition sys_chdir :: "u32 \<Rightarrow> sys \<Rightarrow> (int \<times> sys) option" where
  "sys_chdir path = path_call path fs_cd chdir_err"

definition mkdir_err :: "fs_result \<Rightarrow> int" where
  "mkdir_err r = (if r = FS_OK then 0 else if r = FS_ERR_ALREADY_EXISTS then - EEXIST
     else if r = FS_ERR_NO_SPACE then - ENOSPC else - EINVAL)"

definition sys_mkdir :: "u32 \<Rightarrow> int \<Rightarrow> sys \<Rightarrow> (int \<times> sys) option" where
  "sys_mkdir path mode = path_call path fs_mkdir mkdir_err"

definition unlink_err :: "fs_result \<Rightarrow> int" where
  "unlink_err r = (if r = FS_OK then 0 else if r = FS_ERR_NOT_FOUND then - ENOENT
     else if r = FS_ERR_DIR_NOT_EMPTY then - ENOTEMPTY else - EINVAL)"

definition sys_unlink :: "u32 \<Rightarrow> sys \<Rightarrow> (int \<times> sys) option" where
  "sys_unlink path = path_call path fs_rm unlink_err"

definition rename_err :: "fs_result \<Rightarrow> int" where
  "rename_err r = (if r = FS_OK then 0 else if r = FS_ERR_NOT_FOUND then - ENOENT else - EINVAL)"

definition sys_rename :: "u32 \<Rightarrow> u32 \<Rightarrow> sys \<Rightarrow> (int \<times> sys) option" where
  "sys_rename oldp newp s =
     (if oldp = 0 \<or> newp = 0 then Some (- EFAULT, s)
      else do {
        new \<leftarrow> cstr (umem s) newp;
        path_call oldp (\<lambda>old. fs_mv old new) rename_err s
      })"

definition sys_access :: "u32 \<Rightarrow> int \<Rightarrow> sys \<Rightarrow> (int \<times> sys) option" where
  "sys_access pathp mode s =
     (if pathp = 0 then Some (- EFAULT, s)
      else do {
        path \<leftarrow> cstr (umem s) pathp;
        Some (if fst (fs_read path (fsc (rfs s))) = FS_OK then 0 else - ENOENT, s)
      })"

definition sys_getcwd :: "u32 \<Rightarrow> nat \<Rightarrow> sys \<Rightarrow> int \<times> sys" where
  "sys_getcwd buf sz s =
     (if buf = 0 \<or> sz = 0 then (- EINVAL, s)
      else let tmp = fs_pwd 128 (fsc (rfs s));
               i = min (length tmp) (sz - 1);
               s = poke (store_bytes buf (map byte_of (take i tmp) @ [0])) s
           in if i < length tmp then (- ERANGE, s) else (int (i + 1), s))"

text \<open>\<open>struct kernel_stat\<close> is 72 bytes; the offsets are those of its i386 layout.\<close>

definition fill_stat_file :: "u32 \<Rightarrow> nat \<Rightarrow> umem \<Rightarrow> umem" where
  "fill_stat_file st sz m =
     (let m = store_bytes st (replicate 72 0) m;
          m = st16 (st + 12) 0x81A4 m;
          m = st16 (st + 14) 1 m;
          m = st32 (st + 28) (of_nat sz) m;
          m = st32 (st + 32) 512 m
      in st32 (st + 36) (of_nat ((sz + 511) div 512)) m)"

definition sys_stat :: "u32 \<Rightarrow> u32 \<Rightarrow> sys \<Rightarrow> (int \<times> sys) option" where
  "sys_stat pathp st s =
     (if pathp = 0 \<or> st = 0 then Some (- EFAULT, s)
      else do {
        path \<leftarrow> cstr (umem s) pathp;
        case fs_read path (fsc (rfs s)) of
          (FS_OK, Some (_, n)) \<Rightarrow> Some (0, poke (fill_stat_file st n) s)
        | _ \<Rightarrow> Some (- ENOENT, s)
      })"

definition sys_fstat :: "int \<Rightarrow> u32 \<Rightarrow> sys \<Rightarrow> int \<times> sys" where
  "sys_fstat fd st s =
     (if st = 0 then (- EFAULT, s)
      else if bad_fd fd s then (- EBADF, s)
      else if ftype (fds s ! nat fd) = FD_CONSOLE then (0, poke (fill_stat_file st 0) s)
      else if ftype (fds s ! nat fd) = FD_RAMFILE
      then (0, poke (fill_stat_file st (len (fds s ! nat fd))) s)
      else (- EBADF, s))"

section \<open>Time, names and numbers\<close>

definition now :: "sys \<Rightarrow> u32" where
  "now s = g_boot_epoch + timer_ticks (tmr s) div 100"

definition sys_time :: "u32 \<Rightarrow> sys \<Rightarrow> int \<times> sys" where
  "sys_time tloc s = (sint (now s), if tloc = 0 then s else poke (st32 tloc (now s)) s)"

definition cpy_str :: "cstring \<Rightarrow> nat \<Rightarrow> u8 list" where
  "cpy_str str n = (let t = map byte_of (take (n - 1) str) in t @ replicate (n - length t) 0)"

definition sys_uname :: "u32 \<Rightarrow> sys \<Rightarrow> int \<times> sys" where
  "sys_uname u s =
     (if u = 0 then (- EFAULT, s)
      else (0, poke (store_bytes u (cpy_str ''MyKernel'' 65 @ cpy_str (g_hostname s) 65
        @ cpy_str ''0.2.0'' 65 @ cpy_str ''hobby'' 65 @ cpy_str ''i686'' 65)) s))"

definition sys_gettimeofday :: "u32 \<Rightarrow> u32 \<Rightarrow> sys \<Rightarrow> int \<times> sys" where
  "sys_gettimeofday tv tz s =
     (if tv = 0 then (- EFAULT, s)
      else (0, poke (\<lambda>m. st32 (tv + 4) ((timer_ticks (tmr s) mod 100) * 10000) (st32 tv (now s) m)) s))"

definition sys_sysinfo :: "u32 \<Rightarrow> sys \<Rightarrow> (int \<times> sys) option" where
  "sys_sysinfo info s =
     (if info = 0 then Some (- EFAULT, s)
      else do {
        (used_b, tot, free_b) \<leftarrow> kmalloc_stats (heap (sch s));
        let m = st32 info (timer_ticks (tmr s) div 100) (umem s);
        let m = st32 (info + 4) 0 (st32 (info + 8) 0 (st32 (info + 12) 0 m));
        let m = st32 (info + 20) (of_nat free_b) (st32 (info + 16) (of_nat tot) m);
        let m = st32 (info + 36) 0 (st32 (info + 32) 0 (st32 (info + 28) 0 (st32 (info + 24) 0 m)));
        let m = st16 (info + 42) 0 (st16 (info + 40) 1 m);
        let m = st32 (info + 52) 1 (st32 (info + 48) 0 (st32 (info + 44) 0 m));
        Some (0, s\<lparr>umem := m\<rparr>)
      })"

text \<open>
  The loops of \<open>sys_writev\<close> and \<open>sys_readv\<close>: an \<open>iovec\<close> is a base address and a length; a
  short transfer ends the loop, a failed one is the result.
\<close>

fun iov_loop :: "(u32 \<Rightarrow> int \<Rightarrow> sys \<Rightarrow> int \<times> sys) \<Rightarrow> u32 \<Rightarrow> nat \<Rightarrow> int \<Rightarrow> sys \<Rightarrow> int \<times> sys" where
  "iov_loop call iov 0 tot s = (tot, s)"
| "iov_loop call iov (Suc n) tot s =
     (let base = ld32 (umem s) iov; ilen = ld32 (umem s) (iov + 4) in
      if base = 0 \<and> ilen \<noteq> 0 then (- EFAULT, s)
      else let (r, s) = call base (sint ilen) s in
        if r < 0 then (r, s)
        else if nat r < unat ilen then (as_int (tot + r), s)
        else iov_loop call (iov + 8) n (as_int (tot + r)) s)"

definition sys_writev :: "int \<Rightarrow> u32 \<Rightarrow> int \<Rightarrow> sys \<Rightarrow> int \<times> sys" where
  "sys_writev fd iov iovcnt s =
     (if iovcnt < 0 \<or> iovcnt > 64 then (- EINVAL, s)
      else if iov = 0 \<and> iovcnt \<noteq> 0 then (- EFAULT, s)
      else iov_loop (sys_write fd) iov (nat iovcnt) 0 s)"

definition sys_readv :: "int \<Rightarrow> u32 \<Rightarrow> int \<Rightarrow> sys \<Rightarrow> int \<times> sys" where
  "sys_readv fd iov iovcnt s =
     (if iovcnt < 0 \<or> iovcnt > 64 then (- EINVAL, s)
      else if iov = 0 \<and> iovcnt \<noteq> 0 then (- EFAULT, s)
      else iov_loop (sys_read fd) iov (nat iovcnt) 0 s)"

section \<open>Memory\<close>

definition align_up_page :: "u32 \<Rightarrow> u32" where
  "align_up_page n = (n + PAGE_SIZE - 1) AND NOT (PAGE_SIZE - 1)"

definition mem_zero :: "u32 \<Rightarrow> u32 \<Rightarrow> umem \<Rightarrow> umem" where
  "mem_zero base n m = (\<lambda>a. if a - base < n then 0 else m a)"

definition sys_mmap2 :: "u32 \<Rightarrow> u32 \<Rightarrow> u32 \<Rightarrow> u32 \<Rightarrow> int \<Rightarrow> u32 \<Rightarrow> sys \<Rightarrow> int \<times> sys" where
  "sys_mmap2 addr n prot flgs fd pgoff s =
     (if n = 0 then (- EINVAL, s)
      else let n = align_up_page n in
        if n > MMAP_END - MMAP_BASE then (- ENOMEM, s)
        else if flgs AND MAP_ANONYMOUS \<noteq> 0
        then if flgs AND MAP_FIXED \<noteq> 0 \<and> addr \<noteq> 0
             then if addr < MMAP_BASE \<or> addr + n > MMAP_END then (- EINVAL, s)
                  else (sint addr, poke (mem_zero addr n) s)
             else if mmap_bump s + n > MMAP_END then (- ENOMEM, s)
             else (sint (mmap_bump s),
                   poke (mem_zero (mmap_bump s) n) (s\<lparr>mmap_bump := mmap_bump s + n\<rparr>))
        else (- ENOSYS, s))"

definition sys_munmap :: "u32 \<Rightarrow> u32 \<Rightarrow> int" where
  "sys_munmap addr n = 0"

definition sys_mprotect :: "u32 \<Rightarrow> u32 \<Rightarrow> u32 \<Rightarrow> int" where
  "sys_mprotect addr n prot = 0"

definition sys_madvise :: "u32 \<Rightarrow> u32 \<Rightarrow> int \<Rightarrow> int" where
  "sys_madvise addr n advice = 0"

definition sys_set_thread_area :: "u32 \<Rightarrow> sys \<Rightarrow> int \<times> sys" where
  "sys_set_thread_area u s =
     (if u = 0 then (- EFAULT, s)
      else let s = (if ld32 (umem s) u = - 1 then poke (st32 u tls_entry) s else s)
           in (0, s\<lparr>tls_base := ld32 (umem s) (u + 4)\<rparr>))"

definition sys_get_thread_area :: "u32 \<Rightarrow> sys \<Rightarrow> int \<times> sys" where
  "sys_get_thread_area u s =
     (if u = 0 then (- EFAULT, s)
      else (0, poke (\<lambda>m. st32 (u + 8) 0xfffff (st32 u tls_entry (st32 (u + 4) (tls_base s) m))) s))"

definition sys_pipe :: "u32 \<Rightarrow> int" where
  "sys_pipe pipefd = (if pipefd = 0 then - EFAULT else - ENOSYS)"

definition sys_futex :: "u32 \<Rightarrow> int" where
  "sys_futex op = (let cmd = op AND 0x7f in if cmd = 0 then 0 else if cmd = 1 then 0 else - ENOSYS)"

definition sys_getrlimit :: "u32 \<Rightarrow> sys \<Rightarrow> int \<times> sys" where
  "sys_getrlimit rlim s =
     (if rlim = 0 then (- EFAULT, s)
      else (0, poke (\<lambda>m. st32 (rlim + 4) 0xffffffff (st32 rlim 0xffffffff m)) s))"

definition sys_prctl :: "int \<Rightarrow> int" where
  "sys_prctl option = (if option = 15 \<or> option = 4 then 0 else - ENOSYS)"

definition sys_clock_getres :: "u32 \<Rightarrow> sys \<Rightarrow> int \<times> sys" where
  "sys_clock_getres ts s =
     (if ts = 0 then (- EFAULT, s)
      else (0, poke (\<lambda>m. st32 (ts + 4) 10000000 (st32 ts 0 m)) s))"

definition sys_clock_gettime :: "u32 \<Rightarrow> sys \<Rightarrow> int \<times> sys" where
  "sys_clock_gettime ts s =
     (if ts = 0 then (- EFAULT, s)
      else (0, poke (\<lambda>m. st32 (ts + 4) ((timer_ticks (tmr s) mod 100) * 10000000) (st32 ts (now s) m)) s))"

definition sys_getdents64 :: "int \<Rightarrow> u32 \<Rightarrow> u32 \<Rightarrow> int" where
  "sys_getdents64 fd dirp count = - ENOSYS"

definition rng_step :: "u32 \<Rightarrow> u32 \<Rightarrow> u32 \<Rightarrow> u32" where
  "rng_step ticks i r =
     (let r = r XOR push_bit 13 r; r = r XOR drop_bit 17 r; r = r XOR push_bit 5 r
      in r + (ticks + i))"

fun random_bytes :: "u32 \<Rightarrow> u32 \<Rightarrow> nat \<Rightarrow> u32 \<Rightarrow> u8 list \<times> u32" where
  "random_bytes ticks i 0 r = ([], r)"
| "random_bytes ticks i (Suc n) r =
     (let r = rng_step ticks i r; (bs, r') = random_bytes ticks (i + 1) n r
      in (ucast (drop_bit 16 r) # bs, r'))"

definition sys_getrandom :: "u32 \<Rightarrow> u32 \<Rightarrow> sys \<Rightarrow> int \<times> sys" where
  "sys_getrandom buf buflen s =
     (if buf = 0 \<or> buflen = 0 then (- EINVAL, s)
      else let (bs, r) = random_bytes (timer_ticks (tmr s)) 0 (unat buflen) (rng s)
           in (sint buflen, (poke (store_bytes buf bs) s)\<lparr>rng := r\<rparr>))"

definition sys_sethostname :: "u32 \<Rightarrow> int \<Rightarrow> sys \<Rightarrow> int \<times> sys" where
  "sys_sethostname name n s =
     (if name = 0 \<or> n \<le> 0 \<or> n \<ge> 64 then (- EINVAL, s)
      else (0, s\<lparr>g_hostname := map char_of_byte (takeWhile (\<lambda>b. b \<noteq> 0) (load_bytes (umem s) name (nat n)))\<rparr>))"

definition sys_gethostname :: "u32 \<Rightarrow> int \<Rightarrow> sys \<Rightarrow> int \<times> sys" where
  "sys_gethostname buf n s =
     (if buf = 0 \<or> n \<le> 0 then (- EINVAL, s)
      else (0, poke (store_bytes buf (map byte_of (take (nat n - 1) (g_hostname s)) @ [0])) s))"

definition sys_umask :: "u32 \<Rightarrow> sys \<Rightarrow> int \<times> sys" where
  "sys_umask new s = (sint (g_umask s), if new \<noteq> - 1 then s\<lparr>g_umask := new AND 0x1FF\<rparr> else s)"

definition getpid :: "sys \<Rightarrow> int" where
  "getpid s = (case current (sch s) of Some c \<Rightarrow> int (tid (tasks (sch s) ! c)) | None \<Rightarrow> 1)"

section \<open>The dispatcher\<close>

record registers =
  eax :: u32
  ebx :: u32
  ecx :: u32
  edx :: u32
  esi :: u32
  edi :: u32
  ebp :: u32

text \<open>
  How a call ends: it returns to the program, it jumps back into \<open>process_exec\<close> (the
  \<open>longjmp\<close> of \<open>process_exit_to_kernel\<close>), or the machine stops.
\<close>

datatype outcome = Returned | Longjmp | Halted

definition process_exit_to_kernel :: "int \<Rightarrow> sys \<Rightarrow> outcome \<times> sys" where
  "process_exit_to_kernel code s =
     (let s = s\<lparr>g_exit_code := code\<rparr> in
      if \<not> g_have_jmp s
      then (Halted, s\<lparr>tty := terminal_writestring (''exit: no jmp context'' @ [CHR 0x0A]) (tty s)\<rparr>)
      else (Longjmp, s))"

definition machine_shutdown :: "sys \<Rightarrow> outcome \<times> sys" where
  "machine_shutdown s =
     (Halted, s\<lparr>tty := terminal_writestring (''Shutting down...'' @ [CHR 0x0A]) (tty s)\<rparr>)"

definition machine_reboot :: "sys \<Rightarrow> outcome \<times> sys" where
  "machine_reboot s =
     (Halted, s\<lparr>tty := terminal_writestring (''Rebooting...'' @ [CHR 0x0A]) (tty s)\<rparr>)"

text \<open>The cases of the \<open>switch\<close> that compute a return value, in its order; the first
  definition holds its second half.\<close>

definition syscall_ret_more :: "nat \<Rightarrow> registers \<Rightarrow> sys \<Rightarrow> (int \<times> sys) option" where
  "syscall_ret_more num regs s =
     (if num = SYS_UNAME then Some (sys_uname (ebx regs) s)
      else if num = SYS_GETTIMEOFDAY then Some (sys_gettimeofday (ebx regs) (ecx regs) s)
      else if num = SYS_SYSINFO then sys_sysinfo (ebx regs) s
      else if num = SYS_WRITEV then Some (sys_writev (sint (ebx regs)) (ecx regs) (sint (edx regs)) s)
      else if num = SYS_READV then Some (sys_readv (sint (ebx regs)) (ecx regs) (sint (edx regs)) s)
      else if num = SYS_SYNC then Some (0, s)
      else if num = SYS_CLOCK_NANOSLEEP then Some (0, s)
      else if num = SYS_SET_THREAD_AREA then Some (sys_set_thread_area (ebx regs) s)
      else if num = SYS_GET_THREAD_AREA then Some (sys_get_thread_area (ebx regs) s)
      else if num = SYS_FUTEX then Some (sys_futex (ecx regs), s)
      else if num = SYS_PIPE2 then Some (sys_pipe (ebx regs), s)
      else if num = SYS_GETRLIMIT \<or> num = SYS_UGETRLIMIT then Some (sys_getrlimit (ecx regs) s)
      else if num = SYS_SETRLIMIT then Some (0, s)
      else if num = SYS_PRCTL then Some (sys_prctl (sint (ebx regs)), s)
      else if num = SYS_CLOCK_GETRES then Some (sys_clock_getres (ecx regs) s)
      else if num = SYS_GETDENTS64 \<or> num = SYS_GETDENTS
      then Some (sys_getdents64 (sint (ebx regs)) (ecx regs) (edx regs), s)
      else if num = SYS_RT_SIGPROCMASK \<or> num = SYS_SIGPROCMASK \<or> num = SYS_RT_SIGACTION \<or> num = SYS_SIGACTION
      then Some (0, s)
      else if num = SYS_UMASK then Some (sys_umask (ebx regs) s)
      else if num = SYS_PAUSE then Some (- EINTR, s)
      else if num = SYS_ALARM then Some (0, s)
      else if num = SYS_TIMES then Some (sint (timer_ticks (tmr s)), s)
      else if num = SYS_GETPGID \<or> num = SYS_GETSID then Some (1, s)
      else if num = SYS_TGKILL \<or> num = SYS_KILL then Some (- ENOSYS, s)
      else if num = SYS_OPENAT then sys_open (ecx regs) (edx regs) s
      else if num = SYS_POLL \<or> num = SYS_SELECT then Some (0, s)
      else if num = SYS_GETRANDOM then Some (sys_getrandom (ebx regs) (ecx regs) s)
      else if num = SYS_NICE then Some (0, s)
      else if num = SYS_SETHOSTNAME then Some (sys_sethostname (ebx regs) (sint (ecx regs)) s)
      else Some (- ENOSYS, s))"

definition syscall_ret :: "nat \<Rightarrow> registers \<Rightarrow> sys \<Rightarrow> (int \<times> sys) option" where
  "syscall_ret num regs s =
     (if num = SYS_READ then Some (sys_read (sint (ebx regs)) (ecx regs) (sint (edx regs)) s)
      else if num = SYS_WRITE then Some (sys_write (sint (ebx regs)) (ecx regs) (sint (edx regs)) s)
      else if num = SYS_OPEN then sys_open (ebx regs) (ecx regs) s
      else if num = SYS_CLOSE then Some (sys_close (sint (ebx regs)) s)
      else if num = SYS_CREAT then sys_open (ebx regs) (O_CREAT OR O_WRONLY OR O_TRUNC) s
      else if num = SYS_LSEEK then Some (sys_lseek (sint (ebx regs)) (sint (ecx regs)) (sint (edx regs)) s)
      else if num = SYS_DUP then Some (sys_dup (sint (ebx regs)) s)
      else if num = SYS_DUP2 then Some (sys_dup2 (sint (ebx regs)) (sint (ecx regs)) s)
      else if num = SYS_BRK then (let (b, s) = sys_brk (ebx regs) s in Some (sint b, s))
      else if num = SYS_GETPID \<or> num = SYS_GETTID then Some (getpid s, s)
      else if num = SYS_GETPPID then Some (0, s)
      else if num = 24 \<or> num = 47 \<or> num = 49 \<or> num = 50 \<or> num = 199 \<or> num = 200 \<or> num = 201 \<or> num = 202
      then Some (0, s)
      else if num = SYS_CHDIR then sys_chdir (ebx regs) s
      else if num = SYS_MKDIR then sys_mkdir (ebx regs) (sint (ecx regs)) s
      else if num = SYS_RMDIR \<or> num = SYS_UNLINK then sys_unlink (ebx regs) s
      else if num = SYS_RENAME then sys_rename (ebx regs) (ecx regs) s
      else if num = SYS_ACCESS then sys_access (ebx regs) (sint (ecx regs)) s
      else if num = SYS_GETCWD then Some (sys_getcwd (ebx regs) (unat (ecx regs)) s)
      else if num = SYS_STAT \<or> num = SYS_LSTAT then sys_stat (ebx regs) (ecx regs) s
      else if num = SYS_FSTAT then Some (sys_fstat (sint (ebx regs)) (ecx regs) s)
      else if num = SYS_TIME then Some (sys_time (ebx regs) s)
      else if num = SYS_CLOCK_GETTIME then Some (sys_clock_gettime (ecx regs) s)
      else if num = SYS_YIELD \<or> num = SYS_NANOSLEEP then Some (0, s\<lparr>sch := sched_yield (sch s)\<rparr>)
      else if num = SYS_IOCTL \<or> num = SYS_FCNTL \<or> num = SYS_CHMOD then Some (0, s)
      else if num = SYS_SETSID then Some (getpid s, s)
      else if num = SYS_FORK \<or> num = SYS_WAITPID \<or> num = SYS_EXECVE \<or> num = SYS_PIPE \<or> num = SYS_LINK
          \<or> num = SYS_SYMLINK \<or> num = SYS_READLINK \<or> num = SYS_MMAP
      then Some (sys_mmap2 (ebx regs) (ecx regs) (edx regs) (esi regs) (sint (edi regs)) (ebp regs div 4096) s)
      else if num = SYS_MMAP2
      then Some (sys_mmap2 (ebx regs) (ecx regs) (edx regs) (esi regs) (sint (edi regs)) (ebp regs) s)
      else if num = SYS_MUNMAP then Some (sys_munmap (ebx regs) (ecx regs), s)
      else if num = SYS_MPROTECT then Some (sys_mprotect (ebx regs) (ecx regs) (edx regs), s)
      else if num = SYS_MADVISE \<or> num = SYS_MREMAP
      then Some (sys_madvise (ebx regs) (ecx regs) (sint (edx regs)), s)
      else if num = SYS_MSYNC \<or> num = SYS_MLOCK \<or> num = SYS_MUNLOCK \<or> num = SYS_MLOCKALL \<or> num = SYS_MUNLOCKALL
      then Some (0, s)
      else syscall_ret_more num regs s)"

definition syscall_handler :: "registers \<Rightarrow> sys \<Rightarrow> (outcome \<times> registers \<times> sys) option" where
  "syscall_handler regs s =
     (let num = unat (eax regs) in
      if num = SYS_EXIT \<or> num = SYS_EXIT_GROUP
      then (let (out, s) = process_exit_to_kernel (sint (ebx regs)) s in Some (out, regs, s))
      else if num = SYS_REBOOT
      then (let (out, s) = (if edx regs = 0x4321FEDC \<or> edx regs = 0xCDEF0123
                            then machine_shutdown s else machine_reboot s)
            in Some (out, regs, s))
      else do {
        (r, s) \<leftarrow> syscall_ret num regs s;
        Some (Returned, regs\<lparr>eax := word_of_int r\<rparr>, s)
      })"

end
