(* ===== verification/Syscall_Inv.thy ===== *)
theory Syscall_Inv
  imports Syscall
begin

text \<open>
  The invariant of the system-call state and its preservation: every call, with any
  register contents, returns when memory holds a byte that ends strings, and leaves the
  descriptor table, the program break, the \<open>mmap\<close> arena and the components behind it
  well formed.
\<close>

section \<open>The invariant\<close>

definition fd_ok :: "fd_entry \<Rightarrow> bool" where
  "fd_ok f \<longleftrightarrow> (used f \<longrightarrow> ftype f \<noteq> FD_NONE) \<and> length (fname f) < 48
     \<and> (ftype f = FD_RAMFILE \<longrightarrow> pos f \<le> len f \<and> len f < FS_FILE_MAX
          \<and> (\<exists>n < FS_MAX_NODES. data f = Some n))"

definition sys_ok :: "sys \<Rightarrow> bool" where
  "sys_ok s \<longleftrightarrow> length (fds s) = FD_MAX \<and> (\<forall>f \<in> set (fds s). fd_ok f)
     \<and> USER_HEAP_BASE \<le> user_brk s \<and> user_brk s \<le> USER_HEAP_MAX
     \<and> MMAP_BASE \<le> mmap_bump s \<and> mmap_bump s \<le> MMAP_END \<and> 4096 dvd unat (mmap_bump s)
     \<and> g_umask s \<le> 0x1FF \<and> length (g_hostname s) < 64
     \<and> kfs_ok (rfs s) \<and> terminal_ok (tty s) \<and> sched_ok (sch s)"

lemma sys_ok_same [simp]:
  "sys_ok (s\<lparr>umem := m\<rparr>) = sys_ok s" "sys_ok (s\<lparr>rng := r\<rparr>) = sys_ok s"
  "sys_ok (s\<lparr>tls_base := b\<rparr>) = sys_ok s" "sys_ok (s\<lparr>g_exit_code := c\<rparr>) = sys_ok s"
  by (simp_all add: sys_ok_def)

lemma sys_ok_rfs: "sys_ok s \<Longrightarrow> kfs_ok k \<Longrightarrow> sys_ok (s\<lparr>rfs := k\<rparr>)"
  by (simp add: sys_ok_def)

lemma sys_ok_tty: "sys_ok s \<Longrightarrow> terminal_ok t \<Longrightarrow> sys_ok (s\<lparr>tty := t\<rparr>)"
  by (simp add: sys_ok_def)

lemma sys_okD:
  assumes "sys_ok s"
  shows "length (fds s) = FD_MAX" "kfs_ok (rfs s)" "terminal_ok (tty s)" "sched_ok (sch s)"
    "i < FD_MAX \<Longrightarrow> fd_ok (fds s ! i)"
  using assms by (auto simp: sys_ok_def)

lemma sys_ok_upd_fd:
  assumes ok: "sys_ok s" and i: "i < FD_MAX" and f: "fd_ok (fds s ! i) \<Longrightarrow> fd_ok (f (fds s ! i))"
  shows "sys_ok (upd_fd i f s)"
proof -
  have "fd_ok (f (fds s ! i))" using sys_okD(5) [OF ok i] by (rule f)
  with ok i show ?thesis
    using set_update_subset_insert [of "fds s" i "f (fds s ! i)"] by (auto simp: sys_ok_def upd_fd_def)
qed

lemma good_fd: "\<not> bad_fd fd s \<Longrightarrow> nat fd < FD_MAX \<and> used (fds s ! nat fd)"
  by (auto simp: bad_fd_def)

lemma fd_alloc_SomeD: "fd_alloc s = Some i \<Longrightarrow> 3 \<le> i \<and> i < FD_MAX \<and> \<not> used (fds s ! i)"
  by (auto simp: fd_alloc_def FD_MAX_def dest: scan_SomeD)

section \<open>Strings end\<close>

lemma cstr_returns:
  assumes "m z = 0"
  shows "\<exists>str. cstr m a = Some str"
proof (induction "unat (z - a)" arbitrary: a rule: less_induct)
  case less
  show ?case
  proof (cases "m a = 0")
    case True
    then show ?thesis by (subst cstr.simps) simp
  next
    case False
    with assms have "z - a \<noteq> 0" by auto
    then have "unat (z - (a + 1)) < unat (z - a)"
      using measure_unat [of "z - a"] by (simp add: algebra_simps)
    with less.hyps [of "a + 1"] obtain str where "cstr m (a + 1) = Some str" by blast
    with False show ?thesis by (subst cstr.simps) simp
  qed
qed

section \<open>The calls\<close>

text \<open>What is shown of a call: it returns and keeps the invariant.\<close>

definition call_ok :: "('a \<times> sys) option \<Rightarrow> bool" where
  "call_ok r \<longleftrightarrow> (\<exists>x s'. r = Some (x, s') \<and> sys_ok s')"

lemma call_ok_Some: "call_ok (Some p) \<longleftrightarrow> sys_ok (snd p)"
  by (cases p) (simp add: call_ok_def)

lemma call_ok_if: "call_ok a \<Longrightarrow> call_ok b \<Longrightarrow> call_ok (if c then a else b)"
  by simp

named_theorems calls_ok "a call returns and keeps the invariant"

lemma putchars_ok:
  "terminal_ok t \<Longrightarrow> terminal_ok (fold (\<lambda>i. terminal_putchar (g i)) is t)"
  by (induction "is" arbitrary: t) (simp_all add: keeps_screenD [OF terminal_putchar_keeps])

lemma sys_write_ok [calls_ok]: "sys_ok s \<Longrightarrow> sys_ok (snd (sys_write fd buf count s))"
  by (simp add: sys_write_def sys_ok_tty putchars_ok sys_okD(3))

lemma sys_read_file:
  assumes "0 \<le> count" "buf \<noteq> 0" "\<not> bad_fd fd s" "ftype (fds s ! nat fd) = FD_RAMFILE"
    and f: "pos (fds s ! nat fd) \<le> len (fds s ! nat fd)" "len (fds s ! nat fd) < 8192"
  defines "f \<equiv> fds s ! nat fd"
  defines "n \<equiv> min (nat count) (len f - pos f)"
  shows "sys_read fd buf count s = (int n, upd_fd (nat fd) (\<lambda>f. f\<lparr>pos := pos f + n\<rparr>)
      (poke (store_bytes buf (map (\<lambda>i. fd_byte s f (pos f + i)) [0..<n])) s))"
proof -
  have "len f + 2 ^ 32 - pos f = (len f - pos f) + 2 ^ 32" using f(1) by (simp add: f_def)
  moreover have lt: "len f - pos f < 2 ^ 32" using f(2) by (simp add: f_def)
  ultimately have left: "fd_left f = len f - pos f"
    by (simp only: fd_left_def mod_add_self2 mod_less [OF lt])
  have n: "(if nat count > fd_left f then fd_left f else nat count) = n" by (simp add: n_def left)
  show ?thesis
    using assms(1-4) unfolding sys_read_def f_def [symmetric] Let_def n by simp
qed

lemma sys_read_ok [calls_ok]:
  assumes ok: "sys_ok s"
  shows "sys_ok (snd (sys_read fd buf count s))"
proof (cases "count < 0 \<or> buf = 0 \<or> bad_fd fd s \<or> ftype (fds s ! nat fd) \<noteq> FD_RAMFILE")
  case True
  with ok show ?thesis by (auto simp: sys_read_def Let_def)
next
  case False
  have i: "nat fd < FD_MAX" using False good_fd by blast
  have "pos (fds s ! nat fd) \<le> len (fds s ! nat fd)" "len (fds s ! nat fd) < 8192"
    using sys_okD(5) [OF ok i] False by (simp_all add: fd_ok_def fs_consts)
  note r = sys_read_file [OF _ _ _ _ this, of count buf]
  have room: "p + min c (l - p) \<le> l" if "p \<le> l" for c p l :: nat using that by linarith
  show ?thesis
    using False ok i room by (auto simp: r fd_ok_def intro!: sys_ok_upd_fd)
qed

lemma fs_read_OK:
  assumes "kfs_ok k" "fs_read path (fsc k) = (FS_OK, Some (i, n))"
  shows "i < FS_MAX_NODES \<and> n < FS_FILE_MAX \<and> node_type (nodes (fsc k) ! i) = FS_TYPE_FILE
    \<and> n = content_len (nodes (fsc k) ! i)"
proof -
  have inv: "fs_inv (fsc k)" using assms(1) by (simp add: kfs_ok_def)
  from assms(2) have i: "fs_find_child (fsc k) (cwd (fsc k)) path = Some i"
    "node_type (nodes (fsc k) ! i) = FS_TYPE_FILE" "n = content_len (nodes (fsc k) ! i)"
    by (auto simp: fs_read_def split: option.splits if_splits)
  then have lt: "i < FS_MAX_NODES" using find_child_Some [OF inv] by (auto simp: live_def)
  then have "node_ok (nodes (fsc k) ! i)" using inv by (auto simp: fs_inv_def)
  with i lt show ?thesis by (auto simp: node_ok_def)
qed

lemma open_node_ok:
  assumes "sys_ok s" "node < FS_MAX_NODES" "n < FS_FILE_MAX"
  shows "sys_ok (snd (open_node path flgs node n s))"
  using assms by (auto simp: open_node_def fd_ok_def name_copy_def dest: fd_alloc_SomeD
      intro!: sys_ok_upd_fd split: option.split)

lemmas fs_calls_ok = run_op_ok [of _ "Mkdir n" for n, simplified] run_op_ok [of _ "Touch n" for n, simplified]
  run_op_ok [of _ "Cd n" for n, simplified] run_op_ok [of _ "Rm n" for n, simplified]
  run_op_ok [of _ "Mv a b" for a b, simplified] run_op_ok [of _ "Write_bin n d" for n d, simplified]

lemma sys_open_ok [calls_ok]:
  assumes ok: "sys_ok s" and z: "umem s z = 0"
  shows "call_ok (sys_open pathp flgs s)"
proof -
  obtain path where path: "cstr (umem s) pathp = Some path"
    using cstr_returns [of "umem s" z pathp] z by blast
  have k: "kfs_ok (rfs s)" by (rule sys_okD [OF ok])
  obtain r1 k1 where t: "fs_touch path (rfs s) = Some (r1, k1)" "kfs_ok k1"
    using fs_calls_ok(2) [OF k] by blast
  obtain r2 k2 where w: "fs_write path [] k1 = Some (r2, k2)" "kfs_ok k2"
    using fs_calls_ok(6) [OF t(2), of path "[]"] by (auto simp: fs_write_def)
  have op: "call_ok (case fs_read path (fsc k) of
      (FS_OK, Some (node, n)) \<Rightarrow> Some (open_node path flgs node n u) | _ \<Rightarrow> Some (- ENOENT, u))"
    if "kfs_ok k" "sys_ok u" for k u
  proof -
    obtain r d where rd: "fs_read path (fsc k) = (r, d)" by (cases "fs_read path (fsc k)")
    show ?thesis
      using fs_read_OK [OF that(1)] rd open_node_ok [OF that(2)] that(2)
      by (cases r; cases d) (auto simp: call_ok_Some)
  qed
  obtain r d where rd: "fs_read path (fsc (rfs s)) = (r, d)" by (cases "fs_read path (fsc (rfs s))")
  show ?thesis
  proof (cases "pathp = 0 \<or> path = [] \<or> (\<exists>node n. r = FS_OK \<and> d = Some (node, n))")
    case True
    then show ?thesis
      using path rd ok fs_read_OK [OF k] open_node_ok [OF ok]
      by (auto simp: sys_open_def call_ok_Some)
  next
    case False
    have "call_ok (if r1 \<noteq> FS_OK
        then (if r2 \<noteq> FS_OK then Some (- ENOENT, s\<lparr>rfs := k2\<rparr>)
              else case fs_read path (fsc k2) of
                (FS_OK, Some (node, n)) \<Rightarrow> Some (open_node path flgs node n (s\<lparr>rfs := k2\<rparr>))
              | _ \<Rightarrow> Some (- ENOENT, s\<lparr>rfs := k2\<rparr>))
        else case fs_read path (fsc k1) of
                (FS_OK, Some (node, n)) \<Rightarrow> Some (open_node path flgs node n (s\<lparr>rfs := k1\<rparr>))
              | _ \<Rightarrow> Some (- ENOENT, s\<lparr>rfs := k1\<rparr>))"
      using op [OF w(2) sys_ok_rfs [OF ok w(2)]] op [OF t(2) sys_ok_rfs [OF ok t(2)]]
        sys_ok_rfs [OF ok w(2)] by (simp add: call_ok_Some)
    then have create: "call_ok (do {
              (r, k) \<leftarrow> fs_touch path (rfs s);
              (r, k) \<leftarrow> (if r \<noteq> FS_OK then fs_write path [] k else Some (r, k));
              let s = s\<lparr>rfs := k\<rparr>;
              if r \<noteq> FS_OK then Some (- ENOENT, s)
              else case fs_read path (fsc k) of
                (FS_OK, Some (node, n)) \<Rightarrow> Some (open_node path flgs node n s)
              | _ \<Rightarrow> Some (- ENOENT, s)
            })"
      using t(1) w(1) by (cases "r1 = FS_OK") (simp_all add: Let_def)
    show ?thesis
      using False create ok path rd
      by (cases r; cases d) (auto simp: sys_open_def call_ok_Some)
  qed
qed

lemma sys_close_ok [calls_ok]: "sys_ok s \<Longrightarrow> sys_ok (snd (sys_close fd s))"
  by (auto simp: sys_close_def fd_ok_def FD_MAX_def intro!: sys_ok_upd_fd)

lemma sys_lseek_cases:
  obtains (same) "snd (sys_lseek fd off whence s) = s" "fst (sys_lseek fd off whence s) < 0"
  | (seek) p where "\<not> bad_fd fd s" "ftype (fds s ! nat fd) = FD_RAMFILE" "p \<le> len (fds s ! nat fd)"
      "sys_lseek fd off whence s = (int p, upd_fd (nat fd) (\<lambda>f. f\<lparr>pos := p\<rparr>) s)"
proof (cases "bad_fd fd s \<or> ftype (fds s ! nat fd) \<noteq> FD_RAMFILE")
  case True
  then show ?thesis by (intro same) (auto simp: sys_lseek_def Let_def syscall_nr)
next
  case False
  show ?thesis
  proof (cases "seek_base whence (fds s ! nat fd)")
    case None
    with False show ?thesis by (intro same) (auto simp: sys_lseek_def syscall_nr)
  next
    case (Some b)
    show ?thesis
    proof (cases "as_int (b + off) < 0")
      case True
      with Some False show ?thesis by (intro same) (auto simp: sys_lseek_def Let_def syscall_nr)
    next
      case nn: False
      let ?p = "if nat (as_int (b + off)) > len (fds s ! nat fd) then len (fds s ! nat fd) else nat (as_int (b + off))"
      have "sys_lseek fd off whence s = (int ?p, upd_fd (nat fd) (\<lambda>f. f\<lparr>pos := ?p\<rparr>) s)"
        using Some False nn by (simp add: sys_lseek_def Let_def)
      then show ?thesis using False by (intro seek [of ?p]) auto
    qed
  qed
qed

lemma sys_lseek_ok [calls_ok]:
  assumes ok: "sys_ok s"
  shows "sys_ok (snd (sys_lseek fd off whence s))"
proof (cases rule: sys_lseek_cases [of fd off whence s])
  case (seek p)
  moreover have "nat fd < FD_MAX" using seek(1) good_fd by blast
  ultimately show ?thesis using ok by (auto simp: fd_ok_def intro!: sys_ok_upd_fd)
qed (use ok in simp)

lemma fd_ok_used: "fd_ok f \<Longrightarrow> used f \<Longrightarrow> fd_ok (f\<lparr>used := True\<rparr>)"
  by (simp add: fd_ok_def)

lemma sys_dup_ok [calls_ok]:
  assumes ok: "sys_ok s"
  shows "sys_ok (snd (sys_dup fd s))"
proof (cases "bad_fd fd s")
  case False
  then have "nat fd < FD_MAX" "used (fds s ! nat fd)" using good_fd by blast+
  then have "fd_ok ((fds s ! nat fd)\<lparr>used := True\<rparr>)" using sys_okD(5) [OF ok] fd_ok_used by blast
  with ok False show ?thesis
    by (auto simp: sys_dup_def dest: fd_alloc_SomeD intro!: sys_ok_upd_fd split: option.split)
qed (use ok in \<open>simp add: sys_dup_def\<close>)

lemma nth_upd_fd: "i \<noteq> j \<Longrightarrow> fds (upd_fd i f s) ! j = fds s ! j"
  by (simp add: upd_fd_def)

lemma sys_dup2_ok [calls_ok]:
  assumes ok: "sys_ok s"
  shows "sys_ok (snd (sys_dup2 fd new s))"
proof (cases "bad_fd fd s \<or> new < 0 \<or> new \<ge> int FD_MAX \<or> fd = new")
  case False
  then have fd: "nat fd < FD_MAX" "used (fds s ! nat fd)" and new: "nat new < FD_MAX"
    using good_fd by auto
  have neq: "nat new \<noteq> nat fd" using False by (auto simp: bad_fd_def)
  have f: "fd_ok ((fds s ! nat fd)\<lparr>used := True\<rparr>)" using sys_okD(5) [OF ok fd(1)] fd(2) fd_ok_used by blast
  let ?u = "if used (fds s ! nat new) \<and> new \<ge> 3 then upd_fd (nat new) (\<lambda>f. f\<lparr>used := False\<rparr>) s else s"
  have "sys_ok ?u" using ok new by (auto simp: fd_ok_def intro!: sys_ok_upd_fd)
  moreover have "fds ?u ! nat fd = fds s ! nat fd" using neq by (simp add: nth_upd_fd)
  ultimately have "sys_ok (upd_fd (nat new) (\<lambda>_. (fds ?u ! nat fd)\<lparr>used := True\<rparr>) ?u)"
    using new f by (intro sys_ok_upd_fd) simp_all
  moreover have "snd (sys_dup2 fd new s) = upd_fd (nat new) (\<lambda>_. (fds ?u ! nat fd)\<lparr>used := True\<rparr>) ?u"
    using False by (simp add: sys_dup2_def Let_def)
  ultimately show ?thesis by simp
qed (use ok in \<open>auto simp: sys_dup2_def\<close>)

lemma sys_brk_ok [calls_ok]: "sys_ok s \<Longrightarrow> sys_ok (snd (sys_brk b s))"
  by (auto simp: sys_brk_def sys_ok_def)

lemma path_call_ok:
  assumes ok: "sys_ok s" and z: "umem s z = 0"
    and f: "\<And>p. \<exists>r k. f p (rfs s) = Some (r, k) \<and> kfs_ok k \<and> lk_same (lk (rfs s)) (lk k)"
  shows "call_ok (path_call pathp f err s)"
proof -
  obtain path where "cstr (umem s) pathp = Some path"
    using cstr_returns [of "umem s" z pathp] z by blast
  with f [of path] ok show ?thesis
    by (auto simp: path_call_def call_ok_Some sys_ok_rfs)
qed

lemma sys_path_calls_ok [calls_ok]:
  assumes ok: "sys_ok s" and z: "umem s z = 0"
  shows "call_ok (sys_chdir p s)" "call_ok (sys_mkdir p mode s)" "call_ok (sys_unlink p s)"
    "call_ok (sys_rename p q s)" "call_ok (sys_access p mode s)" "call_ok (sys_stat p st s)"
proof -
  have k: "kfs_ok (rfs s)" by (rule sys_okD [OF ok])
  note pc = path_call_ok [OF ok z]
  show "call_ok (sys_chdir p s)" "call_ok (sys_mkdir p mode s)" "call_ok (sys_unlink p s)"
    unfolding sys_chdir_def sys_mkdir_def sys_unlink_def by (rule pc, rule fs_calls_ok [OF k])+
  obtain p' where p: "cstr (umem s) p = Some p'" using cstr_returns [of "umem s" z p] z by blast
  obtain q' where q: "cstr (umem s) q = Some q'" using cstr_returns [of "umem s" z q] z by blast
  have "call_ok (path_call p (\<lambda>old. fs_mv old q') rename_err s)" by (rule pc, rule fs_calls_ok [OF k])
  then show "call_ok (sys_rename p q s)" using q ok by (simp add: sys_rename_def call_ok_Some)
  show "call_ok (sys_access p mode s)" using p ok by (simp add: sys_access_def call_ok_Some)
  show "call_ok (sys_stat p st s)"
    using p ok by (auto simp: sys_stat_def call_ok_Some split: prod.split fs_result.split option.split)
qed

lemma plain_calls_ok [calls_ok]:
  assumes "sys_ok s"
  shows "sys_ok (snd (sys_getcwd buf n s))" "sys_ok (snd (sys_fstat fd st s))"
    "sys_ok (snd (sys_time loc s))" "sys_ok (snd (sys_clock_gettime ts s))"
    "sys_ok (snd (sys_uname u s))" "sys_ok (snd (sys_gettimeofday tv tz s))"
    "sys_ok (snd (sys_set_thread_area u s))" "sys_ok (snd (sys_get_thread_area u s))"
    "sys_ok (snd (sys_getrlimit rl s))" "sys_ok (snd (sys_clock_getres ts s))"
    "sys_ok (snd (sys_getrandom buf bl s))" "sys_ok (snd (sys_gethostname buf k s))"
  using assms
  by (simp_all add: sys_getcwd_def sys_fstat_def sys_time_def sys_clock_gettime_def sys_uname_def
      sys_gettimeofday_def sys_set_thread_area_def sys_get_thread_area_def sys_getrlimit_def
      sys_clock_getres_def sys_getrandom_def sys_gethostname_def Let_def split: prod.split)

lemma sys_sethostname_ok [calls_ok]: "sys_ok s \<Longrightarrow> sys_ok (snd (sys_sethostname name n s))"
proof -
  assume ok: "sys_ok s"
  have "length (takeWhile (\<lambda>b. b \<noteq> 0) (load_bytes (umem s) name k)) \<le> k" for k
    using length_takeWhile_le [of "\<lambda>b. b \<noteq> 0" "load_bytes (umem s) name k"] by (simp add: load_bytes_def)
  from this [of "nat n"] have "\<not> 64 \<le> n \<Longrightarrow> length (takeWhile (\<lambda>b. b \<noteq> 0) (load_bytes (umem s) name (nat n))) < 64"
    by linarith
  with ok show ?thesis by (auto simp: sys_sethostname_def sys_ok_def)
qed

lemma sys_umask_ok [calls_ok]: "sys_ok s \<Longrightarrow> sys_ok (snd (sys_umask new s))"
  by (auto simp: sys_umask_def sys_ok_def word_and_le1)

lemma sys_sysinfo_ok [calls_ok]:
  assumes ok: "sys_ok s"
  shows "call_ok (sys_sysinfo info s)"
proof -
  have "kheap_inv (heap (sch s))"
    using sys_okD(4) [OF ok] by (simp add: sched_ok_def stacks_ok_def)
  then obtain u f where "kmalloc_stats (heap (sch s)) = Some (u, KHEAP_SIZE, f)"
    using kmalloc_stats_spec(1) [of "heap (sch s)"] by (auto simp: kheap_inv_def)
  with ok show ?thesis by (simp add: sys_sysinfo_def call_ok_Some Let_def)
qed

lemma iov_loop_ok:
  "(\<And>b n s. sys_ok s \<Longrightarrow> sys_ok (snd (call b n s))) \<Longrightarrow> sys_ok s \<Longrightarrow>
   sys_ok (snd (iov_loop call iov n tot s))"
proof (induction call iov n tot s rule: iov_loop.induct)
  case (2 call iov n tot s)
  obtain r s' where c: "call (ld32 (umem s) iov) (sint (ld32 (umem s) (iov + 4))) s = (r, s')"
    by (cases "call (ld32 (umem s) iov) (sint (ld32 (umem s) (iov + 4))) s")
  have "sys_ok s'" using "2.prems"(1) [OF "2.prems"(2), of "ld32 (umem s) iov" "sint (ld32 (umem s) (iov + 4))"] c by simp
  with 2 c show ?case by (simp add: Let_def)
qed simp

lemma sys_iov_ok [calls_ok]:
  assumes "sys_ok s"
  shows "sys_ok (snd (sys_writev fd iov n s))" "sys_ok (snd (sys_readv fd iov n s))"
  using assms by (simp_all add: sys_writev_def sys_readv_def iov_loop_ok sys_write_ok sys_read_ok)

section \<open>The mapping arena\<close>

lemma and_not_mask_12: "x AND NOT 4095 = x - take_bit 12 (x :: u32)"
proof -
  have m: "(4095 :: u32) = mask 12" by (simp add: mask_eq_exp_minus_1)
  have "take_bit 12 x + (x AND NOT (mask 12)) = take_bit 12 x OR (x AND NOT (mask 12))"
    by (rule disjunctive_add_eq_or) (auto intro!: bit_word_eqI simp: bit_simps)
  also have "\<dots> = x" by (rule bit_word_eqI) (auto simp: bit_simps)
  finally show ?thesis unfolding m by (simp add: algebra_simps eq_diff_eq)
qed

lemma align_up_eq: "align_up_page n = (n + 4095) - take_bit 12 (n + 4095)"
proof -
  have "n + PAGE_SIZE - 1 = n + 4095" "PAGE_SIZE - 1 = 4095" by (simp_all add: PAGE_SIZE_def)
  then show ?thesis by (simp only: align_up_page_def and_not_mask_12)
qed

lemma unat_align_up:
  assumes "unat n \<le> 2 ^ 32 - 4096"
  shows "unat (align_up_page n) = (unat n + 4095) div 4096 * 4096"
proof -
  have sum: "unat (n + 4095) = unat n + 4095"
    using assms by (subst unat_add_lem [THEN iffD1]) simp_all
  have tb: "unat (take_bit 12 (n + 4095)) = (unat n + 4095) mod 4096"
    by (simp only: unsigned_take_bit_eq sum) (simp add: take_bit_eq_mod)
  have "take_bit 12 (n + 4095) \<le> n + 4095" by (simp add: word_le_nat_alt tb sum)
  then have "unat (align_up_page n) = (unat n + 4095) - (unat n + 4095) mod 4096"
    by (simp add: align_up_eq unat_sub tb sum)
  then show ?thesis by (simp add: minus_mod_eq_div_mult)
qed

text \<open>Rounding the largest lengths up wraps to 0.\<close>

lemma align_up_wraps:
  assumes "2 ^ 32 - 4096 < unat n"
  shows "align_up_page n = 0"
proof -
  have "unat n < 2 ^ 32" using unsigned_less [of n] by simp
  then have "(unat n + 4095) mod 2 ^ 32 = unat n + 4095 - 2 ^ 32"
    using assms by (simp add: mod_if)
  then have small: "unat (n + 4095) < 2 ^ 12"
    using \<open>unat n < 2 ^ 32\<close> by (simp add: unat_word_ariths)
  then have "take_bit 12 (n + 4095) = n + 4095"
    by (simp add: word_unat_eq_iff unsigned_take_bit_eq take_bit_nat_eq_self)
  then show ?thesis by (simp add: align_up_eq)
qed

lemma align_up_dvd: "4096 dvd unat (align_up_page n)"
  using unat_align_up [of n] align_up_wraps [of n] by (cases "unat n \<le> 2 ^ 32 - 4096") simp_all

lemma unat_arena [simp]:
  "unat MMAP_BASE = 2 ^ 24" "unat MMAP_END = 2 ^ 25" "unat (MMAP_END - MMAP_BASE) = 2 ^ 24"
  by (simp_all add: MMAP_BASE_def MMAP_END_def)

lemma bump_room:
  assumes "sys_ok s" "\<not> align_up_page n > MMAP_END - MMAP_BASE"
  shows "unat (mmap_bump s + align_up_page n) = unat (mmap_bump s) + unat (align_up_page n)"
    "unat (align_up_page n) \<le> 2 ^ 24"
proof -
  have "unat (mmap_bump s) \<le> 2 ^ 25" using assms(1) by (simp add: sys_ok_def word_le_nat_alt)
  moreover show "unat (align_up_page n) \<le> 2 ^ 24" using assms(2) by (simp add: word_less_nat_alt)
  ultimately show "unat (mmap_bump s + align_up_page n) = unat (mmap_bump s) + unat (align_up_page n)"
    by (subst unat_add_lem [THEN iffD1]) simp_all
qed

lemma sys_mmap2_ok [calls_ok]:
  assumes ok: "sys_ok s"
  shows "sys_ok (snd (sys_mmap2 addr n prot flgs fd pgoff s))"
proof (cases "align_up_page n > MMAP_END - MMAP_BASE \<or> mmap_bump s + align_up_page n > MMAP_END")
  case True
  with ok show ?thesis by (auto simp: sys_mmap2_def Let_def)
next
  case False
  note r = bump_room [OF ok, of n]
  have "sys_ok (s\<lparr>mmap_bump := mmap_bump s + align_up_page n\<rparr>)"
    using ok False r align_up_dvd [of n] by (auto simp: sys_ok_def word_le_nat_alt word_less_nat_alt)
  with ok show ?thesis by (auto simp: sys_mmap2_def Let_def)
qed

section \<open>The dispatcher\<close>

lemma yield_call_ok [calls_ok]: "sys_ok s \<Longrightarrow> sys_ok (s\<lparr>sch := sched_yield (sch s)\<rparr>)"
  by (simp add: sys_ok_def sched_yield_ok)

lemma syscall_ret_ok:
  assumes ok: "sys_ok s" and z: "umem s z = 0"
  shows "call_ok (syscall_ret num regs s)"
proof -
  have brk: "call_ok (let (b, s) = sys_brk v s in Some (sint b, s))" for v
    using sys_brk_ok [OF ok, of v] by (cases "sys_brk v s") (simp add: call_ok_Some)
  show ?thesis
    unfolding syscall_ret_def syscall_ret_more_def
    by (intro call_ok_if brk sys_open_ok [OF ok z] sys_path_calls_ok [OF ok z] sys_sysinfo_ok [OF ok])
      (simp_all only: call_ok_Some snd_conv ok calls_ok [OF ok])
qed

end
