(* ===== verification/Ramfs_Props.thy ===== *)
theory Ramfs_Props
  imports Ramfs_Path
begin

text \<open>
  The properties of the RAM file system: what its callers (the shell, the system calls,
  the script interpreter) rely on. The examples they are applied to start from the
  file system that holds only its root.
\<close>

section \<open>The file system at boot\<close>

definition boot_kfs :: kfs where
  "boot_kfs = \<lparr>fsc = root_only zero_kfs, lk = fs_lk_init (lk zero_kfs)\<rparr>"

lemma zero_kfs_ok [simp]: "table_ok zero_kfs"
  by (simp add: table_ok_def zero_kfs_def free_node_def FS_FILE_MAX_def)

lemma boot_inv [simp]: "fs_inv (fsc boot_kfs)"
  by (simp add: boot_kfs_def root_only_inv)

lemma boot_ok [simp]: "kfs_ok boot_kfs"
  using lk_ok_init by (simp add: kfs_ok_def lk_free_def) (simp add: boot_kfs_def lk_free_def)

lemma boot_live: "live (fsc boot_kfs) i \<longleftrightarrow> i = FS_ROOT_INDEX"
  by (auto simp: boot_kfs_def live_def root_only_def Let_def nth_list_update zero_kfs_def fs_consts)

lemma boot_cwd [simp]: "cwd (fsc boot_kfs) = FS_ROOT_INDEX"
  by (simp add: boot_kfs_def root_only_def Let_def)

lemma boot_find [simp]: "fs_find_child (fsc boot_kfs) d n = None"
  using fs_inv_root_parent [OF boot_inv] by (auto simp: find_child_None boot_live)

lemma boot_alloc: "\<exists>i. fs_alloc_node (fsc boot_kfs) = Some i"
proof (rule ccontr)
  assume "\<not> ?thesis"
  then have "live (fsc boot_kfs) 1" using alloc_None [of "fsc boot_kfs"] by (auto simp: FS_MAX_NODES_def)
  then show False by (simp add: boot_live FS_ROOT_INDEX_def)
qed

lemma boot_touch:
  assumes "fs_is_valid_name n"
  shows "fst (fs_touch_body n (fsc boot_kfs)) = FS_OK"
  using boot_alloc assms by (auto simp: fs_touch_body_def)

lemma boot_mkdir:
  assumes "fs_is_valid_name n"
  shows "fst (fs_mkdir_body n (fsc boot_kfs)) = FS_OK"
  using boot_alloc assms by (auto simp: fs_mkdir_body_def)

definition one_dir :: ramfs where
  "one_dir = snd (fs_mkdir_body ''d'' (fsc boot_kfs))"

lemma one_dir_inv: "fs_inv one_dir"
  by (simp add: one_dir_def fs_mkdir_body_inv)

lemma one_dir_entry: "\<exists>i. fs_find_child one_dir FS_ROOT_INDEX ''d'' = Some i \<and> dir one_dir i"
  and one_dir_cwd: "cwd one_dir = FS_ROOT_INDEX"
  using mkdir_body_ext [OF boot_inv, of "''d''" FS_OK one_dir] boot_mkdir [of "''d''"]
  by (auto simp: one_dir_def prod_eq_iff valid_name_iff FS_NAME_MAX_def)

section \<open>Properties\<close>

text \<open>C1. Any sequence of file-system operations (\<open>fs_mkdir\<close>, \<open>fs_touch\<close>, \<open>fs_cd\<close>,
  \<open>fs_rm\<close>, \<open>fs_rm_rf\<close>, \<open>fs_cp\<close>, \<open>fs_mv\<close>, \<open>fs_write_bin\<close>, \<open>fs_append\<close>) on a well-formed file
  system returns (no loop runs forever and the spin lock is never waited for), leaves a
  well-formed file system (a tree under the root, unique names in every directory, files
  in bounds) and gives the lock and the interrupt flag back as they were.\<close>

theorem fs_ops_safe:
  assumes "kfs_ok s"
  shows "\<exists>s'. run_ops xs s = Some s' \<and> kfs_ok s' \<and> lk_same (lk s) (lk s')"
  using run_ops_ok [OF assms] .

theorem fs_ops_safe_witness:
  "kfs_ok boot_kfs \<and> (\<exists>s'. run_ops [Mkdir ''d'', Cd ''d'', Write_bin ''f'' ''text'', Cd ''..'', Rm_rf ''d''] boot_kfs
     = Some s' \<and> kfs_ok s' \<and> lk_same (lk boot_kfs) (lk s'))"
  using fs_ops_safe [OF boot_ok] boot_ok by blast

text \<open>C2. Recursive removal (\<open>fs_rm_rf\<close>) of an entry of the current directory succeeds,
  frees exactly the nodes of the entry's subtree, leaves every other node as it was and
  keeps the current directory, which cannot be inside; the result is well formed.\<close>

theorem fs_rm_rf_exact:
  assumes "fs_inv c" "fs_find_child c (cwd c) name = Some i" "name \<noteq> ''/''"
  shows "\<exists>c'. fs_rm_rf_body name c = Some (FS_OK, c') \<and> fs_inv c' \<and> cwd c' = cwd c
    \<and> (\<forall>k < FS_MAX_NODES. nodes c' ! k =
         (if k \<in> subtree c i then freed (nodes c ! k) else nodes c ! k))"
proof -
  have i: "live c i" "i \<noteq> FS_ROOT_INDEX" using find_child_not_root [OF assms(1,2)] by auto
  have par: "parent (nodes c ! i) = Some (cwd c)" and name: "name = node_name (nodes c ! i)"
    using assms find_child_Some by auto
  have "name \<noteq> []" using fs_inv_name [OF assms(1) i] name by (auto simp: valid_name_iff)
  then have "fs_rm_rf_body name c = fs_rm_subtree i c"
    using assms by (simp add: fs_rm_rf_body_def)
  with rm_subtree_effect [OF assms(1) i] rm_subtree_inv [OF assms(1) i] par show ?thesis
    by (fastforce split: if_splits)
qed

theorem fs_rm_rf_exact_witness:
  "\<exists>i c'. fs_find_child one_dir (cwd one_dir) ''d'' = Some i
     \<and> fs_rm_rf_body ''d'' one_dir = Some (FS_OK, c') \<and> fs_inv c'"
proof -
  obtain i where "fs_find_child one_dir (cwd one_dir) ''d'' = Some i"
    using one_dir_entry one_dir_cwd by auto
  with fs_rm_rf_exact [OF one_dir_inv this] show ?thesis by auto
qed



text \<open>C4. What is written is what is read: after a sequence of successful writes, the
  pointer and length that \<open>fs_read\<close> gives for a name designate the bytes last written to
  it, and the files not written are unchanged.\<close>

theorem fs_write_read:
  assumes "kfs_ok s" "rf.put_all kvs s = Some s'"
  shows "file_get name s' = (case map_of (rev kvs) name of Some data \<Rightarrow> Some data | None \<Rightarrow> file_get name s)"
  by (rule rf.get_put_all [OF assms])

lemma write_bin_spec_cwd: "cwd (snd (write_bin_spec k v c)) = cwd c"
  by (auto simp: write_bin_spec_def write_spec_def fs_store_def fs_touch_body_def upd_node_def Let_def
      split: option.split prod.split)

lemma boot_write: "\<exists>s'. file_put ''f'' ''hello'' boot_kfs = Some s'"
proof -
  obtain c where c: "fs_touch_body ''f'' (fsc boot_kfs) = (FS_OK, c)"
    using boot_touch [of "''f''"] by (cases "fs_touch_body ''f'' (fsc boot_kfs)") (auto simp: valid_name_iff FS_NAME_MAX_def)
  obtain i where i: "fs_find_child c (cwd c) ''f'' = Some i" using touch_bytes [OF boot_inv c] by blast
  have "node_type (nodes c ! i) = FS_TYPE_FILE"
  proof -
    have "fs_inv c" using fs_touch_body_inv [OF boot_inv, of "''f''"] c by simp
    then have "live c i" "i \<noteq> FS_ROOT_INDEX" using find_child_not_root i by auto
    then show ?thesis using c boot_live [of i] fs_inv_len [OF boot_inv]
      by (cases "fs_alloc_node (fsc boot_kfs) = Some i") (auto simp: fs_touch_body_def upd_node_def live_def nth_list_update split: if_split_asm option.splits)
  qed
  then have "fst (write_bin_spec ''f'' ''hello'' (fsc boot_kfs)) = FS_OK"
    using c i by (simp add: write_bin_spec_def write_spec_def fs_store_def FS_FILE_MAX_def)
  moreover have "lk_ok (lk boot_kfs)" using boot_ok by (simp add: kfs_ok_def)
  ultimately show ?thesis
    using fs_write_bin_atomic [of boot_kfs "''f''" "''hello''"] by (auto simp: atomic_effect_def file_put_def)
qed

theorem fs_write_read_witness:
  "\<exists>s'. rf.put_all [(''f'', ''hello'')] boot_kfs = Some s' \<and> file_get ''f'' s' = Some ''hello''"
proof -
  obtain s' where "file_put ''f'' ''hello'' boot_kfs = Some s'" using boot_write by blast
  then have "rf.put_all [(''f'', ''hello'')] boot_kfs = Some s'" by simp
  with fs_write_read [OF boot_ok this, of "''f''"] show ?thesis by simp
qed

text \<open>C5. Reading by an absolute path (\<open>fs_read_path\<close>) finds exactly the file that following
  the path's names from the root one by one finds.\<close>

theorem fs_read_path_correct:
  assumes "fs_inv c" "ns \<noteq> []" "\<forall>n \<in> set ns. plain_name n"
  shows "fs_read_path (join_path ns) c = (FS_OK, Some (i, len)) \<longleftrightarrow>
    lookup_path c FS_ROOT_INDEX ns = Some i \<and> node_type (nodes c ! i) = FS_TYPE_FILE
      \<and> len = content_len (nodes c ! i)"
  by (rule fs_read_path_lookup [OF assms])

lemma plain_examples [simp]: "plain_name ''d''" "plain_name ''f''"
  by (simp_all add: plain_name_def valid_name_iff FS_NAME_MAX_def)

theorem fs_read_path_correct_witness:
  "\<exists>s' i. file_put ''f'' ''hello'' boot_kfs = Some s' \<and> fs_read_path ''/f'' (fsc s') = (FS_OK, Some (i, 5))"
proof -
  obtain s' where s': "file_put ''f'' ''hello'' boot_kfs = Some s'" using boot_write by blast
  have w: "write_bin_spec ''f'' ''hello'' (fsc boot_kfs) = (FS_OK, fsc s')" and ok: "kfs_ok s'"
    using file_put_SomeD [OF boot_ok s'] by auto
  have root: "cwd (fsc s') = FS_ROOT_INDEX" using write_bin_spec_cwd [of "''f''" "''hello''" "fsc boot_kfs"] w by simp
  obtain i where i: "fs_find_child (fsc s') FS_ROOT_INDEX ''f'' = Some i"
      "node_type (nodes (fsc s') ! i) = FS_TYPE_FILE"
      "node_bytes (nodes (fsc s') ! i) (content_len (nodes (fsc s') ! i)) = ''hello''"
    using write_bin_spec_bytes [OF boot_inv w, of "''f''"] root by (auto simp: fs_bytes_eq split: option.splits if_splits)
  have "content_len (nodes (fsc s') ! i) = 5" using arg_cong [OF i(3), of length] by (simp add: node_bytes_def)
  with i fs_read_path_correct [of "fsc s'" "[''f'']" i 5] ok s' show ?thesis by (auto simp: kfs_ok_def)
qed

text \<open>\<open>fs_mkdir_p\<close> on an absolute path of plain names returns, restores the current
  directory, loses no entry, keeps the file system well formed, and if it reports success
  the whole path exists and is a directory.\<close>

theorem fs_mkdir_p_creates:
  assumes "kfs_ok s" "ns \<noteq> []" "\<forall>n \<in> set ns. plain_name n"
  shows "\<exists>r s'. fs_mkdir_p (join_path ns) s = Some (r, s') \<and> kfs_ok s'
    \<and> cwd (fsc s') = cwd (fsc s) \<and> fs_ext (fsc s) (fsc s') \<and> lk_same (lk s) (lk s')
    \<and> (r = FS_OK \<longrightarrow> (\<exists>i. lookup_path (fsc s') FS_ROOT_INDEX ns = Some i \<and> dir (fsc s') i))"
  by (rule fs_mkdir_p_ok [OF assms])

theorem fs_mkdir_p_creates_witness:
  "\<exists>r s'. fs_mkdir_p ''/d/f'' boot_kfs = Some (r, s') \<and> kfs_ok s' \<and> cwd (fsc s') = FS_ROOT_INDEX"
  using fs_mkdir_p_creates [OF boot_ok, of "[''d'', ''f'']"] by auto

text \<open>The path that \<open>fs_pwd\<close> prints leads back to the current directory, when the
  directory is at most 15 levels deep and the buffer is large enough.\<close>

theorem fs_pwd_resolves:
  assumes "fs_inv c" "last (pwd_chain (nodes c) (Some (cwd c)) FS_MAX_DEPTH) = FS_ROOT_INDEX"
    "length (join_path (pwd_names c)) < sz" "1 < sz"
  shows "lookup_path c FS_ROOT_INDEX (pwd_names c) = Some (cwd c)
    \<and> fs_pwd sz c = (if pwd_names c = [] then ''/'' else join_path (pwd_names c))"
  using pwd_chain_lookup [OF assms(1), of "cwd c" FS_MAX_DEPTH] fs_pwd_text [OF assms(3,4)]
    dir_live [OF fs_inv_cwd [OF assms(1)]] assms(2)
  by (simp add: pwd_names_def FS_MAX_DEPTH_def)

theorem fs_pwd_resolves_witness:
  "lookup_path one_dir FS_ROOT_INDEX [] = Some (cwd one_dir) \<and> fs_pwd 256 one_dir = ''/''"
proof -
  have "pwd_chain (nodes one_dir) (Some (cwd one_dir)) FS_MAX_DEPTH = [FS_ROOT_INDEX]"
    using fs_inv_root_parent [OF one_dir_inv] pwd_chain_cwd [of one_dir] by (simp add: one_dir_cwd)
  then show ?thesis using fs_pwd_resolves [OF one_dir_inv, of 256] by (simp add: pwd_names_def)
qed

text \<open>\<open>fs_init\<close> on any content of the node table returns, leaves a well-formed file
  system with the root as current directory, and the lock free.\<close>

theorem fs_init_establishes:
  assumes "table_ok s"
  shows "\<exists>s'. fs_init s = Some s' \<and> kfs_ok s' \<and> cwd (fsc s') = FS_ROOT_INDEX \<and> lk_free (lk s')"
  by (rule fs_init_ok [OF assms])

theorem fs_init_establishes_witness:
  "table_ok zero_kfs \<and> (\<exists>s'. fs_init zero_kfs = Some s' \<and> kfs_ok s')"
  using fs_init_establishes [OF zero_kfs_ok] by auto

end
