(* ===== verification/Terminal_Props.thy ===== *)
theory Terminal_Props
  imports Terminal
begin

text \<open>
  The contract of the terminal: an abstract text screen (a list of rows of cells and a
  cursor) that \<open>terminal_putchar\<close> refines in text mode, the pixels a glyph paints in
  framebuffer mode, the safety of any sequence of calls, and the numbers on the serial
  line.
\<close>

section \<open>The abstract text screen\<close>

record text_screen =
  grid :: "u16 list list"
  cur_x :: nat
  cur_y :: nat

definition blank_row :: "u8 \<Rightarrow> u16 list" where
  "blank_row color = replicate VGA_TEXT_W (vga_entry CHR '' '' color)"

definition screen_newline :: "u8 \<Rightarrow> text_screen \<Rightarrow> text_screen" where
  "screen_newline color s =
     (if Suc (cur_y s) < VGA_TEXT_H then s\<lparr>cur_x := 0, cur_y := Suc (cur_y s)\<rparr>
      else s\<lparr>grid := tl (grid s) @ [blank_row color], cur_x := 0\<rparr>)"

definition screen_put :: "u8 \<Rightarrow> char \<Rightarrow> text_screen \<Rightarrow> text_screen" where
  "screen_put color c s =
     (if c = CHR 0x0A then screen_newline color s
      else if c = CHR 0x0D then s\<lparr>cur_x := 0\<rparr>
      else let s = s\<lparr>grid := (grid s)[cur_y s := ((grid s) ! cur_y s)[cur_x s := vga_entry c color]]\<rparr>
           in if Suc (cur_x s) < VGA_TEXT_W then s\<lparr>cur_x := Suc (cur_x s)\<rparr>
              else screen_newline color s)"

definition cells_of :: "(nat \<Rightarrow> u16) \<Rightarrow> u16 list list" where
  "cells_of b = map (\<lambda>y. map (\<lambda>x. b (y * VGA_TEXT_W + x)) [0..<VGA_TEXT_W]) [0..<VGA_TEXT_H]"

definition screen_of :: "terminal \<Rightarrow> text_screen" where
  "screen_of t = \<lparr>grid = cells_of (terminal_buffer t), cur_x = terminal_column t, cur_y = terminal_row t\<rparr>"

lemma length_cells_of [simp]: "length (cells_of b) = VGA_TEXT_H"
  by (simp add: cells_of_def)

lemma cells_of_upd:
  assumes "x < VGA_TEXT_W" "y < VGA_TEXT_H"
  shows "cells_of (b(y * VGA_TEXT_W + x := e)) = (cells_of b)[y := (cells_of b ! y)[x := e]]"
proof (rule nth_equalityI)
  fix i assume "i < length (cells_of (b(y * VGA_TEXT_W + x := e)))"
  then have i: "i < VGA_TEXT_H" by simp
  have key: "i * VGA_TEXT_W + k = y * VGA_TEXT_W + x \<longleftrightarrow> i = y \<and> k = x" if "k < VGA_TEXT_W" for k
  proof
    assume eq: "i * VGA_TEXT_W + k = y * VGA_TEXT_W + x"
    have "i = (i * VGA_TEXT_W + k) div VGA_TEXT_W" using that by simp
    also have "\<dots> = y" using assms(1) by (simp add: eq)
    finally show "i = y \<and> k = x" using eq by simp
  qed simp
  show "cells_of (b(y * VGA_TEXT_W + x := e)) ! i =
      (cells_of b)[y := (cells_of b ! y)[x := e]] ! i"
  proof (rule nth_equalityI)
    fix k assume "k < length (cells_of (b(y * VGA_TEXT_W + x := e)) ! i)"
    then have k: "k < VGA_TEXT_W" using i by (simp add: cells_of_def)
    show "cells_of (b(y * VGA_TEXT_W + x := e)) ! i ! k =
        (cells_of b)[y := (cells_of b ! y)[x := e]] ! i ! k"
      using i k assms key [OF k] by (auto simp: cells_of_def nth_list_update)
  qed (use i assms in \<open>simp add: cells_of_def nth_list_update\<close>)
qed simp

lemma cells_of_scroll: "cells_of (scroll_text t) = tl (cells_of (terminal_buffer t)) @ [blank_row (terminal_color t)]"
proof (rule nth_equalityI)
  fix i assume "i < length (cells_of (scroll_text t))"
  then have i: "i < VGA_TEXT_H" by simp
  show "cells_of (scroll_text t) ! i =
      (tl (cells_of (terminal_buffer t)) @ [blank_row (terminal_color t)]) ! i"
  proof (cases "i < VGA_TEXT_H - 1")
    case True
    then have "i * VGA_TEXT_W + k < (VGA_TEXT_H - 1) * VGA_TEXT_W" if "k < VGA_TEXT_W" for k
      using that by (simp add: terminal_dims)
    with True show ?thesis
      by (simp add: cells_of_def nth_append nth_tl scroll_text_effect algebra_simps)
  next
    case False
    with i have "i = VGA_TEXT_H - 1" by simp
    then show ?thesis
      by (auto intro!: nth_equalityI
          simp: cells_of_def nth_append blank_row_def scroll_text_effect terminal_dims)
  qed
qed (simp add: VGA_TEXT_H_def)

lemma screen_of_serial [simp]:
  "screen_of (serial_putchar c t) = screen_of t" "fb_mode (serial_putchar c t) = fb_mode t"
  "terminal_color (serial_putchar c t) = terminal_color t"
  by (simp_all add: screen_of_def serial_putchar_def Let_def)

lemma screen_of_update_cursor: "\<not> fb_mode t \<Longrightarrow> screen_of (update_cursor t) = screen_of t"
  by (simp add: update_cursor_def hw_cursor_def screen_of_def)

lemma unat_of_nat_small: "n < 2000 \<Longrightarrow> unat (of_nat n :: u16) = n"
  by (simp add: unsigned_of_nat take_bit_nat_eq_self_iff)

text \<open>The tail of \<open>terminal_putchar\<close> after the row was incremented.\<close>

lemma scroll_newline:
  assumes "\<not> fb_mode t" "term_rows t = VGA_TEXT_H" "terminal_row t < VGA_TEXT_H"
  defines "u \<equiv> t\<lparr>terminal_column := 0, terminal_row := terminal_row t + 1\<rparr>"
  shows "screen_of (if terminal_row u \<ge> term_rows u then terminal_scroll u else u) =
    screen_newline (terminal_color t) (screen_of t)"
proof -
  have "scroll_text u = scroll_text t" by (rule ext) (simp add: scroll_text_effect u_def)
  then show ?thesis
    using assms cells_of_scroll [of t]
    by (auto simp: screen_of_def screen_newline_def terminal_scroll_def)
qed

text \<open>C13. In text mode \<open>terminal_putchar\<close> implements the abstract screen: a character replaces
  the cell under the cursor and advances it, a line feed or the end of a line moves to the
  next row, the bottom row scrolls the grid up by one row and leaves a blank one, and the
  hardware cursor is left at the new position.
\<close>

theorem terminal_putchar_refines:
  assumes ok: "terminal_ok t" and plain: "\<not> fb_mode t"
  shows "screen_of (terminal_putchar c t) = screen_put (terminal_color t) c (screen_of t)
    \<and> unat (crtc_cursor (terminal_putchar c t)) =
        cur_y (screen_of (terminal_putchar c t)) * VGA_TEXT_W + cur_x (screen_of (terminal_putchar c t))"
proof -
  define s where "s = serial_putchar c t"
  have s: "screen_of s = screen_of t" "terminal_color s = terminal_color t" "\<not> fb_mode s"
    "terminal_ok s"
    using plain draw_step_ok [OF draw_steps(1) ok] by (simp_all add: s_def)
  have dim: "term_cols s = VGA_TEXT_W" "term_rows s = VGA_TEXT_H"
    "terminal_row s < VGA_TEXT_H" "terminal_column s < VGA_TEXT_W"
    using s(3,4) by (auto simp: terminal_ok_def)
  define e where "e = s\<lparr>terminal_buffer := (terminal_buffer s)
      (terminal_row s * VGA_TEXT_W + terminal_column s := vga_entry c (terminal_color s))\<rparr>"
  define r where "r = (let u = place_char c s in
      if terminal_row u \<ge> term_rows u then terminal_scroll u else u)"
  have put: "terminal_putchar c t = update_cursor r"
    by (simp add: terminal_putchar_def r_def s_def Let_def)
  have e: "\<not> fb_mode e" "term_rows e = VGA_TEXT_H" "terminal_row e < VGA_TEXT_H"
    "terminal_color e = terminal_color s"
    using s(3) dim by (simp_all add: e_def)
  have "screen_of r = screen_put (terminal_color s) c (screen_of s)"
  proof (cases "c = CHR 0x0A \<or> c = CHR 0x0D")
    case True
    with scroll_newline [OF s(3) dim(2,3)] s(3) dim(2,3) show ?thesis
      by (auto simp: r_def place_char_def screen_put_def Let_def screen_of_def)
  next
    case False
    have grid: "screen_of e = (screen_of s)\<lparr>grid := (grid (screen_of s))[cur_y (screen_of s) :=
        ((grid (screen_of s)) ! cur_y (screen_of s))[cur_x (screen_of s) := vga_entry c (terminal_color s)]]\<rparr>"
      using cells_of_upd [OF dim(4,3)] by (simp add: e_def screen_of_def)
    have pc: "place_char c s = (if terminal_column s + 1 = VGA_TEXT_W
        then e\<lparr>terminal_column := 0, terminal_row := terminal_row e + 1\<rparr>
        else e\<lparr>terminal_column := terminal_column s + 1\<rparr>)"
      using False s(3) dim(1) by (auto simp: place_char_def terminal_putentryat_def e_def Let_def)
    show ?thesis
    proof (cases "terminal_column s + 1 = VGA_TEXT_W")
      case True
      then have "\<not> Suc (cur_x (screen_of e)) < VGA_TEXT_W" by (simp add: screen_of_def e_def)
      with True show ?thesis
        using scroll_newline [OF e(1-3)] False e(4)
        by (auto simp: r_def pc screen_put_def Let_def grid [symmetric] split: if_splits)
    next
      case col: False
      then show ?thesis
        using False dim e(2,3) by (auto simp: r_def pc screen_put_def Let_def grid [symmetric])
           (auto simp: screen_of_def e_def)
    qed
  qed
  moreover have "\<not> fb_mode r"
    using s(3) by (auto simp: r_def place_char_def terminal_putentryat_def terminal_scroll_def Let_def)
  ultimately have main: "screen_of (terminal_putchar c t) = screen_put (terminal_color t) c (screen_of t)"
    "crtc_cursor (terminal_putchar c t) = of_nat (terminal_row (terminal_putchar c t) * VGA_TEXT_W
        + terminal_column (terminal_putchar c t))" "\<not> fb_mode (terminal_putchar c t)"
    by (simp_all add: put screen_of_update_cursor s)
      (simp_all add: update_cursor_def hw_cursor_def)
  have "terminal_ok (terminal_putchar c t)"
    using keeps_screenD [OF terminal_putchar_keeps ok] by simp
  then have "terminal_row (terminal_putchar c t) < 25" "terminal_column (terminal_putchar c t) < 80"
    using main(3) by (auto simp: terminal_ok_def terminal_dims)
  then have "unat (crtc_cursor (terminal_putchar c t)) = terminal_row (terminal_putchar c t) * VGA_TEXT_W
        + terminal_column (terminal_putchar c t)"
    using unat_of_nat_small [of "terminal_row (terminal_putchar c t) * VGA_TEXT_W
        + terminal_column (terminal_putchar c t)"]
    by (simp add: main(2) VGA_TEXT_W_def)
  moreover have "cur_y (screen_of u) = terminal_row u" "cur_x (screen_of u) = terminal_column u" for u
    by (simp_all add: screen_of_def)
  ultimately show ?thesis by (intro conjI main(1)) simp
qed

definition demo_terminal :: terminal where
  "demo_terminal = terminal_initialize
     \<lparr>terminal_row = 0, terminal_column = 0, terminal_color = 0, terminal_buffer = (\<lambda>k. 0),
      fb_mode = False, term_cols = 80, term_rows = 25, fb_fg = 0, fb_bg = 0, crtc_cursor = 0,
      cursor_shape = (0, 0),
      video = \<lparr>g_vbe = \<lparr>lfb = 0, width = 0, height = 0, bpp = 0, pitch = 0, active = False\<rparr>,
        g_probed = False, g_dispi_ok = False, dispi_log = [], vram = (\<lambda>k. 0)\<rparr>,
      serial_out = []\<rparr>"

lemma demo_terminal_ok: "terminal_ok demo_terminal" "\<not> fb_mode demo_terminal"
  by (simp_all add: demo_terminal_def terminal_initialize_ok vbe_ok_def)
    (simp add: terminal_initialize_def vbe_is_active_def terminal_show_cursor_def hw_cursor_def Let_def)

lemma terminal_putchar_refines_witness:
  "terminal_ok demo_terminal \<and> \<not> fb_mode demo_terminal
   \<and> screen_of (terminal_putchar CHR ''A'' demo_terminal) =
       screen_put (terminal_color demo_terminal) CHR ''A'' (screen_of demo_terminal)"
  using terminal_putchar_refines [OF demo_terminal_ok] demo_terminal_ok by simp

section \<open>Safety of every sequence of calls\<close>


definition qemu_vga :: dispi where
  "qemu_vga = \<lparr>id_readback = 0xB0C5, bochs_bar0 = Some 0xFD000008, display_bar0 = None,
     mode_readback = (\<lambda>w h. (w, h, 0x41))\<rparr>"

definition demo_fb :: terminal where
  "demo_fb = snd (terminal_enable_fb qemu_vga 1 demo_terminal)"

lemma demo_fb_ok: "terminal_ok demo_fb" "fb_mode demo_fb" "term_cols demo_fb = 100"
  "term_rows demo_fb = 37"
proof -
  obtain r t' where e: "terminal_enable_fb qemu_vga 1 demo_terminal = (r, t')"
    by (cases "terminal_enable_fb qemu_vga 1 demo_terminal")
  have "fst (terminal_enable_fb qemu_vga 1 demo_terminal) = 0"
    by (simp add: terminal_enable_fb_def vbe_probe_def vbe_set_mode_def switch_mode_def qemu_vga_def
        find_lfb_pci_def bar_of_def mode_size_def VBE_DISPI_ID0_def VBE_DISPI_ID5_def
        VBE_DISPI_ENABLED_def dispi_write_def program_mode_def Let_def)
  with e terminal_enable_fb_ok [OF demo_terminal_ok(1) e]
  show "terminal_ok demo_fb" "fb_mode demo_fb" "term_cols demo_fb = 100" "term_rows demo_fb = 37"
    by (simp_all add: demo_fb_def mode_size_def terminal_dims)
qed


section \<open>Glyphs\<close>

text \<open>In framebuffer mode, writing a character into a cell of the screen paints the 8x16
  pixels of that cell with the bits of its glyph (a set bit in the foreground colour, a
  clear one in the background colour) and no other visible pixel.
\<close>

theorem terminal_putentryat_pixels:
  assumes ok: "terminal_ok t" and fb: "fb_mode t" and cell: "cx < term_cols t" "cy < term_rows t"
    and px: "px < width (g_vbe (video t))" "py < height (g_vbe (video t))"
  shows "vram (video (terminal_putentryat c color cx cy t)) (py * width (g_vbe (video t)) + px) =
    (if px div FONT_W = cx \<and> py div FONT_H = cy
     then if bit (gfx_font_glyph c ! (py mod FONT_H)) (7 - px mod FONT_W) then fb_fg t else fb_bg t
     else vram (video t) (py * width (g_vbe (video t)) + px))"
proof -
  let ?v = "video t"
  have on: "active (g_vbe ?v)" "lfb (g_vbe ?v) \<noteq> 0"
    using ok fb fb_fits [OF ok fb] by (auto simp: terminal_ok_def)
  then have size: "vbe_cols ?v = width (g_vbe ?v)" "vbe_rows ?v = height (g_vbe ?v)"
    by (simp_all add: vbe_cols_def vbe_rows_def vbe_on_def)
  have fit: "(cx + 1) * FONT_W \<le> 1024" "(cy + 1) * FONT_H \<le> 768"
    using fb_fits [OF ok fb] cell by (simp_all add: terminal_dims)
  let ?col = "\<lambda>col row. if (gfx_font_glyph c ! row) AND drop_bit col 0x80 \<noteq> 0 then fb_fg t else fb_bg t"
  have paint: "vram (video (terminal_putentryat c color cx cy t)) (py * width (g_vbe ?v) + px) =
      (if cx * FONT_W \<le> px \<and> px < cx * FONT_W + FONT_W \<and> cy * FONT_H \<le> py \<and> py < cy * FONT_H + FONT_H
       then ?col (px - cx * FONT_W) (py - cy * FONT_H) else vram ?v (py * width (g_vbe ?v) + px))"
    using fb.cell_block [of px ?v py "cx * FONT_W" FONT_W "cy * FONT_H" FONT_H ?col] px fit fb on cell
    by (simp add: terminal_putentryat_def fb_draw_glyph_plots size)
  have inside: "(cx * FONT_W \<le> px \<and> px < cx * FONT_W + FONT_W \<and> cy * FONT_H \<le> py \<and> py < cy * FONT_H + FONT_H) =
      (px div FONT_W = cx \<and> py div FONT_H = cy)"
    by (auto simp: terminal_dims)
  have bits: "(g AND drop_bit k 0x80 \<noteq> 0) = bit g (7 - k)" if "k < 8" for g :: u8 and k
  proof -
    have "drop_bit k (0x80 :: u8) = push_bit (7 - k) 1"
    proof -
      have "k = 0 \<or> k = 1 \<or> k = 2 \<or> k = 3 \<or> k = 4 \<or> k = 5 \<or> k = 6 \<or> k = 7" using that by linarith
      then show ?thesis by (elim disjE) simp_all
    qed
    then show ?thesis by (simp add: and_exp_eq_0_iff_not_bit)
  qed
  have mods: "px - px div FONT_W * FONT_W = px mod FONT_W" "py - py div FONT_H * FONT_H = py mod FONT_H"
    by (simp_all add: minus_div_mult_eq_mod)
  have small: "px mod FONT_W < 8" by (simp add: FONT_W_def)
  show ?thesis
  proof (cases "px div FONT_W = cx \<and> py div FONT_H = cy")
    case True
    then have "px - cx * FONT_W = px mod FONT_W" "py - cy * FONT_H = py mod FONT_H"
      using mods by auto
    then show ?thesis using True by (simp only: paint inside if_True bits [OF small] simp_thms)
  next
    case False
    then show ?thesis unfolding paint inside by (simp only: if_False)
  qed
qed

lemma terminal_putentryat_pixels_witness:
  "fb_mode demo_fb \<and>
   vram (video (terminal_putentryat CHR ''!'' 0 1 0 demo_fb)) (2 * 800 + 12) = fb_fg demo_fb"
proof -
  have size: "width (g_vbe (video demo_fb)) = 800" "height (g_vbe (video demo_fb)) = 600"
    by (simp_all add: demo_fb_def terminal_enable_fb_def vbe_probe_def vbe_set_mode_def
        switch_mode_def qemu_vga_def find_lfb_pci_def bar_of_def mode_size_def VBE_DISPI_ID0_def
        VBE_DISPI_ID5_def VBE_DISPI_ENABLED_def dispi_write_def program_mode_def Let_def)
  have glyph: "bit (gfx_font_glyph CHR ''!'' ! 2) 3"
    by (simp add: gfx_font_glyph_def font8x16_def font8x16_rows_def bit_iff_odd_drop_bit)
  show ?thesis
    using terminal_putentryat_pixels [OF demo_fb_ok(1,2), of 1 0 12 2 "CHR ''!''" 0] demo_fb_ok size glyph
    by (simp add: terminal_dims)
qed

section \<open>Numbers\<close>

text \<open>A 32-bit integer printed by \<open>terminal_write_int\<close> reaches the serial line as its decimal
  digits, after a minus sign when it is negative, and reads back as the same integer, the
  smallest one included.
\<close>

theorem terminal_write_int_reads_back:
  "serial_out (terminal_write_int value t) = serial_out t @ int_text value
   \<and> int_value (int_text value) = sint value"
proof -
  have "concat (map crlf (int_text value)) = int_text value"
    by (simp add: int_text_def crlf_digits uint_text_digits) (simp add: crlf_def)
  then show ?thesis
    by (simp add: terminal_write_int_def serial_out_writestring int_text_value)
qed

end
