(* ===== verification/Syscall_Props.thy ===== *)
theory Syscall_Props
  imports Syscall_Inv Ramfs_Props Terminal_Props
begin

text \<open>
  What a user program can rely on at the system-call boundary: no call corrupts the
  kernel's state, a file descriptor behaves as a cursor over the bytes of its file,
  anonymous mappings are fresh zeroed pages of the arena; and two places where the code
  departs from what it documents.
\<close>

section \<open>Safety\<close>

lemma sys_ok_print: "sys_ok s \<Longrightarrow> sys_ok (s\<lparr>tty := terminal_writestring str (tty s)\<rparr>)"
  using keeps_screenD [OF terminal_writestring_keeps] by (simp add: sys_ok_tty sys_okD(3))

lemma exit_ok: "sys_ok s \<Longrightarrow> sys_ok (snd (process_exit_to_kernel c s))"
  using sys_ok_print [of "s\<lparr>g_exit_code := c\<rparr>"]
  by (simp add: process_exit_to_kernel_def Let_def del: terminal_writestring.simps)

lemma power_ok: "sys_ok s \<Longrightarrow> sys_ok (snd (machine_shutdown s))" "sys_ok s \<Longrightarrow> sys_ok (snd (machine_reboot s))"
  by (simp_all add: machine_shutdown_def machine_reboot_def sys_ok_print del: terminal_writestring.simps)


definition boot_sys :: sys where
  "boot_sys = fd_table_reset (user_heap_reset
     \<lparr>umem = (\<lambda>a. 0), fds = replicate FD_MAX \<lparr>ftype = FD_NONE, used = False, data = None, len = 0, pos = 0,
        writable = False, fname = []\<rparr>,
      user_brk = 0, mmap_bump = 0, g_umask = 0x12, tls_base = 0, g_hostname = ''mykernel'',
      rng = 0xA5A5A5A5, g_exit_code = 0, g_have_jmp = True, rfs = boot_kfs, tty = demo_terminal,
      tmr = zero_timer, sch = boot_sched\<rparr>)"

lemma fold_upd_fd:
  "fold (\<lambda>i. upd_fd i (g i)) is s = s\<lparr>fds := fold (\<lambda>i fs. fs[i := g i (fs ! i)]) is (fds s)\<rparr>"
  by (induction "is" arbitrary: s) (simp_all add: upd_fd_def)

lemma fold_upd_map:
  "n \<le> length xs \<Longrightarrow> fold (\<lambda>i xs. xs[i := g i (xs ! i)]) [0..<n] xs =
     map (\<lambda>i. if i < n then g i (xs ! i) else xs ! i) [0..<length xs]"
proof (induction n)
  case (Suc n)
  then show ?case by (auto intro!: nth_equalityI simp: nth_list_update less_Suc_eq)
qed (simp add: map_nth)

lemma boot_sys_umem [simp]: "umem boot_sys a = 0"
  by (simp add: boot_sys_def fd_table_reset_def user_heap_reset_def fold_upd_fd)

lemma boot_sys_fds:
  "fds boot_sys = map (\<lambda>i. \<lparr>ftype = (if i < 3 then FD_CONSOLE else FD_NONE), used = i < 3, data = None,
      len = 0, pos = 0, writable = i = 1 \<or> i = 2, fname = []\<rparr>) [0..<FD_MAX]"
proof -
  have clear: "fold (\<lambda>i fs. fs[i := (fs ! i)\<lparr>used := False, ftype := FD_NONE, data := None, len := 0,
        pos := 0, writable := False, fname := []\<rparr>]) [0..<FD_MAX] (replicate FD_MAX x) =
      replicate FD_MAX \<lparr>ftype = FD_NONE, used = False, data = None, len = 0, pos = 0,
        writable = False, fname = []\<rparr>" for x :: fd_entry
    using fold_upd_map [of FD_MAX "replicate FD_MAX x" "\<lambda>i f. f\<lparr>used := False, ftype := FD_NONE,
        data := None, len := 0, pos := 0, writable := False, fname := []\<rparr>"]
    by (auto intro!: nth_equalityI)
  have "3 \<le> FD_MAX" by (simp add: FD_MAX_def)
  then show ?thesis
    using fold_upd_map [of 3 "replicate FD_MAX \<lparr>ftype = FD_NONE, used = False, data = None, len = 0, pos = 0,
        writable = False, fname = []\<rparr>" "\<lambda>i f. f\<lparr>used := True, ftype := FD_CONSOLE, writable := i \<noteq> 0\<rparr>"]
    by (auto intro!: nth_equalityI
        simp: boot_sys_def fd_table_reset_def user_heap_reset_def fold_upd_fd clear)
qed

lemma boot_sys_ok: "sys_ok boot_sys"
proof -
  have "sys_ok boot_sys \<longleftrightarrow> (\<forall>f \<in> set (fds boot_sys). fd_ok f) \<and> length (fds boot_sys) = FD_MAX"
    using boot_sched_ok demo_terminal_ok
    by (simp add: sys_ok_def) (auto simp: boot_sys_def fd_table_reset_def user_heap_reset_def fold_upd_fd
        USER_HEAP_BASE_def USER_HEAP_MAX_def MMAP_BASE_def MMAP_END_def)
  then show ?thesis by (simp add: boot_sys_fds fd_ok_def)
qed


section \<open>A descriptor is a cursor over its file\<close>

datatype io = Rd nat | Seek int int

text \<open>The calls a program makes on one descriptor, with what each of them delivers: its
  result and, for a read, the bytes in the buffer.\<close>

definition io_step :: "nat \<Rightarrow> u32 \<Rightarrow> io \<Rightarrow> sys \<Rightarrow> (int \<times> u8 list) \<times> sys" where
  "io_step fd buf x s =
     (case x of
        Rd n \<Rightarrow> let (r, s') = sys_read (int fd) buf (int n) s in ((r, load_bytes (umem s') buf (nat r)), s')
      | Seek off whence \<Rightarrow> let (r, s') = sys_lseek (int fd) off whence s in ((r, []), s'))"

fun io_run :: "nat \<Rightarrow> u32 \<Rightarrow> io list \<Rightarrow> sys \<Rightarrow> (int \<times> u8 list) list" where
  "io_run fd buf [] s = []"
| "io_run fd buf (x # xs) s = (let (r, s') = io_step fd buf x s in r # io_run fd buf xs s')"

text \<open>The specification: a position in a list of bytes.\<close>

definition cursor_step :: "u8 list \<Rightarrow> io \<Rightarrow> nat \<Rightarrow> (int \<times> u8 list) \<times> nat" where
  "cursor_step bs x p =
     (case x of
        Rd n \<Rightarrow> let out = take n (drop p bs) in ((int (length out), out), p + length out)
      | Seek off whence \<Rightarrow>
          if whence \<notin> {0, 1, 2} then ((- 22, []), p)
          else let q = (if whence = 0 then 0 else if whence = 1 then int p else int (length bs)) + off
               in if q < 0 then ((- 22, []), p)
                  else ((int (min (nat q) (length bs)), []), min (nat q) (length bs)))"

fun cursor_run :: "u8 list \<Rightarrow> io list \<Rightarrow> nat \<Rightarrow> (int \<times> u8 list) list" where
  "cursor_run bs [] p = []"
| "cursor_run bs (x # xs) p = (let (r, p') = cursor_step bs x p in r # cursor_run bs xs p')"

definition io_bounded :: "io \<Rightarrow> bool" where
  "io_bounded x \<longleftrightarrow> (case x of Rd n \<Rightarrow> True | Seek off whence \<Rightarrow> \<bar>off\<bar> < 2 ^ 30)"

text \<open>What a descriptor stands for: the bytes of its node and its position in them.\<close>

definition fd_file :: "sys \<Rightarrow> nat \<Rightarrow> u8 list" where
  "fd_file s fd = map (fd_byte s (fds s ! fd)) [0..<len (fds s ! fd)]"

lemma fd_file_cong:
  "rfs s' = rfs s \<Longrightarrow> data (fds s' ! fd) = data (fds s ! fd) \<Longrightarrow> len (fds s' ! fd) = len (fds s ! fd) \<Longrightarrow>
   fd_file s' fd = fd_file s fd"
  by (simp add: fd_file_def fd_byte_def cong: option.case_cong)

definition open_file :: "nat \<Rightarrow> sys \<Rightarrow> bool" where
  "open_file fd s \<longleftrightarrow> sys_ok s \<and> fd < FD_MAX \<and> used (fds s ! fd) \<and> ftype (fds s ! fd) = FD_RAMFILE"

lemma open_fileD:
  assumes "open_file fd s"
  shows "\<not> bad_fd (int fd) s" "pos (fds s ! fd) \<le> len (fds s ! fd)" "len (fds s ! fd) < 8192"
    "length (fds s) = FD_MAX"
  using assms sys_okD(5) [of s fd] sys_okD(1) [of s]
  by (auto simp: open_file_def bad_fd_def fd_ok_def fs_consts)

lemma read_step:
  assumes fo: "open_file fd s" and buf: "buf \<noteq> 0" and r: "io_step fd buf (Rd n) s = (r, s')"
  shows "(r, pos (fds s' ! fd)) = cursor_step (fd_file s fd) (Rd n) (pos (fds s ! fd))
    \<and> open_file fd s' \<and> fd_file s' fd = fd_file s fd"
proof -
  let ?f = "fds s ! fd"
  note d = open_fileD [OF fo]
  have ft: "ftype ?f = FD_RAMFILE" "fd < length (fds s)" using fo d(4) by (auto simp: open_file_def)
  define k where "k = min n (len ?f - pos ?f)"
  define bs where "bs = map (\<lambda>i. fd_byte s ?f (pos ?f + i)) [0..<k]"
  have sr: "sys_read (int fd) buf (int n) s =
      (int k, upd_fd fd (\<lambda>f. f\<lparr>pos := pos f + k\<rparr>) (poke (store_bytes buf bs) s))"
    using sys_read_file [of "int n" buf "int fd" s] d ft buf by (simp add: k_def bs_def)
  have s': "s' = upd_fd fd (\<lambda>f. f\<lparr>pos := pos f + k\<rparr>) (poke (store_bytes buf bs) s)"
    and r': "r = (int k, load_bytes (umem s') buf k)"
    using r by (auto simp: io_step_def sr)
  have "length bs \<le> 2 ^ 32" using d(3) by (simp add: bs_def k_def)
  then have load: "load_bytes (umem s') buf k = bs"
    using load_store_bytes [of bs buf "umem s"] by (simp add: s' upd_fd_def bs_def)
  have take: "bs = take n (drop (pos ?f) (fd_file s fd))"
    using d(2) by (auto intro!: nth_equalityI simp: bs_def k_def fd_file_def)
  have "sys_ok s'" using sys_read_ok [of s "int fd" buf "int n"] fo by (simp add: open_file_def sr s')
  then have "open_file fd s'" using fo ft(2) by (auto simp: open_file_def s' upd_fd_def)
  moreover have "fd_file s' fd = fd_file s fd" using ft(2) by (intro fd_file_cong) (simp_all add: s' upd_fd_def)
  moreover have "pos (fds s' ! fd) = pos ?f + k" using ft(2) by (simp add: s' upd_fd_def)
  moreover have "length bs = k" by (simp add: bs_def)
  ultimately show ?thesis by (simp add: cursor_step_def Let_def r' load take [symmetric])
qed

lemma seek_step:
  assumes fo: "open_file fd s" and b: "\<bar>off\<bar> < 2 ^ 30" and r: "io_step fd buf (Seek off wh) s = (r, s')"
  shows "(r, pos (fds s' ! fd)) = cursor_step (fd_file s fd) (Seek off wh) (pos (fds s ! fd))
    \<and> open_file fd s' \<and> fd_file s' fd = fd_file s fd"
proof -
  let ?f = "fds s ! fd"
  note d = open_fileD [OF fo]
  have ft: "ftype ?f = FD_RAMFILE" "fd < length (fds s)" using fo d(4) by (auto simp: open_file_def)
  have ok: "sys_ok (snd (sys_lseek (int fd) off wh s))" using fo sys_lseek_ok by (simp add: open_file_def)
  have len: "length (fd_file s fd) = len ?f" by (simp add: fd_file_def)
  show ?thesis
  proof (cases "seek_base wh ?f")
    case None
    then have "wh \<notin> {0, 1, 2}" by (auto simp: seek_base_def syscall_nr split: if_splits)
    moreover have "sys_lseek (int fd) off wh s = (- EINVAL, s)"
      using None d(1) ft by (simp add: sys_lseek_def)
    ultimately show ?thesis using r fo by (auto simp: io_step_def cursor_step_def syscall_nr)
  next
    case (Some q)
    then have wh: "wh \<in> {0, 1, 2}"
      and q: "q = (if wh = 0 then 0 else if wh = 1 then int (pos ?f) else int (len ?f))"
      by (auto simp: seek_base_def syscall_nr split: if_splits)
    have "0 \<le> q \<and> q < 8192" using d(2,3) q by auto
    then have ai: "as_int (q + off) = q + off" using b by (intro as_int_id) auto
    show ?thesis
    proof (cases "q + off < 0")
      case True
      then have "sys_lseek (int fd) off wh s = (- EINVAL, s)"
        using Some d(1) ft ai by (simp add: sys_lseek_def)
      then show ?thesis using r fo True wh q len by (auto simp: io_step_def cursor_step_def syscall_nr Let_def)
    next
      case False
      define p where "p = min (nat (q + off)) (len ?f)"
      have "sys_lseek (int fd) off wh s = (int p, upd_fd fd (\<lambda>f. f\<lparr>pos := p\<rparr>) s)"
        using Some d(1) ft ai False by (simp add: sys_lseek_def Let_def p_def min_def)
      with r have s': "s' = upd_fd fd (\<lambda>f. f\<lparr>pos := p\<rparr>) s" and r': "r = (int p, [])"
        by (auto simp: io_step_def)
      have "cursor_step (fd_file s fd) (Seek off wh) (pos ?f) = ((int p, []), p)"
        using wh q False len by (auto simp: cursor_step_def Let_def p_def)
      moreover have "open_file fd s'"
        using ok fo ft(2) \<open>sys_lseek (int fd) off wh s = _\<close> by (auto simp: open_file_def s' upd_fd_def)
      moreover have "fd_file s' fd = fd_file s fd" using ft(2) by (intro fd_file_cong) (simp_all add: s' upd_fd_def)
      moreover have "pos (fds s' ! fd) = p" using ft(2) by (simp add: s' upd_fd_def)
      ultimately show ?thesis by (simp add: r')
    qed
  qed
qed

lemma io_run_cursor:
  "open_file fd s \<Longrightarrow> buf \<noteq> 0 \<Longrightarrow> list_all io_bounded xs \<Longrightarrow>
   io_run fd buf xs s = cursor_run (fd_file s fd) xs (pos (fds s ! fd))"
proof (induction xs arbitrary: s)
  case (Cons x xs)
  obtain r s' where st: "io_step fd buf x s = (r, s')" by (cases "io_step fd buf x s")
  have "(r, pos (fds s' ! fd)) = cursor_step (fd_file s fd) x (pos (fds s ! fd))
      \<and> open_file fd s' \<and> fd_file s' fd = fd_file s fd"
  proof (cases x)
    case (Rd n)
    show ?thesis using read_step [OF Cons.prems(1,2)] st unfolding Rd .
  next
    case (Seek off wh)
    then show ?thesis using seek_step [OF Cons.prems(1) _ st [unfolded Seek]] Cons.prems(3)
      by (simp add: io_bounded_def)
  qed
  then show ?case
    using Cons.IH [of s'] Cons.prems st by (simp add: Let_def split: prod.split) (metis prod.inject)
qed simp

text \<open>C16. \<open>sys_open\<close> of a file of the current directory gives the lowest free descriptor, at
  the start of the file's bytes, and from then on any sequence of reads and seeks on it
  delivers what a cursor over those bytes delivers: the next bytes in order, fewer at the
  end, none behind it, and the same results for seeks.\<close>

theorem open_read_seek_refines_cursor:
  assumes ok: "sys_ok s" and p: "p \<noteq> 0" "cstr (umem s) p = Some name" "name \<noteq> []"
    and stored: "file_get name (rfs s) = Some str" and fd: "fd_alloc s = Some fd"
    and buf: "buf \<noteq> 0" and xs: "list_all io_bounded xs"
  shows "\<exists>s'. sys_open p 0 s = Some (int fd, s')
    \<and> io_run fd buf xs s' = cursor_run (map byte_of str) xs 0"
proof -
  obtain node n where rd: "fs_read name (fsc (rfs s)) = (FS_OK, Some (node, n))"
    and str: "str = node_bytes (nodes (fsc (rfs s)) ! node) n"
    using stored by (auto simp: file_get_def fs_bytes_def fs_read_def split: option.splits if_splits)
  note nd = fs_read_OK [OF sys_okD(2) [OF ok] rd]
  define s' where "s' = snd (open_node name 0 node n s)"
  have op: "open_node name 0 node n s = (int fd, s')" using fd by (simp add: s'_def open_node_def)
  have open_s: "sys_open p 0 s = Some (int fd, s')" using p rd op by (simp add: sys_open_def)
  have i: "fd < FD_MAX" "fd < length (fds s)" using fd_alloc_SomeD [OF fd] sys_okD(1) [OF ok] by auto
  have f: "fds s' ! fd = (fds s ! fd)\<lparr>used := True, ftype := FD_RAMFILE, data := Some node, len := n,
      pos := 0, writable := False, fname := name_copy name 48\<rparr>"
    using fd i by (simp add: s'_def open_node_def upd_fd_def)
  have "sys_ok s'" using open_node_ok [OF ok, of node n] nd by (simp add: s'_def)
  then have "open_file fd s'" using i f by (simp add: open_file_def)
  moreover have "fd_file s' fd = map byte_of str"
  proof -
    have "rfs s' = rfs s" using fd by (simp add: s'_def open_node_def upd_fd_def)
    then show ?thesis by (simp add: fd_file_def f fd_byte_def str node_bytes_def)
  qed
  moreover have "pos (fds s' ! fd) = 0" by (simp add: f)
  ultimately show ?thesis using open_s io_run_cursor [of fd s' buf xs] buf xs by simp
qed

definition demo_sys :: "kfs \<Rightarrow> sys" where
  "demo_sys k = boot_sys\<lparr>umem := (\<lambda>a. 0)(1 := 102), rfs := k\<rparr>"

lemma demo_file: "\<exists>k. file_put ''f'' ''hello'' boot_kfs = Some k \<and> kfs_ok k \<and> file_get ''f'' k = Some ''hello''"
  using boot_write rf.put_invar [OF boot_ok] rf.get_put_same [OF boot_ok] by blast

lemma demo_sys_facts:
  "kfs_ok k \<Longrightarrow> sys_ok (demo_sys k)" "cstr (umem (demo_sys k)) 1 = Some ''f''"
  "fd_alloc (demo_sys k) = Some 3" "rfs (demo_sys k) = k"
proof -
  show "kfs_ok k \<Longrightarrow> sys_ok (demo_sys k)" using boot_sys_ok by (simp add: demo_sys_def sys_ok_rfs)
  show "cstr (umem (demo_sys k)) 1 = Some ''f''"
    by (simp add: demo_sys_def cstr.simps [of _ 1] cstr.simps [of _ 2] char_of_byte_def char_of_def bit_Suc bit_0)
  show "fd_alloc (demo_sys k) = Some 3"
    unfolding fd_alloc_def by (rule scan_SomeI) (simp_all add: demo_sys_def boot_sys_fds FD_MAX_def)
qed (simp add: demo_sys_def)

lemma open_read_seek_refines_cursor_witness:
  "\<exists>k s'. file_put ''f'' ''hello'' boot_kfs = Some k \<and> sys_open 1 0 (demo_sys k) = Some (3, s')
    \<and> io_run 3 0x500000 [Rd 1, Rd 5, Seek 0 0, Rd 2] s' = [(1, [104]), (4, [101, 108, 108, 111]), (0, []), (2, [104, 101])]"
proof -
  obtain k where k: "file_put ''f'' ''hello'' boot_kfs = Some k" "kfs_ok k" "file_get ''f'' k = Some ''hello''"
    using demo_file by blast
  have "cursor_run (map byte_of ''hello'') [Rd 1, Rd 5, Seek 0 0, Rd 2] 0 =
      [(1, [104]), (4, [101, 108, 108, 111]), (0, []), (2, [104, 101])]"
    by (simp add: cursor_step_def byte_of_def)
  moreover have "\<exists>s'. sys_open 1 0 (demo_sys k) = Some (int 3, s')
      \<and> io_run 3 0x500000 [Rd 1, Rd 5, Seek 0 0, Rd 2] s' =
        cursor_run (map byte_of ''hello'') [Rd 1, Rd 5, Seek 0 0, Rd 2] 0"
    by (rule open_read_seek_refines_cursor [where name = "''f''"])
      (use k demo_sys_facts in \<open>simp_all add: io_bounded_def\<close>)
  ultimately show ?thesis using k(1) by (metis of_nat_numeral)
qed

section \<open>Anonymous mappings\<close>

definition round_page :: "nat \<Rightarrow> nat" where
  "round_page n = (n + 4095) div 4096 * 4096"

lemma round_page_small:
  assumes "n \<le> 2 ^ 24"
  shows "round_page n \<le> 2 ^ 24"
proof -
  have "(n + 4095) div 4096 \<le> (2 ^ 24 + 4095) div 4096" using assms by (intro div_le_mono) simp
  then show ?thesis by (simp add: round_page_def)
qed

text \<open>An anonymous mapping of up to 16 MiB without a fixed address gets the next pages of
  the arena, rounded up, all zero, or -ENOMEM when they do not fit; nothing else in memory
  changes, so it overlaps no earlier mapping.\<close>

theorem mmap_anonymous_fresh:
  assumes ok: "sys_ok s" and n: "0 < n" "unat n \<le> 2 ^ 24"
    and flg: "flgs AND MAP_ANONYMOUS \<noteq> 0" "flgs AND MAP_FIXED = 0 \<or> addr = 0"
  shows "case sys_mmap2 addr n prot flgs fd pgoff s of (r, s') \<Rightarrow>
    if unat (mmap_bump s) + round_page (unat n) \<le> unat MMAP_END
    then r = int (unat (mmap_bump s))
       \<and> unat (mmap_bump s') = unat (mmap_bump s) + round_page (unat n)
       \<and> (\<forall>a. umem s' a = (if unat (mmap_bump s) \<le> unat a \<and> unat a < unat (mmap_bump s) + round_page (unat n)
                            then 0 else umem s a))
       \<and> s'\<lparr>umem := umem s, mmap_bump := mmap_bump s\<rparr> = s
    else r = - ENOMEM \<and> s' = s"
proof -
  let ?b = "mmap_bump s" and ?n = "align_up_page n"
  have N: "unat ?n = round_page (unat n)" using unat_align_up [of n] n(2) by (simp add: round_page_def)
  have small: "round_page (unat n) \<le> 2 ^ 24" by (rule round_page_small [OF n(2)])
  have fits: "\<not> ?n > MMAP_END - MMAP_BASE" using small N by (simp add: word_less_nat_alt)
  have b: "unat ?b \<le> 2 ^ 25" using ok by (simp add: sys_ok_def word_le_nat_alt)
  note sum = bump_room(1) [OF ok fits]
  have n0: "n \<noteq> 0" using n(1) by auto
  show ?thesis
  proof (cases "unat ?b + round_page (unat n) \<le> unat MMAP_END")
    case True
    then have "\<not> ?b + ?n > MMAP_END" using sum N by (simp add: word_less_nat_alt)
    then have m: "sys_mmap2 addr n prot flgs fd pgoff s = (sint ?b,
        poke (mem_zero ?b ?n) (s\<lparr>mmap_bump := ?b + ?n\<rparr>))"
      using flg fits n0 by (auto simp: sys_mmap2_def Let_def)
    have "sint ?b = int (unat ?b)"
      using b by (intro sint_small) simp
    moreover have "a - ?b < ?n \<longleftrightarrow> unat ?b \<le> unat a \<and> unat a < unat ?b + round_page (unat n)" for a
    proof (cases "unat ?b \<le> unat a")
      case True
      then show ?thesis using N by (auto simp: word_less_nat_alt unat_sub word_le_nat_alt)
    next
      case False
      then have "unat (a - ?b) = unat a + 2 ^ 32 - unat ?b" by (simp add: unat_sub_if_size word_size)
      moreover have "unat ?b \<le> 33554432" "unat ?n \<le> 16777216" using b small N by simp_all
      ultimately have "\<not> unat (a - ?b) < unat ?n" by simp
      then show ?thesis using False by (simp add: word_less_nat_alt)
    qed
    ultimately show ?thesis using True N sum by (simp add: m mem_zero_def)
  next
    case False
    then have "?b + ?n > MMAP_END" using sum N by (simp add: word_less_nat_alt)
    then show ?thesis using flg fits n0 False by (auto simp: sys_mmap2_def Let_def)
  qed
qed

lemma mmap_anonymous_fresh_witness:
  "sys_ok boot_sys \<and> fst (sys_mmap2 0 5000 3 0x22 (-1) 0 boot_sys) = 0x1000000
   \<and> unat (mmap_bump (snd (sys_mmap2 0 5000 3 0x22 (-1) 0 boot_sys))) = 0x1002000"
proof -
  have "mmap_bump boot_sys = 0x1000000"
    by (simp add: boot_sys_def fd_table_reset_def user_heap_reset_def fold_upd_fd MMAP_BASE_def)
  then show ?thesis
    using mmap_anonymous_fresh [OF boot_sys_ok, of 5000 "0x22" 0 3 "-1" 0] boot_sys_ok
    by (simp add: round_page_def syscall_nr split: prod.splits)
qed

text \<open>The bound check of a fixed mapping wraps around: when address and length together
  pass the end of the address space, the sum is small, the request is accepted, and the
  kernel zeroes memory above the arena.\<close>

theorem mmap_fixed_escapes_arena:
  assumes n: "unat n \<le> 2 ^ 24" and flg: "flgs AND MAP_ANONYMOUS \<noteq> 0" "flgs AND MAP_FIXED \<noteq> 0"
    and wrap: "2 ^ 32 \<le> unat addr + round_page (unat n)"
  shows "sys_mmap2 addr n prot flgs fd pgoff s = (sint addr, poke (mem_zero addr (align_up_page n)) s)
    \<and> addr > MMAP_END \<and> (\<forall>a \<ge> addr. mem_zero addr (align_up_page n) (umem s) a = 0)"
proof -
  let ?n = "align_up_page n"
  have N: "unat ?n = round_page (unat n)" using unat_align_up [of n] n by (simp add: round_page_def)
  have small: "unat ?n \<le> 16777216" using round_page_small [OF n] N by simp
  have wrap': "4294967296 \<le> unat addr + unat ?n" using wrap N by simp
  have lt: "unat addr < 4294967296" using unsigned_less [of addr] by simp
  have sum: "unat (addr + ?n) = unat addr + unat ?n - 4294967296"
    using wrap' lt small by (simp add: unat_word_ariths mod_if)
  have n0: "n \<noteq> 0" using wrap lt by (auto simp: round_page_def)
  have "\<not> addr < MMAP_BASE" "\<not> addr + ?n > MMAP_END" "MMAP_END < addr" "addr \<noteq> 0" "\<not> ?n > MMAP_END - MMAP_BASE"
    using wrap' lt small sum by (auto simp: word_less_nat_alt)
  then have "sys_mmap2 addr n prot flgs fd pgoff s = (sint addr, poke (mem_zero addr ?n) s)"
    using flg n0 by (simp add: sys_mmap2_def Let_def)
  moreover have "a - addr < ?n" if "addr \<le> a" for a
  proof -
    have "unat (a - addr) = unat a - unat addr" using that by (simp add: unat_sub)
    moreover have "unat a < 4294967296" using unsigned_less [of a] by simp
    ultimately show ?thesis using wrap' that by (simp add: word_less_nat_alt word_le_nat_alt)
  qed
  ultimately show ?thesis using \<open>MMAP_END < addr\<close> by (simp add: mem_zero_def)
qed

lemma mmap_fixed_escapes_arena_witness:
  "fst (sys_mmap2 0xFFFFF000 4096 3 0x32 (-1) 0 boot_sys) = - 4096 \<and> (0xFFFFF000 :: u32) > MMAP_END"
  using mmap_fixed_escapes_arena [of 4096 "0x32" "0xFFFFF000" 3 "-1" 0 boot_sys]
  by (simp add: round_page_def syscall_nr)

text \<open>The calls fork, waitpid, execve, pipe, link, symlink and readlink are not refused:
  they fall through to the code of mmap and behave exactly as that call.\<close>

theorem fork_family_is_mmap:
  assumes "unat (eax regs) \<in> {SYS_FORK, SYS_WAITPID, SYS_EXECVE, SYS_PIPE, SYS_LINK, SYS_SYMLINK, SYS_READLINK}"
  shows "syscall_handler regs s = syscall_handler (regs\<lparr>eax := of_nat SYS_MMAP\<rparr>) s"
  using assms
  by (elim insertE emptyE) (simp_all add: syscall_handler_def syscall_ret_def Let_def syscall_nr)

lemma fork_family_is_mmap_witness:
  "syscall_handler \<lparr>eax = 2, ebx = 0, ecx = 0, edx = 0, esi = 0, edi = 0, ebp = 0\<rparr> boot_sys =
   syscall_handler \<lparr>eax = 90, ebx = 0, ecx = 0, edx = 0, esi = 0, edi = 0, ebp = 0\<rparr> boot_sys"
  using fork_family_is_mmap [of "\<lparr>eax = 2, ebx = 0, ecx = 0, edx = 0, esi = 0, edi = 0, ebp = 0\<rparr>" boot_sys]
  by (simp add: syscall_nr del: syscall_handler_def)

end
