(* ===== verification/Ring_Buffers.thy ===== *)
theory Ring_Buffers
  imports Prelude
begin

text \<open>
  Ring buffers between an interrupt handler and its readers: the interface as a locale
  (a bounded queue that drops what does not fit), its client lemmas, and the arithmetic
  of an array with a head and a tail index that the keyboard and the mouse driver share.
\<close>

section \<open>The interface\<close>

locale ring_queue =
  fixes invar :: "'s \<Rightarrow> bool"
    and contents :: "'s \<Rightarrow> 'a list"
    and push :: "'a \<Rightarrow> 's \<Rightarrow> 's"
    and pop :: "'s \<Rightarrow> ('a \<times> 's) option"
    and cap :: nat
  assumes push_invar: "invar s \<Longrightarrow> invar (push x s)"
    and push_contents: "invar s \<Longrightarrow>
      contents (push x s) = (if length (contents s) < cap then contents s @ [x] else contents s)"
    and pop_empty: "invar s \<Longrightarrow> pop s = None \<longleftrightarrow> contents s = []"
    and pop_first: "invar s \<Longrightarrow> pop s = Some (x, s') \<Longrightarrow> invar s' \<and> contents s = x # contents s'"
    and bounded: "invar s \<Longrightarrow> length (contents s) \<le> cap"
begin

lemma fold_push_invar: "invar s \<Longrightarrow> invar (fold push xs s)"
  by (induction xs arbitrary: s) (simp_all add: push_invar)

text \<open>What was pushed is queued in order, up to the capacity; the rest is dropped.\<close>

lemma fold_push_contents:
  "invar s \<Longrightarrow> contents (fold push xs s) = contents s @ take (cap - length (contents s)) xs"
proof (induction xs arbitrary: s)
  case (Cons x xs)
  show ?case
  proof (cases "length (contents s) < cap")
    case True
    then have "cap - length (contents s) = Suc (cap - Suc (length (contents s)))" by simp
    with True Cons push_contents [of s x] push_invar [of s x] show ?thesis by simp
  next
    case False
    with Cons push_contents [of s x] push_invar [of s x] show ?thesis by simp
  qed
qed simp

fun drain :: "nat \<Rightarrow> 's \<Rightarrow> 'a list \<times> 's" where
  "drain 0 s = ([], s)"
| "drain (Suc n) s =
     (case pop s of None \<Rightarrow> ([], s) | Some (x, s') \<Rightarrow> let (xs, s'') = drain n s' in (x # xs, s''))"

lemma drain_contents:
  "invar s \<Longrightarrow> fst (drain n s) = take n (contents s) \<and> contents (snd (drain n s)) = drop n (contents s)"
proof (induction n arbitrary: s)
  case (Suc n)
  show ?case
  proof (cases "pop s")
    case None
    then show ?thesis using pop_empty [OF Suc.prems] by simp
  next
    case (Some p)
    obtain x s' where p: "p = (x, s')" by (cases p)
    have "invar s'" "contents s = x # contents s'" using pop_first [OF Suc.prems] Some p by auto
    with Suc.IH [of s'] Some p show ?thesis by (simp add: case_prod_beta)
  qed
qed simp

text \<open>First in, first out: draining an empty queue after pushing gives what was pushed.\<close>

lemma push_drain:
  "invar s \<Longrightarrow> contents s = [] \<Longrightarrow> fst (drain n (fold push xs s)) = take n (take cap xs)"
  using drain_contents [OF fold_push_invar] fold_push_contents by simp

end

section \<open>An array with head and tail\<close>

definition ring_len :: "nat \<Rightarrow> nat \<Rightarrow> nat \<Rightarrow> nat" where
  "ring_len n h t = (h + n - t) mod n"

definition ring_contents :: "'a list \<Rightarrow> nat \<Rightarrow> nat \<Rightarrow> 'a list" where
  "ring_contents buf h t =
     map (\<lambda>i. buf ! ((t + i) mod length buf)) [0..<ring_len (length buf) h t]"

lemma ring_len_less: "0 < n \<Longrightarrow> ring_len n h t < n"
  by (simp add: ring_len_def)

lemma length_ring_contents: "length (ring_contents buf h t) = ring_len (length buf) h t"
  by (simp add: ring_contents_def)

lemma ring_len_cases:
  assumes "h < n" "t < n"
  shows "ring_len n h t = (if t \<le> h then h - t else h + n - t)"
proof (cases "t \<le> h")
  case True
  then have "h + n - t = (h - t) + n" by simp
  moreover have "(h - t + n) mod n = h - t" using assms by simp
  ultimately show ?thesis using True by (simp only: ring_len_def) simp
qed (use assms in \<open>simp add: ring_len_def\<close>)

lemma Suc_mod_cases: "h < n \<Longrightarrow> Suc h mod n = (if Suc h = n then 0 else Suc h)"
  by (cases "Suc h = n") simp_all

lemma ring_empty: "h < n \<Longrightarrow> t < n \<Longrightarrow> ring_len n h t = 0 \<longleftrightarrow> h = t"
  by (auto simp: ring_len_cases)

lemma ring_full: "h < n \<Longrightarrow> t < n \<Longrightarrow> (h + 1) mod n = t \<longleftrightarrow> ring_len n h t = n - 1"
  by (auto simp: ring_len_cases Suc_mod_cases split: if_splits)

lemma ring_index: "h < n \<Longrightarrow> t < n \<Longrightarrow> (t + ring_len n h t) mod n = h"
  by (auto simp: ring_len_cases)

lemma ring_len_push:
  "h < n \<Longrightarrow> t < n \<Longrightarrow> (h + 1) mod n \<noteq> t \<Longrightarrow> ring_len n ((h + 1) mod n) t = Suc (ring_len n h t)"
  by (auto simp: ring_len_cases Suc_mod_cases split: if_splits)

lemma ring_len_pop:
  "h < n \<Longrightarrow> t < n \<Longrightarrow> h \<noteq> t \<Longrightarrow> ring_len n h t = Suc (ring_len n h ((t + 1) mod n))"
  by (auto simp: ring_len_cases Suc_mod_cases split: if_splits)

lemma mod_add_inj:
  fixes i j n :: nat
  assumes "(q + i) mod n = (q + j) mod n" "i < n" "j < n" "q < n"
  shows "i = j"
  using assms by (auto simp: mod_if split: if_splits)

lemma ring_push_contents:
  assumes n: "length buf = n" "h < n" "t < n" and room: "(h + 1) mod n \<noteq> t"
  shows "ring_contents (buf[h := x]) ((h + 1) mod n) t = ring_contents buf h t @ [x]"
proof -
  let ?k = "ring_len n h t"
  have k: "?k < n" using n by (intro ring_len_less) auto
  have "(t + i) mod n \<noteq> h" if "i < ?k" for i
    using that k ring_index [OF n(2,3)] mod_add_inj [of t i n ?k] n by auto
  then have old: "map (\<lambda>i. buf[h := x] ! ((t + i) mod n)) [0..<?k] = map (\<lambda>i. buf ! ((t + i) mod n)) [0..<?k]"
    by (intro map_cong refl) (metis atLeastLessThan_iff nth_list_update_neq set_upt)
  have new: "buf[h := x] ! ((t + ?k) mod n) = x" using n by (simp add: ring_index)
  show ?thesis
    using old new n ring_len_push [OF n(2,3) room] by (simp add: ring_contents_def)
qed

lemma ring_pop_contents:
  assumes n: "length buf = n" "h < n" "t < n" and some: "h \<noteq> t"
  shows "ring_contents buf h t = buf ! t # ring_contents buf h ((t + 1) mod n)"
proof -
  let ?k = "ring_len n h ((t + 1) mod n)"
  have "((t + 1) mod n + i) mod n = (t + Suc i) mod n" for i by (simp add: mod_add_left_eq)
  moreover have "map f [0..<Suc k] = f 0 # map (\<lambda>i. f (Suc i)) [0..<k]" for f :: "nat \<Rightarrow> 'a" and k
    by (simp add: upt_conv_Cons map_Suc_upt [symmetric] comp_def del: upt_Suc)
  ultimately show ?thesis
    using n ring_len_pop [OF n(2,3) some] by (simp add: ring_contents_def del: upt_Suc)
qed

lemma ring_contents_empty:
  "length buf = n \<Longrightarrow> h < n \<Longrightarrow> t < n \<Longrightarrow> ring_contents buf h t = [] \<longleftrightarrow> h = t"
  by (simp add: ring_contents_def ring_empty)

end
