(* ===== verification/Keyboard.thy ===== *)
theory Keyboard
  imports Ring_Buffers
begin

text \<open>
  The keyboard driver of \<open>src/src/keyboard.c\<close>: the scancode translation of the interrupt
  handler, the ring buffer between the handler and the readers, and the serial line as a
  second source of characters. The serial port is the sequence of characters it still
  has to deliver.
\<close>

section \<open>Definitions\<close>

definition SC_RELEASE_MASK :: u8 where "SC_RELEASE_MASK = 0x80"
definition SC_EXTENDED :: u8 where "SC_EXTENDED = 0xE0"
definition SC_LSHIFT :: u8 where "SC_LSHIFT = 0x2A"
definition SC_RSHIFT :: u8 where "SC_RSHIFT = 0x36"
definition SC_UP :: u8 where "SC_UP = 0x48"
definition SC_DOWN :: u8 where "SC_DOWN = 0x50"
definition SC_LEFT :: u8 where "SC_LEFT = 0x4B"
definition SC_RIGHT :: u8 where "SC_RIGHT = 0x4D"
definition KBD_BUFFER_SIZE :: nat where "KBD_BUFFER_SIZE = 256"
definition KEY_BACKSPACE :: char where "KEY_BACKSPACE = CHR 0x08"
definition KEY_ENTER :: char where "KEY_ENTER = CHR 0x0A"
definition KEY_UP :: char where "KEY_UP = CHR 0x11"
definition KEY_DOWN :: char where "KEY_DOWN = CHR 0x12"
definition KEY_LEFT :: char where "KEY_LEFT = CHR 0x13"
definition KEY_RIGHT :: char where "KEY_RIGHT = CHR 0x14"

text \<open>The written prefixes of the two 128-entry tables; the entries beyond are 0.\<close>

definition scancode_to_ascii :: "char list" where
  "scancode_to_ascii =
     [NUL, CHR 27] @ ''1234567890-='' @ [CHR 0x08] @
     [CHR 0x09] @ ''qwertyuiop[]'' @ [CHR 0x0A] @
     [NUL] @ ''asdfghjkl;'' @ [CHR 0x27, CHR 0x60] @
     [NUL] @ [CHR 0x5C] @ ''zxcvbnm,./'' @
     [NUL] @ ''*'' @
     [NUL] @ '' '' @
     [NUL]"

definition scancode_to_ascii_shift :: "char list" where
  "scancode_to_ascii_shift =
     [NUL, CHR 27] @ ''!@#$%^&*()_+'' @ [CHR 0x08] @
     [CHR 0x09] @ ''QWERTYUIOP{}'' @ [CHR 0x0A] @
     [NUL] @ ''ASDFGHJKL:'' @ [CHR 0x22, CHR 0x7E] @
     [NUL] @ ''|ZXCVBNM<>?'' @
     [NUL] @ ''*'' @
     [NUL] @ '' '' @
     [NUL]"

record keyboard =
  shift_pressed :: bool
  extended :: bool
  kbd_buffer :: "char list"
  kbd_head :: nat
  kbd_tail :: nat

definition kbd_buffer_push :: "char \<Rightarrow> keyboard \<Rightarrow> keyboard" where
  "kbd_buffer_push c k =
     (let next = (kbd_head k + 1) mod KBD_BUFFER_SIZE in
      if next = kbd_tail k then k
      else k\<lparr>kbd_buffer := (kbd_buffer k)[kbd_head k := c], kbd_head := next\<rparr>)"

definition keyboard_irq_handler :: "u8 \<Rightarrow> keyboard \<Rightarrow> keyboard" where
  "keyboard_irq_handler scancode k =
     (if scancode = SC_EXTENDED then k\<lparr>extended := True\<rparr>
      else let is_extended = extended k; k = k\<lparr>extended := False\<rparr> in
      if scancode AND SC_RELEASE_MASK \<noteq> 0
      then let released = scancode AND NOT SC_RELEASE_MASK in
           if \<not> is_extended \<and> (released = SC_LSHIFT \<or> released = SC_RSHIFT)
           then k\<lparr>shift_pressed := False\<rparr> else k
      else if is_extended
      then (if scancode = SC_UP then kbd_buffer_push KEY_UP k
            else if scancode = SC_DOWN then kbd_buffer_push KEY_DOWN k
            else if scancode = SC_LEFT then kbd_buffer_push KEY_LEFT k
            else if scancode = SC_RIGHT then kbd_buffer_push KEY_RIGHT k
            else k)
      else if scancode = SC_LSHIFT \<or> scancode = SC_RSHIFT then k\<lparr>shift_pressed := True\<rparr>
      else if unat scancode \<ge> 128 then k
      else let c = nth_default NUL
                     (if shift_pressed k then scancode_to_ascii_shift else scancode_to_ascii)
                     (unat scancode)
           in if c \<noteq> NUL then kbd_buffer_push c k else k)"

text \<open>The queue part of \<open>keyboard_trygetchar\<close>, and the whole of it: the character, the
  driver and the characters left on the serial line.\<close>

definition kbd_pop :: "keyboard \<Rightarrow> (char \<times> keyboard) option" where
  "kbd_pop k =
     (if kbd_head k \<noteq> kbd_tail k
      then Some (kbd_buffer k ! kbd_tail k, k\<lparr>kbd_tail := (kbd_tail k + 1) mod KBD_BUFFER_SIZE\<rparr>)
      else None)"

definition keyboard_trygetchar :: "keyboard \<Rightarrow> char list \<Rightarrow> char option \<times> keyboard \<times> char list" where
  "keyboard_trygetchar k serial =
     (case kbd_pop k of
        Some (c, k') \<Rightarrow> (Some c, k', serial)
      | None \<Rightarrow>
          (case serial of
             [] \<Rightarrow> (None, k, [])
           | c # rest \<Rightarrow>
               if c = CHR 0x0D then (Some KEY_ENTER, k, rest)
               else if c = CHR 0x7F then (Some KEY_BACKSPACE, k, rest)
               else if c = CHR 0x1B
               then (case rest of
                       [] \<Rightarrow> (None, k, [])
                     | c2 # rest2 \<Rightarrow>
                         if c2 \<noteq> CHR ''['' then (None, k, rest2)
                         else (case rest2 of
                                 [] \<Rightarrow> (None, k, [])
                               | c3 # rest3 \<Rightarrow>
                                   if c3 = CHR ''A'' then (Some KEY_UP, k, rest3)
                                   else if c3 = CHR ''B'' then (Some KEY_DOWN, k, rest3)
                                   else if c3 = CHR ''C'' then (Some KEY_RIGHT, k, rest3)
                                   else if c3 = CHR ''D'' then (Some KEY_LEFT, k, rest3)
                                   else (None, k, rest3)))
               else (Some c, k, rest)))"

text \<open>
  \<open>keyboard_getchar\<close> polls and halts until there is a character. What arrives while it
  halts is the list of batches of scancodes and serial characters; with nothing left to
  arrive it waits for ever, which is \<open>None\<close>.
\<close>

fun keyboard_getchar :: "(u8 list \<times> char list) list \<Rightarrow> keyboard \<Rightarrow> char list
    \<Rightarrow> (char \<times> keyboard \<times> char list) option" where
  "keyboard_getchar arrivals k serial =
     (case keyboard_trygetchar k serial of
        (Some c, k', serial') \<Rightarrow> Some (c, k', serial')
      | (None, k', serial') \<Rightarrow>
          (case arrivals of
             [] \<Rightarrow> None
           | (scancodes, chars) # later \<Rightarrow>
               keyboard_getchar later (fold keyboard_irq_handler scancodes k') (serial' @ chars)))"

declare keyboard_getchar.simps [simp del]

section \<open>The buffer is a bounded queue\<close>

definition kbd_ok :: "keyboard \<Rightarrow> bool" where
  "kbd_ok k \<longleftrightarrow> length (kbd_buffer k) = KBD_BUFFER_SIZE \<and> kbd_head k < KBD_BUFFER_SIZE
     \<and> kbd_tail k < KBD_BUFFER_SIZE"

definition kbd_queue :: "keyboard \<Rightarrow> char list" where
  "kbd_queue k = ring_contents (kbd_buffer k) (kbd_head k) (kbd_tail k)"

interpretation kq: ring_queue kbd_ok kbd_queue kbd_buffer_push kbd_pop "KBD_BUFFER_SIZE - 1"
proof
  fix k c
  assume ok: "kbd_ok k"
  then show "kbd_ok (kbd_buffer_push c k)"
    by (simp add: kbd_ok_def kbd_buffer_push_def Let_def KBD_BUFFER_SIZE_def)
  have len: "length (kbd_queue k) = ring_len KBD_BUFFER_SIZE (kbd_head k) (kbd_tail k)"
    using ok by (simp add: kbd_queue_def length_ring_contents kbd_ok_def)
  have full: "(kbd_head k + 1) mod KBD_BUFFER_SIZE = kbd_tail k \<longleftrightarrow> length (kbd_queue k) = KBD_BUFFER_SIZE - 1"
    unfolding len using ok by (intro ring_full) (simp_all add: kbd_ok_def)
  have "ring_len KBD_BUFFER_SIZE (kbd_head k) (kbd_tail k) < KBD_BUFFER_SIZE"
    by (rule ring_len_less) (simp add: KBD_BUFFER_SIZE_def)
  then show le: "length (kbd_queue k) \<le> KBD_BUFFER_SIZE - 1" unfolding len by simp
  show "kbd_queue (kbd_buffer_push c k) =
      (if length (kbd_queue k) < KBD_BUFFER_SIZE - 1 then kbd_queue k @ [c] else kbd_queue k)"
    using le full ring_push_contents [of "kbd_buffer k" KBD_BUFFER_SIZE "kbd_head k" "kbd_tail k" c] ok
    by (auto simp: kbd_buffer_push_def Let_def kbd_ok_def kbd_queue_def)
  show "kbd_pop k = None \<longleftrightarrow> kbd_queue k = []"
    using ok ring_contents_empty [of "kbd_buffer k" KBD_BUFFER_SIZE "kbd_head k" "kbd_tail k"]
    by (simp add: kbd_pop_def kbd_queue_def kbd_ok_def)
next
  fix k c k'
  assume ok: "kbd_ok k" and pop: "kbd_pop k = Some (c, k')"
  then have ne: "kbd_head k \<noteq> kbd_tail k" and c: "c = kbd_buffer k ! kbd_tail k"
    and k': "k' = k\<lparr>kbd_tail := (kbd_tail k + 1) mod KBD_BUFFER_SIZE\<rparr>"
    by (auto simp: kbd_pop_def split: if_splits)
  show "kbd_ok k' \<and> kbd_queue k = c # kbd_queue k'"
    using ok ring_pop_contents [OF _ _ _ ne, of "kbd_buffer k" KBD_BUFFER_SIZE]
    by (simp add: k' c kbd_ok_def kbd_queue_def KBD_BUFFER_SIZE_def)
qed


section \<open>The handler\<close>

text \<open>What one scancode contributes: the new modifier state and the key, if any.\<close>

definition decode :: "u8 \<Rightarrow> bool \<times> bool \<Rightarrow> (bool \<times> bool) \<times> char list" where
  "decode scancode = (\<lambda>(shift, ext).
     if scancode = SC_EXTENDED then ((shift, True), [])
     else if bit scancode 7
     then ((shift \<and> (ext \<or> scancode \<notin> {0xAA, 0xB6}), False), [])
     else if ext
     then ((shift, False),
           if scancode = SC_UP then [KEY_UP] else if scancode = SC_DOWN then [KEY_DOWN]
           else if scancode = SC_LEFT then [KEY_LEFT] else if scancode = SC_RIGHT then [KEY_RIGHT] else [])
     else if scancode \<in> {SC_LSHIFT, SC_RSHIFT} then ((True, False), [])
     else ((shift, False),
           let c = nth_default NUL (if shift then scancode_to_ascii_shift else scancode_to_ascii) (unat scancode)
           in if c \<noteq> NUL then [c] else []))"

fun decode_all :: "u8 list \<Rightarrow> bool \<times> bool \<Rightarrow> (bool \<times> bool) \<times> char list" where
  "decode_all [] m = (m, [])"
| "decode_all (s # ss) m = (let (m', cs) = decode s m; (m'', ds) = decode_all ss m' in (m'', cs @ ds))"

definition modifiers :: "keyboard \<Rightarrow> bool \<times> bool" where
  "modifiers k = (shift_pressed k, extended k)"

lemma push_modifiers [simp]:
  "shift_pressed (kbd_buffer_push c k) = shift_pressed k" "extended (kbd_buffer_push c k) = extended k"
  by (simp_all add: kbd_buffer_push_def Let_def)

lemma kbd_ok_modifiers [simp]:
  "kbd_ok (k\<lparr>extended := x\<rparr>) = kbd_ok k" "kbd_ok (k\<lparr>shift_pressed := y\<rparr>) = kbd_ok k"
  "kbd_queue (k\<lparr>extended := x\<rparr>) = kbd_queue k" "kbd_queue (k\<lparr>shift_pressed := y\<rparr>) = kbd_queue k"
  by (simp_all add: kbd_ok_def kbd_queue_def)

lemma release_bit: "scancode AND SC_RELEASE_MASK \<noteq> 0 \<longleftrightarrow> bit (scancode :: u8) 7"
  using and_exp_eq_0_iff_not_bit [of scancode 7] by (simp add: SC_RELEASE_MASK_def)

lemma high_bit: "bit (scancode :: u8) 7 \<longleftrightarrow> 128 \<le> unat scancode"
proof -
  have "unat scancode < 256" using unsigned_less [of scancode] by simp
  then have "unat scancode div 128 = (if 128 \<le> unat scancode then 1 else 0)"
    by (auto intro: div_nat_eqI)
  moreover have "bit scancode 7 \<longleftrightarrow> bit (unat scancode) 7" by (simp add: bit_unsigned_iff)
  ultimately show ?thesis by (simp add: bit_iff_odd)
qed

lemma clear_high_bit:
  assumes "bit (scancode :: u8) 7"
  shows "scancode AND NOT SC_RELEASE_MASK = r \<longleftrightarrow> \<not> bit r 7 \<and> scancode = r OR SC_RELEASE_MASK"
proof -
  have m: "bit SC_RELEASE_MASK n \<longleftrightarrow> n = 7" for n
  proof -
    have eq: "SC_RELEASE_MASK = 2 ^ 7" by (simp add: SC_RELEASE_MASK_def)
    show ?thesis unfolding eq bit_exp_iff by (auto simp: possible_bit_def)
  qed
  show ?thesis
  proof
    assume r: "scancode AND NOT SC_RELEASE_MASK = r"
    show "\<not> bit r 7 \<and> scancode = r OR SC_RELEASE_MASK"
      unfolding r [symmetric] using assms m by (auto intro!: bit_eqI simp: bit_simps)
  next
    assume "\<not> bit r 7 \<and> scancode = r OR SC_RELEASE_MASK"
    then show "scancode AND NOT SC_RELEASE_MASK = r"
      using m by (auto intro!: bit_eqI simp: bit_simps)
  qed
qed

lemma released_shift:
  "bit (scancode :: u8) 7 \<Longrightarrow>
   scancode AND NOT SC_RELEASE_MASK = SC_LSHIFT \<or> scancode AND NOT SC_RELEASE_MASK = SC_RSHIFT \<longleftrightarrow>
   scancode \<in> {0xAA, 0xB6}"
  by (simp add: clear_high_bit) (simp add: SC_LSHIFT_def SC_RSHIFT_def SC_RELEASE_MASK_def high_bit)

lemma push_take:
  "kbd_ok k \<Longrightarrow> kbd_queue (kbd_buffer_push c k) =
     kbd_queue k @ take (KBD_BUFFER_SIZE - 1 - length (kbd_queue k)) [c]"
  by (cases "length (kbd_queue k) < KBD_BUFFER_SIZE - 1") (simp_all add: kq.push_contents take_Cons')

lemma irq_decode:
  assumes ok: "kbd_ok k"
  shows "kbd_ok (keyboard_irq_handler s k) \<and> modifiers (keyboard_irq_handler s k) = fst (decode s (modifiers k))
    \<and> kbd_queue (keyboard_irq_handler s k) =
        kbd_queue k @ take (KBD_BUFFER_SIZE - 1 - length (kbd_queue k)) (snd (decode s (modifiers k)))"
proof -
  consider "s = SC_EXTENDED" | "s \<noteq> SC_EXTENDED" "bit s 7" | "s \<noteq> SC_EXTENDED" "\<not> bit s 7" "extended k"
    | "s \<noteq> SC_EXTENDED" "\<not> bit s 7" "\<not> extended k" by blast
  then show ?thesis
  proof cases
    case 2
    then show ?thesis using ok released_shift [of s]
      by (cases "s \<in> {0xAA, 0xB6}") (simp_all add: keyboard_irq_handler_def decode_def modifiers_def Let_def release_bit)
  next
    case 3
    then show ?thesis using ok
      by (simp add: keyboard_irq_handler_def decode_def modifiers_def Let_def release_bit kq.push_invar push_take)
  next
    case 4
    then have "unat s < 128" by (simp add: high_bit)
    with 4 show ?thesis using ok
      by (simp add: keyboard_irq_handler_def decode_def modifiers_def Let_def release_bit kq.push_invar push_take)
  qed (use ok in \<open>simp add: keyboard_irq_handler_def decode_def modifiers_def\<close>)
qed

lemma irq_decode_all:
  assumes "kbd_ok k"
  shows "kbd_ok (fold keyboard_irq_handler ss k)
    \<and> modifiers (fold keyboard_irq_handler ss k) = fst (decode_all ss (modifiers k))
    \<and> kbd_queue (fold keyboard_irq_handler ss k) =
        kbd_queue k @ take (KBD_BUFFER_SIZE - 1 - length (kbd_queue k)) (snd (decode_all ss (modifiers k)))"
  using assms
proof (induction ss arbitrary: k)
  case (Cons s ss)
  let ?k = "keyboard_irq_handler s k"
  note one = irq_decode [OF Cons.prems, of s]
  have ok: "kbd_ok ?k" using one by simp
  obtain m cs where d: "decode s (modifiers k) = (m, cs)" by (cases "decode s (modifiers k)")
  obtain m2 ds where d2: "decode_all ss m = (m2, ds)" by (cases "decode_all ss m")
  have "kbd_queue k @ take (KBD_BUFFER_SIZE - 1 - length (kbd_queue k)) (cs @ ds) =
      kbd_queue ?k @ take (KBD_BUFFER_SIZE - 1 - length (kbd_queue ?k)) ds"
    using one d by (simp add: min_def)
  then show ?case using Cons.IH [OF ok] one d d2 by simp
qed simp

section \<open>Properties\<close>

definition kbd_boot :: keyboard where
  "kbd_boot = \<lparr>shift_pressed = False, extended = False, kbd_buffer = replicate KBD_BUFFER_SIZE NUL,
     kbd_head = 0, kbd_tail = 0\<rparr>"

lemma kbd_boot_ok: "kbd_ok kbd_boot" "kbd_queue kbd_boot = []"
  by (simp_all add: kbd_boot_def kbd_ok_def kbd_queue_def ring_contents_def ring_len_def KBD_BUFFER_SIZE_def)

text \<open>C9. The keys typed are the characters read: however many scancodes arrive before the
  readers get to run, reading from the buffer gives the decoded characters in the order
  they were typed, up to the 255 the buffer holds; the ring indices never leave the
  buffer.\<close>

theorem keyboard_delivers:
  assumes "kbd_ok k" "kbd_queue k = []"
  shows "fst (kq.drain n (fold keyboard_irq_handler ss k)) =
      take n (take (KBD_BUFFER_SIZE - 1) (snd (decode_all ss (modifiers k))))
    \<and> kbd_ok (fold keyboard_irq_handler ss k)"
  using irq_decode_all [OF assms(1), of ss] assms(2) kq.drain_contents [of "fold keyboard_irq_handler ss k" n]
  by simp

theorem keyboard_delivers_witness:
  "fst (kq.drain 10 (fold keyboard_irq_handler [0x2A, 0x23, 0xA3, 0xAA, 0x17, 0xE0, 0x48] kbd_boot)) = [CHR ''H'', CHR ''i'', KEY_UP]"
proof -
  have "snd (decode_all [0x2A, 0x23, 0xA3, 0xAA, 0x17, 0xE0, 0x48] (False, False)) = [CHR ''H'', CHR ''i'', KEY_UP]"
    by code_simp
  then show ?thesis
    using keyboard_delivers [OF kbd_boot_ok, of 10 "[0x2A, 0x23, 0xA3, 0xAA, 0x17, 0xE0, 0x48]"]
    by (simp add: modifiers_def kbd_boot_def KBD_BUFFER_SIZE_def)
qed

text \<open>A reader that waits for a key returns as soon as one is there: if the buffer holds
  a character, \<open>keyboard_getchar\<close> returns the oldest one without waiting and takes it out.\<close>

theorem keyboard_getchar_returns:
  assumes "kbd_ok k" "kbd_queue k = c # cs"
  shows "\<exists>k'. keyboard_getchar arrivals k serial = Some (c, k', serial) \<and> kbd_ok k' \<and> kbd_queue k' = cs"
proof -
  have "kbd_pop k \<noteq> None" using kq.pop_empty [OF assms(1)] assms(2) by simp
  then obtain c' k' where pop: "kbd_pop k = Some (c', k')" by auto
  with kq.pop_first [OF assms(1) pop] assms(2) show ?thesis
    by (subst keyboard_getchar.simps) (simp add: keyboard_trygetchar_def)
qed

theorem keyboard_getchar_returns_witness:
  "\<exists>k'. keyboard_getchar [] (keyboard_irq_handler 0x1E kbd_boot) [] = Some (CHR ''a'', k', [])"
proof -
  have d: "decode 0x1E (False, False) = ((False, False), ''a'')" by code_simp
  have "kbd_ok (keyboard_irq_handler 0x1E kbd_boot)" "kbd_queue (keyboard_irq_handler 0x1E kbd_boot) = ''a''"
    using irq_decode [OF kbd_boot_ok(1), of "0x1E"] kbd_boot_ok(2) d
    by (simp_all add: modifiers_def kbd_boot_def KBD_BUFFER_SIZE_def)
  from keyboard_getchar_returns [OF this] show ?thesis by blast
qed

end
