(* ===== verification/Mouse.thy ===== *)
theory Mouse
  imports Ring_Buffers
begin

text \<open>
  The mouse driver of \<open>src/src/mouse.c\<close>: the three-byte packet automaton of the interrupt
  handler, the pointer kept inside its bounds, and the event queue. C \<open>int\<close> coordinates
  are unbounded integers here: they move by less than 129 per packet and are clamped.
\<close>

section \<open>Definitions\<close>

definition EVQ :: nat where "EVQ = 32"

record mouse_event =
  ev_type :: int
  ev_x :: int
  ev_y :: int
  ev_buttons :: u8
  ev_button :: nat
  ev_pressed :: bool

record mouse =
  mx :: int
  my :: int
  mbuttons :: u8
  mdx :: int
  mdy :: int
  bound_w :: int
  bound_h :: int
  evq :: "mouse_event list"
  ev_head :: nat
  ev_tail :: nat
  prev_buttons :: u8
  cycle :: nat
  packet :: "u8 list"

definition ev_push :: "mouse_event \<Rightarrow> mouse \<Rightarrow> mouse" where
  "ev_push e m =
     (let n = (ev_head m + 1) mod EVQ in
      if n = ev_tail m then m
      else m\<lparr>evq := (evq m)[ev_head m := e], ev_head := n\<rparr>)"

definition clamp :: "int \<Rightarrow> int \<Rightarrow> int" where
  "clamp v bound = (let v = (if v < 0 then 0 else v) in if v \<ge> bound then bound - 1 else v)"

definition button_events :: "u8 \<Rightarrow> u8 \<Rightarrow> mouse_event \<Rightarrow> mouse \<Rightarrow> mouse" where
  "button_events changed buttons ev m =
     fold (\<lambda>b m. if bit changed b
                 then ev_push (ev\<lparr>ev_type := 1, ev_button := b, ev_pressed := bit buttons b\<rparr>) m
                 else m) [0..<3] m"

definition mouse_packet :: "u8 \<Rightarrow> u8 \<Rightarrow> u8 \<Rightarrow> mouse \<Rightarrow> mouse" where
  "mouse_packet p0 p1 p2 m =
     (let dx = sint p1; dy = - sint p2; buttons = p0 AND 0x07;
          m = m\<lparr>mx := clamp (mx m + dx) (bound_w m), my := clamp (my m + dy) (bound_h m),
                mdx := mdx m + dx, mdy := mdy m + dy, mbuttons := buttons\<rparr>;
          ev = \<lparr>ev_type = 0, ev_x = mx m, ev_y = my m, ev_buttons = buttons, ev_button = 0,
                ev_pressed = False\<rparr>;
          m = (if dx \<noteq> 0 \<or> dy \<noteq> 0 then ev_push ev m else m);
          changed = buttons XOR prev_buttons m
      in if changed \<noteq> 0 then (button_events changed buttons ev m)\<lparr>prev_buttons := buttons\<rparr> else m)"

definition mouse_irq_handler :: "u8 \<Rightarrow> mouse \<Rightarrow> mouse" where
  "mouse_irq_handler data m =
     (if cycle m = 0 \<and> data AND 0x08 = 0 then m
      else let m = m\<lparr>packet := (packet m)[cycle m := data], cycle := cycle m + 1\<rparr> in
        if cycle m < 3 then m
        else let m = m\<lparr>cycle := 0\<rparr>
             in mouse_packet (packet m ! 0) (packet m ! 1) (packet m ! 2) m)"

definition mouse_reset :: "mouse \<Rightarrow> mouse" where
  "mouse_reset m = m\<lparr>mx := 160, my := 100, mbuttons := 0, mdx := 0, mdy := 0, ev_head := 0, ev_tail := 0,
     prev_buttons := 0\<rparr>"

definition mouse_get :: "mouse \<Rightarrow> (int \<times> int \<times> int \<times> int \<times> u8) \<times> mouse" where
  "mouse_get m = ((mx m, my m, mdx m, mdy m, mbuttons m), m\<lparr>mdx := 0, mdy := 0\<rparr>)"

definition mouse_poll_event :: "mouse \<Rightarrow> (mouse_event \<times> mouse) option" where
  "mouse_poll_event m =
     (if ev_head m = ev_tail m then None
      else Some (evq m ! ev_tail m, m\<lparr>ev_tail := (ev_tail m + 1) mod EVQ\<rparr>))"

definition mouse_set_bounds :: "int \<Rightarrow> int \<Rightarrow> mouse \<Rightarrow> mouse" where
  "mouse_set_bounds w h m =
     (let m = m\<lparr>bound_w := w, bound_h := h\<rparr>;
          m = (if mx m \<ge> w then m\<lparr>mx := w - 1\<rparr> else m)
      in if my m \<ge> h then m\<lparr>my := h - 1\<rparr> else m)"

section \<open>The event queue\<close>

definition evq_ok :: "mouse \<Rightarrow> bool" where
  "evq_ok m \<longleftrightarrow> length (evq m) = EVQ \<and> ev_head m < EVQ \<and> ev_tail m < EVQ"

definition mouse_events :: "mouse \<Rightarrow> mouse_event list" where
  "mouse_events m = ring_contents (evq m) (ev_head m) (ev_tail m)"

interpretation mq: ring_queue evq_ok mouse_events ev_push mouse_poll_event "EVQ - 1"
proof
  fix m e
  assume ok: "evq_ok m"
  then show "evq_ok (ev_push e m)" by (simp add: evq_ok_def ev_push_def Let_def EVQ_def)
  have len: "length (mouse_events m) = ring_len EVQ (ev_head m) (ev_tail m)"
    using ok by (simp add: mouse_events_def length_ring_contents evq_ok_def)
  have full: "(ev_head m + 1) mod EVQ = ev_tail m \<longleftrightarrow> length (mouse_events m) = EVQ - 1"
    unfolding len using ok by (intro ring_full) (simp_all add: evq_ok_def)
  have "ring_len EVQ (ev_head m) (ev_tail m) < EVQ" by (rule ring_len_less) (simp add: EVQ_def)
  then show le: "length (mouse_events m) \<le> EVQ - 1" unfolding len by simp
  show "mouse_events (ev_push e m) =
      (if length (mouse_events m) < EVQ - 1 then mouse_events m @ [e] else mouse_events m)"
    using le full ring_push_contents [of "evq m" EVQ "ev_head m" "ev_tail m" e] ok
    by (auto simp: ev_push_def Let_def evq_ok_def mouse_events_def)
  show "mouse_poll_event m = None \<longleftrightarrow> mouse_events m = []"
    using ok ring_contents_empty [of "evq m" EVQ "ev_head m" "ev_tail m"]
    by (simp add: mouse_poll_event_def mouse_events_def evq_ok_def)
next
  fix m e m'
  assume ok: "evq_ok m" and pop: "mouse_poll_event m = Some (e, m')"
  then have ne: "ev_head m \<noteq> ev_tail m" and e: "e = evq m ! ev_tail m"
    and m': "m' = m\<lparr>ev_tail := (ev_tail m + 1) mod EVQ\<rparr>"
    by (auto simp: mouse_poll_event_def split: if_splits)
  show "evq_ok m' \<and> mouse_events m = e # mouse_events m'"
    using ok ring_pop_contents [OF _ _ _ ne, of "evq m" EVQ]
    by (simp add: m' e evq_ok_def mouse_events_def EVQ_def)
qed

section \<open>The pointer stays inside its bounds\<close>

definition mouse_ok :: "mouse \<Rightarrow> bool" where
  "mouse_ok m \<longleftrightarrow> evq_ok m \<and> 0 < bound_w m \<and> 0 < bound_h m \<and> 0 \<le> mx m \<and> mx m < bound_w m
     \<and> 0 \<le> my m \<and> my m < bound_h m \<and> cycle m < 3 \<and> length (packet m) = 3"

lemma clamp_bounds: "0 < b \<Longrightarrow> 0 \<le> clamp v b \<and> clamp v b < b"
  by (simp add: clamp_def Let_def)

lemma clamp_inside: "0 \<le> v \<Longrightarrow> v < b \<Longrightarrow> clamp v b = v"
  by (simp add: clamp_def)

lemma ev_push_fields [simp]:
  "mx (ev_push e m) = mx m" "my (ev_push e m) = my m" "mbuttons (ev_push e m) = mbuttons m"
  "bound_w (ev_push e m) = bound_w m" "bound_h (ev_push e m) = bound_h m"
  "prev_buttons (ev_push e m) = prev_buttons m" "cycle (ev_push e m) = cycle m"
  "packet (ev_push e m) = packet m"
  by (simp_all add: ev_push_def Let_def)

lemma pushes_fields [simp]:
  "mx (fold ev_push es m) = mx m" "my (fold ev_push es m) = my m"
  "mbuttons (fold ev_push es m) = mbuttons m"
  "bound_w (fold ev_push es m) = bound_w m" "bound_h (fold ev_push es m) = bound_h m"
  "prev_buttons (fold ev_push es m) = prev_buttons m" "cycle (fold ev_push es m) = cycle m"
  "packet (fold ev_push es m) = packet m"
  by (induction es arbitrary: m) simp_all

text \<open>The events of a packet, as a list.\<close>

definition packet_events :: "u8 \<Rightarrow> u8 \<Rightarrow> u8 \<Rightarrow> mouse \<Rightarrow> mouse_event list" where
  "packet_events p0 p1 p2 m =
     (let dx = sint p1; dy = - sint p2; buttons = p0 AND 0x07;
          ev = \<lparr>ev_type = 0, ev_x = clamp (mx m + dx) (bound_w m), ev_y = clamp (my m + dy) (bound_h m),
                ev_buttons = buttons, ev_button = 0, ev_pressed = False\<rparr>
      in (if dx \<noteq> 0 \<or> dy \<noteq> 0 then [ev] else []) @
         map (\<lambda>b. ev\<lparr>ev_type := 1, ev_button := b, ev_pressed := bit buttons b\<rparr>)
           (filter (bit (buttons XOR prev_buttons m)) [0..<3]))"

definition packet_moved :: "u8 \<Rightarrow> u8 \<Rightarrow> u8 \<Rightarrow> mouse \<Rightarrow> mouse" where
  "packet_moved p0 p1 p2 m =
     m\<lparr>mx := clamp (mx m + sint p1) (bound_w m), my := clamp (my m - sint p2) (bound_h m),
       mdx := mdx m + sint p1, mdy := mdy m - sint p2, mbuttons := p0 AND 0x07\<rparr>"

lemma button_events_fold:
  "button_events c b ev m = fold ev_push
     (map (\<lambda>i. ev\<lparr>ev_type := 1, ev_button := i, ev_pressed := bit b i\<rparr>) (filter (bit c) [0..<3])) m"
  by (simp add: button_events_def upt_rec numeral_3_eq_3)

lemma ev_push_prev: "ev_push e (m\<lparr>prev_buttons := b\<rparr>) = (ev_push e m)\<lparr>prev_buttons := b\<rparr>"
  by (cases m) (simp add: ev_push_def Let_def)

lemma pushes_prev: "fold ev_push es (m\<lparr>prev_buttons := b\<rparr>) = (fold ev_push es m)\<lparr>prev_buttons := b\<rparr>"
  by (induction es arbitrary: m) (simp_all add: ev_push_prev)

lemma mouse_packet_eq:
  "mouse_packet p0 p1 p2 m =
     fold ev_push (packet_events p0 p1 p2 m) ((packet_moved p0 p1 p2 m)\<lparr>prev_buttons := p0 AND 0x07\<rparr>)"
proof (cases "(p0 AND 0x07) XOR prev_buttons m = 0")
  case True
  then have "(p0 AND 0x07) XOR ((p0 AND 0x07) XOR prev_buttons m) = p0 AND 0x07" by simp
  then have "prev_buttons m = p0 AND 0x07" by (simp add: xor.assoc [symmetric])
  then have same: "(packet_moved p0 p1 p2 m)\<lparr>prev_buttons := p0 AND 0x07\<rparr> = packet_moved p0 p1 p2 m"
    by (cases m) (simp add: packet_moved_def)
  show ?thesis
    unfolding same using True
    by (simp add: mouse_packet_def packet_events_def packet_moved_def Let_def)
next
  case False
  then show ?thesis
    unfolding pushes_prev
    by (simp add: mouse_packet_def packet_events_def packet_moved_def Let_def button_events_fold)
qed

lemma packet_moved_ok:
  "mouse_ok m \<Longrightarrow> mouse_ok ((packet_moved p0 p1 p2 m)\<lparr>prev_buttons := b\<rparr>)"
  using clamp_bounds by (simp add: mouse_ok_def packet_moved_def evq_ok_def)

lemma pushes_ok:
  assumes "mouse_ok m"
  shows "mouse_ok (fold ev_push es m)"
  using assms mq.fold_push_invar by (simp add: mouse_ok_def)

lemma mouse_packet_ok: "mouse_ok m \<Longrightarrow> mouse_ok (mouse_packet p0 p1 p2 m)"
  unfolding mouse_packet_eq by (intro pushes_ok packet_moved_ok)

lemma mouse_cycle_ok:
  "mouse_ok m \<Longrightarrow> c < 3 \<Longrightarrow> length p = 3 \<Longrightarrow> mouse_ok (m\<lparr>packet := p, cycle := c\<rparr>)"
  by (simp add: mouse_ok_def evq_ok_def)

lemma mouse_irq_ok:
  assumes ok: "mouse_ok m"
  shows "mouse_ok (mouse_irq_handler d m)"
proof -
  have "length (packet m) = 3" using ok by (simp add: mouse_ok_def)
  with ok show ?thesis
    by (simp add: mouse_irq_handler_def Let_def mouse_packet_ok mouse_cycle_ok)
qed

section \<open>Properties\<close>

definition mouse_boot :: mouse where
  "mouse_boot = mouse_reset
     \<lparr>mx = 0, my = 0, mbuttons = 0, mdx = 0, mdy = 0, bound_w = 320, bound_h = 200,
      evq = replicate EVQ \<lparr>ev_type = 0, ev_x = 0, ev_y = 0, ev_buttons = 0, ev_button = 0, ev_pressed = False\<rparr>,
      ev_head = 0, ev_tail = 0, prev_buttons = 0, cycle = 0, packet = [0, 0, 0]\<rparr>"

lemma mouse_boot_ok: "mouse_ok mouse_boot"
  by (simp add: mouse_boot_def mouse_reset_def mouse_ok_def evq_ok_def EVQ_def)

text \<open>C10. Whatever bytes the mouse sends, the pointer stays inside the bounds, the packet
  automaton stays inside its three-byte buffer and the event queue stays well formed.\<close>

theorem mouse_stays_in_bounds:
  assumes "mouse_ok m"
  shows "mouse_ok (fold mouse_irq_handler bytes m)"
  using assms by (induction bytes arbitrary: m) (simp_all add: mouse_irq_ok)

theorem mouse_stays_in_bounds_witness:
  "mouse_ok (fold mouse_irq_handler [0x09, 0x7F, 0x80, 0x00, 0x0F, 0x81] mouse_boot)"
  by (rule mouse_stays_in_bounds [OF mouse_boot_ok])

text \<open>A complete packet moves the pointer by the two signed displacements (vertical
  axis inverted), clamped to the bounds, takes over the button state, and queues one motion
  event if there was motion and one event per button that changed, in this order; events
  that do not fit into the queue are dropped.\<close>

theorem mouse_packet_effect:
  assumes "mouse_ok m" "cycle m = 0" "b0 AND 0x08 \<noteq> 0"
  shows "let m' = fold mouse_irq_handler [b0, b1, b2] m in
    mx m' = clamp (mx m + sint b1) (bound_w m) \<and> my m' = clamp (my m - sint b2) (bound_h m)
    \<and> mbuttons m' = b0 AND 0x07 \<and> prev_buttons m' = b0 AND 0x07 \<and> cycle m' = 0
    \<and> mouse_events m' = mouse_events m
        @ take (EVQ - 1 - length (mouse_events m)) (packet_events b0 b1 b2 m)"
proof -
  let ?m0 = "m\<lparr>packet := [b0, b1, b2], cycle := 0\<rparr>"
  let ?m1 = "(packet_moved b0 b1 b2 ?m0)\<lparr>prev_buttons := b0 AND 0x07\<rparr>"
  obtain x y z where p: "packet m = [x, y, z]"
    using assms(1) by (auto simp: mouse_ok_def length_Suc_conv numeral_3_eq_3)
  have ok: "evq_ok ?m1" using assms(1) by (simp add: mouse_ok_def evq_ok_def packet_moved_def)
  have ev: "packet_events b0 b1 b2 ?m0 = packet_events b0 b1 b2 m" "mouse_events ?m1 = mouse_events m"
    by (simp_all add: packet_events_def mouse_events_def packet_moved_def)
  have m': "fold mouse_irq_handler [b0, b1, b2] m = fold ev_push (packet_events b0 b1 b2 ?m0) ?m1"
    using assms p by (simp add: mouse_irq_handler_def Let_def mouse_packet_eq)
  show ?thesis
    unfolding Let_def m' using mq.fold_push_contents [OF ok, of "packet_events b0 b1 b2 ?m0"] ev
    by (simp add: packet_moved_def)
qed

theorem mouse_packet_effect_witness:
  "mx (fold mouse_irq_handler [0x09, 0x05, 0xFB] mouse_boot) = 165
   \<and> my (fold mouse_irq_handler [0x09, 0x05, 0xFB] mouse_boot) = 105"
  using mouse_packet_effect [OF mouse_boot_ok, of "0x09" "0x05" "0xFB"]
  by (simp add: Let_def) (simp add: mouse_boot_def mouse_reset_def clamp_def)

end
