(* ===== verification/Bytes.thy ===== *)
theory Bytes
  imports Prelude
begin

text \<open>
  Little-endian fields of byte buffers, as the disk structures of the kernel use them: the
  partition tables of \<open>src/src/part.c\<close> and the boot sector, directory entries and
  allocation table of \<open>src/src/fat32.c\<close>.
\<close>

section \<open>Reading and writing fields\<close>

definition le16 :: "u8 list \<Rightarrow> nat \<Rightarrow> u16" where
  "le16 b off = ucast (b ! off) OR push_bit 8 (ucast (b ! (off + 1)))"

definition le32 :: "u8 list \<Rightarrow> nat \<Rightarrow> u32" where
  "le32 b off = ucast (b ! off) OR push_bit 8 (ucast (b ! (off + 1)))
     OR push_bit 16 (ucast (b ! (off + 2))) OR push_bit 24 (ucast (b ! (off + 3)))"

definition bytes16 :: "u16 \<Rightarrow> u8 list" where
  "bytes16 v = [ucast v, ucast (drop_bit 8 v)]"

definition bytes32 :: "u32 \<Rightarrow> u8 list" where
  "bytes32 v = [ucast v, ucast (drop_bit 8 v), ucast (drop_bit 16 v), ucast (drop_bit 24 v)]"

text \<open>Stores inside a buffer; the callers stay inside it.\<close>

definition put_at :: "nat \<Rightarrow> u8 list \<Rightarrow> u8 list \<Rightarrow> u8 list" where
  "put_at off bs b = take off b @ bs @ drop (off + length bs) b"

lemma length_bytes16 [simp]: "length (bytes16 v) = 2"
  by (simp add: bytes16_def)

lemma length_bytes32 [simp]: "length (bytes32 v) = 4"
  by (simp add: bytes32_def)

lemma length_put_at [simp]: "off + length bs \<le> length b \<Longrightarrow> length (put_at off bs b) = length b"
  by (simp add: put_at_def)

lemma nth_put_at:
  "off + length bs \<le> length b \<Longrightarrow> i < length b \<Longrightarrow>
   put_at off bs b ! i = (if off \<le> i \<and> i < off + length bs then bs ! (i - off) else b ! i)"
  by (auto simp: put_at_def nth_append min_def)

lemma take_drop_put_at:
  "off + length bs \<le> length b \<Longrightarrow> take (length bs) (drop off (put_at off bs b)) = bs"
  by (simp add: put_at_def)

section \<open>Round trips\<close>

lemma join_bytes32:
  "ucast (ucast v :: u8) OR push_bit 8 (ucast (ucast (drop_bit 8 v) :: u8))
   OR push_bit 16 (ucast (ucast (drop_bit 16 v) :: u8)) OR push_bit 24 (ucast (ucast (drop_bit 24 v) :: u8)) = (v :: u32)"
  (is "?l = _")
proof (rule bit_word_eqI)
  fix n :: nat
  assume "n < LENGTH(32)"
  then have "n < 32" by simp
  then consider "n < 8" | "8 \<le> n" "n < 16" | "16 \<le> n" "n < 24" | "24 \<le> n" "n < 32" by linarith
  then show "bit ?l n = bit v n"
    by cases (auto simp: bit_simps)
qed

lemma join_bytes16:
  "ucast (ucast v :: u8) OR push_bit 8 (ucast (ucast (drop_bit 8 v) :: u8)) = (v :: u16)" (is "?l = _")
proof (rule bit_word_eqI)
  fix n :: nat
  assume "n < LENGTH(16)"
  then have "n < 16" by simp
  then consider "n < 8" | "8 \<le> n" "n < 16" by linarith
  then show "bit ?l n = bit v n"
    by cases (auto simp: bit_simps)
qed

lemma le32_put: "off + 4 \<le> length b \<Longrightarrow> le32 (put_at off (bytes32 v) b) off = v"
  by (simp add: le32_def nth_put_at) (simp add: bytes32_def join_bytes32)

lemma le16_put: "off + 2 \<le> length b \<Longrightarrow> le16 (put_at off (bytes16 v) b) off = v"
  by (simp add: le16_def nth_put_at) (simp add: bytes16_def join_bytes16)

lemma le32_put_other:
  "off + length bs \<le> length b \<Longrightarrow> off' + 4 \<le> length b \<Longrightarrow> off' + 4 \<le> off \<or> off + length bs \<le> off' \<Longrightarrow>
   le32 (put_at off bs b) off' = le32 b off'"
  by (auto simp: le32_def nth_put_at)

lemma le16_put_other:
  "off + length bs \<le> length b \<Longrightarrow> off' + 2 \<le> length b \<Longrightarrow> off' + 2 \<le> off \<or> off + length bs \<le> off' \<Longrightarrow>
   le16 (put_at off bs b) off' = le16 b off'"
  by (auto simp: le16_def nth_put_at)

lemmas field_simps_put = le32_put le16_put le32_put_other le16_put_other nth_put_at

end
