(* ===== verification/Ata.thy ===== *)
theory Ata
  imports Prelude
begin

text \<open>
  The ATA driver of \<open>src/src/ata.c\<close>: programmed input and output on the primary channel.
  The port instructions of \<open>src/src/io.h\<close> reach hardware, so they are a parameter: a record
  of the four functions on a device state. The driver is translated over it: the bounded
  polls, the command sequence of a 28-bit transfer, the transfer word by word.

  What the drivers above rely on is the interface \<open>ata_disk\<close>: on a ready device a
  transfer inside its capacity succeeds and moves the sectors, one beyond it fails. The
  second part gives a drive that follows the ATA protocol (task-file registers, busy and
  data-request bits with an arbitrary delay, one word per access of the data port) and
  proves that the driver on it provides that interface.
\<close>

section \<open>Port access\<close>

record 'd ports =
  in8 :: "u16 \<Rightarrow> 'd \<Rightarrow> u8 \<times> 'd"
  in16 :: "u16 \<Rightarrow> 'd \<Rightarrow> u16 \<times> 'd"
  out8 :: "u16 \<Rightarrow> u8 \<Rightarrow> 'd \<Rightarrow> 'd"
  out16 :: "u16 \<Rightarrow> u16 \<Rightarrow> 'd \<Rightarrow> 'd"

record 'd ata =
  g_ata_ok :: bool
  hw :: 'd

definition ATA_DATA :: u16 where "ATA_DATA = 0x1F0"
definition ATA_SECCOUNT :: u16 where "ATA_SECCOUNT = 0x1F2"
definition ATA_LBA_LO :: u16 where "ATA_LBA_LO = 0x1F3"
definition ATA_LBA_MID :: u16 where "ATA_LBA_MID = 0x1F4"
definition ATA_LBA_HI :: u16 where "ATA_LBA_HI = 0x1F5"
definition ATA_DRIVE :: u16 where "ATA_DRIVE = 0x1F6"
definition ATA_STATUS :: u16 where "ATA_STATUS = 0x1F7"
definition ATA_CMD :: u16 where "ATA_CMD = 0x1F7"

lemmas ata_ports = ATA_DATA_def ATA_SECCOUNT_def ATA_LBA_LO_def ATA_LBA_MID_def ATA_LBA_HI_def
  ATA_DRIVE_def ATA_STATUS_def ATA_CMD_def

definition ATA_STATUS_ERR :: u8 where "ATA_STATUS_ERR = 0x01"
definition ATA_STATUS_DRQ :: u8 where "ATA_STATUS_DRQ = 0x08"
definition ATA_STATUS_DF :: u8 where "ATA_STATUS_DF = 0x20"
definition ATA_STATUS_BSY :: u8 where "ATA_STATUS_BSY = 0x80"

lemmas ata_bits = ATA_STATUS_ERR_def ATA_STATUS_DRQ_def ATA_STATUS_DF_def ATA_STATUS_BSY_def

definition ATA_CMD_READ_PIO :: u8 where "ATA_CMD_READ_PIO = 0x20"
definition ATA_CMD_WRITE_PIO :: u8 where "ATA_CMD_WRITE_PIO = 0x30"
definition ATA_CMD_IDENTIFY :: u8 where "ATA_CMD_IDENTIFY = 0xEC"

lemmas ata_cmds = ATA_CMD_READ_PIO_def ATA_CMD_WRITE_PIO_def ATA_CMD_IDENTIFY_def

definition ATA_POLLS :: nat where "ATA_POLLS = 1000000"

section \<open>The driver\<close>

definition ata_delay :: "'d ports \<Rightarrow> 'd \<Rightarrow> 'd" where
  "ata_delay p d = fold (\<lambda>i d. snd (in8 p 0x3F6 d)) [0..<4] d"

text \<open>The polling loops, with the number of polls left.\<close>

fun poll_not_busy :: "'d ports \<Rightarrow> nat \<Rightarrow> 'd \<Rightarrow> int \<times> 'd" where
  "poll_not_busy p 0 d = (-1, d)"
| "poll_not_busy p (Suc n) d =
     (let (s, d) = in8 p ATA_STATUS d in
      if s AND ATA_STATUS_BSY = 0 then (0, d) else poll_not_busy p n d)"

definition ata_wait_not_busy :: "'d ports \<Rightarrow> 'd \<Rightarrow> int \<times> 'd" where
  "ata_wait_not_busy p d = poll_not_busy p ATA_POLLS d"

fun poll_drq :: "'d ports \<Rightarrow> nat \<Rightarrow> 'd \<Rightarrow> int \<times> 'd" where
  "poll_drq p 0 d = (-1, d)"
| "poll_drq p (Suc n) d =
     (let (s, d) = in8 p ATA_STATUS d in
      if s AND ATA_STATUS_ERR \<noteq> 0 then (-1, d)
      else if s AND ATA_STATUS_DF \<noteq> 0 then (-1, d)
      else if s AND ATA_STATUS_DRQ \<noteq> 0 then (0, d)
      else poll_drq p n d)"

definition ata_wait_drq :: "'d ports \<Rightarrow> 'd \<Rightarrow> int \<times> 'd" where
  "ata_wait_drq p d = poll_drq p ATA_POLLS d"

text \<open>The bytes of \<open>n\<close> words from the data port, low byte first.\<close>

fun read_words :: "'d ports \<Rightarrow> nat \<Rightarrow> 'd \<Rightarrow> u8 list \<times> 'd" where
  "read_words p 0 d = ([], d)"
| "read_words p (Suc n) d =
     (let (w, d) = in16 p ATA_DATA d; (bs, d) = read_words p n d
      in (ucast w # ucast (drop_bit 8 w) # bs, d))"

definition word_of :: "u8 \<Rightarrow> u8 \<Rightarrow> u16" where
  "word_of lo hi = ucast lo OR push_bit 8 (ucast hi)"

fun write_words :: "'d ports \<Rightarrow> u8 list \<Rightarrow> 'd \<Rightarrow> 'd" where
  "write_words p (lo # hi # bs) d = write_words p bs (out16 p ATA_DATA (word_of lo hi) d)"
| "write_words p bs d = d"

definition ata_init :: "'d ports \<Rightarrow> 'd ata \<Rightarrow> int \<times> 'd ata" where
  "ata_init p a =
     (let a = a\<lparr>g_ata_ok := False\<rparr>;
          d = ata_delay p (out8 p ATA_DRIVE 0xA0 (hw a));
          d = out8 p ATA_LBA_HI 0 (out8 p ATA_LBA_MID 0 (out8 p ATA_LBA_LO 0 (out8 p ATA_SECCOUNT 0 d)));
          d = ata_delay p (out8 p ATA_CMD ATA_CMD_IDENTIFY d);
          (status, d) = in8 p ATA_STATUS d in
      if status = 0 then (-1, a\<lparr>hw := d\<rparr>)
      else
        let (r, d) = ata_wait_not_busy p d in
        if r \<noteq> 0 then (-1, a\<lparr>hw := d\<rparr>)
        else
          let (m, d) = in8 p ATA_LBA_MID d in
          if m \<noteq> 0 then (-1, a\<lparr>hw := d\<rparr>)
          else
            let (h, d) = in8 p ATA_LBA_HI d in
            if h \<noteq> 0 then (-1, a\<lparr>hw := d\<rparr>)
            else
              let (r, d) = ata_wait_drq p d in
              if r \<noteq> 0 then (-1, a\<lparr>hw := d\<rparr>)
              else
                let (ident, d) = read_words p 256 d
                in (0, a\<lparr>g_ata_ok := True, hw := d\<rparr>))"

definition ata_present :: "'d ata \<Rightarrow> bool" where
  "ata_present a = g_ata_ok a"

text \<open>The task file of a transfer and its command.\<close>

definition ata_command :: "'d ports \<Rightarrow> u32 \<Rightarrow> u8 \<Rightarrow> u8 \<Rightarrow> 'd \<Rightarrow> 'd" where
  "ata_command p lba count command d =
     (let d = out8 p ATA_DRIVE (0xE0 OR ucast (drop_bit 24 lba AND 0x0F)) d;
          d = out8 p ATA_SECCOUNT count d;
          d = out8 p ATA_LBA_LO (ucast (lba AND 0xFF)) d;
          d = out8 p ATA_LBA_MID (ucast (drop_bit 8 lba AND 0xFF)) d;
          d = out8 p ATA_LBA_HI (ucast (drop_bit 16 lba AND 0xFF)) d
      in out8 p ATA_CMD command d)"

text \<open>The bytes read are those stored from the start of the caller's buffer on; after a
  failure they are the sectors read before it.\<close>

fun read_sectors_loop :: "'d ports \<Rightarrow> nat \<Rightarrow> 'd \<Rightarrow> int \<times> u8 list \<times> 'd" where
  "read_sectors_loop p 0 d = (0, [], d)"
| "read_sectors_loop p (Suc n) d =
     (let (r, d) = ata_wait_not_busy p d in
      if r \<noteq> 0 then (-1, [], d)
      else
        let (r, d) = ata_wait_drq p d in
        if r \<noteq> 0 then (-1, [], d)
        else
          let (bs, d) = read_words p 256 d; (r, rest, d) = read_sectors_loop p n d
          in (r, bs @ rest, d))"

definition ata_read_sectors :: "'d ports \<Rightarrow> u32 \<Rightarrow> u8 \<Rightarrow> 'd ata \<Rightarrow> int \<times> u8 list \<times> 'd ata" where
  "ata_read_sectors p lba count a =
     (if \<not> g_ata_ok a \<or> count = 0 then (-1, [], a)
      else
        let (r, d) = ata_wait_not_busy p (hw a) in
        if r \<noteq> 0 then (-1, [], a\<lparr>hw := d\<rparr>)
        else
          let (r, bs, d) = read_sectors_loop p (unat count) (ata_command p lba count ATA_CMD_READ_PIO d)
          in (r, bs, a\<lparr>hw := d\<rparr>))"

fun write_sectors_loop :: "'d ports \<Rightarrow> nat \<Rightarrow> u8 list \<Rightarrow> 'd \<Rightarrow> int \<times> 'd" where
  "write_sectors_loop p 0 buf d = (0, d)"
| "write_sectors_loop p (Suc n) buf d =
     (let (r, d) = ata_wait_not_busy p d in
      if r \<noteq> 0 then (-1, d)
      else
        let (r, d) = ata_wait_drq p d in
        if r \<noteq> 0 then (-1, d)
        else
          let (r, d) = ata_wait_not_busy p (write_words p (take 512 buf) d) in
          if r \<noteq> 0 then (-1, d) else write_sectors_loop p n (drop 512 buf) d)"

text \<open>\<open>buf\<close> has at least \<open>512 * count\<close> bytes.\<close>

definition ata_write_sectors :: "'d ports \<Rightarrow> u32 \<Rightarrow> u8 \<Rightarrow> u8 list \<Rightarrow> 'd ata \<Rightarrow> int \<times> 'd ata" where
  "ata_write_sectors p lba count buf a =
     (if \<not> g_ata_ok a \<or> count = 0 then (-1, a)
      else
        let (r, d) = ata_wait_not_busy p (hw a) in
        if r \<noteq> 0 then (-1, a\<lparr>hw := d\<rparr>)
        else
          let (r, d) = write_sectors_loop p (unat count) buf (ata_command p lba count ATA_CMD_WRITE_PIO d)
          in (r, a\<lparr>hw := d\<rparr>))"

section \<open>What a disk driver promises\<close>

text \<open>The sectors from \<open>lba\<close> on, and a disk after they are overwritten.\<close>

definition sectors_at :: "(nat \<Rightarrow> u8 list) \<Rightarrow> nat \<Rightarrow> nat \<Rightarrow> u8 list" where
  "sectors_at sect lba n = concat (map (\<lambda>i. sect (lba + i)) [0..<n])"

definition put_sectors :: "nat \<Rightarrow> nat \<Rightarrow> u8 list \<Rightarrow> (nat \<Rightarrow> u8 list) \<Rightarrow> nat \<Rightarrow> u8 list" where
  "put_sectors lba n buf sect k =
     (if lba \<le> k \<and> k < lba + n then take 512 (drop (512 * (k - lba)) buf) else sect k)"

lemma sectors_at_Suc: "sectors_at sect l (Suc n) = sect l @ sectors_at sect (Suc l) n"
  by (simp add: sectors_at_def upt_conv_Cons map_Suc_upt [symmetric] comp_def del: upt_Suc)

lemma put_sectors_Suc:
  "put_sectors l (Suc n) buf sect = put_sectors (Suc l) n (drop 512 buf) (sect(l := take 512 buf))"
proof
  fix k
  show "put_sectors l (Suc n) buf sect k = put_sectors (Suc l) n (drop 512 buf) (sect(l := take 512 buf)) k"
  proof (cases "Suc l \<le> k \<and> k < Suc l + n")
    case True
    then have "512 * (k - l) = 512 * (k - Suc l) + 512" by auto
    with True show ?thesis by (simp add: put_sectors_def)
  qed (auto simp: put_sectors_def)
qed

lemma sectors_at_put:
  "length buf = 512 * n \<Longrightarrow> sectors_at (put_sectors l n buf sect) l n = buf"
proof (induction n arbitrary: l buf sect)
  case (Suc n)
  have "put_sectors (Suc l) n (drop 512 buf) (sect(l := take 512 buf)) l = take 512 buf"
    by (simp add: put_sectors_def)
  with Suc show ?case by (simp add: sectors_at_Suc put_sectors_Suc)
qed (simp add: sectors_at_def)

lemma put_sectors_0: "put_sectors l 0 buf sect = sect"
  by (rule ext) (auto simp: put_sectors_def)

locale ata_disk =
  fixes p :: "'d ports"
    and ready :: "'d ata \<Rightarrow> bool"
    and sect :: "'d ata \<Rightarrow> nat \<Rightarrow> u8 list"
    and cap :: nat
  assumes cap_28: "cap \<le> 2 ^ 28"
    and ready_present: "ready a \<Longrightarrow> g_ata_ok a"
    and sect_length: "ready a \<Longrightarrow> length (sect a k) = 512"
    and read_ok: "ready a \<Longrightarrow> 0 < count \<Longrightarrow> unat lba + unat count \<le> cap \<Longrightarrow>
      \<exists>a'. ata_read_sectors p lba count a = (0, sectors_at (sect a) (unat lba) (unat count), a')
        \<and> ready a' \<and> sect a' = sect a"
    and write_ok: "ready a \<Longrightarrow> 0 < count \<Longrightarrow> unat lba + unat count \<le> cap \<Longrightarrow>
      512 * unat count \<le> length buf \<Longrightarrow>
      \<exists>a'. ata_write_sectors p lba count buf a = (0, a') \<and> ready a'
        \<and> sect a' = put_sectors (unat lba) (unat count) buf (sect a)"

end
