(* ===== verification/Fat32.thy ===== *)
theory Fat32
  imports Bytes Ata Terminal
begin

text \<open>
  The FAT32 driver of \<open>src/src/fat32.c\<close> over the disk driver of \<open>Ata\<close>. The statics of the
  file are the fields of \<open>fat32\<close>, with the driver's two buffers; the structures the C
  overlays on them (\<open>fat32_bpb\<close>, \<open>fat_dirent\<close>) are read and written through their byte
  offsets. Every definition takes the port functions \<open>p\<close> of the machine.

  An operation that walks a cluster chain may not return on a cyclic chain, and one that
  moves a whole cluster would leave the 4096-byte \<open>cluster_buf\<close> when the volume has more
  than 8 sectors per cluster (\<open>try_mount_at\<close> accepts up to 64): both are \<open>None\<close>.
\<close>

section \<open>Constants and state\<close>

definition SECTOR_SIZE :: nat where "SECTOR_SIZE = 512"
definition CAT_MAX_BYTES :: nat where "CAT_MAX_BYTES = 4096"
definition WRITE_MAX_BYTES :: nat where "WRITE_MAX_BYTES = 4096"
definition ATTR_VOLUME_ID :: u8 where "ATTR_VOLUME_ID = 0x08"
definition ATTR_DIRECTORY :: u8 where "ATTR_DIRECTORY = 0x10"
definition ATTR_ARCHIVE :: u8 where "ATTR_ARCHIVE = 0x20"
definition ATTR_LFN :: u8 where "ATTR_LFN = 0x0F"

lemmas fat_consts = SECTOR_SIZE_def CAT_MAX_BYTES_def WRITE_MAX_BYTES_def
  ATTR_VOLUME_ID_def ATTR_DIRECTORY_def ATTR_ARCHIVE_def ATTR_LFN_def

datatype fat_result =
    FAT_OK | FAT_ERR_NO_DISK | FAT_ERR_NOT_FAT32 | FAT_ERR_IO | FAT_ERR_NOT_FOUND | FAT_ERR_IS_DIR
  | FAT_ERR_NOT_DIR | FAT_ERR_TOO_BIG | FAT_ERR_NOT_MOUNTED | FAT_ERR_NO_SPACE | FAT_ERR_EXISTS
  | FAT_ERR_NOT_EMPTY

record 'd fat32 =
  mounted :: bool
  partition_lba :: u32
  fat_start :: u32
  data_start :: u32
  root_cluster :: u32
  sectors_per_cluster :: u8
  fat_size_sectors :: u32
  num_fats :: u8
  total_clusters :: u32
  sector_buf :: "u8 list"
  cluster_buf :: "u8 list"
  disk :: "'d ata"

definition byte_of_char :: "char \<Rightarrow> u8" where
  "byte_of_char c = word_of_int (of_char c)"

definition char_of_byte :: "u8 \<Rightarrow> char" where
  "char_of_byte b = char_of (unat b)"

section \<open>Sectors\<close>

text \<open>\<open>ata_read_sectors(lba, 1, sector_buf)\<close> and \<open>ata_write_sectors(lba, 1, sector_buf)\<close>.\<close>

definition load_sector :: "'d ports \<Rightarrow> u32 \<Rightarrow> 'd fat32 \<Rightarrow> int \<times> 'd fat32" where
  "load_sector p lba s =
     (let (r, bs, a) = ata_read_sectors p lba 1 (disk s)
      in (r, s\<lparr>sector_buf := put_at 0 bs (sector_buf s), disk := a\<rparr>))"

definition store_sector :: "'d ports \<Rightarrow> u32 \<Rightarrow> 'd fat32 \<Rightarrow> int \<times> 'd fat32" where
  "store_sector p lba s =
     (let (r, a) = ata_write_sectors p lba 1 (sector_buf s) (disk s) in (r, s\<lparr>disk := a\<rparr>))"

definition read_sector :: "'d ports \<Rightarrow> u32 \<Rightarrow> 'd fat32 \<Rightarrow> int \<times> 'd fat32" where
  "read_sector p lba s = load_sector p (partition_lba s + lba) s"

definition write_sector :: "'d ports \<Rightarrow> u32 \<Rightarrow> 'd fat32 \<Rightarrow> int \<times> 'd fat32" where
  "write_sector p lba s = store_sector p (partition_lba s + lba) s"

section \<open>The boot sector\<close>

abbreviation bpb_bytes_per_sector :: "u8 list \<Rightarrow> u16" where "bpb_bytes_per_sector b \<equiv> le16 b 11"
abbreviation bpb_sectors_per_cluster :: "u8 list \<Rightarrow> u8" where "bpb_sectors_per_cluster b \<equiv> b ! 13"
abbreviation bpb_reserved_sectors :: "u8 list \<Rightarrow> u16" where "bpb_reserved_sectors b \<equiv> le16 b 14"
abbreviation bpb_num_fats :: "u8 list \<Rightarrow> u8" where "bpb_num_fats b \<equiv> b ! 16"
abbreviation bpb_total_sectors_16 :: "u8 list \<Rightarrow> u16" where "bpb_total_sectors_16 b \<equiv> le16 b 19"
abbreviation bpb_total_sectors_32 :: "u8 list \<Rightarrow> u32" where "bpb_total_sectors_32 b \<equiv> le32 b 32"
abbreviation bpb_fat_size_32 :: "u8 list \<Rightarrow> u32" where "bpb_fat_size_32 b \<equiv> le32 b 36"
abbreviation bpb_root_cluster :: "u8 list \<Rightarrow> u32" where "bpb_root_cluster b \<equiv> le32 b 44"
abbreviation bpb_boot_signature :: "u8 list \<Rightarrow> u8" where "bpb_boot_signature b \<equiv> b ! 66"
abbreviation bpb_fs_type_0 :: "u8 list \<Rightarrow> u8" where "bpb_fs_type_0 b \<equiv> b ! 82"

definition is_boot_sector :: "u8 list \<Rightarrow> bool" where
  "is_boot_sector b \<longleftrightarrow> bpb_bytes_per_sector b = 512 \<and> 1 \<le> bpb_sectors_per_cluster b \<and> 1 \<le> bpb_num_fats b
     \<and> bpb_fat_size_32 b \<noteq> 0 \<and> (bpb_fs_type_0 b = byte_of_char CHR ''F'' \<or> bpb_boot_signature b = 0x29)"

definition has_signature :: "u8 list \<Rightarrow> bool" where
  "has_signature b \<longleftrightarrow> b ! 510 = 0x55 \<and> b ! 511 = 0xAA"

definition is_probed_sector :: "u8 list \<Rightarrow> bool" where
  "is_probed_sector b \<longleftrightarrow> bpb_bytes_per_sector b = 512 \<and> bpb_fat_size_32 b \<noteq> 0
     \<and> 1 \<le> bpb_sectors_per_cluster b \<and> bpb_sectors_per_cluster b \<le> 64
     \<and> (bpb_fs_type_0 b = byte_of_char CHR ''F'' \<or> bpb_boot_signature b = 0x29 \<or> has_signature b)"

definition mbr_fat_entry :: "u8 list \<Rightarrow> nat \<Rightarrow> bool" where
  "mbr_fat_entry b i \<longleftrightarrow> b ! (446 + i * 16 + 4) \<in> {0x0B, 0x0C, 0x0E}"

definition find_fat_partition :: "'d ports \<Rightarrow> 'd fat32 \<Rightarrow> int \<times> 'd fat32" where
  "find_fat_partition p s =
     (let (r, s) = load_sector p 0 s in
      if r \<noteq> 0 then (-1, s)
      else if is_boot_sector (sector_buf s) then (0, s\<lparr>partition_lba := 0\<rparr>)
      else if \<not> has_signature (sector_buf s) then (-1, s)
      else case scan (mbr_fat_entry (sector_buf s)) 0 4 of
        Some i \<Rightarrow> (0, s\<lparr>partition_lba := le32 (sector_buf s) (446 + i * 16 + 8)\<rparr>)
      | None \<Rightarrow>
          let (r, s) = load_sector p 2048 s in
          if r = 0 \<and> is_probed_sector (sector_buf s) then (0, s\<lparr>partition_lba := 2048\<rparr>)
          else (-1, s))"

definition fat32_set_partition_lba :: "u32 \<Rightarrow> 'd fat32 \<Rightarrow> 'd fat32" where
  "fat32_set_partition_lba lba s = s\<lparr>partition_lba := lba, mounted := False\<rparr>"

definition try_mount_at :: "'d ports \<Rightarrow> u32 \<Rightarrow> 'd fat32 \<Rightarrow> int \<times> 'd fat32" where
  "try_mount_at p lba s =
     (let s = s\<lparr>partition_lba := lba\<rparr>; (r, s) = read_sector p 0 s; b = sector_buf s in
      if r \<noteq> 0 then (-1, s)
      else if bpb_bytes_per_sector b \<noteq> 512 \<or> bpb_fat_size_32 b = 0 then (-1, s)
      else if bpb_sectors_per_cluster b = 0 \<or> bpb_sectors_per_cluster b > 64 then (-1, s)
      else
        let spc = bpb_sectors_per_cluster b; nf = (if bpb_num_fats b \<noteq> 0 then bpb_num_fats b else 2);
            ds = ucast (bpb_reserved_sectors b) + ucast nf * bpb_fat_size_32 b;
            total_sectors = (if bpb_total_sectors_16 b \<noteq> 0 then ucast (bpb_total_sectors_16 b)
                             else bpb_total_sectors_32 b)
        in (0, s\<lparr>sectors_per_cluster := spc, fat_size_sectors := bpb_fat_size_32 b, num_fats := nf,
             fat_start := ucast (bpb_reserved_sectors b), data_start := ds,
             root_cluster := (if bpb_root_cluster b \<noteq> 0 then bpb_root_cluster b else 2),
             total_clusters := (if total_sectors > ds then (total_sectors - ds) div ucast spc else 0x10000)\<rparr>))"

definition fat32_mount :: "'d ports \<Rightarrow> 'd fat32 \<Rightarrow> fat_result \<times> 'd fat32" where
  "fat32_mount p s =
     (let s = s\<lparr>mounted := False\<rparr>;
          (r, a) = (if ata_present (disk s) then (0, disk s) else ata_init p (disk s));
          s = s\<lparr>disk := a\<rparr> in
      if r \<noteq> 0 then (FAT_ERR_NO_DISK, s)
      else
        let prefer = partition_lba s;
            (r, s) = (if prefer \<noteq> 0 then try_mount_at p prefer s else (-1, s)) in
        if r = 0 then (FAT_OK, s\<lparr>mounted := True\<rparr>)
        else
          let (r, s) = find_fat_partition p s in
          if r \<noteq> 0 then (FAT_ERR_NOT_FAT32, s)
          else
            let (r, s) = try_mount_at p (partition_lba s) s in
            if r \<noteq> 0 then (FAT_ERR_NOT_FAT32, s) else (FAT_OK, s\<lparr>mounted := True\<rparr>))"

definition fat32_is_mounted :: "'d fat32 \<Rightarrow> bool" where
  "fat32_is_mounted s = mounted s"

section \<open>The allocation table\<close>

definition cluster_to_lba :: "'d fat32 \<Rightarrow> u32 \<Rightarrow> u32" where
  "cluster_to_lba s cluster = data_start s + (cluster - 2) * ucast (sectors_per_cluster s)"

definition ent_sector :: "'d fat32 \<Rightarrow> u32 \<Rightarrow> u32" where
  "ent_sector s cluster = fat_start s + cluster * 4 div 512"

definition ent_offset :: "u32 \<Rightarrow> nat" where
  "ent_offset cluster = unat (cluster * 4 mod 512)"

definition fat_get :: "'d ports \<Rightarrow> u32 \<Rightarrow> 'd fat32 \<Rightarrow> u32 \<times> 'd fat32" where
  "fat_get p cluster s =
     (let (r, s) = load_sector p (partition_lba s + ent_sector s cluster) s in
      if r \<noteq> 0 then (0x0FFFFFF7, s)
      else (le32 (sector_buf s) (ent_offset cluster) AND 0x0FFFFFFF, s))"

text \<open>The copies of the table, \<open>n\<close> of them left from number \<open>f\<close> on.\<close>

fun fat_set_loop :: "'d ports \<Rightarrow> u32 \<Rightarrow> u32 \<Rightarrow> nat \<Rightarrow> u8 \<Rightarrow> 'd fat32 \<Rightarrow> int \<times> 'd fat32" where
  "fat_set_loop p cluster v 0 f s = (0, s)"
| "fat_set_loop p cluster v (Suc n) f s =
     (let sec = ent_sector s cluster + ucast f * fat_size_sectors s;
          (r, s) = load_sector p (partition_lba s + sec) s in
      if r \<noteq> 0 then (-1, s)
      else
        let neu = (le32 (sector_buf s) (ent_offset cluster) AND 0xF0000000) OR (v AND 0x0FFFFFFF);
            s = s\<lparr>sector_buf := put_at (ent_offset cluster) (bytes32 neu) (sector_buf s)\<rparr>;
            (r, s) = store_sector p (partition_lba s + sec) s in
        if r \<noteq> 0 then (-1, s) else fat_set_loop p cluster v n (f + 1) s)"

definition fat_set :: "'d ports \<Rightarrow> u32 \<Rightarrow> u32 \<Rightarrow> 'd fat32 \<Rightarrow> int \<times> 'd fat32" where
  "fat_set p cluster v s = fat_set_loop p cluster v (unat (num_fats s)) 0 s"

text \<open>The search for a free entry, \<open>n\<close> clusters left from \<open>c\<close> on; the result 0 is "none".\<close>

fun alloc_loop :: "'d ports \<Rightarrow> nat \<Rightarrow> u32 \<Rightarrow> 'd fat32 \<Rightarrow> u32 \<times> 'd fat32" where
  "alloc_loop p 0 c s = (0, s)"
| "alloc_loop p (Suc n) c s =
     (let (v, s) = fat_get p c s in
      if v = 0 then
        (let (r, s) = fat_set p c 0x0FFFFFFF s in if r \<noteq> 0 then (0, s) else (c, s))
      else alloc_loop p n (c + 1) s)"

definition fat_alloc_cluster :: "'d ports \<Rightarrow> 'd fat32 \<Rightarrow> u32 \<times> 'd fat32" where
  "fat_alloc_cluster p s = alloc_loop p (unat (total_clusters s + 2) - 2) 2 s"

definition in_chain :: "u32 \<Rightarrow> bool" where
  "in_chain cluster \<longleftrightarrow> 2 \<le> cluster \<and> cluster < 0x0FFFFFF8"

partial_function (option) fat_free_chain :: "'d ports \<Rightarrow> u32 \<Rightarrow> 'd fat32 \<Rightarrow> (int \<times> 'd fat32) option" where
  "fat_free_chain p cluster s =
     (if in_chain cluster then
        let (nxt, s) = fat_get p cluster s; (r, s) = fat_set p cluster 0 s in
        if r \<noteq> 0 then Some (-1, s) else fat_free_chain p nxt s
      else Some (0, s))"

section \<open>Clusters\<close>

definition cluster_bytes :: "'d fat32 \<Rightarrow> nat" where
  "cluster_bytes s = unat (sectors_per_cluster s) * SECTOR_SIZE"

definition read_cluster :: "'d ports \<Rightarrow> u32 \<Rightarrow> 'd fat32 \<Rightarrow> (int \<times> 'd fat32) option" where
  "read_cluster p cluster s =
     (let (r, bs, a) = ata_read_sectors p (partition_lba s + cluster_to_lba s cluster) (sectors_per_cluster s) (disk s) in
      if length bs > length (cluster_buf s) then None
      else Some (r, s\<lparr>cluster_buf := put_at 0 bs (cluster_buf s), disk := a\<rparr>))"

definition write_cluster :: "'d ports \<Rightarrow> u32 \<Rightarrow> 'd fat32 \<Rightarrow> (int \<times> 'd fat32) option" where
  "write_cluster p cluster s =
     (if cluster_bytes s > length (cluster_buf s) then None
      else
        let (r, a) = ata_write_sectors p (partition_lba s + cluster_to_lba s cluster) (sectors_per_cluster s)
                       (cluster_buf s) (disk s)
        in Some (r, s\<lparr>disk := a\<rparr>))"

text \<open>\<open>mem_set(cluster_buf, 0, ...)\<close> followed by \<open>mem_copy\<close> to its start.\<close>

definition fill_cluster :: "u8 list \<Rightarrow> 'd fat32 \<Rightarrow> 'd fat32 option" where
  "fill_cluster bs s =
     (if cluster_bytes s > length (cluster_buf s) then None
      else Some (s\<lparr>cluster_buf := put_at 0 bs (put_at 0 (replicate (cluster_bytes s) 0) (cluster_buf s))\<rparr>))"

section \<open>Names\<close>

definition upper :: "char \<Rightarrow> char" where
  "upper c = (if of_char CHR ''a'' \<le> (of_char c :: nat) \<and> of_char c \<le> (of_char CHR ''z'' :: nat)
     then char_of (of_char c - (32 :: nat)) else c)"

definition pad :: "nat \<Rightarrow> cstring \<Rightarrow> cstring" where
  "pad n s = s @ replicate (n - length s) CHR '' ''"

definition name_to_83 :: "cstring \<Rightarrow> u8 list" where
  "name_to_83 name =
     (let base = takeWhile (\<lambda>c. c \<noteq> CHR ''.'') (take 8 name); rest = drop (length base) name;
          ext = (if rest \<noteq> [] \<and> hd rest = CHR ''.'' then take 3 (tl rest) else [])
      in map byte_of_char (pad 8 (map upper base) @ pad 3 (map upper ext)))"

definition name_from_83 :: "u8 list \<Rightarrow> cstring" where
  "name_from_83 n =
     (let chars = map char_of_byte n; base = takeWhile (\<lambda>c. c \<noteq> CHR '' '') (take 8 chars) in
      if chars ! 8 \<noteq> CHR '' ''
      then base @ ''.'' @ takeWhile (\<lambda>c. c \<noteq> CHR '' '') (take 3 (drop 8 chars)) else base)"

section \<open>Directory entries\<close>

abbreviation de_name :: "u8 list \<Rightarrow> u8 list" where "de_name e \<equiv> take 11 e"
abbreviation de_attr :: "u8 list \<Rightarrow> u8" where "de_attr e \<equiv> e ! 11"
abbreviation de_size :: "u8 list \<Rightarrow> u32" where "de_size e \<equiv> le32 e 28"

definition de_cluster :: "u8 list \<Rightarrow> u32" where
  "de_cluster e = push_bit 16 (ucast (le16 e 20)) OR ucast (le16 e 26)"

definition dirent_match :: "u8 list \<Rightarrow> cstring \<Rightarrow> bool" where
  "dirent_match e name \<longleftrightarrow> de_name e = name_to_83 name"

text \<open>The entries of the cluster in the buffer.\<close>

definition entries :: "'d fat32 \<Rightarrow> u8 list list" where
  "entries s = map (\<lambda>i. take 32 (drop (32 * i) (cluster_buf s))) [0..<cluster_bytes s div 32]"

text \<open>One cluster of \<open>iterate_dir\<close>: \<open>Some r\<close> when the whole iteration ends with \<open>r\<close>.\<close>

fun iterate_entries :: "(u8 list \<Rightarrow> 'c \<Rightarrow> int \<times> 'c) \<Rightarrow> u8 list list \<Rightarrow> 'c \<Rightarrow> int option \<times> 'c" where
  "iterate_entries fn [] ctx = (None, ctx)"
| "iterate_entries fn (e # es) ctx =
     (if e ! 0 = 0x00 then (Some 0, ctx)
      else if e ! 0 = 0xE5 then iterate_entries fn es ctx
      else if de_attr e = ATTR_LFN then iterate_entries fn es ctx
      else if de_attr e AND ATTR_VOLUME_ID \<noteq> 0 then iterate_entries fn es ctx
      else
        let (r, ctx) = fn e ctx in
        if r \<noteq> 0 then (Some r, ctx) else iterate_entries fn es ctx)"

partial_function (option) iterate_dir ::
  "'d ports \<Rightarrow> (u8 list \<Rightarrow> 'c \<Rightarrow> int \<times> 'c) \<Rightarrow> u32 \<Rightarrow> 'c \<Rightarrow> 'd fat32 \<Rightarrow> (int \<times> 'c \<times> 'd fat32) option" where
  "iterate_dir p fn cluster ctx s =
     (if in_chain cluster then do {
        (r, s) \<leftarrow> read_cluster p cluster s;
        if r \<noteq> 0 then Some (-1, ctx, s)
        else
          let (done, ctx) = iterate_entries fn (entries s) ctx in
          case done of
            Some r \<Rightarrow> Some (r, ctx, s)
          | None \<Rightarrow> let (nxt, s) = fat_get p cluster s in iterate_dir p fn nxt ctx s
      }
      else Some (0, ctx, s))"

definition find_cb :: "cstring \<Rightarrow> u8 list \<Rightarrow> u8 list option \<Rightarrow> int \<times> u8 list option" where
  "find_cb name e fc = (if dirent_match e name then (1, Some e) else (0, fc))"

section \<open>A slot in the root directory\<close>

record slot_ctx =
  want :: "u8 list"
  sc_cluster :: u32
  sc_offset :: nat
  found :: bool
  found_existing :: bool
  existing :: "u8 list"

definition slot_match :: "u8 list \<Rightarrow> u8 list \<Rightarrow> bool" where
  "slot_match w e \<longleftrightarrow> e ! 0 \<noteq> 0x00 \<and> e ! 0 \<noteq> 0xE5 \<and> de_attr e \<noteq> ATTR_LFN \<and> de_attr e AND ATTR_VOLUME_ID = 0
     \<and> de_name e = w"

text \<open>One cluster, from entry offset \<open>off\<close> on; \<open>True\<close> when the search ends here.\<close>

fun slot_entries :: "u32 \<Rightarrow> nat \<Rightarrow> u8 list list \<Rightarrow> slot_ctx \<Rightarrow> bool \<times> slot_ctx" where
  "slot_entries cluster off [] sc = (False, sc)"
| "slot_entries cluster off (e # es) sc =
     (if slot_match (want sc) e
      then (True, sc\<lparr>sc_cluster := cluster, sc_offset := off, found := True, found_existing := True, existing := e\<rparr>)
      else if \<not> found sc \<and> (e ! 0 = 0x00 \<or> e ! 0 = 0xE5) then
        (let sc = sc\<lparr>sc_cluster := cluster, sc_offset := off, found := True\<rparr> in
         if e ! 0 = 0x00 then (True, sc) else slot_entries cluster (off + 32) es sc)
      else slot_entries cluster (off + 32) es sc)"

definition extend_root :: "'d ports \<Rightarrow> u32 \<Rightarrow> slot_ctx \<Rightarrow> 'd fat32 \<Rightarrow> (int \<times> slot_ctx \<times> 'd fat32) option" where
  "extend_root p cluster sc s =
     (let (nc, s) = fat_alloc_cluster p s in
      if nc = 0 then Some (-2, sc, s)
      else
        let (r, s) = fat_set p cluster nc s in
        if r \<noteq> 0 then Some (-1, sc, s)
        else do {
          s \<leftarrow> fill_cluster [] s;
          (r, s) \<leftarrow> write_cluster p nc s;
          if r \<noteq> 0 then Some (-1, sc, s)
          else Some (0, sc\<lparr>sc_cluster := nc, sc_offset := 0, found := True\<rparr>, s)
        })"

partial_function (option) find_slot_loop ::
  "'d ports \<Rightarrow> u32 \<Rightarrow> slot_ctx \<Rightarrow> 'd fat32 \<Rightarrow> (int \<times> slot_ctx \<times> 'd fat32) option" where
  "find_slot_loop p cluster sc s =
     (if in_chain cluster then do {
        (r, s) \<leftarrow> read_cluster p cluster s;
        if r \<noteq> 0 then Some (-1, sc, s)
        else
          let (done, sc) = slot_entries cluster 0 (entries s) sc in
          if done then Some (0, sc, s)
          else
            let (nxt, s) = fat_get p cluster s in
            if nxt \<ge> 0x0FFFFFF8 then (if found sc then Some (0, sc, s) else extend_root p cluster sc s)
            else find_slot_loop p nxt sc s
      }
      else Some (if found sc then 0 else -2, sc, s))"

definition find_slot_in_root :: "'d ports \<Rightarrow> slot_ctx \<Rightarrow> 'd fat32 \<Rightarrow> (int \<times> slot_ctx \<times> 'd fat32) option" where
  "find_slot_in_root p sc s = find_slot_loop p (root_cluster s) (sc\<lparr>found := False, found_existing := False\<rparr>) s"

definition no_slot :: "cstring \<Rightarrow> slot_ctx" where
  "no_slot name = \<lparr>want = name_to_83 name, sc_cluster = 0, sc_offset = 0, found = False, found_existing = False,
     existing = replicate 32 0\<rparr>"

section \<open>Reading files\<close>

definition find_in_root :: "'d ports \<Rightarrow> cstring \<Rightarrow> 'd fat32 \<Rightarrow> (int \<times> u8 list option \<times> 'd fat32) option" where
  "find_in_root p name s = iterate_dir p (find_cb name) (root_cluster s) None s"

text \<open>The copy loop of \<open>fat32_read_file\<close>: \<open>room\<close> is the space left in the caller's buffer, \<open>acc\<close>
  what is in it.\<close>

partial_function (option) read_chain ::
  "'d ports \<Rightarrow> u32 \<Rightarrow> nat \<Rightarrow> nat \<Rightarrow> u8 list \<Rightarrow> 'd fat32 \<Rightarrow> (fat_result \<times> u8 list \<times> 'd fat32) option" where
  "read_chain p cluster remaining room acc s =
     (if in_chain cluster \<and> remaining > 0 \<and> room > 0 then do {
        (r, s) \<leftarrow> read_cluster p cluster s;
        if r \<noteq> 0 then Some (FAT_ERR_IO, acc, s)
        else
          let chunk = min (min (cluster_bytes s) remaining) room;
              acc = acc @ take chunk (cluster_buf s);
              (nxt, s) = fat_get p cluster s
          in read_chain p nxt (remaining - chunk) (room - chunk) acc s
      }
      else Some (FAT_OK, acc, s))"

text \<open>The result, the bytes stored in the buffer, and \<open>*out_len\<close>.\<close>

definition fat32_read_file ::
  "'d ports \<Rightarrow> cstring \<Rightarrow> nat \<Rightarrow> 'd fat32 \<Rightarrow> (fat_result \<times> u8 list \<times> nat \<times> 'd fat32) option" where
  "fat32_read_file p name buf_size s =
     (if \<not> mounted s then Some (FAT_ERR_NOT_MOUNTED, [], 0, s)
      else if name = [] \<or> buf_size = 0 then Some (FAT_ERR_NOT_FOUND, [], 0, s)
      else do {
        (r, fc, s) \<leftarrow> find_in_root p name s;
        if r < 0 then Some (FAT_ERR_IO, [], 0, s)
        else case fc of
          None \<Rightarrow> Some (FAT_ERR_NOT_FOUND, [], 0, s)
        | Some e \<Rightarrow>
            if de_attr e AND ATTR_DIRECTORY \<noteq> 0 then Some (FAT_ERR_IS_DIR, [], 0, s)
            else do {
              (r, acc, s) \<leftarrow> read_chain p (de_cluster e) (unat (de_size e)) buf_size [] s;
              Some (r, acc, if r = FAT_OK then length acc else 0, s)
            }
      })"

partial_function (option) cat_chain ::
  "'d ports \<Rightarrow> u32 \<Rightarrow> nat \<Rightarrow> nat \<Rightarrow> terminal \<Rightarrow> 'd fat32 \<Rightarrow> (fat_result \<times> terminal \<times> 'd fat32) option" where
  "cat_chain p cluster remaining shown t s =
     (if in_chain cluster \<and> remaining > 0 then do {
        (r, s) \<leftarrow> read_cluster p cluster s;
        if r \<noteq> 0 then Some (FAT_ERR_IO, t, s)
        else
          let chunk = min (cluster_bytes s) remaining;
              part = take (CAT_MAX_BYTES - shown) (take chunk (cluster_buf s));
              t = fold (\<lambda>b. terminal_putchar (char_of_byte b)) part t in
          if shown + chunk > CAT_MAX_BYTES
          then Some (FAT_OK, terminal_writestring (CHR 0x0A # ''... (truncated)'' @ [CHR 0x0A]) t, s)
          else
            let (nxt, s) = fat_get p cluster s
            in cat_chain p nxt (remaining - chunk) (shown + chunk) t s
      }
      else Some (FAT_OK, terminal_putchar (CHR 0x0A) t, s))"

definition fat32_cat :: "'d ports \<Rightarrow> cstring \<Rightarrow> terminal \<Rightarrow> 'd fat32 \<Rightarrow> (fat_result \<times> terminal \<times> 'd fat32) option" where
  "fat32_cat p path t s =
     (if \<not> mounted s then Some (FAT_ERR_NOT_MOUNTED, t, s)
      else if path = [] then Some (FAT_ERR_NOT_FOUND, t, s)
      else do {
        (r, fc, s) \<leftarrow> find_in_root p path s;
        if r < 0 then Some (FAT_ERR_IO, t, s)
        else case fc of
          None \<Rightarrow> Some (FAT_ERR_NOT_FOUND, t, s)
        | Some e \<Rightarrow>
            if de_attr e AND ATTR_DIRECTORY \<noteq> 0 then Some (FAT_ERR_IS_DIR, t, s)
            else cat_chain p (de_cluster e) (unat (de_size e)) 0 t s
      })"

definition ls_cb :: "u8 list \<Rightarrow> terminal \<Rightarrow> int \<times> terminal" where
  "ls_cb e t =
     (let name = name_from_83 (de_name e) in
      (0, if de_attr e AND ATTR_DIRECTORY \<noteq> 0
          then terminal_putchar (CHR 0x0A) (terminal_writestring name (terminal_writestring ''  [DIR]  '' t))
          else terminal_writestring ('' bytes'' @ [CHR 0x0A]) (terminal_write_uint (de_size e)
            (terminal_writestring ''  '' (terminal_writestring name (terminal_writestring ''  [FILE] '' t))))))"

definition fat32_ls :: "'d ports \<Rightarrow> terminal \<Rightarrow> 'd fat32 \<Rightarrow> (fat_result \<times> terminal \<times> 'd fat32) option" where
  "fat32_ls p t s =
     (if \<not> mounted s then Some (FAT_ERR_NOT_MOUNTED, t, s)
      else do {
        (r, t, s) \<leftarrow> iterate_dir p ls_cb (root_cluster s) t s;
        Some (if r < 0 then FAT_ERR_IO else FAT_OK, t, s)
      })"

definition fat32_info :: "'d fat32 \<Rightarrow> terminal \<Rightarrow> terminal" where
  "fat32_info s t =
     (let nl = [CHR 0x0A] in
      if \<not> mounted s then terminal_writestring (''FAT32 not mounted. Use: fatmount'' @ nl) t
      else
        let t = terminal_writestring (''FAT32 mounted (R/W)'' @ nl) t;
            t = terminal_putchar (CHR 0x0A) (terminal_write_uint (partition_lba s) (terminal_writestring ''  partition LBA: '' t));
            t = terminal_putchar (CHR 0x0A) (terminal_write_uint (ucast (sectors_per_cluster s)) (terminal_writestring ''  sectors/cluster: '' t))
        in terminal_putchar (CHR 0x0A) (terminal_write_uint (root_cluster s) (terminal_writestring ''  root cluster: '' t)))"

section \<open>Writing files\<close>

text \<open>The loop over the clusters of the text; the result carries the first cluster and the last
  one (0 when there is none).\<close>

partial_function (option) write_chunks ::
  "'d ports \<Rightarrow> u8 list \<Rightarrow> u32 \<Rightarrow> u32 \<Rightarrow> 'd fat32 \<Rightarrow> (fat_result \<times> u32 \<times> u32 \<times> 'd fat32) option" where
  "write_chunks p txt first_cluster prev s =
     (if txt = [] then Some (FAT_OK, first_cluster, prev, s)
      else
        let (c, s) = fat_alloc_cluster p s in
        if c = 0 then Some (FAT_ERR_NO_SPACE, first_cluster, prev, s)
        else
          let first_cluster = (if first_cluster = 0 then c else first_cluster);
              (r, s) = (if prev \<noteq> 0 then fat_set p prev c s else (0, s)) in
          if r \<noteq> 0 then Some (FAT_ERR_IO, first_cluster, prev, s)
          else do {
            s \<leftarrow> fill_cluster (take (cluster_bytes s) txt) s;
            (r, s) \<leftarrow> write_cluster p c s;
            if r \<noteq> 0 then Some (FAT_ERR_IO, first_cluster, prev, s)
            else write_chunks p (drop (cluster_bytes s) txt) first_cluster c s
          })"

text \<open>A fresh entry: zeroes, the name, the attribute, the first cluster and the size.\<close>

definition new_entry :: "u8 list \<Rightarrow> u8 \<Rightarrow> u32 \<Rightarrow> u32 \<Rightarrow> u8 list" where
  "new_entry name attr cl sz =
     put_at 28 (bytes32 sz) (put_at 26 (bytes16 (ucast (cl AND 0xFFFF)))
       (put_at 20 (bytes16 (ucast (drop_bit 16 cl))) (put_at 11 [attr] (put_at 0 name (replicate 32 0)))))"

text \<open>Reading the slot's cluster, storing an entry in it and writing it back.\<close>

definition store_entry :: "'d ports \<Rightarrow> u32 \<Rightarrow> nat \<Rightarrow> u8 list \<Rightarrow> 'd fat32 \<Rightarrow> (fat_result \<times> 'd fat32) option" where
  "store_entry p cluster off bs s = do {
     (r, s) \<leftarrow> read_cluster p cluster s;
     if r \<noteq> 0 then Some (FAT_ERR_IO, s)
     else do {
       (r, s) \<leftarrow> write_cluster p cluster (s\<lparr>cluster_buf := put_at off bs (cluster_buf s)\<rparr>);
       Some (if r \<noteq> 0 then FAT_ERR_IO else FAT_OK, s)
     }
   }"

definition fat32_write :: "'d ports \<Rightarrow> cstring \<Rightarrow> cstring \<Rightarrow> 'd fat32 \<Rightarrow> (fat_result \<times> 'd fat32) option" where
  "fat32_write p name txt s =
     (if \<not> mounted s then Some (FAT_ERR_NOT_MOUNTED, s)
      else if name = [] then Some (FAT_ERR_NOT_FOUND, s)
      else if length txt > WRITE_MAX_BYTES then Some (FAT_ERR_TOO_BIG, s)
      else do {
        (sr, sc, s) \<leftarrow> find_slot_in_root p (no_slot name) s;
        if sr = -2 then Some (FAT_ERR_NO_SPACE, s)
        else if sr < 0 then Some (FAT_ERR_IO, s)
        else if found_existing sc \<and> de_attr (existing sc) AND ATTR_DIRECTORY \<noteq> 0 then Some (FAT_ERR_IS_DIR, s)
        else do {
          (_, s) \<leftarrow> (if found_existing sc \<and> de_cluster (existing sc) \<ge> 2
                     then fat_free_chain p (de_cluster (existing sc)) s else Some (0, s));
          (r, first_cluster, prev, s) \<leftarrow> write_chunks p (map byte_of_char txt) 0 0 s;
          if r \<noteq> FAT_OK then Some (r, s)
          else
            let (r, s) = (if prev \<noteq> 0 then fat_set p prev 0x0FFFFFFF s else (0, s)) in
            if r \<noteq> 0 then Some (FAT_ERR_IO, s)
            else store_entry p (sc_cluster sc) (sc_offset sc)
                   (new_entry (want sc) ATTR_ARCHIVE first_cluster (of_nat (length txt))) s
        }
      })"

section \<open>Directories and removal\<close>

definition dot_name :: "nat \<Rightarrow> u8 list" where
  "dot_name n = map byte_of_char (pad 11 (replicate n CHR ''.''))"

definition fat32_mkdir :: "'d ports \<Rightarrow> cstring \<Rightarrow> 'd fat32 \<Rightarrow> (fat_result \<times> 'd fat32) option" where
  "fat32_mkdir p name s =
     (if \<not> mounted s then Some (FAT_ERR_NOT_MOUNTED, s)
      else if name = [] then Some (FAT_ERR_NOT_FOUND, s)
      else do {
        (r, fc, s) \<leftarrow> find_in_root p name s;
        if r < 0 then Some (FAT_ERR_IO, s)
        else if fc \<noteq> None then Some (FAT_ERR_EXISTS, s)
        else
          let (dir_cl, s) = fat_alloc_cluster p s in
          if dir_cl = 0 then Some (FAT_ERR_NO_SPACE, s)
          else do {
            s \<leftarrow> fill_cluster (new_entry (dot_name 1) ATTR_DIRECTORY dir_cl 0
                               @ new_entry (dot_name 2) ATTR_DIRECTORY (root_cluster s) 0) s;
            (r, s) \<leftarrow> write_cluster p dir_cl s;
            if r \<noteq> 0 then Some (FAT_ERR_IO, snd (fat_set p dir_cl 0 s))
            else do {
              (sr, sc, s) \<leftarrow> find_slot_in_root p (no_slot name) s;
              if sr < 0 then do {
                (_, s) \<leftarrow> fat_free_chain p dir_cl s;
                Some (if sr = -2 then FAT_ERR_NO_SPACE else FAT_ERR_IO, s)
              }
              else if found_existing sc then do {
                (_, s) \<leftarrow> fat_free_chain p dir_cl s;
                Some (FAT_ERR_EXISTS, s)
              }
              else store_entry p (sc_cluster sc) (sc_offset sc) (new_entry (want sc) ATTR_DIRECTORY dir_cl 0) s
            }
          }
      })"

text \<open>The entries of a directory other than \<open>.\<close> and \<open>..\<close>, up to the end mark.\<close>

definition dot_entry :: "u8 list \<Rightarrow> bool" where
  "dot_entry e \<longleftrightarrow> e ! 0 = byte_of_char CHR ''.'' \<and> (e ! 1 = byte_of_char CHR '' ''
     \<or> e ! 1 = byte_of_char CHR ''.'' \<and> e ! 2 = byte_of_char CHR '' '')"

definition dir_not_empty :: "u8 list list \<Rightarrow> bool" where
  "dir_not_empty es \<longleftrightarrow> (\<exists>e \<in> set (takeWhile (\<lambda>e. e ! 0 \<noteq> 0x00) es).
     e ! 0 \<noteq> 0xE5 \<and> de_attr e \<noteq> ATTR_LFN \<and> \<not> dot_entry e)"

definition fat32_unlink :: "'d ports \<Rightarrow> cstring \<Rightarrow> 'd fat32 \<Rightarrow> (fat_result \<times> 'd fat32) option" where
  "fat32_unlink p name s =
     (if \<not> mounted s then Some (FAT_ERR_NOT_MOUNTED, s)
      else if name = [] then Some (FAT_ERR_NOT_FOUND, s)
      else do {
        (sr, sc, s) \<leftarrow> find_slot_in_root p (no_slot name) s;
        if sr < 0 then Some (FAT_ERR_IO, s)
        else if \<not> found_existing sc then Some (FAT_ERR_NOT_FOUND, s)
        else
          let cl = de_cluster (existing sc) in do {
            (r, s) \<leftarrow> (if de_attr (existing sc) AND ATTR_DIRECTORY \<noteq> 0 \<and> cl \<ge> 2 then do {
                        (r, s) \<leftarrow> read_cluster p cl s;
                        Some (if r \<noteq> 0 then FAT_ERR_IO
                              else if dir_not_empty (entries s) then FAT_ERR_NOT_EMPTY else FAT_OK, s)
                      }
                      else Some (FAT_OK, s));
            if r \<noteq> FAT_OK then Some (r, s)
            else do {
              (r, s) \<leftarrow> store_entry p (sc_cluster sc) (sc_offset sc) [0xE5] s;
              if r \<noteq> FAT_OK then Some (r, s)
              else do {
                (_, s) \<leftarrow> (if cl \<ge> 2 then fat_free_chain p cl s else Some (0, s));
                Some (FAT_OK, s)
              }
            }
          }
      })"

section \<open>Formatting\<close>

text \<open>The sizes \<open>fat32_mkfs\<close> computes from the number of sectors: the sectors of one table.\<close>

definition mkfs_fat_sz :: "u32 \<Rightarrow> u32" where
  "mkfs_fat_sz size_sectors =
     (let data_sectors = size_sectors - 32; clusters = data_sectors div 8;
          fat_sz = (clusters * 4 + 511) div 512;
          fat_sz = (if fat_sz < 1 then 1 else fat_sz);
          data_sectors = size_sectors - 32 - 2 * fat_sz; clusters = data_sectors div 8
      in (clusters * 4 + 511) div 512)"

definition bytes_of_string :: "cstring \<Rightarrow> u8 list" where
  "bytes_of_string str = map byte_of_char str"

definition mkfs_boot_sector :: "u32 \<Rightarrow> u32 \<Rightarrow> u8 list" where
  "mkfs_boot_sector part_lba size_sectors =
     fold (\<lambda>(off, bs). put_at off bs)
       [(0, [0xEB, 0x58, 0x90]), (3, bytes_of_string ''MSWIN4.1''), (11, bytes16 512), (13, [8]), (14, bytes16 32),
        (16, [2]), (17, bytes16 0), (19, bytes16 0), (21, [0xF8]), (22, bytes16 0), (24, bytes16 63),
        (26, bytes16 255), (28, bytes32 part_lba), (32, bytes32 size_sectors),
        (36, bytes32 (mkfs_fat_sz size_sectors)), (40, bytes16 0), (42, bytes16 0), (44, bytes32 2),
        (48, bytes16 1), (50, bytes16 6), (64, [0x80]), (66, [0x29]), (67, bytes32 0x12345678),
        (71, bytes_of_string ''MYKERNEL   ''), (82, bytes_of_string ''FAT32   ''), (510, [0x55, 0xAA])]
       (replicate SECTOR_SIZE 0)"

definition mkfs_info_sector :: "u8 list" where
  "mkfs_info_sector =
     fold (\<lambda>(off, bs). put_at off bs)
       [(0, [0x52, 0x52, 0x61, 0x41]), (484, [0x72, 0x72, 0x41, 0x61]), (488, [0xFF, 0xFF, 0xFF, 0xFF]),
        (492, [0x02]), (510, [0x55, 0xAA])]
       (replicate SECTOR_SIZE 0)"

text \<open>Storing the buffer in \<open>n\<close> consecutive sectors.\<close>

fun mkfs_fill :: "'d ports \<Rightarrow> nat \<Rightarrow> u32 \<Rightarrow> 'd fat32 \<Rightarrow> int \<times> 'd fat32" where
  "mkfs_fill p 0 lba s = (0, s)"
| "mkfs_fill p (Suc n) lba s =
     (let (r, s) = store_sector p lba s in if r \<noteq> 0 then (-1, s) else mkfs_fill p n (lba + 1) s)"

definition mkfs_fat_head :: "u8 list" where
  "mkfs_fat_head = [0xF8, 0xFF, 0xFF, 0x0F, 0xFF, 0xFF, 0xFF, 0x0F, 0xFF, 0xFF, 0xFF, 0x0F]"

definition mkfs_fat :: "'d ports \<Rightarrow> u32 \<Rightarrow> u32 \<Rightarrow> 'd fat32 \<Rightarrow> int \<times> 'd fat32" where
  "mkfs_fat p fat_lba fat_sz s =
     (let (r, s) = mkfs_fill p (unat fat_sz) fat_lba s in
      if r \<noteq> 0 then (-1, s)
      else
        let (r, s) = load_sector p fat_lba s in
        if r \<noteq> 0 then (-1, s)
        else store_sector p fat_lba (s\<lparr>sector_buf := put_at 0 mkfs_fat_head (sector_buf s)\<rparr>))"

definition fat32_mkfs :: "'d ports \<Rightarrow> u32 \<Rightarrow> u32 \<Rightarrow> 'd fat32 \<Rightarrow> fat_result \<times> 'd fat32" where
  "fat32_mkfs p part_lba size_arg s =
     (if \<not> ata_present (disk s) then (FAT_ERR_NO_DISK, s)
      else
        let size_sectors = (if size_arg < 2048 then 65536 else size_arg); fat_sz = mkfs_fat_sz size_sectors;
            (r, s) = store_sector p part_lba (s\<lparr>sector_buf := mkfs_boot_sector part_lba size_sectors\<rparr>) in
        if r \<noteq> 0 then (FAT_ERR_IO, s)
        else
          let (r, s) = store_sector p (part_lba + 1) (s\<lparr>sector_buf := mkfs_info_sector\<rparr>) in
          if r \<noteq> 0 then (FAT_ERR_IO, s)
          else
            let (r, s) = mkfs_fat p (part_lba + 32) fat_sz (s\<lparr>sector_buf := replicate SECTOR_SIZE 0\<rparr>) in
            if r \<noteq> 0 then (FAT_ERR_IO, s)
            else
              let (r, s) = mkfs_fat p (part_lba + 32 + fat_sz) fat_sz s in
              if r \<noteq> 0 then (FAT_ERR_IO, s)
              else
                let s = s\<lparr>cluster_buf := replicate (SECTOR_SIZE * 8) 0\<rparr>;
                    (r, a) = ata_write_sectors p (part_lba + 32 + 2 * fat_sz) 8 (cluster_buf s) (disk s);
                    s = s\<lparr>disk := a\<rparr> in
                if r \<noteq> 0 then (FAT_ERR_IO, s)
                else (FAT_OK, s\<lparr>partition_lba := part_lba, mounted := False\<rparr>))"

fun fat_strerror :: "fat_result \<Rightarrow> cstring" where
  "fat_strerror FAT_OK = ''OK''"
| "fat_strerror FAT_ERR_NO_DISK = ''no ATA disk''"
| "fat_strerror FAT_ERR_NOT_FAT32 = ''no FAT32 partition''"
| "fat_strerror FAT_ERR_IO = ''disk I/O error''"
| "fat_strerror FAT_ERR_NOT_FOUND = ''not found''"
| "fat_strerror FAT_ERR_IS_DIR = ''is a directory''"
| "fat_strerror FAT_ERR_NOT_DIR = ''not a directory''"
| "fat_strerror FAT_ERR_TOO_BIG = ''file too big (max 4K)''"
| "fat_strerror FAT_ERR_NOT_MOUNTED = ''not mounted (fatmount)''"
| "fat_strerror FAT_ERR_NO_SPACE = ''no space''"
| "fat_strerror FAT_ERR_EXISTS = ''already exists''"
| "fat_strerror FAT_ERR_NOT_EMPTY = ''directory not empty''"

end
