(* ===== verification/Ata_Drive.thy ===== *)
theory Ata_Drive
  imports Ata
begin

text \<open>
  A drive that follows the ATA protocol for 28-bit transfers, as the device behind the
  ports of \<open>src/src/ata.c\<close>: the task-file registers, the busy bit for an arbitrary number of
  polls after every command and sector, the data-request bit while words are due, and the
  error bit for a transfer beyond the last block. The driver on this drive provides the
  interface \<open>ata_disk\<close>.
\<close>

section \<open>The drive\<close>

datatype phase =
    Idle
  | Failed
  | Reading nat nat nat  \<comment> \<open>block, blocks left, next word\<close>
  | Writing nat nat "u8 list"  \<comment> \<open>block, blocks left, bytes of it received\<close>
  | Identifying nat  \<comment> \<open>words left\<close>

record drive =
  platter :: "nat \<Rightarrow> u8 list"
  blocks :: nat
  r_count :: u8
  r_lo :: u8
  r_mid :: u8
  r_hi :: u8
  r_drive :: u8
  phase :: phase
  busy :: nat
  delay :: nat

definition drive_status :: "drive \<Rightarrow> u8" where
  "drive_status d =
     (if 0 < busy d then 0x80
      else case phase d of Idle \<Rightarrow> 0x50 | Failed \<Rightarrow> 0x51 | _ \<Rightarrow> 0x58)"

definition drive_in8 :: "u16 \<Rightarrow> drive \<Rightarrow> u8 \<times> drive" where
  "drive_in8 port d =
     (if port = ATA_STATUS then (drive_status d, d\<lparr>busy := busy d - 1\<rparr>)
      else if port = 0x3F6 then (drive_status d, d)
      else if port = ATA_LBA_MID then (r_mid d, d)
      else if port = ATA_LBA_HI then (r_hi d, d)
      else (0, d))"

definition task_lba :: "drive \<Rightarrow> u32" where
  "task_lba d = push_bit 24 (ucast (r_drive d AND 0x0F)) OR push_bit 16 (ucast (r_hi d))
     OR push_bit 8 (ucast (r_mid d)) OR ucast (r_lo d)"

definition task_count :: "drive \<Rightarrow> nat" where
  "task_count d = (if r_count d = 0 then 256 else unat (r_count d))"

definition drive_start :: "u8 \<Rightarrow> drive \<Rightarrow> drive" where
  "drive_start command d =
     (let l = unat (task_lba d); n = task_count d; d = d\<lparr>busy := delay d\<rparr> in
      if command = ATA_CMD_IDENTIFY then d\<lparr>phase := Identifying 256\<rparr>
      else if command \<noteq> ATA_CMD_READ_PIO \<and> command \<noteq> ATA_CMD_WRITE_PIO \<or> blocks d < l + n
      then d\<lparr>phase := Failed\<rparr>
      else if command = ATA_CMD_READ_PIO then d\<lparr>phase := Reading l n 0\<rparr>
      else d\<lparr>phase := Writing l n []\<rparr>)"

definition drive_out8 :: "u16 \<Rightarrow> u8 \<Rightarrow> drive \<Rightarrow> drive" where
  "drive_out8 port v d =
     (if port = ATA_CMD then drive_start v d
      else if port = ATA_DRIVE then d\<lparr>r_drive := v\<rparr>
      else if port = ATA_SECCOUNT then d\<lparr>r_count := v\<rparr>
      else if port = ATA_LBA_LO then d\<lparr>r_lo := v\<rparr>
      else if port = ATA_LBA_MID then d\<lparr>r_mid := v\<rparr>
      else if port = ATA_LBA_HI then d\<lparr>r_hi := v\<rparr>
      else d)"

definition drive_in16 :: "u16 \<Rightarrow> drive \<Rightarrow> u16 \<times> drive" where
  "drive_in16 port d =
     (if port \<noteq> ATA_DATA then (0, d)
      else case phase d of
        Reading l n w \<Rightarrow>
          (word_of (platter d l ! (2 * w)) (platter d l ! (2 * w + 1)),
           if w < 255 then d\<lparr>phase := Reading l n (w + 1)\<rparr>
           else if n = 1 then d\<lparr>phase := Idle\<rparr>
           else d\<lparr>phase := Reading (l + 1) (n - 1) 0, busy := delay d\<rparr>)
      | Identifying n \<Rightarrow> (0, d\<lparr>phase := (if n = 1 then Idle else Identifying (n - 1))\<rparr>)
      | _ \<Rightarrow> (0, d))"

definition drive_out16 :: "u16 \<Rightarrow> u16 \<Rightarrow> drive \<Rightarrow> drive" where
  "drive_out16 port v d =
     (if port \<noteq> ATA_DATA then d
      else case phase d of
        Writing l n bs \<Rightarrow>
          (let bs = bs @ [ucast v, ucast (drop_bit 8 v)] in
           if length bs < 512 then d\<lparr>phase := Writing l n bs\<rparr>
           else d\<lparr>platter := (platter d)(l := bs), busy := delay d,
                  phase := (if n = 1 then Idle else Writing (l + 1) (n - 1) [])\<rparr>)
      | _ \<Rightarrow> d)"

definition pio :: "drive ports" where
  "pio = \<lparr>in8 = drive_in8, in16 = drive_in16, out8 = drive_out8, out16 = drive_out16\<rparr>"

lemma pio_simps [simp]:
  "in8 pio = drive_in8" "in16 pio = drive_in16" "out8 pio = drive_out8" "out16 pio = drive_out16"
  by (simp_all add: pio_def)

section \<open>Polling\<close>

abbreviation settled :: "drive \<Rightarrow> drive" where
  "settled d \<equiv> d\<lparr>busy := 0\<rparr>"

lemma poll_not_busy_settles: "busy d < n \<Longrightarrow> poll_not_busy pio n d = (0, settled d)"
proof (induction n arbitrary: d)
  case (Suc n)
  show ?case
  proof (cases "busy d = 0")
    case True
    then show ?thesis
      by (auto simp: drive_in8_def drive_status_def ata_bits split: phase.split)
  next
    case False
    with Suc.prems Suc.IH [of "d\<lparr>busy := busy d - 1\<rparr>"] show ?thesis
      by (simp add: drive_in8_def drive_status_def ata_bits)
  qed
qed simp

definition due :: "drive \<Rightarrow> bool" where
  "due d \<longleftrightarrow> phase d \<noteq> Idle \<and> phase d \<noteq> Failed"

lemma poll_drq_due: "busy d = 0 \<Longrightarrow> due d \<Longrightarrow> 0 < n \<Longrightarrow> poll_drq pio n d = (0, d)"
  by (cases n; cases "phase d")
     (simp_all add: due_def drive_in8_def drive_status_def ata_bits)

lemma wait_not_busy: "busy d < ATA_POLLS \<Longrightarrow> ata_wait_not_busy pio d = (0, settled d)"
  by (simp add: ata_wait_not_busy_def poll_not_busy_settles)

lemma wait_drq: "due d \<Longrightarrow> ata_wait_drq pio (settled d) = (0, settled d)"
  by (simp add: ata_wait_drq_def poll_drq_due due_def ATA_POLLS_def)

section \<open>Words\<close>

lemma word_of_bytes: "ucast (word_of lo hi) = lo" "ucast (drop_bit 8 (word_of lo hi)) = hi"
  by (rule bit_word_eqI; auto simp: word_of_def bit_simps dest: bit_imp_le_length)+

lemma drop_two: "Suc k < length xs \<Longrightarrow> drop k xs = xs ! k # xs ! Suc k # drop (Suc (Suc k)) xs"
  by (metis Cons_nth_drop_Suc Suc_lessD)

text \<open>Where the drive stands after the last word of a block.\<close>

definition after_block :: "nat \<Rightarrow> nat \<Rightarrow> drive \<Rightarrow> drive" where
  "after_block l n d =
     (if n = 1 then d\<lparr>phase := Idle\<rparr> else d\<lparr>phase := Reading (l + 1) (n - 1) 0, busy := delay d\<rparr>)"

lemma read_words_block:
  assumes "length (platter d l) = 512"
  shows "w < 256 \<Longrightarrow> w + k = 256 \<Longrightarrow> phase d' = Reading l n w \<Longrightarrow> d' = d\<lparr>phase := Reading l n w\<rparr> \<Longrightarrow>
    read_words pio k d' = (drop (2 * w) (platter d l), after_block l n d)"
proof (induction k arbitrary: w d')
  case (Suc k)
  let ?wd = "word_of (platter d l ! (2 * w)) (platter d l ! Suc (2 * w))"
  have bytes: "drop (2 * w) (platter d l) =
      platter d l ! (2 * w) # platter d l ! Suc (2 * w) # drop (Suc (Suc (2 * w))) (platter d l)"
    using Suc.prems(1) assms by (intro drop_two) simp
  show ?case
  proof (cases "w = 255")
    case True
    with Suc.prems have "k = 0" by simp
    with True Suc.prems bytes assms show ?thesis
      by (simp add: drive_in16_def word_of_bytes after_block_def)
  next
    case False
    with Suc.prems have "read_words pio k (d\<lparr>phase := Reading l n (Suc w)\<rparr>) =
        (drop (2 * Suc w) (platter d l), after_block l n d)"
      by (intro Suc.IH) auto
    with False Suc.prems bytes show ?thesis
      by (simp add: drive_in16_def word_of_bytes)
  qed
qed simp

lemma read_block:
  assumes "\<And>l. length (platter d l) = 512" "busy d < ATA_POLLS" "phase d = Reading l (Suc n) 0"
  shows "read_sectors_loop pio (Suc k) d =
    (let (r, rest, d') = read_sectors_loop pio k (after_block l (Suc n) (settled d)) in (r, platter d l @ rest, d'))"
proof -
  have due: "due d" using assms(3) by (simp add: due_def)
  have "read_words pio 256 (settled d) = (drop (2 * 0) (platter (settled d) l), after_block l (Suc n) (settled d))"
    by (rule read_words_block) (use assms in auto)
  with due assms(2) show ?thesis by (simp add: wait_not_busy wait_drq case_prod_beta)
qed

lemma read_sectors_loop_pio:
  assumes "\<And>l. length (platter d l) = 512" "delay d < ATA_POLLS"
  shows "phase d' = Reading l (Suc n) 0 \<Longrightarrow> busy d' < ATA_POLLS \<Longrightarrow> d' = d\<lparr>phase := phase d', busy := busy d'\<rparr> \<Longrightarrow>
    read_sectors_loop pio (Suc n) d' = (0, sectors_at (platter d) l (Suc n), d\<lparr>phase := Idle, busy := 0\<rparr>)"
proof (induction n arbitrary: l d')
  case 0
  from 0(3) have "platter d' = platter d" "settled d'\<lparr>phase := Idle\<rparr> = d\<lparr>phase := Idle, busy := 0\<rparr>"
    by (cases d; cases d'; simp)+
  with 0 assms(1) read_block [of d' l 0 0] show ?case
    by (simp add: after_block_def sectors_at_def del: read_sectors_loop.simps(2))
next
  case (Suc n)
  let ?d = "after_block l (Suc (Suc n)) (settled d')"
  from Suc.prems(3) have same: "platter d' = platter d" "delay d' = delay d" "?d = d\<lparr>phase := phase ?d, busy := busy ?d\<rparr>"
    by (cases d; cases d'; simp add: after_block_def)+
  have "read_sectors_loop pio (Suc n) ?d = (0, sectors_at (platter d) (Suc l) (Suc n), d\<lparr>phase := Idle, busy := 0\<rparr>)"
    using assms(2) same by (intro Suc.IH) (simp_all add: after_block_def)
  with read_block [of d' l "Suc n" "Suc n"] Suc.prems same assms(1) show ?case
    by (simp add: sectors_at_Suc [of _ _ "Suc n"] del: read_sectors_loop.simps(2))
qed

text \<open>The drive after the last word of a block it receives.\<close>

definition stored_block :: "nat \<Rightarrow> nat \<Rightarrow> u8 list \<Rightarrow> drive \<Rightarrow> drive" where
  "stored_block l n bs d = d\<lparr>platter := (platter d)(l := bs), busy := delay d,
     phase := (if n = 1 then Idle else Writing (l + 1) (n - 1) [])\<rparr>"

lemma write_words_block:
  "length acc + length bs = 512 \<Longrightarrow> even (length acc) \<Longrightarrow> bs \<noteq> [] \<Longrightarrow>
   write_words pio bs (d\<lparr>phase := Writing l n acc\<rparr>) = stored_block l n (acc @ bs) d"
proof (induction "pio" bs "d\<lparr>phase := Writing l n acc\<rparr>" arbitrary: acc d rule: write_words.induct)
  case (1 lo hi bs)
  show ?case
  proof (cases "bs = []")
    case True
    with 1(2) have "length (acc @ [lo, hi]) = 512" by simp
    then show ?thesis
      by (simp add: True drive_out16_def word_of_bytes stored_block_def Let_def)
  next
    case False
    with "1.prems"(1) have "length (acc @ [lo, hi]) < 512" by (cases bs) auto
    then have step: "drive_out16 ATA_DATA (word_of lo hi) (d\<lparr>phase := Writing l n acc\<rparr>) =
        d\<lparr>phase := Writing l n (acc @ [lo, hi])\<rparr>"
      by (simp add: drive_out16_def word_of_bytes Let_def)
    have "write_words pio bs (d\<lparr>phase := Writing l n (acc @ [lo, hi])\<rparr>) =
        stored_block l n ((acc @ [lo, hi]) @ bs) d"
      by (rule "1.hyps") (use False "1.prems" step in auto)
    with step show ?thesis by simp
  qed
next
  case "2_2"
  then have "length acc + 1 = 512" by simp
  moreover have "even (length acc)" by (fact "2_2")
  ultimately show ?case by presburger
qed simp

lemma write_block:
  assumes "busy d < ATA_POLLS" "delay d < ATA_POLLS" "phase d = Writing l (Suc n) []" "512 \<le> length buf"
  shows "write_sectors_loop pio (Suc k) buf d =
    write_sectors_loop pio k (drop 512 buf) (settled (stored_block l (Suc n) (take 512 buf) d))"
proof -
  have due: "due d" using assms(3) by (simp add: due_def)
  have "write_words pio (take 512 buf) ((settled d)\<lparr>phase := Writing l (Suc n) []\<rparr>) =
      stored_block l (Suc n) ([] @ take 512 buf) (settled d)"
    using assms(4) by (intro write_words_block) auto
  moreover have "(settled d)\<lparr>phase := Writing l (Suc n) []\<rparr> = settled d"
    using assms(3) by (cases d) simp
  ultimately have "write_words pio (take 512 buf) (settled d) = stored_block l (Suc n) (take 512 buf) (settled d)"
    by simp
  with due assms(1,2) show ?thesis
    by (simp add: wait_not_busy wait_drq stored_block_def)
qed

lemma write_sectors_loop_pio:
  assumes "delay d < ATA_POLLS"
  shows "phase d = Writing l (Suc n) [] \<Longrightarrow> busy d < ATA_POLLS \<Longrightarrow> 512 * Suc n \<le> length buf \<Longrightarrow>
    write_sectors_loop pio (Suc n) buf d =
      (0, d\<lparr>platter := put_sectors l (Suc n) buf (platter d), phase := Idle, busy := 0\<rparr>)"
  using assms
proof (induction n arbitrary: l buf d)
  case 0
  then show ?case
    by (simp add: write_block put_sectors_Suc put_sectors_0 stored_block_def fun_upd_def
        del: write_sectors_loop.simps(2))
next
  case (Suc n)
  let ?d = "settled (stored_block l (Suc (Suc n)) (take 512 buf) d)"
  have "write_sectors_loop pio (Suc (Suc n)) buf d = write_sectors_loop pio (Suc n) (drop 512 buf) ?d"
    using Suc.prems by (intro write_block) auto
  also have "\<dots> = (0, ?d\<lparr>platter := put_sectors (Suc l) (Suc n) (drop 512 buf) (platter ?d), phase := Idle, busy := 0\<rparr>)"
    using Suc.prems by (intro Suc.IH) (auto simp: stored_block_def ATA_POLLS_def)
  finally show ?case by (simp add: stored_block_def put_sectors_Suc [of l "Suc n"])
qed

section \<open>Commands\<close>

lemma unat_below:
  assumes "unat (lba :: u32) < 2 ^ 28" "bit lba n"
  shows "n < 28"
proof -
  have "take_bit 28 (unat lba) = unat lba" using assms(1) by (rule take_bit_nat_eq_self)
  moreover have "bit (unat lba) n" using assms(2) by (simp add: bit_unsigned_iff)
  ultimately show "n < 28" by (metis bit_take_bit_iff)
qed

lemma drive_nibble: "(0xE0 OR x :: u8) AND 0x0F = take_bit 4 x"
proof -
  have "(0x0F :: u8) = mask 4" by (simp add: mask_eq_exp_minus_1)
  moreover have "(0xE0 :: u8) AND mask 4 = 0" by (simp add: mask_eq_exp_minus_1)
  ultimately show ?thesis by (simp add: bit.conj_disj_distrib2 take_bit_eq_mask)
qed

lemma command_lba:
  assumes "unat lba < 2 ^ 28"
  shows "push_bit 24 (ucast ((0xE0 OR ucast (drop_bit 24 lba AND 0x0F) :: u8) AND 0x0F))
    OR push_bit 16 (ucast (ucast (drop_bit 16 lba AND 0xFF) :: u8))
    OR push_bit 8 (ucast (ucast (drop_bit 8 lba AND 0xFF) :: u8))
    OR ucast (ucast (lba AND 0xFF) :: u8) = (lba :: u32)" (is "?l = _")
proof (rule bit_word_eqI)
  fix n :: nat
  have m: "(0x0F :: u32) = mask 4" "(0xFF :: u32) = mask 8" by (simp_all add: mask_eq_exp_minus_1)
  consider "n < 8" | "8 \<le> n" "n < 16" | "16 \<le> n" "n < 24" | "24 \<le> n" "n < 28" | "28 \<le> n" by linarith
  then show "bit ?l n = bit lba n"
    unfolding drive_nibble m take_bit_eq_mask [symmetric]
    by cases (use unat_below [OF assms, of n] in \<open>auto simp: bit_simps\<close>)
qed

text \<open>The drive once a command is in its registers, before it starts.\<close>

definition tasked :: "u32 \<Rightarrow> u8 \<Rightarrow> drive \<Rightarrow> drive" where
  "tasked lba count d = d\<lparr>r_drive := 0xE0 OR ucast (drop_bit 24 lba AND 0x0F), r_count := count,
     r_lo := ucast (lba AND 0xFF), r_mid := ucast (drop_bit 8 lba AND 0xFF),
     r_hi := ucast (drop_bit 16 lba AND 0xFF)\<rparr>"

lemma command_starts: "ata_command pio lba count c d = drive_start c (tasked lba count d)"
  by (simp add: ata_command_def Let_def drive_out8_def ata_ports tasked_def)

lemma tasked_lba: "unat lba < 2 ^ 28 \<Longrightarrow> task_lba (tasked lba count d) = lba"
  unfolding task_lba_def tasked_def by (simp add: command_lba)

lemma tasked_count: "0 < count \<Longrightarrow> task_count (tasked lba count d) = unat count"
  by (auto simp: task_count_def tasked_def)

lemma tasked_same [simp]:
  "platter (tasked lba count d) = platter d" "blocks (tasked lba count d) = blocks d"
  "delay (tasked lba count d) = delay d" "busy (tasked lba count d) = busy d"
  by (simp_all add: tasked_def)

section \<open>The driver on this drive is a disk\<close>

definition drive_ready :: "nat \<Rightarrow> drive ata \<Rightarrow> bool" where
  "drive_ready cap a \<longleftrightarrow> g_ata_ok a \<and> phase (hw a) \<in> {Idle, Failed} \<and> busy (hw a) < ATA_POLLS
     \<and> delay (hw a) < ATA_POLLS \<and> blocks (hw a) = min cap (2 ^ 28)
     \<and> (\<forall>k. length (platter (hw a) k) = 512)"

abbreviation drive_sect :: "drive ata \<Rightarrow> nat \<Rightarrow> u8 list" where
  "drive_sect a \<equiv> platter (hw a)"

lemma command_ok:
  assumes "drive_ready cap a" "0 < count" "unat lba + unat count \<le> min cap (2 ^ 28)"
    "c = ATA_CMD_READ_PIO \<or> c = ATA_CMD_WRITE_PIO"
  shows "ata_command pio lba count c (settled (hw a)) =
    (tasked lba count (hw a))\<lparr>busy := delay (hw a),
       phase := (if c = ATA_CMD_READ_PIO then Reading (unat lba) (unat count) 0
                 else Writing (unat lba) (unat count) [])\<rparr>"
proof -
  have "unat lba < 2 ^ 28" using assms(2,3) by (simp add: word_less_nat_alt)
  then have lba: "task_lba (tasked lba count d) = lba" for d by (rule tasked_lba)
  have "\<not> blocks (hw a) < unat lba + unat count" using assms(1,3) by (auto simp: drive_ready_def min_def)
  with assms(2,4) show ?thesis
    unfolding command_starts drive_start_def lba tasked_count [OF assms(2)]
    by (auto simp: Let_def ata_cmds tasked_def)
qed

interpretation pio_disk: ata_disk pio "drive_ready cap" drive_sect "min cap (2 ^ 28)" for cap
proof
  fix a :: "drive ata" and count :: u8 and lba :: u32 and buf :: "u8 list"
  assume a: "drive_ready cap a"
  then show "g_ata_ok a" "length (drive_sect a k) = 512" for k by (simp_all add: drive_ready_def)
  assume count: "0 < count" and inside: "unat lba + unat count \<le> min cap (2 ^ 28)"
  from count obtain n where n: "unat count = Suc n" by (cases "unat count") (auto simp: word_less_nat_alt)
  have nz: "count \<noteq> 0" using count by simp
  have wait: "ata_wait_not_busy pio (hw a) = (0, settled (hw a))"
    using a by (intro wait_not_busy) (simp add: drive_ready_def)
  let ?d = "\<lambda>ph. (tasked lba count (hw a))\<lparr>busy := delay (hw a), phase := ph\<rparr>"
  have "read_sectors_loop pio (Suc n) (?d (Reading (unat lba) (Suc n) 0)) =
      (0, sectors_at (platter (?d Idle)) (unat lba) (Suc n), (?d Idle)\<lparr>phase := Idle, busy := 0\<rparr>)"
    using a by (intro read_sectors_loop_pio) (auto simp: drive_ready_def)
  with a nz wait command_ok [OF a count inside, of ATA_CMD_READ_PIO] n
  have "ata_read_sectors pio lba count a = (0, sectors_at (drive_sect a) (unat lba) (unat count),
      a\<lparr>hw := (tasked lba count (hw a))\<lparr>phase := Idle, busy := 0\<rparr>\<rparr>)"
    by (simp add: ata_read_sectors_def drive_ready_def del: read_sectors_loop.simps)
  then show "\<exists>a'. ata_read_sectors pio lba count a = (0, sectors_at (drive_sect a) (unat lba) (unat count), a')
      \<and> drive_ready cap a' \<and> drive_sect a' = drive_sect a"
    using a by (auto simp: drive_ready_def ATA_POLLS_def)
  assume buf: "512 * unat count \<le> length buf"
  have "write_sectors_loop pio (Suc n) buf (?d (Writing (unat lba) (Suc n) [])) =
      (0, (?d (Writing (unat lba) (Suc n) []))\<lparr>platter := put_sectors (unat lba) (Suc n) buf (platter (hw a)),
         phase := Idle, busy := 0\<rparr>)"
    using a buf n write_sectors_loop_pio [of "?d (Writing (unat lba) (Suc n) [])" "unat lba" n buf]
    by (simp add: drive_ready_def del: write_sectors_loop.simps)
  with a nz wait command_ok [OF a count inside, of ATA_CMD_WRITE_PIO] n
  have "ata_write_sectors pio lba count buf a = (0, a\<lparr>hw := (tasked lba count (hw a))
      \<lparr>platter := put_sectors (unat lba) (unat count) buf (drive_sect a), phase := Idle, busy := 0\<rparr>\<rparr>)"
    by (simp add: ata_write_sectors_def drive_ready_def ata_cmds del: write_sectors_loop.simps)
  moreover have "length (put_sectors (unat lba) (unat count) buf (drive_sect a) k) = 512" for k
    using a buf by (auto simp: put_sectors_def drive_ready_def)
  ultimately show "\<exists>a'. ata_write_sectors pio lba count buf a = (0, a') \<and> drive_ready cap a'
      \<and> drive_sect a' = put_sectors (unat lba) (unat count) buf (drive_sect a)"
    using a by (auto simp: drive_ready_def ATA_POLLS_def)
qed simp

section \<open>Properties\<close>

lemma command_refused:
  assumes "drive_ready cap a" "0 < count" "min cap (2 ^ 28) < unat lba + unat count" "unat lba < 2 ^ 28"
    "c = ATA_CMD_READ_PIO \<or> c = ATA_CMD_WRITE_PIO"
  shows "ata_command pio lba count c (settled (hw a)) =
    (tasked lba count (hw a))\<lparr>busy := delay (hw a), phase := Failed\<rparr>"
proof -
  have lba: "task_lba (tasked lba count d) = lba" for d using assms(4) by (rule tasked_lba)
  have "blocks (hw a) < unat lba + unat count" using assms(1,3) by (simp add: drive_ready_def)
  with assms(2,5) show ?thesis
    unfolding command_starts drive_start_def lba tasked_count [OF assms(2)]
    by (auto simp: Let_def ata_cmds tasked_def)
qed

lemma wait_drq_failed: "phase d = Failed \<Longrightarrow> ata_wait_drq pio (settled d) = (-1, settled d)"
proof -
  assume failed: "phase d = Failed"
  obtain n where n: "ATA_POLLS = Suc n" by (cases ATA_POLLS) (simp_all add: ATA_POLLS_def)
  show ?thesis
    unfolding ata_wait_drq_def n using failed by (simp add: drive_in8_def drive_status_def ata_bits)
qed

lemma transfer_refused:
  assumes "drive_ready cap a" "0 < count" "min cap (2 ^ 28) < unat lba + unat count" "unat lba < 2 ^ 28"
  shows "\<exists>a'. ata_read_sectors pio lba count a = (-1, [], a') \<and> drive_ready cap a' \<and> drive_sect a' = drive_sect a"
    "\<exists>a'. ata_write_sectors pio lba count buf a = (-1, a') \<and> drive_ready cap a' \<and> drive_sect a' = drive_sect a"
proof -
  from assms(2) obtain n where n: "unat count = Suc n" by (cases "unat count") (auto simp: word_less_nat_alt)
  have nz: "count \<noteq> 0" using assms(2) by simp
  have wait: "ata_wait_not_busy pio (hw a) = (0, settled (hw a))"
    using assms(1) by (intro wait_not_busy) (simp add: drive_ready_def)
  let ?d = "(tasked lba count (hw a))\<lparr>busy := delay (hw a), phase := Failed\<rparr>"
  have "ata_wait_not_busy pio ?d = (0, settled ?d)"
    using assms(1) by (intro wait_not_busy) (simp add: drive_ready_def)
  moreover have "ata_wait_drq pio (settled ?d) = (-1, settled ?d)" by (rule wait_drq_failed) simp
  ultimately have loops: "read_sectors_loop pio (unat count) ?d = (-1, [], settled ?d)"
    "write_sectors_loop pio (unat count) buf ?d = (-1, settled ?d)"
    by (simp_all add: n)
  from assms(1) have "drive_ready cap (a\<lparr>hw := settled ?d\<rparr>)"
    by (simp add: drive_ready_def ATA_POLLS_def)
  moreover have "g_ata_ok a" using assms(1) by (simp add: drive_ready_def)
  moreover note command_refused [OF assms, of ATA_CMD_READ_PIO] command_refused [OF assms, of ATA_CMD_WRITE_PIO]
  ultimately show "\<exists>a'. ata_read_sectors pio lba count a = (-1, [], a') \<and> drive_ready cap a' \<and> drive_sect a' = drive_sect a"
    "\<exists>a'. ata_write_sectors pio lba count buf a = (-1, a') \<and> drive_ready cap a' \<and> drive_sect a' = drive_sect a"
    using nz wait loops by (simp_all add: ata_read_sectors_def ata_write_sectors_def ata_cmds del: read_sectors_loop.simps write_sectors_loop.simps)
qed


text \<open>A drive of 4096 blocks that needs three polls after every command.\<close>

definition demo_drive :: "drive ata" where
  "demo_drive = \<lparr>g_ata_ok = True, hw = \<lparr>platter = (\<lambda>k. replicate 512 0), blocks = 4096, r_count = 0, r_lo = 0,
     r_mid = 0, r_hi = 0, r_drive = 0, phase = Idle, busy = 0, delay = 3\<rparr>\<rparr>"

lemma demo_drive_ready: "drive_ready 4096 demo_drive"
  by (simp add: drive_ready_def demo_drive_def ATA_POLLS_def)


end
