(* ===== verification/Fat32_Vol.thy ===== *)
theory Fat32_Vol
  imports Fat32 Ata_Drive
begin

text \<open>
  The FAT32 volume that the primitives of \<open>src/src/fat32.c\<close> implement: a table of 28-bit
  entries and an array of clusters. \<open>fatv\<close> and \<open>clus\<close> read them off the sectors of the
  disk; on a volume whose geometry fits the disk, \<open>fat_get\<close>, \<open>fat_set\<close>, \<open>read_cluster\<close> and
  \<open>write_cluster\<close> are lookup and update of the two. The lemmas are proved in the context of the
  disk interface \<open>ata_disk\<close>.
\<close>

section \<open>The volume on a disk\<close>

abbreviation spc :: "'d fat32 \<Rightarrow> nat" where "spc s \<equiv> unat (sectors_per_cluster s)"
abbreviation fat0 :: "'d fat32 \<Rightarrow> nat" where "fat0 s \<equiv> unat (partition_lba s) + unat (fat_start s)"
abbreviation data0 :: "'d fat32 \<Rightarrow> nat" where "data0 s \<equiv> unat (partition_lba s) + unat (data_start s)"
abbreviation ncl :: "'d fat32 \<Rightarrow> nat" where "ncl s \<equiv> unat (total_clusters s)"
abbreviation fsz :: "'d fat32 \<Rightarrow> nat" where "fsz s \<equiv> unat (fat_size_sectors s)"

text \<open>The tables lie between the boot sectors and the data, cover all clusters, and everything
  is on the disk; a cluster fits the buffer.\<close>

definition geometry_ok :: "nat \<Rightarrow> 'd fat32 \<Rightarrow> bool" where
  "geometry_ok cap s \<longleftrightarrow> 1 \<le> spc s \<and> spc s \<le> 8 \<and> 1 \<le> unat (num_fats s)
     \<and> unat (fat_start s) + unat (num_fats s) * fsz s = unat (data_start s)
     \<and> data0 s + ncl s * spc s \<le> cap \<and> 4 * (ncl s + 2) \<le> 512 * fsz s
     \<and> length (sector_buf s) = 512 \<and> length (cluster_buf s) = 4096"

definition same_geometry :: "'d fat32 \<Rightarrow> 'd fat32 \<Rightarrow> bool" where
  "same_geometry s s' \<longleftrightarrow> mounted s' = mounted s \<and> partition_lba s' = partition_lba s \<and> fat_start s' = fat_start s
     \<and> data_start s' = data_start s \<and> root_cluster s' = root_cluster s
     \<and> sectors_per_cluster s' = sectors_per_cluster s \<and> fat_size_sectors s' = fat_size_sectors s
     \<and> num_fats s' = num_fats s \<and> total_clusters s' = total_clusters s"

definition valid :: "'d fat32 \<Rightarrow> u32 \<Rightarrow> bool" where
  "valid s c \<longleftrightarrow> 2 \<le> unat c \<and> unat c < ncl s + 2"

definition clus_lba :: "'d fat32 \<Rightarrow> u32 \<Rightarrow> nat" where
  "clus_lba s c = data0 s + (unat c - 2) * spc s"

definition fat_entry :: "(nat \<Rightarrow> u8 list) \<Rightarrow> 'd fat32 \<Rightarrow> u32 \<Rightarrow> u32" where
  "fat_entry D s c =
     (if unat c < ncl s + 2
      then le32 (D (fat0 s + unat c div 128)) (4 * (unat c mod 128)) AND 0x0FFFFFFF else 0)"

definition cluster_data :: "(nat \<Rightarrow> u8 list) \<Rightarrow> 'd fat32 \<Rightarrow> u32 \<Rightarrow> u8 list" where
  "cluster_data D s c = (if valid s c then sectors_at D (clus_lba s c) (spc s) else [])"

lemma same_geometry_refl [simp]: "same_geometry s s"
  by (simp add: same_geometry_def)

lemma same_geometry_trans: "same_geometry s s' \<Longrightarrow> same_geometry s' s'' \<Longrightarrow> same_geometry s s''"
  by (simp add: same_geometry_def)

lemma same_geometry_valid: "same_geometry s s' \<Longrightarrow> valid s' = valid s"
  by (intro ext) (simp add: same_geometry_def valid_def)

lemma same_geometry_entry: "same_geometry s s' \<Longrightarrow> fat_entry D s' = fat_entry D s"
  by (intro ext) (simp add: same_geometry_def fat_entry_def)

lemma same_geometry_data: "same_geometry s s' \<Longrightarrow> cluster_data D s' = cluster_data D s"
  by (intro ext) (simp add: same_geometry_def cluster_data_def clus_lba_def valid_def)

lemma geometry_ok_same:
  "geometry_ok cap s \<Longrightarrow> same_geometry s s' \<Longrightarrow> length (sector_buf s') = 512 \<Longrightarrow>
   length (cluster_buf s') = 4096 \<Longrightarrow> geometry_ok cap s'"
  by (simp add: geometry_ok_def same_geometry_def)

lemma cluster_bytes_same: "same_geometry s s' \<Longrightarrow> cluster_bytes s' = cluster_bytes s"
  by (simp add: same_geometry_def cluster_bytes_def)

section \<open>Addresses\<close>

text \<open>Inside a volume that fits the disk no address computation wraps.\<close>

lemma unat_add_small: "unat (a :: u32) + unat b < 2 ^ 32 \<Longrightarrow> unat (a + b) = unat a + unat b"
  by (rule unat_add_lem [THEN iffD1]) simp

lemma unat_mult_small: "unat (a :: u32) * unat b < 2 ^ 32 \<Longrightarrow> unat (a * b) = unat a * unat b"
  by (rule unat_mult_lem [THEN iffD1]) simp

lemma unat_ucast_u8: "unat (ucast (b :: u8) :: u32) = unat b"
proof -
  have "unat b < 2 ^ 8" using unsigned_less [of b] by simp
  then have "unat b < 2 ^ 32" by simp
  then show ?thesis by (simp add: unsigned_ucast_eq take_bit_nat_eq_self)
qed

lemma geometry_bounds:
  assumes "geometry_ok cap s" "cap \<le> 2 ^ 28" "unat c < ncl s + 2"
  shows "unat c < 2 ^ 29" "fat0 s + unat c div 128 < data0 s" "unat c div 128 < fsz s" "data0 s \<le> cap"
proof -
  have n: "ncl s \<le> ncl s * spc s" using assms(1) by (simp add: geometry_ok_def)
  have fits: "data0 s + ncl s * spc s \<le> cap" using assms(1) by (simp add: geometry_ok_def)
  have "cap \<le> 268435456" using assms(2) by simp
  with n fits assms(3) have "unat c < 536870912" by linarith
  then show "unat c < 2 ^ 29" by simp
  from fits show "data0 s \<le> cap" by linarith
  have "4 * (ncl s + 2) \<le> 512 * fsz s" using assms(1) by (simp add: geometry_ok_def)
  with assms(3) have "unat c < fsz s * 128" by auto
  then show sz: "unat c div 128 < fsz s" by (rule less_mult_imp_div_less)
  have "fsz s \<le> unat (num_fats s) * fsz s" using assms(1) by (simp add: geometry_ok_def)
  moreover have "unat (fat_start s) + unat (num_fats s) * fsz s = unat (data_start s)"
    using assms(1) by (simp add: geometry_ok_def)
  ultimately show "fat0 s + unat c div 128 < data0 s" using sz by linarith
qed

lemma entry_position:
  assumes "unat (c :: u32) < 2 ^ 29"
  shows "ent_offset c = 4 * (unat c mod 128)" "unat (c * 4 div 512) = unat c div 128"
proof -
  have c4: "unat (c * 4) = unat c * 4"
    using assms by (subst unat_mult_small) auto
  have "unat c * 4 mod 512 = 4 * (unat c mod 128)"
    using mod_mult_mult1 [of 4 "unat c" 128] by (simp add: mult.commute)
  then show "ent_offset c = 4 * (unat c mod 128)"
    by (simp add: ent_offset_def unat_mod c4)
  have "unat c * 4 div 512 = unat c div 128"
    using div_mult_mult1 [of 4 "unat c" 128] by (simp add: mult.commute)
  then show "unat (c * 4 div 512) = unat c div 128"
    by (simp add: unat_div c4)
qed

lemma entry_lba:
  assumes "geometry_ok cap s" "cap \<le> 2 ^ 28" "unat c < ncl s + 2"
  shows "unat (partition_lba s + ent_sector s c) = fat0 s + unat c div 128"
proof -
  note b = geometry_bounds [OF assms]
  have cap: "cap < 4294967296" using assms(2) by simp
  have e: "unat (c * 4 div 512) = unat c div 128" using b(1) by (rule entry_position)
  have "unat (fat_start s + c * 4 div 512) = unat (fat_start s) + unat c div 128"
    using b(2,4) cap e by (subst unat_add_small) auto
  then show ?thesis
    unfolding ent_sector_def using b(2,4) cap by (subst unat_add_small) auto
qed

text \<open>The sector of copy \<open>f\<close> of the table.\<close>

lemma copy_lba:
  assumes "geometry_ok cap s" "cap \<le> 2 ^ 28" "unat c < ncl s + 2" "unat (f :: u8) < unat (num_fats s)"
  shows "unat (partition_lba s + (ent_sector s c + ucast f * fat_size_sectors s)) =
      fat0 s + unat c div 128 + unat f * fsz s"
    "fat0 s + unat c div 128 + unat f * fsz s < data0 s"
proof -
  note b = geometry_bounds [OF assms(1-3)]
  have cap: "cap < 4294967296" using assms(2) by simp
  have "Suc (unat f) * fsz s \<le> unat (num_fats s) * fsz s"
    using assms(4) by (intro mult_le_mono1) simp
  moreover have "unat (fat_start s) + unat (num_fats s) * fsz s = unat (data_start s)"
    using assms(1) by (simp add: geometry_ok_def)
  ultimately show below: "fat0 s + unat c div 128 + unat f * fsz s < data0 s" using b(3) by simp
  have f: "unat (ucast f :: u32) = unat f" by (rule unat_ucast_u8)
  have mult: "unat (ucast f * fat_size_sectors s) = unat f * fsz s"
    using below b(4) cap f by (subst unat_mult_small) auto
  have e: "unat (c * 4 div 512) = unat c div 128" using b(1) by (rule entry_position)
  have "unat (ent_sector s c) = unat (fat_start s) + unat c div 128"
    unfolding ent_sector_def using b(2,4) cap e by (subst unat_add_small) auto
  then have "unat (ent_sector s c + ucast f * fat_size_sectors s) = unat (fat_start s) + unat c div 128 + unat f * fsz s"
    using below b(4) cap mult by (subst unat_add_small) auto
  then show "unat (partition_lba s + (ent_sector s c + ucast f * fat_size_sectors s)) =
      fat0 s + unat c div 128 + unat f * fsz s"
    using below b(4) cap by (subst unat_add_small) auto
qed

lemma cluster_lba:
  assumes "geometry_ok cap s" "cap \<le> 2 ^ 28" "valid s c"
  shows "unat (partition_lba s + cluster_to_lba s c) = clus_lba s c" "clus_lba s c + spc s \<le> cap"
proof -
  have cap: "cap < 4294967296" using assms(2) by simp
  have c: "2 \<le> unat c" "unat c < ncl s + 2" using assms(3) by (auto simp: valid_def)
  have "Suc (unat c - 2) * spc s \<le> ncl s * spc s" using c by (intro mult_le_mono1) simp
  moreover have "data0 s + ncl s * spc s \<le> cap" using assms(1) by (simp add: geometry_ok_def)
  ultimately have end_: "data0 s + (unat c - 2) * spc s + spc s \<le> cap" by simp
  then show "clus_lba s c + spc s \<le> cap" by (simp add: clus_lba_def)
  have sub: "unat (c - 2) = unat c - 2" using c by (simp add: unat_sub word_le_nat_alt)
  have f: "unat (ucast (sectors_per_cluster s) :: u32) = spc s" by (rule unat_ucast_u8)
  have mult: "unat ((c - 2) * ucast (sectors_per_cluster s)) = (unat c - 2) * spc s"
    using end_ cap sub f by (subst unat_mult_small) auto
  have "unat (cluster_to_lba s c) = unat (data_start s) + (unat c - 2) * spc s"
    unfolding cluster_to_lba_def using end_ cap mult by (subst unat_add_small) auto
  then show "unat (partition_lba s + cluster_to_lba s c) = clus_lba s c"
    unfolding clus_lba_def using end_ cap by (subst unat_add_small) auto
qed

section \<open>Sectors and table entries\<close>

lemma entry_value: "((old AND 0xF0000000) OR (v AND 0x0FFFFFFF)) AND 0x0FFFFFFF = (v :: u32) AND 0x0FFFFFFF"
  by (simp add: bit.conj_disj_distrib2 and.assoc)

text \<open>Storing the entry of \<open>c\<close> in a sector of the first table changes exactly that entry.\<close>

lemma fat_entry_store:
  assumes "unat c < ncl s + 2" "length (D (fat0 s + unat c div 128)) = 512"
  shows "fat_entry (D(fat0 s + unat c div 128 :=
      put_at (4 * (unat c mod 128)) (bytes32 neu) (D (fat0 s + unat c div 128)))) s =
    (fat_entry D s)(c := neu AND 0x0FFFFFFF)"
proof
  fix c' :: u32
  let ?k = "fat0 s + unat c div 128" and ?o = "4 * (unat c mod 128)" and ?o' = "4 * (unat c' mod 128)"
  have "unat c mod 128 < 128" "unat c' mod 128 < 128" by simp_all
  then have off: "?o + 4 \<le> 512" "?o' + 4 \<le> 512" by simp_all
  show "fat_entry (D(?k := put_at ?o (bytes32 neu) (D ?k))) s c' = ((fat_entry D s)(c := neu AND 0x0FFFFFFF)) c'"
  proof (cases "c' = c")
    case True
    with assms off show ?thesis by (simp add: fat_entry_def le32_put)
  next
    case False
    then have "unat c' \<noteq> unat c" using unsigned_word_eqI [of c' c] by auto
    then have "unat c' mod 128 \<noteq> unat c mod 128" if "unat c' div 128 = unat c div 128"
      using that by (metis div_mult_mod_eq)
    then have "?o' + 4 \<le> ?o \<or> ?o + 4 \<le> ?o'" if "unat c' div 128 = unat c div 128"
      using that by linarith
    with False assms off show ?thesis by (auto simp: fat_entry_def le32_put_other)
  qed
qed

lemma fat_entry_other:
  "(\<And>c. unat c < ncl s + 2 \<Longrightarrow> k \<noteq> fat0 s + unat (c :: u32) div 128) \<Longrightarrow> fat_entry (D(k := bs)) s = fat_entry D s"
  by (rule ext) (auto simp: fat_entry_def)

lemma sectors_at_cong: "(\<And>k. l \<le> k \<Longrightarrow> k < l + n \<Longrightarrow> D k = D' k) \<Longrightarrow> sectors_at D l n = sectors_at D' l n"
  by (auto simp: sectors_at_def intro!: arg_cong [where f = concat])

lemma cluster_data_other:
  assumes "\<And>k. data0 s \<le> k \<Longrightarrow> D' k = D k"
  shows "cluster_data D' s = cluster_data D s"
  using assms by (intro ext) (auto simp: cluster_data_def clus_lba_def intro!: sectors_at_cong)

definition vol_ok :: "('d ata \<Rightarrow> bool) \<Rightarrow> nat \<Rightarrow> 'd fat32 \<Rightarrow> bool" where
  "vol_ok ready cap s \<longleftrightarrow> geometry_ok cap s \<and> ready (disk s)"

context ata_disk
begin

abbreviation vok :: "'d fat32 \<Rightarrow> bool" where "vok s \<equiv> vol_ok ready cap s"
abbreviation fatv :: "'d fat32 \<Rightarrow> u32 \<Rightarrow> u32" where "fatv s \<equiv> fat_entry (sect (disk s)) s"
abbreviation clus :: "'d fat32 \<Rightarrow> u32 \<Rightarrow> u8 list" where "clus s \<equiv> cluster_data (sect (disk s)) s"

text \<open>A step that leaves the volume \<open>s'\<close> with the table \<open>F\<close> and the clusters \<open>C\<close>.\<close>

definition vstep :: "'d fat32 \<Rightarrow> 'd fat32 \<Rightarrow> (u32 \<Rightarrow> u32) \<Rightarrow> (u32 \<Rightarrow> u8 list) \<Rightarrow> bool" where
  "vstep s s' F C \<longleftrightarrow> same_geometry s s' \<and> vok s' \<and> fatv s' = F \<and> clus s' = C"

lemma vstepD:
  assumes "vstep s s' F C"
  shows "same_geometry s s'" "vok s'" "fatv s' = F" "clus s' = C"
  using assms by (simp_all add: vstep_def)

lemma vstep_trans: "vstep s s' F' C' \<Longrightarrow> vstep s' s'' F C \<Longrightarrow> vstep s s'' F C"
  using same_geometry_trans by (auto simp: vstep_def)

lemma vstep_refl: "vok s \<Longrightarrow> vstep s s (fatv s) (clus s)"
  by (simp add: vstep_def)

lemma vok_same:
  "vok s \<Longrightarrow> same_geometry s s' \<Longrightarrow> length (sector_buf s') = 512 \<Longrightarrow> length (cluster_buf s') = 4096 \<Longrightarrow>
   ready (disk s') \<Longrightarrow> vok s'"
  by (auto simp: vol_ok_def intro: geometry_ok_same)

lemma vokD: "vok s \<Longrightarrow> geometry_ok cap s" "vok s \<Longrightarrow> ready (disk s)"
  "vok s \<Longrightarrow> length (sector_buf s) = 512" "vok s \<Longrightarrow> length (cluster_buf s) = 4096"
  by (simp_all add: vol_ok_def geometry_ok_def)

text \<open>The sector operations only need a ready disk and a sector buffer of 512 bytes.\<close>

definition buf_ok :: "'d fat32 \<Rightarrow> bool" where
  "buf_ok s \<longleftrightarrow> ready (disk s) \<and> length (sector_buf s) = 512"

lemma store_ok:
  assumes "buf_ok s" "unat lba < cap"
  obtains a where "store_sector p lba s = (0, s\<lparr>disk := a\<rparr>)" "ready a" "sect a = (sect (disk s))(unat lba := sector_buf s)"
proof -
  obtain a where a: "ata_write_sectors p lba 1 (sector_buf s) (disk s) = (0, a)" "ready a"
    "sect a = put_sectors (unat lba) 1 (sector_buf s) (sect (disk s))"
    using write_ok [of "disk s" 1 lba "sector_buf s"] assms by (auto simp: buf_ok_def)
  have "put_sectors (unat lba) 1 (sector_buf s) (sect (disk s)) = (sect (disk s))(unat lba := sector_buf s)"
    using assms(1) by (intro ext) (auto simp: put_sectors_def buf_ok_def)
  with a show thesis by (intro that [of a]) (simp_all add: store_sector_def)
qed

lemma load_ok:
  assumes "buf_ok s" "unat lba < cap"
  obtains a where "load_sector p lba s = (0, s\<lparr>sector_buf := sect (disk s) (unat lba), disk := a\<rparr>)"
    "ready a" "sect a = sect (disk s)"
proof -
  obtain a where a: "ata_read_sectors p lba 1 (disk s) = (0, sectors_at (sect (disk s)) (unat lba) 1, a)"
    "ready a" "sect a = sect (disk s)"
    using read_ok [of "disk s" 1 lba] assms by (auto simp: buf_ok_def)
  have "put_at 0 (sect (disk s) (unat lba)) (sector_buf s) = sect (disk s) (unat lba)"
    using assms(1) by (simp add: put_at_def sect_length buf_ok_def)
  with a show thesis by (intro that [of a]) (simp_all add: load_sector_def sectors_at_def)
qed

lemma vok_buf: "vok s \<Longrightarrow> buf_ok s"
  by (simp add: vol_ok_def geometry_ok_def buf_ok_def)

lemmas load_sector_ok = load_ok [OF vok_buf]
lemmas store_sector_ok = store_ok [OF vok_buf]

lemma fat_get_ok:
  assumes "vok s" "unat c < ncl s + 2"
  obtains s' where "fat_get p c s = (fatv s c, s')" "vstep s s' (fatv s) (clus s)" "cluster_buf s' = cluster_buf s"
proof -
  note g = vokD(1) [OF assms(1)]
  note b = geometry_bounds [OF g cap_28 assms(2)] and lba = entry_lba [OF g cap_28 assms(2)]
  obtain a where a: "load_sector p (partition_lba s + ent_sector s c) s =
      (0, s\<lparr>sector_buf := sect (disk s) (fat0 s + unat c div 128), disk := a\<rparr>)"
    "ready a" "sect a = sect (disk s)"
    using load_sector_ok [OF assms(1), of "partition_lba s + ent_sector s c"] b lba by auto
  let ?s = "s\<lparr>sector_buf := sect (disk s) (fat0 s + unat c div 128), disk := a\<rparr>"
  have same: "same_geometry s ?s" by (simp add: same_geometry_def)
  have "vok ?s" using vokD [OF assms(1)] a by (intro vok_same [OF assms(1) same]) (simp_all add: sect_length)
  with same a(3) have "vstep s ?s (fatv s) (clus s)"
    by (simp add: vstep_def same_geometry_entry [OF same] same_geometry_data [OF same])
  with a b assms(2) show thesis
    by (intro that [of ?s]) (simp_all add: fat_get_def fat_entry_def entry_position)
qed

text \<open>One copy of the table: the first one is the table itself, the others are not read.\<close>

lemma fat_set_copy:
  assumes "vok s" "unat c < ncl s + 2" "unat f < unat (num_fats s)"
  obtains s' where "fat_set_loop p c v (Suc n) f s = fat_set_loop p c v n (f + 1) s'"
    "vstep s s' (if f = 0 then (fatv s)(c := v AND 0x0FFFFFFF) else fatv s) (clus s)" "cluster_buf s' = cluster_buf s"
proof -
  note g = vokD(1) [OF assms(1)]
  let ?lba = "partition_lba s + (ent_sector s c + ucast f * fat_size_sectors s)"
  let ?k = "fat0 s + unat c div 128 + unat f * fsz s" and ?o = "4 * (unat c mod 128)"
  note b = geometry_bounds [OF g cap_28 assms(2)] and lba = copy_lba [OF g cap_28 assms(2,3)]
  have k: "?k < data0 s" "unat ?lba < cap" using lba b by auto
  have off: "ent_offset c = ?o" "?o + 4 \<le> 512" using b(1) by (simp_all add: entry_position)
  define D where "D = sect (disk s)"
  have len: "length (D k) = 512" for k using vokD(2) [OF assms(1)] by (simp add: D_def sect_length)
  define neu where "neu = (le32 (D ?k) ?o AND 0xF0000000) OR (v AND 0x0FFFFFFF)"
  define bs where "bs = put_at ?o (bytes32 neu) (D ?k)"
  obtain a where a: "load_sector p ?lba s = (0, s\<lparr>sector_buf := D ?k, disk := a\<rparr>)" "ready a" "sect a = D"
    using load_sector_ok [OF assms(1) k(2)] lba by (auto simp: D_def)
  let ?s1 = "s\<lparr>disk := a, sector_buf := bs\<rparr>"
  have same1: "same_geometry s ?s1" by (simp add: same_geometry_def)
  have ok1: "vok ?s1"
    using vokD [OF assms(1)] a off len by (intro vok_same [OF assms(1) same1]) (simp_all add: bs_def)
  have lba1: "partition_lba ?s1 + (ent_sector s c + ucast f * fat_size_sectors s) = ?lba" by simp
  obtain a' where a': "store_sector p ?lba ?s1 = (0, ?s1\<lparr>disk := a'\<rparr>)" "ready a'" "sect a' = D(?k := bs)"
    using store_sector_ok [OF ok1 k(2)] lba a by auto
  let ?s' = "s\<lparr>sector_buf := bs, disk := a'\<rparr>"
  have same: "same_geometry s ?s'" by (simp add: same_geometry_def)
  have ok: "vok ?s'"
    using vokD [OF assms(1)] a' off len by (intro vok_same [OF assms(1) same]) (simp_all add: bs_def)
  have step: "fat_set_loop p c v (Suc n) f s = fat_set_loop p c v n (f + 1) ?s'"
    using a(1) a'(1) by (simp add: Let_def off neu_def bs_def)
  have "cluster_data (D(?k := bs)) s = cluster_data D s"
    by (rule cluster_data_other) (use k(1) in auto)
  then have clus: "clus ?s' = clus s" by (simp add: same_geometry_data [OF same] a'(3) D_def)
  have table: "fatv ?s' = fat_entry (D(?k := bs)) s" by (simp add: same_geometry_entry [OF same] a'(3))
  have fat: "fatv ?s' = (if f = 0 then (fatv s)(c := v AND 0x0FFFFFFF) else fatv s)"
  proof (cases "f = 0")
    case True
    have "neu AND 0x0FFFFFFF = v AND 0x0FFFFFFF" unfolding neu_def by (rule entry_value)
    with True fat_entry_store [where D = D, OF assms(2) len, of neu] show ?thesis
      unfolding table by (simp add: bs_def D_def)
  next
    case False
    then have "fsz s \<le> unat f * fsz s" by (cases "unat f") (auto simp: unat_eq_zero)
    then have "?k \<noteq> fat0 s + unat c' div 128" if "unat c' < ncl s + 2" for c' :: u32
      using geometry_bounds(3) [OF g cap_28 that] by linarith
    with False show ?thesis unfolding table by (simp add: fat_entry_other D_def)
  qed
  show thesis
    by (rule that [OF step]) (use same ok fat clus in \<open>simp_all only: vstep_def\<close>, simp_all)
qed

lemma fat_set_rest:
  "vok s \<Longrightarrow> unat c < ncl s + 2 \<Longrightarrow> 0 < unat f \<Longrightarrow> unat f + n = unat (num_fats s) \<Longrightarrow>
   \<exists>s'. fat_set_loop p c v n f s = (0, s') \<and> vstep s s' (fatv s) (clus s) \<and> cluster_buf s' = cluster_buf s"
proof (induction n arbitrary: f s)
  case 0
  then show ?case by (auto intro: vstep_refl)
next
  case (Suc n)
  have f: "f \<noteq> 0" "unat f < unat (num_fats s)" using Suc.prems(3,4) by auto
  obtain s1 where s1: "fat_set_loop p c v (Suc n) f s = fat_set_loop p c v n (f + 1) s1"
    "vstep s s1 (fatv s) (clus s)" "cluster_buf s1 = cluster_buf s"
    by (rule fat_set_copy [OF Suc.prems(1,2) f(2), of v n]) (use f(1) in simp)
  have "unat (num_fats s) < 256" by (rule order_less_le_trans [OF unsigned_less]) simp
  then have "unat f + 1 < 2 ^ LENGTH(8)" using Suc.prems(4) by simp
  then have f1: "unat (f + 1) = unat f + 1" by (simp add: unat_add_lem [THEN iffD1])
  have geo: "ncl s1 = ncl s" "num_fats s1 = num_fats s"
    using vstepD(1) [OF s1(2)] by (simp_all add: same_geometry_def)
  obtain s' where "fat_set_loop p c v n (f + 1) s1 = (0, s')" "vstep s1 s' (fatv s1) (clus s1)" "cluster_buf s' = cluster_buf s1"
    using Suc.IH [of s1 "f + 1"] Suc.prems vstepD [OF s1(2)] f1 geo by auto
  with s1 vstepD [OF s1(2)] show ?case by (auto intro: vstep_trans)
qed

lemma fat_set_ok:
  assumes "vok s" "unat c < ncl s + 2"
  obtains s' where "fat_set p c v s = (0, s')" "vstep s s' ((fatv s)(c := v AND 0x0FFFFFFF)) (clus s)"
    "cluster_buf s' = cluster_buf s"
proof -
  obtain n where n: "unat (num_fats s) = Suc n"
    using vokD(1) [OF assms(1)] by (cases "unat (num_fats s)") (auto simp: geometry_ok_def)
  obtain s1 where s1: "fat_set_loop p c v (Suc n) 0 s = fat_set_loop p c v n (0 + 1) s1"
    "vstep s s1 ((fatv s)(c := v AND 0x0FFFFFFF)) (clus s)" "cluster_buf s1 = cluster_buf s"
    by (rule fat_set_copy [OF assms, of 0 v n]) (use n in simp_all)
  have geo: "ncl s1 = ncl s" "num_fats s1 = num_fats s"
    using vstepD(1) [OF s1(2)] by (simp_all add: same_geometry_def)
  obtain s' where "fat_set_loop p c v n (0 + 1) s1 = (0, s')" "vstep s1 s' (fatv s1) (clus s1)" "cluster_buf s' = cluster_buf s1"
    using fat_set_rest [of s1 c "0 + 1" n v] vstepD [OF s1(2)] assms(2) n geo by auto
  with s1 vstepD [OF s1(2)] n show thesis
    by (intro that [of s']) (auto simp: fat_set_def intro: vstep_trans simp del: fat_set_loop.simps)
qed

section \<open>Clusters\<close>

lemma length_clus: "vok s \<Longrightarrow> valid s c \<Longrightarrow> length (clus s c) = cluster_bytes s"
proof -
  assume "vok s" "valid s c"
  moreover have "length (sectors_at (sect (disk s)) l n) = n * 512" for l n
    using vokD(2) [OF \<open>vok s\<close>] by (simp add: sectors_at_def length_concat comp_def sect_length sum_list_triv)
  ultimately show ?thesis by (simp add: cluster_data_def cluster_bytes_def SECTOR_SIZE_def)
qed

lemma cluster_bytes_fit: "vok s \<Longrightarrow> 512 \<le> cluster_bytes s \<and> cluster_bytes s \<le> 4096"
  by (simp add: vol_ok_def geometry_ok_def cluster_bytes_def SECTOR_SIZE_def)

lemma spc_pos: "vok s \<Longrightarrow> 0 < sectors_per_cluster s"
  by (simp add: vol_ok_def geometry_ok_def word_less_nat_alt)

lemma read_cluster_ok:
  assumes "vok s" "valid s c"
  obtains s' where "read_cluster p c s = Some (0, s')" "vstep s s' (fatv s) (clus s)"
    "cluster_buf s' = put_at 0 (clus s c) (cluster_buf s)"
proof -
  note lba = cluster_lba [OF vokD(1) [OF assms(1)] cap_28 assms(2)]
  obtain a where a: "ata_read_sectors p (partition_lba s + cluster_to_lba s c) (sectors_per_cluster s) (disk s) =
      (0, clus s c, a)" "ready a" "sect a = sect (disk s)"
    using read_ok [OF vokD(2) [OF assms(1)] spc_pos [OF assms(1)], of "partition_lba s + cluster_to_lba s c"] lba assms(2)
    by (auto simp: cluster_data_def)
  let ?s = "s\<lparr>cluster_buf := put_at 0 (clus s c) (cluster_buf s), disk := a\<rparr>"
  have fits: "length (clus s c) \<le> 4096" using length_clus [OF assms] cluster_bytes_fit [OF assms(1)] by simp
  have same: "same_geometry s ?s" by (simp add: same_geometry_def)
  have "vok ?s" using vokD [OF assms(1)] a fits by (intro vok_same [OF assms(1) same]) simp_all
  with same a(3) have "vstep s ?s (fatv s) (clus s)"
    by (simp add: vstep_def same_geometry_entry [OF same] same_geometry_data [OF same])
  with a fits vokD(4) [OF assms(1)] show thesis by (intro that [of ?s]) (simp_all add: read_cluster_def)
qed

lemma clus_lba_apart:
  assumes "valid s c" "valid s c'" "c' \<noteq> c"
  shows "clus_lba s c' + spc s \<le> clus_lba s c \<or> clus_lba s c + spc s \<le> clus_lba s c'"
proof -
  have order: "clus_lba s a + spc s \<le> clus_lba s b" if "valid s a" "valid s b" "unat a < unat b" for a b
  proof -
    have "Suc (unat a - 2) * spc s \<le> (unat b - 2) * spc s"
      using that by (intro mult_le_mono1) (auto simp: valid_def)
    then show ?thesis by (simp add: clus_lba_def)
  qed
  from assms(3) have "unat c' \<noteq> unat c" using unsigned_word_eqI [of c' c] by auto
  with order assms show ?thesis by (meson linorder_neqE_nat)
qed

lemma put_sectors_take: "put_sectors l n (take (512 * n) bs) D = put_sectors l n bs D"
proof
  fix k
  show "put_sectors l n (take (512 * n) bs) D k = put_sectors l n bs D k"
  proof (cases "l \<le> k \<and> k < l + n")
    case True
    then have "512 * Suc (k - l) \<le> 512 * n" by (intro mult_le_mono2) auto
    then have "512 \<le> 512 * n - 512 * (k - l)" by simp
    with True show ?thesis by (simp add: put_sectors_def drop_take min_def)
  qed (auto simp: put_sectors_def)
qed

lemma cluster_data_store:
  assumes "valid s c" "length bs = 512 * spc s"
  shows "cluster_data (put_sectors (clus_lba s c) (spc s) bs D) s = (cluster_data D s)(c := bs)"
proof
  fix c'
  show "cluster_data (put_sectors (clus_lba s c) (spc s) bs D) s c' = ((cluster_data D s)(c := bs)) c'"
  proof (cases "c' = c \<or> \<not> valid s c'")
    case True
    with assms show ?thesis by (auto simp: cluster_data_def sectors_at_put)
  next
    case False
    then have "sectors_at (put_sectors (clus_lba s c) (spc s) bs D) (clus_lba s c') (spc s) = sectors_at D (clus_lba s c') (spc s)"
      using clus_lba_apart [OF assms(1), of c'] by (intro sectors_at_cong) (auto simp: put_sectors_def)
    with False show ?thesis by (simp add: cluster_data_def)
  qed
qed

lemma write_cluster_ok:
  assumes "vok s" "valid s c"
  obtains s' where "write_cluster p c s = Some (0, s')"
    "vstep s s' (fatv s) ((clus s)(c := take (cluster_bytes s) (cluster_buf s)))" "cluster_buf s' = cluster_buf s"
proof -
  note g = vokD(1) [OF assms(1)] and lba = cluster_lba [OF vokD(1) [OF assms(1)] cap_28 assms(2)]
  let ?bs = "take (cluster_bytes s) (cluster_buf s)"
  have fits: "512 * spc s \<le> length (cluster_buf s)" "cluster_bytes s = 512 * spc s" "length ?bs = 512 * spc s"
    using cluster_bytes_fit [OF assms(1)] vokD(4) [OF assms(1)] by (simp_all add: cluster_bytes_def SECTOR_SIZE_def)
  obtain a where a: "ata_write_sectors p (partition_lba s + cluster_to_lba s c) (sectors_per_cluster s) (cluster_buf s) (disk s) =
      (0, a)" "ready a" "sect a = put_sectors (clus_lba s c) (spc s) (cluster_buf s) (sect (disk s))"
    using write_ok [OF vokD(2) [OF assms(1)] spc_pos [OF assms(1)], of "partition_lba s + cluster_to_lba s c" "cluster_buf s"]
      lba fits(1) by auto
  let ?s = "s\<lparr>disk := a\<rparr>"
  have same: "same_geometry s ?s" by (simp add: same_geometry_def)
  have ok: "vok ?s" using vokD [OF assms(1)] a by (intro vok_same [OF assms(1) same]) simp_all
  have sect: "sect a = put_sectors (clus_lba s c) (spc s) ?bs (sect (disk s))"
    unfolding a(3) fits(2) by (simp only: put_sectors_take)
  have "clus ?s = (clus s)(c := ?bs)"
    using cluster_data_store [OF assms(2) fits(3)] by (simp add: same_geometry_data [OF same] sect)
  moreover have "fatv ?s = fatv s"
  proof -
    have "put_sectors (clus_lba s c) (spc s) (cluster_buf s) D (fat0 s + unat c' div 128) = D (fat0 s + unat c' div 128)"
      if "unat c' < ncl s + 2" for c' :: u32 and D
      using geometry_bounds(2) [OF g cap_28 that] by (simp add: put_sectors_def clus_lba_def)
    then show ?thesis unfolding same_geometry_entry [OF same] by (intro ext) (simp add: a(3) fat_entry_def)
  qed
  ultimately have "vstep s ?s (fatv s) ((clus s)(c := ?bs))" using same ok by (simp add: vstep_def)
  with a fits show thesis by (intro that [of ?s]) (simp_all add: write_cluster_def)
qed

end

end
