(* ===== verification/Fat32_Chains.thy ===== *)
theory Fat32_Chains
  imports Fat32_Vol
begin

text \<open>
  Cluster chains of a FAT32 volume: allocation and release of clusters, reading the data of
  a chain and writing a text into a fresh one. The lemmas describe each loop of
  \<open>src/src/fat32.c\<close> by its effect on the table and the clusters; that every loop ends on a
  well-formed chain is part of them.
\<close>

section \<open>Chains\<close>

text \<open>The clusters from \<open>c\<close> on, up to an end mark.\<close>

fun chain :: "(u32 \<Rightarrow> u32) \<Rightarrow> (u32 \<Rightarrow> bool) \<Rightarrow> u32 \<Rightarrow> u32 list \<Rightarrow> bool" where
  "chain F V c [] \<longleftrightarrow> 0x0FFFFFF8 \<le> c"
| "chain F V c (x # xs) \<longleftrightarrow> c = x \<and> V x \<and> chain F V (F x) xs"

abbreviation EOC :: u32 where "EOC \<equiv> 0x0FFFFFFF"

lemma fat_chain_cong: "(\<And>x. x \<in> set xs \<Longrightarrow> F x = F' x) \<Longrightarrow> chain F V c xs = chain F' V c xs"
  by (induction xs arbitrary: c) auto

lemma chain_entry: "chain F V c xs \<Longrightarrow> \<not> V 0 \<Longrightarrow> x \<in> set xs \<Longrightarrow> F x \<noteq> 0"
proof (induction xs arbitrary: c)
  case (Cons y ys)
  then have "chain F V (F y) ys" by simp
  then have "F y \<noteq> 0" using Cons.prems(2) by (cases ys) auto
  with Cons show ?case by auto
qed simp

lemma chain_valid: "chain F V c xs \<Longrightarrow> x \<in> set xs \<Longrightarrow> V x"
  by (induction xs arbitrary: c) auto

lemma valid_nonzero [simp]: "\<not> valid s 0"
  by (simp add: valid_def)

lemma take_chunk:
  assumes "length bs = n"
  shows "take (min r m) (bs @ rest) =
    take (min (min n r) m) bs @ take (min (r - min (min n r) m) (m - min (min n r) m)) rest"
  using assms by (auto simp: min_def)

definition free_set :: "(nat \<Rightarrow> u8 list) \<Rightarrow> 'd fat32 \<Rightarrow> u32 set" where
  "free_set D s = {c. valid s c \<and> fat_entry D s c = 0}"

lemma volume_size:
  assumes "(n :: nat) \<le> m" "f \<le> d" "4 * (n + 2) \<le> 512 * f" "d + m \<le> cap" "cap \<le> 268435456"
  shows "n < 268435440"
proof -
  have "n + 2 \<le> 128 * f" using assms(3) by auto
  moreover have "f + n \<le> 268435456" using assms by linarith
  ultimately show ?thesis by linarith
qed

context ata_disk
begin

lemma valid_in_chain: "vok s \<Longrightarrow> valid s c \<Longrightarrow> in_chain c"
proof -
  assume ok: "vok s" and c: "valid s c"
  note g = vokD(1) [OF ok]
  have "fsz s \<le> unat (num_fats s) * fsz s" "unat (fat_start s) + unat (num_fats s) * fsz s = unat (data_start s)"
    using g by (simp_all add: geometry_ok_def)
  then have "fsz s \<le> data0 s" by linarith
  moreover have "4 * (ncl s + 2) \<le> 512 * fsz s" "data0 s + ncl s * spc s \<le> cap" "ncl s \<le> ncl s * spc s"
    using g by (simp_all add: geometry_ok_def)
  moreover have "cap \<le> 268435456" using cap_28 by simp
  ultimately have "ncl s < 268435440" by (metis volume_size)
  then have "unat c < 268435448" using c by (simp add: valid_def)
  then show ?thesis using c by (simp add: in_chain_def valid_def word_le_nat_alt word_less_nat_alt)
qed

lemma valid_masked: "vok s \<Longrightarrow> valid s c \<Longrightarrow> c AND 0x0FFFFFFF = c"
proof -
  assume "vok s" "valid s c"
  then have "unat c < 2 ^ 28" using valid_in_chain [of s c] by (simp add: in_chain_def word_less_nat_alt)
  then have "take_bit 28 c = c" by (simp add: unsigned_take_bit_eq take_bit_nat_eq_self word_unat_eq_iff)
  moreover have "(0x0FFFFFFF :: u32) = mask 28" by (simp add: mask_eq_exp_minus_1)
  ultimately show ?thesis by (simp add: take_bit_eq_mask)
qed

lemma not_in_chain: "0x0FFFFFF8 \<le> c \<Longrightarrow> \<not> in_chain c"
  by (auto simp: in_chain_def not_less)

lemma vstep_valid: "vstep s s' F C \<Longrightarrow> valid s' = valid s"
  using vstepD(1) same_geometry_valid by blast

lemma vstep_bytes: "vstep s s' F C \<Longrightarrow> cluster_bytes s' = cluster_bytes s"
  using vstepD(1) cluster_bytes_same by blast

lemma vstep_ncl: "vstep s s' F C \<Longrightarrow> ncl s' = ncl s"
  using vstepD(1) by (auto simp: same_geometry_def)

lemma validD: "valid s c \<Longrightarrow> unat c < ncl s + 2"
  by (simp add: valid_def)

section \<open>Allocation and release\<close>

lemma alloc_loop_ok:
  "vok s \<Longrightarrow> 2 \<le> unat c \<Longrightarrow> unat c + n = ncl s + 2 \<Longrightarrow>
   \<exists>c' s'. alloc_loop p n c s = (c', s') \<and> cluster_buf s' = cluster_buf s \<and>
     (c' = 0 \<and> vstep s s' (fatv s) (clus s) \<and> (\<forall>x. valid s x \<longrightarrow> unat c \<le> unat x \<longrightarrow> fatv s x \<noteq> 0)
      \<or> valid s c' \<and> fatv s c' = 0 \<and> vstep s s' ((fatv s)(c' := EOC)) (clus s))"
proof (induction n arbitrary: c s)
  case 0
  then show ?case by (auto simp: valid_def intro: vstep_refl)
next
  case (Suc n)
  have c: "unat c < ncl s + 2" "valid s c" using Suc.prems by (simp_all add: valid_def)
  obtain s1 where s1: "fat_get p c s = (fatv s c, s1)" "vstep s s1 (fatv s) (clus s)" "cluster_buf s1 = cluster_buf s"
    using Suc.prems(1) c(1) by (rule fat_get_ok)
  note same = vstepD [OF s1(2)] vstep_valid [OF s1(2)] vstep_ncl [OF s1(2)]
  show ?case
  proof (cases "fatv s c = 0")
    case True
    have "unat c < ncl s1 + 2" using c(1) same by simp
    with same(2) obtain s2 where s2: "fat_set p c EOC s1 = (0, s2)"
      "vstep s1 s2 ((fatv s1)(c := EOC AND 0x0FFFFFFF)) (clus s1)" "cluster_buf s2 = cluster_buf s1"
      by (rule fat_set_ok)
    have "vstep s s2 ((fatv s)(c := EOC)) (clus s)" using vstep_trans [OF s1(2) s2(2)] same by simp
    moreover have "alloc_loop p (Suc n) c s = (c, s2)" "cluster_buf s2 = cluster_buf s"
      using True s1 s2 by simp_all
    ultimately show ?thesis using True c(2) by blast
  next
    case False
    have "unat c + 1 < 2 ^ 32" using geometry_bounds(1) [OF vokD(1) [OF Suc.prems(1)] cap_28 c(1)] by simp
    then have c1: "unat (c + 1) = unat c + 1" by (subst unat_add_small) simp_all
    have nx: "2 \<le> unat (c + 1)" "unat (c + 1) + n = ncl s1 + 2" using Suc.prems c1 same by simp_all
    obtain c' s' where IH: "alloc_loop p n (c + 1) s1 = (c', s')" "cluster_buf s' = cluster_buf s1"
      "c' = 0 \<and> vstep s1 s' (fatv s1) (clus s1) \<and> (\<forall>x. valid s1 x \<longrightarrow> unat (c + 1) \<le> unat x \<longrightarrow> fatv s1 x \<noteq> 0)
      \<or> valid s1 c' \<and> fatv s1 c' = 0 \<and> vstep s1 s' ((fatv s1)(c' := EOC)) (clus s1)"
      using Suc.IH [OF same(2) nx] by blast
    have next_free: "fatv s x \<noteq> 0" if "\<forall>x. valid s x \<longrightarrow> unat c + 1 \<le> unat x \<longrightarrow> fatv s x \<noteq> 0" "valid s x" "unat c \<le> unat x" for x
      using that False by (cases "unat x = unat c") (auto dest: unsigned_word_eqI)
    have "alloc_loop p (Suc n) c s = (c', s')" using False s1(1) IH(1) by simp
    moreover from IH(3) have "c' = 0 \<and> vstep s s' (fatv s) (clus s) \<and> (\<forall>x. valid s x \<longrightarrow> unat c \<le> unat x \<longrightarrow> fatv s x \<noteq> 0)
      \<or> valid s c' \<and> fatv s c' = 0 \<and> vstep s s' ((fatv s)(c' := EOC)) (clus s)"
      unfolding same c1 using next_free vstep_trans [OF s1(2)] by blast
    moreover have "cluster_buf s' = cluster_buf s" using IH(2) s1(3) by simp
    ultimately show ?thesis by blast
  qed
qed

lemma fat_alloc_ok:
  assumes "vok s"
  obtains (none) s' where "fat_alloc_cluster p s = (0, s')" "vstep s s' (fatv s) (clus s)" "\<forall>x. valid s x \<longrightarrow> fatv s x \<noteq> 0"
    "cluster_buf s' = cluster_buf s"
  | (one) c s' where "fat_alloc_cluster p s = (c, s')" "valid s c" "fatv s c = 0" "vstep s s' ((fatv s)(c := EOC)) (clus s)"
    "cluster_buf s' = cluster_buf s"
proof -
  have "ncl s \<le> ncl s * spc s" "data0 s + ncl s * spc s \<le> cap" "cap \<le> 268435456"
    using vokD(1) [OF assms] cap_28 by (simp_all add: geometry_ok_def)
  then have "ncl s + 2 < 4294967296" by linarith
  then have "unat (total_clusters s + 2) = ncl s + 2" by (subst unat_add_small) simp_all
  then show thesis
    using alloc_loop_ok [OF assms, of 2 "ncl s"] none one
    unfolding fat_alloc_cluster_def by (auto simp: valid_def)
qed

lemma fat_free_chain_ok:
  "vok s \<Longrightarrow> chain (fatv s) (valid s) c cs \<Longrightarrow> distinct cs \<Longrightarrow>
   \<exists>s'. fat_free_chain p c s = Some (0, s') \<and> cluster_buf s' = cluster_buf s
     \<and> vstep s s' (\<lambda>x. if x \<in> set cs then 0 else fatv s x) (clus s)"
proof (induction cs arbitrary: c s)
  case Nil
  then show ?case by (subst fat_free_chain.simps) (simp add: not_in_chain vstep_refl)
next
  case (Cons x xs)
  then have c: "c = x" "valid s x" "chain (fatv s) (valid s) (fatv s x) xs" by auto
  obtain s1 where s1: "fat_get p x s = (fatv s x, s1)" "vstep s s1 (fatv s) (clus s)" "cluster_buf s1 = cluster_buf s"
    using Cons.prems(1) validD [OF c(2)] by (rule fat_get_ok)
  note same1 = vstepD [OF s1(2)] vstep_valid [OF s1(2)]
  have "unat x < ncl s1 + 2" using c(2) vstep_ncl [OF s1(2)] by (simp add: valid_def)
  with same1(2) obtain s2 where s2: "fat_set p x 0 s1 = (0, s2)"
    "vstep s1 s2 ((fatv s1)(x := 0 AND 0x0FFFFFFF)) (clus s1)" "cluster_buf s2 = cluster_buf s1"
    by (rule fat_set_ok)
  have st2: "vstep s s2 ((fatv s)(x := 0)) (clus s)" using vstep_trans [OF s1(2) s2(2)] same1 by simp
  note same2 = vstepD [OF st2] vstep_valid [OF st2]
  have "chain (fatv s2) (valid s2) (fatv s x) xs"
    using c(3) Cons.prems(3) same2 by (subst fat_chain_cong [where F' = "fatv s"]) auto
  then obtain s' where s': "fat_free_chain p (fatv s x) s2 = Some (0, s')" "cluster_buf s' = cluster_buf s2"
    "vstep s2 s' (\<lambda>y. if y \<in> set xs then 0 else fatv s2 y) (clus s2)"
    using Cons.IH [OF same2(2)] Cons.prems(3) by auto
  have "(\<lambda>y. if y \<in> set xs then 0 else fatv s2 y) = (\<lambda>y. if y \<in> set (x # xs) then 0 else fatv s y)"
    by (auto simp: same2)
  with vstep_trans [OF st2 s'(3)] same2 have "vstep s s' (\<lambda>y. if y \<in> set (x # xs) then 0 else fatv s y) (clus s)"
    by simp
  moreover have "fat_free_chain p c s = Some (0, s')"
    using c s1 s2 s' valid_in_chain [OF Cons.prems(1) c(2)] by (subst fat_free_chain.simps) simp
  ultimately show ?case using s1 s2 s' by auto
qed

section \<open>Reading a chain\<close>

abbreviation chain_bytes :: "'d fat32 \<Rightarrow> u32 list \<Rightarrow> u8 list" where
  "chain_bytes s cs \<equiv> concat (map (clus s) cs)"

text \<open>A cluster in the buffer after \<open>read_cluster\<close>.\<close>

lemma take_cluster_buf:
  "vok s \<Longrightarrow> valid s c \<Longrightarrow> n \<le> cluster_bytes s \<Longrightarrow> take n (put_at 0 (clus s c) buf) = take n (clus s c)"
  by (simp add: put_at_def length_clus)

lemma read_chain_ok:
  "vok s \<Longrightarrow> chain (fatv s) (valid s) c cs \<Longrightarrow>
   \<exists>s'. read_chain p c remaining room acc s = Some (FAT_OK, acc @ take (min remaining room) (chain_bytes s cs), s')
     \<and> vstep s s' (fatv s) (clus s)"
proof (induction cs arbitrary: c s remaining room acc)
  case Nil
  then show ?case by (subst read_chain.simps) (auto simp: not_in_chain intro: vstep_refl)
next
  case (Cons x xs)
  then have c: "c = x" "valid s x" "chain (fatv s) (valid s) (fatv s x) xs" by auto
  show ?case
  proof (cases "remaining > 0 \<and> room > 0")
    case True
    obtain s1 where s1: "read_cluster p x s = Some (0, s1)" "vstep s s1 (fatv s) (clus s)"
      "cluster_buf s1 = put_at 0 (clus s x) (cluster_buf s)"
      using Cons.prems(1) c(2) by (rule read_cluster_ok)
    note same1 = vstepD [OF s1(2)] vstep_valid [OF s1(2)] vstep_bytes [OF s1(2)]
    have "unat x < ncl s1 + 2" using c(2) vstep_ncl [OF s1(2)] by (simp add: valid_def)
    with same1(2) obtain s2 where s2: "fat_get p x s1 = (fatv s1 x, s2)" "vstep s1 s2 (fatv s1) (clus s1)"
      by (rule fat_get_ok)
    have st2: "vstep s s2 (fatv s) (clus s)" using vstep_trans [OF s1(2) s2(2)] same1 by simp
    note same2 = vstepD [OF st2] vstep_valid [OF st2]
    let ?chunk = "min (min (cluster_bytes s) remaining) room"
    have data: "take ?chunk (cluster_buf s1) = take ?chunk (clus s x)"
      unfolding s1(3) using Cons.prems(1) c(2) by (rule take_cluster_buf) simp
    obtain s' where s': "read_chain p (fatv s x) (remaining - ?chunk) (room - ?chunk) (acc @ take ?chunk (clus s x)) s2 =
        Some (FAT_OK, (acc @ take ?chunk (clus s x)) @ take (min (remaining - ?chunk) (room - ?chunk)) (chain_bytes s2 xs), s')"
      "vstep s2 s' (fatv s2) (clus s2)"
      using Cons.IH [OF same2(2)] c(3) same2 by metis
    have "read_chain p c remaining room acc s =
        read_chain p (fatv s x) (remaining - ?chunk) (room - ?chunk) (acc @ take ?chunk (clus s x)) s2"
      using True c valid_in_chain [OF Cons.prems(1) c(2)] s1(1) s2(1) data same1
      by (subst read_chain.simps) (simp add: Let_def)
    with s' same2 take_chunk [OF length_clus [OF Cons.prems(1) c(2)], of remaining room "chain_bytes s xs"]
      vstep_trans [OF st2 s'(2)] show ?thesis by auto
  next
    case False
    with Cons.prems(1) show ?thesis
      by (subst read_chain.simps) (auto intro: vstep_refl)
  qed
qed

section \<open>Writing a text\<close>

lemma fill_cluster_ok:
  assumes "vok s" "length bs \<le> cluster_bytes s"
  obtains s' where "fill_cluster bs s = Some s'" "vstep s s' (fatv s) (clus s)"
    "take (cluster_bytes s) (cluster_buf s') = bs @ replicate (cluster_bytes s - length bs) 0"
proof -
  let ?s = "s\<lparr>cluster_buf := put_at 0 bs (put_at 0 (replicate (cluster_bytes s) 0) (cluster_buf s))\<rparr>"
  have fit: "cluster_bytes s \<le> 4096" "length (cluster_buf s) = 4096"
    using cluster_bytes_fit [OF assms(1)] vokD(4) [OF assms(1)] by auto
  have same: "same_geometry s ?s" by (simp add: same_geometry_def)
  have "vok ?s" using vokD [OF assms(1)] assms(2) fit by (intro vok_same [OF assms(1) same]) simp_all
  with same have "vstep s ?s (fatv s) (clus s)"
    by (simp add: vstep_def same_geometry_entry [OF same] same_geometry_data [OF same])
  moreover have "take (cluster_bytes s) (cluster_buf ?s) = bs @ replicate (cluster_bytes s - length bs) 0"
    using assms(2) by (simp add: put_at_def)
  ultimately show thesis using fit by (intro that [of ?s]) (simp_all add: fill_cluster_def)
qed

text \<open>
  What a completed text leaves: a chain of fresh clusters \<open>cs\<close>, linked behind \<open>prev\<close> when there
  is one, that holds the text; nothing else changes.
\<close>

definition text_stored ::
  "'d fat32 \<Rightarrow> u8 list \<Rightarrow> u32 \<Rightarrow> u32 list \<Rightarrow> 'd fat32 \<Rightarrow> bool" where
  "text_stored s txt prev cs s' \<longleftrightarrow>
     same_geometry s s' \<and> vok s' \<and> distinct cs \<and> (\<forall>c \<in> set cs. valid s c \<and> fatv s c = 0)
     \<and> (txt \<noteq> [] \<longrightarrow> cs \<noteq> [])
     \<and> chain (fatv s') (valid s) (if prev \<noteq> 0 then fatv s' prev else if cs = [] then EOC else hd cs) cs
     \<and> (\<forall>x. x \<notin> set cs \<longrightarrow> x \<noteq> prev \<longrightarrow> fatv s' x = fatv s x)
     \<and> (\<forall>x. x \<notin> set cs \<longrightarrow> clus s' x = clus s x)
     \<and> take (length txt) (chain_bytes s' cs) = txt"

abbreviation free_clusters :: "'d fat32 \<Rightarrow> u32 set" where
  "free_clusters s \<equiv> free_set (sect (disk s)) s"

lemma text_stored_Nil:
  assumes "vok s" "prev \<noteq> 0 \<longrightarrow> fatv s prev = EOC"
  shows "text_stored s [] prev [] s"
  using assms by (auto simp: text_stored_def)

text \<open>One cluster is allocated, linked behind \<open>prev\<close> and filled.\<close>

lemma write_chunk:
  assumes "vok s" "prev \<noteq> 0 \<longrightarrow> valid s prev" "valid s c" "fatv s c = 0" "c \<noteq> prev"
    and "vstep s s1 ((fatv s)(c := EOC)) (clus s)"
  obtains s2 s3 s4 where "(if prev \<noteq> 0 then fat_set p prev c s1 else (0, s1)) = (0, s2)"
    "fill_cluster (take (cluster_bytes s2) txt) s2 = Some s3" "write_cluster p c s3 = Some (0, s4)"
    "vstep s s4 (if prev \<noteq> 0 then (fatv s)(c := EOC, prev := c) else (fatv s)(c := EOC))
      ((clus s)(c := take (cluster_bytes s) txt @ replicate (cluster_bytes s - length txt) 0))"
proof -
  note same1 = vstepD [OF assms(6)] vstep_valid [OF assms(6)] vstep_bytes [OF assms(6)] vstep_ncl [OF assms(6)]
  let ?F = "if prev \<noteq> 0 then (fatv s)(c := EOC, prev := c) else (fatv s)(c := EOC)"
  obtain s2 where s2: "(if prev \<noteq> 0 then fat_set p prev c s1 else (0, s1)) = (0, s2)" "vstep s1 s2 ?F (clus s)"
  proof (cases "prev = 0")
    case True
    with that [of s1] vstep_refl [OF same1(2)] same1 show ?thesis by simp
  next
    case False
    then have "unat prev < ncl s1 + 2" using assms(2) same1 by (simp add: valid_def)
    with same1(2) obtain s2 where "fat_set p prev c s1 = (0, s2)"
      "vstep s1 s2 ((fatv s1)(prev := c AND 0x0FFFFFFF)) (clus s1)" by (rule fat_set_ok)
    with that [of s2] False same1 valid_masked [OF assms(1,3)] show ?thesis by simp
  qed
  have st2: "vstep s s2 ?F (clus s)" using vstep_trans [OF assms(6) s2(2)] .
  note same2 = vstepD [OF st2] vstep_valid [OF st2] vstep_bytes [OF st2]
  have "length (take (cluster_bytes s2) txt) \<le> cluster_bytes s2" by simp
  with same2(2) obtain s3 where s3: "fill_cluster (take (cluster_bytes s2) txt) s2 = Some s3" "vstep s2 s3 (fatv s2) (clus s2)"
    "take (cluster_bytes s2) (cluster_buf s3) = take (cluster_bytes s2) txt @ replicate (cluster_bytes s2 - length (take (cluster_bytes s2) txt)) 0"
    by (rule fill_cluster_ok)
  have st3: "vstep s s3 ?F (clus s)" using vstep_trans [OF st2 s3(2)] same2 by simp
  note same3 = vstepD [OF st3] vstep_valid [OF st3] vstep_bytes [OF st3]
  have "valid s3 c" using assms(3) same3 by simp
  with same3(2) obtain s4 where s4: "write_cluster p c s3 = Some (0, s4)"
    "vstep s3 s4 (fatv s3) ((clus s3)(c := take (cluster_bytes s3) (cluster_buf s3)))" by (rule write_cluster_ok)
  have "take (cluster_bytes s3) (cluster_buf s3) = take (cluster_bytes s) txt @ replicate (cluster_bytes s - length txt) 0"
    using s3(3) same2(6) same3(6) by (simp add: min_def)
  with vstep_trans [OF st3 s4(2)] same3
  have "vstep s s4 ?F ((clus s)(c := take (cluster_bytes s) txt @ replicate (cluster_bytes s - length txt) 0))"
    by (simp only:)
  with s2(1) s3(1) s4(1) show thesis by (rule that)
qed

lemma text_stored_Cons:
  assumes "vok s" "valid s c" "fatv s c = 0" "prev \<noteq> 0 \<longrightarrow> valid s prev \<and> fatv s prev = EOC" "txt \<noteq> []"
    and step: "vstep s s4 (if prev \<noteq> 0 then (fatv s)(c := EOC, prev := c) else (fatv s)(c := EOC))
      ((clus s)(c := take (cluster_bytes s) txt @ replicate (cluster_bytes s - length txt) 0))"
    and rest: "text_stored s4 (drop (cluster_bytes s) txt) c cs s'"
  shows "text_stored s txt prev (c # cs) s'"
proof -
  note same = vstepD [OF step] vstep_valid [OF step]
  have c: "c \<noteq> 0" "c \<noteq> prev" using assms(2,3,4) by auto
  have R: "same_geometry s4 s'" "vok s'" "distinct cs" "\<forall>x \<in> set cs. valid s4 x \<and> fatv s4 x = 0"
    "chain (fatv s') (valid s4) (fatv s' c) cs" "\<forall>x. x \<notin> set cs \<longrightarrow> x \<noteq> c \<longrightarrow> fatv s' x = fatv s4 x"
    "\<forall>x. x \<notin> set cs \<longrightarrow> clus s' x = clus s4 x" "take (length txt - cluster_bytes s) (chain_bytes s' cs) = drop (cluster_bytes s) txt"
    using rest c(1) by (simp_all add: text_stored_def)
  have Fc: "fatv s4 c \<noteq> 0" "prev \<noteq> 0 \<longrightarrow> fatv s4 prev = c" using c same(3) by auto
  have new: "c \<notin> set cs" "prev \<noteq> 0 \<longrightarrow> prev \<notin> set cs" using R(4) Fc c by auto
  have "valid s x \<and> fatv s x = 0" if "x \<in> set cs" for x
  proof -
    have "fatv s4 x = 0" "valid s x" using R(4) that same(5) by auto
    moreover have "x \<noteq> c" "prev \<noteq> 0 \<longrightarrow> x \<noteq> prev" using new that by auto
    ultimately show ?thesis using same(3) by (auto split: if_splits)
  qed
  moreover have "chain (fatv s') (valid s) (if prev \<noteq> 0 then fatv s' prev else c) (c # cs)"
    using R(5,6) Fc(2) new c same(5) assms(2) by auto
  moreover have "fatv s' x = fatv s x" if "x \<notin> set (c # cs)" "x \<noteq> prev" for x
    using R(6) that same(3) by auto
  moreover have "clus s' x = clus s x" if "x \<notin> set (c # cs)" for x
    using R(7) that same(4) by auto
  moreover have "take (length txt) (chain_bytes s' (c # cs)) = txt"
  proof -
    have "clus s' c = take (cluster_bytes s) txt @ replicate (cluster_bytes s - length txt) 0"
      using R(7) new same(4) by simp
    with R(8) show ?thesis by (cases "length txt \<le> cluster_bytes s") simp_all
  qed
  moreover have "same_geometry s s'" using same(1) R(1) by (rule same_geometry_trans)
  ultimately show ?thesis using R new assms(2,3) by (auto simp: text_stored_def)
qed

lemma write_chunks_ok:
  "vok s \<Longrightarrow> prev \<noteq> 0 \<longrightarrow> valid s prev \<and> fatv s prev = EOC \<and> first \<noteq> 0 \<Longrightarrow>
   \<exists>r f pv s'. write_chunks p txt first prev s = Some (r, f, pv, s') \<and>
     (r = FAT_ERR_NO_SPACE \<and> same_geometry s s' \<and> vok s' \<and> card (free_clusters s) * cluster_bytes s < length txt
      \<or> r = FAT_OK \<and> (\<exists>cs. text_stored s txt prev cs s' \<and> f = (if first = 0 \<and> cs \<noteq> [] then hd cs else first)
           \<and> pv = last (prev # cs)))"
proof (induction "length txt" arbitrary: "txt" first prev s rule: less_induct)
  case less
  show ?case
  proof (cases "txt = []")
    case True
    with less.prems text_stored_Nil [of s prev] show ?thesis
      by (subst write_chunks.simps) force
  next
    case False
    from less.prems(1) show ?thesis
    proof (cases rule: fat_alloc_ok)
      case (none s1)
      then have "free_clusters s = {}" by (auto simp: free_set_def)
      with none False vstepD [OF none(2)] show ?thesis by (subst write_chunks.simps) simp
    next
      case (one c s1)
      have c: "c \<noteq> 0" "c \<noteq> prev" using one(2,3) less.prems(2) by auto
      have "prev \<noteq> 0 \<longrightarrow> valid s prev" using less.prems(2) by blast
      from write_chunk [OF less.prems(1) this one(2,3) c(2) one(4), of "txt"]
      obtain s2 s3 s4 where st: "(if prev \<noteq> 0 then fat_set p prev c s1 else (0, s1)) = (0, s2)"
        "fill_cluster (take (cluster_bytes s2) txt) s2 = Some s3" "write_cluster p c s3 = Some (0, s4)"
        "vstep s s4 (if prev \<noteq> 0 then (fatv s)(c := EOC, prev := c) else (fatv s)(c := EOC))
          ((clus s)(c := take (cluster_bytes s) txt @ replicate (cluster_bytes s - length txt) 0))" by blast
      note same = vstepD [OF st(4)] vstep_valid [OF st(4)] vstep_bytes [OF st(4)]
      let ?first = "if first = 0 then c else first"
      have "length (drop (cluster_bytes s) txt) < length txt"
        using False cluster_bytes_fit [OF less.prems(1)] by simp
      moreover have "c \<noteq> 0 \<longrightarrow> valid s4 c \<and> fatv s4 c = EOC \<and> ?first \<noteq> 0"
        using c one(2) same(3,5) by auto
      ultimately obtain r f pv s' where IH: "write_chunks p (drop (cluster_bytes s) txt) ?first c s4 = Some (r, f, pv, s')"
        "r = FAT_ERR_NO_SPACE \<and> same_geometry s4 s' \<and> vok s'
            \<and> card (free_clusters s4) * cluster_bytes s4 < length (drop (cluster_bytes s) txt)
          \<or> r = FAT_OK \<and> (\<exists>cs. text_stored s4 (drop (cluster_bytes s) txt) c cs s'
               \<and> f = (if ?first = 0 \<and> cs \<noteq> [] then hd cs else ?first) \<and> pv = last (c # cs))"
        using less.hyps [of "drop (cluster_bytes s) txt" s4 c ?first] same(2) by blast
      have "write_chunks p txt first prev s = Some (r, f, pv, s')"
        using False one(1) c st(1-3) IH(1) same(6)
        by (subst write_chunks.simps) (simp add: Let_def)
      moreover have "text_stored s txt prev (c # cs) s'" if "text_stored s4 (drop (cluster_bytes s) txt) c cs s'" for cs
        using less.prems one(2,3) False st(4) that by (intro text_stored_Cons) auto
      moreover have "same_geometry s s'" if "same_geometry s4 s'" using same(1) that by (rule same_geometry_trans)
      moreover have "card (free_clusters s) * cluster_bytes s < length txt"
        if "card (free_clusters s4) * cluster_bytes s4 < length (drop (cluster_bytes s) txt)"
      proof -
        have "free_clusters s4 = free_clusters s - {c}"
          using same(3,5) one(2,3) c less.prems(2) by (auto simp: free_set_def split: if_splits)
        moreover have "c \<in> free_clusters s" using one(2,3) by (simp add: free_set_def)
        ultimately have "card (free_clusters s) = Suc (card (free_clusters s4))"
          by (metis card.remove finite_code)
        with that same(6) show ?thesis by simp
      qed
      ultimately show ?thesis using IH(2) c(1) by (force split: if_splits)
    qed
  qed
qed

end

end
