(* ===== verification/Fat32_Dir.thy ===== *)
theory Fat32_Dir
  imports Fat32_Chains
begin

text \<open>
  The root directory of a FAT32 volume as one list of 32-byte entries with their places: the
  iteration of \<open>iterate_dir\<close> and the search of \<open>find_slot_in_root\<close> over the clusters of the
  directory are searches in that list, and a full directory is extended by a zeroed cluster.
\<close>

section \<open>Entries and their places\<close>

definition located :: "(u32 \<Rightarrow> u8 list) \<Rightarrow> u32 list \<Rightarrow> (u32 \<times> nat \<times> u8 list) list" where
  "located C rs =
     concat (map (\<lambda>x. map (\<lambda>i. (x, 32 * i, take 32 (drop (32 * i) (C x)))) [0..<length (C x) div 32]) rs)"

abbreviation place_entry :: "u32 \<times> nat \<times> u8 list \<Rightarrow> u8 list" where
  "place_entry t \<equiv> snd (snd t)"

definition dirents :: "(u32 \<Rightarrow> u8 list) \<Rightarrow> u32 list \<Rightarrow> u8 list list" where
  "dirents C rs = map place_entry (located C rs)"

text \<open>After the end mark there are only end marks.\<close>

fun tail_zero :: "u8 list list \<Rightarrow> bool" where
  "tail_zero [] = True"
| "tail_zero (e # es) = ((e ! 0 = 0 \<longrightarrow> (\<forall>f \<in> set es. f ! 0 = 0)) \<and> tail_zero es)"

lemma located_simps [simp]:
  "located C [] = []"
  "located C (x # rs) =
     map (\<lambda>i. (x, 32 * i, take 32 (drop (32 * i) (C x)))) [0..<length (C x) div 32] @ located C rs"
  by (simp_all add: located_def)

lemma located_append: "located C (rs @ rs') = located C rs @ located C rs'"
  by (simp add: located_def)

lemma located_cong: "(\<And>x. x \<in> set rs \<Longrightarrow> C x = C' x) \<Longrightarrow> located C rs = located C' rs"
  by (induction rs) auto

section \<open>Iteration\<close>

lemma iterate_entries_append:
  "iterate_entries fn (es @ es') ctx =
     (case iterate_entries fn es ctx of
        (Some r, ctx) \<Rightarrow> (Some r, ctx) | (None, ctx) \<Rightarrow> iterate_entries fn es' ctx)"
  by (induction fn es ctx rule: iterate_entries.induct) (auto simp: Let_def split: prod.split)

lemma iterate_entries_find:
  "iterate_entries (find_cb name) es fc =
     (case find (slot_match (name_to_83 name)) (takeWhile (\<lambda>e. e ! 0 \<noteq> 0) es) of
        Some e \<Rightarrow> (Some 1, Some e)
      | None \<Rightarrow> (if \<exists>e \<in> set es. e ! 0 = 0 then Some 0 else None, fc))"
  by (induction es) (auto simp: find_cb_def dirent_match_def slot_match_def split: option.split)

section \<open>The search for a slot\<close>

fun slot_scan :: "(u32 \<times> nat \<times> u8 list) list \<Rightarrow> slot_ctx \<Rightarrow> bool \<times> slot_ctx" where
  "slot_scan [] sc = (False, sc)"
| "slot_scan ((x, off, e) # ts) sc =
     (if slot_match (want sc) e
      then (True, sc\<lparr>sc_cluster := x, sc_offset := off, found := True, found_existing := True, existing := e\<rparr>)
      else if \<not> found sc \<and> (e ! 0 = 0x00 \<or> e ! 0 = 0xE5) then
        (let sc = sc\<lparr>sc_cluster := x, sc_offset := off, found := True\<rparr> in
         if e ! 0 = 0x00 then (True, sc) else slot_scan ts sc)
      else slot_scan ts sc)"

lemma slot_entries_scan:
  "slot_entries x off es sc = slot_scan (map (\<lambda>i. (x, off + 32 * i, es ! i)) [0..<length es]) sc"
proof (induction x off es sc rule: slot_entries.induct)
  case (2 x off e es sc)
  have "map (\<lambda>i. (x, off + 32 * i, (e # es) ! i)) [0..<length (e # es)] =
      (x, off, e) # map (\<lambda>i. (x, off + 32 + 32 * i, es ! i)) [0..<length es]"
    by (simp add: upt_conv_Cons map_Suc_upt [symmetric] comp_def add.assoc del: upt_Suc)
  with 2 show ?case by (simp add: Let_def)
qed simp

lemma slot_scan_append:
  "slot_scan (ts @ ts') sc =
     (case slot_scan ts sc of (True, sc) \<Rightarrow> (True, sc) | (False, sc) \<Rightarrow> slot_scan ts' sc)"
  by (induction ts sc rule: slot_scan.induct) (auto simp: Let_def)

lemma slot_scan_want: "want (snd (slot_scan ts sc)) = want sc"
  by (induction ts sc rule: slot_scan.induct) (auto simp: Let_def)

definition match_at :: "u8 list \<Rightarrow> (u32 \<times> nat \<times> u8 list) list \<Rightarrow> (u32 \<times> nat \<times> u8 list) option" where
  "match_at w ts = find (\<lambda>t. slot_match w (place_entry t)) ts"

definition free_at :: "(u32 \<times> nat \<times> u8 list) list \<Rightarrow> (u32 \<times> nat \<times> u8 list) option" where
  "free_at ts = find (\<lambda>t. place_entry t ! 0 = 0 \<or> place_entry t ! 0 = 0xE5) ts"

abbreviation with_match :: "u32 \<times> nat \<times> u8 list \<Rightarrow> slot_ctx \<Rightarrow> slot_ctx" where
  "with_match t sc \<equiv> sc\<lparr>sc_cluster := fst t, sc_offset := fst (snd t), found := True, found_existing := True,
     existing := place_entry t\<rparr>"

abbreviation with_free :: "u32 \<times> nat \<times> u8 list \<Rightarrow> slot_ctx \<Rightarrow> slot_ctx" where
  "with_free t sc \<equiv> sc\<lparr>sc_cluster := fst t, sc_offset := fst (snd t), found := True\<rparr>"

lemma slot_scan_found:
  "found sc \<Longrightarrow> slot_scan ts sc =
     (case match_at (want sc) ts of Some t \<Rightarrow> (True, with_match t sc) | None \<Rightarrow> (False, sc))"
  by (induction ts) (auto simp: match_at_def)

lemma no_match_in_zeros: "\<forall>f \<in> set (map place_entry ts). f ! 0 = 0 \<Longrightarrow> match_at w ts = None"
  by (induction ts) (auto simp: match_at_def slot_match_def)

lemma slot_scan_fresh:
  assumes "tail_zero (map place_entry ts)" "\<not> found sc"
  shows "case match_at (want sc) ts of
      Some t \<Rightarrow> slot_scan ts sc = (True, with_match t sc)
    | None \<Rightarrow> (case free_at ts of
        Some t \<Rightarrow> \<exists>d. slot_scan ts sc = (d, with_free t sc)
      | None \<Rightarrow> slot_scan ts sc = (False, sc))"
  using assms
proof (induction ts)
  case (Cons t ts)
  obtain x off e where t: "t = (x, off, e)" by (cases t)
  show ?case
  proof (cases "slot_match (want sc) e")
    case True
    then show ?thesis by (simp add: t match_at_def)
  next
    case nomatch: False
    show ?thesis
    proof (cases "e ! 0 = 0 \<or> e ! 0 = 0xE5")
      case True
      let ?sc = "sc\<lparr>sc_cluster := x, sc_offset := off, found := True\<rparr>"
      have "match_at w ts = None" if "e ! 0 = 0" for w
        using Cons.prems(1) that t by (intro no_match_in_zeros) simp
      with True nomatch Cons.prems(2) slot_scan_found [of ?sc ts] show ?thesis
        by (auto simp: t match_at_def free_at_def split: option.splits)
    next
      case False
      with nomatch Cons.prems(2) have eqs: "slot_scan (t # ts) sc = slot_scan ts sc" "match_at (want sc) (t # ts) = match_at (want sc) ts"
        "free_at (t # ts) = free_at ts" by (auto simp: t match_at_def free_at_def)
      from Cons show ?thesis unfolding eqs by simp
    qed
  qed
qed (simp add: match_at_def free_at_def)

section \<open>Over the clusters of a directory\<close>

lemma entries_of_cluster:
  "length bs = cluster_bytes s \<Longrightarrow> cluster_buf s = put_at 0 bs buf \<Longrightarrow>
   entries s = map (\<lambda>i. take 32 (drop (32 * i) bs)) [0..<length bs div 32]"
proof (unfold entries_def, rule map_cong, goal_cases)
  case (2 i)
  then have "32 * Suc i \<le> length bs" by auto
  then have "32 * i + 32 \<le> length bs" by simp
  with 2 show ?case by (simp add: put_at_def)
qed simp

lemma chain_snoc:
  "chain F V c rs \<Longrightarrow> rs \<noteq> [] \<Longrightarrow> distinct rs \<Longrightarrow> V nc \<Longrightarrow> nc \<notin> set rs \<Longrightarrow> F' nc = EOC \<Longrightarrow>
   F' (last rs) = nc \<Longrightarrow> (\<And>x. x \<in> set (butlast rs) \<Longrightarrow> F' x = F x) \<Longrightarrow> chain F' V c (rs @ [nc])"
proof (induction rs arbitrary: c)
  case (Cons x rs)
  show ?case
  proof (cases "rs = []")
    case False
    with Cons.prems have "chain F' V (F x) (rs @ [nc])" by (intro Cons.IH) auto
    with Cons.prems False show ?thesis by auto
  qed (use Cons.prems in auto)
qed simp

context ata_disk
begin

text \<open>Reading one cluster of a directory.\<close>

lemma read_entries:
  assumes "vok s" "valid s x"
  obtains s1 where "read_cluster p x s = Some (0, s1)" "vstep s s1 (fatv s) (clus s)"
    "entries s1 = map place_entry (located (clus s) [x])"
    "slot_entries x 0 (entries s1) sc = slot_scan (located (clus s) [x]) sc"
proof -
  obtain s1 where s1: "read_cluster p x s = Some (0, s1)" "vstep s s1 (fatv s) (clus s)"
    "cluster_buf s1 = put_at 0 (clus s x) (cluster_buf s)"
    using assms by (rule read_cluster_ok)
  have es: "entries s1 = map (\<lambda>i. take 32 (drop (32 * i) (clus s x))) [0..<length (clus s x) div 32]"
    using length_clus [OF assms] vstep_bytes [OF s1(2)] s1(3) by (intro entries_of_cluster) auto
  then have "entries s1 = map place_entry (located (clus s) [x])" by simp
  moreover have "slot_entries x 0 (entries s1) sc = slot_scan (located (clus s) [x]) sc"
    unfolding slot_entries_scan es
    by (simp, intro arg_cong2 [where f = slot_scan] map_cong) simp_all
  ultimately show thesis using s1(1,2) by (intro that)
qed

lemma iterate_dir_ok:
  "vok s \<Longrightarrow> chain (fatv s) (valid s) c rs \<Longrightarrow>
   \<exists>s'. iterate_dir p fn c ctx s =
     Some (case fst (iterate_entries fn (dirents (clus s) rs) ctx) of Some r \<Rightarrow> r | None \<Rightarrow> 0,
       snd (iterate_entries fn (dirents (clus s) rs) ctx), s') \<and> vstep s s' (fatv s) (clus s)"
proof (induction rs arbitrary: c ctx s)
  case Nil
  then show ?case by (subst iterate_dir.simps) (simp add: not_in_chain vstep_refl dirents_def)
next
  case (Cons x xs)
  then have c: "c = x" "valid s x" "chain (fatv s) (valid s) (fatv s x) xs" by auto
  obtain s1 where s1: "read_cluster p x s = Some (0, s1)" "vstep s s1 (fatv s) (clus s)"
    "entries s1 = map place_entry (located (clus s) [x])"
    using Cons.prems(1) c(2) by (rule read_entries)
  note same1 = vstepD [OF s1(2)] vstep_valid [OF s1(2)]
  have split: "dirents (clus s) (x # xs) = entries s1 @ dirents (clus s) xs"
    using s1(3) by (simp add: dirents_def)
  obtain fin ctx' where here: "iterate_entries fn (entries s1) ctx = (fin, ctx')" by fastforce
  show ?case
  proof (cases fin)
    case (Some r)
    with here s1 c valid_in_chain [OF Cons.prems(1) c(2)] show ?thesis
      by (subst iterate_dir.simps) (simp add: split iterate_entries_append)
  next
    case None
    have "unat x < ncl s1 + 2" using c(2) vstep_ncl [OF s1(2)] by (simp add: valid_def)
    with same1(2) obtain s2 where s2: "fat_get p x s1 = (fatv s1 x, s2)" "vstep s1 s2 (fatv s1) (clus s1)"
      by (rule fat_get_ok)
    have st2: "vstep s s2 (fatv s) (clus s)" using vstep_trans [OF s1(2) s2(2)] same1 by simp
    note same2 = vstepD [OF st2] vstep_valid [OF st2]
    have "chain (fatv s2) (valid s2) (fatv s x) xs" using c(3) same2 by simp
    from Cons.IH [OF same2(2) this, of ctx']
    obtain s' where s': "iterate_dir p fn (fatv s x) ctx' s2 =
      Some (case fst (iterate_entries fn (dirents (clus s) xs) ctx') of Some r \<Rightarrow> r | None \<Rightarrow> 0,
       snd (iterate_entries fn (dirents (clus s) xs) ctx'), s')" "vstep s2 s' (fatv s2) (clus s2)"
      using same2 by auto
    have "iterate_dir p fn c ctx s = iterate_dir p fn (fatv s x) ctx' s2"
      using here None s1 s2 c valid_in_chain [OF Cons.prems(1) c(2)] same1
      by (subst iterate_dir.simps) simp
    with s' vstep_trans [OF st2 s'(2)] same2 here None show ?thesis
      by (simp add: split iterate_entries_append)
  qed
qed

lemma chain_next_small: "vok s \<Longrightarrow> valid s y \<Longrightarrow> \<not> 0x0FFFFFF8 \<le> y"
  using valid_in_chain [of s y] by (auto simp: in_chain_def)

lemma find_slot_loop_ok:
  "vok s \<Longrightarrow> chain (fatv s) (valid s) c rs \<Longrightarrow> rs \<noteq> [] \<Longrightarrow> slot_scan (located (clus s) rs) sc = (d, sc') \<Longrightarrow>
   \<exists>s'. find_slot_loop p c sc s = (if d \<or> found sc' then Some (0, sc', s') else extend_root p (last rs) sc' s')
     \<and> vstep s s' (fatv s) (clus s)"
proof (induction rs arbitrary: c sc s)
  case (Cons x xs)
  then have c: "c = x" "valid s x" "chain (fatv s) (valid s) (fatv s x) xs" by auto
  obtain s1 where s1: "read_cluster p x s = Some (0, s1)" "vstep s s1 (fatv s) (clus s)"
    "slot_entries x 0 (entries s1) sc = slot_scan (located (clus s) [x]) sc"
    using Cons.prems(1) c(2) by (rule read_entries)
  note same1 = vstepD [OF s1(2)] vstep_valid [OF s1(2)]
  obtain d1 sc1 where here: "slot_scan (located (clus s) [x]) sc = (d1, sc1)" by fastforce
  have split: "located (clus s) (x # xs) = located (clus s) [x] @ located (clus s) xs" by simp
  note in_c = valid_in_chain [OF Cons.prems(1) c(2)]
  show ?case
  proof (cases d1)
    case True
    with here Cons.prems(4) have "d" "sc' = sc1" unfolding split slot_scan_append by auto
    with True here s1 c in_c show ?thesis by (subst find_slot_loop.simps) simp
  next
    case False
    have rest: "slot_scan (located (clus s) xs) sc1 = (d, sc')"
      using here False Cons.prems(4) unfolding split slot_scan_append by simp
    have "unat x < ncl s1 + 2" using c(2) vstep_ncl [OF s1(2)] by (simp add: valid_def)
    with same1(2) obtain s2 where s2: "fat_get p x s1 = (fatv s1 x, s2)" "vstep s1 s2 (fatv s1) (clus s1)"
      by (rule fat_get_ok)
    have st2: "vstep s s2 (fatv s) (clus s)" using vstep_trans [OF s1(2) s2(2)] same1 by simp
    note same2 = vstepD [OF st2] vstep_valid [OF st2]
    show ?thesis
    proof (cases xs)
      case Nil
      with rest have "d = False" "sc' = sc1" by auto
      moreover have "0x0FFFFFF8 \<le> fatv s x" using c(3) Nil by simp
      ultimately show ?thesis using False here s1 s2 st2 c in_c same1 Nil
        by (subst find_slot_loop.simps) auto
    next
      case (Cons y ys)
      have "fatv s x = y" "valid s y" using c(3) Cons by auto
      then have small: "\<not> 0x0FFFFFF8 \<le> fatv s x" using chain_next_small \<open>vok s\<close> by blast
      have "chain (fatv s2) (valid s2) (fatv s x) xs" using c(3) same2 by simp
      from Cons.IH [OF same2(2) this] rest Cons same2
      obtain s' where s': "find_slot_loop p (fatv s x) sc1 s2 =
        (if d \<or> found sc' then Some (0, sc', s') else extend_root p (last xs) sc' s')" "vstep s2 s' (fatv s2) (clus s2)"
        by auto
      have "find_slot_loop p c sc s = find_slot_loop p (fatv s x) sc1 s2"
        using False here s1 s2 c in_c same1 small by (subst find_slot_loop.simps) simp
      with s' vstep_trans [OF st2 s'(2)] same2 Cons show ?thesis by auto
    qed
  qed
qed simp

end

end
