(* ===== verification/Fat32_Files.thy ===== *)
theory Fat32_Files
  imports Fat32_Dir
begin

text \<open>
  Files in the root directory: where \<open>fat32_write\<close> puts an entry, what the entry holds, and
  the whole of \<open>fat32_write\<close> followed by \<open>fat32_read_file\<close> on a volume whose root directory
  and file chains are well formed.
\<close>

section \<open>A new entry\<close>

lemma length_name_to_83 [simp]: "length (name_to_83 name) = 11"
proof -
  have "length (takeWhile (\<lambda>c. c \<noteq> CHR ''.'') (take 8 name)) \<le> 8"
    by (rule order_trans [OF length_takeWhile_le]) simp
  then show ?thesis by (auto simp: name_to_83_def pad_def Let_def)
qed

lemma join_halves: "push_bit 16 (ucast (ucast (drop_bit 16 cl) :: u16)) OR ucast (ucast (cl AND 0xFFFF) :: u16) = (cl :: u32)"
  (is "?l = _")
proof (rule bit_word_eqI)
  fix n :: nat
  assume "n < LENGTH(32)"
  moreover have m: "(0xFFFF :: u32) = mask 16" by (simp add: mask_eq_exp_minus_1)
  ultimately show "bit ?l n = bit cl n"
    unfolding m take_bit_eq_mask [symmetric] by (cases "n < 16") (auto simp: bit_simps)
qed

lemma new_entry_fields:
  assumes "length name = 11"
  shows "length (new_entry name attr cl sz) = 32" "de_name (new_entry name attr cl sz) = name"
    "de_attr (new_entry name attr cl sz) = attr" "de_cluster (new_entry name attr cl sz) = cl"
    "de_size (new_entry name attr cl sz) = sz" "new_entry name attr cl sz ! 0 = name ! 0"
proof -
  show len: "length (new_entry name attr cl sz) = 32" using assms by (simp add: new_entry_def)
  show "de_attr (new_entry name attr cl sz) = attr" "new_entry name attr cl sz ! 0 = name ! 0"
    using assms by (simp_all add: new_entry_def nth_put_at)
  show "de_name (new_entry name attr cl sz) = name"
  proof (rule nth_equalityI)
    fix i assume "i < length (de_name (new_entry name attr cl sz))"
    then show "de_name (new_entry name attr cl sz) ! i = name ! i"
      using assms len by (simp add: new_entry_def nth_put_at)
  qed (use assms len in simp)
  show "de_size (new_entry name attr cl sz) = sz"
    using assms by (simp add: new_entry_def le32_put)
  have "le16 (new_entry name attr cl sz) 20 = ucast (drop_bit 16 cl)" "le16 (new_entry name attr cl sz) 26 = ucast (cl AND 0xFFFF)"
    using assms by (simp_all add: new_entry_def le16_put le16_put_other)
  then show "de_cluster (new_entry name attr cl sz) = cl"
    unfolding de_cluster_def by (simp only: join_halves)
qed

section \<open>Replacing an entry\<close>

lemma entry_of_put:
  assumes "i < length bs div 32" "j < length bs div 32" "length e = 32"
  shows "take 32 (drop (32 * j) (put_at (32 * i) e bs)) = (if j = i then e else take 32 (drop (32 * j) bs))"
proof (rule nth_equalityI)
  have fit: "32 * i + 32 \<le> length bs" "32 * j + 32 \<le> length bs" using assms(1,2) by auto
  then show "length (take 32 (drop (32 * j) (put_at (32 * i) e bs))) = length (if j = i then e else take 32 (drop (32 * j) bs))"
    using assms(3) by simp
  fix k assume "k < length (take 32 (drop (32 * j) (put_at (32 * i) e bs)))"
  then have k: "k < 32" using fit assms(3) by simp
  have "\<not> (32 * i \<le> 32 * j + k \<and> 32 * j + k < 32 * i + 32)" if "j \<noteq> i" using that k by auto
  then show "take 32 (drop (32 * j) (put_at (32 * i) e bs)) ! k = (if j = i then e else take 32 (drop (32 * j) bs)) ! k"
    using fit k assms(3) by (auto simp: nth_put_at)
qed

definition place :: "u32 \<times> nat \<times> u8 list \<Rightarrow> u32 \<times> nat" where
  "place t = (fst t, fst (snd t))"

lemma distinct_places: "distinct rs \<Longrightarrow> distinct (map place (located C rs))"
proof (induction rs)
  case (Cons x rs)
  let ?here = "map (\<lambda>i. (x, 32 * i, take 32 (drop (32 * i) (C x)))) [0..<length (C x) div 32]"
  have "distinct (map place ?here)"
    by (auto simp: place_def distinct_map inj_on_def)
  moreover have "fst q \<in> set rs" if "q \<in> set (map place (located C rs))" for q
    using that by (auto simp: located_def place_def)
  then have "set (map place ?here) \<inter> set (map place (located C rs)) = {}"
    using Cons.prems by (fastforce simp: place_def)
  ultimately show ?case using Cons by simp
qed simp

lemma located_place: "t \<in> set (located C rs) \<Longrightarrow> \<exists>i. fst t \<in> set rs \<and> fst (snd t) = 32 * i \<and> i < length (C (fst t)) div 32"
  by (auto simp: located_def)

lemma located_put:
  assumes "distinct rs" "located C rs = pre @ (x, off, e) # post" "length e' = 32" "length (C x) mod 32 = 0"
  shows "located (C(x := put_at off e' (C x))) rs = pre @ (x, off, e') # post"
proof -
  obtain i where i: "off = 32 * i" "i < length (C x) div 32"
    using located_place [of "(x, off, e)" C rs] assms(2) by auto
  let ?f = "\<lambda>t. if place t = (x, off) then (x, off, e') else t"
  have len: "length (put_at off e' (C x)) = length (C x)" using i assms(3) by simp
  have "located (C(x := put_at off e' (C x))) rs' = map ?f (located C rs')" for rs'
  proof (induction rs')
    case (Cons y ys)
    show ?case
    proof (cases "y = x")
      case True
      have "take 32 (drop (32 * j) (put_at off e' (C x))) = (if j = i then e' else take 32 (drop (32 * j) (C x)))"
        if "j < length (C x) div 32" for j
        using entry_of_put [OF i(2) that assms(3)] i(1) by simp
      with Cons True i len show ?thesis by (auto simp: place_def)
    next
      case False
      with Cons show ?thesis by (auto simp: place_def)
    qed
  qed simp
  moreover have "place t \<noteq> (x, off)" if "t \<in> set pre \<union> set post" for t
  proof -
    have "place (x, off, e) \<notin> place ` (set pre \<union> set post)"
      using distinct_places [OF assms(1), of C] unfolding assms(2) by auto
    with that show ?thesis by (auto simp: place_def image_iff)
  qed
  then have "map ?f pre = pre" "map ?f post = post" by (auto intro!: map_idI)
  ultimately show ?thesis by (simp add: place_def assms(2))
qed

section \<open>Well-formed directories\<close>

definition root_dir :: "(u32 \<Rightarrow> u32) \<Rightarrow> (u32 \<Rightarrow> bool) \<Rightarrow> (u32 \<Rightarrow> u8 list) \<Rightarrow> u32 \<Rightarrow> u32 list \<Rightarrow> bool" where
  "root_dir F V C root rs \<longleftrightarrow> chain F V root rs \<and> rs \<noteq> [] \<and> distinct rs \<and> tail_zero (dirents C rs)"

text \<open>The entry of the name, if there is one, is a file whose chain is well formed and apart from
  the directory.\<close>

definition old_chain_ok :: "(u32 \<Rightarrow> u32) \<Rightarrow> (u32 \<Rightarrow> bool) \<Rightarrow> (u32 \<Rightarrow> u8 list) \<Rightarrow> u32 list \<Rightarrow> cstring \<Rightarrow> bool" where
  "old_chain_ok F V C rs name \<longleftrightarrow>
     (case match_at (name_to_83 name) (located C rs) of
        None \<Rightarrow> True
      | Some t \<Rightarrow> 2 \<le> de_cluster (place_entry t) \<longrightarrow>
          (\<exists>cs. chain F V (de_cluster (place_entry t)) cs \<and> distinct cs \<and> set cs \<inter> set rs = {}))"

text \<open>The place of a new entry: before it there are entries of other names only.\<close>

definition slot_place :: "(u32 \<Rightarrow> u8 list) \<Rightarrow> u32 list \<Rightarrow> u8 list \<Rightarrow> u32 \<Rightarrow> nat \<Rightarrow> bool" where
  "slot_place C rs w x off \<longleftrightarrow>
     (\<exists>pre e post. located C rs = pre @ (x, off, e) # post
        \<and> (\<forall>t \<in> set pre. place_entry t ! 0 \<noteq> 0 \<and> \<not> slot_match w (place_entry t)))"

lemma tail_zero_before: "tail_zero (es @ e # es') \<Longrightarrow> e ! 0 \<noteq> 0 \<Longrightarrow> f \<in> set es \<Longrightarrow> f ! 0 \<noteq> 0"
  by (induction es) auto

lemma find_split: "find P xs = Some x \<Longrightarrow> \<exists>pre post. xs = pre @ x # post \<and> P x \<and> (\<forall>y \<in> set pre. \<not> P y)"
proof (induction xs)
  case (Cons y ys)
  show ?case
  proof (cases "P y")
    case True
    with Cons.prems show ?thesis by (intro exI [of _ "[]"] exI [of _ ys]) simp
  next
    case False
    with Cons obtain pre post where "ys = pre @ x # post" "P x" "\<forall>y \<in> set pre. \<not> P y" by auto
    with False show ?thesis by (intro exI [of _ "y # pre"] exI [of _ post]) auto
  qed
qed simp

lemma slot_placeI:
  "located C rs = pre @ t # post \<Longrightarrow> \<forall>u \<in> set pre. place_entry u ! 0 \<noteq> 0 \<and> \<not> slot_match w (place_entry u) \<Longrightarrow>
   slot_place C rs w (fst t) (fst (snd t))"
  unfolding slot_place_def by (intro exI [of _ pre] exI [of _ "place_entry t"] exI [of _ post]) simp

lemma match_place:
  assumes "match_at w (located C rs) = Some t" "tail_zero (dirents C rs)"
  shows "slot_place C rs w (fst t) (fst (snd t))" "slot_match w (place_entry t)"
proof -
  from assms(1) obtain pre post where split: "located C rs = pre @ t # post"
    and pre: "\<forall>u \<in> set pre. \<not> slot_match w (place_entry u)" and t: "slot_match w (place_entry t)"
    unfolding match_at_def by (blast dest: find_split)
  show "slot_match w (place_entry t)" by (fact t)
  have ts: "tail_zero (map place_entry pre @ place_entry t # map place_entry post)"
    using assms(2) by (simp add: dirents_def split)
  have "place_entry u ! 0 \<noteq> 0" if "u \<in> set pre" for u
    by (rule tail_zero_before [OF ts]) (use t that in \<open>simp_all add: slot_match_def\<close>)
  with pre show "slot_place C rs w (fst t) (fst (snd t))" by (intro slot_placeI [OF split]) blast
qed

lemma free_place:
  assumes "free_at (located C rs) = Some t" "match_at w (located C rs) = None"
  shows "slot_place C rs w (fst t) (fst (snd t))"
proof -
  from assms(1) obtain pre post where split: "located C rs = pre @ t # post"
    and pre: "\<forall>u \<in> set pre. place_entry u ! 0 \<noteq> 0"
    unfolding free_at_def by (blast dest: find_split)
  moreover from assms(2) have "\<not> (\<exists>u. u \<in> set (located C rs) \<and> slot_match w (place_entry u))"
    by (simp only: match_at_def find_None_iff not_False_eq_True)
  then have "\<forall>u \<in> set pre. \<not> slot_match w (place_entry u)" unfolding split by fastforce
  ultimately show ?thesis by (intro slot_placeI [of _ _ pre _ post]) simp_all
qed

lemma extended_place:
  assumes "free_at (located C rs) = None" "match_at w (located C rs) = None" "nc \<notin> set rs" "C' nc = replicate n 0" "32 \<le> n"
    "\<And>x. x \<in> set rs \<Longrightarrow> C' x = C x"
  shows "slot_place C' (rs @ [nc]) w nc 0"
proof -
  have "located C' rs = located C rs" using assms(6) by (rule located_cong)
  moreover have "located C' [nc] = (nc, 0, take 32 (C' nc)) # map (\<lambda>i. (nc, 32 * i, take 32 (drop (32 * i) (C' nc)))) [1..<n div 32]"
    using assms(4,5) by (simp add: upt_conv_Cons)
  moreover have "\<forall>u \<in> set (located C rs). place_entry u ! 0 \<noteq> 0 \<and> \<not> slot_match w (place_entry u)"
    using assms(1,2) by (auto simp: free_at_def match_at_def find_None_iff)
  ultimately show ?thesis
    using slot_placeI [of C' "rs @ [nc]" "located C rs" "(nc, 0, take 32 (C' nc))" _ w]
    by (simp add: located_append del: located_simps)
qed

section \<open>Finding the slot\<close>

context ata_disk
begin

lemma extend_root_ok:
  assumes "vok s" "valid s l" "fatv s l \<noteq> 0"
  obtains (full) s' where "extend_root p l sc s = Some (-2, sc, s')" "vstep s s' (fatv s) (clus s)"
    "free_clusters s = {}"
  | (grown) nc s' where "extend_root p l sc s = Some (0, sc\<lparr>sc_cluster := nc, sc_offset := 0, found := True\<rparr>, s')"
    "valid s nc" "fatv s nc = 0"
    "vstep s s' ((fatv s)(nc := EOC, l := nc)) ((clus s)(nc := replicate (cluster_bytes s) 0))"
  using assms(1)
proof (cases rule: fat_alloc_ok)
  case (none s1)
  then have "free_clusters s = {}" by (auto simp: free_set_def)
  with none full [of s1] show ?thesis by (simp add: extend_root_def)
next
  case (one c s1)
  have l: "l \<noteq> 0" "c \<noteq> l" "c \<noteq> 0" using assms(2,3) one(2,3) by auto
  from write_chunk [OF assms(1) _ one(2,3) l(2) one(4), of "[]"] assms(2)
  obtain s2 s3 s4 where st: "(if l \<noteq> 0 then fat_set p l c s1 else (0, s1)) = (0, s2)"
    "fill_cluster (take (cluster_bytes s2) []) s2 = Some s3" "write_cluster p c s3 = Some (0, s4)"
    "vstep s s4 (if l \<noteq> 0 then (fatv s)(c := EOC, l := c) else (fatv s)(c := EOC))
      ((clus s)(c := take (cluster_bytes s) [] @ replicate (cluster_bytes s - length ([] :: u8 list)) 0))" by blast
  have "extend_root p l sc s = Some (0, sc\<lparr>sc_cluster := c, sc_offset := 0, found := True\<rparr>, s4)"
    using one(1) l st(1-3) by (simp add: extend_root_def)
  with grown [of c s4] one(2,3) st(4) l(1) show ?thesis by simp
qed

text \<open>
  The slot for a name on a well-formed root directory: the directory may have grown by a cluster
  that was free, nothing else changes, and the entries before the slot are of other names.
\<close>

definition slot_found :: "'d fat32 \<Rightarrow> u32 list \<Rightarrow> cstring \<Rightarrow> slot_ctx \<Rightarrow> 'd fat32 \<Rightarrow> u32 list \<Rightarrow> bool" where
  "slot_found s rs name sc s' rs' \<longleftrightarrow>
     same_geometry s s' \<and> vok s' \<and> chain (fatv s') (valid s) (root_cluster s) rs' \<and> distinct rs'
     \<and> set rs \<subseteq> set rs' \<and> card (set rs' - set rs) \<le> 1 \<and> (\<forall>x \<in> set rs' - set rs. fatv s x = 0)
     \<and> (\<forall>x. x \<notin> set rs' \<longrightarrow> fatv s' x = fatv s x \<and> clus s' x = clus s x)
     \<and> want sc = name_to_83 name \<and> slot_place (clus s') rs' (name_to_83 name) (sc_cluster sc) (sc_offset sc)
     \<and> (if found_existing sc then map_option place_entry (match_at (name_to_83 name) (located (clus s) rs)) = Some (existing sc)
        else match_at (name_to_83 name) (located (clus s) rs) = None)"

lemma slot_found_quiet:
  assumes "root_dir (fatv s) (valid s) (clus s) (root_cluster s) rs" "vstep s s' (fatv s) (clus s)"
    and "want sc = name_to_83 name" "slot_place (clus s) rs (name_to_83 name) (sc_cluster sc) (sc_offset sc)"
    and "if found_existing sc then map_option place_entry (match_at (name_to_83 name) (located (clus s) rs)) = Some (existing sc)
        else match_at (name_to_83 name) (located (clus s) rs) = None"
  shows "slot_found s rs name sc s' rs"
  using assms vstepD [OF assms(2)] by (simp add: slot_found_def root_dir_def)

lemma slot_found_grown:
  assumes "vok s" "root_dir (fatv s) (valid s) (clus s) (root_cluster s) rs" "valid s nc" "fatv s nc = 0"
    and none: "match_at (name_to_83 name) (located (clus s) rs) = None" "free_at (located (clus s) rs) = None"
    and step: "vstep s s' ((fatv s)(nc := EOC, last rs := nc)) ((clus s)(nc := replicate (cluster_bytes s) 0))"
    and sc: "want sc = name_to_83 name" "sc_cluster sc = nc" "sc_offset sc = 0" "\<not> found_existing sc"
  shows "slot_found s rs name sc s' (rs @ [nc])"
proof -
  have rs: "chain (fatv s) (valid s) (root_cluster s) rs" "rs \<noteq> []" "distinct rs"
    using assms(2) by (simp_all add: root_dir_def)
  have nc: "nc \<notin> set rs" using chain_entry [OF rs(1)] assms(4) by auto
  have "last rs \<in> set rs" using rs(2) by simp
  with nc have ln: "last rs \<noteq> nc" by auto
  have lb: "x \<noteq> last rs" if "x \<in> set (butlast rs)" for x
    using that rs(2,3) by (metis append_butlast_last_id distinct_append not_distinct_conv_prefix disjoint_insert(1) list.simps(15) Int_iff empty_iff insertI1)
  have "nc \<notin> set (butlast rs)" using nc by (blast dest: in_set_butlastD)
  then have "chain (fatv s') (valid s) (root_cluster s) (rs @ [nc])"
    using rs assms(3) nc vstepD(3) [OF step] ln lb
    by (intro chain_snoc [where F = "fatv s"]) auto
  moreover have "slot_place (clus s') (rs @ [nc]) (name_to_83 name) nc 0"
    using none nc vstepD(4) [OF step] cluster_bytes_fit [OF assms(1)]
    by (intro extended_place [where C = "clus s" and n = "cluster_bytes s"]) auto
  moreover have "fatv s' x = fatv s x" "clus s' x = clus s x" if "x \<notin> set (rs @ [nc])" for x
    using that vstepD(3,4) [OF step] \<open>last rs \<in> set rs\<close> by auto
  ultimately show ?thesis
    using vstepD(1,2) [OF step] rs nc assms(4) sc none(1) by (auto simp: slot_found_def insert_Diff_if)
qed

lemma find_slot_ok:
  assumes "vok s" "root_dir (fatv s) (valid s) (clus s) (root_cluster s) rs"
  obtains (full) sc s' where "find_slot_in_root p (no_slot name) s = Some (-2, sc, s')" "vstep s s' (fatv s) (clus s)"
    "free_clusters s = {}"
  | (slot) sc s' rs' where "find_slot_in_root p (no_slot name) s = Some (0, sc, s')" "slot_found s rs name sc s' rs'"
proof -
  have rs: "chain (fatv s) (valid s) (root_cluster s) rs" "rs \<noteq> []" "distinct rs" "tail_zero (dirents (clus s) rs)"
    using assms(2) by (simp_all add: root_dir_def)
  let ?sc = "no_slot name" and ?ts = "located (clus s) rs" and ?w = "name_to_83 name"
  obtain d sc' where scan: "slot_scan ?ts ?sc = (d, sc')" by fastforce
  obtain s' where s': "find_slot_loop p (root_cluster s) ?sc s =
      (if d \<or> found sc' then Some (0, sc', s') else extend_root p (last rs) sc' s')" "vstep s s' (fatv s) (clus s)"
    using find_slot_loop_ok [OF assms(1) rs(1,2) scan] by blast
  have start: "find_slot_in_root p ?sc s = find_slot_loop p (root_cluster s) ?sc s"
    by (simp add: find_slot_in_root_def no_slot_def)
  have want: "want ?sc = ?w" "\<not> found ?sc" "\<not> found_existing ?sc" by (simp_all add: no_slot_def)
  have fresh: "case match_at ?w ?ts of Some t \<Rightarrow> slot_scan ?ts ?sc = (True, with_match t ?sc)
    | None \<Rightarrow> (case free_at ?ts of Some t \<Rightarrow> \<exists>d. slot_scan ?ts ?sc = (d, with_free t ?sc) | None \<Rightarrow> slot_scan ?ts ?sc = (False, ?sc))"
    using slot_scan_fresh [of ?ts ?sc] rs(4) want by (simp add: dirents_def)
  show thesis
  proof (cases "match_at ?w ?ts")
    case (Some t)
    with fresh scan have sc': "sc' = with_match t ?sc" by simp
    have "slot_found s rs name sc' s' rs"
      using match_place(1) [OF Some rs(4)] want Some sc' by (intro slot_found_quiet [OF assms(2) s'(2)]) simp_all
    with slot [of sc' s' rs] start s'(1) sc' show ?thesis by simp
  next
    case nomatch: None
    show ?thesis
    proof (cases "free_at ?ts")
      case (Some t)
      with nomatch fresh scan have sc': "sc' = with_free t ?sc" by auto
      have "slot_found s rs name sc' s' rs"
        using free_place [OF Some nomatch] want nomatch sc' by (intro slot_found_quiet [OF assms(2) s'(2)]) simp_all
      with slot [of sc' s' rs] start s'(1) sc' show ?thesis by simp
    next
      case None
      with nomatch fresh scan have sc': "sc' = ?sc" "\<not> d" by auto
      note same = vstepD [OF s'(2)] vstep_valid [OF s'(2)] vstep_bytes [OF s'(2)]
      have l: "valid s' (last rs)" "fatv s' (last rs) \<noteq> 0"
        using chain_valid [OF rs(1)] chain_entry [OF rs(1)] rs(2) same by auto
      have loop: "find_slot_in_root p ?sc s = extend_root p (last rs) ?sc s'"
        using start s'(1) sc' want by simp
      from same(2) l show ?thesis
      proof (cases rule: extend_root_ok [where sc = ?sc])
        case (full s'')
        have "free_clusters s = {}" using full(3) same by (simp add: free_set_def)
        with full loop vstep_trans [OF s'(2) full(2)] same that(1) show ?thesis by simp
      next
        case (grown nc s'')
        have "slot_found s rs name (?sc\<lparr>sc_cluster := nc, sc_offset := 0, found := True\<rparr>) s'' (rs @ [nc])"
          using grown(2,3) vstep_trans [OF s'(2) grown(4)] same want
          by (intro slot_found_grown [OF assms _ _ nomatch None]) simp_all
        with slot loop grown(1) show ?thesis by simp
      qed
    qed
  qed
qed

section \<open>Storing the entry\<close>

lemma store_entry_ok:
  assumes "vok s" "valid s x" "off + length bs \<le> cluster_bytes s"
  obtains s' where "store_entry p x off bs s = Some (FAT_OK, s')"
    "vstep s s' (fatv s) ((clus s)(x := put_at off bs (clus s x)))"
proof -
  obtain s1 where s1: "read_cluster p x s = Some (0, s1)" "vstep s s1 (fatv s) (clus s)"
    "cluster_buf s1 = put_at 0 (clus s x) (cluster_buf s)"
    using assms(1,2) by (rule read_cluster_ok)
  note same1 = vstepD [OF s1(2)] vstep_valid [OF s1(2)] vstep_bytes [OF s1(2)]
  note fit = cluster_bytes_fit [OF assms(1)] vokD(4) [OF assms(1)] length_clus [OF assms(1,2)]
  let ?s2 = "s1\<lparr>cluster_buf := put_at off bs (cluster_buf s1)\<rparr>"
  have len: "length (cluster_buf s1) = 4096" using vokD(4) [OF same1(2)] .
  have same: "same_geometry s1 ?s2" by (simp add: same_geometry_def)
  have "vok ?s2" using vokD [OF same1(2)] assms(3) fit by (intro vok_same [OF same1(2) same]) simp_all
  then have st2: "vstep s1 ?s2 (fatv s1) (clus s1)"
    using same by (simp add: vstep_def same_geometry_entry [OF same] same_geometry_data [OF same])
  note same2 = vstepD [OF st2] vstep_valid [OF st2] vstep_bytes [OF st2]
  have "valid ?s2 x" using assms(2) same1 same2 by simp
  with same2(2) obtain s' where s': "write_cluster p x ?s2 = Some (0, s')"
    "vstep ?s2 s' (fatv ?s2) ((clus ?s2)(x := take (cluster_bytes ?s2) (cluster_buf ?s2)))" by (rule write_cluster_ok)
  have "take (cluster_bytes s) (put_at off bs (put_at 0 (clus s x) (cluster_buf s))) = put_at off bs (clus s x)"
    using assms(3) fit by (simp add: put_at_def)
  then have "vstep s s' (fatv s) ((clus s)(x := put_at off bs (clus s x)))"
    using vstep_trans [OF vstep_trans [OF s1(2) st2] s'(2)] same1 same2 s1(3) by simp
  with s1(1) s'(1) show thesis by (intro that [of s']) (simp_all add: store_entry_def)
qed

lemma chain_last_mark:
  assumes "chain F V c cs" "distinct cs" "\<And>x. x \<noteq> last cs \<Longrightarrow> F' x = F x" "F' (last cs) = EOC"
  shows "chain F' V c cs"
  using assms
proof (induction cs arbitrary: c)
  case (Cons x xs)
  show ?case
  proof (cases "xs = []")
    case False
    with Cons.prems have "x \<noteq> last xs" by auto
    with Cons False show ?thesis by auto
  qed (use Cons in auto)
qed simp

section \<open>Writing a file\<close>

text \<open>
  What a successful \<open>fat32_write\<close> leaves on the volume: the directory \<open>rs'\<close> with the new entry in
  a place that only entries of other names precede, and behind the entry a chain that
  holds the text.
\<close>

definition file_written :: "'d fat32 \<Rightarrow> cstring \<Rightarrow> u8 list \<Rightarrow> 'd fat32 \<Rightarrow> bool" where
  "file_written s name bs s' \<longleftrightarrow> same_geometry s s' \<and> vok s' \<and>
     (\<exists>rs pre x off e post cs. chain (fatv s') (valid s) (root_cluster s) rs \<and> distinct rs
        \<and> located (clus s') rs = pre @ (x, off, e) # post
        \<and> (\<forall>t \<in> set pre. place_entry t ! 0 \<noteq> 0 \<and> \<not> slot_match (name_to_83 name) (place_entry t))
        \<and> e = new_entry (name_to_83 name) ATTR_ARCHIVE (if cs = [] then 0 else hd cs) (of_nat (length bs))
        \<and> (bs \<noteq> [] \<longrightarrow> cs \<noteq> []) \<and> (cs \<noteq> [] \<longrightarrow> chain (fatv s') (valid s) (hd cs) cs)
        \<and> take (length bs) (chain_bytes s' cs) = bs)"

lemma free_old_ok:
  assumes "slot_found s rs name sc s1 rs'" "old_chain_ok (fatv s) (valid s) (clus s) rs name"
    "root_dir (fatv s) (valid s) (clus s) (root_cluster s) rs"
  obtains r s2 where
    "(if found_existing sc \<and> 2 \<le> de_cluster (existing sc) then fat_free_chain p (de_cluster (existing sc)) s1
      else Some (0, s1)) = Some (r, s2)"
    "same_geometry s s2" "vok s2" "clus s2 = clus s1" "\<forall>x \<in> set rs'. fatv s2 x = fatv s1 x"
    "free_clusters s \<subseteq> free_clusters s2 \<union> (set rs' - set rs)"
proof (cases "found_existing sc \<and> 2 \<le> de_cluster (existing sc)")
  case False
  have "same_geometry s s1" "\<forall>x. x \<notin> set rs' \<longrightarrow> fatv s1 x = fatv s x" "\<forall>x \<in> set rs. fatv s x \<noteq> 0"
    using assms(1,3) by (auto simp: slot_found_def root_dir_def dest!: chain_entry)
  then have "free_clusters s \<subseteq> free_clusters s1 \<union> (set rs' - set rs)"
    by (auto simp: free_set_def same_geometry_valid)
  with False that [of 0 s1] assms(1) show ?thesis by (auto simp: slot_found_def)
next
  case True
  have rs: "\<forall>x \<in> set rs. fatv s x \<noteq> 0" using assms(3) by (auto simp: root_dir_def dest!: chain_entry)
  have f: "same_geometry s s1" "vok s1" "\<forall>x \<in> set rs' - set rs. fatv s x = 0" "set rs \<subseteq> set rs'"
    "\<forall>x. x \<notin> set rs' \<longrightarrow> fatv s1 x = fatv s x"
    "map_option place_entry (match_at (name_to_83 name) (located (clus s) rs)) = Some (existing sc)"
    using assms(1) True by (auto simp: slot_found_def split: if_splits)
  with assms(2) True obtain cs where cs: "chain (fatv s) (valid s) (de_cluster (existing sc)) cs" "distinct cs" "set cs \<inter> set rs = {}"
    by (auto simp: old_chain_ok_def split: option.splits)
  have "\<forall>x \<in> set cs. fatv s x \<noteq> 0" using chain_entry [OF cs(1)] by simp
  with f(3) cs(3) have apart: "set cs \<inter> set rs' = {}" by blast
  have "chain (fatv s1) (valid s1) (de_cluster (existing sc)) cs"
    unfolding same_geometry_valid [OF f(1)] using cs(1) f(5) apart by (subst fat_chain_cong [where F' = "fatv s"]) auto
  from fat_free_chain_ok [OF f(2) this cs(2)] obtain s2 where s2: "fat_free_chain p (de_cluster (existing sc)) s1 = Some (0, s2)"
    "vstep s1 s2 (\<lambda>x. if x \<in> set cs then 0 else fatv s1 x) (clus s1)" by blast
  note same = vstepD [OF s2(2)]
  have "\<forall>x \<in> set rs'. fatv s2 x = fatv s1 x" using same(3) apart by auto
  moreover have geo: "same_geometry s s2" using f(1) same(1) by (rule same_geometry_trans)
  moreover have "free_clusters s \<subseteq> free_clusters s2 \<union> (set rs' - set rs)"
    using rs f(5) same(3) by (auto simp: free_set_def same_geometry_valid [OF geo])
  ultimately show thesis using that [of 0 s2] True s2(1) same by simp
qed

lemma end_mark_ok:
  assumes "text_stored s2 bs 0 cs s3"
  obtains s4 where "(if last (0 # cs) \<noteq> 0 then fat_set p (last (0 # cs)) EOC s3 else (0, s3)) = (0, s4)"
    "same_geometry s2 s4" "vok s4" "clus s4 = clus s3" "cs \<noteq> [] \<longrightarrow> chain (fatv s4) (valid s2) (hd cs) cs"
    "\<forall>x. x \<notin> set cs \<longrightarrow> fatv s4 x = fatv s3 x"
proof (cases "cs = []")
  case True
  with that [of s3] assms show ?thesis by (simp add: text_stored_def)
next
  case False
  have t: "same_geometry s2 s3" "vok s3" "distinct cs" "\<forall>c \<in> set cs. valid s2 c" "chain (fatv s3) (valid s2) (hd cs) cs"
    using assms False by (auto simp: text_stored_def)
  have "last cs \<in> set cs" using False by simp
  moreover from this have "last cs \<noteq> 0" using t(4) valid_nonzero [of s2] by metis
  ultimately have l: "last cs \<in> set cs" "last cs \<noteq> 0" .
  have "unat (last cs) < ncl s3 + 2" using l t(1,4) by (auto simp: valid_def same_geometry_def)
  with t(2) obtain s4 where s4: "fat_set p (last cs) EOC s3 = (0, s4)"
    "vstep s3 s4 ((fatv s3)(last cs := EOC AND 0x0FFFFFFF)) (clus s3)" by (rule fat_set_ok)
  note same = vstepD [OF s4(2)]
  have F4: "fatv s4 = (fatv s3)(last cs := EOC)" using same(3) by simp
  have "chain (fatv s4) (valid s2) (hd cs) cs"
    using t(5,3) by (rule chain_last_mark) (simp_all add: F4)
  moreover have "same_geometry s2 s4" using t(1) same(1) by (rule same_geometry_trans)
  moreover have "\<forall>x. x \<notin> set cs \<longrightarrow> fatv s4 x = fatv s3 x" using l(1) by (auto simp: F4)
  moreover have "(if last (0 # cs) \<noteq> 0 then fat_set p (last (0 # cs)) EOC s3 else (0, s3)) = (0, s4)"
    using s4(1) False l by simp
  ultimately show thesis using that [of s4] same(2,4) by blast
qed

lemma entry_place_fits:
  assumes "vok s" "chain F (valid s) c rs" "located (clus s) rs = pre @ (x, off, e) # post"
  shows "x \<in> set rs" "valid s x" "off + 32 \<le> cluster_bytes s" "length (clus s x) mod 32 = 0"
proof -
  obtain i where i: "x \<in> set rs" "off = 32 * i" "i < length (clus s x) div 32"
    using located_place [of "(x, off, e)" "clus s" rs] assms(3) by auto
  then show x: "x \<in> set rs" "valid s x" using chain_valid [OF assms(2)] by auto
  have len: "length (clus s x) = cluster_bytes s" using assms(1) x(2) by (rule length_clus)
  have "32 * Suc i \<le> length (clus s x)" using i(3) by auto
  then show "off + 32 \<le> cluster_bytes s" using i(2) len by simp
  show "length (clus s x) mod 32 = 0"
    unfolding len by (simp add: cluster_bytes_def SECTOR_SIZE_def mult.commute [of _ 512])
qed

lemma write_file_ok:
  assumes found: "slot_found s rs name sc s1 rs'"
    and s2: "same_geometry s s2" "vok s2" "clus s2 = clus s1" "\<forall>x \<in> set rs'. fatv s2 x = fatv s1 x"
    and stored: "text_stored s2 bs 0 cs s3"
    and s4: "same_geometry s2 s4" "vok s4" "clus s4 = clus s3" "cs \<noteq> [] \<longrightarrow> chain (fatv s4) (valid s2) (hd cs) cs"
    "\<forall>x. x \<notin> set cs \<longrightarrow> fatv s4 x = fatv s3 x"
  obtains s5 where "store_entry p (sc_cluster sc) (sc_offset sc)
      (new_entry (want sc) ATTR_ARCHIVE (if cs = [] then 0 else hd cs) (of_nat (length bs))) s4 = Some (FAT_OK, s5)"
    "file_written s name bs s5"
proof -
  let ?e = "new_entry (name_to_83 name) ATTR_ARCHIVE (if cs = [] then 0 else hd cs) (of_nat (length bs))"
  have f: "same_geometry s s1" "vok s1" "chain (fatv s1) (valid s) (root_cluster s) rs'" "distinct rs'" "want sc = name_to_83 name"
    using found by (simp_all add: slot_found_def)
  obtain pre e post where place: "located (clus s1) rs' = pre @ (sc_cluster sc, sc_offset sc, e) # post"
    "\<forall>t \<in> set pre. place_entry t ! 0 \<noteq> 0 \<and> \<not> slot_match (name_to_83 name) (place_entry t)"
    using found by (auto simp: slot_found_def slot_place_def)
  have t: "\<forall>c \<in> set cs. valid s2 c \<and> fatv s2 c = 0" "bs \<noteq> [] \<longrightarrow> cs \<noteq> []"
    "\<forall>x. x \<notin> set cs \<longrightarrow> x \<noteq> 0 \<longrightarrow> fatv s3 x = fatv s2 x" "\<forall>x. x \<notin> set cs \<longrightarrow> clus s3 x = clus s2 x"
    "take (length bs) (chain_bytes s3 cs) = bs" "vok s3"
    using stored by (simp_all add: text_stored_def)
  have "\<forall>x \<in> set rs'. fatv s1 x \<noteq> 0 \<and> x \<noteq> 0" using chain_entry [OF f(3)] chain_valid [OF f(3)] valid_nonzero [of s] by metis
  then have apart: "set cs \<inter> set rs' = {}" and nz: "\<forall>x \<in> set rs'. x \<noteq> 0" using t(1) s2(4) by auto
  have geo: "same_geometry s s4" using s2(1) s4(1) by (rule same_geometry_trans)
  note valid4 = same_geometry_valid [OF geo] and valid2 = same_geometry_valid [OF s2(1)]
  have "fatv s4 x = fatv s1 x" if "x \<in> set rs'" for x
  proof -
    have "x \<notin> set cs" "x \<noteq> 0" using that apart nz by auto
    then show ?thesis using s4(5) t(3) s2(4) that by simp
  qed
  then have root: "chain (fatv s4) (valid s) (root_cluster s) rs'"
    using f(3) by (subst fat_chain_cong [where F' = "fatv s1"])
  have dir: "located (clus s4) rs' = pre @ (sc_cluster sc, sc_offset sc, e) # post"
    using place(1) apart t(4) s2(3) s4(3) by (subst located_cong [where C' = "clus s1"]) auto
  have root4: "chain (fatv s4) (valid s4) (root_cluster s) rs'" using root valid4 by simp
  note fits = entry_place_fits [OF s4(2) root4 dir]
  have len: "length ?e = 32" by (simp add: new_entry_fields)
  have "sc_offset sc + length ?e \<le> cluster_bytes s4" using fits(3) len by simp
  with s4(2) fits(2) obtain s5 where s5: "store_entry p (sc_cluster sc) (sc_offset sc) ?e s4 = Some (FAT_OK, s5)"
    "vstep s4 s5 (fatv s4) ((clus s4)(sc_cluster sc := put_at (sc_offset sc) ?e (clus s4 (sc_cluster sc))))"
    by (rule store_entry_ok)
  note same5 = vstepD [OF s5(2)]
  have new_dir: "located (clus s5) rs' = pre @ (sc_cluster sc, sc_offset sc, ?e) # post"
    unfolding same5(4) using f(4) dir len fits(4) by (rule located_put)
  have "sc_cluster sc \<notin> set cs" using fits(1) apart by auto
  then have maps: "map (clus s5) cs = map (clus s3) cs" unfolding same5(4) using s4(3) by auto
  have data: "take (length bs) (chain_bytes s5 cs) = bs" unfolding maps using t(5) .
  have "file_written s name bs s5"
    unfolding file_written_def
    by (intro conjI exI [of _ rs'] exI [of _ pre] exI [of _ "sc_cluster sc"] exI [of _ "sc_offset sc"] exI [of _ ?e]
        exI [of _ post] exI [of _ cs])
       (use same5 geo root f(4) new_dir place(2) t(2) s4(4) valid2 data same_geometry_trans in auto)
  with s5(1) f(5) show thesis by (intro that [of s5]) simp_all
qed

lemma fat32_write_ok:
  assumes "vok s" "mounted s" "root_dir (fatv s) (valid s) (clus s) (root_cluster s) rs"
    "old_chain_ok (fatv s) (valid s) (clus s) rs name" "name \<noteq> []" "length txt \<le> WRITE_MAX_BYTES"
  obtains r s' where "fat32_write p name txt s = Some (r, s')" "same_geometry s s'" "vok s'"
    "r \<in> {FAT_OK, FAT_ERR_NO_SPACE, FAT_ERR_IS_DIR}"
    "r = FAT_ERR_NO_SPACE \<longrightarrow> card (free_clusters s) * cluster_bytes s < length txt + cluster_bytes s"
    "r = FAT_ERR_IS_DIR \<longrightarrow> (\<exists>t. match_at (name_to_83 name) (located (clus s) rs) = Some t
       \<and> de_attr (place_entry t) AND ATTR_DIRECTORY \<noteq> 0)"
    "r = FAT_OK \<longrightarrow> file_written s name (map byte_of_char txt) s'"
  using assms(1,3)
proof (cases rule: find_slot_ok [where name = name])
  case (full sc s1)
  with that [of FAT_ERR_NO_SPACE s1] assms vstepD [OF full(2)] cluster_bytes_fit [OF assms(1)] show ?thesis
    by (simp add: fat32_write_def)
next
  case (slot sc s1 rs')
  have start: "\<not> length txt > WRITE_MAX_BYTES" using assms(6) by simp
  show ?thesis
  proof (cases "found_existing sc \<and> de_attr (existing sc) AND ATTR_DIRECTORY \<noteq> 0")
    case True
    have "same_geometry s s1" "vok s1" using slot(2) by (simp_all add: slot_found_def)
    moreover have "\<exists>t. match_at (name_to_83 name) (located (clus s) rs) = Some t
       \<and> de_attr (place_entry t) AND ATTR_DIRECTORY \<noteq> 0"
      using slot(2) True by (auto simp: slot_found_def)
    ultimately show ?thesis using that [of FAT_ERR_IS_DIR s1] assms True slot(1) start by (simp add: fat32_write_def)
  next
    case False
    obtain r0 s2 where s2: "(if found_existing sc \<and> 2 \<le> de_cluster (existing sc) then fat_free_chain p (de_cluster (existing sc)) s1
        else Some (0, s1)) = Some (r0, s2)" "same_geometry s s2" "vok s2" "clus s2 = clus s1" "\<forall>x \<in> set rs'. fatv s2 x = fatv s1 x"
      "free_clusters s \<subseteq> free_clusters s2 \<union> (set rs' - set rs)"
      using slot(2) assms(4,3) by (rule free_old_ok)
    let ?bs = "map byte_of_char txt"
    obtain r f pv s3 where s3: "write_chunks p ?bs 0 0 s2 = Some (r, f, pv, s3)"
      "r = FAT_ERR_NO_SPACE \<and> same_geometry s2 s3 \<and> vok s3 \<and> card (free_clusters s2) * cluster_bytes s2 < length ?bs
        \<or> r = FAT_OK \<and> (\<exists>cs. text_stored s2 ?bs 0 cs s3 \<and> f = (if (0::u32) = 0 \<and> cs \<noteq> [] then hd cs else 0) \<and> pv = last (0 # cs))"
      using write_chunks_ok [OF s2(3), of 0 0 ?bs] by blast
    have whole: "fat32_write p name txt s =
       (if r \<noteq> FAT_OK then Some (r, s3)
        else let (r, s) = (if pv \<noteq> 0 then fat_set p pv EOC s3 else (0, s3)) in
          if r \<noteq> 0 then Some (FAT_ERR_IO, s)
          else store_entry p (sc_cluster sc) (sc_offset sc) (new_entry (want sc) ATTR_ARCHIVE f (of_nat (length txt))) s)"
      using assms False slot(1) start s2(1) s3(1) by (auto simp: fat32_write_def)
    show ?thesis
    proof (cases "r = FAT_OK")
      case no_space: False
      with s3(2) have r: "r = FAT_ERR_NO_SPACE" "same_geometry s2 s3" "vok s3"
        "card (free_clusters s2) * cluster_bytes s2 < length txt" by auto
      have "card (free_clusters s) \<le> card (free_clusters s2 \<union> (set rs' - set rs))"
        using s2(6) by (intro card_mono) simp_all
      also have "\<dots> \<le> card (free_clusters s2) + 1"
        using slot(2) by (intro order_trans [OF card_Un_le] add_left_mono) (simp add: slot_found_def)
      finally have "card (free_clusters s) * cluster_bytes s \<le> Suc (card (free_clusters s2)) * cluster_bytes s"
        by (intro mult_le_mono1) simp
      then have "card (free_clusters s) * cluster_bytes s < length txt + cluster_bytes s"
        using r(4) cluster_bytes_same [OF s2(2)] by simp
      with r that [of r s3] whole same_geometry_trans [OF s2(2)] show ?thesis by auto
    next
      case True
      with s3(2) obtain cs where cs: "text_stored s2 ?bs 0 cs s3" "f = (if cs = [] then 0 else hd cs)" "pv = last (0 # cs)"
        by auto
      obtain s4 where s4: "(if last (0 # cs) \<noteq> 0 then fat_set p (last (0 # cs)) EOC s3 else (0, s3)) = (0, s4)"
        "same_geometry s2 s4" "vok s4" "clus s4 = clus s3" "cs \<noteq> [] \<longrightarrow> chain (fatv s4) (valid s2) (hd cs) cs"
        "\<forall>x. x \<notin> set cs \<longrightarrow> fatv s4 x = fatv s3 x"
        using cs(1) by (rule end_mark_ok)
      obtain s5 where s5: "store_entry p (sc_cluster sc) (sc_offset sc)
          (new_entry (want sc) ATTR_ARCHIVE (if cs = [] then 0 else hd cs) (of_nat (length ?bs))) s4 = Some (FAT_OK, s5)"
        "file_written s name ?bs s5"
        using slot(2) s2(2-5) cs(1) s4(2-6) by (rule write_file_ok)
      have "fat32_write p name txt s = Some (FAT_OK, s5)"
        unfolding whole cs(3) s4(1) using True s5(1) cs(2) by simp
      moreover have "same_geometry s s5" "vok s5" using s5(2) by (auto simp: file_written_def)
      ultimately show ?thesis using that [of FAT_OK s5] s5(2) by blast
    qed
  qed
qed

section \<open>Reading it back\<close>

lemma find_first:
  "\<forall>e \<in> set es. e ! 0 \<noteq> 0 \<and> \<not> slot_match w e \<Longrightarrow> slot_match w e' \<Longrightarrow>
   find (slot_match w) (takeWhile (\<lambda>e. e ! 0 \<noteq> 0) (es @ e' # es')) = Some e'"
  by (induction es) (auto simp: slot_match_def)

lemma file_written_read:
  assumes "file_written s name bs s'" "mounted s" "name \<noteq> []" "name_to_83 name ! 0 \<noteq> 0" "name_to_83 name ! 0 \<noteq> 0xE5"
    "0 < n" "length bs < 2 ^ 32"
  obtains s'' where "fat32_read_file p name n s' = Some (FAT_OK, take n bs, min n (length bs), s'')"
    "vstep s' s'' (fatv s') (clus s')"
proof -
  obtain rs pre x off e post cs where w: "same_geometry s s'" "vok s'" "chain (fatv s') (valid s) (root_cluster s) rs"
    "located (clus s') rs = pre @ (x, off, e) # post"
    "\<forall>t \<in> set pre. place_entry t ! 0 \<noteq> 0 \<and> \<not> slot_match (name_to_83 name) (place_entry t)"
    "e = new_entry (name_to_83 name) ATTR_ARCHIVE (if cs = [] then 0 else hd cs) (of_nat (length bs))"
    "bs \<noteq> [] \<longrightarrow> cs \<noteq> []" "cs \<noteq> [] \<longrightarrow> chain (fatv s') (valid s) (hd cs) cs" "take (length bs) (chain_bytes s' cs) = bs"
    using assms(1) unfolding file_written_def by blast
  note e = new_entry_fields [OF length_name_to_83, of name ATTR_ARCHIVE "if cs = [] then 0 else hd cs" "of_nat (length bs)",
    folded w(6)]
  have geo: "valid s' = valid s" "root_cluster s' = root_cluster s" "mounted s'"
    using w(1) assms(2) same_geometry_valid [OF w(1)] by (simp_all add: same_geometry_def)
  have match: "slot_match (name_to_83 name) e"
    using e assms(4,5) by (simp add: slot_match_def fat_consts)
  have size: "unat (de_size e) = length bs" using e(5) assms(7) by (simp add: unat_of_nat take_bit_nat_eq_self)
  have "find (slot_match (name_to_83 name)) (takeWhile (\<lambda>e. e ! 0 \<noteq> 0) (dirents (clus s') rs)) = Some e"
    unfolding dirents_def w(4) using w(5) match by (simp add: find_first)
  then have "iterate_entries (find_cb name) (dirents (clus s') rs) None = (Some 1, Some e)"
    by (simp add: iterate_entries_find)
  moreover have "chain (fatv s') (valid s') (root_cluster s') rs" using w(3) geo by simp
  ultimately obtain s1 where s1: "find_in_root p name s' = Some (1, Some e, s1)" "vstep s' s1 (fatv s') (clus s')"
    unfolding find_in_root_def using iterate_dir_ok [OF w(2), of "root_cluster s'" rs "find_cb name" None] by auto
  note same1 = vstepD [OF s1(2)] vstep_valid [OF s1(2)]
  have "\<exists>s''. read_chain p (de_cluster e) (length bs) n [] s1 = Some (FAT_OK, take (min (length bs) n) (chain_bytes s' cs), s'')
      \<and> vstep s1 s'' (fatv s') (clus s')"
  proof (cases "cs = []")
    case True
    then have "bs = []" using w(7) by auto
    with True e(4) vstep_refl [OF same1(2)] same1 show ?thesis by (subst read_chain.simps) simp
  next
    case False
    have "chain (fatv s1) (valid s1) (de_cluster e) cs" using w(8) False geo same1 e(4) by simp
    from read_chain_ok [OF same1(2) this, of "length bs" n "[]"] same1 show ?thesis by simp
  qed
  then obtain s'' where s'': "read_chain p (de_cluster e) (length bs) n [] s1 = Some (FAT_OK, take (min (length bs) n) (chain_bytes s' cs), s'')"
    "vstep s1 s'' (fatv s') (clus s')" by blast
  have data: "take (min (length bs) n) (chain_bytes s' cs) = take n bs"
  proof -
    have "take n (take (length bs) (chain_bytes s' cs)) = take n bs" by (simp only: w(9))
    then show ?thesis by (simp add: take_take min.commute)
  qed
  have "fat32_read_file p name n s' = Some (FAT_OK, take n bs, min n (length bs), s'')"
    using s1(1) s''(1) geo(3) assms(3,6) e(3) size data by (simp add: fat32_read_file_def fat_consts min.commute)
  then show thesis using vstep_trans [OF s1(2) s''(2)] by (rule that)
qed

end

end
