(* ===== verification/Fat32_Mkfs.thy ===== *)
theory Fat32_Mkfs
  imports Fat32_Files
begin

text \<open>
  Formatting a partition with \<open>fat32_mkfs\<close> and mounting it: the sectors it leaves, and that
  \<open>fat32_mount\<close> finds an empty, well-formed volume on them. The second copy of the table is not
  a copy of the first: every sector of it starts with the three reserved entries, because
  the buffer is not cleared again before it is written.
\<close>

section \<open>Sectors written by the formatter\<close>

definition fat_head_sector :: "u8 list" where
  "fat_head_sector = put_at 0 mkfs_fat_head (replicate 512 0)"

lemma length_fat_head [simp]: "length mkfs_fat_head = 12" "length fat_head_sector = 512"
  by (simp_all add: mkfs_fat_head_def fat_head_sector_def)

lemma put_head_twice: "put_at 0 mkfs_fat_head fat_head_sector = fat_head_sector"
  by (simp add: fat_head_sector_def put_at_def)

definition fill_range :: "nat \<Rightarrow> nat \<Rightarrow> u8 list \<Rightarrow> (nat \<Rightarrow> u8 list) \<Rightarrow> nat \<Rightarrow> u8 list" where
  "fill_range l n bs D k = (if l \<le> k \<and> k < l + n then bs else D k)"

lemma fill_range_0 [simp]: "fill_range l 0 bs D = D"
  by (rule ext) (auto simp: fill_range_def)

lemma fill_range_Suc: "fill_range (Suc l) n bs (D(l := bs)) = fill_range l (Suc n) bs D"
  by (rule ext) (auto simp: fill_range_def)

context ata_disk
begin

lemma mkfs_fill_ok:
  "buf_ok s \<Longrightarrow> unat lba + n \<le> cap \<Longrightarrow>
   \<exists>a. mkfs_fill p n lba s = (0, s\<lparr>disk := a\<rparr>) \<and> ready a \<and> sect a = fill_range (unat lba) n (sector_buf s) (sect (disk s))"
proof (induction n arbitrary: lba s)
  case 0
  then show ?case by (auto simp: buf_ok_def intro!: exI [of _ "disk s"])
next
  case (Suc n)
  have in_cap: "unat lba < cap" using Suc.prems(2) by simp
  obtain a where a: "store_sector p lba s = (0, s\<lparr>disk := a\<rparr>)" "ready a" "sect a = (sect (disk s))(unat lba := sector_buf s)"
    using Suc.prems(1) in_cap by (rule store_ok)
  have "cap \<le> 268435456" using cap_28 by simp
  with in_cap have "unat lba + 1 < 2 ^ 32" by simp
  then have next_lba: "unat (lba + 1) = Suc (unat lba)" by (subst unat_add_small) simp_all
  have "buf_ok (s\<lparr>disk := a\<rparr>)" using Suc.prems(1) a(2) by (simp add: buf_ok_def)
  moreover have "unat (lba + 1) + n \<le> cap" using Suc.prems(2) next_lba by simp
  ultimately obtain a' where a': "mkfs_fill p n (lba + 1) (s\<lparr>disk := a\<rparr>) = (0, (s\<lparr>disk := a\<rparr>)\<lparr>disk := a'\<rparr>)" "ready a'"
    "sect a' = fill_range (unat (lba + 1)) n (sector_buf (s\<lparr>disk := a\<rparr>)) (sect (disk (s\<lparr>disk := a\<rparr>)))"
    using Suc.IH by blast
  have "sect a' = fill_range (unat lba) (Suc n) (sector_buf s) (sect (disk s))"
    using a'(3) a(3) next_lba by (simp add: fill_range_Suc)
  with a(1) a'(1,2) show ?case by (intro exI [of _ a']) simp
qed

lemma mkfs_fat_ok:
  assumes "buf_ok s" "unat lba + unat fat_sz \<le> cap" "0 < unat fat_sz"
  obtains a where "mkfs_fat p lba fat_sz s = (0, s\<lparr>sector_buf := put_at 0 mkfs_fat_head (sector_buf s), disk := a\<rparr>)" "ready a"
    "sect a = (fill_range (unat lba) (unat fat_sz) (sector_buf s) (sect (disk s)))
       (unat lba := put_at 0 mkfs_fat_head (sector_buf s))"
proof -
  obtain a where a: "mkfs_fill p (unat fat_sz) lba s = (0, s\<lparr>disk := a\<rparr>)" "ready a"
    "sect a = fill_range (unat lba) (unat fat_sz) (sector_buf s) (sect (disk s))"
    using mkfs_fill_ok [OF assms(1,2)] by blast
  have in_cap: "unat lba < cap" using assms(2,3) by simp
  have ok1: "buf_ok (s\<lparr>disk := a\<rparr>)" using assms(1) a(2) by (simp add: buf_ok_def)
  obtain a2 where a2: "load_sector p lba (s\<lparr>disk := a\<rparr>) = (0, s\<lparr>disk := a, sector_buf := sect a (unat lba), disk := a2\<rparr>)"
    "ready a2" "sect a2 = sect a"
    using load_ok [OF ok1 in_cap] by auto
  have head: "sect a (unat lba) = sector_buf s" using a(3) assms(3) by (simp add: fill_range_def)
  let ?s3 = "s\<lparr>sector_buf := put_at 0 mkfs_fat_head (sector_buf s), disk := a2\<rparr>"
  have "buf_ok ?s3" using assms(1) a2(2) by (simp add: buf_ok_def)
  from this in_cap obtain a3 where a3: "store_sector p lba ?s3 = (0, ?s3\<lparr>disk := a3\<rparr>)" "ready a3"
    "sect a3 = (sect (disk ?s3))(unat lba := sector_buf ?s3)" by (rule store_ok)
  have order: "s\<lparr>disk := a2, sector_buf := bs\<rparr> = s\<lparr>sector_buf := bs, disk := a2\<rparr>" for bs by (cases s) simp
  from a a2 a3 head show thesis by (intro that [of a3]) (simp_all add: mkfs_fat_def order)
qed

end

section \<open>The boot sector\<close>

text \<open>A sector built by a list of stores, and the byte the last store at a place leaves.\<close>

definition stores_fit :: "nat \<Rightarrow> (nat \<times> u8 list) list \<Rightarrow> bool" where
  "stores_fit n ps \<longleftrightarrow> list_all (\<lambda>(off, bs). off + length bs \<le> n) ps"

lemma length_stores: "stores_fit (length b) ps \<Longrightarrow> length (fold (\<lambda>(off, bs). put_at off bs) ps b) = length b"
  by (induction ps arbitrary: b) (auto simp: stores_fit_def)

lemma nth_stores:
  "stores_fit (length b) ps \<Longrightarrow> i < length b \<Longrightarrow>
   fold (\<lambda>(off, bs). put_at off bs) ps b ! i =
     fold (\<lambda>(off, bs) v. if off \<le> i \<and> i < off + length bs then bs ! (i - off) else v) ps (b ! i)"
proof (induction ps arbitrary: b)
  case (Cons q ps)
  then show ?case by (cases q) (auto simp: stores_fit_def nth_put_at)
qed simp

definition boot_stores :: "u32 \<Rightarrow> u32 \<Rightarrow> (nat \<times> u8 list) list" where
  "boot_stores part_lba size_sectors =
     [(0, [0xEB, 0x58, 0x90]), (3, bytes_of_string ''MSWIN4.1''), (11, bytes16 512), (13, [8]), (14, bytes16 32),
      (16, [2]), (17, bytes16 0), (19, bytes16 0), (21, [0xF8]), (22, bytes16 0), (24, bytes16 63),
      (26, bytes16 255), (28, bytes32 part_lba), (32, bytes32 size_sectors),
      (36, bytes32 (mkfs_fat_sz size_sectors)), (40, bytes16 0), (42, bytes16 0), (44, bytes32 2),
      (48, bytes16 1), (50, bytes16 6), (64, [0x80]), (66, [0x29]), (67, bytes32 0x12345678),
      (71, bytes_of_string ''MYKERNEL   ''), (82, bytes_of_string ''FAT32   ''), (510, [0x55, 0xAA])]"

lemma boot_sector_stores:
  "mkfs_boot_sector part_lba size_sectors = fold (\<lambda>(off, bs). put_at off bs) (boot_stores part_lba size_sectors) (replicate 512 0)"
  by (simp only: mkfs_boot_sector_def boot_stores_def SECTOR_SIZE_def)

lemma boot_stores_fit: "stores_fit 512 (boot_stores part_lba size_sectors)"
  by (simp add: stores_fit_def boot_stores_def bytes_of_string_def)

lemma length_boot_sector [simp]: "length (mkfs_boot_sector part_lba size_sectors) = 512"
  unfolding boot_sector_stores by (subst length_stores) (simp_all add: boot_stores_fit)

lemma length_info_sector [simp]: "length mkfs_info_sector = 512"
  unfolding mkfs_info_sector_def SECTOR_SIZE_def by (subst length_stores) (simp_all add: stores_fit_def)

lemma nth_boot_sector:
  "i < 512 \<Longrightarrow> mkfs_boot_sector part_lba size_sectors ! i =
     fold (\<lambda>(off, bs) v. if off \<le> i \<and> i < off + length bs then bs ! (i - off) else v) (boot_stores part_lba size_sectors) 0"
  unfolding boot_sector_stores by (subst nth_stores) (simp_all add: boot_stores_fit)

lemma boot_sector_fields:
  fixes part_lba size_sectors :: u32
  defines "b \<equiv> mkfs_boot_sector part_lba size_sectors"
  shows "bpb_bytes_per_sector b = 512" "bpb_sectors_per_cluster b = 8" "bpb_reserved_sectors b = 32" "bpb_num_fats b = 2"
    "bpb_total_sectors_16 b = 0" "bpb_total_sectors_32 b = size_sectors" "bpb_fat_size_32 b = mkfs_fat_sz size_sectors"
    "bpb_root_cluster b = 2" "bpb_boot_signature b = 0x29"
  unfolding b_def le16_def le32_def
  by (simp_all add: nth_boot_sector boot_stores_def bytes_of_string_def)
     (simp_all add: bytes16_def bytes32_def join_bytes32)

section \<open>Formatting\<close>

text \<open>The sectors of the disk after \<open>fat32_mkfs\<close>: boot sector, information sector, the first
  table, the second one, and the empty root directory.\<close>

definition mkfs_sectors :: "u32 \<Rightarrow> u32 \<Rightarrow> (nat \<Rightarrow> u8 list) \<Rightarrow> nat \<Rightarrow> u8 list" where
  "mkfs_sectors part_lba size_sectors D =
     (let l = unat part_lba; f = unat (mkfs_fat_sz size_sectors) in
      put_sectors (l + 32 + 2 * f) 8 (replicate 4096 0)
        (fill_range (l + 32 + f) f fat_head_sector
          ((fill_range (l + 32) f (replicate 512 0) (D(l := mkfs_boot_sector part_lba size_sectors, l + 1 := mkfs_info_sector)))
             (l + 32 := fat_head_sector))))"

definition mkfs_size :: "u32 \<Rightarrow> u32" where
  "mkfs_size size_arg = (if size_arg < 2048 then 65536 else size_arg)"

lemma fill_range_head: "0 < n \<Longrightarrow> (fill_range l n bs D)(l := bs) = fill_range l n bs D"
  by (rule ext) (auto simp: fill_range_def)

context ata_disk
begin

lemma mkfs_addresses:
  fixes l f :: u32
  assumes "unat l + 32 + 2 * unat f + 8 \<le> cap"
  shows "unat (l + 1) = unat l + 1" "unat (l + 32) = unat l + 32" "unat (l + 32 + f) = unat l + 32 + unat f"
    "unat (l + 32 + 2 * f) = unat l + 32 + 2 * unat f"
proof -
  have "cap \<le> 268435456" using cap_28 by simp
  with assms have small: "unat l + 32 + 2 * unat f < 4294967296" by linarith
  then show "unat (l + 1) = unat l + 1" by (subst unat_add_small) simp_all
  show l32: "unat (l + 32) = unat l + 32" using small by (subst unat_add_small) simp_all
  then show "unat (l + 32 + f) = unat l + 32 + unat f" using small by (subst unat_add_small) simp_all
  have "unat (2 * f) = 2 * unat f" using small by (subst unat_mult_small) simp_all
  then show "unat (l + 32 + 2 * f) = unat l + 32 + 2 * unat f" using small l32 by (subst unat_add_small) simp_all
qed

lemma fat32_mkfs_ok:
  fixes l :: u32 and f :: u32
  assumes "ready (disk s)" "f = mkfs_fat_sz (mkfs_size size_arg)" "0 < unat f" "unat l + 32 + 2 * unat f + 8 \<le> cap"
  obtains bs a where "fat32_mkfs p l size_arg s =
      (FAT_OK, s\<lparr>mounted := False, partition_lba := l, sector_buf := bs, cluster_buf := replicate 4096 0, disk := a\<rparr>)"
    "length bs = 512" "ready a" "sect a = mkfs_sectors l (mkfs_size size_arg) (sect (disk s))"
proof -
  let ?D = "sect (disk s)" and ?boot = "mkfs_boot_sector l (mkfs_size size_arg)" and ?zero = "replicate 512 0 :: u8 list"
  note addr = mkfs_addresses [OF assms(4)]
  let ?s0 = "s\<lparr>sector_buf := ?boot\<rparr>"
  obtain a1 where a1: "store_sector p l ?s0 = (0, ?s0\<lparr>disk := a1\<rparr>)" "ready a1" "sect a1 = ?D(unat l := ?boot)"
    using store_ok [of ?s0 l] assms(1,4) by (auto simp: buf_ok_def)
  let ?s1 = "?s0\<lparr>disk := a1, sector_buf := mkfs_info_sector\<rparr>"
  obtain a2 where a2: "store_sector p (l + 1) ?s1 = (0, ?s1\<lparr>disk := a2\<rparr>)" "ready a2"
    "sect a2 = ?D(unat l := ?boot, unat l + 1 := mkfs_info_sector)"
    using store_ok [of ?s1 "l + 1"] a1(2,3) assms(4) addr(1) by (auto simp: buf_ok_def)
  let ?s2 = "?s1\<lparr>disk := a2, sector_buf := ?zero\<rparr>"
  obtain a3 where a3: "mkfs_fat p (l + 32) f ?s2 = (0, ?s2\<lparr>sector_buf := fat_head_sector, disk := a3\<rparr>)" "ready a3"
    "sect a3 = (fill_range (unat l + 32) (unat f) ?zero (sect a2))(unat l + 32 := fat_head_sector)"
    using mkfs_fat_ok [of ?s2 "l + 32" f] a2(2) assms(3,4) addr(2) by (auto simp: buf_ok_def fat_head_sector_def)
  let ?s3 = "?s2\<lparr>sector_buf := fat_head_sector, disk := a3\<rparr>"
  obtain a4 where a4: "mkfs_fat p (l + 32 + f) f ?s3 = (0, ?s3\<lparr>sector_buf := fat_head_sector, disk := a4\<rparr>)" "ready a4"
    "sect a4 = fill_range (unat l + 32 + unat f) (unat f) fat_head_sector (sect a3)"
    using mkfs_fat_ok [of ?s3 "l + 32 + f" f] a3(2) assms(3,4) addr(3)
    by (auto simp: buf_ok_def put_head_twice fill_range_head)
  obtain a5 where a5: "ata_write_sectors p (l + 32 + 2 * f) 8 (replicate 4096 0) a4 = (0, a5)" "ready a5"
    "sect a5 = put_sectors (unat l + 32 + 2 * unat f) 8 (replicate 4096 0) (sect a4)"
    using write_ok [of a4 8 "l + 32 + 2 * f" "replicate 4096 0"] a4(2) assms(4) addr(4) by auto
  have order: "?s3\<lparr>sector_buf := fat_head_sector, disk := a4, cluster_buf := replicate 4096 0, disk := a5, partition_lba := l, mounted := False\<rparr>
      = s\<lparr>mounted := False, partition_lba := l, sector_buf := fat_head_sector, cluster_buf := replicate 4096 0, disk := a5\<rparr>"
    by (cases s) simp
  have "fat32_mkfs p l size_arg s = (FAT_OK, ?s3\<lparr>sector_buf := fat_head_sector, disk := a4, cluster_buf := replicate 4096 0,
      disk := a5, partition_lba := l, mounted := False\<rparr>)"
    using ready_present [OF assms(1)] a1(1) a2(1) a3(1) a4(1) a5(1) assms(2)
    by (simp add: fat32_mkfs_def mkfs_size_def ata_present_def SECTOR_SIZE_def)
  then show thesis
    using that [of a5 fat_head_sector] a5(2,3) a4(3) a3(3) a2(3) assms(2) order
    by (simp add: mkfs_sectors_def Let_def)
qed

end

end
