(* ===== verification/Fat32_Props.thy ===== *)
theory Fat32_Props
  imports Fat32_Files
begin

text \<open>The FAT32 file system on a drive that follows the ATA protocol: a file written with
  \<open>fat32_write\<close> is the file \<open>fat32_read_file\<close> delivers. The volume is any geometry whose tables and
  clusters lie on the disk and whose root directory is a chain of clusters.\<close>

section \<open>A mounted volume\<close>

abbreviation vol_fat :: "drive fat32 \<Rightarrow> u32 \<Rightarrow> u32" where
  "vol_fat s \<equiv> fat_entry (drive_sect (disk s)) s"

abbreviation vol_data :: "drive fat32 \<Rightarrow> u32 \<Rightarrow> u8 list" where
  "vol_data s \<equiv> cluster_data (drive_sect (disk s)) s"

abbreviation vol_free :: "drive fat32 \<Rightarrow> u32 set" where
  "vol_free s \<equiv> free_set (drive_sect (disk s)) s"

definition volume_ok :: "nat \<Rightarrow> drive fat32 \<Rightarrow> u32 list \<Rightarrow> bool" where
  "volume_ok cap s rs \<longleftrightarrow> vol_ok (drive_ready cap) (min cap (2 ^ 28)) s \<and> mounted s
     \<and> root_dir (vol_fat s) (valid s) (vol_data s) (root_cluster s) rs"

definition not_directory :: "cstring \<Rightarrow> drive fat32 \<Rightarrow> u32 list \<Rightarrow> bool" where
  "not_directory name s rs \<longleftrightarrow>
     (case match_at (name_to_83 name) (located (vol_data s) rs) of
        None \<Rightarrow> True | Some t \<Rightarrow> de_attr (place_entry t) AND ATTR_DIRECTORY = 0)"

definition usable_name :: "cstring \<Rightarrow> bool" where
  "usable_name name \<longleftrightarrow> name \<noteq> [] \<and> name_to_83 name ! 0 \<noteq> 0 \<and> name_to_83 name ! 0 \<noteq> 0xE5"

section \<open>Writing and reading back\<close>

lemma volume_write_read:
  assumes "volume_ok cap s rs" "old_chain_ok (vol_fat s) (valid s) (vol_data s) rs name" "usable_name name"
    "not_directory name s rs" "length txt \<le> WRITE_MAX_BYTES"
    "length txt + cluster_bytes s \<le> card (vol_free s) * cluster_bytes s" "0 < n"
  shows "\<exists>s' s''. fat32_write pio name txt s = Some (FAT_OK, s')
     \<and> fat32_read_file pio name n s' = Some (FAT_OK, take n (map byte_of_char txt), min n (length txt), s'')"
proof -
  have vol: "vol_ok (drive_ready cap) (min cap (2 ^ 28)) s" "mounted s"
    "root_dir (vol_fat s) (valid s) (vol_data s) (root_cluster s) rs" "name \<noteq> []"
    using assms(1,3) by (simp_all add: volume_ok_def usable_name_def)
  obtain r s' where w: "fat32_write pio name txt s = Some (r, s')" "r \<in> {FAT_OK, FAT_ERR_NO_SPACE, FAT_ERR_IS_DIR}"
    "r = FAT_ERR_NO_SPACE \<longrightarrow> card (vol_free s) * cluster_bytes s < length txt + cluster_bytes s"
    "r = FAT_ERR_IS_DIR \<longrightarrow> (\<exists>t. match_at (name_to_83 name) (located (vol_data s) rs) = Some t
       \<and> de_attr (place_entry t) AND ATTR_DIRECTORY \<noteq> 0)"
    "r = FAT_OK \<longrightarrow> pio_disk.file_written cap s name (map byte_of_char txt) s'"
    using pio_disk.fat32_write_ok [OF vol(1-3) assms(2) vol(4) assms(5)] by metis
  have "r = FAT_OK" using w(2-4) assms(4,6) by (auto simp: not_directory_def)
  moreover have "length (map byte_of_char txt) < 2 ^ 32" using assms(5) by (simp add: WRITE_MAX_BYTES_def)
  ultimately obtain s'' where
    "fat32_read_file pio name n s' = Some (FAT_OK, take n (map byte_of_char txt), min n (length (map byte_of_char txt)), s'')"
    using pio_disk.file_written_read w(5) vol(2) assms(3,7) unfolding usable_name_def by metis
  with w(1) \<open>r = FAT_OK\<close> show ?thesis by simp
qed

text \<open>C19. On a mounted volume with a cluster more than the text needs, \<open>fat32_write\<close> succeeds for every usable name
  that is not a directory, and \<open>fat32_read_file\<close> with a buffer of any size then delivers the text, cut
  to the size of the buffer, whether the file was new or is written again.\<close>

theorem fat32_write_read:
  assumes "volume_ok cap s rs" "old_chain_ok (vol_fat s) (valid s) (vol_data s) rs name" "usable_name name"
    "not_directory name s rs" "length txt \<le> WRITE_MAX_BYTES"
    "length txt + cluster_bytes s \<le> card (vol_free s) * cluster_bytes s" "0 < n"
  shows "\<exists>s' s''. fat32_write pio name txt s = Some (FAT_OK, s')
     \<and> fat32_read_file pio name n s' = Some (FAT_OK, take n (map byte_of_char txt), min n (length txt), s'')"
  using assms by (rule volume_write_read)

section \<open>A small volume\<close>

text \<open>One sector of table, eight clusters of one sector, an empty root directory.\<close>

definition demo_fat :: "nat \<Rightarrow> u8 list" where
  "demo_fat k = (if k = 1 then replicate 8 0 @ bytes32 0x0FFFFFFF @ replicate 500 0 else replicate 512 0)"

definition demo_volume :: "drive fat32" where
  "demo_volume = \<lparr>mounted = True, partition_lba = 0, fat_start = 1, data_start = 2, root_cluster = 2,
     sectors_per_cluster = 1, fat_size_sectors = 1, num_fats = 1, total_clusters = 8,
     sector_buf = replicate 512 0, cluster_buf = replicate 4096 0,
     disk = demo_drive\<lparr>hw := (hw demo_drive)\<lparr>platter := demo_fat\<rparr>\<rparr>\<rparr>"

lemma demo_volume_simps [simp]:
  "drive_sect (disk demo_volume) = demo_fat" "mounted demo_volume"
  "root_cluster demo_volume = 2" "cluster_bytes demo_volume = 512" "valid demo_volume c \<longleftrightarrow> 2 \<le> unat c \<and> unat c < 10"
  by (simp_all add: demo_volume_def cluster_bytes_def valid_def SECTOR_SIZE_def)

lemma demo_entry: "fat_entry demo_fat demo_volume c = (if c = 2 then EOC else 0)"
proof (cases "unat c < 10")
  case True
  have two: "unat c = 2 \<longleftrightarrow> c = 2" by (simp add: word_unat_eq_iff)
  have "fat_entry demo_fat demo_volume c = le32 (demo_fat 1) (4 * unat c) AND 0x0FFFFFFF"
    using True by (simp add: fat_entry_def demo_volume_def)
  also have "\<dots> = (if unat c = 2 then EOC else 0)"
    using True by (auto simp: le32_def bytes32_def demo_fat_def nth_append nth_Cons')
  finally show ?thesis by (simp only: two)
next
  case False
  then have "c \<noteq> 2" by auto
  with False show ?thesis by (simp add: fat_entry_def demo_volume_def)
qed

lemma demo_root: "cluster_data demo_fat demo_volume 2 = replicate 512 0"
  by (simp add: cluster_data_def sectors_at_def clus_lba_def demo_fat_def) (simp add: demo_volume_def)

lemma tail_zero_zeros: "(\<And>e. e \<in> set es \<Longrightarrow> e ! 0 = 0) \<Longrightarrow> tail_zero es"
  by (induction es) auto

lemma demo_volume_ok: "volume_ok 4096 demo_volume [2]"
proof -
  have "length (demo_fat k) = 512" for k by (simp add: demo_fat_def)
  then have "drive_ready 4096 (disk demo_volume)"
    using demo_drive_ready by (simp add: drive_ready_def demo_volume_def)
  then have "vol_ok (drive_ready 4096) (min 4096 (2 ^ 28)) demo_volume"
    by (simp add: vol_ok_def geometry_ok_def) (simp add: demo_volume_def)
  moreover have "tail_zero (dirents (vol_data demo_volume) [2])"
    by (rule tail_zero_zeros) (auto simp: dirents_def demo_root)
  ultimately show ?thesis by (simp add: volume_ok_def root_dir_def demo_entry)
qed

lemma demo_no_match: "match_at w (located (cluster_data demo_fat demo_volume) [2]) = None"
  by (auto simp: match_at_def demo_root find_None_iff slot_match_def)

lemma demo_free: "3 \<le> card (vol_free demo_volume)"
proof -
  have "{3, 4, 5} \<subseteq> vol_free demo_volume" by (simp add: free_set_def demo_entry)
  then have "card {3 :: u32, 4, 5} \<le> card (vol_free demo_volume)" by (intro card_mono) simp_all
  then show ?thesis by simp
qed

theorem fat32_write_read_witness:
  "\<exists>s' s''. fat32_write pio ''notes.txt'' (replicate 600 CHR ''x'') demo_volume = Some (FAT_OK, s')
     \<and> fat32_read_file pio ''notes.txt'' 1000 s' = Some (FAT_OK, replicate 600 0x78, 600, s'')"
proof -
  have "usable_name ''notes.txt''" by code_simp
  moreover have "length (replicate 600 CHR ''x'') + cluster_bytes demo_volume \<le> card (vol_free demo_volume) * cluster_bytes demo_volume"
    using demo_free by simp
  ultimately show ?thesis
    using fat32_write_read [OF demo_volume_ok, of "''notes.txt''" "replicate 600 CHR ''x''" 1000]
    by (simp add: old_chain_ok_def not_directory_def demo_no_match WRITE_MAX_BYTES_def byte_of_char_def
        del: located_simps)
qed

end
