(* ===== verification/Fat32_Format.thy ===== *)
theory Fat32_Format
  imports Fat32_Mkfs Fat32_Props
begin

text \<open>Formatting a partition and mounting it: the volume that \<open>fat32_mount\<close> reads from the boot sector
  written by \<open>fat32_mkfs\<close> is well formed, its root directory is empty and every other cluster is free,
  whenever the table computed by \<open>fat32_mkfs\<close> has an entry for every cluster.\<close>

section \<open>The size of the table\<close>

definition table_sectors :: "nat \<Rightarrow> nat" where
  "table_sectors clusters = (clusters * 4 + 511) div 512"

definition mkfs_table :: "nat \<Rightarrow> nat" where
  "mkfs_table n = table_sectors ((n - 32 - 2 * table_sectors ((n - 32) div 8)) div 8)"

definition mkfs_clusters :: "nat \<Rightarrow> nat" where
  "mkfs_clusters n = (n - 32 - 2 * mkfs_table n) div 8"

lemma table_sectors_bound: "512 * table_sectors c \<le> 4 * c + 511"
  by (simp add: table_sectors_def)

lemma table_sectors_pos: "0 < c \<Longrightarrow> 0 < table_sectors c"
  by (simp add: table_sectors_def div_greater_zero_iff)

lemma unat_table:
  fixes c :: u32
  assumes "unat c < 2 ^ 29"
  shows "unat ((c * 4 + 511) div 512) = table_sectors (unat c)"
proof -
  have "unat (c * 4) = unat c * 4" using assms by (subst unat_mult_small) simp_all
  moreover from this have "unat (c * 4 + 511) = unat c * 4 + 511" using assms by (subst unat_add_small) simp_all
  ultimately show ?thesis by (simp add: table_sectors_def unat_div_distrib)
qed

lemma mkfs_table_bounds:
  assumes "2048 \<le> n"
  shows "0 < mkfs_table n" "32 + 2 * mkfs_table n + 8 * mkfs_clusters n \<le> n" "32 + 2 * mkfs_table n + 8 \<le> n" "0 < mkfs_clusters n"
proof -
  let ?f = "table_sectors ((n - 32) div 8)" and ?c = "(n - 32 - 2 * table_sectors ((n - 32) div 8)) div 8"
  have f: "512 * ?f \<le> 4 * ((n - 32) div 8) + 511" by (rule table_sectors_bound)
  then have "2 * ?f + 16 \<le> n - 32" using assms by linarith
  then have c: "0 < ?c" by linarith
  then show "0 < mkfs_table n" using table_sectors_pos by (simp add: mkfs_table_def)
  have t: "512 * mkfs_table n \<le> 4 * ?c + 511" by (simp add: mkfs_table_def table_sectors_bound)
  have "8 * ?c \<le> n - 32" by linarith
  with t have m: "2 * mkfs_table n + 16 \<le> n - 32" using assms by linarith
  then show "32 + 2 * mkfs_table n + 8 \<le> n" "0 < mkfs_clusters n" unfolding mkfs_clusters_def using assms by linarith+
  show "32 + 2 * mkfs_table n + 8 * mkfs_clusters n \<le> n" unfolding mkfs_clusters_def using m by linarith
qed

lemma unat_mkfs_fat_sz:
  fixes n :: u32
  assumes "2048 \<le> unat n" "unat n \<le> 2 ^ 28"
  shows "unat (mkfs_fat_sz n) = mkfs_table (unat n)"
proof -
  have sub: "unat (n - 32) = unat n - 32" using assms by (subst unat_sub) (simp_all add: word_le_nat_alt)
  then have c: "unat ((n - 32) div 8) = (unat n - 32) div 8" by (simp add: unat_div_distrib)
  let ?f = "((n - 32) div 8 * 4 + 511) div 512"
  have f: "unat ?f = table_sectors ((unat n - 32) div 8)"
    unfolding c [symmetric] using c assms by (intro unat_table) simp
  have bound: "512 * table_sectors ((unat n - 32) div 8) \<le> 4 * ((unat n - 32) div 8) + 511" by (rule table_sectors_bound)
  then have le: "2 * table_sectors ((unat n - 32) div 8) \<le> unat n - 32" using assms(1) by linarith
  have pos: "\<not> ?f < 1" using f assms table_sectors_pos [of "(unat n - 32) div 8"] by (simp add: word_less_nat_alt)
  have "unat (2 * ?f) = 2 * unat ?f" using f bound assms by (subst unat_mult_small) simp_all
  moreover from this have "unat (n - 32 - 2 * ?f) = unat n - 32 - 2 * unat ?f"
    using sub f le by (subst unat_sub) (simp_all add: word_le_nat_alt)
  ultimately have d: "unat ((n - 32 - 2 * ?f) div 8) = (unat n - 32 - 2 * table_sectors ((unat n - 32) div 8)) div 8"
    using f by (simp add: unat_div_distrib)
  with pos show ?thesis
    unfolding mkfs_fat_sz_def mkfs_table_def d [symmetric] Let_def using assms d by (simp add: unat_table)
qed

section \<open>The formatted sectors\<close>

lemma mkfs_sectors_at:
  fixes l n :: u32
  defines "f \<equiv> unat (mkfs_fat_sz n)"
  assumes "0 < f"
  shows "mkfs_sectors l n D (unat l) = mkfs_boot_sector l n"
    "k < f \<Longrightarrow> mkfs_sectors l n D (unat l + 32 + k) = (if k = 0 then fat_head_sector else replicate 512 0)"
    "k < f \<Longrightarrow> mkfs_sectors l n D (unat l + 32 + f + k) = fat_head_sector"
    "sectors_at (mkfs_sectors l n D) (unat l + 32 + 2 * f) 8 = replicate 4096 0"
proof -
  let ?E = "fill_range (unat l + 32 + f) f fat_head_sector
    ((fill_range (unat l + 32) f (replicate 512 0) (D(unat l := mkfs_boot_sector l n, unat l + 1 := mkfs_info_sector)))
       (unat l + 32 := fat_head_sector))"
  have m: "mkfs_sectors l n D = put_sectors (unat l + 32 + 2 * f) 8 (replicate 4096 0) ?E"
    by (simp only: mkfs_sectors_def Let_def f_def)
  show "mkfs_sectors l n D (unat l) = mkfs_boot_sector l n"
    "k < f \<Longrightarrow> mkfs_sectors l n D (unat l + 32 + k) = (if k = 0 then fat_head_sector else replicate 512 0)"
    "k < f \<Longrightarrow> mkfs_sectors l n D (unat l + 32 + f + k) = fat_head_sector"
    unfolding m by (auto simp: put_sectors_def fill_range_def)
  show "sectors_at (mkfs_sectors l n D) (unat l + 32 + 2 * f) 8 = replicate 4096 0"
    unfolding m by (subst sectors_at_put) simp_all
qed

lemma head_entry:
  "i < 128 \<Longrightarrow> le32 fat_head_sector (4 * i) AND 0x0FFFFFFF = (if i = 0 then 0x0FFFFFF8 else if i \<le> 2 then EOC else 0)"
proof (cases "i \<le> 2")
  case True
  then have "i = 0 \<or> i = 1 \<or> i = 2" by linarith
  then show ?thesis by (auto simp: le32_def fat_head_sector_def mkfs_fat_head_def put_at_def nth_append)
next
  case False
  assume "i < 128"
  with False show ?thesis by (auto simp: le32_def fat_head_sector_def mkfs_fat_head_def put_at_def nth_append nth_Cons')
qed

section \<open>Mounting\<close>

text \<open>The state that the boot sector of a formatted partition describes.\<close>

definition mounted_at :: "u32 \<Rightarrow> u32 \<Rightarrow> 'd fat32 \<Rightarrow> bool" where
  "mounted_at l n s \<longleftrightarrow> mounted s \<and> partition_lba s = l \<and> fat_start s = 32 \<and> sectors_per_cluster s = 8 \<and> num_fats s = 2
     \<and> root_cluster s = 2 \<and> fat_size_sectors s = mkfs_fat_sz n \<and> unat (data_start s) = 32 + 2 * mkfs_table (unat n)
     \<and> unat (total_clusters s) = mkfs_clusters (unat n)"

lemma unat_mkfs_geometry:
  fixes n :: u32
  assumes "2048 \<le> unat n" "unat n \<le> 2 ^ 28"
  shows "unat (32 + 2 * mkfs_fat_sz n) = 32 + 2 * mkfs_table (unat n)" "32 + 2 * mkfs_fat_sz n < n"
    "unat ((n - (32 + 2 * mkfs_fat_sz n)) div 8) = mkfs_clusters (unat n)" "mkfs_fat_sz n \<noteq> 0"
proof -
  note f = unat_mkfs_fat_sz [OF assms] and b = mkfs_table_bounds [OF assms(1)]
  have "unat (2 * mkfs_fat_sz n) = 2 * mkfs_table (unat n)" using f b(3) assms(2) by (subst unat_mult_small) simp_all
  then show d: "unat (32 + 2 * mkfs_fat_sz n) = 32 + 2 * mkfs_table (unat n)"
    using b(3) assms(2) by (subst unat_add_small) simp_all
  with b(3) show less: "32 + 2 * mkfs_fat_sz n < n" by (simp add: word_less_nat_alt)
  have "unat (n - (32 + 2 * mkfs_fat_sz n)) = unat n - unat (32 + 2 * mkfs_fat_sz n)"
    using less by (intro unat_sub) simp
  then show "unat ((n - (32 + 2 * mkfs_fat_sz n)) div 8) = mkfs_clusters (unat n)"
    using d by (simp add: unat_div_distrib mkfs_clusters_def)
  show "mkfs_fat_sz n \<noteq> 0" using f b(1) by auto
qed

context ata_disk
begin

lemma try_mount_formatted:
  assumes "buf_ok s" "sect (disk s) (unat l) = mkfs_boot_sector l n" "2048 \<le> unat n" "unat n \<le> 2 ^ 28" "unat l < cap"
  obtains s' where "try_mount_at p l s = (0, s')" "mounted_at l n (s'\<lparr>mounted := True\<rparr>)" "ready (disk s')"
    "sect (disk s') = sect (disk s)" "length (sector_buf s') = 512" "cluster_buf s' = cluster_buf s"
proof -
  let ?b = "mkfs_boot_sector l n" and ?s0 = "s\<lparr>partition_lba := l\<rparr>"
  have ok: "buf_ok ?s0" using assms(1) by (simp add: buf_ok_def)
  obtain a where a: "load_sector p l ?s0 = (0, ?s0\<lparr>sector_buf := ?b, disk := a\<rparr>)" "ready a" "sect a = sect (disk s)"
    using load_ok [OF ok assms(5)] assms(2) by auto
  note g = unat_mkfs_geometry [OF assms(3,4)]
  let ?s1 = "?s0\<lparr>sector_buf := ?b, disk := a, sectors_per_cluster := 8, fat_size_sectors := mkfs_fat_sz n, num_fats := 2,
    fat_start := 32, data_start := 32 + 2 * mkfs_fat_sz n, root_cluster := 2,
    total_clusters := (n - (32 + 2 * mkfs_fat_sz n)) div 8\<rparr>"
  have "try_mount_at p l s = (0, ?s1)"
    unfolding try_mount_at_def Let_def read_sector_def using a(1) g(2,4) by (simp add: boot_sector_fields)
  then show thesis using that [of ?s1] a(2,3) g(1,3) by (simp add: mounted_at_def)
qed

lemma mount_formatted:
  assumes "buf_ok s" "partition_lba s = l" "l \<noteq> 0" "sect (disk s) (unat l) = mkfs_boot_sector l n"
    "2048 \<le> unat n" "unat n \<le> 2 ^ 28" "unat l < cap"
  obtains s' where "fat32_mount p s = (FAT_OK, s')" "mounted_at l n s'" "ready (disk s')" "sect (disk s') = sect (disk s)"
    "length (sector_buf s') = 512" "cluster_buf s' = cluster_buf s"
proof -
  let ?s0 = "s\<lparr>mounted := False, disk := disk s\<rparr>"
  have "buf_ok ?s0" "sect (disk ?s0) (unat l) = mkfs_boot_sector l n" using assms(1,4) by (simp_all add: buf_ok_def)
  then obtain s1 where s1: "try_mount_at p l ?s0 = (0, s1)" "mounted_at l n (s1\<lparr>mounted := True\<rparr>)" "ready (disk s1)"
    "sect (disk s1) = sect (disk ?s0)" "length (sector_buf s1) = 512" "cluster_buf s1 = cluster_buf ?s0"
    using assms(5-7) by (rule try_mount_formatted)
  have "ata_present (disk s)" using ready_present assms(1) by (simp add: ata_present_def buf_ok_def)
  then have "fat32_mount p s = (FAT_OK, s1\<lparr>mounted := True\<rparr>)"
    using s1(1) assms(2,3) by (simp add: fat32_mount_def Let_def)
  then show thesis using that [of "s1\<lparr>mounted := True\<rparr>"] s1(2-6) by simp
qed

end

section \<open>The volume of a fresh partition\<close>

definition table_fits :: "nat \<Rightarrow> bool" where
  "table_fits n \<longleftrightarrow> 4 * (mkfs_clusters n + 2) \<le> 512 * mkfs_table n"

lemma formatted_geometry:
  assumes "mounted_at l n s" "2048 \<le> unat n" "unat n \<le> 2 ^ 28" "unat l + unat n \<le> cap" "table_fits (unat n)"
    "length (sector_buf s) = 512" "length (cluster_buf s) = 4096"
  shows "geometry_ok cap s"
  using assms mkfs_table_bounds [OF assms(2)] unat_mkfs_fat_sz [OF assms(2,3)]
  by (auto simp: geometry_ok_def mounted_at_def table_fits_def)

lemma formatted_entry:
  assumes "mounted_at l n s" "2048 \<le> unat n" "unat n \<le> 2 ^ 28" "table_fits (unat n)" "valid s c"
  shows "fat_entry (mkfs_sectors l n D) s c = (if c = 2 then EOC else 0)"
proof -
  note f = unat_mkfs_fat_sz [OF assms(2,3)] and b = mkfs_table_bounds [OF assms(2)]
  have c: "2 \<le> unat c" "unat c < mkfs_clusters (unat n) + 2" using assms(1,5) by (simp_all add: valid_def mounted_at_def)
  then have "4 * (unat c + 1) \<le> 512 * mkfs_table (unat n)" using assms(4) by (simp add: table_fits_def)
  then have "unat c < mkfs_table (unat n) * 128" by simp
  then have k: "unat c div 128 < unat (mkfs_fat_sz n)" using f by (simp add: less_mult_imp_div_less)
  have "mkfs_sectors l n D (unat l + 32 + unat c div 128) = (if unat c div 128 = 0 then fat_head_sector else replicate 512 0)"
    using b(1) f k by (intro mkfs_sectors_at(2)) simp_all
  then have e: "fat_entry (mkfs_sectors l n D) s c =
      le32 (if unat c < 128 then fat_head_sector else replicate 512 0) (4 * (unat c mod 128)) AND 0x0FFFFFFF"
    using assms(1) c by (simp add: fat_entry_def mounted_at_def div_eq_0_iff)
  have two: "unat c = 2 \<longleftrightarrow> c = 2" by (simp add: word_unat_eq_iff)
  show ?thesis
  proof (cases "unat c < 128")
    case True
    then show ?thesis using e c(1) two by (auto simp: head_entry)
  next
    case False
    have "unat c mod 128 < 128" by simp
    then have "le32 (replicate 512 0) (4 * (unat c mod 128)) = 0" by (simp add: le32_def)
    with False two show ?thesis using e by auto
  qed
qed

lemma formatted_root:
  assumes "mounted_at l n s" "2048 \<le> unat n" "unat n \<le> 2 ^ 28"
  shows "cluster_data (mkfs_sectors l n D) s 2 = replicate 4096 0"
proof -
  have "cluster_data (mkfs_sectors l n D) s 2 = sectors_at (mkfs_sectors l n D) (unat l + 32 + 2 * unat (mkfs_fat_sz n)) 8"
    using assms mkfs_table_bounds(4) [OF assms(2)] unat_mkfs_fat_sz [OF assms(2,3)]
    by (simp add: cluster_data_def clus_lba_def valid_def mounted_at_def add.assoc)
  also have "\<dots> = replicate 4096 0"
    using mkfs_table_bounds(1) [OF assms(2)] unat_mkfs_fat_sz [OF assms(2,3)] by (intro mkfs_sectors_at(4)) simp
  finally show ?thesis .
qed

lemma zeros_no_match:
  assumes "C x = replicate k 0" "32 dvd k"
  shows "match_at w (located C [x]) = None" "tail_zero (dirents C [x])"
proof -
  have "C x ! (32 * i) = 0" if "i < length (C x) div 32" for i
    using that assms by (auto simp: dvd_def)
  then show "match_at w (located C [x]) = None" "tail_zero (dirents C [x])"
    by (auto simp: match_at_def find_None_iff slot_match_def dirents_def intro!: tail_zero_zeros)
qed

lemma card_valid: "unat (total_clusters s) + 2 < 2 ^ 32 \<Longrightarrow> card {c. valid s c} = unat (total_clusters s)"
proof -
  assume small: "unat (total_clusters s) + 2 < 2 ^ 32"
  have same: "take_bit 32 x = x" if "x < unat (total_clusters s) + 2" for x
    using small that by (simp add: take_bit_nat_eq_self_iff)
  have "bij_betw unat {c. valid s c} {2..<unat (total_clusters s) + 2}"
    by (rule bij_betw_byWitness [where f' = "of_nat"]) (use same in \<open>auto simp: valid_def unsigned_of_nat\<close>)
  then show ?thesis by (auto dest: bij_betw_same_card)
qed

lemma mkfs_sectors_outside:
  assumes "2048 \<le> unat n" "unat n \<le> 2 ^ 28" "k < unat l \<or> unat l + unat n \<le> k"
  shows "mkfs_sectors l n D k = D k"
  using assms mkfs_table_bounds [OF assms(1)] unat_mkfs_fat_sz [OF assms(1,2)]
  by (auto simp: mkfs_sectors_def Let_def put_sectors_def fill_range_def)

lemma formatted_volume:
  assumes "mounted_at l n s" "2048 \<le> unat n" "unat l + unat n \<le> min cap (2 ^ 28)" "table_fits (unat n)"
    "length (sector_buf s) = 512" "cluster_buf s = replicate 4096 0" "drive_ready cap (disk s)"
    "drive_sect (disk s) = mkfs_sectors l n D"
  shows "volume_ok cap s [2]" "match_at w (located (vol_data s) [2]) = None" "card (vol_free s) = mkfs_clusters (unat n) - 1"
    "cluster_bytes s = 4096"
proof -
  have n: "unat n \<le> 2 ^ 28" using assms(3) by simp
  have "geometry_ok (min cap (2 ^ 28)) s" using formatted_geometry assms(1-6) n by fastforce
  then have vol: "vol_ok (drive_ready cap) (min cap (2 ^ 28)) s" using assms(7) by (simp add: vol_ok_def)
  have root: "vol_data s 2 = replicate 4096 0" unfolding assms(8) using assms(1,2) n by (rule formatted_root)
  have empty: "match_at w (located (vol_data s) [2]) = None" "tail_zero (dirents (vol_data s) [2])" for w
    using zeros_no_match [where C = "vol_data s" and x = 2, OF root] by simp_all
  have "valid s 2" using assms(1) mkfs_table_bounds(4) [OF assms(2)] by (simp add: valid_def mounted_at_def)
  moreover have entry: "vol_fat s c = (if c = 2 then EOC else 0)" if "valid s c" for c
    unfolding assms(8) using assms(1,2) n assms(4) that by (rule formatted_entry)
  ultimately show "volume_ok cap s [2]"
    using vol empty(2) assms(1) by (simp add: volume_ok_def root_dir_def mounted_at_def)
  show "match_at w (located (vol_data s) [2]) = None" by (rule empty)
  have "vol_free s = {c. valid s c} - {2}" using entry by (auto simp: free_set_def)
  moreover have "card {c. valid s c} = mkfs_clusters (unat n)"
    using assms(1) mkfs_table_bounds(2) [OF assms(2)] n by (subst card_valid) (simp_all add: mounted_at_def)
  ultimately show "card (vol_free s) = mkfs_clusters (unat n) - 1" using \<open>valid s 2\<close> by simp
  show "cluster_bytes s = 4096" using assms(1) by (simp add: mounted_at_def cluster_bytes_def SECTOR_SIZE_def)
qed

lemma pio_mkfs:
  assumes "drive_ready cap (disk s)" "2048 \<le> unat n" "unat l + unat n \<le> min cap (2 ^ 28)"
  obtains s' where "fat32_mkfs pio l n s = (FAT_OK, s')" "drive_ready cap (disk s')" "partition_lba s' = l"
    "drive_sect (disk s') = mkfs_sectors l n (drive_sect (disk s))" "length (sector_buf s') = 512"
    "cluster_buf s' = replicate 4096 0"
proof -
  have n: "unat n \<le> 2 ^ 28" using assms(3) by simp
  note b = mkfs_table_bounds [OF assms(2)] and f = unat_mkfs_fat_sz [OF assms(2) n]
  have sz: "mkfs_size n = n" using assms(2) by (simp add: mkfs_size_def word_less_nat_alt)
  have pre: "0 < unat (mkfs_fat_sz (mkfs_size n))" "unat l + 32 + 2 * unat (mkfs_fat_sz (mkfs_size n)) + 8 \<le> min cap (2 ^ 28)"
    using b(1,3) f sz assms(3) by simp_all
  obtain bs a where "fat32_mkfs pio l n s = (FAT_OK, s\<lparr>mounted := False, partition_lba := l, sector_buf := bs,
      cluster_buf := replicate 4096 0, disk := a\<rparr>)" "length bs = 512" "drive_ready cap a"
    "drive_sect a = mkfs_sectors l n (drive_sect (disk s))"
    using pio_disk.fat32_mkfs_ok [OF assms(1) refl pre] unfolding sz by metis
  then show thesis using that by simp
qed

text \<open>C20. Formatting a partition of at least 2048 sectors that lies on the disk and mounting it succeeds,
  changes no sector outside the partition and gives an empty volume on which every cluster but the root is free;
  a text then written under any usable name is read back. The size must be one for which the computed
  table has an entry for every cluster.\<close>

theorem fat32_format_write_read:
  assumes "drive_ready cap (disk s)" "l \<noteq> 0" "2048 \<le> unat n" "unat l + unat n \<le> min cap (2 ^ 28)" "table_fits (unat n)"
    "usable_name name" "length txt \<le> WRITE_MAX_BYTES" "3 \<le> mkfs_clusters (unat n)" "0 < k"
  shows "\<exists>s1 s2 s3 s4. fat32_mkfs pio l n s = (FAT_OK, s1) \<and> fat32_mount pio s1 = (FAT_OK, s2) \<and> volume_ok cap s2 [2]
     \<and> (\<forall>i. i < unat l \<or> unat l + unat n \<le> i \<longrightarrow> drive_sect (disk s2) i = drive_sect (disk s) i)
     \<and> card (vol_free s2) = mkfs_clusters (unat n) - 1
     \<and> fat32_write pio name txt s2 = Some (FAT_OK, s3)
     \<and> fat32_read_file pio name k s3 = Some (FAT_OK, take k (map byte_of_char txt), min k (length txt), s4)"
proof -
  have n: "unat n \<le> 2 ^ 28" using assms(4) by simp
  obtain s1 where m: "fat32_mkfs pio l n s = (FAT_OK, s1)" "drive_ready cap (disk s1)" "partition_lba s1 = l"
    "drive_sect (disk s1) = mkfs_sectors l n (drive_sect (disk s))" "length (sector_buf s1) = 512"
    "cluster_buf s1 = replicate 4096 0"
    using assms(1,3,4) by (rule pio_mkfs)
  have "drive_sect (disk s1) (unat l) = mkfs_boot_sector l n"
    using m(4) mkfs_table_bounds(1) [OF assms(3)] unat_mkfs_fat_sz [OF assms(3) n] by (simp add: mkfs_sectors_at(1))
  then obtain s2 where s2: "fat32_mount pio s1 = (FAT_OK, s2)" "mounted_at l n s2" "drive_ready cap (disk s2)"
    "drive_sect (disk s2) = drive_sect (disk s1)" "length (sector_buf s2) = 512" "cluster_buf s2 = cluster_buf s1"
    using pio_disk.mount_formatted [of cap s1 l n] m(2,3,5) assms(2,3,4) n by (auto simp: pio_disk.buf_ok_def)
  have vol: "volume_ok cap s2 [2]" "match_at w (located (vol_data s2) [2]) = None"
    "card (vol_free s2) = mkfs_clusters (unat n) - 1" "cluster_bytes s2 = 4096" for w
    using formatted_volume [OF s2(2) assms(3,4,5) s2(5) _ s2(3)] s2(4,6) m(4,6) by simp_all
  have "old_chain_ok (vol_fat s2) (valid s2) (vol_data s2) [2] name" "not_directory name s2 [2]"
    by (simp_all only: old_chain_ok_def not_directory_def vol(2) option.case)
  moreover have "length txt + cluster_bytes s2 \<le> card (vol_free s2) * cluster_bytes s2"
    using vol(3,4) assms(7,8) by (simp add: WRITE_MAX_BYTES_def)
  ultimately obtain s3 s4 where "fat32_write pio name txt s2 = Some (FAT_OK, s3)"
    "fat32_read_file pio name k s3 = Some (FAT_OK, take k (map byte_of_char txt), min k (length txt), s4)"
    using volume_write_read [OF vol(1) _ assms(6) _ assms(7)] assms(9) by blast
  moreover have "drive_sect (disk s2) i = drive_sect (disk s) i" if "i < unat l \<or> unat l + unat n \<le> i" for i
    using mkfs_sectors_outside [OF assms(3) n that] s2(4) m(4) by simp
  ultimately show ?thesis using m(1) s2(1) vol(1,3) by blast
qed

text \<open>The default size has a table for every cluster; the computation forgets the two reserved entries, so
  that other sizes have not.\<close>

lemma mkfs_table_default: "table_fits 65536"
  by (simp add: table_fits_def mkfs_clusters_def mkfs_table_def table_sectors_def)

lemma mkfs_table_short: "\<not> table_fits 2076"
  by (simp add: table_fits_def mkfs_clusters_def mkfs_table_def table_sectors_def)

theorem fat32_format_write_read_witness:
  "\<exists>s1 s2 s3 s4. fat32_mkfs pio 63 2048 demo_volume = (FAT_OK, s1) \<and> fat32_mount pio s1 = (FAT_OK, s2)
     \<and> card (vol_free s2) = 250 \<and> fat32_write pio ''a.txt'' ''hello'' s2 = Some (FAT_OK, s3)
     \<and> fat32_read_file pio ''a.txt'' 100 s3 = Some (FAT_OK, map byte_of_char ''hello'', 5, s4)"
proof -
  have name: "usable_name ''a.txt''" by code_simp
  have ready: "drive_ready 4096 (disk demo_volume)" using demo_volume_ok by (simp add: volume_ok_def vol_ok_def)
  have fits: "table_fits (unat (2048 :: u32))" and cl: "mkfs_clusters (unat (2048 :: u32)) = 251"
    by (simp_all add: table_fits_def mkfs_clusters_def mkfs_table_def table_sectors_def)
  have "length ''hello'' \<le> WRITE_MAX_BYTES" by (simp add: WRITE_MAX_BYTES_def)
  from fat32_format_write_read [OF ready _ _ _ fits name this, of 63 100]
  obtain s1 s2 s3 s4 where "fat32_mkfs pio 63 2048 demo_volume = (FAT_OK, s1)" "fat32_mount pio s1 = (FAT_OK, s2)"
    "card (vol_free s2) = mkfs_clusters (unat (2048 :: u32)) - 1" "fat32_write pio ''a.txt'' ''hello'' s2 = Some (FAT_OK, s3)"
    "fat32_read_file pio ''a.txt'' 100 s3 = Some (FAT_OK, take 100 (map byte_of_char ''hello''), min 100 (length ''hello''), s4)"
    unfolding cl by auto
  moreover have "take 100 (map byte_of_char ''hello'') = map byte_of_char ''hello''" "min 100 (length ''hello'') = 5" by simp_all
  ultimately show ?thesis unfolding cl by (metis diff_Suc_1 eval_nat_numeral(3) numeral_eq_Suc diff_numeral_Suc)
qed

end
