(* ===== verification/Vfs.thy ===== *)
theory Vfs
  imports Ramfs_Path Fat32
begin

text \<open>
  The mount table of \<open>src/src/vfs.c\<close>: four mount points under one spin lock, resolution of a path
  by the longest mount point that contains it, and listing and printing through the table. The state
  holds the table, the lock, the two file systems and the terminal that the calls reach. A lock that
  is held is the value \<open>None\<close> of the operation, because the caller then spins forever.
\<close>

section \<open>Definitions\<close>

definition VFS_MAX_MOUNTS :: nat where "VFS_MAX_MOUNTS = 4"
definition VFS_MP_NAME_MAX :: nat where "VFS_MP_NAME_MAX = 16"

datatype vfs_fs_type = VFS_FS_NONE | VFS_FS_RAM | VFS_FS_FAT32

record vfs_mount_point =
  mp_used :: bool
  mp_path :: cstring
  mp_type :: vfs_fs_type

record 'd vfs =
  mounts :: "vfs_mount_point list"
  vfs_lock :: u32
  vfs_ram :: kfs
  vfs_fat :: "'d fat32"
  vfs_tty :: terminal

fun str_eq :: "cstring \<Rightarrow> cstring \<Rightarrow> bool" where
  "str_eq (a # as) (b # bs) = (if a = b then str_eq as bs else False)"
| "str_eq as bs = (as = [] \<and> bs = [])"

definition str_copy :: "cstring \<Rightarrow> nat \<Rightarrow> cstring" where
  "str_copy s mx = take (mx - 1) s"

definition unlock :: "'d vfs \<Rightarrow> 'd vfs" where
  "unlock s = s\<lparr>vfs_lock := spin_unlock (vfs_lock s)\<rparr>"

definition vfs_init :: "'d vfs \<Rightarrow> 'd vfs" where
  "vfs_init s =
     s\<lparr>vfs_lock := spin_init,
       mounts := (map (\<lambda>m. m\<lparr>mp_used := False\<rparr>) (mounts s))
         [0 := \<lparr>mp_used = True, mp_path = str_copy ''/'' VFS_MP_NAME_MAX, mp_type = VFS_FS_RAM\<rparr>]\<rparr>"

definition find_mount :: "cstring \<Rightarrow> vfs_mount_point list \<Rightarrow> nat option" where
  "find_mount path ms = scan (\<lambda>i. mp_used (ms ! i) \<and> str_eq (mp_path (ms ! i)) path) 0 VFS_MAX_MOUNTS"

definition vfs_mount :: "'d ports \<Rightarrow> cstring \<Rightarrow> vfs_fs_type \<Rightarrow> 'd vfs \<Rightarrow> (fs_result \<times> 'd vfs) option" where
  "vfs_mount p path ty s =
     (if path = [] \<or> hd path \<noteq> CHR ''/'' then Some (FS_ERR_INVALID_NAME, s)
      else if ty = VFS_FS_NONE then Some (FS_ERR_INVALID_NAME, s)
      else if str_eq path ''/'' then Some (FS_ERR_ALREADY_EXISTS, s)
      else do {
        l \<leftarrow> spin_lock (vfs_lock s);
        let s = s\<lparr>vfs_lock := l\<rparr> in
        if find_mount path (mounts s) \<noteq> None then Some (FS_ERR_ALREADY_EXISTS, unlock s)
        else
          let (r, f) = (if ty = VFS_FS_FAT32 \<and> \<not> fat32_is_mounted (vfs_fat s) then fat32_mount p (vfs_fat s)
                        else (FAT_OK, vfs_fat s));
              s = s\<lparr>vfs_fat := f\<rparr> in
          if r \<noteq> FAT_OK then Some (FS_ERR_NOT_FOUND, unlock s)
          else case scan (\<lambda>i. \<not> mp_used (mounts s ! i)) 0 VFS_MAX_MOUNTS of
            None \<Rightarrow> Some (FS_ERR_NO_SPACE, unlock s)
          | Some slot \<Rightarrow>
              let s = unlock (s\<lparr>mounts := (mounts s)[slot := \<lparr>mp_used = True, mp_path = str_copy path VFS_MP_NAME_MAX,
                                                            mp_type = ty\<rparr>]\<rparr>) in
              if ty = VFS_FS_FAT32 then do {
                (_, k) \<leftarrow> fs_mkdir_p path (vfs_ram s);
                Some (FS_OK, s\<lparr>vfs_ram := k\<rparr>)
              }
              else Some (FS_OK, s)
      })"

definition vfs_umount :: "cstring \<Rightarrow> 'd vfs \<Rightarrow> (fs_result \<times> 'd vfs) option" where
  "vfs_umount path s =
     (if str_eq path ''/'' then Some (FS_ERR_INVALID_NAME, s)
      else do {
        l \<leftarrow> spin_lock (vfs_lock s);
        let s = s\<lparr>vfs_lock := l\<rparr> in
        case find_mount path (mounts s) of
          None \<Rightarrow> Some (FS_ERR_NOT_FOUND, unlock s)
        | Some idx \<Rightarrow>
            Some (FS_OK, unlock (s\<lparr>mounts := (mounts s)[idx := \<lparr>mp_used = False, mp_path = [], mp_type = VFS_FS_NONE\<rparr>]\<rparr>))
      })"

definition type_line :: "vfs_fs_type \<Rightarrow> cstring" where
  "type_line ty = (case ty of VFS_FS_RAM \<Rightarrow> ''ramfs'' | VFS_FS_FAT32 \<Rightarrow> ''fat32'' | VFS_FS_NONE \<Rightarrow> ''?'') @ [CHR 0x0A]"

definition vfs_list :: "'d vfs \<Rightarrow> 'd vfs option" where
  "vfs_list s = do {
     l \<leftarrow> spin_lock (vfs_lock s);
     let s = s\<lparr>vfs_lock := l\<rparr>;
         t = terminal_writestring (''Mount table:'' @ [CHR 0x0A]) (vfs_tty s);
         t = fold (\<lambda>i t. if \<not> mp_used (mounts s ! i) then t
                         else terminal_writestring (type_line (mp_type (mounts s ! i)))
                           (terminal_writestring ''  ->  '' (terminal_writestring (mp_path (mounts s ! i))
                              (terminal_writestring ''  '' t)))) [0..<VFS_MAX_MOUNTS] t
     in Some (unlock (s\<lparr>vfs_tty := t\<rparr>))
   }"

text \<open>Does the mount point contain the path: it is a prefix and the path ends there or goes on with a
  slash; the root contains every path that starts with a slash.\<close>

definition mount_contains :: "cstring \<Rightarrow> cstring \<Rightarrow> bool" where
  "mount_contains mp path \<longleftrightarrow> take (length mp) path = mp
     \<and> (length path = length mp \<or> path ! length mp = CHR ''/'' \<or> length mp = 1 \<and> mp ! 0 = CHR ''/'')"

definition resolve_step :: "cstring \<Rightarrow> vfs_mount_point list \<Rightarrow> nat \<Rightarrow> nat option \<times> int \<Rightarrow> nat option \<times> int" where
  "resolve_step path ms i b =
     (let (best, best_len) = b; len = length (mp_path (ms ! i)) in
      if \<not> mp_used (ms ! i) then b
      else if \<not> mount_contains (mp_path (ms ! i)) path then b
      else if int len > best_len then (Some i, int len) else b)"

definition vfs_resolve :: "cstring \<Rightarrow> nat \<Rightarrow> 'd vfs \<Rightarrow> (vfs_fs_type \<times> cstring \<times> 'd vfs) option" where
  "vfs_resolve path rest_max s =
     (if path = [] then Some (VFS_FS_RAM, [], s)
      else do {
        l \<leftarrow> spin_lock (vfs_lock s);
        let s = s\<lparr>vfs_lock := l\<rparr>;
            (best, best_len) = fold (resolve_step path (mounts s)) [0..<VFS_MAX_MOUNTS] (None, -1) in
        case best of
          Some i \<Rightarrow>
            let rest = drop (nat best_len) path; rest = (if rest \<noteq> [] \<and> hd rest = CHR ''/'' then tl rest else rest) in
            Some (mp_type (mounts s ! i), str_copy rest rest_max, unlock s)
        | None \<Rightarrow> Some (VFS_FS_RAM, str_copy path rest_max, unlock s)
      })"

definition vfs_is_mounted :: "vfs_fs_type \<Rightarrow> 'd vfs \<Rightarrow> (bool \<times> 'd vfs) option" where
  "vfs_is_mounted ty s = do {
     l \<leftarrow> spin_lock (vfs_lock s);
     let s = s\<lparr>vfs_lock := l\<rparr> in
     Some (scan (\<lambda>i. mp_used (mounts s ! i) \<and> mp_type (mounts s ! i) = ty) 0 VFS_MAX_MOUNTS \<noteq> None, unlock s)
   }"

definition vfs_ls_path :: "'d ports \<Rightarrow> cstring \<Rightarrow> 'd vfs \<Rightarrow> 'd vfs option" where
  "vfs_ls_path p path s = do {
     (ty, rest, s) \<leftarrow> vfs_resolve path 64 s;
     if ty = VFS_FS_FAT32 then
       if \<not> fat32_is_mounted (vfs_fat s)
       then Some (s\<lparr>vfs_tty := terminal_writestring (''FAT32 not mounted'' @ [CHR 0x0A]) (vfs_tty s)\<rparr>)
       else do {
         (_, t, f) \<leftarrow> fat32_ls p (vfs_tty s) (vfs_fat s);
         Some (s\<lparr>vfs_tty := t, vfs_fat := f\<rparr>)
       }
     else
       let t = (if rest \<noteq> [] then terminal_writestring (''(ramfs) use: cd + ls  or absolute under /'' @ [CHR 0x0A]) (vfs_tty s)
                else vfs_tty s)
       in Some (s\<lparr>vfs_tty := fs_ls (fsc (vfs_ram s)) t\<rparr>)
   }"

text \<open>The content of a node as the C string that is printed: up to the first zero byte.\<close>

definition content_string :: "ramfs \<Rightarrow> nat \<Rightarrow> cstring" where
  "content_string c i = takeWhile (\<lambda>ch. ch \<noteq> NUL) (content (nodes c ! i))"

definition vfs_cat_path :: "'d ports \<Rightarrow> cstring \<Rightarrow> 'd vfs \<Rightarrow> 'd vfs option" where
  "vfs_cat_path p path s = do {
     (ty, rest, s) \<leftarrow> vfs_resolve path 64 s;
     if ty = VFS_FS_FAT32 then do {
       (_, t, f) \<leftarrow> fat32_cat p rest (vfs_tty s) (vfs_fat s);
       Some (s\<lparr>vfs_tty := t, vfs_fat := f\<rparr>)
     }
     else
       let c = fsc (vfs_ram s); (r, out) = fs_read_path path c;
           out = (if r = FS_OK then out else snd (fs_read rest c)) in
       Some (s\<lparr>vfs_tty :=
         (case out of
            Some (i, _) \<Rightarrow> terminal_putchar (CHR 0x0A) (terminal_writestring (content_string c i) (vfs_tty s))
          | None \<Rightarrow> terminal_writestring (''not found'' @ [CHR 0x0A]) (vfs_tty s))\<rparr>)
   }"

section \<open>The table\<close>

lemma str_eq_iff [simp]: "str_eq a b \<longleftrightarrow> a = b"
  by (induction a b rule: str_eq.induct) auto

text \<open>The root entry is in its place and no two used entries have the same path.\<close>

definition table_ok :: "vfs_mount_point list \<Rightarrow> bool" where
  "table_ok ms \<longleftrightarrow> length ms = VFS_MAX_MOUNTS \<and> mp_used (ms ! 0) \<and> mp_path (ms ! 0) = ''/'' \<and> mp_type (ms ! 0) = VFS_FS_RAM
     \<and> (\<forall>i < VFS_MAX_MOUNTS. mp_used (ms ! i) \<longrightarrow> mp_type (ms ! i) \<noteq> VFS_FS_NONE \<and> mp_path (ms ! i) \<noteq> []
         \<and> hd (mp_path (ms ! i)) = CHR ''/'')
     \<and> (\<forall>i < VFS_MAX_MOUNTS. \<forall>j < VFS_MAX_MOUNTS. mp_used (ms ! i) \<longrightarrow> mp_used (ms ! j) \<longrightarrow>
          mp_path (ms ! i) = mp_path (ms ! j) \<longrightarrow> i = j)"

definition vfs_ok :: "'d vfs \<Rightarrow> bool" where
  "vfs_ok s \<longleftrightarrow> table_ok (mounts s) \<and> vfs_lock s = 0"

text \<open>The abstract table: which file system is mounted at a path.\<close>

definition mount_table :: "vfs_mount_point list \<Rightarrow> cstring \<Rightarrow> vfs_fs_type option" where
  "mount_table ms path = map_option (\<lambda>i. mp_type (ms ! i)) (find_mount path ms)"

lemma find_mount_Some:
  assumes "find_mount path ms = Some i"
  shows "i < VFS_MAX_MOUNTS" "mp_used (ms ! i)" "mp_path (ms ! i) = path"
  using scan_SomeD [of _ 0 VFS_MAX_MOUNTS i] assms by (auto simp: find_mount_def)

lemma find_mount_None:
  "find_mount path ms = None \<longleftrightarrow> (\<forall>i < VFS_MAX_MOUNTS. mp_used (ms ! i) \<longrightarrow> mp_path (ms ! i) \<noteq> path)"
  by (auto simp: find_mount_def scan_None_iff)

lemma find_mount_unique:
  "table_ok ms \<Longrightarrow> i < VFS_MAX_MOUNTS \<Longrightarrow> mp_used (ms ! i) \<Longrightarrow> find_mount (mp_path (ms ! i)) ms = Some i"
  unfolding find_mount_def by (rule scan_unique) (auto simp: table_ok_def)

lemma mount_table_eq:
  assumes "table_ok ms"
  shows "mount_table ms path = Some ty \<longleftrightarrow>
    (\<exists>i < VFS_MAX_MOUNTS. mp_used (ms ! i) \<and> mp_path (ms ! i) = path \<and> mp_type (ms ! i) = ty)"
proof
  assume "mount_table ms path = Some ty"
  then show "\<exists>i < VFS_MAX_MOUNTS. mp_used (ms ! i) \<and> mp_path (ms ! i) = path \<and> mp_type (ms ! i) = ty"
    unfolding mount_table_def using find_mount_Some [of path ms] by blast
next
  assume "\<exists>i < VFS_MAX_MOUNTS. mp_used (ms ! i) \<and> mp_path (ms ! i) = path \<and> mp_type (ms ! i) = ty"
  then show "mount_table ms path = Some ty"
    using find_mount_unique [OF assms] by (auto simp: mount_table_def)
qed

section \<open>Resolution\<close>

text \<open>The mount point that owns a path is the longest one that contains it.\<close>

definition owns :: "(cstring \<rightharpoonup> vfs_fs_type) \<Rightarrow> cstring \<Rightarrow> cstring \<Rightarrow> bool" where
  "owns T mp path \<longleftrightarrow> mp \<in> dom T \<and> mount_contains mp path
     \<and> (\<forall>q \<in> dom T. mount_contains q path \<longrightarrow> length q \<le> length mp)"

lemma resolve_fold:
  assumes "fold (resolve_step path ms) js (None, -1) = (best, len)"
  shows "case best of
      None \<Rightarrow> len = -1 \<and> (\<forall>i \<in> set js. mp_used (ms ! i) \<longrightarrow> \<not> mount_contains (mp_path (ms ! i)) path)
    | Some b \<Rightarrow> b \<in> set js \<and> mp_used (ms ! b) \<and> mount_contains (mp_path (ms ! b)) path \<and> len = int (length (mp_path (ms ! b)))
        \<and> (\<forall>i \<in> set js. mp_used (ms ! i) \<longrightarrow> mount_contains (mp_path (ms ! i)) path \<longrightarrow> int (length (mp_path (ms ! i))) \<le> len)"
  using assms
proof (induction js arbitrary: best len rule: rev_induct)
  case (snoc j js)
  obtain b l where bl: "fold (resolve_step path ms) js (None, -1) = (b, l)" by fastforce
  note IH = snoc.IH [OF bl]
  have step: "resolve_step path ms j (b, l) = (best, len)" using snoc.prems bl by simp
  show ?case
  proof (cases "mp_used (ms ! j) \<and> mount_contains (mp_path (ms ! j)) path \<and> int (length (mp_path (ms ! j))) > l")
    case True
    with step have "best = Some j" "len = int (length (mp_path (ms ! j)))" by (simp_all add: resolve_step_def Let_def)
    with True IH show ?thesis by (cases b) force+
  next
    case False
    with step have "best = b" "len = l" by (auto simp: resolve_step_def Let_def split: if_splits)
    with False IH show ?thesis by (cases b) auto
  qed
qed auto

lemma owns_unique: "owns T mp path \<Longrightarrow> owns T q path \<Longrightarrow> mp = q"
proof -
  assume "owns T mp path" "owns T q path"
  then have "length mp = length q" "take (length mp) path = mp" "take (length q) path = q"
    by (auto simp: owns_def mount_contains_def intro: le_antisym)
  then show ?thesis by metis
qed

definition rest_of :: "cstring \<Rightarrow> cstring \<Rightarrow> cstring" where
  "rest_of mp path = (let rest = drop (length mp) path in if rest \<noteq> [] \<and> hd rest = CHR ''/'' then tl rest else rest)"

text \<open>Resolution as a function of the abstract table; the lock is free again afterwards.\<close>

lemma vfs_resolve_ok:
  assumes "vfs_ok s" "path \<noteq> []"
  shows "\<exists>ty rest. vfs_resolve path n s = Some (ty, rest, s)
    \<and> (if \<exists>mp. owns (mount_table (mounts s)) mp path
       then \<exists>mp. owns (mount_table (mounts s)) mp path \<and> mount_table (mounts s) mp = Some ty \<and> rest = str_copy (rest_of mp path) n
       else ty = VFS_FS_RAM \<and> rest = str_copy path n)"
proof -
  let ?ms = "mounts s"
  have ok: "table_ok ?ms" and lock: "unlock (s\<lparr>vfs_lock := 1\<rparr>) = s" "vfs_lock s = 0"
    using assms(1) by (cases s; simp add: vfs_ok_def unlock_def)+
  note T = mount_table_eq [OF ok]
  obtain best len where b: "fold (resolve_step path ?ms) [0..<VFS_MAX_MOUNTS] (None, -1) = (best, len)" by fastforce
  show ?thesis
  proof (cases best)
    case None
    with resolve_fold [OF b] have "\<not> owns (mount_table ?ms) mp path" for mp
      using T by (auto simp: owns_def)
    with None b lock assms(2) show ?thesis by (simp add: vfs_resolve_def)
  next
    case (Some i)
    let ?mp = "mp_path (?ms ! i)"
    from Some resolve_fold [OF b] have i: "i < VFS_MAX_MOUNTS" "mp_used (?ms ! i)" "mount_contains ?mp path" "len = int (length ?mp)"
      "\<forall>j < VFS_MAX_MOUNTS. mp_used (?ms ! j) \<longrightarrow> mount_contains (mp_path (?ms ! j)) path \<longrightarrow> length (mp_path (?ms ! j)) \<le> length ?mp"
      by auto
    then have ty: "mount_table ?ms ?mp = Some (mp_type (?ms ! i))" using T by blast
    have "owns (mount_table ?ms) ?mp path" using i ty T by (auto simp: owns_def)
    moreover have "vfs_resolve path n s = Some (mp_type (?ms ! i), str_copy (rest_of ?mp path) n, s)"
      using Some b lock assms(2) i(4) by (simp add: vfs_resolve_def rest_of_def Let_def)
    ultimately show ?thesis using ty by auto
  qed
qed

section \<open>Mounting and unmounting\<close>

lemma ex_nth_upd:
  "k < n \<Longrightarrow> n \<le> length xs \<Longrightarrow> (\<exists>i < n. P (xs[k := x] ! i)) \<longleftrightarrow> P x \<or> (\<exists>i < n. i \<noteq> k \<and> P (xs ! i))"
  by (auto simp: nth_list_update)

lemma table_ok_mount:
  assumes "table_ok ms" "slot < VFS_MAX_MOUNTS" "\<not> mp_used (ms ! slot)" "path \<noteq> []" "hd path = CHR ''/''"
    "ty \<noteq> VFS_FS_NONE" "find_mount path ms = None"
  defines "ms' \<equiv> ms[slot := \<lparr>mp_used = True, mp_path = path, mp_type = ty\<rparr>]"
  shows "table_ok ms'" "mount_table ms' = (mount_table ms)(path \<mapsto> ty)"
proof -
  have len: "length ms = VFS_MAX_MOUNTS" "slot \<noteq> 0" using assms(1,3) by (metis table_ok_def)+
  have nth: "ms' ! i = (if i = slot then \<lparr>mp_used = True, mp_path = path, mp_type = ty\<rparr> else ms ! i)"
    if "i < VFS_MAX_MOUNTS" for i using that len by (simp add: ms'_def)
  have "0 < VFS_MAX_MOUNTS" by (simp add: VFS_MAX_MOUNTS_def)
  moreover have "length ms' = VFS_MAX_MOUNTS" by (simp add: ms'_def len)
  moreover have "\<forall>i < VFS_MAX_MOUNTS. mp_used (ms ! i) \<longrightarrow> mp_path (ms ! i) \<noteq> path" using assms(7) by (simp add: find_mount_None)
  ultimately show ok: "table_ok ms'"
    using assms(1,4-6) len(2) unfolding table_ok_def by (simp add: nth) metis
  show "mount_table ms' = (mount_table ms)(path \<mapsto> ty)"
  proof (rule ext)
    fix q
    have "mount_table ms' q = Some t \<longleftrightarrow> ((mount_table ms)(path \<mapsto> ty)) q = Some t" for t
      unfolding mount_table_eq [OF ok] fun_upd_apply unfolding ms'_def using assms(2,3,7) len(1)
      by (subst ex_nth_upd) (auto simp: find_mount_None mount_table_eq [OF assms(1)])
    then show "mount_table ms' q = ((mount_table ms)(path \<mapsto> ty)) q" by (metis not_None_eq)
  qed
qed

lemma table_ok_umount:
  assumes "table_ok ms" "find_mount path ms = Some idx" "path \<noteq> ''/''"
  defines "ms' \<equiv> ms[idx := \<lparr>mp_used = False, mp_path = [], mp_type = VFS_FS_NONE\<rparr>]"
  shows "table_ok ms'" "mount_table ms' = (mount_table ms)(path := None)"
proof -
  note idx = find_mount_Some [OF assms(2)]
  have len: "length ms = VFS_MAX_MOUNTS" "idx \<noteq> 0" using assms(1,3) idx by (metis table_ok_def)+
  have nth: "ms' ! i = (if i = idx then \<lparr>mp_used = False, mp_path = [], mp_type = VFS_FS_NONE\<rparr> else ms ! i)"
    if "i < VFS_MAX_MOUNTS" for i using that len by (simp add: ms'_def)
  have "0 < VFS_MAX_MOUNTS" by (simp add: VFS_MAX_MOUNTS_def)
  moreover have "length ms' = VFS_MAX_MOUNTS" by (simp add: ms'_def len)
  ultimately show ok: "table_ok ms'"
    using assms(1) len(2) unfolding table_ok_def by (simp add: nth)
  have uniq: "i = idx" if "i < VFS_MAX_MOUNTS" "mp_used (ms ! i)" "mp_path (ms ! i) = path" for i
    using assms(1) idx that by (auto simp: table_ok_def)
  show "mount_table ms' = (mount_table ms)(path := None)"
  proof (rule ext)
    fix q
    have "mount_table ms' q = Some t \<longleftrightarrow> ((mount_table ms)(path := None)) q = Some t" for t
      unfolding mount_table_eq [OF ok] fun_upd_apply unfolding ms'_def using idx(1,3) uniq len(1)
      by (subst ex_nth_upd) (auto simp: mount_table_eq [OF assms(1)])
    then show "mount_table ms' q = ((mount_table ms)(path := None)) q" by (metis not_None_eq)
  qed
qed

text \<open>What mounting needs: a short absolute path of plain names that is not mounted yet, a free entry, and a
  FAT32 volume when that is what is mounted.\<close>

definition can_mount :: "'d vfs \<Rightarrow> cstring list \<Rightarrow> vfs_fs_type \<Rightarrow> bool" where
  "can_mount s ns ty \<longleftrightarrow> ns \<noteq> [] \<and> (\<forall>n \<in> set ns. plain_name n) \<and> length (join_path ns) < VFS_MP_NAME_MAX
     \<and> mount_table (mounts s) (join_path ns) = None \<and> (\<exists>i < VFS_MAX_MOUNTS. \<not> mp_used (mounts s ! i))
     \<and> (ty = VFS_FS_RAM \<or> ty = VFS_FS_FAT32 \<and> fat32_is_mounted (vfs_fat s))"

lemma join_path_absolute: "ns \<noteq> [] \<Longrightarrow> join_path ns \<noteq> [] \<and> hd (join_path ns) = CHR ''/''"
  by (cases ns) auto

lemma join_path_not_root: "ns \<noteq> [] \<Longrightarrow> \<forall>n \<in> set ns. plain_name n \<Longrightarrow> join_path ns \<noteq> ''/''"
  by (cases ns) (auto dest: plain_nameD)

lemma vfs_mount_ok:
  assumes ok: "vfs_ok s" "kfs_ok (vfs_ram s)" and can: "can_mount s ns ty"
  shows "\<exists>s'. vfs_mount p (join_path ns) ty s = Some (FS_OK, s') \<and> vfs_ok s' \<and> kfs_ok (vfs_ram s')
    \<and> mount_table (mounts s') = (mount_table (mounts s))(join_path ns \<mapsto> ty) \<and> vfs_fat s' = vfs_fat s"
proof -
  let ?path = "join_path ns"
  have ns: "ns \<noteq> []" "\<forall>n \<in> set ns. plain_name n" using can by (simp_all add: can_mount_def)
  have path: "?path \<noteq> []" "hd ?path = CHR ''/''" "?path \<noteq> ''/''" "str_copy ?path VFS_MP_NAME_MAX = ?path"
    using join_path_absolute [OF ns(1)] join_path_not_root [OF ns] can
    by (auto simp: can_mount_def str_copy_def VFS_MP_NAME_MAX_def)
  have table: "table_ok (mounts s)" "vfs_lock s = 0" using ok(1) by (simp_all add: vfs_ok_def)
  have ty: "ty \<noteq> VFS_FS_NONE" "ty = VFS_FS_FAT32 \<longrightarrow> fat32_is_mounted (vfs_fat s)" using can by (auto simp: can_mount_def)
  have none: "find_mount ?path (mounts s) = None" using can by (simp add: can_mount_def mount_table_def)
  obtain slot where slot: "scan (\<lambda>i. \<not> mp_used (mounts s ! i)) 0 VFS_MAX_MOUNTS = Some slot"
    using can scan_None_iff [of "\<lambda>i. \<not> mp_used (mounts s ! i)" 0 VFS_MAX_MOUNTS] by (force simp: can_mount_def)
  have free: "slot < VFS_MAX_MOUNTS" "\<not> mp_used (mounts s ! slot)" using scan_SomeD [OF slot] by auto
  let ?ms = "(mounts s)[slot := \<lparr>mp_used = True, mp_path = ?path, mp_type = ty\<rparr>]"
  note tab = table_ok_mount [OF table(1) free path(1,2) ty(1) none]
  obtain r k where mk: "fs_mkdir_p ?path (vfs_ram s) = Some (r, k)" "kfs_ok k"
    using fs_mkdir_p_ok [OF ok(2) ns] by blast
  show ?thesis
    using path table(2) ty none slot mk tab ok(2)
    by (cases "ty = VFS_FS_FAT32") (simp_all add: vfs_mount_def Let_def unlock_def vfs_ok_def)
qed

lemma vfs_umount_ok:
  assumes "vfs_ok s" "mount_table (mounts s) path \<noteq> None" "path \<noteq> ''/''"
  shows "\<exists>s'. vfs_umount path s = Some (FS_OK, s') \<and> vfs_ok s' \<and> mount_table (mounts s') = (mount_table (mounts s))(path := None)
    \<and> vfs_fat s' = vfs_fat s \<and> vfs_ram s' = vfs_ram s"
proof -
  obtain idx where idx: "find_mount path (mounts s) = Some idx" using assms(2) by (auto simp: mount_table_def)
  then show ?thesis
    using table_ok_umount [OF _ idx assms(3)] assms(1,3) by (simp add: vfs_umount_def Let_def unlock_def vfs_ok_def)
qed

lemma owns_other:
  assumes "T mp = None" "\<not> owns (T(mp \<mapsto> ty)) mp q"
  shows "owns (T(mp \<mapsto> ty)) x q \<longleftrightarrow> owns T x q"
proof (cases "x = mp")
  case False
  have "length mp \<le> length x" if "owns T x q" "mount_contains mp q"
  proof (rule ccontr)
    assume "\<not> length mp \<le> length x"
    with that have "owns (T(mp \<mapsto> ty)) mp q" by (fastforce simp: owns_def)
    with assms(2) show False ..
  qed
  with False show ?thesis by (simp add: owns_def) blast
qed (use assms in \<open>auto simp: owns_def\<close>)

lemma vfs_resolve_owner:
  assumes "vfs_ok s" "q \<noteq> []" "owns (mount_table (mounts s)) mp q"
  shows "vfs_resolve q n s = Some (the (mount_table (mounts s) mp), str_copy (rest_of mp q) n, s)"
proof -
  obtain ty x where "vfs_resolve q n s = Some (ty, str_copy (rest_of x q) n, s)" "owns (mount_table (mounts s)) x q"
    "mount_table (mounts s) x = Some ty" using vfs_resolve_ok [OF assms(1,2), of n] assms(3) by (auto split: if_splits)
  with owns_unique [OF assms(3)] show ?thesis by simp
qed

lemma vfs_resolve_other:
  assumes "vfs_ok s" "vfs_ok s'" "q \<noteq> []" "mount_table (mounts s') = (mount_table (mounts s))(mp \<mapsto> ty)"
    "mount_table (mounts s) mp = None" "\<not> owns (mount_table (mounts s')) mp q"
  obtains ty' rest where "vfs_resolve q n s = Some (ty', rest, s)" "vfs_resolve q n s' = Some (ty', rest, s')"
proof (cases "\<exists>x. owns (mount_table (mounts s)) x q")
  note other = owns_other [where T = "mount_table (mounts s)" and mp = mp, OF assms(5)]
  case True
  then obtain x where x: "owns (mount_table (mounts s)) x q" by blast
  then have "owns (mount_table (mounts s')) x q" "x \<noteq> mp"
    using other assms(4-6) by (auto simp: owns_def)
  then have "vfs_resolve q n s' = Some (the (mount_table (mounts s) x), str_copy (rest_of x q) n, s')"
    using vfs_resolve_owner [OF assms(2,3)] assms(4) by simp
  with vfs_resolve_owner [OF assms(1,3) x, of n] show ?thesis using that by blast
next
  note other = owns_other [where T = "mount_table (mounts s)" and mp = mp, OF assms(5)]
  case False
  moreover from False have "\<nexists>x. owns (mount_table (mounts s')) x q"
    using other assms(4,6) by auto
  ultimately show ?thesis
    using vfs_resolve_ok [OF assms(1,3), of n] vfs_resolve_ok [OF assms(2,3), of n] that by auto
qed

end
