(* ===== verification/Vfs_Props.thy ===== *)
theory Vfs_Props
  imports Vfs Ramfs_Props Fat32_Props Terminal_Props
begin

text \<open>The mount table over the two file systems: what mounting and unmounting do to the resolution of
  paths, and its application to the table at boot with a FAT32 volume.\<close>

section \<open>Mounting\<close>


section \<open>The table at boot\<close>

definition boot_vfs :: "drive vfs" where
  "boot_vfs = vfs_init \<lparr>mounts = replicate VFS_MAX_MOUNTS \<lparr>mp_used = False, mp_path = [], mp_type = VFS_FS_NONE\<rparr>,
     vfs_lock = 0, vfs_ram = boot_kfs, vfs_fat = demo_volume, vfs_tty = demo_terminal\<rparr>"

lemma boot_vfs_simps [simp]:
  "vfs_lock boot_vfs = 0" "vfs_ram boot_vfs = boot_kfs" "vfs_fat boot_vfs = demo_volume"
  "mounts boot_vfs = (replicate 4 \<lparr>mp_used = False, mp_path = [], mp_type = VFS_FS_NONE\<rparr>)
     [0 := \<lparr>mp_used = True, mp_path = ''/'', mp_type = VFS_FS_RAM\<rparr>]"
  by (simp_all add: boot_vfs_def vfs_init_def spin_init_def str_copy_def VFS_MP_NAME_MAX_def VFS_MAX_MOUNTS_def)

lemma boot_vfs_ok: "vfs_ok boot_vfs"
  by (auto simp: vfs_ok_def table_ok_def VFS_MAX_MOUNTS_def nth_list_update)

lemma boot_mount_table: "mount_table (mounts boot_vfs) = [''/'' \<mapsto> VFS_FS_RAM]"
  by (rule ext) (simp add: mount_table_def find_mount_def VFS_MAX_MOUNTS_def numeral_eq_Suc)

lemma boot_can_mount: "can_mount boot_vfs [''mnt''] VFS_FS_FAT32"
  unfolding can_mount_def boot_mount_table
  by (auto simp: plain_name_def valid_name_iff FS_NAME_MAX_def VFS_MP_NAME_MAX_def VFS_MAX_MOUNTS_def fat32_is_mounted_def intro!: exI [of _ 1])


end
