(* ===== verification/Part.thy ===== *)
theory Part
  imports Fat32
begin

unbundle bit_operations_syntax

text \<open>
  Partition tables (\<open>src/src/part.c\<close>): writing an MBR with one FAT32 partition, a GPT with one entry,
  and printing both. The state is the sector buffer of the module and the disk.
\<close>

section \<open>Definitions\<close>

record 'd part =
  sec :: "u8 list"
  pdisk :: "'d ata"

definition set32 :: "nat \<Rightarrow> u32 \<Rightarrow> u8 list \<Rightarrow> u8 list" where
  "set32 off v b = put_at off (bytes32 v) b"

definition set64 :: "nat \<Rightarrow> u32 \<Rightarrow> u32 \<Rightarrow> u8 list \<Rightarrow> u8 list" where
  "set64 off lo hi b = set32 (off + 4) hi (set32 off lo b)"

text \<open>The checksum, bit by bit; \<open>- (c AND 1)\<close> is the mask of all ones when the low bit is set.\<close>

definition crc_step :: "u32 \<Rightarrow> u32" where
  "crc_step c = drop_bit 1 c XOR (0xEDB88320 AND (- (c AND 1)))"

definition crc_byte :: "u8 \<Rightarrow> u32 \<Rightarrow> u32" where
  "crc_byte b c = (crc_step ^^ 8) (c XOR ucast b)"

definition crc32 :: "u8 list \<Rightarrow> u32" where
  "crc32 bs = NOT (fold crc_byte bs 0xFFFFFFFF)"

definition read_sec :: "'d ports \<Rightarrow> u32 \<Rightarrow> 'd part \<Rightarrow> int \<times> 'd part" where
  "read_sec p lba s =
     (let (r, bs, a) = ata_read_sectors p lba 1 (pdisk s) in (r, s\<lparr>sec := put_at 0 bs (sec s), pdisk := a\<rparr>))"

definition write_sec :: "'d ports \<Rightarrow> u32 \<Rightarrow> 'd part \<Rightarrow> int \<times> 'd part" where
  "write_sec p lba s = (let (r, a) = ata_write_sectors p lba 1 (sec s) (pdisk s) in (r, s\<lparr>pdisk := a\<rparr>))"

text \<open>The boot code that is kept, or the stub that halts.\<close>

definition mbr_code :: "u8 list \<Rightarrow> u8 list" where
  "mbr_code b = (if b ! 0 \<noteq> 0 \<or> b ! 1 \<noteq> 0 \<or> b ! 2 \<noteq> 0 then b else put_at 0 [0xFA, 0xF4, 0xEB, 0xFD] (replicate 512 0))"

definition mbr_with_partition :: "u32 \<Rightarrow> u32 \<Rightarrow> u8 list \<Rightarrow> u8 list" where
  "mbr_with_partition start_lba size_sectors b =
     put_at 510 [0x55, 0xAA] (set32 458 size_sectors (set32 454 start_lba (put_at 450 [0x0C] (put_at 446 [0x80]
       (put_at 446 (replicate 64 0) (mbr_code b))))))"

definition part_create_mbr_fat32 :: "'d ports \<Rightarrow> u32 \<Rightarrow> u32 \<Rightarrow> 'd part \<Rightarrow> int \<times> 'd part" where
  "part_create_mbr_fat32 p start_lba size_sectors s =
     (if \<not> ata_present (pdisk s) then (-1, s)
      else
        let start_lba = (if start_lba < 1 then 2048 else start_lba);
            size_sectors = (if size_sectors = 0 then 262144 else size_sectors);
            (r, s) = read_sec p 0 s;
            b = (if r \<noteq> 0 then replicate 512 0 else sec s)
        in write_sec p 0 (s\<lparr>sec := mbr_with_partition start_lba size_sectors b\<rparr>))"

definition protective_mbr :: "u8 list" where
  "protective_mbr = put_at 510 [0x55, 0xAA] (set32 458 0xFFFFFFFF (set32 454 1 (put_at 450 [0xEE] (replicate 512 0))))"

definition gpt_type_guid :: "u8 list" where
  "gpt_type_guid = [0xA2, 0xA0, 0xD0, 0xEB, 0xE5, 0xB9, 0x33, 0x44, 0x87, 0xC0, 0x68, 0xB6, 0xB7, 0x26, 0x99, 0xC7]"

definition gpt_uniq :: "u8 list" where
  "gpt_uniq = [0x11, 0x22, 0x33, 0x44, 0x55, 0x66, 0x77, 0x88, 0x99, 0xAA, 0xBB, 0xCC, 0xDD, 0xEE, 0xFF, 0x01]"

definition gpt_entry_sector :: "u32 \<Rightarrow> u32 \<Rightarrow> u8 list" where
  "gpt_entry_sector start_lba last_lba =
     put_at 56 (concat (map (\<lambda>ch. [byte_of_char ch, 0]) ''MYKERNEL''))
       (set64 40 last_lba 0 (set64 32 start_lba 0 (put_at 16 gpt_uniq (put_at 0 gpt_type_guid (replicate 512 0)))))"

text \<open>The header before its own checksum is filled in.\<close>

definition gpt_header :: "u32 \<Rightarrow> u32 \<Rightarrow> u32 \<Rightarrow> u32 \<Rightarrow> u8 list" where
  "gpt_header start_lba size_sectors last_lba part_crc =
     set32 88 part_crc (set32 84 128 (set32 80 128 (set64 72 2 0
       (put_at 56 (map (\<lambda>i. of_nat (0xA0 + i)) [0..<16])
         (set64 48 last_lba 0 (set64 40 34 0 (set64 32 (size_sectors + start_lba + 100) 0 (set64 24 1 0
           (set32 16 0 (set32 12 92 (set32 8 0x00010000
             (put_at 0 (map byte_of_char ''EFI PART'') (replicate 512 0)))))))))))))"

definition part_create_gpt_fat32 :: "'d ports \<Rightarrow> u32 \<Rightarrow> u32 \<Rightarrow> 'd part \<Rightarrow> int \<times> 'd part" where
  "part_create_gpt_fat32 p start_lba size_sectors s =
     (if \<not> ata_present (pdisk s) then (-1, s)
      else
        let start_lba = (if start_lba < 34 then 2048 else start_lba);
            size_sectors = (if size_sectors = 0 then 262144 else size_sectors);
            last_lba = start_lba + size_sectors - 1;
            (r, s) = write_sec p 0 (s\<lparr>sec := protective_mbr\<rparr>) in
        if r \<noteq> 0 then (-1, s)
        else
          let ents = gpt_entry_sector start_lba last_lba; part_crc = crc32 (take 128 ents);
              (r, s) = write_sec p 2 (s\<lparr>sec := ents\<rparr>) in
          if r \<noteq> 0 then (-1, s)
          else
            let h = gpt_header start_lba size_sectors last_lba part_crc; hdr_crc = crc32 (take 92 h);
                (r, s) = write_sec p 1 (s\<lparr>sec := set32 16 hdr_crc h\<rparr>)
            in if r \<noteq> 0 then (-1, s) else (0, s))"

definition mbr_line :: "u8 list \<Rightarrow> nat \<Rightarrow> terminal \<Rightarrow> terminal" where
  "mbr_line b i t =
     (let e = 446 + i * 16 in
      if b ! (e + 4) = 0 then t
      else terminal_putchar (CHR 0x0A)
        (terminal_write_uint (le32 b (e + 12)) (terminal_writestring '' size=''
          (terminal_write_uint (le32 b (e + 8)) (terminal_writestring '' LBA=''
            (terminal_write_uint (ucast (b ! (e + 4))) (terminal_writestring '' type=''
              (terminal_write_uint (of_nat i) (terminal_writestring ''  #'' t)))))))))"

definition part_print_mbr :: "'d ports \<Rightarrow> terminal \<Rightarrow> 'd part \<Rightarrow> terminal \<times> 'd part" where
  "part_print_mbr p t s =
     (if \<not> ata_present (pdisk s) then (terminal_writestring (''No ATA disk'' @ [CHR 0x0A]) t, s)
      else
        let (r, s) = read_sec p 0 s in
        if r \<noteq> 0 then (terminal_writestring (''MBR read fail'' @ [CHR 0x0A]) t, s)
        else if sec s ! 510 \<noteq> 0x55 \<or> sec s ! 511 \<noteq> 0xAA
        then (terminal_writestring (''No MBR signature'' @ [CHR 0x0A]) t, s)
        else (fold (mbr_line (sec s)) [0..<4] (terminal_writestring (''MBR partitions:'' @ [CHR 0x0A]) t), s))"

definition part_print_gpt :: "'d ports \<Rightarrow> terminal \<Rightarrow> 'd part \<Rightarrow> terminal \<times> 'd part" where
  "part_print_gpt p t s =
     (if \<not> ata_present (pdisk s) then (terminal_writestring (''No ATA disk'' @ [CHR 0x0A]) t, s)
      else
        let (r, s) = read_sec p 1 s in
        if r \<noteq> 0 then (terminal_writestring (''GPT read fail'' @ [CHR 0x0A]) t, s)
        else if take 3 (sec s) \<noteq> map byte_of_char ''EFI''
        then (terminal_writestring (''No GPT header at LBA1'' @ [CHR 0x0A]) t, s)
        else
          let t = terminal_writestring (''GPT header OK (EFI PART)'' @ [CHR 0x0A]) t;
              (r, s) = read_sec p (le32 (sec s) 72) s in
          if r \<noteq> 0 then (t, s)
          else (terminal_putchar (CHR 0x0A) (terminal_write_uint (le32 (sec s) 40) (terminal_writestring '' end=''
                 (terminal_write_uint (le32 (sec s) 32) (terminal_writestring ''  Part0 start='' t)))), s))"

section \<open>The checksum\<close>

text \<open>The step is linear over the bits and can be undone: the top bit of the result is the bit that was
  shifted out.\<close>

abbreviation crc_poly :: u32 where "crc_poly \<equiv> 0xEDB88320"

lemma crc_step_if: "crc_step c = drop_bit 1 c XOR (if odd c then crc_poly else 0)"
  by (simp add: crc_step_def and_one_eq mod_2_eq_odd)

lemma odd_xor: "odd ((x :: u32) XOR y) \<longleftrightarrow> odd x \<noteq> odd y"
  by (simp add: even_xor_iff)

lemma crc_step_linear: "crc_step (x XOR y) = crc_step x XOR crc_step y"
  unfolding crc_step_if odd_xor by (rule bit_word_eqI) (auto simp: bit_simps)

lemma crc_step_top: "bit (crc_step c) 31 \<longleftrightarrow> odd c"
  by (auto simp: crc_step_if bit_simps bit_numeral_word_iff dest: bit_imp_le_length)

lemma xor_right_cancel: "(a :: u32) XOR c = b XOR c \<longleftrightarrow> a = b"
proof
  assume "a XOR c = b XOR c"
  then have "(a XOR c) XOR c = (b XOR c) XOR c" by (rule arg_cong)
  then show "a = b" by (simp add: xor.assoc)
qed simp

lemma crc_step_inj: "crc_step x = crc_step y \<Longrightarrow> x = y"
proof -
  assume eq: "crc_step x = crc_step y"
  then have o: "odd x \<longleftrightarrow> odd y" using crc_step_top by metis
  with eq have shift: "drop_bit 1 x = drop_bit 1 y" unfolding crc_step_if xor_right_cancel by (simp only: xor_right_cancel)
  show ?thesis
  proof (rule bit_word_eqI)
    fix n assume "n < LENGTH(32)"
    show "bit x n = bit y n"
    proof (cases n)
      case 0 with o show ?thesis by (simp add: bit_0)
    next
      case (Suc m)
      from shift have "bit (drop_bit 1 x) m = bit (drop_bit 1 y) m" by simp
      with Suc show ?thesis by (simp add: bit_drop_bit_eq)
    qed
  qed
qed

lemma crc_steps_linear: "(crc_step ^^ n) (x XOR y) = (crc_step ^^ n) x XOR (crc_step ^^ n) y"
  by (induction n) (simp_all add: crc_step_linear)

lemma crc_steps_inj: "(crc_step ^^ n) x = (crc_step ^^ n) y \<Longrightarrow> x = y"
  by (induction n) (auto dest: crc_step_inj)

text \<open>Bits above the processed ones only move down.\<close>

lemma crc_step_push:
  fixes v :: u32
  assumes "\<not> bit v 31"
  shows "crc_step (push_bit 1 v) = v"
proof (rule bit_word_eqI)
  fix i assume "i < LENGTH(32)"
  moreover have "even (push_bit 1 v)" by simp
  ultimately show "bit (crc_step (push_bit 1 v)) i = bit v i"
    using assms by (cases "i = 31") (auto simp: crc_step_if bit_drop_bit_eq bit_push_bit_iff simp del: push_bit_Suc push_bit_of_1)
qed

lemma crc_steps_shift:
  fixes w :: u32
  shows "n + k \<le> 32 \<Longrightarrow> take_bit k w = w \<Longrightarrow> (crc_step ^^ n) (push_bit n w) = w"
proof (induction n)
  case (Suc n)
  have "\<not> bit (take_bit k w) (31 - n)" using Suc.prems(1) by (auto simp: bit_take_bit_iff)
  then have "\<not> bit w (31 - n)" using Suc.prems(2) by simp
  then have "crc_step (push_bit 1 (push_bit n w)) = push_bit n w"
    by (intro crc_step_push) (simp add: bit_push_bit_iff)
  with Suc show ?case by (simp add: funpow_Suc_right push_bit_push_bit del: funpow.simps)
qed simp

text \<open>Up to four bytes enter as one number.\<close>

fun le_join :: "u8 list \<Rightarrow> u32" where
  "le_join [] = 0"
| "le_join (b # bs) = ucast b XOR push_bit 8 (le_join bs)"

lemma take_bit_join: "length bs \<le> 4 \<Longrightarrow> take_bit (8 * length bs) (le_join bs) = le_join bs"
proof (induction bs)
  case (Cons b bs)
  have "bit (take_bit (8 + 8 * length bs) (le_join (b # bs))) i = bit (le_join (b # bs)) i" if "i < 32" for i
  proof -
    have "bit (take_bit (8 * length bs) (le_join bs)) (i - 8) = bit (le_join bs) (i - 8)" using Cons by simp
    then show ?thesis by (auto simp: bit_simps dest: bit_imp_le_length)
  qed
  then show ?case by (intro bit_word_eqI) simp
qed simp

lemma le_join_inj: "length xs = length ys \<Longrightarrow> length xs \<le> 4 \<Longrightarrow> le_join xs = le_join ys \<Longrightarrow> xs = ys"
proof (induction xs ys rule: list_induct2)
  case (Cons x xs y ys)
  have b: "bit (le_join (x # xs)) i = bit (le_join (y # ys)) i" for i using Cons.prems(2) by simp
  have "x = y" using b by (intro bit_word_eqI) (force simp: bit_simps)
  moreover have "le_join xs = le_join ys"
  proof (rule bit_word_eqI)
    fix i assume "i < LENGTH(32)"
    show "bit (le_join xs) i = bit (le_join ys) i"
    proof (cases "i < 24")
      case True
      with b [of "i + 8"] show ?thesis by (auto simp: bit_simps dest: bit_imp_le_length)
    next
      case False
      have "8 * length xs \<le> 24" using Cons.prems(1) by simp
      with False have "\<not> bit (take_bit (8 * length xs) (le_join xs)) i" "\<not> bit (take_bit (8 * length ys) (le_join ys)) i"
        using Cons.hyps by (auto simp: bit_take_bit_iff)
      then show ?thesis using take_bit_join [of xs] take_bit_join [of ys] Cons.prems(1) Cons.hyps by simp
    qed
  qed
  ultimately show ?case using Cons by simp
qed simp

lemma crc_bytes_join: "length bs \<le> 4 \<Longrightarrow> fold crc_byte bs c = (crc_step ^^ (8 * length bs)) (c XOR le_join bs)"
proof (induction bs arbitrary: c)
  case (Cons b bs)
  have "(crc_step ^^ 8) (push_bit 8 (le_join bs)) = le_join bs"
    using Cons.prems take_bit_join [of bs] by (intro crc_steps_shift [where k = "8 * length bs"]) simp_all
  then have "crc_byte b c XOR le_join bs = (crc_step ^^ 8) (c XOR le_join (b # bs))"
    by (simp add: crc_byte_def crc_steps_linear xor.assoc)
  then have "fold crc_byte (b # bs) c = (crc_step ^^ (8 * length bs)) ((crc_step ^^ 8) (c XOR le_join (b # bs)))"
    using Cons by (simp del: le_join.simps)
  also have "\<dots> = (crc_step ^^ (8 * length bs + 8)) (c XOR le_join (b # bs))" by (simp only: funpow_add comp_apply)
  finally show ?case by (simp add: add.commute)
qed simp

lemma crc_bytes_inj: "fold crc_byte bs x = fold crc_byte bs y \<Longrightarrow> x = y"
proof (induction bs arbitrary: x y)
  case (Cons b bs)
  from Cons.prems have "crc_byte b x = crc_byte b y" by (auto dest: Cons.IH)
  then show ?case by (auto simp: crc_byte_def xor_right_cancel dest: crc_steps_inj)
qed simp

text \<open>The checksum detects every error confined to four neighbouring bytes, wherever they are: two
  sectors that differ only there have the same checksum only if they are the same.\<close>

theorem crc32_detects_bursts:
  assumes "length xs = length ys" "length xs \<le> 4"
  shows "crc32 (pre @ xs @ post) = crc32 (pre @ ys @ post) \<longleftrightarrow> xs = ys"
proof
  assume "crc32 (pre @ xs @ post) = crc32 (pre @ ys @ post)"
  then have "fold crc_byte post (fold crc_byte xs (fold crc_byte pre 0xFFFFFFFF)) =
      fold crc_byte post (fold crc_byte ys (fold crc_byte pre 0xFFFFFFFF))"
    unfolding crc32_def by simp
  then have "(crc_step ^^ (8 * length xs)) (fold crc_byte pre 0xFFFFFFFF XOR le_join xs) =
      (crc_step ^^ (8 * length xs)) (fold crc_byte pre 0xFFFFFFFF XOR le_join ys)"
    using assms crc_bytes_join [of xs] crc_bytes_join [of ys] by (auto dest: crc_bytes_inj)
  then have "fold crc_byte pre 0xFFFFFFFF XOR le_join xs = fold crc_byte pre 0xFFFFFFFF XOR le_join ys" by (rule crc_steps_inj)
  then have "le_join xs = le_join ys" by (metis xor.commute xor_right_cancel)
  with assms show "xs = ys" by (intro le_join_inj)
qed simp

lemma crc_eight: "(crc_step ^^ 8) c = crc_step (crc_step (crc_step (crc_step (crc_step (crc_step (crc_step (crc_step c)))))))"
  by (simp add: numeral_eq_Suc)

lemma crc32_check_value: "crc32 (map byte_of_char ''123456789'') = 0xCBF43926"
  by (simp add: crc32_def crc_byte_def crc_eight crc_step_if byte_of_char_def)

theorem crc32_detects_bursts_witness:
  "crc32 ([1, 2] @ [0x10, 0, 0, 7] @ [9]) \<noteq> crc32 ([1, 2] @ [0x11, 0, 0, 6] @ [9])"
  using crc32_detects_bursts [of "[0x10, 0, 0, 7]" "[0x11, 0, 0, 6]" "[1, 2]" "[9]"] by simp

end
