(* ===== verification/Part_Props.thy ===== *)
theory Part_Props
  imports Part Fat32_Format
begin

text \<open>Partition tables on a drive that follows the ATA protocol: the MBR that \<open>part_create_mbr_fat32\<close>
  writes is the one through which \<open>fat32_mount\<close> finds the partition after a restart, and the GPT header
  carries its own checksum.\<close>

section \<open>The master boot record\<close>

definition mbr_stores :: "u32 \<Rightarrow> u32 \<Rightarrow> (nat \<times> u8 list) list" where
  "mbr_stores start_lba size_sectors = [(446, replicate 64 0), (446, [0x80]), (450, [0x0C]), (454, bytes32 start_lba),
     (458, bytes32 size_sectors), (510, [0x55, 0xAA])]"

lemma mbr_stores_eq:
  "mbr_with_partition start_lba size_sectors b = fold (\<lambda>(off, bs). put_at off bs) (mbr_stores start_lba size_sectors) (mbr_code b)"
  by (simp add: mbr_with_partition_def mbr_stores_def set32_def)

lemma mbr_stores_fit: "stores_fit 512 (mbr_stores start_lba size_sectors)"
  by (simp add: stores_fit_def mbr_stores_def)

lemma length_mbr [simp]: "length b = 512 \<Longrightarrow> length (mbr_code b) = 512"
  "length b = 512 \<Longrightarrow> length (mbr_with_partition start_lba size_sectors b) = 512"
proof -
  show code: "length (mbr_code b) = 512" if "length b = 512" using that by (simp add: mbr_code_def)
  show "length (mbr_with_partition start_lba size_sectors b) = 512" if "length b = 512"
    unfolding mbr_stores_eq using code [OF that] mbr_stores_fit by (subst length_stores) simp_all
qed

lemma nth_mbr:
  "length b = 512 \<Longrightarrow> i < 512 \<Longrightarrow> mbr_with_partition start_lba size_sectors b ! i =
     fold (\<lambda>(off, bs) v. if off \<le> i \<and> i < off + length bs then bs ! (i - off) else v) (mbr_stores start_lba size_sectors)
       (mbr_code b ! i)"
  unfolding mbr_stores_eq using mbr_stores_fit by (subst nth_stores) simp_all

lemma mbr_fields:
  assumes "length b = 512"
  shows "has_signature (mbr_with_partition l n b)" "mbr_with_partition l n b ! 450 = 0x0C"
    "le32 (mbr_with_partition l n b) 454 = l" "le32 (mbr_with_partition l n b) 458 = n"
    "i < 446 \<Longrightarrow> mbr_with_partition l n b ! i = mbr_code b ! i"
  unfolding has_signature_def le32_def using assms
  by (simp_all add: nth_mbr mbr_stores_def) (simp_all add: bytes32_def join_bytes32)

context ata_disk
begin

lemma mbr_finds:
  assumes "buf_ok s" "0 < cap" "length b = 512" "sect (disk s) 0 = mbr_with_partition l n b"
    "\<not> is_boot_sector (mbr_with_partition l n b)"
  obtains a where "find_fat_partition p s = (0, s\<lparr>sector_buf := mbr_with_partition l n b, disk := a, partition_lba := l\<rparr>)"
    "ready a" "sect a = sect (disk s)"
proof -
  let ?m = "mbr_with_partition l n b"
  obtain a where a: "load_sector p 0 s = (0, s\<lparr>sector_buf := ?m, disk := a\<rparr>)" "ready a" "sect a = sect (disk s)"
    using load_ok [OF assms(1), of 0] assms(2,4) by auto
  have "scan (mbr_fat_entry ?m) 0 4 = Some 0"
    by (rule scan_SomeI) (simp_all add: mbr_fat_entry_def mbr_fields [OF assms(3)])
  then show thesis
    using that [of a] a assms(5) mbr_fields [OF assms(3)] by (simp add: find_fat_partition_def)
qed

lemma create_mbr_ok:
  assumes "ready (pdisk s)" "length (sec s) = 512" "0 < cap" "l \<noteq> 0" "n \<noteq> 0"
  obtains a where "part_create_mbr_fat32 p l n s = (0, s\<lparr>sec := mbr_with_partition l n (sect (pdisk s) 0), pdisk := a\<rparr>)"
    "ready a" "sect a = (sect (pdisk s))(0 := mbr_with_partition l n (sect (pdisk s) 0))"
proof -
  let ?D = "sect (pdisk s)" and ?m = "mbr_with_partition l n (sect (pdisk s) 0)"
  have len: "length (?D 0) = 512" by (rule sect_length [OF assms(1)])
  obtain a1 where r: "ata_read_sectors p 0 1 (pdisk s) = (0, sectors_at ?D 0 1, a1)" "ready a1" "sect a1 = ?D"
    using read_ok [OF assms(1), of 1 0] assms(3) by auto
  have "put_at 0 (sectors_at ?D 0 1) (sec s) = ?D 0" using assms(2) len by (simp add: sectors_at_def put_at_def)
  with r have read: "read_sec p 0 s = (0, s\<lparr>sec := ?D 0, pdisk := a1\<rparr>)" by (simp add: read_sec_def)
  obtain a2 where w: "ata_write_sectors p 0 1 ?m a1 = (0, a2)" "ready a2" "sect a2 = put_sectors 0 1 ?m ?D"
    using write_ok [OF r(2), of 1 0 ?m] r(3) assms(3) len by auto
  have "put_sectors 0 1 ?m ?D = ?D(0 := ?m)" using len by (intro ext) (auto simp: put_sectors_def)
  moreover have "ata_present (pdisk s)" using ready_present [OF assms(1)] by (simp add: ata_present_def)
  moreover have "\<not> l < 1" using assms(4) by (simp add: word_less_nat_alt unat_gt_0)
  ultimately show thesis
    using that [of a2] w read assms(5) by (simp add: part_create_mbr_fat32_def write_sec_def)
qed

lemma cold_mount:
  assumes "buf_ok s" "partition_lba s = 0" "length b = 512" "sect (disk s) 0 = mbr_with_partition l n b"
    "\<not> is_boot_sector (mbr_with_partition l n b)" "sect (disk s) (unat l) = mkfs_boot_sector l n"
    "2048 \<le> unat n" "unat n \<le> 2 ^ 28" "unat l < cap"
  obtains s' where "fat32_mount p s = (FAT_OK, s')" "mounted_at l n s'" "ready (disk s')" "sect (disk s') = sect (disk s)"
    "length (sector_buf s') = 512" "cluster_buf s' = cluster_buf s"
proof -
  let ?s0 = "s\<lparr>mounted := False, disk := disk s\<rparr>"
  have ok: "buf_ok ?s0" "sect (disk ?s0) 0 = mbr_with_partition l n b" "0 < cap" using assms(1,4,9) by (simp_all add: buf_ok_def)
  obtain a where a: "find_fat_partition p ?s0 = (0, ?s0\<lparr>sector_buf := mbr_with_partition l n b, disk := a, partition_lba := l\<rparr>)"
    "ready a" "sect a = sect (disk ?s0)"
    using mbr_finds [OF ok(1,3) assms(3) ok(2) assms(5)] by blast
  let ?s1 = "?s0\<lparr>sector_buf := mbr_with_partition l n b, disk := a, partition_lba := l\<rparr>"
  have "buf_ok ?s1" "sect (disk ?s1) (unat l) = mkfs_boot_sector l n" using a(2,3) assms(3,6) by (simp_all add: buf_ok_def)
  then obtain s1 where s1: "try_mount_at p l ?s1 = (0, s1)" "mounted_at l n (s1\<lparr>mounted := True\<rparr>)" "ready (disk s1)"
    "sect (disk s1) = sect (disk ?s1)" "length (sector_buf s1) = 512" "cluster_buf s1 = cluster_buf ?s1"
    using assms(7-9) by (rule try_mount_formatted)
  have "ata_present (disk s)" using ready_present assms(1) by (simp add: ata_present_def buf_ok_def)
  then have "fat32_mount p s = (FAT_OK, s1\<lparr>mounted := True\<rparr>)"
    using s1(1) a(1) assms(2) by (simp add: fat32_mount_def Let_def)
  then show thesis using that [of "s1\<lparr>mounted := True\<rparr>"] s1(2-6) a(3) by simp
qed

end

text \<open>C22. Partitioning and formatting a disk lasts: after \<open>part_create_mbr_fat32\<close> and \<open>fat32_mkfs\<close> the boot
  code in the first sector is the old one (or the halting stub when there was none), and a file system module
  that starts afresh finds the partition through the MBR and mounts an empty, well-formed volume there. The
  boot code must not itself look like a FAT boot sector.\<close>

theorem partition_format_mount:
  fixes s :: "drive part" and f f' :: "drive fat32"
  assumes "drive_ready cap (pdisk s)" "length (sec s) = 512" "l \<noteq> 0" "2048 \<le> unat n" "unat l + unat n \<le> min cap (2 ^ 28)"
    "table_fits (unat n)" "\<not> is_boot_sector (mbr_with_partition l n (drive_sect (pdisk s) 0))"
    "partition_lba f' = 0" "length (sector_buf f') = 512" "cluster_buf f' = replicate 4096 0"
  shows "\<exists>s1 f1 f2. part_create_mbr_fat32 pio l n s = (0, s1) \<and> fat32_mkfs pio l n (f\<lparr>disk := pdisk s1\<rparr>) = (FAT_OK, f1)
     \<and> fat32_mount pio (f'\<lparr>disk := disk f1\<rparr>) = (FAT_OK, f2) \<and> partition_lba f2 = l \<and> volume_ok cap f2 [2]
     \<and> (\<forall>w. match_at w (located (vol_data f2) [2]) = None)
     \<and> (\<forall>i < 446. drive_sect (disk f2) 0 ! i = mbr_code (drive_sect (pdisk s) 0) ! i)"
proof -
  let ?b = "drive_sect (pdisk s) 0" and ?m = "mbr_with_partition l n (drive_sect (pdisk s) 0)"
  have n: "unat n \<le> 2 ^ 28" using assms(5) by simp
  have len: "length ?b = 512" using assms(1) by (simp add: drive_ready_def)
  have n0: "n \<noteq> 0" using assms(4) by auto
  have cap: "0 < min cap (2 ^ 28)" "unat l < min cap (2 ^ 28)" "0 < unat l"
    using assms(3,4,5) by (auto simp: unat_gt_0)
  obtain a where c: "part_create_mbr_fat32 pio l n s = (0, s\<lparr>sec := ?m, pdisk := a\<rparr>)" "drive_ready cap a"
    "drive_sect a = (drive_sect (pdisk s))(0 := ?m)"
    using pio_disk.create_mbr_ok [OF assms(1,2) cap(1) assms(3) n0] by blast
  have "drive_ready cap (disk (f\<lparr>disk := a\<rparr>))" using c(2) by simp
  then obtain f1 where m: "fat32_mkfs pio l n (f\<lparr>disk := a\<rparr>) = (FAT_OK, f1)" "drive_ready cap (disk f1)"
    "drive_sect (disk f1) = mkfs_sectors l n (drive_sect a)" using pio_mkfs [OF _ assms(4,5)] by (metis fat32.select_convs(12) fat32.surjective fat32.update_convs(12))
  let ?f = "f'\<lparr>disk := disk f1\<rparr>"
  have zero: "drive_sect (disk ?f) 0 = ?m"
    using mkfs_sectors_outside [OF assms(4) n, of 0 l "drive_sect a"] cap(3) m(3) c(3) by simp
  have boot: "drive_sect (disk ?f) (unat l) = mkfs_boot_sector l n" using m(3) mkfs_table_bounds(1) [OF assms(4)] unat_mkfs_fat_sz [OF assms(4) n] by (simp add: mkfs_sectors_at(1))
  have "pio_disk.buf_ok cap ?f" using m(2) assms(9) by (simp add: pio_disk.buf_ok_def)
  then obtain f2 where f2: "fat32_mount pio ?f = (FAT_OK, f2)" "mounted_at l n f2" "drive_ready cap (disk f2)"
    "drive_sect (disk f2) = drive_sect (disk ?f)" "length (sector_buf f2) = 512" "cluster_buf f2 = cluster_buf ?f"
    using pio_disk.cold_mount [OF _ _ len zero assms(7) boot assms(4) n cap(2)] assms(8) by auto
  have "volume_ok cap f2 [2]" "match_at w (located (vol_data f2) [2]) = None" for w
    using formatted_volume [OF f2(2) assms(4,5,6) f2(5) _ f2(3)] f2(4,6) m(3) assms(10) by simp_all
  moreover have "drive_sect (disk f2) 0 ! i = mbr_code ?b ! i" if "i < 446" for i
    using f2(4) zero mbr_fields(5) [OF len that] by simp
  moreover have "partition_lba f2 = l" using f2(2) by (simp add: mounted_at_def)
  ultimately show ?thesis using c(1) m(1) f2(1)
    by (intro exI [of _ "s\<lparr>sec := ?m, pdisk := a\<rparr>"] exI [of _ f1] exI [of _ f2]) simp
qed

definition demo_part :: "drive part" where
  "demo_part = \<lparr>sec = replicate 512 0, pdisk = demo_drive\<rparr>"

theorem partition_format_mount_witness:
  "\<exists>s1 f1 f2. part_create_mbr_fat32 pio 63 2048 demo_part = (0, s1)
     \<and> fat32_mkfs pio 63 2048 (demo_volume\<lparr>disk := pdisk s1\<rparr>) = (FAT_OK, f1)
     \<and> fat32_mount pio (demo_volume\<lparr>disk := disk f1\<rparr>) = (FAT_OK, f2) \<and> partition_lba f2 = 63"
proof -
  have len: "length (drive_sect demo_drive 0) = 512" by (simp add: demo_drive_def)
  have "mbr_code (drive_sect demo_drive 0) ! i = 0" if "4 \<le> i" "i < 512" for i
    using that by (simp add: mbr_code_def demo_drive_def put_at_def nth_append)
  then have "le16 (mbr_with_partition 63 2048 (drive_sect demo_drive 0)) 11 = 0"
    unfolding le16_def by (simp add: mbr_fields(5) [OF len])
  then have "\<not> is_boot_sector (mbr_with_partition 63 2048 (drive_sect (pdisk demo_part) 0))"
    by (simp add: is_boot_sector_def demo_part_def)
  moreover have "table_fits (unat (2048 :: u32))"
    by (simp add: table_fits_def mkfs_clusters_def mkfs_table_def table_sectors_def)
  moreover have "drive_ready 4096 (pdisk demo_part)" "length (sec demo_part) = 512" "partition_lba demo_volume = 0"
    "length (sector_buf demo_volume) = 512" "cluster_buf demo_volume = replicate 4096 0"
    using demo_drive_ready by (simp_all add: demo_part_def demo_volume_def)
  ultimately show ?thesis
    using partition_format_mount [of 4096 demo_part 63 2048 demo_volume demo_volume] by fastforce
qed

end
