(* ===== verification/Elf.thy ===== *)
theory Elf
  imports Umem
begin

unbundle bit_operations_syntax

text \<open>
  The loader of static executables (\<open>src/src/elf.c\<close>) over the flat memory: the image lies at an address
  of the same memory into which its segments are copied, so every field is read when the code reads it.
\<close>

section \<open>Definitions\<close>

definition ld16 :: "umem \<Rightarrow> u32 \<Rightarrow> u16" where
  "ld16 m a = ucast (m a) OR push_bit 8 (ucast (m (a + 1)))"

datatype elf_result =
  ELF_OK | ELF_ERR_BAD_MAGIC | ELF_ERR_NOT_32 | ELF_ERR_NOT_EXEC | ELF_ERR_BAD_ARCH | ELF_ERR_NO_LOAD | ELF_ERR_TOO_BIG

text \<open>Fields of the file header at an address and of a program header at an address.\<close>

abbreviation e_type :: "umem \<Rightarrow> u32 \<Rightarrow> u16" where "e_type m a \<equiv> ld16 m (a + 16)"
abbreviation e_machine :: "umem \<Rightarrow> u32 \<Rightarrow> u16" where "e_machine m a \<equiv> ld16 m (a + 18)"
abbreviation e_entry :: "umem \<Rightarrow> u32 \<Rightarrow> u32" where "e_entry m a \<equiv> ld32 m (a + 24)"
abbreviation e_phoff :: "umem \<Rightarrow> u32 \<Rightarrow> u32" where "e_phoff m a \<equiv> ld32 m (a + 28)"
abbreviation e_phentsize :: "umem \<Rightarrow> u32 \<Rightarrow> u16" where "e_phentsize m a \<equiv> ld16 m (a + 42)"
abbreviation e_phnum :: "umem \<Rightarrow> u32 \<Rightarrow> u16" where "e_phnum m a \<equiv> ld16 m (a + 44)"
abbreviation p_type :: "umem \<Rightarrow> u32 \<Rightarrow> u32" where "p_type m h \<equiv> ld32 m h"
abbreviation p_offset :: "umem \<Rightarrow> u32 \<Rightarrow> u32" where "p_offset m h \<equiv> ld32 m (h + 4)"
abbreviation p_vaddr :: "umem \<Rightarrow> u32 \<Rightarrow> u32" where "p_vaddr m h \<equiv> ld32 m (h + 8)"
abbreviation p_filesz :: "umem \<Rightarrow> u32 \<Rightarrow> u32" where "p_filesz m h \<equiv> ld32 m (h + 16)"
abbreviation p_memsz :: "umem \<Rightarrow> u32 \<Rightarrow> u32" where "p_memsz m h \<equiv> ld32 m (h + 20)"

definition EHDR_SIZE :: u32 where "EHDR_SIZE = 52"
definition ELFCLASS32 :: u8 where "ELFCLASS32 = 1"
definition ELFDATA2LSB :: u8 where "ELFDATA2LSB = 1"
definition ET_EXEC :: u16 where "ET_EXEC = 2"
definition EM_386 :: u16 where "EM_386 = 3"
definition PT_LOAD :: u32 where "PT_LOAD = 1"

definition copy_byte :: "u32 \<Rightarrow> u32 \<Rightarrow> nat \<Rightarrow> umem \<Rightarrow> umem" where
  "copy_byte dst src i m = m(dst + of_nat i := m (src + of_nat i))"

definition mem_copy :: "u32 \<Rightarrow> u32 \<Rightarrow> u32 \<Rightarrow> umem \<Rightarrow> umem" where
  "mem_copy dst src n m = fold (copy_byte dst src) [0..<unat n] m"

definition mem_clear :: "u32 \<Rightarrow> u32 \<Rightarrow> umem \<Rightarrow> umem" where
  "mem_clear dst n m = fold (\<lambda>i m. m(dst + of_nat i := 0)) [0..<unat n] m"

definition elf_magic :: "umem \<Rightarrow> u32 \<Rightarrow> bool" where
  "elf_magic m a \<longleftrightarrow> m a = 0x7F \<and> m (a + 1) = byte_of CHR ''E'' \<and> m (a + 2) = byte_of CHR ''L'' \<and> m (a + 3) = byte_of CHR ''F''"

definition phdr_at :: "umem \<Rightarrow> u32 \<Rightarrow> nat \<Rightarrow> u32" where
  "phdr_at m img i = img + e_phoff m img + of_nat i * ucast (e_phentsize m img)"

text \<open>The bytes of one segment: copied from the file, then cleared up to the size in memory.\<close>

definition load_segment :: "u32 \<Rightarrow> u32 \<Rightarrow> u32 \<Rightarrow> umem \<Rightarrow> umem" where
  "load_segment img h addr m =
     (let m' = mem_copy addr (img + p_offset m h) (p_filesz m h) m in
      if p_memsz m' h > p_filesz m' h then mem_clear (addr + p_filesz m' h) (p_memsz m' h - p_filesz m' h) m' else m')"

lemma header_index: "i < unat (n :: u16) \<Longrightarrow> 65535 - i < 65536 - i"
proof -
  assume "i < unat n"
  moreover have "unat n < 65536" using unsigned_less [of n] by simp
  ultimately show ?thesis by linarith
qed

function elf_segments :: "u32 \<Rightarrow> u32 \<Rightarrow> nat \<Rightarrow> bool \<Rightarrow> umem \<Rightarrow> elf_result \<times> bool \<times> umem" where
  "elf_segments img sz i loaded m =
     (if i < unat (e_phnum m img) then
        let h = phdr_at m img i in
        if p_type m h \<noteq> PT_LOAD then elf_segments img sz (Suc i) loaded m
        else if p_offset m h + p_filesz m h > sz then (ELF_ERR_NO_LOAD, loaded, m)
        else if p_vaddr m h < 0x00100000 \<or> p_vaddr m h + p_memsz m h > 0x04000000 then (ELF_ERR_TOO_BIG, loaded, m)
        else elf_segments img sz (Suc i) True (load_segment img h (p_vaddr m h) m)
      else (ELF_OK, loaded, m))"
  by pat_completeness auto
termination
  by (relation "measure (\<lambda>(img, sz, i, loaded, m). 65536 - i)") (auto intro: header_index)

definition elf_load :: "u32 \<Rightarrow> u32 \<Rightarrow> umem \<Rightarrow> elf_result \<times> u32 option \<times> umem" where
  "elf_load img sz m =
     (if sz < EHDR_SIZE then (ELF_ERR_BAD_MAGIC, None, m)
      else if \<not> elf_magic m img then (ELF_ERR_BAD_MAGIC, None, m)
      else if m (img + 4) \<noteq> ELFCLASS32 then (ELF_ERR_NOT_32, None, m)
      else if m (img + 5) \<noteq> ELFDATA2LSB then (ELF_ERR_BAD_MAGIC, None, m)
      else if e_type m img \<noteq> ET_EXEC then (ELF_ERR_NOT_EXEC, None, m)
      else if e_machine m img \<noteq> EM_386 then (ELF_ERR_BAD_ARCH, None, m)
      else if e_phoff m img + ucast (e_phnum m img) * ucast (e_phentsize m img) > sz then (ELF_ERR_NO_LOAD, None, m)
      else
        let (r, loaded, m) = elf_segments img sz 0 False m in
        if r \<noteq> ELF_OK then (r, None, m)
        else if \<not> loaded then (ELF_ERR_NO_LOAD, None, m)
        else (ELF_OK, Some (e_entry m img), m))"

fun elf_strerror :: "elf_result \<Rightarrow> cstring" where
  "elf_strerror ELF_OK = ''OK''"
| "elf_strerror ELF_ERR_BAD_MAGIC = ''not an ELF file''"
| "elf_strerror ELF_ERR_NOT_32 = ''not ELF32''"
| "elf_strerror ELF_ERR_NOT_EXEC = ''not an executable (ET_EXEC)''"
| "elf_strerror ELF_ERR_BAD_ARCH = ''not i386''"
| "elf_strerror ELF_ERR_NO_LOAD = ''no loadable segments''"
| "elf_strerror ELF_ERR_TOO_BIG = ''segment outside allowed load window''"

section \<open>Ranges of addresses\<close>

text \<open>The \<open>n\<close> addresses from \<open>a\<close> on, which may pass the end of the address space.\<close>

definition within :: "u32 \<Rightarrow> nat \<Rightarrow> u32 \<Rightarrow> bool" where
  "within a n x \<longleftrightarrow> unat (x - a) < n"

lemma unat_of_nat32: "k < 2 ^ 32 \<Longrightarrow> unat (of_nat k :: u32) = k"
  by (simp add: unsigned_of_nat take_bit_nat_eq_self)

lemma unat_le32: "unat (n :: u32) \<le> 2 ^ 32"
proof -
  have "unat n < 2 ^ LENGTH(32)" by (rule unsigned_less)
  then show ?thesis by simp
qed

lemma within_ex: "n \<le> 2 ^ 32 \<Longrightarrow> within a n x \<longleftrightarrow> (\<exists>i < n. x = a + of_nat i)"
proof
  assume "within a n x"
  then show "\<exists>i < n. x = a + of_nat i" by (intro exI [of _ "unat (x - a)"]) (simp add: within_def)
next
  assume n: "n \<le> 2 ^ 32" "\<exists>i < n. x = a + of_nat i"
  then obtain i where "i < n" "x = a + of_nat i" by blast
  with n(1) show "within a n x" by (simp add: within_def unat_of_nat32)
qed

lemma within_offset: "k < n \<Longrightarrow> k < 2 ^ 32 \<Longrightarrow> within a n (a + of_nat k)"
  by (simp add: within_def unat_of_nat32)

lemma within_iff:
  assumes "unat a + n \<le> 2 ^ 32"
  shows "within a n x \<longleftrightarrow> unat a \<le> unat x \<and> unat x < unat a + n"
  using assms unsigned_less [of x] by (auto simp: within_def unat_sub_if')

definition apart :: "u32 \<Rightarrow> nat \<Rightarrow> u32 \<Rightarrow> nat \<Rightarrow> bool" where
  "apart a n b k \<longleftrightarrow> (\<forall>x. \<not> (within a n x \<and> within b k x))"

lemma fold_copy:
  assumes "n \<le> 2 ^ 32" "\<And>i j. i < n \<Longrightarrow> j < n \<Longrightarrow> src + of_nat i \<noteq> dst + of_nat j"
  shows "fold (copy_byte dst src) [0..<n] m x =
     (if \<exists>i < n. x = dst + of_nat i then m (src + (x - dst)) else (m :: umem) x)"
  using assms
proof (induction n arbitrary: x)
  case (Suc n)
  let ?f = "fold (copy_byte dst src) [0..<n] m"
  have IH: "?f x = (if \<exists>i < n. x = dst + of_nat i then m (src + (x - dst)) else m x)" for x
    using Suc.IH [of x] Suc.prems by simp
  have "\<not> (\<exists>i < n. src + of_nat n = dst + of_nat i)" using Suc.prems(2) by (metis less_SucI lessI)
  with IH [of "src + of_nat n"] have "?f (src + of_nat n) = m (src + of_nat n)" by simp
  then have "copy_byte dst src n ?f x = (if x = dst + of_nat n then m (src + of_nat n) else ?f x)"
    by (simp add: copy_byte_def)
  then show ?case using IH [of x] by (auto simp: less_Suc_eq)
qed simp

lemma mem_copy_eq:
  assumes "apart dst (unat n) src (unat n)"
  shows "mem_copy dst src n m x = (if within dst (unat n) x then m (src + (x - dst)) else m x)"
proof -
  note n = unat_le32 [of n]
  have "src + of_nat i \<noteq> dst + of_nat j" if "i < unat n" "j < unat n" for i j
    using assms that n by (auto simp: apart_def within_ex)
  with fold_copy [OF n] show ?thesis unfolding mem_copy_def within_ex [OF n] by blast
qed

lemma mem_clear_eq: "mem_clear dst n m x = (if within dst (unat n) x then 0 else m x)"
proof -
  note n = unat_le32 [of n]
  have "fold (\<lambda>i m. m(dst + of_nat i := 0)) [0..<k] m x = (if \<exists>i < k. x = dst + of_nat i then 0 else m x)" for k
    by (induction k) (auto simp: less_Suc_eq)
  then show ?thesis unfolding mem_clear_def within_ex [OF n] by blast
qed

lemma within_rest:
  assumes "unat f \<le> unat n"
  shows "within (a + f) (unat (n - f)) x \<longleftrightarrow> within a (unat n) x \<and> unat f \<le> unat (x - a)"
proof -
  have d: "x - (a + f) = (x - a) - f" by simp
  have n: "unat (n - f) = unat n - unat f" using assms by (simp add: unat_sub_if')
  have "unat n < 2 ^ LENGTH(32)" by (rule unsigned_less)
  with assms show ?thesis unfolding within_def d n unat_sub_if' [of "x - a" f] by auto
qed

lemma within_offset_word: "unat w + j < n \<Longrightarrow> n \<le> 2 ^ 32 \<Longrightarrow> within a n (a + w + of_nat j)"
  using within_offset [of "unat w + j" n a] by (simp add: add.assoc)

section \<open>A well-formed executable\<close>

definition same_on :: "u32 \<Rightarrow> nat \<Rightarrow> umem \<Rightarrow> umem \<Rightarrow> bool" where
  "same_on a n m m' \<longleftrightarrow> (\<forall>x. within a n x \<longrightarrow> m' x = m x)"

lemma ld_same:
  assumes "same_on a n m m'" "n \<le> 2 ^ 32"
  shows "unat w + 4 \<le> n \<Longrightarrow> ld32 m' (a + w) = ld32 m (a + w)" "unat w + 2 \<le> n \<Longrightarrow> ld16 m' (a + w) = ld16 m (a + w)"
    "unat w + 1 \<le> n \<Longrightarrow> m' (a + w) = m (a + w)"
proof -
  have "m' (a + w + of_nat j) = m (a + w + of_nat j)" if "unat w + j < n" for j
    using assms that by (auto simp: same_on_def dest: within_offset_word)
  from this [of 0] this [of 1] this [of 2] this [of 3] show
    "unat w + 4 \<le> n \<Longrightarrow> ld32 m' (a + w) = ld32 m (a + w)" "unat w + 2 \<le> n \<Longrightarrow> ld16 m' (a + w) = ld16 m (a + w)"
    "unat w + 1 \<le> n \<Longrightarrow> m' (a + w) = m (a + w)"
    by (simp_all add: ld32_def ld16_def)
qed

abbreviation loads :: "umem \<Rightarrow> u32 \<Rightarrow> nat \<Rightarrow> bool" where
  "loads m img i \<equiv> i < unat (e_phnum m img) \<and> p_type m (phdr_at m img i) = PT_LOAD"

abbreviation seg_addr :: "umem \<Rightarrow> u32 \<Rightarrow> nat \<Rightarrow> u32" where "seg_addr m img i \<equiv> p_vaddr m (phdr_at m img i)"
abbreviation seg_mem :: "umem \<Rightarrow> u32 \<Rightarrow> nat \<Rightarrow> nat" where "seg_mem m img i \<equiv> unat (p_memsz m (phdr_at m img i))"
abbreviation seg_file :: "umem \<Rightarrow> u32 \<Rightarrow> nat \<Rightarrow> nat" where "seg_file m img i \<equiv> unat (p_filesz m (phdr_at m img i))"

text \<open>The header is accepted and the table of segments lies in the file.\<close>

definition elf_header_ok :: "u32 \<Rightarrow> u32 \<Rightarrow> umem \<Rightarrow> bool" where
  "elf_header_ok img sz m \<longleftrightarrow> EHDR_SIZE \<le> sz \<and> elf_magic m img \<and> m (img + 4) = ELFCLASS32 \<and> m (img + 5) = ELFDATA2LSB
     \<and> e_type m img = ET_EXEC \<and> e_machine m img = EM_386 \<and> 32 \<le> unat (e_phentsize m img)
     \<and> unat (e_phoff m img) + unat (e_phnum m img) * unat (e_phentsize m img) \<le> unat sz"

text \<open>Every segment lies in the file and in the window, apart from the image and from the other segments.\<close>

definition elf_segments_ok :: "u32 \<Rightarrow> u32 \<Rightarrow> umem \<Rightarrow> bool" where
  "elf_segments_ok img sz m \<longleftrightarrow>
     (\<forall>i. loads m img i \<longrightarrow>
        unat (p_offset m (phdr_at m img i)) + seg_file m img i \<le> unat sz \<and> seg_file m img i \<le> seg_mem m img i
        \<and> 0x00100000 \<le> unat (seg_addr m img i) \<and> unat (seg_addr m img i) + seg_mem m img i \<le> 0x04000000
        \<and> apart (seg_addr m img i) (seg_mem m img i) img (unat sz)
        \<and> (\<forall>j. loads m img j \<longrightarrow> i \<noteq> j \<longrightarrow> apart (seg_addr m img i) (seg_mem m img i) (seg_addr m img j) (seg_mem m img j)))"

definition in_segment :: "umem \<Rightarrow> u32 \<Rightarrow> nat \<Rightarrow> u32 \<Rightarrow> bool" where
  "in_segment m img i x \<longleftrightarrow> loads m img i \<and> within (seg_addr m img i) (seg_mem m img i) x"

definition segment_byte :: "umem \<Rightarrow> u32 \<Rightarrow> nat \<Rightarrow> u32 \<Rightarrow> u8" where
  "segment_byte m img i x =
     (let d = x - seg_addr m img i in
      if unat d < seg_file m img i then m (img + p_offset m (phdr_at m img i) + d) else 0)"

lemma header_offset:
  assumes "elf_header_ok img sz m" "i < unat (e_phnum m img)"
  obtains w where "phdr_at m img i = img + w" "unat w + 32 \<le> unat sz"
proof
  let ?e = "unat (e_phentsize m img)" and ?w = "e_phoff m img + of_nat i * ucast (e_phentsize m img)"
  show "phdr_at m img i = img + ?w" by (simp add: phdr_at_def add.assoc)
  have "unat sz < 2 ^ LENGTH(32)" by (rule unsigned_less)
  moreover have "(i + 1) * ?e \<le> unat (e_phnum m img) * ?e" using assms(2) by (intro mult_le_mono1) simp
  ultimately have b: "unat (e_phoff m img) + i * ?e + ?e \<le> unat sz" "unat sz < 2 ^ 32" "32 \<le> ?e"
    using assms(1) by (simp_all add: elf_header_ok_def)
  have "?w = of_nat (unat (e_phoff m img) + i * ?e)" by simp
  then have "unat ?w = unat (e_phoff m img) + i * ?e" using b by (simp only: unat_of_nat32)
  with b show "unat ?w + 32 \<le> unat sz" by simp
qed

lemma header_table:
  assumes "elf_header_ok img sz m"
  shows "unat (e_phoff m img + ucast (e_phnum m img) * ucast (e_phentsize m img)) \<le> unat sz"
proof -
  have "unat sz < 2 ^ LENGTH(32)" by (rule unsigned_less)
  then have b: "unat (e_phoff m img) + unat (e_phnum m img) * unat (e_phentsize m img) < 2 ^ 32"
    "unat (e_phoff m img) + unat (e_phnum m img) * unat (e_phentsize m img) \<le> unat sz"
    using assms by (simp_all add: elf_header_ok_def)
  have "e_phoff m img + ucast (e_phnum m img) * ucast (e_phentsize m img) =
      of_nat (unat (e_phoff m img) + unat (e_phnum m img) * unat (e_phentsize m img))" by simp
  then show ?thesis using b by (simp only: unat_of_nat32)
qed

lemma header_same:
  assumes "elf_header_ok img sz m" "same_on img (unat sz) m m'"
  shows "e_phnum m' img = e_phnum m img" "i < unat (e_phnum m img) \<Longrightarrow> phdr_at m' img i = phdr_at m img i"
    "e_entry m' img = e_entry m img"
proof -
  have sz: "52 \<le> unat sz" using assms(1) by (simp add: elf_header_ok_def EHDR_SIZE_def word_le_nat_alt)
  note same = ld_same [OF assms(2) unat_le32]
  show "e_phnum m' img = e_phnum m img" "e_entry m' img = e_entry m img" using same(1) [of 24] same(2) [of 44] sz by simp_all
  show "phdr_at m' img i = phdr_at m img i"
    using same(1) [of 28] same(2) [of 42] sz by (simp add: phdr_at_def)
qed

lemma phdr_same:
  assumes "elf_header_ok img sz m" "same_on img (unat sz) m m'" "i < unat (e_phnum m img)"
  defines "h \<equiv> phdr_at m img i"
  shows "p_type m' h = p_type m h" "p_offset m' h = p_offset m h" "p_vaddr m' h = p_vaddr m h"
    "p_filesz m' h = p_filesz m h" "p_memsz m' h = p_memsz m h"
proof -
  obtain w where w: "h = img + w" "unat w + 32 \<le> unat sz" unfolding h_def by (rule header_offset [OF assms(1,3)])
  have "unat sz < 2 ^ LENGTH(32)" by (rule unsigned_less)
  with w(2) have small: "unat (w + 4) = unat w + 4" "unat (w + 8) = unat w + 8" "unat (w + 16) = unat w + 16" "unat (w + 20) = unat w + 20"
    by (simp_all add: unat_plus_if')
  note same = ld_same(1) [OF assms(2) unat_le32]
  show "p_type m' h = p_type m h" "p_offset m' h = p_offset m h" "p_vaddr m' h = p_vaddr m h"
    "p_filesz m' h = p_filesz m h" "p_memsz m' h = p_memsz m h"
    unfolding w(1) using same [of w] same [of "w + 4"] same [of "w + 8"] same [of "w + 16"] same [of "w + 20"] w(2) small
    by (simp_all add: add.assoc)
qed

lemma apart_mono: "apart a n b k \<Longrightarrow> n' \<le> n \<Longrightarrow> (\<And>x. within b' k' x \<Longrightarrow> within b k x) \<Longrightarrow> apart a n' b' k'"
  unfolding apart_def within_def using less_le_trans by blast

lemma within_part:
  assumes "within (a + w) k x" "unat w + k \<le> n" "n \<le> 2 ^ 32"
  shows "within a n x"
proof -
  have "k \<le> 2 ^ 32" using assms(2,3) by simp
  then obtain j where "j < k" "x = a + w + of_nat j" using assms(1) within_ex by blast
  with assms(2,3) show ?thesis by (auto intro: within_offset_word)
qed

lemma load_segment_eq:
  assumes "elf_header_ok img sz m" "elf_segments_ok img sz m" "same_on img (unat sz) m m'" "loads m img i"
  shows "load_segment img (phdr_at m img i) (seg_addr m img i) m' x =
     (if in_segment m img i x then segment_byte m img i x else m' x)"
    "same_on img (unat sz) m (load_segment img (phdr_at m img i) (seg_addr m img i) m')"
proof -
  let ?h = "phdr_at m img i" and ?a = "seg_addr m img i" and ?f = "p_filesz m (phdr_at m img i)" and ?n = "p_memsz m (phdr_at m img i)"
  let ?src = "img + p_offset m ?h" and ?m1 = "mem_copy (seg_addr m img i) (img + p_offset m (phdr_at m img i)) (p_filesz m (phdr_at m img i)) m'"
  have i: "i < unat (e_phnum m img)" using assms(4) by simp
  have ok: "unat (p_offset m ?h) + unat ?f \<le> unat sz" and le: "unat ?f \<le> unat ?n" and image: "apart ?a (unat ?n) img (unat sz)"
    using assms(2,4) by (auto simp: elf_segments_ok_def)
  have src: "within img (unat sz) y" if "within ?src (unat ?f) y" for y
    using within_part [OF that] ok unat_le32 by blast
  have "apart ?a (unat ?f) ?src (unat ?f)" using image le src by (rule apart_mono)
  then have m1: "?m1 y = (if within ?a (unat ?f) y then m' (?src + (y - ?a)) else m' y)" for y by (rule mem_copy_eq)
  have out: "\<not> within ?a (unat ?n) y" if "within img (unat sz) y" for y using image that by (auto simp: apart_def)
  have "\<not> within ?a (unat ?f) y" if "within img (unat sz) y" for y using out [OF that] le by (auto simp: within_def)
  with m1 assms(3) have same1: "same_on img (unat sz) m ?m1" by (simp add: same_on_def)
  note h = phdr_same [OF assms(1,3) i] and h1 = phdr_same [OF assms(1) same1 i]
  have copied: "m' (?src + (y - ?a)) = m (?src + (y - ?a))" if "unat (y - ?a) < unat ?f" for y
    using assms(3) src [of "?src + (y - ?a)"] that by (simp add: same_on_def within_def)
  have zero: "within (?a + ?f) (unat (?n - ?f)) y \<longleftrightarrow> within ?a (unat ?n) y \<and> unat ?f \<le> unat (y - ?a)" for y
    using le by (rule within_rest)
  have sub: "within ?a (unat ?n) y" if "unat (y - ?a) < unat ?f" for y using that le by (simp add: within_def)
  show eq: "load_segment img ?h ?a m' x = (if in_segment m img i x then segment_byte m img i x else m' x)" for x
  proof (cases "?f < ?n")
    case True
    then have "load_segment img ?h ?a m' x = mem_clear (?a + ?f) (?n - ?f) ?m1 x" by (simp add: load_segment_def h h1 Let_def)
    also have "\<dots> = (if within ?a (unat ?n) x then segment_byte m img i x else m' x)"
      unfolding mem_clear_eq zero m1 using copied sub by (auto simp: segment_byte_def Let_def within_def)
    finally show ?thesis using assms(4) by (simp add: in_segment_def)
  next
    case False
    then have "load_segment img ?h ?a m' x = ?m1 x" "unat ?n = unat ?f"
      using le by (simp_all add: load_segment_def h h1 Let_def word_less_nat_alt)
    then show ?thesis using m1 copied assms(4) by (simp add: in_segment_def segment_byte_def Let_def within_def)
  qed
  show "same_on img (unat sz) m (load_segment img ?h ?a m')"
    using eq out assms(3) by (auto simp: same_on_def in_segment_def)
qed

lemma segment_accepted:
  assumes "elf_segments_ok img sz m" "loads m img i"
  defines "h \<equiv> phdr_at m img i"
  shows "\<not> p_offset m h + p_filesz m h > sz" "\<not> p_vaddr m h < 0x00100000" "\<not> p_vaddr m h + p_memsz m h > 0x04000000"
proof -
  have ok: "unat (p_offset m h) + unat (p_filesz m h) \<le> unat sz" "0x00100000 \<le> unat (p_vaddr m h)"
    "unat (p_vaddr m h) + unat (p_memsz m h) \<le> 0x04000000"
    using assms(1,2) by (auto simp: elf_segments_ok_def h_def)
  have "unat sz < 2 ^ LENGTH(32)" by (rule unsigned_less)
  with ok(1) have "unat (p_offset m h + p_filesz m h) \<le> unat sz" by (simp add: unat_plus_if')
  moreover have "unat (p_vaddr m h + p_memsz m h) \<le> 0x04000000" using ok(3) by (simp add: unat_plus_if')
  ultimately show "\<not> p_offset m h + p_filesz m h > sz" "\<not> p_vaddr m h < 0x00100000" "\<not> p_vaddr m h + p_memsz m h > 0x04000000"
    using ok(2) by (simp_all add: word_less_nat_alt not_less)
qed

text \<open>The memory after the segments from \<open>i\<close> on have been loaded into \<open>m'\<close>.\<close>

definition loaded_from :: "umem \<Rightarrow> u32 \<Rightarrow> nat \<Rightarrow> umem \<Rightarrow> umem \<Rightarrow> bool" where
  "loaded_from m img i m' m'' \<longleftrightarrow> (\<forall>x. (\<forall>j \<ge> i. in_segment m img j x \<longrightarrow> m'' x = segment_byte m img j x)
     \<and> ((\<forall>j \<ge> i. \<not> in_segment m img j x) \<longrightarrow> m'' x = m' x))"

lemma segments_apart:
  "elf_segments_ok img sz m \<Longrightarrow> in_segment m img i x \<Longrightarrow> in_segment m img j x \<Longrightarrow> i = j"
  by (auto simp: elf_segments_ok_def in_segment_def apart_def)

lemma loaded_from_step:
  assumes "elf_segments_ok img sz m" "loaded_from m img (Suc i) m1 m2"
    "\<And>x. m1 x = (if in_segment m img i x then segment_byte m img i x else m' x)"
  shows "loaded_from m img i m' m2"
  unfolding loaded_from_def
proof (intro allI conjI impI)
  fix x j assume "i \<le> j" "in_segment m img j x"
  with segments_apart [OF assms(1)] assms(2,3) show "m2 x = segment_byte m img j x"
    unfolding loaded_from_def by (metis le_antisym not_less_eq_eq)
next
  fix x assume "\<forall>j \<ge> i. \<not> in_segment m img j x"
  with assms(2,3) show "m2 x = m' x" unfolding loaded_from_def by (metis Suc_leD order_refl)
qed

lemma elf_segments_loop:
  assumes "elf_header_ok img sz m" "elf_segments_ok img sz m"
  shows "same_on img (unat sz) m m' \<Longrightarrow> \<exists>m''. elf_segments img sz i loaded m' =
      (ELF_OK, loaded \<or> (\<exists>j \<ge> i. loads m img j), m'') \<and> loaded_from m img i m' m'' \<and> same_on img (unat sz) m m''"
proof (induction "unat (e_phnum m img) - i" arbitrary: i loaded m')
  case 0
  have num: "e_phnum m' img = e_phnum m img" by (rule header_same [OF assms(1) 0(2)])
  have "\<not> i < unat (e_phnum m img)" using 0(1) by simp
  with num 0(2) show ?case by (subst elf_segments.simps) (auto simp: loaded_from_def in_segment_def)
next
  case (Suc k)
  have i: "i < unat (e_phnum m img)" "k = unat (e_phnum m img) - Suc i" using Suc.hyps(2) by simp_all
  note num = header_same(1) [OF assms(1) Suc.prems] and at = header_same(2) [OF assms(1) Suc.prems i(1)]
  note h = phdr_same [OF assms(1) Suc.prems i(1)]
  show ?case
  proof (cases "p_type m (phdr_at m img i) = PT_LOAD")
    case True
    then have l: "loads m img i" using i(1) by simp
    let ?m1 = "load_segment img (phdr_at m img i) (seg_addr m img i) m'"
    note seg = load_segment_eq [OF assms Suc.prems l]
    obtain m2 where m2: "elf_segments img sz (Suc i) True ?m1 = (ELF_OK, True, m2)" "loaded_from m img (Suc i) ?m1 m2"
      "same_on img (unat sz) m m2" using Suc.hyps(1) [OF i(2) seg(2), of True] by auto
    have "elf_segments img sz i loaded m' = (ELF_OK, True, m2)"
      using m2(1) True i(1) num at h segment_accepted [OF assms(2) l] by (subst elf_segments.simps) (simp add: Let_def)
    moreover have "loaded_from m img i m' m2" using assms(2) m2(2) seg(1) by (rule loaded_from_step)
    ultimately show ?thesis using m2(3) l by auto
  next
    case False
    then have no: "\<not> in_segment m img i x" for x by (simp add: in_segment_def)
    obtain m2 where m2: "elf_segments img sz (Suc i) loaded m' = (ELF_OK, loaded \<or> (\<exists>j \<ge> Suc i. loads m img j), m2)"
      "loaded_from m img (Suc i) m' m2" "same_on img (unat sz) m m2" using Suc.hyps(1) [OF i(2) Suc.prems] by blast
    have "elf_segments img sz i loaded m' = elf_segments img sz (Suc i) loaded m'"
      using False i(1) num at h by (subst elf_segments.simps) (simp add: Let_def)
    moreover have "(\<exists>j \<ge> Suc i. loads m img j) \<longleftrightarrow> (\<exists>j \<ge> i. loads m img j)" using False by (metis Suc_leD le_antisym not_less_eq_eq)
    moreover have "loaded_from m img i m' m2" using assms(2) m2(2) by (rule loaded_from_step) (simp add: no)
    ultimately show ?thesis using m2 by auto
  qed
qed

text \<open>C23. Loading a well-formed executable succeeds and yields its entry point; the memory of every segment holds the
  bytes of the file followed by zeros up to its size in memory, and no other byte of memory changes. Well
  formed are executables whose segments lie in the file and in the window from 1 MB to 64 MB, apart from each other
  and from the image.\<close>

theorem elf_load_correct:
  assumes "elf_header_ok img sz m" "elf_segments_ok img sz m" "\<exists>i. loads m img i"
  shows "\<exists>m'. elf_load img sz m = (ELF_OK, Some (e_entry m img), m')
    \<and> (\<forall>x i. in_segment m img i x \<longrightarrow> m' x = segment_byte m img i x)
    \<and> (\<forall>x. (\<forall>i. \<not> in_segment m img i x) \<longrightarrow> m' x = m x)"
proof -
  have "same_on img (unat sz) m m" by (simp add: same_on_def)
  then obtain m' where m': "elf_segments img sz 0 False m = (ELF_OK, True, m')" "loaded_from m img 0 m m'" "same_on img (unat sz) m m'"
    using elf_segments_loop [OF assms(1,2), of m 0 False] assms(3) by auto
  have "unat (e_phoff m img + ucast (e_phnum m img) * ucast (e_phentsize m img)) \<le> unat sz"
    using header_table [OF assms(1)] .
  then have "elf_load img sz m = (ELF_OK, Some (e_entry m img), m')"
    using assms(1) m'(1) header_same(3) [OF assms(1) m'(3)] by (simp add: elf_load_def elf_header_ok_def word_less_nat_alt word_le_nat_alt not_less del: elf_segments.simps)
  with m'(2) show ?thesis by (auto simp: loaded_from_def)
qed

section \<open>A small executable\<close>

text \<open>One segment of four bytes in the file and sixteen in memory, loaded at 4 MB.\<close>

definition demo_elf_bytes :: "u8 list" where
  "demo_elf_bytes =
     [0x7F, 0x45, 0x4C, 0x46, 1, 1, 1, 0, 0, 0, 0, 0, 0, 0, 0, 0, 2, 0, 3, 0, 1, 0, 0, 0,
      0x00, 0x00, 0x40, 0x00, 52, 0, 0, 0, 0, 0, 0, 0, 0, 0, 0, 0, 52, 0, 32, 0, 1, 0, 0, 0, 0, 0, 0, 0,
      1, 0, 0, 0, 84, 0, 0, 0, 0x00, 0x00, 0x40, 0x00, 0x00, 0x00, 0x40, 0x00, 4, 0, 0, 0, 16, 0, 0, 0, 7, 0, 0, 0, 0, 0, 0, 0,
      0xEB, 0xFE, 0x90, 0x90]"

definition demo_elf :: umem where
  "demo_elf x = (let k = unat (x - 0x8000) in if k < length demo_elf_bytes then demo_elf_bytes ! k else 0xCC)"

lemma demo_elf_fields:
  "elf_header_ok 0x8000 88 demo_elf" "e_phnum demo_elf 0x8000 = 1" "phdr_at demo_elf 0x8000 0 = 0x8034"
  "p_type demo_elf 0x8034 = PT_LOAD" "p_offset demo_elf 0x8034 = 84" "p_vaddr demo_elf 0x8034 = 0x400000"
  "p_filesz demo_elf 0x8034 = 4" "p_memsz demo_elf 0x8034 = 16" "e_entry demo_elf 0x8000 = 0x400000"
  by (simp_all add: elf_header_ok_def phdr_at_def elf_magic_def ld16_def ld32_def demo_elf_def demo_elf_bytes_def EHDR_SIZE_def
      ELFCLASS32_def ELFDATA2LSB_def ET_EXEC_def EM_386_def PT_LOAD_def byte_of_def)

lemmas demo_fields = demo_elf_fields(2-9) demo_elf_fields(2-9) [simplified]

lemma demo_loads: "loads demo_elf 0x8000 i \<longleftrightarrow> i = 0"
  using demo_elf_fields by auto

lemma demo_segments_ok: "elf_segments_ok 0x8000 88 demo_elf"
proof -
  have "apart 0x400000 16 0x8000 88" by (simp add: apart_def within_iff)
  then show ?thesis unfolding elf_segments_ok_def demo_loads by (simp add: demo_fields)
qed

theorem elf_load_correct_witness:
  "\<exists>m'. elf_load 0x8000 88 demo_elf = (ELF_OK, Some 0x400000, m') \<and> m' 0x400000 = 0xEB \<and> m' 0x400001 = 0xFE
     \<and> m' 0x400004 = 0 \<and> m' 0x400010 = 0xCC"
proof -
  have seg: "in_segment demo_elf 0x8000 i x \<longleftrightarrow> i = 0 \<and> within 0x400000 16 x" for i x
    unfolding in_segment_def demo_loads by (auto simp: demo_fields)
  have byte: "segment_byte demo_elf 0x8000 0 x = (if unat (x - 0x400000) < 4 then demo_elf (0x8054 + (x - 0x400000)) else 0)" for x
    by (simp add: segment_byte_def demo_fields)
  from elf_load_correct [OF demo_elf_fields(1) demo_segments_ok] demo_loads obtain m' where
    "elf_load 0x8000 88 demo_elf = (ELF_OK, Some (e_entry demo_elf 0x8000), m')"
    and m': "\<And>x i. in_segment demo_elf 0x8000 i x \<Longrightarrow> m' x = segment_byte demo_elf 0x8000 i x"
    "\<And>x. \<forall>i. \<not> in_segment demo_elf 0x8000 i x \<Longrightarrow> m' x = demo_elf x" by blast
  moreover have "m' 0x400000 = 0xEB" "m' 0x400001 = 0xFE" "m' 0x400004 = 0"
    using m'(1) by (simp_all add: seg within_def byte) (simp_all add: demo_elf_def demo_elf_bytes_def)
  moreover have "m' 0x400010 = 0xCC"
    using m'(2) by (simp add: seg within_def demo_elf_def demo_elf_bytes_def)
  ultimately show ?thesis using demo_elf_fields(9) by auto
qed

end
