(* ===== verification/Dyld.thy ===== *)
theory Dyld
  imports Elf Bytes Ramfs_Path
begin

unbundle bit_operations_syntax

text \<open>
  The in-kernel dynamic linker (\<open>src/src/dyld.c\<close>) over the flat memory. Tables of a module (dynamic
  section, symbols, strings, relocations) are read from memory when the code reads them. Loops that end at
  a terminator found in memory are partial: a table without one is the value \<open>None\<close>. Where the build
  places the contents of the RAM file system and the embedded library is a parameter.
\<close>

section \<open>Definitions\<close>

definition ET_DYN :: u16 where "ET_DYN = 3"
definition PT_DYNAMIC :: u32 where "PT_DYNAMIC = 2"
definition PT_INTERP :: u32 where "PT_INTERP = 3"
definition DT_NULL :: u32 where "DT_NULL = 0"
definition DT_NEEDED :: u32 where "DT_NEEDED = 1"
definition DT_PLTRELS :: u32 where "DT_PLTRELS = 2"
definition DT_STRTAB :: u32 where "DT_STRTAB = 5"
definition DT_SYMTAB :: u32 where "DT_SYMTAB = 6"
definition DT_RELA :: u32 where "DT_RELA = 7"
definition DT_RELASZ :: u32 where "DT_RELASZ = 8"
definition DT_REL :: u32 where "DT_REL = 17"
definition DT_RELSZ :: u32 where "DT_RELSZ = 18"
definition DT_PLTREL :: u32 where "DT_PLTREL = 20"
definition DT_JMPREL :: u32 where "DT_JMPREL = 23"
definition STB_GLOBAL :: u8 where "STB_GLOBAL = 1"
definition STB_WEAK :: u8 where "STB_WEAK = 2"
definition SHN_UNDEF :: u16 where "SHN_UNDEF = 0"
definition R_386_NONE :: u32 where "R_386_NONE = 0"
definition R_386_32 :: u32 where "R_386_32 = 1"
definition R_386_PC32 :: u32 where "R_386_PC32 = 2"
definition R_386_GLOB_DAT :: u32 where "R_386_GLOB_DAT = 6"
definition R_386_JMP_SLOT :: u32 where "R_386_JMP_SLOT = 7"
definition R_386_RELATIVE :: u32 where "R_386_RELATIVE = 8"
definition DYLD_MAX_MODS :: nat where "DYLD_MAX_MODS = 8"
definition DYLD_LIB_BASE :: u32 where "DYLD_LIB_BASE = 0x600000"
definition DYLD_LIB_STRIDE :: u32 where "DYLD_LIB_STRIDE = 0x100000"
definition DYLD_MAIN_BASE :: u32 where "DYLD_MAIN_BASE = 0x400000"

lemmas reloc_types = R_386_NONE_def R_386_32_def R_386_PC32_def R_386_GLOB_DAT_def R_386_JMP_SLOT_def R_386_RELATIVE_def

datatype dyld_result = DYLD_OK | DYLD_ERR_ELF | DYLD_ERR_INTERP | DYLD_ERR_NEEDED | DYLD_ERR_RELOC | DYLD_ERR_NOSYM | DYLD_ERR_NOMEM

text \<open>Symbols and the split of the relocation word.\<close>

abbreviation st_name :: "umem \<Rightarrow> u32 \<Rightarrow> u32" where "st_name m a \<equiv> ld32 m a"
abbreviation st_value :: "umem \<Rightarrow> u32 \<Rightarrow> u32" where "st_value m a \<equiv> ld32 m (a + 4)"
abbreviation st_info :: "umem \<Rightarrow> u32 \<Rightarrow> u8" where "st_info m a \<equiv> m (a + 12)"
abbreviation st_shndx :: "umem \<Rightarrow> u32 \<Rightarrow> u16" where "st_shndx m a \<equiv> ld16 m (a + 14)"
abbreviation ELF32_R_SYM :: "u32 \<Rightarrow> u32" where "ELF32_R_SYM i \<equiv> drop_bit 8 i"
abbreviation ELF32_R_TYPE :: "u32 \<Rightarrow> u32" where "ELF32_R_TYPE i \<equiv> take_bit 8 i"
abbreviation ELF32_ST_BIND :: "u8 \<Rightarrow> u8" where "ELF32_ST_BIND i \<equiv> drop_bit 4 i"

record dyld_module =
  m_name :: cstring
  m_base :: u32
  m_image :: u32
  m_size :: u32
  m_symtab :: u32
  m_strtab :: u32
  m_symcount :: nat
  m_dynamic :: u32
  m_entry :: u32
  m_is_pie :: bool

record dyld =
  mods :: "dyld_module list"
  dmem :: umem
  dtty :: terminal

text \<open>The addresses the build fixes: the contents of the nodes of the RAM file system, and the embedded library.\<close>

record dyld_env =
  content_addr :: "nat \<Rightarrow> u32"
  blob_addr :: u32
  blob_len :: u32

definition dsay :: "cstring \<Rightarrow> dyld \<Rightarrow> dyld" where
  "dsay txt s = s\<lparr>dtty := terminal_writestring txt (dtty s)\<rparr>"

abbreviation newline :: cstring where "newline \<equiv> [CHR 0x0A]"

definition parse_ehdr :: "u32 \<Rightarrow> u32 \<Rightarrow> umem \<Rightarrow> bool" where
  "parse_ehdr img sz m \<longleftrightarrow> sz \<ge> EHDR_SIZE \<and> elf_magic m img \<and> m (img + 4) = ELFCLASS32 \<and> m (img + 5) = ELFDATA2LSB
     \<and> e_machine m img = EM_386 \<and> (e_type m img = ET_EXEC \<or> e_type m img = ET_DYN)"

text \<open>The first program header of a type; the memory does not change during the search.\<close>

definition find_phdr :: "u32 \<Rightarrow> umem \<Rightarrow> u32 \<Rightarrow> nat option" where
  "find_phdr ty m img = scan (\<lambda>i. p_type m (phdr_at m img i) = ty) 0 (unat (e_phnum m img))"

definition find_interp :: "u32 \<Rightarrow> u32 \<Rightarrow> umem \<Rightarrow> u32" where
  "find_interp img sz m =
     (case find_phdr PT_INTERP m img of
        None \<Rightarrow> 0
      | Some i \<Rightarrow> let h = phdr_at m img i in if p_offset m h + p_filesz m h > sz then 0 else img + p_offset m h)"

definition find_dynamic :: "u32 \<Rightarrow> u32 \<Rightarrow> umem \<Rightarrow> u32" where
  "find_dynamic img base m =
     (case find_phdr PT_DYNAMIC m img of None \<Rightarrow> 0 | Some i \<Rightarrow> p_vaddr m (phdr_at m img i) + base)"

function load_segments_from :: "u32 \<Rightarrow> u32 \<Rightarrow> u32 \<Rightarrow> bool \<Rightarrow> nat \<Rightarrow> bool \<Rightarrow> umem \<Rightarrow> dyld_result \<times> umem" where
  "load_segments_from img sz bias check i loaded m =
     (if i < unat (e_phnum m img) then
        let h = phdr_at m img i; addr = p_vaddr m h + bias in
        if p_type m h \<noteq> PT_LOAD then load_segments_from img sz bias check (Suc i) loaded m
        else if p_offset m h + p_filesz m h > sz then (DYLD_ERR_ELF, m)
        else if check \<and> (addr < 0x00100000 \<or> addr + p_memsz m h > 0x04000000) then (DYLD_ERR_ELF, m)
        else load_segments_from img sz bias check (Suc i) True (load_segment img h addr m)
      else (if loaded then DYLD_OK else DYLD_ERR_ELF, m))"
  by pat_completeness auto
termination
  by (relation "measure (\<lambda>(img, sz, bias, check, i, loaded, m). 65536 - i)") (auto intro: header_index)

declare load_segments_from.simps [simp del]

definition load_segments :: "u32 \<Rightarrow> u32 \<Rightarrow> u32 \<Rightarrow> bool \<Rightarrow> umem \<Rightarrow> dyld_result \<times> umem" where
  "load_segments img sz bias check m = load_segments_from img sz bias check 0 False m"

text \<open>The walk over a dynamic section up to its null entry.\<close>

partial_function (option) dyn_walk :: "(u32 \<Rightarrow> u32 \<Rightarrow> 'a \<Rightarrow> 'a) \<Rightarrow> umem \<Rightarrow> u32 \<Rightarrow> 'a \<Rightarrow> 'a option" where
  "dyn_walk f m d acc = (if ld32 m d = DT_NULL then Some acc else dyn_walk f m (d + 8) (f (ld32 m d) (ld32 m (d + 4)) acc))"

definition bias_of :: "dyld_module \<Rightarrow> u32" where
  "bias_of md = (if m_is_pie md then m_base md else 0)"

definition scan_step :: "u32 \<Rightarrow> u32 \<Rightarrow> u32 \<Rightarrow> dyld_module \<Rightarrow> dyld_module" where
  "scan_step b tag val md =
     (if tag = DT_SYMTAB then md\<lparr>m_symtab := val + b\<rparr> else if tag = DT_STRTAB then md\<lparr>m_strtab := val + b\<rparr> else md)"

definition scan_dynamic :: "umem \<Rightarrow> dyld_module \<Rightarrow> dyld_module option" where
  "scan_dynamic m md =
     (let md = md\<lparr>m_symtab := 0, m_strtab := 0, m_symcount := 0\<rparr> in
      if m_dynamic md = 0 then Some md
      else do {
        md \<leftarrow> dyn_walk (scan_step (bias_of md)) m (m_dynamic md) md;
        Some (md\<lparr>m_symcount := 256\<rparr>)
      })"

text \<open>Comparison of two strings in memory.\<close>

partial_function (option) mstr_eq :: "umem \<Rightarrow> u32 \<Rightarrow> u32 \<Rightarrow> bool option" where
  "mstr_eq m a b =
     (if m a \<noteq> 0 \<and> m b \<noteq> 0 then (if m a \<noteq> m b then Some False else mstr_eq m (a + 1) (b + 1)) else Some (m a = m b))"

fun lookup_syms :: "umem \<Rightarrow> u32 \<Rightarrow> dyld_module \<Rightarrow> nat \<Rightarrow> nat \<Rightarrow> u32 option option" where
  "lookup_syms m name md k 0 = Some None"
| "lookup_syms m name md k (Suc n) =
     (let sym = m_symtab md + 16 * of_nat k in
      if st_name m sym = 0 \<or> st_shndx m sym = SHN_UNDEF then lookup_syms m name md (Suc k) n
      else do {
        eq \<leftarrow> mstr_eq m (m_strtab md + st_name m sym) name;
        if \<not> eq then lookup_syms m name md (Suc k) n
        else if ELF32_ST_BIND (st_info m sym) \<noteq> STB_GLOBAL \<and> ELF32_ST_BIND (st_info m sym) \<noteq> STB_WEAK
        then lookup_syms m name md (Suc k) n
        else Some (Some (st_value m sym + bias_of md))
      })"

fun lookup_symbol :: "umem \<Rightarrow> u32 \<Rightarrow> dyld_module list \<Rightarrow> u32 option option" where
  "lookup_symbol m name [] = Some None"
| "lookup_symbol m name (md # mds) =
     (if m_symtab md = 0 \<or> m_strtab md = 0 then lookup_symbol m name mds
      else do {
        r \<leftarrow> lookup_syms m name md 0 (m_symcount md);
        case r of Some v \<Rightarrow> Some (Some v) | None \<Rightarrow> lookup_symbol m name mds
      })"

text \<open>The value of the symbol of a relocation; \<open>Inl\<close> is an undefined symbol, by its name in memory.\<close>

definition sym_value :: "dyld_module list \<Rightarrow> dyld_module \<Rightarrow> umem \<Rightarrow> u32 \<Rightarrow> (u32 + u32) option" where
  "sym_value mds md m sym_idx =
     (if sym_idx = 0 \<or> m_symtab md = 0 \<or> m_strtab md = 0 then Some (Inr 0)
      else
        let sym = m_symtab md + 16 * sym_idx; sname = m_strtab md + st_name m sym in
        if st_shndx m sym = SHN_UNDEF then do {
          r \<leftarrow> lookup_symbol m sname mds;
          case r of
            Some v \<Rightarrow> Some (Inr v)
          | None \<Rightarrow> Some (if ELF32_ST_BIND (st_info m sym) = STB_WEAK then Inr 0 else Inl sname)
        }
        else Some (Inr (st_value m sym + bias_of md)))"

definition reloc_value :: "dyld_module \<Rightarrow> u32 \<Rightarrow> u32 \<Rightarrow> u32 \<Rightarrow> u32 \<Rightarrow> u32 option" where
  "reloc_value md ty at addend sym_val =
     (if ty = R_386_RELATIVE then Some (m_base md + addend)
      else if ty = R_386_32 then Some (sym_val + addend)
      else if ty = R_386_PC32 then Some (sym_val + addend - at)
      else if ty = R_386_GLOB_DAT \<or> ty = R_386_JMP_SLOT then Some sym_val
      else None)"

definition jmp_slot_line :: "dyld_module \<Rightarrow> u32 \<Rightarrow> u32 \<Rightarrow> dyld \<Rightarrow> dyld option" where
  "jmp_slot_line md sym_idx sym_val s = do {
     nm \<leftarrow> cstr (dmem s) (m_strtab md + st_name (dmem s) (m_symtab md + 16 * sym_idx));
     let t = terminal_write_hex sym_val (terminal_writestring '' -> '' (terminal_writestring nm
               (terminal_writestring ''dyld: JMP_SLOT '' (dtty s))))
     in Some (s\<lparr>dtty := terminal_putchar (CHR 0x0A) t\<rparr>)
   }"

definition apply_one :: "dyld_module \<Rightarrow> bool \<Rightarrow> u32 \<Rightarrow> dyld \<Rightarrow> (dyld_result \<times> dyld) option" where
  "apply_one md is_rela e s =
     (let m = dmem s; r_offset = ld32 m e; r_info = ld32 m (e + 4);
          ty = ELF32_R_TYPE r_info; sym_idx = ELF32_R_SYM r_info; at = r_offset + bias_of md;
          addend = (if is_rela then ld32 m (e + 8) else if ty \<noteq> R_386_RELATIVE then ld32 m at else 0) in do {
       sv \<leftarrow> sym_value (mods s) md m sym_idx;
       case sv of
         Inl sname \<Rightarrow> do {
           nm \<leftarrow> cstr m sname;
           Some (DYLD_ERR_NOSYM, dsay newline (dsay nm (dsay ''dyld: undefined '' s)))
         }
       | Inr sym_val \<Rightarrow>
           let s = (case reloc_value md ty at addend sym_val of Some v \<Rightarrow> s\<lparr>dmem := st32 at v m\<rparr> | None \<Rightarrow> s) in
           if ty = R_386_JMP_SLOT \<and> sym_idx \<noteq> 0 \<and> m_symtab md \<noteq> 0 \<and> m_strtab md \<noteq> 0
           then do { s \<leftarrow> jmp_slot_line md sym_idx sym_val s; Some (DYLD_OK, s) }
           else Some (DYLD_OK, s)
     })"

definition rel_size :: "bool \<Rightarrow> u32" where
  "rel_size is_rela = (if is_rela then 12 else 8)"

partial_function (option) apply_rel_from :: "dyld_module \<Rightarrow> bool \<Rightarrow> u32 \<Rightarrow> u32 \<Rightarrow> dyld \<Rightarrow> (dyld_result \<times> dyld) option" where
  "apply_rel_from md is_rela e fin s =
     (if e < fin then do {
        (r, s) \<leftarrow> apply_one md is_rela e s;
        if r \<noteq> DYLD_OK then Some (r, s) else apply_rel_from md is_rela (e + rel_size is_rela) fin s
      }
      else Some (DYLD_OK, s))"

definition apply_rel :: "dyld_module \<Rightarrow> u32 \<Rightarrow> u32 \<Rightarrow> bool \<Rightarrow> dyld \<Rightarrow> (dyld_result \<times> dyld) option" where
  "apply_rel md rel_va relsz is_rela s =
     (let addr = rel_va + bias_of md in apply_rel_from md is_rela addr (addr + relsz) s)"

record rel_tables =
  t_rel :: u32
  t_relsz :: u32
  t_rela :: u32
  t_relasz :: u32
  t_jmprel :: u32
  t_pltrelsz :: u32
  t_pltrel :: u32

definition rel_step :: "u32 \<Rightarrow> u32 \<Rightarrow> rel_tables \<Rightarrow> rel_tables" where
  "rel_step tag val t =
     (if tag = DT_REL then t\<lparr>t_rel := val\<rparr> else if tag = DT_RELSZ then t\<lparr>t_relsz := val\<rparr>
      else if tag = DT_RELA then t\<lparr>t_rela := val\<rparr> else if tag = DT_RELASZ then t\<lparr>t_relasz := val\<rparr>
      else if tag = DT_JMPREL then t\<lparr>t_jmprel := val\<rparr> else if tag = DT_PLTRELS then t\<lparr>t_pltrelsz := val\<rparr>
      else if tag = DT_PLTREL then t\<lparr>t_pltrel := val\<rparr> else t)"

definition apply_if :: "dyld_module \<Rightarrow> u32 \<Rightarrow> u32 \<Rightarrow> bool \<Rightarrow> dyld_result \<times> dyld \<Rightarrow> (dyld_result \<times> dyld) option" where
  "apply_if md va sz is_rela rs =
     (let (r, s) = rs in
      if r = DYLD_OK \<and> va \<noteq> 0 \<and> sz \<noteq> 0 then apply_rel md va sz is_rela s else Some (r, s))"

definition relocate_module :: "dyld_module \<Rightarrow> dyld \<Rightarrow> (dyld_result \<times> dyld) option" where
  "relocate_module md s =
     (if m_dynamic md = 0 then Some (DYLD_OK, s)
      else do {
        t \<leftarrow> dyn_walk rel_step (dmem s) (m_dynamic md)
               \<lparr>t_rel = 0, t_relsz = 0, t_rela = 0, t_relasz = 0, t_jmprel = 0, t_pltrelsz = 0, t_pltrel = DT_REL\<rparr>;
        rs \<leftarrow> apply_if md (t_rel t) (t_relsz t) False (DYLD_OK, s);
        rs \<leftarrow> apply_if md (t_rela t) (t_relasz t) True rs;
        apply_if md (t_jmprel t) (t_pltrelsz t) (t_pltrel t = DT_RELA) rs
      })"

definition load_one :: "cstring \<Rightarrow> u32 \<Rightarrow> u32 \<Rightarrow> u32 \<Rightarrow> bool \<Rightarrow> dyld \<Rightarrow> (dyld_result \<times> dyld) option" where
  "load_one name img sz bias is_main s =
     (if length (mods s) \<ge> DYLD_MAX_MODS then Some (DYLD_ERR_NOMEM, s)
      else if \<not> parse_ehdr img sz (dmem s) then Some (DYLD_ERR_ELF, s)
      else
        let is_pie = (e_type (dmem s) img = ET_DYN); load_bias = (if is_pie then bias else 0);
            (dr, m) = load_segments img sz load_bias (is_main \<and> \<not> is_pie) (dmem s);
            (dr, load_bias, m) = (if dr \<noteq> DYLD_OK \<and> is_main \<and> is_pie
              then let (dr, m) = load_segments img sz DYLD_MAIN_BASE True m in (dr, DYLD_MAIN_BASE, m)
              else (dr, load_bias, m));
            s = s\<lparr>dmem := m\<rparr> in
        if dr \<noteq> DYLD_OK then Some (dr, s)
        else
          let dyn = find_dynamic img load_bias m in do {
            md \<leftarrow> scan_dynamic m \<lparr>m_name = take 47 name, m_base = load_bias, m_image = img, m_size = sz, m_symtab = 0, m_strtab = 0,
                     m_symcount = 0, m_dynamic = dyn, m_entry = e_entry m img + (if is_pie then load_bias else 0), m_is_pie = is_pie\<rparr>;
            Some (DYLD_OK, s\<lparr>mods := mods s @ [md]\<rparr>)
          })"

definition basename :: "cstring \<Rightarrow> cstring" where
  "basename p = rev (takeWhile (\<lambda>c. c \<noteq> CHR ''/'') (rev p))"

text \<open>Where the bytes of a library are: the embedded one, or a file of the RAM file system.\<close>

definition find_library :: "dyld_env \<Rightarrow> ramfs \<Rightarrow> cstring \<Rightarrow> cstring \<Rightarrow> u32 \<times> u32" where
  "find_library env c base path =
     (if base = ''libhello.so'' \<and> blob_addr env \<noteq> 0 \<and> blob_len env \<noteq> 0 then (blob_addr env, blob_len env)
      else case fs_read_path path c of
        (FS_OK, Some (i, n)) \<Rightarrow> (content_addr env i, of_nat n)
      | _ \<Rightarrow> (case fs_read_path base c of (FS_OK, Some (i, n)) \<Rightarrow> (content_addr env i, of_nat n) | _ \<Rightarrow> (0, 0)))"

partial_function (option) load_needed_from ::
  "dyld_env \<Rightarrow> ramfs \<Rightarrow> dyld_module \<Rightarrow> u32 \<Rightarrow> dyld \<Rightarrow> (dyld_result \<times> dyld) option" where
  "load_needed_from env c md d s =
     (if ld32 (dmem s) d = DT_NULL then Some (DYLD_OK, s)
      else if ld32 (dmem s) d \<noteq> DT_NEEDED then load_needed_from env c md (d + 8) s
      else do {
        libname \<leftarrow> cstr (dmem s) (m_strtab md + ld32 (dmem s) (d + 4));
        let base = basename libname in
        if base \<in> set (map m_name (mods s)) then load_needed_from env c md (d + 8) s
        else
          let s = dsay newline (dsay base (dsay ''dyld: load '' s));
              path = ''/lib/'' @ take 57 base;
              s = (if base = ''libhello.so''
                   then dsay ('' bytes)'' @ newline) ((\<lambda>s. s\<lparr>dtty := terminal_write_uint (blob_len env) (dtty s)\<rparr>)
                          (dsay ''dyld: libhello.so from kernel blob ('' s)) else s);
              (content, len) = find_library env c base path in
          if content = 0 \<or> len = 0 then Some (DYLD_ERR_NEEDED, dsay newline (dsay path (dsay ''dyld: missing '' s)))
          else do {
            (r, s) \<leftarrow> load_one base content len (DYLD_LIB_BASE + of_nat (length (mods s) - 1) * DYLD_LIB_STRIDE) False s;
            if r \<noteq> DYLD_OK then Some (r, s) else load_needed_from env c md (d + 8) s
          }
      })"

definition load_needed :: "dyld_env \<Rightarrow> ramfs \<Rightarrow> dyld_module \<Rightarrow> dyld \<Rightarrow> (dyld_result \<times> dyld) option" where
  "load_needed env c md s =
     (if m_dynamic md = 0 \<or> m_strtab md = 0 then Some (DYLD_OK, s) else load_needed_from env c md (m_dynamic md) s)"

fun relocate_all :: "dyld_module list \<Rightarrow> dyld \<Rightarrow> (dyld_result \<times> dyld) option" where
  "relocate_all [] s = Some (DYLD_OK, s)"
| "relocate_all (md # mds) s = do {
     (r, s) \<leftarrow> relocate_module md s;
     if r \<noteq> DYLD_OK then Some (r, s) else relocate_all mds s
   }"

definition dyld_load :: "dyld_env \<Rightarrow> ramfs \<Rightarrow> u32 \<Rightarrow> u32 \<Rightarrow> dyld \<Rightarrow> (dyld_result \<times> u32 option \<times> dyld) option" where
  "dyld_load env c img sz s =
     (let s = s\<lparr>mods := []\<rparr> in
      if \<not> parse_ehdr img sz (dmem s) then Some (DYLD_ERR_ELF, None, s)
      else do {
        s \<leftarrow> (let interp = find_interp img sz (dmem s) in
              if interp = 0 then Some s
              else do {
                nm \<leftarrow> cstr (dmem s) interp;
                Some (dsay ('' (using in-kernel dyld)'' @ newline) (dsay nm (dsay ''dyld: PT_INTERP='' s)))
              });
        (r, s) \<leftarrow> load_one ''main'' img sz DYLD_MAIN_BASE True s;
        if r \<noteq> DYLD_OK then Some (r, None, s)
        else do {
          (r, s) \<leftarrow> load_needed env c (mods s ! 0) s;
          if r \<noteq> DYLD_OK then Some (r, None, s)
          else do {
            (r, s) \<leftarrow> relocate_all (tl (mods s) @ [hd (mods s)]) s;
            if r \<noteq> DYLD_OK then Some (r, None, s)
            else
              let entry = m_entry (mods s ! 0);
                  t = terminal_writestring '' entry='' (terminal_write_uint (of_nat (length (mods s)))
                        (terminal_writestring ''dyld: modules='' (dtty s)))
              in Some (DYLD_OK, Some entry, s\<lparr>dtty := terminal_putchar (CHR 0x0A) (terminal_write_hex entry t)\<rparr>)
          }
        }
      })"

fun dyld_strerror :: "dyld_result \<Rightarrow> cstring" where
  "dyld_strerror DYLD_OK = ''OK''"
| "dyld_strerror DYLD_ERR_ELF = ''bad ELF''"
| "dyld_strerror DYLD_ERR_INTERP = ''interpreter error''"
| "dyld_strerror DYLD_ERR_NEEDED = ''missing shared library''"
| "dyld_strerror DYLD_ERR_RELOC = ''relocation failed''"
| "dyld_strerror DYLD_ERR_NOSYM = ''undefined symbol''"
| "dyld_strerror DYLD_ERR_NOMEM = ''too many modules''"

section \<open>Relocation\<close>

lemma st32_other: "\<not> within a 4 x \<Longrightarrow> st32 a v m x = m x"
  unfolding st32_def by (intro store_bytes_other) (auto simp: within_def unat_of_nat32)

lemma ld32_cong: "(\<And>x. within a 4 x \<Longrightarrow> m' x = m x) \<Longrightarrow> ld32 m' a = ld32 m a"
  by (simp add: ld32_def within_def)

lemma ld32_st32: "ld32 (st32 a v m) a = v"
proof -
  let ?bs = "[ucast v, ucast (drop_bit 8 v), ucast (drop_bit 16 v), ucast (drop_bit 24 v)] :: u8 list"
  have "st32 a v m (a + of_nat i) = ?bs ! i" if "i < 4" for i
    unfolding st32_def using that by (intro store_bytes_nth) simp_all
  from this [of 0] this [of 1] this [of 2] this [of 3] have
    "st32 a v m a = ucast v" "st32 a v m (a + 1) = ucast (drop_bit 8 v)" "st32 a v m (a + 2) = ucast (drop_bit 16 v)"
    "st32 a v m (a + 3) = ucast (drop_bit 24 v)" by simp_all
  then show ?thesis unfolding ld32_def by (simp only: join_bytes32)
qed

text \<open>The table of a module in memory: entry \<open>k\<close>, the word it patches and the value it stores there, all
  read from the memory before relocation.\<close>

record rel_job =
  j_mod :: dyld_module
  j_rela :: bool
  j_table :: u32
  j_count :: nat
  j_mem :: umem

definition j_entry :: "rel_job \<Rightarrow> nat \<Rightarrow> u32" where
  "j_entry J k = j_table J + of_nat k * rel_size (j_rela J)"

definition j_at :: "rel_job \<Rightarrow> nat \<Rightarrow> u32" where
  "j_at J k = ld32 (j_mem J) (j_entry J k) + bias_of (j_mod J)"

abbreviation j_info :: "rel_job \<Rightarrow> nat \<Rightarrow> u32" where
  "j_info J k \<equiv> ld32 (j_mem J) (j_entry J k + 4)"

definition j_addend :: "rel_job \<Rightarrow> nat \<Rightarrow> u32" where
  "j_addend J k = (if j_rela J then ld32 (j_mem J) (j_entry J k + 8)
     else if ELF32_R_TYPE (j_info J k) \<noteq> R_386_RELATIVE then ld32 (j_mem J) (j_at J k) else 0)"

definition j_value :: "rel_job \<Rightarrow> (nat \<Rightarrow> u32) \<Rightarrow> nat \<Rightarrow> u32 option" where
  "j_value J v k = reloc_value (j_mod J) (ELF32_R_TYPE (j_info J k)) (j_at J k) (j_addend J k) (v k)"

primrec patched :: "rel_job \<Rightarrow> (nat \<Rightarrow> u32) \<Rightarrow> nat \<Rightarrow> umem" where
  "patched J v 0 = j_mem J"
| "patched J v (Suc k) = (case j_value J v k of Some w \<Rightarrow> st32 (j_at J k) w (patched J v k) | None \<Rightarrow> patched J v k)"

text \<open>The patched words are apart from each other and from the table, which does not wrap.\<close>

definition job_ok :: "rel_job \<Rightarrow> bool" where
  "job_ok J \<longleftrightarrow> unat (j_table J) + j_count J * unat (rel_size (j_rela J)) < 2 ^ 32
     \<and> (\<forall>k < j_count J. apart (j_at J k) 4 (j_table J) (j_count J * unat (rel_size (j_rela J))))
     \<and> (\<forall>k < j_count J. \<forall>l < j_count J. k \<noteq> l \<longrightarrow> apart (j_at J k) 4 (j_at J l) 4)"

text \<open>The symbols have the values \<open>v\<close>, also while the table is being applied.\<close>

definition symbols_ok :: "rel_job \<Rightarrow> dyld_module list \<Rightarrow> (nat \<Rightarrow> u32) \<Rightarrow> bool" where
  "symbols_ok J mds v \<longleftrightarrow> (\<forall>k < j_count J. \<forall>i \<le> j_count J.
     sym_value mds (j_mod J) (patched J v i) (ELF32_R_SYM (j_info J k)) = Some (Inr (v k))
     \<and> (ELF32_R_TYPE (j_info J k) = R_386_JMP_SLOT \<longrightarrow>
          cstr (patched J v i) (m_strtab (j_mod J) + st_name (patched J v i) (m_symtab (j_mod J) + 16 * ELF32_R_SYM (j_info J k))) \<noteq> None))"

lemma patched_outside:
  "(\<And>k. k < i \<Longrightarrow> \<not> within (j_at J k) 4 x) \<Longrightarrow> patched J v i x = j_mem J x"
  by (induction i) (auto simp: st32_other split: option.splits)

lemma job_okD:
  assumes "job_ok J" "k < j_count J" "within (j_at J k) 4 x"
  shows "\<not> within (j_table J) (j_count J * unat (rel_size (j_rela J))) x" "l < j_count J \<Longrightarrow> k \<noteq> l \<Longrightarrow> \<not> within (j_at J l) 4 x"
  using assms unfolding job_ok_def apart_def by blast+

lemma rel_size_pos: "0 < unat (rel_size b)"
  by (simp add: rel_size_def)

lemma entry_word:
  assumes "job_ok J" "k < j_count J" "i \<le> j_count J" "unat c + 4 \<le> unat (rel_size (j_rela J))"
  shows "ld32 (patched J v i) (j_entry J k + c) = ld32 (j_mem J) (j_entry J k + c)"
proof (rule ld32_cong)
  let ?z = "rel_size (j_rela J)"
  fix x assume x: "within (j_entry J k + c) 4 x"
  have "(k + 1) * unat ?z \<le> j_count J * unat ?z" using assms(2) by (intro mult_le_mono1) simp
  then have b: "k * unat ?z + unat c + 4 \<le> j_count J * unat ?z" using assms(4) by simp
  have small: "j_count J * unat ?z < 2 ^ 32" using assms(1) by (simp add: job_ok_def)
  have eq: "of_nat k * ?z + c = of_nat (k * unat ?z + unat c)" by simp
  then have "unat (of_nat k * ?z + c) + 4 \<le> j_count J * unat ?z" using b small by (simp only: unat_of_nat32)
  moreover have "within (j_table J + (of_nat k * ?z + c)) 4 x" using x by (simp add: j_entry_def add.assoc)
  ultimately have "within (j_table J) (j_count J * unat ?z) x" using small within_part by (meson less_imp_le)
  then have "\<not> within (j_at J l) 4 x" if "l < i" for l
    using job_okD(1) [OF assms(1)] assms(3) that by (meson less_le_trans)
  then show "patched J v i x = j_mem J x" by (rule patched_outside)
qed

lemma target_word:
  assumes "job_ok J" "k < j_count J" "i \<le> j_count J" "i \<le> k"
  shows "ld32 (patched J v i) (j_at J k) = ld32 (j_mem J) (j_at J k)"
  using assms job_okD(2) [OF assms(1)] by (intro ld32_cong patched_outside) fastforce

lemma patched_target:
  assumes "job_ok J" "k < i" "i \<le> j_count J"
  shows "ld32 (patched J v i) (j_at J k) = (case j_value J v k of Some w \<Rightarrow> w | None \<Rightarrow> ld32 (j_mem J) (j_at J k))"
  using assms(2,3)
proof (induction i)
  case (Suc i)
  show ?case
  proof (cases "k = i")
    case True
    then show ?thesis using target_word [OF assms(1), of i i] Suc.prems by (auto simp: ld32_st32 split: option.splits)
  next
    case False
    have "ld32 (patched J v (Suc i)) (j_at J k) = ld32 (patched J v i) (j_at J k)"
    proof (rule ld32_cong)
      fix x assume "within (j_at J k) 4 x"
      moreover have "k < j_count J" "i < j_count J" using Suc.prems by simp_all
      ultimately have "\<not> within (j_at J i) 4 x" using job_okD(2) [OF assms(1)] False by blast
      then show "patched J v (Suc i) x = patched J v i x" by (auto simp: st32_other split: option.splits)
    qed
    with Suc False show ?thesis by simp
  qed
qed simp

lemma apply_one_patched:
  assumes "job_ok J" "symbols_ok J (mods s) v" "k < j_count J" "dmem s = patched J v k"
  shows "\<exists>s'. apply_one (j_mod J) (j_rela J) (j_entry J k) s = Some (DYLD_OK, s') \<and> dmem s' = patched J v (Suc k) \<and> mods s' = mods s"
proof -
  let ?m = "patched J v k" and ?e = "j_entry J k"
  have k: "k \<le> j_count J" "Suc k \<le> j_count J" using assms(3) by simp_all
  have z: "8 \<le> unat (rel_size (j_rela J))" "j_rela J \<Longrightarrow> 12 \<le> unat (rel_size (j_rela J))" by (simp_all add: rel_size_def)
  have words: "ld32 ?m ?e = ld32 (j_mem J) ?e" "ld32 ?m (?e + 4) = j_info J k" "j_rela J \<Longrightarrow> ld32 ?m (?e + 8) = ld32 (j_mem J) (?e + 8)"
    using entry_word [OF assms(1,3) k(1), of 0] entry_word [OF assms(1,3) k(1), of 4] entry_word [OF assms(1,3) k(1), of 8] z by simp_all
  have at: "ld32 ?m (j_at J k) = ld32 (j_mem J) (j_at J k)" using target_word assms(1,3) k(1) by blast
  have addend: "(if j_rela J then ld32 ?m (?e + 8) else if ELF32_R_TYPE (j_info J k) \<noteq> R_386_RELATIVE then ld32 ?m (j_at J k) else 0) = j_addend J k"
    using words(3) at by (simp add: j_addend_def)
  have sym: "sym_value (mods s) (j_mod J) ?m (ELF32_R_SYM (j_info J k)) = Some (Inr (v k))"
    using assms(2,3) k(1) by (simp add: symbols_ok_def)
  let ?s1 = "case j_value J v k of Some w \<Rightarrow> s\<lparr>dmem := st32 (j_at J k) w ?m\<rparr> | None \<Rightarrow> s"
  have s1: "dmem ?s1 = patched J v (Suc k)" "mods ?s1 = mods s" using assms(4) by (auto split: option.splits)
  have "\<exists>s'. jmp_slot_line (j_mod J) (ELF32_R_SYM (j_info J k)) (v k) ?s1 = Some s' \<and> dmem s' = dmem ?s1 \<and> mods s' = mods ?s1"
    if jmp: "ELF32_R_TYPE (j_info J k) = R_386_JMP_SLOT"
  proof -
    obtain nm where "cstr (dmem ?s1) (m_strtab (j_mod J) + st_name (dmem ?s1) (m_symtab (j_mod J) + 16 * ELF32_R_SYM (j_info J k))) = Some nm"
      using assms(2,3) k(2) jmp unfolding symbols_ok_def s1(1) by blast
    then show ?thesis by (simp add: jmp_slot_line_def Let_def)
  qed
  note jmp = this
  let ?J = "ELF32_R_TYPE (j_info J k) = R_386_JMP_SLOT \<and> ELF32_R_SYM (j_info J k) \<noteq> 0 \<and> m_symtab (j_mod J) \<noteq> 0 \<and> m_strtab (j_mod J) \<noteq> 0"
  have "apply_one (j_mod J) (j_rela J) ?e s = (if ?J
      then do { s \<leftarrow> jmp_slot_line (j_mod J) (ELF32_R_SYM (j_info J k)) (v k) ?s1; Some (DYLD_OK, s) } else Some (DYLD_OK, ?s1))"
    unfolding apply_one_def assms(4) Let_def words(1,2) j_at_def [symmetric] addend sym j_value_def by simp
  with s1 jmp show ?thesis by (cases ?J) auto
qed

lemma apply_rel_from_patched:
  assumes "job_ok J" "symbols_ok J mds v"
  shows "i \<le> j_count J \<Longrightarrow> dmem s = patched J v i \<Longrightarrow> mods s = mds \<Longrightarrow>
    \<exists>s'. apply_rel_from (j_mod J) (j_rela J) (j_entry J i) (j_entry J (j_count J)) s = Some (DYLD_OK, s')
      \<and> dmem s' = patched J v (j_count J) \<and> mods s' = mds"
proof (induction "j_count J - i" arbitrary: i s)
  case 0
  then show ?case by (subst apply_rel_from.simps) simp
next
  case (Suc n)
  let ?z = "rel_size (j_rela J)"
  have i: "i < j_count J" "n = j_count J - Suc i" using Suc.hyps(2) by simp_all
  have small: "unat (j_table J) + j_count J * unat ?z < 2 ^ 32" "0 < unat ?z" using assms(1) rel_size_pos by (auto simp: job_ok_def)
  have unat: "unat (j_entry J k) = unat (j_table J) + k * unat ?z" if "k \<le> j_count J" for k
  proof -
    have "k * unat ?z \<le> j_count J * unat ?z" using that by simp
    moreover have "j_entry J k = of_nat (unat (j_table J) + k * unat ?z)" by (simp add: j_entry_def)
    ultimately show ?thesis using small(1) by (simp only: unat_of_nat32)
  qed
  have "i * unat ?z < j_count J * unat ?z" using i(1) small(2) by simp
  then have less: "j_entry J i < j_entry J (j_count J)" using unat [of i] unat [of "j_count J"] i(1) by (simp add: word_less_nat_alt)
  obtain s1 where s1: "apply_one (j_mod J) (j_rela J) (j_entry J i) s = Some (DYLD_OK, s1)" "dmem s1 = patched J v (Suc i)" "mods s1 = mds"
    using apply_one_patched [OF assms(1) _ i(1)] assms(2) Suc.prems by metis
  moreover have "j_entry J i + ?z = j_entry J (Suc i)" by (simp add: j_entry_def algebra_simps)
  ultimately have "apply_rel_from (j_mod J) (j_rela J) (j_entry J i) (j_entry J (j_count J)) s
      = apply_rel_from (j_mod J) (j_rela J) (j_entry J (Suc i)) (j_entry J (j_count J)) s1"
    using less by (subst apply_rel_from.simps) simp
  then show ?case using Suc.hyps(1) [OF i(2), of s1] s1(2,3) i(1) by simp
qed

text \<open>Applying a relocation table returns and patches exactly the words it names: each holds the value its type asks
  for, computed from the symbol and the addend as they were before, whatever the order of the entries, and no other byte
  changes. The words must be apart from each other, from the table and from what determines the symbols. A
  relative relocation without explicit addend stores the load address alone.\<close>

theorem apply_rel_correct:
  assumes "job_ok J" "symbols_ok J (mods s) v" "dmem s = j_mem J" "j_table J = rel_va + bias_of (j_mod J)"
    "relsz = of_nat (j_count J) * rel_size (j_rela J)"
  shows "\<exists>s'. apply_rel (j_mod J) rel_va relsz (j_rela J) s = Some (DYLD_OK, s') \<and> mods s' = mods s
    \<and> (\<forall>k < j_count J. ld32 (dmem s') (j_at J k) = (case j_value J v k of Some w \<Rightarrow> w | None \<Rightarrow> ld32 (dmem s) (j_at J k)))
    \<and> (\<forall>x. (\<forall>k < j_count J. \<not> within (j_at J k) 4 x) \<longrightarrow> dmem s' x = dmem s x)"
proof -
  have start: "j_entry J 0 = rel_va + bias_of (j_mod J)" "j_entry J (j_count J) = rel_va + bias_of (j_mod J) + relsz"
    using assms(4,5) by (simp_all add: j_entry_def)
  obtain s' where "apply_rel_from (j_mod J) (j_rela J) (j_entry J 0) (j_entry J (j_count J)) s = Some (DYLD_OK, s')"
    "dmem s' = patched J v (j_count J)" "mods s' = mods s"
    using apply_rel_from_patched [OF assms(1,2), of 0 s] assms(3) by auto
  then show ?thesis
    using patched_target [OF assms(1)] patched_outside [of "j_count J" J] unfolding start assms(3)
    by (intro exI [of _ s']) (simp add: apply_rel_def Let_def)
qed

section \<open>A small table\<close>

text \<open>Two entries at \<open>0x2000\<close> of a module loaded at \<open>0x600000\<close> without symbols: a relative one whose word holds
  the offset \<open>0x40\<close>, and an absolute one.\<close>

definition demo_module :: dyld_module where
  "demo_module = \<lparr>m_name = ''lib'', m_base = 0x600000, m_image = 0, m_size = 0, m_symtab = 0, m_strtab = 0, m_symcount = 0,
     m_dynamic = 0, m_entry = 0, m_is_pie = True\<rparr>"

definition demo_rel_mem :: umem where
  "demo_rel_mem = st32 0x600300 0x40 (st32 0x600304 7 (st32 0x602000 0x300 (st32 0x602004 8 (st32 0x602008 0x304 (st32 0x60200C 1 (\<lambda>_. 0))))))"

definition demo_job :: rel_job where
  "demo_job = \<lparr>j_mod = demo_module, j_rela = False, j_table = 0x602000, j_count = 2, j_mem = demo_rel_mem\<rparr>"

lemma demo_words [simp]: "ld32 demo_rel_mem 0x602000 = 0x300" "ld32 demo_rel_mem 0x602004 = 8" "ld32 demo_rel_mem 0x602008 = 0x304"
  "ld32 demo_rel_mem 0x60200C = 1" "ld32 demo_rel_mem 0x600304 = 7"
  by (simp_all add: demo_rel_mem_def st32_def ld32_def)

lemma demo_job_simps [simp]:
  "j_at demo_job 0 = 0x600300" "j_at demo_job (Suc 0) = 0x600304" "j_info demo_job 0 = 8" "j_info demo_job (Suc 0) = 1"
  "j_count demo_job = 2" "j_addend demo_job 0 = 0" "j_addend demo_job (Suc 0) = 7" "j_rela demo_job = False" "j_mod demo_job = demo_module"
  "j_mem demo_job = demo_rel_mem" "j_table demo_job = 0x602000" "bias_of demo_module = 0x600000"
  "j_entry demo_job 0 = 0x602000" "j_entry demo_job (Suc 0) = 0x602008"
  by (simp_all add: demo_job_def j_at_def j_entry_def j_addend_def rel_size_def bias_of_def demo_module_def demo_words reloc_types)

theorem apply_rel_correct_witness:
  "\<forall>t. \<exists>s'. apply_rel demo_module 0x2000 16 False \<lparr>mods = [demo_module], dmem = demo_rel_mem, dtty = t\<rparr> = Some (DYLD_OK, s')
     \<and> ld32 (dmem s') 0x600300 = 0x600000 \<and> ld32 (dmem s') 0x600304 = 7"
proof
  fix t
  let ?s = "\<lparr>mods = [demo_module], dmem = demo_rel_mem, dtty = t\<rparr>"
  have two: "k < 2 \<longleftrightarrow> k = 0 \<or> k = Suc 0" for k :: nat by auto
  have "job_ok demo_job"
    by (auto simp: job_ok_def two apart_def within_iff rel_size_def)
  moreover have "symbols_ok demo_job (mods ?s) (\<lambda>_. 0)"
    by (auto simp: symbols_ok_def two sym_value_def demo_module_def reloc_types)
  moreover have "j_value demo_job (\<lambda>_. 0) 0 = Some 0x600000" "j_value demo_job (\<lambda>_. 0) (Suc 0) = Some 7"
    by (simp_all add: j_value_def reloc_value_def reloc_types demo_module_def)
  ultimately show "\<exists>s'. apply_rel demo_module 0x2000 16 False ?s = Some (DYLD_OK, s')
     \<and> ld32 (dmem s') 0x600300 = 0x600000 \<and> ld32 (dmem s') 0x600304 = 7"
    using apply_rel_correct [of demo_job ?s "\<lambda>_. 0" "0x2000" 16]
    by (auto simp: two rel_size_def)
qed

end
