(* ===== verification/Process.thy ===== *)
theory Process
  imports Dyld Syscall_Props
begin

text \<open>
  Running an executable (\<open>src/src/process.c\<close>) and the library tree (\<open>dyld_install_lib_tree\<close> of
  \<open>src/src/dyld.c\<close>). \<open>process_exec\<close> is modelled up to the \<open>iret\<close>, whose frame it returns, and from the
  second return of \<open>process_setjmp\<close> on, which \<open>process_exit_to_kernel\<close> reaches.
\<close>

section \<open>Definitions\<close>

definition ELF_LOAD_BASE :: u32 where "ELF_LOAD_BASE = 0x400000"
definition ELF_LOAD_MAX :: u32 where "ELF_LOAD_MAX = 0x4000000"

record iret_frame =
  f_eip :: u32
  f_cs :: u32
  f_eflags :: u32
  f_esp :: u32
  f_ss :: u32

definition elf_is_dynamic :: "u32 \<Rightarrow> u32 \<Rightarrow> umem \<Rightarrow> bool" where
  "elf_is_dynamic img sz m \<longleftrightarrow> sz \<ge> 52 \<and> elf_magic m img
     \<and> scan (\<lambda>i. p_type m (phdr_at m img i) = 3 \<or> p_type m (phdr_at m img i) = 2) 0 (unat (e_phnum m img)) \<noteq> None"

definition psay :: "cstring \<Rightarrow> sys \<Rightarrow> sys" where
  "psay str s = s\<lparr>tty := terminal_writestring str (tty s)\<rparr>"

text \<open>The linker works on the memory, the terminal and the files of the system.\<close>

definition run_dyld :: "dyld_env \<Rightarrow> u32 \<Rightarrow> u32 \<Rightarrow> sys \<Rightarrow> (dyld_result \<times> u32 option \<times> sys) option" where
  "run_dyld env img sz s = do {
     (r, ep, d) \<leftarrow> dyld_load env (fsc (rfs s)) img sz \<lparr>mods = [], dmem = umem s, dtty = tty s\<rparr>;
     Some (r, ep, s\<lparr>umem := dmem d, tty := dtty d\<rparr>)
   }"

text \<open>Loading: the dynamic linker first, the static loader when it fails on an executable without dynamic section.\<close>

definition process_load :: "dyld_env \<Rightarrow> u32 \<Rightarrow> u32 \<Rightarrow> sys \<Rightarrow> (u32 option \<times> sys) option" where
  "process_load env img sz s =
     (let is_dyn = elf_is_dynamic img sz (umem s) in do {
        (dr, ep, s) \<leftarrow> run_dyld env img sz s;
        if dr = DYLD_OK then Some (ep, s)
        else if is_dyn then Some (None, psay newline (psay (dyld_strerror dr) (psay ''dyld failed: '' s)))
        else
          let (er, ep, m) = elf_load img sz (umem s); s = s\<lparr>umem := m\<rparr> in
          if er \<noteq> ELF_OK
          then Some (None, psay newline (psay (elf_strerror er) (psay '' / elf: '' (psay (dyld_strerror dr) (psay ''dyld: '' s)))))
          else Some (ep, s)
      })"

definition process_exec :: "dyld_env \<Rightarrow> u32 \<Rightarrow> u32 \<Rightarrow> sys \<Rightarrow> ((int + iret_frame) \<times> sys) option" where
  "process_exec env img sz s = do {
     (ep, s) \<leftarrow> process_load env img sz s;
     case ep of
       None \<Rightarrow> Some (Inl (-1), s)
     | Some ep \<Rightarrow>
         let s = fd_table_reset (user_heap_reset s); s = psay ''exec: entry='' s;
             s = psay newline (s\<lparr>tty := terminal_write_hex ep (tty s)\<rparr>);
             s = s\<lparr>g_exit_code := 0, g_have_jmp := True\<rparr>
         in Some (Inr \<lparr>f_eip = ep, f_cs = 0x1B, f_eflags = 0x202, f_esp = ELF_LOAD_BASE + ELF_LOAD_MAX - 16, f_ss = 0x23\<rparr>, s)
   }"

text \<open>The second return of \<open>process_setjmp\<close>, after \<open>process_exit_to_kernel\<close> has jumped back.\<close>

definition process_resume :: "sys \<Rightarrow> int \<times> sys" where
  "process_resume s =
     (let s = s\<lparr>g_have_jmp := False\<rparr>; s = psay ''exec: done, code='' s;
          s = psay newline (s\<lparr>tty := terminal_write_int (word_of_int (g_exit_code s)) (tty s)\<rparr>)
      in (g_exit_code s, s))"

definition process_last_exit_code :: "sys \<Rightarrow> int" where
  "process_last_exit_code s = g_exit_code s"

text \<open>The library tree; the embedded files are parameters.\<close>

definition install_blob :: "cstring \<Rightarrow> char list \<Rightarrow> kfs \<Rightarrow> kfs option" where
  "install_blob name blob k =
     (if 0 < length blob \<and> length blob < FS_FILE_MAX then do { (_, k) \<leftarrow> fs_write_bin name blob k; Some k } else Some k)"

definition dyld_install_lib_tree :: "char list \<Rightarrow> char list \<Rightarrow> sys \<Rightarrow> sys option" where
  "dyld_install_lib_tree lib dyn s = do {
     (_, k) \<leftarrow> fs_mkdir_p ''/lib'' (rfs s);
     (_, k) \<leftarrow> fs_cd ''/'' k;
     (_, k) \<leftarrow> fs_cd ''lib'' k;
     (_, k) \<leftarrow> fs_write ''ld-mykernel.so'' (''MyKernel in-kernel dyld (not a real userspace ld)'' @ newline) k;
     k \<leftarrow> install_blob ''libhello.so'' lib k;
     let s = (if 0 < length lib \<and> length lib < FS_FILE_MAX
              then let s = psay ''dyld: installed /lib/libhello.so ('' s
                   in psay ('' bytes)'' @ newline) (s\<lparr>tty := terminal_write_uint (of_nat (length lib)) (tty s)\<rparr>)
              else s) in do {
       k \<leftarrow> install_blob ''libc.so.6'' lib k;
       (_, k) \<leftarrow> fs_cd ''/'' k;
       if 0 < length dyn \<and> length dyn < FS_FILE_MAX then do {
         (_, k) \<leftarrow> fs_cd ''bin'' k;
         (_, k) \<leftarrow> fs_write_bin ''dynhello'' dyn k;
         (_, k) \<leftarrow> fs_cd ''/'' k;
         Some (psay (''dyld: installed /bin/dynhello'' @ newline) (s\<lparr>rfs := k\<rparr>))
       }
       else Some (s\<lparr>rfs := k\<rparr>)
     }
   }"

section \<open>A static executable\<close>

text \<open>The linker's walk over the segments of a fixed executable is the one of the static loader.\<close>

lemma load_segments_elf:
  "load_segments_from img sz 0 True i loaded m =
     (case elf_segments img sz i loaded m of
        (r, l, m') \<Rightarrow> (if r = ELF_OK \<and> l then DYLD_OK else DYLD_ERR_ELF, m'))"
proof (induction img sz i loaded m rule: elf_segments.induct)
  case (1 img sz i loaded m)
  let ?h = "phdr_at m img i"
  consider "\<not> i < unat (e_phnum m img)" | "i < unat (e_phnum m img)" "p_type m ?h \<noteq> PT_LOAD"
    | "i < unat (e_phnum m img)" "p_type m ?h = PT_LOAD" by blast
  then show ?case
  proof cases
    case 3
    then show ?thesis using "1.IH"(2)
      by (subst load_segments_from.simps, subst elf_segments.simps) (simp add: Let_def del: elf_segments.simps)
  next
    case 2
    then show ?thesis using "1.IH"(1)
      by (subst load_segments_from.simps, subst elf_segments.simps) (simp add: Let_def del: elf_segments.simps)
  qed (subst load_segments_from.simps, subst elf_segments.simps, simp del: elf_segments.simps)
qed

definition no_dynamic :: "u32 \<Rightarrow> umem \<Rightarrow> bool" where
  "no_dynamic img m \<longleftrightarrow> (\<forall>i < unat (e_phnum m img). p_type m (phdr_at m img i) \<noteq> PT_DYNAMIC \<and> p_type m (phdr_at m img i) \<noteq> PT_INTERP)"

lemma no_dynamic_find:
  assumes "no_dynamic img m"
  shows "find_phdr PT_DYNAMIC m img = None" "find_phdr PT_INTERP m img = None"
  using assms by (simp_all add: no_dynamic_def find_phdr_def scan_None_iff)

lemma no_dynamic_same:
  assumes "elf_header_ok img sz m" "same_on img (unat sz) m m'" "no_dynamic img m"
  shows "no_dynamic img m'"
  using assms(3) header_same [OF assms(1,2)] phdr_same(1) [OF assms(1,2)] by (simp add: no_dynamic_def)

text \<open>The dynamic linker loads a well-formed executable without dynamic section as the static loader does.\<close>

lemma dyld_load_static:
  assumes "elf_header_ok img sz (dmem d)" "elf_segments_ok img sz (dmem d)" "\<exists>i. loads (dmem d) img i" "no_dynamic img (dmem d)"
  shows "\<exists>d'. dyld_load env c img sz d = Some (DYLD_OK, Some (e_entry (dmem d) img), d') \<and> loaded_from (dmem d) img 0 (dmem d) (dmem d')"
proof -
  let ?m = "dmem d"
  have "same_on img (unat sz) ?m ?m" by (simp add: same_on_def)
  then obtain m' where m': "elf_segments img sz 0 False ?m = (ELF_OK, True, m')" "loaded_from ?m img 0 ?m m'" "same_on img (unat sz) ?m m'"
    using elf_segments_loop [OF assms(1,2), of ?m 0 False] assms(3) by auto
  have hdr: "parse_ehdr img sz ?m" "e_type ?m img \<noteq> ET_DYN"
    using assms(1) by (simp_all add: parse_ehdr_def elf_header_ok_def ET_EXEC_def ET_DYN_def)
  have dyn: "find_dynamic img 0 m' = 0" "find_interp img sz ?m = 0"
    using no_dynamic_find(1) [OF no_dynamic_same [OF assms(1) m'(3) assms(4)]] no_dynamic_find(2) [OF assms(4)]
    by (simp_all add: find_dynamic_def find_interp_def)
  have load: "load_segments img sz 0 True ?m = (DYLD_OK, m')" using m'(1) by (simp add: load_segments_def load_segments_elf)
  let ?md = "\<lparr>m_name = ''main'', m_base = 0, m_image = img, m_size = sz, m_symtab = 0, m_strtab = 0, m_symcount = 0,
    m_dynamic = 0, m_entry = e_entry ?m img, m_is_pie = False\<rparr>"
  have one: "load_one ''main'' img sz DYLD_MAIN_BASE True (d\<lparr>mods := []\<rparr>) = Some (DYLD_OK, d\<lparr>mods := [?md], dmem := m'\<rparr>)"
    using hdr load dyn(1) header_same(3) [OF assms(1) m'(3)]
    by (cases d) (simp add: load_one_def DYLD_MAX_MODS_def Let_def scan_dynamic_def)
  have rest: "load_needed env c ?md s = Some (DYLD_OK, s)" "relocate_module ?md s = Some (DYLD_OK, s)" for s
    by (simp_all add: load_needed_def relocate_module_def)
  have "\<exists>d'. dyld_load env c img sz d = Some (DYLD_OK, Some (e_entry ?m img), d') \<and> dmem d' = m'"
    using hdr(1) dyn(2) one rest by (simp add: dyld_load_def Let_def)
  with m'(2) show ?thesis by auto
qed

lemma fd_table_reset_simps [simp]:
  "umem (fd_table_reset s) = umem s" "user_brk (fd_table_reset s) = user_brk s" "mmap_bump (fd_table_reset s) = mmap_bump s"
  "rfs (fd_table_reset s) = rfs s" "g_have_jmp (fd_table_reset s) = g_have_jmp s"
proof -
  have "umem (fold (\<lambda>i. upd_fd i (f i)) xs s) = umem s \<and> user_brk (fold (\<lambda>i. upd_fd i (f i)) xs s) = user_brk s
    \<and> mmap_bump (fold (\<lambda>i. upd_fd i (f i)) xs s) = mmap_bump s \<and> rfs (fold (\<lambda>i. upd_fd i (f i)) xs s) = rfs s
    \<and> g_have_jmp (fold (\<lambda>i. upd_fd i (f i)) xs s) = g_have_jmp s" for f xs s
    by (induction xs arbitrary: s) (simp_all add: upd_fd_def)
  then show "umem (fd_table_reset s) = umem s" "user_brk (fd_table_reset s) = user_brk s" "mmap_bump (fd_table_reset s) = mmap_bump s"
    "rfs (fd_table_reset s) = rfs s" "g_have_jmp (fd_table_reset s) = g_have_jmp s"
    by (simp_all add: fd_table_reset_def Let_def)
qed

text \<open>C24. Executing a well-formed static executable enters user mode at its entry point: the frame has the user
  segments, interrupts enabled and the stack at the top of the load area, every segment is in memory with its
  zero fill and nothing else in memory changes, the heap and the mapping arena start afresh, and the way back to
  the kernel is open.\<close>

theorem process_exec_static:
  assumes "elf_header_ok img sz (umem s)" "elf_segments_ok img sz (umem s)" "\<exists>i. loads (umem s) img i" "no_dynamic img (umem s)"
  shows "\<exists>s'. process_exec env img sz s = Some (Inr \<lparr>f_eip = e_entry (umem s) img, f_cs = 0x1B, f_eflags = 0x202,
        f_esp = 0x43FFFF0, f_ss = 0x23\<rparr>, s')
    \<and> (\<forall>x i. in_segment (umem s) img i x \<longrightarrow> umem s' x = segment_byte (umem s) img i x)
    \<and> (\<forall>x. (\<forall>i. \<not> in_segment (umem s) img i x) \<longrightarrow> umem s' x = umem s x)
    \<and> user_brk s' = USER_HEAP_BASE \<and> mmap_bump s' = MMAP_BASE \<and> rfs s' = rfs s \<and> g_have_jmp s'"
proof -
  let ?d = "\<lparr>mods = [], dmem = umem s, dtty = tty s\<rparr>"
  obtain d' where d': "dyld_load env (fsc (rfs s)) img sz ?d = Some (DYLD_OK, Some (e_entry (umem s) img), d')"
    "loaded_from (umem s) img 0 (umem s) (dmem d')"
    using dyld_load_static [of img sz ?d env "fsc (rfs s)"] assms by auto
  have "process_load env img sz s = Some (Some (e_entry (umem s) img), s\<lparr>umem := dmem d', tty := dtty d'\<rparr>)"
    using d'(1) by (simp add: process_load_def run_dyld_def Let_def)
  then show ?thesis
    using d'(2) by (simp add: process_exec_def Let_def psay_def user_heap_reset_def loaded_from_def ELF_LOAD_BASE_def ELF_LOAD_MAX_def)
qed

theorem process_exec_static_witness:
  "\<forall>env. \<exists>s'. process_exec env 0x8000 88 (boot_sys\<lparr>umem := demo_elf\<rparr>) =
       Some (Inr \<lparr>f_eip = 0x400000, f_cs = 0x1B, f_eflags = 0x202, f_esp = 0x43FFFF0, f_ss = 0x23\<rparr>, s')
     \<and> user_brk s' = USER_HEAP_BASE \<and> g_have_jmp s'"
proof
  fix env :: dyld_env
  have "no_dynamic 0x8000 demo_elf" by (simp add: no_dynamic_def demo_fields PT_LOAD_def PT_DYNAMIC_def PT_INTERP_def)
  then show "\<exists>s'. process_exec env 0x8000 88 (boot_sys\<lparr>umem := demo_elf\<rparr>) =
       Some (Inr \<lparr>f_eip = 0x400000, f_cs = 0x1B, f_eflags = 0x202, f_esp = 0x43FFFF0, f_ss = 0x23\<rparr>, s')
     \<and> user_brk s' = USER_HEAP_BASE \<and> g_have_jmp s'"
    using process_exec_static [of "0x8000" "88" "boot_sys\<lparr>umem := demo_elf\<rparr>" env] demo_elf_fields demo_segments_ok demo_loads
    by auto
qed

end
