(* ===== verification/Umalloc.thy ===== *)
theory Umalloc
  imports Process Kmalloc
begin

text \<open>
  The heap of user programs (\<open>src/user/lib/malloc.c\<close>) over the kernel's \<open>brk\<close> call. A block is a header of
  three words (size, free flag, next block) in user memory followed by its bytes. The system call goes through the
  kernel's dispatcher; the registers the stub does not load are 0, and the calls of the library do not read them.
\<close>

section \<open>Definitions\<close>

record ulib =
  os :: sys
  heap_head :: u32
  heap_end :: u32

definition HALIGN :: u32 where "HALIGN = 8"
definition MHDR :: u32 where "MHDR = 12"

abbreviation h_size :: "umem \<Rightarrow> u32 \<Rightarrow> u32" where "h_size m b \<equiv> ld32 m b"
abbreviation h_free :: "umem \<Rightarrow> u32 \<Rightarrow> bool" where "h_free m b \<equiv> ld32 m (b + 4) \<noteq> 0"
abbreviation h_next :: "umem \<Rightarrow> u32 \<Rightarrow> u32" where "h_next m b \<equiv> ld32 m (b + 8)"

abbreviation mem_of :: "ulib \<Rightarrow> umem" where "mem_of s \<equiv> umem (os s)"
abbreviation upoke :: "(umem \<Rightarrow> umem) \<Rightarrow> ulib \<Rightarrow> ulib" where "upoke f s \<equiv> s\<lparr>os := poke f (os s)\<rparr>"

definition syscall3 :: "u32 \<Rightarrow> u32 \<Rightarrow> u32 \<Rightarrow> u32 \<Rightarrow> ulib \<Rightarrow> (u32 \<times> ulib) option" where
  "syscall3 n a b c s = do {
     (_, regs, k) \<leftarrow> syscall_handler \<lparr>eax = n, ebx = a, ecx = b, edx = c, esi = 0, edi = 0, ebp = 0\<rparr> (os s);
     Some (eax regs, s\<lparr>os := k\<rparr>)
   }"

definition ualign_up :: "u32 \<Rightarrow> u32" where
  "ualign_up n = (n + (HALIGN - 1)) AND NOT (HALIGN - 1)"

definition lib_brk :: "u32 \<Rightarrow> ulib \<Rightarrow> (u32 \<times> ulib) option" where
  "lib_brk addr s = syscall3 45 addr 0 0 s"

definition heap_init :: "ulib \<Rightarrow> (bool \<times> ulib) option" where
  "heap_init s =
     (if heap_head s \<noteq> 0 then Some (True, s)
      else do {
        (brk, s) \<leftarrow> lib_brk 0 s;
        if brk = 0 then Some (False, s) else Some (True, s\<lparr>heap_end := brk, heap_head := 0\<rparr>)
      })"

definition more_core :: "u32 \<Rightarrow> ulib \<Rightarrow> (u32 \<times> ulib) option" where
  "more_core need s =
     (let need = ualign_up (need + MHDR) in do {
        (old, s) \<leftarrow> lib_brk 0 s;
        (neu, s) \<leftarrow> lib_brk (old + need) s;
        if neu < old + need then Some (0, s)
        else
          let s = upoke (st32 old (need - MHDR)) s; s = upoke (st32 (old + 4) 1) s; s = upoke (st32 (old + 8) 0) s
          in Some (old, s\<lparr>heap_end := neu\<rparr>)
      })"

text \<open>The walk along the blocks: the block before the one where it stops, and this one or 0.\<close>

partial_function (option) find_fit :: "umem \<Rightarrow> u32 \<Rightarrow> u32 \<Rightarrow> u32 \<Rightarrow> (u32 \<times> u32) option" where
  "find_fit m sz prev b =
     (if b = 0 then Some (prev, 0)
      else if h_free m b \<and> h_size m b \<ge> sz then Some (prev, b)
      else find_fit m sz b (h_next m b))"

definition malloc :: "u32 \<Rightarrow> ulib \<Rightarrow> (u32 \<times> ulib) option" where
  "malloc sz s =
     (if sz = 0 then Some (0, s)
      else let sz = ualign_up sz in do {
        (ok, s) \<leftarrow> heap_init s;
        if \<not> ok then Some (0, s)
        else do {
          (prev, b) \<leftarrow> find_fit (mem_of s) sz 0 (heap_head s);
          if b \<noteq> 0 then Some (b + MHDR, upoke (st32 (b + 4) 0) s)
          else do {
            (b, s) \<leftarrow> more_core sz s;
            if b = 0 then Some (0, s)
            else
              let s = upoke (st32 (b + 4) 0) s;
                  s = (if prev \<noteq> 0 then upoke (st32 (prev + 8) b) s else s\<lparr>heap_head := b\<rparr>)
              in Some (b + MHDR, s)
          }
        }
      })"

definition free :: "u32 \<Rightarrow> ulib \<Rightarrow> ulib" where
  "free ptr s = (if ptr = 0 then s else upoke (st32 (ptr - MHDR + 4) 1) s)"

definition realloc :: "u32 \<Rightarrow> u32 \<Rightarrow> ulib \<Rightarrow> (u32 \<times> ulib) option" where
  "realloc ptr sz s =
     (if ptr = 0 then malloc sz s
      else if sz = 0 then Some (0, free ptr s)
      else
        let b = ptr - MHDR in
        if h_size (mem_of s) b \<ge> sz then Some (ptr, s)
        else do {
          (n, s) \<leftarrow> malloc sz s;
          if n = 0 then Some (0, s)
          else Some (n, free ptr (upoke (mem_copy n ptr (h_size (mem_of s) b)) s))
        })"

definition calloc :: "u32 \<Rightarrow> u32 \<Rightarrow> ulib \<Rightarrow> (u32 \<times> ulib) option" where
  "calloc n sz s =
     (let total = n * sz in do {
        (p, s) \<leftarrow> malloc total s;
        if p = 0 then Some (0, s) else Some (p, upoke (mem_clear p total) s)
      })"

section \<open>The blocks\<close>

partial_function (option) ublocks :: "umem \<Rightarrow> u32 \<Rightarrow> (nat \<times> nat \<times> bool) list option" where
  "ublocks m a =
     (if a = 0 then Some []
      else do { bs \<leftarrow> ublocks m (h_next m a); Some ((unat a, unat (h_size m a), h_free m a) # bs) })"

text \<open>The blocks tile the memory from the first one up to the break.\<close>

definition heap_is :: "ulib \<Rightarrow> ablock list \<Rightarrow> bool" where
  "heap_is s bs \<longleftrightarrow> ublocks (mem_of s) (heap_head s) = Some bs
     \<and> (\<exists>a \<ge> unat USER_HEAP_BASE. tiles a bs (unat (user_brk (os s)))) \<and> unat (user_brk (os s)) \<le> unat USER_HEAP_MAX"

definition uheap_ok :: "ulib \<Rightarrow> bool" where
  "uheap_ok s \<longleftrightarrow> (\<exists>bs. heap_is s bs)"

definition uregions :: "ulib \<Rightarrow> (nat \<times> nat) set" where
  "uregions s = (case ublocks (mem_of s) (heap_head s) of None \<Rightarrow> {} | Some bs \<Rightarrow> used_regions bs)"

lemma ublocks_Nil: "ublocks m a = Some [] \<longleftrightarrow> a = 0"
  by (subst ublocks.simps) (auto simp: bind_eq_Some_conv)

lemma ublocks_Cons:
  "ublocks m a = Some ((p, n, f) # bs) \<longleftrightarrow>
     a \<noteq> 0 \<and> p = unat a \<and> n = unat (h_size m a) \<and> f = h_free m a \<and> ublocks m (h_next m a) = Some bs"
  by (subst ublocks.simps) (auto simp: bind_eq_Some_conv)

text \<open>Headers.\<close>

lemma word_same:
  assumes "unat a + k + 4 \<le> 2 ^ 32" "\<And>x. unat a + k \<le> unat x \<Longrightarrow> unat x < unat a + k + 4 \<Longrightarrow> m' x = m x"
  shows "ld32 m' (a + of_nat k) = ld32 m (a + of_nat k)"
proof (rule ld32_cong)
  fix x
  assume "within (a + of_nat k) 4 x"
  moreover have "unat (a + of_nat k) = unat a + k"
    using assms(1) by (subst unat_add_lem [THEN iffD1]) (simp_all add: unat_of_nat32)
  ultimately show "m' x = m x" using assms by (simp add: within_iff)
qed

lemma hdr_same:
  assumes "unat a + 12 \<le> 2 ^ 32" "\<And>x. unat a \<le> unat x \<Longrightarrow> unat x < unat a + 12 \<Longrightarrow> m' x = m x"
  shows "h_size m' a = h_size m a" "h_free m' a = h_free m a" "h_next m' a = h_next m a"
  using word_same [of a 0 m' m] word_same [of a 4 m' m] word_same [of a 8 m' m] assms by simp_all

lemma st32_at:
  assumes "unat a + k + 4 \<le> 2 ^ 32" "\<not> (unat a + k \<le> unat x \<and> unat x < unat a + k + 4)"
  shows "st32 (a + of_nat k) v m x = m x"
proof -
  have "unat (a + of_nat k) = unat a + k"
    using assms(1) by (subst unat_add_lem [THEN iffD1]) (simp_all add: unat_of_nat32)
  with assms show ?thesis by (intro st32_other) (simp add: within_iff)
qed

lemma ublocks_same:
  assumes "tiles a0 bs e" "e \<le> 2 ^ 32" "ublocks m b = Some bs" 
    "\<And>p n f x. (p, n, f) \<in> set bs \<Longrightarrow> p \<le> unat x \<Longrightarrow> unat x < p + 12 \<Longrightarrow> m' x = m x"
  shows "ublocks m' b = Some bs"
  using assms
proof (induction bs arbitrary: a0 b)
  case (Cons x bs)
  obtain p n f where x: "x = (p, n, f)" by (cases x)
  have b: "p = a0" "tiles (a0 + 12 + n) bs e" "unat b = p" using Cons.prems(1,3) x by (auto simp: ublocks_Cons HDR_def)
  then have "p + 12 \<le> e" using tiles_le by fastforce
  then have "h_size m' b = h_size m b" "h_free m' b = h_free m b" "h_next m' b = h_next m b"
    using hdr_same [of b m' m] Cons.prems(2) Cons.prems(4) [of p n f] b x by simp_all
  moreover have "ublocks m' (h_next m b) = Some bs"
  proof (rule Cons.IH [OF b(2) Cons.prems(2)])
    show "ublocks m (h_next m b) = Some bs" using Cons.prems(3) x by (simp add: ublocks_Cons)
    show "m' y = m y" if "(q, k, g) \<in> set bs" "q \<le> unat y" "unat y < q + 12" for q k g y
      using Cons.prems(4) [of q k g y] that by simp
  qed
  ultimately show ?case using Cons.prems(3) unfolding x ublocks_Cons by simp
qed (simp add: ublocks_Nil)

text \<open>Marking a block and appending one.\<close>

definition mark :: "nat \<Rightarrow> bool \<Rightarrow> ablock list \<Rightarrow> ablock list" where
  "mark p v bs = map (\<lambda>(q, n, f). (q, n, if q = p then v else f)) bs"

lemma mark_simps [simp]: "mark p v [] = []" "mark p v ((q, n, f) # bs) = (q, n, if q = p then v else f) # mark p v bs"
  by (simp_all add: mark_def)

lemma mark_other: "tiles a bs e \<Longrightarrow> p < a \<Longrightarrow> mark p v bs = bs"
  by (induction a bs e rule: tiles.induct) auto

lemma tiles_mark: "tiles a (mark p v bs) e \<longleftrightarrow> tiles a bs e"
  by (induction a bs e rule: tiles.induct) auto

lemma ublocks_mark:
  assumes "tiles a0 bs e" "e \<le> 2 ^ 32" "ublocks m b = Some bs" "(unat c, n, f) \<in> set bs"
  shows "ublocks (st32 (c + 4) v m) b = Some (mark (unat c) (v \<noteq> 0) bs)"
  using assms
proof (induction bs arbitrary: a0 b)
  case (Cons x bs)
  let ?m = "st32 (c + 4) v m"
  obtain q k g where x: "x = (q, k, g)" by (cases x)
  have b: "q = a0" "tiles (a0 + 12 + k) bs e" "unat b = q" "ublocks m (h_next m b) = Some bs" "b \<noteq> 0"
    using Cons.prems(1,3) x by (auto simp: ublocks_Cons HDR_def)
  have e: "a0 + 12 + k \<le> e" using tiles_le [OF b(2)] .
  have c: "unat c + 12 + n \<le> e" using tiles_bounds [OF Cons.prems(1,4)] by simp
  have out: "?m y = m y" if "\<not> (unat c + 4 \<le> unat y \<and> unat y < unat c + 8)" for y
    using st32_at [of c 4 y v m] that c Cons.prems(2) by auto
  show ?case
  proof (cases "q = unat c")
    case True
    then have bc: "b = c" using b(3) by (simp add: word_unat_eq_iff)
    have r: "ld32 ?m (c + 4) = v" by (rule ld32_st32)
    have "h_size ?m c = h_size m c" "h_next ?m c = h_next m c"
      using word_same [of c 0 ?m m] word_same [of c 8 ?m m] out c Cons.prems(2) by simp_all
    moreover have "ublocks ?m (h_next m c) = Some bs"
      using ublocks_same [OF b(2) Cons.prems(2) b(4), of ?m] tiles_bounds [OF b(2)] out True b(1) bc by fastforce
    ultimately show ?thesis
      using Cons.prems(3) r mark_other [OF b(2), of "unat c"] True b(1) unfolding x bc by (simp add: ublocks_Cons)
  next
    case False
    then have "(unat c, n, f) \<in> set bs" using Cons.prems(4) x by auto
    moreover from this have "a0 + 12 + k \<le> unat c" using tiles_bounds [OF b(2)] by blast
    then have "h_size ?m b = h_size m b" "h_free ?m b = h_free m b" "h_next ?m b = h_next m b"
      using hdr_same [of b ?m m] out b e Cons.prems(2) by simp_all
    ultimately show ?thesis
      using Cons.IH [OF b(2) Cons.prems(2) b(4)] Cons.prems(3) False unfolding x by (simp add: ublocks_Cons)
  qed
qed simp

lemma ublocks_append:
  assumes "tiles a0 bs e" "e + 12 \<le> 2 ^ 32" "ublocks m b = Some bs" "bs \<noteq> []" "fst (last bs) = unat q"
    and new: "unat c = e" "h_next m c = 0"
  shows "ublocks (st32 (q + 8) c m) b = Some (bs @ [(e, unat (h_size m c), h_free m c)])"
  using assms(1,3-5)
proof (induction bs arbitrary: a0 b)
  case (Cons x bs)
  let ?m = "st32 (q + 8) c m"
  obtain p k g where x: "x = (p, k, g)" by (cases x)
  have b: "p = a0" "tiles (a0 + 12 + k) bs e" "unat b = p" "ublocks m (h_next m b) = Some bs" "b \<noteq> 0"
    using Cons.prems(1,2) x by (auto simp: ublocks_Cons HDR_def)
  have e: "a0 + 12 + k \<le> e" using tiles_le [OF b(2)] .
  obtain k' g' where "last (x # bs) = (unat q, k', g')" using Cons.prems(4) by (metis prod.collapse)
  then have "(unat q, k', g') \<in> set (x # bs)" by (metis last_in_set Cons.prems(3))
  then have q: "unat q + 12 + k' \<le> e" using tiles_bounds [OF Cons.prems(1)] by blast
  have out: "?m y = m y" if "\<not> (unat q + 8 \<le> unat y \<and> unat y < unat q + 12)" for y
    using st32_at [of q 8 y c m] that q assms(2) by auto
  show ?case
  proof (cases "bs = []")
    case True
    then have "b = q" using b(3) Cons.prems(4) x by (simp add: word_unat_eq_iff)
    moreover have "h_size ?m q = h_size m q" "h_free ?m q = h_free m q" "h_next ?m q = c"
      using word_same [of q 0 ?m m] word_same [of q 4 ?m m] out q assms(2) ld32_st32 by simp_all
    moreover have "h_size ?m c = h_size m c" "h_free ?m c = h_free m c" "h_next ?m c = h_next m c"
      using hdr_same [of c ?m m] out q new(1) assms(2) by simp_all
    moreover have "c \<noteq> 0" using new(1) e by auto
    ultimately show ?thesis using Cons.prems(2) new True unfolding x by (simp add: ublocks_Cons ublocks_Nil)
  next
    case False
    then have l: "fst (last bs) = unat q" using Cons.prems(4) by simp
    then obtain k' g' where "(unat q, k', g') \<in> set bs" using False by (metis last_in_set prod.collapse)
    then have "a0 + 12 + k \<le> unat q" using tiles_bounds [OF b(2)] by blast
    then have "h_size ?m b = h_size m b" "h_free ?m b = h_free m b" "h_next ?m b = h_next m b"
      using hdr_same [of b ?m m] out b e assms(2) by simp_all
    then show ?thesis using Cons.IH [OF b(2,4) False l] Cons.prems(2) unfolding x by (simp add: ublocks_Cons)
  qed
qed simp

lemma find_fit_none:
  "ublocks m b = Some bs \<Longrightarrow> \<forall>(p, n, f) \<in> set bs. \<not> (f \<and> unat sz \<le> n) \<Longrightarrow>
   find_fit m sz prev b = Some (if bs = [] then prev else of_nat (fst (last bs)), 0)"
proof (induction bs arbitrary: b prev)
  case (Cons x bs)
  obtain p k g where x: "x = (p, k, g)" by (cases x)
  have b: "p = unat b" "k = unat (h_size m b)" "g = h_free m b" "ublocks m (h_next m b) = Some bs" "b \<noteq> 0"
    using Cons.prems(1) x by (auto simp: ublocks_Cons)
  have "find_fit m sz prev b = find_fit m sz b (h_next m b)"
    using Cons.prems(2) b x by (subst find_fit.simps) (auto simp: word_le_nat_alt)
  then show ?case using Cons.IH [OF b(4), of b] Cons.prems(2) b(1) x by simp
qed (simp add: ublocks_Nil find_fit.simps)

lemma find_fit_some:
  "ublocks m b = Some bs \<Longrightarrow> (p, n, f) \<in> set bs \<Longrightarrow> f \<and> unat sz \<le> n \<Longrightarrow>
   \<exists>prev' c k. find_fit m sz prev b = Some (prev', c) \<and> c \<noteq> 0 \<and> (unat c, k, True) \<in> set bs \<and> unat sz \<le> k"
proof (induction bs arbitrary: b prev)
  case (Cons x bs)
  obtain q k g where x: "x = (q, k, g)" by (cases x)
  have b: "q = unat b" "k = unat (h_size m b)" "g = h_free m b" "ublocks m (h_next m b) = Some bs" "b \<noteq> 0"
    using Cons.prems(1) x by (auto simp: ublocks_Cons)
  show ?case
  proof (cases "g \<and> unat sz \<le> k")
    case True
    then show ?thesis using b x by (subst find_fit.simps) (auto simp: word_le_nat_alt)
  next
    case False
    then have "(p, n, f) \<in> set bs" using Cons.prems(2,3) x by auto
    from Cons.IH [OF b(4) this Cons.prems(3), of b] show ?thesis
      using b x False by (subst find_fit.simps) (auto simp: word_le_nat_alt)
  qed
qed simp

text \<open>The break.\<close>

lemma lib_brk_eq: "lib_brk addr s = Some (fst (sys_brk addr (os s)), s\<lparr>os := snd (sys_brk addr (os s))\<rparr>)"
  by (simp add: lib_brk_def syscall3_def syscall_handler_def syscall_ret_def syscall_nr Let_def split: prod.split)

lemma unat_ualign:
  assumes "unat n + 7 < 2 ^ 32"
  shows "unat (ualign_up n) = 8 * ((unat n + 7) div 8)"
proof -
  have u: "unat (n + 7) = unat n + 7" using assms by (subst unat_add_lem [THEN iffD1]) simp_all
  have "ualign_up n = (n + 7) AND NOT (mask 3)" by (simp add: ualign_up_def HALIGN_def mask_eq_exp_minus_1)
  also have "\<dots> = push_bit 3 (drop_bit 3 (n + 7))" by (intro bit_word_eqI) (auto simp: bit_simps)
  also have "drop_bit 3 (n + 7) = of_nat ((unat n + 7) div 8)" by (simp add: drop_bit_eq_div word_arith_nat_div u)
  finally have "ualign_up n = of_nat (8 * ((unat n + 7) div 8))" by (simp add: push_bit_eq_mult)
  moreover have "8 * ((unat n + 7) div 8) < 2 ^ 32" using assms by (metis le_less_trans times_div_less_eq_dividend)
  ultimately show ?thesis by (simp only: unat_of_nat32)
qed

definition new_header :: "u32 \<Rightarrow> u32 \<Rightarrow> umem \<Rightarrow> umem" where
  "new_header b sz m = st32 (b + 8) 0 (st32 (b + 4) 1 (st32 b sz m))"

lemma more_core_cases:
  assumes "heap_is s bs" "unat sz mod 8 = 0" "unat sz \<le> 2 ^ 31"
  shows "unat (user_brk (os s)) + 16 + unat sz > unat USER_HEAP_MAX \<Longrightarrow> more_core sz s = Some (0, s)"
    and "unat (user_brk (os s)) + 16 + unat sz \<le> unat USER_HEAP_MAX \<Longrightarrow>
      \<exists>s'. more_core sz s = Some (user_brk (os s), s') \<and> heap_head s' = heap_head s
        \<and> unat (user_brk (os s')) = unat (user_brk (os s)) + 16 + unat sz
        \<and> mem_of s' = new_header (user_brk (os s)) (sz + 4) (mem_of s)"
proof -
  let ?b = "user_brk (os s)" and ?n = "ualign_up (sz + MHDR)"
  obtain a where a: "unat USER_HEAP_BASE \<le> a" "tiles a bs (unat ?b)" "unat ?b \<le> unat USER_HEAP_MAX"
    using assms(1) by (auto simp: heap_is_def)
  have base: "unat USER_HEAP_BASE \<le> unat ?b" using a(1) tiles_le [OF a(2)] by simp
  have "unat (sz + MHDR) = unat sz + 12"
    using assms(3) by (subst unat_add_lem [THEN iffD1]) (simp_all add: MHDR_def)
  then have n: "unat ?n = unat sz + 16"
    using unat_ualign [of "sz + MHDR"] assms(2,3) by (simp add: mod_eq_0_iff_dvd) (auto elim!: dvdE)
  then have "?n = sz + 16" using assms(3) by (simp add: word_unat_eq_iff) (subst unat_add_lem [THEN iffD1], simp_all)
  then have size: "?n - MHDR = sz + 4" by (simp add: MHDR_def)
  have e: "unat (?b + ?n) = unat ?b + 16 + unat sz"
    using n a(3) assms(3) by (subst unat_add_lem [THEN iffD1]) (simp_all add: USER_HEAP_MAX_def)
  then have nz: "?b + ?n \<noteq> 0" by auto
  have zero: "sys_brk 0 (os s) = (?b, os s)" by (simp add: sys_brk_def)
  show "more_core sz s = Some (0, s)" if "unat ?b + 16 + unat sz > unat USER_HEAP_MAX"
  proof -
    have "sys_brk (?b + ?n) (os s) = (?b, os s)" using that e nz by (simp add: sys_brk_def word_less_nat_alt)
    moreover have "?b < ?b + ?n" using e by (simp add: word_less_nat_alt)
    ultimately show ?thesis using zero by (simp add: more_core_def Let_def lib_brk_eq)
  qed
  show "\<exists>s'. more_core sz s = Some (?b, s') \<and> heap_head s' = heap_head s \<and> unat (user_brk (os s')) = unat ?b + 16 + unat sz
        \<and> mem_of s' = new_header ?b (sz + 4) (mem_of s)" if "unat ?b + 16 + unat sz \<le> unat USER_HEAP_MAX"
  proof -
    have "sys_brk (?b + ?n) (os s) = (?b + ?n, (os s)\<lparr>user_brk := ?b + ?n\<rparr>)"
      using that e nz base by (simp add: sys_brk_def word_less_nat_alt)
    then show ?thesis using zero e size by (simp add: more_core_def Let_def lib_brk_eq new_header_def)
  qed
qed

lemma new_header_reads:
  assumes "unat b + 12 \<le> 2 ^ 32"
  shows "h_size (new_header b sz m) b = sz" "h_free (new_header b sz m) b" "h_next (new_header b sz m) b = 0"
    "\<not> (unat b \<le> unat x \<and> unat x < unat b + 12) \<Longrightarrow> new_header b sz m x = m x"
proof -
  let ?m1 = "st32 b sz m" let ?m2 = "st32 (b + 4) 1 ?m1"
  have 1: "ld32 ?m2 b = sz" using word_same [of b 0 ?m2 ?m1] st32_at [of b 4 _ 1 ?m1] assms ld32_st32 by simp
  have 2: "ld32 (new_header b sz m) b = ld32 ?m2 b" "ld32 (new_header b sz m) (b + 4) = ld32 ?m2 (b + 4)"
    using word_same [of b 0 "new_header b sz m" ?m2] word_same [of b 4 "new_header b sz m" ?m2] st32_at [of b 8 _ 0 ?m2] assms
    by (simp_all add: new_header_def)
  show "h_size (new_header b sz m) b = sz" "h_free (new_header b sz m) b" "h_next (new_header b sz m) b = 0"
    using 1 2 ld32_st32 by (simp_all add: new_header_def)
  show "new_header b sz m x = m x" if "\<not> (unat b \<le> unat x \<and> unat x < unat b + 12)"
    using st32_at [of b 8 x 0 ?m2] st32_at [of b 4 x 1 ?m1] st32_at [of b 0 x sz m] that assms by (auto simp: new_header_def)
qed

lemma used_mark:
  assumes "tiles a bs e" "(c, k, f) \<in> set bs"
  shows "used_regions (mark c v bs) = (if v then used_regions bs - {(c + 12, k)} else insert (c + 12, k) (used_regions bs))"
  using assms
proof (induction a bs e rule: tiles.induct)
  case (2 a b n g bs e)
  have t: "tiles (a + 12 + n) bs e" "b = a" using "2.prems"(1) by (simp_all add: HDR_def)
  show ?case
  proof (cases "c = a")
    case True
    have "(a, k', g') \<notin> set bs" for k' g' using tiles_bounds [OF t(1), of a k' g'] by auto
    then have "(c, k, f) = (b, n, g)" "(a + 12, n) \<notin> used_regions bs" using "2.prems"(2) True by (auto simp: used_regions_mem)
    then show ?thesis using mark_other [OF t(1), of a v] t(2) True by auto
  next
    case False
    then show ?thesis using "2.IH" "2.prems" by (auto simp: HDR_def)
  qed
qed simp

lemma used_append: "used_regions (bs @ [(p, n, False)]) = insert (p + 12, n) (used_regions bs)"
  by (auto simp: used_regions_def)

text \<open>The bytes of the blocks: a byte that is in no header and below the break.\<close>

definition payload :: "ablock list \<Rightarrow> nat \<Rightarrow> u32 \<Rightarrow> bool" where
  "payload bs e x \<longleftrightarrow> unat x < e \<and> (\<forall>(p, n, f) \<in> set bs. \<not> (p \<le> unat x \<and> unat x < p + 12))"

lemma payload_region:
  assumes "tiles a bs e" "(q, k) \<in> used_regions bs" "q \<le> unat x" "unat x < q + k"
  shows "payload bs e x"
proof -
  obtain p where p: "q = p + 12" "(p, k, False) \<in> set bs" using assms(2) by (auto simp: used_regions_def)
  have "\<not> (b \<le> unat x \<and> unat x < b + 12)" if "(b, n, f) \<in> set bs" for b n f
    using tiles_disjoint [OF assms(1) p(2) that] p assms(3,4) by auto
  then show ?thesis using tiles_bounds [OF assms(1) p(2)] p(1) assms(4) by (auto simp: payload_def)
qed

lemma heap_init_eq:
  assumes "heap_is s bs"
  shows "\<exists>s1. heap_init s = Some (True, s1) \<and> os s1 = os s \<and> heap_head s1 = heap_head s"
proof -
  obtain a where "unat USER_HEAP_BASE \<le> a" "tiles a bs (unat (user_brk (os s)))" using assms by (auto simp: heap_is_def)
  then have "unat USER_HEAP_BASE \<le> unat (user_brk (os s))" using tiles_le by fastforce
  then have "user_brk (os s) \<noteq> 0" by (auto simp: USER_HEAP_BASE_def)
  then show ?thesis by (simp add: heap_init_def lib_brk_eq sys_brk_def)
qed

definition ufits :: "u32 \<Rightarrow> ablock list \<Rightarrow> bool" where
  "ufits z bs \<longleftrightarrow> (\<exists>(p, n, f) \<in> set bs. f \<and> unat z \<le> n)"

lemma malloc_reuses:
  assumes h: "heap_is s bs" and "sz \<noteq> 0" "ufits (ualign_up sz) bs"
  shows "\<exists>c k s'. malloc sz s = Some (c + 12, s') \<and> (unat c, k, True) \<in> set bs \<and> unat (ualign_up sz) \<le> k
    \<and> heap_is s' (mark (unat c) False bs) \<and> user_brk (os s') = user_brk (os s)
    \<and> (\<forall>x. payload bs (unat (user_brk (os s))) x \<longrightarrow> mem_of s' x = mem_of s x)"
proof -
  let ?z = "ualign_up sz" and ?e = "unat (user_brk (os s))"
  obtain a where a: "unat USER_HEAP_BASE \<le> a" "tiles a bs ?e" "?e \<le> unat USER_HEAP_MAX" "ublocks (mem_of s) (heap_head s) = Some bs"
    using h by (auto simp: heap_is_def)
  obtain s1 where s1: "heap_init s = Some (True, s1)" "os s1 = os s" "heap_head s1 = heap_head s" using heap_init_eq [OF h] by blast
  obtain prev c k where c: "find_fit (mem_of s) ?z 0 (heap_head s) = Some (prev, c)" "c \<noteq> 0" "(unat c, k, True) \<in> set bs" "unat ?z \<le> k"
    using find_fit_some [OF a(4)] assms(3) by (fastforce simp: ufits_def)
  have e: "?e \<le> 2 ^ 32" "unat c + 12 + k \<le> ?e" using a(3) tiles_bounds [OF a(2) c(3)] by (simp_all add: USER_HEAP_MAX_def)
  let ?s = "upoke (st32 (c + 4) 0) s1"
  have "malloc sz s = Some (c + 12, ?s)" using assms(2) s1 c by (simp add: malloc_def Let_def MHDR_def)
  moreover have "heap_is ?s (mark (unat c) False bs)"
    using ublocks_mark [OF a(2) e(1) a(4) c(3), of 0] a s1 by (auto simp: heap_is_def tiles_mark)
  moreover have "mem_of ?s x = mem_of s x" if "payload bs ?e x" for x
    using st32_at [of c 4 x 0 "mem_of s"] that c(3) e s1(2) by (auto simp: payload_def)
  ultimately show ?thesis using c s1(2) by (intro exI [of _ c] exI [of _ k] exI [of _ ?s]) auto
qed

lemma heap_append:
  assumes t: "tiles a bs e" "ublocks m b = Some bs" "e + 16 + unat z \<le> 2 ^ 31" "unat c = e" "c \<noteq> 0"
    and m': "m' = (if bs = [] then id else st32 (of_nat (fst (last bs)) + 8) c) (st32 (c + 4) 0 (new_header c (z + 4) m))"
  shows "ublocks m' (if bs = [] then c else b) = Some (bs @ [(e, unat z + 4, False)])"
    and "payload bs e x \<Longrightarrow> m' x = m x"
proof -
  let ?m1 = "new_header c (z + 4) m" let ?m2 = "st32 (c + 4) 0 ?m1"
  have c12: "unat c + 12 \<le> 2 ^ 32" using t(3,4) by simp
  have z: "unat (z + 4) = unat z + 4" using t(3) by (subst unat_add_lem [THEN iffD1]) simp_all
  have out2: "?m2 y = ?m1 y" if "\<not> (unat c + 4 \<le> unat y \<and> unat y < unat c + 8)" for y
    using st32_at [of c 4 y 0 ?m1] that c12 by auto
  have r: "h_size ?m2 c = z + 4" "\<not> h_free ?m2 c" "h_next ?m2 c = 0"
    using word_same [of c 0 ?m2 ?m1] word_same [of c 8 ?m2 ?m1] out2 c12 new_header_reads(1,3) [OF c12] ld32_st32 by simp_all
  have low: "?m2 y = m y" if "unat y < e" for y using out2 [of y] new_header_reads(4) [OF c12, of y] that t(4) by simp
  have e: "e + 12 \<le> 2 ^ 32" "e \<le> 2 ^ 32" using t(3) by simp_all
  have "p + 12 \<le> e" if "(p, n, f) \<in> set bs" for p n f using tiles_bounds [OF t(1) that] by simp
  then have old: "ublocks ?m2 b = Some bs" using low by (intro ublocks_same [OF t(1) e(2) t(2)]) fastforce
  show "ublocks m' (if bs = [] then c else b) = Some (bs @ [(e, unat z + 4, False)])"
  proof (cases "bs = []")
    case True
    then show ?thesis using m' r z t(4,5) by (simp add: ublocks_Cons ublocks_Nil)
  next
    case False
    then obtain q k g where q: "last bs = (q, k, g)" "(q, k, g) \<in> set bs" by (metis last_in_set prod_cases3)
    then have "fst (last bs) = unat (of_nat q :: u32)" using tiles_bounds [OF t(1) q(2)] e(2) by (simp add: unat_of_nat32)
    from ublocks_append [OF t(1) e(1) old False this t(4) r(3)] show ?thesis using False m' r(1,2) z q(1) by simp
  qed
  assume x: "payload bs e x"
  then have "unat x < e" by (simp add: payload_def)
  moreover have "m' x = ?m2 x"
  proof (cases "bs = []")
    case False
    then obtain q k g where q: "last bs = (q, k, g)" "(q, k, g) \<in> set bs" by (metis last_in_set prod_cases3)
    then have "unat (of_nat q :: u32) = q" "q + 12 \<le> e" using tiles_bounds [OF t(1) q(2)] e(2) by (simp_all add: unat_of_nat32)
    then show ?thesis using st32_at [of "of_nat q" 8 x c ?m2] x q e(1) False m' by (auto simp: payload_def)
  qed (simp add: m')
  ultimately show "m' x = m x" using low by simp
qed

lemma malloc_grows:
  assumes h: "heap_is s bs" and sz: "sz \<noteq> 0" "unat sz \<le> 2 ^ 31 - 8" "\<not> ufits (ualign_up sz) bs"
  shows "unat (user_brk (os s)) + 16 + unat (ualign_up sz) > unat USER_HEAP_MAX \<Longrightarrow>
      \<exists>s'. malloc sz s = Some (0, s') \<and> os s' = os s \<and> heap_head s' = heap_head s"
    and "unat (user_brk (os s)) + 16 + unat (ualign_up sz) \<le> unat USER_HEAP_MAX \<Longrightarrow>
      \<exists>s'. malloc sz s = Some (user_brk (os s) + 12, s')
        \<and> heap_is s' (bs @ [(unat (user_brk (os s)), unat (ualign_up sz) + 4, False)])
        \<and> (\<forall>x. payload bs (unat (user_brk (os s))) x \<longrightarrow> mem_of s' x = mem_of s x)"
proof -
  let ?z = "ualign_up sz" and ?b = "user_brk (os s)" let ?e = "unat ?b"
  obtain a where a: "unat USER_HEAP_BASE \<le> a" "tiles a bs ?e" "?e \<le> unat USER_HEAP_MAX" "ublocks (mem_of s) (heap_head s) = Some bs"
    using h by (auto simp: heap_is_def)
  have "unat USER_HEAP_BASE \<le> ?e" using a(1) tiles_le [OF a(2)] by simp
  then have b0: "?b \<noteq> 0" by (auto simp: USER_HEAP_BASE_def)
  obtain s1 where s1: "heap_init s = Some (True, s1)" "os s1 = os s" "heap_head s1 = heap_head s" using heap_init_eq [OF h] by blast
  have h1: "heap_is s1 bs" using h s1 by (simp add: heap_is_def)
  have z: "unat ?z = 8 * ((unat sz + 7) div 8)" using unat_ualign [of sz] sz(2) by simp
  have zm: "unat ?z mod 8 = 0" "unat ?z \<le> 2 ^ 31" using sz(2) unfolding z by simp_all
  have ff: "find_fit (mem_of s) ?z 0 (heap_head s) = Some (if bs = [] then 0 else of_nat (fst (last bs)), 0)"
  proof (rule find_fit_none [OF a(4)])
    show "\<forall>(p, n, f) \<in> set bs. \<not> (f \<and> unat ?z \<le> n)" using sz(3) by (fastforce simp: ufits_def)
  qed
  show "\<exists>s'. malloc sz s = Some (0, s') \<and> os s' = os s \<and> heap_head s' = heap_head s" if "?e + 16 + unat ?z > unat USER_HEAP_MAX"
    using more_core_cases(1) [OF h1 zm] that s1 ff sz(1) by (simp add: malloc_def Let_def)
  assume room: "?e + 16 + unat ?z \<le> unat USER_HEAP_MAX"
  then obtain s2 where s2: "more_core ?z s1 = Some (?b, s2)" "heap_head s2 = heap_head s" "unat (user_brk (os s2)) = ?e + 16 + unat ?z"
    "mem_of s2 = new_header ?b (?z + 4) (mem_of s)"
    using more_core_cases(2) [OF h1 zm] s1(2,3) by auto
  let ?p = "if bs = [] then 0 else of_nat (fst (last bs)) :: u32"
  let ?s3 = "upoke (st32 (?b + 4) 0) s2"
  let ?s' = "if ?p \<noteq> 0 then upoke (st32 (?p + 8) ?b) ?s3 else ?s3\<lparr>heap_head := ?b\<rparr>"
  have p: "?p = 0 \<longleftrightarrow> bs = []"
  proof (cases "bs = []")
    case False
    then obtain q k g where q: "last bs = (q, k, g)" "(q, k, g) \<in> set bs" by (metis last_in_set prod_cases3)
    then have "0 < q" "q < 2 ^ 32" using tiles_bounds [OF a(2) q(2)] a(1,3) by (auto simp: USER_HEAP_BASE_def USER_HEAP_MAX_def)
    then have "unat (of_nat q :: u32) \<noteq> 0" by (simp add: unat_of_nat32)
    then show ?thesis using q(1) False by auto
  qed simp
  have m': "mem_of ?s' = (if bs = [] then id else st32 (of_nat (fst (last bs)) + 8) ?b) (st32 (?b + 4) 0 (new_header ?b (?z + 4) (mem_of s)))"
    using p s2(4) by simp
  have small: "?e + 16 + unat ?z \<le> 2 ^ 31" using room by (simp add: USER_HEAP_MAX_def)
  note app = heap_append [OF a(2,4) small refl b0 m']
  have "malloc sz s = Some (?b + 12, ?s')" using s1 ff s2(1) b0 sz(1) by (simp add: malloc_def Let_def MHDR_def)
  moreover have "heap_head ?s' = (if bs = [] then ?b else heap_head s)" "user_brk (os ?s') = user_brk (os s2)" using p s2(2) by auto
  then have "heap_is ?s' (bs @ [(?e, unat ?z + 4, False)])"
    using app(1) a(1,2) s2(3) room by (auto simp: heap_is_def tiles_append HDR_def)
  ultimately show "\<exists>s'. malloc sz s = Some (?b + 12, s') \<and> heap_is s' (bs @ [(?e, unat ?z + 4, False)])
      \<and> (\<forall>x. payload bs ?e x \<longrightarrow> mem_of s' x = mem_of s x)"
    using app(2) by blast
qed

lemma uregions_is: "heap_is s bs \<Longrightarrow> uregions s = used_regions bs"
  by (simp add: uregions_def heap_is_def)

lemma payload_kept:
  assumes "heap_is s bs" "\<And>x. payload bs (unat (user_brk (os s))) x \<Longrightarrow> m' x = mem_of s x" "(q, k) \<in> uregions s" "i < k"
  shows "m' (of_nat (q + i)) = mem_of s (of_nat (q + i))"
proof -
  obtain a where a: "tiles a bs (unat (user_brk (os s)))" "unat (user_brk (os s)) \<le> unat USER_HEAP_MAX"
    using assms(1) by (auto simp: heap_is_def)
  have r: "(q, k) \<in> used_regions bs" using assms(1,3) by (simp add: uregions_is)
  then obtain p where "q = p + 12" "(p, k, False) \<in> set bs" by (auto simp: used_regions_def)
  then have "q + i < 2 ^ 32" using tiles_bounds [OF a(1)] a(2) assms(4) by (fastforce simp: USER_HEAP_MAX_def)
  then have "unat (of_nat (q + i) :: u32) = q + i" by (rule unat_of_nat32)
  then show ?thesis using assms(2) payload_region [OF a(1) r] assms(4) by simp
qed

lemma mem_disjoint:
  assumes "tiles a bs e" "(c, k, True) \<in> set bs" "y \<in> used_regions bs"
  shows "disjoint_regions (c + 12, k) y"
proof -
  obtain q n where y: "y = (q + 12, n)" "(q, n, False) \<in> set bs" using assms(3) by (auto simp: used_regions_def)
  then show ?thesis using tiles_disjoint [OF assms(1,2) y(2)] by (auto simp: disjoint_regions_def)
qed

text \<open>A region granted: apart from all regions in use, whose bytes stay.\<close>

definition keeps_regions :: "ulib \<Rightarrow> ulib \<Rightarrow> bool" where
  "keeps_regions s s' \<longleftrightarrow> (\<forall>(q, k) \<in> uregions s. \<forall>i < k. mem_of s' (of_nat (q + i)) = mem_of s (of_nat (q + i)))"

definition granted :: "ulib \<Rightarrow> nat \<Rightarrow> u32 \<Rightarrow> ulib \<Rightarrow> bool" where
  "granted s n p s' \<longleftrightarrow> p \<noteq> 0 \<and> uheap_ok s' \<and> keeps_regions s s'
     \<and> (\<exists>k \<ge> n. uregions s' = insert (unat p, k) (uregions s) \<and> (\<forall>x \<in> uregions s. disjoint_regions (unat p, k) x)
          \<and> unat p + k \<le> unat (user_brk (os s')))"

lemma malloc_reuse_granted:
  assumes h: "heap_is s bs" and "sz \<noteq> 0" "ufits (ualign_up sz) bs" "n \<le> unat (ualign_up sz)"
  shows "\<exists>p s'. malloc sz s = Some (p, s') \<and> granted s n p s'"
proof -
  let ?z = "ualign_up sz" and ?e = "unat (user_brk (os s))"
  obtain a where a: "tiles a bs ?e" "?e \<le> unat USER_HEAP_MAX" using h by (auto simp: heap_is_def)
  obtain c k s' where c: "malloc sz s = Some (c + 12, s')" "(unat c, k, True) \<in> set bs" "unat ?z \<le> k"
    "heap_is s' (mark (unat c) False bs)" "user_brk (os s') = user_brk (os s)" "\<forall>x. payload bs ?e x \<longrightarrow> mem_of s' x = mem_of s x"
    using malloc_reuses [OF assms(1-3)] by blast
  have bnd: "unat c + 12 + k \<le> ?e" using tiles_bounds [OF a(1) c(2)] by simp
  then have p: "unat (c + 12) = unat c + 12" using a(2) by (subst unat_add_lem [THEN iffD1]) (simp_all add: USER_HEAP_MAX_def)
  then have "c + 12 \<noteq> 0" by auto
  moreover have "keeps_regions s s'" using payload_kept [OF h, of "mem_of s'"] c(6) by (fastforce simp: keeps_regions_def)
  moreover have "uregions s' = insert (unat (c + 12), k) (uregions s)"
    using used_mark [OF a(1) c(2), of False] uregions_is [OF c(4)] uregions_is [OF h] p by simp
  moreover have "\<forall>x \<in> uregions s. disjoint_regions (unat (c + 12), k) x" using mem_disjoint [OF a(1) c(2)] uregions_is [OF h] p by simp
  ultimately have "granted s n (c + 12) s'" 
    unfolding granted_def using c(3-5) assms(4) bnd p by (auto simp: uheap_ok_def intro!: exI [of _ k])
  with c(1) show ?thesis by blast
qed

lemma malloc_grow_granted:
  assumes h: "heap_is s bs" and sz: "sz \<noteq> 0" "unat sz \<le> 2 ^ 31 - 8" "\<not> ufits (ualign_up sz) bs" "n \<le> unat (ualign_up sz)"
    and room: "unat (user_brk (os s)) + 16 + unat (ualign_up sz) \<le> unat USER_HEAP_MAX"
  shows "\<exists>p s'. malloc sz s = Some (p, s') \<and> granted s n p s'"
proof -
  let ?z = "ualign_up sz" and ?b = "user_brk (os s)" let ?e = "unat ?b"
  obtain a where a: "tiles a bs ?e" "?e \<le> unat USER_HEAP_MAX" using h by (auto simp: heap_is_def)
  obtain s' where s': "malloc sz s = Some (?b + 12, s')" "heap_is s' (bs @ [(?e, unat ?z + 4, False)])"
    "\<forall>x. payload bs ?e x \<longrightarrow> mem_of s' x = mem_of s x"
    using malloc_grows(2) [OF h sz(1-3) room] by blast
  have p: "unat (?b + 12) = ?e + 12" using a(2) by (subst unat_add_lem [THEN iffD1]) (simp_all add: USER_HEAP_MAX_def)
  then have "?b + 12 \<noteq> 0" by auto
  moreover have "keeps_regions s s'" using payload_kept [OF h, of "mem_of s'"] s'(3) by (fastforce simp: keeps_regions_def)
  moreover have "uregions s' = insert (unat (?b + 12), unat ?z + 4) (uregions s)"
    using uregions_is [OF s'(2)] uregions_is [OF h] p used_append by simp
  moreover have "\<forall>x \<in> uregions s. disjoint_regions (unat (?b + 12), unat ?z + 4) x"
    using tiles_bounds [OF a(1)] uregions_is [OF h] p by (fastforce simp: disjoint_regions_def used_regions_def)
  moreover have "unat (?b + 12) + (unat ?z + 4) \<le> unat (user_brk (os s'))"
    using s'(2) p by (auto simp: heap_is_def tiles_append HDR_def)
  ultimately have "granted s n (?b + 12) s'"
    unfolding granted_def using s'(2) sz(4) by (auto simp: uheap_ok_def intro!: exI [of _ "unat ?z + 4"])
  with s'(1) show ?thesis by blast
qed

definition refuses :: "nat \<Rightarrow> ablock list \<Rightarrow> ulib \<Rightarrow> bool" where
  "refuses n bs s \<longleftrightarrow> n = 0 \<or> (\<forall>(q, k, f) \<in> set bs. f \<longrightarrow> k < 8 * ((n + 7) div 8))
     \<and> unat USER_HEAP_MAX < unat (user_brk (os s)) + 16 + 8 * ((n + 7) div 8)"

lemma malloc_outcome:
  assumes h: "heap_is s bs" and n: "n \<le> 2 ^ 31 - 8"
  shows "if refuses n bs s then \<exists>s'. malloc (of_nat n) s = Some (0, s') \<and> os s' = os s \<and> heap_head s' = heap_head s
    else \<exists>p s'. malloc (of_nat n) s = Some (p, s') \<and> granted s n p s'"
proof (cases "n = 0")
  case True
  then show ?thesis by (simp add: malloc_def refuses_def)
next
  case False
  let ?sz = "of_nat n :: u32" let ?z = "ualign_up ?sz"
  have u: "unat ?sz = n" using n by (simp add: unat_of_nat32)
  then have z: "unat ?z = 8 * ((n + 7) div 8)" using unat_ualign [of ?sz] n by simp
  have "?sz \<noteq> 0" using u False unat_eq_zero [of ?sz] by simp
  note sz = this
  have le: "n \<le> unat ?z" using z by simp
  have "(\<forall>(q, k, f) \<in> set bs. f \<longrightarrow> k < 8 * ((n + 7) div 8)) \<longleftrightarrow> \<not> ufits ?z bs" by (fastforce simp: ufits_def z)
  then have r: "refuses n bs s \<longleftrightarrow> \<not> ufits ?z bs \<and> unat USER_HEAP_MAX < unat (user_brk (os s)) + 16 + unat ?z"
    using False by (simp only: refuses_def z simp_thms)
  show ?thesis
    using r malloc_reuse_granted [OF h sz _ le] malloc_grow_granted [OF h sz _ _ le] malloc_grows(1) [OF h sz] u n
    by (cases "ufits ?z bs") (auto simp: not_less)
qed

lemma free_outcome:
  assumes h: "heap_is s bs" and r: "(q, k) \<in> uregions s"
  shows "heap_is (free (of_nat q) s) (mark (q - 12) True bs)" "uregions (free (of_nat q) s) = uregions s - {(q, k)}"
    "\<And>x. q \<le> unat x \<Longrightarrow> mem_of (free (of_nat q) s) x = mem_of s x"
    "\<And>x. payload bs (unat (user_brk (os s))) x \<Longrightarrow> mem_of (free (of_nat q) s) x = mem_of s x"
proof -
  let ?e = "unat (user_brk (os s))"
  obtain a where a: "unat USER_HEAP_BASE \<le> a" "tiles a bs ?e" "?e \<le> unat USER_HEAP_MAX" "ublocks (mem_of s) (heap_head s) = Some bs"
    using h by (auto simp: heap_is_def)
  obtain p where p: "q = p + 12" "(p, k, False) \<in> set bs" using r uregions_is [OF h] by (auto simp: used_regions_def)
  have b: "p + 12 + k \<le> ?e" "?e \<le> 2 ^ 32" using tiles_bounds [OF a(2) p(2)] a(3) by (simp_all add: USER_HEAP_MAX_def)
  let ?c = "of_nat p :: u32"
  have c: "unat ?c = p" using b a(3) by (simp add: unat_of_nat32 USER_HEAP_MAX_def)
  have "q < 2 ^ 32" using b a(3) p(1) by (simp add: USER_HEAP_MAX_def)
  then have q: "unat (of_nat q :: u32) = q" by (rule unat_of_nat32)
  then have "(of_nat q :: u32) \<noteq> 0" using p(1) by (metis add_is_0 unat_0 zero_neq_numeral)
  moreover have "of_nat q - MHDR + 4 = ?c + 4" using p(1) by (simp add: MHDR_def)
  ultimately have f: "free (of_nat q) s = upoke (st32 (?c + 4) 1) s" unfolding free_def by simp
  show marked: "heap_is (free (of_nat q) s) (mark (q - 12) True bs)"
    using ublocks_mark [OF a(2) b(2) a(4), of ?c k False 1] p c a unfolding f heap_is_def by (auto simp: tiles_mark)
  show "uregions (free (of_nat q) s) = uregions s - {(q, k)}"
    using used_mark [OF a(2) p(2), of True] uregions_is [OF marked] uregions_is [OF h] p(1) by simp
  have out: "mem_of (free (of_nat q) s) x = mem_of s x" if "\<not> (p + 4 \<le> unat x \<and> unat x < p + 8)" for x
    using st32_at [of ?c 4 x 1 "mem_of s"] that c b unfolding f by auto
  show "mem_of (free (of_nat q) s) x = mem_of s x" if "q \<le> unat x" for x using out [of x] that p(1) by simp
  show "mem_of (free (of_nat q) s) x = mem_of s x" if "payload bs ?e x" for x
    using out [of x] that p(2) by (auto simp: payload_def)
qed

lemma malloc_total:
  assumes h: "heap_is s bs" and n: "n \<le> 2 ^ 31 - 8"
  obtains p s' where "malloc (of_nat n) s = Some (p, s')" "uheap_ok s'" "p = 0 \<longrightarrow> uregions s' = uregions s" "p \<noteq> 0 \<longrightarrow> granted s n p s'"
proof (cases "refuses n bs s")
  case True
  then obtain s' where s': "malloc (of_nat n) s = Some (0, s')" "os s' = os s" "heap_head s' = heap_head s"
    using malloc_outcome [OF h n] by auto
  then have "heap_is s' bs" using h by (simp add: heap_is_def)
  with s' h show thesis by (intro that [of 0 s']) (auto simp: uheap_ok_def uregions_is)
next
  case False
  then obtain p s' where "malloc (of_nat n) s = Some (p, s')" "granted s n p s'" using malloc_outcome [OF h n] by auto
  then show thesis using that [of p s'] by (simp add: granted_def)
qed

interpretation uh: region_allocator uheap_ok uregions
  "\<lambda>n s. map_option (map_prod unat id) (malloc (of_nat n) s)" "\<lambda>p s. Some (free (of_nat p) s)" "2 ^ 31 - 8"
proof
  fix s :: ulib and n :: nat
  assume s: "uheap_ok s" and n: "n \<le> 2 ^ 31 - 8"
  then obtain bs where h: "heap_is s bs" by (auto simp: uheap_ok_def)
  show "\<exists>p s'. map_option (map_prod unat id) (malloc (of_nat n) s) = Some (p, s') \<and> uheap_ok s'"
    by (rule malloc_total [OF h n]) simp
  show "uregions s' = uregions s" if "map_option (map_prod unat id) (malloc (of_nat n) s) = Some (0, s')" for s'
    using that by (cases rule: malloc_total [OF h n]) (auto simp: unat_eq_zero)
next
  fix s s' :: ulib and n p :: nat
  assume s: "uheap_ok s" and n: "n \<le> 2 ^ 31 - 8" and m: "map_option (map_prod unat id) (malloc (of_nat n) s) = Some (p, s')" and "p \<noteq> 0"
  then obtain bs where h: "heap_is s bs" by (auto simp: uheap_ok_def)
  then show "\<exists>m \<ge> n. uregions s' = insert (p, m) (uregions s) \<and> (\<forall>x \<in> uregions s. disjoint_regions (p, m) x)"
    using m \<open>p \<noteq> 0\<close> by (cases rule: malloc_total [OF h n]) (auto simp: granted_def)
next
  fix s :: ulib and x y
  assume "uheap_ok s" "x \<in> uregions s" "y \<in> uregions s" "x \<noteq> y"
  then obtain bs a e where "tiles a bs e" "x \<in> used_regions bs" "y \<in> used_regions bs" by (auto simp: uheap_ok_def heap_is_def uregions_def)
  then show "disjoint_regions x y" using \<open>x \<noteq> y\<close> tiles_disjoint by (fastforce simp: used_regions_def disjoint_regions_def)
next
  fix s :: ulib and p m
  assume "uheap_ok s" "(p, m) \<in> uregions s"
  then show "\<exists>s'. Some (free (of_nat p) s) = Some s' \<and> uheap_ok s' \<and> uregions s' = uregions s - {(p, m)}"
    using free_outcome(1,2) unfolding uheap_ok_def by blast
qed

section \<open>Growing and clearing\<close>

lemma ublocks_size: "ublocks m a = Some bs \<Longrightarrow> (p, n, f) \<in> set bs \<Longrightarrow> h_size m (of_nat p) = of_nat n \<and> n < 2 ^ 32"
proof (induction bs arbitrary: a)
  case (Cons x bs)
  obtain q k g where "x = (q, k, g)" by (cases x)
  then show ?case using Cons unsigned_less [of "h_size m a", where 'a = nat] by (auto simp: ublocks_Cons)
qed simp

text \<open>Writing inside a region in use keeps the heap.\<close>

lemma upoke_region:
  assumes h: "heap_is s bs" and r: "(q, k) \<in> uregions s" and f: "\<And>x. \<not> (q \<le> unat x \<and> unat x < q + k) \<Longrightarrow> f (mem_of s) x = mem_of s x"
  shows "heap_is (upoke f s) bs" "uregions (upoke f s) = uregions s"
proof -
  let ?e = "unat (user_brk (os s))"
  obtain a where a: "unat USER_HEAP_BASE \<le> a" "tiles a bs ?e" "?e \<le> unat USER_HEAP_MAX" "ublocks (mem_of s) (heap_head s) = Some bs"
    using h by (auto simp: heap_is_def)
  have e: "?e \<le> 2 ^ 32" using a(3) by (simp add: USER_HEAP_MAX_def)
  have "f (mem_of s) x = mem_of s x" if "(p, n, g) \<in> set bs" "p \<le> unat x" "unat x < p + 12" for p n g x
  proof (rule f, rule notI)
    assume "q \<le> unat x \<and> unat x < q + k"
    then have "payload bs ?e x" using payload_region [OF a(2)] r uregions_is [OF h] by blast
    then show False using that by (auto simp: payload_def)
  qed
  then have "ublocks (f (mem_of s)) (heap_head s) = Some bs" using ublocks_same [OF a(2) e a(4)] by blast
  then show is': "heap_is (upoke f s) bs" using a by (auto simp: heap_is_def)
  show "uregions (upoke f s) = uregions s" using uregions_is [OF is'] uregions_is [OF h] by simp
qed

lemma region_bounds:
  assumes "heap_is s bs" "(q, k) \<in> uregions s"
  shows "q + k \<le> unat USER_HEAP_MAX" "12 < q" "(of_nat q :: u32) \<noteq> 0" "unat (of_nat q :: u32) = q"
    "h_size (mem_of s) (of_nat q - MHDR) = of_nat k" "unat (of_nat k :: u32) = k"
proof -
  obtain a where a: "unat USER_HEAP_BASE \<le> a" "tiles a bs (unat (user_brk (os s)))" "unat (user_brk (os s)) \<le> unat USER_HEAP_MAX"
    "ublocks (mem_of s) (heap_head s) = Some bs" using assms(1) by (auto simp: heap_is_def)
  obtain p where p: "q = p + 12" "(p, k, False) \<in> set bs" using assms(2) uregions_is [OF assms(1)] by (auto simp: used_regions_def)
  have b: "a \<le> p" "q + k \<le> unat USER_HEAP_MAX" using tiles_bounds [OF a(2) p(2)] a(3) p(1) by simp_all
  then show "q + k \<le> unat USER_HEAP_MAX" "12 < q" using a(1) p(1) by (simp_all add: USER_HEAP_BASE_def)
  have "q < 2 ^ 32" "k < 2 ^ 32" using b(2) by (simp_all add: USER_HEAP_MAX_def)
  then show q: "unat (of_nat q :: u32) = q" "unat (of_nat k :: u32) = k" by (simp_all only: unat_of_nat32)
  then show "(of_nat q :: u32) \<noteq> 0" using p(1) by (metis add_is_0 unat_0 zero_neq_numeral)
  show "h_size (mem_of s) (of_nat q - MHDR) = of_nat k" using ublocks_size [OF a(4) p(2)] p(1) by (simp add: MHDR_def)
qed

lemma region_payload:
  assumes "heap_is s bs" "(q, k) \<in> uregions s" "i < k"
  shows "payload bs (unat (user_brk (os s))) (of_nat q + of_nat i)"
proof -
  obtain a where a: "tiles a bs (unat (user_brk (os s)))" using assms(1) by (auto simp: heap_is_def)
  have "q + i < 2 ^ 32" using region_bounds(1) [OF assms(1,2)] assms(3) by (simp add: USER_HEAP_MAX_def)
  then have "unat (of_nat (q + i) :: u32) = q + i" by (rule unat_of_nat32)
  then show ?thesis using payload_region [OF a, of q k "of_nat (q + i)"] assms uregions_is [OF assms(1)] by simp
qed

text \<open>C27. On a well-formed heap \<open>malloc\<close> of at most 2 GB returns. It refuses, leaving kernel and heap as they are,
  exactly when the size is 0 or neither a free block fits nor the kernel's limit on the break leaves room; otherwise the
  heap stays well formed, the result is a region of at least the size, below the break and apart from every region in
  use, and the bytes of all regions in use stay as they are.\<close>

theorem malloc_correct:
  assumes "heap_is s bs" "n \<le> 2 ^ 31 - 8"
  shows "if n = 0 \<or> (\<forall>(q, k, f) \<in> set bs. f \<longrightarrow> k < 8 * ((n + 7) div 8))
         \<and> unat USER_HEAP_MAX < unat (user_brk (os s)) + 16 + 8 * ((n + 7) div 8)
    then \<exists>s'. malloc (of_nat n) s = Some (0, s') \<and> os s' = os s \<and> heap_head s' = heap_head s
    else \<exists>p s' k. malloc (of_nat n) s = Some (p, s') \<and> p \<noteq> 0 \<and> uheap_ok s' \<and> n \<le> k
      \<and> uregions s' = insert (unat p, k) (uregions s) \<and> (\<forall>x \<in> uregions s. disjoint_regions (unat p, k) x)
      \<and> unat p + k \<le> unat (user_brk (os s'))
      \<and> (\<forall>(q, j) \<in> uregions s. \<forall>i < j. mem_of s' (of_nat (q + i)) = mem_of s (of_nat (q + i)))"
proof (cases "refuses n bs s")
  case True
  then show ?thesis using malloc_outcome [OF assms] by (simp add: refuses_def [symmetric])
next
  case False
  then obtain p s' k where "malloc (of_nat n) s = Some (p, s')" "p \<noteq> 0" "uheap_ok s'" "keeps_regions s s'" "n \<le> k"
    "uregions s' = insert (unat p, k) (uregions s)" "\<forall>x \<in> uregions s. disjoint_regions (unat p, k) x" "unat p + k \<le> unat (user_brk (os s'))"
    using malloc_outcome [OF assms] by (auto simp: granted_def)
  then show ?thesis using False by (simp add: refuses_def [symmetric] keeps_regions_def) blast
qed

lemma realloc_moves:
  assumes h: "heap_is s bs" and r: "(q, n) \<in> uregions s" and sz: "n < sz" "sz \<le> 2 ^ 31 - 8"
  obtains (refused) s' where "realloc (of_nat q) (of_nat sz) s = Some (0, s')" "uheap_ok s'" "uregions s' = uregions s"
  | (moved) p k s' where "realloc (of_nat q) (of_nat sz) s = Some (p, s')" "p \<noteq> 0" "uheap_ok s'" "sz \<le> k"
      "uregions s' = insert (unat p, k) (uregions s - {(q, n)})"
      "\<And>i. i < n \<Longrightarrow> mem_of s' (p + of_nat i) = mem_of s (of_nat (q + i))"
proof -
  let ?q = "of_nat q :: u32" and ?z = "of_nat sz :: u32"
  note rb = region_bounds [OF h r]
  have z: "unat ?z = sz" "?z \<noteq> 0" using sz unat_of_nat32 [of sz] by (auto simp: unat_eq_zero [symmetric] simp del: unat_eq_zero)
  have less: "\<not> ?z \<le> h_size (mem_of s) (?q - MHDR)" using rb(5,6) z(1) sz(1) by (simp add: word_le_nat_alt)
  from malloc_total [OF h sz(2)] obtain p s1 where s1: "malloc ?z s = Some (p, s1)" "uheap_ok s1" "p = 0 \<longrightarrow> uregions s1 = uregions s"
    "p \<noteq> 0 \<longrightarrow> granted s sz p s1" by blast
  show thesis
  proof (cases "p = 0")
    case True
    then show thesis using s1 z(2) rb(3) less by (intro refused [of s1]) (auto simp: realloc_def Let_def)
  next
    case False
    then obtain k where k: "sz \<le> k" "uregions s1 = insert (unat p, k) (uregions s)" "disjoint_regions (unat p, k) (q, n)"
      and keep: "keeps_regions s s1" using s1(4) r by (auto simp: granted_def)
    obtain bs1 where h1: "heap_is s1 bs1" using s1(2) by (auto simp: uheap_ok_def)
    have r1: "(unat p, k) \<in> uregions s1" "(q, n) \<in> uregions s1" using k(2) r by auto
    note b1 = region_bounds [OF h1 r1(1)] and b2 = region_bounds [OF h1 r1(2)]
    have small: "unat p + k < 2 ^ 32" "q + n < 2 ^ 32" using b1(1) b2(1) by (simp_all add: USER_HEAP_MAX_def)
    let ?f = "mem_copy p ?q (of_nat n)" let ?s2 = "upoke ?f s1"
    have "apart p n ?q n" using k(1,3) sz(1) small rb(4) by (auto simp: apart_def within_iff disjoint_regions_def)
    then have copy: "?f (mem_of s1) x = (if within p n x then mem_of s1 (?q + (x - p)) else mem_of s1 x)" for x
      using mem_copy_eq [of p "of_nat n" ?q "mem_of s1" x] b2(6) by simp
    have "?f (mem_of s1) x = mem_of s1 x" if "\<not> (unat p \<le> unat x \<and> unat x < unat p + k)" for x
      using copy [of x] that k(1) sz(1) small by (auto simp: within_iff)
    from upoke_region [OF h1 r1(1), of ?f, OF this] have h2: "heap_is ?s2 bs1" "uregions ?s2 = uregions s1" by blast+
    have "realloc ?q ?z s = Some (p, free ?q ?s2)"
      using s1(1) False z(2) rb(3) less b2(5) by (simp add: realloc_def Let_def)
    moreover have "uregions (free ?q ?s2) = insert (unat p, k) (uregions s - {(q, n)})"
      using free_outcome(2) [OF h2(1), of q n] h2(2) r1(2) k(1,2) sz(1) by (simp add: insert_Diff_if)
    moreover have "uheap_ok (free ?q ?s2)" using free_outcome(1) [OF h2(1)] h2(2) r1(2) unfolding uheap_ok_def by blast
    moreover have "mem_of (free ?q ?s2) (p + of_nat i) = mem_of s (of_nat (q + i))" if "i < n" for i
    proof -
      have "payload bs1 (unat (user_brk (os s1))) (p + of_nat i)"
        using region_payload [OF h1 r1(1), of i] that sz(1) k(1) by simp
      then have "mem_of (free ?q ?s2) (p + of_nat i) = mem_of ?s2 (p + of_nat i)"
        using free_outcome(4) [OF h2(1), of q n] h2(2) r1(2) by simp
      also have "\<dots> = mem_of s1 (of_nat (q + i))" using copy [of "p + of_nat i"] that small by (simp add: within_offset)
      also have "\<dots> = mem_of s (of_nat (q + i))" using keep r that by (auto simp: keeps_regions_def)
      finally show ?thesis .
    qed
    ultimately show thesis using moved [of p "free ?q ?s2" k] False k(1) by blast
  qed
qed

text \<open>\<open>realloc\<close> of a region to a larger size refuses and changes no region, or moves it: the old region is released,
  a region of at least the new size is in use instead, and it starts with the bytes of the old one.\<close>

theorem realloc_correct:
  assumes "uheap_ok s" "(q, n) \<in> uregions s" "n < sz" "sz \<le> 2 ^ 31 - 8"
  shows "\<exists>p s'. realloc (of_nat q) (of_nat sz) s = Some (p, s') \<and> uheap_ok s'
    \<and> (if p = 0 then uregions s' = uregions s
       else (\<exists>k \<ge> sz. uregions s' = insert (unat p, k) (uregions s - {(q, n)}))
         \<and> (\<forall>i < n. mem_of s' (p + of_nat i) = mem_of s (of_nat (q + i))))"
proof -
  obtain bs where "heap_is s bs" using assms(1) by (auto simp: uheap_ok_def)
  from this assms(2-4) show ?thesis by (cases rule: realloc_moves) auto
qed

text \<open>\<open>calloc\<close> returns zeroed memory: when the product of its arguments does not wrap and is granted, every byte of
  the region's first \<open>n * sz\<close> is 0, and the region is apart from those in use.\<close>

lemma calloc_zeroed:
  assumes h: "heap_is s bs" and n: "n * sz \<le> 2 ^ 31 - 8"
  obtains p s' where "calloc (of_nat n) (of_nat sz) s = Some (p, s')" "uheap_ok s'"
    "p \<noteq> 0 \<longrightarrow> (\<exists>k \<ge> n * sz. uregions s' = insert (unat p, k) (uregions s)) \<and> (\<forall>i < n * sz. mem_of s' (p + of_nat i) = 0)"
    "p = 0 \<longrightarrow> uregions s' = uregions s"
proof -
  let ?t = "of_nat (n * sz) :: u32"
  from malloc_total [OF h n] obtain p s1 where s1: "malloc ?t s = Some (p, s1)" "uheap_ok s1" "p = 0 \<longrightarrow> uregions s1 = uregions s"
    "p \<noteq> 0 \<longrightarrow> granted s (n * sz) p s1" by blast
  show thesis
  proof (cases "p = 0")
    case True
    then show thesis using s1 by (intro that [of 0 s1]) (auto simp: calloc_def Let_def)
  next
    case False
    then obtain k where k: "n * sz \<le> k" "uregions s1 = insert (unat p, k) (uregions s)" using s1(4) by (auto simp: granted_def)
    obtain bs1 where h1: "heap_is s1 bs1" using s1(2) by (auto simp: uheap_ok_def)
    have r1: "(unat p, k) \<in> uregions s1" using k(2) by simp
    have small: "unat p + k < 2 ^ 32" using region_bounds(1) [OF h1 r1] by (simp add: USER_HEAP_MAX_def)
    have t: "unat ?t = n * sz" using n by (intro unat_of_nat32) simp
    let ?f = "mem_clear p ?t"
    have clear: "?f m x = (if within p (n * sz) x then 0 else m x)" for m x using mem_clear_eq [of p ?t m x] t by simp
    have "?f (mem_of s1) x = mem_of s1 x" if "\<not> (unat p \<le> unat x \<and> unat x < unat p + k)" for x
      using clear [of "mem_of s1" x] that k(1) small by (auto simp: within_iff)
    from upoke_region [OF h1 r1, of ?f, OF this] have h2: "heap_is (upoke ?f s1) bs1" "uregions (upoke ?f s1) = uregions s1" by blast+
    have c: "calloc (of_nat n) (of_nat sz) s = Some (p, upoke ?f s1)" using s1(1) False by (simp add: calloc_def Let_def)
    have z: "mem_of (upoke ?f s1) (p + of_nat i) = 0" if "i < n * sz" for i
      using clear [of "mem_of s1" "p + of_nat i"] that small k(1) by (simp add: within_offset)
    show thesis by (rule that [OF c]) (use h2 k z False in \<open>auto simp: uheap_ok_def\<close>)
  qed
qed

definition fresh_ulib :: ulib where
  "fresh_ulib = \<lparr>os = boot_sys, heap_head = 0, heap_end = 0\<rparr>"

lemma boot_sys_brk: "user_brk boot_sys = USER_HEAP_BASE"
  by (simp add: boot_sys_def user_heap_reset_def)

lemma fresh_heap: "heap_is fresh_ulib []"
  by (simp add: heap_is_def fresh_ulib_def ublocks_Nil boot_sys_brk USER_HEAP_BASE_def USER_HEAP_MAX_def)

theorem malloc_correct_witness:
  "\<exists>p s' k. malloc (of_nat 100) fresh_ulib = Some (p, s') \<and> p \<noteq> 0 \<and> uheap_ok s' \<and> 100 \<le> k \<and> uregions s' = {(unat p, k)}"
proof -
  have "uregions fresh_ulib = {}" using uregions_is [OF fresh_heap] by simp
  then show ?thesis
    using malloc_correct [OF fresh_heap, of 100] by (auto simp: fresh_ulib_def boot_sys_brk USER_HEAP_BASE_def USER_HEAP_MAX_def)
qed

theorem realloc_correct_witness:
  "\<exists>s p s'. malloc 100 fresh_ulib = Some (0x50000C, s) \<and> realloc 0x50000C 5000 s = Some (p, s') \<and> uheap_ok s'"
proof -
  have brk: "user_brk (os fresh_ulib) = 0x500000" by (simp add: fresh_ulib_def boot_sys_brk USER_HEAP_BASE_def)
  have z: "unat (ualign_up 100) = 104" using unat_ualign [of 100] by simp
  have "\<not> ufits (ualign_up 100) []" by (simp add: ufits_def)
  from malloc_grows(2) [OF fresh_heap, of 100, OF _ _ this] obtain s where
    s: "malloc 100 fresh_ulib = Some (0x50000C, s)" "heap_is s [(0x500000, 108, False)]"
    by (auto simp: brk z USER_HEAP_MAX_def)
  then have "uheap_ok s" "(0x50000C, 108) \<in> uregions s" by (auto simp: uheap_ok_def uregions_is)
  from realloc_correct [OF this, of 5000] s(1) show ?thesis by auto
qed

end
