(* ===== verification/Ulibc.thy ===== *)
theory Ulibc
  imports Umalloc
begin

text \<open>
  The C library of user programs: \<open>src/user/lib/string.c\<close> on user memory and \<open>src/user/lib/stdio.c\<close> on the write
  system call. A walk along a string that has no end is \<open>None\<close>. The one-character buffer of \<open>putchar\<close> lies at
  \<open>slot\<close>, an address of the stack; the variadic arguments are the words after the format.
\<close>

section \<open>Definitions\<close>

subsection \<open>\<open>string.c\<close>\<close>

partial_function (option) strlen_from :: "umem \<Rightarrow> u32 \<Rightarrow> u32 \<Rightarrow> u32 option" where
  "strlen_from m s n = (if m (s + n) \<noteq> 0 then strlen_from m s (n + 1) else Some n)"

definition strlen :: "umem \<Rightarrow> u32 \<Rightarrow> u32 option" where
  "strlen m s = strlen_from m s 0"

definition memcpy :: "u32 \<Rightarrow> u32 \<Rightarrow> u32 \<Rightarrow> umem \<Rightarrow> u32 \<times> umem" where
  "memcpy dest src n m = (dest, fold (\<lambda>i m. m(dest + of_nat i := m (src + of_nat i))) [0..<unat n] m)"

definition memset :: "u32 \<Rightarrow> u32 \<Rightarrow> u32 \<Rightarrow> umem \<Rightarrow> u32 \<times> umem" where
  "memset s c n m = (s, fold (\<lambda>i m. m(s + of_nat i := ucast c)) [0..<unat n] m)"

partial_function (option) strcmp :: "umem \<Rightarrow> u32 \<Rightarrow> u32 \<Rightarrow> int option" where
  "strcmp m a b =
     (if m a \<noteq> 0 \<and> m a = m b then strcmp m (a + 1) (b + 1) else Some (uint (m a) - uint (m b)))"

partial_function (option) strcpy_from :: "u32 \<Rightarrow> u32 \<Rightarrow> umem \<Rightarrow> umem option" where
  "strcpy_from d src m =
     (let c = m src; m = m(d := c) in if c \<noteq> 0 then strcpy_from (d + 1) (src + 1) m else Some m)"

definition strcpy :: "u32 \<Rightarrow> u32 \<Rightarrow> umem \<Rightarrow> (u32 \<times> umem) option" where
  "strcpy dest src m = do { m \<leftarrow> strcpy_from dest src m; Some (dest, m) }"

subsection \<open>\<open>stdio.c\<close>\<close>

definition lib_write :: "u32 \<Rightarrow> u32 \<Rightarrow> u32 \<Rightarrow> ulib \<Rightarrow> (u32 \<times> ulib) option" where
  "lib_write fd buf count s = syscall3 4 fd buf count s"

definition putchar :: "u32 \<Rightarrow> u32 \<Rightarrow> ulib \<Rightarrow> (u32 \<times> ulib) option" where
  "putchar slot c s = do {
     (_, s) \<leftarrow> lib_write 1 slot 1 (upoke (\<lambda>m. m(slot := ucast c)) s);
     Some (c, s)
   }"

definition puts :: "u32 \<Rightarrow> u32 \<Rightarrow> ulib \<Rightarrow> (u32 \<times> ulib) option" where
  "puts slot str s = do {
     n \<leftarrow> strlen (mem_of s) str;
     (_, s) \<leftarrow> lib_write 1 str n s;
     (_, s) \<leftarrow> putchar slot 10 s;
     Some (0, s)
   }"

definition char_word :: "char \<Rightarrow> u32" where
  "char_word c = ucast (byte_of c)"

fun putchars :: "u32 \<Rightarrow> string \<Rightarrow> ulib \<Rightarrow> ulib option" where
  "putchars slot [] s = Some s"
| "putchars slot (c # cs) s = do { (_, s) \<leftarrow> putchar slot (char_word c) s; putchars slot cs s }"

text \<open>The digits in \<open>buf\<close>, the last one first; \<open>n\<close> is the room left.\<close>

fun digit_loop :: "nat \<Rightarrow> u32 \<Rightarrow> u32 \<Rightarrow> string \<Rightarrow> string" where
  "digit_loop 0 base v buf = buf"
| "digit_loop (Suc n) base v buf =
     (if v > 0 then digit_loop n base (v div base) (''0123456789abcdef'' ! unat (v mod base) # buf) else buf)"

definition print_uint :: "u32 \<Rightarrow> u32 \<Rightarrow> u32 \<Rightarrow> ulib \<Rightarrow> ulib option" where
  "print_uint slot v base s = (if v = 0 then putchars slot ''0'' s else putchars slot (digit_loop 32 base v []) s)"

definition print_int :: "u32 \<Rightarrow> u32 \<Rightarrow> ulib \<Rightarrow> ulib option" where
  "print_int slot v s =
     (if sint v < 0 then do { s \<leftarrow> putchars slot ''-'' s; print_uint slot (- (v + 1) + 1) 10 s }
      else print_uint slot v 10 s)"

text \<open>The text of a null string argument is a constant of the program, at \<open>nullp\<close>.\<close>

record stdio_env =
  slot :: u32
  nullp :: u32

fun vprintf :: "stdio_env \<Rightarrow> string \<Rightarrow> (nat \<Rightarrow> u32) \<Rightarrow> nat \<Rightarrow> int \<Rightarrow> ulib \<Rightarrow> (int \<times> ulib) option" where
  "vprintf E [] va k written s = Some (written, s)"
| "vprintf E (c # fmt) va k written s =
     (if c \<noteq> CHR ''%'' then do { s \<leftarrow> putchars (slot E) [c] s; vprintf E fmt va k (written + 1) s }
      else case fmt of
        [] \<Rightarrow> Some (written, s)
      | d # fmt \<Rightarrow>
          if d = CHR ''s'' then
            let p = (if va k = 0 then nullp E else va k) in do {
              n \<leftarrow> strlen (mem_of s) p;
              (_, s) \<leftarrow> lib_write 1 p n s;
              n \<leftarrow> strlen (mem_of s) p;
              vprintf E fmt va (Suc k) (written + sint n) s
            }
          else if d = CHR ''c'' then do {
            (_, s) \<leftarrow> putchar (slot E) (va k) s;
            vprintf E fmt va (Suc k) (written + 1) s
          }
          else if d = CHR ''d'' \<or> d = CHR ''i'' then do { s \<leftarrow> print_int (slot E) (va k) s; vprintf E fmt va (Suc k) (written + 1) s }
          else if d = CHR ''u'' then do { s \<leftarrow> print_uint (slot E) (va k) 10 s; vprintf E fmt va (Suc k) (written + 1) s }
          else if d = CHR ''x'' then do { s \<leftarrow> print_uint (slot E) (va k) 16 s; vprintf E fmt va (Suc k) (written + 1) s }
          else if d = CHR ''p'' then do {
            s \<leftarrow> putchars (slot E) ''0x'' s;
            s \<leftarrow> print_uint (slot E) (va k) 16 s;
            vprintf E fmt va (Suc k) (written + 1) s
          }
          else if d = CHR ''%'' then do { s \<leftarrow> putchars (slot E) ''%'' s; vprintf E fmt va k (written + 1) s }
          else do { s \<leftarrow> putchars (slot E) [CHR ''%'', d] s; vprintf E fmt va k (written + 2) s })"

definition printf :: "stdio_env \<Rightarrow> string \<Rightarrow> (nat \<Rightarrow> u32) \<Rightarrow> ulib \<Rightarrow> (int \<times> ulib) option" where
  "printf E fmt va s = vprintf E fmt va 0 0 s"

section \<open>Strings\<close>

lemma cstr_Nil: "cstr m a = Some [] \<longleftrightarrow> m a = 0"
  by (subst cstr.simps) (auto simp: bind_eq_Some_conv)

lemma cstr_Cons: "cstr m a = Some (c # cs) \<longleftrightarrow> m a \<noteq> 0 \<and> c = char_of_byte (m a) \<and> cstr m (a + 1) = Some cs"
  by (subst cstr.simps) (auto simp: bind_eq_Some_conv)

lemma strlen_from_cstr: "cstr m (a + n) = Some str \<Longrightarrow> strlen_from m a n = Some (n + of_nat (length str))"
proof (induction str arbitrary: n)
  case Nil
  then show ?case by (subst strlen_from.simps) (simp add: cstr_Nil)
next
  case (Cons c cs)
  then have "m (a + n) \<noteq> 0" "cstr m (a + (n + 1)) = Some cs" by (simp_all add: cstr_Cons add.assoc)
  with Cons.IH [of "n + 1"] show ?case by (subst strlen_from.simps) (simp add: add.assoc)
qed

lemma strlen_cstr: "cstr m a = Some str \<Longrightarrow> strlen m a = Some (of_nat (length str))"
  using strlen_from_cstr [of m a 0 str] by (simp add: strlen_def)

lemma cstr_byte: "cstr m a = Some str \<Longrightarrow> i < length str \<Longrightarrow> m (a + of_nat i) = byte_of (str ! i) \<and> m (a + of_nat i) \<noteq> 0"
proof (induction str arbitrary: a i)
  case (Cons c cs)
  show ?case
  proof (cases i)
    case 0
    then show ?thesis using Cons.prems by (simp add: cstr_Cons)
  next
    case (Suc j)
    then show ?thesis using Cons.IH [of "a + 1" j] Cons.prems by (auto simp: cstr_Cons add.assoc)
  qed
qed simp

lemma cstr_end: "cstr m a = Some str \<Longrightarrow> m (a + of_nat (length str)) = 0"
proof (induction str arbitrary: a)
  case (Cons c cs)
  then show ?case using Cons.IH [of "a + 1"] by (simp add: cstr_Cons add.assoc)
qed (simp add: cstr_Nil)

lemma cstr_same:
  "cstr m a = Some str \<Longrightarrow> (\<And>i. i \<le> length str \<Longrightarrow> m' (b + of_nat i) = m (a + of_nat i)) \<Longrightarrow> cstr m' b = Some str"
proof (induction str arbitrary: a b)
  case Nil
  then show ?case using Nil.prems(2) [of 0] by (simp add: cstr_Nil)
next
  case (Cons c cs)
  have "cstr m' (b + 1) = Some cs"
  proof (rule Cons.IH)
    show "cstr m (a + 1) = Some cs" using Cons.prems(1) by (simp add: cstr_Cons)
    show "m' (b + 1 + of_nat i) = m (a + 1 + of_nat i)" if "i \<le> length cs" for i
      using Cons.prems(2) [of "Suc i"] that by (simp add: add.assoc)
  qed
  then show ?case using Cons.prems(1) Cons.prems(2) [of 0] by (simp add: cstr_Cons)
qed

text \<open>A copy runs upwards; the destination does not meet the source.\<close>

lemma strcpy_copies:
  assumes "cstr m src = Some str" "\<And>i j. i \<le> length str \<Longrightarrow> j \<le> length str \<Longrightarrow> d + of_nat i \<noteq> src + of_nat j"
    "length str < 2 ^ 32"
  shows "\<exists>m'. strcpy_from d src m = Some m' \<and> (\<forall>i \<le> length str. m' (d + of_nat i) = m (src + of_nat i))
    \<and> (\<forall>x. \<not> within d (Suc (length str)) x \<longrightarrow> m' x = m x)"
  using assms
proof (induction str arbitrary: d src m)
  case Nil
  then have "m src = 0" by (simp add: cstr_Nil)
  then show ?case by (subst strcpy_from.simps) (auto simp: within_def)
next
  case (Cons c cs)
  let ?m = "m(d := m src)"
  have c: "m src \<noteq> 0" "cstr m (src + 1) = Some cs" using Cons.prems(1) by (simp_all add: cstr_Cons)
  have ne: "d \<noteq> src + of_nat j" if "j \<le> Suc (length cs)" for j using Cons.prems(2) [of 0 j] that by simp
  have c': "cstr ?m (src + 1) = Some cs"
  proof (rule cstr_same [OF c(2)])
    show "?m (src + 1 + of_nat i) = m (src + 1 + of_nat i)" if "i \<le> length cs" for i
      using ne [of "Suc i"] that by (simp add: add.assoc)
  qed
  have "d + 1 + of_nat i \<noteq> src + 1 + of_nat j" if "i \<le> length cs" "j \<le> length cs" for i j
    using Cons.prems(2) [of i j] that by simp
  moreover have len: "length cs < 2 ^ 32" "Suc (Suc (length cs)) \<le> 2 ^ 32" using Cons.prems(3) by simp_all
  ultimately obtain m' where m': "strcpy_from (d + 1) (src + 1) ?m = Some m'"
    "\<forall>i \<le> length cs. m' (d + 1 + of_nat i) = ?m (src + 1 + of_nat i)" "\<forall>x. \<not> within (d + 1) (Suc (length cs)) x \<longrightarrow> m' x = ?m x"
    using Cons.IH [OF c'] by blast
  have "strcpy_from d src m = Some m'" using c(1) m'(1) by (subst strcpy_from.simps) (simp add: Let_def)
  moreover have "m' (d + of_nat i) = m (src + of_nat i)" if "i \<le> Suc (length cs)" for i
  proof (cases i)
    case 0
    have "\<not> within (d + 1) (Suc (length cs)) d"
      using Cons.prems(3) by (simp add: within_def unsigned_minus_1_eq_mask mask_eq_exp_minus_1)
    then show ?thesis using m'(3) 0 by simp
  next
    case (Suc j)
    then show ?thesis using m'(2) that ne [of "Suc j"] by (auto simp: add.assoc)
  qed
  moreover have "m' x = m x" if "\<not> within d (Suc (Suc (length cs))) x" for x
  proof -
    have "x \<noteq> d" using that by (auto simp: within_def)
    moreover have "\<not> within (d + 1) (Suc (length cs)) x" using within_part [of d 1 "Suc (length cs)" x "Suc (Suc (length cs))"] that len(2) by auto
    ultimately show ?thesis using m'(3) by simp
  qed
  ultimately show ?case by auto
qed

lemma strcmp_equal:
  "cstr m a = Some x \<Longrightarrow> cstr m b = Some y \<Longrightarrow> \<exists>r. strcmp m a b = Some r \<and> (r = 0 \<longleftrightarrow> x = y)"
proof (induction x arbitrary: y a b)
  case Nil
  then show ?case by (cases y; subst strcmp.simps) (auto simp: cstr_Nil cstr_Cons unsigned_eq_0_iff)
next
  case (Cons c cs)
  show ?case
  proof (cases "m a = m b")
    case True
    then obtain ds where "y = c # ds" "cstr m (b + 1) = Some ds" using Cons.prems by (cases y) (auto simp: cstr_Nil cstr_Cons)
    then show ?thesis using Cons.IH [of "a + 1" "b + 1" ds] Cons.prems True by (subst strcmp.simps) (simp add: cstr_Cons)
  next
    case False
    then have "uint (m a) \<noteq> uint (m b)" by (simp add: word_uint_eq_iff)
    moreover have "c # cs \<noteq> y" using False Cons.prems by (cases y) (auto simp: cstr_Cons, metis byte_of_char_of)
    ultimately show ?thesis using False by (subst strcmp.simps) simp
  qed
qed

text \<open>\<open>strcpy\<close> of a string to a place apart from it returns the destination, where the string then is; all bytes
  outside the copy stay. \<open>strlen\<close> gives the length of the copy, and \<open>strcmp\<close> tells it from any other string
  of the memory: it returns 0 exactly for an equal one.\<close>

theorem strcpy_correct:
  assumes "cstr m src = Some str" "length str < 2 ^ 31" "apart dest (Suc (length str)) src (Suc (length str))"
  shows "\<exists>m'. strcpy dest src m = Some (dest, m') \<and> cstr m' dest = Some str
    \<and> (\<forall>x. \<not> within dest (Suc (length str)) x \<longrightarrow> m' x = m x) \<and> strlen m' dest = Some (of_nat (length str))
    \<and> (\<forall>p t. cstr m' p = Some t \<longrightarrow> (\<exists>r. strcmp m' dest p = Some r \<and> (r = 0 \<longleftrightarrow> str = t)))"
proof -
  have le: "Suc (length str) \<le> 2 ^ 32" using assms(2) by simp
  have "dest + of_nat i \<noteq> src + of_nat j" if "i \<le> length str" "j \<le> length str" for i j
    using assms(3) that le by (auto simp: apart_def within_ex) (metis le_imp_less_Suc)
  from strcpy_copies [OF assms(1) this] obtain m' where m': "strcpy_from dest src m = Some m'"
    "\<forall>i \<le> length str. m' (dest + of_nat i) = m (src + of_nat i)" "\<forall>x. \<not> within dest (Suc (length str)) x \<longrightarrow> m' x = m x"
    using assms(2) by auto
  have c: "cstr m' dest = Some str" using cstr_same [OF assms(1)] m'(2) by blast
  show ?thesis using m'(1,3) c strlen_cstr [OF c] strcmp_equal [OF c] by (auto simp: strcpy_def)
qed

definition demo_string :: umem where
  "demo_string a = (if a = 0x1000 then byte_of (CHR ''h'') else if a = 0x1001 then byte_of (CHR ''i'') else 0)"

theorem strcpy_correct_witness:
  "\<exists>m'. strcpy 0x2000 0x1000 demo_string = Some (0x2000, m') \<and> cstr m' 0x2000 = Some ''hi'' \<and> strlen m' 0x2000 = Some 2"
proof -
  have "cstr demo_string 0x1000 = Some ''hi''"
    by (simp add: cstr_Cons cstr_Nil demo_string_def) (simp add: byte_of_def)
  moreover have "apart 0x2000 (Suc (length ''hi'')) 0x1000 (Suc (length ''hi''))" by (simp add: apart_def within_iff)
  ultimately obtain m' where "strcpy 0x2000 0x1000 demo_string = Some (0x2000, m')" "cstr m' 0x2000 = Some ''hi''"
    "strlen m' 0x2000 = Some (of_nat (length ''hi''))"
    using strcpy_correct [of demo_string "0x1000" "''hi''" "0x2000"] by auto
  then show ?thesis by simp
qed

section \<open>Formatted output\<close>

text \<open>Standard output is a console and the slot is a real address.\<close>

definition stdout_ok :: "u32 \<Rightarrow> ulib \<Rightarrow> bool" where
  "stdout_ok sl s \<longleftrightarrow> sl \<noteq> 0 \<and> used (fds (os s) ! 1) \<and> ftype (fds (os s) ! 1) = FD_CONSOLE"

text \<open>Printing a text: the terminal receives its characters in order, and of the memory only the slot changes.\<close>

definition emits :: "u32 \<Rightarrow> string \<Rightarrow> ulib \<Rightarrow> ulib \<Rightarrow> bool" where
  "emits sl str s s' \<longleftrightarrow>
     (\<exists>v. s' = s\<lparr>os := (os s)\<lparr>umem := (mem_of s)(sl := v), tty := fold terminal_putchar str (tty (os s))\<rparr>\<rparr>)"

lemma emits_Nil: "emits sl [] s s"
  unfolding emits_def by (intro exI [of _ "mem_of s sl"]) simp

lemma emits_append: "emits sl x s s1 \<Longrightarrow> emits sl y s1 s2 \<Longrightarrow> emits sl (x @ y) s s2"
  unfolding emits_def by auto

lemma emits_ok: "emits sl x s s' \<Longrightarrow> stdout_ok sl s' = stdout_ok sl s" "emits sl x s s' \<Longrightarrow> \<exists>v. mem_of s' = (mem_of s)(sl := v)"
  by (auto simp: emits_def stdout_ok_def)

lemma lib_write_console:
  assumes "stdout_ok sl s" "buf \<noteq> 0" "unat n < 2 ^ 31"
  shows "lib_write 1 buf n s = Some (n, s\<lparr>os := (os s)\<lparr>tty := fold (\<lambda>i. terminal_putchar (char_of_byte (mem_of s (buf + of_nat i)))) [0..<unat n] (tty (os s))\<rparr>\<rparr>)"
  using assms sint_small [OF assms(3)]
  by (simp add: lib_write_def syscall3_def syscall_handler_def syscall_ret_def syscall_nr Let_def sys_write_def bad_fd_def stdout_ok_def FD_MAX_def)

lemma putchar_emits:
  assumes "stdout_ok sl s"
  shows "\<exists>s'. putchar sl c s = Some (c, s') \<and> emits sl [char_of_byte (ucast c)] s s'"
proof -
  let ?s = "upoke (\<lambda>m. m(sl := ucast c)) s"
  have "stdout_ok sl ?s" "sl \<noteq> 0" using assms by (simp_all add: stdout_ok_def)
  from lib_write_console [OF this, of 1] show ?thesis by (auto simp: putchar_def emits_def)
qed

lemma char_word_byte [simp]: "ucast (char_word c) = byte_of c"
  unfolding char_word_def by (rule bit_word_eqI) (simp add: bit_simps)

lemma putchars_emits: "stdout_ok sl s \<Longrightarrow> \<exists>s'. putchars sl cs s = Some s' \<and> emits sl cs s s'"
proof (induction cs arbitrary: s)
  case (Cons c cs)
  obtain s1 where s1: "putchar sl (char_word c) s = Some (char_word c, s1)" "emits sl [c] s s1"
    using putchar_emits [OF Cons.prems, of "char_word c"] by auto
  with Cons.IH [of s1] Cons.prems emits_ok(1) [OF s1(2)] obtain s2 where "putchars sl cs s1 = Some s2" "emits sl cs s1 s2" by auto
  with s1 emits_append [of sl "[c]" s s1 cs s2] show ?case by simp
qed (simp add: emits_Nil)

declare putchars.simps [simp del]

text \<open>The text of a format: what each conversion stands for.\<close>

definition uint_digits_of :: "u32 \<Rightarrow> u32 \<Rightarrow> string" where
  "uint_digits_of base v = (if v = 0 then ''0'' else digit_loop 32 base v [])"

definition int_digits_of :: "u32 \<Rightarrow> string" where
  "int_digits_of v = (if sint v < 0 then ''-'' @ uint_digits_of 10 (- v) else uint_digits_of 10 v)"

fun conversion :: "stdio_env \<Rightarrow> umem \<Rightarrow> char \<Rightarrow> u32 \<Rightarrow> string option" where
  "conversion E m d a =
     (if d = CHR ''s'' then do {
        str \<leftarrow> cstr m (if a = 0 then nullp E else a);
        if length str < 2 ^ 31 \<and> \<not> within (if a = 0 then nullp E else a) (Suc (length str)) (slot E) then Some str else None
      }
      else if d = CHR ''c'' then Some [char_of_byte (ucast a)]
      else if d = CHR ''d'' \<or> d = CHR ''i'' then Some (int_digits_of a)
      else if d = CHR ''u'' then Some (uint_digits_of 10 a)
      else if d = CHR ''x'' then Some (uint_digits_of 16 a)
      else if d = CHR ''p'' then Some (''0x'' @ uint_digits_of 16 a)
      else if d = CHR ''%'' then Some ''%''
      else Some [CHR ''%'', d])"

definition takes_arg :: "char \<Rightarrow> bool" where
  "takes_arg d \<longleftrightarrow> d \<in> set ''scdiuxp''"

fun fmt_text :: "stdio_env \<Rightarrow> umem \<Rightarrow> string \<Rightarrow> (nat \<Rightarrow> u32) \<Rightarrow> nat \<Rightarrow> string option" where
  "fmt_text E m [] va k = Some []"
| "fmt_text E m (c # fmt) va k =
     (if c \<noteq> CHR ''%'' then map_option (Cons c) (fmt_text E m fmt va k)
      else case fmt of
        [] \<Rightarrow> Some []
      | d # fmt \<Rightarrow> do {
          x \<leftarrow> conversion E m d (va k);
          y \<leftarrow> fmt_text E m fmt va (if takes_arg d then Suc k else k);
          Some (x @ y)
        })"

lemma print_uint_emits: "stdout_ok sl s \<Longrightarrow> \<exists>s'. print_uint sl v base s = Some s' \<and> emits sl (uint_digits_of base v) s s'"
  using putchars_emits by (simp add: print_uint_def uint_digits_of_def)

lemma print_int_emits:
  assumes "stdout_ok sl s"
  shows "\<exists>s'. print_int sl v s = Some s' \<and> emits sl (int_digits_of v) s s'"
proof (cases "sint v < 0")
  case True
  obtain s1 where s1: "putchars sl ''-'' s = Some s1" "emits sl ''-'' s s1" using putchars_emits [OF assms] by blast
  then obtain s2 where "print_uint sl (- v) 10 s1 = Some s2" "emits sl (uint_digits_of 10 (- v)) s1 s2"
    using print_uint_emits assms emits_ok(1) by blast
  with s1 True emits_append [OF s1(2)] show ?thesis by (simp add: print_int_def int_digits_of_def)
next
  case False
  then show ?thesis using print_uint_emits [OF assms] by (simp add: print_int_def int_digits_of_def)
qed

lemma string_emits:
  assumes "stdout_ok sl s" "cstr (mem_of s) a = Some str" "length str < 2 ^ 31" "a \<noteq> 0"
  shows "\<exists>s'. lib_write 1 a (of_nat (length str)) s = Some (of_nat (length str), s') \<and> emits sl str s s'"
proof -
  have n: "unat (of_nat (length str) :: u32) = length str" using assms(3) by (intro unat_of_nat32) simp
  have "fold (\<lambda>i. terminal_putchar (char_of_byte (mem_of s (a + of_nat i)))) [0..<length str] t = fold terminal_putchar str t" for t
  proof -
    have "map (\<lambda>i. char_of_byte (mem_of s (a + of_nat i))) [0..<length str] = str"
      using cstr_byte [OF assms(2)] by (intro nth_equalityI) simp_all
    moreover have "fold terminal_putchar (map (\<lambda>i. char_of_byte (mem_of s (a + of_nat i))) [0..<length str]) t =
      fold (\<lambda>i. terminal_putchar (char_of_byte (mem_of s (a + of_nat i)))) [0..<length str] t"
      by (simp add: fold_map comp_def)
    ultimately show ?thesis by simp
  qed
  then show ?thesis using lib_write_console [OF assms(1,4)] n assms(3)
    unfolding emits_def by (auto intro!: exI [of _ "mem_of s sl"])
qed

lemma vprintf_conversion:
  assumes ok: "stdout_ok (slot E) s" "nullp E \<noteq> 0" and x: "conversion E (mem_of s) d (va k) = Some x"
  shows "\<exists>w s'. vprintf E (CHR ''%'' # d # fmt) va k written s = vprintf E fmt va (if takes_arg d then Suc k else k) w s'
    \<and> emits (slot E) x s s'"
proof -
  consider "d = CHR ''s''" | "d = CHR ''c''" | "d = CHR ''d'' \<or> d = CHR ''i''" | "d = CHR ''u''" | "d = CHR ''x''" | "d = CHR ''p''"
    | "d = CHR ''%''" | "d \<notin> set ''scdiuxp%''" by auto
  then show ?thesis
  proof cases
    case 1
    let ?p = "if va k = 0 then nullp E else va k"
    have c: "cstr (mem_of s) ?p = Some x" "length x < 2 ^ 31" using x 1 by (auto simp: bind_eq_Some_conv split: if_splits)
    have "?p \<noteq> 0" using ok(2) by simp
    from string_emits [OF ok(1) c this] obtain s' where s': "lib_write 1 ?p (of_nat (length x)) s = Some (of_nat (length x), s')"
      "emits (slot E) x s s'" by blast
    have "mem_of s' = mem_of s" using s'(1) lib_write_console [OF ok(1) \<open>?p \<noteq> 0\<close>, of "of_nat (length x)"] unat_of_nat32 [of "length x"] c(2) by auto
    then show ?thesis using 1 s' strlen_cstr [OF c(1)] by (auto simp: takes_arg_def Let_def) (blast+)?
  next
    case 2
    then show ?thesis using putchar_emits [OF ok(1), of "va k"] x by (auto simp: takes_arg_def) (blast+)?
  next
    case 3
    then show ?thesis using print_int_emits [OF ok(1), of "va k"] x by (auto simp: takes_arg_def) (blast+)?
  next
    case 4
    then show ?thesis using print_uint_emits [OF ok(1), of "va k" 10] x by (auto simp: takes_arg_def) (blast+)?
  next
    case 5
    then show ?thesis using print_uint_emits [OF ok(1), of "va k" 16] x by (auto simp: takes_arg_def) (blast+)?
  next
    case 6
    obtain s1 where s1: "putchars (slot E) ''0x'' s = Some s1" "emits (slot E) ''0x'' s s1" using putchars_emits [OF ok(1)] by blast
    then obtain s2 where "print_uint (slot E) (va k) 16 s1 = Some s2" "emits (slot E) (uint_digits_of 16 (va k)) s1 s2"
      using print_uint_emits ok(1) emits_ok(1) by blast
    then show ?thesis using 6 s1(1) emits_append [OF s1(2)] x by (auto simp: takes_arg_def) (blast+)?
  next
    case 7
    then show ?thesis using putchars_emits [OF ok(1), of "''%''"] x by (auto simp: takes_arg_def) (blast+)?
  next
    case 8
    then show ?thesis using putchars_emits [OF ok(1), of "[CHR ''%'', d]"] x by (auto simp: takes_arg_def) (blast+)?
  qed
qed

lemma conversion_stable: "conversion E m d a = Some x \<Longrightarrow> conversion E (m(slot E := v)) d a = Some x"
proof -
  have "cstr (m(slot E := v)) p = Some str" if "cstr m p = Some str" "\<not> within p (Suc (length str)) (slot E)" "length str < 2 ^ 31" for p str
  proof (rule cstr_same [OF that(1)])
    show "(m(slot E := v)) (p + of_nat i) = m (p + of_nat i)" if "i \<le> length str" for i
      using that \<open>\<not> within p (Suc (length str)) (slot E)\<close> \<open>length str < 2 ^ 31\<close> within_offset [of i "Suc (length str)" p] by auto
  qed
  then show "conversion E m d a = Some x \<Longrightarrow> conversion E (m(slot E := v)) d a = Some x"
    by (auto simp: bind_eq_Some_conv split: if_splits)
qed

lemma fmt_text_stable: "fmt_text E m fmt va k = Some str \<Longrightarrow> fmt_text E (m(slot E := v)) fmt va k = Some str"
proof (induction E m fmt va k arbitrary: str rule: fmt_text.induct)
  case (2 E m c fmt va k)
  show ?case
  proof (cases "c = CHR ''%''")
    case False
    then show ?thesis using 2 by auto
  next
    case True
    show ?thesis
    proof (cases fmt)
      case (Cons d fmt')
      let ?k = "if takes_arg d then Suc k else k"
      obtain x y where x: "conversion E m d (va k) = Some x" "fmt_text E m fmt' va ?k = Some y" "str = x @ y"
        using "2.prems" True Cons by (auto simp: bind_eq_Some_conv simp del: conversion.simps)
      have "fmt_text E (m(slot E := v)) fmt' va ?k = Some y" using "2.IH"(2) True Cons x(1,2) by blast
      then show ?thesis using True Cons x(3) conversion_stable [OF x(1), of v] by (simp del: conversion.simps fun_upd_apply)
    qed (use "2.prems" True in simp)
  qed
qed simp

lemma vprintf_emits:
  assumes "stdout_ok (slot E) s" "nullp E \<noteq> 0" "fmt_text E (mem_of s) fmt va k = Some str"
  shows "\<exists>w s'. vprintf E fmt va k written s = Some (w, s') \<and> emits (slot E) str s s'"
  using assms(1,3)
proof (induction "length fmt" arbitrary: fmt k written s str rule: less_induct)
  case less
  have step: "\<exists>w s'. vprintf E fmt' va k' w1 s1 = Some (w, s') \<and> emits (slot E) (x @ str') s s'"
    if "length fmt' < length fmt" "emits (slot E) x s s1" "fmt_text E (mem_of s) fmt' va k' = Some str'" for fmt' k' w1 s1 x str'
  proof -
    have "stdout_ok (slot E) s1" using emits_ok(1) [OF that(2)] less.prems(1) by simp
    moreover have "fmt_text E (mem_of s1) fmt' va k' = Some str'" using emits_ok(2) [OF that(2)] fmt_text_stable [OF that(3)] by auto
    ultimately show ?thesis using less.hyps [OF that(1)] emits_append [OF that(2)] by blast
  qed
  consider "fmt = []" | c fmt' where "fmt = c # fmt'" "c \<noteq> CHR ''%''" | "fmt = ''%''" | d fmt' where "fmt = CHR ''%'' # d # fmt'"
    by (metis neq_Nil_conv)
  then show ?case
  proof cases
    case (2 c fmt')
    then obtain y where y: "str = [c] @ y" "fmt_text E (mem_of s) fmt' va k = Some y" using less.prems(2) by auto
    obtain s1 where s1: "putchars (slot E) [c] s = Some s1" "emits (slot E) [c] s s1" using putchars_emits [OF less.prems(1)] by blast
    then show ?thesis using step [OF _ s1(2) y(2), of "written + 1"] 2 y(1) by simp
  next
    case (4 d fmt')
    let ?k = "if takes_arg d then Suc k else k"
    obtain x y where x: "conversion E (mem_of s) d (va k) = Some x" "str = x @ y" "fmt_text E (mem_of s) fmt' va ?k = Some y"
      using less.prems(2) 4 by (auto simp: bind_eq_Some_conv simp del: conversion.simps)
    obtain w s1 where "vprintf E fmt va k written s = vprintf E fmt' va ?k w s1" "emits (slot E) x s s1"
      using vprintf_conversion [where va = va, OF less.prems(1) assms(2) x(1)] 4 by blast
    then show ?thesis using step [OF _ _ x(3), of x s1 w] 4 x(2) by simp
  qed (use less.prems emits_Nil in auto)
qed

text \<open>The digits read back as the number.\<close>

definition digit_val :: "char \<Rightarrow> nat" where
  "digit_val c = length (takeWhile (\<lambda>d. d \<noteq> c) ''0123456789abcdef'')"

definition read_digits :: "nat \<Rightarrow> string \<Rightarrow> nat" where
  "read_digits b = foldl (\<lambda>a c. a * b + digit_val c) 0"

lemma digit_val_nth: "i < 16 \<Longrightarrow> digit_val (''0123456789abcdef'' ! i) = i"
proof -
  have "\<forall>i \<in> set [0..<16]. digit_val (''0123456789abcdef'' ! i) = i" by (simp add: digit_val_def upt_conv_Cons)
  then show "i < 16 \<Longrightarrow> digit_val (''0123456789abcdef'' ! i) = i" by simp
qed

lemma digit_loop_buf: "digit_loop n base v buf = digit_loop n base v [] @ buf"
proof (induction n arbitrary: v buf)
  case (Suc n)
  show ?case
    using Suc.IH [of "v div base" "''0123456789abcdef'' ! unat (v mod base) # buf"] Suc.IH [of "v div base" "[''0123456789abcdef'' ! unat (v mod base)]"]
    by simp
qed simp

lemma digit_loop_reads:
  "unat v < unat base ^ n \<Longrightarrow> 2 \<le> unat base \<Longrightarrow> unat base \<le> 16 \<Longrightarrow> read_digits (unat base) (digit_loop n base v []) = unat v"
proof (induction n arbitrary: v)
  case 0
  then show ?case by (simp add: read_digits_def)
next
  case (Suc n)
  let ?d = "''0123456789abcdef'' ! unat (v mod base)"
  have m: "unat (v mod base) = unat v mod unat base" "unat (v div base) = unat v div unat base"
    by (simp_all add: unat_mod unat_div)
  have "unat v div unat base < unat base ^ n" using Suc.prems by (intro less_mult_imp_div_less) (simp add: mult.commute)
  then have ih: "read_digits (unat base) (digit_loop n base (v div base) []) = unat v div unat base" using Suc.IH [of "v div base"] Suc.prems m by simp
  have "unat v mod unat base < 16" using Suc.prems(2,3) by (metis less_le_trans mod_less_divisor not_gr_zero not_numeral_le_zero)
  then have "digit_val ?d = unat v mod unat base" using digit_val_nth m(1) by simp
  then have "read_digits (unat base) (digit_loop n base (v div base) [] @ [?d]) = unat v"
    using ih by (simp add: read_digits_def mult.commute)
  then show ?case using digit_loop_buf [of n base "v div base" "[?d]"] by (cases "v = 0") (simp_all add: read_digits_def word_gt_0)
qed

text \<open>C28. \<open>printf\<close> to a console returns having written the text its format and arguments stand for, in order, and changes
  nothing else but the byte of its own buffer; the digits of \<open>%u\<close> and \<open>%x\<close> read back as the argument. The
  strings printed have an end, and do not contain this buffer.\<close>

theorem printf_correct:
  assumes "stdout_ok (slot E) s" "nullp E \<noteq> 0" "fmt_text E (mem_of s) fmt va 0 = Some str"
  shows "(\<exists>w v s'. printf E fmt va s = Some (w, s')
      \<and> s' = s\<lparr>os := (os s)\<lparr>umem := (mem_of s)(slot E := v), tty := fold terminal_putchar str (tty (os s))\<rparr>\<rparr>)
    \<and> read_digits 10 (uint_digits_of 10 n) = unat n \<and> read_digits 16 (uint_digits_of 16 n) = unat n"
proof -
  have "unat n < 10 ^ 32" "unat n < 16 ^ 32" using unsigned_less [of n, where 'a = nat] by simp_all
  then have "read_digits 10 (digit_loop 32 10 n []) = unat n" "read_digits 16 (digit_loop 32 16 n []) = unat n"
    using digit_loop_reads [of n 10 32] digit_loop_reads [of n 16 32] by (simp_all del: digit_loop.simps)
  moreover have "read_digits b ''0'' = 0" for b by (simp add: read_digits_def digit_val_def)
  ultimately have "read_digits 10 (uint_digits_of 10 n) = unat n" "read_digits 16 (uint_digits_of 16 n) = unat n"
    by (auto simp: uint_digits_of_def simp del: digit_loop.simps)
  moreover obtain w s' where "vprintf E fmt va 0 0 s = Some (w, s')" "emits (slot E) str s s'" using vprintf_emits [OF assms, of 0] by blast
  then have "\<exists>w v s'. printf E fmt va s = Some (w, s')
      \<and> s' = s\<lparr>os := (os s)\<lparr>umem := (mem_of s)(slot E := v), tty := fold terminal_putchar str (tty (os s))\<rparr>\<rparr>"
    by (simp add: printf_def emits_def)
  ultimately show ?thesis by blast
qed

theorem printf_correct_witness:
  "\<exists>w s'. printf \<lparr>slot = 0x3000, nullp = 0x4000\<rparr> ''n=%u%%'' (\<lambda>k. 42) fresh_ulib = Some (w, s')
     \<and> tty (os s') = fold terminal_putchar ''n=42%'' (tty boot_sys)"
proof -
  let ?E = "\<lparr>slot = 0x3000, nullp = 0x4000\<rparr>"
  have "stdout_ok (slot ?E) fresh_ulib" by (simp add: stdout_ok_def fresh_ulib_def boot_sys_fds FD_MAX_def)
  moreover have "digit_loop (Suc (Suc (Suc n))) 10 42 [] = ''42''" for n by simp
  from this [of 29] have "uint_digits_of 10 42 = ''42''" by (simp add: uint_digits_of_def del: digit_loop.simps)
  then have "fmt_text ?E (mem_of fresh_ulib) ''n=%u%%'' (\<lambda>k. 42) 0 = Some ''n=42%''" by (simp add: takes_arg_def)
  ultimately obtain w v s' where "printf ?E ''n=%u%%'' (\<lambda>k. 42) fresh_ulib = Some (w, s')"
    "s' = fresh_ulib\<lparr>os := (os fresh_ulib)\<lparr>umem := (mem_of fresh_ulib)(slot ?E := v), tty := fold terminal_putchar ''n=42%'' (tty (os fresh_ulib))\<rparr>\<rparr>"
    using printf_correct [of ?E fresh_ulib "''n=%u%%''" "\<lambda>k. 42" "''n=42%''" 0] by auto
  then show ?thesis by (simp add: fresh_ulib_def)
qed

end
