(* ===== verification/Paging64.thy ===== *)
theory Paging64
  imports Prelude
begin

text \<open>
  The 64-bit kernel (\<open>src/src64/paging64.c\<close>, \<open>src/src64/kernel64.c\<close>) and the page tables
  \<open>src/src64/boot64.s\<close> builds for it. A table is a run of 8-byte entries; memory is given by the entries at the C
  pointers, which are physical addresses plus \<open>KERNEL_VMA\<close>. The symbols of the linker script, the features of the
  processor and the words of the boot information are parameters.
\<close>

section \<open>Definitions\<close>

definition KERNEL_VMA :: u64 where "KERNEL_VMA = 0xFFFFFFFF80000000"
definition PAGE_SIZE_4K :: u64 where "PAGE_SIZE_4K = 0x1000"
definition PAGE_PRESENT :: u64 where "PAGE_PRESENT = 1"
definition PAGE_WRITE :: u64 where "PAGE_WRITE = 2"
definition PAGE_LARGE :: u64 where "PAGE_LARGE = 0x80"
definition PAGE_NX :: u64 where "PAGE_NX = 0x8000000000000000"
definition PTE_ADDR_MASK :: u64 where "PTE_ADDR_MASK = 0x000FFFFFFFFFF000"
definition EFER_LME :: u64 where "EFER_LME = 0x100"
definition EFER_NXE :: u64 where "EFER_NXE = 0x800"

definition pml4_index :: "u64 \<Rightarrow> u64" where "pml4_index va = drop_bit 39 va AND 0x1FF"
definition pdpt_index :: "u64 \<Rightarrow> u64" where "pdpt_index va = drop_bit 30 va AND 0x1FF"
definition pd_index :: "u64 \<Rightarrow> u64" where "pd_index va = drop_bit 21 va AND 0x1FF"
definition pt_index :: "u64 \<Rightarrow> u64" where "pt_index va = drop_bit 12 va AND 0x1FF"

type_synonym tables = "u64 \<Rightarrow> u64"

text \<open>The addresses the link fixes: the tables of the boot code lie one after the other from \<open>pml4\<close> on.\<close>

record image64 =
  pml4 :: u64
  pt_hh0 :: u64
  text_start :: u64
  text_end :: u64
  rodata_start :: u64
  rodata_end :: u64
  data_start :: u64
  bss_end :: u64
  kernel_virtual_start :: u64
  kernel_virtual_end :: u64
  kernel_physical_start :: u64

definition pdpt :: "image64 \<Rightarrow> u64" where "pdpt k = pml4 k + 0x1000"
definition pdpt_hh :: "image64 \<Rightarrow> u64" where "pdpt_hh k = pml4 k + 0x2000"
definition pd0 :: "image64 \<Rightarrow> u64" where "pd0 k = pml4 k + 0x3000"
definition pd_hh :: "image64 \<Rightarrow> u64" where "pd_hh k = pml4 k + 0x7000"

abbreviation entry_at :: "u64 \<Rightarrow> u64 \<Rightarrow> u64" where "entry_at t i \<equiv> t + 8 * i"

record cpu64 =
  cpuid_edx :: u32
  efer_lo :: u32
  efer_hi :: u32
  g_nx_enabled :: u32

record paging =
  ptab :: tables
  cr3 :: u64

subsection \<open>The tables of the boot code\<close>

definition fill_entries :: "u64 \<Rightarrow> nat \<Rightarrow> (nat \<Rightarrow> u64) \<Rightarrow> tables \<Rightarrow> tables" where
  "fill_entries b n f t = fold (\<lambda>i t. t(entry_at b (of_nat i) := f i)) [0..<n] t"

text \<open>A directory entry of a 2 MB page: the low half counts up from \<open>0x83\<close>, the high half forbids execution of all
  pages but the first.\<close>

definition pde :: "nat \<Rightarrow> u64" where
  "pde i = ucast (0x83 + of_nat i * 0x200000 :: u32) OR push_bit 32 (if i = 0 then 0 else 0x80000000)"

definition phys :: "u64 \<Rightarrow> u64" where
  "phys a = a - KERNEL_VMA"

definition boot_tables :: "image64 \<Rightarrow> tables \<Rightarrow> tables" where
  "boot_tables k t =
     (let t = fill_entries (pml4 k) (512 * 7) (\<lambda>i. 0) t;
          t = t(pml4 k := phys (pdpt k) OR 3);
          t = t(entry_at (pml4 k) 511 := phys (pdpt_hh k) OR 3);
          t = t(pdpt k := phys (pd0 k) OR 3);
          t = t(entry_at (pdpt k) 1 := phys (pd0 k + 0x1000) OR 3);
          t = t(entry_at (pdpt k) 2 := phys (pd0 k + 0x2000) OR 3);
          t = t(entry_at (pdpt k) 3 := phys (pd0 k + 0x3000) OR 3);
          t = t(pdpt_hh k := phys (pd_hh k) OR 3);
          t = fill_entries (pd0 k) (512 * 4) pde t
      in fill_entries (pd_hh k) 512 pde t)"

subsection \<open>\<open>paging64.c\<close>\<close>

definition virt_to_table_ptr :: "u64 \<Rightarrow> u64" where
  "virt_to_table_ptr p = p + KERNEL_VMA"

definition paging_load_cr3 :: "u64 \<Rightarrow> paging \<Rightarrow> paging" where
  "paging_load_cr3 pml4_phys s = s\<lparr>cr3 := pml4_phys\<rparr>"

definition paging_read_efer :: "cpu64 \<Rightarrow> u64" where
  "paging_read_efer c = push_bit 32 (ucast (efer_hi c)) OR ucast (efer_lo c)"

definition paging_nx_available :: "cpu64 \<Rightarrow> bool" where
  "paging_nx_available c \<longleftrightarrow> drop_bit 20 (cpuid_edx c) AND 1 \<noteq> 0"

definition paging_pte_set_nx :: "u64 \<Rightarrow> tables \<Rightarrow> tables" where
  "paging_pte_set_nx p t = (if p \<noteq> 0 then t(p := t p OR PAGE_NX) else t)"

definition paging_pte_clear_nx :: "u64 \<Rightarrow> tables \<Rightarrow> tables" where
  "paging_pte_clear_nx p t = (if p \<noteq> 0 then t(p := t p AND NOT PAGE_NX) else t)"

definition paging_pte_is_nx :: "u64 \<Rightarrow> bool" where
  "paging_pte_is_nx e \<longleftrightarrow> e AND PAGE_NX \<noteq> 0"

definition paging_virt_to_phys :: "image64 \<Rightarrow> tables \<Rightarrow> u64 \<Rightarrow> u64" where
  "paging_virt_to_phys k t va =
     (let e = t (entry_at (pml4 k) (pml4_index va)) in
      if e AND PAGE_PRESENT = 0 then 0
      else let e = t (entry_at (virt_to_table_ptr (e AND PTE_ADDR_MASK)) (pdpt_index va)) in
      if e AND PAGE_PRESENT = 0 then 0
      else if e AND PAGE_LARGE \<noteq> 0 then (e AND 0x000FFFFFC0000000) OR (va AND 0x3FFFFFFF)
      else let e = t (entry_at (virt_to_table_ptr (e AND PTE_ADDR_MASK)) (pd_index va)) in
      if e AND PAGE_PRESENT = 0 then 0
      else if e AND PAGE_LARGE \<noteq> 0 then (e AND 0x000FFFFFFFE00000) OR (va AND 0x1FFFFF)
      else let e = t (entry_at (virt_to_table_ptr (e AND PTE_ADDR_MASK)) (pt_index va)) in
      if e AND PAGE_PRESENT = 0 then 0
      else (e AND PTE_ADDR_MASK) OR (va AND 0xFFF))"

definition in_range :: "u64 \<Rightarrow> u64 \<Rightarrow> u64 \<Rightarrow> bool" where
  "in_range va a b \<longleftrightarrow> va \<ge> a \<and> va < b"

definition nx_flag :: "bool \<Rightarrow> u64" where
  "nx_flag nx = (if nx then PAGE_NX else 0)"

definition flags_for_va :: "image64 \<Rightarrow> u64 \<Rightarrow> bool \<Rightarrow> u64" where
  "flags_for_va k va nx_on =
     (if in_range va (text_start k) (text_end k) then PAGE_PRESENT
      else if in_range va (rodata_start k) (rodata_end k) then PAGE_PRESENT OR nx_flag nx_on
      else PAGE_PRESENT OR PAGE_WRITE OR nx_flag nx_on)"

definition hh_entry :: "image64 \<Rightarrow> bool \<Rightarrow> nat \<Rightarrow> u64" where
  "hh_entry k nx i =
     (let p = of_nat i * PAGE_SIZE_4K; va = KERNEL_VMA + p;
          flags = (if va < kernel_virtual_start k \<or> va \<ge> kernel_virtual_end k
                   then if p \<ge> 0x100000 \<and> p < 0x101000 \<and> \<not> nx then PAGE_PRESENT
                        else PAGE_PRESENT OR PAGE_WRITE OR nx_flag nx
                   else flags_for_va k va nx)
      in (p AND PTE_ADDR_MASK) OR flags)"

text \<open>The three loops over the pages of a section.\<close>

definition set_page :: "image64 \<Rightarrow> u64 \<Rightarrow> u64 \<Rightarrow> tables \<Rightarrow> tables" where
  "set_page k f va t =
     (let idx = (ucast ((va - KERNEL_VMA) div PAGE_SIZE_4K) :: u32) in
      if idx < 512 then t(entry_at (pt_hh0 k) (ucast idx) := ((va - KERNEL_VMA) AND PTE_ADDR_MASK) OR f) else t)"

partial_function (option) set_section :: "image64 \<Rightarrow> u64 \<Rightarrow> u64 \<Rightarrow> u64 \<Rightarrow> tables \<Rightarrow> tables option" where
  "set_section k f fin va t =
     (if va < fin then set_section k f fin (va + PAGE_SIZE_4K) (set_page k f va t) else Some t)"

definition page_of :: "u64 \<Rightarrow> u64" where
  "page_of a = a AND NOT (PAGE_SIZE_4K - 1)"

definition paging_apply_w_xor_x :: "image64 \<Rightarrow> cpu64 \<Rightarrow> paging \<Rightarrow> paging option" where
  "paging_apply_w_xor_x k c s =
     (let nx = (paging_nx_available c \<and> g_nx_enabled c \<noteq> 0);
          t = fill_entries (pt_hh0 k) 512 (hh_entry k nx) (ptab s) in do {
        t \<leftarrow> set_section k PAGE_PRESENT (text_end k) (page_of (text_start k)) t;
        t \<leftarrow> set_section k (PAGE_PRESENT OR nx_flag nx) (rodata_end k) (page_of (rodata_start k)) t;
        t \<leftarrow> set_section k (PAGE_PRESENT OR PAGE_WRITE OR nx_flag nx) (bss_end k) (page_of (data_start k)) t;
        let t = t(pd_hh k := ((pt_hh0 k - KERNEL_VMA) AND PTE_ADDR_MASK) OR PAGE_PRESENT OR PAGE_WRITE) in
        Some (paging_load_cr3 (pml4 k - KERNEL_VMA) (s\<lparr>ptab := t\<rparr>))
      })"

section \<open>The tables of the boot code\<close>

lemma unat_entry: "i < 2 ^ 60 \<Longrightarrow> unat (8 * of_nat i :: u64) = 8 * i"
  using unat_of_nat [of "8 * i", where 'a = 64] by simp

lemma entry_inj: "i < 2 ^ 60 \<Longrightarrow> j < 2 ^ 60 \<Longrightarrow> entry_at b (of_nat i) = entry_at b (of_nat j) \<longleftrightarrow> i = j"
  using unat_entry [of i] unat_entry [of j] by (metis add_left_cancel nat_mult_eq_cancel_disj zero_neq_numeral)

lemma fill_Suc: "fill_entries b (Suc n) f t = (fill_entries b n f t)(entry_at b (of_nat n) := f n)"
  by (simp add: fill_entries_def)

lemma fill_at: "i < n \<Longrightarrow> n \<le> 2 ^ 60 \<Longrightarrow> fill_entries b n f t (entry_at b (of_nat i)) = f i"
proof (induction n)
  case (Suc n)
  then show ?case using entry_inj [of i n b] by (cases "i = n") (auto simp: fill_Suc)
qed simp

lemma fill_other: "8 * n \<le> unat (a - b) \<Longrightarrow> n \<le> 2 ^ 60 \<Longrightarrow> fill_entries b n f t a = t a"
proof (induction n)
  case (Suc n)
  then have "a \<noteq> entry_at b (of_nat n)" using unat_entry [of n] by auto
  with Suc show ?case by (simp add: fill_Suc)
qed (simp add: fill_entries_def)

text \<open>The bits of a directory entry.\<close>

lemma pde_bits:
  assumes "i < 2048"
  shows "pde i = push_bit 21 (of_nat i) OR 0x83 OR (if i = 0 then 0 else PAGE_NX)"
proof -
  have "unat (0x83 + of_nat i * 0x200000 :: u32) = 0x83 + i * 0x200000"
    using assms unat_of_nat [of "0x83 + i * 0x200000", where 'a = 32] by simp
  then have "(ucast (0x83 + of_nat i * 0x200000 :: u32) :: u64) = of_nat (0x83 + i * 0x200000)"
    by (metis of_nat_unat)
  also have "\<dots> = push_bit 21 (of_nat i) + 0x83" by (simp add: push_bit_eq_mult)
  also have "\<dots> = push_bit 21 (of_nat i) OR 0x83"
  proof (rule disjunctive_add_eq_or)
    have "(0x83 :: u64) = take_bit 8 0x83" by simp
    then have "bit (0x83 :: u64) n \<Longrightarrow> n < 8" for n by (metis bit_take_bit_iff)
    then show "push_bit 21 (of_nat i :: u64) AND 0x83 = 0"
      by (intro bit_word_eqI) (fastforce simp: bit_push_bit_iff bit_and_iff)
  qed
  finally show ?thesis by (simp add: pde_def PAGE_NX_def push_bit_eq_mult or.assoc)
qed

text \<open>Entries: an aligned physical address and flags outside its bits.\<close>

definition frame_ok :: "u64 \<Rightarrow> bool" where
  "frame_ok a \<longleftrightarrow> a AND PTE_ADDR_MASK = a"

lemma addr_mask: "PTE_ADDR_MASK = mask 52 AND NOT (mask 12)"
  by (simp add: PTE_ADDR_MASK_def mask_eq_exp_minus_1)

lemma frame_ok_iff: "frame_ok a \<longleftrightarrow> take_bit 12 a = 0 \<and> unat a < 2 ^ 52"
proof
  assume a: "frame_ok a"
  then have b: "bit a n \<Longrightarrow> 12 \<le> n \<and> n < 52" for n
    unfolding frame_ok_def addr_mask by (metis bit_and_iff bit_mask_iff bit_not_iff not_le)
  then have "take_bit 12 a = 0" by (intro bit_word_eqI) (use b in \<open>fastforce simp: bit_take_bit_iff\<close>)
  moreover have "take_bit 52 a = a" by (intro bit_word_eqI) (use b in \<open>auto simp: bit_take_bit_iff\<close>)
  then have "unat a = take_bit 52 (unat a)" by (metis unsigned_take_bit_eq)
  ultimately show "take_bit 12 a = 0 \<and> unat a < 2 ^ 52" by (metis take_bit_nat_less_exp)
next
  assume a: "take_bit 12 a = 0 \<and> unat a < 2 ^ 52"
  then have "unat (take_bit 52 a) = unat a" by (simp add: unsigned_take_bit_eq take_bit_nat_eq_self)
  then have t: "take_bit 52 a = a" by (rule unsigned_word_eqI)
  have "bit a n \<Longrightarrow> n < 52" "bit a n \<Longrightarrow> 12 \<le> n" for n
    using a t by (metis bit_take_bit_iff, metis bit_0_eq bit_take_bit_iff bot_apply bot_bool_def not_le)
  then show "frame_ok a" unfolding frame_ok_def addr_mask
    by (intro bit_word_eqI) (fastforce simp: bit_and_iff bit_mask_iff bit_not_iff)
qed

text \<open>The flags of an entry that carries no address bits.\<close>

lemma entry_fields:
  assumes "frame_ok a" "f AND PTE_ADDR_MASK = 0" "g AND PTE_ADDR_MASK = 0"
  shows "(a OR f) AND PTE_ADDR_MASK = a" "(a OR f) AND g = f AND g"
proof -
  show "(a OR f) AND PTE_ADDR_MASK = a" using assms(1,2) by (simp add: frame_ok_def bit.conj_disj_distrib2)
  have "a AND g = (a AND PTE_ADDR_MASK) AND g" using assms(1) by (simp only: frame_ok_def)
  also have "\<dots> = a AND (g AND PTE_ADDR_MASK)" by (simp only: and.assoc and.commute [of g])
  finally have "a AND g = 0" using assms(3) by simp
  then show "(a OR f) AND g = f AND g" by (simp add: bit.conj_disj_distrib2)
qed

lemma flag_masks:
  "PAGE_PRESENT AND PTE_ADDR_MASK = 0" "PAGE_LARGE AND PTE_ADDR_MASK = 0" "PAGE_WRITE AND PTE_ADDR_MASK = 0"
  "PAGE_NX AND PTE_ADDR_MASK = 0" "3 AND PTE_ADDR_MASK = 0"
  by (simp_all add: PAGE_PRESENT_def PAGE_LARGE_def PAGE_WRITE_def PAGE_NX_def PTE_ADDR_MASK_def)

definition tables_ok :: "image64 \<Rightarrow> bool" where
  "tables_ok k \<longleftrightarrow> take_bit 12 (phys (pml4 k)) = 0 \<and> unat (phys (pml4 k)) + 0x8000 \<le> 2 ^ 32"

lemma page_aligned: "take_bit 12 (a :: u64) = 0 \<longleftrightarrow> unat a mod 4096 = 0"
proof -
  have "unat (take_bit 12 a) = unat a mod 4096" by (simp add: unsigned_take_bit_eq take_bit_nat_def)
  then show ?thesis by (metis unat_0 unat_eq_zero)
qed

lemma frame_offset:
  assumes "tables_ok k" "j < 8"
  shows "frame_ok (phys (pml4 k + of_nat j * 0x1000))"
proof -
  let ?p = "phys (pml4 k)"
  have eq: "phys (pml4 k + of_nat j * 0x1000) = ?p + of_nat (j * 0x1000)" by (simp add: phys_def)
  have "unat (of_nat (j * 0x1000) :: u64) = j * 0x1000" using assms(2) unat_of_nat [of "j * 0x1000", where 'a = 64] by simp
  then have "unat (?p + of_nat (j * 0x1000)) = unat ?p + j * 0x1000"
    using assms by (subst unat_add_lem [THEN iffD1]) (simp_all add: tables_ok_def)
  then show ?thesis using assms by (auto simp: frame_ok_iff eq tables_ok_def page_aligned)
qed

lemma boot_reads:
  "boot_tables k t (pml4 k) = phys (pdpt k) OR 3"
  "boot_tables k t (pml4 k + 0xFF8) = phys (pdpt_hh k) OR 3"
  "boot_tables k t (pml4 k + 0x2FF0) = 0"
  using fill_at [of 1534 3584 "pml4 k" "\<lambda>i. 0" t]
  by (simp_all add: boot_tables_def Let_def pdpt_def pdpt_hh_def pd0_def pd_hh_def fill_other)

lemma boot_pdpt:
  assumes "j < 4"
  shows "boot_tables k t (pml4 k + 0x1000 + 8 * of_nat j) = phys (pml4 k + of_nat (3 + j) * 0x1000) OR 3"
proof -
  from assms consider "j = 0" | "j = 1" | "j = 2" | "j = 3" by linarith
  then show ?thesis
    by cases (simp_all add: boot_tables_def Let_def pdpt_def pdpt_hh_def pd0_def pd_hh_def fill_other, simp_all add: add.commute)
qed

lemma boot_pd:
  assumes "i < 2048"
  shows "boot_tables k t (pml4 k + 0x3000 + 8 * of_nat i) = pde i"
proof -
  have "fill_entries (pd_hh k) 512 pde u (pml4 k + 0x3000 + 8 * of_nat i) = u (pml4 k + 0x3000 + 8 * of_nat i)" for u
    using assms unat_entry [of i] by (intro fill_other) (simp_all add: pd_hh_def unat_sub_if')
  then show ?thesis using fill_at [of i 2048 "pd0 k" pde] assms by (simp add: boot_tables_def Let_def pd0_def)
qed

lemma pde_fields:
  assumes "i < 2048"
  shows "pde i AND PAGE_PRESENT \<noteq> 0" "pde i AND PAGE_LARGE \<noteq> 0" "pde i AND 0x000FFFFFFFE00000 = push_bit 21 (of_nat i)"
proof -
  let ?a = "push_bit 21 (of_nat i) :: u64" and ?f = "0x83 OR (if i = 0 then 0 else PAGE_NX) :: u64"
  have "?a = of_nat (i * 0x200000)" by (simp add: push_bit_eq_mult)
  moreover have "unat (of_nat (i * 0x200000) :: u64) = i * 0x200000"
    using assms unat_of_nat [of "i * 0x200000", where 'a = 64] by simp
  ultimately have u: "unat ?a < 2 ^ 52" using assms by simp
  have "take_bit 12 ?a = 0" by (intro bit_word_eqI) (simp add: bit_take_bit_iff bit_push_bit_iff)
  with u have fr: "frame_ok ?a" by (simp add: frame_ok_iff)
  have p: "pde i = ?a OR ?f" using pde_bits [OF assms] by (simp add: or.assoc)
  have f: "?f AND PTE_ADDR_MASK = 0" by (simp add: PAGE_NX_def PTE_ADDR_MASK_def)
  show "pde i AND PAGE_PRESENT \<noteq> 0" "pde i AND PAGE_LARGE \<noteq> 0"
    unfolding p entry_fields(2) [OF fr f flag_masks(1)] entry_fields(2) [OF fr f flag_masks(2)]
    by (simp_all add: PAGE_NX_def PAGE_PRESENT_def PAGE_LARGE_def)
  have m: "(0x000FFFFFFFE00000 :: u64) = PTE_ADDR_MASK AND NOT (mask 21)" by (simp add: PTE_ADDR_MASK_def mask_eq_exp_minus_1)
  have "pde i AND 0x000FFFFFFFE00000 = ?a AND NOT (mask 21)"
    unfolding m p and.assoc [symmetric] entry_fields(1) [OF fr f f] ..
  also have "\<dots> = ?a" by (intro bit_word_eqI) (auto simp: bit_and_iff bit_not_iff bit_mask_iff bit_push_bit_iff)
  finally show "pde i AND 0x000FFFFFFFE00000 = ?a" .
qed

lemma index_of: "drop_bit n va AND 0x1FF = of_nat (unat (va :: u64) div 2 ^ n mod 512)"
proof -
  have "(0x1FF :: u64) = mask 9" by (simp add: mask_eq_exp_minus_1)
  then have "drop_bit n va AND 0x1FF = take_bit 9 (drop_bit n va)" by (simp add: take_bit_eq_mask)
  also have "\<dots> = of_nat (unat (take_bit 9 (drop_bit n va)))" by simp
  also have "unat (take_bit 9 (drop_bit n va)) = unat va div 2 ^ n mod 512"
    using unsigned_less [of va, where 'a = nat] by (simp add: unsigned_take_bit_eq unsigned_drop_bit_eq take_bit_nat_def drop_bit_nat_def)
  finally show ?thesis .
qed

lemmas index_defs = pml4_index_def pdpt_index_def pd_index_def pt_index_def index_of

lemma ptr_phys: "virt_to_table_ptr (phys a) = a"
  by (simp add: virt_to_table_ptr_def phys_def)

lemma link_fields:
  assumes "tables_ok k" "j < 8"
  shows "(phys (pml4 k + of_nat j * 0x1000) OR 3) AND PAGE_PRESENT \<noteq> 0"
    "(phys (pml4 k + of_nat j * 0x1000) OR 3) AND PAGE_LARGE = 0"
    "virt_to_table_ptr ((phys (pml4 k + of_nat j * 0x1000) OR 3) AND PTE_ADDR_MASK) = pml4 k + of_nat j * 0x1000"
  using entry_fields [OF frame_offset [OF assms] flag_masks(5) flag_masks(1)]
    entry_fields [OF frame_offset [OF assms] flag_masks(5) flag_masks(2)]
  by (simp_all add: ptr_phys) (simp_all add: PAGE_PRESENT_def PAGE_LARGE_def)

lemma pdpt_offset: "pdpt k = pml4 k + of_nat 1 * 0x1000" "pdpt_hh k = pml4 k + of_nat 2 * 0x1000"
  by (simp_all add: pdpt_def pdpt_hh_def)

lemma identity_walk:
  assumes "tables_ok k" "unat va < 2 ^ 32"
  shows "paging_virt_to_phys k (boot_tables k t) va = va"
proof -
  define i where "i = unat va div 2 ^ 21"
  define j where "j = unat va div 2 ^ 30"
  have "j = i div 512" by (simp add: i_def j_def div_mult2_eq [symmetric])
  then have i: "i < 2048" "i = 512 * j + i mod 512" and j: "j < 4" using assms(2) by (simp_all add: i_def less_mult_imp_div_less)
  have idx: "pml4_index va = 0" "pdpt_index va = of_nat j" "pd_index va = of_nat (i mod 512)"
    using j assms(2) by (simp_all add: index_defs i_def j_def)
  have at: "entry_at (pml4 k + of_nat (3 + j) * 0x1000) (of_nat (i mod 512)) = pml4 k + 0x3000 + 8 * of_nat i"
  proof -
    have "(of_nat i :: u64) = of_nat (512 * j + i mod 512)" using i(2) by metis
    then show ?thesis by (simp add: algebra_simps)
  qed
  define q where "q = pml4 k + of_nat (3 + j) * 0x1000"
  have "3 + j < 8" using j by simp
  note q = link_fields [OF assms(1) this, folded q_def] boot_pdpt [OF j, of k t, folded q_def]
    boot_pd [OF i(1), of k t, folded at, folded q_def]
  have mask: "va AND 0x1FFFFF = take_bit 21 va" by (simp add: take_bit_eq_mask mask_eq_exp_minus_1)
  have whole: "push_bit 21 (of_nat i) OR take_bit 21 va = va"
  proof -
    have "of_nat i = drop_bit 21 va"
      by (simp add: i_def drop_bit_eq_div unsigned_drop_bit_eq word_arith_nat_div)
    then show ?thesis by (intro bit_word_eqI) (auto simp: bit_simps)
  qed
  have w: "virt_to_table_ptr ((phys (pdpt k) OR 3) AND PTE_ADDR_MASK) = pml4 k + 0x1000" "(phys (pdpt k) OR 3) AND PAGE_PRESENT \<noteq> 0"
    using link_fields [OF assms(1), of 1] by (simp_all add: pdpt_offset)
  show ?thesis
    unfolding paging_virt_to_phys_def Let_def idx
    using boot_reads(1) w q pde_fields [OF i(1)] mask whole by simp
qed

lemma higher_half_walk:
  assumes "tables_ok k" "unat x < 2 ^ 30"
  shows "paging_virt_to_phys k (boot_tables k t) (KERNEL_VMA + x) = 0"
proof -
  have "unat (KERNEL_VMA + x) = unat KERNEL_VMA + unat x"
    using assms(2) by (subst unat_add_lem [THEN iffD1]) (simp_all add: KERNEL_VMA_def)
  then have v: "unat (KERNEL_VMA + x) = 0xFFFFFFFF80000000 + unat x" by (simp add: KERNEL_VMA_def)
  have "(0xFFFFFFFF80000000 + unat x) div 2 ^ 39 = 33554431" "(0xFFFFFFFF80000000 + unat x) div 2 ^ 30 = 17179869182"
    using assms(2) by (auto intro!: div_nat_eqI)
  then have idx: "pml4_index (KERNEL_VMA + x) = 511" "pdpt_index (KERNEL_VMA + x) = 510" by (simp_all add: index_defs v)
  have w: "virt_to_table_ptr ((phys (pdpt_hh k) OR 3) AND PTE_ADDR_MASK) = pml4 k + 0x2000" "(phys (pdpt_hh k) OR 3) AND PAGE_PRESENT \<noteq> 0"
    using link_fields [OF assms(1), of 2] by (simp_all add: pdpt_offset)
  have "boot_tables k t (0x2FF0 + pml4 k) = 0" using boot_reads(3) [of k t] by (simp only: add.commute)
  then show ?thesis unfolding paging_virt_to_phys_def Let_def idx using boot_reads(2) w by simp
qed

section \<open>The kernel window\<close>

definition off :: "u64 \<Rightarrow> nat" where
  "off a = unat (a - KERNEL_VMA)"

definition page_addr :: "nat \<Rightarrow> u64" where
  "page_addr i = of_nat i * PAGE_SIZE_4K"

lemma unat_page: "i \<le> 512 \<Longrightarrow> unat (page_addr i) = i * 4096"
  using unat_of_nat [of "i * 4096", where 'a = 64] by (simp add: page_addr_def PAGE_SIZE_4K_def)

lemma frame_page: "i \<le> 512 \<Longrightarrow> frame_ok (page_addr i)"
  by (simp add: frame_ok_iff page_aligned unat_page)

lemma hh_address:
  assumes "unat x \<le> 0x200000"
  shows "unat (KERNEL_VMA + x) = unat KERNEL_VMA + unat x" "off (KERNEL_VMA + x) = unat x"
  using assms by (simp_all add: off_def unat_plus_simple [symmetric] KERNEL_VMA_def)
     (subst unat_add_lem [THEN iffD1], simp_all)

lemma off_page: "i \<le> 512 \<Longrightarrow> off (KERNEL_VMA + page_addr i) = i * 4096"
  by (simp add: hh_address(2) unat_page)

lemma off_less:
  assumes "KERNEL_VMA \<le> a" "KERNEL_VMA \<le> b"
  shows "a < b \<longleftrightarrow> off a < off b" "a \<le> b \<longleftrightarrow> off a \<le> off b"
  using assms by (simp_all add: off_def word_less_nat_alt word_le_nat_alt unat_sub) linarith+

lemma hh_ge: "unat x \<le> 0x200000 \<Longrightarrow> KERNEL_VMA \<le> KERNEL_VMA + x"
  by (simp add: word_le_nat_alt hh_address)

text \<open>A section inside the window.\<close>

definition section_ok :: "u64 \<Rightarrow> u64 \<Rightarrow> bool" where
  "section_ok a b \<longleftrightarrow> KERNEL_VMA \<le> a \<and> a \<le> b \<and> off b \<le> 0x200000"

definition covers :: "u64 \<Rightarrow> u64 \<Rightarrow> nat \<Rightarrow> bool" where
  "covers a b i \<longleftrightarrow> off a < i * 4096 + 4096 \<and> i * 4096 < off b"

lemma set_page_at:
  assumes "i < 512"
  shows "set_page k f (KERNEL_VMA + page_addr i) t = t(entry_at (pt_hh0 k) (of_nat i) := page_addr i OR f)"
proof -
  have d: "page_addr i div PAGE_SIZE_4K = of_nat i"
    using assms unat_page [of i] by (simp add: word_arith_nat_div PAGE_SIZE_4K_def)
  have u: "unat (ucast (of_nat i :: u64) :: u32) = i"
    using assms by (simp add: unsigned_of_nat unsigned_ucast_eq take_bit_nat_eq_self)
  then have "ucast (ucast (of_nat i :: u64) :: u32) = (of_nat i :: u64)" by (metis of_nat_unat)
  moreover have "(ucast (of_nat i :: u64) :: u32) < 512" using assms u by (simp add: word_less_nat_alt)
  ultimately show ?thesis using frame_page [of i] assms by (simp add: set_page_def Let_def d frame_ok_def)
qed

lemma set_section_run:
  assumes "KERNEL_VMA \<le> fin" "off fin \<le> 0x200000" "i \<le> 512"
  shows "\<exists>t'. set_section k f fin (KERNEL_VMA + page_addr i) t = Some t'
    \<and> (\<forall>j < 512. t' (entry_at (pt_hh0 k) (of_nat j)) =
         (if i \<le> j \<and> j * 4096 < off fin then page_addr j OR f else t (entry_at (pt_hh0 k) (of_nat j))))
    \<and> (\<forall>a. 4096 \<le> unat (a - pt_hh0 k) \<longrightarrow> t' a = t a)"
  using assms(3)
proof (induction "512 - i" arbitrary: i t rule: less_induct)
  case less
  have cond: "KERNEL_VMA + page_addr i < fin \<longleftrightarrow> i * 4096 < off fin"
    using less.prems assms(1) off_less(1) [of "KERNEL_VMA + page_addr i" fin] by (simp add: off_page hh_ge unat_page)
  show ?case
  proof (cases "i * 4096 < off fin")
    case False
    then show ?thesis using cond by (subst set_section.simps) auto
  next
    case True
    then have i: "i < 512" using assms(2) by simp
    let ?t = "set_page k f (KERNEL_VMA + page_addr i) t"
    have next_page: "KERNEL_VMA + page_addr i + PAGE_SIZE_4K = KERNEL_VMA + page_addr (Suc i)"
      by (simp add: page_addr_def algebra_simps)
    have "512 - Suc i < 512 - i" using i by linarith
    from less.hyps [OF this, of ?t] i obtain t' where t': "set_section k f fin (KERNEL_VMA + page_addr (Suc i)) ?t = Some t'"
      "\<forall>j < 512. t' (entry_at (pt_hh0 k) (of_nat j)) =
         (if Suc i \<le> j \<and> j * 4096 < off fin then page_addr j OR f else ?t (entry_at (pt_hh0 k) (of_nat j)))"
      "\<forall>a. 4096 \<le> unat (a - pt_hh0 k) \<longrightarrow> t' a = ?t a"
      by auto
    have "?t (entry_at (pt_hh0 k) (of_nat j)) = (if j = i then page_addr i OR f else t (entry_at (pt_hh0 k) (of_nat j)))"
      if "j < 512" for j
      using entry_inj [of j i "pt_hh0 k"] that i by (auto simp: set_page_at)
    moreover have "?t a = t a" if "4096 \<le> unat (a - pt_hh0 k)" for a
      using that i unat_entry [of i] by (auto simp: set_page_at)
    moreover have "set_section k f fin (KERNEL_VMA + page_addr i) t = Some t'"
      using True cond t'(1) by (subst set_section.simps) (simp add: next_page)
    ultimately show ?thesis using t'(2,3) True by (intro exI [of _ t']) (auto simp: not_less_eq_eq le_antisym)
  qed
qed

lemma page_of_section:
  assumes "KERNEL_VMA \<le> a"
  shows "page_of a = KERNEL_VMA + page_addr (off a div 4096)"
proof -
  have "page_of a = a AND NOT (mask 12)" by (simp add: page_of_def PAGE_SIZE_4K_def mask_eq_exp_minus_1)
  also have "\<dots> = push_bit 12 (drop_bit 12 a)" by (intro bit_word_eqI) (auto simp: bit_simps)
  also have "drop_bit 12 a = of_nat (unat a div 4096)" by (simp add: drop_bit_eq_div word_arith_nat_div)
  also have "unat a = 0xFFFFFFFF80000000 + off a" using assms by (simp add: off_def unat_sub word_le_nat_alt KERNEL_VMA_def)
  also have "(0xFFFFFFFF80000000 + off a) div 4096 = 0xFFFFFFFF80000 + off a div 4096" by simp
  finally show ?thesis by (simp add: push_bit_eq_mult page_addr_def PAGE_SIZE_4K_def KERNEL_VMA_def algebra_simps)
qed

definition pte :: "image64 \<Rightarrow> tables \<Rightarrow> nat \<Rightarrow> u64" where
  "pte k t i = t (entry_at (pt_hh0 k) (of_nat i))"

text \<open>A section loop sets the pages that meet the section and nothing else.\<close>

lemma set_section_covers:
  assumes "section_ok a b"
  shows "\<exists>t'. set_section k f b (page_of a) t = Some t'
    \<and> (\<forall>j < 512. pte k t' j = (if covers a b j then page_addr j OR f else pte k t j))
    \<and> (\<forall>p. 4096 \<le> unat (p - pt_hh0 k) \<longrightarrow> t' p = t p)"
proof -
  have ab: "KERNEL_VMA \<le> a" "KERNEL_VMA \<le> b" "off b \<le> 0x200000" "off a \<le> off b"
    using assms off_less(2) [of a b] by (auto simp: section_ok_def)
  have le: "off a div 4096 \<le> 512" using ab(3,4) by simp
  have "off a div 4096 \<le> j \<longleftrightarrow> off a < j * 4096 + 4096" for j
    by (metis add.commute div_less_iff_less_mult less_Suc_eq_le mult_Suc zero_less_numeral)
  then show ?thesis
    using set_section_run [OF ab(2,3) le, of k f t] by (simp only: page_of_section [OF ab(1)] covers_def pte_def)
qed

definition page_flags :: "image64 \<Rightarrow> nat \<Rightarrow> u64" where
  "page_flags k j =
     (if covers (data_start k) (bss_end k) j then PAGE_PRESENT OR PAGE_WRITE OR PAGE_NX
      else if covers (rodata_start k) (rodata_end k) j then PAGE_PRESENT OR PAGE_NX
      else if covers (text_start k) (text_end k) j then PAGE_PRESENT
      else PAGE_PRESENT OR PAGE_WRITE OR PAGE_NX)"

lemma in_range_covers:
  assumes "section_ok a b" "j < 512" "in_range (KERNEL_VMA + page_addr j) a b"
  shows "covers a b j"
proof -
  have "KERNEL_VMA \<le> a" "KERNEL_VMA \<le> b" using assms(1) by (auto simp: section_ok_def)
  then show ?thesis using assms(2,3) off_less [of a "KERNEL_VMA + page_addr j"] off_less [of "KERNEL_VMA + page_addr j" b]
    by (simp add: in_range_def covers_def hh_ge unat_page off_page)
qed

lemma hh_entry_plain:
  assumes "section_ok (text_start k) (text_end k)" "section_ok (rodata_start k) (rodata_end k)" "j < 512"
    "\<not> covers (text_start k) (text_end k) j" "\<not> covers (rodata_start k) (rodata_end k) j"
  shows "hh_entry k True j = page_addr j OR (PAGE_PRESENT OR PAGE_WRITE OR PAGE_NX)"
proof -
  have "flags_for_va k (KERNEL_VMA + page_addr j) True = PAGE_PRESENT OR PAGE_WRITE OR PAGE_NX"
    using in_range_covers assms by (auto simp: flags_for_va_def nx_flag_def)
  then show ?thesis using frame_page [of j] assms(3)
    by (simp add: hh_entry_def Let_def page_addr_def [symmetric] frame_ok_def nx_flag_def)
qed

definition image_ok :: "image64 \<Rightarrow> bool" where
  "image_ok k \<longleftrightarrow> section_ok (text_start k) (text_end k) \<and> section_ok (rodata_start k) (rodata_end k)
     \<and> section_ok (data_start k) (bss_end k) \<and> tables_ok k \<and> frame_ok (phys (pt_hh0 k))
     \<and> 0x8000 \<le> unat (pt_hh0 k - pml4 k) \<and> 0x1000 \<le> unat (pml4 k - pt_hh0 k)"

text \<open>The tables above the directory of the window lead to it.\<close>

definition window_linked :: "image64 \<Rightarrow> tables \<Rightarrow> bool" where
  "window_linked k t \<longleftrightarrow>
     (let e = t (entry_at (pml4 k) 511) in e AND PAGE_PRESENT \<noteq> 0 \<and> virt_to_table_ptr (e AND PTE_ADDR_MASK) = pdpt_hh k)
     \<and> (let e = t (entry_at (pdpt_hh k) 510) in
          e AND PAGE_PRESENT \<noteq> 0 \<and> e AND PAGE_LARGE = 0 \<and> virt_to_table_ptr (e AND PTE_ADDR_MASK) = pd_hh k)"

lemma boot_table_apart:
  assumes "image_ok k" "unat d < 0x8000"
  shows "4096 \<le> unat (pml4 k + d - pt_hh0 k)"
proof -
  let ?u = "pml4 k - pt_hh0 k"
  have u: "0x1000 \<le> unat ?u" "0x8000 \<le> unat (pt_hh0 k - pml4 k)" using assms(1) by (simp_all add: image_ok_def)
  then have "unat ?u + 0x8000 \<le> 2 ^ 64"
    using unat_sub_if' [of "pml4 k" "pt_hh0 k"] unat_sub_if' [of "pt_hh0 k" "pml4 k"] by (auto simp: word_le_nat_alt split: if_splits)
  then have "unat (?u + d) = unat ?u + unat d" using assms(2) by (subst unat_add_lem [THEN iffD1]) simp_all
  moreover have "pml4 k + d - pt_hh0 k = ?u + d" by simp
  ultimately show ?thesis using u(1) by (simp only:)
qed

lemma page_flags_fields:
  "page_flags k j AND PTE_ADDR_MASK = 0" "page_flags k j AND PAGE_PRESENT \<noteq> 0"
  "page_flags k j AND PAGE_WRITE = 0 \<or> page_flags k j AND PAGE_NX \<noteq> 0"
  by (auto simp: page_flags_def PAGE_PRESENT_def PAGE_WRITE_def PAGE_NX_def PTE_ADDR_MASK_def)

lemma window_walk:
  assumes "image_ok k" "window_linked k t" "t (pd_hh k) = phys (pt_hh0 k) OR 3" "unat x < 0x200000"
    and e: "\<forall>j < 512. pte k t j = page_addr j OR page_flags k j"
  shows "paging_virt_to_phys k t (KERNEL_VMA + x) = x"
proof -
  define j where "j = unat x div 4096"
  have j: "j < 512" using assms(4) by (simp add: j_def less_mult_imp_div_less)
  have v: "unat (KERNEL_VMA + x) = 0xFFFFFFFF80000000 + unat x" using assms(4) hh_address(1) [of x] by (simp add: KERNEL_VMA_def)
  have "(0xFFFFFFFF80000000 + unat x) div 2 ^ 39 = 33554431" "(0xFFFFFFFF80000000 + unat x) div 2 ^ 30 = 17179869182"
    "(0xFFFFFFFF80000000 + unat x) div 2 ^ 21 = 8796093021184"
    using assms(4) by (auto intro!: div_nat_eqI)
  moreover have "(0xFFFFFFFF80000000 + unat x) div 2 ^ 12 = 0xFFFFFFFF80000 + j" by (simp add: j_def)
  moreover have "(0xFFFFFFFF80000 + j) mod 512 = j" using mod_mult_self4 [of 512 "0x7FFFFFFFC00" j] j by simp
  ultimately have idx: "pml4_index (KERNEL_VMA + x) = 511" "pdpt_index (KERNEL_VMA + x) = 510" "pd_index (KERNEL_VMA + x) = 0"
    "pt_index (KERNEL_VMA + x) = of_nat j"
    by (simp_all add: index_defs v)
  have p: "t (entry_at (pt_hh0 k) (of_nat j)) = page_addr j OR page_flags k j" using e j by (simp add: pte_def)
  have pt: "(phys (pt_hh0 k) OR 3) AND PAGE_PRESENT \<noteq> 0" "(phys (pt_hh0 k) OR 3) AND PAGE_LARGE = 0"
    "virt_to_table_ptr ((phys (pt_hh0 k) OR 3) AND PTE_ADDR_MASK) = pt_hh0 k"
    using entry_fields [of "phys (pt_hh0 k)" 3 PAGE_PRESENT] entry_fields [of "phys (pt_hh0 k)" 3 PAGE_LARGE] assms(1) flag_masks
    by (simp_all add: image_ok_def ptr_phys) (simp_all add: PAGE_PRESENT_def PAGE_LARGE_def)
  have fields: "(page_addr j OR page_flags k j) AND PAGE_PRESENT \<noteq> 0" "(page_addr j OR page_flags k j) AND PTE_ADDR_MASK = page_addr j"
    using entry_fields [OF frame_page page_flags_fields(1) flag_masks(1), of j] page_flags_fields(2) j by simp_all
  have "page_addr j OR ((KERNEL_VMA + x) AND 0xFFF) = x"
  proof -
    have "unat (take_bit 12 (KERNEL_VMA + x)) = unat (take_bit 12 x)" 
      using mod_mult_self4 [of 4096 "0xFFFFFFFF80000" "unat x"] by (simp add: unsigned_take_bit_eq take_bit_nat_def v)
    then have "take_bit 12 (KERNEL_VMA + x) = take_bit 12 x" by (rule unsigned_word_eqI)
    then have "(KERNEL_VMA + x) AND 0xFFF = take_bit 12 x" by (simp add: take_bit_eq_mask mask_eq_exp_minus_1)
    moreover have "page_addr j = push_bit 12 (drop_bit 12 x)"
      by (simp add: page_addr_def j_def PAGE_SIZE_4K_def push_bit_eq_mult drop_bit_eq_div word_arith_nat_div)
    moreover have "push_bit 12 (drop_bit 12 x) OR take_bit 12 x = x" by (intro bit_word_eqI) (auto simp: bit_simps)
    ultimately show ?thesis by simp
  qed
  then show ?thesis
    unfolding paging_virt_to_phys_def Let_def idx
    using assms(2,3) p pt fields by (simp add: window_linked_def Let_def)
qed

lemma apply_entries:
  assumes ok: "image_ok k" and nx: "paging_nx_available c" "g_nx_enabled c \<noteq> 0"
  shows "\<exists>s'. paging_apply_w_xor_x k c s = Some s' \<and> cr3 s' = phys (pml4 k)
    \<and> (\<forall>j < 512. pte k (ptab s') j = page_addr j OR page_flags k j) \<and> ptab s' (pd_hh k) = phys (pt_hh0 k) OR 3
    \<and> (\<forall>p. p \<noteq> pd_hh k \<and> 4096 \<le> unat (p - pt_hh0 k) \<longrightarrow> ptab s' p = ptab s p)"
proof -
  let ?t0 = "fill_entries (pt_hh0 k) 512 (hh_entry k True) (ptab s)"
  have sec: "section_ok (text_start k) (text_end k)" "section_ok (rodata_start k) (rodata_end k)" "section_ok (data_start k) (bss_end k)"
    using ok by (simp_all add: image_ok_def)
  note cover = set_section_covers [of _ _ k]
  obtain t1 where t1: "set_section k PAGE_PRESENT (text_end k) (page_of (text_start k)) ?t0 = Some t1"
    "\<forall>j < 512. pte k t1 j = (if covers (text_start k) (text_end k) j then page_addr j OR PAGE_PRESENT else pte k ?t0 j)"
    "\<forall>p. 4096 \<le> unat (p - pt_hh0 k) \<longrightarrow> t1 p = ?t0 p" using cover [OF sec(1)] by blast
  obtain t2 where t2: "set_section k (PAGE_PRESENT OR PAGE_NX) (rodata_end k) (page_of (rodata_start k)) t1 = Some t2"
    "\<forall>j < 512. pte k t2 j = (if covers (rodata_start k) (rodata_end k) j then page_addr j OR (PAGE_PRESENT OR PAGE_NX) else pte k t1 j)"
    "\<forall>p. 4096 \<le> unat (p - pt_hh0 k) \<longrightarrow> t2 p = t1 p" using cover [OF sec(2)] by blast
  obtain t3 where t3: "set_section k (PAGE_PRESENT OR PAGE_WRITE OR PAGE_NX) (bss_end k) (page_of (data_start k)) t2 = Some t3"
    "\<forall>j < 512. pte k t3 j = (if covers (data_start k) (bss_end k) j then page_addr j OR (PAGE_PRESENT OR PAGE_WRITE OR PAGE_NX) else pte k t2 j)"
    "\<forall>p. 4096 \<le> unat (p - pt_hh0 k) \<longrightarrow> t3 p = t2 p" using cover [OF sec(3)] by blast
  have t0: "pte k ?t0 j = hh_entry k True j" if "j < 512" for j using fill_at [of j 512] that by (simp add: pte_def)
  have t0': "4096 \<le> unat (p - pt_hh0 k) \<longrightarrow> ?t0 p = ptab s p" for p by (simp add: fill_other)
  have e: "pte k t3 j = page_addr j OR page_flags k j" if "j < 512" for j
    using t1(2) t2(2) t3(2) t0 [OF that] hh_entry_plain [OF sec(1,2) that] that by (simp add: page_flags_def)
  have apart: "4096 \<le> unat (pd_hh k - pt_hh0 k)" using boot_table_apart [OF ok, of "0x7000"] by (simp add: pd_hh_def)
  have keep: "pte k (t3(pd_hh k := v)) j = pte k t3 j" if "j < 512" for v j
  proof -
    have "pd_hh k - pt_hh0 k = 8 * of_nat j \<Longrightarrow> False" using apart that unat_entry [of j] by simp
    then have "entry_at (pt_hh0 k) (of_nat j) \<noteq> pd_hh k" by (metis add_diff_cancel_left')
    then show ?thesis by (simp add: pte_def)
  qed
  have ptr: "(phys (pt_hh0 k) AND PTE_ADDR_MASK) OR PAGE_PRESENT OR PAGE_WRITE = phys (pt_hh0 k) OR 3"
    using ok by (simp add: image_ok_def frame_ok_def PAGE_PRESENT_def PAGE_WRITE_def or.assoc)
  have "paging_apply_w_xor_x k c s = Some (s\<lparr>ptab := t3(pd_hh k := phys (pt_hh0 k) OR 3), cr3 := phys (pml4 k)\<rparr>)"
    using t1(1) t2(1) t3(1) nx ptr by (simp add: paging_apply_w_xor_x_def Let_def nx_flag_def paging_load_cr3_def phys_def)
  then show ?thesis using e keep t0' t1(3) t2(3) t3(3) by simp
qed


text \<open>C26. The tables the boot code builds map the first four gigabytes to themselves, but the higher half is not mapped:
  the directory of the window hangs in entry 0 of its table, while the addresses from \<open>KERNEL_VMA\<close> on select
  entry 510, so that \<open>paging_virt_to_phys\<close> finds nothing there.\<close>

theorem boot_tables_map:
  assumes "tables_ok k"
  shows "(unat va < 2 ^ 32 \<longrightarrow> paging_virt_to_phys k (boot_tables k t) va = va)
    \<and> (unat x < 2 ^ 30 \<longrightarrow> paging_virt_to_phys k (boot_tables k t) (KERNEL_VMA + x) = 0)"
  using identity_walk [OF assms] higher_half_walk [OF assms] by blast

definition demo_image :: image64 where
  "demo_image = \<lparr>pml4 = KERNEL_VMA + 0x110000, pt_hh0 = KERNEL_VMA + 0x120000,
     text_start = KERNEL_VMA + 0x100018, text_end = KERNEL_VMA + 0x102500, rodata_start = KERNEL_VMA + 0x102500,
     rodata_end = KERNEL_VMA + 0x103800, data_start = KERNEL_VMA + 0x104000, bss_end = KERNEL_VMA + 0x130000,
     kernel_virtual_start = KERNEL_VMA + 0x100000, kernel_virtual_end = KERNEL_VMA + 0x130000,
     kernel_physical_start = 0x100000\<rparr>"

lemma demo_image_ok: "image_ok demo_image" "tables_ok demo_image"
  by (simp_all add: image_ok_def tables_ok_def section_ok_def demo_image_def off_def phys_def frame_ok_def KERNEL_VMA_def PTE_ADDR_MASK_def)


theorem boot_tables_map_witness:
  "paging_virt_to_phys demo_image (boot_tables demo_image (\<lambda>a. 0)) 0xB8000 = 0xB8000
   \<and> paging_virt_to_phys demo_image (boot_tables demo_image (\<lambda>a. 0)) (KERNEL_VMA + 0x100000) = 0"
  using boot_tables_map [OF demo_image_ok(2), of "0xB8000" "\<lambda>a. 0" "0x100000"] by simp

end
