(* ===== verification/Kernel64.thy ===== *)
theory Kernel64
  imports Paging64
begin

text \<open>
  The entry of the 64-bit kernel (\<open>src/src64/kernel64.c\<close>) and the printing of \<open>src/src64/paging64.c\<close>. Both files keep
  a cursor of their own on the same text screen, whose cells are numbered row by row. The boot information is read at
  the addresses the loader gives.
\<close>

section \<open>Definitions\<close>

record kernel64 =
  pg :: paging
  vga :: "nat \<Rightarrow> u16"
  row :: nat
  col :: nat
  prow :: nat
  pcol :: nat

abbreviation LF :: char where "LF \<equiv> CHR 0x0A"

definition hex_digits :: string where "hex_digits = ''0123456789ABCDEF''"

text \<open>The digits of a 64-bit value, from bits 60 to 63 down to bits 0 to 3.\<close>

definition hex64 :: "u64 \<Rightarrow> string" where
  "hex64 v = map (\<lambda>k. hex_digits ! unat (drop_bit (60 - 4 * k) v AND 0xF)) [0..<16]"

definition cell :: "u16 \<Rightarrow> char \<Rightarrow> u16" where
  "cell colour c = colour OR of_nat (of_char c)"

subsection \<open>\<open>paging64.c\<close>\<close>

definition pputc :: "char \<Rightarrow> kernel64 \<Rightarrow> kernel64" where
  "pputc c s =
     (if c = LF then s\<lparr>pcol := 0, prow := (if prow s + 1 \<ge> 25 then 14 else prow s + 1)\<rparr>
      else if prow s < 25 \<and> pcol s < 80
      then s\<lparr>vga := (vga s)(prow s * 80 + pcol s := cell 0x0E00 c), pcol := pcol s + 1\<rparr>
      else s)"

definition pputs :: "string \<Rightarrow> kernel64 \<Rightarrow> kernel64" where
  "pputs str = fold pputc str"

definition phex :: "u64 \<Rightarrow> kernel64 \<Rightarrow> kernel64" where
  "phex v s = fold pputc (hex64 v) (pputs ''0x'' s)"

definition flag64 :: "bool \<Rightarrow> u64" where
  "flag64 b = (if b then 1 else 0)"

definition dump_entry :: "image64 \<Rightarrow> nat \<Rightarrow> kernel64 \<Rightarrow> kernel64" where
  "dump_entry k i s =
     (let e = ptab (pg s) (entry_at (pml4 k) (of_nat i)) in
      if e AND PAGE_PRESENT = 0 then s
      else
        let s = phex (e AND PTE_ADDR_MASK) (pputs '']->'' (phex (of_nat i) (pputs '' ['' s)));
            s = (if i = 0 then pputs '' id'' s else s);
            s = (if i = 511 then pputs '' HH'' s else s)
        in pputc LF s)"

definition dump_pte :: "string \<Rightarrow> u64 \<Rightarrow> kernel64 \<Rightarrow> kernel64" where
  "dump_pte name e s =
     (let s = phex (flag64 (paging_pte_is_nx e)) (pputs (name @ '' PTE NX='') s)
      in pputc LF (phex (flag64 (e AND PAGE_WRITE \<noteq> 0)) (pputs '' W='' s)))"

definition paging_dump_pml4 :: "image64 \<Rightarrow> cpu64 \<Rightarrow> kernel64 \<Rightarrow> kernel64" where
  "paging_dump_pml4 k c s =
     (let s = pputs (''PML4 present:'' @ [LF]) s;
          s = fold (dump_entry k) [0..<512] s;
          efer = paging_read_efer c;
          s = phex efer (pputs ''EFER='' s);
          s = phex (flag64 (efer AND EFER_NXE \<noteq> 0)) (pputs '' NXE='' s);
          s = phex (flag64 (efer AND EFER_LME \<noteq> 0)) (pputs '' LME='' s);
          s = pputc LF s;
          s = phex (flag64 (paging_nx_available c)) (pputs ''CPUID.NX='' s);
          s = phex (ucast (g_nx_enabled c)) (pputs '' g_nx='' s);
          s = pputc LF s;
          ti = (ucast ((text_start k - KERNEL_VMA) div PAGE_SIZE_4K) :: u32);
          di = (ucast ((data_start k - KERNEL_VMA) div PAGE_SIZE_4K) :: u32)
      in if ti < 512 \<and> di < 512
         then dump_pte ''data'' (pte k (ptab (pg s)) (unat di)) (dump_pte ''text'' (pte k (ptab (pg s)) (unat ti)) s)
         else s)"

subsection \<open>\<open>kernel64.c\<close>\<close>

definition clear :: "kernel64 \<Rightarrow> kernel64" where
  "clear s = s\<lparr>vga := fold (\<lambda>i v. v(i := cell 0x0F00 (CHR '' ''))) [0..<80 * 25] (vga s), row := 0, col := 0\<rparr>"

definition next_row :: "kernel64 \<Rightarrow> kernel64" where
  "next_row s = s\<lparr>col := 0, row := (if row s + 1 \<ge> 25 then 0 else row s + 1)\<rparr>"

definition putc :: "char \<Rightarrow> kernel64 \<Rightarrow> kernel64" where
  "putc c s =
     (if c = LF then next_row s
      else
        let s = s\<lparr>vga := (vga s)(row s * 80 + col s := cell 0x0F00 c), col := col s + 1\<rparr>
        in if col s \<ge> 80 then next_row s else s)"

definition puts :: "string \<Rightarrow> kernel64 \<Rightarrow> kernel64" where
  "puts str = fold putc str"

definition put_hex64 :: "u64 \<Rightarrow> kernel64 \<Rightarrow> kernel64" where
  "put_hex64 v s = fold putc (hex64 v) (puts ''0x'' s)"

definition put_field :: "string \<Rightarrow> u64 \<Rightarrow> kernel64 \<Rightarrow> kernel64" where
  "put_field name v s = putc LF (put_hex64 v (puts name s))"

text \<open>The walk over the tags of the boot information: at most \<open>32 - n\<close> of them.\<close>

function walk_tags :: "(u64 \<Rightarrow> u32) \<Rightarrow> u64 \<Rightarrow> nat \<Rightarrow> kernel64 \<Rightarrow> kernel64" where
  "walk_tags rd tag n s =
     (if rd tag \<noteq> 0 \<and> n < 32 then
        let s = put_hex64 (ucast (rd tag)) (puts ''  tag type='' s);
            s = put_field '' size='' (ucast (rd (tag + 4))) s;
            sz = (rd (tag + 4) + 7) AND NOT 7
        in if sz < 8 then s else walk_tags rd (tag + ucast sz) (Suc n) s
      else s)"
  by pat_completeness auto
termination
  by (relation "measure (\<lambda>(rd, tag, n, s). 32 - n)") auto

declare walk_tags.simps [simp del]

definition put_info :: "(u64 \<Rightarrow> u32) \<Rightarrow> u32 \<Rightarrow> kernel64 \<Rightarrow> kernel64" where
  "put_info rd info s =
     (if info \<noteq> 0 then walk_tags rd (ucast info + 8) 0 (put_field ''Info size '' (ucast (rd (ucast info))) s) else s)"

text \<open>The state in which the kernel halts.\<close>

definition kernel_main64 :: "image64 \<Rightarrow> cpu64 \<Rightarrow> (u64 \<Rightarrow> u32) \<Rightarrow> u32 \<Rightarrow> u32 \<Rightarrow> kernel64 \<Rightarrow> kernel64 option" where
  "kernel_main64 k c rd magic info s =
     (let s = puts (''MyKernel x86_64 / Multiboot2'' @ [LF]) (clear s) in
      if magic \<noteq> 0x36d76289
      then Some (put_field ''EAX was: '' (ucast magic) (puts (''BAD MAGIC (not Multiboot2)'' @ [LF]) s))
      else
        let s = puts (''Multiboot2 magic OK'' @ [LF]) s;
            s = put_field ''Higher-half VMA start '' (kernel_virtual_start k) s;
            s = put_field ''Phys load start      '' (kernel_physical_start k) s;
            s = put_field ''Info @ '' (ucast info) s;
            s = put_info rd info s
        in do {
          p \<leftarrow> paging_apply_w_xor_x k c (pg s);
          let s = paging_dump_pml4 k c (s\<lparr>pg := p\<rparr>) in
          Some (puts (''Build: make kernel64 && qemu-system-x86_64 -kernel build64/mykernel64.bin'' @ [LF])
            (puts ([LF] @ ''Long mode + PML4 OK. 32-bit tree: make'' @ [LF]) s))
        })"

section \<open>The screen\<close>

text \<open>Both cursors stay on the screen, and printing changes nothing but cells of it.\<close>

definition cursors_ok :: "kernel64 \<Rightarrow> bool" where
  "cursors_ok s \<longleftrightarrow> row s < 25 \<and> col s < 80 \<and> prow s < 25 \<and> pcol s \<le> 80"

definition prints :: "(kernel64 \<Rightarrow> kernel64) \<Rightarrow> bool" where
  "prints f \<longleftrightarrow> (\<forall>s. cursors_ok s \<longrightarrow> cursors_ok (f s) \<and> pg (f s) = pg s \<and> (\<forall>i \<ge> 2000. vga (f s) i = vga s i))"

named_theorems print_simps "what the printing operations keep"

lemma printsD:
  "prints f \<Longrightarrow> cursors_ok s \<Longrightarrow> cursors_ok (f s)" "prints f \<Longrightarrow> cursors_ok s \<Longrightarrow> pg (f s) = pg s"
  "prints f \<Longrightarrow> cursors_ok s \<Longrightarrow> 2000 \<le> i \<Longrightarrow> vga (f s) i = vga s i"
  by (simp_all add: prints_def)

lemma prints_fold:
  assumes "\<And>x. prints (f x)"
  shows "prints (fold f xs)"
proof (induction xs)
  case (Cons x xs)
  then show ?case using assms [of x] by (simp add: prints_def)
qed (simp add: prints_def)

lemma prints_pputc: "prints (pputc c)"
  by (auto simp: prints_def pputc_def cursors_ok_def)

lemma prints_putc: "prints (putc c)"
  by (auto simp: prints_def putc_def cursors_ok_def Let_def next_row_def)

lemma prints_clear: "prints clear"
  using fold_fill [of 0 "cell 0x0F00 (CHR '' '')" 2000] by (simp add: prints_def clear_def cursors_ok_def)

lemma prints_strings: "prints (pputs str)" "prints (puts str)" "prints (fold pputc str)" "prints (fold putc str)"
  by (simp_all add: pputs_def puts_def prints_fold prints_pputc prints_putc)

lemmas [print_simps] = printsD [OF prints_pputc] printsD [OF prints_putc] printsD [OF prints_clear]
  printsD [OF prints_strings(1)] printsD [OF prints_strings(2)] printsD [OF prints_strings(3)] printsD [OF prints_strings(4)]

lemma prints_hex: "prints (phex v)" "prints (put_hex64 v)"
  by (simp_all add: prints_def phex_def put_hex64_def print_simps)

lemmas [print_simps] = printsD [OF prints_hex(1)] printsD [OF prints_hex(2)]

lemma prints_lines: "prints (put_field name v)" "prints (dump_pte name e)" "prints (dump_entry k i)"
  by (simp_all add: prints_def put_field_def dump_pte_def dump_entry_def Let_def print_simps)

lemmas [print_simps] = printsD [OF prints_lines(1)] printsD [OF prints_lines(2)] printsD [OF prints_lines(3)]
  printsD [OF prints_fold [OF prints_lines(3)]]

lemma prints_dump: "prints (paging_dump_pml4 k c)"
  by (simp add: prints_def paging_dump_pml4_def Let_def print_simps)

lemma prints_tags: "prints (walk_tags rd tag n)"
proof (induction "32 - n" arbitrary: tag n)
  case (Suc d)
  have "prints (walk_tags rd tag' (Suc n))" for tag' using Suc by simp
  then show ?case
    by (subst prints_def, subst (1 2 3) walk_tags.simps) (simp add: Let_def print_simps printsD [where f = "walk_tags _ _ _"])
qed (simp add: prints_def walk_tags.simps)

lemma prints_info: "prints (put_info rd info)"
  by (simp add: prints_def put_info_def print_simps printsD [OF prints_tags])

lemmas [print_simps] = printsD [OF prints_info] printsD [OF prints_dump]

lemma apply_returns:
  assumes "image_ok k"
  shows "\<exists>p. paging_apply_w_xor_x k c s = Some p"
proof -
  have sec: "section_ok (text_start k) (text_end k)" "section_ok (rodata_start k) (rodata_end k)" "section_ok (data_start k) (bss_end k)"
    using assms by (simp_all add: image_ok_def)
  have "\<exists>t'. set_section k f b (page_of a) t = Some t'" if "section_ok a b" for f a b t
    using set_section_covers [OF that] by blast
  from this [OF sec(1)] this [OF sec(2)] this [OF sec(3)] show ?thesis
    unfolding paging_apply_w_xor_x_def Let_def by (auto simp: bind_eq_Some_conv) blast
qed

text \<open>Whatever the boot information holds, the 64-bit kernel reaches its halt: the walk over the tags ends and the page
  tables are set, both cursors stay on the screen and no memory outside its 80 by 25 cells is printed to.\<close>

theorem kernel_main64_halts:
  assumes "image_ok k" "cursors_ok s"
  shows "\<exists>s'. kernel_main64 k c rd magic info s = Some s' \<and> cursors_ok s' \<and> (\<forall>i \<ge> 2000. vga s' i = vga s i)
    \<and> (if magic = 0x36d76289 then paging_apply_w_xor_x k c (pg s) = Some (pg s') else pg s' = pg s)"
proof -
  obtain p where p: "paging_apply_w_xor_x k c (pg s) = Some p" using apply_returns [OF assms(1)] by blast
  have pg: "cursors_ok (s\<lparr>pg := p\<rparr>) = cursors_ok s" for s p by (simp add: cursors_ok_def)
  show ?thesis
    using assms(2) p by (simp add: kernel_main64_def Let_def print_simps pg)
qed

definition demo_kernel64 :: kernel64 where
  "demo_kernel64 = \<lparr>pg = \<lparr>ptab = (\<lambda>a. 0), cr3 = 0x110000\<rparr>, vga = (\<lambda>i. 0), row = 0, col = 0, prow = 18, pcol = 0\<rparr>"

theorem kernel_main64_halts_witness:
  "\<exists>s'. kernel_main64 demo_image \<lparr>cpuid_edx = 0, efer_lo = 0x500, efer_hi = 0, g_nx_enabled = 0\<rparr> (\<lambda>a. if a = 0x9508 then 1 else 64)
     0x36d76289 0x9500 demo_kernel64 = Some s' \<and> cursors_ok s' \<and> vga s' 2000 = 0"
proof -
  have "cursors_ok demo_kernel64" by (simp add: cursors_ok_def demo_kernel64_def)
  from kernel_main64_halts [OF demo_image_ok(1) this] show ?thesis by (fastforce simp: demo_kernel64_def)
qed

end
