(* ===== verification/Sound.thy ===== *)
theory Sound
  imports Timer
begin

text \<open>
  The PC speaker (\<open>src/src/sound.c\<close>) on channel 2 of the PIT: the bytes written to the PIT are kept in order, and port 0x61 holds
  the gate of the channel and of the speaker. As in the timer, the successive values of the tick counter are an argument
  of the waiting loop. The property: a beep programs the clamped frequency and leaves the speaker silent.
\<close>

section \<open>Definitions\<close>

definition PIT_CH2 :: u16 where "PIT_CH2 = 0x42"

record speaker =
  pit2_writes :: "(u16 \<times> u8) list"
  port61 :: u8

definition sound_divisor :: "u32 \<Rightarrow> u32" where
  "sound_divisor freq_hz =
     (let freq_hz = (if freq_hz < 20 then 20 else freq_hz);
          freq_hz = (if freq_hz > 20000 then 20000 else freq_hz);
          d = PIT_BASE_HZ div freq_hz;
          d = (if d = 0 then 1 else d)
      in if d > 65535 then 65535 else d)"

definition sound_play :: "u32 \<Rightarrow> speaker \<Rightarrow> speaker" where
  "sound_play freq_hz s =
     (let d = sound_divisor freq_hz;
          s = s\<lparr>pit2_writes := pit2_writes s @
                 [(PIT_COMMAND, 0xB6), (PIT_CH2, ucast (d AND 0xFF)), (PIT_CH2, ucast (drop_bit 8 d AND 0xFF))]\<rparr>;
          t = port61 s
      in if t AND 3 \<noteq> 3 then s\<lparr>port61 := t OR 3\<rparr> else s)"

definition sound_stop :: "speaker \<Rightarrow> speaker" where
  "sound_stop s = s\<lparr>port61 := port61 s AND 0xFC\<rparr>"

definition beep_ticks :: "u32 \<Rightarrow> u32" where
  "beep_ticks duration_ms = (let ticks = duration_ms div 10 in if ticks = 0 then 1 else ticks)"

definition sound_beep :: "(nat \<Rightarrow> u32) \<Rightarrow> u32 \<Rightarrow> u32 \<Rightarrow> speaker \<Rightarrow> speaker option" where
  "sound_beep tk freq_hz duration_ms s =
     (if duration_ms = 0 then Some s
      else let s = sound_play freq_hz s
           in case sleep_loop 100 tk (tk 0) (beep_ticks duration_ms) 1 0 of
                None \<Rightarrow> None
              | Some _ \<Rightarrow> Some (sound_stop s))"

definition sound_beep_ok :: "(nat \<Rightarrow> u32) \<Rightarrow> speaker \<Rightarrow> speaker option" where
  "sound_beep_ok tk = sound_beep tk 880 80"

definition sound_beep_err :: "(nat \<Rightarrow> u32) \<Rightarrow> speaker \<Rightarrow> speaker option" where
  "sound_beep_err tk = sound_beep tk 220 150"

definition sound_beep_coin :: "(nat \<Rightarrow> u32) \<Rightarrow> (nat \<Rightarrow> u32) \<Rightarrow> speaker \<Rightarrow> speaker option" where
  "sound_beep_coin tk tk' s = (case sound_beep tk 988 40 s of None \<Rightarrow> None | Some s \<Rightarrow> sound_beep tk' 1319 80 s)"

section \<open>Beeping\<close>

text \<open>From 19 Hz on the divisor of the base clock fits its sixteen bits, so the last clamp of the code never acts.\<close>

lemma sound_divisor_value: "sound_divisor f = PIT_BASE_HZ div (max 20 (min f 20000))"
proof -
  let ?f = "max 20 (min f 20000)"
  have f: "20 \<le> unat ?f" "unat ?f \<le> 20000"
    by (simp_all add: max_def min_def word_le_nat_alt)
  have d: "unat (PIT_BASE_HZ div ?f) = 1193182 div unat ?f" by (simp add: PIT_BASE_HZ_def unat_div)
  have "1193182 div unat ?f \<le> 1193182 div 20" using f by (intro div_le_mono2) auto
  moreover have "1193182 div 20000 \<le> 1193182 div unat ?f" using f by (intro div_le_mono2) auto
  ultimately have "unat (PIT_BASE_HZ div ?f) \<le> 65535" "unat (PIT_BASE_HZ div ?f) \<noteq> 0" unfolding d by simp_all
  then have r: "\<not> PIT_BASE_HZ div ?f > 65535" "PIT_BASE_HZ div ?f \<noteq> 0"
    by (auto simp: word_less_nat_alt)
  have "(if (if f < 20 then 20 else f) > 20000 then 20000 else if f < 20 then 20 else f) = ?f"
    by (auto simp: max_def min_def word_le_nat_alt word_less_nat_alt)
  then show ?thesis using r by (simp add: sound_divisor_def Let_def)
qed

text \<open>When the tick counter advances far enough a beep returns: it has programmed the frequency
  clamped to 20 to 20000 Hz, and the gate bits of the speaker are off while the other bits of the port are as before.\<close>

lemma sound_beep_returns:
  assumes reads: "\<And>k. tk k = tk 0 + of_nat (f k)" and mono: "mono f" and small: "\<And>k. f k < 2 ^ 32"
    and far: "unat (beep_ticks ms) \<le> f far" and "ms \<noteq> 0"
  shows "\<exists>s'. sound_beep tk hz ms s = Some s' \<and> port61 s' = port61 s AND 0xFC
    \<and> pit_divisor (pit2_writes s') = PIT_BASE_HZ div (max 20 (min hz 20000))"
proof -
  have "tk k - tk 0 = of_nat (f k)" for k using reads [of k] by (metis add_diff_cancel_left')
  from sleep_loop_returns [OF this mono small far, of 0 100 1]
  obtain r where r: "sleep_loop 100 tk (tk 0) (beep_ticks ms) 1 0 = Some r" by auto
  have le: "sound_divisor hz \<le> 65535" by (auto simp: sound_divisor_def Let_def not_less)
  have "(t OR 3) AND 0xFC = t AND (0xFC :: u8)" for t :: u8
  proof -
    have "(3 :: u8) AND 0xFC = 0" by simp
    then show ?thesis unfolding bit.conj_disj_distrib2 by simp
  qed
  then show ?thesis
    using r \<open>ms \<noteq> 0\<close> join_bytes [OF le]
    by (simp add: sound_beep_def sound_play_def sound_stop_def pit_divisor_def sound_divisor_value Let_def)
qed

end
