(* ===== verification/Gfx.thy ===== *)
theory Gfx
  imports Terminal_Props Raster Font
begin

text \<open>
  VGA graphics (\<open>src/src/gfx.c\<close>): mode 13h with its 320 by 200 pixels, and the return to text mode. The card is modelled
  as the code uses it: index and data ports of the sequencer, the CRT controller (whose first eight registers can be
  protected) and the graphics controller, the attribute controller with its single port, the palette, and four planes
  of memory. A byte written at offset \<open>k\<close> of the window goes to plane \<open>k mod 4\<close> in chain-4 mode, and
  otherwise to all planes of the map mask. What a poll of the status port reads is a parameter.
\<close>

section \<open>The card\<close>

record vga_card =
  misc :: u8
  seq_ix :: u8
  seq :: "u8 \<Rightarrow> u8"
  crtc_ix :: u8
  crtc :: "u8 \<Rightarrow> u8"
  gc_ix :: u8
  gc :: "u8 \<Rightarrow> u8"
  ac_data :: bool
  ac_ix :: u8
  ac :: "u8 \<Rightarrow> u8"
  dac_pos :: nat
  dac :: "nat \<Rightarrow> u8"
  planes :: "nat \<Rightarrow> nat \<Rightarrow> u8"
  status :: "nat \<Rightarrow> u8"
  polls :: nat
  g_graphics :: bool

definition crtc_put :: "u8 \<Rightarrow> vga_card \<Rightarrow> vga_card" where
  "crtc_put v s =
     (let i = crtc_ix s; old = crtc s i;
          w = (if i \<le> 7 \<and> bit (crtc s 0x11) 7 then if i = 7 then (old AND NOT 0x10) OR (v AND 0x10) else old else v)
      in s\<lparr>crtc := (crtc s)(i := w)\<rparr>)"

definition vga_out :: "u16 \<Rightarrow> u8 \<Rightarrow> vga_card \<Rightarrow> vga_card" where
  "vga_out port v s =
     (if port = 0x3C2 then s\<lparr>misc := v\<rparr>
      else if port = 0x3C4 then s\<lparr>seq_ix := v\<rparr>
      else if port = 0x3C5 then s\<lparr>seq := (seq s)(seq_ix s := v)\<rparr>
      else if port = 0x3D4 then s\<lparr>crtc_ix := v\<rparr>
      else if port = 0x3D5 then crtc_put v s
      else if port = 0x3CE then s\<lparr>gc_ix := v\<rparr>
      else if port = 0x3CF then s\<lparr>gc := (gc s)(gc_ix s := v)\<rparr>
      else if port = 0x3C0 then
        (if ac_data s then s\<lparr>ac := (ac s)(ac_ix s := v), ac_data := False\<rparr> else s\<lparr>ac_ix := v, ac_data := True\<rparr>)
      else if port = 0x3C8 then s\<lparr>dac_pos := 3 * unat v\<rparr>
      else if port = 0x3C9 then s\<lparr>dac := (dac s)(dac_pos s := v), dac_pos := dac_pos s + 1\<rparr>
      else s)"

text \<open>Reading the status resets the attribute controller to expect an index.\<close>

definition vga_status :: "vga_card \<Rightarrow> u8 \<times> vga_card" where
  "vga_status s = (status s (polls s), s\<lparr>polls := polls s + 1, ac_data := False\<rparr>)"

definition chain4 :: "vga_card \<Rightarrow> bool" where
  "chain4 s \<longleftrightarrow> bit (seq s 4) 3"

definition vga_poke :: "nat \<Rightarrow> u8 \<Rightarrow> vga_card \<Rightarrow> vga_card" where
  "vga_poke k v s = s\<lparr>planes := (\<lambda>p a.
     if (if chain4 s then p = k mod 4 \<and> a = 4 * (k div 4) else p < 4 \<and> bit (seq s 2) p \<and> a = k) then v else planes s p a)\<rparr>"

definition vga_peek :: "vga_card \<Rightarrow> nat \<Rightarrow> u8" where
  "vga_peek s k = planes s (k mod 4) (4 * (k div 4))"

text \<open>Runs of an index write followed by a data write.\<close>

definition set_regs :: "u16 \<Rightarrow> (u8 \<times> u8) list \<Rightarrow> vga_card \<Rightarrow> vga_card" where
  "set_regs port ps = fold (\<lambda>(i, v) s. vga_out (port + 1) v (vga_out port i s)) ps"

definition set_attrs :: "(u8 \<times> u8) list \<Rightarrow> vga_card \<Rightarrow> vga_card" where
  "set_attrs ps = fold (\<lambda>(i, v) s. vga_out 0x3C0 v (vga_out 0x3C0 i s)) ps"

section \<open>Definitions\<close>

definition GFX_WIDTH :: nat where "GFX_WIDTH = 320"
definition GFX_HEIGHT :: nat where "GFX_HEIGHT = 200"
definition GFX_BLACK :: u8 where "GFX_BLACK = 0"
definition GFX_BLUE :: u8 where "GFX_BLUE = 1"
definition GFX_GREEN :: u8 where "GFX_GREEN = 2"
definition GFX_CYAN :: u8 where "GFX_CYAN = 3"
definition GFX_RED :: u8 where "GFX_RED = 4"
definition GFX_MAGENTA :: u8 where "GFX_MAGENTA = 5"
definition GFX_BROWN :: u8 where "GFX_BROWN = 6"
definition GFX_LGRAY :: u8 where "GFX_LGRAY = 7"
definition GFX_DGRAY :: u8 where "GFX_DGRAY = 8"
definition GFX_LBLUE :: u8 where "GFX_LBLUE = 9"
definition GFX_LGREEN :: u8 where "GFX_LGREEN = 10"
definition GFX_LCYAN :: u8 where "GFX_LCYAN = 11"
definition GFX_LRED :: u8 where "GFX_LRED = 12"
definition GFX_LMAGENTA :: u8 where "GFX_LMAGENTA = 13"
definition GFX_YELLOW :: u8 where "GFX_YELLOW = 14"
definition GFX_WHITE :: u8 where "GFX_WHITE = 15"

definition pal16 :: "(u8 \<times> u8 \<times> u8) list" where
  "pal16 = [(0, 0, 0), (0, 0, 42), (0, 42, 0), (0, 42, 42), (42, 0, 0), (42, 0, 42), (42, 21, 0), (42, 42, 42),
     (21, 21, 21), (21, 21, 63), (21, 63, 21), (21, 63, 63), (63, 21, 21), (63, 21, 63), (63, 63, 21), (63, 63, 63)]"

definition load_palette :: "vga_card \<Rightarrow> vga_card" where
  "load_palette s =
     fold (\<lambda>(r, g, b) s. vga_out 0x3C9 b (vga_out 0x3C9 g (vga_out 0x3C9 r s))) pal16 (vga_out 0x3C8 0 s)"

definition gfx_set_default_palette :: "vga_card \<Rightarrow> vga_card" where
  "gfx_set_default_palette s = load_palette s"

definition gfx_set_text_palette :: "vga_card \<Rightarrow> vga_card" where
  "gfx_set_text_palette s = load_palette s"

fun poll_status :: "nat \<Rightarrow> (u8 \<Rightarrow> bool) \<Rightarrow> vga_card \<Rightarrow> vga_card" where
  "poll_status 0 P s = s"
| "poll_status (Suc n) P s = (let (v, s) = vga_status s in if P v then s else poll_status n P s)"

definition gfx_wait_vsync :: "vga_card \<Rightarrow> vga_card" where
  "gfx_wait_vsync s = poll_status 50000 (\<lambda>v. v AND 0x08 \<noteq> 0) (poll_status 50000 (\<lambda>v. v AND 0x08 = 0) s)"

definition unlock_crtc :: "vga_card \<Rightarrow> vga_card" where
  "unlock_crtc s = (let s = vga_out 0x3D4 0x11 s in vga_out 0x3D5 (crtc s (crtc_ix s) AND 0x7F) s)"

definition gfx_clear :: "u8 \<Rightarrow> vga_card \<Rightarrow> vga_card" where
  "gfx_clear color s = fold (\<lambda>i. vga_poke i color) [0..<GFX_WIDTH * GFX_HEIGHT] s"

definition mode13_seq :: "(u8 \<times> u8) list" where
  "mode13_seq = [(0, 0x03), (1, 0x01), (2, 0x0F), (3, 0x00), (4, 0x0E)]"

definition mode13_crtc :: "u8 list" where
  "mode13_crtc = [0x5F, 0x4F, 0x50, 0x82, 0x54, 0x80, 0xBF, 0x1F, 0x00, 0x41, 0x00, 0x00, 0x00, 0x00, 0x00, 0x00,
     0x9C, 0x0E, 0x8F, 0x28, 0x40, 0x96, 0xB9, 0xA3, 0xFF]"

definition mode13_gc :: "(u8 \<times> u8) list" where
  "mode13_gc = [(0, 0x00), (1, 0x00), (2, 0x00), (3, 0x00), (4, 0x00), (5, 0x40), (6, 0x05), (7, 0x0F), (8, 0xFF)]"

definition attr_colours :: "(u8 \<times> u8) list" where
  "attr_colours = map (\<lambda>i. (of_nat i, of_nat i)) [0..<16]"

definition set_crtc :: "u8 list \<Rightarrow> vga_card \<Rightarrow> vga_card" where
  "set_crtc vs = set_regs 0x3D4 (map (\<lambda>i. (of_nat i, vs ! i)) [0..<25])"

definition gfx_init_mode13 :: "vga_card \<Rightarrow> vga_card" where
  "gfx_init_mode13 s =
     (let s = set_regs 0x3C4 mode13_seq (vga_out 0x3C2 0x63 s);
          s = set_regs 0x3CE mode13_gc (set_crtc mode13_crtc (unlock_crtc s));
          s = set_attrs attr_colours (snd (vga_status s));
          s = set_attrs [(0x10, 0x41), (0x11, 0x00), (0x12, 0x0F), (0x13, 0x00), (0x14, 0x00)] s;
          s = gfx_set_default_palette (vga_out 0x3C0 0x20 s)
      in gfx_clear GFX_BLACK (s\<lparr>g_graphics := True\<rparr>))"

definition font_select :: "vga_card \<Rightarrow> vga_card" where
  "font_select s = set_regs 0x3CE [(4, 0x02), (5, 0x00), (6, 0x00)] (set_regs 0x3C4 [(2, 0x04), (4, 0x07)] s)"

definition font_byte :: "nat \<Rightarrow> nat \<Rightarrow> u8" where
  "font_byte ch row = (if ch < 128 \<and> row < 16 then font8x16 ch ! row else 0)"

definition gfx_load_font :: "vga_card \<Rightarrow> vga_card" where
  "gfx_load_font s =
     (let s = fold (\<lambda>ch. fold (\<lambda>row. vga_poke (ch * 32 + row) (font_byte ch row)) [0..<32]) [0..<256] (font_select s)
      in set_regs 0x3CE [(4, 0x00), (5, 0x10), (6, 0x0E)] (set_regs 0x3C4 [(2, 0x03), (4, 0x02)] s))"

definition text_seq :: "(u8 \<times> u8) list" where
  "text_seq = [(0, 0x03), (1, 0x00), (2, 0x03), (3, 0x00), (4, 0x02)]"

definition text_crtc :: "u8 list" where
  "text_crtc = [0x5F, 0x4F, 0x50, 0x82, 0x55, 0x81, 0xBF, 0x1F, 0x00, 0x4F, 0x0D, 0x0E, 0x00, 0x00, 0x00, 0x50,
     0x9C, 0x0E, 0x8F, 0x28, 0x1F, 0x96, 0xB9, 0xA3, 0xFF]"

definition text_gc :: "(u8 \<times> u8) list" where
  "text_gc = [(0, 0x00), (1, 0x00), (2, 0x00), (3, 0x00), (4, 0x00), (5, 0x10), (6, 0x0E), (7, 0x00), (8, 0xFF)]"

definition gfx_restore_text :: "vga_card \<times> terminal \<Rightarrow> vga_card \<times> terminal" where
  "gfx_restore_text st =
     (let (s, t) = st;
          s = set_regs 0x3C4 text_seq (vga_out 0x3C2 0x67 s);
          s = set_regs 0x3CE text_gc (set_crtc text_crtc (unlock_crtc s));
          s = set_attrs attr_colours (snd (vga_status s));
          s = set_attrs [(0x10, 0x0C), (0x11, 0x00), (0x12, 0x0F), (0x13, 0x08), (0x14, 0x00)] s;
          s = gfx_set_text_palette (gfx_load_font (vga_out 0x3C0 0x20 s))
      in (s\<lparr>g_graphics := False\<rparr>, terminal_initialize t))"

definition gfx_putpixel :: "int \<Rightarrow> int \<Rightarrow> u8 \<Rightarrow> vga_card \<Rightarrow> vga_card" where
  "gfx_putpixel x y color s =
     (if as_unsigned x \<ge> GFX_WIDTH \<or> as_unsigned y \<ge> GFX_HEIGHT then s
      else vga_poke (as_unsigned y * GFX_WIDTH + as_unsigned x) color s)"

definition gfx_getpixel :: "int \<Rightarrow> int \<Rightarrow> vga_card \<Rightarrow> u8" where
  "gfx_getpixel x y s =
     (if as_unsigned x \<ge> GFX_WIDTH \<or> as_unsigned y \<ge> GFX_HEIGHT then 0
      else vga_peek s (as_unsigned y * GFX_WIDTH + as_unsigned x))"

definition gfx_fill_rect :: "int \<Rightarrow> int \<Rightarrow> int \<Rightarrow> int \<Rightarrow> u8 \<Rightarrow> vga_card \<Rightarrow> vga_card" where
  "gfx_fill_rect x y w h color s =
     (if w \<le> 0 \<or> h \<le> 0 then s
      else fold (\<lambda>j s. if as_unsigned (y + int j) \<ge> GFX_HEIGHT then s
             else fold (\<lambda>i s. if as_unsigned (x + int i) \<ge> GFX_WIDTH then s
                    else vga_poke (as_unsigned (y + int j) * GFX_WIDTH + as_unsigned (x + int i)) color s) [0..<nat w] s) [0..<nat h] s)"

definition gfx_hline :: "int \<Rightarrow> int \<Rightarrow> int \<Rightarrow> u8 \<Rightarrow> vga_card \<Rightarrow> vga_card" where
  "gfx_hline x y w color s = gfx_fill_rect x y w 1 color s"

definition gfx_vline :: "int \<Rightarrow> int \<Rightarrow> int \<Rightarrow> u8 \<Rightarrow> vga_card \<Rightarrow> vga_card" where
  "gfx_vline x y h color s = gfx_fill_rect x y 1 h color s"

definition gfx_is_graphics :: "vga_card \<Rightarrow> bool" where
  "gfx_is_graphics s = g_graphics s"

section \<open>Registers\<close>

definition upd_all :: "('a \<times> 'b) list \<Rightarrow> ('a \<Rightarrow> 'b) \<Rightarrow> 'a \<Rightarrow> 'b" where
  "upd_all ps f = fold (\<lambda>(i, v) f. f(i := v)) ps f"

lemma upd_all_simps [simp]: "upd_all [] f = f" "upd_all ((i, v) # ps) f = upd_all ps (f(i := v))"
  by (simp_all add: upd_all_def)

lemma set_regs_simps: "set_regs port [] s = s" "set_regs port ((i, v) # ps) s = set_regs port ps (vga_out (port + 1) v (vga_out port i s))"
  by (simp_all add: set_regs_def)

lemma set_seq [simp]:
  "seq (set_regs 0x3C4 ps s) = upd_all ps (seq s)" "gc (set_regs 0x3C4 ps s) = gc s" "crtc (set_regs 0x3C4 ps s) = crtc s"
  "ac (set_regs 0x3C4 ps s) = ac s" "ac_data (set_regs 0x3C4 ps s) = ac_data s" "dac (set_regs 0x3C4 ps s) = dac s"
  "planes (set_regs 0x3C4 ps s) = planes s" "misc (set_regs 0x3C4 ps s) = misc s"
  by (induction ps arbitrary: s) (auto simp: set_regs_simps vga_out_def)

lemma set_gc [simp]:
  "gc (set_regs 0x3CE ps s) = upd_all ps (gc s)" "seq (set_regs 0x3CE ps s) = seq s" "crtc (set_regs 0x3CE ps s) = crtc s"
  "ac (set_regs 0x3CE ps s) = ac s" "ac_data (set_regs 0x3CE ps s) = ac_data s" "dac (set_regs 0x3CE ps s) = dac s"
  "planes (set_regs 0x3CE ps s) = planes s" "misc (set_regs 0x3CE ps s) = misc s"
  by (induction ps arbitrary: s) (auto simp: set_regs_simps vga_out_def)

lemma set_crtc_keeps [simp]:
  "seq (set_regs 0x3D4 ps s) = seq s" "gc (set_regs 0x3D4 ps s) = gc s" "ac (set_regs 0x3D4 ps s) = ac s"
  "ac_data (set_regs 0x3D4 ps s) = ac_data s" "dac (set_regs 0x3D4 ps s) = dac s"
  "planes (set_regs 0x3D4 ps s) = planes s" "misc (set_regs 0x3D4 ps s) = misc s"
  by (induction ps arbitrary: s) (auto simp: set_regs_simps vga_out_def crtc_put_def Let_def)

text \<open>Attribute writes come in pairs when the controller expects an index.\<close>

lemma set_attrs_effect:
  "\<not> ac_data s \<Longrightarrow> ac (set_attrs ps s) = upd_all ps (ac s) \<and> \<not> ac_data (set_attrs ps s)"
proof (induction ps arbitrary: s)
  case (Cons p ps)
  obtain i v where p: "p = (i, v)" by (cases p)
  let ?s = "vga_out 0x3C0 v (vga_out 0x3C0 i s)"
  have "ac ?s = (ac s)(i := v)" "\<not> ac_data ?s" using Cons.prems by (simp_all add: vga_out_def)
  then show ?case using Cons.IH [of ?s] p by (simp add: set_attrs_def del: fun_upd_apply)
qed (simp add: set_attrs_def)

lemma set_attrs_keeps [simp]:
  "seq (set_attrs ps s) = seq s" "gc (set_attrs ps s) = gc s" "crtc (set_attrs ps s) = crtc s"
  "dac (set_attrs ps s) = dac s" "planes (set_attrs ps s) = planes s" "misc (set_attrs ps s) = misc s"
  by (induction ps arbitrary: s) (auto simp: set_attrs_def vga_out_def)

text \<open>The CRT controller is unlocked before its registers are set, and none of the tables locks it.\<close>

lemma unlocked: "\<not> bit (crtc (unlock_crtc s) 0x11) 7"
  by (simp add: unlock_crtc_def vga_out_def crtc_put_def Let_def bit_simps)

lemma set_crtc_effect:
  assumes "\<not> bit (crtc s 0x11) 7" "\<not> bit (vs ! 17) 7" "i < 25"
  shows "crtc (set_crtc vs s) (of_nat i) = vs ! i"
proof -
  define W where "W n = set_regs 0x3D4 (map (\<lambda>i. (of_nat i, vs ! i)) [0..<n]) s" for n
  have u: "unat (of_nat j :: u8) = j" if "j < 25" for j using that unat_of_nat [of j, where 'a = 8] by simp
  then have inj: "(of_nat j :: u8) = of_nat n \<longleftrightarrow> j = n" if "j < 25" "n < 25" for j n using that by metis
  have "(\<forall>j < n. crtc (W n) (of_nat j) = vs ! j) \<and> \<not> bit (crtc (W n) 0x11) 7" if "n \<le> 25" for n
    using that
  proof (induction n)
    case (Suc n)
    then have ih: "\<forall>j < n. crtc (W n) (of_nat j) = vs ! j" "\<not> bit (crtc (W n) 0x11) 7" by simp_all
    have w: "crtc (W (Suc n)) = (crtc (W n))(of_nat n := vs ! n)"
      using ih(2) by (simp add: W_def set_regs_def vga_out_def crtc_put_def Let_def)
    have "(0x11 :: u8) = of_nat n \<longleftrightarrow> 17 = n" using inj [of 17 n] Suc.prems by simp
    then show ?case using ih inj Suc.prems assms(2) by (auto simp: w less_Suc_eq)
  qed (use assms(1) in \<open>simp add: W_def set_regs_def\<close>)
  then show ?thesis using assms(3) by (simp add: set_crtc_def W_def)
qed

text \<open>The palette.\<close>

definition pal_bytes :: "u8 list" where
  "pal_bytes = concat (map (\<lambda>(r, g, b). [r, g, b]) pal16)"

lemma fold_dac:
  "dac (fold (vga_out 0x3C9) vs s) k = (if dac_pos s \<le> k \<and> k < dac_pos s + length vs then vs ! (k - dac_pos s) else dac s k)"
proof (induction vs arbitrary: s)
  case (Cons v vs)
  then show ?case by (auto simp: vga_out_def nth_Cons' less_Suc_eq)
qed auto

lemma load_palette_bytes: "load_palette s = fold (vga_out 0x3C9) pal_bytes (vga_out 0x3C8 0 s)"
proof -
  have "fold (\<lambda>(r, g, b) s. vga_out 0x3C9 b (vga_out 0x3C9 g (vga_out 0x3C9 r s))) ps s =
      fold (vga_out 0x3C9) (concat (map (\<lambda>(r, g, b). [r, g, b]) ps)) s" for ps s
    by (induction ps arbitrary: s) auto
  then show ?thesis by (simp add: load_palette_def pal_bytes_def)
qed

lemma palette_loaded: "k < 48 \<Longrightarrow> dac (load_palette s) k = pal_bytes ! k"
proof -
  have "length pal_bytes = 48" by (simp add: pal_bytes_def pal16_def)
  then show "k < 48 \<Longrightarrow> dac (load_palette s) k = pal_bytes ! k"
    using fold_dac [of pal_bytes "vga_out 0x3C8 0 s" k] by (simp add: load_palette_bytes) (simp add: vga_out_def)
qed

lemma load_palette_keeps [simp]:
  "seq (load_palette s) = seq s" "gc (load_palette s) = gc s" "crtc (load_palette s) = crtc s" "ac (load_palette s) = ac s"
  "planes (load_palette s) = planes s" "misc (load_palette s) = misc s"
proof -
  have "seq (fold (vga_out 0x3C9) vs s) = seq s \<and> gc (fold (vga_out 0x3C9) vs s) = gc s \<and> crtc (fold (vga_out 0x3C9) vs s) = crtc s
    \<and> ac (fold (vga_out 0x3C9) vs s) = ac s \<and> planes (fold (vga_out 0x3C9) vs s) = planes s \<and> misc (fold (vga_out 0x3C9) vs s) = misc s" for vs s
    by (induction vs arbitrary: s) (simp_all add: vga_out_def)
  then show "seq (load_palette s) = seq s" "gc (load_palette s) = gc s" "crtc (load_palette s) = crtc s" "ac (load_palette s) = ac s"
    "planes (load_palette s) = planes s" "misc (load_palette s) = misc s"
    by (simp_all add: load_palette_bytes) (simp_all add: vga_out_def)
qed

section \<open>Memory\<close>

lemma vga_poke_simps [simp]:
  "seq (vga_poke k v s) = seq s" "chain4 (vga_poke k v s) = chain4 s"
  by (simp_all add: vga_poke_def chain4_def)

lemma peek_poke: "chain4 s \<Longrightarrow> vga_peek (vga_poke k v s) i = (if i = k then v else vga_peek s i)"
proof -
  have "i mod 4 = k mod 4 \<and> 4 * (i div 4) = 4 * (k div 4) \<longleftrightarrow> i = k"
    by (metis mult_div_mod_eq nat_mult_eq_cancel_disj)
  then show "chain4 s \<Longrightarrow> vga_peek (vga_poke k v s) i = (if i = k then v else vga_peek s i)"
    by (auto simp: vga_peek_def vga_poke_def)
qed

definition g13_cols :: "vga_card \<Rightarrow> nat" where "g13_cols s = (if chain4 s then GFX_WIDTH else 0)"
definition g13_rows :: "vga_card \<Rightarrow> nat" where "g13_rows s = (if chain4 s then GFX_HEIGHT else 0)"
definition g13_cell :: "vga_card \<Rightarrow> nat \<Rightarrow> u8" where "g13_cell s k = (if chain4 s then vga_peek s k else 0)"

interpretation g13: raster g13_cols g13_rows g13_cell gfx_putpixel
proof unfold_locales
  fix x y c s k
  show "g13_cols (gfx_putpixel x y c s) = g13_cols s" "g13_rows (gfx_putpixel x y c s) = g13_rows s"
    by (simp_all add: g13_cols_def g13_rows_def gfx_putpixel_def)
  show "g13_cell (gfx_putpixel x y c s) k =
      (if as_unsigned x < g13_cols s \<and> as_unsigned y < g13_rows s \<and> k = as_unsigned y * g13_cols s + as_unsigned x
       then c else g13_cell s k)"
    by (auto simp: g13_cell_def g13_cols_def g13_rows_def gfx_putpixel_def peek_poke)
qed

section \<open>Drawing in mode 13h\<close>

lemma gfx_putpixel_skip: "as_unsigned x \<ge> GFX_WIDTH \<or> as_unsigned y \<ge> GFX_HEIGHT \<Longrightarrow> gfx_putpixel x y c s = s"
  by (auto simp: gfx_putpixel_def)

text \<open>Filling a rectangle plots its pixels.\<close>

lemma gfx_fill_rect_plots: "gfx_fill_rect x y w h c s = g13.plots (g13.block x y (nat w) (nat h) (\<lambda>i j. c)) s"
proof -
  have inner: "fold (\<lambda>i s. if as_unsigned (x + int i) \<ge> GFX_WIDTH then s
        else vga_poke (as_unsigned yy * GFX_WIDTH + as_unsigned (x + int i)) c s) is s = fold (\<lambda>i. gfx_putpixel (x + int i) yy c) is s"
    if "as_unsigned yy < GFX_HEIGHT" for yy "is" s
    using that by (induction "is" arbitrary: s) (simp_all add: gfx_putpixel_def)
  have skip: "fold (\<lambda>i. gfx_putpixel (x + int i) yy c) is s = s" if "as_unsigned yy \<ge> GFX_HEIGHT" for yy "is" s
    using that by (induction "is" arbitrary: s) (simp_all add: gfx_putpixel_skip)
  have "fold (\<lambda>j s. if as_unsigned (y + int j) \<ge> GFX_HEIGHT then s
        else fold (\<lambda>i s. if as_unsigned (x + int i) \<ge> GFX_WIDTH then s
               else vga_poke (as_unsigned (y + int j) * GFX_WIDTH + as_unsigned (x + int i)) c s) [0..<nat w] s) js s =
      fold (\<lambda>j. fold (\<lambda>i. gfx_putpixel (x + int i) (y + int j) c) [0..<nat w]) js s" for js s
    by (induction js arbitrary: s) (simp_all add: skip inner)
  moreover have "g13.block x y 0 h' (\<lambda>i j. c) = []" "g13.block x y w' 0 (\<lambda>i j. c) = []" for w' h' by (simp_all add: g13.block_def)
  ultimately show ?thesis by (auto simp: gfx_fill_rect_def g13.fold_block)
qed

lemma gfx_fill_rect_keeps [simp]: "chain4 (gfx_fill_rect x y w h c s) = chain4 s"
proof -
  have "chain4 (gfx_putpixel x y c s) = chain4 s" for x y c s by (simp add: gfx_putpixel_def)
  then have "chain4 (g13.plots ps s) = chain4 s" for ps by (induction ps arbitrary: s) auto
  then show ?thesis by (simp add: gfx_fill_rect_plots)
qed

lemma getpixel_cell: "chain4 s \<Longrightarrow> px < GFX_WIDTH \<Longrightarrow> py < GFX_HEIGHT \<Longrightarrow> gfx_getpixel (int px) (int py) s = g13_cell s (py * GFX_WIDTH + px)"
  by (simp add: gfx_getpixel_def g13_cell_def GFX_WIDTH_def GFX_HEIGHT_def as_unsigned_def)

lemma fill_rect_pixel:
  assumes "chain4 s" "px < GFX_WIDTH" "py < GFX_HEIGHT" "x + w \<le> 2 ^ 31" "y + h \<le> 2 ^ 31"
  shows "gfx_getpixel (int px) (int py) (gfx_fill_rect (int x) (int y) (int w) (int h) c s) =
    (if x \<le> px \<and> px < x + w \<and> y \<le> py \<and> py < y + h then c else gfx_getpixel (int px) (int py) s)"
proof -
  have "g13_cols s = GFX_WIDTH" "g13_rows s = GFX_HEIGHT" using assms(1) by (simp_all add: g13_cols_def g13_rows_def)
  then have "g13_cell (gfx_fill_rect (int x) (int y) (int w) (int h) c s) (py * GFX_WIDTH + px) =
      (if x \<le> px \<and> px < x + w \<and> y \<le> py \<and> py < y + h then c else g13_cell s (py * GFX_WIDTH + px))"
    using g13.cell_block [of px s py x w y h "\<lambda>i j. c"] assms(2-5) by (simp add: gfx_fill_rect_plots)
  then show ?thesis using getpixel_cell [of s] getpixel_cell [of "gfx_fill_rect (int x) (int y) (int w) (int h) c s"] assms(1-3) by simp
qed

lemma fold_poke_seq [simp]: "seq (fold (\<lambda>i. vga_poke i (f i)) ks s) = seq s"
  by (induction ks arbitrary: s) auto

lemma gfx_clear_pixel: "chain4 s \<Longrightarrow> px < GFX_WIDTH \<Longrightarrow> py < GFX_HEIGHT \<Longrightarrow> gfx_getpixel (int px) (int py) (gfx_clear c s) = c"
proof -
  assume s: "chain4 s" and p: "px < GFX_WIDTH" "py < GFX_HEIGHT"
  have ch: "chain4 (fold (\<lambda>i. vga_poke i c) ks s) = chain4 s" for ks s by (induction ks arbitrary: s) auto
  have "chain4 s \<Longrightarrow> vga_peek (fold (\<lambda>i. vga_poke i c) [0..<n] s) k = (if k < n then c else vga_peek s k)" for n k
    by (induction n) (auto simp: peek_poke ch less_Suc_eq)
  moreover have "py * GFX_WIDTH + px < GFX_WIDTH * GFX_HEIGHT" using p by (simp add: GFX_WIDTH_def GFX_HEIGHT_def)
  ultimately show ?thesis using s p getpixel_cell [of "gfx_clear c s" px py] ch by (simp add: gfx_clear_def g13_cell_def)
qed


section \<open>Programming a mode\<close>

text \<open>The two mode settings share their shape: what it leaves in the registers.\<close>

definition vga_program :: "u8 \<Rightarrow> (u8 \<times> u8) list \<Rightarrow> u8 list \<Rightarrow> (u8 \<times> u8) list \<Rightarrow> (u8 \<times> u8) list \<Rightarrow> vga_card \<Rightarrow> vga_card" where
  "vga_program mi sq cr gr at s =
     set_attrs at (set_attrs attr_colours (snd (vga_status (set_regs 0x3CE gr (set_crtc cr (unlock_crtc
       (set_regs 0x3C4 sq (vga_out 0x3C2 mi s))))))))"

lemma unlock_crtc_keeps [simp]:
  "misc (unlock_crtc s) = misc s" "seq (unlock_crtc s) = seq s" "gc (unlock_crtc s) = gc s"
  by (simp_all add: unlock_crtc_def vga_out_def crtc_put_def Let_def)

lemma vga_status_keeps [simp]:
  "misc (snd (vga_status s)) = misc s" "seq (snd (vga_status s)) = seq s" "gc (snd (vga_status s)) = gc s"
  "crtc (snd (vga_status s)) = crtc s" "\<not> ac_data (snd (vga_status s))"
  by (simp_all add: vga_status_def)

lemma vga_program_regs:
  "misc (vga_program mi sq cr gr at s) = mi"
  "seq (vga_program mi sq cr gr at s) = upd_all sq (seq s)"
  "gc (vga_program mi sq cr gr at s) = upd_all gr (gc s)"
  by (simp_all add: vga_program_def set_crtc_def) (simp_all add: vga_out_def)

lemma vga_program_crtc: "\<not> bit (cr ! 17) 7 \<Longrightarrow> i < 25 \<Longrightarrow> crtc (vga_program mi sq cr gr at s) (of_nat i) = cr ! i"
  by (simp add: vga_program_def set_crtc_effect unlocked)

lemma upd_all_append: "upd_all (ps @ qs) f = upd_all qs (upd_all ps f)"
  by (simp add: upd_all_def)

lemma vga_program_attrs:
  "ac (vga_program mi sq cr gr at s) = upd_all (attr_colours @ at) (ac (snd (vga_status (set_regs 0x3CE gr (set_crtc cr (unlock_crtc
       (set_regs 0x3C4 sq (vga_out 0x3C2 mi s))))))))"
  using set_attrs_effect [OF vga_status_keeps(5)] set_attrs_effect
  by (simp add: vga_program_def upd_all_append)

lemma upd_all_miss: "i \<notin> fst ` set ps \<Longrightarrow> upd_all ps f i = f i"
  by (induction ps arbitrary: f) auto

lemma upd_all_hit: "distinct (map fst ps) \<Longrightarrow> (i, v) \<in> set ps \<Longrightarrow> upd_all ps f i = v"
  by (induction ps arbitrary: f) (auto simp: upd_all_miss image_iff)

definition regs_hold :: "(u8 \<Rightarrow> u8) \<Rightarrow> (u8 \<times> u8) list \<Rightarrow> bool" where
  "regs_hold r ps = list_all (\<lambda>(i, v). r i = v) ps"

lemma regs_hold_upd_all: "distinct (map fst ps) \<Longrightarrow> regs_hold (upd_all ps f) ps"
  by (auto simp: regs_hold_def list_all_iff upd_all_hit)

section \<open>The font\<close>

lemma planar_poke: "\<not> chain4 s \<Longrightarrow> bit (seq s 2) 2 \<Longrightarrow> planes (vga_poke k v s) 2 a = (if a = k then v else planes s 2 a)"
  by (simp add: vga_poke_def)

lemma fold_planar:
  "\<not> chain4 s \<Longrightarrow> bit (seq s 2) 2 \<Longrightarrow> planes (fold (\<lambda>k. vga_poke k (f k)) [0..<n] s) 2 a = (if a < n then f a else planes s 2 a)"
  by (induction n) (auto simp: planar_poke chain4_def less_Suc_eq)

lemma load_font_fold:
  "fold (\<lambda>ch. fold (\<lambda>row. vga_poke (ch * 32 + row) (font_byte ch row)) [0..<32]) [0..<256] =
   fold (\<lambda>k. vga_poke k (font_byte (k div 32) (k mod 32))) [0..<256 * 32]"
proof -
  have "fold (\<lambda>row. vga_poke (ch * 32 + row) (font_byte ch row)) [0..<32] =
      fold (\<lambda>row. vga_poke (ch * 32 + row) (font_byte ((ch * 32 + row) div 32) ((ch * 32 + row) mod 32))) [0..<32]" for ch
    by (rule ext, rule List.fold_cong) auto
  then show ?thesis
    using fold_rows [of "\<lambda>k. vga_poke k (font_byte (k div 32) (k mod 32))" 32 256] by simp
qed

lemma gfx_load_font_plane: "a < 256 * 32 \<Longrightarrow> planes (gfx_load_font s) 2 a = font_byte (a div 32) (a mod 32)"
proof -
  have "\<not> chain4 (font_select s)" "bit (seq (font_select s) 2) 2"
    by (simp_all add: font_select_def chain4_def bit_simps)
  then show "a < 256 * 32 \<Longrightarrow> planes (gfx_load_font s) 2 a = font_byte (a div 32) (a mod 32)"
    by (simp add: gfx_load_font_def load_font_fold fold_planar del: upt_Suc)
qed


text \<open>Loading the font ends with the text-mode settings of the four registers it changed, and touches no other.\<close>

lemma fold_poke_keeps [simp]:
  "misc (fold (\<lambda>k. vga_poke k (f k)) ks s) = misc s" "crtc (fold (\<lambda>k. vga_poke k (f k)) ks s) = crtc s"
  "ac (fold (\<lambda>k. vga_poke k (f k)) ks s) = ac s" "dac (fold (\<lambda>k. vga_poke k (f k)) ks s) = dac s"
  "gc (fold (\<lambda>k. vga_poke k (f k)) ks s) = gc s" "g_graphics (fold (\<lambda>k. vga_poke k (f k)) ks s) = g_graphics s"
  by (induction ks arbitrary: s) (simp_all add: vga_poke_def)

lemma gfx_load_font_keeps:
  "misc (gfx_load_font s) = misc s" "crtc (gfx_load_font s) = crtc s" "ac (gfx_load_font s) = ac s" "dac (gfx_load_font s) = dac s"
  "seq (gfx_load_font s) = (seq s)(2 := 3, 4 := 2)" "gc (gfx_load_font s) = (gc s)(4 := 0, 5 := 0x10, 6 := 0x0E)"
  by (simp_all add: gfx_load_font_def load_font_fold font_select_def)

section \<open>Properties\<close>

definition mode13_attrs :: "(u8 \<times> u8) list" where
  "mode13_attrs = attr_colours @ [(0x10, 0x41), (0x11, 0x00), (0x12, 0x0F), (0x13, 0x00), (0x14, 0x00)]"

definition text_attrs :: "(u8 \<times> u8) list" where
  "text_attrs = attr_colours @ [(0x10, 0x0C), (0x11, 0x00), (0x12, 0x0F), (0x13, 0x08), (0x14, 0x00)]"

lemma attrs_distinct: "distinct (map fst mode13_attrs)" "distinct (map fst text_attrs)"
  by (simp_all add: mode13_attrs_def text_attrs_def attr_colours_def upt_rec)

lemma attr_index_keeps:
  "seq (vga_out 0x3C0 v s) = seq s" "gc (vga_out 0x3C0 v s) = gc s" "crtc (vga_out 0x3C0 v s) = crtc s" "misc (vga_out 0x3C0 v s) = misc s"
  by (simp_all add: vga_out_def)

lemma attr_index_after: "\<not> ac_data s \<Longrightarrow> ac (vga_out 0x3C0 v s) = ac s"
  by (simp add: vga_out_def)

lemma vga_program_expects_index: "\<not> ac_data (vga_program mi sq cr gr at s)"
  using set_attrs_effect [OF vga_status_keeps(5)] set_attrs_effect by (simp add: vga_program_def)

lemma gfx_clear_keeps:
  "seq (gfx_clear c s) = seq s" "gc (gfx_clear c s) = gc s" "crtc (gfx_clear c s) = crtc s" "misc (gfx_clear c s) = misc s"
  "ac (gfx_clear c s) = ac s" "dac (gfx_clear c s) = dac s" "g_graphics (gfx_clear c s) = g_graphics s"
  by (simp_all add: gfx_clear_def)

lemma gfx_init_mode13_program:
  "gfx_init_mode13 s = gfx_clear GFX_BLACK ((load_palette (vga_out 0x3C0 0x20
     (vga_program 0x63 mode13_seq mode13_crtc mode13_gc [(0x10, 0x41), (0x11, 0x00), (0x12, 0x0F), (0x13, 0x00), (0x14, 0x00)] s)))\<lparr>g_graphics := True\<rparr>)"
  by (simp add: gfx_init_mode13_def vga_program_def gfx_set_default_palette_def Let_def)

lemma gfx_restore_text_program:
  "gfx_restore_text (s, t) = ((load_palette (gfx_load_font (vga_out 0x3C0 0x20
     (vga_program 0x67 text_seq text_crtc text_gc [(0x10, 0x0C), (0x11, 0x00), (0x12, 0x0F), (0x13, 0x08), (0x14, 0x00)] s))))\<lparr>g_graphics := False\<rparr>,
     terminal_initialize t)"
  by (simp add: gfx_restore_text_def vga_program_def gfx_set_text_palette_def Let_def)

text \<open>From any state of the card, setting mode 13h programs every register of its tables (the CRT controller too, whose
  protection is lifted first), loads the sixteen colours and leaves a black screen; then filling a rectangle changes
  exactly the pixels inside it.\<close>

theorem gfx_mode13_draws:
  assumes s_def: "s = gfx_init_mode13 s0"
    and "px < GFX_WIDTH" "py < GFX_HEIGHT" "x + w \<le> 2 ^ 31" "y + h \<le> 2 ^ 31"
  shows "gfx_is_graphics s \<and> misc s = 0x63 \<and> regs_hold (seq s) mode13_seq \<and> regs_hold (gc s) mode13_gc
      \<and> regs_hold (ac s) mode13_attrs \<and> (\<forall>i < 25. crtc s (of_nat i) = mode13_crtc ! i) \<and> (\<forall>k < 48. dac s k = pal_bytes ! k)
      \<and> gfx_getpixel (int px) (int py) (gfx_fill_rect (int x) (int y) (int w) (int h) c s) =
        (if x \<le> px \<and> px < x + w \<and> y \<le> py \<and> py < y + h then c else GFX_BLACK)"
proof -
  define r where "r = vga_program 0x63 mode13_seq mode13_crtc mode13_gc [(0x10, 0x41), (0x11, 0x00), (0x12, 0x0F), (0x13, 0x00), (0x14, 0x00)] s0"
  define s1 where "s1 = (load_palette (vga_out 0x3C0 0x20 r))\<lparr>g_graphics := True\<rparr>"
  have s: "s = gfx_clear GFX_BLACK s1" by (simp add: s_def s1_def r_def gfx_init_mode13_program)
  have regs: "misc s = misc r" "seq s = seq r" "gc s = gc r" "crtc s = crtc r" "ac s = ac r" "gfx_is_graphics s"
      "\<And>k. k < 48 \<Longrightarrow> dac s k = pal_bytes ! k"
    using attr_index_after [OF vga_program_expects_index]
    by (simp_all add: s s1_def r_def gfx_clear_keeps attr_index_keeps gfx_is_graphics_def palette_loaded)
  have cr: "\<not> bit (mode13_crtc ! 17) 7" by (simp add: mode13_crtc_def bit_simps)
  have "regs_hold (ac r) mode13_attrs"
    unfolding r_def vga_program_attrs using regs_hold_upd_all [OF attrs_distinct(1)] by (simp add: mode13_attrs_def)
  then have "gfx_is_graphics s \<and> misc s = 0x63 \<and> regs_hold (seq s) mode13_seq \<and> regs_hold (gc s) mode13_gc
      \<and> regs_hold (ac s) mode13_attrs \<and> (\<forall>i < 25. crtc s (of_nat i) = mode13_crtc ! i) \<and> (\<forall>k < 48. dac s k = pal_bytes ! k)"
    using regs vga_program_crtc [OF cr]
    by (simp add: r_def vga_program_regs regs_hold_upd_all mode13_seq_def mode13_gc_def del: upd_all_simps)
  moreover have "seq s1 4 = 0x0E" by (simp add: s1_def r_def attr_index_keeps vga_program_regs mode13_seq_def)
  then have ch: "chain4 s1" by (simp add: chain4_def bit_simps)
  then have "chain4 s" by (simp add: s chain4_def gfx_clear_keeps)
  then have "gfx_getpixel (int px) (int py) (gfx_fill_rect (int x) (int y) (int w) (int h) c s) =
      (if x \<le> px \<and> px < x + w \<and> y \<le> py \<and> py < y + h then c else GFX_BLACK)"
    using fill_rect_pixel [of s px py x w y h c] gfx_clear_pixel [OF ch assms(2,3)] assms(2-5) s by simp
  ultimately show ?thesis by blast
qed

definition dark_card :: vga_card where
  "dark_card = \<lparr>misc = 0, seq_ix = 0, seq = (\<lambda>i. 0), crtc_ix = 0, crtc = (\<lambda>i. 0xFF), gc_ix = 0, gc = (\<lambda>i. 0), ac_data = True, ac_ix = 0,
     ac = (\<lambda>i. 0), dac_pos = 7, dac = (\<lambda>k. 0), planes = (\<lambda>p a. 0x77), status = (\<lambda>k. 0xFF), polls = 0, g_graphics = False\<rparr>"

theorem gfx_mode13_draws_witness:
  "gfx_is_graphics (gfx_init_mode13 dark_card) \<and> crtc (gfx_init_mode13 dark_card) 0 = 0x5F
   \<and> gfx_getpixel 319 199 (gfx_fill_rect 310 190 100 100 4 (gfx_init_mode13 dark_card)) = 4
   \<and> gfx_getpixel 309 199 (gfx_fill_rect 310 190 100 100 4 (gfx_init_mode13 dark_card)) = GFX_BLACK"
  using gfx_mode13_draws [OF refl, of 319 199 310 100 190 100 dark_card 4] gfx_mode13_draws [OF refl, of 309 199 310 100 190 100 dark_card 4]
  by (simp add: GFX_WIDTH_def GFX_HEIGHT_def) (auto simp: mode13_crtc_def dest: spec [of _ 0])

text \<open>From any state of the card (a graphics mode included), the return to text mode programs every register of the text-mode
  tables, loads the text palette, rewrites the whole character generator in plane 2 (sixteen rows of the font for
  the first 128 characters and zero everywhere else), leaves graphics mode and starts the terminal afresh.\<close>

theorem gfx_restore_text_correct:
  assumes "gfx_restore_text (s0, t0) = (s, t)"
  shows "\<not> gfx_is_graphics s \<and> t = terminal_initialize t0 \<and> misc s = 0x67 \<and> regs_hold (seq s) text_seq \<and> regs_hold (gc s) text_gc
    \<and> regs_hold (ac s) text_attrs \<and> (\<forall>i < 25. crtc s (of_nat i) = text_crtc ! i) \<and> (\<forall>k < 48. dac s k = pal_bytes ! k)
    \<and> (\<forall>ch < 256. \<forall>row < 32. planes s 2 (ch * 32 + row) = (if ch < 128 \<and> row < 16 then font8x16 ch ! row else 0))"
proof -
  define r where "r = vga_program 0x67 text_seq text_crtc text_gc [(0x10, 0x0C), (0x11, 0x00), (0x12, 0x0F), (0x13, 0x08), (0x14, 0x00)] s0"
  have s: "s = (load_palette (gfx_load_font (vga_out 0x3C0 0x20 r)))\<lparr>g_graphics := False\<rparr>" and t: "t = terminal_initialize t0"
    using assms by (simp_all add: gfx_restore_text_program r_def)
  have regs: "misc s = misc r" "crtc s = crtc r" "ac s = ac r" "\<not> gfx_is_graphics s" "seq s = (seq r)(2 := 3, 4 := 2)"
      "gc s = (gc r)(4 := 0, 5 := 0x10, 6 := 0x0E)" "\<And>k. k < 48 \<Longrightarrow> dac s k = pal_bytes ! k"
    using attr_index_after [OF vga_program_expects_index]
    by (simp_all add: s r_def gfx_load_font_keeps attr_index_keeps gfx_is_graphics_def palette_loaded)
  have cr: "\<not> bit (text_crtc ! 17) 7" by (simp add: text_crtc_def bit_simps)
  have "regs_hold (ac r) text_attrs"
    unfolding r_def vga_program_attrs using regs_hold_upd_all [OF attrs_distinct(2)] by (simp add: text_attrs_def)
  moreover have "regs_hold (seq s) text_seq" "regs_hold (gc s) text_gc"
    by (simp_all add: regs r_def vga_program_regs text_seq_def text_gc_def regs_hold_def)
  moreover have "planes s 2 (ch * 32 + row) = font_byte ch row" if "ch < 256" "row < 32" for ch row
    using gfx_load_font_plane [of "ch * 32 + row"] that by (simp add: s)
  ultimately show ?thesis
    using regs t vga_program_crtc [OF cr] by (simp add: r_def vga_program_regs font_byte_def)
qed

theorem gfx_restore_text_correct_witness:
  "\<not> gfx_is_graphics (fst (gfx_restore_text (gfx_init_mode13 dark_card, demo_terminal)))
   \<and> crtc (fst (gfx_restore_text (gfx_init_mode13 dark_card, demo_terminal))) 0x14 = 0x1F
   \<and> planes (fst (gfx_restore_text (gfx_init_mode13 dark_card, demo_terminal))) 2 (126 * 32 + 2) = 0x76"
proof -
  obtain s t where st: "gfx_restore_text (gfx_init_mode13 dark_card, demo_terminal) = (s, t)" by fastforce
  have all: "\<forall>i < 25. crtc s (of_nat i) = text_crtc ! i"
    "\<forall>ch < 256. \<forall>row < 32. planes s 2 (ch * 32 + row) = (if ch < 128 \<and> row < 16 then font8x16 ch ! row else 0)"
    using gfx_restore_text_correct [OF st] by simp_all
  have "crtc s (of_nat 20) = text_crtc ! 20" "planes s 2 (126 * 32 + 2) = font8x16 126 ! 2"
    using all(1) [rule_format, of 20] all(2) [rule_format, of 126 2] by simp_all
  then show ?thesis
    using gfx_restore_text_correct [OF st] st by (simp add: text_crtc_def font8x16_def font8x16_rows_def)
qed

end
