(* ===== verification/Pci.thy ===== *)
theory Pci
  imports Terminal
begin

text \<open>
  The PCI configuration space (\<open>src/src/pci.c\<close>) and the detection of the host (\<open>src/src/platform.c\<close>). The host bridge keeps
  the address written to port 0xCF8; port 0xCFC reads and writes the register it selects when its top bit is set. What a
  register holds after a write is up to the device, a parameter (\<open>accept\<close>): registers have read-only bits and bits that a
  one clears. The lemmas show that the scan visits exactly the functions present, in order.
\<close>

section \<open>The bridge\<close>

record pci =
  config_address :: u32
  config :: "u32 \<Rightarrow> u32"
  accept :: "u32 \<Rightarrow> u32 \<Rightarrow> u32 \<Rightarrow> u32"

definition pci_inl :: "pci \<Rightarrow> u32" where
  "pci_inl s = (if bit (config_address s) 31 then config s (config_address s) else 0xFFFFFFFF)"

definition pci_outl :: "u32 \<Rightarrow> pci \<Rightarrow> pci" where
  "pci_outl v s =
     (let a = config_address s
      in if bit a 31 then s\<lparr>config := (config s)(a := accept s a (config s a) v)\<rparr> else s)"

section \<open>Definitions\<close>

record pci_device =
  bus :: u8
  device :: u8
  func :: u8
  vendor_id :: u16
  device_id :: u16
  class_code :: u8
  sub_class :: u8
  prog_if :: u8
  header_type :: u8
  bar :: "u32 list"
  interrupt_line :: u8

definition pci_make_address :: "u8 \<Rightarrow> u8 \<Rightarrow> u8 \<Rightarrow> u8 \<Rightarrow> u32" where
  "pci_make_address b d f offset =
     0x80000000 OR push_bit 16 (ucast b) OR push_bit 11 (ucast (d AND 0x1F)) OR push_bit 8 (ucast (f AND 0x07))
       OR ucast (offset AND 0xFC)"

definition pci_config_read32 :: "u8 \<Rightarrow> u8 \<Rightarrow> u8 \<Rightarrow> u8 \<Rightarrow> pci \<Rightarrow> u32 \<times> pci" where
  "pci_config_read32 b d f offset s =
     (let s = s\<lparr>config_address := pci_make_address b d f offset\<rparr> in (pci_inl s, s))"

definition pci_config_write32 :: "u8 \<Rightarrow> u8 \<Rightarrow> u8 \<Rightarrow> u8 \<Rightarrow> u32 \<Rightarrow> pci \<Rightarrow> pci" where
  "pci_config_write32 b d f offset v s = pci_outl v (s\<lparr>config_address := pci_make_address b d f offset\<rparr>)"

definition pci_config_read16 :: "u8 \<Rightarrow> u8 \<Rightarrow> u8 \<Rightarrow> u8 \<Rightarrow> pci \<Rightarrow> u16 \<times> pci" where
  "pci_config_read16 b d f offset s =
     (let (w, s) = pci_config_read32 b d f (offset AND 0xFC) s
      in if offset AND 2 \<noteq> 0 then (ucast (drop_bit 16 w), s) else (ucast (w AND 0xFFFF), s))"

definition pci_config_write16 :: "u8 \<Rightarrow> u8 \<Rightarrow> u8 \<Rightarrow> u8 \<Rightarrow> u16 \<Rightarrow> pci \<Rightarrow> pci" where
  "pci_config_write16 b d f offset v s =
     (let (w, s) = pci_config_read32 b d f (offset AND 0xFC) s;
          w = (if offset AND 2 \<noteq> 0 then (w AND 0x0000FFFF) OR push_bit 16 (ucast v) else (w AND 0xFFFF0000) OR ucast v)
      in pci_config_write32 b d f (offset AND 0xFC) w s)"

fun read_bars :: "u8 \<Rightarrow> u8 \<Rightarrow> u8 \<Rightarrow> nat list \<Rightarrow> pci \<Rightarrow> u32 list \<times> pci" where
  "read_bars b d f [] s = ([], s)"
| "read_bars b d f (i # is) s =
     (let (v, s) = pci_config_read32 b d f (of_nat (0x10 + i * 4)) s; (vs, s) = read_bars b d f is s in (v # vs, s))"

definition pci_fill_device :: "u8 \<Rightarrow> u8 \<Rightarrow> u8 \<Rightarrow> pci \<Rightarrow> pci_device \<times> pci" where
  "pci_fill_device b d f s =
     (let (id_word, s) = pci_config_read32 b d f 0x00 s;
          (class_word, s) = pci_config_read32 b d f 0x08 s;
          (header_word, s) = pci_config_read32 b d f 0x0C s;
          (bars, s) = read_bars b d f [0..<6] s;
          (irq_word, s) = pci_config_read32 b d f 0x3C s
      in (\<lparr>bus = b, device = d, func = f, vendor_id = ucast (id_word AND 0xFFFF), device_id = ucast (drop_bit 16 id_word),
            class_code = ucast (drop_bit 24 class_word), sub_class = ucast (drop_bit 16 class_word),
            prog_if = ucast (drop_bit 8 class_word), header_type = ucast (drop_bit 16 header_word), bar = bars,
            interrupt_line = ucast (irq_word AND 0xFF)\<rparr>, s))"

definition pci_device_exists :: "u8 \<Rightarrow> u8 \<Rightarrow> u8 \<Rightarrow> pci \<Rightarrow> bool \<times> pci" where
  "pci_device_exists b d f s = (let (vendor, s) = pci_config_read16 b d f 0x00 s in (vendor \<noteq> 0xFFFF, s))"

definition visit_function :: "(pci_device \<Rightarrow> 'u \<Rightarrow> 'u) \<Rightarrow> u8 \<Rightarrow> u8 \<Rightarrow> nat \<Rightarrow> 'u \<times> pci \<Rightarrow> 'u \<times> pci" where
  "visit_function visit b d f us =
     (let (u, s) = us; (ex, s) = pci_device_exists b d (of_nat f) s
      in if \<not> ex then (u, s)
         else let (dev, s) = pci_fill_device b d (of_nat f) s in (visit dev u, s))"

definition visit_device :: "(pci_device \<Rightarrow> 'u \<Rightarrow> 'u) \<Rightarrow> u8 \<Rightarrow> u8 \<Rightarrow> 'u \<times> pci \<Rightarrow> 'u \<times> pci" where
  "visit_device visit b d us =
     (let (u, s) = us; (ex, s) = pci_device_exists b d 0 s
      in if \<not> ex then (u, s)
         else let (dev, s) = pci_fill_device b d 0 s; u = visit dev u
              in if header_type dev AND 0x80 \<noteq> 0 then fold (visit_function visit b d) [1..<8] (u, s) else (u, s))"

definition pci_for_each_device :: "(pci_device \<Rightarrow> 'u \<Rightarrow> 'u) \<Rightarrow> 'u \<Rightarrow> pci \<Rightarrow> 'u \<times> pci" where
  "pci_for_each_device visit u s =
     fold (\<lambda>b. fold (\<lambda>d. visit_device visit (of_nat b) (of_nat d)) [0..<32]) [0..<256] (u, s)"

definition print_visitor :: "pci_device \<Rightarrow> terminal \<Rightarrow> terminal" where
  "print_visitor dev t =
     (let t = terminal_write_uint (ucast (bus dev)) (terminal_writestring ''  '' t);
          t = terminal_write_uint (ucast (device dev)) (terminal_writestring '':'' t);
          t = terminal_write_uint (ucast (func dev)) (terminal_writestring ''.'' t);
          t = terminal_write_hex (ucast (vendor_id dev)) (terminal_writestring ''  vendor='' t);
          t = terminal_write_hex (ucast (device_id dev)) (terminal_writestring '' device='' t);
          t = terminal_write_hex (ucast (class_code dev)) (terminal_writestring '' class='' t);
          t = terminal_write_hex (ucast (sub_class dev)) (terminal_writestring '' subclass='' t)
      in terminal_writestring [CHR 0x0A] t)"

definition pci_scan_and_print :: "terminal \<Rightarrow> pci \<Rightarrow> terminal \<times> pci" where
  "pci_scan_and_print t s = pci_for_each_device print_visitor (terminal_writestring (''PCI devices:'' @ [CHR 0x0A]) t) s"

text \<open>The context of a search: what was found.\<close>

definition find_by_id_visitor :: "u16 \<Rightarrow> u16 \<Rightarrow> pci_device \<Rightarrow> pci_device option \<Rightarrow> pci_device option" where
  "find_by_id_visitor vendor dev_id dev found =
     (if found \<noteq> None then found
      else if vendor_id dev = vendor \<and> device_id dev = dev_id then Some dev else found)"

definition pci_find_device :: "u16 \<Rightarrow> u16 \<Rightarrow> pci \<Rightarrow> pci_device option \<times> pci" where
  "pci_find_device vendor dev_id s = pci_for_each_device (find_by_id_visitor vendor dev_id) None s"

definition find_by_class_visitor :: "u8 \<Rightarrow> u8 \<Rightarrow> pci_device \<Rightarrow> pci_device option \<Rightarrow> pci_device option" where
  "find_by_class_visitor c sc dev found =
     (if found \<noteq> None then found
      else if class_code dev = c \<and> sub_class dev = sc then Some dev else found)"

definition pci_find_by_class :: "u8 \<Rightarrow> u8 \<Rightarrow> pci \<Rightarrow> pci_device option \<times> pci" where
  "pci_find_by_class c sc s = pci_for_each_device (find_by_class_visitor c sc) None s"

definition pci_enable_bus_mastering :: "pci_device \<Rightarrow> pci \<Rightarrow> pci" where
  "pci_enable_bus_mastering dev s =
     (let (command, s) = pci_config_read16 (bus dev) (device dev) (func dev) 0x04 s
      in pci_config_write16 (bus dev) (device dev) (func dev) 0x04 (command OR 0x0004) s)"

section \<open>Platform\<close>

text \<open>The functions of one device until the break of a device that has only one.\<close>

fun has_vendor_functions :: "u16 \<Rightarrow> u8 \<Rightarrow> u8 \<Rightarrow> nat list \<Rightarrow> pci \<Rightarrow> bool \<times> pci" where
  "has_vendor_functions vendor b d [] s = (False, s)"
| "has_vendor_functions vendor b d (fn # fns) s =
     (let (v, s) = pci_config_read16 b d (of_nat fn) 0x00 s
      in if v = vendor then (True, s)
         else if fn = 0
         then let (w, s) = pci_config_read16 b d (of_nat fn) 0x0E s; ht = ucast (w AND 0xFF) :: u8
              in if ht AND 0x80 = 0 then (False, s) else has_vendor_functions vendor b d fns s
         else has_vendor_functions vendor b d fns s)"

fun has_vendor_slots :: "u16 \<Rightarrow> (nat \<times> nat) list \<Rightarrow> pci \<Rightarrow> bool \<times> pci" where
  "has_vendor_slots vendor [] s = (False, s)"
| "has_vendor_slots vendor ((b, d) # slots) s =
     (let (found, s) = has_vendor_functions vendor (of_nat b) (of_nat d) [0..<8] s
      in if found then (True, s) else has_vendor_slots vendor slots s)"

definition pci_has_vendor :: "u16 \<Rightarrow> pci \<Rightarrow> bool \<times> pci" where
  "pci_has_vendor vendor s = has_vendor_slots vendor (List.product [0..<2] [0..<32]) s"

record platform =
  g_vbox :: bool
  g_inited :: bool

definition platform_init :: "platform \<times> pci \<Rightarrow> platform \<times> pci" where
  "platform_init ps =
     (let (p, s) = ps; (v, s) = pci_has_vendor 0x80EE s in (p\<lparr>g_vbox := v, g_inited := True\<rparr>, s))"

definition platform_is_virtualbox :: "platform \<times> pci \<Rightarrow> bool \<times> platform \<times> pci" where
  "platform_is_virtualbox ps = (let ps = (if \<not> g_inited (fst ps) then platform_init ps else ps) in (g_vbox (fst ps), ps))"

section \<open>Registers\<close>

text \<open>The enable bit is always set, and addresses of different registers differ.\<close>

lemma address_enabled: "bit (pci_make_address b d f offset) 31"
  by (simp add: pci_make_address_def bit_simps)

lemma address_fields:
  "take_bit 8 (drop_bit 16 (pci_make_address b d f offset)) = ucast b"
  "take_bit 5 (drop_bit 11 (pci_make_address b d f offset)) = ucast (take_bit 5 d)"
  "take_bit 3 (drop_bit 8 (pci_make_address b d f offset)) = ucast (take_bit 3 f)"
  "take_bit 8 (pci_make_address b d f offset) = ucast (offset AND 0xFC)"
proof -
  have m: "(0x1F :: u8) = mask 5" "(0x07 :: u8) = mask 3" by (simp_all add: mask_eq_exp_minus_1)
  have e: "bit (0x80000000 :: u32) n \<longleftrightarrow> n = 31" for n
    using bit_push_bit_iff [of 31 "1 :: u32" n] by (auto simp: bit_simps)
  show "take_bit 8 (drop_bit 16 (pci_make_address b d f offset)) = ucast b"
    "take_bit 5 (drop_bit 11 (pci_make_address b d f offset)) = ucast (take_bit 5 d)"
    "take_bit 3 (drop_bit 8 (pci_make_address b d f offset)) = ucast (take_bit 3 f)"
    "take_bit 8 (pci_make_address b d f offset) = ucast (offset AND 0xFC)"
    by (rule bit_word_eqI; auto simp: pci_make_address_def bit_simps m e dest: bit_imp_le_length)+
qed

text \<open>What the registers of a function say, read off the configuration space alone.\<close>

definition dev_at :: "(u32 \<Rightarrow> u32) \<Rightarrow> u8 \<Rightarrow> u8 \<Rightarrow> u8 \<Rightarrow> pci_device" where
  "dev_at cfg b d f =
     (let r = (\<lambda>o'. cfg (pci_make_address b d f o'))
      in \<lparr>bus = b, device = d, func = f, vendor_id = ucast (r 0), device_id = ucast (drop_bit 16 (r 0)),
          class_code = ucast (drop_bit 24 (r 0x08)), sub_class = ucast (drop_bit 16 (r 0x08)),
          prog_if = ucast (drop_bit 8 (r 0x08)), header_type = ucast (drop_bit 16 (r 0x0C)),
          bar = map r [0x10, 0x14, 0x18, 0x1C, 0x20, 0x24], interrupt_line = ucast (r 0x3C)\<rparr>)"

definition present :: "(u32 \<Rightarrow> u32) \<Rightarrow> u8 \<Rightarrow> u8 \<Rightarrow> u8 \<Rightarrow> bool" where
  "present cfg b d f \<longleftrightarrow> vendor_id (dev_at cfg b d f) \<noteq> 0xFFFF"

definition multi :: "(u32 \<Rightarrow> u32) \<Rightarrow> u8 \<Rightarrow> u8 \<Rightarrow> bool" where
  "multi cfg b d \<longleftrightarrow> bit (header_type (dev_at cfg b d 0)) 7"

definition pci_list :: "(u32 \<Rightarrow> u32) \<Rightarrow> pci_device list" where
  "pci_list cfg =
     map (\<lambda>(b, d, f). dev_at cfg (of_nat b) (of_nat d) (of_nat f))
       (filter (\<lambda>(b, d, f). present cfg (of_nat b) (of_nat d) 0
          \<and> (f = 0 \<or> multi cfg (of_nat b) (of_nat d) \<and> present cfg (of_nat b) (of_nat d) (of_nat f)))
          (List.product [0..<256] (List.product [0..<32] [0..<8])))"

lemma read32: "pci_config_read32 b d f offset s =
    (config s (pci_make_address b d f offset), s\<lparr>config_address := pci_make_address b d f offset\<rparr>)"
  by (simp add: pci_config_read32_def pci_inl_def address_enabled)

lemma ucast_low: "(ucast (w AND 0xFFFF) :: u16) = ucast (w :: u32)" "(ucast (w AND 0xFF) :: u8) = ucast w"
proof -
  have m: "(0xFFFF :: u32) = mask 16" "(0xFF :: u32) = mask 8" by (simp_all add: mask_eq_exp_minus_1)
  show "(ucast (w AND 0xFFFF) :: u16) = ucast (w :: u32)" "(ucast (w AND 0xFF) :: u8) = ucast w"
    by (rule bit_word_eqI; simp add: bit_simps m)+
qed

lemma bit7_test: "(h :: u8) AND 0x80 \<noteq> 0 \<longleftrightarrow> bit h 7"
proof -
  have "(0x80 :: u8) = push_bit 7 1" by simp
  then show ?thesis by (metis and_exp_eq_0_iff_not_bit push_bit_eq_mult mult_1)
qed

lemma fill_device: "\<exists>a. pci_fill_device b d f s = (dev_at (config s) b d f, s\<lparr>config_address := a\<rparr>)"
  by (simp add: pci_fill_device_def dev_at_def read32 ucast_low upt_rec) blast

lemma exists_present: "\<exists>a. pci_device_exists b d f s = (present (config s) b d f, s\<lparr>config_address := a\<rparr>)"
  by (simp add: pci_device_exists_def pci_config_read16_def read32 present_def dev_at_def ucast_low) blast

section \<open>The scan\<close>

text \<open>A step of the scan calls the visitor on some devices and leaves the configuration space as it is.\<close>

definition scans :: "('u \<times> pci \<Rightarrow> 'u \<times> pci) \<Rightarrow> (pci_device \<Rightarrow> 'u \<Rightarrow> 'u) \<Rightarrow> ((u32 \<Rightarrow> u32) \<Rightarrow> pci_device list) \<Rightarrow> bool" where
  "scans g visit devs \<longleftrightarrow> (\<forall>u s. \<exists>a. g (u, s) = (fold visit (devs (config s)) u, s\<lparr>config_address := a\<rparr>))"

lemma scans_fold:
  assumes "\<And>k. k \<in> set ks \<Longrightarrow> scans (g k) visit (devs k)"
  shows "scans (fold g ks) visit (\<lambda>cfg. concat (map (\<lambda>k. devs k cfg) ks))"
  using assms
proof (induction ks)
  case Nil
  show ?case unfolding scans_def by (metis (no_types) concat.simps(1) fold_Nil id_apply list.simps(8) pci.surjective pci.update_convs(1))
next
  case (Cons k ks)
  then have h: "scans (g k) visit (devs k)" "scans (fold g ks) visit (\<lambda>cfg. concat (map (\<lambda>k. devs k cfg) ks))" by simp_all
  show ?case unfolding scans_def
  proof (intro allI)
    fix u s
    obtain a where a: "g k (u, s) = (fold visit (devs k (config s)) u, s\<lparr>config_address := a\<rparr>)" using h(1) unfolding scans_def by blast
    obtain a' where "fold g ks (fold visit (devs k (config s)) u, s\<lparr>config_address := a\<rparr>) =
        (fold visit (concat (map (\<lambda>k. devs k (config s)) ks)) (fold visit (devs k (config s)) u), s\<lparr>config_address := a'\<rparr>)"
      using h(2) [unfolded scans_def, rule_format, of "fold visit (devs k (config s)) u" "s\<lparr>config_address := a\<rparr>"] by auto
    then show "\<exists>a. fold g (k # ks) (u, s) = (fold visit (concat (map (\<lambda>k. devs k (config s)) (k # ks))) u, s\<lparr>config_address := a\<rparr>)"
      using a by auto
  qed
qed

lemma scans_function:
  "scans (visit_function visit b d f) visit (\<lambda>cfg. if present cfg b d (of_nat f) then [dev_at cfg b d (of_nat f)] else [])"
  unfolding scans_def
proof (intro allI)
  fix u s
  obtain a where a: "pci_device_exists b d (of_nat f) s = (present (config s) b d (of_nat f), s\<lparr>config_address := a\<rparr>)"
    using exists_present by blast
  obtain a' where "pci_fill_device b d (of_nat f) (s\<lparr>config_address := a\<rparr>) = (dev_at (config s) b d (of_nat f), s\<lparr>config_address := a'\<rparr>)"
    using fill_device [of b d "of_nat f" "s\<lparr>config_address := a\<rparr>"] by auto
  then show "\<exists>a. visit_function visit b d f (u, s) =
      (fold visit (if present (config s) b d (of_nat f) then [dev_at (config s) b d (of_nat f)] else []) u, s\<lparr>config_address := a\<rparr>)"
    using a by (auto simp: visit_function_def)
qed

lemma scans_cong: "scans g visit devs \<Longrightarrow> (\<And>cfg. devs cfg = devs' cfg) \<Longrightarrow> scans g visit devs'"
  by (simp add: scans_def)

definition slot_list :: "u8 \<Rightarrow> u8 \<Rightarrow> (u32 \<Rightarrow> u32) \<Rightarrow> pci_device list" where
  "slot_list b d cfg =
     (if present cfg b d 0
      then dev_at cfg b d 0 # (if multi cfg b d
        then concat (map (\<lambda>f. if present cfg b d (of_nat f) then [dev_at cfg b d (of_nat f)] else []) [1..<8]) else [])
      else [])"

lemma scans_functions:
  "scans (fold (visit_function visit b d) fs) visit
     (\<lambda>cfg. concat (map (\<lambda>f. if present cfg b d (of_nat f) then [dev_at cfg b d (of_nat f)] else []) fs))"
  by (intro scans_fold scans_function)

lemma scans_device: "scans (visit_device visit b d) visit (slot_list b d)"
  unfolding scans_def
proof (intro allI)
  fix u s
  obtain a where a: "pci_device_exists b d 0 s = (present (config s) b d 0, s\<lparr>config_address := a\<rparr>)" using exists_present by blast
  obtain a' where a': "pci_fill_device b d 0 (s\<lparr>config_address := a\<rparr>) = (dev_at (config s) b d 0, s\<lparr>config_address := a'\<rparr>)"
    using fill_device [of b d 0 "s\<lparr>config_address := a\<rparr>"] by auto
  let ?v = "visit (dev_at (config s) b d 0) u"
  have c: "config (s\<lparr>config_address := a'\<rparr>) = config s" by simp
  obtain a'' where "fold (visit_function visit b d) [1..<8] (?v, s\<lparr>config_address := a'\<rparr>) =
      (fold visit (concat (map (\<lambda>f. if present (config s) b d (of_nat f) then [dev_at (config s) b d (of_nat f)] else []) [1..<8])) ?v,
       s\<lparr>config_address := a''\<rparr>)"
    using scans_functions [unfolded scans_def, rule_format, of visit b d "[1..<8]" ?v "s\<lparr>config_address := a'\<rparr>"] unfolding c by auto
  moreover have "header_type (dev_at (config s) b d 0) AND 0x80 \<noteq> 0 \<longleftrightarrow> multi (config s) b d" by (simp only: bit7_test multi_def)
  ultimately show "\<exists>a. visit_device visit b d (u, s) = (fold visit (slot_list b d (config s)) u, s\<lparr>config_address := a\<rparr>)"
    using a a' by (simp add: visit_device_def slot_list_def del: upt_Suc) blast
qed

lemma slot_list_filter:
  "slot_list b d cfg = map (\<lambda>f. dev_at cfg b d (of_nat f))
     (filter (\<lambda>f. present cfg b d 0 \<and> (f = 0 \<or> multi cfg b d \<and> present cfg b d (of_nat f))) [0..<8])"
  by (simp add: slot_list_def upt_rec)

lemma pci_list_slots:
  "pci_list cfg = concat (map (\<lambda>b. concat (map (\<lambda>d. slot_list (of_nat b) (of_nat d) cfg) [0..<32])) [0..<256])"
proof -
  have "map h (filter Q (List.product bs (List.product ds fs))) =
      concat (map (\<lambda>b. concat (map (\<lambda>d. map (\<lambda>f. h (b, d, f)) (filter (\<lambda>f. Q (b, d, f)) fs)) ds)) bs)"
    for h :: "nat \<times> nat \<times> nat \<Rightarrow> pci_device" and Q bs ds fs
    by (simp add: product_concat_map filter_concat map_concat comp_def filter_map)
  then show ?thesis unfolding pci_list_def slot_list_filter by (simp add: split_def)
qed

lemma pci_for_each_device_list:
  "\<exists>a. pci_for_each_device visit u s = (fold visit (pci_list (config s)) u, s\<lparr>config_address := a\<rparr>)"
proof -
  have "scans (fold (\<lambda>b. fold (\<lambda>d. visit_device visit (of_nat b) (of_nat d)) [0..<32]) [0..<256]) visit
      (\<lambda>cfg. concat (map (\<lambda>b. concat (map (\<lambda>d. slot_list (of_nat b) (of_nat d) cfg) [0..<32])) [0..<256]))"
    by (intro scans_fold scans_device)
  then show ?thesis unfolding scans_def pci_for_each_device_def pci_list_slots by blast
qed

lemma fold_first:
  "fold (\<lambda>x r. if r \<noteq> None then r else if Q x then Some x else r) xs r = (case r of None \<Rightarrow> List.find Q xs | Some y \<Rightarrow> Some y)"
  by (induction xs arbitrary: r) (auto split: option.splits)

text \<open>C31. The scan visits exactly the functions present, each once and in the order of bus, device and function: function 0 of
  every slot with a vendor, and the others where function 0 says that there are several. So a search by vendor and device,
  or by class and subclass, yields the first such function and fails exactly when there is none; the listing prints
  them all; and nothing of the configuration space changes.\<close>

theorem pci_scan_correct:
  "fst (pci_find_device v i s) = List.find (\<lambda>dev. vendor_id dev = v \<and> device_id dev = i) (pci_list (config s))
   \<and> fst (pci_find_by_class c sc s) = List.find (\<lambda>dev. class_code dev = c \<and> sub_class dev = sc) (pci_list (config s))
   \<and> fst (pci_scan_and_print t s) =
       fold print_visitor (pci_list (config s)) (terminal_writestring (''PCI devices:'' @ [CHR 0x0A]) t)
   \<and> config (snd (pci_find_device v i s)) = config s \<and> config (snd (pci_find_by_class c sc s)) = config s
   \<and> config (snd (pci_scan_and_print t s)) = config s"
proof -
  have e: "fst (pci_for_each_device visit u s) = fold visit (pci_list (config s)) u"
    "config (snd (pci_for_each_device visit u s)) = config s" for visit :: "pci_device \<Rightarrow> 'u \<Rightarrow> 'u" and u
    using pci_for_each_device_list [of visit u s] by auto
  show ?thesis
    unfolding pci_find_device_def pci_find_by_class_def pci_scan_and_print_def e find_by_id_visitor_def [abs_def]
      find_by_class_visitor_def [abs_def] fold_first by simp
qed

section \<open>Bus mastering\<close>

text \<open>Enabling bus mastering writes one register of the function, the word of command and status, with the bit added. The
  status half is written back as it was read, which a status bit that is cleared by a one does not survive.\<close>

lemma pci_enable_bus_mastering_writes:
  "config (pci_enable_bus_mastering dev s) =
     (let a = pci_make_address (bus dev) (device dev) (func dev) 4
      in (config s)(a := accept s a (config s a) (config s a OR 4)))"
proof -
  have m: "(0xFFFF :: u32) = mask 16" by (simp add: mask_eq_exp_minus_1)
  have h: "(0xFFFF0000 :: u32) = push_bit 16 (mask 16)"
    by (simp add: mask_eq_exp_minus_1 push_bit_eq_mult)
  have four: "bit (4 :: u32) n \<longleftrightarrow> n = 2" "bit (4 :: u16) n \<longleftrightarrow> n = 2" "bit (4 :: nat) n \<longleftrightarrow> n = 2" "bit (4 :: int) n \<longleftrightarrow> n = 2" for n
    using bit_exp_iff [where 'a = u32 and m = 2 and n = n] bit_exp_iff [where 'a = u16 and m = 2 and n = n]
      bit_exp_iff [where 'a = nat and m = 2 and n = n] bit_exp_iff [where 'a = int and m = 2 and n = n] by auto
  have "(w AND 0xFFFF0000) OR ucast ((ucast (w AND 0xFFFF) :: u16) OR 4) = w OR 4" for w :: u32
    unfolding h m by (intro bit_word_eqI) (auto simp: bit_simps four)
  then show ?thesis
    by (simp add: pci_enable_bus_mastering_def pci_config_read16_def pci_config_write16_def pci_config_write32_def pci_outl_def
        read32 address_enabled Let_def)
qed

section \<open>The platform\<close>

lemma read16_vendor:
  "pci_config_read16 b d f 0 s = (vendor_id (dev_at (config s) b d f), s\<lparr>config_address := pci_make_address b d f 0\<rparr>)"
  by (simp add: pci_config_read16_def read32 dev_at_def ucast_low Let_def)

lemma read16_header:
  "\<exists>w. pci_config_read16 b d f 0x0E s = (w, s\<lparr>config_address := pci_make_address b d f 0x0C\<rparr>)
     \<and> (ucast (w AND 0xFF) :: u8) = header_type (dev_at (config s) b d f)"
proof -
  have "(ucast ((ucast w :: u16) AND 0xFF) :: u8) = ucast w" for w :: u32
  proof -
    have m: "(0xFF :: u16) = mask 8" by (simp add: mask_eq_exp_minus_1)
    show ?thesis by (rule bit_word_eqI) (simp add: bit_simps m)
  qed
  then show ?thesis by (simp add: pci_config_read16_def read32 dev_at_def Let_def)
qed

lemma has_vendor_later: "0 \<notin> set fns \<Longrightarrow> \<exists>a. has_vendor_functions v b d fns s =
    (\<exists>fn \<in> set fns. vendor_id (dev_at (config s) b d (of_nat fn)) = v, s\<lparr>config_address := a\<rparr>)"
proof (induction fns arbitrary: s)
  case Nil
  show ?case by (simp, metis pci.surjective pci.update_convs(1))
next
  case (Cons fn fns)
  let ?s = "s\<lparr>config_address := pci_make_address b d (of_nat fn) 0\<rparr>"
  obtain a where "has_vendor_functions v b d fns ?s =
      (\<exists>fn \<in> set fns. vendor_id (dev_at (config s) b d (of_nat fn)) = v, s\<lparr>config_address := a\<rparr>)"
    using Cons.IH [of ?s] Cons.prems by auto
  then show ?case using Cons.prems by (cases "vendor_id (dev_at (config s) b d (of_nat fn)) = v") (auto simp: read16_vendor)
qed

definition slot_has :: "u16 \<Rightarrow> (u32 \<Rightarrow> u32) \<Rightarrow> nat \<Rightarrow> nat \<Rightarrow> bool" where
  "slot_has v cfg b d \<longleftrightarrow> (\<exists>fn < 8. vendor_id (dev_at cfg (of_nat b) (of_nat d) (of_nat fn)) = v \<and> (fn = 0 \<or> multi cfg (of_nat b) (of_nat d)))"

lemma has_vendor_slot: "\<exists>a. has_vendor_functions v (of_nat b) (of_nat d) [0..<8] s = (slot_has v (config s) b d, s\<lparr>config_address := a\<rparr>)"
proof -
  let ?b = "of_nat b :: u8" and ?d = "of_nat d :: u8"
  have u: "[0..<8] = 0 # [1..<8 :: nat]" by (simp add: upt_conv_Cons)
  let ?s = "s\<lparr>config_address := pci_make_address ?b ?d 0 0\<rparr>"
  obtain w where w: "pci_config_read16 ?b ?d 0 0x0E ?s = (w, s\<lparr>config_address := pci_make_address ?b ?d 0 0x0C\<rparr>)"
      "(ucast (w AND 0xFF) :: u8) = header_type (dev_at (config s) ?b ?d 0)"
    using read16_header [of ?b ?d 0 ?s] by auto
  obtain a where a: "has_vendor_functions v ?b ?d [1..<8] (s\<lparr>config_address := pci_make_address ?b ?d 0 0x0C\<rparr>) =
      (\<exists>fn \<in> set [1..<8]. vendor_id (dev_at (config s) ?b ?d (of_nat fn)) = v, s\<lparr>config_address := a\<rparr>)"
    using has_vendor_later [of "[1..<8]" v ?b ?d "s\<lparr>config_address := pci_make_address ?b ?d 0 0x0C\<rparr>"] by auto
  have t: "header_type (dev_at (config s) ?b ?d 0) AND 0x80 = 0 \<longleftrightarrow> \<not> multi (config s) ?b ?d"
    using bit7_test by (metis multi_def)
  have split8: "(\<exists>fn < 8. P fn) \<longleftrightarrow> P 0 \<or> (\<exists>fn \<in> set [1..<8]. P fn)" for P :: "nat \<Rightarrow> bool"
    by (metis atLeastLessThan_iff atLeastLessThan_upt gr0I less_one not_le zero_less_numeral)
  show ?thesis
  proof (cases "vendor_id (dev_at (config s) ?b ?d 0) = v")
    case True
    then have "slot_has v (config s) b d" unfolding slot_has_def split8 by simp
    then show ?thesis using True by (auto simp: u read16_vendor simp del: upt_Suc)
  next
    case False
    then have "slot_has v (config s) b d \<longleftrightarrow> multi (config s) ?b ?d \<and> (\<exists>fn \<in> set [1..<8]. vendor_id (dev_at (config s) ?b ?d (of_nat fn)) = v)"
      unfolding slot_has_def split8 by auto
    then show ?thesis using False w a t by (auto simp: u read16_vendor Let_def simp del: upt_Suc)
  qed
qed

lemma has_vendor_slots_correct:
  "\<exists>a. has_vendor_slots v slots s = (\<exists>(b, d) \<in> set slots. slot_has v (config s) b d, s\<lparr>config_address := a\<rparr>)"
proof (induction slots arbitrary: s)
  case Nil
  show ?case by (simp, metis pci.surjective pci.update_convs(1))
next
  case (Cons p slots)
  obtain b d where p: "p = (b, d)" by (cases p)
  obtain a where a: "has_vendor_functions v (of_nat b) (of_nat d) [0..<8] s = (slot_has v (config s) b d, s\<lparr>config_address := a\<rparr>)"
    using has_vendor_slot by blast
  obtain a' where "has_vendor_slots v slots (s\<lparr>config_address := a\<rparr>) = (\<exists>(b, d) \<in> set slots. slot_has v (config s) b d, s\<lparr>config_address := a'\<rparr>)"
    using Cons.IH [of "s\<lparr>config_address := a\<rparr>"] by auto
  then show ?case using a by (cases "slot_has v (config s) b d") (auto simp: p simp del: upt_Suc)
qed

text \<open>The host is taken for VirtualBox exactly when a function on the first two buses has its vendor; the answer is kept.\<close>

lemma platform_is_virtualbox_correct:
  assumes "\<not> g_inited p"
  shows "\<exists>p' s'. platform_is_virtualbox (p, s) = ((\<exists>b < 2. \<exists>d < 32. slot_has 0x80EE (config s) b d), p', s') \<and> config s' = config s
    \<and> platform_is_virtualbox (p', s') = ((\<exists>b < 2. \<exists>d < 32. slot_has 0x80EE (config s) b d), p', s')"
proof -
  obtain a where "pci_has_vendor 0x80EE s = (\<exists>(b, d) \<in> set (List.product [0..<2] [0..<32]). slot_has 0x80EE (config s) b d, s\<lparr>config_address := a\<rparr>)"
    using has_vendor_slots_correct unfolding pci_has_vendor_def by blast
  moreover have "(\<exists>(b, d) \<in> set (List.product [0..<2] [0..<32]). slot_has 0x80EE (config s) b d) \<longleftrightarrow> (\<exists>b < 2. \<exists>d < 32. slot_has 0x80EE (config s) b d)"
    by (simp add: atLeast0LessThan) blast
  ultimately show ?thesis using assms by (simp add: platform_is_virtualbox_def platform_init_def)
qed

end
