(* ===== verification/Screen.thy ===== *)
theory Screen
  imports Gfx Pci
begin

text \<open>
  The screen the graphical programs share: the VGA card of \<open>src/src/gfx.c\<close> and the terminal of \<open>src/src/vga.c\<close> with its VBE
  framebuffer; the demonstration of \<open>src/src/vbe.c\<close>; and what the programs ask of the host platform. The characters that
  \<open>keyboard_getchar\<close> delivers are an argument, consumed from the front; \<open>None\<close> in place of the rest means that the program
  still waits for a key.
\<close>

record screen =
  vgac :: vga_card
  vt :: terminal

definition say :: "cstring \<Rightarrow> screen \<Rightarrow> screen" where
  "say s w = w\<lparr>vt := terminal_writestring s (vt w)\<rparr>"

definition saych :: "char \<Rightarrow> screen \<Rightarrow> screen" where
  "saych c w = w\<lparr>vt := terminal_putchar c (vt w)\<rparr>"

definition restore_text :: "screen \<Rightarrow> screen" where
  "restore_text w = (let (g, t) = gfx_restore_text (vgac w, vt w) in w\<lparr>vgac := g, vt := t\<rparr>)"

definition on_vbe :: "(vbe \<Rightarrow> vbe) \<Rightarrow> screen \<Rightarrow> screen" where
  "on_vbe f w = w\<lparr>vt := (vt w)\<lparr>video := f (video (vt w))\<rparr>\<rparr>"

definition line :: "cstring \<Rightarrow> cstring" where
  "line s = s @ [CHR 0x0A]"

definition vbe_get_info :: "screen \<Rightarrow> vbe_info" where
  "vbe_get_info w = g_vbe (video (vt w))"

definition demo_picture :: "vbe \<Rightarrow> vbe" where
  "demo_picture v =
     fold (\<lambda>i. vbe_fill_rect (40 + int i * 80) 80 60 60 (vbe_rgb (of_nat (i * 32)) (of_nat (255 - i * 20)) 128)) [0..<8]
       (vbe_clear 0x00000020 v)"

definition vbe_demo :: "dispi \<Rightarrow> string \<Rightarrow> screen \<Rightarrow> string option \<times> screen" where
  "vbe_demo ad keys w =
     (let w = say (line ''VBE: probe...'') w; (ok, v) = vbe_probe ad (video (vt w)); w = on_vbe (\<lambda>_. v) w
      in if \<not> ok then (Some keys, say (line ''VBE: DISPI not available (ok on VirtualBox)'') w)
         else let w = say (line ''VBE: setting 800x600x32...'') w; (r, v) = vbe_set_mode ad 1 (video (vt w)); w = on_vbe (\<lambda>_. v) w
              in if r \<noteq> 0 then (Some keys, say (line ''VBE: set_mode failed'') w)
                 else let t = terminal_write_hex (lfb (vbe_get_info w)) (terminal_writestring ''VBE: LFB='' (vt w));
                          t = terminal_write_uint (of_nat (width (vbe_get_info w))) (terminal_writestring '' '' t);
                          t = terminal_write_uint (of_nat (height (vbe_get_info w))) (terminal_writestring ''x'' t);
                          w = saych (CHR 0x0A) (w\<lparr>vt := t\<rparr>);
                          w = say (line ''VBE demo: press any key to restore text'') (on_vbe demo_picture w)
                      in case keys of
                           [] \<Rightarrow> (None, w)
                         | _ # keys \<Rightarrow> (Some keys, restore_text (on_vbe vbe_disable w)))"

section \<open>The host\<close>

type_synonym host = "platform \<times> pci"

definition platform_has_vbe :: "dispi \<Rightarrow> host \<times> vbe \<Rightarrow> bool \<times> host \<times> vbe" where
  "platform_has_vbe ad hv =
     (let (h, v) = hv; (vb, h) = platform_is_virtualbox h
      in if vb then (False, h, v) else let (ok, v) = vbe_probe ad v in (ok, h, v))"

end
