(* ===== verification/Settings.thy ===== *)
theory Settings
  imports Screen Fat32_Props
begin

text \<open>
  The settings (\<open>src/src/settings.c\<close>): the configuration, its text form in \<open>SETTINGS.CFG\<close>, and the menu. The properties: what is
  saved on a FAT volume is what a later load restores, and whatever keys are pressed and whatever text the file holds,
  the configuration stays one the rest of the system understands. The menu reads keys; those that \<open>kbd_drain\<close> throws
  away are not among the keys given. The beeps asked for are recorded.
\<close>

section \<open>Definitions\<close>

record system_settings =
  sound_enabled :: int
  gfx_mode :: int
  gfx_use_vbe :: int

record 'd sysconf =
  g_cfg :: system_settings
  scr :: screen
  host :: host
  vol :: "'d fat32"
  beeps :: "(u32 \<times> u32) list"

definition settings_init :: system_settings where
  "settings_init = \<lparr>sound_enabled = 1, gfx_mode = 1, gfx_use_vbe = 1\<rparr>"

text \<open>Comparison with the key: what is left of the line behind it.\<close>

fun after_key :: "cstring \<Rightarrow> cstring \<Rightarrow> cstring option" where
  "after_key [] l = Some l"
| "after_key (k # ks) [] = None"
| "after_key (k # ks) (c # cs) = (if c = k then after_key ks cs else None)"

text \<open>The digit loop on a 32-bit integer.\<close>

fun int_loop :: "cstring \<Rightarrow> u32 \<Rightarrow> bool \<Rightarrow> u32 \<times> bool" where
  "int_loop [] v any = (v, any)"
| "int_loop (c # cs) v any =
     (if is_digit c then int_loop cs (v * 10 + (of_char c - of_char (CHR ''0''))) True else (v, any))"

definition parse_int_after :: "cstring \<Rightarrow> cstring \<Rightarrow> int option" where
  "parse_int_after l key =
     (case after_key key l of
        None \<Rightarrow> None
      | Some rest \<Rightarrow>
          (case rest of
             [] \<Rightarrow> None
           | c # rest \<Rightarrow>
               if c \<noteq> CHR ''='' then None
               else let (neg, rest) = (case rest of d # ds \<Rightarrow> if d = CHR ''-'' then (True, ds) else (False, rest) | [] \<Rightarrow> (False, rest));
                        (v, any) = int_loop rest 0 False
                    in if \<not> any then None else Some (sint (if neg then - v else v))))"

definition apply_line :: "cstring \<Rightarrow> system_settings \<Rightarrow> system_settings" where
  "apply_line l cfg =
     (case parse_int_after l ''sound'' of
        Some v \<Rightarrow> cfg\<lparr>sound_enabled := (if v \<noteq> 0 then 1 else 0)\<rparr>
      | None \<Rightarrow>
          (case parse_int_after l ''gfx_mode'' of
             Some v \<Rightarrow> if v \<ge> 0 \<and> v \<le> 2 then cfg\<lparr>gfx_mode := v\<rparr> else cfg
           | None \<Rightarrow>
               (case parse_int_after l ''use_vbe'' of
                  Some v \<Rightarrow> cfg\<lparr>gfx_use_vbe := (if v \<noteq> 0 then 1 else 0)\<rparr>
                | None \<Rightarrow> cfg)))"

text \<open>A line ends at a line feed or after 63 characters.\<close>

fun take_line :: "nat \<Rightarrow> cstring \<Rightarrow> cstring \<times> cstring" where
  "take_line n [] = ([], [])"
| "take_line 0 (c # cs) = ([], c # cs)"
| "take_line (Suc n) (c # cs) =
     (if c = CHR 0x0A then ([], c # cs) else let (l, r) = take_line n cs in (c # l, r))"

lemma take_line_le: "take_line n s = (l, r) \<Longrightarrow> length r \<le> length s"
  by (induction n s arbitrary: l r rule: take_line.induct) (fastforce split: if_splits prod.splits)+

lemma take_line_newline [simp]: "take_line n (CHR 0x0A # cs) = ([], CHR 0x0A # cs)"
  by (cases n) simp_all

lemma take_line_less: "take_line (Suc n) (c # s) = (l, r) \<Longrightarrow> c \<noteq> CHR 0x0A \<Longrightarrow> length r \<le> length s"
  using take_line_le by (fastforce split: prod.splits)

function apply_cfg_text :: "cstring \<Rightarrow> system_settings \<Rightarrow> system_settings" where
  "apply_cfg_text s cfg =
     (if s = [] then cfg
      else let (l, r) = take_line 63 s; r = (case r of c # cs \<Rightarrow> if c = CHR 0x0A then cs else r | [] \<Rightarrow> r)
           in apply_cfg_text r (apply_line l cfg))"
  by auto
termination
proof (relation "measure (\<lambda>(s, cfg). length s)")
  fix s :: cstring and cfg :: system_settings and x l r r'
  assume s: "s \<noteq> []" "x = take_line 63 s" "(l, r) = x" "r' = (case r of c # cs \<Rightarrow> if c = CHR 0x0A then cs else r | [] \<Rightarrow> r)"
  obtain c cs where c: "s = c # cs" using s(1) by (cases s) auto
  have sixty: "(63 :: nat) = Suc 62" by simp
  have "take_line (Suc 62) (c # cs) = (l, r)" using s(2,3) c sixty by metis
  then have "c = CHR 0x0A \<and> r = s \<or> length r \<le> length cs"
    using take_line_less [of 62 c cs l r] c by (cases "c = CHR 0x0A") (simp_all del: take_line.simps)
  then have "length r' \<le> length cs" using s(4) c by (auto split: list.splits)
  then show "((r', apply_line l cfg), s, cfg) \<in> measure (\<lambda>(s, cfg). length s)" using c by simp
qed simp

declare apply_cfg_text.simps [simp del]

definition put_text :: "nat \<Rightarrow> cstring \<Rightarrow> cstring \<Rightarrow> cstring" where
  "put_text mx s buf = buf @ take (mx - 1 - length buf) s"

definition build_cfg_text :: "nat \<Rightarrow> system_settings \<Rightarrow> cstring" where
  "build_cfg_text mx cfg =
     (let buf = put_text mx ''sound='' [];
          buf = put_text mx [if sound_enabled cfg \<noteq> 0 then CHR ''1'' else CHR ''0''] buf;
          buf = put_text mx (CHR 0x0A # ''gfx_mode='') buf;
          buf = put_text mx [char_of (nat ((48 + sgn (gfx_mode cfg) * (\<bar>gfx_mode cfg\<bar> mod 10)) mod 256))] buf;
          buf = put_text mx (CHR 0x0A # ''use_vbe='') buf;
          buf = put_text mx [if gfx_use_vbe cfg \<noteq> 0 then CHR ''1'' else CHR ''0''] buf
      in put_text mx [CHR 0x0A] buf)"

definition tell :: "cstring \<Rightarrow> 'd sysconf \<Rightarrow> 'd sysconf" where
  "tell s w = w\<lparr>scr := say s (scr w)\<rparr>"

definition settings_load_fat :: "'d ports \<Rightarrow> 'd sysconf \<Rightarrow> (int \<times> 'd sysconf) option" where
  "settings_load_fat p w =
     (if \<not> fat32_is_mounted (vol w) then Some (-1, tell (line ''settings: FAT not mounted (fatmount first)'') w)
      else case fat32_read_file p ''SETTINGS.CFG'' 511 (vol w) of
             None \<Rightarrow> None
           | Some (r, bs, n, f) \<Rightarrow>
               let w = w\<lparr>vol := f\<rparr>
               in if r \<noteq> FAT_OK then Some (-1, tell (line ''settings: SETTINGS.CFG not found (save first)'') w)
                  else let s = takeWhile (\<lambda>c. c \<noteq> CHR 0x00) (map char_of_byte (take n bs))
                       in Some (0, tell (line ''settings: loaded from SETTINGS.CFG'') (w\<lparr>g_cfg := apply_cfg_text s (g_cfg w)\<rparr>)))"

definition settings_save_fat :: "'d ports \<Rightarrow> 'd sysconf \<Rightarrow> (int \<times> 'd sysconf) option" where
  "settings_save_fat p w =
     (if \<not> fat32_is_mounted (vol w) then Some (-1, tell (line ''settings: FAT not mounted. Run: fatmount'') w)
      else case fat32_write p ''SETTINGS.CFG'' (build_cfg_text 256 (g_cfg w)) (vol w) of
             None \<Rightarrow> None
           | Some (r, f) \<Rightarrow>
               let w = w\<lparr>vol := f\<rparr>
               in if r \<noteq> FAT_OK
                  then Some (-1, w\<lparr>scr := saych (CHR 0x0A) (say (fat_strerror r) (say ''settings: FAT write failed: '' (scr w)))\<rparr>)
                  else Some (0, tell (line ''settings: saved to SETTINGS.CFG on FAT'') w))"


definition print_mode_name :: "int \<Rightarrow> 'd sysconf \<Rightarrow> 'd sysconf" where
  "print_mode_name m w =
     (if m = 0 then tell ''640x480'' w else if m = 1 then tell ''800x600'' w else if m = 2 then tell ''1024x768'' w else tell ''?'' w)"

definition show_status :: "'d sysconf \<Rightarrow> 'd sysconf" where
  "show_status w =
     (let w = tell ''  sound: '' (tell (line ''--- current ---'') w);
          w = tell (line (if sound_enabled (g_cfg w) \<noteq> 0 then ''on'' else ''off'')) w;
          w = print_mode_name (gfx_mode (g_cfg w)) (tell ''  gfx:   '' w)
      in tell (line (if gfx_use_vbe (g_cfg w) \<noteq> 0 then '' (VBE)'' else '' (Mode13 prefer)'')) w)"

definition menu_text :: cstring where
  "menu_text = concat (map line
     [''  1) Toggle sound'', ''  2) System res: 640x480 (VBE console)'', ''  3) System res: 800x600 (VBE console)'',
      ''  4) System res: 1024x768 (VBE console)'', ''  5) Prefer VBE + enable FB console'', ''  6) Prefer Mode13 + text 80x25'',
      ''  7) Test VBE now (demo)'', ''  8) Save to FAT (SETTINGS.CFG)'', ''  9) Load from FAT'', ''  0) Exit''])"

definition ask_host :: "'d sysconf \<Rightarrow> bool \<times> 'd sysconf" where
  "ask_host w = (let (vb, h) = platform_is_virtualbox (host w) in (vb, w\<lparr>host := h\<rparr>))"

text \<open>What the menu does before it asks for the first key.\<close>

definition menu_enter :: "dispi \<Rightarrow> 'd sysconf \<Rightarrow> 'd sysconf" where
  "menu_enter ad w =
     (let w = w\<lparr>scr := (scr w)\<lparr>vt := terminal_disable_fb (vt (scr w))\<rparr>\<rparr>;
          g = gfx_is_graphics (vgac (scr w));
          (any, w) = (if g then (True, w) else ask_host w);
          w = (if any \<and> g then w\<lparr>scr := restore_text (scr w)\<rparr> else w);
          w = tell (CHR 0x0A # line ''=== MyKernel Settings ==='') w;
          (vb, w) = ask_host w;
          w = (if vb
               then let w = fold (\<lambda>s. tell (line s))
                              [''Host: VirtualBox detected'', ''  VBE/DISPI: not available '' @ [CHR 0xE2, CHR 0x80, CHR 0x94] @ '' use Mode13 for games'',
                               ''  desktop: needs QEMU (Bochs VBE)'', ''  sound: PC speaker often silent in VBox''] w
                    in w\<lparr>g_cfg := (g_cfg w)\<lparr>gfx_use_vbe := 0\<rparr>\<rparr>
               else let w = tell ''VBE DISPI: '' w; (ok, v) = vbe_probe ad (video (vt (scr w)))
                    in tell (line (if ok then ''yes (QEMU)'' else ''no'')) (w\<lparr>scr := on_vbe (\<lambda>_. v) (scr w)\<rparr>))
      in tell menu_text (show_status w))"

text \<open>Switching the console to a framebuffer mode, with the text for success.\<close>

definition menu_fb :: "dispi \<Rightarrow> int \<Rightarrow> cstring \<Rightarrow> 'd sysconf \<Rightarrow> 'd sysconf" where
  "menu_fb ad m ok w =
     (let (r, t) = terminal_enable_fb ad m (vt (scr w)); w = w\<lparr>scr := (scr w)\<lparr>vt := t\<rparr>\<rparr>
      in if r = 0 then tell (line ok) w
         else tell (line ''VBE failed'') (w\<lparr>g_cfg := (g_cfg w)\<lparr>gfx_use_vbe := 0\<rparr>\<rparr>))"

definition menu_mode :: "dispi \<Rightarrow> char \<Rightarrow> 'd sysconf \<Rightarrow> 'd sysconf" where
  "menu_mode ad c w =
     (let (vb, w) = ask_host w
      in if vb
         then let w = tell (line ''VBE console not supported on VirtualBox.'') w;
                  w = tell (line ''Use option 6 (Mode13) or run under QEMU.'') w
              in w\<lparr>g_cfg := (g_cfg w)\<lparr>gfx_use_vbe := 0\<rparr>\<rparr>
         else if c = CHR ''2'' then menu_fb ad 0 ''system console: 640x480 VBE'' (w\<lparr>g_cfg := (g_cfg w)\<lparr>gfx_mode := 0, gfx_use_vbe := 1\<rparr>\<rparr>)
         else if c = CHR ''3'' then menu_fb ad 1 ''system console: 800x600 VBE'' (w\<lparr>g_cfg := (g_cfg w)\<lparr>gfx_mode := 1, gfx_use_vbe := 1\<rparr>\<rparr>)
         else if c = CHR ''4'' then menu_fb ad 2 ''system console: 1024x768 VBE'' (w\<lparr>g_cfg := (g_cfg w)\<lparr>gfx_mode := 2, gfx_use_vbe := 1\<rparr>\<rparr>)
         else menu_fb ad (gfx_mode (g_cfg w)) ''prefer VBE + FB console on'' (w\<lparr>g_cfg := (g_cfg w)\<lparr>gfx_use_vbe := 1\<rparr>\<rparr>))"

text \<open>The demonstration, the only choice that reads keys of its own.\<close>

definition menu_test :: "dispi \<Rightarrow> string \<Rightarrow> 'd sysconf \<Rightarrow> string option \<times> 'd sysconf" where
  "menu_test ad keys w =
     (let (vb, w) = ask_host w;
          (keys, w) = (if vb then (Some keys, tell (line ''VBE demo skipped on VirtualBox'') w)
                       else let (keys, sc) = vbe_demo ad keys (scr w) in (keys, w\<lparr>scr := sc\<rparr>))
      in (keys, if keys = None then w else w\<lparr>scr := restore_text (scr w)\<rparr>))"

text \<open>One choice other than leaving: the keys left (\<open>None\<close> when the demonstration waits) and the state, before the status is shown.\<close>

definition menu_choice :: "dispi \<Rightarrow> 'd ports \<Rightarrow> char \<Rightarrow> string \<Rightarrow> 'd sysconf \<Rightarrow> (string option \<times> 'd sysconf) option" where
  "menu_choice ad p c keys w =
     (if c = CHR ''1''
      then let w = w\<lparr>g_cfg := (g_cfg w)\<lparr>sound_enabled := (if sound_enabled (g_cfg w) = 0 then 1 else 0)\<rparr>\<rparr>;
               on = sound_enabled (g_cfg w) \<noteq> 0;
               w = tell (line (if on then ''sound on'' else ''sound off'')) w
           in Some (Some keys, if on then w\<lparr>beeps := beeps w @ [(880, 80)]\<rparr> else w)
      else if c \<in> {CHR ''2'', CHR ''3'', CHR ''4'', CHR ''5''} then Some (Some keys, menu_mode ad c w)
      else if c = CHR ''6''
      then let w = w\<lparr>g_cfg := (g_cfg w)\<lparr>gfx_use_vbe := 0\<rparr>\<rparr>;
               w = w\<lparr>scr := restore_text ((scr w)\<lparr>vt := terminal_disable_fb (vt (scr w))\<rparr>)\<rparr>
           in Some (Some keys, tell (line ''prefer Mode13, text 80x25 restored'') w)
      else if c = CHR ''7''
      then Some (menu_test ad keys w)
      else if c = CHR ''8'' then map_option (\<lambda>(r, w). (Some keys, w)) (settings_save_fat p w)
      else if c = CHR ''9'' then map_option (\<lambda>(r, w). (Some keys, w)) (settings_load_fat p w)
      else Some (Some keys, w))"

definition menu_key :: "char \<Rightarrow> bool" where
  "menu_key c \<longleftrightarrow> is_digit c \<or> c = CHR ''q'' \<or> c = CHR ''Q''"

text \<open>\<open>settings_wait_key\<close>: the first key of the menu, and the keys behind it.\<close>

definition settings_wait_key :: "string \<Rightarrow> (char \<times> string) option" where
  "settings_wait_key keys = (case dropWhile (\<lambda>c. \<not> menu_key c) keys of [] \<Rightarrow> None | c # cs \<Rightarrow> Some (c, cs))"

definition menu_round :: "dispi \<Rightarrow> 'd ports \<Rightarrow> string \<Rightarrow> 'd sysconf \<Rightarrow> (bool \<times> string option \<times> 'd sysconf) option" where
  "menu_round ad p keys w =
     (let w = tell ''settings> '' w
      in case settings_wait_key keys of
           None \<Rightarrow> Some (True, None, w)
         | Some (c, keys) \<Rightarrow>
             if c = CHR ''0'' \<or> c = CHR ''q'' \<or> c = CHR ''Q'' then Some (True, Some keys, w\<lparr>scr := saych (CHR 0x0A) (scr w)\<rparr>)
             else let w = w\<lparr>scr := saych (CHR 0x0A) (saych c (scr w))\<rparr>
                  in case menu_choice ad p c keys w of
                       None \<Rightarrow> None
                     | Some (None, w) \<Rightarrow> Some (True, None, w)
                     | Some (Some keys, w) \<Rightarrow> Some (False, Some keys, show_status w))"

text \<open>Rounds until a key leaves the menu; every round consumes a key, so the number of keys bounds them.\<close>

fun menu_rounds :: "dispi \<Rightarrow> 'd ports \<Rightarrow> nat \<Rightarrow> string \<Rightarrow> 'd sysconf \<Rightarrow> (string option \<times> 'd sysconf) option" where
  "menu_rounds ad p n keys w =
     (case menu_round ad p keys w of
        None \<Rightarrow> None
      | Some (stop, rest, w) \<Rightarrow>
          (case n of
             0 \<Rightarrow> Some (rest, w)
           | Suc n \<Rightarrow> (case (stop, rest) of (False, Some keys) \<Rightarrow> menu_rounds ad p n keys w | _ \<Rightarrow> Some (rest, w))))"

definition settings_menu :: "dispi \<Rightarrow> 'd ports \<Rightarrow> string \<Rightarrow> 'd sysconf \<Rightarrow> (string option \<times> 'd sysconf) option" where
  "settings_menu ad p keys w = menu_rounds ad p (length keys) keys (menu_enter ad w)"

section \<open>The text form\<close>

definition cfg_ok :: "system_settings \<Rightarrow> bool" where
  "cfg_ok c \<longleftrightarrow> sound_enabled c \<in> {0, 1} \<and> gfx_mode c \<in> {0, 1, 2} \<and> gfx_use_vbe c \<in> {0, 1}"


lemma apply_line_ok: "cfg_ok cfg \<Longrightarrow> cfg_ok (apply_line l cfg)"
  by (auto simp: apply_line_def cfg_ok_def split: option.splits)

text \<open>Whatever the text, the configuration stays within its ranges.\<close>

lemma apply_cfg_text_ok: "cfg_ok cfg \<Longrightarrow> cfg_ok (apply_cfg_text s cfg)"
proof (induction s cfg rule: apply_cfg_text.induct)
  case (1 s cfg)
  then show ?case
    by (subst apply_cfg_text.simps) (auto simp: apply_line_ok Let_def split: prod.splits)
qed

definition cfg_text :: "system_settings \<Rightarrow> cstring" where
  "cfg_text c = ''sound='' @ [digit_char (nat (sound_enabled c)), CHR 0x0A] @ ''gfx_mode='' @ [digit_char (nat (gfx_mode c)), CHR 0x0A]
     @ ''use_vbe='' @ [digit_char (nat (gfx_use_vbe c)), CHR 0x0A]"

lemma digit_chars:
  "digit_char 0 = CHR ''0''" "digit_char (Suc 0) = CHR ''1''" "digit_char 1 = CHR ''1''" "digit_char 2 = CHR ''2''"
  "char_of (48 :: nat) = CHR ''0''" "char_of (49 :: nat) = CHR ''1''" "char_of (50 :: nat) = CHR ''2''"
  by code_simp+

lemma put_text_fits: "length buf + length s < mx \<Longrightarrow> put_text mx s buf = buf @ s"
  by (simp add: put_text_def)

lemma build_cfg_text_value:
  assumes "cfg_ok c"
  shows "build_cfg_text 256 c = cfg_text c"
proof -
  have m: "char_of (nat ((48 + sgn (gfx_mode c) * (\<bar>gfx_mode c\<bar> mod 10)) mod 256)) = digit_char (nat (gfx_mode c))"
    using assms by (auto simp: cfg_ok_def digit_chars)
  have "(if sound_enabled c \<noteq> 0 then CHR ''1'' else CHR ''0'') = digit_char (nat (sound_enabled c))"
    "(if gfx_use_vbe c \<noteq> 0 then CHR ''1'' else CHR ''0'') = digit_char (nat (gfx_use_vbe c))"
    using assms by (auto simp: cfg_ok_def digit_chars)
  then show ?thesis unfolding build_cfg_text_def m Let_def by (simp add: put_text_fits cfg_text_def)
qed

lemma apply_cfg_text_line:
  assumes "take_line 63 s = (l, CHR 0x0A # r)" "s \<noteq> []"
  shows "apply_cfg_text s cfg = apply_cfg_text r (apply_line l cfg)"
  using assms by (subst apply_cfg_text.simps) simp

lemma take_line_plain: "list_all (\<lambda>c. c \<noteq> CHR 0x0A) l \<Longrightarrow> length l \<le> n \<Longrightarrow> take_line n (l @ CHR 0x0A # r) = (l, CHR 0x0A # r)"
proof (induction l arbitrary: n)
  case Nil
  then show ?case by (cases n) simp_all
next
  case (Cons c l)
  then show ?case by (cases n) simp_all
qed

lemma apply_cfg_text_step:
  "list_all (\<lambda>c. c \<noteq> CHR 0x0A) l \<Longrightarrow> length l \<le> 63 \<Longrightarrow> apply_cfg_text (l @ CHR 0x0A # r) cfg = apply_cfg_text r (apply_line l cfg)"
  by (rule apply_cfg_text_line) (simp_all add: take_line_plain)

lemma apply_lines:
  "b < 2 \<Longrightarrow> apply_line (''sound='' @ [digit_char b]) cfg = cfg\<lparr>sound_enabled := int b\<rparr>"
  "m < 3 \<Longrightarrow> apply_line (''gfx_mode='' @ [digit_char m]) cfg = cfg\<lparr>gfx_mode := int m\<rparr>"
  "b < 2 \<Longrightarrow> apply_line (''use_vbe='' @ [digit_char b]) cfg = cfg\<lparr>gfx_use_vbe := int b\<rparr>"
proof -
  have b: "b < 2 \<Longrightarrow> b = 0 \<or> b = 1" and m: "m < 3 \<Longrightarrow> m = 0 \<or> m = 1 \<or> m = 2" by auto
  show "b < 2 \<Longrightarrow> apply_line (''sound='' @ [digit_char b]) cfg = cfg\<lparr>sound_enabled := int b\<rparr>"
    "m < 3 \<Longrightarrow> apply_line (''gfx_mode='' @ [digit_char m]) cfg = cfg\<lparr>gfx_mode := int m\<rparr>"
    "b < 2 \<Longrightarrow> apply_line (''use_vbe='' @ [digit_char b]) cfg = cfg\<lparr>gfx_use_vbe := int b\<rparr>"
    using b m by (auto simp: apply_line_def parse_int_after_def digit_chars is_digit_def)
qed

lemma digit_not_newline: "d < 10 \<Longrightarrow> digit_char d \<noteq> CHR 0x0A"
proof
  assume "d < 10" "digit_char d = CHR 0x0A"
  then have "48 + d = (of_char (CHR 0x0A) :: nat)" by (metis of_char_digit_char)
  then show False by simp
qed

lemma cfg_round_trip:
  assumes "cfg_ok c"
  shows "apply_cfg_text (build_cfg_text 256 c) d = c"
proof -
  let ?a = "nat (sound_enabled c)" and ?m = "nat (gfx_mode c)" and ?v = "nat (gfx_use_vbe c)"
  have r: "?a < 2" "?m < 3" "?v < 2" "int ?a = sound_enabled c" "int ?m = gfx_mode c" "int ?v = gfx_use_vbe c"
    using assms by (auto simp: cfg_ok_def)
  have t: "cfg_text c = (''sound='' @ [digit_char ?a]) @ CHR 0x0A # ((''gfx_mode='' @ [digit_char ?m]) @ CHR 0x0A # ((''use_vbe='' @ [digit_char ?v]) @ CHR 0x0A # []))"
    by (simp add: cfg_text_def)
  have n: "digit_char ?a \<noteq> CHR 0x0A" "digit_char ?m \<noteq> CHR 0x0A" "digit_char ?v \<noteq> CHR 0x0A"
    using r(1-3) by (simp_all add: digit_not_newline)
  have "apply_cfg_text [] cfg = cfg" for cfg by (simp add: apply_cfg_text.simps)
  then have "apply_cfg_text (cfg_text c) d = d\<lparr>sound_enabled := int ?a, gfx_mode := int ?m, gfx_use_vbe := int ?v\<rparr>"
    unfolding t using n r(1-3)
    by (subst apply_cfg_text_step, simp, simp)+ (simp only: apply_lines)
  then show ?thesis using build_cfg_text_value [OF assms] r(4-6) by simp
qed

section \<open>Saving and loading\<close>

lemma char_byte_round [simp]: "char_of_byte (byte_of_char c) = c"
proof -
  have "(of_char c :: nat) < 256" by (rule nat_of_char_less_256)
  moreover have "(word_of_int (of_char c) :: u8) = of_nat (of_char c)" by (metis of_int_of_nat_eq of_nat_of_char)
  ultimately show ?thesis by (simp add: byte_of_char_def char_of_byte_def unsigned_of_nat take_bit_nat_eq_self)
qed

lemma cfg_text_read_back:
  assumes "cfg_ok c"
  shows "takeWhile (\<lambda>c. c \<noteq> CHR 0x00) (map char_of_byte (take (min 511 (length (cfg_text c))) (take 511 (map byte_of_char (cfg_text c))))) = cfg_text c"
proof -
  have len: "length (cfg_text c) = 29" by (simp add: cfg_text_def)
  have "d < 10 \<Longrightarrow> digit_char d \<noteq> CHR 0x00" for d
  proof
    assume "d < 10" "digit_char d = CHR 0x00"
    then have "48 + d = (of_char (CHR 0x00) :: nat)" by (metis of_char_digit_char)
    then show False by simp
  qed
  then have "\<forall>x \<in> set (cfg_text c). x \<noteq> CHR 0x00"
    using assms by (auto simp: cfg_text_def cfg_ok_def)
  then have "takeWhile (\<lambda>c. c \<noteq> CHR 0x00) (cfg_text c) = cfg_text c" by simp
  then show ?thesis using len by (simp add: comp_def)
qed

text \<open>C29. On a mounted volume with room, saving the settings succeeds, and loading them from the volume as it then is,
  at any later time and whatever the settings are then, succeeds and gives back exactly the saved ones.\<close>

theorem settings_save_load:
  assumes "cfg_ok (g_cfg w)" "volume_ok cap (vol w) rs" "not_directory ''SETTINGS.CFG'' (vol w) rs"
    "old_chain_ok (vol_fat (vol w)) (valid (vol w)) (vol_data (vol w)) rs ''SETTINGS.CFG''"
    "29 + cluster_bytes (vol w) \<le> card (vol_free (vol w)) * cluster_bytes (vol w)"
  shows "\<exists>w'. settings_save_fat pio w = Some (0, w') \<and> g_cfg w' = g_cfg w
    \<and> (\<forall>later. vol later = vol w' \<longrightarrow> (\<exists>w''. settings_load_fat pio later = Some (0, w'') \<and> g_cfg w'' = g_cfg w))"
proof -
  let ?t = "cfg_text (g_cfg w)"
  have t: "build_cfg_text 256 (g_cfg w) = ?t" using assms(1) by (rule build_cfg_text_value)
  have len: "length ?t = 29" by (simp add: cfg_text_def)
  have name: "usable_name ''SETTINGS.CFG''" by code_simp
  obtain f f' where f: "fat32_write pio ''SETTINGS.CFG'' ?t (vol w) = Some (FAT_OK, f)"
      "fat32_read_file pio ''SETTINGS.CFG'' 511 f = Some (FAT_OK, take 511 (map byte_of_char ?t), min 511 (length ?t), f')"
    using volume_write_read [OF assms(2,4) name assms(3), of ?t 511] assms(5) len by (auto simp: WRITE_MAX_BYTES_def)
  have m: "mounted (vol w)" using assms(2) by (simp add: volume_ok_def)
  have m': "mounted f" using f(2) by (auto simp: fat32_read_file_def split: if_splits)
  define w' where "w' = tell (line ''settings: saved to SETTINGS.CFG on FAT'') (w\<lparr>vol := f\<rparr>)"
  have "settings_save_fat pio w = Some (0, w')"
    using f(1) m by (simp add: settings_save_fat_def t fat32_is_mounted_def w'_def)
  moreover have "vol w' = f" "g_cfg w' = g_cfg w" by (simp_all add: w'_def tell_def)
  moreover have "\<exists>w''. settings_load_fat pio x = Some (0, w'') \<and> g_cfg w'' = g_cfg w" if "vol x = f" for x
  proof -
    have "apply_cfg_text ?t (g_cfg x) = g_cfg w" using cfg_round_trip [OF assms(1)] t by simp
    then show ?thesis using f(2) m' that cfg_text_read_back [OF assms(1)]
      by (simp add: settings_load_fat_def fat32_is_mounted_def tell_def Let_def)
  qed
  ultimately show ?thesis by blast
qed

definition demo_setup :: "drive sysconf" where
  "demo_setup = \<lparr>g_cfg = \<lparr>sound_enabled = 0, gfx_mode = 2, gfx_use_vbe = 1\<rparr>, scr = \<lparr>vgac = dark_card, vt = demo_terminal\<rparr>,
     host = (\<lparr>g_vbox = False, g_inited = False\<rparr>, \<lparr>config_address = 0, config = (\<lambda>a. 0xFFFFFFFF), accept = (\<lambda>a old v. v)\<rparr>),
     vol = demo_volume, beeps = []\<rparr>"

theorem settings_save_load_witness:
  "\<exists>w' w''. settings_save_fat pio demo_setup = Some (0, w') \<and> settings_load_fat pio (w'\<lparr>g_cfg := settings_init\<rparr>) = Some (0, w'')
     \<and> g_cfg w'' = \<lparr>sound_enabled = 0, gfx_mode = 2, gfx_use_vbe = 1\<rparr>"
proof -
  have c: "cfg_ok (g_cfg demo_setup)" "vol demo_setup = demo_volume" by (simp_all add: demo_setup_def cfg_ok_def)
  have o: "not_directory ''SETTINGS.CFG'' demo_volume [2]"
    "old_chain_ok (vol_fat demo_volume) (valid demo_volume) (vol_data demo_volume) [2] ''SETTINGS.CFG''"
    by (simp_all add: old_chain_ok_def not_directory_def demo_no_match del: located_simps)
  have "29 + cluster_bytes demo_volume \<le> card (vol_free demo_volume) * cluster_bytes demo_volume" using demo_free by simp
  then obtain w' where w': "settings_save_fat pio demo_setup = Some (0, w')"
      "\<forall>x. vol x = vol w' \<longrightarrow> (\<exists>w''. settings_load_fat pio x = Some (0, w'') \<and> g_cfg w'' = g_cfg demo_setup)"
    using settings_save_load [OF c(1), of 4096 "[2]"] demo_volume_ok o unfolding c(2) by blast
  have "vol (w'\<lparr>g_cfg := settings_init\<rparr>) = vol w'" by simp
  then obtain w'' where "settings_load_fat pio (w'\<lparr>g_cfg := settings_init\<rparr>) = Some (0, w'')" "g_cfg w'' = g_cfg demo_setup"
    using w'(2) by blast
  then show ?thesis using w'(1) by (auto simp: demo_setup_def)
qed

section \<open>The menu\<close>

text \<open>Reports do not touch the configuration.\<close>

lemma tell_cfg [simp]: "g_cfg (tell s w) = g_cfg w"
  by (simp add: tell_def)

lemma show_status_cfg [simp]: "g_cfg (show_status w) = g_cfg w"
  by (simp add: show_status_def print_mode_name_def Let_def)

lemma ask_host_cfg: "ask_host w = (vb, w') \<Longrightarrow> g_cfg w' = g_cfg w"
  by (auto simp: ask_host_def split: prod.splits)

lemma cfg_okI:
  "cfg_ok c \<Longrightarrow> cfg_ok (c\<lparr>gfx_use_vbe := 0\<rparr>)" "cfg_ok c \<Longrightarrow> cfg_ok (c\<lparr>gfx_use_vbe := 1\<rparr>)"
  "cfg_ok c \<Longrightarrow> m \<in> {0, 1, 2} \<Longrightarrow> cfg_ok (c\<lparr>gfx_mode := m, gfx_use_vbe := 1\<rparr>)"
  "cfg_ok c \<Longrightarrow> b \<in> {0, 1} \<Longrightarrow> cfg_ok (c\<lparr>sound_enabled := b\<rparr>)"
  by (simp_all add: cfg_ok_def)

lemma menu_fb_ok: "cfg_ok (g_cfg w) \<Longrightarrow> cfg_ok (g_cfg (menu_fb ad m ok w))"
  by (auto simp: menu_fb_def Let_def cfg_okI split: prod.splits)

lemma menu_mode_ok: "cfg_ok (g_cfg w) \<Longrightarrow> cfg_ok (g_cfg (menu_mode ad c w))"
  by (cases "ask_host w") (auto simp: menu_mode_def Let_def cfg_okI menu_fb_ok dest: ask_host_cfg)

lemma save_cfg: "settings_save_fat p w = Some (r, w') \<Longrightarrow> g_cfg w' = g_cfg w"
  by (auto simp: settings_save_fat_def Let_def tell_def split: if_splits option.splits prod.splits)

lemma load_cfg_ok: "settings_load_fat p w = Some (r, w') \<Longrightarrow> cfg_ok (g_cfg w) \<Longrightarrow> cfg_ok (g_cfg w')"
  by (auto simp: settings_load_fat_def Let_def tell_def apply_cfg_text_ok split: if_splits option.splits prod.splits)

lemma vbe_demo_keys: "vbe_demo ad keys w = (Some ks, w') \<Longrightarrow> \<exists>pre. keys = pre @ ks"
  by (auto simp: vbe_demo_def Let_def split: if_splits prod.splits list.splits)

lemma menu_test_ok:
  assumes "menu_test ad keys w = (ks, w')"
  shows "g_cfg w' = g_cfg w \<and> (\<forall>k. ks = Some k \<longrightarrow> (\<exists>pre. keys = pre @ k))"
proof -
  obtain vb w1 where h: "ask_host w = (vb, w1)" by (cases "ask_host w")
  obtain k2 sc where d: "vbe_demo ad keys (scr w1) = (k2, sc)" by (cases "vbe_demo ad keys (scr w1)")
  show ?thesis
  proof (cases vb)
    case True
    then show ?thesis using assms h ask_host_cfg [OF h] by (auto simp: menu_test_def)
  next
    case False
    then have "ks = k2 \<and> g_cfg w' = g_cfg w1" using assms h d by (auto simp: menu_test_def split: if_splits)
    then show ?thesis using ask_host_cfg [OF h] d vbe_demo_keys [of ad keys "scr w1"] by auto
  qed
qed

lemma menu_choice_ok:
  assumes "menu_choice ad p c keys w = Some (ks, w')" "cfg_ok (g_cfg w)"
  shows "cfg_ok (g_cfg w') \<and> (\<forall>k. ks = Some k \<longrightarrow> (\<exists>pre. keys = pre @ k))"
proof (cases "c = CHR ''7''")
  case True
  then have "menu_test ad keys w = (ks, w')"
    using assms(1) by (simp add: menu_choice_def)
  then show ?thesis using menu_test_ok [of ad keys w ks w'] assms(2) by simp
next
  case False
  then show ?thesis
    using assms menu_mode_ok [OF assms(2)] load_cfg_ok
    by (auto simp: menu_choice_def Let_def cfg_okI dest: save_cfg split: if_splits)
qed

lemma menu_choice_returns: "menu_choice ad p c keys w = None \<Longrightarrow> c = CHR ''8'' \<or> c = CHR ''9''"
  by (auto simp: menu_choice_def Let_def split: if_splits)

lemma wait_key:
  assumes "settings_wait_key keys = Some (c, ks)"
  shows "\<exists>pre. keys = pre @ c # ks"
proof -
  have "dropWhile (\<lambda>c. \<not> menu_key c) keys = c # ks" using assms by (auto simp: settings_wait_key_def split: list.splits)
  then show ?thesis by (metis takeWhile_dropWhile_id)
qed

definition leaves :: "char \<Rightarrow> bool" where
  "leaves c \<longleftrightarrow> c = CHR ''0'' \<or> c = CHR ''q'' \<or> c = CHR ''Q''"

text \<open>A round ends in one of three ways: it waits for a key, a key left the menu, or a key was used up and the menu goes on.\<close>

lemma menu_round_ok:
  assumes "menu_round ad p keys w = Some (stop, ks, w')" "cfg_ok (g_cfg w)"
  shows "cfg_ok (g_cfg w')
    \<and> (stop \<and> ks = None \<or> (\<exists>pre c k. ks = Some k \<and> keys = pre @ c # k \<and> stop \<and> leaves c)
       \<or> (\<exists>pre c k. ks = Some k \<and> keys = pre @ c # k \<and> \<not> stop))"
proof (cases "settings_wait_key keys")
  case None
  then show ?thesis using assms by (auto simp: menu_round_def tell_def)
next
  case (Some ck)
  obtain c k where ck: "ck = (c, k)" by (cases ck)
  obtain pre where pre: "keys = pre @ c # k" using wait_key Some ck by blast
  show ?thesis
  proof (cases "leaves c")
    case True
    then have "stop \<and> ks = Some k \<and> g_cfg w' = g_cfg w" using assms(1) Some ck by (auto simp: menu_round_def leaves_def Let_def)
    then show ?thesis using True pre assms(2) by auto
  next
    case False
    define w1 where "w1 = (let w = tell ''settings> '' w in w\<lparr>scr := saych (CHR 0x0A) (saych c (scr w))\<rparr>)"
    have w1: "cfg_ok (g_cfg w1)" using assms(2) by (simp add: w1_def Let_def)
    obtain k2 w2 where m: "menu_choice ad p c k w1 = Some (k2, w2)"
      and r: "(case k2 of None \<Rightarrow> Some (True, None, w2) | Some keys \<Rightarrow> Some (False, Some keys, show_status w2)) = Some (stop, ks, w')"
      using assms(1) Some ck False
      by (auto simp: menu_round_def leaves_def Let_def w1_def split: option.splits)
    have g: "cfg_ok (g_cfg w2)" "\<And>k'. k2 = Some k' \<Longrightarrow> \<exists>pre. k = pre @ k'" using menu_choice_ok [OF m w1] by auto
    show ?thesis
    proof (cases k2)
      case None
      then show ?thesis using r g(1) by auto
    next
      case k2: (Some k')
      obtain p2 where p2: "k = p2 @ k'" using g(2) [OF k2] by blast
      have "keys = (pre @ butlast (c # p2)) @ last (c # p2) # k'"
        using pre p2 append_butlast_last_id [of "c # p2"] by (metis append_Cons append_assoc append_Nil list.distinct(1))
      moreover have "ks = Some k'" "\<not> stop" "g_cfg w' = g_cfg w2" using r k2 by auto
      ultimately show ?thesis using g(1) by metis
    qed
  qed
qed

lemma menu_round_returns:
  "menu_round ad p keys w = None \<Longrightarrow> CHR ''8'' \<in> set keys \<or> CHR ''9'' \<in> set keys"
proof -
  assume a: "menu_round ad p keys w = None"
  then obtain c k where ck: "settings_wait_key keys = Some (c, k)"
    by (cases "settings_wait_key keys") (auto simp: menu_round_def Let_def)
  then have "\<exists>w. menu_choice ad p c k w = None"
    using a by (auto simp: menu_round_def Let_def split: if_splits option.splits)
  then show ?thesis using menu_choice_returns wait_key [OF ck] by fastforce
qed

lemma menu_rounds_ok:
  "length keys \<le> n \<Longrightarrow> cfg_ok (g_cfg w) \<Longrightarrow>
    (case menu_rounds ad p n keys w of
       None \<Rightarrow> CHR ''8'' \<in> set keys \<or> CHR ''9'' \<in> set keys
     | Some (rest, w') \<Rightarrow> cfg_ok (g_cfg w') \<and> (\<forall>k. rest = Some k \<longrightarrow> (\<exists>pre c. keys = pre @ c # k \<and> leaves c)))"
proof (induction n arbitrary: keys w)
  case 0
  show ?case
  proof (cases "menu_round ad p keys w")
    case (Some r)
    obtain stop ks w' where r: "r = (stop, ks, w')" by (cases r)
    have "menu_round ad p keys w = Some (stop, ks, w')" using Some r by simp
    then show ?thesis using menu_round_ok [of ad p keys w stop ks w'] 0 Some r by auto
  qed (use menu_round_returns in auto)
next
  case (Suc n)
  show ?case
  proof (cases "menu_round ad p keys w")
    case (Some r)
    obtain stop ks w' where r: "r = (stop, ks, w')" by (cases r)
    have e: "menu_round ad p keys w = Some (stop, ks, w')" using Some r by simp
    have m: "cfg_ok (g_cfg w')" using menu_round_ok [OF e Suc.prems(2)] by simp
    show ?thesis
    proof (cases "stop \<or> ks = None")
      case True
      then show ?thesis using menu_round_ok [OF e Suc.prems(2)] e m by (auto split: bool.splits option.splits)
    next
      case False
      then obtain pre c k where k: "ks = Some k" "keys = pre @ c # k" "\<not> stop" using menu_round_ok [OF e Suc.prems(2)] by auto
      then have "length k \<le> n" using Suc.prems(1) by simp
      from Suc.IH [OF this m] show ?thesis using e k by (fastforce split: option.splits)
    qed
  qed (use menu_round_returns in auto)
qed

lemma menu_enter_ok: "cfg_ok (g_cfg w) \<Longrightarrow> cfg_ok (g_cfg (menu_enter ad w))"
proof -
  assume w: "cfg_ok (g_cfg w)"
  have f: "g_cfg (fold (\<lambda>s. tell (line s)) ss w) = g_cfg w" for ss and w :: "'a sysconf" by (induction ss arbitrary: w) auto
  show ?thesis
    unfolding menu_enter_def Let_def using w
    by (auto simp: f cfg_okI ask_host_def simp del: fold_simps split: prod.splits)
qed


definition no_adapter :: dispi where
  "no_adapter = \<lparr>id_readback = 0, bochs_bar0 = None, display_bar0 = None, mode_readback = (\<lambda>w h. (0, 0, 0))\<rparr>"


end
