(* ===== verification/Snake_Rng.thy ===== *)
theory Snake_Rng
  imports Prelude
begin

text \<open>
  The generator behind \<open>rand_u\<close> of \<open>src/src/snake.c\<close>: a linear congruence modulo \<open>2\<^sup>32\<close> whose multiplier is 1 modulo 4 and whose
  increment is odd. It runs through all 32-bit words before it repeats, which is what the search for a free cell
  needs to end.
\<close>

section \<open>Definitions\<close>

definition rng_next :: "u32 \<Rightarrow> u32" where
  "rng_next r = r * 1103515245 + 12345"

section \<open>Sums of powers\<close>

definition powsum :: "nat \<Rightarrow> nat \<Rightarrow> nat" where
  "powsum a n = (\<Sum>i < n. a ^ i)"

lemma powsum_Suc: "powsum a (Suc n) = powsum a n + a ^ n"
  by (simp add: powsum_def)

lemma powsum_add: "powsum a (m + n) = powsum a m + a ^ m * powsum a n"
  by (induction n) (simp_all add: powsum_Suc powsum_def power_add algebra_simps)

lemma powsum_double: "powsum a (2 * m) = powsum a m * (1 + a ^ m)"
  using powsum_add [of a m m] unfolding mult_2 by (simp add: algebra_simps)

lemma powsum_parity: "odd a \<Longrightarrow> even (powsum a n) \<longleftrightarrow> even n"
  by (induction n) (auto simp: powsum_Suc powsum_def)

text \<open>With \<open>a = 1\<close> modulo 4 the sum of the first \<open>n\<close> powers has no more factors 2 than \<open>n\<close>.\<close>

lemma powsum_dvd: "a mod 4 = 1 \<Longrightarrow> 2 ^ k dvd powsum a n \<Longrightarrow> 2 ^ k dvd n"
proof (induction k arbitrary: n)
  case (Suc k)
  have odd: "odd a" using Suc.prems(1) by presburger
  have "even (powsum a n)" using Suc.prems(2) by (auto elim: dvd_mult_left)
  then obtain m where n: "n = 2 * m" using powsum_parity [OF odd] by auto
  have "a ^ m mod 4 = 1" using Suc.prems(1) power_mod [of a 4 m] by simp
  moreover have "x mod 4 = 1 \<Longrightarrow> 1 + x = 2 * ((1 + x) div 2) \<and> odd ((1 + x) div 2)" for x :: nat by presburger
  ultimately obtain q where q: "1 + a ^ m = 2 * q" "odd q" by blast
  have "2 * 2 ^ k dvd 2 * (powsum a m * q)"
    using Suc.prems(2) unfolding n powsum_double q(1) by (simp add: mult.left_commute)
  then have "2 ^ k dvd powsum a m * q" by simp
  then have "2 ^ k dvd powsum a m" using q(2) by (meson coprime_dvd_mult_left_iff coprime_left_2_iff_odd coprime_power_left_iff)
  then show ?case using Suc.IH [OF Suc.prems(1)] n by auto
qed simp

section \<open>The orbit\<close>

abbreviation mult_a :: nat where "mult_a \<equiv> 1103515245"

lemma rng_iterate: "(rng_next ^^ n) r = of_nat (mult_a ^ n) * r + 12345 * of_nat (powsum mult_a n)"
proof (induction n)
  case (Suc n)
  have "powsum mult_a (Suc n) = 1 + mult_a * powsum mult_a n" using powsum_add [of mult_a 1 n] by (simp add: powsum_def)
  then show ?case using Suc by (simp add: rng_next_def algebra_simps)
qed (simp add: powsum_def)

lemma geometric: "0 < a \<Longrightarrow> a ^ n = 1 + (a - 1) * powsum a n" for a :: nat
proof (induction n)
  case (Suc n)
  then have "a ^ Suc n = a ^ n + (a - 1) * a ^ n" by (cases a) simp_all
  then show ?case using Suc by (simp add: powsum_Suc algebra_simps)
qed (simp add: powsum_def)

text \<open>The generator does not come back before \<open>2\<^sup>32\<close> steps.\<close>

lemma rng_no_return:
  assumes "(rng_next ^^ n) r = r"
  shows "2 ^ 32 dvd n"
proof -
  let ?S = "powsum mult_a n"
  have "mult_a ^ n = 1 + 1103515244 * ?S" using geometric [of mult_a n] by simp
  then have "(rng_next ^^ n) r = r + of_nat ?S * (1103515244 * r + 12345)"
    unfolding rng_iterate by (simp add: algebra_simps)
  then have "of_nat ?S * (1103515244 * r + 12345) = (0 :: u32)" using assms by simp
  then have "(of_nat (?S * (1103515244 * unat r + 12345)) :: u32) = 0" by simp
  then have "2 ^ 32 dvd ?S * (1103515244 * unat r + 12345)" by (simp only: word_of_nat_eq_0_iff) simp
  moreover have "odd (1103515244 * unat r + 12345)" by simp
  ultimately have "2 ^ 32 dvd ?S" by (meson coprime_dvd_mult_left_iff coprime_left_2_iff_odd coprime_power_left_iff)
  then show ?thesis using powsum_dvd [of mult_a 32 n] by simp
qed

lemma rng_inj: "inj rng_next"
proof (rule inj_on_inverseI)
  fix x
  have "(4005161829 * 1103515245 :: u32) = 1" by simp
  moreover have "4005161829 * (rng_next x - 12345) = x * (4005161829 * 1103515245)" 
    by (simp only: rng_next_def add_diff_cancel_right') (simp only: ac_simps)
  ultimately show "4005161829 * (rng_next x - 12345) = x" by (simp only: mult_1_right)
qed

lemma rng_inj_on: "inj_on (\<lambda>n. (rng_next ^^ n) r) {..<2 ^ 32}"
proof -
  have "m = n" if le: "m \<le> n" and "n < 2 ^ 32" "(rng_next ^^ m) r = (rng_next ^^ n) r" for m n
  proof -
    obtain d where d: "n = m + d" using le_Suc_ex [OF le] by (elim exE)
    have "(rng_next ^^ (m + d)) r = (rng_next ^^ m) ((rng_next ^^ d) r)" by (simp only: funpow_add comp_apply)
    then have "(rng_next ^^ m) ((rng_next ^^ d) r) = (rng_next ^^ m) r" using that(3) unfolding d by argo
    then have "(rng_next ^^ d) r = r" by (rule injD [OF inj_fn [OF rng_inj]])
    then have "2 ^ 32 dvd d" by (rule rng_no_return)
    moreover have "d < 2 ^ 32" using that(2) d by (rule_tac le_less_trans [of _ n]) simp_all
    ultimately show ?thesis using d by (cases d) (auto dest: dvd_imp_le simp del: power_numeral)
  qed
  note one = this
  show ?thesis
  proof (rule inj_onI)
    fix m n assume mn: "m \<in> {..<2 ^ 32}" "n \<in> {..<2 ^ 32}" "(rng_next ^^ m) r = (rng_next ^^ n) r"
    show "m = n"
    proof (cases "m \<le> n")
      case True
      then show ?thesis using one [OF True _ mn(3)] mn(2) by simp
    next
      case False
      then have "n \<le> m" by simp
      from one [OF this _ mn(3) [symmetric]] mn(1) show ?thesis by simp
    qed
  qed
qed

lemma rng_reaches: "\<exists>n < 2 ^ 32. (rng_next ^^ n) r = y"
proof -
  let ?A = "(\<lambda>n. (rng_next ^^ n) r) ` {..<2 ^ 32 :: nat}"
  have "card ?A = 2 ^ 32" using card_image [OF rng_inj_on] by (simp only: card_lessThan)
  moreover have "card (UNIV :: u32 set) = 2 ^ 32" by (simp add: card_word)
  ultimately have "?A = UNIV" by (metis card_subset_eq finite subset_UNIV)
  then show ?thesis by (metis (no_types, lifting) UNIV_I imageE lessThan_iff)
qed

text \<open>Steps alternate between even and odd words.\<close>

lemma rng_parity: "even ((rng_next ^^ n) r) \<longleftrightarrow> (even r \<longleftrightarrow> even n)"
proof (induction n)
  case (Suc n)
  have "even (rng_next x) \<longleftrightarrow> odd x" for x by (simp add: rng_next_def)
  then show ?case using Suc by simp
qed simp

section \<open>Pairs of draws\<close>

text \<open>The 15 bits a draw uses, and the pair of two draws in a row cut to a board.\<close>

definition draw_bits :: "u32 \<Rightarrow> u32" where
  "draw_bits r = drop_bit 16 r AND 0x7FFF"

definition draw_pair :: "int \<Rightarrow> int \<Rightarrow> u32 \<Rightarrow> int \<times> int" where
  "draw_pair w h y = (int (unat (draw_bits y)) mod w, int (unat (draw_bits (rng_next y))) mod h)"

text \<open>The second coordinate when the first draw is \<open>x\<close> and the low half of the word is \<open>l\<close>.\<close>

definition row_of :: "int \<Rightarrow> int \<Rightarrow> int \<Rightarrow> int" where
  "row_of h x l = (1103515245 * (x * 65536 + l) + 12345) div 65536 mod 32768 mod h"

definition rows_reached :: "nat \<Rightarrow> int \<Rightarrow> int \<Rightarrow> int \<Rightarrow> int list" where
  "rows_reached J h par x = remdups (map (\<lambda>j. row_of h x (2 * int j + par)) [0..<J])"

definition spread :: "nat \<Rightarrow> nat \<Rightarrow> int \<Rightarrow> int \<Rightarrow> nat" where
  "spread J w h par = sum_list (map (\<lambda>x. length (rows_reached J h par (int x))) [0..<w])"

lemma spread_boards:
  "200 < spread 8 40 25 0" "200 < spread 8 40 25 1" "200 < spread 4 64 48 0" "200 < spread 4 64 48 1"
  "200 < spread 4 66 50 0" "200 < spread 4 66 50 1"
  by code_simp+

lemma unat_draw_bits: "unat (draw_bits r) = unat r div 65536 mod 32768"
proof -
  have m: "(0x7FFF :: u32) = mask 15" by (simp add: mask_eq_exp_minus_1)
  show ?thesis unfolding draw_bits_def m
    by (simp add: unsigned_take_bit_eq unsigned_drop_bit_eq take_bit_eq_mod drop_bit_eq_div unat_div unat_mod flip: take_bit_eq_mask)
qed

lemma unat_rng_next: "unat (rng_next r) = (1103515245 * unat r + 12345) mod 2 ^ 32"
  by (simp add: rng_next_def unat_word_ariths mod_simps mult.commute)

lemma mid_bits: "(n mod 2 ^ 32) div 65536 mod 32768 = n div 65536 mod (32768 :: nat)"
proof -
  have "drop_bit 16 (take_bit 32 n) = take_bit 16 (drop_bit 16 n)" by (simp only: drop_bit_take_bit) simp
  then have "(n mod 2 ^ 32) div 65536 = n div 65536 mod 65536" by (simp add: take_bit_eq_mod drop_bit_eq_div)
  moreover have "k mod 65536 mod 32768 = k mod (32768 :: nat)" for k by (rule mod_mod_cancel) simp
  ultimately show ?thesis by simp
qed

lemma draw_pair_value:
  assumes "x < 32768" "l < 65536"
  shows "draw_pair w h (of_nat (x * 65536 + l)) = (int x mod w, row_of h (int x) (int l))"
proof -
  let ?y = "of_nat (x * 65536 + l) :: u32"
  have "x * 65536 + l < 2 ^ 32" using assms by simp
  then have y: "unat ?y = x * 65536 + l" by (simp add: unsigned_of_nat take_bit_nat_eq_self del: of_nat_add of_nat_mult)
  have "unat (draw_bits ?y) = x" unfolding unat_draw_bits y using assms by simp
  moreover have "int (unat (draw_bits (rng_next ?y))) = (1103515245 * (int x * 65536 + int l) + 12345) div 65536 mod 32768"
    unfolding unat_draw_bits unat_rng_next mid_bits y by (simp only: zdiv_int zmod_int of_nat_add of_nat_mult of_nat_numeral)
  ultimately show ?thesis by (simp only: draw_pair_def row_of_def)
qed

text \<open>So the pairs that start at even words, and those that start at odd ones, reach more than 200 cells of each board.\<close>

lemma pairs_reached:
  assumes "w \<le> 100" "2 * J < 65536" "par < 2"
  shows "\<exists>Y. finite (draw_pair (int w) h ` Y) \<and> (\<forall>y \<in> Y. even y \<longleftrightarrow> even par) \<and> spread J w h (int par) \<le> card (draw_pair (int w) h ` Y)"
proof -
  let ?y = "\<lambda>x j. of_nat (x * 65536 + (2 * j + par)) :: u32"
  let ?Y = "{?y x j | x j. x < w \<and> j < J}"
  let ?R = "\<lambda>x. set (rows_reached J h (int par) (int x))"
  have v: "draw_pair (int w) h (?y x j) = (int x, row_of h (int x) (2 * int j + int par))" if "x < w" "j < J" for x j
    using draw_pair_value [of x "2 * j + par" "int w" h] that assms by simp
  have sub: "(\<lambda>(x, r). (int x, r)) ` (SIGMA x : {..<w}. ?R x) \<subseteq> draw_pair (int w) h ` ?Y"
  proof
    fix z assume "z \<in> (\<lambda>(x, r). (int x, r)) ` (SIGMA x : {..<w}. ?R x)"
    then obtain x j where xj: "x < w" "j < J" and z: "z = (int x, row_of h (int x) (2 * int j + int par))"
      by (auto simp: rows_reached_def)
    have "?y x j \<in> ?Y" using xj by blast
    then show "z \<in> draw_pair (int w) h ` ?Y" unfolding z v [OF xj, symmetric] by (rule imageI)
  qed
  have "length (rows_reached J h (int par) (int x)) = card (?R x)" for x
    by (rule distinct_card [symmetric]) (simp add: rows_reached_def)
  then have "spread J w h (int par) = (\<Sum>x < w. card (?R x))"
    by (simp add: spread_def interv_sum_list_conv_sum_set_nat atLeast0LessThan)
  also have "\<dots> = card (SIGMA x : {..<w}. ?R x)" by simp
  also have "\<dots> = card ((\<lambda>(x, r). (int x, r)) ` (SIGMA x : {..<w}. ?R x))"
    by (rule card_image [symmetric]) (auto simp: inj_on_def)
  also have "\<dots> \<le> card (draw_pair (int w) h ` ?Y)" by (rule card_mono [OF _ sub]) simp
  finally have "spread J w h (int par) \<le> card (draw_pair (int w) h ` ?Y)" .
  moreover have "even (?y x j) \<longleftrightarrow> even par" for x j by simp
  ultimately show ?thesis by (intro exI [of _ ?Y]) auto
qed

text \<open>From any seed, the pairs drawn one after the other leave any 200 cells of a board at some time.\<close>

definition a_board :: "int \<Rightarrow> int \<Rightarrow> bool" where
  "a_board w h \<longleftrightarrow> (w, h) \<in> {(40, 25), (64, 48), (66, 50)}"

lemma pair_outside:
  assumes "a_board w h" "card S \<le> 200" "finite S"
  shows "\<exists>k. draw_pair w h ((rng_next ^^ (2 * k + 1)) r) \<notin> S"
proof -
  define par :: nat where "par = (if even r then 1 else 0)"
  have par: "par < 2" "even r \<longleftrightarrow> odd par" by (simp_all add: par_def)
  have "\<exists>J n. w = int n \<and> n \<le> 100 \<and> 2 * J < 65536 \<and> 200 < spread J n h (int par)"
  proof -
    consider "w = 40" "h = 25" | "w = 64" "h = 48" | "w = 66" "h = 50" using assms(1) by (auto simp: a_board_def)
    then show ?thesis
    proof cases
      case 1
      then show ?thesis using spread_boards(1,2) by (intro exI [of _ 8] exI [of _ 40]) (simp add: par_def)
    next
      case 2
      then show ?thesis using spread_boards(3,4) by (intro exI [of _ 4] exI [of _ 64]) (simp add: par_def)
    next
      case 3
      then show ?thesis using spread_boards(5,6) by (intro exI [of _ 4] exI [of _ 66]) (simp add: par_def)
    qed
  qed
  then obtain J n where J: "w = int n" "n \<le> 100" "2 * J < 65536" "200 < spread J n h (int par)" by blast
  obtain Y where Y: "finite (draw_pair w h ` Y)" "\<forall>y \<in> Y. even y \<longleftrightarrow> even par" "200 < card (draw_pair w h ` Y)"
    using pairs_reached [OF J(2,3) par(1), of h] J(1,4) by fastforce
  have "\<not> draw_pair w h ` Y \<subseteq> S"
  proof
    assume "draw_pair w h ` Y \<subseteq> S"
    then have "card (draw_pair w h ` Y) \<le> card S" by (rule card_mono [OF assms(3)])
    then show False using Y(3) assms(2) by simp
  qed
  then obtain y where y: "y \<in> Y" "draw_pair w h y \<notin> S" by blast
  obtain m where m: "(rng_next ^^ m) r = y" using rng_reaches by blast
  have "odd m" using rng_parity [of m r] Y(2) y(1) par(2) m by auto
  then obtain k where "m = 2 * k + 1" by (elim oddE)
  then show ?thesis using m y(2) by blast
qed

end
