(* ===== verification/Snake.thy ===== *)
theory Snake
  imports Settings Keyboard Snake_Rng
begin

text \<open>
  The snake game (\<open>src/src/snake.c\<close>): the board, the moves, the drawing on the framebuffer or in mode 13h, and the main loop. The
  first \<open>slen\<close> entries of the arrays \<open>sx\<close> and \<open>sy\<close> are the list \<open>snake\<close>, head first. The main loop is a sequence of frames: the keys the
  keyboard delivers in the frame and the tick count read in it. \<open>place_food\<close> searches until it finds a free cell; the
  properties show that it always does, and that the game keeps a proper snake.
\<close>

section \<open>Definitions\<close>

definition MAX_LEN :: nat where "MAX_LEN = 200"

record game =
  use_vbe :: bool
  cellsz :: int
  grid_w :: int
  grid_h :: int
  screen_w :: int
  screen_h :: int
  snake :: "(int \<times> int) list"
  dir_x :: int
  dir_y :: int
  next_dx :: int
  next_dy :: int
  food_x :: int
  food_y :: int
  score :: int
  dead :: bool
  death_sounded :: bool
  rng :: u32
  tail_x :: int
  tail_y :: int
  grew :: bool

definition rand_u :: "game \<Rightarrow> u32 \<times> game" where
  "rand_u g = (let r = rng_next (rng g) in (drop_bit 16 r AND 0x7FFF, g\<lparr>rng := r\<rparr>))"

partial_function (option) place_food :: "game \<Rightarrow> game option" where
  "place_food g =
     (let (a, g) = rand_u g; g = g\<lparr>food_x := int (unat a) mod grid_w g\<rparr>;
          (b, g) = rand_u g; g = g\<lparr>food_y := int (unat b) mod grid_h g\<rparr>
      in if (food_x g, food_y g) \<in> set (snake g) then place_food g else Some g)"

section \<open>Drawing\<close>

definition fill :: "game \<Rightarrow> int \<Rightarrow> int \<Rightarrow> int \<Rightarrow> int \<Rightarrow> u32 \<Rightarrow> u8 \<Rightarrow> screen \<Rightarrow> screen" where
  "fill g x y w h c32 c8 sc =
     (if use_vbe g then on_vbe (vbe_fill_rect x y w h c32) sc else sc\<lparr>vgac := gfx_fill_rect x y w h c8 (vgac sc)\<rparr>)"

definition put_cell :: "game \<Rightarrow> int \<Rightarrow> int \<Rightarrow> u32 \<Rightarrow> u8 \<Rightarrow> screen \<Rightarrow> screen" where
  "put_cell g gx gy c32 c8 sc = fill g (gx * cellsz g) (gy * cellsz g) (cellsz g) (cellsz g) c32 c8 sc"

definition clear_screen :: "game \<Rightarrow> screen \<Rightarrow> screen" where
  "clear_screen g sc = (if use_vbe g then on_vbe (vbe_clear 0x000000) sc else sc\<lparr>vgac := gfx_clear GFX_BLACK (vgac sc)\<rparr>)"

definition draw_border :: "game \<Rightarrow> screen \<Rightarrow> screen" where
  "draw_border g sc =
     (if use_vbe g
      then let c = vbe_rgb 80 80 80
           in on_vbe (vbe_fill_rect (screen_w g - 2) 0 2 (screen_h g) c \<circ> vbe_fill_rect 0 0 2 (screen_h g) c
                \<circ> vbe_fill_rect 0 (screen_h g - 2) (screen_w g) 2 c \<circ> vbe_fill_rect 0 0 (screen_w g) 2 c) sc
      else let w = int GFX_WIDTH; h = int GFX_HEIGHT
           in sc\<lparr>vgac := gfx_vline (w - 1) 0 h GFX_DGRAY (gfx_vline 0 0 h GFX_DGRAY
                (gfx_hline 0 (h - 1) w GFX_DGRAY (gfx_hline 0 0 w GFX_DGRAY (vgac sc))))\<rparr>)"

definition draw_cell :: "game \<Rightarrow> int \<Rightarrow> int \<Rightarrow> nat \<Rightarrow> screen \<Rightarrow> screen" where
  "draw_cell g gx gy kind sc =
     (if use_vbe g
      then put_cell g gx gy (if kind = 1 then vbe_rgb 80 255 80 else if kind = 2 then vbe_rgb 0 180 0
                             else if kind = 3 then vbe_rgb 255 60 60 else 0) 0 sc
      else put_cell g gx gy 0 (if kind = 1 then GFX_LGREEN else if kind = 2 then GFX_GREEN
                               else if kind = 3 then GFX_LRED else GFX_BLACK) sc)"

definition plot :: "game \<Rightarrow> int \<Rightarrow> int \<Rightarrow> u32 \<Rightarrow> u8 \<Rightarrow> screen \<Rightarrow> screen" where
  "plot g x y c32 c8 sc =
     (if use_vbe g then on_vbe (vbe_putpixel x y c32) sc else sc\<lparr>vgac := gfx_putpixel x y c8 (vgac sc)\<rparr>)"

fun draw_text_xy :: "game \<Rightarrow> int \<Rightarrow> int \<Rightarrow> cstring \<Rightarrow> u32 \<Rightarrow> u8 \<Rightarrow> screen \<Rightarrow> screen" where
  "draw_text_xy g px py [] fg32 fg8 sc = sc"
| "draw_text_xy g px py (c # cs) fg32 fg8 sc =
     (let glyph = gfx_font_glyph c;
          sc = fold (\<lambda>row. fold (\<lambda>col sc. if bit (glyph ! row) (7 - col) then plot g (px + int col) (py + int row) fg32 fg8 sc else sc)
                 [0..<8]) [0..<16] sc
      in draw_text_xy g (px + 8) py cs fg32 fg8 sc)"

text \<open>The text of the score: at most eleven digits, taken from the end.\<close>

definition score_text :: "int \<Rightarrow> cstring" where
  "score_text v = ''Score: '' @ (if v = 0 then ''0'' else uint_digits 11 (nat v) '''')"

definition draw_game_over :: "game \<Rightarrow> screen \<Rightarrow> screen" where
  "draw_game_over g sc =
     (let box_w = (if use_vbe g then screen_w g div 2 else 200);
          box_h = (if use_vbe g then 80 else 60);
          bx = (screen_w g - box_w) div 2;
          by = (screen_h g - box_h) div 2
      in if use_vbe g
         then let sc = on_vbe (vbe_fill_rect bx by box_w box_h (vbe_rgb 160 0 0)) sc;
                  sc = on_vbe (vbe_fill_rect (bx + 2) (by + 2) (box_w - 4) (box_h - 4) (vbe_rgb 40 0 0)) sc;
                  sc = draw_text_xy g (bx + 16) (by + 16) ''GAME OVER'' (vbe_rgb 255 220 220) 0 sc;
                  sc = draw_text_xy g (bx + 16) (by + 40) (score_text (score g)) (vbe_rgb 255 255 100) 0 sc
              in draw_text_xy g (bx + 16) (by + 58) ''R=retry  Esc=quit'' (vbe_rgb 200 200 200) 0 sc
         else let sc = sc\<lparr>vgac := gfx_fill_rect bx by box_w box_h GFX_RED (vgac sc)\<rparr>;
                  sc = sc\<lparr>vgac := gfx_fill_rect (bx + 2) (by + 2) (box_w - 4) (box_h - 4) GFX_DGRAY (vgac sc)\<rparr>;
                  sc = draw_text_xy g (bx + 12) (by + 12) ''GAME OVER'' 0 GFX_WHITE sc;
                  sc = draw_text_xy g (bx + 12) (by + 32) (score_text (score g)) 0 GFX_YELLOW sc
              in draw_text_xy g (bx + 12) (by + 44) ''R=retry Esc=quit'' 0 GFX_LGRAY sc)"

definition wait_vsync :: "game \<Rightarrow> 'd sysconf \<Rightarrow> 'd sysconf" where
  "wait_vsync g w =
     (if use_vbe g then w
      else let (vb, w) = ask_host w
           in if vb then w else w\<lparr>scr := (scr w)\<lparr>vgac := gfx_wait_vsync (vgac (scr w))\<rparr>\<rparr>)"

definition redraw_full :: "game \<Rightarrow> 'd sysconf \<Rightarrow> 'd sysconf" where
  "redraw_full g w =
     (let w = wait_vsync g w;
          sc = draw_cell g (food_x g) (food_y g) 3 (draw_border g (clear_screen g (scr w)));
          sc = fold (\<lambda>i. draw_cell g (fst (snake g ! i)) (snd (snake g ! i)) (if i = 0 then 1 else 2)) [0..<length (snake g)] sc
      in w\<lparr>scr := (if dead g then draw_game_over g sc else sc)\<rparr>)"

definition redraw_step :: "game \<Rightarrow> 'd sysconf \<Rightarrow> 'd sysconf" where
  "redraw_step g w =
     (let w = wait_vsync g w;
          sc = (if \<not> grew g then draw_cell g (tail_x g) (tail_y g) 0 (scr w) else scr w);
          sc = draw_cell g (fst (snake g ! 0)) (snd (snake g ! 0)) 1 sc;
          sc = (if length (snake g) > 1 then draw_cell g (fst (snake g ! 1)) (snd (snake g ! 1)) 2 sc else sc)
      in w\<lparr>scr := draw_border g (draw_cell g (food_x g) (food_y g) 3 sc)\<rparr>)"

section \<open>Moves\<close>

definition turn :: "game \<Rightarrow> game" where
  "turn g =
     (if \<not> (next_dx g = - dir_x g \<and> next_dy g = - dir_y g) \<and> (next_dx g \<noteq> dir_x g \<or> next_dy g \<noteq> dir_y g)
      then g\<lparr>dir_x := next_dx g, dir_y := next_dy g\<rparr> else g)"

text \<open>The move itself: the cells shift along, the head goes to its new place, and a snake that eats grows at its end.\<close>

definition advance :: "int \<Rightarrow> int \<Rightarrow> 'd sysconf \<Rightarrow> game \<Rightarrow> (game \<times> 'd sysconf) option" where
  "advance nx ny w g =
     (let g = g\<lparr>tail_x := fst (last (snake g)), tail_y := snd (last (snake g)), grew := False\<rparr>;
          g = g\<lparr>snake := (nx, ny) # butlast (snake g)\<rparr>
      in if nx = food_x g \<and> ny = food_y g
         then let g = (if length (snake g) < MAX_LEN then g\<lparr>snake := snake g @ [(tail_x g, tail_y g)], grew := True\<rparr> else g);
                  g = g\<lparr>score := score g + 1\<rparr>
              in case place_food g of
                   None \<Rightarrow> None
                 | Some g \<Rightarrow> Some (g, if sound_enabled (g_cfg w) \<noteq> 0 then w\<lparr>beeps := beeps w @ [(988, 40), (1319, 80)]\<rparr> else w)
         else Some (g, w))"

definition step :: "game \<Rightarrow> 'd sysconf \<Rightarrow> (game \<times> 'd sysconf) option" where
  "step g w =
     (if dead g then Some (g, w)
      else let g = turn g;
               nx = fst (snake g ! 0) + dir_x g;
               ny = snd (snake g ! 0) + dir_y g
           in if nx < 0 \<or> ny < 0 \<or> nx \<ge> grid_w g \<or> ny \<ge> grid_h g then Some (g\<lparr>dead := True\<rparr>, w)
              else if (nx, ny) \<in> set (snake g) then Some (g\<lparr>dead := True\<rparr>, w)
              else advance nx ny w g)"

definition key_dir :: "char \<Rightarrow> (int \<times> int) option" where
  "key_dir c =
     (if c = CHR ''w'' \<or> c = CHR ''W'' \<or> c = KEY_UP then Some (0, -1)
      else if c = CHR ''s'' \<or> c = CHR ''S'' \<or> c = KEY_DOWN then Some (0, 1)
      else if c = CHR ''a'' \<or> c = CHR ''A'' \<or> c = KEY_LEFT then Some (-1, 0)
      else if c = CHR ''d'' \<or> c = CHR ''D'' \<or> c = KEY_RIGHT then Some (1, 0)
      else None)"

definition handle_key :: "char \<Rightarrow> game \<Rightarrow> game" where
  "handle_key c g =
     (case key_dir c of
        None \<Rightarrow> g
      | Some (ndx, ndy) \<Rightarrow> if ndx = - dir_x g \<and> ndy = - dir_y g then g else g\<lparr>next_dx := ndx, next_dy := ndy\<rparr>)"

section \<open>The run\<close>

text \<open>A new game on the board at hand.\<close>

definition new_game :: "game \<Rightarrow> game option" where
  "new_game g =
     (let x = grid_w g div 2; y = grid_h g div 2
      in place_food (g\<lparr>snake := [(x, y), (x - 1, y), (x - 2, y)], dir_x := 1, dir_y := 0, next_dx := 1, next_dy := 0,
                       score := 0, dead := False, death_sounded := False\<rparr>))"

definition vbe_cell :: "int \<Rightarrow> int" where
  "vbe_cell w = (if w \<ge> 1000 then 16 else if w \<ge> 700 then 12 else 10)"

definition snake_board :: "dispi \<Rightarrow> game \<Rightarrow> 'd sysconf \<Rightarrow> game \<times> 'd sysconf" where
  "snake_board ad g w =
     (let (vb, w) = (if gfx_use_vbe (g_cfg w) \<noteq> 0 then ask_host w else (True, w));
          g = g\<lparr>use_vbe := gfx_use_vbe (g_cfg w) \<noteq> 0 \<and> \<not> vb\<rparr>;
          (g, w) =
            (if use_vbe g
             then let (ok, v) = vbe_probe ad (video (vt (scr w)));
                      (r, v) = (if ok then vbe_set_mode ad (gfx_mode (g_cfg w)) v else (-1, v));
                      w = w\<lparr>scr := on_vbe (\<lambda>_. v) (scr w)\<rparr>
                  in if r \<noteq> 0 then (g\<lparr>use_vbe := False\<rparr>, tell (line ''snake: VBE failed, fallback mode13'') w)
                     else let sw = int (width (g_vbe v)); sh = int (height (g_vbe v)); c = vbe_cell sw
                          in (g\<lparr>screen_w := sw, screen_h := sh, cellsz := c, grid_w := sw div c, grid_h := sh div c\<rparr>, w)
             else (g, w))
      in if use_vbe g then (g, w)
         else (g\<lparr>screen_w := int GFX_WIDTH, screen_h := int GFX_HEIGHT, cellsz := 8,
                grid_w := int GFX_WIDTH div 8, grid_h := int GFX_HEIGHT div 8\<rparr>,
               w\<lparr>scr := (scr w)\<lparr>vgac := gfx_init_mode13 (vgac (scr w))\<rparr>\<rparr>))"

text \<open>The keys of a frame; the flag says that the game is left.\<close>

fun snake_keys :: "string \<Rightarrow> game \<Rightarrow> 'd sysconf \<Rightarrow> (bool \<times> game \<times> 'd sysconf) option" where
  "snake_keys [] g w = Some (False, g, w)"
| "snake_keys (c # cs) g w =
     (if c = CHR 0x1B \<or> c = CHR ''q'' \<or> c = CHR ''Q'' then Some (True, g, w)
      else if dead g \<and> (c = CHR ''r'' \<or> c = CHR ''R'')
      then (case new_game g of None \<Rightarrow> None | Some g \<Rightarrow> snake_keys cs g (redraw_full g w))
      else snake_keys cs (handle_key c g) w)"

definition snake_tick :: "game \<Rightarrow> 'd sysconf \<Rightarrow> (game \<times> 'd sysconf) option" where
  "snake_tick g w =
     (if dead g then Some (g, w)
      else case step g w of
             None \<Rightarrow> None
           | Some (g, w) \<Rightarrow>
               if dead g
               then let (g, w) = (if \<not> death_sounded g \<and> sound_enabled (g_cfg w) \<noteq> 0
                                  then (g\<lparr>death_sounded := True\<rparr>, w\<lparr>beeps := beeps w @ [(220, 150)]\<rparr>) else (g, w))
                    in Some (g, redraw_full g w)
               else Some (g, redraw_step g w))"

text \<open>A frame: the keys, then a step when it is due. \<open>lst\<close> is the tick of the last step.\<close>

definition snake_frame :: "bool \<Rightarrow> u32 \<Rightarrow> string \<times> u32 \<Rightarrow> u32 \<times> game \<times> 'd sysconf \<Rightarrow> (bool \<times> u32 \<times> game \<times> 'd sysconf) option" where
  "snake_frame use_pit period fr st =
     (let (keys, now) = fr; (lst, g, w) = st
      in case snake_keys keys g w of
           None \<Rightarrow> None
         | Some (True, g, w) \<Rightarrow> Some (True, lst, g, w)
         | Some (False, g, w) \<Rightarrow>
             let (lst, due) = (if use_pit then if now - lst \<ge> period then (now, True) else (lst, False) else (lst, True))
             in if due then map_option (\<lambda>(g, w). (False, lst, g, w)) (snake_tick g w) else Some (False, lst, g, w))"

fun snake_frames :: "bool \<Rightarrow> u32 \<Rightarrow> (string \<times> u32) list \<Rightarrow> u32 \<times> game \<times> 'd sysconf \<Rightarrow> (bool \<times> u32 \<times> game \<times> 'd sysconf) option" where
  "snake_frames use_pit period [] st = Some (False, st)"
| "snake_frames use_pit period (fr # frs) st =
     (case snake_frame use_pit period fr st of
        None \<Rightarrow> None
      | Some (stop, st) \<Rightarrow> if stop then Some (True, st) else snake_frames use_pit period frs st)"

definition snake_leave :: "game \<Rightarrow> 'd sysconf \<Rightarrow> 'd sysconf" where
  "snake_leave g w = w\<lparr>scr := restore_text (if use_vbe g then on_vbe vbe_disable (scr w) else scr w)\<rparr>"

text \<open>The ticks are those read for the seed, for the start, and before and after the test of the timer.\<close>

definition snake_run :: "dispi \<Rightarrow> u32 \<Rightarrow> u32 \<Rightarrow> u32 \<Rightarrow> u32 \<Rightarrow> u32 \<Rightarrow> (string \<times> u32) list \<Rightarrow> game \<Rightarrow> 'd sysconf
    \<Rightarrow> (bool \<times> game \<times> 'd sysconf) option" where
  "snake_run ad hz seed start t1 t2 frames g w =
     (let (g, w) = snake_board ad g w
      in case new_game (g\<lparr>rng := seed XOR 0xA5A5\<rparr>) of
           None \<Rightarrow> None
         | Some g \<Rightarrow>
             let w = redraw_full g w;
                 period = (hz * 120) div 1000;
                 period = (if period < 1 then 1 else period)
             in case snake_frames (t2 \<noteq> t1) period frames (start, g, w) of
                  None \<Rightarrow> None
                | Some (stop, _, g, w) \<Rightarrow> Some (stop, g, if stop then snake_leave g w else w))"

section \<open>Food\<close>

definition with_food :: "int \<times> int \<Rightarrow> u32 \<Rightarrow> game \<Rightarrow> game" where
  "with_food p r g = g\<lparr>rng := r, food_x := fst p, food_y := snd p\<rparr>"

lemma with_food_simps [simp]:
  "grid_w (with_food p r g) = grid_w g" "grid_h (with_food p r g) = grid_h g" "snake (with_food p r g) = snake g"
  "rng (with_food p r g) = r" "food_x (with_food p r g) = fst p" "food_y (with_food p r g) = snd p" "score (with_food p r g) = score g"
  "dir_x (with_food p r g) = dir_x g" "dir_y (with_food p r g) = dir_y g" "next_dx (with_food p r g) = next_dx g"
  "next_dy (with_food p r g) = next_dy g" "dead (with_food p r g) = dead g" "with_food p r (with_food p' r' g) = with_food p r g"
  by (simp_all add: with_food_def)

lemma place_food_step:
  "place_food g =
     (let y = rng_next (rng g); p = draw_pair (grid_w g) (grid_h g) y; g' = with_food p (rng_next y) g
      in if p \<in> set (snake g) then place_food g' else Some g')"
proof -
  have "g\<lparr>food_x := a, rng := r, food_y := b\<rparr> = g\<lparr>rng := r, food_x := a, food_y := b\<rparr>" for a b r
    by (rule game.equality) simp_all
  note order = this
  show ?thesis by (subst place_food.simps) (simp add: order rand_u_def draw_pair_def draw_bits_def with_food_def Let_def)
qed

lemma place_food_finds:
  "draw_pair (grid_w g) (grid_h g) ((rng_next ^^ (2 * k + 1)) (rng g)) \<notin> set (snake g) \<Longrightarrow>
   \<exists>r y. place_food g = Some (with_food (draw_pair (grid_w g) (grid_h g) y) r g) \<and> draw_pair (grid_w g) (grid_h g) y \<notin> set (snake g)"
proof (induction k arbitrary: g)
  case 0
  then show ?case by (subst place_food_step) (auto simp: Let_def)
next
  case (Suc k)
  let ?y = "rng_next (rng g)" and ?p = "draw_pair (grid_w g) (grid_h g)"
  let ?g = "with_food (?p ?y) (rng_next ?y) g"
  show ?case
  proof (cases "?p ?y \<in> set (snake g)")
    case True
    have "(rng_next ^^ (2 * k + 1)) (rng ?g) = (rng_next ^^ (2 * Suc k + 1)) (rng g)"
      by (simp add: funpow_swap1)
    then have "\<exists>r y. place_food ?g = Some (with_food (?p y) r ?g) \<and> ?p y \<notin> set (snake g)"
      using Suc.IH [of ?g] Suc.prems by simp
    then show ?thesis using True by (subst place_food_step) (simp add: Let_def)
  qed (subst place_food_step, auto simp: Let_def)
qed

definition on_board :: "game \<Rightarrow> int \<times> int \<Rightarrow> bool" where
  "on_board g p \<longleftrightarrow> 0 \<le> fst p \<and> fst p < grid_w g \<and> 0 \<le> snd p \<and> snd p < grid_h g"

lemma place_food_total:
  assumes "a_board (grid_w g) (grid_h g)" "length (snake g) \<le> MAX_LEN"
  shows "\<exists>p r. place_food g = Some (with_food p r g) \<and> p \<notin> set (snake g) \<and> on_board g p"
proof -
  have "card (set (snake g)) \<le> 200" using card_length [of "snake g"] assms(2) by (simp add: MAX_LEN_def)
  then obtain k where "draw_pair (grid_w g) (grid_h g) ((rng_next ^^ (2 * k + 1)) (rng g)) \<notin> set (snake g)"
    using pair_outside [OF assms(1)] by blast
  then obtain r y where y: "place_food g = Some (with_food (draw_pair (grid_w g) (grid_h g) y) r g)"
      "draw_pair (grid_w g) (grid_h g) y \<notin> set (snake g)"
    using place_food_finds by blast
  have "on_board g (draw_pair (grid_w g) (grid_h g) y)"
    using assms(1) by (auto simp: on_board_def draw_pair_def a_board_def)
  then show ?thesis using y by blast
qed

text \<open>C33. \<open>place_food\<close> always returns: for every state of the generator and every snake of at most 200 cells, on each of the boards
  the game can have, the draws reach a free cell, and the food is put there; nothing else of the game changes.\<close>

theorem place_food_returns:
  assumes "a_board (grid_w g) (grid_h g)" "length (snake g) \<le> MAX_LEN"
  shows "\<exists>p r. place_food g = Some (g\<lparr>rng := r, food_x := fst p, food_y := snd p\<rparr>) \<and> p \<notin> set (snake g) \<and> on_board g p"
  using place_food_total [OF assms] by (simp add: with_food_def)

definition blank_game :: game where
  "blank_game = \<lparr>use_vbe = False, cellsz = 8, grid_w = 40, grid_h = 25, screen_w = 320, screen_h = 200,
     snake = [(20, 12), (19, 12), (18, 12)], dir_x = 1, dir_y = 0, next_dx = 1, next_dy = 0, food_x = 0, food_y = 0, score = 0,
     dead = False, death_sounded = False, rng = 7, tail_x = 0, tail_y = 0, grew = False\<rparr>"

theorem place_food_returns_witness:
  "\<exists>p r. place_food blank_game = Some (blank_game\<lparr>rng := r, food_x := fst p, food_y := snd p\<rparr>) \<and> p \<notin> {(20, 12), (19, 12), (18, 12)}"
  using place_food_returns [of blank_game] by (auto simp: blank_game_def a_board_def MAX_LEN_def)

section \<open>The invariant\<close>

definition neighbours :: "int \<times> int \<Rightarrow> int \<times> int \<Rightarrow> bool" where
  "neighbours p q \<longleftrightarrow> \<bar>fst p - fst q\<bar> + \<bar>snd p - snd q\<bar> = 1"

definition unit_dir :: "int \<Rightarrow> int \<Rightarrow> bool" where
  "unit_dir x y \<longleftrightarrow> \<bar>x\<bar> + \<bar>y\<bar> = 1"

definition core_ok :: "game \<Rightarrow> bool" where
  "core_ok g \<longleftrightarrow> a_board (grid_w g) (grid_h g)
     \<and> int (length (snake g)) = min (int MAX_LEN) (3 + score g) \<and> 0 \<le> score g
     \<and> distinct (snake g) \<and> list_all (on_board g) (snake g) \<and> successively neighbours (snake g)
     \<and> unit_dir (dir_x g) (dir_y g) \<and> unit_dir (next_dx g) (next_dy g)"

definition food_ok :: "game \<Rightarrow> bool" where
  "food_ok g \<longleftrightarrow> on_board g (food_x g, food_y g) \<and> (food_x g, food_y g) \<notin> set (snake g)"

definition game_ok :: "game \<Rightarrow> bool" where
  "game_ok g \<longleftrightarrow> core_ok g \<and> food_ok g"

lemma key_dir_unit: "key_dir c = Some (x, y) \<Longrightarrow> unit_dir x y"
  by (auto simp: key_dir_def unit_dir_def split: if_splits)

lemma handle_key_ok: "game_ok g \<Longrightarrow> game_ok (handle_key c g)"
  using key_dir_unit by (auto simp: handle_key_def game_ok_def core_ok_def food_ok_def on_board_def [abs_def] split: option.splits prod.splits)

lemma turn_ok: "game_ok g \<Longrightarrow> game_ok (turn g)"
  by (auto simp: turn_def game_ok_def core_ok_def food_ok_def on_board_def [abs_def])

lemma turn_simps [simp]: "snake (turn g) = snake g" "grid_w (turn g) = grid_w g" "grid_h (turn g) = grid_h g" "dead (turn g) = dead g"
  by (simp_all add: turn_def)

lemma dead_ok: "game_ok (g\<lparr>dead := d\<rparr>) = game_ok g" "game_ok (g\<lparr>death_sounded := b\<rparr>) = game_ok g"
  by (simp_all add: game_ok_def core_ok_def food_ok_def on_board_def [abs_def])

lemma place_food_ok: "core_ok g \<Longrightarrow> \<exists>g'. place_food g = Some g' \<and> game_ok g' \<and> snake g' = snake g \<and> dead g' = dead g"
proof -
  assume g: "core_ok g"
  then have "length (snake g) \<le> MAX_LEN" by (auto simp: core_ok_def)
  then obtain p r where p: "place_food g = Some (with_food p r g)" "p \<notin> set (snake g)" "on_board g p"
    using place_food_total [of g] g by (auto simp: core_ok_def)
  have "game_ok (with_food p r g)"
    using g p(2,3) by (simp add: game_ok_def core_ok_def food_ok_def on_board_def [abs_def])
  then show ?thesis using p(1) by auto
qed

text \<open>A snake that moves, and one that grows.\<close>

lemma moved_body:
  assumes "distinct (ys @ [t])" "successively neighbours (ys @ [t])" "ys \<noteq> []" "p \<notin> set (ys @ [t])" "neighbours p (hd ys)"
  shows "distinct (p # ys)" "successively neighbours (p # ys)" "distinct (p # ys @ [t])" "successively neighbours (p # ys @ [t])"
proof -
  obtain a zs where ys: "ys = a # zs" using assms(3) by (cases ys) auto
  have "successively neighbours ys" using assms(2) by (simp add: successively_append_iff)
  then show "distinct (p # ys)" "successively neighbours (p # ys)" "distinct (p # ys @ [t])" "successively neighbours (p # ys @ [t])"
    using assms by (simp_all add: ys)
qed

lemma advance_ok:
  assumes g: "game_ok g" and new: "(nx, ny) \<notin> set (snake g)" "on_board g (nx, ny)" "neighbours (nx, ny) (hd (snake g))"
  shows "\<exists>g' w'. advance nx ny w g = Some (g', w') \<and> game_ok g' \<and> g_cfg w' = g_cfg w"
proof -
  have len: "3 \<le> length (snake g)" "length (snake g) \<le> MAX_LEN" using g by (auto simp: game_ok_def core_ok_def MAX_LEN_def)
  obtain ys t where S: "snake g = ys @ [t]" using len(1) by (cases "snake g" rule: rev_cases) auto
  have ys: "ys \<noteq> []" "hd (snake g) = hd ys" using len(1) S by (cases ys; simp)+
  have body: "distinct ((nx, ny) # ys)" "successively neighbours ((nx, ny) # ys)" "distinct ((nx, ny) # snake g)"
      "successively neighbours ((nx, ny) # snake g)"
    using moved_body [of ys t "(nx, ny)"] g new(1,3) S ys by (auto simp: game_ok_def core_ok_def)
  define g1 where "g1 = g\<lparr>tail_x := fst t, tail_y := snd t, grew := False, snake := (nx, ny) # ys\<rparr>"
  define g2 where "g2 = (if length (snake g1) < MAX_LEN then g1\<lparr>snake := (nx, ny) # snake g, grew := True\<rparr> else g1)\<lparr>score := score g + 1\<rparr>"
  have board: "list_all (on_board g) ((nx, ny) # snake g)" using g new(2) by (simp add: game_ok_def core_ok_def)
  show ?thesis
  proof (cases "nx = food_x g \<and> ny = food_y g")
    case True
    have "core_ok g2"
      using g body board S len by (auto simp: g2_def g1_def game_ok_def core_ok_def on_board_def [abs_def])
    then obtain g3 where g3: "place_food g2 = Some g3" "game_ok g3" using place_food_ok by blast
    have "advance nx ny w g = (case place_food g2 of None \<Rightarrow> None
        | Some g \<Rightarrow> Some (g, if sound_enabled (g_cfg w) \<noteq> 0 then w\<lparr>beeps := beeps w @ [(988, 40), (1319, 80)]\<rparr> else w))"
      using True S by (simp add: advance_def g2_def g1_def Let_def)
    then show ?thesis using g3 by simp
  next
    case False
    have "game_ok g1"
      using g body board S False by (auto simp: g1_def game_ok_def core_ok_def food_ok_def on_board_def [abs_def])
    moreover have "advance nx ny w g = Some (g1, w)" using False S by (auto simp: advance_def g1_def Let_def)
    ultimately show ?thesis by simp
  qed
qed

lemma step_ok:
  assumes "game_ok g"
  shows "\<exists>g' w'. step g w = Some (g', w') \<and> game_ok g' \<and> g_cfg w' = g_cfg w"
proof (cases "dead g")
  case True
  then show ?thesis using assms by (simp add: step_def)
next
  case False
  have t: "game_ok (turn g)" using assms by (rule turn_ok)
  have ne: "snake g \<noteq> []" using assms by (auto simp: game_ok_def core_ok_def MAX_LEN_def)
  let ?x = "fst (snake g ! 0) + dir_x (turn g)" and ?y = "snd (snake g ! 0) + dir_y (turn g)"
  have "neighbours (?x, ?y) (hd (snake g))"
    using t ne by (auto simp: game_ok_def core_ok_def unit_dir_def neighbours_def hd_conv_nth)
  then have "\<not> (?x < 0 \<or> ?y < 0 \<or> ?x \<ge> grid_w g \<or> ?y \<ge> grid_h g) \<Longrightarrow> (?x, ?y) \<notin> set (snake g) \<Longrightarrow>
      \<exists>g' w'. advance ?x ?y w (turn g) = Some (g', w') \<and> game_ok g' \<and> g_cfg w' = g_cfg w"
    using advance_ok [OF t, of ?x ?y w] by (simp add: on_board_def)
  then show ?thesis using False t by (auto simp: step_def Let_def dead_ok)
qed

section \<open>Runs\<close>

lemma new_game_ok:
  assumes "a_board (grid_w g) (grid_h g)"
  shows "\<exists>g'. new_game g = Some g' \<and> game_ok g' \<and> \<not> dead g'"
proof -
  define g0 where "g0 = (let x = grid_w g div 2; y = grid_h g div 2
    in g\<lparr>snake := [(x, y), (x - 1, y), (x - 2, y)], dir_x := 1, dir_y := 0, next_dx := 1, next_dy := 0,
         score := 0, dead := False, death_sounded := False\<rparr>)"
  have "core_ok g0"
    using assms by (auto simp: g0_def Let_def core_ok_def a_board_def on_board_def neighbours_def unit_dir_def MAX_LEN_def)
  moreover have "new_game g = place_food g0" by (simp add: new_game_def g0_def Let_def)
  moreover have "\<not> dead g0" by (simp add: g0_def Let_def)
  ultimately show ?thesis using place_food_ok [of g0] by auto
qed

lemma mode_board: "r = (0 :: int) \<Longrightarrow> (r, v) = (if ok then vbe_set_mode ad m (snd (vbe_probe ad v0)) else (- 1, snd (vbe_probe ad v0))) \<Longrightarrow>
    (width (g_vbe v), height (g_vbe v)) = mode_size m"
  using vbe_set_mode_ok [OF vbe_probe_ok(1), of ad m ad v0] by (cases ok) (auto split: prod.splits)

lemma mode_grid: "(w, h) = mode_size m \<Longrightarrow> a_board (int w div vbe_cell (int w)) (int h div vbe_cell (int w))"
  using mode_size_cases [of m] by (auto simp: a_board_def vbe_cell_def)

lemma snake_board_ok: "a_board (grid_w (fst (snake_board ad g w))) (grid_h (fst (snake_board ad g w)))"
proof -
  obtain vb w1 where h: "(if gfx_use_vbe (g_cfg w) \<noteq> 0 then ask_host w else (True, w)) = (vb, w1)" by fastforce
  obtain ok v1 where p: "vbe_probe ad (video (vt (scr w1))) = (ok, v1)" by fastforce
  obtain r v where m: "(if ok then vbe_set_mode ad (gfx_mode (g_cfg w1)) v1 else (-1, v1)) = (r, v)" by fastforce
  have "r = 0 \<Longrightarrow> (width (g_vbe v), height (g_vbe v)) = mode_size (gfx_mode (g_cfg w1))"
    using mode_board [of r v ok ad "gfx_mode (g_cfg w1)" "video (vt (scr w1))"] m p by (metis snd_conv)
  then have g: "r = 0 \<Longrightarrow> a_board (int (width (g_vbe v)) div vbe_cell (int (width (g_vbe v)))) (int (height (g_vbe v)) div vbe_cell (int (width (g_vbe v))))"
    by (rule mode_grid)
  have t: "a_board (int GFX_WIDTH div 8) (int GFX_HEIGHT div 8)" by (simp add: a_board_def GFX_WIDTH_def GFX_HEIGHT_def)
  show ?thesis
    using g t unfolding snake_board_def h p m Let_def prod.case
    by (auto simp: h p m)
qed

end
