(* ===== verification/Snake_Draw.thy ===== *)
theory Snake_Draw
  imports Snake
begin

text \<open>
  What the player sees: while the snake lives, every pixel off the frame shows the board, whether the picture was drawn
  afresh or only the cells that changed were. The proofs see both displays through one notion of pixel.
\<close>

section \<open>Pixels\<close>

definition paint :: "game \<Rightarrow> u32 \<Rightarrow> u8 \<Rightarrow> u32" where
  "paint g c32 c8 = (if use_vbe g then c32 else ucast c8)"

definition pixel :: "game \<Rightarrow> screen \<Rightarrow> nat \<Rightarrow> nat \<Rightarrow> u32" where
  "pixel g sc px py =
     (if use_vbe g then vram (video (vt sc)) (py * width (vbe_get_info sc) + px) else ucast (gfx_getpixel (int px) (int py) (vgac sc)))"

text \<open>The display is in the mode the game believes it is in.\<close>

definition display_ok :: "game \<Rightarrow> screen \<Rightarrow> bool" where
  "display_ok g sc \<longleftrightarrow>
     (if use_vbe g
      then vbe_on (video (vt sc)) \<and> screen_w g = int (width (vbe_get_info sc)) \<and> screen_h g = int (height (vbe_get_info sc))
      else chain4 (vgac sc) \<and> screen_w g = int GFX_WIDTH \<and> screen_h g = int GFX_HEIGHT)
     \<and> 8 \<le> cellsz g \<and> cellsz g \<le> 16 \<and> screen_w g \<le> 1024 \<and> screen_h g \<le> 768 \<and> a_board (grid_w g) (grid_h g)"

lemma fill_display [simp]: "display_ok g (fill g x y w h c32 c8 sc) = display_ok g sc"
  by (simp add: display_ok_def fill_def on_vbe_def vbe_get_info_def vbe_on_def)

lemma fill_pixel:
  assumes d: "display_ok g sc" and p: "int px < screen_w g" "int py < screen_h g" and r: "x + w \<le> 2 ^ 31" "y + h \<le> 2 ^ 31"
  shows "pixel g (fill g (int x) (int y) (int w) (int h) c32 c8 sc) px py =
    (if x \<le> px \<and> px < x + w \<and> y \<le> py \<and> py < y + h then paint g c32 c8 else pixel g sc px py)"
proof (cases "use_vbe g")
  case True
  let ?v = "video (vt sc)"
  have v: "vbe_on ?v" "px < width (g_vbe ?v)" "py < height (g_vbe ?v)"
    using d p True by (simp_all add: display_ok_def vbe_get_info_def)
  then have c: "vbe_cols ?v = width (g_vbe ?v)" "vbe_rows ?v = height (g_vbe ?v)" "active (g_vbe ?v)"
    by (simp_all add: vbe_cols_def vbe_rows_def vbe_on_def)
  show ?thesis
    using fb.cell_block [of px ?v py x w y h "\<lambda>i j. c32"] r v(2,3) True
    by (simp add: c pixel_def fill_def on_vbe_def vbe_get_info_def vbe_fill_rect_plots paint_def)
next
  case False
  then have "chain4 (vgac sc)" "px < GFX_WIDTH" "py < GFX_HEIGHT" using d p by (simp_all add: display_ok_def)
  then show ?thesis using fill_rect_pixel [of "vgac sc" px py x w y h c8] r False by (simp add: pixel_def fill_def paint_def)
qed

section \<open>Cells\<close>

definition colour :: "game \<Rightarrow> nat \<Rightarrow> u32" where
  "colour g kind =
     paint g (if kind = 1 then vbe_rgb 80 255 80 else if kind = 2 then vbe_rgb 0 180 0 else if kind = 3 then vbe_rgb 255 60 60 else 0)
       (if kind = 1 then GFX_LGREEN else if kind = 2 then GFX_GREEN else if kind = 3 then GFX_LRED else GFX_BLACK)"

definition cell_of :: "game \<Rightarrow> nat \<Rightarrow> nat \<Rightarrow> int \<times> int" where
  "cell_of g px py = (int px div cellsz g, int py div cellsz g)"

lemma draw_cell_fill:
  "\<exists>c32 c8. paint g c32 c8 = colour g k \<and> draw_cell g gx gy k sc = fill g (gx * cellsz g) (gy * cellsz g) (cellsz g) (cellsz g) c32 c8 sc"
  by (auto simp: draw_cell_def put_cell_def colour_def paint_def)

lemma draw_cell_display [simp]: "display_ok g (draw_cell g gx gy k sc) = display_ok g sc"
  using draw_cell_fill [of g k gx gy sc] by auto

lemma cell_range: "0 < c \<Longrightarrow> (x * c \<le> p \<and> p < x * c + c) \<longleftrightarrow> p div c = x" for c x p :: int
proof
  assume c: "0 < c" and r: "x * c \<le> p \<and> p < x * c + c"
  then show "p div c = x" using int_div_pos_eq [of p c x "p - c * x"] by (simp add: mult.commute)
next
  assume c: "0 < c" and x: "p div c = x"
  have "p = x * c + p mod c" using x by (metis div_mult_mod_eq)
  moreover have "0 \<le> p mod c" "p mod c < c" using c by simp_all
  ultimately show "x * c \<le> p \<and> p < x * c + c" by linarith
qed

lemma draw_cell_pixel:
  assumes d: "display_ok g sc" and p: "int px < screen_w g" "int py < screen_h g" and b: "on_board g (gx, gy)"
  shows "pixel g (draw_cell g gx gy k sc) px py = (if cell_of g px py = (gx, gy) then colour g k else pixel g sc px py)"
proof -
  define c where "c = nat (cellsz g)"
  have c: "int c = cellsz g" "c \<le> 16" "0 < c" using d by (auto simp: display_ok_def c_def)
  define x y where "x = nat gx * c" and "y = nat gy * c"
  have xy: "int x = gx * cellsz g" "int y = gy * cellsz g" "nat gx \<le> 66" "nat gy \<le> 50"
    using b d c by (auto simp: x_def y_def on_board_def display_ok_def a_board_def)
  have "x \<le> 66 * 16" "y \<le> 50 * 16" unfolding x_def y_def using mult_le_mono [OF xy(3) c(2)] mult_le_mono [OF xy(4) c(2)] by simp_all
  then have r: "x + c \<le> 2 ^ 31" "y + c \<le> 2 ^ 31" using c(2) by simp_all
  obtain c32 c8 where f: "paint g c32 c8 = colour g k" "draw_cell g gx gy k sc = fill g (int x) (int y) (int c) (int c) c32 c8 sc"
    using draw_cell_fill [of g k gx gy sc] by (auto simp: c xy)
  have "x \<le> px \<and> px < x + c \<longleftrightarrow> int px div cellsz g = gx" "y \<le> py \<and> py < y + c \<longleftrightarrow> int py div cellsz g = gy"
    using cell_range [of "cellsz g" gx "int px"] cell_range [of "cellsz g" gy "int py"] c xy by linarith+
  then show ?thesis using fill_pixel [OF d p r, of c32 c8] f by (auto simp: cell_of_def)
qed

section \<open>The frame and the background\<close>

definition on_frame :: "game \<Rightarrow> nat \<Rightarrow> nat \<Rightarrow> bool" where
  "on_frame g px py \<longleftrightarrow>
     (let b = (if use_vbe g then 2 else 1)
      in int px < b \<or> int py < b \<or> screen_w g - b \<le> int px \<or> screen_h g - b \<le> int py)"

lemma draw_border_fill:
  assumes "screen_w g = int W" "screen_h g = int H" "b = (if use_vbe g then 2 else 1)" "b \<le> W" "b \<le> H" "display_ok g sc"
  shows "draw_border g sc = (let c32 = vbe_rgb 80 80 80; c8 = GFX_DGRAY
     in fill g (int (W - b)) (int 0) (int b) (int H) c32 c8 (fill g (int 0) (int 0) (int b) (int H) c32 c8
       (fill g (int 0) (int (H - b)) (int W) (int b) c32 c8 (fill g (int 0) (int 0) (int W) (int b) c32 c8 sc))))"
proof (cases "use_vbe g")
  case True
  then show ?thesis using assms by (simp add: draw_border_def fill_def on_vbe_def Let_def of_nat_diff)
next
  case False
  then have "W = GFX_WIDTH" "H = GFX_HEIGHT" "b = 1" using assms by (simp_all add: display_ok_def)
  then show ?thesis using False assms(4,5) by (simp add: draw_border_def fill_def gfx_hline_def gfx_vline_def Let_def of_nat_diff)
qed

lemma draw_border_display [simp]: "display_ok g (draw_border g sc) = display_ok g sc"
  by (simp add: draw_border_def fill_def on_vbe_def gfx_hline_def gfx_vline_def display_ok_def Let_def vbe_get_info_def vbe_on_def)

lemma draw_border_pixel:
  assumes d: "display_ok g sc" and p: "int px < screen_w g" "int py < screen_h g" and f: "\<not> on_frame g px py"
  shows "pixel g (draw_border g sc) px py = pixel g sc px py"
proof -
  define b :: nat where "b = (if use_vbe g then 2 else 1)"
  define W H where "W = nat (screen_w g)" and "H = nat (screen_h g)"
  have wh: "int W = screen_w g" "int H = screen_h g" "W \<le> 1024" "H \<le> 768" using d p by (auto simp: W_def H_def display_ok_def)
  have off: "b \<le> px" "b \<le> py" "px + b < W" "py + b < H" "b \<le> 2" using f wh by (auto simp: on_frame_def b_def Let_def split: if_splits)
  let ?f = "\<lambda>x y w h. fill g (int x) (int y) (int w) (int h) (vbe_rgb 80 80 80) GFX_DGRAY"
  have e: "draw_border g sc = ?f (W - b) 0 b H (?f 0 0 b H (?f 0 (H - b) W b (?f 0 0 W b sc)))"
    using draw_border_fill [of g W H b sc] wh(1,2) off d by (simp add: b_def Let_def)
  have keep: "pixel g (?f x y w h s) px py = pixel g s px py"
    if "display_ok g s" "x + w \<le> 2 ^ 31" "y + h \<le> 2 ^ 31" "\<not> (x \<le> px \<and> px < x + w \<and> y \<le> py \<and> py < y + h)" for x y w h s
    using fill_pixel [OF that(1) p that(2,3), of "vbe_rgb 80 80 80" GFX_DGRAY] that(4) by simp
  have big: "W \<le> 2 ^ 31" "H \<le> 2 ^ 31" "b \<le> 2 ^ 31" "W - b + b \<le> 2 ^ 31" "H - b + b \<le> 2 ^ 31" using wh(3,4) off by simp_all
  have "pixel g (?f (W - b) 0 b H (?f 0 0 b H (?f 0 (H - b) W b (?f 0 0 W b sc)))) px py = pixel g (?f 0 0 b H (?f 0 (H - b) W b (?f 0 0 W b sc))) px py"
    using off big d by (intro keep) simp_all
  also have "\<dots> = pixel g (?f 0 (H - b) W b (?f 0 0 W b sc)) px py" using off big d by (intro keep) simp_all
  also have "\<dots> = pixel g (?f 0 0 W b sc) px py" using off big d by (intro keep) simp_all
  also have "\<dots> = pixel g sc px py" using off big d by (intro keep) simp_all
  finally show ?thesis unfolding e .
qed

lemma clear_display [simp]: "display_ok g (clear_screen g sc) = display_ok g sc"
  by (simp add: clear_screen_def on_vbe_def display_ok_def vbe_get_info_def vbe_on_def gfx_clear_keeps chain4_def)

lemma pixel_index:
  assumes "py < H" "px < W"
  shows "py * W + px < W * (H :: nat)"
proof -
  have "py * W + px < (py + 1) * W" using assms by simp
  also have "\<dots> \<le> H * W" using assms by (intro mult_le_mono1) simp
  finally show ?thesis by (simp add: mult.commute)
qed

lemma clear_pixel:
  assumes d: "display_ok g sc" and p: "int px < screen_w g" "int py < screen_h g"
  shows "pixel g (clear_screen g sc) px py = colour g 0"
proof (cases "use_vbe g")
  case True
  let ?v = "video (vt sc)"
  have v: "vbe_on ?v" "px < width (g_vbe ?v)" "py < height (g_vbe ?v)"
    using d p True by (simp_all add: display_ok_def vbe_get_info_def)
  have "py * width (g_vbe ?v) + px < width (g_vbe ?v) * height (g_vbe ?v)"
    using v(3,2) by (rule pixel_index)
  then show ?thesis using True v by (simp add: pixel_def clear_screen_def on_vbe_def vbe_get_info_def vram_vbe_clear colour_def paint_def)
next
  case False
  then show ?thesis using d p gfx_clear_pixel [of "vgac sc" px py GFX_BLACK]
    by (simp add: pixel_def clear_screen_def display_ok_def colour_def paint_def)
qed

section \<open>The picture\<close>

definition kind_at :: "game \<Rightarrow> int \<times> int \<Rightarrow> nat" where
  "kind_at g p = (if p = hd (snake g) then 1 else if p \<in> set (snake g) then 2 else if p = (food_x g, food_y g) then 3 else 0)"

text \<open>Every pixel off the frame has the colour of its cell: the head, the body, the food or nothing.\<close>

definition shows_game :: "game \<Rightarrow> screen \<Rightarrow> bool" where
  "shows_game g sc \<longleftrightarrow> (\<forall>px py. int px < screen_w g \<longrightarrow> int py < screen_h g \<longrightarrow> \<not> on_frame g px py \<longrightarrow>
     pixel g sc px py = colour g (kind_at g (cell_of g px py)))"

lemma poll_status_keeps: "planes (poll_status n P s) = planes s \<and> seq (poll_status n P s) = seq s"
  by (induction n arbitrary: s) (auto simp: vga_status_def Let_def)

lemma wait_vsync_cases:
  "\<exists>c. scr (wait_vsync g w) = (scr w)\<lparr>vgac := c\<rparr> \<and> planes c = planes (vgac (scr w)) \<and> seq c = seq (vgac (scr w))"
proof -
  obtain vb w1 where h: "ask_host w = (vb, w1)" by fastforce
  have s: "scr w1 = scr w" using h by (auto simp: ask_host_def split: prod.splits)
  have same: "scr w = (scr w)\<lparr>vgac := vgac (scr w)\<rparr>" by simp
  show ?thesis
  proof (cases "use_vbe g \<or> vb")
    case True
    then have "scr (wait_vsync g w) = scr w" using h s by (auto simp: wait_vsync_def)
    then show ?thesis using same by metis
  next
    case False
    then have "scr (wait_vsync g w) = (scr w)\<lparr>vgac := gfx_wait_vsync (vgac (scr w))\<rparr>" using h s by (simp add: wait_vsync_def)
    then show ?thesis using poll_status_keeps by (metis gfx_wait_vsync_def)
  qed
qed

lemma wait_vsync_display [simp]: "display_ok g (scr (wait_vsync g w)) = display_ok g (scr w)"
  using wait_vsync_cases [of g w] by (auto simp: display_ok_def vbe_get_info_def chain4_def)

lemma wait_vsync_pixel [simp]: "pixel g (scr (wait_vsync g w)) px py = pixel g (scr w) px py"
  using wait_vsync_cases [of g w] by (auto simp: pixel_def vbe_get_info_def gfx_getpixel_def vga_peek_def)

lemma snake_cells_display: "display_ok g (fold (\<lambda>i. draw_cell g (fst (ps ! i)) (snd (ps ! i)) (k i)) is sc) = display_ok g sc"
  by (induction "is" arbitrary: sc) auto

lemma snake_cells_pixel:
  assumes d: "display_ok g sc" and p: "int px < screen_w g" "int py < screen_h g" and b: "list_all (on_board g) ps" "distinct ps" "n \<le> length ps"
  shows "pixel g (fold (\<lambda>i. draw_cell g (fst (ps ! i)) (snd (ps ! i)) (if i = 0 then 1 else 2)) [0..<n] sc) px py =
    (if cell_of g px py \<in> set (take n ps) then colour g (if cell_of g px py = hd ps then 1 else 2) else pixel g sc px py)"
  using b(3)
proof (induction n)
  case (Suc n)
  have n: "n < length ps" using Suc.prems by simp
  define F where "F = fold (\<lambda>i. draw_cell g (fst (ps ! i)) (snd (ps ! i)) (if i = 0 then 1 else 2)) [0..<n] sc"
  have ob: "on_board g (fst (ps ! n), snd (ps ! n))" using b(1) n by (simp add: list_all_length)
  have "display_ok g F" using d unfolding F_def snake_cells_display .
  from draw_cell_pixel [OF this p ob]
  have draw: "pixel g (draw_cell g (fst (ps ! n)) (snd (ps ! n)) (if n = 0 then 1 else 2) F) px py =
      (if cell_of g px py = ps ! n then colour g (if n = 0 then 1 else 2) else pixel g F px py)" by simp
  have "ps ! n = hd ps \<longleftrightarrow> n = 0" 
  proof -
    have "hd ps = ps ! 0" using n by (cases ps) simp_all
    moreover have "0 < length ps" using n by linarith
    ultimately show ?thesis using nth_eq_iff_index_eq [OF b(2) n, of 0] by simp
  qed
  then show ?case using draw Suc n by (auto simp: take_Suc_conv_app_nth F_def)
qed simp

lemma redraw_full_shows:
  assumes d: "display_ok g (scr w)" and g: "game_ok g" "\<not> dead g"
  shows "shows_game g (scr (redraw_full g w))" "display_ok g (scr (redraw_full g w))"
proof -
  define s0 where "s0 = draw_border g (clear_screen g (scr (wait_vsync g w)))"
  define s1 where "s1 = draw_cell g (food_x g) (food_y g) 3 s0"
  have s: "display_ok g s0" "display_ok g s1" using d by (simp_all add: s0_def s1_def)
  have r: "scr (redraw_full g w) = fold (\<lambda>i. draw_cell g (fst (snake g ! i)) (snd (snake g ! i)) (if i = 0 then 1 else 2)) [0..<length (snake g)] s1"
    using g(2) by (simp add: redraw_full_def s0_def s1_def Let_def)
  show "display_ok g (scr (redraw_full g w))" unfolding r snake_cells_display by (rule s(2))
  show "shows_game g (scr (redraw_full g w))" unfolding shows_game_def
  proof (intro allI impI)
    fix px py assume p: "int px < screen_w g" "int py < screen_h g" and f: "\<not> on_frame g px py"
    have "pixel g s0 px py = colour g 0"
      using draw_border_pixel [OF _ p f, of "clear_screen g (scr (wait_vsync g w))"] clear_pixel [OF _ p, of "scr (wait_vsync g w)"] d
      by (simp add: s0_def)
    then have "pixel g s1 px py = (if cell_of g px py = (food_x g, food_y g) then colour g 3 else colour g 0)"
      using draw_cell_pixel [OF s(1) p, of "food_x g" "food_y g" 3] g(1) by (simp add: s1_def game_ok_def food_ok_def)
    moreover have "hd (snake g) \<in> set (snake g)" by (rule hd_in_set) (use g(1) in \<open>auto simp: game_ok_def core_ok_def MAX_LEN_def\<close>)
    ultimately show "pixel g (scr (redraw_full g w)) px py = colour g (kind_at g (cell_of g px py))"
      using snake_cells_pixel [OF s(2) p, of "snake g" "length (snake g)"] g(1)
      by (auto simp: r kind_at_def game_ok_def core_ok_def MAX_LEN_def)
  qed
qed

text \<open>What a step changes of the picture: the new head, the old head, the old end unless the snake grew, and the food.\<close>

definition same_board :: "game \<Rightarrow> game \<Rightarrow> bool" where
  "same_board g g' \<longleftrightarrow> use_vbe g' = use_vbe g \<and> cellsz g' = cellsz g \<and> grid_w g' = grid_w g \<and> grid_h g' = grid_h g
     \<and> screen_w g' = screen_w g \<and> screen_h g' = screen_h g"

definition moved :: "game \<Rightarrow> game \<Rightarrow> bool" where
  "moved g g' \<longleftrightarrow> (\<exists>n ys. snake g = ys @ [(tail_x g', tail_y g')] \<and> n \<notin> set (snake g)
     \<and> snake g' = (if grew g' then n # snake g else n # ys)
     \<and> (n = (food_x g, food_y g) \<or> (food_x g', food_y g') = (food_x g, food_y g)))"

lemma advance_moved:
  assumes g: "game_ok t" and new: "(x, y) \<notin> set (snake t)" and a: "advance x y w t = Some (g', w')"
  shows "moved t g' \<and> same_board t g' \<and> scr w' = scr w \<and> dead g' = dead t"
proof -
  have len: "3 \<le> length (snake t)" "length (snake t) \<le> MAX_LEN" "a_board (grid_w t) (grid_h t)"
    using g by (auto simp: game_ok_def core_ok_def MAX_LEN_def)
  obtain ys e where S: "snake t = ys @ [e]" using len(1) by (cases "snake t" rule: rev_cases) auto
  define t1 where "t1 = t\<lparr>tail_x := fst e, tail_y := snd e, grew := False, snake := (x, y) # ys\<rparr>"
  show ?thesis
  proof (cases "(x, y) = (food_x t, food_y t)")
    case False
    then have "g' = t1 \<and> w' = w" using a S by (auto simp: advance_def t1_def Let_def)
    then show ?thesis using S new by (auto simp: moved_def same_board_def t1_def)
  next
    case True
    define t2 where "t2 = (if length (snake t1) < MAX_LEN then t1\<lparr>snake := (x, y) # snake t, grew := True\<rparr> else t1)\<lparr>score := score t + 1\<rparr>"
    have "length (snake t2) \<le> MAX_LEN" "a_board (grid_w t2) (grid_h t2)"
      using len S by (auto simp: t2_def t1_def)
    then obtain p r where "place_food t2 = Some (with_food p r t2)" using place_food_total by blast
    then have "g' = with_food p r t2 \<and> scr w' = scr w"
      using a S True by (auto simp: advance_def t2_def t1_def Let_def)
    then show ?thesis using S new True by (auto simp: moved_def same_board_def t2_def t1_def with_food_def)
  qed
qed

text \<open>A step either kills the snake where it is or moves it.\<close>

lemma step_moved:
  assumes g: "game_ok g" "\<not> dead g" and s: "step g w = Some (g', w')"
  shows "same_board g g' \<and> scr w' = scr w \<and> (\<not> dead g' \<longrightarrow> moved g g')"
proof -
  define t where "t = turn g"
  have t: "snake t = snake g" "same_board g t" "food_x t = food_x g" "food_y t = food_y g" "\<not> dead t" "game_ok t"
    using g turn_ok by (simp_all add: t_def turn_def same_board_def)
  define x y where "x = fst (snake t ! 0) + dir_x t" and "y = snd (snake t ! 0) + dir_y t"
  have "(g' = t\<lparr>dead := True\<rparr> \<and> w' = w) \<or> (x, y) \<notin> set (snake t) \<and> advance x y w t = Some (g', w')"
    using s g(2) by (auto simp: step_def Let_def x_def y_def t_def [symmetric] split: if_splits)
  then show ?thesis
  proof
    assume "g' = t\<lparr>dead := True\<rparr> \<and> w' = w"
    then show ?thesis using t(2) by (simp add: same_board_def)
  next
    assume "(x, y) \<notin> set (snake t) \<and> advance x y w t = Some (g', w')"
    then have "moved t g' \<and> same_board t g' \<and> scr w' = scr w" using advance_moved [OF t(6)] by blast
    moreover have "moved t g' = moved g g'" unfolding moved_def t(1,3,4) ..
    ultimately show ?thesis using t(2) by (simp add: same_board_def)
  qed
qed

lemma kind_unchanged:
  assumes "moved g g'" "2 \<le> length (snake g)"
    and "p \<noteq> snake g' ! 0" "p \<noteq> snake g' ! 1" "p \<noteq> (food_x g', food_y g')" "grew g' \<or> p \<noteq> (tail_x g', tail_y g')"
  shows "kind_at g' p = kind_at g p"
proof -
  obtain n ys where m: "snake g = ys @ [(tail_x g', tail_y g')]" "snake g' = (if grew g' then n # snake g else n # ys)"
      "n = (food_x g, food_y g) \<or> (food_x g', food_y g') = (food_x g, food_y g)"
    using assms(1) unfolding moved_def by blast
  obtain h zs where ys: "ys = h # zs" using m(1) assms(2) by (cases ys) auto
  have "snake g' ! 0 = n" "snake g' ! 1 = h" "hd (snake g) = h" "hd (snake g') = n" using m(1,2) ys by auto
  then show ?thesis using assms(3-6) m ys by (auto simp: kind_at_def split: if_splits)
qed

lemma redraw_step_shows:
  assumes d: "display_ok g (scr w)" and ok: "game_ok g" "game_ok g'" and s: "step g w0 = Some (g', w')" "\<not> dead g" "\<not> dead g'"
    and sh: "shows_game g (scr w)"
  shows "shows_game g' (scr (redraw_step g' w))" "display_ok g' (scr (redraw_step g' w))"
proof -
  have m: "moved g g'" "same_board g g'" using step_moved [OF ok(1) s(2,1)] s(3) by simp_all
  note fx = m(2) [unfolded same_board_def]
  obtain n ys where mv: "snake g = ys @ [(tail_x g', tail_y g')]" "n \<notin> set (snake g)" "snake g' = (if grew g' then n # snake g else n # ys)"
    using m(1) unfolding moved_def by blast
  have len: "3 \<le> length (snake g)" "distinct (snake g)" "distinct (snake g')" "(food_x g', food_y g') \<notin> set (snake g')" "list_all (on_board g) (snake g)"
    using ok by (auto simp: game_ok_def core_ok_def food_ok_def MAX_LEN_def)
  have tl: "on_board g' (tail_x g', tail_y g')" using len(5) mv(1) fx by (simp add: on_board_def)
  have ne: "1 < length (snake g')" "snake g' \<noteq> []" using ok(2) by (auto simp: game_ok_def core_ok_def MAX_LEN_def)
  have eq: "pixel g' = pixel g" "colour g' = colour g" "cell_of g' = cell_of g" "on_frame g' = on_frame g" "display_ok g' = display_ok g"
    using fx by (auto simp: fun_eq_iff pixel_def colour_def paint_def cell_of_def on_frame_def display_ok_def)
  define s0 where "s0 = (if \<not> grew g' then draw_cell g' (tail_x g') (tail_y g') 0 (scr (wait_vsync g' w)) else scr (wait_vsync g' w))"
  define s1 where "s1 = draw_cell g' (fst (snake g' ! 0)) (snd (snake g' ! 0)) 1 s0"
  define s2 where "s2 = draw_cell g' (fst (snake g' ! 1)) (snd (snake g' ! 1)) 2 s1"
  define s3 where "s3 = draw_cell g' (food_x g') (food_y g') 3 s2"
  have r: "scr (redraw_step g' w) = draw_border g' s3"
    using ne(1) by (simp add: redraw_step_def s0_def s1_def s2_def s3_def Let_def)
  have d': "display_ok g' (scr w)" using d eq by simp
  have ds: "display_ok g' s0" "display_ok g' s1" "display_ok g' s2" "display_ok g' s3"
    using d' by (simp_all add: s0_def s1_def s2_def s3_def)
  show "display_ok g' (scr (redraw_step g' w))" using ds(4) by (simp add: r)
  have b: "on_board g' (fst (snake g' ! 0), snd (snake g' ! 0))" "on_board g' (fst (snake g' ! 1), snd (snake g' ! 1))" "on_board g' (food_x g', food_y g')"
    using ok(2) ne by (auto simp: game_ok_def core_ok_def food_ok_def list_all_length)
  show "shows_game g' (scr (redraw_step g' w))" unfolding shows_game_def
  proof (intro allI impI)
    fix px py assume p: "int px < screen_w g'" "int py < screen_h g'" and f: "\<not> on_frame g' px py"
    let ?c = "cell_of g' px py"
    have p0: "pixel g' s0 px py = (if \<not> grew g' \<and> ?c = (tail_x g', tail_y g') then colour g' 0 else pixel g' (scr w) px py)"
      using draw_cell_pixel [OF _ p tl, of "scr (wait_vsync g' w)" 0] d' by (simp add: s0_def)
    have p3: "pixel g' (scr (redraw_step g' w)) px py =
       (if ?c = (food_x g', food_y g') then colour g' 3 else if ?c = snake g' ! 1 then colour g' 2 else if ?c = snake g' ! 0 then colour g' 1
        else pixel g' s0 px py)"
      using draw_border_pixel [OF ds(4) p f] draw_cell_pixel [OF ds(3) p b(3), of 3] draw_cell_pixel [OF ds(2) p b(2), of 2]
        draw_cell_pixel [OF ds(1) p b(1), of 1] by (simp add: r s3_def s2_def s1_def)
    have old: "pixel g' (scr w) px py = colour g' (kind_at g ?c)"
      using sh p f fx by (simp add: shows_game_def eq)
    have k: "kind_at g' (snake g' ! 0) = 1" "kind_at g' (snake g' ! 1) = 2" "kind_at g' (food_x g', food_y g') = 3"
      using ne len(3,4) by (auto simp: kind_at_def hd_conv_nth nth_eq_iff_index_eq in_set_conv_nth)
    have tail: "\<not> grew g' \<Longrightarrow> ?c = (tail_x g', tail_y g') \<Longrightarrow> ?c \<notin> {(food_x g', food_y g'), snake g' ! 0, snake g' ! 1} \<Longrightarrow> kind_at g' ?c = 0"
      using mv len(2) by (auto simp: kind_at_def)
    show "pixel g' (scr (redraw_step g' w)) px py = colour g' (kind_at g' ?c)"
      using p3 p0 old k tail kind_unchanged [OF m(1), of ?c] len(1) by auto
  qed
qed

section \<open>Whole runs\<close>

lemma plot_display [simp]: "display_ok g (plot g' x y c32 c8 sc) = display_ok g sc"
  by (simp add: plot_def on_vbe_def display_ok_def vbe_get_info_def vbe_on_def gfx_putpixel_def)

lemma text_display [simp]: "display_ok g (draw_text_xy g' px py s c32 c8 sc) = display_ok g sc"
proof (induction s arbitrary: px sc)
  case (Cons c cs)
  have "display_ok g (fold (\<lambda>col sc. if Q r col then plot g' (px + int col) (py + int r) c32 c8 sc else sc) cols sc) = display_ok g sc" for Q r cols sc
    by (induction cols arbitrary: sc) auto
  then have "display_ok g (fold (\<lambda>r. fold (\<lambda>col sc. if Q r col then plot g' (px + int col) (py + int r) c32 c8 sc else sc) cols) rs sc) = display_ok g sc" for Q cols rs sc
    by (induction rs arbitrary: sc) auto
  then show ?case using Cons by (simp add: Let_def)
qed simp

lemma fill_other_display:
  "display_ok g (on_vbe (vbe_fill_rect x y w h c) sc) = display_ok g sc" "display_ok g (sc\<lparr>vgac := gfx_fill_rect x y w h c8 a\<rparr>) = display_ok g (sc\<lparr>vgac := a\<rparr>)"
  by (simp_all add: on_vbe_def display_ok_def vbe_get_info_def vbe_on_def)

lemma game_over_display: "display_ok g (draw_game_over g sc) = display_ok g sc"
  by (simp add: draw_game_over_def fill_other_display Let_def del: draw_text_xy.simps)

lemma redraw_full_display: "display_ok g (scr w) \<Longrightarrow> display_ok g (scr (redraw_full g w))"
  by (simp add: redraw_full_def Let_def snake_cells_display game_over_display)

definition game_shown :: "game \<Rightarrow> 'd sysconf \<Rightarrow> bool" where
  "game_shown g w \<longleftrightarrow> game_ok g \<and> display_ok g (scr w) \<and> (\<not> dead g \<longrightarrow> shows_game g (scr w))"

lemma shown_cong:
  assumes "same_board g g'" "snake g' = snake g" "food_x g' = food_x g" "food_y g' = food_y g"
  shows "display_ok g' = display_ok g" "shows_game g' = shows_game g"
  using assms by (auto simp: fun_eq_iff same_board_def display_ok_def shows_game_def pixel_def on_frame_def colour_def paint_def kind_at_def cell_of_def)

lemma handle_key_shown: "game_shown g w \<Longrightarrow> game_shown (handle_key c g) w"
proof -
  have e: "same_board g (handle_key c g)" "snake (handle_key c g) = snake g" "food_x (handle_key c g) = food_x g"
      "food_y (handle_key c g) = food_y g" "dead (handle_key c g) = dead g"
    by (auto simp: handle_key_def same_board_def split: option.splits)
  show "game_shown g w \<Longrightarrow> game_shown (handle_key c g) w"
    using shown_cong [OF e(1-4)] e(5) handle_key_ok by (simp add: game_shown_def)
qed

lemma new_game_shown:
  assumes "a_board (grid_w g) (grid_h g)" "display_ok g (scr w)"
  shows "\<exists>g'. new_game g = Some g' \<and> game_shown g' (redraw_full g' w)"
proof -
  obtain g' where g': "new_game g = Some g'" "game_ok g'" "\<not> dead g'" using new_game_ok [OF assms(1)] by blast
  define g0 where "g0 = (let x = grid_w g div 2; y = grid_h g div 2
    in g\<lparr>snake := [(x, y), (x - 1, y), (x - 2, y)], dir_x := 1, dir_y := 0, next_dx := 1, next_dy := 0,
         score := 0, dead := False, death_sounded := False\<rparr>)"
  have "length (snake g0) \<le> MAX_LEN" "a_board (grid_w g0) (grid_h g0)" using assms(1) by (simp_all add: g0_def Let_def MAX_LEN_def)
  then obtain p r where "place_food g0 = Some (with_food p r g0)" using place_food_total by blast
  then have "g' = with_food p r g0" using g'(1) by (simp add: new_game_def g0_def Let_def)
  then have "same_board g g'" by (simp add: same_board_def g0_def with_food_def Let_def)
  then have "display_ok g' (scr w)" using assms(2) by (auto simp: display_ok_def same_board_def)
  then show ?thesis using g' redraw_full_shows by (auto simp: game_shown_def)
qed

lemma snake_keys_shown: "game_shown g w \<Longrightarrow> \<exists>stop g' w'. snake_keys cs g w = Some (stop, g', w') \<and> game_shown g' w'"
proof (induction cs arbitrary: g w)
  case (Cons c cs)
  have "a_board (grid_w g) (grid_h g)" "display_ok g (scr w)" using Cons.prems by (simp_all add: game_shown_def game_ok_def core_ok_def)
  then obtain g' where g': "new_game g = Some g'" "game_shown g' (redraw_full g' w)" using new_game_shown by blast
  show ?case
    using Cons.IH [OF g'(2)] Cons.IH [OF handle_key_shown [OF Cons.prems], of c] g'(1) Cons.prems by auto
qed auto

lemma snake_tick_shown: "game_shown g w \<Longrightarrow> \<exists>g' w'. snake_tick g w = Some (g', w') \<and> game_shown g' w'"
proof (cases "dead g")
  case True
  then show "game_shown g w \<Longrightarrow> ?thesis" by (simp add: snake_tick_def)
next
  case False
  assume g: "game_shown g w"
  then have ok: "game_ok g" "display_ok g (scr w)" "shows_game g (scr w)" using False by (simp_all add: game_shown_def)
  obtain g1 w1 where s: "step g w = Some (g1, w1)" "game_ok g1" using step_ok [OF ok(1)] by blast
  have m: "same_board g g1" "scr w1 = scr w" using step_moved [OF ok(1) False s(1)] by simp_all
  have d: "display_ok g1 (scr w1)" using ok(2) m by (auto simp: display_ok_def same_board_def)
  show ?thesis
  proof (cases "dead g1")
    case True
    define g2 w2 where "g2 = (if \<not> death_sounded g1 \<and> sound_enabled (g_cfg w1) \<noteq> 0 then g1\<lparr>death_sounded := True\<rparr> else g1)"
      and "w2 = (if \<not> death_sounded g1 \<and> sound_enabled (g_cfg w1) \<noteq> 0 then w1\<lparr>beeps := beeps w1 @ [(220, 150)]\<rparr> else w1)"
    have "snake_tick g w = Some (g2, redraw_full g2 w2)" using False True s(1) by (auto simp: snake_tick_def g2_def w2_def Let_def)
    moreover have "display_ok g2 (scr w2)" using d by (auto simp: g2_def w2_def display_ok_def)
    moreover have "game_ok g2" "dead g2" using s(2) True by (simp_all add: g2_def dead_ok)
    ultimately show ?thesis using redraw_full_display [of g2 w2] by (auto simp: game_shown_def)
  next
    case alive: False
    have "snake_tick g w = Some (g1, redraw_step g1 w1)" using False alive s(1) by (simp add: snake_tick_def)
    moreover have "shows_game g1 (scr (redraw_step g1 w1))" "display_ok g1 (scr (redraw_step g1 w1))"
      using redraw_step_shows [of g w1 g1 w w1] ok s m False alive by simp_all
    ultimately show ?thesis using s(2) by (simp add: game_shown_def)
  qed
qed

lemma snake_frame_shown:
  assumes g: "game_shown g w"
  shows "\<exists>stop lst' g' w'. snake_frame up period fr (lst, g, w) = Some (stop, lst', g', w') \<and> game_shown g' w'"
proof -
  obtain keys now where fr: "fr = (keys, now)" by (cases fr)
  obtain stop g1 w1 where k: "snake_keys keys g w = Some (stop, g1, w1)" "game_shown g1 w1" using snake_keys_shown [OF g] by blast
  obtain g2 w2 where t: "snake_tick g1 w1 = Some (g2, w2)" "game_shown g2 w2" using snake_tick_shown [OF k(2)] by blast
  show ?thesis using k t by (cases stop) (auto simp: snake_frame_def fr)
qed

lemma snake_frames_shown:
  "game_shown g w \<Longrightarrow> \<exists>stop lst' g' w'. snake_frames up period frs (lst, g, w) = Some (stop, lst', g', w') \<and> game_shown g' w'"
proof (induction frs arbitrary: lst g w)
  case (Cons fr frs)
  obtain stop lst' g' w' where f: "snake_frame up period fr (lst, g, w) = Some (stop, lst', g', w')" "game_shown g' w'"
    using snake_frame_shown [OF Cons.prems] by blast
  then show ?case using Cons.IH [OF f(2), of lst'] by (cases stop) auto
qed auto

lemma mode13_chain4: "chain4 (gfx_init_mode13 s)"
  unfolding chain4_def gfx_init_mode13_program gfx_clear_keeps
  by (simp add: attr_index_keeps vga_program_regs mode13_seq_def bit_simps)

lemma mode_display:
  assumes "(if ok then vbe_set_mode ad m (snd (vbe_probe ad v0)) else (- 1, snd (vbe_probe ad v0))) = (0 :: int, v)"
  shows "vbe_on v" "(width (g_vbe v), height (g_vbe v)) = mode_size m"
proof -
  have sm: "vbe_set_mode ad m (snd (vbe_probe ad v0)) = (0, v)" using assms by (cases ok) simp_all
  have k: "vbe_ok v" "active (g_vbe v)" "(width (g_vbe v), height (g_vbe v)) = mode_size m"
    using vbe_set_mode_ok [OF vbe_probe_ok(1), of ad m ad v0] unfolding sm by simp_all
  show "vbe_on v" using k(1,2) by (simp add: vbe_ok_def vbe_on_def)
  show "(width (g_vbe v), height (g_vbe v)) = mode_size m" by (rule k(3))
qed

lemma snake_board_display: "display_ok (fst (snake_board ad g w)) (scr (snd (snake_board ad g w)))"
proof -
  obtain vb w1 where h: "(if gfx_use_vbe (g_cfg w) \<noteq> 0 then ask_host w else (True, w)) = (vb, w1)" by fastforce
  obtain ok v1 where p: "vbe_probe ad (video (vt (scr w1))) = (ok, v1)" by fastforce
  obtain r v where m: "(if ok then vbe_set_mode ad (gfx_mode (g_cfg w1)) v1 else (-1, v1)) = (r, v)" by fastforce
  have on: "r = 0 \<Longrightarrow> vbe_on v" "r = 0 \<Longrightarrow> (width (g_vbe v), height (g_vbe v)) = mode_size (gfx_mode (g_cfg w1))"
    using mode_display [of ok ad "gfx_mode (g_cfg w1)" "video (vt (scr w1))" v] m p by (metis snd_conv)+
  have size: "r = 0 \<Longrightarrow> width (g_vbe v) \<le> 1024 \<and> height (g_vbe v) \<le> 768" using on(2) mode_size_cases [of "gfx_mode (g_cfg w1)"] by auto
  have cl: "8 \<le> vbe_cell n" "vbe_cell n \<le> 16" for n by (simp_all add: vbe_cell_def)
  have t: "int GFX_WIDTH \<le> 1024" "int GFX_HEIGHT \<le> 768" by (simp_all add: GFX_WIDTH_def GFX_HEIGHT_def)
  define c where "c = vbe_cell (int (width (g_vbe v)))"
  have c: "8 \<le> c" "c \<le> 16" using cl by (simp_all add: c_def)
  consider "r = 0" "gfx_use_vbe (g_cfg w1) \<noteq> 0 \<and> \<not> vb" | "r \<noteq> 0 \<or> \<not> (gfx_use_vbe (g_cfg w1) \<noteq> 0 \<and> \<not> vb)" by blast
  then show ?thesis
  proof cases
    case 1
    then have e: "snake_board ad g w = (g\<lparr>use_vbe := True, screen_w := int (width (g_vbe v)), screen_h := int (height (g_vbe v)),
        cellsz := c, grid_w := int (width (g_vbe v)) div c, grid_h := int (height (g_vbe v)) div c\<rparr>, w1\<lparr>scr := on_vbe (\<lambda>_. v) (scr w1)\<rparr>)"
      unfolding snake_board_def h p m Let_def prod.case c_def by (simp add: h p m)
    have "a_board (int (width (g_vbe v)) div c) (int (height (g_vbe v)) div c)" using mode_grid [OF on(2) [OF 1(1)]] by (simp add: c_def)
    then show ?thesis using on(1) [OF 1(1)] size [OF 1(1)] c by (simp add: e display_ok_def on_vbe_def vbe_get_info_def)
  next
    case 2
    obtain g1 w2 where e: "snake_board ad g w = (g1, w2)" by fastforce
    have "chain4 (vgac (scr w2)) \<and> \<not> use_vbe g1 \<and> screen_w g1 = int GFX_WIDTH \<and> screen_h g1 = int GFX_HEIGHT \<and> cellsz g1 = 8"
      using e 2 unfolding snake_board_def h p m Let_def prod.case by (auto simp: h p m mode13_chain4 split: if_splits)
    then show ?thesis using snake_board_ok [of ad g w] t by (simp add: e display_ok_def)
  qed
qed

text \<open>C32. A run of the game never hangs and never leaves a proper state, whatever the display adapter answers, the seed, the rate and
  state of the timer, and the keys of any sequence of frames: the snake keeps \<open>min 200 (3 + score)\<close> cells that lie on the
  board, are pairwise different and each next to the one before; the food lies on a free cell of the board; the
  direction is one of the four. And as long as the snake lives the screen shows exactly this: every pixel off the frame has
  the colour of its cell, although most steps only redraw the cells that changed.\<close>

theorem snake_run_shows:
  "\<exists>stop g' w'. snake_run ad hz seed start t1 t2 frames g w = Some (stop, g', w') \<and> game_ok g'
     \<and> (\<not> stop \<and> \<not> dead g' \<longrightarrow> shows_game g' (scr w'))"
proof -
  obtain g1 w1 where b: "snake_board ad g w = (g1, w1)" by (cases "snake_board ad g w")
  let ?g = "g1\<lparr>rng := seed XOR 0xA5A5\<rparr>"
  have "a_board (grid_w ?g) (grid_h ?g)" "display_ok ?g (scr w1)"
    using snake_board_ok [of ad g w] snake_board_display [of ad g w] b by (simp_all add: display_ok_def)
  then obtain g2 where n: "new_game ?g = Some g2" "game_shown g2 (redraw_full g2 w1)" using new_game_shown by blast
  let ?period = "if (hz * 120) div 1000 < 1 then 1 else (hz * 120) div 1000"
  obtain stop lst' g' w' where f: "snake_frames (t2 \<noteq> t1) ?period frames (start, g2, redraw_full g2 w1) = Some (stop, lst', g', w')" "game_shown g' w'"
    using snake_frames_shown [OF n(2)] by blast
  then have "snake_run ad hz seed start t1 t2 frames g w = Some (stop, g', if stop then snake_leave g' w' else w')"
    using b n(1) by (simp add: snake_run_def Let_def)
  then show ?thesis using f(2) by (auto simp: game_shown_def)
qed

theorem snake_run_shows_witness:
  "\<exists>g' w'. snake_run no_adapter 100 42 0 0 1 [] blank_game demo_setup = Some (False, g', w') \<and> game_ok g' \<and> shows_game g' (scr w')"
proof -
  obtain stop g' w' where r: "snake_run no_adapter 100 42 0 0 1 [] blank_game demo_setup = Some (stop, g', w')" "game_ok g'"
      "\<not> stop \<and> \<not> dead g' \<longrightarrow> shows_game g' (scr w')"
    using snake_run_shows [of no_adapter 100 42 0 0 1 "[]" blank_game demo_setup] by blast
  obtain g1 w1 where b: "snake_board no_adapter blank_game demo_setup = (g1, w1)" by fastforce
  have "a_board (grid_w (g1\<lparr>rng := 42 XOR 0xA5A5\<rparr>)) (grid_h (g1\<lparr>rng := 42 XOR 0xA5A5\<rparr>))"
    using snake_board_ok [of no_adapter blank_game demo_setup] b by simp
  then obtain g2 where "new_game (g1\<lparr>rng := 42 XOR 0xA5A5\<rparr>) = Some g2" "\<not> dead g2" using new_game_ok by blast
  then have "\<not> stop \<and> \<not> dead g'" using r(1) b by (simp add: snake_run_def Let_def)
  then show ?thesis using r by auto
qed

end
