(* ===== verification/Mkdraw.thy ===== *)
theory Mkdraw
  imports Vbe Font
begin

text \<open>
  Drawing into pixel buffers and onto the framebuffer (\<open>src/src/mkdraw.c\<close>). A buffer of \<open>w\<close> times \<open>h\<close> pixels is given by the function
  that yields its words. Plotting into a buffer provides the interface \<open>raster\<close>, as plotting on the framebuffer does.
\<close>

section \<open>Definitions\<close>

type_synonym pixbuf = "nat \<Rightarrow> u32"

definition put :: "int \<Rightarrow> int \<Rightarrow> int \<Rightarrow> int \<Rightarrow> u32 \<Rightarrow> pixbuf \<Rightarrow> pixbuf" where
  "put w h x y c pix =
     (if as_unsigned x \<ge> as_unsigned w \<or> as_unsigned y \<ge> as_unsigned h then pix
      else pix(as_unsigned y * as_unsigned w + as_unsigned x := c))"

definition mk_buf_fill :: "int \<Rightarrow> int \<Rightarrow> u32 \<Rightarrow> pixbuf \<Rightarrow> pixbuf" where
  "mk_buf_fill w h color pix = fold (\<lambda>i pix. pix(i := color)) [0..<nat (w * h)] pix"

definition mk_buf_rect :: "int \<Rightarrow> int \<Rightarrow> int \<Rightarrow> int \<Rightarrow> int \<Rightarrow> int \<Rightarrow> u32 \<Rightarrow> pixbuf \<Rightarrow> pixbuf" where
  "mk_buf_rect w h x y rw rh color pix =
     (if rw \<le> 0 \<or> rh \<le> 0 then pix
      else fold (\<lambda>j. fold (\<lambda>i. put w h (x + int i) (y + int j) color) [0..<nat rw]) [0..<nat rh] pix)"

definition mk_buf_hline :: "int \<Rightarrow> int \<Rightarrow> int \<Rightarrow> int \<Rightarrow> int \<Rightarrow> u32 \<Rightarrow> pixbuf \<Rightarrow> pixbuf" where
  "mk_buf_hline w h x y n color = mk_buf_rect w h x y n 1 color"

definition mk_buf_vline :: "int \<Rightarrow> int \<Rightarrow> int \<Rightarrow> int \<Rightarrow> int \<Rightarrow> u32 \<Rightarrow> pixbuf \<Rightarrow> pixbuf" where
  "mk_buf_vline w h x y n color = mk_buf_rect w h x y 1 n color"

definition glyph_colour :: "char \<Rightarrow> u32 \<Rightarrow> u32 \<Rightarrow> nat \<Rightarrow> nat \<Rightarrow> u32" where
  "glyph_colour c fg bg col row = (if bit (gfx_font_glyph c ! row) (7 - col) then fg else bg)"

definition mk_buf_char :: "int \<Rightarrow> int \<Rightarrow> int \<Rightarrow> int \<Rightarrow> char \<Rightarrow> u32 \<Rightarrow> u32 \<Rightarrow> pixbuf \<Rightarrow> pixbuf" where
  "mk_buf_char w h x y c fg bg pix =
     fold (\<lambda>row. fold (\<lambda>col. put w h (x + int col) (y + int row) (glyph_colour c fg bg col row)) [0..<8]) [0..<16] pix"

text \<open>Text on any surface whose characters \<open>ch\<close> draws: \<open>x\<close> is where lines start, \<open>cx\<close> where the next character goes.\<close>

fun text_loop :: "(int \<Rightarrow> int \<Rightarrow> char \<Rightarrow> 's \<Rightarrow> 's) \<Rightarrow> int \<Rightarrow> int \<Rightarrow> int \<Rightarrow> cstring \<Rightarrow> 's \<Rightarrow> 's" where
  "text_loop ch x cx y [] s = s"
| "text_loop ch x cx y (c # cs) s =
     (if c = CHR 0x0A then text_loop ch x x (y + 16) cs s else text_loop ch x (cx + 8) y cs (ch cx y c s))"

definition mk_buf_text :: "int \<Rightarrow> int \<Rightarrow> int \<Rightarrow> int \<Rightarrow> cstring \<Rightarrow> u32 \<Rightarrow> u32 \<Rightarrow> pixbuf \<Rightarrow> pixbuf" where
  "mk_buf_text w h x y s fg bg = text_loop (\<lambda>cx y c. mk_buf_char w h cx y c fg bg) x x y s"

definition mk_fb_char :: "int \<Rightarrow> int \<Rightarrow> char \<Rightarrow> u32 \<Rightarrow> u32 \<Rightarrow> vbe \<Rightarrow> vbe" where
  "mk_fb_char x y c fg bg v =
     fold (\<lambda>row. fold (\<lambda>col. vbe_putpixel (x + int col) (y + int row) (glyph_colour c fg bg col row)) [0..<8]) [0..<16] v"

definition mk_fb_text :: "int \<Rightarrow> int \<Rightarrow> cstring \<Rightarrow> u32 \<Rightarrow> u32 \<Rightarrow> vbe \<Rightarrow> vbe" where
  "mk_fb_text x y s fg bg = text_loop (\<lambda>cx y c. mk_fb_char cx y c fg bg) x x y s"

section \<open>Buffers as pixel surfaces\<close>

definition buf_put :: "int \<Rightarrow> int \<Rightarrow> u32 \<Rightarrow> pixbuf \<times> int \<times> int \<Rightarrow> pixbuf \<times> int \<times> int" where
  "buf_put x y c = (\<lambda>(pix, w, h). (put w h x y c pix, w, h))"

interpretation pb: raster "\<lambda>(pix, w, h). as_unsigned w" "\<lambda>(pix, w, h). as_unsigned h" fst buf_put
  by unfold_locales (auto simp: buf_put_def put_def)

lemma put_plots: "fold (\<lambda>j. fold (\<lambda>i. put w h (x + int i) (y + int j) (col i j)) [0..<n]) [0..<m] pix =
    fst (pb.plots (pb.block x y n m col) (pix, w, h))"
proof -
  have inner: "fold (\<lambda>i. buf_put (x + int i) yy (c i)) is (pix, w, h) = (fold (\<lambda>i. put w h (x + int i) yy (c i)) is pix, w, h)" for "is" yy c pix
    by (induction "is" arbitrary: pix) (simp_all add: buf_put_def)
  have "fold (\<lambda>j. fold (\<lambda>i. buf_put (x + int i) (y + int j) (col i j)) [0..<n]) js (pix, w, h) =
      (fold (\<lambda>j. fold (\<lambda>i. put w h (x + int i) (y + int j) (col i j)) [0..<n]) js pix, w, h)" for js
    by (induction js arbitrary: pix) (simp_all add: inner)
  then show ?thesis by (simp add: pb.fold_block [symmetric])
qed

end
