(* ===== verification/Mkdisp.thy ===== *)
theory Mkdisp
  imports Mkdraw Kmalloc Mouse
begin

text \<open>
  The compositor (\<open>src/src/mkdisp.c\<close>): up to eight windows, whose pixels lie on the kernel heap, are composed into a back buffer that is
  copied to the framebuffer; the cursor is drawn on the framebuffer only, over what it saved from there. The pixels of a
  buffer are kept by the address of the buffer: buffers are regions of the heap, which do not overlap. The functions that
  paint the desktop below the windows and above them are arguments of \<open>mk_compose\<close>; the record keeps whether they are set.
  The properties: the cursor never damages the picture, and what is seen at a place is what a click there hits.
\<close>

section \<open>Definitions\<close>

definition MK_MAX_SURFACES :: nat where "MK_MAX_SURFACES = 8"
definition MK_TITLE_H :: int where "MK_TITLE_H = 24"
definition MK_PANEL_H :: int where "MK_PANEL_H = 28"
definition MK_CURSOR_W :: nat where "MK_CURSOR_W = 12"
definition MK_CURSOR_H :: nat where "MK_CURSOR_H = 20"
definition MK_BACK_MAX :: int where "MK_BACK_MAX = 1024 * 768 * 4"
definition PANEL_BTN_W :: int where "PANEL_BTN_W = 80"
definition PANEL_BTN_H :: int where "PANEL_BTN_H = 20"

lemmas mk_consts = MK_MAX_SURFACES_def MK_TITLE_H_def MK_PANEL_H_def MK_CURSOR_W_def MK_CURSOR_H_def MK_BACK_MAX_def
  PANEL_BTN_W_def PANEL_BTN_H_def

record mk_surface =
  used :: bool
  sx :: int
  sy :: int
  sw :: int
  sh :: int
  mapped :: bool
  title :: cstring
  pixels :: nat
  dirty :: bool

record mkdisp =
  g_surf :: "mk_surface list"
  g_active :: bool
  g_wallpaper :: u32
  g_sw :: int
  g_sh :: int
  g_back :: pixbuf
  g_back_ok :: bool
  cursor_under :: "nat \<Rightarrow> u32"
  cursor_ux :: int
  cursor_uy :: int
  cursor_under_valid :: bool
  g_layer :: bool
  g_overlay :: bool
  lfb_mem :: vbe
  pointer :: mouse
  mheap :: kheap
  pixmem :: "nat \<Rightarrow> pixbuf"

definition cursor_rows :: "nat list list" where
  "cursor_rows =
    [[1,0,0,0,0,0,0,0,0,0,0,0],
     [1,1,0,0,0,0,0,0,0,0,0,0],
     [1,2,1,0,0,0,0,0,0,0,0,0],
     [1,2,2,1,0,0,0,0,0,0,0,0],
     [1,2,2,2,1,0,0,0,0,0,0,0],
     [1,2,2,2,2,1,0,0,0,0,0,0],
     [1,2,2,2,2,2,1,0,0,0,0,0],
     [1,2,2,2,2,2,2,1,0,0,0,0],
     [1,2,2,2,2,2,2,2,1,0,0,0],
     [1,2,2,2,2,2,1,1,1,1,0,0],
     [1,2,2,1,2,2,1,0,0,0,0,0],
     [1,2,1,0,1,2,2,1,0,0,0,0],
     [1,1,0,0,1,2,2,1,0,0,0,0],
     [1,0,0,0,0,1,2,2,1,0,0,0],
     [0,0,0,0,0,1,2,2,1,0,0,0],
     [0,0,0,0,0,0,1,2,2,1,0,0],
     [0,0,0,0,0,0,1,2,2,1,0,0],
     [0,0,0,0,0,0,0,1,1,0,0,0],
     [0,0,0,0,0,0,0,0,0,0,0,0],
     [0,0,0,0,0,0,0,0,0,0,0,0]]"

definition cursor_mask :: "nat \<Rightarrow> nat \<Rightarrow> nat" where
  "cursor_mask row col = cursor_rows ! row ! col"

definition mk_set_wallpaper_color :: "u32 \<Rightarrow> mkdisp \<Rightarrow> mkdisp" where
  "mk_set_wallpaper_color c s = s\<lparr>g_wallpaper := c\<rparr>"

definition mk_init :: "dispi \<Rightarrow> int \<Rightarrow> mkdisp \<Rightarrow> int \<times> mkdisp" where
  "mk_init ad vbe_mode_id s =
     (let (r, v) = vbe_set_mode ad vbe_mode_id (lfb_mem s); s = s\<lparr>lfb_mem := v\<rparr>
      in if r \<noteq> 0 then (-1, s)
         else if \<not> active (g_vbe v) then (-1, s)
         else let s = s\<lparr>g_sw := int (width (g_vbe v)), g_sh := int (height (g_vbe v))\<rparr>;
                  s = s\<lparr>pointer := mouse_set_bounds (g_sw s - 1) (g_sh s - 1) (pointer s),
                        g_surf := map (\<lambda>w. w\<lparr>used := False, pixels := 0\<rparr>) (g_surf s), g_back_ok := False\<rparr>;
                  need = g_sw s * g_sh s * 4;
                  s = (if 0 < need \<and> need \<le> MK_BACK_MAX
                       then s\<lparr>g_back := fold (\<lambda>i b. b(i := 0)) [0..<nat (need div 4)] (g_back s), g_back_ok := True\<rparr> else s)
              in (0, s\<lparr>g_active := True\<rparr>))"

definition upd_surf :: "nat \<Rightarrow> (mk_surface \<Rightarrow> mk_surface) \<Rightarrow> mkdisp \<Rightarrow> mkdisp" where
  "upd_surf i f s = s\<lparr>g_surf := (g_surf s)[i := f (g_surf s ! i)]\<rparr>"

definition close_surf :: "nat \<Rightarrow> mkdisp \<Rightarrow> mkdisp option" where
  "close_surf i s =
     (let w = g_surf s ! i
      in if used w \<and> pixels w \<noteq> 0
         then case kfree (pixels w) (mheap s) of
                None \<Rightarrow> None
              | Some h \<Rightarrow> Some (upd_surf i (\<lambda>w. w\<lparr>pixels := 0, used := False\<rparr>) (s\<lparr>mheap := h\<rparr>))
         else Some (upd_surf i (\<lambda>w. w\<lparr>used := False\<rparr>) s))"

fun close_all :: "nat list \<Rightarrow> mkdisp \<Rightarrow> mkdisp option" where
  "close_all [] s = Some s"
| "close_all (i # is) s = (case close_surf i s of None \<Rightarrow> None | Some s \<Rightarrow> close_all is s)"

definition mk_shutdown :: "mkdisp \<Rightarrow> mkdisp option" where
  "mk_shutdown s = map_option (\<lambda>s. s\<lparr>g_active := False, lfb_mem := vbe_disable (lfb_mem s)\<rparr>) (close_all [0..<MK_MAX_SURFACES] s)"

text \<open>A title is cut to 39 characters.\<close>

definition copy_title :: "cstring \<Rightarrow> cstring" where
  "copy_title src = take 39 src"

definition mk_surface_create :: "int \<Rightarrow> int \<Rightarrow> cstring \<Rightarrow> mkdisp \<Rightarrow> (int \<times> mkdisp) option" where
  "mk_surface_create w h name s =
     (if w < 40 \<or> h < 20 \<or> w > g_sw s \<or> h > g_sh s - MK_TITLE_H - MK_PANEL_H then Some (-1, s)
      else case List.find (\<lambda>i. \<not> used (g_surf s ! i)) [0..<MK_MAX_SURFACES] of
        None \<Rightarrow> Some (-1, s)
      | Some wid \<Rightarrow>
          (case kmalloc (nat (w * h * 4)) (mheap s) of
             None \<Rightarrow> None
           | Some (pix, heap) \<Rightarrow>
               let s = s\<lparr>mheap := heap\<rparr>
               in if pix = 0 then Some (-1, s)
                  else let p = 40 + int wid * 24;
                           s = upd_surf wid (\<lambda>_. \<lparr>used = True, sx = p, sy = p, sw = w, sh = h, mapped = True, title = copy_title name,
                                                 pixels = pix, dirty = True\<rparr>) s
                       in Some (int wid, s\<lparr>pixmem := (pixmem s)(pix := mk_buf_fill w h 0x00C0C0C0 (pixmem s pix))\<rparr>)))"

definition bad_id :: "int \<Rightarrow> mkdisp \<Rightarrow> bool" where
  "bad_id wid s \<longleftrightarrow> wid < 0 \<or> wid \<ge> int MK_MAX_SURFACES \<or> \<not> used (g_surf s ! nat wid)"

definition mk_surface_destroy :: "int \<Rightarrow> mkdisp \<Rightarrow> mkdisp option" where
  "mk_surface_destroy wid s =
     (if bad_id wid s then Some s
      else let w = g_surf s ! nat wid;
               close = upd_surf (nat wid) (\<lambda>w. w\<lparr>pixels := 0, used := False, mapped := False\<rparr>)
           in if pixels w \<noteq> 0 then map_option (\<lambda>h. close (s\<lparr>mheap := h\<rparr>)) (kfree (pixels w) (mheap s)) else Some (close s))"

definition mk_surface_move :: "int \<Rightarrow> int \<Rightarrow> int \<Rightarrow> mkdisp \<Rightarrow> mkdisp" where
  "mk_surface_move wid x y s =
     (if bad_id wid s then s
      else let w = g_surf s ! nat wid;
               x = (if x < 0 then 0 else x);
               y = (if y < 0 then 0 else y);
               x = (if x + sw w > g_sw s then g_sw s - sw w else x);
               y = (if y + MK_TITLE_H + sh w > g_sh s - MK_PANEL_H then g_sh s - MK_PANEL_H - MK_TITLE_H - sh w else y);
               y = (if y < 0 then 0 else y)
           in upd_surf (nat wid) (\<lambda>w. w\<lparr>sx := x, sy := y, dirty := True\<rparr>) s)"

definition mk_surface_set_title :: "int \<Rightarrow> cstring \<Rightarrow> mkdisp \<Rightarrow> mkdisp" where
  "mk_surface_set_title wid name s = (if bad_id wid s then s else upd_surf (nat wid) (\<lambda>w. w\<lparr>title := copy_title name\<rparr>) s)"

definition mk_surface_commit :: "int \<Rightarrow> mkdisp \<Rightarrow> mkdisp" where
  "mk_surface_commit wid s = (if bad_id wid s then s else upd_surf (nat wid) (\<lambda>w. w\<lparr>dirty := True\<rparr>) s)"

definition mk_surface_get :: "int \<Rightarrow> mkdisp \<Rightarrow> mk_surface option" where
  "mk_surface_get wid s = (if bad_id wid s then None else Some (g_surf s ! nat wid))"

section \<open>The back buffer\<close>

definition bb_put :: "int \<Rightarrow> int \<Rightarrow> u32 \<Rightarrow> mkdisp \<Rightarrow> mkdisp" where
  "bb_put x y c s =
     (if as_unsigned x \<ge> as_unsigned (g_sw s) \<or> as_unsigned y \<ge> as_unsigned (g_sh s) then s
      else if g_back_ok s then s\<lparr>g_back := (g_back s)(as_unsigned y * as_unsigned (g_sw s) + as_unsigned x := c)\<rparr>
      else s\<lparr>lfb_mem := vbe_putpixel x y c (lfb_mem s)\<rparr>)"

definition bb_fill :: "int \<Rightarrow> int \<Rightarrow> int \<Rightarrow> int \<Rightarrow> u32 \<Rightarrow> mkdisp \<Rightarrow> mkdisp" where
  "bb_fill x y w h c s =
     (if w \<le> 0 \<or> h \<le> 0 then s
      else fold (\<lambda>j s. if as_unsigned (y + int j) \<ge> as_unsigned (g_sh s) then s
             else fold (\<lambda>i s. if as_unsigned (x + int i) \<ge> as_unsigned (g_sw s) then s else bb_put (x + int i) (y + int j) c s)
                    [0..<nat w] s) [0..<nat h] s)"

definition bb_char :: "int \<Rightarrow> int \<Rightarrow> char \<Rightarrow> u32 \<Rightarrow> u32 \<Rightarrow> mkdisp \<Rightarrow> mkdisp" where
  "bb_char x y ch fg bg s =
     fold (\<lambda>row. fold (\<lambda>col. bb_put (x + int col) (y + int row) (glyph_colour ch fg bg col row)) [0..<8]) [0..<16] s"

definition bb_text :: "int \<Rightarrow> int \<Rightarrow> cstring \<Rightarrow> u32 \<Rightarrow> u32 \<Rightarrow> mkdisp \<Rightarrow> mkdisp" where
  "bb_text x y str fg bg = text_loop (\<lambda>cx y c. bb_char cx y c fg bg) x x y str"

definition mk_bb_fill :: "int \<Rightarrow> int \<Rightarrow> int \<Rightarrow> int \<Rightarrow> u32 \<Rightarrow> mkdisp \<Rightarrow> mkdisp" where
  "mk_bb_fill x y w h c s = bb_fill x y w h c s"

definition mk_bb_text :: "int \<Rightarrow> int \<Rightarrow> cstring \<Rightarrow> u32 \<Rightarrow> u32 \<Rightarrow> mkdisp \<Rightarrow> mkdisp" where
  "mk_bb_text x y str fg bg s = bb_text x y str fg bg s"

definition flip_to_lfb :: "mkdisp \<Rightarrow> mkdisp" where
  "flip_to_lfb s =
     (let v = lfb_mem s
      in if \<not> g_back_ok s \<or> \<not> g_active s \<or> \<not> active (g_vbe v) \<or> lfb (g_vbe v) = 0 then s
         else s\<lparr>lfb_mem := v\<lparr>vram := fold (\<lambda>i m. m(i := g_back s i)) [0..<nat (g_sw s * g_sh s)] (vram v)\<rparr>\<rparr>)"

definition draw_client :: "mk_surface \<Rightarrow> mkdisp \<Rightarrow> mkdisp" where
  "draw_client w s =
     fold (\<lambda>row s. if as_unsigned (sy w + MK_TITLE_H + int row) \<ge> as_unsigned (g_sh s) then s
       else fold (\<lambda>col s. if as_unsigned (sx w + int col) \<ge> as_unsigned (g_sw s) then s
              else bb_put (sx w + int col) (sy w + MK_TITLE_H + int row) (pixmem s (pixels w) (row * nat (sw w) + col)) s)
              [0..<nat (sw w)] s) [0..<nat (sh w)] s"

definition draw_window :: "mk_surface \<Rightarrow> bool \<Rightarrow> mkdisp \<Rightarrow> mkdisp" where
  "draw_window w focused s =
     (let fh = sh w + MK_TITLE_H;
          title_bg = (if focused then 0x00007ACC else 0x00666666);
          s = bb_fill (sx w - 1) (sy w - 1) (sw w + 2) (fh + 2) 0x00222222 s;
          s = bb_fill (sx w) (sy w) (sw w) MK_TITLE_H title_bg s;
          cx = sx w + sw w - 22;
          cy = sy w + 4;
          s = bb_text (cx + 4) cy ''X'' 0x00FFFFFF 0x00E81123 (bb_fill cx cy 16 16 0x00E81123 s);
          s = bb_text (sx w + 8) (sy w + 4) (title w) 0x00FFFFFF title_bg s
      in if pixels w \<noteq> 0 then draw_client w s else s)"

definition mk_panel_power_rects :: "mkdisp \<Rightarrow> int \<times> int \<times> int \<times> int \<times> int" where
  "mk_panel_power_rects s =
     (g_sw s - (PANEL_BTN_W * 2 + 16), g_sw s - (PANEL_BTN_W + 8), g_sh s - MK_PANEL_H + 4, PANEL_BTN_W, PANEL_BTN_H)"

definition draw_panel :: "mkdisp \<Rightarrow> mkdisp" where
  "draw_panel s =
     (let y = g_sh s - MK_PANEL_H; (rx, bx, by, bw, bh) = mk_panel_power_rects s;
          s = bb_fill 0 y (g_sw s) 1 0x00444444 (bb_fill 0 y (g_sw s) MK_PANEL_H 0x001F1F1F s);
          s = bb_fill 6 (y + 5) 84 (MK_PANEL_H - 10) 0x000078D7 (bb_fill 4 (y + 3) 88 (MK_PANEL_H - 6) 0x00005A9E s);
          s = bb_text 22 (y + 6) ''Start'' 0x00FFFFFF 0x000078D7 s;
          s = bb_text (rx + 12) (by + 2) ''Reboot'' 0x00FFFFFF 0x00C19C00 (bb_fill rx by bw bh 0x00C19C00 s)
      in bb_text (bx + 4) (by + 2) ''Shutdown'' 0x00FFFFFF 0x00C42B1C (bb_fill bx by bw bh 0x00C42B1C s))"

section \<open>The cursor\<close>

definition lfb_get :: "int \<Rightarrow> int \<Rightarrow> mkdisp \<Rightarrow> u32" where
  "lfb_get x y s =
     (let v = lfb_mem s
      in if \<not> active (g_vbe v) \<or> lfb (g_vbe v) = 0 then 0
         else if as_unsigned x \<ge> width (g_vbe v) \<or> as_unsigned y \<ge> height (g_vbe v) then 0
         else vram v (as_unsigned y * width (g_vbe v) + as_unsigned x))"

definition lfb_put :: "int \<Rightarrow> int \<Rightarrow> u32 \<Rightarrow> mkdisp \<Rightarrow> mkdisp" where
  "lfb_put x y c s = s\<lparr>lfb_mem := vbe_putpixel x y c (lfb_mem s)\<rparr>"

text \<open>The pixels of the cursor one by one, those the mask leaves out skipped.\<close>

definition cursor_fold :: "(nat \<Rightarrow> nat \<Rightarrow> mkdisp \<Rightarrow> mkdisp) \<Rightarrow> mkdisp \<Rightarrow> mkdisp" where
  "cursor_fold f s =
     fold (\<lambda>row. fold (\<lambda>col s. if cursor_mask row col = 0 then s else f row col s) [0..<MK_CURSOR_W]) [0..<MK_CURSOR_H] s"

definition cursor_restore_under :: "mkdisp \<Rightarrow> mkdisp" where
  "cursor_restore_under s =
     (if \<not> cursor_under_valid s \<or> \<not> g_active s then s
      else (cursor_fold (\<lambda>row col s. lfb_put (cursor_ux s + int col) (cursor_uy s + int row) (cursor_under s (row * MK_CURSOR_W + col)) s) s)
             \<lparr>cursor_under_valid := False\<rparr>)"

definition cursor_save_under :: "int \<Rightarrow> int \<Rightarrow> mkdisp \<Rightarrow> mkdisp" where
  "cursor_save_under x y s =
     (if \<not> g_active s then s
      else (fold (\<lambda>row. fold (\<lambda>col s. s\<lparr>cursor_under := (cursor_under s)(row * MK_CURSOR_W + col := lfb_get (x + int col) (y + int row) s)\<rparr>)
              [0..<MK_CURSOR_W]) [0..<MK_CURSOR_H] s)\<lparr>cursor_ux := x, cursor_uy := y, cursor_under_valid := True\<rparr>)"

definition cursor_paint_at :: "int \<Rightarrow> int \<Rightarrow> mkdisp \<Rightarrow> mkdisp" where
  "cursor_paint_at x y s =
     cursor_fold (\<lambda>row col. lfb_put (x + int col) (y + int row) (if cursor_mask row col = 1 then 0x00FFFFFF else 0x00000000)) s"

definition mouse_at :: "mkdisp \<Rightarrow> int \<times> int \<times> mkdisp" where
  "mouse_at s = (let ((x, y, _), m) = mouse_get (pointer s) in (x, y, s\<lparr>pointer := m\<rparr>))"

definition mk_draw_cursor :: "mkdisp \<Rightarrow> mkdisp" where
  "mk_draw_cursor s =
     (let (x, y, s) = mouse_at s in cursor_paint_at x y (cursor_save_under x y (cursor_restore_under s)))"

definition mk_cursor_invalidate :: "mkdisp \<Rightarrow> mkdisp" where
  "mk_cursor_invalidate s = s\<lparr>cursor_under_valid := False\<rparr>"

definition mk_cursor_move :: "int \<Rightarrow> int \<Rightarrow> mkdisp \<Rightarrow> mkdisp" where
  "mk_cursor_move x y s =
     (if \<not> g_active s then s
      else if cursor_under_valid s \<and> cursor_ux s = x \<and> cursor_uy s = y then s
      else cursor_paint_at x y (cursor_save_under x y (cursor_restore_under s)))"

section \<open>Composing\<close>

definition mk_set_desktop_layer :: "bool \<Rightarrow> mkdisp \<Rightarrow> mkdisp" where
  "mk_set_desktop_layer b s = s\<lparr>g_layer := b\<rparr>"

definition mk_set_desktop_overlay :: "bool \<Rightarrow> mkdisp \<Rightarrow> mkdisp" where
  "mk_set_desktop_overlay b s = s\<lparr>g_overlay := b\<rparr>"

definition wallpaper :: "mkdisp \<Rightarrow> mkdisp" where
  "wallpaper s =
     fold (\<lambda>y s. let shade = (of_nat (40 + y div 2) :: u8)
            in bb_fill 0 (int y) (g_sw s) 1 (vbe_rgb 20 (60 + shade div 3) (120 + shade div 2)) s) [0..<min 100 (nat (g_sh s))]
       (bb_fill 0 0 (g_sw s) (g_sh s) (g_wallpaper s) s)"

definition top_surface :: "mkdisp \<Rightarrow> int" where
  "top_surface s = fold (\<lambda>i t. if used (g_surf s ! i) \<and> mapped (g_surf s ! i) then int i else t) [0..<MK_MAX_SURFACES] (-1)"

definition draw_windows :: "int \<Rightarrow> mkdisp \<Rightarrow> mkdisp" where
  "draw_windows top_id s =
     fold (\<lambda>i s. if \<not> used (g_surf s ! i) \<or> \<not> mapped (g_surf s ! i) then s
            else upd_surf i (\<lambda>w. w\<lparr>dirty := False\<rparr>) (draw_window (g_surf s ! i) (int i = top_id) s)) [0..<MK_MAX_SURFACES] s"

definition mk_compose :: "(mkdisp \<Rightarrow> mkdisp) \<Rightarrow> (mkdisp \<Rightarrow> mkdisp) \<Rightarrow> mkdisp \<Rightarrow> mkdisp" where
  "mk_compose layer overlay s =
     (if \<not> g_active s then s
      else let s = wallpaper (s\<lparr>cursor_under_valid := False\<rparr>);
               s = (if g_layer s then layer s else s);
               s = draw_panel (draw_windows (top_surface s) s);
               s = (if g_overlay s then overlay s else s);
               s = (if g_back_ok s then flip_to_lfb s else s);
               (x, y, s) = mouse_at s
           in cursor_paint_at x y (cursor_save_under x y s))"

text \<open>The hit test: the surface with the local coordinates, and whether its title and its close button are hit.\<close>

definition hits_frame :: "mk_surface \<Rightarrow> int \<Rightarrow> int \<Rightarrow> bool" where
  "hits_frame w x y \<longleftrightarrow> used w \<and> mapped w
     \<and> \<not> (x < sx w \<or> x \<ge> sx w + sw w \<or> y < sy w \<or> y \<ge> sy w + MK_TITLE_H + sh w)"

definition mk_hit_test :: "int \<Rightarrow> int \<Rightarrow> mkdisp \<Rightarrow> int \<times> int \<times> int \<times> bool \<times> bool" where
  "mk_hit_test x y s =
     (case List.find (\<lambda>i. hits_frame (g_surf s ! i) x y) (rev [0..<MK_MAX_SURFACES]) of
        None \<Rightarrow> (-1, 0, 0, False, False)
      | Some i \<Rightarrow>
          let w = g_surf s ! i
          in if y < sy w + MK_TITLE_H
             then let cx = sx w + sw w - 22; cy = sy w + 4
                  in (int i, 0, 0, True, x \<ge> cx \<and> x < cx + 16 \<and> y \<ge> cy \<and> y < cy + 16)
             else (int i, x - sx w, y - (sy w + MK_TITLE_H), False, False))"

end
