(* ===== verification/Mkdisp_Cursor.thy ===== *)
theory Mkdisp_Cursor
  imports Mkdisp
begin

text \<open>
  The pointer on the screen: composing a frame shows the back buffer with the cursor over it, and however often the cursor
  moves after that, the picture under it is never damaged.
\<close>

section \<open>Masked blocks\<close>

text \<open>The pixels of a block that a mask selects, for any pixel surface.\<close>

context raster
begin

definition masked :: "int \<Rightarrow> int \<Rightarrow> nat \<Rightarrow> nat \<Rightarrow> (nat \<Rightarrow> nat \<Rightarrow> bool) \<Rightarrow> (nat \<Rightarrow> nat \<Rightarrow> 'c) \<Rightarrow> (int \<times> int \<times> 'c) list" where
  "masked x y w h m col = concat (map (\<lambda>j. map (\<lambda>i. (x + int i, y + int j, col i j)) (filter (\<lambda>i. m i j) [0..<w])) [0..<h])"

lemma masked_mem: "q \<in> set (masked x y w h m col) \<longleftrightarrow> (\<exists>i < w. \<exists>j < h. m i j \<and> q = (x + int i, y + int j, col i j))"
  by (auto simp: masked_def)

lemma fold_masked:
  "fold (\<lambda>j. fold (\<lambda>i s. if m i j then put (x + int i) (y + int j) (col i j) s else s) [0..<w]) [0..<h] s = plots (masked x y w h m col) s"
proof -
  have row: "fold (\<lambda>(x, y, c). put x y c) (map (\<lambda>i. (x + int i, y + int j, col i j)) (filter (\<lambda>i. m i j) is)) s =
      fold (\<lambda>i s. if m i j then put (x + int i) (y + int j) (col i j) s else s) is s" for j "is" s
    by (induction "is" arbitrary: s) simp_all
  have "plots (concat (map (\<lambda>j. map (\<lambda>i. (x + int i, y + int j, col i j)) (filter (\<lambda>i. m i j) [0..<w])) js)) s =
      fold (\<lambda>j. fold (\<lambda>i s. if m i j then put (x + int i) (y + int j) (col i j) s else s) [0..<w]) js s" for js
    by (induction js arbitrary: s) (simp_all add: plots_def row)
  then show ?thesis by (simp add: masked_def)
qed

text \<open>When all the plots that hit a cell agree on the colour, the order does not matter.\<close>

lemma cell_plots_agree:
  assumes "\<And>a b d. (a, b, d) \<in> set ps \<Longrightarrow> hits s a b k \<Longrightarrow> d = c"
  shows "cell (plots ps s) k = (if \<exists>(a, b, d) \<in> set ps. hits s a b k then c else cell s k)"
proof (cases "find (\<lambda>(x, y, c). hits s x y k) (rev ps)")
  case None
  then have "\<not> (\<exists>(a, b, d) \<in> set ps. hits s a b k)" by (auto simp: find_None_iff)
  with None show ?thesis by (simp add: cell_plots)
next
  case (Some q)
  then have "q \<in> set ps" "case q of (a, b, d) \<Rightarrow> hits s a b k"
    by (auto simp: find_Some_iff) (metis nth_mem set_rev length_rev)+
  then show ?thesis using Some assms by (auto simp: cell_plots)
qed

lemma cell_masked:
  assumes p: "px < cols s" "py < rows s" and small: "px < 2 ^ 31" "py < 2 ^ 31"
    and room: "- (2 ^ 31) \<le> x" "x + int w \<le> 2 ^ 31" "- (2 ^ 31) \<le> y" "y + int h \<le> 2 ^ 31"
  shows "cell (plots (masked x y w h m col) s) (py * cols s + px) =
     (if x \<le> int px \<and> int px < x + int w \<and> y \<le> int py \<and> int py < y + int h \<and> m (nat (int px - x)) (nat (int py - y))
      then col (nat (int px - x)) (nat (int py - y)) else cell s (py * cols s + px))"
proof -
  let ?k = "py * cols s + px" and ?i = "nat (int px - x)" and ?j = "nat (int py - y)"
  have hit: "hits s (x + int i) (y + int j) ?k \<longleftrightarrow> x + int i = int px \<and> y + int j = int py" if ij: "i < w" "j < h" for i j
  proof -
    have "as_unsigned (x + int i) = px \<longleftrightarrow> x + int i = int px" "as_unsigned (y + int j) = py \<longleftrightarrow> y + int j = int py"
      using ij room small unsigned_coordinate [of "x + int i" px] unsigned_coordinate [of "y + int j" py] by auto
    then show ?thesis by (simp add: hits_pixel [OF p])
  qed
  have agree: "d = col ?i ?j" if q: "(a, b, d) \<in> set (masked x y w h m col)" "hits s a b ?k" for a b d
  proof -
    obtain i j where "i < w" "j < h" "a = x + int i" "b = y + int j" "d = col i j"
      using q(1) by (auto simp: masked_mem)
    moreover from this have "x + int i = int px" "y + int j = int py" using q(2) hit by auto
    moreover from this have "?i = i" "?j = j" by linarith+
    ultimately show ?thesis by simp
  qed
  have "(\<exists>(a, b, d) \<in> set (masked x y w h m col). hits s a b ?k)
      \<longleftrightarrow> x \<le> int px \<and> int px < x + int w \<and> y \<le> int py \<and> int py < y + int h \<and> m ?i ?j"
  proof
    assume "\<exists>(a, b, d) \<in> set (masked x y w h m col). hits s a b ?k"
    then obtain i j where ij: "i < w" "j < h" "m i j" "x + int i = int px" "y + int j = int py"
      using hit by (auto simp: masked_mem)
    moreover from this have "?i = i" "?j = j" by linarith+
    ultimately show "x \<le> int px \<and> int px < x + int w \<and> y \<le> int py \<and> int py < y + int h \<and> m ?i ?j" by simp
  next
    assume inside: "x \<le> int px \<and> int px < x + int w \<and> y \<le> int py \<and> int py < y + int h \<and> m ?i ?j"
    then have "?i < w" "?j < h" by linarith+
    moreover have "x + int ?i = int px" "y + int ?j = int py" using inside by simp_all
    ultimately have "(int px, int py, col ?i ?j) \<in> set (masked x y w h m col)" "hits s (int px) (int py) ?k"
      using hit [of ?i ?j] inside unfolding masked_mem by metis+
    then show "\<exists>(a, b, d) \<in> set (masked x y w h m col). hits s a b ?k" by blast
  qed
  then show ?thesis by (simp add: cell_plots_agree [of _ _ _ "col ?i ?j", OF agree])
qed

end

section \<open>The cursor on the framebuffer\<close>

definition cursor_colour :: "nat \<Rightarrow> u32" where
  "cursor_colour v = (if v = 1 then 0x00FFFFFF else 0x00000000)"

text \<open>The value of the mask that a cursor at \<open>(x, y)\<close> has at a pixel, 0 outside the cursor.\<close>

definition cursor_value :: "int \<Rightarrow> int \<Rightarrow> nat \<Rightarrow> nat \<Rightarrow> nat" where
  "cursor_value x y px py =
     (if x \<le> int px \<and> int px < x + 12 \<and> y \<le> int py \<and> int py < y + 20 then cursor_mask (nat (int py - y)) (nat (int px - x)) else 0)"

definition with_cursor :: "int \<Rightarrow> int \<Rightarrow> nat \<Rightarrow> nat \<Rightarrow> u32 \<Rightarrow> u32" where
  "with_cursor x y px py c = (if cursor_value x y px py = 0 then c else cursor_colour (cursor_value x y px py))"

definition cursor_room :: "int \<Rightarrow> int \<Rightarrow> bool" where
  "cursor_room x y \<longleftrightarrow> - (2 ^ 31) \<le> x \<and> x + 12 \<le> 2 ^ 31 \<and> - (2 ^ 31) \<le> y \<and> y + 20 \<le> 2 ^ 31"

lemma fold_lfb:
  assumes "\<And>i s. i \<in> set is \<Longrightarrow> f i s = s\<lparr>lfb_mem := g i (lfb_mem s)\<rparr>"
  shows "fold f is s = s\<lparr>lfb_mem := fold g is (lfb_mem s)\<rparr>"
  using assms by (induction "is" arbitrary: s) simp_all

lemma cursor_paint_plots:
  "cursor_paint_at x y s = s\<lparr>lfb_mem :=
     fb.plots (fb.masked x y 12 20 (\<lambda>i j. cursor_mask j i \<noteq> 0) (\<lambda>i j. cursor_colour (cursor_mask j i))) (lfb_mem s)\<rparr>"
  unfolding cursor_paint_at_def cursor_fold_def fb.fold_masked [symmetric] MK_CURSOR_W_def MK_CURSOR_H_def
  by (intro fold_lfb) (simp add: lfb_put_def cursor_colour_def)

lemma cursor_restore_plots:
  "cursor_under_valid s \<Longrightarrow> g_active s \<Longrightarrow>
   cursor_restore_under s = s\<lparr>lfb_mem := fb.plots (fb.masked (cursor_ux s) (cursor_uy s) 12 20 (\<lambda>i j. cursor_mask j i \<noteq> 0)
     (\<lambda>i j. cursor_under s (j * 12 + i))) (lfb_mem s), cursor_under_valid := False\<rparr>"
proof -
  assume v: "cursor_under_valid s" "g_active s"
  let ?f = "\<lambda>row col s. lfb_put (cursor_ux s + int col) (cursor_uy s + int row) (cursor_under s (row * MK_CURSOR_W + col)) s"
  let ?g = "\<lambda>row col. lfb_put (cursor_ux s + int col) (cursor_uy s + int row) (cursor_under s (row * MK_CURSOR_W + col))"
  define same where "same t \<longleftrightarrow> cursor_ux t = cursor_ux s \<and> cursor_uy t = cursor_uy s \<and> cursor_under t = cursor_under s" for t :: mkdisp
  have inner: "fold (\<lambda>col s. if cursor_mask row col = 0 then s else ?f row col s) cs t
      = fold (\<lambda>col s. if cursor_mask row col = 0 then s else ?g row col s) cs t
      \<and> same (fold (\<lambda>col s. if cursor_mask row col = 0 then s else ?g row col s) cs t)" if "same t" for row cs t
    using that by (induction cs arbitrary: t) (auto simp: same_def lfb_put_def)
  have "fold (\<lambda>row. fold (\<lambda>col s. if cursor_mask row col = 0 then s else ?f row col s) cs) rs t
      = fold (\<lambda>row. fold (\<lambda>col s. if cursor_mask row col = 0 then s else ?g row col s) cs) rs t" if "same t" for rs cs t
    using that inner by (induction rs arbitrary: t) simp_all
  then have "cursor_fold ?f s = cursor_fold ?g s" by (simp add: cursor_fold_def same_def)
  also have "\<dots> = s\<lparr>lfb_mem := fb.plots (fb.masked (cursor_ux s) (cursor_uy s) 12 20 (\<lambda>i j. cursor_mask j i \<noteq> 0)
     (\<lambda>i j. cursor_under s (j * 12 + i))) (lfb_mem s)\<rparr>"
    unfolding cursor_fold_def fb.fold_masked [symmetric] MK_CURSOR_W_def MK_CURSOR_H_def
    by (intro fold_lfb) (simp add: lfb_put_def)
  finally show ?thesis using v by (simp add: cursor_restore_under_def)
qed

text \<open>Saving copies each pixel under the cursor.\<close>

lemma cursor_save_spec:
  assumes "g_active s"
  shows "\<exists>u. cursor_save_under x y s = s\<lparr>cursor_under := u, cursor_ux := x, cursor_uy := y, cursor_under_valid := True\<rparr>
    \<and> (\<forall>row < 20. \<forall>col < 12. u (row * 12 + col) = lfb_get (x + int col) (y + int row) s)"
proof -
  define get where "get row col = lfb_get (x + int col) (y + int row) s" for row col
  have lfb: "lfb_get a b (s\<lparr>cursor_under := u\<rparr>) = lfb_get a b s" for a b u by (simp add: lfb_get_def)
  have inner: "fold (\<lambda>col s. s\<lparr>cursor_under := (cursor_under s)(row * 12 + col := lfb_get (x + int col) (y + int row) s)\<rparr>) cs (s\<lparr>cursor_under := u\<rparr>)
      = s\<lparr>cursor_under := fold (\<lambda>col u. u(row * 12 + col := get row col)) cs u\<rparr>" for row cs u
    by (induction cs arbitrary: u) (simp_all add: lfb get_def)
  have outer: "fold (\<lambda>row. fold (\<lambda>col s. s\<lparr>cursor_under := (cursor_under s)(row * 12 + col := lfb_get (x + int col) (y + int row) s)\<rparr>) cs) rs (s\<lparr>cursor_under := u\<rparr>)
      = s\<lparr>cursor_under := fold (\<lambda>row. fold (\<lambda>col u. u(row * 12 + col := get row col)) cs) rs u\<rparr>" for rs cs u
    by (induction rs arbitrary: u) (simp_all add: inner)
  define line where "line = (\<lambda>row. fold (\<lambda>col u. u(row * 12 + col := get row col)) [0..<12])"
  let ?rows = "\<lambda>n u. fold line [0..<n] u"
  have "fold (\<lambda>col u. u(row * 12 + col := get row col)) [0..<n] u a =
      (if row * 12 \<le> a \<and> a < row * 12 + n then get row (a - row * 12) else u a)" for row n u a
    by (induction n) auto
  then have row: "line row u a = (if row * 12 \<le> a \<and> a < row * 12 + 12 then get row (a - row * 12) else u a)" for row u a
    by (simp add: line_def)
  have filled: "r < n \<Longrightarrow> c < 12 \<Longrightarrow> ?rows n u (r * 12 + c) = get r c" for n r c u
  proof (induction n)
    case (Suc n)
    then show ?case by (cases "r = n") (auto simp: row less_Suc_eq)
  qed simp
  have "cursor_save_under x y s = s\<lparr>cursor_under := ?rows 20 (cursor_under s), cursor_ux := x, cursor_uy := y, cursor_under_valid := True\<rparr>"
    using assms outer [of "[0..<12]" "[0..<20]" "cursor_under s"] by (simp add: cursor_save_under_def MK_CURSOR_W_def MK_CURSOR_H_def line_def)
  moreover have "\<forall>row < 20. \<forall>col < 12. ?rows 20 (cursor_under s) (row * 12 + col) = lfb_get (x + int col) (y + int row) s"
    using filled get_def by simp
  ultimately show ?thesis by blast
qed

section \<open>The picture under the cursor\<close>

definition screen_on :: "mkdisp \<Rightarrow> bool" where
  "screen_on s \<longleftrightarrow> g_active s \<and> vbe_on (lfb_mem s) \<and> width (g_vbe (lfb_mem s)) < 2 ^ 31 \<and> height (g_vbe (lfb_mem s)) < 2 ^ 31"

abbreviation sees :: "mkdisp \<Rightarrow> nat \<Rightarrow> nat \<Rightarrow> u32" where
  "sees s px py \<equiv> vram (lfb_mem s) (py * width (g_vbe (lfb_mem s)) + px)"

definition shows_picture :: "(nat \<Rightarrow> nat \<Rightarrow> u32) \<Rightarrow> mkdisp \<Rightarrow> bool" where
  "shows_picture pic s \<longleftrightarrow> screen_on s \<and> (cursor_under_valid s \<longrightarrow> cursor_room (cursor_ux s) (cursor_uy s))
     \<and> (\<forall>px < width (g_vbe (lfb_mem s)). \<forall>py < height (g_vbe (lfb_mem s)).
          sees s px py = (if cursor_under_valid s then with_cursor (cursor_ux s) (cursor_uy s) px py (pic px py) else pic px py)
          \<and> (cursor_under_valid s \<longrightarrow> cursor_value (cursor_ux s) (cursor_uy s) px py \<noteq> 0 \<longrightarrow>
               cursor_under s (nat (int py - cursor_uy s) * 12 + nat (int px - cursor_ux s)) = pic px py))"

lemma vbe_cols_on [simp]: "vbe_on v \<Longrightarrow> vbe_cols v = width (g_vbe v)" "vbe_on v \<Longrightarrow> vbe_rows v = height (g_vbe v)"
  by (simp_all add: vbe_cols_def vbe_rows_def)

lemma sees_masked:
  assumes "screen_on s" "px < width (g_vbe (lfb_mem s))" "py < height (g_vbe (lfb_mem s))" "cursor_room x y"
  shows "vram (fb.plots (fb.masked x y 12 20 (\<lambda>i j. cursor_mask j i \<noteq> 0) col) (lfb_mem s)) (py * width (g_vbe (lfb_mem s)) + px) =
    (if cursor_value x y px py = 0 then sees s px py else col (nat (int px - x)) (nat (int py - y)))"
  using assms fb.cell_masked [of px "lfb_mem s" py x 12 y 20 "\<lambda>i j. cursor_mask j i \<noteq> 0" col]
  by (simp add: screen_on_def cursor_room_def cursor_value_def)

lemma cursor_restore_shows:
  assumes "shows_picture pic s"
  shows "shows_picture pic (cursor_restore_under s)" "\<not> cursor_under_valid (cursor_restore_under s)"
proof -
  have on: "screen_on s" "g_active s" using assms by (simp_all add: shows_picture_def screen_on_def)
  show "\<not> cursor_under_valid (cursor_restore_under s)"
  proof (cases "cursor_under_valid s")
    case True
    then show ?thesis using on(2) by (simp add: cursor_restore_plots)
  qed (simp add: cursor_restore_under_def)
  show "shows_picture pic (cursor_restore_under s)"
  proof (cases "cursor_under_valid s")
    case False
    then show ?thesis using assms by (simp add: cursor_restore_under_def)
  next
    case True
    then have room: "cursor_room (cursor_ux s) (cursor_uy s)" using assms by (simp add: shows_picture_def)
    have "sees (cursor_restore_under s) px py = pic px py"
      if "px < width (g_vbe (lfb_mem s))" "py < height (g_vbe (lfb_mem s))" for px py
      using that assms True sees_masked [OF on(1) that room, of "\<lambda>i j. cursor_under s (j * 12 + i)"]
      by (auto simp: cursor_restore_plots [OF True on(2)] shows_picture_def with_cursor_def)
    moreover have "\<not> cursor_under_valid (cursor_restore_under s)" "screen_on (cursor_restore_under s)"
      "g_vbe (lfb_mem (cursor_restore_under s)) = g_vbe (lfb_mem s)"
      using on by (simp_all add: cursor_restore_plots [OF True on(2)] screen_on_def vbe_on_def)
    ultimately show ?thesis by (simp add: shows_picture_def)
  qed
qed

lemma cursor_place_shows:
  assumes s: "shows_picture pic s" "\<not> cursor_under_valid s" and room: "cursor_room x y"
  shows "shows_picture pic (cursor_paint_at x y (cursor_save_under x y s))
    \<and> cursor_under_valid (cursor_paint_at x y (cursor_save_under x y s))
    \<and> cursor_ux (cursor_paint_at x y (cursor_save_under x y s)) = x \<and> cursor_uy (cursor_paint_at x y (cursor_save_under x y s)) = y"
proof -
  have on: "screen_on s" "g_active s" "vbe_on (lfb_mem s)" using s by (simp_all add: shows_picture_def screen_on_def)
  obtain u where save: "cursor_save_under x y s = s\<lparr>cursor_under := u, cursor_ux := x, cursor_uy := y, cursor_under_valid := True\<rparr>"
    and u: "\<forall>row < 20. \<forall>col < 12. u (row * 12 + col) = lfb_get (x + int col) (y + int row) s"
    using cursor_save_spec [OF on(2)] by blast
  have pic: "sees s px py = pic px py" if "px < width (g_vbe (lfb_mem s))" "py < height (g_vbe (lfb_mem s))" for px py
    using that s by (simp add: shows_picture_def)
  have under: "u (nat (int py - y) * 12 + nat (int px - x)) = pic px py"
    if p: "px < width (g_vbe (lfb_mem s))" "py < height (g_vbe (lfb_mem s))" and v: "cursor_value x y px py \<noteq> 0" for px py
  proof -
    have in_cursor: "x \<le> int px" "int px < x + 12" "y \<le> int py" "int py < y + 20"
      using v by (auto simp: cursor_value_def split: if_splits)
    then have "u (nat (int py - y) * 12 + nat (int px - x)) = lfb_get (int px) (int py) s"
      using u by simp
    also have "\<dots> = pic px py"
      using p on pic [OF p] by (simp add: lfb_get_def Let_def screen_on_def vbe_on_def)
    finally show ?thesis .
  qed
  define t where "t = cursor_paint_at x y (cursor_save_under x y s)"
  have t: "g_vbe (lfb_mem t) = g_vbe (lfb_mem s)" "cursor_ux t = x" "cursor_uy t = y" "cursor_under_valid t" "cursor_under t = u" "screen_on t"
    using on(1) by (simp_all add: t_def save cursor_paint_plots screen_on_def vbe_on_def)
  have "sees t px py = with_cursor x y px py (pic px py)"
    if p: "px < width (g_vbe (lfb_mem s))" "py < height (g_vbe (lfb_mem s))" for px py
  proof -
    have "sees t px py = (if cursor_value x y px py = 0 then sees s px py else cursor_colour (cursor_mask (nat (int py - y)) (nat (int px - x))))"
      using sees_masked [OF on(1) p room, of "\<lambda>i j. cursor_colour (cursor_mask j i)"] by (simp add: t_def save cursor_paint_plots)
    then show ?thesis using pic [OF p] by (auto simp: with_cursor_def cursor_value_def split: if_splits)
  qed
  then have "shows_picture pic t"
    unfolding shows_picture_def t using room under t by auto
  then show ?thesis unfolding t_def [symmetric] using t by simp
qed

lemma mk_cursor_move_shows:
  assumes "shows_picture pic s" "cursor_room x y"
  shows "shows_picture pic (mk_cursor_move x y s) \<and> cursor_under_valid (mk_cursor_move x y s)
    \<and> cursor_ux (mk_cursor_move x y s) = x \<and> cursor_uy (mk_cursor_move x y s) = y"
proof -
  have "g_active s" using assms by (simp add: shows_picture_def screen_on_def)
  then show ?thesis
    using cursor_place_shows [OF cursor_restore_shows [OF assms(1)] assms(2)] assms by (auto simp: mk_cursor_move_def)
qed

text \<open>Nothing but the framebuffer and the saved pixels change when the cursor moves.\<close>

lemma cursor_keeps:
  "g_back (cursor_paint_at x y s) = g_back s" "g_vbe (lfb_mem (cursor_paint_at x y s)) = g_vbe (lfb_mem s)"
  "g_back (cursor_save_under x y s) = g_back s" "lfb_mem (cursor_save_under x y s) = lfb_mem s"
  "g_back (cursor_restore_under s) = g_back s" "g_vbe (lfb_mem (cursor_restore_under s)) = g_vbe (lfb_mem s)"
proof -
  show "g_back (cursor_paint_at x y s) = g_back s" "g_vbe (lfb_mem (cursor_paint_at x y s)) = g_vbe (lfb_mem s)"
    by (simp_all add: cursor_paint_plots)
  show "g_back (cursor_save_under x y s) = g_back s" "lfb_mem (cursor_save_under x y s) = lfb_mem s"
    using cursor_save_spec [of s x y] by (cases "g_active s"; auto; simp add: cursor_save_under_def)+
  show "g_back (cursor_restore_under s) = g_back s" "g_vbe (lfb_mem (cursor_restore_under s)) = g_vbe (lfb_mem s)"
    using cursor_restore_plots [of s] by (auto simp: cursor_restore_under_def)
qed

lemma mk_cursor_move_keeps:
  "g_back (mk_cursor_move x y s) = g_back s" "g_vbe (lfb_mem (mk_cursor_move x y s)) = g_vbe (lfb_mem s)"
  by (simp_all add: mk_cursor_move_def cursor_keeps)

lemma cursor_moves_show:
  assumes "shows_picture pic s" "list_all (\<lambda>(x, y). cursor_room x y) ps"
  shows "shows_picture pic (fold (\<lambda>(x, y). mk_cursor_move x y) ps s)
    \<and> (ps \<noteq> [] \<longrightarrow> (let t = fold (\<lambda>(x, y). mk_cursor_move x y) ps s in cursor_under_valid t \<and> (cursor_ux t, cursor_uy t) = last ps))
    \<and> g_back (fold (\<lambda>(x, y). mk_cursor_move x y) ps s) = g_back s
    \<and> g_vbe (lfb_mem (fold (\<lambda>(x, y). mk_cursor_move x y) ps s)) = g_vbe (lfb_mem s)"
  using assms(2)
proof (induction ps rule: rev_induct)
  case Nil
  then show ?case using assms(1) by simp
next
  case (snoc p ps)
  then show ?case
    using mk_cursor_move_shows by (cases p) (auto simp: Let_def mk_cursor_move_keeps)
qed

end
