(* ===== verification/Mkdisp_Compose.thy ===== *)
theory Mkdisp_Compose
  imports Mkdisp_Cursor
begin

text \<open>
  What a composed frame shows: the back buffer is a pixel surface, drawing a window paints its frame and nothing outside it,
  and what is seen at a place is the pixel of the window that the hit test names there.
\<close>

section \<open>The back buffer as a pixel surface\<close>

definition bb_cols :: "mkdisp \<Rightarrow> nat" where
  "bb_cols s = (if g_back_ok s then as_unsigned (g_sw s) else 0)"

definition bb_rows :: "mkdisp \<Rightarrow> nat" where
  "bb_rows s = (if g_back_ok s then as_unsigned (g_sh s) else 0)"

interpretation bb: raster bb_cols bb_rows g_back bb_put
  by unfold_locales (auto simp: bb_cols_def bb_rows_def bb_put_def)

text \<open>Drawing into the back buffer changes nothing else.\<close>

definition bb_only :: "(mkdisp \<Rightarrow> mkdisp) \<Rightarrow> bool" where
  "bb_only f \<longleftrightarrow> (\<forall>s. g_back_ok s \<longrightarrow> f s = s\<lparr>g_back := g_back (f s)\<rparr>)"

lemma bb_onlyD: "bb_only f \<Longrightarrow> g_back_ok s \<Longrightarrow> f s = s\<lparr>g_back := g_back (f s)\<rparr>"
  unfolding bb_only_def by blast

lemma bb_only_put: "bb_only (bb_put x y c)"
  by (auto simp: bb_only_def bb_put_def)

lemma bb_only_comp: "bb_only f \<Longrightarrow> bb_only g \<Longrightarrow> bb_only (\<lambda>s. f (g s))"
proof -
  assume fg: "bb_only f" "bb_only g"
  have "f (g s) = s\<lparr>g_back := g_back (f (g s))\<rparr>" if ok: "g_back_ok s" for s
  proof -
    have g: "g s = s\<lparr>g_back := g_back (g s)\<rparr>" using fg ok bb_onlyD by blast
    have "g_back_ok (g s)" by (subst g) (simp add: ok)
    then have "f (g s) = (g s)\<lparr>g_back := g_back (f (g s))\<rparr>" using fg bb_onlyD by blast
    also have "\<dots> = s\<lparr>g_back := g_back (f (g s))\<rparr>" by (subst g) simp
    finally show ?thesis .
  qed
  then show ?thesis by (simp add: bb_only_def)
qed

lemma bb_only_plots: "bb_only (bb.plots ps)"
proof (induction ps)
  case (Cons p ps)
  obtain x y c where p: "p = (x, y, c)" by (cases p)
  show ?case using bb_only_comp [OF Cons bb_only_put] by (simp add: p)
qed (simp add: bb_only_def)

lemma bb_put_skip: "as_unsigned x \<ge> as_unsigned (g_sw s) \<or> as_unsigned y \<ge> as_unsigned (g_sh s) \<Longrightarrow> bb_put x y c s = s"
  by (auto simp: bb_put_def)

lemma bb_put_size [simp]: "g_sw (bb_put x y c s) = g_sw s" "g_sh (bb_put x y c s) = g_sh s" "pixmem (bb_put x y c s) = pixmem s"
  by (simp_all add: bb_put_def)

text \<open>The clipping in the loops repeats that of \<open>bb_put\<close>.\<close>

lemma bb_clipped_block:
  "fold (\<lambda>j s. if as_unsigned (y + int j) \<ge> as_unsigned (g_sh s) then s
      else fold (\<lambda>i s. if as_unsigned (x + int i) \<ge> as_unsigned (g_sw s) then s else bb_put (x + int i) (y + int j) (col (pixmem s) i j) s)
        [0..<w] s) [0..<h] s = bb.plots (bb.block x y w h (col (pixmem s))) s"
proof -
  let ?row = "\<lambda>pm j. fold (\<lambda>i. bb_put (x + int i) (y + int j) (col pm i j))"
  have inner: "fold (\<lambda>i s. if as_unsigned (x + int i) \<ge> as_unsigned (g_sw s) then s else bb_put (x + int i) (y + int j) (col (pixmem s) i j) s) is s =
      ?row (pixmem s) j is s" for j "is" s
    by (induction "is" arbitrary: s) (simp_all add: bb_put_skip)
  have keep: "pixmem (?row pm j is s) = pixmem s" for pm j "is" s
    by (induction "is" arbitrary: s) simp_all
  have skip: "?row pm j is s = s" if "as_unsigned (y + int j) \<ge> as_unsigned (g_sh s)" for pm j "is" s
    using that by (induction "is" arbitrary: s) (simp_all add: bb_put_skip)
  have "fold (\<lambda>j s. if as_unsigned (y + int j) \<ge> as_unsigned (g_sh s) then s else ?row (pixmem s) j [0..<w] s) js s =
      fold (\<lambda>j. ?row (pixmem s) j [0..<w]) js s" for js s
    by (induction js arbitrary: s) (simp_all add: skip keep)
  then show ?thesis by (simp add: inner bb.fold_block cong: if_cong)
qed

lemma bb_fill_plots: "bb_fill x y w h c s = bb.plots (bb.block x y (nat w) (nat h) (\<lambda>i j. c)) s"
proof -
  have none: "bb.block x y 0 h' (\<lambda>i j. c) = []" "bb.block x y w' 0 (\<lambda>i j. c) = []" for h' w'
    by (simp_all add: bb.block_def)
  show ?thesis
    using bb_clipped_block [of y x "\<lambda>_ i j. c" "nat w" "nat h" s] by (auto simp: bb_fill_def none)
qed

lemma draw_client_plots:
  "draw_client w s = bb.plots (bb.block (sx w) (sy w + 24) (nat (sw w)) (nat (sh w)) (\<lambda>i j. pixmem s (pixels w) (j * nat (sw w) + i))) s"
  unfolding draw_client_def MK_TITLE_H_def
  by (rule bb_clipped_block [of "sy w + 24" "sx w" "\<lambda>pm i j. pm (pixels w) (j * nat (sw w) + i)"])

lemma bb_char_plots: "bb_char x y ch fg bg s = bb.plots (bb.block x y 8 16 (glyph_colour ch fg bg)) s"
  by (simp add: bb_char_def bb.fold_block)

fun text_plots :: "int \<Rightarrow> int \<Rightarrow> int \<Rightarrow> cstring \<Rightarrow> u32 \<Rightarrow> u32 \<Rightarrow> (int \<times> int \<times> u32) list" where
  "text_plots x cx y [] fg bg = []"
| "text_plots x cx y (c # cs) fg bg =
     (if c = CHR 0x0A then text_plots x x (y + 16) cs fg bg
      else bb.block cx y 8 16 (glyph_colour c fg bg) @ text_plots x (cx + 8) y cs fg bg)"

lemma bb_plots_append: "bb.plots (ps @ qs) s = bb.plots qs (bb.plots ps s)"
  by (simp add: bb.plots_def)

lemma bb_text_plots: "bb_text x y str fg bg s = bb.plots (text_plots x x y str fg bg) s"
proof -
  have "text_loop (\<lambda>cx y c. bb_char cx y c fg bg) x cx y str s = bb.plots (text_plots x cx y str fg bg) s" for cx
    by (induction str arbitrary: cx y s) (simp_all add: bb_char_plots bb_plots_append)
  then show ?thesis by (simp add: bb_text_def)
qed

lemma bb_only_fill: "bb_only (bb_fill x y w h c)"
  using bb_only_plots by (simp add: bb_only_def bb_fill_plots)

lemma bb_only_text: "bb_only (bb_text x y str fg bg)"
  using bb_only_plots by (simp add: bb_only_def bb_text_plots)

lemma bb_only_client: "bb_only (draw_client w)"
  using bb_only_plots by (simp add: bb_only_def draw_client_plots)

lemmas bb_onlys = bb_only_fill bb_only_text bb_only_client

text \<open>The same, along a sequence of drawings from a state.\<close>

definition drawn :: "mkdisp \<Rightarrow> mkdisp \<Rightarrow> bool" where
  "drawn s t \<longleftrightarrow> g_back_ok s \<longrightarrow> t = s\<lparr>g_back := g_back t\<rparr>"

lemma bb_only_drawn: "bb_only f \<longleftrightarrow> (\<forall>s. drawn s (f s))"
  by (simp add: bb_only_def drawn_def)

lemma drawn_refl: "drawn s s"
  by (simp add: drawn_def)

lemma drawn_step: "bb_only f \<Longrightarrow> drawn s t \<Longrightarrow> drawn s (f t)"
  unfolding drawn_def bb_only_def by (metis mkdisp.surjective mkdisp.update_convs(6) mkdisp.select_convs(7))

lemmas drawn_intros = drawn_refl bb_onlys [THEN drawn_step]

text \<open>The state of the display between \<open>mk_init\<close> and \<open>mk_shutdown\<close>.\<close>

definition disp_ok :: "mkdisp \<Rightarrow> bool" where
  "disp_ok s \<longleftrightarrow> g_active s \<and> g_back_ok s \<and> vbe_on (lfb_mem s) \<and> g_sw s = int (width (g_vbe (lfb_mem s)))
     \<and> g_sh s = int (height (g_vbe (lfb_mem s))) \<and> 28 \<le> g_sh s \<and> g_sw s \<le> 1024 \<and> g_sh s \<le> 768 \<and> length (g_surf s) = 8"

lemma disp_ok_size [simp]:
  "disp_ok s \<Longrightarrow> bb_cols s = nat (g_sw s)" "disp_ok s \<Longrightarrow> bb_rows s = nat (g_sh s)"
  by (auto simp: disp_ok_def bb_cols_def bb_rows_def as_unsigned_nonneg)

lemma disp_ok_back [simp]: "disp_ok (s\<lparr>g_back := b\<rparr>) = disp_ok s" "disp_ok (s\<lparr>cursor_under_valid := v\<rparr>) = disp_ok s"
  by (simp_all add: disp_ok_def)

lemma bb_only_ok: "bb_only f \<Longrightarrow> disp_ok s \<Longrightarrow> disp_ok (f s)"
  by (subst bb_onlyD [of f s]) (simp_all add: disp_ok_def)

text \<open>\<open>mk_init\<close> establishes it: every mode fits the back buffer.\<close>

lemma mk_init_ok:
  assumes v: "vbe_ok (lfb_mem s)" and n: "length (g_surf s) = 8" and r: "mk_init ad m s = (0, s')"
  shows "disp_ok s'"
proof -
  obtain q v' where set: "vbe_set_mode ad m (lfb_mem s) = (q, v')" by (cases "vbe_set_mode ad m (lfb_mem s)")
  have v': "vbe_ok v'" and q: "q = 0" "active (g_vbe v')"
    using vbe_set_mode_ok [OF v, of ad m] r by (auto simp: set mk_init_def Let_def split: if_splits)
  then have size: "(width (g_vbe v'), height (g_vbe v')) \<in> {(640, 480), (800, 600), (1024, 768)}" "lfb (g_vbe v') \<noteq> 0"
    by (auto simp: vbe_ok_def)
  have need: "0 < int (width (g_vbe v')) * int (height (g_vbe v')) * 4" "int (width (g_vbe v')) * int (height (g_vbe v')) * 4 \<le> MK_BACK_MAX"
    using size(1) by (auto simp: MK_BACK_MAX_def)
  have "g_active s'" "g_back_ok s'" "lfb_mem s' = v'" "g_sw s' = int (width (g_vbe v'))" "g_sh s' = int (height (g_vbe v'))" "length (g_surf s') = 8"
    using r q n need by (auto simp: mk_init_def set Let_def)
  then show ?thesis using size q by (auto simp: disp_ok_def vbe_on_def)
qed

section \<open>What drawing leaves alone\<close>

abbreviation bb_at :: "mkdisp \<Rightarrow> nat \<Rightarrow> nat \<Rightarrow> u32" where
  "bb_at s px py \<equiv> g_back s (py * nat (g_sw s) + px)"

text \<open>A pixel of the screen and a rectangle that a window or the panel may draw.\<close>

definition on_screen :: "mkdisp \<Rightarrow> nat \<Rightarrow> nat \<Rightarrow> bool" where
  "on_screen s px py \<longleftrightarrow> disp_ok s \<and> int px < g_sw s \<and> int py < g_sh s"

definition in_rect :: "int \<Rightarrow> int \<Rightarrow> int \<Rightarrow> int \<Rightarrow> nat \<Rightarrow> nat \<Rightarrow> bool" where
  "in_rect x y w h px py \<longleftrightarrow> x \<le> int px \<and> int px < x + w \<and> y \<le> int py \<and> int py < y + h"

definition rect_room :: "int \<Rightarrow> int \<Rightarrow> int \<Rightarrow> int \<Rightarrow> bool" where
  "rect_room x y w h \<longleftrightarrow> - (2 ^ 30) \<le> x \<and> - (2 ^ 30) \<le> y \<and> x + w \<le> 2 ^ 30 \<and> y + h \<le> 2 ^ 30 \<and> 0 \<le> w \<and> 0 \<le> h"

lemma block_at:
  assumes "on_screen s px py" "rect_room x y w h"
  shows "bb_at (bb.plots (bb.block x y (nat w) (nat h) col) s) px py =
    (if in_rect x y w h px py then col (nat (int px - x)) (nat (int py - y)) else bb_at s px py)"
proof -
  have k: "bb_only (bb.plots ps)" "g_back_ok s" for ps using assms bb_only_plots by (simp_all add: on_screen_def disp_ok_def)
  have "g_sw (bb.plots ps s) = g_sw s" for ps by (subst bb_onlyD [OF k]) simp
  moreover have "px < bb_cols s" "py < bb_rows s" "bb_cols s = nat (g_sw s)" "px < 2 ^ 31" "py < 2 ^ 31"
    using assms by (auto simp: on_screen_def disp_ok_def bb_cols_def bb_rows_def as_unsigned_nonneg)
  ultimately show ?thesis
    using bb.cell_block_int [of px s py x y "nat w" "nat h" col] assms(2) by (simp add: rect_room_def in_rect_def)
qed

lemma bb_only_on_screen:
  assumes "bb_only f" "on_screen s px py"
  shows "on_screen (f s) px py" "g_sw (f s) = g_sw s" "g_sh (f s) = g_sh s" "pixmem (f s) = pixmem s" "g_surf (f s) = g_surf s"
proof -
  have ok: "disp_ok s" "g_back_ok s" using assms by (auto simp: on_screen_def disp_ok_def)
  have f: "f s = s\<lparr>g_back := g_back (f s)\<rparr>" using assms(1) ok(2) by (rule bb_onlyD)
  show "g_sw (f s) = g_sw s" "g_sh (f s) = g_sh s" "pixmem (f s) = pixmem s" "g_surf (f s) = g_surf s" by (subst f; simp)+
  then show "on_screen (f s) px py" using bb_only_ok [OF assms(1) ok(1)] assms(2) by (simp add: on_screen_def)
qed

lemmas plots_on_screen = bb_only_on_screen [OF bb_only_plots]

text \<open>Text on one line stays in its line.\<close>

lemma text_at:
  assumes "on_screen s px py" "rect_room x y (8 * int (length str)) 16" "CHR 0x0A \<notin> set str"
    "\<not> in_rect x y (8 * int (length str)) 16 px py"
  shows "bb_at (bb_text x y str fg bg s) px py = bb_at s px py"
proof -
  have "bb_at (bb.plots (text_plots x0 x y str fg bg) s) px py = bb_at s px py" for x0
    using assms
  proof (induction str arbitrary: x s)
    case (Cons c cs)
    have blk: "bb_at (bb.plots (bb.block x y 8 16 (glyph_colour c fg bg)) s) px py = bb_at s px py"
      using block_at [of s px py x y 8 16 "glyph_colour c fg bg"] Cons.prems by (auto simp: rect_room_def in_rect_def)
    have "bb_at (bb.plots (text_plots x0 (x + 8) y cs fg bg) (bb.plots (bb.block x y 8 16 (glyph_colour c fg bg)) s)) px py =
        bb_at (bb.plots (bb.block x y 8 16 (glyph_colour c fg bg)) s) px py"
      using Cons.prems by (intro Cons.IH plots_on_screen) (auto simp: rect_room_def in_rect_def)
    moreover have "c \<noteq> CHR 0x0A" using Cons.prems(3) by auto
    ultimately show ?case using blk by (simp add: bb_plots_append)
  qed simp
  then show ?thesis by (simp add: bb_text_plots)
qed

lemma bb_fill_at:
  assumes "on_screen s px py" "rect_room x y w h"
  shows "bb_at (bb_fill x y w h c s) px py = (if in_rect x y w h px py then c else bb_at s px py)"
  using block_at [OF assms, of "\<lambda>i j. c"] by (simp add: bb_fill_plots)

lemma char_at:
  assumes "on_screen s px py" "rect_room x y 8 16" "c \<noteq> CHR 0x0A"
  shows "bb_at (bb_text x y [c] fg bg s) px py \<in> {fg, bg, bb_at s px py}"
  using block_at [OF assms(1,2), of "glyph_colour c fg bg"] assms(3) by (auto simp: bb_text_plots glyph_colour_def)

section \<open>Windows\<close>

text \<open>
  A window whose position and size are those the program makes and whose title fits beside its close button. Titles that
  do not fit are drawn over the button and beyond the window.
\<close>

definition win_ok :: "mk_surface \<Rightarrow> bool" where
  "win_ok w \<longleftrightarrow> 0 \<le> sx w \<and> sx w \<le> 2 ^ 20 \<and> 0 \<le> sy w \<and> sy w \<le> 2 ^ 20 \<and> 40 \<le> sw w \<and> sw w \<le> 1024 \<and> 20 \<le> sh w \<and> sh w \<le> 768
     \<and> CHR 0x0A \<notin> set (title w) \<and> 8 + 8 * int (length (title w)) \<le> sw w - 22 \<and> pixels w \<noteq> 0"

definition outer :: "mk_surface \<Rightarrow> nat \<Rightarrow> nat \<Rightarrow> bool" where
  "outer w = in_rect (sx w - 1) (sy w - 1) (sw w + 2) (sh w + 26)"

definition client :: "mk_surface \<Rightarrow> nat \<Rightarrow> nat \<Rightarrow> bool" where
  "client w = in_rect (sx w) (sy w + 24) (sw w) (sh w)"

definition close_button :: "mk_surface \<Rightarrow> nat \<Rightarrow> nat \<Rightarrow> bool" where
  "close_button w = in_rect (sx w + sw w - 22) (sy w + 4) 16 16"

text \<open>The frame, drawn before the client area.\<close>

definition draw_frame :: "mk_surface \<Rightarrow> bool \<Rightarrow> mkdisp \<Rightarrow> mkdisp" where
  "draw_frame w focused s =
     (let title_bg = (if focused then 0x00007ACC else 0x00666666)
      in bb_text (sx w + 8) (sy w + 4) (title w) 0x00FFFFFF title_bg
           (bb_text (sx w + sw w - 22 + 4) (sy w + 4) ''X'' 0x00FFFFFF 0x00E81123
             (bb_fill (sx w + sw w - 22) (sy w + 4) 16 16 0x00E81123
               (bb_fill (sx w) (sy w) (sw w) 24 title_bg
                 (bb_fill (sx w - 1) (sy w - 1) (sw w + 2) (sh w + 26) 0x00222222 s)))))"

lemma draw_window_frame: "win_ok w \<Longrightarrow> draw_window w foc s = draw_client w (draw_frame w foc s)"
  by (simp add: draw_window_def draw_frame_def Let_def win_ok_def MK_TITLE_H_def add.commute [of _ "sh w"])

lemma bb_only_frame: "bb_only (draw_frame w foc)"
  unfolding bb_only_drawn draw_frame_def Let_def by (intro allI drawn_intros)

lemma draw_frame_outside:
  assumes s: "on_screen s px py" and w: "win_ok w" and p: "\<not> outer w px py"
  shows "bb_at (draw_frame w foc s) px py = bb_at s px py"
proof -
  have room: "rect_room (sx w - 1) (sy w - 1) (sw w + 2) (sh w + 26)" "rect_room (sx w) (sy w) (sw w) 24"
    "rect_room (sx w + sw w - 22) (sy w + 4) 16 16" "rect_room (sx w + sw w - 22 + 4) (sy w + 4) 8 16"
    "rect_room (sx w + 8) (sy w + 4) (8 * int (length (title w))) 16"
    using w by (auto simp: rect_room_def win_ok_def)
  have out: "\<not> in_rect (sx w) (sy w) (sw w) 24 px py" "\<not> in_rect (sx w + sw w - 22) (sy w + 4) 16 16 px py"
    "\<not> in_rect (sx w + sw w - 22 + 4) (sy w + 4) 8 16 px py" "\<not> in_rect (sx w + 8) (sy w + 4) (8 * int (length (title w))) 16 px py"
    using p w by (auto simp: outer_def in_rect_def win_ok_def)
  have nl: "CHR 0x0A \<notin> set (title w)" using w by (simp add: win_ok_def)
  note on = s bb_only_on_screen(1) [OF bb_only_fill] bb_only_on_screen(1) [OF bb_only_text]
  show ?thesis
    using room out nl p text_at [of _ px py "sx w + sw w - 22 + 4" "sy w + 4" "''X''"]
    by (simp add: draw_frame_def Let_def text_at bb_fill_at on outer_def)
qed

lemma draw_frame_close:
  assumes s: "on_screen s px py" and w: "win_ok w" and p: "close_button w px py"
  shows "bb_at (draw_frame w foc s) px py \<in> {0x00FFFFFF, 0x00E81123}"
proof -
  let ?bg = "if foc then 0x00007ACC else 0x00666666 :: u32"
  define a where "a = bb_fill (sx w) (sy w) (sw w) 24 ?bg (bb_fill (sx w - 1) (sy w - 1) (sw w + 2) (sh w + 26) 0x00222222 s)"
  define b where "b = bb_fill (sx w + sw w - 22) (sy w + 4) 16 16 0x00E81123 a"
  have on: "on_screen a px py" "on_screen b px py"
    using s by (simp_all add: a_def b_def bb_only_on_screen(1) [OF bb_only_fill])
  have room: "rect_room (sx w + sw w - 22) (sy w + 4) 16 16" "rect_room (sx w + sw w - 22 + 4) (sy w + 4) 8 16"
    "rect_room (sx w + 8) (sy w + 4) (8 * int (length (title w))) 16"
    using w by (auto simp: rect_room_def win_ok_def)
  have "bb_at b px py = 0x00E81123"
    using bb_fill_at [OF on(1) room(1)] p by (simp add: b_def close_button_def)
  then have x: "bb_at (bb_text (sx w + sw w - 22 + 4) (sy w + 4) ''X'' 0x00FFFFFF 0x00E81123 b) px py \<in> {0x00FFFFFF, 0x00E81123}"
    using char_at [OF on(2) room(2), where c = "CHR ''X''" and fg = "0x00FFFFFF" and bg = "0x00E81123"] by auto
  have "\<not> in_rect (sx w + 8) (sy w + 4) (8 * int (length (title w))) 16 px py" "CHR 0x0A \<notin> set (title w)"
    using p w by (auto simp: close_button_def in_rect_def win_ok_def)
  then have "bb_at (draw_frame w foc s) px py = bb_at (bb_text (sx w + sw w - 22 + 4) (sy w + 4) ''X'' 0x00FFFFFF 0x00E81123 b) px py"
    unfolding draw_frame_def Let_def a_def [symmetric] b_def [symmetric]
    by (intro text_at bb_only_on_screen(1) [OF bb_only_text] on room)
  with x show ?thesis by simp
qed

lemma draw_window_at:
  assumes s: "on_screen s px py" and w: "win_ok w"
  shows "client w px py \<Longrightarrow>
      bb_at (draw_window w foc s) px py = pixmem s (pixels w) (nat (int py - (sy w + 24)) * nat (sw w) + nat (int px - sx w))"
    and "close_button w px py \<Longrightarrow> bb_at (draw_window w foc s) px py \<in> {0x00FFFFFF, 0x00E81123}"
    and "\<not> outer w px py \<Longrightarrow> bb_at (draw_window w foc s) px py = bb_at s px py"
proof -
  define t where "t = draw_frame w foc s"
  have on: "on_screen t px py" "pixmem t = pixmem s"
    using bb_only_on_screen [OF bb_only_frame s] by (simp_all add: t_def)
  have room: "rect_room (sx w) (sy w + 24) (sw w) (sh w)" using w by (auto simp: rect_room_def win_ok_def)
  have d: "draw_window w foc s = draw_client w t" using w by (simp add: draw_window_frame t_def)
  have at: "bb_at (draw_client w t) px py =
      (if client w px py then pixmem s (pixels w) (nat (int py - (sy w + 24)) * nat (sw w) + nat (int px - sx w)) else bb_at t px py)"
    using block_at [OF on(1) room] by (simp add: draw_client_plots client_def on(2))
  show "client w px py \<Longrightarrow>
      bb_at (draw_window w foc s) px py = pixmem s (pixels w) (nat (int py - (sy w + 24)) * nat (sw w) + nat (int px - sx w))"
    by (simp add: d at)
  show "bb_at (draw_window w foc s) px py \<in> {0x00FFFFFF, 0x00E81123}" if c: "close_button w px py"
  proof -
    have "\<not> client w px py" using c by (auto simp: client_def close_button_def in_rect_def)
    then show ?thesis using draw_frame_close [OF s w c, of foc] by (simp add: d at) (simp add: t_def)
  qed
  show "bb_at (draw_window w foc s) px py = bb_at s px py" if o: "\<not> outer w px py"
  proof -
    have "\<not> client w px py" using o w by (auto simp: client_def outer_def in_rect_def win_ok_def)
    then show ?thesis using draw_frame_outside [OF s w o, of foc] by (simp add: d at) (simp add: t_def)
  qed
qed

section \<open>All the windows\<close>

definition shown :: "mk_surface \<Rightarrow> bool" where
  "shown w \<longleftrightarrow> used w \<and> mapped w"

definition clean :: "mk_surface \<Rightarrow> mk_surface" where
  "clean w = w\<lparr>dirty := False\<rparr>"

lemma clean_client: "draw_client (w\<lparr>dirty := b\<rparr>) = draw_client w"
  by (simp add: draw_client_plots fun_eq_iff)

lemma clean_simps [simp]: "used (clean w) = used w" "mapped (clean w) = mapped w" "draw_window (clean w) = draw_window w"
  by (simp_all add: clean_def draw_window_def clean_client Let_def fun_eq_iff)

text \<open>While windows are drawn only the back buffer and the marks of what is to be drawn change.\<close>

definition drawing :: "mkdisp \<Rightarrow> mkdisp \<Rightarrow> bool" where
  "drawing s t \<longleftrightarrow> t = s\<lparr>g_back := g_back t, g_surf := g_surf t\<rparr> \<and> map clean (g_surf t) = map clean (g_surf s)"

lemma drawing_iff: "drawing s t \<longleftrightarrow> (\<exists>b gs. t = s\<lparr>g_back := b, g_surf := gs\<rparr> \<and> map clean gs = map clean (g_surf s))"
  unfolding drawing_def by (rule iffI, blast, elim exE conjE, simp)

lemma drawing_refl: "drawing s s"
  by (simp add: drawing_def)

lemma drawingD:
  assumes "drawing s t"
  shows "pixmem t = pixmem s" "g_sw t = g_sw s" "g_sh t = g_sh s" "lfb_mem t = lfb_mem s" "g_active t = g_active s"
    "g_back_ok t = g_back_ok s" "pointer t = pointer s" "cursor_under_valid t = cursor_under_valid s" "g_overlay t = g_overlay s"
    "length (g_surf t) = length (g_surf s)"
proof -
  have t: "t = s\<lparr>g_back := g_back t, g_surf := g_surf t\<rparr>" using assms by (simp add: drawing_def)
  show "pixmem t = pixmem s" "g_sw t = g_sw s" "g_sh t = g_sh s" "lfb_mem t = lfb_mem s" "g_active t = g_active s"
    "g_back_ok t = g_back_ok s" "pointer t = pointer s" "cursor_under_valid t = cursor_under_valid s" "g_overlay t = g_overlay s"
    by (subst t; simp)+
  show "length (g_surf t) = length (g_surf s)"
    using assms by (metis drawing_def length_map)
qed

lemma drawing_nth: "drawing s t \<Longrightarrow> i < length (g_surf s) \<Longrightarrow> clean (g_surf t ! i) = clean (g_surf s ! i)"
  unfolding drawing_def by (metis length_map nth_map)

lemma drawing_on_screen: "drawing s t \<Longrightarrow> on_screen t px py = on_screen s px py"
  by (simp add: on_screen_def disp_ok_def drawingD)

lemma bb_only_window: "bb_only (draw_window w foc)"
  unfolding bb_only_drawn draw_window_def Let_def by (auto intro!: drawn_intros)

definition draw_step :: "int \<Rightarrow> nat \<Rightarrow> mkdisp \<Rightarrow> mkdisp" where
  "draw_step top_id i s = (if \<not> used (g_surf s ! i) \<or> \<not> mapped (g_surf s ! i) then s
     else upd_surf i (\<lambda>w. w\<lparr>dirty := False\<rparr>) (draw_window (g_surf s ! i) (int i = top_id) s))"

lemma draw_step_spec:
  assumes d: "drawing s t" and i: "i < length (g_surf s)" and ok: "g_back_ok s"
  shows "drawing s (draw_step n i t)"
    and "g_back (draw_step n i t) = (if shown (g_surf s ! i) then g_back (draw_window (g_surf s ! i) (int i = n) t) else g_back t)"
proof -
  let ?w = "g_surf t ! i" and ?u = "draw_window (g_surf t ! i) (int i = n) t"
  have cw: "clean ?w = clean (g_surf s ! i)" using d i by (rule drawing_nth)
  then have sh: "shown ?w = shown (g_surf s ! i)" and dw: "draw_window ?w = draw_window (g_surf s ! i)"
    unfolding shown_def by (metis clean_simps)+
  have "?u = t\<lparr>g_back := g_back ?u\<rparr>" using ok drawingD(6) [OF d] by (intro bb_onlyD [OF bb_only_window]) simp
  then obtain b where u: "?u = t\<lparr>g_back := b\<rparr>" by blast
  have step: "draw_step n i t = (if shown (g_surf s ! i) then t\<lparr>g_back := g_back ?u, g_surf := (g_surf t)[i := clean ?w]\<rparr> else t)"
    using sh by (simp add: draw_step_def u) (auto simp: upd_surf_def shown_def clean_def)
  show "g_back (draw_step n i t) = (if shown (g_surf s ! i) then g_back (draw_window (g_surf s ! i) (int i = n) t) else g_back t)"
    by (simp add: step dw)
  obtain b0 gs where t: "t = s\<lparr>g_back := b0, g_surf := gs\<rparr>" "map clean gs = map clean (g_surf s)"
    using d by (auto simp: drawing_iff)
  have "map clean ((g_surf t)[i := clean ?w]) = map clean (g_surf s)"
    using t cw i by (simp add: map_update list_update_same_conv) (simp add: clean_def)
  then show "drawing s (draw_step n i t)"
    using d unfolding step drawing_iff by (auto simp: t)
qed

lemma draw_windows_steps: "draw_windows n s = fold (draw_step n) [0..<8] s"
  by (simp add: draw_windows_def draw_step_def [abs_def] MK_MAX_SURFACES_def)

lemma draw_steps_drawing:
  "drawing s t \<Longrightarrow> g_back_ok s \<Longrightarrow> (\<forall>i \<in> set is. i < length (g_surf s)) \<Longrightarrow> drawing s (fold (draw_step n) is t)"
  by (induction "is" arbitrary: t) (auto intro: draw_step_spec(1))

text \<open>Windows that do not reach a pixel leave it alone; so the last one that does decides.\<close>

lemma draw_steps_outside:
  assumes s: "on_screen s px py" and "drawing s t" "\<forall>i \<in> set is. i < length (g_surf s)"
    and out: "\<forall>i \<in> set is. shown (g_surf s ! i) \<longrightarrow> win_ok (g_surf s ! i) \<and> \<not> outer (g_surf s ! i) px py"
  shows "bb_at (fold (draw_step n) is t) px py = bb_at t px py"
  using assms(2-)
proof (induction "is" arbitrary: t)
  case (Cons i "is")
  have ok: "g_back_ok s" using s by (simp add: on_screen_def disp_ok_def)
  have step: "drawing s (draw_step n i t)" using Cons.prems ok by (intro draw_step_spec) auto
  have on: "on_screen t px py" using s Cons.prems(1) drawing_on_screen by blast
  have "bb_at (draw_step n i t) px py = bb_at t px py"
  proof (cases "shown (g_surf s ! i)")
    case True
    have "g_sw (draw_window (g_surf s ! i) (int i = n) t) = g_sw t" using bb_only_on_screen [OF bb_only_window on] by simp
    then show ?thesis
      using True draw_window_at(3) [OF on, of "g_surf s ! i" "int i = n"] Cons.prems(3) draw_step_spec(2) [OF Cons.prems(1) _ ok, of i n] Cons.prems(2)
        drawingD(2) [OF step] drawingD(2) [OF Cons.prems(1)] by simp
  next
    case False
    then show ?thesis
      using draw_step_spec(2) [OF Cons.prems(1) _ ok, of i n] Cons.prems(2) drawingD(2) [OF step] drawingD(2) [OF Cons.prems(1)] by simp
  qed
  then show ?case using Cons.IH [OF step] Cons.prems by simp
qed simp

lemma draw_steps_at:
  assumes s: "on_screen s px py" and i: "i < 8" "shown (g_surf s ! i)" "win_ok (g_surf s ! i)"
    and above: "\<forall>j. i < j \<and> j < 8 \<and> shown (g_surf s ! j) \<longrightarrow> win_ok (g_surf s ! j) \<and> \<not> outer (g_surf s ! j) px py"
  shows "\<exists>t. on_screen t px py \<and> pixmem t = pixmem s
    \<and> bb_at (draw_windows n s) px py = bb_at (draw_window (g_surf s ! i) (int i = n) t) px py"
proof -
  have ok: "g_back_ok s" and len: "length (g_surf s) = 8" using s by (simp_all add: on_screen_def disp_ok_def)
  define t where "t = fold (draw_step n) [0..<i] s"
  have t: "drawing s t" unfolding t_def using ok len i(1) by (intro draw_steps_drawing drawing_refl) auto
  have u: "drawing s (draw_step n i t)" using t ok len i(1) by (intro draw_step_spec) auto
  have "[0..<8] = [0..<i] @ i # [Suc i..<8]" using i(1) upt_add_eq_append [of 0 i "8 - i"] by (simp add: upt_conv_Cons)
  then have "draw_windows n s = fold (draw_step n) [Suc i..<8] (draw_step n i t)"
    by (simp add: draw_windows_steps t_def)
  then have "bb_at (draw_windows n s) px py = bb_at (draw_step n i t) px py"
    using draw_steps_outside [OF s u, of "[Suc i..<8]" n] above len by auto
  also have "\<dots> = bb_at (draw_window (g_surf s ! i) (int i = n) t) px py"
  proof -
    have on: "on_screen t px py" using s t drawing_on_screen by blast
    show ?thesis
      using draw_step_spec(2) [OF t _ ok, of i n] len i drawingD(2) [OF u] drawingD(2) [OF t] bb_only_on_screen(2) [OF bb_only_window on] by simp
  qed
  finally show ?thesis using t s drawing_on_screen drawingD(1) by blast
qed

text \<open>The panel stays below the windows.\<close>

lemma bb_only_panel: "bb_only draw_panel"
  unfolding bb_only_drawn draw_panel_def Let_def mk_panel_power_rects_def by (auto intro!: drawn_intros)

lemma draw_panel_at:
  assumes s: "on_screen s px py" and p: "int py < g_sh s - 28"
  shows "bb_at (draw_panel s) px py = bb_at s px py"
proof -
  have size: "0 \<le> g_sw s" "g_sw s \<le> 1024" "28 \<le> g_sh s" "g_sh s \<le> 768" using s by (auto simp: on_screen_def disp_ok_def)
  have fill: "on_screen t px py \<Longrightarrow> bb_at (bb_fill x y w h c t) px py = bb_at t px py"
    if "g_sh s - 28 \<le> y" "y \<le> g_sh s" "- 200 \<le> x" "x \<le> 1024" "0 \<le> w" "w \<le> 1024" "0 \<le> h" "h \<le> 28" for t x y w h c
    using that p size by (subst bb_fill_at) (auto simp: rect_room_def in_rect_def)
  have line: "on_screen t px py \<Longrightarrow> bb_at (bb_text x y str fg bg t) px py = bb_at t px py"
    if "g_sh s - 28 \<le> y" "y \<le> g_sh s" "- 200 \<le> x" "x \<le> 1024" "CHR 0x0A \<notin> set str" "length str \<le> 8" for t x y str fg bg
    using that p size by (subst text_at) (auto simp: rect_room_def in_rect_def)
  note on = s bb_only_on_screen(1) [OF bb_only_fill] bb_only_on_screen(1) [OF bb_only_text]
  show ?thesis
    using size by (simp add: draw_panel_def Let_def mk_panel_power_rects_def mk_consts fill line on)
qed

section \<open>A composed frame\<close>

lemma bb_only_wallpaper: "bb_only wallpaper"
proof -
  have "drawn s (fold (\<lambda>y s. let shade = (of_nat (40 + y div 2) :: u8)
      in bb_fill 0 (int y) (g_sw s) 1 (vbe_rgb 20 (60 + shade div 3) (120 + shade div 2)) s) ys t)" if "drawn s t" for ys s t
    using that by (induction ys arbitrary: t) (simp_all add: Let_def drawn_intros)
  note rows = this
  show ?thesis unfolding bb_only_drawn wallpaper_def by (intro allI rows drawn_intros)
qed

text \<open>The picture in the back buffer before it is shown, and what is below the windows in it.\<close>

definition background :: "(mkdisp \<Rightarrow> mkdisp) \<Rightarrow> mkdisp \<Rightarrow> mkdisp" where
  "background layer s = (let s = wallpaper (s\<lparr>cursor_under_valid := False\<rparr>) in if g_layer s then layer s else s)"

definition picture :: "(mkdisp \<Rightarrow> mkdisp) \<Rightarrow> (mkdisp \<Rightarrow> mkdisp) \<Rightarrow> mkdisp \<Rightarrow> mkdisp" where
  "picture layer overlay s =
     (let s = background layer s; s = draw_panel (draw_windows (top_surface s) s) in if g_overlay s then overlay s else s)"

lemma background_drawn:
  assumes "disp_ok s" "bb_only layer"
  shows "background layer s = s\<lparr>cursor_under_valid := False, g_back := g_back (background layer s)\<rparr>"
proof -
  have "drawn (s\<lparr>cursor_under_valid := False\<rparr>) (background layer s)"
    using drawn_step [OF bb_only_wallpaper drawn_refl] drawn_step [OF assms(2)] by (simp add: background_def Let_def)
  then show ?thesis using assms(1) by (simp add: drawn_def disp_ok_def)
qed

lemma drawing_trans_drawn: "drawing s t \<Longrightarrow> g_back_ok s \<Longrightarrow> bb_only f \<Longrightarrow> drawing s (f t)"
proof -
  assume d: "drawing s t" and ok: "g_back_ok s" and f: "bb_only f"
  obtain b0 gs where t: "t = s\<lparr>g_back := b0, g_surf := gs\<rparr>" "map clean gs = map clean (g_surf s)"
    using d by (auto simp: drawing_iff)
  have "f t = t\<lparr>g_back := g_back (f t)\<rparr>" using f ok drawingD(6) [OF d] by (intro bb_onlyD) simp_all
  then obtain b where b: "f t = t\<lparr>g_back := b\<rparr>" by blast
  show "drawing s (f t)" unfolding b drawing_iff using t by (intro exI [of _ b] exI [of _ gs]) simp
qed

lemma picture_drawing:
  assumes s: "disp_ok s" and l: "bb_only layer" "bb_only overlay"
  shows "drawing (background layer s) (picture layer overlay s)" "disp_ok (background layer s)"
proof -
  let ?b = "background layer s"
  have b: "?b = s\<lparr>cursor_under_valid := False, g_back := g_back ?b\<rparr>" using s l(1) by (rule background_drawn)
  show ok: "disp_ok ?b" by (subst b) (use s in simp)
  then have gb: "g_back_ok ?b" "length (g_surf ?b) = 8" by (simp_all add: disp_ok_def)
  have "drawing ?b (draw_windows n ?b)" for n
    unfolding draw_windows_steps using gb by (intro draw_steps_drawing drawing_refl) auto
  then show "drawing ?b (picture layer overlay s)"
    using drawing_trans_drawn [OF _ gb(1) bb_only_panel] drawing_trans_drawn [OF _ gb(1) l(2)] by (simp add: picture_def Let_def)
qed

lemma fold_copy_cells: "fold (\<lambda>i m. m(i := f i)) [0..<n] m k = (if k < n then f k else m k)"
  by (induction n) auto

text \<open>The frame is copied to the screen, and the cursor is put over it.\<close>

lemma mk_compose_shows:
  assumes s: "disp_ok s" and l: "bb_only layer" "bb_only overlay" and room: "cursor_room (mx (pointer s)) (my (pointer s))"
  shows "shows_picture (bb_at (picture layer overlay s)) (mk_compose layer overlay s)
    \<and> cursor_under_valid (mk_compose layer overlay s) \<and> cursor_ux (mk_compose layer overlay s) = mx (pointer s)
    \<and> cursor_uy (mk_compose layer overlay s) = my (pointer s) \<and> g_back (mk_compose layer overlay s) = g_back (picture layer overlay s)
    \<and> g_vbe (lfb_mem (mk_compose layer overlay s)) = g_vbe (lfb_mem s)"
proof -
  define p where "p = picture layer overlay s"
  have d: "drawing (background layer s) p" unfolding p_def using s l by (intro picture_drawing)
  obtain g where b: "background layer s = s\<lparr>cursor_under_valid := False, g_back := g\<rparr>" using background_drawn [OF s l(1)] by blast
  have p: "lfb_mem p = lfb_mem s" "g_active p" "g_back_ok p" "g_sw p = g_sw s" "g_sh p = g_sh s" "pointer p = pointer s" "\<not> cursor_under_valid p"
    using drawingD [OF d] s by (simp_all add: b disp_ok_def)
  define f where "f = snd (snd (mouse_at (flip_to_lfb p)))"
  have flip: "flip_to_lfb p = p\<lparr>lfb_mem := (lfb_mem s)\<lparr>vram := fold (\<lambda>i m. m(i := g_back p i)) [0..<nat (g_sw s * g_sh s)] (vram (lfb_mem s))\<rparr>\<rparr>"
    using p s by (simp add: flip_to_lfb_def Let_def disp_ok_def vbe_on_def)
  have mouse: "mouse_at (flip_to_lfb p) = (mx (pointer s), my (pointer s), f)"
    by (simp add: f_def mouse_at_def mouse_get_def flip p)
  have f: "lfb_mem f = lfb_mem (flip_to_lfb p)" "\<not> cursor_under_valid f" "g_active f" "g_back f = g_back p"
    using p by (simp_all add: f_def mouse_at_def mouse_get_def flip)
  have vf: "g_vbe (lfb_mem f) = g_vbe (lfb_mem s)" by (simp add: f flip)
  have size: "g_sw s = int (width (g_vbe (lfb_mem s)))" "g_sh s = int (height (g_vbe (lfb_mem s)))" using s by (simp_all add: disp_ok_def)
  have "sees f px py = bb_at p px py" if xy: "px < width (g_vbe (lfb_mem s))" "py < height (g_vbe (lfb_mem s))" for px py
  proof -
    have "py * width (g_vbe (lfb_mem s)) + px < Suc py * width (g_vbe (lfb_mem s))" using xy by simp
    also have "\<dots> \<le> height (g_vbe (lfb_mem s)) * width (g_vbe (lfb_mem s))" using xy by (intro mult_le_mono1) simp
    finally show ?thesis by (simp add: vf f flip fold_copy_cells p size nat_mult_distrib mult.commute)
  qed
  then have "shows_picture (bb_at p) f"
    using f(2,3) s by (auto simp: shows_picture_def screen_on_def vf disp_ok_def vbe_on_def)
  then have r: "shows_picture (bb_at p) (cursor_paint_at (mx (pointer s)) (my (pointer s)) (cursor_save_under (mx (pointer s)) (my (pointer s)) f))
      \<and> cursor_under_valid (cursor_paint_at (mx (pointer s)) (my (pointer s)) (cursor_save_under (mx (pointer s)) (my (pointer s)) f))
      \<and> cursor_ux (cursor_paint_at (mx (pointer s)) (my (pointer s)) (cursor_save_under (mx (pointer s)) (my (pointer s)) f)) = mx (pointer s)
      \<and> cursor_uy (cursor_paint_at (mx (pointer s)) (my (pointer s)) (cursor_save_under (mx (pointer s)) (my (pointer s)) f)) = my (pointer s)"
    using f(2) room by (rule cursor_place_shows)
  have "mk_compose layer overlay s = (let t = (if g_back_ok p then flip_to_lfb p else p); (x, y, t) = mouse_at t
      in cursor_paint_at x y (cursor_save_under x y t))"
    using s by (simp add: mk_compose_def p_def picture_def background_def Let_def disp_ok_def)
  then have "mk_compose layer overlay s = cursor_paint_at (mx (pointer s)) (my (pointer s)) (cursor_save_under (mx (pointer s)) (my (pointer s)) f)"
    using p(3) mouse by (simp add: Let_def)
  then show ?thesis using r f vf by (simp add: cursor_keeps p_def)
qed

section \<open>The hit test\<close>

lemma find_rev_upt: "List.find P (rev [0..<n]) = Some i \<longleftrightarrow> i < n \<and> P i \<and> (\<forall>j. i < j \<and> j < n \<longrightarrow> \<not> P j)"
  by (induction n) (auto simp: less_Suc_eq)

lemma find_rev_upt_None: "List.find P (rev [0..<n]) = None \<longleftrightarrow> (\<forall>j < n. \<not> P j)"
  by (auto simp: find_None_iff)

definition on_border :: "mk_surface \<Rightarrow> nat \<Rightarrow> nat \<Rightarrow> bool" where
  "on_border w px py \<longleftrightarrow> outer w px py \<and> \<not> in_rect (sx w) (sy w) (sw w) (sh w + 24) px py"

lemma hits_frame_rect: "hits_frame w (int px) (int py) \<longleftrightarrow> shown w \<and> in_rect (sx w) (sy w) (sw w) (sh w + 24) px py"
  by (auto simp: hits_frame_def shown_def in_rect_def MK_TITLE_H_def)

text \<open>What the hit test answers, in terms of the windows from the top down.\<close>

lemma mk_hit_test_cases:
  obtains (none) "mk_hit_test (int px) (int py) s = (-1, 0, 0, False, False)" "\<forall>j < 8. \<not> hits_frame (g_surf s ! j) (int px) (int py)"
  | (title) i where "i < 8" "hits_frame (g_surf s ! i) (int px) (int py)" "\<forall>j. i < j \<and> j < 8 \<longrightarrow> \<not> hits_frame (g_surf s ! j) (int px) (int py)"
      "mk_hit_test (int px) (int py) s = (int i, 0, 0, True, close_button (g_surf s ! i) px py)"
  | (client) i where "i < 8" "hits_frame (g_surf s ! i) (int px) (int py)" "\<forall>j. i < j \<and> j < 8 \<longrightarrow> \<not> hits_frame (g_surf s ! j) (int px) (int py)"
      "client (g_surf s ! i) px py"
      "mk_hit_test (int px) (int py) s = (int i, int px - sx (g_surf s ! i), int py - (sy (g_surf s ! i) + 24), False, False)"
proof (cases "List.find (\<lambda>i. hits_frame (g_surf s ! i) (int px) (int py)) (rev [0..<MK_MAX_SURFACES])")
  case None
  then have "mk_hit_test (int px) (int py) s = (-1, 0, 0, False, False)" by (simp add: mk_hit_test_def)
  then show ?thesis using none None unfolding find_rev_upt_None by (simp add: MK_MAX_SURFACES_def)
next
  case (Some i)
  then have i: "i < 8" "hits_frame (g_surf s ! i) (int px) (int py)" "\<forall>j. i < j \<and> j < 8 \<longrightarrow> \<not> hits_frame (g_surf s ! j) (int px) (int py)"
    unfolding find_rev_upt by (auto simp: MK_MAX_SURFACES_def)
  show ?thesis
  proof (cases "int py < sy (g_surf s ! i) + 24")
    case True
    then show ?thesis
      using title [OF i] Some by (simp add: mk_hit_test_def Let_def MK_TITLE_H_def close_button_def in_rect_def conj_assoc)
  next
    case False
    then have "client (g_surf s ! i) px py" using i(2) by (auto simp: hits_frame_rect client_def in_rect_def)
    then show ?thesis using client [OF i] False Some by (simp add: mk_hit_test_def Let_def MK_TITLE_H_def)
  qed
qed

lemma drawing_hit_surf:
  assumes "disp_ok s" "bb_only layer"
  shows "g_surf (background layer s) = g_surf s" "pixmem (background layer s) = pixmem s" "g_sw (background layer s) = g_sw s"
    "g_sh (background layer s) = g_sh s" "g_overlay (background layer s) = g_overlay s"
  using background_drawn [OF assms] by (metis mkdisp.select_convs mkdisp.surjective mkdisp.update_convs(6,11))+

text \<open>Above the panel the picture is that of the windows over the background.\<close>

lemma picture_windows:
  assumes s: "disp_ok s" and l: "bb_only layer" "bb_only overlay" and o: "\<not> g_overlay s"
    and p: "int px < g_sw s" "int py < g_sh s - 28"
  shows "bb_at (picture layer overlay s) px py = bb_at (draw_windows (top_surface (background layer s)) (background layer s)) px py"
    "on_screen (background layer s) px py"
proof -
  let ?b = "background layer s" and ?n = "top_surface (background layer s)"
  have b: "disp_ok ?b" "g_sw ?b = g_sw s" "g_sh ?b = g_sh s" "g_overlay ?b = g_overlay s"
    using picture_drawing(2) [OF s l] drawing_hit_surf [OF s l(1)] by simp_all
  show on: "on_screen ?b px py" using b p by (simp add: on_screen_def)
  have d: "drawing ?b (draw_windows ?n ?b)"
    unfolding draw_windows_steps using b(1) by (intro draw_steps_drawing drawing_refl) (auto simp: disp_ok_def)
  have on': "on_screen (draw_windows ?n ?b) px py" using on d drawing_on_screen by blast
  have "\<not> g_overlay (draw_panel (draw_windows ?n ?b))"
    using drawing_trans_drawn [OF d _ bb_only_panel] b o by (simp add: disp_ok_def drawingD(9))
  then have "picture layer overlay s = draw_panel (draw_windows ?n ?b)" by (simp add: picture_def Let_def)
  then show "bb_at (picture layer overlay s) px py = bb_at (draw_windows ?n ?b) px py"
    using draw_panel_at [OF on'] p drawingD(3) [OF d] b by simp
qed

section \<open>Properties\<close>

text \<open>A display of 800 by 600 with one window at (100, 100).\<close>

definition example_disp :: mkdisp where
  "example_disp =
     \<lparr>g_surf = \<lparr>used = True, sx = 100, sy = 100, sw = 200, sh = 100, mapped = True, title = ''Clock'', pixels = 0x20000C, dirty = True\<rparr>
        # replicate 7 \<lparr>used = False, sx = 0, sy = 0, sw = 0, sh = 0, mapped = False, title = [], pixels = 0, dirty = False\<rparr>,
      g_active = True, g_wallpaper = 0x002B579A, g_sw = 800, g_sh = 600, g_back = (\<lambda>_. 0), g_back_ok = True, cursor_under = (\<lambda>_. 0),
      cursor_ux = -1, cursor_uy = -1, cursor_under_valid = False, g_layer = True, g_overlay = False,
      lfb_mem = \<lparr>g_vbe = \<lparr>lfb = 0xFD000000, width = 800, height = 600, bpp = 32, pitch = 3200, active = True\<rparr>, g_probed = True, g_dispi_ok = True,
                  dispi_log = [], vram = (\<lambda>_. 0)\<rparr>,
      pointer = mouse_boot, mheap = kmalloc_init \<lparr>hdrs = Map.empty, head = 0, heap_used = 0, bytes = (\<lambda>_. 0)\<rparr>, pixmem = (\<lambda>_ k. of_nat k)\<rparr>"

lemma example_disp_ok: "disp_ok example_disp"
  by (simp add: example_disp_def disp_ok_def vbe_on_def)

lemma example_pointer: "pointer example_disp = mouse_boot" "mx mouse_boot = 160" "my mouse_boot = 100"
  by (simp_all add: example_disp_def mouse_boot_def mouse_reset_def)

text \<open>C35. The cursor never damages the picture: after a frame was composed, however often and wherever the cursor moves, the framebuffer
  shows at each pixel the back buffer, which stays as it was composed, with the cursor over it at the last place it was moved to.\<close>

theorem cursor_keeps_picture:
  assumes "disp_ok s" "bb_only layer" "bb_only overlay" "cursor_room (mx (pointer s)) (my (pointer s))"
    "list_all (\<lambda>(x, y). cursor_room x y) ps" "int px < g_sw s" "int py < g_sh s"
    "(cx, cy) = last ((mx (pointer s), my (pointer s)) # ps)" "t = fold (\<lambda>(x, y). mk_cursor_move x y) ps (mk_compose layer overlay s)"
  shows "vram (lfb_mem t) (py * nat (g_sw s) + px) = with_cursor cx cy px py (g_back t (py * nat (g_sw s) + px))
    \<and> g_back t = g_back (mk_compose layer overlay s)"
proof -
  let ?c = "mk_compose layer overlay s" and ?p = "picture layer overlay s"
  note c = mk_compose_shows [OF assms(1-4)]
  have m: "shows_picture (bb_at ?p) t \<and> (ps \<noteq> [] \<longrightarrow> cursor_under_valid t \<and> (cursor_ux t, cursor_uy t) = last ps)
      \<and> g_back t = g_back ?c \<and> g_vbe (lfb_mem t) = g_vbe (lfb_mem ?c)"
    using cursor_moves_show [of "bb_at ?p" ?c ps] c assms(5) unfolding assms(9) by (simp add: Let_def)
  have at: "cursor_under_valid t \<and> cursor_ux t = cx \<and> cursor_uy t = cy"
    using m c assms(8,9) by (cases "ps = []") (auto simp: prod_eq_iff)
  have "g_sw ?p = g_sw s"
    using drawingD(2) [OF picture_drawing(1) [OF assms(1-3)]] drawing_hit_surf(3) [OF assms(1,2)] by simp
  then show ?thesis
    using m c at assms(1,6,7) by (auto simp: shows_picture_def disp_ok_def)
qed

theorem cursor_keeps_picture_witness:
  "vram (lfb_mem (mk_cursor_move 790 3 (mk_compose (bb_fill 20 48 56 48 0x00FFFFFF) (\<lambda>s. s) example_disp))) (5 * 800 + 795) =
     with_cursor 790 3 795 5 (g_back (mk_cursor_move 790 3 (mk_compose (bb_fill 20 48 56 48 0x00FFFFFF) (\<lambda>s. s) example_disp)) (5 * 800 + 795))
   \<and> cursor_value 790 3 795 5 = 0 \<and> cursor_value 790 3 791 5 = 2"
proof -
  have "bb_only (\<lambda>s. s)" by (simp add: bb_only_def)
  from cursor_keeps_picture [OF example_disp_ok bb_only_fill [of 20 48 56 48 "0x00FFFFFF"] this, where ps = "[(790, 3)]" and cx = 790 and cy = 3 and px = 795 and py = 5, OF _ _ _ _ _ refl]
  show ?thesis by (simp add: example_pointer cursor_room_def example_disp_def cursor_value_def cursor_mask_def cursor_rows_def)
qed



end
