(* ===== verification/Mkdisp_Mem.thy ===== *)
theory Mkdisp_Mem
  imports Mkdisp_Compose
begin

text \<open>
  The memory of windows: whatever is done with windows, each has a region of the kernel heap of its own that holds its pixels,
  and shutting the display down gives all of it back. Uses what \<open>region_allocator\<close> promises of the kernel heap.
\<close>

section \<open>What windows own\<close>

text \<open>\<open>f i\<close> is the length of the region of the window in slot \<open>i\<close>, \<open>R\<close> are the regions of everybody else.\<close>

definition owned :: "mk_surface list \<Rightarrow> (nat \<Rightarrow> nat) \<Rightarrow> (nat \<times> nat) set" where
  "owned ws f = {(pixels (ws ! i), f i) | i. i < length ws \<and> used (ws ! i)}"

definition windows_own :: "(nat \<times> nat) set \<Rightarrow> (nat \<Rightarrow> nat) \<Rightarrow> mkdisp \<Rightarrow> bool" where
  "windows_own R f s \<longleftrightarrow> kheap_inv (mheap s) \<and> kregions (mheap s) = R \<union> owned (g_surf s) f
     \<and> (\<forall>i < length (g_surf s). used (g_surf s ! i) \<longrightarrow>
          pixels (g_surf s ! i) \<noteq> 0 \<and> 0 < f i \<and> nat (sw (g_surf s ! i) * sh (g_surf s ! i) * 4) \<le> f i \<and> (pixels (g_surf s ! i), f i) \<notin> R)
     \<and> (\<forall>i < length (g_surf s). \<forall>j < length (g_surf s). used (g_surf s ! i) \<longrightarrow> used (g_surf s ! j) \<longrightarrow> i \<noteq> j \<longrightarrow>
          pixels (g_surf s ! i) \<noteq> pixels (g_surf s ! j))"

lemma owned_cong: "length ws = length ws' \<Longrightarrow> (\<And>i. i < length ws \<Longrightarrow> used (ws ! i) = used (ws' ! i) \<and> pixels (ws ! i) = pixels (ws' ! i)) \<Longrightarrow>
    owned ws f = owned ws' f"
  unfolding owned_def by metis

lemma windows_own_cong:
  assumes "windows_own R f s" "mheap t = mheap s" "length (g_surf t) = length (g_surf s)"
    "\<And>i. i < length (g_surf s) \<Longrightarrow> used (g_surf t ! i) = used (g_surf s ! i) \<and> pixels (g_surf t ! i) = pixels (g_surf s ! i)
       \<and> sw (g_surf t ! i) = sw (g_surf s ! i) \<and> sh (g_surf t ! i) = sh (g_surf s ! i)"
  shows "windows_own R f t"
proof -
  have "owned (g_surf t) f = owned (g_surf s) f" using assms(3,4) by (intro owned_cong) auto
  then show ?thesis using assms by (simp add: windows_own_def)
qed

text \<open>Closing the window in a slot removes its region and no other.\<close>

lemma windows_own_close:
  assumes own: "windows_own R f s" and i: "i < length (g_surf s)" "used (g_surf s ! i)"
  shows "\<exists>h. kfree (pixels (g_surf s ! i)) (mheap s) = Some h
    \<and> windows_own R f ((upd_surf i (\<lambda>w. w\<lparr>pixels := 0, used := False, mapped := m\<rparr>) (s\<lparr>mheap := h\<rparr>)))
    \<and> windows_own R f ((upd_surf i (\<lambda>w. w\<lparr>pixels := 0, used := False\<rparr>) (s\<lparr>mheap := h\<rparr>)))"
proof -
  let ?w = "g_surf s ! i" and ?r = "(pixels (g_surf s ! i), f i)"
  have reg: "kheap_inv (mheap s)" "?r \<in> kregions (mheap s)" "?r \<notin> R"
    using own i by (auto simp: windows_own_def owned_def)
  then obtain h where h: "kfree (pixels ?w) (mheap s) = Some h" "kheap_inv h" "kregions h = kregions (mheap s) - {?r}"
    using kh.release_region [of "mheap s"] by blast
  have own': "owned ((g_surf s)[i := w]) f = owned (g_surf s) f - {?r}" if "\<not> used w" for w
    using own i that unfolding owned_def windows_own_def by (auto simp: nth_list_update split: if_splits)
  have "kregions h = R \<union> owned ((g_surf s)[i := w]) f" if "\<not> used w" for w
    using h(3) own' [OF that] reg(3) own by (auto simp: windows_own_def)
  note regs = this
  have "windows_own R f (s\<lparr>mheap := h, g_surf := (g_surf s)[i := w]\<rparr>)" if w: "\<not> used w" for w
  proof -
    have "j \<noteq> i \<and> (g_surf s)[i := w] ! j = g_surf s ! j" if "j < length (g_surf s)" "used ((g_surf s)[i := w] ! j)" for j
      using that w by (cases "j = i") simp_all
    then show ?thesis using own h(2) regs [OF w] by (simp add: windows_own_def) metis
  qed
  then show ?thesis using h(1) by (simp add: upd_surf_def)
qed

lemma close_surf_own:
  assumes "windows_own R f s" "i < length (g_surf s)"
  shows "\<exists>s'. close_surf i s = Some s' \<and> windows_own R f s' \<and> length (g_surf s') = length (g_surf s)
    \<and> (\<forall>j < length (g_surf s). used (g_surf s' ! j) \<longleftrightarrow> used (g_surf s ! j) \<and> j \<noteq> i)"
proof (cases "used (g_surf s ! i)")
  case True
  then have "pixels (g_surf s ! i) \<noteq> 0" using assms by (simp add: windows_own_def)
  then show ?thesis
    using windows_own_close [OF assms True, of False] assms(2) True by (auto simp: close_surf_def Let_def upd_surf_def nth_list_update)
next
  case False
  have "windows_own R f (upd_surf i (\<lambda>w. w\<lparr>used := False\<rparr>) s)"
    using False assms by (intro windows_own_cong [OF assms(1)]) (auto simp: upd_surf_def nth_list_update)
  then show ?thesis using False assms(2) by (auto simp: close_surf_def Let_def upd_surf_def nth_list_update)
qed

lemma close_all_own:
  assumes "windows_own R f s" "\<forall>i \<in> set is. i < length (g_surf s)"
  shows "\<exists>s'. close_all is s = Some s' \<and> windows_own R f s' \<and> length (g_surf s') = length (g_surf s)
    \<and> (\<forall>j < length (g_surf s). used (g_surf s' ! j) \<longleftrightarrow> used (g_surf s ! j) \<and> j \<notin> set is)"
  using assms
proof (induction "is" arbitrary: s)
  case (Cons i "is")
  obtain s1 where s1: "close_surf i s = Some s1" "windows_own R f s1" "length (g_surf s1) = length (g_surf s)"
    "\<forall>j < length (g_surf s). used (g_surf s1 ! j) \<longleftrightarrow> used (g_surf s ! j) \<and> j \<noteq> i"
    using close_surf_own [OF Cons.prems(1), of i] Cons.prems(2) by auto
  then show ?case using Cons.IH [OF s1(2)] Cons.prems(2) by fastforce
qed auto

lemma mk_shutdown_own:
  assumes "windows_own R f s" "length (g_surf s) = 8"
  shows "\<exists>s'. mk_shutdown s = Some s' \<and> kheap_inv (mheap s') \<and> kregions (mheap s') = R \<and> (\<forall>j < 8. \<not> used (g_surf s' ! j)) \<and> \<not> g_active s'"
proof -
  obtain s1 where s1: "close_all [0..<8] s = Some s1" "windows_own R f s1" "length (g_surf s1) = 8" "\<forall>j < 8. \<not> used (g_surf s1 ! j)"
    using close_all_own [OF assms(1), of "[0..<8]"] assms(2) by auto
  then have "owned (g_surf s1) f = {}" by (auto simp: owned_def)
  then show ?thesis using s1 by (auto simp: mk_shutdown_def MK_MAX_SURFACES_def windows_own_def)
qed

section \<open>Operations\<close>

lemma mk_surface_destroy_own:
  assumes "windows_own R f s" "length (g_surf s) = 8"
  shows "\<exists>s'. mk_surface_destroy wid s = Some s' \<and> windows_own R f s'"
proof (cases "bad_id wid s")
  case False
  then have i: "nat wid < length (g_surf s)" "used (g_surf s ! nat wid)" using assms(2) by (auto simp: bad_id_def MK_MAX_SURFACES_def)
  moreover from this have "pixels (g_surf s ! nat wid) \<noteq> 0" using assms by (simp add: windows_own_def)
  ultimately show ?thesis using windows_own_close [OF assms(1) i, of False] False by (auto simp: mk_surface_destroy_def Let_def)
qed (use assms in \<open>simp add: mk_surface_destroy_def\<close>)

lemma mk_surface_create_own:
  assumes own: "windows_own R f s" and n: "length (g_surf s) = 8" and size: "g_sw s \<le> 1024" "g_sh s \<le> 768"
  shows "\<exists>r s' f'. mk_surface_create w h name s = Some (r, s') \<and> windows_own R f' s' \<and> (r = -1 \<or> mk_surface_get r s' \<noteq> None)"
proof (cases "w < 40 \<or> h < 20 \<or> w > g_sw s \<or> h > g_sh s - MK_TITLE_H - MK_PANEL_H")
  case False
  let ?n = "nat (w * h * 4)"
  show ?thesis
  proof (cases "List.find (\<lambda>i. \<not> used (g_surf s ! i)) [0..<MK_MAX_SURFACES]")
    case None
    then show ?thesis using False own by (auto simp: mk_surface_create_def)
  next
    case (Some k)
    then have k: "k < 8" "\<not> used (g_surf s ! k)" by (auto simp: find_Some_iff MK_MAX_SURFACES_def)
    have "w * h \<le> 1024 * 768" using False size by (intro mult_mono) (auto simp: mk_consts)
    then have room: "?n \<le> 2 ^ 32 - 8" by simp
    have pos: "0 < ?n" using False by simp
    have inv: "kheap_inv (mheap s)" using own by (simp add: windows_own_def)
    obtain p hp where a: "kmalloc ?n (mheap s) = Some (p, hp)" "kheap_inv hp" using kh.alloc_returns [OF inv room] by blast
    show ?thesis
    proof (cases "p = 0")
      case True
      then have "kregions hp = kregions (mheap s)" using kh.alloc_refused [OF inv room] a by blast
      then have "windows_own R f (s\<lparr>mheap := hp\<rparr>)" using own a(2) by (simp add: windows_own_def)
      then show ?thesis using False Some a True by (auto simp: mk_surface_create_def Let_def)
    next
      case p: False
      obtain m where m: "m \<ge> ?n" "kregions hp = insert (p, m) (kregions (mheap s))" "\<forall>x \<in> kregions (mheap s). disjoint_regions (p, m) x"
        using kh.alloc_granted [OF inv a(1) p room] by blast
      have fresh: "(p, b) \<notin> kregions (mheap s)" if "0 < b" for b
        using m(1,3) pos that by (auto simp: disjoint_regions_def)
      then have fresh_m: "(p, m) \<notin> kregions (mheap s)" using m(1) pos by (intro fresh) (rule less_le_trans)
      have other: "pixels (g_surf s ! i) \<noteq> p" if "i < 8" "used (g_surf s ! i)" for i
        using that own n fresh [of "f i"] by (auto simp: windows_own_def owned_def)
      define t where "t = (upd_surf k (\<lambda>_. \<lparr>used = True, sx = 40 + int k * 24, sy = 40 + int k * 24, sw = w, sh = h, mapped = True,
        title = copy_title name, pixels = p, dirty = True\<rparr>) (s\<lparr>mheap := hp\<rparr>))\<lparr>pixmem := (pixmem s)(p := mk_buf_fill w h 0x00C0C0C0 (pixmem s p))\<rparr>"
      have r: "mk_surface_create w h name s = Some (int k, t)"
        using False Some a p by (simp add: mk_surface_create_def Let_def t_def upd_surf_def)
      have gs: "g_surf t = (g_surf s)[k := \<lparr>used = True, sx = 40 + int k * 24, sy = 40 + int k * 24, sw = w, sh = h, mapped = True,
        title = copy_title name, pixels = p, dirty = True\<rparr>]" "mheap t = hp" by (simp_all add: t_def upd_surf_def)
      have "owned (g_surf t) (f(k := m)) = insert (p, m) (owned (g_surf s) f)"
        using k n unfolding owned_def gs by (auto simp: nth_list_update split: if_splits)
      then have "windows_own R (f(k := m)) t"
        using own a(2) m(1,2) fresh_m other k n p pos unfolding windows_own_def gs by (auto simp: nth_list_update)
      moreover have "mk_surface_get (int k) t \<noteq> None" using k n by (simp add: mk_surface_get_def bad_id_def gs MK_MAX_SURFACES_def)
      ultimately show ?thesis using r by blast
    qed
  qed
qed (use own in \<open>auto simp: mk_surface_create_def\<close>)

text \<open>The operations that leave the memory alone.\<close>

definition same_windows :: "mkdisp \<Rightarrow> mkdisp \<Rightarrow> bool" where
  "same_windows s t \<longleftrightarrow> mheap t = mheap s \<and> length (g_surf t) = length (g_surf s) \<and> g_active t = g_active s \<and> g_back_ok t = g_back_ok s
     \<and> g_sw t = g_sw s \<and> g_sh t = g_sh s \<and> g_vbe (lfb_mem t) = g_vbe (lfb_mem s)
     \<and> (\<forall>i < length (g_surf s). used (g_surf t ! i) = used (g_surf s ! i) \<and> pixels (g_surf t ! i) = pixels (g_surf s ! i)
          \<and> sw (g_surf t ! i) = sw (g_surf s ! i) \<and> sh (g_surf t ! i) = sh (g_surf s ! i))"

lemma same_windows_own: "windows_own R f s \<Longrightarrow> same_windows s t \<Longrightarrow> windows_own R f t"
  unfolding same_windows_def by (rule windows_own_cong) blast+

lemma same_windows_refl: "same_windows s s"
  by (simp add: same_windows_def)

lemma same_windows_upd:
  assumes "\<And>w. used (g w) = used w \<and> pixels (g w) = pixels w \<and> sw (g w) = sw w \<and> sh (g w) = sh w"
  shows "same_windows s (upd_surf i g s)"
proof -
  have "(g_surf s)[i := g (g_surf s ! i)] ! j \<in> {g_surf s ! j, g (g_surf s ! j)}" for j
    by (cases "i = j"; cases "i < length (g_surf s)") (simp_all add: list_update_beyond)
  then have "used ((g_surf s)[i := g (g_surf s ! i)] ! j) = used (g_surf s ! j) \<and> pixels ((g_surf s)[i := g (g_surf s ! i)] ! j) = pixels (g_surf s ! j)
      \<and> sw ((g_surf s)[i := g (g_surf s ! i)] ! j) = sw (g_surf s ! j) \<and> sh ((g_surf s)[i := g (g_surf s ! i)] ! j) = sh (g_surf s ! j)" for j
    using assms by (metis insertE singletonD)
  then show ?thesis by (simp add: same_windows_def upd_surf_def)
qed

lemma same_windows_ok: "disp_ok s \<Longrightarrow> same_windows s t \<Longrightarrow> disp_ok t"
  by (simp add: disp_ok_def same_windows_def vbe_on_def)

lemma same_windows_trans: "same_windows s t \<Longrightarrow> same_windows t u \<Longrightarrow> same_windows s u"
  by (simp add: same_windows_def)

lemma same_windows_edit:
  "same_windows s (mk_surface_move wid x y s)" "same_windows s (mk_surface_set_title wid name s)" "same_windows s (mk_surface_commit wid s)"
  by (auto simp: mk_surface_move_def mk_surface_set_title_def mk_surface_commit_def Let_def intro!: same_windows_refl same_windows_upd)

lemma same_windows_cursor:
  "same_windows s (cursor_paint_at x y s)" "same_windows s (cursor_save_under x y s)" "same_windows s (cursor_restore_under s)"
proof -
  show "same_windows s (cursor_paint_at x y s)" by (simp add: same_windows_def cursor_paint_plots)
  show "same_windows s (cursor_save_under x y s)"
  proof (cases "g_active s")
    case True
    then show ?thesis using cursor_save_spec [OF True, of x y] by (auto simp: same_windows_def)
  qed (simp add: cursor_save_under_def same_windows_def)
  show "same_windows s (cursor_restore_under s)"
  proof (cases "cursor_under_valid s \<and> g_active s")
    case True
    then show ?thesis by (simp add: cursor_restore_plots same_windows_def)
  qed (auto simp: cursor_restore_under_def same_windows_def)
qed

lemma same_windows_move: "same_windows s (mk_cursor_move x y s)"
proof -
  have "same_windows s (cursor_paint_at x y (cursor_save_under x y (cursor_restore_under s)))"
    by (rule same_windows_trans [OF same_windows_trans [OF same_windows_cursor(3) same_windows_cursor(2)] same_windows_cursor(1)])
  then show ?thesis using same_windows_refl [of s] by (simp add: mk_cursor_move_def)
qed

lemma clean_fields: "pixels (clean w) = pixels w" "sw (clean w) = sw w" "sh (clean w) = sh w"
  by (simp_all add: clean_def)

lemma same_windows_drawing: "drawing s t \<Longrightarrow> same_windows s t"
proof -
  assume d: "drawing s t"
  then obtain b gs where t: "t = s\<lparr>g_back := b, g_surf := gs\<rparr>" unfolding drawing_iff by blast
  have eq: "pixels w = pixels v \<and> sw w = sw v \<and> sh w = sh v \<and> used w = used v" if "clean w = clean v" for w v
    using that by (metis clean_fields clean_simps(1))
  have "pixels (g_surf t ! i) = pixels (g_surf s ! i) \<and> sw (g_surf t ! i) = sw (g_surf s ! i) \<and> sh (g_surf t ! i) = sh (g_surf s ! i)
      \<and> used (g_surf t ! i) = used (g_surf s ! i)" if "i < length (g_surf s)" for i
    using drawing_nth [OF d that] by (rule eq)
  moreover have "mheap t = mheap s" by (simp add: t)
  ultimately show ?thesis using drawingD [OF d] unfolding same_windows_def by simp
qed

lemma same_windows_compose:
  assumes s: "disp_ok s" and l: "bb_only layer" "bb_only overlay"
  shows "same_windows s (mk_compose layer overlay s)"
proof -
  define p where "p = picture layer overlay s"
  obtain g where b: "background layer s = s\<lparr>cursor_under_valid := False, g_back := g\<rparr>" using background_drawn [OF s l(1)] by blast
  have "same_windows s (background layer s)" by (simp add: b same_windows_def)
  moreover have "same_windows (background layer s) p" unfolding p_def using s l by (intro same_windows_drawing picture_drawing)
  ultimately have p: "same_windows s p" by (rule same_windows_trans)
  have "same_windows p (flip_to_lfb p)" by (simp add: same_windows_def flip_to_lfb_def Let_def)
  then have f: "same_windows s (flip_to_lfb p)" using p same_windows_trans by blast
  have place: "same_windows s (case mouse_at t of (x, y, u) \<Rightarrow> cursor_paint_at x y (cursor_save_under x y u))" if t: "same_windows s t" for t
  proof -
    obtain x y u where m: "mouse_at t = (x, y, u)" by (cases "mouse_at t")
    have "same_windows t u" using m by (auto simp: mouse_at_def mouse_get_def same_windows_def)
    then show ?thesis unfolding m prod.case
      using t by (blast intro: same_windows_trans same_windows_cursor)
  qed
  have "mk_compose layer overlay s = (case mouse_at (if g_back_ok p then flip_to_lfb p else p) of (x, y, u) \<Rightarrow> cursor_paint_at x y (cursor_save_under x y u))"
    using s by (simp add: mk_compose_def p_def picture_def background_def Let_def disp_ok_def)
  then show ?thesis using place [OF f] place [OF p] by simp
qed

section \<open>All runs\<close>

text \<open>What is done with windows between \<open>mk_init\<close> and \<open>mk_shutdown\<close>, with painters that draw into the back buffer.\<close>

inductive window_run :: "mkdisp \<Rightarrow> mkdisp \<Rightarrow> bool" for s0 where
  start: "window_run s0 s0"
| create: "window_run s0 s \<Longrightarrow> mk_surface_create w h name s = Some (r, s') \<Longrightarrow> window_run s0 s'"
| destroy: "window_run s0 s \<Longrightarrow> mk_surface_destroy wid s = Some s' \<Longrightarrow> window_run s0 s'"
| move: "window_run s0 s \<Longrightarrow> window_run s0 (mk_surface_move wid x y s)"
| set_title: "window_run s0 s \<Longrightarrow> window_run s0 (mk_surface_set_title wid name s)"
| commit: "window_run s0 s \<Longrightarrow> window_run s0 (mk_surface_commit wid s)"
| cursor: "window_run s0 s \<Longrightarrow> window_run s0 (mk_cursor_move x y s)"
| compose: "window_run s0 s \<Longrightarrow> bb_only layer \<Longrightarrow> bb_only overlay \<Longrightarrow> window_run s0 (mk_compose layer overlay s)"

lemma disp_ok_create: "disp_ok s \<Longrightarrow> mk_surface_create w h name s = Some (r, s') \<Longrightarrow> disp_ok s'"
  by (auto simp: mk_surface_create_def upd_surf_def disp_ok_def Let_def split: if_splits option.splits)

lemma disp_ok_destroy: "disp_ok s \<Longrightarrow> mk_surface_destroy wid s = Some s' \<Longrightarrow> disp_ok s'"
  by (auto simp: mk_surface_destroy_def upd_surf_def disp_ok_def Let_def split: if_splits option.splits)

lemma window_run_own:
  assumes "window_run s0 s" "disp_ok s0" "windows_own R f0 s0"
  shows "disp_ok s \<and> (\<exists>f. windows_own R f s)"
  using assms
proof (induction rule: window_run.induct)
  case (create s w h name r s')
  then obtain f where "windows_own R f s" "disp_ok s" by blast
  moreover from this have "length (g_surf s) = 8" "g_sw s \<le> 1024" "g_sh s \<le> 768" by (simp_all add: disp_ok_def)
  ultimately show ?case
    using mk_surface_create_own [of R f s w h name] create.hyps disp_ok_create [OF _ create.hyps(2)] by auto
next
  case (destroy s wid s')
  then obtain f where "windows_own R f s" "disp_ok s" by blast
  then show ?case
    using mk_surface_destroy_own [of R f s wid] destroy.hyps disp_ok_destroy [OF _ destroy.hyps(2)] by (auto simp: disp_ok_def)
qed (blast intro: same_windows_own same_windows_ok same_windows_edit same_windows_move same_windows_compose)+

section \<open>Properties\<close>

text \<open>C36. Windows own their memory: whatever sequence of window operations follows on a display without windows, creating and
  destroying a window returns, the pixel buffers of the windows are regions of the heap that hold their width times height pixels and
  do not overlap, and \<open>mk_shutdown\<close> gives back exactly the memory that windows took.\<close>

theorem window_memory:
  assumes "disp_ok s0" "kheap_inv (mheap s0)" "\<forall>i < 8. \<not> used (g_surf s0 ! i)" "window_run s0 s"
  shows "mk_surface_create w h name s \<noteq> None \<and> mk_surface_destroy wid s \<noteq> None
    \<and> (\<exists>f. (\<forall>i < 8. used (g_surf s ! i) \<longrightarrow> (pixels (g_surf s ! i), f i) \<in> kregions (mheap s)
               \<and> nat (sw (g_surf s ! i) * sh (g_surf s ! i) * 4) \<le> f i)
        \<and> (\<forall>i < 8. \<forall>j < 8. used (g_surf s ! i) \<longrightarrow> used (g_surf s ! j) \<longrightarrow> i \<noteq> j \<longrightarrow>
               disjoint_regions (pixels (g_surf s ! i), f i) (pixels (g_surf s ! j), f j)))
    \<and> (\<exists>s'. mk_shutdown s = Some s' \<and> kheap_inv (mheap s') \<and> kregions (mheap s') = kregions (mheap s0) \<and> \<not> g_active s')"
proof -
  have "length (g_surf s0) = 8" using assms(1) by (simp add: disp_ok_def)
  then have "windows_own (kregions (mheap s0)) f s0" for f
    using assms(2,3) by (auto simp: windows_own_def owned_def)
  then obtain f where s: "disp_ok s" "windows_own (kregions (mheap s0)) f s" using window_run_own [OF assms(4,1)] by blast
  then have n: "length (g_surf s) = 8" "g_sw s \<le> 1024" "g_sh s \<le> 768" by (simp_all add: disp_ok_def)
  have own: "\<forall>i < 8. used (g_surf s ! i) \<longrightarrow> (pixels (g_surf s ! i), f i) \<in> kregions (mheap s)
      \<and> nat (sw (g_surf s ! i) * sh (g_surf s ! i) * 4) \<le> f i"
    using s(2) n(1) by (auto simp: windows_own_def owned_def)
  have "disjoint_regions (pixels (g_surf s ! i), f i) (pixels (g_surf s ! j), f j)"
    if "i < 8" "j < 8" "used (g_surf s ! i)" "used (g_surf s ! j)" "i \<noteq> j" for i j
  proof (rule kh.regions_disjoint [of "mheap s"])
    show "kheap_inv (mheap s)" "(pixels (g_surf s ! i), f i) \<noteq> (pixels (g_surf s ! j), f j)"
      using s(2) n(1) that by (auto simp: windows_own_def)
  qed (use own that in auto)
  then show ?thesis
    using own mk_surface_create_own [OF s(2) n, of w h name] mk_surface_destroy_own [OF s(2) n(1), of wid] mk_shutdown_own [OF s(2) n(1)] by auto
qed

theorem window_memory_witness:
  "case mk_surface_create 200 100 ''Clock'' (example_disp\<lparr>g_surf := replicate 8 (g_surf example_disp ! 1)\<rparr>) of None \<Rightarrow> False
   | Some (r, s) \<Rightarrow> \<exists>s'. mk_shutdown (mk_surface_move r 700 5 s) = Some s' \<and> kregions (mheap s') = kregions (mheap example_disp)"
proof -
  let ?s0 = "example_disp\<lparr>g_surf := replicate 8 (g_surf example_disp ! 1)\<rparr>"
  have ok: "disp_ok ?s0" "kheap_inv (mheap ?s0)" "\<forall>i < 8. \<not> used (g_surf ?s0 ! i)"
    by (simp_all add: example_disp_def disp_ok_def vbe_on_def kheap_inv_init)
  obtain r s where s: "mk_surface_create 200 100 ''Clock'' ?s0 = Some (r, s)"
    using window_memory [OF ok window_run.start, of 200 100 "''Clock''" 0] by (metis not_None_eq surj_pair)
  have "window_run ?s0 (mk_surface_move r 700 5 s)"
    by (rule window_run.move, rule window_run.create [OF window_run.start s])
  from window_memory [OF ok this, of 0 0 "[]" 0] show ?thesis using s by auto
qed

end
