(* ===== verification/Desktop.thy ===== *)
theory Desktop
  imports Mkdisp_Mem Screen Timer Sched
begin

text \<open>
  The desktop (\<open>src/src/desktop.c\<close>): windows of ten small programs, icons, a start menu and the loop that serves keys, the mouse and
  the clock. The identifiers of the windows are one function on the programs. The loop is a function of what arrives in each round:
  the keys typed, the bytes of the mouse before the pointer is read and before a frame is drawn, and the values read from the
  tick counter. The properties: every window belongs to exactly one program, and leaving gives back all memory.
\<close>

section \<open>Text\<close>

definition u32_to_str :: "u32 \<Rightarrow> cstring" where
  "u32_to_str v = (if v = 0 then ''0'' else uint_digits 11 (unat v) [])"

definition format_uptime :: "u32 \<Rightarrow> u32 \<Rightarrow> cstring" where
  "format_uptime ticks hz =
     (let hz = (if hz = 0 then 100 else hz);
          sec = ticks div hz; m = sec div 60; s = sec mod 60; h = m div 60; m = m mod 60
      in u32_to_str h @ '':'' @ (if m < 10 then ''0'' else []) @ u32_to_str m @ '':'' @ (if s < 10 then ''0'' else []) @ u32_to_str s)"

section \<open>State\<close>

datatype app = App_welcome | App_clock | App_sysinfo | App_calc | App_about | App_tasks | App_notes | App_help | App_trash | App_demo

record desk =
  disp :: mkdisp
  app_id :: "app \<Rightarrow> int"
  start_open :: bool
  calc_acc :: int
  calc_val :: int
  calc_op :: int
  dragging :: bool
  drag_id :: int
  drag_off_x :: int
  drag_off_y :: int
  held :: u8
  need_redraw :: bool
  last_draw :: u32
  last_clock :: u32
  last_mx :: int
  last_my :: int
  dscreen :: screen

text \<open>What the painters read: the number of tasks, the rate of the timer and two readings of the tick counter.\<close>

record readings =
  task_count :: nat
  rate :: u32
  read1 :: u32
  read2 :: u32

definition surface_alive :: "int \<Rightarrow> mkdisp \<Rightarrow> bool" where
  "surface_alive wid d \<longleftrightarrow> wid \<ge> 0 \<and> mk_surface_get wid d \<noteq> None"

section \<open>Painters\<close>

text \<open>A painter fills the buffer of its window and writes lines of text on that colour.\<close>

definition paint_lines :: "u32 \<Rightarrow> (int \<times> int \<times> cstring \<times> u32) list \<Rightarrow> int \<Rightarrow> mkdisp \<Rightarrow> mkdisp" where
  "paint_lines bg ls wid d =
     (case mk_surface_get wid d of None \<Rightarrow> d
      | Some s \<Rightarrow> if pixels s = 0 then d
          else d\<lparr>pixmem := (pixmem d)(pixels s :=
                 fold (\<lambda>(x, y, str, fg). mk_buf_text (sw s) (sh s) x y str fg bg) ls (mk_buf_fill (sw s) (sh s) bg (pixmem d (pixels s))))\<rparr>)"

definition paint_welcome :: "int \<Rightarrow> mkdisp \<Rightarrow> mkdisp" where
  "paint_welcome = paint_lines 0x00F0F0F0
     [(12, 12, ''Welcome to MyKernel Desktop'', 0), (12, 36, ''Icons on desktop open apps'', 0), (12, 56, ''Start menu: apps + power'', 0),
      (12, 76, ''Drag title bar; X closes'', 0), (12, 100, ''ESC / Q leaves desktop'', 0x00003399), (12, 130, ''Not Linux-compatible yet'', 0x00AA0000)]"

definition paint_clock :: "readings \<Rightarrow> int \<Rightarrow> mkdisp \<Rightarrow> mkdisp" where
  "paint_clock e = paint_lines 0x001A1A2E
     [(16, 16, ''System Clock'', 0x00EEEEFF), (16, 48, format_uptime (read1 e) (rate e), 0x00FFFFFF),
      (16, 80, ''ticks='' @ u32_to_str (read2 e), 0x00AAAAAA),
      (16, 104, ''PIT Hz='' @ u32_to_str (if rate e \<noteq> 0 then rate e else 100), 0x00AAAAAA)]"

definition paint_sysinfo :: "readings \<Rightarrow> int \<Rightarrow> mkdisp \<Rightarrow> mkdisp" where
  "paint_sysinfo e = paint_lines 0x00F5F5F5
     [(12, 12, ''System Information'', 0), (12, 40, ''OS: MyKernel'', 0), (12, 60, ''Arch: i686 (32-bit)'', 0),
      (12, 80, ''ABI: Linux i386 int 0x80'', 0), (12, 100, ''Display: VBE LFB'', 0), (12, 120, ''Tasks: '' @ u32_to_str (of_nat (task_count e)), 0),
      (12, 150, ''x86_64 uses different'', 0x00666666), (12, 170, ''syscall numbers than i386'', 0x00666666)]"

text \<open>The decimal text of an \<open>int\<close>: the sign and the magnitude as an unsigned word.\<close>

definition signed_text :: "int \<Rightarrow> cstring" where
  "signed_text v = (if v < 0 then ''-'' else []) @ u32_to_str (of_int (if v < 0 then - v else v))"

definition paint_calc :: "int \<Rightarrow> int \<Rightarrow> int \<Rightarrow> mkdisp \<Rightarrow> mkdisp" where
  "paint_calc acc val = paint_lines 0x00222222
     [(12, 12, ''Calculator'', 0x00FFFFFF), (12, 44, ''Value: '' @ signed_text val, 0x00FFFF00), (12, 72, ''Keys: 0-9  + - *  Enter=='', 0x00CCCCCC),
      (12, 92, ''C clear   (focus this win)'', 0x00CCCCCC), (12, 120, ''Acc: '' @ signed_text acc, 0x00AAAAAA)]"

definition paint_about :: "int \<Rightarrow> mkdisp \<Rightarrow> mkdisp" where
  "paint_about = paint_lines 0x00E8EEF8
     [(12, 12, ''About MyKernel'', 0), (12, 40, ''Hobby teaching OS'', 0), (12, 60, ''VGA / VBE / FAT / ELF'', 0), (12, 80, ''Shell + Desktop (MK)'', 0),
      (12, 110, ''Inspired by Wayland model'', 0x00333333), (12, 130, ''Not a Linux distro'', 0x00AA0000)]"

definition paint_tasks :: "readings \<Rightarrow> int \<Rightarrow> mkdisp \<Rightarrow> mkdisp" where
  "paint_tasks e = paint_lines 0x00FAFAFA
     [(12, 12, ''Task Manager'', 0), (12, 44, ''sched tasks: '' @ u32_to_str (of_nat (task_count e)), 0), (12, 72, ''Desktop is kernel-mode'', 0x00444444),
      (12, 92, ''User threads: future'', 0x00444444), (12, 120, ''shell | timer | IRQ0'', 0x00006699)]"

definition paint_notes :: "int \<Rightarrow> mkdisp \<Rightarrow> mkdisp" where
  "paint_notes = paint_lines 0x00FFF8DC
     [(12, 12, ''Sticky Notes'', 0), (12, 40, ''- make && make run'', 0), (12, 60, ''- desktop for GUI'', 0), (12, 80, ''- snake / pong games'', 0),
      (12, 100, ''- fatmount for disk'', 0), (12, 130, ''(read-only sticky)'', 0x00888888)]"

definition paint_trash :: "int \<Rightarrow> mkdisp \<Rightarrow> mkdisp" where
  "paint_trash = paint_lines 0x00F0F0F0
     [(12, 12, ''Recycle Bin'', 0), (12, 40, ''Empty (demo)'', 0x00666666), (12, 64, ''No deleted files yet.'', 0),
      (12, 88, ''Future: drop windows here'', 0x00333333), (12, 120, ''Icon uses screen coords:'', 0), (12, 140, ''origin top-left, Y down'', 0x00006699)]"

definition paint_help :: "int \<Rightarrow> mkdisp \<Rightarrow> mkdisp" where
  "paint_help = paint_lines 0x00FFFFFF
     [(12, 12, ''Desktop Help'', 0), (12, 40, ''Double-click icons (single)'', 0), (12, 60, ''Start: apps list + power'', 0),
      (12, 80, ''Calc: type digits when open'', 0), (12, 100, ''Panel Reboot / Shutdown'', 0), (12, 130, ''QEMU + VBE recommended'', 0x00006600)]"

definition paint_demo :: "int \<Rightarrow> mkdisp \<Rightarrow> mkdisp" where
  "paint_demo = paint_lines 0x001A1A2E
     [(12, 12, ''Demo App'', 0x00FFFFFF), (12, 40, ''Ring3 + icons demo'', 0x00AAAAFF), (12, 64, ''Shell: exec hello'', 0x00AAFFAA),
      (12, 88, ''Shell: ping 127.0.0.1'', 0x00AAFFAA), (12, 112, ''Two windows on start'', 0x00FFFFFF)]"

section \<open>Opening and closing\<close>

definition open_app :: "app \<Rightarrow> int \<Rightarrow> int \<Rightarrow> cstring \<Rightarrow> (int \<Rightarrow> mkdisp \<Rightarrow> mkdisp) \<Rightarrow> desk \<Rightarrow> desk option" where
  "open_app a w h name paintfn k =
     (if surface_alive (app_id k a) (disp k) then Some k
      else case mk_surface_create w h name (disp k) of
        None \<Rightarrow> None
      | Some (wid, d) \<Rightarrow>
          if wid < 0 then Some (k\<lparr>disp := d\<rparr>)
          else Some (k\<lparr>app_id := (app_id k)(a := wid),
                       disp := (if mk_surface_get wid d \<noteq> None then mk_surface_commit wid (paintfn wid d) else d)\<rparr>))"

definition open_welcome :: "desk \<Rightarrow> desk option" where "open_welcome = open_app App_welcome 400 180 ''Welcome'' paint_welcome"
definition open_clock :: "readings \<Rightarrow> desk \<Rightarrow> desk option" where "open_clock e = open_app App_clock 260 140 ''Clock'' (paint_clock e)"
definition open_sysinfo :: "readings \<Rightarrow> desk \<Rightarrow> desk option" where "open_sysinfo e = open_app App_sysinfo 320 200 ''SysInfo'' (paint_sysinfo e)"
definition open_calc :: "desk \<Rightarrow> desk option" where "open_calc k = open_app App_calc 280 160 ''Calculator'' (paint_calc (calc_acc k) (calc_val k)) k"
definition open_about :: "desk \<Rightarrow> desk option" where "open_about = open_app App_about 300 170 ''About'' paint_about"
definition open_tasks :: "readings \<Rightarrow> desk \<Rightarrow> desk option" where "open_tasks e = open_app App_tasks 300 160 ''Tasks'' (paint_tasks e)"
definition open_notes :: "desk \<Rightarrow> desk option" where "open_notes = open_app App_notes 280 160 ''Notes'' paint_notes"
definition open_help :: "desk \<Rightarrow> desk option" where "open_help = open_app App_help 320 170 ''Help'' paint_help"
definition open_demo :: "desk \<Rightarrow> desk option" where "open_demo = open_app App_demo 340 160 ''Demo'' paint_demo"
definition open_trash :: "desk \<Rightarrow> desk option" where "open_trash = open_app App_trash 300 170 ''Recycle Bin'' paint_trash"

text \<open>The function a table of icons or menu entries points to.\<close>

definition open_fn :: "readings \<Rightarrow> app \<Rightarrow> desk \<Rightarrow> desk option" where
  "open_fn e a = (case a of App_welcome \<Rightarrow> open_welcome | App_clock \<Rightarrow> open_clock e | App_sysinfo \<Rightarrow> open_sysinfo e | App_calc \<Rightarrow> open_calc
     | App_about \<Rightarrow> open_about | App_tasks \<Rightarrow> open_tasks e | App_notes \<Rightarrow> open_notes | App_help \<Rightarrow> open_help | App_trash \<Rightarrow> open_trash | App_demo \<Rightarrow> open_demo)"

definition on_close_id :: "int \<Rightarrow> desk \<Rightarrow> desk" where
  "on_close_id wid k = k\<lparr>app_id := (\<lambda>a. if wid = app_id k a then -1 else app_id k a)\<rparr>"

section \<open>Icons\<close>

definition ICON_W :: int where "ICON_W = 60"
definition ICON_H :: int where "ICON_H = 70"
definition PANEL_H :: int where "PANEL_H = 28"

definition icons :: "(int \<times> int \<times> int \<times> cstring \<times> app) list" where
  "icons =
     [(20, 48, 0, ''Clock'', App_clock), (20, 118, 0, ''SysInfo'', App_sysinfo), (20, 188, 0, ''Calc'', App_calc), (20, 258, 0, ''About'', App_about),
      (100, 48, 0, ''Tasks'', App_tasks), (100, 118, 0, ''Notes'', App_notes), (100, 188, 0, ''Help'', App_help), (100, 258, 0, ''Welcome'', App_welcome),
      (180, 48, 0, ''Demo'', App_demo), (-1, -1, 1, ''Recycle'', App_trash)]"

definition icon_pos :: "nat \<Rightarrow> mkdisp \<Rightarrow> int \<times> int" where
  "icon_pos i d =
     (let (x, y, anchor, _) = icons ! i
      in if anchor = 1 then (g_sw d - ICON_W - 16, g_sh d - PANEL_H - ICON_H - 12) else (x, y))"

definition icon_color :: "nat \<Rightarrow> u32" where
  "icon_color i = [0x00E81123, 0x000078D7, 0x00107C10, 0x00FFB900, 0x008812CD, 0x00F7630C, 0x0000B7C3, 0x00E3008C] ! (i mod 8)"

definition draw_icon :: "nat \<Rightarrow> int \<Rightarrow> int \<Rightarrow> cstring \<Rightarrow> mkdisp \<Rightarrow> mkdisp" where
  "draw_icon idx x y label d =
     (let is_trash = (fst (snd (snd (icons ! idx))) = 1);
          c = (if is_trash then 0x00666666 else icon_color idx);
          d = mk_bb_fill (x + 3) (y + 3) 50 42 c (mk_bb_fill x y 56 48 0x00FFFFFF (mk_bb_fill (x + 3) (y + 3) 56 48 0x00202020 d));
          d = (if is_trash
               then mk_bb_fill (x + 32) (y + 20) 4 14 0x00444444 (mk_bb_fill (x + 26) (y + 20) 4 14 0x00444444
                      (mk_bb_fill (x + 20) (y + 20) 4 14 0x00444444 (mk_bb_fill (x + 16) (y + 16) 24 22 0x00AAAAAA
                        (mk_bb_fill (x + 24) (y + 6) 8 6 0x00DDDDDD (mk_bb_fill (x + 14) (y + 10) 28 4 0x00DDDDDD d)))))
               else mk_bb_text (x + 22) (y + 14) (take 1 label) 0x00FFFFFF c d)
      in mk_bb_text (x + 2) (y + 54) label 0x00FFFFFF 0x00000000 (mk_bb_fill (x - 2) (y + 52) 64 16 0x00000000 d))"

definition icon_at :: "int \<Rightarrow> int \<Rightarrow> mkdisp \<Rightarrow> int" where
  "icon_at px py d =
     (case List.find (\<lambda>i. let (x, y) = icon_pos i d in px \<ge> x \<and> px < x + ICON_W \<and> py \<ge> y \<and> py < y + ICON_H) [0..<length icons] of
        None \<Rightarrow> -1 | Some i \<Rightarrow> int i)"

section \<open>Start menu\<close>

definition SM_X :: int where "SM_X = 4"
definition SM_W :: int where "SM_W = 200"
definition SM_ITEM_H :: int where "SM_ITEM_H = 22"

definition start_menu_h :: int where "start_menu_h = 28 + 8 * SM_ITEM_H + 8 + 3 * SM_ITEM_H + 8"

definition start_btn_rect :: "mkdisp \<Rightarrow> int \<times> int \<times> int \<times> int" where
  "start_btn_rect d = (4, g_sh d - 28 + 3, 88, 22)"

definition start_menu_rect :: "mkdisp \<Rightarrow> int \<times> int \<times> int \<times> int" where
  "start_menu_rect d = (SM_X, g_sh d - 28 - start_menu_h, SM_W, start_menu_h)"

definition menu_item :: "int \<Rightarrow> int \<Rightarrow> int \<Rightarrow> nat \<Rightarrow> mkdisp \<Rightarrow> mkdisp" where
  "menu_item x iy w i d =
     (let bg = (if i mod 2 \<noteq> 0 then 0x00252525 else 0x001E1E1E)
      in mk_bb_text (x + 24) (iy + 4) ([''Clock'', ''SysInfo'', ''Calculator'', ''About'', ''Tasks'', ''Notes'', ''Help'', ''Welcome''] ! i) 0x00F0F0F0 bg
           (mk_bb_fill (x + 4) (iy + 4) 14 14 (icon_color i) (mk_bb_fill x iy w SM_ITEM_H bg d)))"

definition draw_start_menu :: "bool \<Rightarrow> mkdisp \<Rightarrow> mkdisp" where
  "draw_start_menu is_open d =
     (if \<not> is_open then d
      else let (x, y, w, h) = start_menu_rect d;
               d = mk_bb_fill x y w 28 0x000078D7 (mk_bb_fill x y w h 0x001E1E1E (mk_bb_fill (x + 4) (y + 4) w h 0x00101010 d));
               d = mk_bb_text (x + 12) (y + 6) ''MyKernel Start'' 0x00FFFFFF 0x000078D7 d;
               d = fold (\<lambda>i. menu_item x (y + 28 + int i * SM_ITEM_H) w i) [0..<8] d;
               iy = y + 28 + 8 * SM_ITEM_H;
               d = mk_bb_fill x iy w 1 0x00444444 d;
               iy = iy + 6;
               d = mk_bb_text (x + 16) (iy + 2) ''Recycle Bin'' 0x00FFFFFF 0x00555555 (mk_bb_fill (x + 8) iy (w - 16) (SM_ITEM_H - 2) 0x00555555 d);
               iy = iy + SM_ITEM_H;
               d = mk_bb_text (x + 20) (iy + 2) ''Reboot'' 0x00FFFFFF 0x00C19C00 (mk_bb_fill (x + 8) iy (w - 16) (SM_ITEM_H - 2) 0x00C19C00 d);
               iy = iy + SM_ITEM_H
           in mk_bb_text (x + 16) (iy + 2) ''Shutdown'' 0x00FFFFFF 0x00C42B1C (mk_bb_fill (x + 8) iy (w - 16) (SM_ITEM_H - 2) 0x00C42B1C d))"

definition start_menu_click :: "int \<Rightarrow> int \<Rightarrow> mkdisp \<Rightarrow> int" where
  "start_menu_click px py d =
     (let (x, y, w, h) = start_menu_rect d; inside = (\<lambda>iy. py \<ge> iy \<and> py < iy + SM_ITEM_H)
      in if px < x \<or> px \<ge> x + w \<or> py < y \<or> py \<ge> y + h then -1
         else case List.find (\<lambda>i. inside (y + 28 + int i * SM_ITEM_H)) [0..<8] of
                Some i \<Rightarrow> int i
              | None \<Rightarrow>
                  let iy = y + 28 + 8 * SM_ITEM_H + 6
                  in if inside iy then 99 else if inside (iy + SM_ITEM_H) then 100 else if inside (iy + 2 * SM_ITEM_H) then 101 else -2)"

definition desktop_layer_paint :: "mkdisp \<Rightarrow> mkdisp" where
  "desktop_layer_paint d =
     fold (\<lambda>i d. let (x, y) = icon_pos i d
             in if y + ICON_H \<le> g_sh d - PANEL_H then draw_icon i x y (fst (snd (snd (snd (icons ! i))))) d else d) [0..<length icons] d"

definition desktop_overlay_paint :: "bool \<Rightarrow> mkdisp \<Rightarrow> mkdisp" where
  "desktop_overlay_paint is_open = draw_start_menu is_open"

section \<open>Keys\<close>

text \<open>Signed arithmetic of the machine.\<close>

definition c_int :: "int \<Rightarrow> int" where
  "c_int v = signed_take_bit 31 v"

definition calc_apply_op :: "desk \<Rightarrow> desk" where
  "calc_apply_op k =
     (let acc = (if calc_op k = 1 then c_int (calc_acc k + calc_val k)
                 else if calc_op k = 2 then c_int (calc_acc k - calc_val k)
                 else if calc_op k = 3 then c_int (calc_acc k * calc_val k)
                 else calc_val k)
      in k\<lparr>calc_acc := acc, calc_val := acc, calc_op := 0\<rparr>)"

definition repaint_calc :: "desk \<Rightarrow> desk" where
  "repaint_calc k =
     k\<lparr>disp := mk_surface_commit (app_id k App_calc) (paint_calc (calc_acc k) (calc_val k) (app_id k App_calc) (disp k)), need_redraw := True\<rparr>"

definition calc_key :: "char \<Rightarrow> desk \<Rightarrow> desk" where
  "calc_key c k =
     (if 48 \<le> (of_char c :: nat) \<and> (of_char c :: nat) \<le> 57 then repaint_calc (k\<lparr>calc_val := c_int (calc_val k * 10 + (of_char c - 48))\<rparr>)
      else if c = CHR ''+'' then (calc_apply_op k)\<lparr>calc_op := 1, calc_val := 0\<rparr>
      else if c = CHR ''-'' then (calc_apply_op k)\<lparr>calc_op := 2, calc_val := 0\<rparr>
      else if c = CHR ''*'' then (calc_apply_op k)\<lparr>calc_op := 3, calc_val := 0\<rparr>
      else if c = CHR 0x0A \<or> c = CHR ''='' then repaint_calc (calc_apply_op k)
      else if c = CHR ''c'' \<or> c = CHR ''C'' then repaint_calc (k\<lparr>calc_acc := 0, calc_val := 0, calc_op := 0\<rparr>)
      else k)"

text \<open>The keys of a round; the result says whether the loop is left.\<close>

fun desk_keys :: "string \<Rightarrow> desk \<Rightarrow> bool \<times> desk" where
  "desk_keys [] k = (False, k)"
| "desk_keys (c # cs) k =
     (if c = CHR 0x1B \<and> \<not> start_open k then (True, k)
      else let k = (if c = CHR 0x1B then k\<lparr>start_open := False, need_redraw := True\<rparr> else k)
           in if c = CHR ''q'' \<or> c = CHR ''Q'' then (True, k)
              else desk_keys cs (if surface_alive (app_id k App_calc) (disp k) then calc_key c k else k))"

section \<open>The mouse\<close>

datatype verdict = Stay | Leave | Power

text \<open>Giving up the display: back to text mode, on the adapter the display leaves behind.\<close>

definition back_to_text :: "desk \<Rightarrow> desk option" where
  "back_to_text k =
     map_option (\<lambda>d. k\<lparr>disp := d, dscreen := restore_text (on_vbe (\<lambda>_. lfb_mem d) (dscreen k))\<rparr>) (mk_shutdown (disp k))"

definition power_off :: "cstring \<Rightarrow> desk \<Rightarrow> (verdict \<times> desk) option" where
  "power_off msg k = map_option (\<lambda>k. (Power, k\<lparr>dscreen := say (line msg) (dscreen k)\<rparr>)) (back_to_text k)"

definition in_box :: "int \<Rightarrow> int \<Rightarrow> int \<Rightarrow> int \<Rightarrow> int \<Rightarrow> int \<Rightarrow> bool" where
  "in_box px py x y w h \<longleftrightarrow> px \<ge> x \<and> px < x + w \<and> py \<ge> y \<and> py < y + h"

definition stay :: "desk \<Rightarrow> (verdict \<times> desk) option" where
  "stay k = Some (Stay, k)"

definition menu_ops :: "app list" where
  "menu_ops = [App_clock, App_sysinfo, App_calc, App_about, App_tasks, App_notes, App_help, App_welcome]"

definition menu_down :: "readings \<Rightarrow> int \<Rightarrow> int \<Rightarrow> desk \<Rightarrow> (verdict \<times> desk) option" where
  "menu_down e px py k =
     (let sm = start_menu_click px py (disp k)
      in if 0 \<le> sm \<and> sm \<le> 7
         then map_option (\<lambda>k. (Stay, k\<lparr>start_open := False, need_redraw := True\<rparr>)) (open_fn e (menu_ops ! nat sm) k)
         else if sm = 99 then map_option (\<lambda>k. (Stay, k\<lparr>start_open := False, need_redraw := True\<rparr>)) (open_trash k)
         else if sm = 100 then power_off ''Rebooting...'' k
         else if sm = 101 then power_off ''Shutting down...'' k
         else if sm = -1 then stay (k\<lparr>start_open := False, need_redraw := True\<rparr>)
         else stay k)"

definition window_down :: "int \<Rightarrow> int \<Rightarrow> desk \<Rightarrow> (verdict \<times> desk) option" where
  "window_down px py k =
     (case mk_hit_test px py (disp k) of (wid, _, _, on_title, on_close) \<Rightarrow>
        if wid \<ge> 0 \<and> on_close
        then map_option (\<lambda>d. (Stay, (on_close_id wid k)\<lparr>disp := d, need_redraw := True, dragging := False\<rparr>)) (mk_surface_destroy wid (disp k))
        else if wid \<ge> 0 \<and> on_title
        then stay (k\<lparr>dragging := True, drag_id := wid, drag_off_x := px - sx (g_surf (disp k) ! nat wid),
                     drag_off_y := py - sy (g_surf (disp k) ! nat wid)\<rparr>)
        else stay k)"

definition left_down :: "readings \<Rightarrow> int \<Rightarrow> int \<Rightarrow> desk \<Rightarrow> (verdict \<times> desk) option" where
  "left_down e px py k =
     (let (rx, bx, by, bw, bh) = mk_panel_power_rects (disp k); (stx, sty, stw, sth) = start_btn_rect (disp k)
      in if in_box px py rx by bw bh then power_off ''Rebooting...'' k
         else if in_box px py bx by bw bh then power_off ''Shutting down...'' k
         else if in_box px py stx sty stw sth then stay (k\<lparr>start_open := \<not> start_open k, need_redraw := True\<rparr>)
         else if start_open k then menu_down e px py k
         else let ic = icon_at px py (disp k)
              in if ic \<ge> 0
                 then map_option (\<lambda>k. (Stay, k\<lparr>need_redraw := True\<rparr>)) (open_fn e (snd (snd (snd (snd (icons ! nat ic))))) k)
                 else window_down px py k)"

section \<open>The loop\<close>

record round =
  keys_in :: string
  bytes_in :: "u8 list"
  click_reads :: readings
  now_clock :: u32
  clock_reads :: readings
  bytes_late :: "u8 list"
  now_draw :: u32

definition feed_mouse :: "u8 list \<Rightarrow> desk \<Rightarrow> desk" where
  "feed_mouse bs k = k\<lparr>disp := (disp k)\<lparr>pointer := fold mouse_irq_handler bs (pointer (disp k))\<rparr>\<rparr>"

definition refresh_clock :: "round \<Rightarrow> desk \<Rightarrow> desk" where
  "refresh_clock r k =
     (let now = now_clock r; hz = rate (clock_reads r); hz = (if hz = 0 then 100 else hz);
          k = (if surface_alive (app_id k App_clock) (disp k) \<and> now - last_clock k \<ge> hz
               then k\<lparr>disp := mk_surface_commit (app_id k App_clock) (paint_clock (clock_reads r) (app_id k App_clock) (disp k)),
                      need_redraw := True, last_clock := now\<rparr> else k)
      in if surface_alive (app_id k App_tasks) (disp k) \<and> now - last_clock k \<ge> hz
         then k\<lparr>disp := mk_surface_commit (app_id k App_tasks) (paint_tasks (clock_reads r) (app_id k App_tasks) (disp k))\<rparr> else k)"

definition compose_desk :: "desk \<Rightarrow> desk" where
  "compose_desk k = k\<lparr>disp := mk_compose desktop_layer_paint (desktop_overlay_paint (start_open k)) (disp k)\<rparr>"

definition redraw :: "round \<Rightarrow> int \<Rightarrow> int \<Rightarrow> bool \<Rightarrow> desk \<Rightarrow> desk" where
  "redraw r px py edge k =
     (let moved = (px \<noteq> last_mx k \<or> py \<noteq> last_my k);
          k = (if moved then k\<lparr>last_mx := px, last_my := py\<rparr> else k)
      in if need_redraw k
         then let min_dt = (if dragging k then 1 else 0)
              in if now_draw r - last_draw k \<ge> min_dt \<or> edge
                 then (compose_desk (feed_mouse (bytes_late r) k))\<lparr>need_redraw := False, last_draw := now_draw r, last_mx := px, last_my := py\<rparr>
                 else k
         else if moved then k\<lparr>disp := mk_cursor_move px py (disp k)\<rparr> else k)"

text \<open>A round after the click was served: dragging, the clock and the picture.\<close>

definition desk_move :: "round \<Rightarrow> int \<Rightarrow> int \<Rightarrow> u8 \<Rightarrow> desk \<Rightarrow> desk" where
  "desk_move r px py buttons k =
     (let is_left = bit buttons 0; was_left = bit (held k) 0;
          k = (if \<not> is_left \<and> was_left then k\<lparr>dragging := False\<rparr> else k);
          k = (if dragging k \<and> drag_id k \<ge> 0 \<and> is_left
               then k\<lparr>disp := mk_surface_move (drag_id k) (px - drag_off_x k) (py - drag_off_y k) (disp k), need_redraw := True\<rparr> else k)
      in (redraw r px py (is_left \<noteq> was_left) (refresh_clock r k))\<lparr>held := buttons\<rparr>)"

definition desk_mouse :: "round \<Rightarrow> desk \<Rightarrow> (verdict \<times> desk) option" where
  "desk_mouse r k =
     (let ((px, py, _, _, buttons), m) = mouse_get (pointer (disp k));
          k = k\<lparr>disp := (disp k)\<lparr>pointer := m\<rparr>\<rparr>
      in case (if bit buttons 0 \<and> \<not> bit (held k) 0 then left_down (click_reads r) px py k else stay k) of
           None \<Rightarrow> None
         | Some (v, k) \<Rightarrow> Some (v, if v = Power then k else desk_move r px py buttons k))"

text \<open>One round of the loop.\<close>

definition desk_round :: "round \<Rightarrow> desk \<Rightarrow> (verdict \<times> desk) option" where
  "desk_round r k =
     (let (left, k) = desk_keys (keys_in r) k
      in if left then Some (Leave, k) else desk_mouse r (feed_mouse (bytes_in r) k))"

fun desk_rounds :: "round list \<Rightarrow> desk \<Rightarrow> (verdict \<times> desk) option" where
  "desk_rounds [] k = Some (Stay, k)"
| "desk_rounds (r # rs) k = (case desk_round r k of None \<Rightarrow> None | Some (v, k) \<Rightarrow> if v = Stay then desk_rounds rs k else Some (v, k))"

definition desk_init :: "desk \<Rightarrow> desk" where
  "desk_init k = k\<lparr>start_open := False, calc_acc := 0, calc_val := 0, calc_op := 0, app_id := (\<lambda>_. -1),
                   disp := mk_set_desktop_overlay True (mk_set_desktop_layer True (disp k))\<rparr>"

definition park :: "app \<Rightarrow> int \<Rightarrow> int \<Rightarrow> desk \<Rightarrow> desk" where
  "park a x y k = (if surface_alive (app_id k a) (disp k) then k\<lparr>disp := mk_surface_move (app_id k a) x y (disp k)\<rparr> else k)"

text \<open>The start, up to the first frame; \<open>now1\<close> and \<open>now2\<close> are the readings of the counter before the loop.\<close>

definition desk_start :: "readings \<Rightarrow> u32 \<Rightarrow> u32 \<Rightarrow> desk \<Rightarrow> desk option" where
  "desk_start e now1 now2 k =
     (case open_welcome (desk_init k) of None \<Rightarrow> None | Some k \<Rightarrow>
      (case open_clock e k of None \<Rightarrow> None | Some k \<Rightarrow>
       Some ((compose_desk (park App_clock 520 40 (park App_welcome 200 40 k)))
         \<lparr>dragging := False, drag_id := -1, drag_off_x := 0, drag_off_y := 0, held := 0, need_redraw := True, last_draw := now1, last_clock := now2\<rparr>)))"

definition desk_leave :: "desk \<Rightarrow> desk option" where
  "desk_leave k =
     map_option (\<lambda>k. k\<lparr>dscreen := say (line ''desktop: exited'') (dscreen k)\<rparr>)
       (back_to_text (k\<lparr>disp := mk_set_desktop_overlay False (mk_set_desktop_layer False (disp k))\<rparr>))"

text \<open>The display works on the adapter the terminal has used.\<close>

definition desktop_run :: "dispi \<Rightarrow> readings \<Rightarrow> u32 \<Rightarrow> u32 \<Rightarrow> round list \<Rightarrow> host \<Rightarrow> desk \<Rightarrow> (verdict \<times> host \<times> desk) option" where
  "desktop_run ad e now1 now2 rs h k =
     (let (vb, h) = platform_is_virtualbox h
      in if vb then Some (Leave, h, k\<lparr>dscreen := say (line ''desktop: needs Bochs VBE (QEMU). Not supported on VirtualBox.'') (dscreen k)\<rparr>)
         else let (r, d) = mk_init ad 1 ((disp k)\<lparr>lfb_mem := video (vt (dscreen k))\<rparr>);
                  (r, d) = (if r \<noteq> 0 then mk_init ad 0 d else (r, d))
              in if r \<noteq> 0 then Some (Leave, h, k\<lparr>disp := d, dscreen := say (line ''desktop: VBE init failed'') (on_vbe (\<lambda>_. lfb_mem d) (dscreen k))\<rparr>)
                 else case desk_start e now1 now2 (k\<lparr>disp := d\<rparr>) of None \<Rightarrow> None | Some k \<Rightarrow>
                   (case desk_rounds rs k of None \<Rightarrow> None
                    | Some (Leave, k) \<Rightarrow> map_option (\<lambda>k. (Leave, h, k)) (desk_leave k)
                    | Some (v, k) \<Rightarrow> Some (v, h, k)))"

end
