(* ===== verification/Desktop_Props.thy ===== *)
theory Desktop_Props
  imports Desktop
begin

text \<open>
  The desktop keeps its windows and its programs in step through every round of its loop, and gives back all memory when it ends.
\<close>

section \<open>The painters of the desktop\<close>

lemma bb_only_mk: "bb_only (mk_bb_fill x y w h c)" "bb_only (mk_bb_text x y str fg bg)"
  using bb_only_fill bb_only_text by (simp_all add: bb_only_def mk_bb_fill_def mk_bb_text_def)

lemmas drawn_mk = drawn_intros bb_only_mk [THEN drawn_step]

lemma bb_only_icon: "bb_only (draw_icon i x y label)"
  unfolding bb_only_drawn draw_icon_def Let_def by (auto intro!: drawn_mk)

lemma bb_only_menu_item: "bb_only (menu_item x iy w i)"
  unfolding bb_only_drawn menu_item_def Let_def by (intro allI drawn_mk)

lemma drawn_fold: "(\<And>i. bb_only (f i)) \<Longrightarrow> drawn s t \<Longrightarrow> drawn s (fold f is t)"
  by (induction "is" arbitrary: t) (simp_all add: drawn_step)

lemma bb_only_layer: "bb_only desktop_layer_paint"
proof -
  have "bb_only (\<lambda>d. let (x, y) = icon_pos i d
      in if y + ICON_H \<le> g_sh d - PANEL_H then draw_icon i x y (fst (snd (snd (snd (icons ! i))))) d else d)" for i
    unfolding bb_only_drawn Let_def by (auto intro!: drawn_step [OF bb_only_icon] drawn_refl split: prod.splits)
  note icon = this
  show ?thesis unfolding bb_only_drawn desktop_layer_paint_def by (rule allI, rule drawn_fold, rule icon, rule drawn_refl)
qed

lemma bb_only_overlay: "bb_only (desktop_overlay_paint b)"
  unfolding bb_only_drawn desktop_overlay_paint_def draw_start_menu_def Let_def start_menu_rect_def
  by (auto intro!: drawn_mk drawn_fold bb_only_menu_item)

section \<open>What creating and destroying do to the slots\<close>

lemma mk_surface_create_slots:
  assumes "mk_surface_create w h name s = Some (r, s')" "length (g_surf s) = 8"
  shows "r = -1 \<and> g_surf s' = g_surf s
    \<or> (\<exists>i. r = int i \<and> i < 8 \<and> \<not> used (g_surf s ! i) \<and> used (g_surf s' ! i) \<and> g_surf s' = (g_surf s)[i := g_surf s' ! i])"
proof -
  have "k < 8 \<and> \<not> used (g_surf s ! k)" if "List.find (\<lambda>i. \<not> used (g_surf s ! i)) [0..<MK_MAX_SURFACES] = Some k" for k
    using that by (auto simp: find_Some_iff MK_MAX_SURFACES_def)
  then show ?thesis
    using assms by (auto simp: mk_surface_create_def Let_def upd_surf_def split: if_splits option.splits)
qed

lemma mk_surface_destroy_slots:
  assumes "mk_surface_destroy wid s = Some s'" "\<not> bad_id wid s"
  shows "\<exists>v. \<not> used v \<and> g_surf s' = (g_surf s)[nat wid := v]"
  using assms by (intro exI [of _ "(g_surf s ! nat wid)\<lparr>pixels := 0, used := False, mapped := False\<rparr>"])
    (auto simp: mk_surface_destroy_def Let_def upd_surf_def split: if_splits option.splits)

lemma mk_hit_test_used: "mk_hit_test px py s = (wid, rest) \<Longrightarrow> 0 \<le> wid \<Longrightarrow> \<not> bad_id wid s"
proof -
  assume h: "mk_hit_test px py s = (wid, rest)" "0 \<le> wid"
  then obtain i where "List.find (\<lambda>i. hits_frame (g_surf s ! i) px py) (rev [0..<MK_MAX_SURFACES]) = Some i" "wid = int i"
    by (auto simp: mk_hit_test_def Let_def split: option.splits if_splits)
  then show ?thesis unfolding find_rev_upt by (auto simp: bad_id_def hits_frame_def)
qed

section \<open>Windows and programs\<close>

definition apps_ok :: "(app \<Rightarrow> int) \<Rightarrow> mk_surface list \<Rightarrow> bool" where
  "apps_ok ids ws \<longleftrightarrow> length ws = 8
     \<and> (\<forall>a. ids a \<noteq> -1 \<longrightarrow> 0 \<le> ids a \<and> ids a < 8 \<and> used (ws ! nat (ids a)))
     \<and> (\<forall>a b. ids a \<noteq> -1 \<longrightarrow> ids a = ids b \<longrightarrow> a = b)
     \<and> (\<forall>i < 8. used (ws ! i) \<longrightarrow> (\<exists>a. ids a = int i))"

definition desk_ok :: "(nat \<times> nat) set \<Rightarrow> desk \<Rightarrow> bool" where
  "desk_ok R k \<longleftrightarrow> disp_ok (disp k) \<and> (\<exists>f. windows_own R f (disp k)) \<and> apps_ok (app_id k) (g_surf (disp k))"

lemma apps_ok_cong: "apps_ok ids ws \<Longrightarrow> length ws' = length ws \<Longrightarrow> \<forall>i < length ws. used (ws' ! i) = used (ws ! i) \<Longrightarrow> apps_ok ids ws'"
  by (auto simp: apps_ok_def)

lemma apps_ok_alive: "apps_ok (app_id k) (g_surf (disp k)) \<Longrightarrow> surface_alive (app_id k a) (disp k) \<longleftrightarrow> app_id k a \<noteq> -1"
proof -
  assume "apps_ok (app_id k) (g_surf (disp k))"
  then have "app_id k a \<noteq> -1 \<longrightarrow> 0 \<le> app_id k a \<and> app_id k a < 8 \<and> used (g_surf (disp k) ! nat (app_id k a))" unfolding apps_ok_def by blast
  then show ?thesis by (auto simp: surface_alive_def mk_surface_get_def bad_id_def MK_MAX_SURFACES_def)
qed

lemma apps_ok_open:
  assumes "apps_ok ids ws" "ids a = -1" "i < 8" "\<not> used (ws ! i)" "used v"
  shows "apps_ok (ids(a := int i)) (ws[i := v])"
  unfolding apps_ok_def
proof (intro conjI allI impI)
  show "length (ws[i := v]) = 8" using assms by (simp add: apps_ok_def)
  fix b
  assume b: "(ids(a := int i)) b \<noteq> -1"
  show "0 \<le> (ids(a := int i)) b" "(ids(a := int i)) b < 8" "used (ws[i := v] ! nat ((ids(a := int i)) b))"
  proof -
    have "ids b \<noteq> -1 \<longrightarrow> 0 \<le> ids b \<and> ids b < 8 \<and> used (ws ! nat (ids b))" using assms(1) unfolding apps_ok_def by blast
    moreover have "length ws = 8" using assms(1) by (simp add: apps_ok_def)
    ultimately show "0 \<le> (ids(a := int i)) b" "(ids(a := int i)) b < 8" "used (ws[i := v] ! nat ((ids(a := int i)) b))"
      using b assms(3,5) by (auto simp: nth_list_update split: if_splits)
  qed
  fix c
  assume "(ids(a := int i)) b = (ids(a := int i)) c"
  moreover have "ids d \<noteq> int i" for d
  proof
    assume "ids d = int i"
    then have "used (ws ! nat (ids d))" using assms(1) unfolding apps_ok_def by (metis of_nat_0_le_iff int_one_le_iff_zero_less neg_0_le_iff_le not_one_le_zero of_nat_1)
    then show False using assms(4) \<open>ids d = int i\<close> by simp
  qed
  moreover have "ids b \<noteq> -1 \<longrightarrow> ids b = ids c \<longrightarrow> b = c" using assms(1) unfolding apps_ok_def by blast
  ultimately show "b = c" using b by (auto split: if_splits)
next
  fix j
  assume j: "j < 8" "used (ws[i := v] ! j)"
  show "\<exists>b. (ids(a := int i)) b = int j"
  proof (cases "j = i")
    case False
    then obtain b where "ids b = int j" using j assms by (auto simp: apps_ok_def)
    then show ?thesis using assms(2) by (intro exI [of _ b]) auto
  qed auto
qed

lemma apps_ok_close:
  assumes ok: "apps_ok ids ws" and w: "0 \<le> wid" "wid < 8" "\<not> used v"
  shows "apps_ok (\<lambda>a. if wid = ids a then -1 else ids a) (ws[nat wid := v])"
  unfolding apps_ok_def
proof (intro conjI allI impI)
  show "length (ws[nat wid := v]) = 8" using ok by (simp add: apps_ok_def)
next
  fix a
  assume "(if wid = ids a then -1 else ids a) \<noteq> -1"
  then have a: "ids a \<noteq> -1" "wid \<noteq> ids a" by (auto split: if_splits)
  then have i: "0 \<le> ids a" "ids a < 8" "used (ws ! nat (ids a))" using ok by (auto simp: apps_ok_def)
  then show "0 \<le> (if wid = ids a then -1 else ids a)" "(if wid = ids a then -1 else ids a) < 8"
    "used (ws[nat wid := v] ! nat (if wid = ids a then -1 else ids a))" using a w by (auto simp: nth_list_update eq_nat_nat_iff)
  fix b
  assume "(if wid = ids a then -1 else ids a) = (if wid = ids b then -1 else ids b)"
  then show "a = b" using a ok by (auto simp: apps_ok_def split: if_splits)
next
  fix j
  assume j: "j < 8" "used (ws[nat wid := v] ! j)"
  then have "j \<noteq> nat wid" using w ok by (auto simp: apps_ok_def)
  then obtain a where "ids a = int j" using j ok by (auto simp: apps_ok_def)
  then show "\<exists>a. (if wid = ids a then -1 else ids a) = int j" using \<open>j \<noteq> nat wid\<close> by (intro exI [of _ a]) auto
qed

section \<open>Every step keeps them\<close>

lemma desk_ok_same: "desk_ok R k \<Longrightarrow> same_windows (disp k) d \<Longrightarrow> app_id k' = app_id k \<Longrightarrow> disp k' = d \<Longrightarrow> desk_ok R k'"
  unfolding desk_ok_def
proof (elim conjE exE)
  fix f
  assume h: "same_windows (disp k) d" "app_id k' = app_id k" "disp k' = d" "disp_ok (disp k)" "windows_own R f (disp k)" "apps_ok (app_id k) (g_surf (disp k))"
  have "windows_own R f d" "disp_ok d" using same_windows_own [OF h(5,1)] same_windows_ok [OF h(4,1)] by simp_all
  moreover have "apps_ok (app_id k) (g_surf d)" using h(1) by (intro apps_ok_cong [OF h(6)]) (simp_all add: same_windows_def)
  ultimately show "disp_ok (disp k') \<and> (\<exists>f. windows_own R f (disp k')) \<and> apps_ok (app_id k') (g_surf (disp k'))" using h by auto
qed

lemma same_windows_paint: "same_windows d (paint_lines bg ls wid d)"
  by (simp add: paint_lines_def same_windows_def split: option.splits)

lemma same_windows_paint_commit: "same_windows d (mk_surface_commit j (paint_lines bg ls wid d))"
  by (rule same_windows_trans [OF same_windows_paint same_windows_edit(3)])

lemmas painter_defs = paint_welcome_def paint_clock_def paint_sysinfo_def paint_calc_def paint_about_def paint_tasks_def paint_notes_def
  paint_help_def paint_trash_def paint_demo_def

lemma open_app_ok:
  assumes ok: "desk_ok R k" and p: "\<And>wid d. same_windows d (p wid d)"
  shows "\<exists>k'. open_app a w h name p k = Some k' \<and> desk_ok R k'"
proof (cases "surface_alive (app_id k a) (disp k)")
  case False
  have apps: "apps_ok (app_id k) (g_surf (disp k))" and d: "disp_ok (disp k)" using ok by (simp_all add: desk_ok_def)
  obtain f where own: "windows_own R f (disp k)" using ok by (auto simp: desk_ok_def)
  have a: "app_id k a = -1" using False apps_ok_alive [OF apps] by simp
  have size: "length (g_surf (disp k)) = 8" "g_sw (disp k) \<le> 1024" "g_sh (disp k) \<le> 768" using d by (simp_all add: disp_ok_def)
  obtain r s f' where c: "mk_surface_create w h name (disp k) = Some (r, s)" "windows_own R f' s" "r = -1 \<or> mk_surface_get r s \<noteq> None"
    using mk_surface_create_own [OF own size, of w h name] by blast
  have s: "disp_ok s" using disp_ok_create [OF d c(1)] .
  from mk_surface_create_slots [OF c(1) size(1)] show ?thesis
  proof (elim disjE exE conjE)
    assume "r = -1" "g_surf s = g_surf (disp k)"
    then show ?thesis using False c s apps by (auto simp: open_app_def desk_ok_def)
  next
    fix i
    assume i: "r = int i" "i < 8" "\<not> used (g_surf (disp k) ! i)" "used (g_surf s ! i)" "g_surf s = (g_surf (disp k))[i := g_surf s ! i]"
    let ?k = "k\<lparr>app_id := (app_id k)(a := r), disp := s\<rparr>"
    have "apps_ok ((app_id k)(a := r)) (g_surf s)" using apps_ok_open [OF apps a i(2-4)] i(1,5) by metis
    then have "desk_ok R ?k" using c(2) s by (auto simp: desk_ok_def)
    then have "desk_ok R (?k\<lparr>disp := mk_surface_commit r (p r s)\<rparr>)"
      by (rule desk_ok_same [where d = "mk_surface_commit r (p r s)"]) (simp_all add: same_windows_trans [OF p same_windows_edit(3)])
    then show ?thesis using False c i(1) by (simp add: open_app_def)
  qed
qed (use ok in \<open>simp add: open_app_def\<close>)

lemma open_fn_ok: "desk_ok R k \<Longrightarrow> \<exists>k'. open_fn e a k = Some k' \<and> desk_ok R k'"
  by (cases a) (simp_all add: open_fn_def open_welcome_def open_clock_def open_sysinfo_def open_calc_def open_about_def open_tasks_def
    open_notes_def open_help_def open_trash_def open_demo_def painter_defs open_app_ok same_windows_paint)

lemma desk_ok_other: "desk_ok R k \<Longrightarrow> disp k' = disp k \<Longrightarrow> app_id k' = app_id k \<Longrightarrow> desk_ok R k'"
  by (simp add: desk_ok_def)

lemma repaint_calc_ok: "desk_ok R k \<Longrightarrow> desk_ok R (repaint_calc k)"
  unfolding repaint_calc_def paint_calc_def by (erule desk_ok_same [OF _ same_windows_paint_commit]) simp_all

lemma calc_key_ok: "desk_ok R k \<Longrightarrow> desk_ok R (calc_key c k)"
proof -
  assume ok: "desk_ok R k"
  then have op: "desk_ok R (calc_apply_op k)" by (rule desk_ok_other) (simp_all add: calc_apply_op_def Let_def)
  have next_op: "desk_ok R ((calc_apply_op k)\<lparr>calc_op := n, calc_val := v\<rparr>)" for n v using op by (rule desk_ok_other) simp_all
  have digit: "desk_ok R (k\<lparr>calc_val := v\<rparr>)" "desk_ok R (k\<lparr>calc_acc := 0, calc_val := 0, calc_op := 0\<rparr>)" for v
    by (rule desk_ok_other [OF ok]; simp)+
  show ?thesis by (simp add: calc_key_def ok op next_op digit repaint_calc_ok)
qed

lemma desk_keys_ok: "desk_ok R k \<Longrightarrow> desk_ok R (snd (desk_keys cs k))"
proof (induction cs k rule: desk_keys.induct)
  case (2 c cs k)
  let ?k = "if c = CHR 0x1B then k\<lparr>start_open := False, need_redraw := True\<rparr> else k"
  have ok: "desk_ok R ?k" using 2(2) by (auto elim: desk_ok_other)
  then have "desk_ok R (if surface_alive (app_id ?k App_calc) (disp ?k) then calc_key c ?k else ?k)" by (simp add: calc_key_ok)
  with 2 ok show ?case by (simp add: Let_def)
qed simp

lemma feed_mouse_ok: "desk_ok R k \<Longrightarrow> desk_ok R (feed_mouse bs k)"
  by (rule desk_ok_same [of R k "disp (feed_mouse bs k)"]) (simp_all add: feed_mouse_def same_windows_def)

lemma refresh_clock_ok: "desk_ok R k \<Longrightarrow> desk_ok R (refresh_clock r k)"
proof -
  assume ok: "desk_ok R k"
  have tasks: "desk_ok R (k\<lparr>disp := mk_surface_commit j (paint_tasks e wid (disp k))\<rparr>)" if "desk_ok R k" for k j e wid
    unfolding paint_tasks_def by (rule desk_ok_same [OF that same_windows_paint_commit]) simp_all
  have clock: "desk_ok R (k\<lparr>disp := mk_surface_commit j (paint_clock e wid (disp k)), need_redraw := True, last_clock := n\<rparr>)" for j e wid n
    unfolding paint_clock_def by (rule desk_ok_same [OF ok same_windows_paint_commit]) simp_all
  show ?thesis unfolding refresh_clock_def Let_def using ok tasks clock by simp
qed

lemma compose_desk_ok: "desk_ok R k \<Longrightarrow> desk_ok R (compose_desk k)"
proof -
  assume ok: "desk_ok R k"
  then have "disp_ok (disp k)" by (simp add: desk_ok_def)
  then have "same_windows (disp k) (mk_compose desktop_layer_paint (desktop_overlay_paint (start_open k)) (disp k))"
    using bb_only_layer bb_only_overlay by (rule same_windows_compose)
  from desk_ok_same [OF ok this] show ?thesis by (simp add: compose_desk_def)
qed

lemma redraw_ok: "desk_ok R k \<Longrightarrow> desk_ok R (redraw r px py edge k)"
proof -
  assume ok: "desk_ok R k"
  define j where "j = (if px \<noteq> last_mx k \<or> py \<noteq> last_my k then k\<lparr>last_mx := px, last_my := py\<rparr> else k)"
  have j: "desk_ok R j" unfolding j_def using ok by (auto elim: desk_ok_other)
  have "desk_ok R ((compose_desk (feed_mouse (bytes_late r) j))\<lparr>need_redraw := False, last_draw := now_draw r, last_mx := a, last_my := b\<rparr>)" for a b
    using compose_desk_ok [OF feed_mouse_ok [OF j]] by (rule desk_ok_other) simp_all
  moreover have "desk_ok R (j\<lparr>disp := mk_cursor_move px py (disp j)\<rparr>)"
    by (rule desk_ok_same [OF j same_windows_move]) simp_all
  ultimately show ?thesis unfolding redraw_def Let_def j_def [symmetric] using j by simp
qed

text \<open>Giving up the display releases the memory of all windows.\<close>

lemma back_to_text_ok:
  assumes "desk_ok R k"
  shows "\<exists>k'. back_to_text k = Some k' \<and> kheap_inv (mheap (disp k')) \<and> kregions (mheap (disp k')) = R"
proof -
  obtain f where "windows_own R f (disp k)" "length (g_surf (disp k)) = 8" using assms by (auto simp: desk_ok_def disp_ok_def)
  from mk_shutdown_own [OF this] show ?thesis by (auto simp: back_to_text_def)
qed

definition released :: "(nat \<times> nat) set \<Rightarrow> desk \<Rightarrow> bool" where
  "released R k \<longleftrightarrow> kheap_inv (mheap (disp k)) \<and> kregions (mheap (disp k)) = R"

definition verdict_ok :: "(nat \<times> nat) set \<Rightarrow> (verdict \<times> desk) option \<Rightarrow> bool" where
  "verdict_ok R r \<longleftrightarrow> (\<exists>v k. r = Some (v, k) \<and> (if v = Power then released R k else desk_ok R k))"

lemma power_off_ok: "desk_ok R k \<Longrightarrow> verdict_ok R (power_off msg k)"
  using back_to_text_ok [of R k] by (auto simp: verdict_ok_def power_off_def released_def)

lemma stay_ok: "desk_ok R k \<Longrightarrow> disp k' = disp k \<Longrightarrow> app_id k' = app_id k \<Longrightarrow> verdict_ok R (stay k')"
  by (auto simp: verdict_ok_def stay_def elim: desk_ok_other)

lemma opened_ok:
  assumes "\<exists>k'. r = Some k' \<and> desk_ok R k'" "\<And>k. disp (g k) = disp k \<and> app_id (g k) = app_id k"
  shows "verdict_ok R (map_option (\<lambda>k. (Stay, g k)) r)"
  using assms desk_ok_other by (fastforce simp: verdict_ok_def)

lemma menu_down_ok: "desk_ok R k \<Longrightarrow> verdict_ok R (menu_down e px py k)"
  unfolding menu_down_def Let_def
  using open_fn_ok [of R k e] open_fn_ok [of R k e App_trash]
  by (auto intro!: opened_ok power_off_ok stay_ok [of R k] simp: open_fn_def)

lemma window_down_ok:
  assumes ok: "desk_ok R k"
  shows "verdict_ok R (window_down px py k)"
proof -
  obtain wid lx ly t c where hit: "mk_hit_test px py (disp k) = (wid, lx, ly, t, c)" by (metis prod_cases5)
  obtain f where own: "windows_own R f (disp k)" and d: "disp_ok (disp k)" and apps: "apps_ok (app_id k) (g_surf (disp k))"
    using ok by (auto simp: desk_ok_def)
  show ?thesis
  proof (cases "wid \<ge> 0 \<and> c")
    case True
    then have id: "\<not> bad_id wid (disp k)" using mk_hit_test_used [OF hit] by simp
    then have w: "0 \<le> wid" "wid < 8" by (auto simp: bad_id_def MK_MAX_SURFACES_def)
    obtain s where s: "mk_surface_destroy wid (disp k) = Some s" "windows_own R f s"
      using mk_surface_destroy_own [OF own, of wid] d by (auto simp: disp_ok_def)
    obtain v where v: "\<not> used v" "g_surf s = (g_surf (disp k))[nat wid := v]" using mk_surface_destroy_slots [OF s(1) id] by blast
    have "apps_ok (app_id (on_close_id wid k)) (g_surf s)" using apps_ok_close [OF apps w v(1)] v(2) by (simp add: on_close_id_def)
    then have "desk_ok R ((on_close_id wid k)\<lparr>disp := s, need_redraw := True, dragging := False\<rparr>)"
      using s(2) disp_ok_destroy [OF d s(1)] by (auto simp: desk_ok_def)
    then show ?thesis using True s by (auto simp: window_down_def hit verdict_ok_def)
  next
    case False
    then show ?thesis using stay_ok [OF ok] by (auto simp: window_down_def hit)
  qed
qed

lemma left_down_ok: "desk_ok R k \<Longrightarrow> verdict_ok R (left_down e px py k)"
  unfolding left_down_def Let_def
  using open_fn_ok [of R k e]
  by (auto intro!: opened_ok power_off_ok menu_down_ok window_down_ok stay_ok [of R k] split: prod.splits)

section \<open>The loop\<close>

lemma desk_move_ok:
  assumes ok: "desk_ok R k"
  shows "desk_ok R (desk_move r px py buttons k)"
proof -
  define k1 where "k1 = (if \<not> bit buttons 0 \<and> bit (held k) 0 then k\<lparr>dragging := False\<rparr> else k)"
  define k2 where "k2 = (if dragging k1 \<and> drag_id k1 \<ge> 0 \<and> bit buttons 0
    then k1\<lparr>disp := mk_surface_move (drag_id k1) (px - drag_off_x k1) (py - drag_off_y k1) (disp k1), need_redraw := True\<rparr> else k1)"
  have k1: "desk_ok R k1" using ok unfolding k1_def by (auto elim: desk_ok_other)
  then have k2: "desk_ok R k2" unfolding k2_def using desk_ok_same [OF k1 same_windows_edit(1)] by simp
  have "desk_ok R ((redraw r px py (bit buttons 0 \<noteq> bit (held k) 0) (refresh_clock r k2))\<lparr>held := buttons\<rparr>)"
    by (rule desk_ok_other [OF redraw_ok [OF refresh_clock_ok [OF k2]]]) simp_all
  then show ?thesis unfolding desk_move_def Let_def k1_def [symmetric] k2_def [symmetric] .
qed

lemma desk_mouse_ok:
  assumes ok: "desk_ok R k"
  shows "verdict_ok R (desk_mouse r k)"
proof -
  obtain px py dx dy buttons m where mouse: "mouse_get (pointer (disp k)) = ((px, py, dx, dy, buttons), m)" by (metis prod.collapse)
  define k1 where "k1 = k\<lparr>disp := (disp k)\<lparr>pointer := m\<rparr>\<rparr>"
  have k1: "desk_ok R k1" using ok by (rule desk_ok_same [where d = "disp k1"]) (simp_all add: k1_def same_windows_def)
  define c where "c = (if bit buttons 0 \<and> \<not> bit (held k1) 0 then left_down (click_reads r) px py k1 else stay k1)"
  have "verdict_ok R c" unfolding c_def using left_down_ok [OF k1] stay_ok [OF k1] by simp
  then obtain v k2 where c: "c = Some (v, k2)" and k2: "if v = Power then released R k2 else desk_ok R k2" by (auto simp: verdict_ok_def)
  have "desk_mouse r k = (case c of None \<Rightarrow> None | Some (v, k) \<Rightarrow> Some (v, if v = Power then k else desk_move r px py buttons k))"
    unfolding desk_mouse_def mouse c_def k1_def by (simp add: Let_def)
  then show ?thesis using k2 desk_move_ok by (simp add: c verdict_ok_def split: if_splits)
qed

lemma desk_round_ok: "desk_ok R k \<Longrightarrow> verdict_ok R (desk_round r k)"
proof -
  assume "desk_ok R k"
  then have ok: "desk_ok R (snd (desk_keys (keys_in r) k))" by (rule desk_keys_ok)
  then have "verdict_ok R (Some (Leave, snd (desk_keys (keys_in r) k)))" by (simp add: verdict_ok_def)
  then show ?thesis
    using desk_mouse_ok [OF feed_mouse_ok [OF ok]] by (cases "desk_keys (keys_in r) k") (simp add: desk_round_def)
qed

lemma desk_rounds_ok: "desk_ok R k \<Longrightarrow> verdict_ok R (desk_rounds rs k)"
proof (induction rs arbitrary: k)
  case (Cons r rs)
  obtain v k' where r: "desk_round r k = Some (v, k')" and k': "if v = Power then released R k' else desk_ok R k'"
    using desk_round_ok [OF Cons.prems, of r] by (auto simp: verdict_ok_def)
  then show ?case using Cons.IH [of k'] by (cases "v = Stay") (auto simp: verdict_ok_def)
qed (simp add: verdict_ok_def)

lemma park_ok: "desk_ok R k \<Longrightarrow> desk_ok R (park a x y k)"
  unfolding park_def using desk_ok_same [OF _ same_windows_edit(1)] by simp

lemma desk_init_ok:
  assumes "disp_ok (disp k)" "kheap_inv (mheap (disp k))" "\<forall>i < 8. \<not> used (g_surf (disp k) ! i)"
  shows "desk_ok (kregions (mheap (disp k))) (desk_init k)"
proof -
  have n: "length (g_surf (disp k)) = 8" using assms(1) by (simp add: disp_ok_def)
  have "windows_own (kregions (mheap (disp k))) f (disp k)" for f using assms(2,3) n by (auto simp: windows_own_def owned_def)
  then have "windows_own (kregions (mheap (disp k))) f (disp (desk_init k))" for f
    by (rule windows_own_cong) (simp_all add: desk_init_def mk_set_desktop_layer_def mk_set_desktop_overlay_def)
  then show ?thesis
    using assms n by (auto simp: desk_ok_def apps_ok_def desk_init_def disp_ok_def mk_set_desktop_layer_def mk_set_desktop_overlay_def)
qed

lemma desk_start_ok:
  assumes "desk_ok R (desk_init k)"
  shows "\<exists>k'. desk_start e now1 now2 k = Some k' \<and> desk_ok R k'"
proof -
  obtain k1 where k1: "open_welcome (desk_init k) = Some k1" "desk_ok R k1" using open_fn_ok [OF assms, of e App_welcome] by (auto simp: open_fn_def)
  obtain k2 where k2: "open_clock e k1 = Some k2" "desk_ok R k2" using open_fn_ok [OF k1(2), of e App_clock] by (auto simp: open_fn_def)
  have "desk_ok R (compose_desk (park App_clock 520 40 (park App_welcome 200 40 k2)))" using k2(2) by (intro compose_desk_ok park_ok)
  then show ?thesis using k1 k2 by (auto simp: desk_start_def elim: desk_ok_other)
qed

text \<open>\<open>mk_init\<close> leaves the heap alone; where it succeeds no window is open.\<close>

lemma mk_init_heap: "mk_init ad m s = (r, s') \<Longrightarrow> mheap s' = mheap s \<and> length (g_surf s') = length (g_surf s)
    \<and> (r = 0 \<longrightarrow> (\<forall>i < length (g_surf s). \<not> used (g_surf s' ! i))) \<and> (r \<noteq> 0 \<longrightarrow> lfb_mem s' = snd (vbe_set_mode ad m (lfb_mem s)))"
  by (auto simp: mk_init_def Let_def split: prod.splits if_splits)

section \<open>Properties\<close>

text \<open>C37. The desktop is safe for every input: whatever keys, mouse bytes and clock readings arrive, the desktop never faults; as long as it runs each
  window on the screen belongs to exactly one program and each program that has a window has one that exists; and when it is left, or
  gives up the display for a reboot or a shutdown, the kernel heap has exactly the regions it had before.\<close>

theorem desktop_run_safe:
  assumes "vbe_ok (video (vt (dscreen k)))" "kheap_inv (mheap (disp k))" "length (g_surf (disp k)) = 8"
  shows "\<exists>v h' k'. desktop_run ad e now1 now2 rs h k = Some (v, h', k') \<and> kheap_inv (mheap (disp k'))
    \<and> (v \<noteq> Stay \<longrightarrow> kregions (mheap (disp k')) = kregions (mheap (disp k)))
    \<and> (v = Stay \<longrightarrow> (\<forall>i < 8. used (g_surf (disp k') ! i) \<longrightarrow> (\<exists>!a. app_id k' a = int i))
         \<and> (\<forall>a. app_id k' a = -1 \<or> surface_alive (app_id k' a) (disp k')))"
proof -
  obtain vb h1 where plat: "platform_is_virtualbox h = (vb, h1)" by (cases "platform_is_virtualbox h")
  define d0 where "d0 = (disp k)\<lparr>lfb_mem := video (vt (dscreen k))\<rparr>"
  obtain r1 d1 where i1: "mk_init ad 1 d0 = (r1, d1)" by (cases "mk_init ad 1 d0")
  obtain r d where i2: "(if r1 \<noteq> 0 then mk_init ad 0 d1 else (r1, d1)) = (r, d)" by fastforce
  have d0: "vbe_ok (lfb_mem d0)" "length (g_surf d0) = 8" "mheap d0 = mheap (disp k)" using assms by (simp_all add: d0_def)
  have d1: "mheap d1 = mheap d0" "length (g_surf d1) = 8" using mk_init_heap [OF i1] d0(2) by simp_all
  have d: "mheap d = mheap (disp k)" "r = 0 \<longrightarrow> disp_ok d \<and> (\<forall>i < 8. \<not> used (g_surf d ! i))"
  proof -
    show "mheap d = mheap (disp k)"
      using i2 d1 d0 mk_init_heap [of ad 0 d1 r d] by (auto split: if_splits)
    show "r = 0 \<longrightarrow> disp_ok d \<and> (\<forall>i < 8. \<not> used (g_surf d ! i))"
    proof (cases "r1 = 0")
      case True
      then show ?thesis using i1 i2 mk_init_ok [OF d0(1,2), of ad 1 d1] mk_init_heap [OF i1] d0(2) by simp
    next
      case False
      then have "vbe_ok (lfb_mem d1)" using mk_init_heap [OF i1] vbe_set_mode_ok [OF d0(1), of ad 1] by simp
      then show ?thesis using False i2 mk_init_ok [OF _ d1(2), of ad 0 d] mk_init_heap [of ad 0 d1 r d] d1(2) by auto
    qed
  qed
  show ?thesis
  proof (cases "vb \<or> r \<noteq> 0")
    case True
    then show ?thesis
      using plat i1 i2 d(1) assms(2) by (cases vb) (simp_all add: desktop_run_def Let_def d0_def [symmetric])
  next
    case False
    then have "desk_ok (kregions (mheap (disp k))) (desk_init (k\<lparr>disp := d\<rparr>))"
      using desk_init_ok [of "k\<lparr>disp := d\<rparr>"] d assms(2) by simp
    then obtain k1 where k1: "desk_start e now1 now2 (k\<lparr>disp := d\<rparr>) = Some k1" "desk_ok (kregions (mheap (disp k))) k1"
      using desk_start_ok by blast
    obtain v k2 where k2: "desk_rounds rs k1 = Some (v, k2)" "if v = Power then released (kregions (mheap (disp k))) k2 else desk_ok (kregions (mheap (disp k))) k2"
      using desk_rounds_ok [OF k1(2), of rs] by (auto simp: verdict_ok_def)
    have run: "desktop_run ad e now1 now2 rs h k =
        (case Some (v, k2) of Some (Leave, k) \<Rightarrow> map_option (\<lambda>k. (Leave, h1, k)) (desk_leave k) | Some (v, k) \<Rightarrow> Some (v, h1, k))"
      using False plat i1 i2 k1 k2 by (simp add: desktop_run_def Let_def d0_def [symmetric])
    show ?thesis
    proof (cases v)
      case Stay
      then have ok: "desk_ok (kregions (mheap (disp k))) k2" using k2 by simp
      then have apps: "apps_ok (app_id k2) (g_surf (disp k2))" and inv: "kheap_inv (mheap (disp k2))"
        by (auto simp: desk_ok_def windows_own_def)
      have "\<exists>!a. app_id k2 a = int i" if i: "i < 8" "used (g_surf (disp k2) ! i)" for i
      proof -
        obtain a where "app_id k2 a = int i" using apps i unfolding apps_ok_def by blast
        then show ?thesis using apps unfolding apps_ok_def by (intro ex1I [of _ a]) auto
      qed
      then show ?thesis using Stay run inv apps_ok_alive [OF apps] by auto
    next
      case Leave
      then have "desk_ok (kregions (mheap (disp k))) k2" using k2 by simp
      then have "desk_ok (kregions (mheap (disp k))) (k2\<lparr>disp := mk_set_desktop_overlay False (mk_set_desktop_layer False (disp k2))\<rparr>)"
        by (rule desk_ok_same [where d = "mk_set_desktop_overlay False (mk_set_desktop_layer False (disp k2))"])
          (simp_all add: same_windows_def mk_set_desktop_layer_def mk_set_desktop_overlay_def)
      from back_to_text_ok [OF this] show ?thesis using Leave run by (auto simp: desk_leave_def)
    next
      case Power
      then show ?thesis using k2 run by (simp add: released_def)
    qed
  qed
qed

definition echo_adapter :: dispi where
  "echo_adapter = \<lparr>id_readback = 0xB0C5, bochs_bar0 = Some 0xFD000008, display_bar0 = None, mode_readback = (\<lambda>w h. (w, h, 1))\<rparr>"

definition example_desk :: desk where
  "example_desk = \<lparr>disp = example_disp\<lparr>g_surf := replicate 8 (g_surf example_disp ! 1)\<rparr>, app_id = (\<lambda>_. 0), start_open = False, calc_acc = 0, calc_val = 0,
     calc_op = 0, dragging = False, drag_id = 0, drag_off_x = 0, drag_off_y = 0, held = 0, need_redraw = False, last_draw = 0, last_clock = 0,
     last_mx = -1, last_my = -1, dscreen = \<lparr>vgac = dark_card, vt = demo_terminal\<rparr>\<rparr>"

definition example_round :: "string \<Rightarrow> u8 list \<Rightarrow> round" where
  "example_round ks bs = (let e = \<lparr>task_count = 1, rate = 100, read1 = 5, read2 = 5\<rparr>
     in \<lparr>keys_in = ks, bytes_in = bs, click_reads = e, now_clock = 120, clock_reads = e, bytes_late = [], now_draw = 120\<rparr>)"

theorem desktop_run_safe_witness:
  "\<exists>v h' k'. desktop_run echo_adapter \<lparr>task_count = 1, rate = 100, read1 = 5, read2 = 5\<rparr> 0 0
      [example_round ''12+'' [0x09, 0x10, 0x20], example_round ''7q'' []]
      (\<lparr>g_vbox = False, g_inited = True\<rparr>, \<lparr>config_address = 0, config = (\<lambda>a. 0xFFFFFFFF), accept = (\<lambda>a old v. v)\<rparr>) example_desk = Some (v, h', k')
    \<and> (v \<noteq> Stay \<longrightarrow> kregions (mheap (disp k')) = kregions (mheap example_disp))"
proof -
  have "vbe_ok (video (vt (dscreen example_desk)))" "kheap_inv (mheap (disp example_desk))" "length (g_surf (disp example_desk)) = 8"
    using demo_terminal_ok(1) by (simp_all add: terminal_ok_def example_desk_def example_disp_def kheap_inv_init)
  note run = desktop_run_safe [OF this]
  show ?thesis
    using run [of echo_adapter "\<lparr>task_count = 1, rate = 100, read1 = 5, read2 = 5\<rparr>" 0 0 "[example_round ''12+'' [0x09, 0x10, 0x20], example_round ''7q'' []]"
      "(\<lparr>g_vbox = False, g_inited = True\<rparr>, \<lparr>config_address = 0, config = (\<lambda>a. 0xFFFFFFFF), accept = (\<lambda>a old v. v)\<rparr>)"]
    by (auto simp: example_desk_def)
qed

end
