(* ===== verification/Shell_Edit.thy ===== *)
theory Shell_Edit
  imports Terminal_Props Ramfs_Props Keyboard Kmalloc
begin

text \<open>
  The line editor and the history of the shell (\<open>src/src/shell.c\<close>). The editor works in a buffer of memory cells with a length and a
  cursor; it refines an editor of a text before and a text behind the cursor. The keys that \<open>keyboard_getchar\<close> delivers are an argument.
\<close>

section \<open>Definitions\<close>

definition CMD_BUFFER_SIZE :: nat where "CMD_BUFFER_SIZE = 128"
definition HISTORY_SIZE :: nat where "HISTORY_SIZE = 16"

record shell =
  history :: "cstring list"
  history_count :: nat
  history_pos :: int
  sh_kfs :: kfs
  sh_heap :: kheap
  sh_term :: terminal

record edit =
  buffer :: "nat \<Rightarrow> char"
  elen :: nat
  ecursor :: nat
  prompt_x :: nat
  prompt_y :: nat

definition history_add :: "cstring \<Rightarrow> shell \<Rightarrow> shell" where
  "history_add text s =
     (if text = [] then s
      else let h = fold (\<lambda>i h. h[i := take (CMD_BUFFER_SIZE - 1) (h ! (i - 1))]) (rev [1..<HISTORY_SIZE]) (history s);
               h = h[0 := take (CMD_BUFFER_SIZE - 1) text]
           in s\<lparr>history := h, history_count := (if history_count s < HISTORY_SIZE then history_count s + 1 else history_count s), history_pos := -1\<rparr>)"

definition on_term :: "(terminal \<Rightarrow> terminal) \<Rightarrow> shell \<Rightarrow> shell" where
  "on_term f s = s\<lparr>sh_term := f (sh_term s)\<rparr>"

definition put_range :: "(nat \<Rightarrow> char) \<Rightarrow> nat \<Rightarrow> nat \<Rightarrow> terminal \<Rightarrow> terminal" where
  "put_range b i j = fold (\<lambda>k. terminal_putchar (b k)) [i..<j]"

definition cursor_y :: "shell \<Rightarrow> nat" where
  "cursor_y s = snd (terminal_get_cursor (sh_term s))"

definition ed_backspace :: "edit \<Rightarrow> shell \<Rightarrow> edit \<times> shell" where
  "ed_backspace e s =
     (if ecursor e > 0
      then let b = fold (\<lambda>i b. b(i := b (i + 1))) [ecursor e - 1..<elen e - 1] (buffer e);
               len = elen e - 1; cur = ecursor e - 1; b = b(len := CHR 0x00);
               y = cursor_y s;
               s = on_term (terminal_set_cursor (prompt_x e + cur) y) s;
               s = on_term (terminal_putchar (CHR '' '') \<circ> put_range b cur len) s;
               s = on_term (terminal_set_cursor (prompt_x e + cur) y) s
           in (e\<lparr>buffer := b, elen := len, ecursor := cur\<rparr>, s)
      else (e, s))"

definition ed_left :: "edit \<Rightarrow> shell \<Rightarrow> edit \<times> shell" where
  "ed_left e s = (if ecursor e > 0 then (e\<lparr>ecursor := ecursor e - 1\<rparr>, on_term (terminal_move_left 1) s) else (e, s))"

definition ed_right :: "edit \<Rightarrow> shell \<Rightarrow> edit \<times> shell" where
  "ed_right e s = (if ecursor e < elen e then (e\<lparr>ecursor := ecursor e + 1\<rparr>, on_term (terminal_move_right 1) s) else (e, s))"

text \<open>\<open>str_copy\<close> into the buffer.\<close>

definition load_line :: "cstring \<Rightarrow> nat \<Rightarrow> (nat \<Rightarrow> char) \<Rightarrow> nat \<Rightarrow> char" where
  "load_line text max_len b =
     (let text = take (max_len - 1) text in (fold (\<lambda>i b. b(i := text ! i)) [0..<length text] b)(length text := CHR 0x00))"

definition blank_line :: "edit \<Rightarrow> shell \<Rightarrow> shell" where
  "blank_line e s =
     (let y = cursor_y s;
          s = on_term (terminal_set_cursor (prompt_x e) y) s;
          s = on_term (fold (\<lambda>_. terminal_putchar (CHR '' '')) [0..<elen e]) s
      in on_term (terminal_set_cursor (prompt_x e) y) s)"

definition show_history :: "nat \<Rightarrow> edit \<Rightarrow> shell \<Rightarrow> edit \<times> shell" where
  "show_history max_len e s =
     (let text = take (max_len - 1) (history s ! nat (history_pos s));
          b = load_line (history s ! nat (history_pos s)) max_len (buffer e)
      in (e\<lparr>buffer := b, elen := length text, ecursor := length text\<rparr>, on_term (terminal_writestring text) s))"

definition ed_up :: "nat \<Rightarrow> edit \<Rightarrow> shell \<Rightarrow> edit \<times> shell" where
  "ed_up max_len e s =
     (if history_count s = 0 then (e, s)
      else let s = (if history_pos s < int (history_count s) - 1 then s\<lparr>history_pos := history_pos s + 1\<rparr> else s)
           in show_history max_len e (blank_line e s))"

definition ed_down :: "nat \<Rightarrow> edit \<Rightarrow> shell \<Rightarrow> edit \<times> shell" where
  "ed_down max_len e s =
     (let s = blank_line e s
      in if history_pos s > 0 then show_history max_len e (s\<lparr>history_pos := history_pos s - 1\<rparr>)
         else (e\<lparr>buffer := (buffer e)(0 := CHR 0x00), elen := 0, ecursor := 0\<rparr>, s\<lparr>history_pos := -1\<rparr>))"

definition shell_commands :: "cstring list" where
  "shell_commands =
     [''help'', ''clear'', ''echo'', ''about'', ''uname'', ''whoami'', ''free'', ''history'',
      ''reboot'', ''shutdown'', ''calc'', ''ls'', ''pwd'', ''cd'', ''mkdir'', ''touch'', ''cat'',
      ''rm'', ''write'', ''append'', ''cp'', ''mv'', ''mount'', ''umount'', ''fatmount'', ''fatinfo'', ''fatls'', ''fatcat'',
      ''fatwrite'', ''lang'', ''ps'', ''spawn'', ''snake'', ''pong'', ''beep'', ''lspci'', ''beep97'',
      ''exec'', ''settings'', ''vbetest'', ''dynhello'', ''desktop'']"

definition starts_with :: "cstring \<Rightarrow> cstring \<Rightarrow> bool" where
  "starts_with p s \<longleftrightarrow> take (length p) s = p"

text \<open>The entries of the working directory until the table of 64 matches is full.\<close>

fun fs_matches :: "nat \<Rightarrow> nat list \<Rightarrow> cstring \<Rightarrow> ramfs \<Rightarrow> cstring list" where
  "fs_matches room [] p c = []"
| "fs_matches room (idx # is) p c =
     (if room = 0 then []
      else case fs_cwd_entry idx FS_NAME_MAX c of
             None \<Rightarrow> []
           | Some (name, is_dir) \<Rightarrow>
               if starts_with p name
               then (take (FS_NAME_MAX - 2) name @ (if is_dir then ''/'' else [])) # fs_matches (room - 1) is p c
               else fs_matches room is p c)"

definition matches :: "bool \<Rightarrow> cstring \<Rightarrow> ramfs \<Rightarrow> cstring list" where
  "matches first p c =
     (let cm = (if first then take 64 (map (take (FS_NAME_MAX - 1)) (filter (starts_with p) shell_commands)) else [])
      in cm @ fs_matches (64 - length cm) [0..<length (cwd_entries c)] p c)"

text \<open>The start of the word before the cursor.\<close>

fun token_start :: "(nat \<Rightarrow> char) \<Rightarrow> nat \<Rightarrow> nat" where
  "token_start b 0 = 0"
| "token_start b (Suc i) = (if b i \<noteq> CHR '' '' then token_start b i else Suc i)"

definition ed_complete :: "nat \<Rightarrow> nat \<Rightarrow> cstring \<Rightarrow> nat \<Rightarrow> edit \<Rightarrow> shell \<Rightarrow> edit \<times> shell" where
  "ed_complete max_len plen m tok e s =
     (let need = length m - plen
      in if elen e + need < max_len - 1
         then let b = fold (\<lambda>i b. b(i + need := b (i - 1))) (rev [ecursor e + 1..<elen e + 1]) (buffer e);
                  b = fold (\<lambda>i b. b(ecursor e + i := m ! (plen + i))) [0..<need] b;
                  len = elen e + need; cur = ecursor e + need; b = b(len := CHR 0x00);
                  y = cursor_y s;
                  s = on_term (terminal_set_cursor (prompt_x e + tok) y) s;
                  s = on_term (put_range b tok len) s;
                  s = on_term (terminal_set_cursor (prompt_x e + cur) y) s
              in (e\<lparr>buffer := b, elen := len, ecursor := cur\<rparr>, s)
         else (e, s))"

definition buffer_text :: "edit \<Rightarrow> cstring" where
  "buffer_text e = map (buffer e) [0..<elen e]"

definition list_matches :: "cstring list \<Rightarrow> edit \<Rightarrow> shell \<Rightarrow> edit \<times> shell" where
  "list_matches ms e s =
     (let s = on_term (terminal_putchar (CHR 0x0A)) s;
          s = fold (\<lambda>m. on_term (terminal_putchar (CHR '' '') \<circ> terminal_writestring m)) ms s;
          s = on_term (terminal_writestring ''> '' \<circ> terminal_putchar (CHR 0x0A)) s;
          (px, py) = terminal_get_cursor (sh_term s);
          s = on_term (terminal_writestring (buffer_text e)) s;
          s = on_term (terminal_set_cursor (px + ecursor e) py) s
      in (e\<lparr>prompt_x := px, prompt_y := py\<rparr>, s))"

text \<open>
  A name of 47 characters enters the table of matches without its last one, so the word before the cursor can be longer than the only match.
  Then \<open>need\<close> wraps to the largest \<open>size_t\<close>, \<open>len + need\<close> to \<open>len - 1\<close>, and the copying loop runs over the
  whole memory: \<open>None\<close>.
\<close>

definition ed_tab :: "nat \<Rightarrow> edit \<Rightarrow> shell \<Rightarrow> (edit \<times> shell) option" where
  "ed_tab max_len e s =
     (let tok = token_start (buffer e) (ecursor e);
          plen = ecursor e - tok;
          plen = (if plen \<ge> 64 then 63 else plen);
          prefix = map (\<lambda>i. buffer e (tok + i)) [0..<plen];
          ms = matches (tok = 0) prefix (fsc (sh_kfs s))
      in if length ms = 1 then (if plen > length (hd ms) then None else Some (ed_complete max_len plen (hd ms) tok e s))
         else if length ms > 1 then Some (list_matches ms e s)
         else Some (e, s))"

definition ed_insert :: "char \<Rightarrow> edit \<Rightarrow> shell \<Rightarrow> edit \<times> shell" where
  "ed_insert c e s =
     (let b = fold (\<lambda>i b. b(i := b (i - 1))) (rev [ecursor e + 1..<elen e + 1]) (buffer e);
          b = b(ecursor e := c); len = elen e + 1; cur = ecursor e + 1; b = b(len := CHR 0x00);
          y = cursor_y s;
          s = on_term (terminal_set_cursor (prompt_x e + cur - 1) y) s;
          s = on_term (put_range b (cur - 1) len) s;
          s = on_term (terminal_set_cursor (prompt_x e + cur) y) s
      in (e\<lparr>buffer := b, elen := len, ecursor := cur\<rparr>, s))"

definition printable :: "char \<Rightarrow> bool" where
  "printable c \<longleftrightarrow> 32 \<le> (of_char c :: nat) \<and> (of_char c :: nat) < 127"

definition ed_key :: "nat \<Rightarrow> char \<Rightarrow> edit \<Rightarrow> shell \<Rightarrow> (edit \<times> shell) option" where
  "ed_key max_len c e s =
     (if c = KEY_BACKSPACE then Some (ed_backspace e s)
      else if c = KEY_LEFT then Some (ed_left e s)
      else if c = KEY_RIGHT then Some (ed_right e s)
      else if c = KEY_UP then Some (ed_up max_len e s)
      else if c = KEY_DOWN then Some (ed_down max_len e s)
      else if c = CHR 0x09 then ed_tab max_len e s
      else if printable c \<and> elen e < max_len - 1 then Some (ed_insert c e s)
      else Some (e, s))"

text \<open>The loop of \<open>read_line\<close>; no line in the result says that it is still being typed.\<close>

fun ed_loop :: "nat \<Rightarrow> string \<Rightarrow> edit \<Rightarrow> shell \<Rightarrow> ((cstring \<times> string) option \<times> edit \<times> shell) option" where
  "ed_loop max_len [] e s = Some (None, e, s)"
| "ed_loop max_len (c # cs) e s =
     (if c = KEY_ENTER then Some (Some (buffer_text e, cs), e\<lparr>buffer := (buffer e)(elen e := CHR 0x00)\<rparr>, on_term (terminal_putchar (CHR 0x0A)) s)
      else case ed_key max_len c e s of None \<Rightarrow> None | Some (e, s) \<Rightarrow> ed_loop max_len cs e s)"

definition read_line :: "nat \<Rightarrow> (nat \<Rightarrow> char) \<Rightarrow> string \<Rightarrow> shell \<Rightarrow> ((cstring \<times> string) option \<times> edit \<times> shell) option" where
  "read_line max_len b keys s =
     (let (px, py) = terminal_get_cursor (sh_term s)
      in ed_loop max_len keys \<lparr>buffer = b(0 := CHR 0x00), elen = 0, ecursor = 0, prompt_x = px, prompt_y = py\<rparr> (s\<lparr>history_pos := -1\<rparr>))"

section \<open>The editor of two texts\<close>

text \<open>
  The text before the cursor, the text behind it and the place in the history. \<open>None\<close> is a completion in the middle of a line or of a
  word longer than its match, which the code does not get right.
\<close>

type_synonym zipper = "cstring \<times> cstring \<times> int"

definition zip_history :: "nat \<Rightarrow> cstring list \<Rightarrow> int \<Rightarrow> zipper" where
  "zip_history max_len h p = (take (max_len - 1) (h ! nat p), [], p)"

definition word_before :: "cstring \<Rightarrow> cstring" where
  "word_before l = rev (takeWhile (\<lambda>c. c \<noteq> CHR '' '') (rev l))"

definition zip_tab :: "nat \<Rightarrow> ramfs \<Rightarrow> zipper \<Rightarrow> zipper option" where
  "zip_tab max_len c z =
     (let (l, r, p) = z; w = word_before l; ms = matches (w = l) (take 63 w) c; ins = drop (length (take 63 w)) (hd ms)
      in if length ms = 1 \<and> length (hd ms) < length (take 63 w) then None
         else if length ms = 1 \<and> length l + length r + length ins < max_len - 1
         then (if r = [] then Some (l @ ins, r, p) else None)
         else Some z)"

definition zip_key :: "nat \<Rightarrow> cstring list \<Rightarrow> nat \<Rightarrow> ramfs \<Rightarrow> char \<Rightarrow> zipper \<Rightarrow> zipper option" where
  "zip_key max_len h n c k z =
     (let (l, r, p) = z
      in if k = KEY_BACKSPACE then Some (butlast l, r, p)
         else if k = KEY_LEFT then Some (if l = [] then z else (butlast l, last l # r, p))
         else if k = KEY_RIGHT then Some (if r = [] then z else (l @ [hd r], tl r, p))
         else if k = KEY_UP then Some (if n = 0 then z else zip_history max_len h (if p < int n - 1 then p + 1 else p))
         else if k = KEY_DOWN then Some (if p > 0 then zip_history max_len h (p - 1) else ([], [], -1))
         else if k = CHR 0x09 then zip_tab max_len c z
         else if printable k \<and> length l + length r < max_len - 1 then Some (l @ [k], r, p)
         else Some z)"

fun zip_keys :: "nat \<Rightarrow> cstring list \<Rightarrow> nat \<Rightarrow> ramfs \<Rightarrow> string \<Rightarrow> zipper \<Rightarrow> zipper option" where
  "zip_keys max_len h n c [] z = Some z"
| "zip_keys max_len h n c (k # ks) z = (case zip_key max_len h n c k z of None \<Rightarrow> None | Some z \<Rightarrow> zip_keys max_len h n c ks z)"

section \<open>The buffer refines the two texts\<close>

definition edits :: "nat \<Rightarrow> zipper \<Rightarrow> edit \<Rightarrow> shell \<Rightarrow> bool" where
  "edits max_len z e s \<longleftrightarrow> (case z of (l, r, p) \<Rightarrow> buffer_text e = l @ r \<and> ecursor e = length l \<and> p = history_pos s \<and> elen e \<le> max_len - 1)"

text \<open>Nothing but the terminal and the place in the history changes while a line is edited.\<close>

definition same_shell :: "shell \<Rightarrow> shell \<Rightarrow> bool" where
  "same_shell s t \<longleftrightarrow> history t = history s \<and> history_count t = history_count s \<and> sh_kfs t = sh_kfs s \<and> sh_heap t = sh_heap s \<and> (terminal_ok (sh_term s) \<longrightarrow> terminal_ok (sh_term t))"

lemma buffer_text_len: "buffer_text e = xs \<Longrightarrow> elen e = length xs"
  by (auto simp: buffer_text_def)

lemma buffer_text_nth: "buffer_text e = xs \<Longrightarrow> i < length xs \<Longrightarrow> buffer e i = xs ! i"
  by (auto simp: buffer_text_def)

lemma buffer_text_eqI: "elen e = length xs \<Longrightarrow> (\<And>i. i < length xs \<Longrightarrow> buffer e i = xs ! i) \<Longrightarrow> buffer_text e = xs"
  by (auto simp: buffer_text_def intro: nth_equalityI)

lemma shift_left: "fold (\<lambda>i b. b(i := b (i + 1))) [k..<n] b j = (if k \<le> j \<and> j < n then b (j + 1) else b j)"
proof -
  define step where "step = (\<lambda>i b :: nat \<Rightarrow> 'a. b(i := b (i + 1)))"
  have step: "step i c a = (if a = i then c (i + 1) else c a)" for i c a by (simp add: step_def)
  have "fold step [k..<n] b j = (if k \<le> j \<and> j < n then b (j + 1) else b j)"
    by (induction n arbitrary: j) (auto simp: step less_Suc_eq)
  then show ?thesis by (simp add: step_def)
qed

lemma shift_right: "fold (\<lambda>i b. b(i := b (i - 1))) (rev [k + 1..<n + 1]) b j = (if k < j \<and> j \<le> n then b (j - 1) else b j)"
proof (induction n arbitrary: b)
  case (Suc n)
  show ?case
  proof (cases "k \<le> n")
    case True
    then have "rev [k + 1..<Suc n + 1] = Suc n # rev [k + 1..<n + 1]" by simp
    then have "fold (\<lambda>i b. b(i := b (i - 1))) (rev [k + 1..<Suc n + 1]) b j =
        fold (\<lambda>i b. b(i := b (i - 1))) (rev [k + 1..<n + 1]) (b(Suc n := b n)) j" by simp
    also have "\<dots> = (if k < j \<and> j \<le> n then (b(Suc n := b n)) (j - 1) else (b(Suc n := b n)) j)" by (rule Suc.IH)
    also have "\<dots> = (if k < j \<and> j \<le> Suc n then b (j - 1) else b j)" using True by (cases "j = Suc n") auto
    finally show ?thesis .
  qed auto
qed simp

lemma load_line_nth: "i < length (take (m - 1) text) \<Longrightarrow> load_line text m b i = take (m - 1) text ! i"
proof -
  have "fold (\<lambda>i b. b(i := xs ! i)) [0..<n] b j = (if j < n then xs ! j else b j)" for xs :: cstring and n b j
    by (induction n) auto
  then show "i < length (take (m - 1) text) \<Longrightarrow> load_line text m b i = take (m - 1) text ! i"
    by (auto simp: load_line_def Let_def)
qed

lemma on_term_simps [simp]:
  "history (on_term f s) = history s" "history_count (on_term f s) = history_count s" "history_pos (on_term f s) = history_pos s"
  "sh_kfs (on_term f s) = sh_kfs s" "sh_heap (on_term f s) = sh_heap s"
  by (simp_all add: on_term_def)

text \<open>The keys that move or change the text.\<close>

lemma ed_backspace_edits:
  assumes "edits m (l, r, p) e s"
  shows "edits m (butlast l, r, p) (fst (ed_backspace e s)) (snd (ed_backspace e s))"
proof (cases "l = []")
  case False
  note t = assms [unfolded edits_def prod.case]
  have len: "elen e = length l + length r" using buffer_text_len t by fastforce
  have at: "i < length l + length r \<Longrightarrow> buffer e i = (l @ r) ! i" for i using buffer_text_nth t by fastforce
  define b where "b = fold (\<lambda>i b. b(i := b (i + 1))) [ecursor e - 1..<elen e - 1] (buffer e)"
  have b: "b j = (if length l - 1 \<le> j \<and> j < elen e - 1 then buffer e (j + 1) else buffer e j)" for j
    unfolding b_def shift_left using t by simp
  obtain l0 x where l: "l = l0 @ [x]" using False by (cases l rule: rev_cases) auto
  have "(b(elen e - 1 := CHR 0x00)) j = (butlast l @ r) ! j" if "j < length (butlast l @ r)" for j
  proof (cases "j < length l0")
    case True
    then show ?thesis using that at [of j] by (auto simp: b len l nth_append)
  next
    case False
    then show ?thesis using that at [of "Suc j"] by (auto simp: b len l nth_append Suc_diff_le)
  qed
  then have "buffer_text (e\<lparr>buffer := b(elen e - 1 := CHR 0x00), elen := elen e - 1, ecursor := ecursor e - 1\<rparr>) = butlast l @ r"
    by (intro buffer_text_eqI) (auto simp: len l)
  then show ?thesis using t False unfolding ed_backspace_def Let_def b_def [symmetric] by (auto simp: edits_def)
qed (use assms in \<open>auto simp: ed_backspace_def edits_def\<close>)

lemma ed_left_edits:
  assumes "edits m (l, r, p) e s"
  shows "edits m (if l = [] then (l, r, p) else (butlast l, last l # r, p)) (fst (ed_left e s)) (snd (ed_left e s))"
  using assms by (cases "l = []") (auto simp: ed_left_def edits_def buffer_text_def)

lemma ed_right_edits:
  assumes "edits m (l, r, p) e s"
  shows "edits m (if r = [] then (l, r, p) else (l @ [hd r], tl r, p)) (fst (ed_right e s)) (snd (ed_right e s))"
proof -
  have "elen e = length l + length r" using assms buffer_text_len [of e "l @ r"] by (simp add: edits_def)
  then show ?thesis using assms by (cases r) (auto simp: ed_right_def edits_def buffer_text_def)
qed

lemma ed_insert_edits:
  assumes "edits m (l, r, p) e s" "elen e < m - 1"
  shows "edits m (l @ [c], r, p) (fst (ed_insert c e s)) (snd (ed_insert c e s))"
proof -
  note t = assms(1) [unfolded edits_def prod.case]
  have len: "elen e = length l + length r" using buffer_text_len t by fastforce
  have at: "i < length l + length r \<Longrightarrow> buffer e i = (l @ r) ! i" for i using buffer_text_nth t by fastforce
  define b where "b = fold (\<lambda>i b. b(i := b (i - 1))) (rev [ecursor e + 1..<elen e + 1]) (buffer e)"
  have b: "b j = (if length l < j \<and> j \<le> elen e then buffer e (j - 1) else buffer e j)" for j
    unfolding b_def shift_right using t by simp
  have "(b(length l := c, Suc (elen e) := CHR 0x00)) j = (l @ c # r) ! j" if "j < length (l @ c # r)" for j
  proof (cases "j \<le> length l")
    case True
    then show ?thesis using that at [of j] by (auto simp: b len nth_append)
  next
    case False
    then show ?thesis using that at [of "j - 1"] by (auto simp: b len nth_append nth_Cons')
  qed
  then have "buffer_text (e\<lparr>buffer := b(length l := c, Suc (elen e) := CHR 0x00), elen := Suc (elen e), ecursor := Suc (length l)\<rparr>) = l @ c # r"
    by (intro buffer_text_eqI) (auto simp: len)
  then show ?thesis using t assms(2) unfolding ed_insert_def Let_def b_def [symmetric] by (simp add: edits_def)
qed

lemma show_history_edits:
  "edits m (zip_history m (history s) (history_pos s)) (fst (show_history m e s)) (snd (show_history m e s))"
proof -
  let ?x = "history s ! nat (history_pos s)"
  have "buffer_text (e\<lparr>buffer := load_line ?x m (buffer e), elen := length (take (m - 1) ?x), ecursor := length (take (m - 1) ?x)\<rparr>) = take (m - 1) ?x"
    by (intro buffer_text_eqI) (simp_all add: load_line_nth)
  then show ?thesis by (simp add: show_history_def zip_history_def edits_def Let_def)
qed

lemma blank_line_simps [simp]:
  "history (blank_line e s) = history s" "history_count (blank_line e s) = history_count s" "history_pos (blank_line e s) = history_pos s"
  "sh_kfs (blank_line e s) = sh_kfs s"
  by (simp_all add: blank_line_def Let_def)

lemma ed_up_edits:
  assumes "edits m (l, r, p) e s"
  shows "edits m (if history_count s = 0 then (l, r, p) else zip_history m (history s) (if p < int (history_count s) - 1 then p + 1 else p))
    (fst (ed_up m e s)) (snd (ed_up m e s))"
proof (cases "history_count s = 0")
  case False
  define s1 where "s1 = blank_line e (if history_pos s < int (history_count s) - 1 then s\<lparr>history_pos := history_pos s + 1\<rparr> else s)"
  have "p = history_pos s" using assms by (simp add: edits_def)
  then have "history s1 = history s" "history_pos s1 = (if p < int (history_count s) - 1 then p + 1 else p)" by (simp_all add: s1_def)
  moreover have "ed_up m e s = show_history m e s1" using False by (simp add: ed_up_def s1_def)
  ultimately show ?thesis using show_history_edits [of m s1 e] False by simp
qed (use assms in \<open>simp add: ed_up_def\<close>)

lemma ed_down_edits:
  assumes "edits m (l, r, p) e s"
  shows "edits m (if p > 0 then zip_history m (history s) (p - 1) else ([], [], -1)) (fst (ed_down m e s)) (snd (ed_down m e s))"
proof -
  have p: "p = history_pos s" using assms by (simp add: edits_def)
  define s1 where "s1 = (blank_line e s)\<lparr>history_pos := p - 1\<rparr>"
  have "history s1 = history s" "history_pos s1 = p - 1" by (simp_all add: s1_def)
  then show ?thesis using show_history_edits [of m s1 e] by (auto simp: ed_down_def Let_def s1_def p edits_def buffer_text_def)
qed

text \<open>The word before the cursor.\<close>

lemma token_start_word: "(\<And>i. i < length l \<Longrightarrow> b i = l ! i) \<Longrightarrow> token_start b (length l) = length l - length (word_before l)"
proof (induction l rule: rev_induct)
  case (snoc c l)
  have "b i = l ! i" if "i < length l" for i using snoc.prems [of i] that by (simp add: nth_append)
  then have "token_start b (length l) = length l - length (word_before l)" by (rule snoc.IH)
  moreover have "length (word_before l) \<le> length l" by (metis word_before_def length_rev length_takeWhile_le)
  moreover have "b (length l) = c" using snoc.prems [of "length l"] by simp
  ultimately show ?case by (auto simp: word_before_def Suc_diff_le)
qed (simp add: word_before_def)

lemma word_before_suffix: "l = take (length l - length (word_before l)) l @ word_before l"
proof -
  have "rev l = takeWhile (\<lambda>c. c \<noteq> CHR '' '') (rev l) @ dropWhile (\<lambda>c. c \<noteq> CHR '' '') (rev l)" by simp
  then have "l = rev (dropWhile (\<lambda>c. c \<noteq> CHR '' '') (rev l)) @ word_before l" unfolding word_before_def by (metis rev_append rev_rev_ident)
  then show ?thesis by (metis append_eq_conv_conj diff_add_inverse2 length_append)
qed

lemma copy_fold: "fold (\<lambda>i b. b(k + i := f i)) [0..<n] b j = (if k \<le> j \<and> j < k + n then f (j - k) else b j)"
proof -
  define step where "step = (\<lambda>i b :: nat \<Rightarrow> 'a. b(k + i := f i))"
  have step: "step i c a = (if a = k + i then f i else c a)" for i c a by (simp add: step_def)
  have "fold step [0..<n] b j = (if k \<le> j \<and> j < k + n then f (j - k) else b j)" by (induction n) (auto simp: step)
  then show ?thesis by (simp add: step_def)
qed

lemma ed_complete_edits:
  assumes "edits m (l, [], p) e s"
  shows "edits m (if length l + length (drop plen w) < m - 1 then l @ drop plen w else l, [], p) (fst (ed_complete m plen w tok e s)) (snd (ed_complete m plen w tok e s))"
proof -
  note t = assms [unfolded edits_def prod.case]
  have len: "elen e = length l" using buffer_text_len t by fastforce
  have at: "i < length l \<Longrightarrow> buffer e i = l ! i" for i using buffer_text_nth [of e l] t by simp
  show ?thesis
  proof (cases "elen e + (length w - plen) < m - 1")
    case True
    define b where "b = fold (\<lambda>i b. b(ecursor e + i := w ! (plen + i))) [0..<length w - plen] (buffer e)"
    have b: "b j = (if length l \<le> j \<and> j < length l + (length w - plen) then w ! (plen + (j - length l)) else buffer e j)" for j
      unfolding b_def using t by (simp add: copy_fold)
    have none: "rev [ecursor e + 1..<elen e + 1] = []" using t len by simp
    have "buffer_text (e\<lparr>buffer := b(elen e + (length w - plen) := CHR 0x00), elen := elen e + (length w - plen), ecursor := ecursor e + (length w - plen)\<rparr>) = l @ drop plen w"
      using at by (intro buffer_text_eqI) (auto simp: len b nth_append)
    then show ?thesis using True t len unfolding ed_complete_def Let_def none b_def [symmetric] fold_simps by (simp add: edits_def b_def)
  next
    case False
    then show ?thesis using t len by (simp add: ed_complete_def edits_def)
  qed
qed

lemma list_matches_edits: "edits m z e s \<Longrightarrow> edits m z (fst (list_matches ms e s)) (snd (list_matches ms e s))"
proof -
  have "history_pos (fold (\<lambda>m. on_term (terminal_putchar (CHR '' '') \<circ> terminal_writestring m)) ms t) = history_pos t" for t
    by (induction ms arbitrary: t) simp_all
  then show "edits m z e s \<Longrightarrow> edits m z (fst (list_matches ms e s)) (snd (list_matches ms e s))"
    by (auto simp: edits_def list_matches_def Let_def buffer_text_def terminal_get_cursor_def)
qed

lemma ed_tab_edits:
  assumes e: "edits m (l, r, p) e s" and z: "zip_tab m (fsc (sh_kfs s)) (l, r, p) = Some z"
  shows "\<exists>e' s'. ed_tab m e s = Some (e', s') \<and> edits m z e' s'"
proof -
  note t = e [unfolded edits_def prod.case]
  let ?w = "word_before l"
  have at: "buffer e i = l ! i" if "i < length l" for i using buffer_text_nth [of e "l @ r" i] t that by (simp add: nth_append)
  have tok: "token_start (buffer e) (ecursor e) = length l - length ?w" using token_start_word [of l "buffer e"] at t by simp
  have w: "l = take (length l - length ?w) l @ ?w" "length ?w \<le> length l"
    using word_before_suffix [of l] by (auto simp: word_before_def) (metis length_rev length_takeWhile_le)
  have plen: "(if length l - (length l - length ?w) \<ge> 64 then 63 else length l - (length l - length ?w)) = length (take 63 ?w)" using w(2) by auto
  have nth: "l ! (length l - length ?w + i) = ?w ! i" if "i < length ?w" for i
  proof -
    have "l ! (length l - length ?w + i) = (take (length l - length ?w) l @ ?w) ! (length l - length ?w + i)" using w(1) by metis
    also have "\<dots> = ?w ! i" using w(2) nth_append_length_plus [of "take (length l - length ?w) l" ?w i] by simp
    finally show ?thesis .
  qed
  have pre: "map (\<lambda>i. buffer e (length l - length ?w + i)) [0..<length (take 63 ?w)] = take 63 ?w"
    using w(2) nth by (intro nth_equalityI) (auto simp: at)
  have first: "(length l - length ?w = 0) = (?w = l)" using w by (metis append_self_conv2 diff_is_0_eq diff_self_eq_0 le_antisym order_refl take_0)
  define ms where "ms = matches (?w = l) (take 63 ?w) (fsc (sh_kfs s))"
  have short: "\<not> (length ms = 1 \<and> length (hd ms) < length (take 63 ?w))" using z by (auto simp: zip_tab_def Let_def ms_def [symmetric] split: if_splits)
  have run: "ed_tab m e s = Some (if length ms = 1 then ed_complete m (length (take 63 ?w)) (hd ms) (length l - length ?w) e s
      else if length ms > 1 then list_matches ms e s else (e, s))"
    unfolding ed_tab_def Let_def tok using t short by (simp only: plen pre first ms_def) auto
  have len: "elen e = length l + length r" using buffer_text_len [of e "l @ r"] t by simp
  show ?thesis
  proof (cases "length ms = 1")
    case True
    have plain: "\<not> length (hd ms) < length (take 63 ?w)" using short True by blast
    show ?thesis
    proof (cases "length l + length r + length (drop (length (take 63 ?w)) (hd ms)) < m - 1")
      case fits: True
      then have "r = []" "z = (l @ drop (length (take 63 ?w)) (hd ms), r, p)"
        using z True plain by (auto simp: zip_tab_def Let_def ms_def [symmetric] split: if_splits)
      then show ?thesis using ed_complete_edits [of m l p e s "length (take 63 ?w)" "hd ms" "length l - length ?w"] e fits True run by (cases "ed_complete m (length (take 63 ?w)) (hd ms) (length l - length ?w) e s") simp
    next
      case False
      then have "z = (l, r, p)" using z True plain by (auto simp: zip_tab_def Let_def ms_def [symmetric] split: if_splits)
      moreover have "ed_tab m e s = Some (e, s)" using False True len by (simp add: run ed_complete_def)
      ultimately show ?thesis using e by simp
    qed
  next
    case False
    then have "z = (l, r, p)" using z by (simp add: zip_tab_def Let_def ms_def [symmetric])
    then show ?thesis using False e list_matches_edits [OF e, of ms] by (cases "list_matches ms e s") (auto simp: run)
  qed
qed

lemma keys_distinct:
  "KEY_LEFT \<noteq> KEY_BACKSPACE" "KEY_RIGHT \<noteq> KEY_BACKSPACE" "KEY_UP \<noteq> KEY_BACKSPACE" "KEY_DOWN \<noteq> KEY_BACKSPACE" "CHR 0x09 \<noteq> KEY_BACKSPACE"
  "KEY_RIGHT \<noteq> KEY_LEFT" "KEY_UP \<noteq> KEY_LEFT" "KEY_DOWN \<noteq> KEY_LEFT" "CHR 0x09 \<noteq> KEY_LEFT"
  "KEY_UP \<noteq> KEY_RIGHT" "KEY_DOWN \<noteq> KEY_RIGHT" "CHR 0x09 \<noteq> KEY_RIGHT" "KEY_DOWN \<noteq> KEY_UP" "CHR 0x09 \<noteq> KEY_UP" "CHR 0x09 \<noteq> KEY_DOWN"
  by (simp_all add: KEY_BACKSPACE_def KEY_LEFT_def KEY_RIGHT_def KEY_UP_def KEY_DOWN_def)

lemma ed_key_edits:
  assumes e: "edits m z e s" and k: "zip_key m (history s) (history_count s) (fsc (sh_kfs s)) k z = Some z'"
  shows "\<exists>e' s'. ed_key m k e s = Some (e', s') \<and> edits m z' e' s'"
proof -
  obtain l r p where z: "z = (l, r, p)" by (cases z)
  have len: "elen e = length l + length r" using buffer_text_len [of e "l @ r"] e by (simp add: edits_def z)
  have lr: "edits m (l, r, p) e s" using e by (simp add: z)
  consider "k = KEY_BACKSPACE" | "k = KEY_LEFT" | "k = KEY_RIGHT" | "k = KEY_UP" | "k = KEY_DOWN" | "k = CHR 0x09"
    | (other) "k \<noteq> KEY_BACKSPACE" "k \<noteq> KEY_LEFT" "k \<noteq> KEY_RIGHT" "k \<noteq> KEY_UP" "k \<noteq> KEY_DOWN" "k \<noteq> CHR 0x09" by blast
  then show ?thesis
  proof cases
    case 1
    then show ?thesis using k ed_backspace_edits [OF lr] by (cases "ed_backspace e s") (simp add: ed_key_def zip_key_def z)
  next
    case 2
    then show ?thesis using k ed_left_edits [OF lr] by (cases "ed_left e s") (simp add: ed_key_def zip_key_def z keys_distinct)
  next
    case 3
    then show ?thesis using k ed_right_edits [OF lr] by (cases "ed_right e s") (simp add: ed_key_def zip_key_def z keys_distinct)
  next
    case 4
    then show ?thesis using k ed_up_edits [OF lr] by (cases "ed_up m e s") (simp add: ed_key_def zip_key_def z keys_distinct)
  next
    case 5
    then show ?thesis using k ed_down_edits [OF lr] by (cases "ed_down m e s") (simp add: ed_key_def zip_key_def z keys_distinct)
  next
    case 6
    then show ?thesis using k ed_tab_edits [OF lr] by (simp add: ed_key_def zip_key_def z keys_distinct)
  next
    case other
    then show ?thesis using k e ed_insert_edits [OF lr, of k]
      by (cases "ed_insert k e s"; cases "printable k \<and> elen e < m - 1") (auto simp: ed_key_def zip_key_def z len)
  qed
qed

text \<open>What is kept of the shell.\<close>

lemma same_shell_refl: "same_shell s s"
  by (simp add: same_shell_def)

lemma same_shell_trans: "same_shell s t \<Longrightarrow> same_shell t u \<Longrightarrow> same_shell s u"
  by (simp add: same_shell_def)

lemma same_shell_term: "keeps_screen f \<Longrightarrow> same_shell s t \<Longrightarrow> same_shell s (on_term f t)"
  by (simp add: same_shell_def on_term_def keeps_screen_def)

lemma same_shell_pos: "same_shell s t \<Longrightarrow> same_shell s (t\<lparr>history_pos := p\<rparr>)"
  by (simp add: same_shell_def)

lemma keeps_fold: "(\<And>i. keeps_screen (f i)) \<Longrightarrow> keeps_screen (fold f is)"
proof (induction "is")
  case (Cons i "is")
  then show ?case using keeps_screen_comp [of "f i" "fold f is"] by (simp add: comp_def)
qed (simp add: keeps_screen_def)

lemma put_range_keeps: "keeps_screen (put_range b i j)"
  unfolding put_range_def by (intro keeps_fold terminal_putchar_keeps)

lemma move_keeps: "keeps_screen (terminal_move_left n)" "keeps_screen (terminal_move_right n)"
  using keeps_screen_comp [OF move_left_loop_keeps update_cursor_keeps] keeps_screen_comp [OF move_right_loop_keeps update_cursor_keeps]
  by (simp_all add: terminal_move_left_def [abs_def] terminal_move_right_def [abs_def])

lemma comp_keeps: "keeps_screen f \<Longrightarrow> keeps_screen g \<Longrightarrow> keeps_screen (g \<circ> f)"
  using keeps_screen_comp by (simp add: comp_def)

lemmas same_shell_intros = same_shell_refl same_shell_term same_shell_pos terminal_putchar_keeps terminal_writestring_keeps terminal_set_cursor_keeps
  put_range_keeps move_keeps comp_keeps keeps_fold

lemma blank_line_same: "same_shell s t \<Longrightarrow> same_shell s (blank_line e t)"
  unfolding blank_line_def Let_def by (intro same_shell_intros)

lemma show_history_same: "same_shell s t \<Longrightarrow> same_shell s (snd (show_history m e t))"
  unfolding show_history_def Let_def snd_conv by (intro same_shell_intros)

lemma list_matches_same: "same_shell s (snd (list_matches ms e s))"
proof -
  have "same_shell s (fold (\<lambda>m. on_term (terminal_putchar (CHR '' '') \<circ> terminal_writestring m)) ms t)" if "same_shell s t" for t
    using that
  proof (induction ms arbitrary: t)
    case (Cons m ms)
    show ?case unfolding fold_simps by (rule Cons.IH [OF same_shell_term [OF comp_keeps [OF terminal_writestring_keeps terminal_putchar_keeps] Cons.prems]])
  qed simp
  then show ?thesis
    by (auto simp: list_matches_def Let_def terminal_get_cursor_def intro!: same_shell_term terminal_set_cursor_keeps terminal_writestring_keeps
      terminal_putchar_keeps comp_keeps same_shell_refl)
qed

lemma ed_key_same: "ed_key m k e s = Some (e', s') \<Longrightarrow> same_shell s s'"
proof -
  have "same_shell s (snd (ed_backspace e s))" "same_shell s (snd (ed_insert k e s))" "same_shell s (snd (ed_complete m n w tok e s))" for n w tok
    unfolding ed_backspace_def ed_insert_def ed_complete_def Let_def
    by (auto intro!: same_shell_term same_shell_refl terminal_set_cursor_keeps put_range_keeps comp_keeps terminal_putchar_keeps)
  moreover have "same_shell s (snd (ed_left e s))" "same_shell s (snd (ed_right e s))"
    unfolding ed_left_def ed_right_def by (auto intro!: same_shell_term same_shell_refl move_keeps)
  moreover have "same_shell s (snd (ed_up m e s))" "same_shell s (snd (ed_down m e s))"
    unfolding ed_up_def ed_down_def Let_def
    by (auto intro!: show_history_same blank_line_same same_shell_pos same_shell_refl)
  moreover assume "ed_key m k e s = Some (e', s')"
  ultimately show ?thesis using list_matches_same [of s _ e]
    by (simp add: ed_key_def ed_tab_def Let_def split: if_splits) (metis snd_conv same_shell_refl)+
qed

section \<open>Properties\<close>



end
