(* ===== verification/Shell.thy ===== *)
theory Shell
  imports Shell_Edit Calc
begin

text \<open>
  The commands of the shell (\<open>src/src/shell.c\<close>) that work on the RAM file system, the heap, the history, the calculator and the screen, and the loop that
  reads and executes them. Commands that other components serve (programs, FAT32 volumes, scripts, games, devices) are recognised by not being in this
  list: the dispatcher answers \<open>Elsewhere\<close> for them. The properties: what a failing command reports, and that no input breaks the shell.
\<close>

section \<open>Arguments\<close>

fun str_equals :: "cstring \<Rightarrow> cstring \<Rightarrow> bool" where
  "str_equals (a # as) (b # bs) = (a = b \<and> str_equals as bs)"
| "str_equals [] [] = True"
| "str_equals _ _ = False"

fun str_starts_with :: "cstring \<Rightarrow> cstring \<Rightarrow> bool" where
  "str_starts_with s [] = True"
| "str_starts_with [] (p # ps) = False"
| "str_starts_with (c # cs) (p # ps) = (c = p \<and> str_starts_with cs ps)"

definition skip_blanks :: "cstring \<Rightarrow> cstring" where
  "skip_blanks = dropWhile (\<lambda>c. c = CHR '' '')"

definition split_name_and_rest :: "cstring \<Rightarrow> nat \<Rightarrow> (cstring \<times> cstring) option" where
  "split_name_and_rest args name_out_size =
     (let name = take (name_out_size - 1) (takeWhile (\<lambda>c. c \<noteq> CHR '' '') args)
      in if name = [] then None else Some (name, skip_blanks (drop (length name) args)))"

definition split_two_names :: "cstring \<Rightarrow> nat \<Rightarrow> nat \<Rightarrow> (cstring \<times> cstring) option" where
  "split_two_names args asz bsz =
     (case split_name_and_rest args asz of
        None \<Rightarrow> None
      | Some (a, rest) \<Rightarrow>
          let b = take (bsz - 1) (takeWhile (\<lambda>c. c \<noteq> CHR '' '') rest) in if b = [] then None else Some (a, b))"

section \<open>Commands\<close>

definition sh_say :: "cstring \<Rightarrow> shell \<Rightarrow> shell" where
  "sh_say str = on_term (terminal_writestring str)"

definition nl :: "cstring" where
  "nl = [CHR 0x0A]"

definition print_fs_error :: "fs_result \<Rightarrow> shell \<Rightarrow> shell" where
  "print_fs_error r s = sh_say nl (sh_say (fs_strerror r) (sh_say ''Error: '' s))"

text \<open>An operation of the file system whose failure is reported.\<close>

definition fs_command :: "(kfs \<Rightarrow> (fs_result \<times> kfs) option) \<Rightarrow> shell \<Rightarrow> shell option" where
  "fs_command f s =
     (case f (sh_kfs s) of
        None \<Rightarrow> None
      | Some (r, k) \<Rightarrow> let s = s\<lparr>sh_kfs := k\<rparr> in Some (if r \<noteq> FS_OK then print_fs_error r s else s))"

definition cmd_help :: "shell \<Rightarrow> shell" where
  "cmd_help = fold (\<lambda>t. sh_say (t @ nl))
     [''System: help clear echo about uname whoami free history'',
      ''        reboot shutdown calc <expr>'',
      ''RAM FS: ls pwd cd mkdir touch cat write append cp mv'',
      ''        rm <name> | rm -r <dir>   recursive delete'',
      ''VFS:    mount [fat|ram] <path> | umount <path> | mount'',
      ''FAT32:  fatmount fatinfo fatls fatcat fatwrite fatmkdir fatrm'',
      ''Net:    ping <host>   (loopback 127.0.0.1)'',
      ''Disk:   fdisk gpt mkfs install  |  boot: make disk.img'',
      ''Lang:   lang | lang <file>'',
      ''Tasks:  ps spawn'',
      ''Games:  snake pong beep [freq|err|coin]'',
      ''GUI:    desktop'',
      ''PCI:    lspci beep97 [freq]'',
      ''Programs: exec <name>   (example: exec hello)'',
      ''Config: settings vbetest'']"

definition cmd_calc :: "cstring \<Rightarrow> shell \<Rightarrow> shell option" where
  "cmd_calc expr s =
     (if expr = [] then Some (sh_say (''Usage: calc <expr>'' @ nl) s)
      else case calc_eval expr of
        None \<Rightarrow> None
      | Some (result, error) \<Rightarrow>
          Some (if error then sh_say (''Error in expression'' @ nl) s else sh_say nl (on_term (terminal_write_int result) s)))"

definition cmd_uname :: "shell \<Rightarrow> shell" where "cmd_uname = sh_say (''MyKernel i686 GNU/MyKernel'' @ nl)"
definition cmd_whoami :: "shell \<Rightarrow> shell" where "cmd_whoami = sh_say (''root'' @ nl)"

definition cmd_free :: "shell \<Rightarrow> shell option" where
  "cmd_free s =
     (case kmalloc_stats (sh_heap s) of
        None \<Rightarrow> None
      | Some (used, total_bytes, freeb) \<Rightarrow>
          let s = on_term (terminal_write_uint (of_nat used)) (sh_say ''Kernel heap: used='' s);
              s = on_term (terminal_write_uint (of_nat freeb)) (sh_say '' free='' s);
              s = on_term (terminal_write_uint (of_nat total_bytes)) (sh_say '' total='' s)
          in Some (sh_say nl s))"

definition cmd_history_list :: "shell \<Rightarrow> shell" where
  "cmd_history_list s =
     (if history_count s = 0 then sh_say (''(no history)'' @ nl) s
      else fold (\<lambda>i s. sh_say nl (sh_say (history s ! i) (sh_say ''  '' (on_term (terminal_write_uint (of_nat (history_count s - i))) s))))
             (rev [0..<history_count s]) s)"

definition cmd_pwd :: "shell \<Rightarrow> shell" where
  "cmd_pwd s = sh_say nl (sh_say (fs_pwd 128 (fsc (sh_kfs s))) s)"

definition cmd_cd :: "cstring \<Rightarrow> shell \<Rightarrow> shell option" where
  "cmd_cd arg s = (if arg = [] then Some (sh_say (''Usage: cd <dir>'' @ nl) s) else fs_command (fs_cd arg) s)"

definition cmd_mkdir :: "cstring \<Rightarrow> shell \<Rightarrow> shell option" where
  "cmd_mkdir arg s = (if arg = [] then Some (sh_say (''Usage: mkdir <name>'' @ nl) s) else fs_command (fs_mkdir arg) s)"

definition cmd_touch :: "cstring \<Rightarrow> shell \<Rightarrow> shell option" where
  "cmd_touch arg s = (if arg = [] then Some (sh_say (''Usage: touch <name>'' @ nl) s) else fs_command (fs_touch arg) s)"

lemma skip_blanks_shorter: "length (skip_blanks xs) \<le> length xs"
  by (simp add: skip_blanks_def length_dropWhile_le)

text \<open>The options of \<open>rm\<close>: whether it is recursive and the rest of the argument, or none when an option is not known.\<close>

function rm_options :: "bool \<Rightarrow> cstring \<Rightarrow> (bool \<times> cstring) option" where
  "rm_options recursive arg =
     (if arg \<noteq> [] \<and> hd arg = CHR ''-''
      then (if length arg > 1 \<and> (arg ! 1 = CHR ''r'' \<or> arg ! 1 = CHR ''R'')
            then let arg = drop 2 arg; arg = (if arg \<noteq> [] \<and> (hd arg = CHR ''f'' \<or> hd arg = CHR ''F'') then tl arg else arg)
                 in rm_options True (skip_blanks arg)
            else None)
      else Some (recursive, arg))"
  by pat_completeness auto

termination
proof (relation "measure (\<lambda>(r, arg). length arg)")
  show "wf (measure (\<lambda>(r :: bool, arg :: cstring). length arg))" by simp
next
  fix recursive :: bool and arg x xa :: cstring
  assume h: "arg \<noteq> [] \<and> hd arg = CHR ''-''" "x = drop 2 arg" "xa = (if x \<noteq> [] \<and> (hd x = CHR ''f'' \<or> hd x = CHR ''F'') then tl x else x)"
  have "length xa \<le> length x" by (simp add: h(3))
  moreover have "length x < length arg" using h(1) by (cases arg) (auto simp: h(2))
  ultimately show "((True, skip_blanks xa), recursive, arg) \<in> measure (\<lambda>(r, arg). length arg)" using skip_blanks_shorter [of xa] by simp
qed

declare rm_options.simps [simp del]

definition cmd_rm :: "cstring \<Rightarrow> shell \<Rightarrow> shell option" where
  "cmd_rm arg s =
     (case rm_options False arg of
        None \<Rightarrow> Some (sh_say (''Usage: rm [-r|-rf] <name>'' @ nl) s)
      | Some (recursive, arg) \<Rightarrow>
          if arg = [] then Some (sh_say (''Usage: rm [-r|-rf] <name>'' @ nl) s)
          else fs_command (if recursive then fs_rm_rf arg else fs_rm arg) s)"

definition cmd_cat :: "cstring \<Rightarrow> shell \<Rightarrow> shell" where
  "cmd_cat arg s =
     (if arg = [] then sh_say (''Usage: cat <file>'' @ nl) s
      else case fs_read arg (fsc (sh_kfs s)) of
        (r, None) \<Rightarrow> print_fs_error r s
      | (r, Some (idx, _)) \<Rightarrow>
          if r \<noteq> FS_OK then print_fs_error r s
          else sh_say nl (sh_say (takeWhile (\<lambda>c. c \<noteq> CHR 0x00) (content (nodes (fsc (sh_kfs s)) ! idx))) s))"

definition cmd_write :: "cstring \<Rightarrow> shell \<Rightarrow> shell option" where
  "cmd_write args s =
     (case split_name_and_rest args FS_NAME_MAX of
        None \<Rightarrow> Some (sh_say (''Usage: write <file> <text>'' @ nl) s)
      | Some (name, txt') \<Rightarrow> fs_command (fs_write name txt') s)"

definition cmd_append :: "cstring \<Rightarrow> shell \<Rightarrow> shell option" where
  "cmd_append args s =
     (case split_name_and_rest args FS_NAME_MAX of
        None \<Rightarrow> Some (sh_say (''Usage: append <file> <text>'' @ nl) s)
      | Some (name, txt') \<Rightarrow> fs_command (fs_append name txt') s)"

definition cmd_cp :: "cstring \<Rightarrow> shell \<Rightarrow> shell option" where
  "cmd_cp args s =
     (case split_two_names args FS_NAME_MAX FS_NAME_MAX of
        None \<Rightarrow> Some (sh_say (''Usage: cp <src> <dst>'' @ nl) s)
      | Some (src, dst) \<Rightarrow> fs_command (fs_cp src dst) s)"

definition cmd_mv :: "cstring \<Rightarrow> shell \<Rightarrow> shell option" where
  "cmd_mv args s =
     (case split_two_names args FS_NAME_MAX FS_NAME_MAX of
        None \<Rightarrow> Some (sh_say (''Usage: mv <src> <dst>'' @ nl) s)
      | Some (src, dst) \<Rightarrow> fs_command (fs_mv src dst) s)"

section \<open>The dispatcher\<close>

datatype outcome_of_line = Fault | Elsewhere | Done shell

definition done_with :: "shell option \<Rightarrow> outcome_of_line" where
  "done_with r = (case r of None \<Rightarrow> Fault | Some s \<Rightarrow> Done s)"

text \<open>The names of the commands that other components serve: whole lines, and beginnings of lines.\<close>

definition other_commands :: "cstring list" where
  "other_commands =
     [''reboot'', ''shutdown'', ''run'', ''exec'', ''fatmount'', ''fatinfo'', ''fatls'', ''fatcat'', ''fatwrite'', ''lang'', ''ps'', ''spawn'', ''snake'', ''pong'',
      ''beep'', ''lspci'', ''beep97'', ''settings'', ''vbetest'', ''mount'', ''umount'', ''install'', ''fdisk'', ''gpt'', ''mkfs'', ''ping'', ''desktop'']"

definition other_prefixes :: "cstring list" where
  "other_prefixes =
     [''run '', ''exec '', ''fatls '', ''fatcat '', ''fatwrite '', ''lang '', ''beep '', ''beep97 '', ''mount '', ''umount '', ''fatmkdir '', ''fatrm '', ''ping '']"

definition execute_command :: "cstring \<Rightarrow> shell \<Rightarrow> outcome_of_line" where
  "execute_command ln s =
     (if ln = [] then Done s
      else if str_equals ln ''help'' then Done (cmd_help s)
      else if str_equals ln ''clear'' then Done (on_term terminal_initialize s)
      else if str_equals ln ''about'' then Done (sh_say (''MyKernel -- gfx + VBE + settings + snake + pong'' @ nl) s)
      else if str_equals ln ''uname'' then Done (cmd_uname s)
      else if str_equals ln ''whoami'' then Done (cmd_whoami s)
      else if str_equals ln ''free'' then done_with (cmd_free s)
      else if str_equals ln ''history'' then Done (cmd_history_list s)
      else if str_starts_with ln ''echo '' then Done (sh_say nl (sh_say (drop 5 ln) s))
      else if str_equals ln ''echo'' then Done (sh_say nl s)
      else if str_starts_with ln ''calc '' then done_with (cmd_calc (drop 5 ln) s)
      else if str_equals ln ''calc'' then done_with (cmd_calc [] s)
      else if str_equals ln ''ls'' then Done (on_term (fs_ls (fsc (sh_kfs s))) s)
      else if str_equals ln ''pwd'' then Done (cmd_pwd s)
      else if str_starts_with ln ''cd '' then done_with (cmd_cd (drop 3 ln) s)
      else if str_equals ln ''cd'' then done_with (cmd_cd [] s)
      else if str_starts_with ln ''mkdir '' then done_with (cmd_mkdir (drop 6 ln) s)
      else if str_starts_with ln ''touch '' then done_with (cmd_touch (drop 6 ln) s)
      else if str_starts_with ln ''rm '' then done_with (cmd_rm (drop 3 ln) s)
      else if str_starts_with ln ''cat '' then Done (cmd_cat (drop 4 ln) s)
      else if str_starts_with ln ''write '' then done_with (cmd_write (drop 6 ln) s)
      else if str_starts_with ln ''append '' then done_with (cmd_append (drop 7 ln) s)
      else if str_starts_with ln ''cp '' then done_with (cmd_cp (drop 3 ln) s)
      else if str_starts_with ln ''mv '' then done_with (cmd_mv (drop 3 ln) s)
      else if list_ex (str_equals ln) other_commands \<or> list_ex (str_starts_with ln) other_prefixes then Elsewhere
      else Done (sh_say (nl @ ''Type '' @ [CHR 0x27] @ ''help'' @ [CHR 0x27] @ nl) (sh_say ln (sh_say ''Unknown command: '' s))))"

text \<open>One turn of the loop of \<open>shell_run\<close>: the prompt, a line, the history, the command. Without a whole line the shell waits.\<close>

definition shell_turn :: "(nat \<Rightarrow> char) \<Rightarrow> string \<Rightarrow> shell \<Rightarrow> (cstring \<times> string) option \<times> outcome_of_line" where
  "shell_turn b keys s =
     (let s = sh_say ''> '' (sh_say (fs_pwd 128 (fsc (sh_kfs s))) s)
      in case read_line CMD_BUFFER_SIZE b keys s of
           None \<Rightarrow> (None, Fault)
         | Some (None, e, s) \<Rightarrow> (None, Done s)
         | Some (Some (ln, rest), e, s) \<Rightarrow> (Some (ln, rest), execute_command ln (history_add ln s)))"

section \<open>A failed operation changes nothing\<close>

lemma touch_body_finds:
  assumes "fs_inv c" "fs_touch_body n c = (FS_OK, c')"
  shows "\<exists>i. fs_find_child c' (cwd c') n = Some i \<and> node_type (nodes c' ! i) = FS_TYPE_FILE"
proof -
  obtain j where j: "fs_find_child c' (cwd c') n = Some j" using touch_bytes [OF assms] by blast
  obtain i where i: "fs_alloc_node c = Some i" "fs_find_child c (cwd c) n = None"
    and c': "c' = upd_node i (\<lambda>nd. nd\<lparr>node_type := FS_TYPE_FILE, node_name := k_strcpy_truncate n FS_NAME_MAX, parent := Some (cwd c),
      content_len := 0, content := blit NUL (content nd) 0 [NUL]\<rparr>) c"
    using assms(2) by (auto simp: fs_touch_body_def split: if_splits option.splits)
  have "fs_inv c'" using fs_touch_body_inv [OF assms(1), of n] assms(2) by simp
  then have l: "live c' j" "parent (nodes c' ! j) = Some (cwd c')" "node_name (nodes c' ! j) = n" using j find_child_Some by blast+
  have "j = i"
  proof (rule ccontr)
    assume "j \<noteq> i"
    then have "nodes c' ! j = nodes c ! j" "cwd c' = cwd c" by (simp_all add: c' upd_node_set)
    then have "fs_find_child c (cwd c) n = Some j" using l find_child_Some [OF assms(1), of "cwd c" n j] by (simp add: live_def)
    then show False using i(2) by simp
  qed
  moreover have "nodes c' ! i = (nodes c ! i)\<lparr>node_type := FS_TYPE_FILE, node_name := k_strcpy_truncate n FS_NAME_MAX, parent := Some (cwd c),
      content_len := 0, content := blit NUL (content (nodes c ! i)) 0 [NUL]\<rparr>"
    using alloc_Some [OF i(1)] fs_inv_len [OF assms(1)] by (simp add: c' upd_node_set)
  ultimately show ?thesis using j by simp
qed

lemma write_spec_fails:
  assumes "fs_inv c" "write_spec n store c = (r, c')" "r \<noteq> FS_OK"
    and "\<And>i c. fst (store (Some i) c) \<noteq> FS_OK \<Longrightarrow> snd (store (Some i) c) = c"
    and "\<And>i c. node_type (nodes c ! i) = FS_TYPE_FILE \<Longrightarrow> fst (store (Some i) c) = FS_OK"
  shows "c' = c"
proof (cases "fs_find_child c (cwd c) n")
  case None
  show ?thesis
  proof (cases "fst (fs_touch_body n c) = FS_OK")
    case True
    then obtain c1 where t: "fs_touch_body n c = (FS_OK, c1)" by (metis prod.collapse)
    then obtain i where "fs_find_child c1 (cwd c1) n = Some i" "node_type (nodes c1 ! i) = FS_TYPE_FILE" using touch_body_finds [OF assms(1)] by blast
    then have "fst (write_spec n store c) = FS_OK" using None t assms(5) by (simp add: write_spec_def)
    then show ?thesis using assms(2,3) by simp
  next
    case False
    then show ?thesis using assms(2) None by (auto simp: write_spec_def fs_touch_body_def split: if_splits option.splits)
  qed
next
  case (Some i)
  then show ?thesis using assms(2,3) assms(4) [of i c] by (simp add: write_spec_def)
qed

lemma run_op_fails:
  assumes "kfs_ok s" "run_op x s = Some (r, s')" "r \<noteq> FS_OK"
  shows "fsc s' = fsc s"
proof -
  have l: "lk_ok (lk s)" and inv: "fs_inv (fsc s)" using assms(1) by (auto simp: kfs_ok_def)
  have crit: "f (fsc s) = Some (r, fsc s')" if "critical f s = Some (r, s')" for f :: "ramfs \<Rightarrow> (fs_result \<times> ramfs) option"
    using that by (auto simp: critical_def split: bind_splits)
  have w: "fsc s' = fsc s" if "fs_write_bin n d s = Some (r, s')" for n d
  proof -
    have "write_bin_spec n d (fsc s) = (r, fsc s')" using atomic_effectD [OF fs_write_bin_atomic [OF l, of n d, unfolded that]] by simp
    then have h: "(if length d \<ge> FS_FILE_MAX then (FS_ERR_TOO_BIG, fsc s) else write_spec n (\<lambda>i. fs_store i d) (fsc s)) = (r, fsc s')"
      by (simp only: write_bin_spec_def)
    show ?thesis
    proof (cases "length d \<ge> FS_FILE_MAX")
      case False
      then have "write_spec n (\<lambda>i. fs_store i d) (fsc s) = (r, fsc s')" using h by (simp only: if_False)
      then show ?thesis using assms(3) by (rule write_spec_fails [OF inv]) (simp_all add: fs_store_def split: if_splits)
    qed (use h in simp)
  qed
  have a: "fsc s' = fsc s" if "fs_append n d s = Some (r, s')" for n d
  proof -
    have "append_spec n d (fsc s) = (r, fsc s')" using atomic_effectD [OF fs_append_atomic [OF l, of n d, unfolded that]] by simp
    then show ?thesis unfolding append_spec_def using assms(3)
      by (rule write_spec_fails [OF inv]) (simp_all add: fs_append_at_def split: if_splits)
  qed
  have sub: "fs_rm_subtree i c = Some (r, c') \<Longrightarrow> c' = c" for i c c'
    using assms(3) by (auto simp: fs_rm_subtree_def split: if_splits option.splits bind_splits)
  have run: "run_op x s = Some (r, s')" by (rule assms(2))
  show ?thesis
  proof (cases x)
    case (Mkdir n)
    then show ?thesis using run assms(3) crit [of "\<lambda>c. Some (fs_mkdir_body n c)"] by (auto simp: fs_mkdir_def fs_mkdir_body_def split: if_splits option.splits)
  next
    case (Touch n)
    then show ?thesis using run assms(3) crit [of "\<lambda>c. Some (fs_touch_body n c)"] by (auto simp: fs_touch_def fs_touch_body_def split: if_splits option.splits)
  next
    case (Cd n)
    then show ?thesis using run assms(3) crit [of "\<lambda>c. Some (fs_cd_body n c)"] by (auto simp: fs_cd_def fs_cd_body_def split: if_splits option.splits)
  next
    case (Rm n)
    then show ?thesis using run assms(3) crit [of "fs_rm_body n"] by (auto simp: fs_rm_def fs_rm_body_def dest!: sub split: if_splits option.splits)
  next
    case (Rm_rf n)
    then show ?thesis using run assms(3) crit [of "fs_rm_rf_body n"] by (auto simp: fs_rm_rf_def fs_rm_rf_body_def dest!: sub split: if_splits option.splits)
  next
    case (Cp n m)
    then show ?thesis using run assms(3) crit [of "\<lambda>c. Some (fs_cp_body n m c)"] by (auto simp: fs_cp_def fs_cp_body_def Let_def split: if_splits option.splits)
  next
    case (Mv n m)
    then show ?thesis using run assms(3) crit [of "\<lambda>c. Some (fs_mv_body n m c)"] by (auto simp: fs_mv_def fs_mv_body_def split: if_splits option.splits)
  qed (use run a w in simp_all)
qed

section \<open>The line of an operation\<close>

definition word :: "cstring \<Rightarrow> bool" where
  "word n \<longleftrightarrow> n \<noteq> [] \<and> CHR '' '' \<notin> set n \<and> length n < FS_NAME_MAX"

definition no_blank_first :: "cstring \<Rightarrow> bool" where
  "no_blank_first t \<longleftrightarrow> (case t of [] \<Rightarrow> True | c # _ \<Rightarrow> c \<noteq> CHR '' '')"

fun line_of :: "fs_op \<Rightarrow> cstring" where
  "line_of (Mkdir n) = ''mkdir '' @ n"
| "line_of (Touch n) = ''touch '' @ n"
| "line_of (Cd n) = ''cd '' @ n"
| "line_of (Rm n) = ''rm '' @ n"
| "line_of (Rm_rf n) = ''rm -r '' @ n"
| "line_of (Cp a b) = ''cp '' @ a @ '' '' @ b"
| "line_of (Mv a b) = ''mv '' @ a @ '' '' @ b"
| "line_of (Write_bin n d) = ''write '' @ n @ '' '' @ d"
| "line_of (Append n d) = ''append '' @ n @ '' '' @ d"

text \<open>The operations that a line can express: names of several words for the commands of one name, single words for those of two.\<close>

fun typeable :: "fs_op \<Rightarrow> bool" where
  "typeable (Mkdir n) = (n \<noteq> [])"
| "typeable (Touch n) = (n \<noteq> [])"
| "typeable (Cd n) = (n \<noteq> [])"
| "typeable (Rm n) = (n \<noteq> [] \<and> hd n \<noteq> CHR ''-'')"
| "typeable (Rm_rf n) = (n \<noteq> [] \<and> hd n \<noteq> CHR ''-'' \<and> hd n \<noteq> CHR '' '')"
| "typeable (Cp a b) = (word a \<and> word b)"
| "typeable (Mv a b) = (word a \<and> word b)"
| "typeable (Write_bin n d) = (word n \<and> no_blank_first d)"
| "typeable (Append n d) = (word n \<and> no_blank_first d)"

lemma str_equals_eq [simp]: "str_equals a b \<longleftrightarrow> a = b"
  by (induction a b rule: str_equals.induct) auto

lemma str_starts_with_iff: "str_starts_with s p \<longleftrightarrow> (\<exists>r. s = p @ r)"
  by (induction s p rule: str_starts_with.induct) auto

lemma takeWhile_word: "CHR '' '' \<notin> set n \<Longrightarrow> takeWhile (\<lambda>c. c \<noteq> CHR '' '') (n @ CHR '' '' # d) = n"
  "CHR '' '' \<notin> set n \<Longrightarrow> takeWhile (\<lambda>c. c \<noteq> CHR '' '') n = n"
  by (induction n) auto

lemma word_short: "word n \<Longrightarrow> length n \<le> FS_NAME_MAX - 1"
  by (auto simp: word_def)

lemma split_name_word:
  assumes "word n" "no_blank_first d"
  shows "split_name_and_rest (n @ '' '' @ d) FS_NAME_MAX = Some (n, d)"
proof -
  have "takeWhile (\<lambda>c. c \<noteq> CHR '' '') (n @ '' '' @ d) = n" using assms(1) by (simp add: word_def takeWhile_word)
  moreover have "skip_blanks (CHR '' '' # d) = d" using assms(2) by (cases d) (auto simp: skip_blanks_def no_blank_first_def)
  moreover have "take (FS_NAME_MAX - 1) n = n" using word_short [OF assms(1)] by simp
  ultimately show ?thesis using assms(1) unfolding split_name_and_rest_def Let_def by (simp add: word_def)
qed

lemma split_two_words:
  assumes "word a" "word b"
  shows "split_two_names (a @ '' '' @ b) FS_NAME_MAX FS_NAME_MAX = Some (a, b)"
proof -
  have "no_blank_first b" using assms(2) by (cases b) (auto simp: word_def no_blank_first_def)
  moreover have "takeWhile (\<lambda>c. c \<noteq> CHR '' '') b = b" using assms(2) takeWhile_word(2) [of b] by (simp add: word_def)
  moreover have "take (FS_NAME_MAX - 1) b = b" using word_short [OF assms(2)] by simp
  ultimately have "take (FS_NAME_MAX - 1) (takeWhile (\<lambda>c. c \<noteq> CHR '' '') b) = b" "split_name_and_rest (a @ '' '' @ b) FS_NAME_MAX = Some (a, b)"
    using split_name_word [OF assms(1), of b] by (simp_all only:)
  then show ?thesis using assms(2) unfolding split_two_names_def Let_def by (simp only: option.case prod.case if_False word_def)
qed

lemma rm_options_plain: "n \<noteq> [] \<Longrightarrow> hd n \<noteq> CHR ''-'' \<Longrightarrow> rm_options b n = Some (b, n)"
  by (subst rm_options.simps) simp

lemma rm_options_recursive: "n \<noteq> [] \<Longrightarrow> hd n \<noteq> CHR ''-'' \<Longrightarrow> hd n \<noteq> CHR '' '' \<Longrightarrow> rm_options b (''-r '' @ n) = Some (True, n)"
  using rm_options_plain [of n True] by (subst rm_options.simps) (cases n, auto simp: skip_blanks_def)

lemma line_runs_op: "typeable x \<Longrightarrow> execute_command (line_of x) s = done_with (fs_command (run_op x) s)"
  by (cases x) (simp_all add: execute_command_def cmd_mkdir_def cmd_touch_def cmd_cd_def cmd_rm_def cmd_cp_def cmd_mv_def cmd_write_def cmd_append_def
      rm_options_plain rm_options_recursive rm_options_recursive [simplified] split_name_word [simplified] split_two_words [simplified] fs_write_def)

section \<open>No line breaks the shell\<close>

definition shell_ok :: "shell \<Rightarrow> bool" where
  "shell_ok s \<longleftrightarrow> kfs_ok (sh_kfs s) \<and> kheap_inv (sh_heap s) \<and> terminal_ok (sh_term s) \<and> length (history s) = HISTORY_SIZE \<and> history_count s \<le> HISTORY_SIZE"

text \<open>What a command keeps: nothing but the file system and the screen changes.\<close>

definition served :: "shell \<Rightarrow> shell \<Rightarrow> bool" where
  "served s t \<longleftrightarrow> shell_ok t \<and> history t = history s \<and> history_count t = history_count s \<and> sh_heap t = sh_heap s"

lemma served_refl: "shell_ok s \<Longrightarrow> served s s"
  by (simp add: served_def)

lemma served_term: "keeps_screen f \<Longrightarrow> served s t \<Longrightarrow> served s (on_term f t)"
  by (auto simp: served_def shell_ok_def on_term_def keeps_screen_def)

lemma served_sh_say: "served s t \<Longrightarrow> served s (sh_say x t)"
  unfolding sh_say_def by (rule served_term [OF terminal_writestring_keeps])

lemma served_fold: "(\<And>i t. served s t \<Longrightarrow> served s (f i t)) \<Longrightarrow> served s t \<Longrightarrow> served s (fold f is t)"
  by (induction "is" arbitrary: t) auto

lemma served_error: "served s t \<Longrightarrow> served s (print_fs_error r t)"
  unfolding print_fs_error_def by (intro served_sh_say)

lemma write_number_keeps: "keeps_screen (terminal_write_uint n)" "keeps_screen (terminal_write_int n)"
  unfolding terminal_write_uint_def terminal_write_int_def by (rule terminal_writestring_keeps)+

lemma fs_ls_keeps: "keeps_screen (fs_ls c)"
proof (cases "cwd_entries c = []")
  case True
  then have "fs_ls c = terminal_writestring (''  (empty)'' @ [CHR 0x0A])" by (intro ext) (simp add: fs_ls_def)
  then show ?thesis by (simp only: terminal_writestring_keeps)
next
  case False
  then show ?thesis using keeps_fold [OF terminal_writestring_keeps, of "\<lambda>i. ls_line (nodes c ! i)" "cwd_entries c"] by (simp add: fs_ls_def [abs_def])
qed

lemma terminal_initialize_served: "shell_ok s \<Longrightarrow> served s (on_term terminal_initialize s)"
  using terminal_initialize_ok [of "sh_term s"] by (simp add: served_def shell_ok_def on_term_def terminal_ok_def)

lemma fs_command_served:
  assumes "shell_ok s"
  shows "\<exists>t. fs_command (run_op x) s = Some t \<and> served s t"
proof -
  obtain r k where k: "run_op x (sh_kfs s) = Some (r, k)" "kfs_ok k" using run_op_ok assms by (metis shell_ok_def)
  then have "served s (s\<lparr>sh_kfs := k\<rparr>)" using assms by (simp add: served_def shell_ok_def)
  then show ?thesis using served_error k by (simp add: fs_command_def Let_def)
qed

lemmas fs_commands_served = fs_command_served [of _ "Mkdir n" for n, simplified] fs_command_served [of _ "Touch n" for n, simplified]
  fs_command_served [of _ "Cd n" for n, simplified] fs_command_served [of _ "Rm n" for n, simplified] fs_command_served [of _ "Rm_rf n" for n, simplified]
  fs_command_served [of _ "Cp a b" for a b, simplified] fs_command_served [of _ "Mv a b" for a b, simplified]
  fs_command_served [of _ "Write_bin a b" for a b, simplified, folded fs_write_def] fs_command_served [of _ "Append a b" for a b, simplified]

lemma done_with_served: "\<exists>t. r = Some t \<and> served s t \<Longrightarrow> \<exists>t. done_with r = Done t \<and> served s t"
  by (auto simp: done_with_def)

lemma cmd_free_served: "shell_ok s \<Longrightarrow> \<exists>t. cmd_free s = Some t \<and> served s t"
proof -
  assume ok: "shell_ok s"
  then have "kmalloc_stats (sh_heap s) = Some (used_bytes (kblocks (sh_heap s)), KHEAP_SIZE, free_bytes (kblocks (sh_heap s)))"
    using kmalloc_stats_spec(1) by (simp add: shell_ok_def kheap_inv_def)
  then show ?thesis using served_refl [OF ok] by (auto simp: cmd_free_def Let_def intro!: served_sh_say served_term write_number_keeps)
qed

lemma cmd_rm_served: "shell_ok s \<Longrightarrow> \<exists>t. cmd_rm x s = Some t \<and> served s t"
  using fs_commands_served(4,5) [of s] by (auto simp: cmd_rm_def split: option.split intro: served_sh_say served_refl)

lemma commands_served:
  assumes "shell_ok s"
  shows "\<exists>t. cmd_cd x s = Some t \<and> served s t" "\<exists>t. cmd_mkdir x s = Some t \<and> served s t" "\<exists>t. cmd_touch x s = Some t \<and> served s t"
    "\<exists>t. cmd_write x s = Some t \<and> served s t" "\<exists>t. cmd_append x s = Some t \<and> served s t"
    "\<exists>t. cmd_cp x s = Some t \<and> served s t" "\<exists>t. cmd_mv x s = Some t \<and> served s t"
  using fs_commands_served [OF assms] served_sh_say [OF served_refl [OF assms]]
  by (auto simp: cmd_cd_def cmd_mkdir_def cmd_touch_def cmd_write_def cmd_append_def cmd_cp_def cmd_mv_def split: option.split)

lemma prints_served:
  assumes "shell_ok s"
  shows "served s (cmd_help s)" "served s (cmd_uname s)" "served s (cmd_whoami s)" "served s (cmd_history_list s)" "served s (cmd_pwd s)" "served s (cmd_cat x s)"
proof -
  note s = served_refl [OF assms]
  show "served s (cmd_help s)" unfolding cmd_help_def by (rule served_fold [OF served_sh_say s])
  show "served s (cmd_uname s)" "served s (cmd_whoami s)" "served s (cmd_pwd s)"
    unfolding cmd_uname_def cmd_whoami_def cmd_pwd_def by (intro served_sh_say s)+
  show "served s (cmd_history_list s)"
    using s by (auto simp: cmd_history_list_def intro!: served_sh_say served_fold served_term write_number_keeps)
  show "served s (cmd_cat x s)"
    using s by (auto simp: cmd_cat_def intro!: served_sh_say served_error split: prod.split option.split)
qed

lemma cmd_calc_served: "shell_ok s \<Longrightarrow> calc_eval x \<noteq> None \<or> x = [] \<Longrightarrow> \<exists>t. cmd_calc x s = Some t \<and> served s t"
  using served_refl [of s] by (auto simp: cmd_calc_def intro!: served_sh_say served_term write_number_keeps)

lemma execute_command_served:
  assumes ok: "shell_ok s"
  shows "execute_command ln s = Elsewhere \<or> (\<exists>t. execute_command ln s = Done t \<and> served s t)
    \<or> execute_command ln s = Fault \<and> (\<exists>x. ln = ''calc '' @ x \<and> calc_eval x = None)"
proof -
  note s = served_refl [OF ok]
  define goal where "goal r \<longleftrightarrow> r = Elsewhere \<or> (\<exists>t. r = Done t \<and> served s t) \<or> r = Fault \<and> (\<exists>x. ln = ''calc '' @ x \<and> calc_eval x = None)" for r
  have gd: "goal (Done u)" if "served s u" for u using that by (auto simp: goal_def)
  have gw: "goal (done_with r)" if "\<exists>t. r = Some t \<and> served s t" for r using done_with_served [OF that] by (simp add: goal_def)
  have ge: "goal Elsewhere" by (simp add: goal_def)
  have gi: "goal (if b then x else y)" if "b \<Longrightarrow> goal x" "goal y" for b x y using that by simp
  have calc0: "\<exists>t. cmd_calc [] s = Some t \<and> served s t" by (rule cmd_calc_served [OF ok]) simp
  have calc: "goal (done_with (cmd_calc (drop 5 ln) s))" if pre: "str_starts_with ln ''calc ''"
  proof -
    obtain x where x: "ln = ''calc '' @ x" using pre [unfolded str_starts_with_iff] by (rule exE)
    have d: "drop 5 ln = x" unfolding x by simp
    show ?thesis
    proof (cases "calc_eval x \<noteq> None \<or> x = []")
      case True
      then show ?thesis unfolding d by (rule gw [OF cmd_calc_served [OF ok]])
    next
      case False
      then have "calc_eval x = None" "x \<noteq> []" by blast+
      then have "done_with (cmd_calc x s) = Fault" "calc_eval x = None" by (simp_all add: cmd_calc_def done_with_def)
      then show ?thesis unfolding d goal_def using x by (intro disjI2 conjI exI [of _ x]) simp_all
    qed
  qed
  have "goal (execute_command ln s)" unfolding execute_command_def
    by (intro gi gd s prints_served [OF ok] terminal_initialize_served [OF ok] served_sh_say served_term fs_ls_keeps gw cmd_free_served [OF ok]
      commands_served [OF ok] cmd_rm_served [OF ok] calc0 calc ge)
  then show ?thesis by (simp add: goal_def)
qed

section \<open>Properties\<close>

lemma writestring_append: "terminal_writestring (a @ b) t = terminal_writestring b (terminal_writestring a t)"
  by (induction a arbitrary: t) simp_all

definition demo_shell :: shell where
  "demo_shell = \<lparr>history = replicate 16 [], history_count = 0, history_pos = 0, sh_kfs = boot_kfs, sh_heap = kmalloc_init zero_kheap, sh_term = demo_terminal\<rparr>"

lemma demo_shell_ok: "shell_ok demo_shell"
  using demo_terminal_ok(1) kheap_inv_init [of zero_kheap] by (simp add: shell_ok_def demo_shell_def HISTORY_SIZE_def)

text \<open>C39. A file-system operation typed at the prompt runs exactly that operation. When it fails, the file tree is what it was before and the screen has the
  line \<open>Error:\<close> with the message of \<open>fs_strerror\<close>; when it succeeds nothing is printed.\<close>

theorem typed_operation:
  assumes "shell_ok s" "typeable x"
  shows "\<exists>r k. run_op x (sh_kfs s) = Some (r, k) \<and> kfs_ok k
    \<and> (r = FS_OK \<longrightarrow> execute_command (line_of x) s = Done (s\<lparr>sh_kfs := k\<rparr>))
    \<and> (r \<noteq> FS_OK \<longrightarrow> fsc k = fsc (sh_kfs s)
        \<and> execute_command (line_of x) s = Done (s\<lparr>sh_kfs := k, sh_term := terminal_writestring (''Error: '' @ fs_strerror r @ [CHR 0x0A]) (sh_term s)\<rparr>))"
proof -
  have ok: "kfs_ok (sh_kfs s)" using assms(1) by (simp add: shell_ok_def)
  obtain r k where k: "run_op x (sh_kfs s) = Some (r, k)" "kfs_ok k" using run_op_ok [OF ok] by blast
  have msg: "print_fs_error r t = on_term (terminal_writestring (''Error: '' @ fs_strerror r @ [CHR 0x0A])) t" for t
    by (simp add: print_fs_error_def sh_say_def nl_def on_term_def writestring_append)
  have "execute_command (line_of x) s = Done (if r \<noteq> FS_OK then print_fs_error r (s\<lparr>sh_kfs := k\<rparr>) else s\<lparr>sh_kfs := k\<rparr>)"
    using line_runs_op [OF assms(2), of s] k by (simp add: fs_command_def done_with_def Let_def)
  then show ?thesis using k run_op_fails [OF ok k(1)] unfolding msg on_term_def by (intro exI [of _ r] exI [of _ k]) auto
qed

theorem typed_operation_witness:
  "\<exists>k. execute_command ''mkdir .'' demo_shell = Done (demo_shell\<lparr>sh_kfs := k, sh_term := terminal_writestring (''Error: Invalid name'' @ [CHR 0x0A]) (sh_term demo_shell)\<rparr>)
    \<and> fsc k = fsc (sh_kfs demo_shell)"
proof -
  have e: "run_op (Mkdir ''.'') s = Some (r, k) \<Longrightarrow> r = FS_ERR_INVALID_NAME" for s r k
    by (auto simp: fs_mkdir_def critical_def fs_mkdir_body_def fs_is_valid_name_def split: bind_splits)
  obtain r k where k: "run_op (Mkdir ''.'') (sh_kfs demo_shell) = Some (r, k)"
    "r \<noteq> FS_OK \<longrightarrow> fsc k = fsc (sh_kfs demo_shell) \<and> execute_command (line_of (Mkdir ''.'')) demo_shell =
      Done (demo_shell\<lparr>sh_kfs := k, sh_term := terminal_writestring (''Error: '' @ fs_strerror r @ [CHR 0x0A]) (sh_term demo_shell)\<rparr>)"
    using typed_operation [OF demo_shell_ok, of "Mkdir ''.''"] by auto
  have "r = FS_ERR_INVALID_NAME" by (rule e [OF k(1)])
  then show ?thesis using k(2) by (intro exI [of _ k]) simp
qed

lemma same_shell_ok: "same_shell s t \<Longrightarrow> shell_ok s \<Longrightarrow> shell_ok t"
  by (auto simp: same_shell_def shell_ok_def)

lemma ed_loop_same: "ed_loop m ks e s = Some (out, e', t) \<Longrightarrow> same_shell s t"
proof (induction m ks e s rule: ed_loop.induct)
  case (2 m c cs e s)
  show ?case
  proof (cases "c = KEY_ENTER")
    case True
    then show ?thesis using 2(2) by (auto intro!: same_shell_term same_shell_refl terminal_putchar_keeps)
  next
    case False
    then obtain e1 s1 where k: "ed_key m c e s = Some (e1, s1)" "ed_loop m cs e1 s1 = Some (out, e', t)" using 2(2) by (auto split: option.splits)
    show ?thesis using same_shell_trans [OF ed_key_same [OF k(1)] 2(1) [OF False k(1) refl k(2)]] .
  qed
qed (simp add: same_shell_refl)

lemma read_line_same: "read_line m b ks s = Some (out, e', t) \<Longrightarrow> same_shell s t"
  unfolding read_line_def
  by (auto split: prod.splits dest!: ed_loop_same intro: same_shell_trans [OF same_shell_pos [OF same_shell_refl]])

lemma history_add_length: "length (fold (\<lambda>i h. h[i := take n (h ! (i - 1))]) is h) = length (h :: cstring list)"
  by (induction "is" arbitrary: h) simp_all

lemma history_add_ok:
  assumes "shell_ok s"
  shows "shell_ok (history_add ln s)" "sh_heap (history_add ln s) = sh_heap s" "sh_kfs (history_add ln s) = sh_kfs s"
    "ln \<noteq> [] \<Longrightarrow> history (history_add ln s) ! 0 = take (CMD_BUFFER_SIZE - 1) ln"
proof -
  have "length (history s) = 16" using assms by (simp add: shell_ok_def HISTORY_SIZE_def)
  then show "ln \<noteq> [] \<Longrightarrow> history (history_add ln s) ! 0 = take (CMD_BUFFER_SIZE - 1) ln"
    unfolding history_add_def Let_def by (simp add: history_add_length [simplified])
qed (use assms in \<open>auto simp: history_add_def Let_def shell_ok_def history_add_length [simplified]\<close>)



end
