(* ===== verification/Spec2Isabelle.thy ===== *)
theory Spec2Isabelle
  imports Mlang_Sem Syscall_Props Timer Terminal_Props Ramfs_Props Kmalloc Calc Keyboard Mouse Interrupts Sched Fat32_Format Vfs_Props Part_Props Ulibc Kernel64 Sound Snake_Draw Desktop_Props Shell
begin

text \<open>
  A verification library for MyKernel, a small i386 operating system written in C: a kernel with drivers, a scheduler, a RAM
  file system and FAT32, system calls and an ELF loader for user programs, a script language, a graphical console, a
  desktop and games; a C library for its programs; and the beginnings of a 64-bit kernel.

  \<^bold>\<open>How the program hangs together.\<close> The boot code enters \<open>kernel_main\<close> (\<open>src/src/kernel.c\<close>), which sets up the descriptor tables and
  interrupt controllers, the heap, the file systems, the drivers and the scheduler, and starts the shell. Interrupts
  drive the keyboard, the mouse and the timer, whose tick drives the scheduler. The shell (\<open>src/src/shell.c\<close>) calls everything else:
  file systems through the mount table, the calculator, scripts, programs, games, settings. Programs come back into the
  kernel through interrupt 0x80, the dispatcher of \<open>src/src/syscall.c\<close>.

  \<^bold>\<open>Theories and the code they model.\<close> Every component is translated function by function; a definition has the name of the C
  function it models, statics are the fields of a record, and the loop bodies of long functions are definitions of their own.
  \<^item> \<open>Prelude\<close>, \<open>Bytes\<close>: machine words, C strings, table searches, little-endian fields.
  \<^item> \<open>Locks\<close>, \<open>Ramfs\<close> and its followers \<open>Ramfs_Inv\<close>, \<open>Ramfs_Ops\<close>, \<open>Ramfs_Path\<close>, \<open>Ramfs_Tree\<close>, \<open>Ramfs_Props\<close>: \<open>atomic.h\<close> and \<open>fs.c\<close>. A
    well-formedness invariant (a tree with unique valid names) kept by every operation, exact effects of removal, reading back
    what was written, paths.
  \<^item> \<open>Kmalloc\<close>, \<open>Umalloc\<close>: the first-fit heaps of \<open>kmalloc.c\<close> and \<open>user/lib/malloc.c\<close>; regions granted are fresh and disjoint, requests are refused
    exactly when nothing fits, freeing merges neighbours.
  \<^item> \<open>Calc\<close>, \<open>Mlang\<close>, \<open>Mlang_Sem\<close>: \<open>calc.c\<close> and \<open>mlang.c\<close> against a semantics of expressions and of structured scripts.
  \<^item> \<open>Keyboard\<close>, \<open>Mouse\<close>, \<open>Timer\<close>, \<open>Sound\<close>, \<open>Interrupts\<close>, \<open>Sched\<close>, \<open>Pci\<close>: the drivers, \<open>idt.c\<close>, \<open>gdt.c\<close>, \<open>irq.c\<close>, \<open>sched.c\<close>, \<open>pci.c\<close> and \<open>platform.c\<close>.
  \<^item> \<open>Font\<close>, \<open>Vbe\<close>, \<open>Terminal\<close>, \<open>Terminal_Props\<close>, \<open>Gfx\<close>, \<open>Screen\<close>: \<open>vbe.c\<close>, \<open>vga.c\<close>, \<open>serial.c\<close>, \<open>gfx.c\<close>; the text screen refines an abstract grid, the
    pixels of characters and rectangles are exact, and mode changes program every register.
  \<^item> \<open>Ata\<close>, \<open>Ata_Drive\<close>, \<open>Fat32\<close> and its followers, \<open>Part\<close>, \<open>Part_Props\<close>, \<open>Vfs\<close>, \<open>Vfs_Props\<close>: \<open>ata.c\<close>, \<open>fat32.c\<close>, \<open>part.c\<close>, \<open>vfs.c\<close>. Written files are read
    back on every well-formed volume; partitioning, formatting and mounting compose.
  \<^item> \<open>Umem\<close>, \<open>Syscall\<close>, \<open>Syscall_Numbers\<close>, \<open>Syscall_Inv\<close>, \<open>Syscall_Props\<close>: the dispatcher and all calls of \<open>syscall.c\<close>, \<open>power.c\<close>.
  \<^item> \<open>Elf\<close>, \<open>Dyld\<close>, \<open>Process\<close>, \<open>Ulibc\<close>: \<open>elf.c\<close>, \<open>dyld.c\<close>, \<open>process.c\<close>, \<open>user/lib/string.c\<close> and \<open>stdio.c\<close>.
  \<^item> \<open>Paging64\<close>, \<open>Kernel64\<close>: \<open>src64/paging64.c\<close>, \<open>src64/kernel64.c\<close> and the page tables of \<open>boot64.s\<close>.
  \<^item> \<open>Settings\<close>, \<open>Snake_Rng\<close>, \<open>Snake\<close>, \<open>Snake_Draw\<close>: \<open>settings.c\<close> and \<open>snake.c\<close>, on top of the screen and the file system.
  \<^item> \<open>Mkdraw\<close>, \<open>Mkdisp\<close>, \<open>Mkdisp_Cursor\<close>, \<open>Mkdisp_Compose\<close>, \<open>Mkdisp_Mem\<close>: the drawing routines of \<open>mkdraw.c\<close> and the compositor \<open>mkdisp.c\<close>. The
    cursor never damages the picture, a click hits the window that is seen, and windows own and return their memory.
  \<^item> \<open>Desktop\<close>, \<open>Desktop_Props\<close>: the desktop of \<open>desktop.c\<close> with its ten programs, icons, start menu and event loop; safe for every input.
  \<^item> \<open>Shell_Edit\<close>, \<open>Shell\<close>: the shell of \<open>shell.c\<close>: the line editor with history and completion refines an editor of two texts, a typed file-system
    operation runs exactly that operation and a failed one changes nothing, and no input breaks a turn of the shell but the two faults named.

  \<^bold>\<open>Interfaces.\<close> What one component relies on another for is a locale, interpreted on the model's definitions:
  \<open>region_allocator\<close> (\<open>Allocators\<close>; \<open>kh\<close> for the kernel heap, \<open>uh\<close> for the user heap), \<open>ring_queue\<close> (\<open>Ring_Buffers\<close>; \<open>kq\<close>, \<open>mq\<close>), \<open>raster\<close>
  (\<open>Raster\<close>; \<open>fb\<close> for the framebuffer, \<open>pb\<close> for pixel buffers, \<open>bb\<close> for the back buffer, and the plane of mode 13h), \<open>named_store\<close> (\<open>Stores\<close>; the variables of scripts and \<open>rf\<close>, the files of a directory) and
  \<open>ata_disk\<close> (\<open>Ata\<close>; \<open>pio_disk\<close>, the driver on a drive that follows the protocol).

  \<^bold>\<open>Errors, loops and bounds.\<close> Error codes are values of the result types. \<open>None\<close> is a run that does not return, or a fault, as each theory
  says; that an operation returns is proved, never assumed. Scripts nest at most 65 calls deep, because
  every nested call has fewer of the at most 64 lines. The polls of the disk driver have the bounds of the code. Heap requests are
  limited to \<open>2\<^sup>31 - 8\<close> bytes where a size must not wrap. The kernel window of the 64-bit tables has 512 pages. The search for a free
  cell in the game needs no bound: its generator is shown to visit every word. Input from the outside (keys, ticks, status
  reads, answers of hardware) is an argument or a field that holds the values to come, so that the theorems hold for all of
  it.

  \<^bold>\<open>Not modelled.\<close> Of the shell the commands that only pass their argument to another component (FAT32, mounting, scripts,
  programs, devices, games); \<open>install.c\<close>, \<open>pong.c\<close>, \<open>net.c\<close> and \<open>kernel.c\<close> are sequences of calls of modelled
  functions with their messages. The sound card (\<open>ac97.c\<close>) is driven by port and DMA transfers whose effect is the
  card's. Of the mouse and the serial port the polling of the controller is left out, of the settings the draining of the keyboard. Assembly
  (\<open>boot.s\<close>, \<open>isr.s\<close>, \<open>setjmp.s\<close>, the boot sectors) is modelled only where C code relies on its effect: the context switch, and the page
  tables of the 64-bit entry. Timing, caches and the interleaving of interrupts inside a C statement are not modelled.
\<close>

end
